(* ===== verification/Prelude.thy ===== *)
theory Prelude
  imports Complex_Main "HOL-Library.Word"
begin

text \<open>
  Shared vocabulary of the development: the machine types of the Rust sources, the
  checked and saturating integer operations of the standard library, slices, and the
  result-returning state operations in which the \<open>async fn\<close>s of the crates are written.

  \<^item> Fixed width integers are words (\<open>byte\<close>, \<open>u32\<close>, \<open>u64\<close>); \<open>usize\<close> counts and
    indices, which are bounded by the memory of the machine, are \<open>nat\<close>; \<open>i64\<close>
    timestamps are \<open>int\<close>.
  \<^item> The arithmetic is that of the release profile of \<open>Cargo.toml\<close>, which leaves the
    overflow checks off: plain \<open>+\<close> and \<open>-\<close> on fixed width integers wrap around.
  \<^item> \<open>f64\<close> is modelled by exact real arithmetic: rounding, infinities that are not
    written out in a definition and NaN are outside the model.
  \<^item> A Rust panic is a value of the type \<open>panic\<close>, an \<open>Err\<close> is the left
    side of a sum.
  \<^item> An operation on \<open>&self\<close> with interior mutability takes the state and returns the
    result and the state it leaves behind. The state is returned on \<open>Err\<close> as well, since
    Rust does not undo the writes made before an early return. \<open>tryR\<close> is the operator
    \<open>?\<close>.
\<close>

section \<open>Machine types\<close>

type_synonym byte = "8 word"
type_synonym bytes = "byte list"
type_synonym u32 = "32 word"
type_synonym u64 = "64 word"
type_synonym i64 = int
type_synonym f64 = real

text \<open>The panics the modelled code can raise.\<close>

datatype panic = AssertFailed | DivisionByZero | IndexOutOfBounds | UnwrapFailed

named_theorems arith_defs "definitions of the standard library's integer operations"
named_theorems result_simps "rewrite rules for result-returning operations"

section \<open>Integer operations of the standard library\<close>

definition checked_add :: "'l::len word \<Rightarrow> 'l word \<Rightarrow> 'l word option" where
  "checked_add a b = (if unat a + unat b < 2 ^ LENGTH('l) then Some (a + b) else None)"

definition checked_sub :: "'l::len word \<Rightarrow> 'l word \<Rightarrow> 'l word option" where
  "checked_sub a b = (if b \<le> a then Some (a - b) else None)"

definition sat_add :: "'l::len word \<Rightarrow> 'l word \<Rightarrow> 'l word" where
  "sat_add a b = (if unat a + unat b < 2 ^ LENGTH('l) then a + b else - 1)"

definition sat_sub :: "'l::len word \<Rightarrow> 'l word \<Rightarrow> 'l word" where
  "sat_sub a b = (if b \<le> a then a - b else 0)"

lemmas [arith_defs] = checked_add_def checked_sub_def sat_add_def sat_sub_def

lemma checked_add_Some_iff:
  "checked_add a b = Some c \<longleftrightarrow> unat c = unat a + unat b" for a b c :: "'l::len word"
proof (cases "unat a + unat b < 2 ^ LENGTH('l)")
  case True
  then have sum: "unat (a + b) = unat a + unat b"
    by (metis unat_add_lem)
  with True show ?thesis
    by (metis checked_add_def option.inject word_unat_eq_iff)
next
  case False
  then show ?thesis
    by (metis checked_add_def option.distinct(1) unsigned_less)
qed

lemma checked_add_None_iff:
  "checked_add a b = None \<longleftrightarrow> 2 ^ LENGTH('l) \<le> unat a + unat b" for a b :: "'l::len word"
  by (auto simp: checked_add_def)

lemma checked_sub_Some_iff:
  "checked_sub a b = Some c \<longleftrightarrow> b \<le> a \<and> c = a - b"
  by (auto simp: checked_sub_def)

lemma checked_sub_None_iff: "checked_sub a b = None \<longleftrightarrow> a < b"
  by (auto simp: checked_sub_def)

lemma unat_sub_le: "b \<le> a \<Longrightarrow> unat (a - b) = unat a - unat b" for a b :: "'l::len word"
  by (rule unat_sub)

lemma unat_sat_sub: "unat (sat_sub a b) = unat a - unat b" for a b :: "'l::len word"
  by (simp add: sat_sub_def unat_sub_le word_le_nat_alt)

lemma unat_sat_add: "unat (sat_add a b) = min (unat a + unat b) (2 ^ LENGTH('l) - 1)"
  for a b :: "'l::len word"
proof (cases "unat a + unat b < 2 ^ LENGTH('l)")
  case True
  then have "unat (a + b) = unat a + unat b"
    by (metis unat_add_lem)
  with True show ?thesis by (simp add: sat_add_def)
next
  case False
  then show ?thesis by (simp add: sat_add_def unsigned_minus_1_eq_mask mask_eq_exp_minus_1)
qed

lemma unat_u32_less: "unat (w :: u32) < 2 ^ 32"
proof -
  have "unat w < 2 ^ LENGTH(32)" by (rule unsigned_less)
  then show ?thesis by simp
qed

lemma unat_u64_less: "unat (w :: u64) < 2 ^ 64"
proof -
  have "unat w < 2 ^ LENGTH(64)" by (rule unsigned_less)
  then show ?thesis by simp
qed

lemma unat_ucast_u32_u64 [simp]: "unat (ucast (w :: u32) :: u64) = unat w"
  using unat_u32_less [of w] by (simp add: unsigned_ucast_eq take_bit_nat_eq_self)

text \<open>\<open>u64::to_le_bytes\<close>.\<close>

definition le_bytes :: "u64 \<Rightarrow> bytes" where
  "le_bytes w = map (\<lambda>i. ucast (drop_bit (8 * i) w)) [0..<8]"

lemma length_le_bytes [simp]: "length (le_bytes w) = 8"
  by (simp add: le_bytes_def)

section \<open>Slices\<close>

text \<open>\<open>xs.get(i)\<close>, and \<open>xs.get(i).copied().unwrap_or(0)\<close> on a vector of bytes.\<close>

definition vget :: "'a list \<Rightarrow> nat \<Rightarrow> 'a option" where
  "vget xs i = (if i < length xs then Some (xs ! i) else None)"

definition digit_at :: "bytes \<Rightarrow> nat \<Rightarrow> byte" where
  "digit_at xs i = (case vget xs i of None \<Rightarrow> 0 | Some b \<Rightarrow> b)"

lemma vget_simps [simp]:
  "vget [] i = None"
  "vget (x # xs) 0 = Some x"
  "vget (x # xs) (Suc i) = vget xs i"
  by (simp_all add: vget_def)

lemma vget_numeral [simp]: "vget (x # xs) (numeral n) = vget xs (pred_numeral n)"
  by (simp add: numeral_eq_Suc)

lemma vget_eq_Some_iff: "vget xs i = Some x \<longleftrightarrow> i < length xs \<and> xs ! i = x"
  by (auto simp: vget_def)

lemma digit_at_lt [simp]: "i < length xs \<Longrightarrow> digit_at xs i = xs ! i"
  by (simp add: digit_at_def vget_def)

lemma digit_at_ge [simp]: "length xs \<le> i \<Longrightarrow> digit_at xs i = 0"
  by (simp add: digit_at_def vget_def)

lemma replicate_numeral [simp]: "replicate (numeral k) x = x # replicate (pred_numeral k) x"
  by (simp add: numeral_eq_Suc)

section \<open>Operations that return a result and the state they leave\<close>

type_synonym ('e, 's, 'a) rop = "'s \<Rightarrow> ('e + 'a) \<times> 's"

definition okR :: "'a \<Rightarrow> ('e, 's, 'a) rop" where
  "okR x s = (Inr x, s)"

definition errR :: "'e \<Rightarrow> ('e, 's, 'a) rop" where
  "errR e s = (Inl e, s)"

definition tryR :: "('e, 's, 'a) rop \<Rightarrow> ('a \<Rightarrow> ('e, 's, 'b) rop) \<Rightarrow> ('e, 's, 'b) rop" where
  "tryR m f s = (case m s of (r, s') \<Rightarrow> (case r of Inl e \<Rightarrow> (Inl e, s') | Inr x \<Rightarrow> f x s'))"

definition modR :: "('s \<Rightarrow> 's) \<Rightarrow> ('e, 's, unit) rop" where
  "modR f s = (Inr (), f s)"

definition getR :: "('s \<Rightarrow> 'a) \<Rightarrow> ('e, 's, 'a) rop" where
  "getR f s = (Inr (f s), s)"

lemma okR_apply [simp, result_simps]: "okR x s = (Inr x, s)"
  by (simp add: okR_def)

lemma errR_apply [simp, result_simps]: "errR e s = (Inl e, s)"
  by (simp add: errR_def)

lemma modR_apply [simp, result_simps]: "modR f s = (Inr (), f s)"
  by (simp add: modR_def)

lemma getR_apply [simp, result_simps]: "getR f s = (Inr (f s), s)"
  by (simp add: getR_def)

lemma tryR_ok [simp, result_simps]: "m s = (Inr x, s') \<Longrightarrow> tryR m f s = f x s'"
  by (simp add: tryR_def)

lemma tryR_err [simp, result_simps]: "m s = (Inl e, s') \<Longrightarrow> tryR m f s = (Inl e, s')"
  by (simp add: tryR_def)

lemma tryR_Inr_iff:
  "tryR m f s = (Inr y, t) \<longleftrightarrow> (\<exists>x u. m s = (Inr x, u) \<and> f x u = (Inr y, t))"
  by (cases "m s") (auto simp: tryR_def split: sum.splits)

lemma tryR_Inl_iff:
  "tryR m f s = (Inl e, t) \<longleftrightarrow>
     m s = (Inl e, t) \<or> (\<exists>x u. m s = (Inr x, u) \<and> f x u = (Inl e, t))"
  by (cases "m s") (auto simp: tryR_def split: sum.splits)

text \<open>An operation on a component of the state, with its errors mapped: \<open>get\<close> and
  \<open>put\<close> select the component, \<open>err\<close> is the argument of \<open>map_err\<close>.\<close>

definition lift_op :: "('t \<Rightarrow> 's) \<Rightarrow> ('s \<Rightarrow> 't \<Rightarrow> 't) \<Rightarrow> ('e \<Rightarrow> 'd) \<Rightarrow> ('e, 's, 'a) rop \<Rightarrow> ('d, 't, 'a) rop" where
  "lift_op get put err f t = (case f (get t) of (r, s) \<Rightarrow> (map_sum err id r, put s t))"

lemma lift_op_apply [result_simps]: "f (get t) = (r, s) \<Longrightarrow> lift_op get put err f t = (map_sum err id r, put s t)"
  by (simp add: lift_op_def)

section \<open>Results without state\<close>

definition bindE :: "'e + 'a \<Rightarrow> ('a \<Rightarrow> 'e + 'b) \<Rightarrow> 'e + 'b" where
  "bindE r f = (case r of Inl e \<Rightarrow> Inl e | Inr x \<Rightarrow> f x)"

lemma bindE_simps [simp, result_simps]: "bindE (Inl e) f = Inl e" "bindE (Inr x) f = f x"
  by (simp_all add: bindE_def)

lemma bindE_Inr_iff: "bindE r f = Inr y \<longleftrightarrow> (\<exists>x. r = Inr x \<and> f x = Inr y)"
  by (cases r) auto

lemma bindE_Inl_iff: "bindE r f = Inl e \<longleftrightarrow> r = Inl e \<or> (\<exists>x. r = Inr x \<and> f x = Inl e)"
  by (cases r) auto

text \<open>Whether a result is \<open>Ok\<close>.\<close>

definition is_ok :: "'e + 'a \<Rightarrow> bool" where
  "is_ok r = (case r of Inl _ \<Rightarrow> False | Inr _ \<Rightarrow> True)"

lemma is_ok_simps [simp]: "is_ok (Inr x)" "\<not> is_ok (Inl e)"
  by (simp_all add: is_ok_def)

text \<open>A loop that applies a fallible step to every element and collects the results, leaving at the
  first error.\<close>

primrec mapE :: "('a \<Rightarrow> 'e + 'b) \<Rightarrow> 'a list \<Rightarrow> 'e + 'b list" where
  "mapE f [] = Inr []"
| "mapE f (x # xs) = bindE (f x) (\<lambda>y. bindE (mapE f xs) (\<lambda>ys. Inr (y # ys)))"

lemma mapE_total: "(\<And>x. x \<in> set xs \<Longrightarrow> f x = Inr (g x)) \<Longrightarrow> mapE f xs = Inr (map g xs)"
  by (induction xs) auto

section \<open>Sorted maps\<close>

text \<open>Insertion into a \<open>BTreeMap\<close>.\<close>

fun btree_insert :: "'k::linorder \<Rightarrow> 'v \<Rightarrow> ('k \<times> 'v) list \<Rightarrow> ('k \<times> 'v) list" where
  "btree_insert k v [] = [(k, v)]"
| "btree_insert k v ((k', v') # xs) =
     (if k < k' then (k, v) # (k', v') # xs
      else if k = k' then (k, v) # xs
      else (k', v') # btree_insert k v xs)"

lemma keys_btree_insert [simp]: "fst ` set (btree_insert k v xs) = insert k (fst ` set xs)"
  by (induction k v xs rule: btree_insert.induct) auto

lemma sorted_btree_insert: "sorted_wrt (<) (map fst xs) \<Longrightarrow> sorted_wrt (<) (map fst (btree_insert k v xs))"
proof (induction k v xs rule: btree_insert.induct)
  case (2 k v k' v' xs)
  then have tail: "sorted_wrt (<) (map fst (btree_insert k v xs))" if "\<not> k < k'" "k \<noteq> k'"
    using that by simp
  show ?case
  proof (cases "k < k' \<or> k = k'")
    case True
    with "2.prems" show ?thesis by auto
  next
    case False
    then have "\<forall>x \<in> fst ` set (btree_insert k v xs). k' < x"
      using "2.prems" by auto
    with tail False show ?thesis by auto
  qed
qed simp

lemma map_of_btree_insert:
  "sorted_wrt (<) (map fst xs) \<Longrightarrow> map_of (btree_insert k v xs) = (map_of xs)(k \<mapsto> v)"
  by (induction k v xs rule: btree_insert.induct) (auto simp: fun_eq_iff)

definition btree_of :: "('k::linorder \<times> 'v) list \<Rightarrow> ('k \<times> 'v) list" where
  "btree_of m = foldl (\<lambda>sorted (k, v). btree_insert k v sorted) [] m"

lemma btree_of_loop:
  assumes "sorted_wrt (<) (map fst acc)" and "distinct (map fst m)"
  shows "sorted_wrt (<) (map fst (foldl (\<lambda>sorted (k, v). btree_insert k v sorted) acc m)) \<and>
    map_of (foldl (\<lambda>sorted (k, v). btree_insert k v sorted) acc m) = map_of acc ++ map_of m"
  using assms
proof (induction m arbitrary: acc)
  case (Cons e m)
  obtain k v where e: "e = (k, v)" by force
  have k: "map_of m k = None"
    using Cons.prems(2) by (simp add: e map_of_eq_None_iff)
  have upd: "map_of (btree_insert k v acc) ++ map_of m = map_of acc ++ map_of (e # m)"
    using k by (auto simp: e map_of_btree_insert [OF Cons.prems(1)] fun_eq_iff map_add_def split: option.split)
  show ?case
    using Cons.IH [of "btree_insert k v acc", unfolded upd] Cons.prems
    by (simp only: e foldl_Cons prod.case sorted_btree_insert list.map distinct.simps simp_thms fst_conv)
qed simp

lemma btree_of_spec:
  assumes "distinct (map fst m)"
  shows sorted_btree_of: "sorted_wrt (<) (map fst (btree_of m))" and map_of_btree_of: "map_of (btree_of m) = map_of m"
  using btree_of_loop [of "[]" m] assms by (simp_all add: btree_of_def)

lemma sorted_map_unique:
  fixes xs ys :: "('k::linorder \<times> 'v) list"
  assumes "sorted_wrt (<) (map fst xs)" and "sorted_wrt (<) (map fst ys)" and "map_of xs = map_of ys"
  shows "xs = ys"
proof (rule map_sorted_distinct_set_unique [of fst])
  have distinct: "distinct (map fst xs)" "distinct (map fst ys)"
    using assms(1,2) by (simp_all add: strict_sorted_iff)
  then show "distinct (map fst xs)" "distinct (map fst ys)" .
  show "set xs = set ys"
    using distinct assms(3) by (metis map_of_eqI subsetI subset_antisym map_of_eq_Some_iff surj_pair)
  then show "inj_on fst (set xs \<union> set ys)"
    using distinct(1) by (simp add: distinct_map)
  show "sorted (map fst xs)" "sorted (map fst ys)"
    using assms(1,2) by (simp_all add: strict_sorted_iff)
qed

lemma btree_of_sorted: "sorted_wrt (<) (map fst m) \<Longrightarrow> btree_of m = m" for m :: "('k::linorder \<times> 'v) list"
proof -
  assume sorted: "sorted_wrt (<) (map fst m)"
  then have "distinct (map fst m)"
    by (simp add: strict_sorted_iff)
  then show ?thesis
    by (metis sorted sorted_map_unique sorted_btree_of map_of_btree_of)
qed

section \<open>Runs\<close>

text \<open>Seconds of a clock that counts milliseconds, \<open>DateTime::timestamp\<close>.\<close>

definition unix_secs :: "i64 \<Rightarrow> i64" where
  "unix_secs now = now div 1000"

lemma foldl_invariant:
  assumes "I s" and "\<And>s x. I s \<Longrightarrow> x \<in> set xs \<Longrightarrow> I (f s x)"
  shows "I (foldl f s xs)"
  using assms by (induction xs arbitrary: s) auto

end
