(* ===== verification/Padic_Types.thy ===== *)
theory Padic_Types
  imports Prelude
begin

text \<open>
  The p-adic features of a message (\<open>crates/adic-types/src/features.rs\<close>): digit
  expansions \<open>QpDigits\<close>, their balls, and the per-axis feature vector of a message.
  \<open>BigUint\<close> values are natural numbers; \<open>BigUint\<close>'s remainder by zero panics, and
  the cast \<open>as u8\<close> of a digit truncates it. The lemmas say which number a digit vector
  stands for (\<open>digits_value\<close>, the Horner sum of the digits).
\<close>

named_theorems padic_defs "the digit-level operations"

section \<open>Data\<close>

datatype axis_id = AxisId (axis_index: u32)

record qp_digits =
  qd_digits :: bytes
  qd_p :: u32

record axis_phi =
  ap_axis :: axis_id
  ap_digits :: qp_digits

record adic_features =
  af_phi :: "axis_phi list"

section \<open>Operations\<close>

text \<open>
  The digit loop of \<open>QpDigits::new\<close>: at most \<open>precision\<close> rounds, left as soon as the
  quotient is zero.
\<close>

fun qp_push_digits :: "nat \<Rightarrow> nat \<Rightarrow> nat \<Rightarrow> bytes" where
  "qp_push_digits p v 0 = []"
| "qp_push_digits p v (Suc rounds) =
     (let digit = of_nat (v mod p mod 2 ^ 32);
          v' = v div p
      in digit # (if v' = 0 then [] else qp_push_digits p v' rounds))"

definition pad_zeros :: "bytes \<Rightarrow> nat \<Rightarrow> bytes" where
  "pad_zeros ds precision = ds @ replicate (precision - length ds) 0"

definition qp_new :: "nat \<Rightarrow> u32 \<Rightarrow> nat \<Rightarrow> panic + qp_digits" where
  "qp_new value p precision =
     (if p = 0 \<and> 0 < precision then Inl DivisionByZero
      else Inr \<lparr>qd_digits = pad_zeros (qp_push_digits (unat p) value precision) precision,
                qd_p = p\<rparr>)"

definition qp_from_u64 :: "u64 \<Rightarrow> u32 \<Rightarrow> nat \<Rightarrow> panic + qp_digits" where
  "qp_from_u64 value p precision = qp_new (unat value) p precision"

definition qp_ball_id :: "qp_digits \<Rightarrow> nat \<Rightarrow> bytes" where
  "qp_ball_id x radius = take radius (qd_digits x)"

definition qp_is_zero :: "qp_digits \<Rightarrow> bool" where
  "qp_is_zero x = list_all (\<lambda>d. d = 0) (qd_digits x)"

definition qp_to_bytes :: "qp_digits \<Rightarrow> bytes" where
  "qp_to_bytes x = qd_digits x"

definition axis_phi_new :: "u32 \<Rightarrow> qp_digits \<Rightarrow> axis_phi" where
  "axis_phi_new axis ds = \<lparr>ap_axis = AxisId axis, ap_digits = ds\<rparr>"

definition get_axis :: "adic_features \<Rightarrow> axis_id \<Rightarrow> axis_phi option" where
  "get_axis f axis = find (\<lambda>p. ap_axis p = axis) (af_phi f)"

definition dimension :: "adic_features \<Rightarrow> nat" where
  "dimension f = length (af_phi f)"

lemmas [padic_defs] = qp_new_def qp_from_u64_def qp_ball_id_def pad_zeros_def

section \<open>The number a digit vector stands for\<close>

fun digits_value :: "nat \<Rightarrow> bytes \<Rightarrow> nat" where
  "digits_value p [] = 0"
| "digits_value p (d # ds) = unat d + p * digits_value p ds"

definition digits_below :: "nat \<Rightarrow> bytes \<Rightarrow> bool" where
  "digits_below p ds \<longleftrightarrow> list_all (\<lambda>d. unat d < p) ds"

lemma digits_below_simps [simp]:
  "digits_below p []"
  "digits_below p (d # ds) \<longleftrightarrow> unat d < p \<and> digits_below p ds"
  "digits_below p (xs @ ys) \<longleftrightarrow> digits_below p xs \<and> digits_below p ys"
  by (auto simp: digits_below_def)

lemma digits_below_take: "digits_below p ds \<Longrightarrow> digits_below p (take n ds)"
  by (auto simp: digits_below_def list_all_iff dest: in_set_takeD)

lemma digits_value_append:
  "digits_value p (xs @ ys) = digits_value p xs + p ^ length xs * digits_value p ys"
  by (induction xs) (auto simp: algebra_simps)

lemma digits_value_zeros [simp]: "digits_value p (replicate n 0) = 0"
  by (induction n) auto

lemma digits_below_zeros: "0 < p \<Longrightarrow> digits_below p (replicate n 0)"
  by (auto simp: digits_below_def list_all_iff)

lemma digits_value_bound:
  "digits_below p ds \<Longrightarrow> digits_value p ds < p ^ length ds"
proof (induction ds)
  case Nil
  then show ?case by simp
next
  case (Cons d ds)
  then have d: "unat d < p" and "Suc (digits_value p ds) \<le> p ^ length ds"
    by auto
  then have "p * Suc (digits_value p ds) \<le> p * p ^ length ds"
    by (intro mult_le_mono2)
  with d show ?case by simp
qed

lemma digits_value_inj:
  "\<lbrakk>digits_below p xs; digits_below p ys; length xs = length ys;
    digits_value p xs = digits_value p ys\<rbrakk> \<Longrightarrow> xs = ys"
proof (induction xs arbitrary: ys)
  case Nil
  then show ?case by simp
next
  case (Cons x xs)
  then obtain y ys' where ys: "ys = y # ys'" by (cases ys) auto
  with Cons.prems have lt: "unat x < p" "unat y < p" and
    eq: "unat x + p * digits_value p xs = unat y + p * digits_value p ys'"
    by auto
  have "(unat x + p * digits_value p xs) mod p = unat x" "(unat y + p * digits_value p ys') mod p = unat y"
    using lt by auto
  with eq have xy: "unat x = unat y" by simp
  with eq lt have "digits_value p xs = digits_value p ys'" by simp
  moreover have "digits_below p xs" "digits_below p ys'" "length xs = length ys'"
    using Cons.prems ys by simp_all
  ultimately have "xs = ys'" by (intro Cons.IH)
  with xy ys show ?case by (simp add: word_unat_eq_iff)
qed

lemma digits_value_mod_take:
  assumes "digits_below p ds" and "m \<le> length ds"
  shows "digits_value p ds mod p ^ m = digits_value p (take m ds)"
proof -
  have "digits_value p ds = digits_value p (take m ds) + p ^ m * digits_value p (drop m ds)"
    using digits_value_append [of p "take m ds" "drop m ds"] assms(2) by simp
  moreover have "digits_value p (take m ds) < p ^ m"
    using digits_value_bound [OF digits_below_take [OF assms(1)], of m] assms(2)
    by (simp add: min_absorb2)
  ultimately show ?thesis by simp
qed

section \<open>What \<open>QpDigits::new\<close> computes\<close>

lemma length_qp_push_digits: "length (qp_push_digits p v n) \<le> n"
  by (induction p v n rule: qp_push_digits.induct) (auto simp: Let_def)

lemma length_pad_zeros: "length ds \<le> n \<Longrightarrow> length (pad_zeros ds n) = n"
  by (simp add: pad_zeros_def)

lemma unat_digit:
  assumes "0 < p" "p \<le> 256"
  shows "unat (of_nat (v mod p mod 2 ^ 32) :: byte) = v mod p"
proof -
  have "v mod p < 256"
    using assms by (meson mod_less_divisor order_less_le_trans)
  then show ?thesis by (simp add: unat_of_nat)
qed

lemma qp_push_digits_below:
  "0 < p \<Longrightarrow> p \<le> 256 \<Longrightarrow> digits_below p (qp_push_digits p v n)"
proof (induction p v n rule: qp_push_digits.induct)
  case (2 p v rounds)
  then show ?case
    using unat_digit [of p v] by (auto simp: Let_def)
qed simp

lemma qp_push_digits_value:
  "1 < p \<Longrightarrow> p \<le> 256 \<Longrightarrow> digits_value p (qp_push_digits p v n) = v mod p ^ n"
proof (induction p v n rule: qp_push_digits.induct)
  case (1 p v)
  then show ?case by simp
next
  case (2 p v rounds)
  have digit: "unat (of_nat (v mod p mod 2 ^ 32) :: byte) = v mod p"
    using 2 by (intro unat_digit) auto
  have step: "v mod p + p * (v div p mod p ^ rounds) = v mod p ^ Suc rounds"
    by (metis add.commute mod_mult2_eq power_Suc)
  show ?case
  proof (cases "v div p = 0")
    case True
    then have "v mod p ^ Suc rounds = v mod p"
      using step by simp
    with True digit show ?thesis by (simp add: Let_def)
  next
    case False
    with 2 digit step show ?thesis by (simp add: Let_def)
  qed
qed

lemma qp_push_digits_numeral [simp]:
  "qp_push_digits p v (numeral k) = of_nat (v mod p mod 2 ^ 32) #
     (if v div p = 0 then [] else qp_push_digits p (v div p) (pred_numeral k))"
  by (simp add: numeral_eq_Suc [of k] Let_def)

lemma qp_new_Inr:
  assumes "qp_new v p n = Inr x"
  shows "qd_p x = p" and "length (qd_digits x) = n"
  using assms by (auto simp: padic_defs length_qp_push_digits split: if_splits)

lemma qp_new_digits:
  assumes "qp_new v p n = Inr x" and "1 < unat p" and "unat p \<le> 256"
  shows "digits_below (unat p) (qd_digits x)"
    and "digits_value (unat p) (qd_digits x) = v mod unat p ^ n"
proof -
  have x: "qd_digits x = pad_zeros (qp_push_digits (unat p) v n) n"
    using assms by (auto simp: qp_new_def split: if_splits)
  show "digits_below (unat p) (qd_digits x)"
    using assms(2,3) by (simp add: x pad_zeros_def qp_push_digits_below digits_below_zeros)
  show "digits_value (unat p) (qd_digits x) = v mod unat p ^ n"
    using assms(2,3) by (simp add: x pad_zeros_def digits_value_append qp_push_digits_value)
qed

lemma qp_new_ok: "p \<noteq> 0 \<Longrightarrow> \<exists>x. qp_new v p n = Inr x"
  by (simp add: qp_new_def)

end
