(* ===== verification/Padic_Math.thy ===== *)
theory Padic_Math
  imports Padic_Types
begin

text \<open>
  The p-adic arithmetic of \<open>crates/adic-math/src\<close>: valuations of integers
  (\<open>padic.rs\<close>, \<open>valuation.rs\<close>), the valuation of a difference of digit vectors and
  the distance and proximity built on it (\<open>distance.rs\<close>), and balls (\<open>ball.rs\<close>).
  The division loops of \<open>vp\<close> need not end (\<open>p = 1\<close>), so they are partial functions:
  \<^term>\<open>None\<close> is a loop that does not return. \<open>assert_eq!\<close> on the primes is the
  panic \<open>AssertFailed\<close>.
\<close>

section \<open>Valuations of integers\<close>

partial_function (option) vp_loop :: "u64 \<Rightarrow> u64 \<Rightarrow> u32 \<Rightarrow> u32 option" where
  "vp_loop p64 m v = (if m mod p64 = 0 then vp_loop p64 (m div p64) (v + 1) else Some v)"

definition vp :: "u64 \<Rightarrow> u32 \<Rightarrow> (panic + u32) option" where
  "vp n p =
     (if n = 0 then Some (Inr (- 1))
      else if p = 0 then Some (Inl DivisionByZero)
      else map_option Inr (vp_loop (ucast p) n 0))"

partial_function (option) vp_big_loop :: "nat \<Rightarrow> nat \<Rightarrow> u32 \<Rightarrow> u32 option" where
  "vp_big_loop p m v = (if m mod p = 0 then vp_big_loop p (m div p) (v + 1) else Some v)"

definition vp_bigint :: "nat \<Rightarrow> u32 \<Rightarrow> (panic + u32) option" where
  "vp_bigint n p =
     (if n = 0 then Some (Inr (- 1))
      else if p = 0 then Some (Inl DivisionByZero)
      else map_option Inr (vp_big_loop (unat p) n 0))"

definition compute_unit :: "nat \<Rightarrow> u32 \<Rightarrow> u32 \<Rightarrow> panic + nat" where
  "compute_unit n p valuation =
     (if n = 0 then Inr 0
      else if unat p ^ unat valuation = 0 then Inl DivisionByZero
      else Inr (n div unat p ^ unat valuation))"

fun expand_loop :: "nat \<Rightarrow> nat \<Rightarrow> nat \<Rightarrow> bytes" where
  "expand_loop p value 0 = []"
| "expand_loop p value (Suc rounds) =
     (if value = 0 then 0 # expand_loop p value rounds
      else of_nat (value mod p mod 2 ^ 32) # expand_loop p (value div p) rounds)"

definition expand_padic :: "nat \<Rightarrow> u32 \<Rightarrow> nat \<Rightarrow> panic + bytes" where
  "expand_padic n p precision =
     (if p = 0 \<and> n \<noteq> 0 \<and> 0 < precision then Inl DivisionByZero
      else Inr (expand_loop (unat p) n precision))"

section \<open>\<open>PadicValuation\<close>\<close>

record padic_valuation =
  val_value :: u32
  val_infinite :: bool

definition val_new :: "u32 \<Rightarrow> padic_valuation" where
  "val_new v = \<lparr>val_value = v, val_infinite = False\<rparr>"

definition val_inf :: padic_valuation where
  "val_inf = \<lparr>val_value = - 1, val_infinite = True\<rparr>"

definition val_is_zero :: "padic_valuation \<Rightarrow> bool" where
  "val_is_zero a \<longleftrightarrow> \<not> val_infinite a \<and> val_value a = 0"

definition val_finite_value :: "padic_valuation \<Rightarrow> u32 option" where
  "val_finite_value a = (if val_infinite a then None else Some (val_value a))"

definition val_min :: "padic_valuation \<Rightarrow> padic_valuation \<Rightarrow> padic_valuation" where
  "val_min a b =
     (if val_infinite a then (if val_infinite b then val_inf else b)
      else if val_infinite b then a
      else val_new (min (val_value a) (val_value b)))"

definition val_max :: "padic_valuation \<Rightarrow> padic_valuation \<Rightarrow> padic_valuation" where
  "val_max a b =
     (if val_infinite a \<or> val_infinite b then val_inf
      else val_new (max (val_value a) (val_value b)))"

definition compute_valuation :: "nat \<Rightarrow> u32 \<Rightarrow> (panic + padic_valuation) option" where
  "compute_valuation n p =
     (if n = 0 then Some (Inr val_inf)
      else if p = 0 then Some (Inl DivisionByZero)
      else map_option (\<lambda>v. Inr (val_new v)) (vp_big_loop (unat p) n 0))"

definition valuation_of_sum :: "padic_valuation \<Rightarrow> padic_valuation \<Rightarrow> padic_valuation" where
  "valuation_of_sum a b = val_min a b"

definition valuation_of_product :: "padic_valuation \<Rightarrow> padic_valuation \<Rightarrow> padic_valuation" where
  "valuation_of_product a b =
     (if val_infinite a \<or> val_infinite b then val_inf
      else val_new (val_value a + val_value b))"

definition valuation_of_quotient ::
    "padic_valuation \<Rightarrow> padic_valuation \<Rightarrow> padic_valuation option" where
  "valuation_of_quotient a b =
     (if val_infinite b then None
      else if val_infinite a then Some val_inf
      else Some (val_new (sat_sub (val_value a) (val_value b))))"

section \<open>Differences of digit vectors\<close>

fun vp_diff_loop :: "bytes \<Rightarrow> bytes \<Rightarrow> nat \<Rightarrow> nat \<Rightarrow> nat" where
  "vp_diff_loop xs ys i 0 = i"
| "vp_diff_loop xs ys i (Suc rounds) =
     (if digit_at xs i \<noteq> digit_at ys i then i else vp_diff_loop xs ys (Suc i) rounds)"

definition vp_diff :: "qp_digits \<Rightarrow> qp_digits \<Rightarrow> panic + u32" where
  "vp_diff x y =
     (if qd_p x \<noteq> qd_p y then Inl AssertFailed
      else Inr (of_nat (vp_diff_loop (qd_digits x) (qd_digits y) 0
                  (max (length (qd_digits x)) (length (qd_digits y))))))"

definition padic_distance :: "qp_digits \<Rightarrow> qp_digits \<Rightarrow> panic + f64" where
  "padic_distance x y =
     (if qd_p x \<noteq> qd_p y then Inl AssertFailed
      else if qd_digits x = qd_digits y then Inr 0
      else (case vp_diff x y of
              Inl e \<Rightarrow> Inl e
            | Inr v \<Rightarrow> Inr (real (unat (qd_p x)) powi (- sint v))))"

definition proximity_score :: "qp_digits \<Rightarrow> qp_digits \<Rightarrow> u32 \<Rightarrow> panic + f64" where
  "proximity_score x y radius =
     (if radius = 0 then Inr 0
      else (case vp_diff x y of
              Inl e \<Rightarrow> Inl e
            | Inr v \<Rightarrow> Inr (real (unat (min v radius)) / real (unat radius))))"

definition proximity_weight :: "qp_digits \<Rightarrow> qp_digits \<Rightarrow> u32 \<Rightarrow> f64 \<Rightarrow> panic + f64" where
  "proximity_weight x y radius lam =
     map_sum id (\<lambda>score. exp (lam * score)) (proximity_score x y radius)"

definition are_close :: "qp_digits \<Rightarrow> qp_digits \<Rightarrow> u32 \<Rightarrow> panic + bool" where
  "are_close x y min_valuation =
     (case vp_diff x y of Inl e \<Rightarrow> Inl e | Inr v \<Rightarrow> Inr (min_valuation \<le> v))"

text \<open>
  \<open>find_closest\<close> and \<open>find_furthest\<close> differ in the comparison \<open>better\<close> only: the loop
  keeps the best index so far and replaces it when the new valuation is strictly better.
\<close>

fun best_index_loop :: "(u32 \<Rightarrow> u32 \<Rightarrow> bool) \<Rightarrow> qp_digits \<Rightarrow> qp_digits list \<Rightarrow> nat \<Rightarrow>
    nat \<Rightarrow> u32 \<Rightarrow> panic + nat" where
  "best_index_loop better reference [] i best_idx best_val = Inr best_idx"
| "best_index_loop better reference (c # cs) i best_idx best_val =
     (case vp_diff reference c of
        Inl e \<Rightarrow> Inl e
      | Inr val \<Rightarrow>
          (if better val best_val then best_index_loop better reference cs (Suc i) i val
           else best_index_loop better reference cs (Suc i) best_idx best_val))"

definition find_closest :: "qp_digits \<Rightarrow> qp_digits list \<Rightarrow> panic + nat option" where
  "find_closest reference candidates =
     (case candidates of
        [] \<Rightarrow> Inr None
      | c # cs \<Rightarrow>
          (case vp_diff reference c of
             Inl e \<Rightarrow> Inl e
           | Inr v \<Rightarrow> map_sum id Some (best_index_loop (\<lambda>val best. best < val) reference cs 1 0 v)))"

definition find_furthest :: "qp_digits \<Rightarrow> qp_digits list \<Rightarrow> panic + nat option" where
  "find_furthest reference candidates =
     (case candidates of
        [] \<Rightarrow> Inr None
      | c # cs \<Rightarrow>
          (case vp_diff reference c of
             Inl e \<Rightarrow> Inl e
           | Inr v \<Rightarrow> map_sum id Some (best_index_loop (\<lambda>val worst. val < worst) reference cs 1 0 v)))"

section \<open>Balls\<close>

definition ball_id :: "qp_digits \<Rightarrow> nat \<Rightarrow> bytes" where
  "ball_id x radius = qp_ball_id x radius"

fun distinct_balls_loop :: "qp_digits list \<Rightarrow> nat \<Rightarrow> nat \<Rightarrow> bytes set \<Rightarrow> bool" where
  "distinct_balls_loop [] radius min_distinct unique_balls = (min_distinct \<le> card unique_balls)"
| "distinct_balls_loop (x # xs) radius min_distinct unique_balls =
     (let unique_balls' = insert (ball_id x radius) unique_balls
      in if min_distinct \<le> card unique_balls' then True
         else distinct_balls_loop xs radius min_distinct unique_balls')"

definition balls_are_distinct :: "qp_digits list \<Rightarrow> nat \<Rightarrow> nat \<Rightarrow> bool" where
  "balls_are_distinct points radius min_distinct =
     distinct_balls_loop points radius min_distinct {}"

definition count_distinct_balls :: "qp_digits list \<Rightarrow> nat \<Rightarrow> nat" where
  "count_distinct_balls points radius =
     card (foldl (\<lambda>unique_balls x. insert (ball_id x radius) unique_balls) {} points)"

fun in_ball_loop :: "bytes \<Rightarrow> bytes \<Rightarrow> nat \<Rightarrow> nat \<Rightarrow> bool" where
  "in_ball_loop xs cs i 0 = True"
| "in_ball_loop xs cs i (Suc rounds) =
     (if digit_at xs i \<noteq> digit_at cs i then False else in_ball_loop xs cs (Suc i) rounds)"

definition is_in_ball :: "qp_digits \<Rightarrow> qp_digits \<Rightarrow> nat \<Rightarrow> panic + bool" where
  "is_in_ball x center radius =
     (if qd_p x \<noteq> qd_p center then Inl AssertFailed
      else Inr (in_ball_loop (qd_digits x) (qd_digits center) 0 radius))"

definition find_ball_representative :: "qp_digits list \<Rightarrow> nat \<Rightarrow> bytes option" where
  "find_ball_representative points radius =
     (case points of
        [] \<Rightarrow> None
      | x # xs \<Rightarrow>
          (let first_id = ball_id x radius
           in if list_all (\<lambda>y. ball_id y radius = first_id) xs then Some first_id else None))"

section \<open>Facts on the difference of digit vectors\<close>

text \<open>\<open>agree xs ys m\<close>: the first \<open>m\<close> digits coincide, missing digits counting as 0.\<close>

definition agree :: "bytes \<Rightarrow> bytes \<Rightarrow> nat \<Rightarrow> bool" where
  "agree xs ys m \<longleftrightarrow> (\<forall>j < m. digit_at xs j = digit_at ys j)"

lemma agree_refl [simp]: "agree xs xs m"
  by (simp add: agree_def)

lemma agree_sym: "agree xs ys m \<Longrightarrow> agree ys xs m"
  by (simp add: agree_def)

lemma agree_commute: "agree xs ys m \<longleftrightarrow> agree ys xs m"
  by (auto intro: agree_sym)

lemma agree_trans: "agree xs ys m \<Longrightarrow> agree ys zs m \<Longrightarrow> agree xs zs m"
  by (simp add: agree_def)

lemma agree_le: "agree xs ys m \<Longrightarrow> k \<le> m \<Longrightarrow> agree xs ys k"
  by (simp add: agree_def)

lemma agree_take:
  "\<lbrakk>m \<le> length xs; m \<le> length ys\<rbrakk> \<Longrightarrow> agree xs ys m \<longleftrightarrow> take m xs = take m ys"
  by (auto simp: agree_def list_eq_iff_nth_eq)

lemma vp_diff_loop_bounds:
  "i \<le> vp_diff_loop xs ys i k \<and> vp_diff_loop xs ys i k \<le> i + k"
  by (induction xs ys i k rule: vp_diff_loop.induct) auto

lemma vp_diff_loop_ge_iff:
  "m \<le> i + k \<Longrightarrow>
   m \<le> vp_diff_loop xs ys i k \<longleftrightarrow> (\<forall>j. i \<le> j \<and> j < m \<longrightarrow> digit_at xs j = digit_at ys j)"
proof (induction xs ys i k rule: vp_diff_loop.induct)
  case (1 xs ys i)
  then show ?case by auto
next
  case (2 xs ys i rounds)
  show ?case
  proof (cases "digit_at xs i = digit_at ys i")
    case True
    with 2 have "m \<le> vp_diff_loop xs ys i (Suc rounds) \<longleftrightarrow>
        (\<forall>j. Suc i \<le> j \<and> j < m \<longrightarrow> digit_at xs j = digit_at ys j)"
      by simp
    also have "\<dots> \<longleftrightarrow> (\<forall>j. i \<le> j \<and> j < m \<longrightarrow> digit_at xs j = digit_at ys j)"
      using True by (metis Suc_leI le_antisym not_less_eq_eq le_SucI)
    finally show ?thesis .
  next
    case False
    then show ?thesis by (auto simp: not_less)
  qed
qed

lemma vp_diff_loop_agree:
  "m \<le> k \<Longrightarrow> m \<le> vp_diff_loop xs ys 0 k \<longleftrightarrow> agree xs ys m"
  by (simp add: vp_diff_loop_ge_iff agree_def)

definition vd_len :: "qp_digits \<Rightarrow> qp_digits \<Rightarrow> nat" where
  "vd_len x y = max (length (qd_digits x)) (length (qd_digits y))"

lemma vp_diff_loop_numeral [simp]:
  "vp_diff_loop xs ys i (numeral k) =
     (if digit_at xs i \<noteq> digit_at ys i then i else vp_diff_loop xs ys (Suc i) (pred_numeral k))"
  by (simp add: numeral_eq_Suc [of k])

lemma vp_diff_unat:
  assumes "vp_diff x y = Inr v" and "vd_len x y < 2 ^ 32"
  shows "unat v = vp_diff_loop (qd_digits x) (qd_digits y) 0 (vd_len x y)"
proof -
  have "vp_diff_loop (qd_digits x) (qd_digits y) 0 (vd_len x y) < 2 ^ 32"
    using vp_diff_loop_bounds [of 0 "qd_digits x" "qd_digits y" "vd_len x y"] assms(2) by simp
  then show ?thesis
    using assms(1) by (auto simp: vp_diff_def vd_len_def unat_of_nat split: if_splits)
qed

lemma vp_diff_ge_iff:
  assumes "vp_diff x y = Inr v" and "vd_len x y < 2 ^ 32" and "m \<le> vd_len x y"
  shows "m \<le> unat v \<longleftrightarrow> agree (qd_digits x) (qd_digits y) m"
  using assms by (simp add: vp_diff_unat vp_diff_loop_agree)

lemma vp_diff_le_len:
  assumes "vp_diff x y = Inr v" and "vd_len x y < 2 ^ 32"
  shows "unat v \<le> vd_len x y"
  using vp_diff_loop_bounds [of 0 "qd_digits x" "qd_digits y" "vd_len x y"] assms
  by (simp add: vp_diff_unat)

lemma vp_diff_commute: "vp_diff x y = vp_diff y x"
proof -
  have "vp_diff_loop xs ys i k = vp_diff_loop ys xs i k" for xs ys i k
    by (induction xs ys i k rule: vp_diff_loop.induct) auto
  then show ?thesis by (simp add: vp_diff_def max.commute)
qed

lemma vp_diff_Inr_iff: "(\<exists>v. vp_diff x y = Inr v) \<longleftrightarrow> qd_p x = qd_p y"
  by (simp add: vp_diff_def)


text \<open>Three naturals of which any two bound the third from below, as the sides of a
  triangle do in an ultrametric space.\<close>

lemma isosceles:
  fixes a b c :: nat
  assumes "min a b \<le> c" and "min a c \<le> b" and "min b c \<le> a"
  shows "a \<noteq> b \<Longrightarrow> c = min a b"
  using assms by (auto simp: min_def split: if_splits)

lemma vp_diff_triangle:
  assumes "vp_diff x y = Inr a" and "vp_diff y z = Inr b" and "vp_diff x z = Inr c"
    and len: "length (qd_digits x) = n" "length (qd_digits y) = n" "length (qd_digits z) = n"
    and n: "n < 2 ^ 32"
  shows "min (unat a) (unat b) \<le> unat c"
proof -
  let ?m = "min (unat a) (unat b)"
  have vd: "vd_len x y = n" "vd_len y z = n" "vd_len x z = n"
    using len by (simp_all add: vd_len_def)
  have m: "?m \<le> n"
    using vp_diff_le_len [OF assms(1)] vd n by (simp add: min.coboundedI1)
  have "agree (qd_digits x) (qd_digits y) ?m"
    using vp_diff_ge_iff [OF assms(1), of ?m] vd n m by simp
  moreover have "agree (qd_digits y) (qd_digits z) ?m"
    using vp_diff_ge_iff [OF assms(2), of ?m] vd n m by simp
  ultimately have "agree (qd_digits x) (qd_digits z) ?m"
    by (rule agree_trans)
  then show ?thesis
    using vp_diff_ge_iff [OF assms(3), of ?m] vd n m by simp
qed

text \<open>The valuation of a difference of digit vectors is an ultrametric: of the three
  valuations between three points each is at least the minimum of the other two, and where two
  of them differ the third is their minimum.\<close>

theorem vp_diff_ultrametric:
  assumes "vp_diff x y = Inr a" and "vp_diff y z = Inr b" and "vp_diff x z = Inr c"
    and "length (qd_digits x) = n" "length (qd_digits y) = n" "length (qd_digits z) = n"
    and "n < 2 ^ 32"
  shows "min a b \<le> c \<and> (a \<noteq> b \<longrightarrow> c = min a b)"
proof -
  have sym: "vp_diff y x = Inr a" "vp_diff z y = Inr b" "vp_diff z x = Inr c"
    using assms(1-3) by (simp_all add: vp_diff_commute)
  have ge: "min (unat a) (unat b) \<le> unat c" "min (unat a) (unat c) \<le> unat b"
      "min (unat b) (unat c) \<le> unat a"
    using vp_diff_triangle [OF assms] vp_diff_triangle [OF sym(1) assms(3) assms(2)]
      vp_diff_triangle [OF assms(2) sym(3) sym(1)] assms(4-7) by simp_all
  have "min a b \<le> c"
    using ge(1) by (simp add: min_def word_le_nat_alt split: if_splits)
  moreover have "c = min a b" if "a \<noteq> b"
    using isosceles [OF ge] that by (simp add: min_def word_le_nat_alt word_unat_eq_iff split: if_splits)
  ultimately show ?thesis by simp
qed

text \<open>On the digit vectors of two integers, \<open>vp_diff\<close> is the \<open>p\<close>-adic valuation of
  their difference, capped at the precision: the power \<open>p ^ k\<close> divides the difference
  exactly for the \<open>k\<close> up to the value returned. The bound \<open>p \<le> 256\<close> is what the
  digits, stored as bytes, need.\<close>

theorem vp_diff_valuation_of_difference:
  assumes p: "1 < unat p" "unat p \<le> 256" and n: "n < 2 ^ 32"
    and x: "qp_new a p n = Inr x" and y: "qp_new b p n = Inr y"
  shows "\<exists>v. vp_diff x y = Inr v \<and> unat v \<le> n \<and>
           (\<forall>k. k \<le> n \<longrightarrow> (k \<le> unat v \<longleftrightarrow> int (unat p) ^ k dvd int a - int b))"
proof -
  note digits = qp_new_digits [OF x p] qp_new_digits [OF y p]
  note len = qp_new_Inr [OF x] qp_new_Inr [OF y]
  obtain v where v: "vp_diff x y = Inr v"
    using len by (metis vp_diff_Inr_iff)
  have vd: "vd_len x y = n"
    using len by (simp add: vd_len_def)
  have "k \<le> unat v \<longleftrightarrow> int (unat p) ^ k dvd int a - int b" if k: "k \<le> n" for k
  proof -
    have dvd: "unat p ^ k dvd unat p ^ n"
      using k by (rule le_imp_power_dvd)
    have "k \<le> unat v \<longleftrightarrow> take k (qd_digits x) = take k (qd_digits y)"
      using vp_diff_ge_iff [OF v, of k] vd n k len by (simp add: agree_take)
    also have "\<dots> \<longleftrightarrow> digits_value (unat p) (take k (qd_digits x)) = digits_value (unat p) (take k (qd_digits y))"
      using digits len by (metis digits_below_take digits_value_inj length_take)
    also have "\<dots> \<longleftrightarrow> a mod unat p ^ k = b mod unat p ^ k"
      using digits len k dvd by (simp flip: digits_value_mod_take add: mod_mod_cancel)
    also have "\<dots> \<longleftrightarrow> int (unat p) ^ k dvd int a - int b"
      by (metis mod_eq_dvd_iff of_nat_eq_iff of_nat_mod of_nat_power)
    finally show ?thesis .
  qed
  moreover have "unat v \<le> n"
    using vp_diff_le_len [OF v] vd n by simp
  ultimately show ?thesis using v by blast
qed

section \<open>The valuation loops\<close>

lemma vp_big_loop_correct:
  assumes "1 < p"
  shows "0 < m \<Longrightarrow> \<exists>k. vp_big_loop p m v = Some (v + of_nat k) \<and> p ^ k dvd m \<and> \<not> p ^ Suc k dvd m"
proof (induction m arbitrary: v rule: less_induct)
  case (less m)
  show ?case
  proof (cases "m mod p = 0")
    case False
    then have "vp_big_loop p m v = Some v"
      by (subst vp_big_loop.simps) simp
    with False show ?thesis
      by (intro exI [of _ 0]) (auto simp: dvd_eq_mod_eq_0)
  next
    case True
    then obtain q where q: "m = p * q" by auto
    with less.prems assms have "0 < q" "q < m" "m div p = q" by auto
    then obtain k where k: "vp_big_loop p q (v + 1) = Some (v + 1 + of_nat k)"
        "p ^ k dvd q" "\<not> p ^ Suc k dvd q"
      using less.IH by blast
    have "vp_big_loop p m v = Some (v + of_nat (Suc k))"
      using True k(1) \<open>m div p = q\<close> by (subst vp_big_loop.simps) (simp add: algebra_simps)
    moreover have "p ^ Suc k dvd m \<and> \<not> p ^ Suc (Suc k) dvd m"
      using k(2,3) assms by (simp add: q nat_mult_dvd_cancel_disj)
    ultimately show ?thesis by blast
  qed
qed

lemma vp_loop_vp_big_loop:
  assumes "1 < unat p64"
  shows "m \<noteq> 0 \<Longrightarrow> vp_loop p64 m v = vp_big_loop (unat p64) (unat m) v"
proof (induction "unat m" arbitrary: m v rule: less_induct)
  case less
  have md: "unat (m mod p64) = unat m mod unat p64" "unat (m div p64) = unat m div unat p64"
    by (simp_all add: unat_mod unat_div)
  have zero: "m mod p64 = 0 \<longleftrightarrow> unat m mod unat p64 = 0"
    by (metis md(1) unat_0_iff unat_0)
  show ?case
  proof (cases "m mod p64 = 0")
    case False
    then show ?thesis
      using zero by (subst vp_loop.simps, subst vp_big_loop.simps) simp
  next
    case True
    have "0 < unat m" using less.prems by (simp add: unat_gt_0)
    then have "unat (m div p64) < unat m" "0 < unat (m div p64)"
      using assms True zero md(2) by (auto simp: mod_eq_0_iff_dvd elim!: dvdE)
    then have "vp_loop p64 (m div p64) (v + 1) = vp_big_loop (unat p64) (unat (m div p64)) (v + 1)"
      by (intro less.hyps) (auto simp: unat_gt_0)
    then show ?thesis
      using True zero md(2) by (subst vp_loop.simps, subst vp_big_loop.simps) simp
  qed
qed

lemma vp_loop_one: "vp_loop 1 m v = None"
proof (rule ccontr)
  assume "vp_loop 1 m v \<noteq> None"
  then obtain r where r: "vp_loop 1 m v = Some r" by blast
  have "(1::u64) = 1 \<longrightarrow> False"
  proof (rule vp_loop.raw_induct [where P = "\<lambda>p m v r. p = 1 \<longrightarrow> False", OF _ r])
    fix f :: "u64 \<Rightarrow> u64 \<Rightarrow> u32 \<Rightarrow> u32 option" and p m v r
    assume "\<And>p m v r. f p m v = Some r \<Longrightarrow> p = 1 \<longrightarrow> False"
      and "(if m mod p = 0 then f p (m div p) (v + 1) else Some v) = Some r"
    then show "p = 1 \<longrightarrow> False" by (auto split: if_splits)
  qed
  then show False by simp
qed

text \<open>For a prime of at least 2 the loop of \<open>vp\<close> returns on every nonzero
  \<open>u64\<close>, with the exponent of the largest power of \<open>p\<close> that divides it; the exponent is
  below 64, so the \<open>u32\<close> counter does not wrap.\<close>

theorem vp_correct:
  assumes "1 < unat p" and "n \<noteq> 0"
  shows "\<exists>k. vp n p = Some (Inr (of_nat k)) \<and> k < 64 \<and>
           unat p ^ k dvd unat n \<and> \<not> unat p ^ Suc k dvd unat n"
proof -
  have pos: "0 < unat n" using assms(2) by (simp add: unat_gt_0)
  obtain k where k: "vp_big_loop (unat p) (unat n) 0 = Some (of_nat k)"
      "unat p ^ k dvd unat n" "\<not> unat p ^ Suc k dvd unat n"
    using vp_big_loop_correct [OF assms(1) pos, of 0] by auto
  have "(2::nat) ^ k \<le> unat p ^ k"
    using assms(1) by (intro power_mono) auto
  also have "\<dots> \<le> unat n"
    using k(2) pos by (rule dvd_imp_le)
  also have "\<dots> < 2 ^ 64"
    by (rule unat_u64_less)
  finally have "k < 64"
    by (metis nat_power_less_imp_less pos2)
  moreover have "vp n p = Some (Inr (of_nat k))"
    using assms k(1) vp_loop_vp_big_loop [of "ucast p" n 0] by (auto simp: vp_def)
  ultimately show ?thesis using k(2,3) by blast
qed

text \<open>Nothing in \<open>vp\<close> rejects \<open>p = 1\<close>, on which the loop never ends.\<close>

lemma vp_prime_one_diverges: "n \<noteq> 0 \<Longrightarrow> vp n 1 = None"
  by (simp add: vp_def vp_loop_one)

section \<open>Digit expansion and the algebra of valuations\<close>

lemma expand_loop_zero: "expand_loop p 0 n = replicate n 0"
  by (induction n) auto

lemma expand_loop_qp:
  "expand_loop p v n = pad_zeros (qp_push_digits p v n) n"
proof (induction p v n rule: qp_push_digits.induct)
  case (2 p v rounds)
  show ?case
  proof (cases "v div p = 0")
    case True
    then show ?thesis
      by (cases "v = 0") (simp_all add: Let_def pad_zeros_def expand_loop_zero)
  next
    case False
    then have "v \<noteq> 0" by (metis div_0)
    with False 2 show ?thesis by (simp add: Let_def pad_zeros_def)
  qed
qed (simp add: pad_zeros_def)

lemma expand_padic_qp_new:
  "p \<noteq> 0 \<Longrightarrow> expand_padic v p n = map_sum id qd_digits (qp_new v p n)"
  by (simp add: expand_padic_def qp_new_def expand_loop_qp)

lemma compute_valuation_exponent:
  assumes "1 < unat p" and "n \<noteq> 0"
  obtains k where "compute_valuation n p = Some (Inr (val_new (of_nat k)))"
    and "unat p ^ k dvd n" and "\<not> unat p ^ Suc k dvd n"
proof -
  obtain k where "vp_big_loop (unat p) n 0 = Some (of_nat k)"
      "unat p ^ k dvd n" "\<not> unat p ^ Suc k dvd n"
    using vp_big_loop_correct [OF assms(1), of n 0] assms(2) by auto
  moreover have "p \<noteq> 0" using assms(1) by auto
  ultimately show ?thesis
    using assms(2) that [of k] by (simp add: compute_valuation_def)
qed

lemma exponent_unique:
  fixes p :: nat
  assumes "1 < p" "p ^ k dvd n" "\<not> p ^ Suc k dvd n" "p ^ j dvd n" "\<not> p ^ Suc j dvd n"
  shows "k = j"
  using assms by (metis le_imp_power_dvd dvd_trans not_less_eq_eq linorder_cases Suc_leI)

lemma prime_exponent_mult:
  fixes p :: nat
  assumes prime: "\<And>x y. p dvd x * y \<Longrightarrow> p dvd x \<or> p dvd y" and "1 < p"
    and a: "p ^ i dvd a" "\<not> p ^ Suc i dvd a" and b: "p ^ j dvd b" "\<not> p ^ Suc j dvd b"
  shows "p ^ (i + j) dvd a * b \<and> \<not> p ^ Suc (i + j) dvd a * b"
proof
  show "p ^ (i + j) dvd a * b"
    using a(1) b(1) by (simp add: power_add mult_dvd_mono)
  from a(1) b(1) obtain x y where xy: "a = p ^ i * x" "b = p ^ j * y" by (auto elim!: dvdE)
  have "p dvd x \<Longrightarrow> p ^ Suc i dvd a" "p dvd y \<Longrightarrow> p ^ Suc j dvd b"
    by (simp_all only: xy power_Suc2 mult_dvd_mono dvd_refl)
  with a(2) b(2) have "\<not> p dvd x" "\<not> p dvd y" by blast+
  then have "\<not> p dvd x * y" using prime by blast
  moreover have "a * b = p ^ (i + j) * (x * y)"
    by (simp add: xy power_add algebra_simps)
  ultimately show "\<not> p ^ Suc (i + j) dvd a * b"
    using \<open>1 < p\<close> by (simp only: power_Suc2 nat_mult_dvd_cancel_disj) simp
qed

lemma valuation_of_product_correct:
  assumes prime: "\<And>x y. unat p dvd x * y \<Longrightarrow> unat p dvd x \<or> unat p dvd y" and p: "1 < unat p"
    and ab: "a * b \<noteq> 0"
    and va: "compute_valuation a p = Some (Inr u)" and vb: "compute_valuation b p = Some (Inr w)"
  shows "compute_valuation (a * b) p = Some (Inr (valuation_of_product u w))"
proof -
  have nz: "a \<noteq> 0" "b \<noteq> 0" using ab by auto
  obtain i where i: "compute_valuation a p = Some (Inr (val_new (of_nat i)))"
      "unat p ^ i dvd a" "\<not> unat p ^ Suc i dvd a"
    by (rule compute_valuation_exponent [OF p nz(1)])
  obtain j where j: "compute_valuation b p = Some (Inr (val_new (of_nat j)))"
      "unat p ^ j dvd b" "\<not> unat p ^ Suc j dvd b"
    by (rule compute_valuation_exponent [OF p nz(2)])
  obtain k where k: "compute_valuation (a * b) p = Some (Inr (val_new (of_nat k)))"
      "unat p ^ k dvd a * b" "\<not> unat p ^ Suc k dvd a * b"
    by (rule compute_valuation_exponent [OF p ab])
  have "k = i + j"
    using exponent_unique [OF p k(2,3)] prime_exponent_mult [OF prime p i(2,3) j(2,3)] by blast
  then have "valuation_of_product u w = val_new (of_nat k)"
    using va vb i(1) j(1) by (auto simp: valuation_of_product_def val_new_def)
  with k(1) show ?thesis by simp
qed

section \<open>Balls as prefixes of digits\<close>

lemma in_ball_loop_iff:
  "in_ball_loop xs cs i k \<longleftrightarrow> (\<forall>j. i \<le> j \<and> j < i + k \<longrightarrow> digit_at xs j = digit_at cs j)"
proof (induction xs cs i k rule: in_ball_loop.induct)
  case (2 xs cs i rounds)
  have "(\<forall>j. i \<le> j \<and> j < i + Suc rounds \<longrightarrow> digit_at xs j = digit_at cs j) \<longleftrightarrow>
      digit_at xs i = digit_at cs i \<and>
      (\<forall>j. Suc i \<le> j \<and> j < Suc i + rounds \<longrightarrow> digit_at xs j = digit_at cs j)"
    by (metis Suc_leD Suc_leI add_Suc_right add_Suc le_antisym le_refl less_add_Suc1 not_less_eq_eq)
  with 2 show ?case by simp
qed auto

lemma is_in_ball_agree:
  "is_in_ball x c r = Inr b \<Longrightarrow> b \<longleftrightarrow> agree (qd_digits x) (qd_digits c) r"
  by (auto simp: is_in_ball_def in_ball_loop_iff agree_def split: if_splits)

lemma is_in_ball_Inr_iff: "(\<exists>b. is_in_ball x c r = Inr b) \<longleftrightarrow> qd_p x = qd_p c"
  by (simp add: is_in_ball_def)

lemma ball_id_eq_iff_agree:
  assumes "r \<le> length (qd_digits x)" "r \<le> length (qd_digits y)"
  shows "ball_id x r = ball_id y r \<longleftrightarrow> agree (qd_digits x) (qd_digits y) r"
  using assms by (simp add: ball_id_def qp_ball_id_def agree_take)

text \<open>
  The three ways the code asks whether two points share a ball of radius \<open>r\<close> agree:
  membership digit by digit, equality of the ball identifiers, and a valuation of the
  difference of at least \<open>r\<close>.
\<close>

theorem ball_tests_agree:
  assumes p: "qd_p x = qd_p c"
    and r: "r \<le> length (qd_digits x)" "r \<le> length (qd_digits c)"
    and len: "length (qd_digits x) < 2 ^ 32" "length (qd_digits c) < 2 ^ 32"
  shows "\<exists>b v. is_in_ball x c r = Inr b \<and> vp_diff x c = Inr v \<and>
           (b \<longleftrightarrow> ball_id x r = ball_id c r) \<and> (b \<longleftrightarrow> r \<le> unat v)"
proof -
  obtain b v where bv: "is_in_ball x c r = Inr b" "vp_diff x c = Inr v"
    using p by (metis is_in_ball_Inr_iff vp_diff_Inr_iff)
  have "vd_len x c < 2 ^ 32" "r \<le> vd_len x c"
    using len r by (simp_all add: vd_len_def)
  then have "r \<le> unat v \<longleftrightarrow> agree (qd_digits x) (qd_digits c) r"
    by (rule vp_diff_ge_iff [OF bv(2)])
  with bv ball_id_eq_iff_agree [OF r] is_in_ball_agree [OF bv(1)] show ?thesis
    by metis
qed

text \<open>Two balls are nested or disjoint: a common point of the balls around \<open>x\<close> and \<open>y\<close>
  puts all of the smaller ball inside the larger one.\<close>

lemma balls_nested_or_disjoint:
  assumes "is_in_ball z x r = Inr True" and "is_in_ball z y s = Inr True" and "r \<le> s"
    and "is_in_ball w y s = Inr True"
  shows "is_in_ball w x r = Inr True"
proof -
  have "agree (qd_digits w) (qd_digits y) r" "agree (qd_digits z) (qd_digits y) r"
      "agree (qd_digits z) (qd_digits x) r"
    using assms agree_le by (auto dest: is_in_ball_agree)
  then have "agree (qd_digits w) (qd_digits x) r"
    by (meson agree_sym agree_trans)
  moreover have "qd_p w = qd_p x"
    using assms by (metis is_in_ball_Inr_iff)
  ultimately show ?thesis
    by (metis is_in_ball_Inr_iff is_in_ball_agree)
qed

section \<open>Counting distinct balls\<close>

abbreviation ball_set :: "qp_digits list \<Rightarrow> nat \<Rightarrow> bytes set" where
  "ball_set points radius \<equiv> (\<lambda>x. ball_id x radius) ` set points"

lemma count_distinct_balls_card: "count_distinct_balls points r = card (ball_set points r)"
proof -
  have "foldl (\<lambda>u x. insert (ball_id x r) u) B points = B \<union> ball_set points r" for B
    by (induction points arbitrary: B) auto
  then show ?thesis by (simp add: count_distinct_balls_def)
qed

lemma distinct_balls_loop_iff:
  "finite B \<Longrightarrow> distinct_balls_loop points r k B \<longleftrightarrow> k \<le> card (B \<union> ball_set points r)"
proof (induction points r k B rule: distinct_balls_loop.induct)
  case (2 x xs radius k B)
  have union: "B \<union> ball_set (x # xs) radius = insert (ball_id x radius) B \<union> ball_set xs radius"
    by auto
  have "card (insert (ball_id x radius) B) \<le> card (B \<union> ball_set (x # xs) radius)"
    using \<open>finite B\<close> by (intro card_mono) auto
  with 2 union show ?case by (simp add: Let_def)
qed simp

lemma balls_are_distinct_count:
  "balls_are_distinct points r k \<longleftrightarrow> k \<le> count_distinct_balls points r"
  by (simp add: balls_are_distinct_def distinct_balls_loop_iff count_distinct_balls_card)

lemma count_distinct_balls_mono:
  assumes "r \<le> s"
  shows "count_distinct_balls points r \<le> count_distinct_balls points s"
proof -
  have "ball_set points r = take r ` ball_set points s"
    using assms by (auto simp: image_image ball_id_def qp_ball_id_def min_absorb1)
  then show ?thesis
    by (simp add: count_distinct_balls_card card_image_le)
qed

lemma find_ball_representative_Some_iff:
  "find_ball_representative points r = Some b \<longleftrightarrow> points \<noteq> [] \<and> ball_set points r = {b}"
  by (cases points) (auto simp: find_ball_representative_def Let_def list_all_iff split: if_splits)

section \<open>Nearest and furthest candidates\<close>

lemma map_sum_Inr_iff: "map_sum f g r = Inr y \<longleftrightarrow> (\<exists>x. r = Inr x \<and> y = g x)"
  by (cases r) auto

lemma best_index_loop_correct:
  assumes "best_index_loop better reference cs i bi bv = Inr k"
    and "\<And>a b c. better a b \<Longrightarrow> \<not> better c b \<Longrightarrow> better a c" and "\<And>a. \<not> better a a"
    and "\<And>a b c. better a b \<Longrightarrow> better b c \<Longrightarrow> better a c"
  shows "\<exists>v. ((k = bi \<and> v = bv) \<or> (i \<le> k \<and> k < i + length cs \<and>
              vp_diff reference (cs ! (k - i)) = Inr v \<and> better v bv)) \<and>
             (\<forall>c\<in>set cs. \<exists>w. vp_diff reference c = Inr w \<and> \<not> better w v)"
  using assms(1)
proof (induction cs arbitrary: i bi bv)
  case Nil
  then show ?case by auto
next
  case (Cons c cs)
  from Cons.prems obtain val where val: "vp_diff reference c = Inr val"
    by (auto split: sum.splits)
  show ?case
  proof (cases "better val bv")
    case True
    with Cons.prems val have "best_index_loop better reference cs (Suc i) i val = Inr k" by simp
    from Cons.IH [OF this] obtain v where
      v: "(k = i \<and> v = val) \<or> (Suc i \<le> k \<and> k < Suc i + length cs \<and>
              vp_diff reference (cs ! (k - Suc i)) = Inr v \<and> better v val)"
      and all: "\<forall>c\<in>set cs. \<exists>w. vp_diff reference c = Inr w \<and> \<not> better w v" by blast
    have "\<not> better val v" using v assms(3,4) by blast
    moreover have "better v bv" using v True assms(4) by blast
    moreover have "vp_diff reference ((c # cs) ! (k - i)) = Inr v" "i \<le> k" "k < i + length (c # cs)"
      using v val by (auto simp: nth_Cons')
    ultimately show ?thesis using all val by (intro exI [of _ v]) auto
  next
    case False
    with Cons.prems val have "best_index_loop better reference cs (Suc i) bi bv = Inr k" by simp
    from Cons.IH [OF this] obtain v where
      v: "(k = bi \<and> v = bv) \<or> (Suc i \<le> k \<and> k < Suc i + length cs \<and>
              vp_diff reference (cs ! (k - Suc i)) = Inr v \<and> better v bv)"
      and all: "\<forall>c\<in>set cs. \<exists>w. vp_diff reference c = Inr w \<and> \<not> better w v" by blast
    have "\<not> better val v" using v False assms(4) by blast
    moreover have "(k = bi \<and> v = bv) \<or> (i \<le> k \<and> k < i + length (c # cs) \<and>
        vp_diff reference ((c # cs) ! (k - i)) = Inr v \<and> better v bv)"
      using v by (auto simp: nth_Cons')
    ultimately show ?thesis using all val by (intro exI [of _ v]) auto
  qed
qed

text \<open>The index \<open>find_closest\<close> returns is one of the candidates, and no candidate has a
  larger valuation of the difference to the reference point.\<close>

theorem find_closest_maximal:
  assumes "find_closest reference candidates = Inr (Some k)"
  shows "k < length candidates \<and> (\<exists>v. vp_diff reference (candidates ! k) = Inr v \<and>
           (\<forall>c\<in>set candidates. \<exists>w. vp_diff reference c = Inr w \<and> w \<le> v))"
proof -
  from assms obtain c cs v0 where cs: "candidates = c # cs" "vp_diff reference c = Inr v0"
      "best_index_loop (\<lambda>val best. best < val) reference cs 1 0 v0 = Inr k"
    by (auto simp: find_closest_def map_sum_Inr_iff split: list.splits sum.splits)
  from best_index_loop_correct [OF cs(3)] obtain v where
    v: "(k = 0 \<and> v = v0) \<or> (1 \<le> k \<and> k < 1 + length cs \<and>
            vp_diff reference (cs ! (k - 1)) = Inr v \<and> v0 < v)"
    and all: "\<forall>c\<in>set cs. \<exists>w. vp_diff reference c = Inr w \<and> \<not> v < w" by fastforce
  have "k < length candidates" "vp_diff reference (candidates ! k) = Inr v" "v0 \<le> v"
    using v cs(1,2) by (auto simp: nth_Cons')
  with all cs(1,2) show ?thesis by (fastforce simp: not_less)
qed

section \<open>The distance\<close>

lemma padic_distance_cases:
  assumes "padic_distance x y = Inr d"
  obtains "qd_digits x = qd_digits y" "d = 0"
  | v where "qd_digits x \<noteq> qd_digits y" "vp_diff x y = Inr v" "d = real (unat (qd_p x)) powi (- sint v)"
  using assms by (auto simp: padic_distance_def split: if_splits sum.splits)

lemma padic_distance_commute: "padic_distance x y = padic_distance y x"
  by (cases "vp_diff x y") (auto simp: padic_distance_def vp_diff_commute [of y x])

lemma padic_distance_nonneg: "padic_distance x y = Inr d \<Longrightarrow> 0 \<le> d"
  by (erule padic_distance_cases) (simp_all only: zero_le_power_int of_nat_0_le_iff order_refl)

lemma sint_unat_small:
  assumes "unat (v :: u32) < 2 ^ 31"
  shows "sint v = int (unat v)"
proof -
  have "int (unat v) < int (2 ^ 31)" using assms by (simp only: of_nat_less_iff)
  then have "uint v < 2 ^ 31" by simp
  moreover have "- (2 ^ 31) \<le> uint v" by (rule order_trans [OF _ uint_ge_0]) simp
  ultimately show ?thesis by (simp add: sint_uint signed_take_bit_int_eq_self)
qed

lemma padic_distance_strong_triangle:
  assumes xy: "padic_distance x y = Inr d" and yz: "padic_distance y z = Inr e"
    and xz: "padic_distance x z = Inr f"
    and len: "length (qd_digits x) = n" "length (qd_digits y) = n" "length (qd_digits z) = n"
    and n: "n < 2 ^ 31" and p: "qd_p x \<noteq> 0"
  shows "f \<le> max d e"
proof (cases "qd_digits x = qd_digits y \<or> qd_digits y = qd_digits z \<or> qd_digits x = qd_digits z")
  case True
  have "qd_p x = qd_p y" "qd_p y = qd_p z"
    using xy yz by (auto simp: padic_distance_def split: if_splits)
  moreover have "0 \<le> d" "0 \<le> e"
    using xy yz by (auto dest: padic_distance_nonneg)
  ultimately show ?thesis
    using True xy yz xz by (auto simp: padic_distance_def vp_diff_def split: if_splits)
next
  case False
  obtain a b c where v: "vp_diff x y = Inr a" "vp_diff y z = Inr b" "vp_diff x z = Inr c"
      and def: "d = real (unat (qd_p x)) powi (- sint a)" "e = real (unat (qd_p y)) powi (- sint b)"
        "f = real (unat (qd_p x)) powi (- sint c)"
    using False xy yz xz by (auto elim!: padic_distance_cases)
  have py: "qd_p y = qd_p x" using xy by (auto simp: padic_distance_def split: if_splits)
  have bd: "unat a \<le> n" "unat b \<le> n" "unat c \<le> n"
    using v len n by (auto dest!: vp_diff_le_len simp: vd_len_def)
  have si: "sint a = int (unat a)" "sint b = int (unat b)" "sint c = int (unat c)"
    using bd n by (simp_all only: sint_unat_small order_le_less_trans)
  have "min (unat a) (unat b) \<le> unat c"
    using vp_diff_triangle [OF v len] n by simp
  then have "unat a \<le> unat c \<or> unat b \<le> unat c" by auto
  moreover have "1 \<le> unat (qd_p x)" using p by (simp add: unat_gt_0 Suc_leI)
  then have "1 \<le> real (unat (qd_p x))" by (metis of_nat_1 of_nat_le_iff)
  ultimately show ?thesis
    unfolding def si py
    by (elim disjE)
      (simp_all only: le_max_iff_disj power_int_increasing neg_le_iff_le of_nat_le_iff simp_thms)
qed

section \<open>Concrete instances\<close>

lemma vp_diff_valuation_of_difference_witness:
  "\<exists>v. vp_diff \<lparr>qd_digits = [1, 0, 1, 0], qd_p = 3\<rparr> \<lparr>qd_digits = [1, 0, 1, 1], qd_p = 3\<rparr> = Inr v \<and>
     unat v \<le> 4 \<and> (3 \<le> unat v \<longleftrightarrow> (3::int) ^ 3 dvd 10 - 37)"
proof -
  let ?x = "\<lparr>qd_digits = [1, 0, 1, 0], qd_p = 3\<rparr>" and ?y = "\<lparr>qd_digits = [1, 0, 1, 1], qd_p = 3\<rparr>"
  have x: "qp_new 10 3 4 = Inr ?x" and y: "qp_new 37 3 4 = Inr ?y" by (simp_all add: padic_defs Let_def)
  have "1 < unat (3::u32)" "unat (3::u32) \<le> 256" "(4::nat) < 2 ^ 32" by simp_all
  from vp_diff_valuation_of_difference [OF this x y] show ?thesis by force
qed

lemma vp_diff_ultrametric_witness:
  "min (1::u32) 1 \<le> 2 \<and>
   vp_diff \<lparr>qd_digits = [1, 0, 1], qd_p = 3\<rparr> \<lparr>qd_digits = [1, 2, 2], qd_p = 3\<rparr> = Inr 1 \<and>
   vp_diff \<lparr>qd_digits = [1, 2, 2], qd_p = 3\<rparr> \<lparr>qd_digits = [1, 0, 2], qd_p = 3\<rparr> = Inr 1 \<and>
   vp_diff \<lparr>qd_digits = [1, 0, 1], qd_p = 3\<rparr> \<lparr>qd_digits = [1, 0, 2], qd_p = 3\<rparr> = Inr 2"
proof -
  let ?x = "\<lparr>qd_digits = [1, 0, 1], qd_p = 3\<rparr>" and ?y = "\<lparr>qd_digits = [1, 2, 2], qd_p = 3\<rparr>"
    and ?z = "\<lparr>qd_digits = [1, 0, 2], qd_p = 3\<rparr>"
  have v: "vp_diff ?x ?y = Inr 1" "vp_diff ?y ?z = Inr 1" "vp_diff ?x ?z = Inr 2"
    by (simp_all add: vp_diff_def digit_at_def)
  with vp_diff_ultrametric [OF v, of 3] show ?thesis by simp
qed

lemma vp_correct_witness:
  "\<exists>k. vp 18 3 = Some (Inr (of_nat k)) \<and> (3::nat) ^ k dvd 18 \<and> \<not> (3::nat) ^ Suc k dvd 18"
  using vp_correct [of 3 18] by auto

lemma ball_tests_agree_witness:
  "\<exists>b v. is_in_ball \<lparr>qd_digits = [1, 0, 1], qd_p = 3\<rparr> \<lparr>qd_digits = [1, 0, 2], qd_p = 3\<rparr> 2 = Inr b \<and>
     vp_diff \<lparr>qd_digits = [1, 0, 1], qd_p = 3\<rparr> \<lparr>qd_digits = [1, 0, 2], qd_p = 3\<rparr> = Inr v \<and>
     (b \<longleftrightarrow> 2 \<le> unat v)"
  using ball_tests_agree [of "\<lparr>qd_digits = [1, 0, 1], qd_p = 3\<rparr>" "\<lparr>qd_digits = [1, 0, 2], qd_p = 3\<rparr>" 2]
  by auto

lemma find_closest_maximal_witness:
  "find_closest \<lparr>qd_digits = [1, 0, 1], qd_p = 3\<rparr>
     [\<lparr>qd_digits = [2, 0, 1], qd_p = 3\<rparr>, \<lparr>qd_digits = [1, 0, 2], qd_p = 3\<rparr>] = Inr (Some 1) \<and>
   (1::nat) < 2"
proof -
  let ?r = "\<lparr>qd_digits = [1, 0, 1], qd_p = 3\<rparr>"
    and ?cs = "[\<lparr>qd_digits = [2, 0, 1], qd_p = 3\<rparr>, \<lparr>qd_digits = [1, 0, 2], qd_p = 3\<rparr>]"
  have "find_closest ?r ?cs = Inr (Some 1)"
    by (simp add: find_closest_def vp_diff_def digit_at_def)
  with find_closest_maximal [OF this] show ?thesis by simp
qed

end
