(* ===== verification/Economics_Types.thy ===== *)
theory Economics_Types
  imports Prelude
begin

text \<open>
  The data of \<open>crates/adic-economics/src/types.rs\<close>: amounts in base units, account
  addresses, the emission schedule and transfer events, and the error values that stand for the
  \<open>bail!\<close> sites of the crate. \<open>blake3\<close> is third-party code, a parameter of the
  definitions that use it.
\<close>

named_theorems amount_defs "the operations of AdicAmount"

section \<open>\<open>AdicAmount\<close>\<close>

definition ADIC_BASE_UNIT :: u64 where
  "ADIC_BASE_UNIT = 1000000000"

datatype adic_amount = AdicAmount (base_units: u64)

instantiation adic_amount :: linorder
begin

definition less_eq_adic_amount :: "adic_amount \<Rightarrow> adic_amount \<Rightarrow> bool" where
  "a \<le> b \<longleftrightarrow> base_units a \<le> base_units b"

definition less_adic_amount :: "adic_amount \<Rightarrow> adic_amount \<Rightarrow> bool" where
  "a < b \<longleftrightarrow> base_units a < base_units b"

instance
  by standard (auto simp: less_eq_adic_amount_def less_adic_amount_def adic_amount.expand)

end

definition ADIC_ZERO :: adic_amount where
  "ADIC_ZERO = AdicAmount 0"

definition MAX_SUPPLY :: adic_amount where
  "MAX_SUPPLY = AdicAmount (1000000000 * ADIC_BASE_UNIT)"

definition GENESIS_SUPPLY :: adic_amount where
  "GENESIS_SUPPLY = AdicAmount (300000000 * ADIC_BASE_UNIT)"

text \<open>The cast \<open>as u64\<close> of a floating point number truncates towards zero and saturates.\<close>

definition f64_as_u64 :: "f64 \<Rightarrow> u64" where
  "f64_as_u64 x = (if x \<le> 0 then 0 else if 2 ^ 64 \<le> x then - 1 else of_int \<lfloor>x\<rfloor>)"

definition amt_from_adic :: "f64 \<Rightarrow> adic_amount" where
  "amt_from_adic adic = AdicAmount (f64_as_u64 (adic * 1000000000))"

definition amt_to_adic :: "adic_amount \<Rightarrow> f64" where
  "amt_to_adic a = real (unat (base_units a)) / 1000000000"

definition amt_checked_add :: "adic_amount \<Rightarrow> adic_amount \<Rightarrow> adic_amount option" where
  "amt_checked_add a b = map_option AdicAmount (checked_add (base_units a) (base_units b))"

definition amt_checked_sub :: "adic_amount \<Rightarrow> adic_amount \<Rightarrow> adic_amount option" where
  "amt_checked_sub a b = map_option AdicAmount (checked_sub (base_units a) (base_units b))"

definition amt_sat_add :: "adic_amount \<Rightarrow> adic_amount \<Rightarrow> adic_amount" where
  "amt_sat_add a b = AdicAmount (min (sat_add (base_units a) (base_units b)) (base_units MAX_SUPPLY))"

definition amt_sat_sub :: "adic_amount \<Rightarrow> adic_amount \<Rightarrow> adic_amount" where
  "amt_sat_sub a b = AdicAmount (sat_sub (base_units a) (base_units b))"

lemmas [amount_defs] = amt_checked_add_def amt_checked_sub_def amt_sat_add_def amt_sat_sub_def

abbreviation units :: "adic_amount \<Rightarrow> nat" where
  "units a \<equiv> unat (base_units a)"

lemma amount_eq_iff: "a = b \<longleftrightarrow> units a = units b"
  by (metis adic_amount.expand word_unat_eq_iff)

lemma amount_le_iff: "a \<le> b \<longleftrightarrow> units a \<le> units b"
  by (simp add: less_eq_adic_amount_def word_le_nat_alt)

lemma amount_less_iff: "a < b \<longleftrightarrow> units a < units b"
  by (simp add: less_adic_amount_def word_less_nat_alt)

lemma units_bound: "units a < 2 ^ 64"
  by (rule unat_u64_less)

lemma units_ZERO [simp]: "units ADIC_ZERO = 0"
  by (simp add: ADIC_ZERO_def)

lemma units_MAX_SUPPLY: "units MAX_SUPPLY = 10 ^ 18"
  by (simp add: MAX_SUPPLY_def ADIC_BASE_UNIT_def)

lemma units_GENESIS_SUPPLY: "units GENESIS_SUPPLY = 3 * 10 ^ 17"
  by (simp add: GENESIS_SUPPLY_def ADIC_BASE_UNIT_def)

lemma amt_checked_add_Some_iff:
  "amt_checked_add a b = Some c \<longleftrightarrow> units c = units a + units b"
  by (cases c) (auto simp: amt_checked_add_def checked_add_Some_iff)

lemma amt_checked_add_None_iff:
  "amt_checked_add a b = None \<longleftrightarrow> 2 ^ 64 \<le> units a + units b"
  by (simp add: amt_checked_add_def checked_add_None_iff)

lemma amt_checked_sub_Some_iff:
  "amt_checked_sub a b = Some c \<longleftrightarrow> b \<le> a \<and> units c = units a - units b"
proof -
  have "amt_checked_sub a b = Some c \<longleftrightarrow> base_units b \<le> base_units a \<and> base_units c = base_units a - base_units b"
    by (cases c) (auto simp: amt_checked_sub_def checked_sub_Some_iff)
  then show ?thesis
    by (auto simp: less_eq_adic_amount_def word_unat_eq_iff unat_sub_le)
qed

lemma amt_checked_sub_None_iff: "amt_checked_sub a b = None \<longleftrightarrow> a < b"
  by (simp add: amt_checked_sub_def checked_sub_None_iff less_adic_amount_def)

lemma units_sat_sub: "units (amt_sat_sub a b) = units a - units b"
  by (simp add: amt_sat_sub_def unat_sat_sub)

lemma units_sat_add: "units (amt_sat_add a b) = min (units a + units b) (10 ^ 18)"
proof -
  have "unat (min (sat_add (base_units a) (base_units b)) (base_units MAX_SUPPLY)) =
      min (unat (sat_add (base_units a) (base_units b))) (units MAX_SUPPLY)"
    by (simp add: min_def word_le_nat_alt)
  then show ?thesis
    by (simp add: amt_sat_add_def unat_sat_add units_MAX_SUPPLY min_def)
qed

section \<open>Addresses\<close>

datatype account_address = AccountAddress (address_bytes: bytes)

definition address_from_public_key :: "(bytes \<Rightarrow> bytes) \<Rightarrow> bytes \<Rightarrow> account_address" where
  "address_from_public_key blake3 pubkey = AccountAddress (blake3 pubkey)"

definition treasury_address :: account_address where
  "treasury_address = AccountAddress (replicate 32 0xFF)"

definition liquidity_pool_address :: account_address where
  "liquidity_pool_address = AccountAddress ((replicate 32 0xEE) [0 := 0x01])"

definition community_grants_address :: account_address where
  "community_grants_address = AccountAddress ((replicate 32 0xDD) [0 := 0x02])"

definition genesis_pool_address :: account_address where
  "genesis_pool_address = AccountAddress ((replicate 32 0xCC) [0 := 0x03])"

lemma reserved_addresses_distinct:
  "distinct [treasury_address, liquidity_pool_address, community_grants_address, genesis_pool_address]"
  by (simp add: treasury_address_def liquidity_pool_address_def community_grants_address_def
      genesis_pool_address_def)

section \<open>Schedules, events and errors\<close>

record emission_schedule =
  initial_rate :: f64
  half_life_years :: f64
  start_timestamp :: i64
  last_emission_timestamp :: i64

definition emission_schedule_default :: "i64 \<Rightarrow> emission_schedule" where
  "emission_schedule_default now =
     \<lparr>initial_rate = 1 / 100, half_life_years = 6, start_timestamp = now, last_emission_timestamp = now\<rparr>"

datatype transfer_reason =
    Genesis | Emission | Deposit | DepositRefund | DepositSlash | TreasuryTransfer | PoUWReward
  | Standard | Faucet | MessageTransfer | Slashing

record transfer_event =
  te_from :: account_address
  te_to :: account_address
  te_amount :: adic_amount
  te_timestamp :: i64
  te_reason :: transfer_reason

text \<open>\<open>anyhow::Error\<close> carries a message only; the constructors name its \<open>bail!\<close> sites.\<close>

datatype econ_error =
    StorageFailure
  | BalanceOverflow | ExceedsMaxSupply | InsufficientBalance | SameAddress
  | InsufficientUnlocked | InsufficientLocked | AccountNotFound
  | InvalidAddressLength | ZeroTransfer | InvalidNonce
  | GenesisAlreadyMinted | InvalidGenesisAmount | SupplyOverflow | BurnExceedsCirculating
  | NoSigners | InvalidThreshold | DuplicateSigners | MultisigAlreadyInitialized
  | MultisigNotInitialized | NotASigner | InsufficientTreasury
  | ProposalNotFound | ProposalExecuted | ProposalExpired
  | EmissionTooFrequent | MaxSupplyReached

end
