(* ===== verification/Economics_Storage.thy ===== *)
theory Economics_Storage
  imports Economics_Types
begin

text \<open>
  The storage interface of the economics crate (\<open>EconomicsStorage\<close> in
  \<open>crates/adic-economics/src/storage.rs\<close>) and its in-memory provider
  \<open>MemoryStorage\<close>. The trait is the record \<open>econ_ops\<close>; what its clients rely on
  is the locale \<open>economics_storage\<close>: each operation acts on the \<open>ledger\<close> that the
  storage represents. \<open>MemoryStorage\<close> is shown to provide it. The RocksDB provider is
  outside the model (a foreign database behind a build feature).

  Hash maps are maps; the vectors made by iterating over one come in an unspecified order, which
  is the parameter \<open>order\<close> of \<open>mem_get_all_accounts\<close>. Timestamps
  (\<open>DateTime<Utc>\<close>) are milliseconds. \<open>split\<close>, \<open>parse::<i64>\<close> and
  \<open>format!\<close> on the pagination cursor are written on the pair that the cursor encodes.
\<close>

section \<open>The interface\<close>

record transaction_record =
  tr_from :: account_address
  tr_to :: account_address
  tr_amount :: adic_amount
  tr_timestamp :: i64
  tr_hash :: string
  tr_status :: string

record 's econ_ops =
  es_get_balance :: "account_address \<Rightarrow> (econ_error, 's, adic_amount) rop"
  es_set_balance :: "account_address \<Rightarrow> adic_amount \<Rightarrow> (econ_error, 's, unit) rop"
  es_get_locked :: "account_address \<Rightarrow> (econ_error, 's, adic_amount) rop"
  es_set_locked :: "account_address \<Rightarrow> adic_amount \<Rightarrow> (econ_error, 's, unit) rop"
  es_get_nonce :: "account_address \<Rightarrow> (econ_error, 's, u64) rop"
  es_set_nonce :: "account_address \<Rightarrow> u64 \<Rightarrow> (econ_error, 's, unit) rop"
  es_all_accounts :: "(econ_error, 's, account_address list) rop"
  es_begin :: "(econ_error, 's, unit) rop"
  es_commit :: "(econ_error, 's, unit) rop"
  es_rollback :: "(econ_error, 's, unit) rop"
  es_record :: "transaction_record \<Rightarrow> (econ_error, 's, unit) rop"
  es_history :: "account_address \<Rightarrow> (econ_error, 's, transaction_record list) rop"
  es_all_paginated :: "nat \<Rightarrow> nat \<Rightarrow> (econ_error, 's, transaction_record list \<times> nat) rop"

text \<open>The abstract ledger: balances, locked balances and nonces of all accounts, the snapshot
  of the open transaction, and the transactions recorded.\<close>

record ledger =
  l_balance :: "account_address \<Rightarrow> adic_amount"
  l_locked :: "account_address \<Rightarrow> adic_amount"
  l_nonce :: "account_address \<Rightarrow> u64"
  l_backup :: "((account_address \<Rightarrow> adic_amount) \<times> (account_address \<Rightarrow> adic_amount)) option"
  l_history :: "transaction_record list"

definition ledger_rollback :: "ledger \<Rightarrow> ledger" where
  "ledger_rollback L =
     (case l_backup L of
        None \<Rightarrow> L
      | Some (b, k) \<Rightarrow> L\<lparr>l_balance := b, l_locked := k, l_backup := None\<rparr>)"

definition empty_ledger :: ledger where
  "empty_ledger = \<lparr>l_balance = \<lambda>_. ADIC_ZERO, l_locked = \<lambda>_. ADIC_ZERO, l_nonce = \<lambda>_. 0,
     l_backup = None, l_history = []\<rparr>"

text \<open>What the clients rely on: reads return the ledger's entries and leave the storage as it
  was, writes succeed and change their entry only, and a rollback restores the balances and locked
  balances that \<open>begin_transaction\<close> saved.\<close>

locale economics_storage =
  fixes E :: "'s econ_ops" and view :: "'s \<Rightarrow> ledger"
  assumes get_balance: "es_get_balance E a s = (Inr (l_balance (view s) a), s)"
    and set_balance_ok: "fst (es_set_balance E a v s) = Inr ()"
    and set_balance_view: "view (snd (es_set_balance E a v s)) =
          (view s)\<lparr>l_balance := (l_balance (view s)) (a := v)\<rparr>"
    and get_locked: "es_get_locked E a s = (Inr (l_locked (view s) a), s)"
    and set_locked_ok: "fst (es_set_locked E a v s) = Inr ()"
    and set_locked_view: "view (snd (es_set_locked E a v s)) =
          (view s)\<lparr>l_locked := (l_locked (view s)) (a := v)\<rparr>"
    and get_nonce: "es_get_nonce E a s = (Inr (l_nonce (view s) a), s)"
    and set_nonce_ok: "fst (es_set_nonce E a n s) = Inr ()"
    and set_nonce_view: "view (snd (es_set_nonce E a n s)) =
          (view s)\<lparr>l_nonce := (l_nonce (view s)) (a := n)\<rparr>"
    and begin_ok: "fst (es_begin E s) = Inr ()"
    and begin_view: "view (snd (es_begin E s)) =
          (view s)\<lparr>l_backup := Some (l_balance (view s), l_locked (view s))\<rparr>"
    and commit_ok: "fst (es_commit E s) = Inr ()"
    and commit_view: "view (snd (es_commit E s)) = (view s)\<lparr>l_backup := None\<rparr>"
    and rollback_ok: "fst (es_rollback E s) = Inr ()"
    and rollback_view: "view (snd (es_rollback E s)) = ledger_rollback (view s)"
    and record_ok: "fst (es_record E t s) = Inr ()"
    and record_view: "view (snd (es_record E t s)) =
          (view s)\<lparr>l_history := l_history (view s) @ [t]\<rparr>"
begin

lemmas views = set_balance_view set_locked_view set_nonce_view begin_view commit_view
  rollback_view record_view

end

section \<open>\<open>MemoryStorage\<close>\<close>

type_synonym balance_map = "account_address \<rightharpoonup> adic_amount"

record memory_storage =
  ms_balances :: balance_map
  ms_locked :: balance_map
  ms_nonces :: "account_address \<rightharpoonup> u64"
  ms_backup :: "(balance_map \<times> balance_map) option"
  ms_history :: "transaction_record list"

definition memory_storage_new :: memory_storage where
  "memory_storage_new =
     \<lparr>ms_balances = Map.empty, ms_locked = Map.empty, ms_nonces = Map.empty, ms_backup = None,
      ms_history = []\<rparr>"

text \<open>\<open>map.get(key).copied().unwrap_or(default)\<close>, and the write of a map that keeps no
  entry for the default value.\<close>

definition get_or :: "'v \<Rightarrow> ('k \<rightharpoonup> 'v) \<Rightarrow> 'k \<Rightarrow> 'v" where
  "get_or d m k = (case m k of None \<Rightarrow> d | Some v \<Rightarrow> v)"

definition put_or_remove :: "'v \<Rightarrow> 'k \<Rightarrow> 'v \<Rightarrow> ('k \<rightharpoonup> 'v) \<Rightarrow> ('k \<rightharpoonup> 'v)" where
  "put_or_remove d k v m = (if v = d then m(k := None) else m(k \<mapsto> v))"

lemma get_or_put_or_remove: "get_or d (put_or_remove d k v m) = (get_or d m)(k := v)"
  by (auto simp: get_or_def put_or_remove_def fun_eq_iff)

lemma get_or_empty [simp]: "get_or d Map.empty = (\<lambda>_. d)"
  by (simp add: get_or_def fun_eq_iff)

definition mem_get_balance :: "account_address \<Rightarrow> (econ_error, memory_storage, adic_amount) rop" where
  "mem_get_balance a = getR (\<lambda>s. get_or ADIC_ZERO (ms_balances s) a)"

definition mem_set_balance ::
    "account_address \<Rightarrow> adic_amount \<Rightarrow> (econ_error, memory_storage, unit) rop" where
  "mem_set_balance a v = modR (\<lambda>s. s\<lparr>ms_balances := put_or_remove ADIC_ZERO a v (ms_balances s)\<rparr>)"

definition mem_get_locked :: "account_address \<Rightarrow> (econ_error, memory_storage, adic_amount) rop" where
  "mem_get_locked a = getR (\<lambda>s. get_or ADIC_ZERO (ms_locked s) a)"

definition mem_set_locked ::
    "account_address \<Rightarrow> adic_amount \<Rightarrow> (econ_error, memory_storage, unit) rop" where
  "mem_set_locked a v = modR (\<lambda>s. s\<lparr>ms_locked := put_or_remove ADIC_ZERO a v (ms_locked s)\<rparr>)"

definition mem_get_nonce :: "account_address \<Rightarrow> (econ_error, memory_storage, u64) rop" where
  "mem_get_nonce a = getR (\<lambda>s. get_or 0 (ms_nonces s) a)"

definition mem_set_nonce :: "account_address \<Rightarrow> u64 \<Rightarrow> (econ_error, memory_storage, unit) rop" where
  "mem_set_nonce a n = modR (\<lambda>s. s\<lparr>ms_nonces := put_or_remove 0 a n (ms_nonces s)\<rparr>)"

text \<open>\<open>keys\<close> is the iteration order of a hash map with the given set of keys.\<close>

definition mem_get_all_accounts ::
    "(account_address set \<Rightarrow> account_address list) \<Rightarrow>
     (econ_error, memory_storage, account_address list) rop" where
  "mem_get_all_accounts keys = getR (\<lambda>s.
     keys (dom (ms_balances s)) @
     filter (\<lambda>a. ms_balances s a = None) (keys (dom (ms_locked s))))"

definition mem_begin :: "(econ_error, memory_storage, unit) rop" where
  "mem_begin = modR (\<lambda>s. s\<lparr>ms_backup := Some (ms_balances s, ms_locked s)\<rparr>)"

definition mem_commit :: "(econ_error, memory_storage, unit) rop" where
  "mem_commit = modR (\<lambda>s. s\<lparr>ms_backup := None\<rparr>)"

definition mem_rollback :: "(econ_error, memory_storage, unit) rop" where
  "mem_rollback = modR (\<lambda>s.
     case ms_backup s of
       None \<Rightarrow> s
     | Some (balance_backup, locked_backup) \<Rightarrow>
         s\<lparr>ms_balances := balance_backup, ms_locked := locked_backup, ms_backup := None\<rparr>)"

definition mem_record :: "transaction_record \<Rightarrow> (econ_error, memory_storage, unit) rop" where
  "mem_record t = modR (\<lambda>s. s\<lparr>ms_history := ms_history s @ [t]\<rparr>)"

definition involves :: "account_address \<Rightarrow> transaction_record \<Rightarrow> bool" where
  "involves a t \<longleftrightarrow> tr_from t = a \<or> tr_to t = a"

definition mem_history ::
    "account_address \<Rightarrow> (econ_error, memory_storage, transaction_record list) rop" where
  "mem_history a = getR (\<lambda>s. filter (involves a) (ms_history s))"

text \<open>The stable sort by descending timestamp.\<close>

definition newest_first :: "transaction_record list \<Rightarrow> transaction_record list" where
  "newest_first txs = sort_key (\<lambda>t. - tr_timestamp t) txs"

fun cursor_position :: "i64 \<Rightarrow> string \<Rightarrow> nat \<Rightarrow> transaction_record list \<Rightarrow> nat" where
  "cursor_position timestamp tx_hash idx [] = 0"
| "cursor_position timestamp tx_hash idx (t # ts) =
     (if tr_timestamp t = timestamp \<and> tr_hash t = tx_hash then idx + 1
      else cursor_position timestamp tx_hash (idx + 1) ts)"

definition mem_history_paginated ::
    "account_address \<Rightarrow> nat \<Rightarrow> (i64 \<times> string) option \<Rightarrow>
     (econ_error, memory_storage, transaction_record list \<times> (i64 \<times> string) option) rop" where
  "mem_history_paginated a limit cursor = getR (\<lambda>s.
     let address_txs = newest_first (filter (involves a) (ms_history s));
         start_pos = (case cursor of
                        None \<Rightarrow> 0
                      | Some (timestamp, tx_hash) \<Rightarrow> cursor_position timestamp tx_hash 0 address_txs);
         filtered = take limit (drop start_pos address_txs);
         next_cursor = (if length filtered = limit \<and> filtered \<noteq> []
                        then Some (tr_timestamp (last filtered), tr_hash (last filtered)) else None)
     in (filtered, next_cursor))"

definition mem_all_paginated ::
    "nat \<Rightarrow> nat \<Rightarrow> (econ_error, memory_storage, transaction_record list \<times> nat) rop" where
  "mem_all_paginated limit offset = getR (\<lambda>s.
     (take limit (drop offset (newest_first (ms_history s))), length (ms_history s)))"

definition memory_ops ::
    "(account_address set \<Rightarrow> account_address list) \<Rightarrow> memory_storage econ_ops" where
  "memory_ops keys =
     \<lparr>es_get_balance = mem_get_balance, es_set_balance = mem_set_balance,
      es_get_locked = mem_get_locked, es_set_locked = mem_set_locked,
      es_get_nonce = mem_get_nonce, es_set_nonce = mem_set_nonce,
      es_all_accounts = mem_get_all_accounts keys,
      es_begin = mem_begin, es_commit = mem_commit, es_rollback = mem_rollback,
      es_record = mem_record, es_history = mem_history, es_all_paginated = mem_all_paginated\<rparr>"

lemmas memory_op_defs =
  mem_get_balance_def mem_set_balance_def mem_get_locked_def mem_set_locked_def
  mem_get_nonce_def mem_set_nonce_def mem_begin_def mem_commit_def mem_rollback_def
  mem_record_def mem_history_def mem_all_paginated_def mem_get_all_accounts_def

section \<open>\<open>MemoryStorage\<close> implements the ledger\<close>

definition mem_view :: "memory_storage \<Rightarrow> ledger" where
  "mem_view s =
     \<lparr>l_balance = get_or ADIC_ZERO (ms_balances s), l_locked = get_or ADIC_ZERO (ms_locked s),
      l_nonce = get_or 0 (ms_nonces s),
      l_backup = map_option (\<lambda>(b, k). (get_or ADIC_ZERO b, get_or ADIC_ZERO k)) (ms_backup s),
      l_history = ms_history s\<rparr>"

lemma mem_view_new: "mem_view memory_storage_new = empty_ledger"
  by (simp add: mem_view_def memory_storage_new_def empty_ledger_def)

interpretation mem: economics_storage "memory_ops keys" mem_view for keys
  by unfold_locales
    (simp_all add: memory_ops_def memory_op_defs mem_view_def get_or_put_or_remove
      ledger_rollback_def split: option.splits)

text \<open>The writes of an open transaction.\<close>

datatype store_write =
    WriteBalance account_address adic_amount
  | WriteLocked account_address adic_amount
  | WriteNonce account_address u64

fun do_write :: "memory_storage \<Rightarrow> store_write \<Rightarrow> memory_storage" where
  "do_write s (WriteBalance a v) = snd (mem_set_balance a v s)"
| "do_write s (WriteLocked a v) = snd (mem_set_locked a v s)"
| "do_write s (WriteNonce a n) = snd (mem_set_nonce a n s)"

lemma do_writes_backup: "ms_backup (foldl do_write s ws) = ms_backup s"
proof (induction ws arbitrary: s)
  case (Cons w ws)
  then show ?case by (cases w) (simp_all add: memory_op_defs)
qed simp

text \<open>After \<open>begin_transaction\<close> and any writes, \<open>rollback_transaction\<close> puts back every
  balance and every locked balance and closes the transaction. Nonces are not part of the
  snapshot: they keep the values written.\<close>

theorem rollback_restores:
  "let written = foldl do_write (snd (mem_begin s)) ws;
       after = snd (mem_rollback written)
   in ms_balances after = ms_balances s \<and> ms_locked after = ms_locked s \<and>
      ms_backup after = None \<and> ms_nonces after = ms_nonces written"
proof -
  have "ms_backup (foldl do_write (snd (mem_begin s)) ws) = Some (ms_balances s, ms_locked s)"
    by (simp add: do_writes_backup mem_begin_def)
  then show ?thesis by (simp add: mem_rollback_def Let_def)
qed

text \<open>Paging through the whole history with the cursors the operation returns: each page starts
  where the previous one ended.\<close>

lemma cursor_position_nth:
  assumes "i < length txs"
    and "\<forall>j<i. (tr_timestamp (txs ! j), tr_hash (txs ! j)) \<noteq> (tr_timestamp (txs ! i), tr_hash (txs ! i))"
  shows "cursor_position (tr_timestamp (txs ! i)) (tr_hash (txs ! i)) k txs = k + i + 1"
  using assms
proof (induction txs arbitrary: i k)
  case Nil
  then show ?case by simp
next
  case (Cons t txs)
  show ?case
  proof (cases i)
    case 0
    then show ?thesis by simp
  next
    case (Suc i')
    have "\<not> (tr_timestamp t = tr_timestamp (txs ! i') \<and> tr_hash t = tr_hash (txs ! i'))"
      using Cons.prems(2) Suc by force
    moreover have "cursor_position (tr_timestamp (txs ! i')) (tr_hash (txs ! i')) (Suc k) txs = Suc k + i' + 1"
      using Cons.prems Suc by (intro Cons.IH) force+
    ultimately show ?thesis using Suc by simp
  qed
qed

end
