(* ===== verification/Balance.thy ===== *)
theory Balance
  imports Economics_Storage
begin

text \<open>
  \<open>BalanceManager\<close> (\<open>crates/adic-economics/src/balance.rs\<close>): a write-through cache
  of accounts over an \<open>EconomicsStorage\<close>. Every operation takes the storage's
  operations \<open>E\<close> and, where the code reads the clock, its reading \<open>now\<close> in
  milliseconds (one per call). Events handed to the callbacks are appended to the two event lists
  of the state in the order of the calls. \<open>blake3\<close> and \<open>hex\<close> are parameters.
\<close>

section \<open>State\<close>

record account_info =
  ai_address :: account_address
  ai_balance :: adic_amount
  ai_nonce :: u64
  ai_locked :: adic_amount
  ai_last_activity :: i64

datatype balance_change_type = Credit | Debit | TransferIn | TransferOut

record balance_change_event =
  bc_address :: account_address
  bc_before :: adic_amount
  bc_after :: adic_amount
  bc_change :: adic_amount
  bc_type :: balance_change_type

record 's balance_manager =
  bm_storage :: 's
  bm_cache :: "account_address \<rightharpoonup> account_info"
  bm_events :: "balance_change_event list"
  bm_transfer_events :: "transfer_event list"

type_synonym ('s, 'a) bal_op = "(econ_error, 's balance_manager, 'a) rop"

definition balance_manager_new :: "'s \<Rightarrow> 's balance_manager" where
  "balance_manager_new storage =
     \<lparr>bm_storage = storage, bm_cache = Map.empty, bm_events = [], bm_transfer_events = []\<rparr>"

definition fresh_info :: "i64 \<Rightarrow> account_address \<Rightarrow> adic_amount \<Rightarrow> account_info" where
  "fresh_info now a balance =
     \<lparr>ai_address = a, ai_balance = balance, ai_nonce = 0, ai_locked = ADIC_ZERO,
      ai_last_activity = unix_secs now\<rparr>"

definition on_storage :: "(econ_error, 's, 'a) rop \<Rightarrow> ('s, 'a) bal_op" where
  "on_storage f m = (case f (bm_storage m) of (r, s) \<Rightarrow> (r, m\<lparr>bm_storage := s\<rparr>))"

definition cache_insert :: "account_address \<Rightarrow> account_info \<Rightarrow> 's balance_manager \<Rightarrow> 's balance_manager" where
  "cache_insert a info m = m\<lparr>bm_cache := (bm_cache m)(a \<mapsto> info)\<rparr>"

text \<open>The cache update that follows a write of a balance: the entry is modified when there is
  one, and \<open>absent\<close> says what happens when there is none.\<close>

definition cache_set_balance :: "i64 \<Rightarrow> account_address \<Rightarrow> adic_amount \<Rightarrow> account_info option \<Rightarrow>
    's balance_manager \<Rightarrow> 's balance_manager" where
  "cache_set_balance now a balance absent m =
     (case bm_cache m a of
        Some info \<Rightarrow> cache_insert a (info\<lparr>ai_balance := balance, ai_last_activity := unix_secs now\<rparr>) m
      | None \<Rightarrow> (case absent of None \<Rightarrow> m | Some info \<Rightarrow> cache_insert a info m))"

definition emit_balance_event :: "balance_change_event \<Rightarrow> 's balance_manager \<Rightarrow> 's balance_manager" where
  "emit_balance_event e m = m\<lparr>bm_events := bm_events m @ [e]\<rparr>"

definition emit_transfer_event :: "transfer_event \<Rightarrow> 's balance_manager \<Rightarrow> 's balance_manager" where
  "emit_transfer_event e m = m\<lparr>bm_transfer_events := bm_transfer_events m @ [e]\<rparr>"

section \<open>Operations\<close>

definition get_balance :: "'s econ_ops \<Rightarrow> i64 \<Rightarrow> account_address \<Rightarrow> ('s, adic_amount) bal_op" where
  "get_balance E now a m =
     (case bm_cache m a of
        Some info \<Rightarrow> (Inr (ai_balance info), m)
      | None \<Rightarrow>
          tryR (on_storage (es_get_balance E a)) (\<lambda>balance.
          tryR (modR (cache_insert a (fresh_info now a balance))) (\<lambda>_.
          okR balance)) m)"

definition credit :: "'s econ_ops \<Rightarrow> i64 \<Rightarrow> account_address \<Rightarrow> adic_amount \<Rightarrow> ('s, unit) bal_op" where
  "credit E now a amount =
     (if amount = ADIC_ZERO then okR ()
      else tryR (get_balance E now a) (\<lambda>current.
        (case amt_checked_add current amount of
           None \<Rightarrow> errR BalanceOverflow
         | Some new_balance \<Rightarrow>
             (if MAX_SUPPLY < new_balance then errR ExceedsMaxSupply
              else
                tryR (on_storage (es_set_balance E a new_balance)) (\<lambda>_.
                tryR (modR (cache_set_balance now a new_balance (Some (fresh_info now a new_balance)))) (\<lambda>_.
                modR (emit_balance_event \<lparr>bc_address = a, bc_before = current,
                  bc_after = new_balance, bc_change = amount, bc_type = Credit\<rparr>)))))))"

definition debit :: "'s econ_ops \<Rightarrow> i64 \<Rightarrow> account_address \<Rightarrow> adic_amount \<Rightarrow> ('s, unit) bal_op" where
  "debit E now a amount =
     (if amount = ADIC_ZERO then okR ()
      else tryR (get_balance E now a) (\<lambda>current.
        (case amt_checked_sub current amount of
           None \<Rightarrow> errR InsufficientBalance
         | Some new_balance \<Rightarrow>
             tryR (on_storage (es_set_balance E a new_balance)) (\<lambda>_.
             tryR (modR (cache_set_balance now a new_balance None)) (\<lambda>_.
             modR (emit_balance_event \<lparr>bc_address = a, bc_before = current,
               bc_after = new_balance, bc_change = amount, bc_type = Debit\<rparr>))))))"

definition transfer_hash :: "(bytes \<Rightarrow> bytes) \<Rightarrow> (bytes \<Rightarrow> string) \<Rightarrow> i64 \<Rightarrow> account_address \<Rightarrow>
    account_address \<Rightarrow> adic_amount \<Rightarrow> string" where
  "transfer_hash blake3 hex now from to amount =
     hex (blake3 (address_bytes from @ address_bytes to @ le_bytes (base_units amount) @
       le_bytes (word_of_int (unix_secs now))))"

definition transfer_internal :: "(bytes \<Rightarrow> bytes) \<Rightarrow> (bytes \<Rightarrow> string) \<Rightarrow> 's econ_ops \<Rightarrow> i64 \<Rightarrow>
    account_address \<Rightarrow> account_address \<Rightarrow> adic_amount \<Rightarrow> ('s, string) bal_op" where
  "transfer_internal blake3 hex E now from to amount =
     tryR (on_storage (es_get_balance E from)) (\<lambda>from_balance.
       if from_balance < amount then errR InsufficientBalance
       else
         tryR (on_storage (es_get_balance E to)) (\<lambda>to_balance.
           let new_from = amt_sat_sub from_balance amount in
           (case amt_checked_add to_balance amount of
              None \<Rightarrow> errR BalanceOverflow
            | Some new_to \<Rightarrow>
                tryR (on_storage (es_set_balance E from new_from)) (\<lambda>_.
                tryR (on_storage (es_set_balance E to new_to)) (\<lambda>_.
                tryR (modR (cache_set_balance now from new_from (Some (fresh_info now from new_from)))) (\<lambda>_.
                tryR (modR (cache_set_balance now to new_to (Some (fresh_info now to new_to)))) (\<lambda>_.
                tryR (modR (emit_balance_event \<lparr>bc_address = from, bc_before = from_balance,
                  bc_after = new_from, bc_change = amount, bc_type = TransferOut\<rparr>)) (\<lambda>_.
                tryR (modR (emit_balance_event \<lparr>bc_address = to, bc_before = to_balance,
                  bc_after = new_to, bc_change = amount, bc_type = TransferIn\<rparr>)) (\<lambda>_.
                okR (transfer_hash blake3 hex now from to amount))))))))))"

definition record_confirmed :: "'s econ_ops \<Rightarrow> i64 \<Rightarrow> account_address \<Rightarrow> account_address \<Rightarrow>
    adic_amount \<Rightarrow> string \<Rightarrow> 's balance_manager \<Rightarrow> 's balance_manager" where
  "record_confirmed E now from to amount tx_hash m =
     snd (on_storage (es_record E \<lparr>tr_from = from, tr_to = to, tr_amount = amount,
       tr_timestamp = now, tr_hash = tx_hash, tr_status = ''confirmed''\<rparr>) m)"

text \<open>The failure of an operation inside a storage transaction: the transaction is rolled back and
  the error returned, unless the rollback itself fails.\<close>

definition rollback_with :: "'s econ_ops \<Rightarrow> econ_error \<Rightarrow> ('s, 'a) bal_op" where
  "rollback_with E e = tryR (on_storage (es_rollback E)) (\<lambda>_. errR e)"

definition transfer_with_reason :: "(bytes \<Rightarrow> bytes) \<Rightarrow> (bytes \<Rightarrow> string) \<Rightarrow> 's econ_ops \<Rightarrow> i64 \<Rightarrow>
    account_address \<Rightarrow> account_address \<Rightarrow> adic_amount \<Rightarrow> transfer_reason \<Rightarrow> ('s, string) bal_op" where
  "transfer_with_reason blake3 hex E now from to amount reason =
     (if amount = ADIC_ZERO then okR ''''
      else if from = to then errR SameAddress
      else tryR (on_storage (es_begin E)) (\<lambda>_ m.
        (case transfer_internal blake3 hex E now from to amount m of
           (Inr tx_hash, m') \<Rightarrow>
             tryR (on_storage (es_commit E)) (\<lambda>_.
             tryR (modR (record_confirmed E now from to amount tx_hash)) (\<lambda>_.
             tryR (modR (emit_transfer_event \<lparr>te_from = from, te_to = to, te_amount = amount,
               te_timestamp = unix_secs now, te_reason = reason\<rparr>)) (\<lambda>_.
             okR tx_hash))) m'
         | (Inl e, m') \<Rightarrow> rollback_with E e m')))"

definition transfer :: "(bytes \<Rightarrow> bytes) \<Rightarrow> (bytes \<Rightarrow> string) \<Rightarrow> 's econ_ops \<Rightarrow> i64 \<Rightarrow>
    account_address \<Rightarrow> account_address \<Rightarrow> adic_amount \<Rightarrow> ('s, string) bal_op" where
  "transfer blake3 hex E now from to amount =
     transfer_with_reason blake3 hex E now from to amount Standard"

definition lock :: "'s econ_ops \<Rightarrow> i64 \<Rightarrow> account_address \<Rightarrow> adic_amount \<Rightarrow> ('s, unit) bal_op" where
  "lock E now a amount m =
     (let info = (case bm_cache m a of None \<Rightarrow> fresh_info now a ADIC_ZERO | Some i \<Rightarrow> i);
          m1 = cache_insert a info m
      in if amt_sat_sub (ai_balance info) (ai_locked info) < amount then errR InsufficientUnlocked m1
         else (let locked = amt_sat_add (ai_locked info) amount
               in on_storage (es_set_locked E a locked) (cache_insert a (info\<lparr>ai_locked := locked\<rparr>) m1)))"

definition unlock :: "'s econ_ops \<Rightarrow> account_address \<Rightarrow> adic_amount \<Rightarrow> ('s, unit) bal_op" where
  "unlock E a amount m =
     (case bm_cache m a of
        None \<Rightarrow> errR AccountNotFound m
      | Some info \<Rightarrow>
          (if ai_locked info < amount then errR InsufficientLocked m
           else (let locked = amt_sat_sub (ai_locked info) amount
                 in on_storage (es_set_locked E a locked) (cache_insert a (info\<lparr>ai_locked := locked\<rparr>) m))))"

definition get_locked_balance :: "'s econ_ops \<Rightarrow> account_address \<Rightarrow> ('s, adic_amount) bal_op" where
  "get_locked_balance E a m =
     (case bm_cache m a of
        Some info \<Rightarrow> (Inr (ai_locked info), m)
      | None \<Rightarrow> on_storage (es_get_locked E a) m)"

definition get_unlocked_balance ::
    "'s econ_ops \<Rightarrow> i64 \<Rightarrow> account_address \<Rightarrow> ('s, adic_amount) bal_op" where
  "get_unlocked_balance E now a =
     tryR (get_balance E now a) (\<lambda>balance.
     tryR (get_locked_balance E a) (\<lambda>locked.
     okR (amt_sat_sub balance locked)))"

fun collect_accounts ::
    "'s econ_ops \<Rightarrow> i64 \<Rightarrow> account_address list \<Rightarrow> ('s, account_info list) bal_op" where
  "collect_accounts E now [] = okR []"
| "collect_accounts E now (a # as) =
     tryR (get_balance E now a) (\<lambda>balance.
     tryR (get_locked_balance E a) (\<lambda>locked.
     tryR (collect_accounts E now as) (\<lambda>rest.
     okR ((fresh_info now a balance)\<lparr>ai_locked := locked\<rparr> # rest))))"

definition get_all_accounts :: "'s econ_ops \<Rightarrow> i64 \<Rightarrow> ('s, account_info list) bal_op" where
  "get_all_accounts E now = tryR (on_storage (es_all_accounts E)) (collect_accounts E now)"

definition clear_cache :: "'s balance_manager \<Rightarrow> 's balance_manager" where
  "clear_cache m = m\<lparr>bm_cache := Map.empty\<rparr>"

text \<open>\<open>storage.get_nonce(address).await.unwrap_or(0)\<close>\<close>

definition stored_nonce :: "'s econ_ops \<Rightarrow> account_address \<Rightarrow> ('s, u64) bal_op" where
  "stored_nonce E a m =
     (case on_storage (es_get_nonce E a) m of
        (Inl _, m') \<Rightarrow> (Inr 0, m')
      | (Inr n, m') \<Rightarrow> (Inr n, m'))"

definition get_nonce :: "'s econ_ops \<Rightarrow> account_address \<Rightarrow> ('s, u64) bal_op" where
  "get_nonce E a m =
     (case bm_cache m a of
        Some info \<Rightarrow> (Inr (ai_nonce info), m)
      | None \<Rightarrow> stored_nonce E a m)"

definition increment_nonce :: "'s econ_ops \<Rightarrow> i64 \<Rightarrow> account_address \<Rightarrow> ('s, unit) bal_op" where
  "increment_nonce E now a m =
     (case bm_cache m a of
        Some info \<Rightarrow>
          (let nonce = ai_nonce info + 1
           in on_storage (es_set_nonce E a nonce) (cache_insert a (info\<lparr>ai_nonce := nonce\<rparr>) m))
      | None \<Rightarrow>
          tryR (stored_nonce E a) (\<lambda>n.
          tryR (on_storage (es_set_nonce E a (n + 1))) (\<lambda>_.
          tryR (on_storage (es_get_balance E a)) (\<lambda>balance.
          modR (cache_insert a ((fresh_info now a balance)\<lparr>ai_nonce := n + 1\<rparr>))))) m)"

definition validate_transfer ::
    "'s econ_ops \<Rightarrow> i64 \<Rightarrow> bytes \<Rightarrow> bytes \<Rightarrow> u64 \<Rightarrow> u64 \<Rightarrow> ('s, unit) bal_op" where
  "validate_transfer E now from to amount nonce =
     (if length from \<noteq> 32 \<or> length to \<noteq> 32 then errR InvalidAddressLength
      else if from = to then errR SameAddress
      else if amount = 0 then errR ZeroTransfer
      else
        tryR (get_balance E now (AccountAddress from)) (\<lambda>balance.
          if balance < AdicAmount amount then errR InsufficientBalance
          else
            tryR (get_nonce E (AccountAddress from)) (\<lambda>current_nonce.
              if nonce \<noteq> current_nonce + 1 then errR InvalidNonce else okR ())))"

definition process_message_transfer :: "(bytes \<Rightarrow> bytes) \<Rightarrow> (bytes \<Rightarrow> string) \<Rightarrow> 's econ_ops \<Rightarrow> i64 \<Rightarrow>
    bytes \<Rightarrow> bytes \<Rightarrow> u64 \<Rightarrow> u64 \<Rightarrow> ('s, string) bal_op" where
  "process_message_transfer blake3 hex E now from to amount nonce =
     (if length from \<noteq> 32 \<or> length to \<noteq> 32 then errR InvalidAddressLength
      else
        let from_addr = AccountAddress from; to_addr = AccountAddress to;
            transfer_amount = AdicAmount amount
        in
        tryR (validate_transfer E now from to amount nonce) (\<lambda>_.
        tryR (on_storage (es_begin E)) (\<lambda>_ m.
          (case transfer_internal blake3 hex E now from_addr to_addr transfer_amount m of
             (Inr tx_hash, m') \<Rightarrow>
               (case increment_nonce E now from_addr m' of
                  (Inl e, m'') \<Rightarrow> rollback_with E e m''
                | (Inr _, m'') \<Rightarrow>
                    tryR (on_storage (es_commit E)) (\<lambda>_.
                    tryR (modR (record_confirmed E now from_addr to_addr transfer_amount tx_hash)) (\<lambda>_.
                    tryR (modR (emit_transfer_event \<lparr>te_from = from_addr, te_to = to_addr,
                      te_amount = transfer_amount, te_timestamp = unix_secs now,
                      te_reason = MessageTransfer\<rparr>)) (\<lambda>_.
                    okR tx_hash))) m'')
           | (Inl e, m') \<Rightarrow> rollback_with E e m'))))"

section \<open>The ledger the manager implements\<close>

text \<open>
  The contract: the same operations on the abstract \<open>ledger\<close>, without a cache.
\<close>

definition sp_credit :: "account_address \<Rightarrow> adic_amount \<Rightarrow> (econ_error, ledger, unit) rop" where
  "sp_credit a amount L =
     (if amount = ADIC_ZERO then (Inr (), L)
      else case amt_checked_add (l_balance L a) amount of
        None \<Rightarrow> (Inl BalanceOverflow, L)
      | Some v \<Rightarrow>
          (if MAX_SUPPLY < v then (Inl ExceedsMaxSupply, L)
           else (Inr (), L\<lparr>l_balance := (l_balance L)(a := v)\<rparr>)))"

definition sp_debit :: "account_address \<Rightarrow> adic_amount \<Rightarrow> (econ_error, ledger, unit) rop" where
  "sp_debit a amount L =
     (if amount = ADIC_ZERO then (Inr (), L)
      else case amt_checked_sub (l_balance L a) amount of
        None \<Rightarrow> (Inl InsufficientBalance, L)
      | Some v \<Rightarrow> (Inr (), L\<lparr>l_balance := (l_balance L)(a := v)\<rparr>))"

definition sp_lock :: "account_address \<Rightarrow> adic_amount \<Rightarrow> (econ_error, ledger, unit) rop" where
  "sp_lock a amount L =
     (if units (l_balance L a) - units (l_locked L a) < units amount then (Inl InsufficientUnlocked, L)
      else (Inr (), L\<lparr>l_locked := (l_locked L)(a := amt_sat_add (l_locked L a) amount)\<rparr>))"

text \<open>The move of an amount between two accounts, and the transfers built on it. A transfer ends
  with no open transaction, on its failures too.\<close>

definition sp_move :: "account_address \<Rightarrow> account_address \<Rightarrow> adic_amount \<Rightarrow>
    (econ_error, ledger, unit) rop" where
  "sp_move from to amount L =
     (if l_balance L from < amount then (Inl InsufficientBalance, L)
      else case amt_checked_add (l_balance L to) amount of
        None \<Rightarrow> (Inl BalanceOverflow, L)
      | Some v \<Rightarrow> (Inr (), L\<lparr>l_balance := (l_balance L)
                      (from := amt_sat_sub (l_balance L from) amount, to := v)\<rparr>))"

definition sp_close :: "transaction_record \<Rightarrow> ledger \<Rightarrow> ledger" where
  "sp_close t L = L\<lparr>l_backup := None, l_history := l_history L @ [t]\<rparr>"

definition confirmed :: "i64 \<Rightarrow> account_address \<Rightarrow> account_address \<Rightarrow> adic_amount \<Rightarrow> string \<Rightarrow>
    transaction_record" where
  "confirmed now from to amount h =
     \<lparr>tr_from = from, tr_to = to, tr_amount = amount, tr_timestamp = now, tr_hash = h,
      tr_status = ''confirmed''\<rparr>"

definition sp_transfer :: "(bytes \<Rightarrow> bytes) \<Rightarrow> (bytes \<Rightarrow> string) \<Rightarrow> i64 \<Rightarrow> account_address \<Rightarrow>
    account_address \<Rightarrow> adic_amount \<Rightarrow> (econ_error, ledger, string) rop" where
  "sp_transfer blake3 hex now from to amount L =
     (if amount = ADIC_ZERO then (Inr '''', L)
      else if from = to then (Inl SameAddress, L)
      else case sp_move from to amount L of
        (Inl e, _) \<Rightarrow> (Inl e, L\<lparr>l_backup := None\<rparr>)
      | (Inr _, L') \<Rightarrow>
          (let h = transfer_hash blake3 hex now from to amount
           in (Inr h, sp_close (confirmed now from to amount h) L')))"

definition sp_message_transfer :: "(bytes \<Rightarrow> bytes) \<Rightarrow> (bytes \<Rightarrow> string) \<Rightarrow> i64 \<Rightarrow> bytes \<Rightarrow> bytes \<Rightarrow>
    u64 \<Rightarrow> u64 \<Rightarrow> (econ_error, ledger, string) rop" where
  "sp_message_transfer blake3 hex now from to amount nonce L =
     (let f = AccountAddress from; t = AccountAddress to; v = AdicAmount amount;
          h = transfer_hash blake3 hex now f t v
      in if length from \<noteq> 32 \<or> length to \<noteq> 32 then (Inl InvalidAddressLength, L)
         else if from = to then (Inl SameAddress, L)
         else if amount = 0 then (Inl ZeroTransfer, L)
         else if l_balance L f < v then (Inl InsufficientBalance, L)
         else if nonce \<noteq> l_nonce L f + 1 then (Inl InvalidNonce, L)
         else case sp_move f t v L of
           (Inl e, _) \<Rightarrow> (Inl e, L\<lparr>l_backup := None\<rparr>)
         | (Inr _, L') \<Rightarrow>
             (Inr h, sp_close (confirmed now f t v h) (L'\<lparr>l_nonce := (l_nonce L')(f := nonce)\<rparr>)))"

section \<open>The cache invariant\<close>

definition entry :: "'s balance_manager \<Rightarrow> account_address \<Rightarrow> adic_amount \<times> adic_amount \<times> u64" where
  "entry m a = (case bm_cache m a of
     None \<Rightarrow> (ADIC_ZERO, ADIC_ZERO, 0)
   | Some info \<Rightarrow> (ai_balance info, ai_locked info, ai_nonce info))"

definition ledger_entry :: "ledger \<Rightarrow> account_address \<Rightarrow> adic_amount \<times> adic_amount \<times> u64" where
  "ledger_entry L a = (l_balance L a, l_locked L a, l_nonce L a)"

text \<open>Every account the cache does not hold is untouched in the storage, and what the cache
  holds is what the storage holds.\<close>

definition coherent :: "('s \<Rightarrow> ledger) \<Rightarrow> 's balance_manager \<Rightarrow> bool" where
  "coherent view m \<longleftrightarrow> entry m = ledger_entry (view (bm_storage m))"

definition ledger_of :: "('s \<Rightarrow> ledger) \<Rightarrow> 's balance_manager \<Rightarrow> ledger" where
  "ledger_of view m = view (bm_storage m)"

text \<open>\<open>f\<close> implements \<open>g\<close>: from a coherent manager it returns what \<open>g\<close> returns on
  the ledger, leaves the ledger \<open>g\<close> leaves, and the manager coherent.\<close>

definition implements :: "('s \<Rightarrow> ledger) \<Rightarrow> ('s, 'a) bal_op \<Rightarrow> (econ_error, ledger, 'a) rop \<Rightarrow> bool" where
  "implements view f g \<longleftrightarrow>
     (\<forall>m. coherent view m \<longrightarrow>
        coherent view (snd (f m)) \<and> g (ledger_of view m) = (fst (f m), ledger_of view (snd (f m))))"

lemma implementsD:
  "\<lbrakk>implements view f g; coherent view m; f m = (r, m')\<rbrakk> \<Longrightarrow>
   coherent view m' \<and> g (ledger_of view m) = (r, ledger_of view m')"
  unfolding implements_def by (drule spec [of _ m]) simp

lemma entry_simps:
  "bm_cache m a = Some info \<Longrightarrow> entry m a = (ai_balance info, ai_locked info, ai_nonce info)"
  "bm_cache m a = None \<Longrightarrow> entry m a = (ADIC_ZERO, ADIC_ZERO, 0)"
  by (simp_all add: entry_def)

lemma entry_storage [simp]: "entry (m\<lparr>bm_storage := s\<rparr>) = entry m"
  by (simp add: entry_def fun_eq_iff)

lemma entry_events [simp]:
  "entry (emit_balance_event e m) = entry m" "entry (emit_transfer_event e' m) = entry m"
  by (simp_all add: entry_def fun_eq_iff emit_balance_event_def emit_transfer_event_def)

lemma entry_cache_insert [simp]:
  "entry (cache_insert a info m) = (entry m)(a := (ai_balance info, ai_locked info, ai_nonce info))"
  by (simp add: entry_def cache_insert_def fun_eq_iff)

lemma entry_fresh:
  "bm_cache m a = None \<Longrightarrow> entry m a = (v, k, n) \<Longrightarrow> v = ADIC_ZERO \<and> k = ADIC_ZERO \<and> n = 0"
  by (simp add: entry_def)

lemma storage_simps [simp]:
  "bm_storage (cache_insert a info m) = bm_storage m"
  "bm_storage (emit_balance_event e m) = bm_storage m"
  "bm_storage (emit_transfer_event e' m) = bm_storage m"
  "bm_storage (cache_set_balance now a v absent m) = bm_storage m"
  by (simp_all add: cache_insert_def emit_balance_event_def emit_transfer_event_def
      cache_set_balance_def split: option.splits)

lemma entry_cache_set_balance:
  "absent = Some (fresh_info now a v) \<or> bm_cache m a \<noteq> None \<Longrightarrow>
   entry (cache_set_balance now a v absent m) = (entry m)(a := (v, snd (entry m a)))"
  by (auto simp: cache_set_balance_def entry_def fun_eq_iff cache_insert_def fresh_info_def
      split: option.splits)

lemma cache_set_balance_cached [simp]:
  "bm_cache (cache_set_balance now a v absent m) b \<noteq> None \<longleftrightarrow>
   bm_cache m b \<noteq> None \<or> (a = b \<and> absent \<noteq> None)"
  by (auto simp: cache_set_balance_def cache_insert_def split: option.splits)

lemma coherent_entry: "coherent view m \<Longrightarrow> entry m a = ledger_entry (ledger_of view m) a"
  by (simp add: coherent_def ledger_of_def)

lemma coherent_new: "view s = empty_ledger \<Longrightarrow> coherent view (balance_manager_new s)"
  by (simp add: coherent_def balance_manager_new_def entry_def ledger_entry_def empty_ledger_def fun_eq_iff)

section \<open>The manager implements the ledger\<close>

context economics_storage
begin

lemma on_storage_simps [simp]:
  "on_storage (es_get_balance E a) m = (Inr (l_balance (view (bm_storage m)) a), m)"
  "on_storage (es_get_locked E a) m = (Inr (l_locked (view (bm_storage m)) a), m)"
  "on_storage (es_get_nonce E a) m = (Inr (l_nonce (view (bm_storage m)) a), m)"
  "on_storage (es_set_balance E a v) m = (Inr (), m\<lparr>bm_storage := snd (es_set_balance E a v (bm_storage m))\<rparr>)"
  "on_storage (es_set_locked E a v) m = (Inr (), m\<lparr>bm_storage := snd (es_set_locked E a v (bm_storage m))\<rparr>)"
  "on_storage (es_set_nonce E a n) m = (Inr (), m\<lparr>bm_storage := snd (es_set_nonce E a n (bm_storage m))\<rparr>)"
  "on_storage (es_begin E) m = (Inr (), m\<lparr>bm_storage := snd (es_begin E (bm_storage m))\<rparr>)"
  "on_storage (es_commit E) m = (Inr (), m\<lparr>bm_storage := snd (es_commit E (bm_storage m))\<rparr>)"
  "on_storage (es_rollback E) m = (Inr (), m\<lparr>bm_storage := snd (es_rollback E (bm_storage m))\<rparr>)"
  "on_storage (es_record E t) m = (Inr (), m\<lparr>bm_storage := snd (es_record E t (bm_storage m))\<rparr>)"
  by (simp_all add: on_storage_def split_def get_balance get_locked get_nonce set_balance_ok
      set_locked_ok set_nonce_ok begin_ok commit_ok rollback_ok record_ok)

lemma get_balance_coherent:
  assumes "coherent view m"
  obtains m' where "Balance.get_balance E now a m = (Inr (l_balance (ledger_of view m) a), m')"
    and "entry m' = entry m" and "bm_storage m' = bm_storage m" and "bm_cache m' a \<noteq> None"
proof (cases "bm_cache m a")
  case None
  let ?b = "l_balance (ledger_of view m) a"
  have 1: "Balance.get_balance E now a m = (Inr ?b, cache_insert a (fresh_info now a ?b) m)"
    using None by (simp add: Balance.get_balance_def ledger_of_def)
  have 2: "entry (cache_insert a (fresh_info now a ?b) m) = entry m"
    using coherent_entry [OF assms, of a] entry_simps(2) [OF None]
    by (auto simp: fresh_info_def ledger_entry_def fun_eq_iff)
  show ?thesis
    by (rule that [OF 1 2]) (simp_all add: cache_insert_def)
next
  case (Some info)
  then have "Balance.get_balance E now a m = (Inr (l_balance (ledger_of view m) a), m)"
    using coherent_entry [OF assms, of a]
    by (simp add: Balance.get_balance_def entry_simps(1) ledger_entry_def)
  with Some show ?thesis by (intro that) auto
qed

lemma get_balance_implements:
  "implements view (Balance.get_balance E now a) (\<lambda>L. (Inr (l_balance L a), L))"
  unfolding implements_def
proof (intro allI impI)
  fix m :: "'s balance_manager"
  assume "coherent view m"
  from get_balance_coherent [OF this, of now a] this
  show "coherent view (snd (Balance.get_balance E now a m)) \<and>
      (Inr (l_balance (ledger_of view m) a), ledger_of view m) =
        (fst (Balance.get_balance E now a m), ledger_of view (snd (Balance.get_balance E now a m)))"
    by (metis coherent_def fst_conv ledger_of_def snd_conv)
qed

text \<open>A write of one balance, in the storage and in the cache.\<close>

lemma write_balance_coherent:
  assumes "coherent view m" and "absent = Some (fresh_info now a v) \<or> bm_cache m a \<noteq> None"
  defines "m' \<equiv> cache_set_balance now a v absent (m\<lparr>bm_storage := snd (es_set_balance E a v (bm_storage m))\<rparr>)"
  shows "coherent view m'"
    and "ledger_of view m' = (ledger_of view m)\<lparr>l_balance := (l_balance (ledger_of view m)) (a := v)\<rparr>"
proof -
  have "entry m' = (entry m)(a := (v, snd (entry m a)))"
    using assms(2) by (simp add: m'_def entry_cache_set_balance)
  then show "coherent view m'"
    using assms(1) by (auto simp: coherent_def m'_def set_balance_view ledger_entry_def fun_eq_iff)
  show "ledger_of view m' = (ledger_of view m)\<lparr>l_balance := (l_balance (ledger_of view m)) (a := v)\<rparr>"
    by (simp add: ledger_of_def m'_def set_balance_view)
qed

lemma coherent_cong:
  "entry m' = entry m \<Longrightarrow> bm_storage m' = bm_storage m \<Longrightarrow> coherent view m' \<longleftrightarrow> coherent view m"
  by (simp add: coherent_def)

lemma ledger_of_cong: "bm_storage m' = bm_storage m \<Longrightarrow> ledger_of view m' = ledger_of view m"
  by (simp add: ledger_of_def)

lemma emit_coherent [simp]:
  "coherent view (emit_balance_event e m) = coherent view m"
  "coherent view (emit_transfer_event e' m) = coherent view m"
  "ledger_of view (emit_balance_event e m) = ledger_of view m"
  "ledger_of view (emit_transfer_event e' m) = ledger_of view m"
  by (simp_all add: coherent_def ledger_of_def)

lemma credit_implements: "implements view (credit E now a amount) (sp_credit a amount)"
  unfolding implements_def
proof (intro allI impI)
  fix m :: "'s balance_manager"
  assume coh: "coherent view m"
  obtain m1 where m1: "Balance.get_balance E now a m = (Inr (l_balance (ledger_of view m) a), m1)"
      "entry m1 = entry m" "bm_storage m1 = bm_storage m"
    by (rule get_balance_coherent [OF coh, of now a])
  have coh1: "coherent view m1" and led1: "ledger_of view m1 = ledger_of view m"
    using m1 coh by (simp_all add: coherent_def ledger_of_def)
  show "coherent view (snd (credit E now a amount m)) \<and>
      sp_credit a amount (ledger_of view m) =
        (fst (credit E now a amount m), ledger_of view (snd (credit E now a amount m)))"
    using coh coh1 led1 m1(1,3) write_balance_coherent [OF coh1]
    by (auto simp: credit_def sp_credit_def led1 split: option.split)
qed

lemma debit_implements: "implements view (debit E now a amount) (sp_debit a amount)"
  unfolding implements_def
proof (intro allI impI)
  fix m :: "'s balance_manager"
  assume coh: "coherent view m"
  obtain m1 where m1: "Balance.get_balance E now a m = (Inr (l_balance (ledger_of view m) a), m1)"
      "entry m1 = entry m" "bm_storage m1 = bm_storage m" "bm_cache m1 a \<noteq> None"
    by (rule get_balance_coherent [OF coh, of now a])
  have coh1: "coherent view m1" and led1: "ledger_of view m1 = ledger_of view m"
    using m1 coh by (simp_all add: coherent_def ledger_of_def)
  show "coherent view (snd (debit E now a amount m)) \<and>
      sp_debit a amount (ledger_of view m) =
        (fst (debit E now a amount m), ledger_of view (snd (debit E now a amount m)))"
    using coh coh1 led1 m1(1,3,4) write_balance_coherent [OF coh1, of None now a]
    by (auto simp: debit_def sp_debit_def led1 split: option.split)
qed

lemma lock_implements: "implements view (lock E now a amount) (sp_lock a amount)"
  unfolding implements_def
proof (intro allI impI)
  fix m :: "'s balance_manager"
  assume coh: "coherent view m"
  define info where "info = (case bm_cache m a of None \<Rightarrow> fresh_info now a ADIC_ZERO | Some i \<Rightarrow> i)"
  have "entry m a = (ai_balance info, ai_locked info, ai_nonce info)"
    by (simp add: info_def entry_def fresh_info_def split: option.split)
  with coherent_entry [OF coh, of a] have
    led: "ai_balance info = l_balance (ledger_of view m) a" "ai_locked info = l_locked (ledger_of view m) a"
      "ai_nonce info = l_nonce (ledger_of view m) a"
    by (simp_all add: ledger_entry_def)
  have ent: "entry m = ledger_entry (ledger_of view m)"
    using coh by (simp add: coherent_def ledger_of_def)
  show "coherent view (snd (lock E now a amount m)) \<and>
      sp_lock a amount (ledger_of view m) =
        (fst (lock E now a amount m), ledger_of view (snd (lock E now a amount m)))"
    using led ent
    by (auto simp: lock_def sp_lock_def Let_def amount_less_iff units_sat_sub coherent_def ledger_of_def
        set_locked_view ledger_entry_def fun_eq_iff simp flip: info_def)
qed

lemma unlock_coherent:
  assumes coh: "coherent view m"
  defines "L \<equiv> ledger_of view m"
  shows "unlock E a amount m =
     (case bm_cache m a of
        None \<Rightarrow> (Inl AccountNotFound, m)
      | Some _ \<Rightarrow> (if l_locked L a < amount then (Inl InsufficientLocked, m) else (Inr (), snd (unlock E a amount m))))"
    and "coherent view (snd (unlock E a amount m))"
    and "ledger_of view (snd (unlock E a amount m)) =
      (if bm_cache m a = None \<or> l_locked L a < amount then L
       else L\<lparr>l_locked := (l_locked L)(a := amt_sat_sub (l_locked L a) amount)\<rparr>)"
proof -
  have ent: "entry m = ledger_entry L"
    using coh by (simp add: L_def coherent_def ledger_of_def)
  have led: "ai_balance info = l_balance L a \<and> ai_locked info = l_locked L a \<and> ai_nonce info = l_nonce L a"
    if "bm_cache m a = Some info" for info
    using ent entry_simps(1) [OF that] by (simp add: ledger_entry_def)
  show "unlock E a amount m =
     (case bm_cache m a of
        None \<Rightarrow> (Inl AccountNotFound, m)
      | Some _ \<Rightarrow> (if l_locked L a < amount then (Inl InsufficientLocked, m) else (Inr (), snd (unlock E a amount m))))"
    using led by (auto simp: unlock_def Let_def split: option.split)
  have "coherent view (snd (unlock E a amount m)) \<and>
      ledger_of view (snd (unlock E a amount m)) =
      (if bm_cache m a = None \<or> l_locked L a < amount then L
       else L\<lparr>l_locked := (l_locked L)(a := amt_sat_sub (l_locked L a) amount)\<rparr>)"
  proof (cases "bm_cache m a")
    case None
    then show ?thesis using coh by (simp add: unlock_def L_def)
  next
    case (Some info)
    then show ?thesis
      using led [OF Some] coh ent
      by (simp add: unlock_def Let_def coherent_def set_locked_view ledger_of_def L_def)
        (auto simp: ledger_entry_def fun_eq_iff)
  qed
  then show "coherent view (snd (unlock E a amount m))"
    "ledger_of view (snd (unlock E a amount m)) =
      (if bm_cache m a = None \<or> l_locked L a < amount then L
       else L\<lparr>l_locked := (l_locked L)(a := amt_sat_sub (l_locked L a) amount)\<rparr>)" by blast+
qed

lemma get_locked_implements:
  "implements view (get_locked_balance E a) (\<lambda>L. (Inr (l_locked L a), L))"
  by (auto simp: implements_def get_locked_balance_def coherent_def entry_def ledger_of_def
      ledger_entry_def fun_eq_iff split: option.splits)

lemma get_nonce_implements: "implements view (Balance.get_nonce E a) (\<lambda>L. (Inr (l_nonce L a), L))"
  by (auto simp: implements_def Balance.get_nonce_def stored_nonce_def coherent_def entry_def ledger_of_def
      ledger_entry_def fun_eq_iff split: option.splits)

end

lemma sp_move_err: "sp_move from to amount L = (Inl e, L') \<Longrightarrow> L' = L"
  by (auto simp: sp_move_def split: if_splits option.splits)

context economics_storage
begin

lemma transfer_internal_err:
  assumes "sp_move from to amount (ledger_of view m) = (Inl e, L')"
  shows "transfer_internal blake3 hex E now from to amount m = (Inl e, m)"
  using assms
  by (auto simp: sp_move_def transfer_internal_def ledger_of_def Let_def split: if_splits option.splits)

lemma transfer_internal_ok:
  assumes coh: "coherent view m" and neq: "from \<noteq> to"
    and move: "sp_move from to amount (ledger_of view m) = (Inr u, L')"
  obtains m' where "transfer_internal blake3 hex E now from to amount m =
      (Inr (transfer_hash blake3 hex now from to amount), m')"
    and "coherent view m'" and "ledger_of view m' = L'" and "bm_cache m' from \<noteq> None"
proof -
  let ?L = "ledger_of view m"
  obtain v where v: "amt_checked_add (l_balance ?L to) amount = Some v"
      "\<not> l_balance ?L from < amount"
      "L' = ?L\<lparr>l_balance := (l_balance ?L)(from := amt_sat_sub (l_balance ?L from) amount, to := v)\<rparr>"
    using move by (auto simp: sp_move_def split: if_splits option.splits)
  let ?nf = "amt_sat_sub (l_balance ?L from) amount"
  let ?s1 = "snd (es_set_balance E from ?nf (bm_storage m))"
  let ?s2 = "snd (es_set_balance E to v ?s1)"
  define m1 where "m1 = cache_set_balance now from ?nf (Some (fresh_info now from ?nf)) (m\<lparr>bm_storage := ?s2\<rparr>)"
  define m2 where "m2 = cache_set_balance now to v (Some (fresh_info now to v)) m1"
  define m3 where "m3 = emit_balance_event \<lparr>bc_address = to, bc_before = l_balance ?L to,
      bc_after = v, bc_change = amount, bc_type = TransferIn\<rparr>
    (emit_balance_event \<lparr>bc_address = from, bc_before = l_balance ?L from,
      bc_after = ?nf, bc_change = amount, bc_type = TransferOut\<rparr> m2)"
  have run: "transfer_internal blake3 hex E now from to amount m =
      (Inr (transfer_hash blake3 hex now from to amount), m3)"
    using v(1,2) by (simp add: transfer_internal_def Let_def ledger_of_def m1_def m2_def m3_def)
  have "entry m3 = (entry m)(from := (?nf, snd (entry m from)), to := (v, snd (entry m to)))"
    using neq by (simp add: m3_def m2_def m1_def entry_cache_set_balance)
  moreover have led: "ledger_of view m3 = L'"
    by (simp add: ledger_of_def m3_def m2_def m1_def v(3) set_balance_view)
  moreover have "entry m = ledger_entry ?L"
    using coh by (simp add: coherent_def ledger_of_def)
  ultimately have "coherent view m3"
    using neq by (auto simp: coherent_def ledger_of_def v(3) ledger_entry_def fun_eq_iff)
  moreover have "bm_cache m3 from \<noteq> None"
    by (simp add: m3_def m2_def m1_def emit_balance_event_def cache_set_balance_cached del: not_None_eq)
  ultimately show ?thesis using run led by (intro that) auto
qed

text \<open>A storage transaction that fails is rolled back to where it began.\<close>

definition after_begin :: "'s balance_manager \<Rightarrow> 's balance_manager" where
  "after_begin m = m\<lparr>bm_storage := snd (es_begin E (bm_storage m))\<rparr>"

lemma after_begin:
  assumes "coherent view m"
  shows "coherent view (after_begin m)"
    and "ledger_of view (after_begin m) =
      (ledger_of view m)\<lparr>l_backup := Some (l_balance (ledger_of view m), l_locked (ledger_of view m))\<rparr>"
  using assms by (simp_all add: after_begin_def coherent_def ledger_of_def begin_view ledger_entry_def fun_eq_iff)

lemma sp_move_backup:
  "sp_move from to amount (L\<lparr>l_backup := b\<rparr>) =
     (case sp_move from to amount L of (r, L') \<Rightarrow> (r, L'\<lparr>l_backup := b\<rparr>))"
  by (auto simp: sp_move_def split: option.split)

lemma rollback_with_begin:
  assumes "coherent view m"
  shows "\<exists>m'. rollback_with E e (after_begin m) = (Inl e, m') \<and> coherent view m' \<and>
      ledger_of view m' = (ledger_of view m)\<lparr>l_backup := None\<rparr>"
  using assms
  by (simp add: rollback_with_def after_begin_def coherent_def ledger_of_def begin_view rollback_view
      ledger_rollback_def ledger_entry_def fun_eq_iff)

text \<open>The end of a transfer that succeeded.\<close>

definition closed :: "i64 \<Rightarrow> account_address \<Rightarrow> account_address \<Rightarrow> adic_amount \<Rightarrow> string \<Rightarrow>
    transfer_event \<Rightarrow> 's balance_manager \<Rightarrow> 's balance_manager" where
  "closed now from to amount h e m =
     emit_transfer_event e (record_confirmed E now from to amount h
       (m\<lparr>bm_storage := snd (es_commit E (bm_storage m))\<rparr>))"

lemma closed:
  assumes "coherent view m"
  shows "coherent view (closed now from to amount h e m)"
    and "ledger_of view (closed now from to amount h e m) =
      sp_close (confirmed now from to amount h) (ledger_of view m)"
  using assms
  by (simp_all add: closed_def coherent_def ledger_of_def record_confirmed_def record_view commit_view
      ledger_entry_def sp_close_def confirmed_def fun_eq_iff)

lemma transfer_implements:
  "implements view (transfer_with_reason blake3 hex E now from to amount reason)
     (sp_transfer blake3 hex now from to amount)"
  unfolding implements_def
proof (intro allI impI)
  fix m :: "'s balance_manager"
  assume coh: "coherent view m"
  let ?f = "transfer_with_reason blake3 hex E now from to amount reason"
  let ?L = "ledger_of view m"
  note ab = after_begin [OF coh]
  show "coherent view (snd (?f m)) \<and>
      sp_transfer blake3 hex now from to amount ?L = (fst (?f m), ledger_of view (snd (?f m)))"
  proof (cases "amount = ADIC_ZERO \<or> from = to")
    case True
    then show ?thesis using coh by (auto simp: transfer_with_reason_def sp_transfer_def)
  next
    case False
    have start: "?f m = (case transfer_internal blake3 hex E now from to amount (after_begin m) of
        (Inr h, m') \<Rightarrow> (Inr h, closed now from to amount h \<lparr>te_from = from, te_to = to,
            te_amount = amount, te_timestamp = unix_secs now, te_reason = reason\<rparr> m')
      | (Inl e, m') \<Rightarrow> rollback_with E e m')"
      using False by (auto simp: transfer_with_reason_def after_begin_def closed_def split: prod.split sum.split)
    obtain r L' where move: "sp_move from to amount ?L = (r, L')" by (cases "sp_move from to amount ?L")
    show ?thesis
    proof (cases r)
      case (Inl e)
      with move have "sp_move from to amount (ledger_of view (after_begin m)) =
          (Inl e, L'\<lparr>l_backup := l_backup (ledger_of view (after_begin m))\<rparr>)"
        by (simp add: ab(2) sp_move_backup)
      from transfer_internal_err [OF this] start
      have "?f m = rollback_with E e (after_begin m)" by simp
      moreover obtain m' where "(rollback_with E e (after_begin m) :: (econ_error + string) \<times> _) = (Inl e, m')"
          "coherent view m'" "ledger_of view m' = ?L\<lparr>l_backup := None\<rparr>"
        using rollback_with_begin [OF coh] by blast
      ultimately show ?thesis
        using move Inl False by (simp add: sp_transfer_def)
    next
      case (Inr u)
      with move have mv: "sp_move from to amount (ledger_of view (after_begin m)) =
          (Inr u, L'\<lparr>l_backup := l_backup (ledger_of view (after_begin m))\<rparr>)"
        by (simp add: ab(2) sp_move_backup)
      have "from \<noteq> to" using False by blast
      obtain m' where m': "transfer_internal blake3 hex E now from to amount (after_begin m) =
          (Inr (transfer_hash blake3 hex now from to amount), m')" "coherent view m'"
          "ledger_of view m' = L'\<lparr>l_backup := l_backup (ledger_of view (after_begin m))\<rparr>"
        by (rule transfer_internal_ok [OF ab(1) \<open>from \<noteq> to\<close> mv])
      show ?thesis
        using start m' closed [OF m'(2)] move Inr False
        by (simp add: sp_transfer_def Let_def sp_close_def)
    qed
  qed
qed

lemma increment_nonce_coherent:
  assumes "coherent view m" and "bm_cache m a \<noteq> None"
  shows "\<exists>m'. increment_nonce E now a m = (Inr (), m') \<and> coherent view m' \<and>
      ledger_of view m' = (ledger_of view m)\<lparr>l_nonce := (l_nonce (ledger_of view m)) (a := l_nonce (ledger_of view m) a + 1)\<rparr>"
proof -
  obtain info where info: "bm_cache m a = Some info" using assms(2) by blast
  have "entry m = ledger_entry (ledger_of view m)"
    using assms(1) by (simp add: coherent_def ledger_of_def)
  moreover from this have "ai_balance info = l_balance (ledger_of view m) a"
      "ai_locked info = l_locked (ledger_of view m) a" "ai_nonce info = l_nonce (ledger_of view m) a"
    using entry_simps(1) [OF info] by (simp_all add: ledger_entry_def)
  ultimately show ?thesis
    using info
    by (simp add: increment_nonce_def Let_def coherent_def ledger_of_def set_nonce_view)
      (auto simp: ledger_entry_def fun_eq_iff)
qed

lemma validate_transfer_implements:
  "implements view (validate_transfer E now from to amount nonce)
     (\<lambda>L. (if length from \<noteq> 32 \<or> length to \<noteq> 32 then Inl InvalidAddressLength
          else if from = to then Inl SameAddress
          else if amount = 0 then Inl ZeroTransfer
          else if l_balance L (AccountAddress from) < AdicAmount amount then Inl InsufficientBalance
          else if nonce \<noteq> l_nonce L (AccountAddress from) + 1 then Inl InvalidNonce
          else Inr (), L))"
  unfolding implements_def
proof (intro allI impI)
  fix m :: "'s balance_manager"
  assume coh: "coherent view m"
  obtain m1 where m1: "Balance.get_balance E now (AccountAddress from) m =
        (Inr (l_balance (ledger_of view m) (AccountAddress from)), m1)"
      "entry m1 = entry m" "bm_storage m1 = bm_storage m" "bm_cache m1 (AccountAddress from) \<noteq> None"
    by (rule get_balance_coherent [OF coh, of now "AccountAddress from"])
  have coh1: "coherent view m1" and led1: "ledger_of view m1 = ledger_of view m"
    using m1 coh by (simp_all add: coherent_def ledger_of_def)
  obtain info where info: "bm_cache m1 (AccountAddress from) = Some info" using m1(4) by blast
  have n: "ai_nonce info = l_nonce (ledger_of view m) (AccountAddress from)"
    using coherent_entry [OF coh1, of "AccountAddress from"] entry_simps(1) [OF info] led1
    by (simp add: ledger_entry_def)
  let ?f = "validate_transfer E now from to amount nonce" and ?L = "ledger_of view m"
  show "coherent view (snd (?f m)) \<and>
      (if length from \<noteq> 32 \<or> length to \<noteq> 32 then Inl InvalidAddressLength
          else if from = to then Inl SameAddress
          else if amount = 0 then Inl ZeroTransfer
          else if l_balance ?L (AccountAddress from) < AdicAmount amount then Inl InsufficientBalance
          else if nonce \<noteq> l_nonce ?L (AccountAddress from) + 1 then Inl InvalidNonce
          else Inr (), ?L) = (fst (?f m), ledger_of view (snd (?f m)))"
    using coh coh1 led1 m1(1) info n
    by (auto simp: validate_transfer_def Balance.get_nonce_def)
qed

lemma message_transfer_implements:
  "implements view (process_message_transfer blake3 hex E now from to amount nonce)
     (sp_message_transfer blake3 hex now from to amount nonce)"
  unfolding implements_def
proof (intro allI impI)
  fix m0 :: "'s balance_manager"
  assume coh0: "coherent view m0"
  let ?f = "process_message_transfer blake3 hex E now from to amount nonce"
  let ?a = "AccountAddress from" and ?b = "AccountAddress to" and ?v = "AdicAmount amount"
  let ?L = "ledger_of view m0"
  let ?h = "transfer_hash blake3 hex now ?a ?b ?v"
  obtain r m where val: "validate_transfer E now from to amount nonce m0 = (r, m)"
    by (cases "validate_transfer E now from to amount nonce m0")
  have coh: "coherent view m" and led: "ledger_of view m = ?L"
    and r: "r = (if length from \<noteq> 32 \<or> length to \<noteq> 32 then Inl InvalidAddressLength
          else if from = to then Inl SameAddress
          else if amount = 0 then Inl ZeroTransfer
          else if l_balance ?L ?a < ?v then Inl InsufficientBalance
          else if nonce \<noteq> l_nonce ?L ?a + 1 then Inl InvalidNonce
          else Inr ())"
    using implementsD [OF validate_transfer_implements coh0 val] by (simp_all split: if_splits)
  note ab = after_begin [OF coh]
  show "coherent view (snd (?f m0)) \<and>
      sp_message_transfer blake3 hex now from to amount nonce ?L = (fst (?f m0), ledger_of view (snd (?f m0)))"
  proof (cases "r = Inr ()")
    case False
    then obtain e where e: "r = Inl e" by (cases r) auto
    then have "?f m0 = (if length from \<noteq> 32 \<or> length to \<noteq> 32 then (Inl InvalidAddressLength, m0) else (Inl e, m))"
      using val by (simp add: process_message_transfer_def Let_def)
    moreover have "sp_message_transfer blake3 hex now from to amount nonce ?L = (Inl e, ?L)"
      using r e by (auto simp: sp_message_transfer_def Let_def split: if_split_asm)
    moreover have "length from \<noteq> 32 \<or> length to \<noteq> 32 \<Longrightarrow> e = InvalidAddressLength"
      using r e by simp
    ultimately show ?thesis using coh coh0 led by auto
  next
    case True
    then have ok: "length from = 32" "length to = 32" "from \<noteq> to" "amount \<noteq> 0"
        "\<not> l_balance ?L ?a < ?v" "nonce = l_nonce ?L ?a + 1"
      using r by (auto split: if_splits)
    have start: "?f m0 = (case transfer_internal blake3 hex E now ?a ?b ?v (after_begin m) of
        (Inr h, m') \<Rightarrow> (case increment_nonce E now ?a m' of
            (Inl e, m'') \<Rightarrow> rollback_with E e m''
          | (Inr _, m'') \<Rightarrow> (Inr h, closed now ?a ?b ?v h \<lparr>te_from = ?a, te_to = ?b,
            te_amount = ?v, te_timestamp = unix_secs now, te_reason = MessageTransfer\<rparr> m''))
      | (Inl e, m') \<Rightarrow> rollback_with E e m')"
      using ok True val
      by (auto simp: process_message_transfer_def Let_def after_begin_def closed_def split: prod.split sum.split)
    have spec: "sp_message_transfer blake3 hex now from to amount nonce ?L =
        (case sp_move ?a ?b ?v ?L of
           (Inl e, _) \<Rightarrow> (Inl e, ?L\<lparr>l_backup := None\<rparr>)
         | (Inr _, L') \<Rightarrow>
             (Inr ?h, sp_close (confirmed now ?a ?b ?v ?h) (L'\<lparr>l_nonce := (l_nonce L')(?a := nonce)\<rparr>)))"
      using ok by (simp add: sp_message_transfer_def Let_def split: prod.split sum.split)
    obtain q L' where move: "sp_move ?a ?b ?v ?L = (q, L')" by (cases "sp_move ?a ?b ?v ?L")
    show ?thesis
    proof (cases q)
      case (Inl e)
      with move led have "sp_move ?a ?b ?v (ledger_of view (after_begin m)) =
          (Inl e, L'\<lparr>l_backup := l_backup (ledger_of view (after_begin m))\<rparr>)"
        by (simp add: ab(2) sp_move_backup)
      from transfer_internal_err [OF this] start
      have "?f m0 = rollback_with E e (after_begin m)" by simp
      moreover obtain m' where "(rollback_with E e (after_begin m) :: (econ_error + string) \<times> _) = (Inl e, m')"
          "coherent view m'" "ledger_of view m' = ?L\<lparr>l_backup := None\<rparr>"
        using rollback_with_begin [OF coh] led by metis
      ultimately show ?thesis
        using move Inl spec by simp
    next
      case (Inr u)
      with move led have mv: "sp_move ?a ?b ?v (ledger_of view (after_begin m)) =
          (Inr u, L'\<lparr>l_backup := l_backup (ledger_of view (after_begin m))\<rparr>)"
        by (simp add: ab(2) sp_move_backup)
      have "?a \<noteq> ?b" using ok by simp
      obtain m' where m': "transfer_internal blake3 hex E now ?a ?b ?v (after_begin m) = (Inr ?h, m')"
          "coherent view m'" "bm_cache m' ?a \<noteq> None"
          "ledger_of view m' = L'\<lparr>l_backup := l_backup (ledger_of view (after_begin m))\<rparr>"
        by (rule transfer_internal_ok [OF ab(1) \<open>?a \<noteq> ?b\<close> mv])
      have nonce: "l_nonce (ledger_of view m') ?a + 1 = nonce"
        using move Inr ok m'(4) by (auto simp: sp_move_def split: if_splits option.splits)
      obtain m'' where m'': "increment_nonce E now ?a m' = (Inr (), m'')" "coherent view m''"
          "ledger_of view m'' = (ledger_of view m')\<lparr>l_nonce := (l_nonce (ledger_of view m')) (?a := nonce)\<rparr>"
        using increment_nonce_coherent [OF m'(2,3)] nonce by metis
      show ?thesis
        using start m'(1) m''(1) closed [OF m''(2)] move Inr spec m''(3) m'(4)
        by (simp add: sp_close_def)
    qed
  qed
qed

end

section \<open>Runs of commands\<close>

text \<open>The public operations of the manager as commands, and their sequential execution;
  \<open>clear_cache\<close> is not among them.\<close>

datatype bal_cmd =
    CmdGetBalance account_address
  | CmdGetLocked account_address
  | CmdGetNonce account_address
  | CmdCredit account_address adic_amount
  | CmdDebit account_address adic_amount
  | CmdLock account_address adic_amount
  | CmdUnlock account_address adic_amount
  | CmdTransfer account_address account_address adic_amount transfer_reason
  | CmdMessage bytes bytes u64 u64

fun exec_cmd :: "(bytes \<Rightarrow> bytes) \<Rightarrow> (bytes \<Rightarrow> string) \<Rightarrow> 's econ_ops \<Rightarrow> i64 \<times> bal_cmd \<Rightarrow>
    's balance_manager \<Rightarrow> 's balance_manager" where
  "exec_cmd blake3 hex E (now, CmdGetBalance a) m = snd (get_balance E now a m)"
| "exec_cmd blake3 hex E (now, CmdGetLocked a) m = snd (get_locked_balance E a m)"
| "exec_cmd blake3 hex E (now, CmdGetNonce a) m = snd (get_nonce E a m)"
| "exec_cmd blake3 hex E (now, CmdCredit a v) m = snd (credit E now a v m)"
| "exec_cmd blake3 hex E (now, CmdDebit a v) m = snd (debit E now a v m)"
| "exec_cmd blake3 hex E (now, CmdLock a v) m = snd (lock E now a v m)"
| "exec_cmd blake3 hex E (now, CmdUnlock a v) m = snd (unlock E a v m)"
| "exec_cmd blake3 hex E (now, CmdTransfer f t v r) m = snd (transfer_with_reason blake3 hex E now f t v r m)"
| "exec_cmd blake3 hex E (now, CmdMessage f t v n) m = snd (process_message_transfer blake3 hex E now f t v n m)"

definition exec_cmds :: "(bytes \<Rightarrow> bytes) \<Rightarrow> (bytes \<Rightarrow> string) \<Rightarrow> 's econ_ops \<Rightarrow>
    (i64 \<times> bal_cmd) list \<Rightarrow> 's balance_manager \<Rightarrow> 's balance_manager" where
  "exec_cmds blake3 hex E cs m = foldl (\<lambda>m c. exec_cmd blake3 hex E c m) m cs"

text \<open>One command advances the nonce of an account by at most one.\<close>

definition nonce_step :: "ledger \<Rightarrow> ledger \<Rightarrow> bool" where
  "nonce_step L L' \<longleftrightarrow> (\<forall>a. l_nonce L' a = l_nonce L a \<or> l_nonce L' a = l_nonce L a + 1)"

lemma nonce_step_same: "l_nonce L' = l_nonce L \<Longrightarrow> nonce_step L L'"
  by (simp add: nonce_step_def)

lemma sp_nonces:
  "l_nonce (snd (sp_credit a v L)) = l_nonce L"
  "l_nonce (snd (sp_debit a v L)) = l_nonce L"
  "l_nonce (snd (sp_lock a v L)) = l_nonce L"
  "l_nonce (snd (sp_move f t v L)) = l_nonce L"
  by (auto simp: sp_credit_def sp_debit_def sp_lock_def sp_move_def split: option.splits)

lemma sp_transfer_nonces: "l_nonce (snd (sp_transfer blake3 hex now f t v L)) = l_nonce L"
  using sp_nonces(4) [of f t v L]
  by (auto simp: sp_transfer_def sp_close_def Let_def split: prod.split sum.split)

lemma sp_message_nonces: "nonce_step L (snd (sp_message_transfer blake3 hex now f t v n L))"
  using sp_nonces(4) [of "AccountAddress f" "AccountAddress t" "AdicAmount v" L]
  by (auto simp: sp_message_transfer_def sp_close_def Let_def nonce_step_def split: prod.split sum.split)

text \<open>A transfer moves value and creates none, whatever its result.\<close>

lemma sum_fun_upd2:
  fixes g :: "'v \<Rightarrow> nat" and f :: "'a \<Rightarrow> 'v"
  assumes "finite S" "x \<in> S" "y \<in> S" "x \<noteq> y" and "g u + g w = g (f x) + g (f y)"
  shows "(\<Sum>a\<in>S. g ((f(x := u, y := w)) a)) = (\<Sum>a\<in>S. g (f a))"
proof -
  have split: "(\<Sum>a\<in>S. h a) = h x + (h y + (\<Sum>a\<in>S - {x} - {y}. h a))" for h :: "'a \<Rightarrow> nat"
    using assms by (simp add: sum.remove [of S x] sum.remove [of "S - {x}" y])
  define h where "h a = g ((f(x := u, y := w)) a)" for a
  have rest: "(\<Sum>a\<in>S - {x} - {y}. h a) = (\<Sum>a\<in>S - {x} - {y}. g (f a))"
    by (rule sum.cong) (auto simp: h_def)
  have "h x = g u" "h y = g w" using assms(4) by (simp_all add: h_def)
  then have "(\<Sum>a\<in>S. h a) = (\<Sum>a\<in>S. g (f a))"
    using rest assms(5) by (simp add: split [of h] split [of "\<lambda>a. g (f a)"])
  then show ?thesis by (simp only: h_def)
qed

lemma sp_move_total:
  assumes "finite S" "from \<in> S" "to \<in> S" "from \<noteq> to" and "sp_move from to v L = (r, L')"
  shows "(\<Sum>a\<in>S. units (l_balance L' a)) = (\<Sum>a\<in>S. units (l_balance L a))"
proof (cases r)
  case (Inl e)
  with assms(5) sp_move_err show ?thesis by metis
next
  case (Inr u)
  with assms(5) obtain w where w: "amt_checked_add (l_balance L to) v = Some w"
    "\<not> l_balance L from < v"
    "L' = L\<lparr>l_balance := (l_balance L)(from := amt_sat_sub (l_balance L from) v, to := w)\<rparr>"
    by (auto simp: sp_move_def split: if_splits option.splits)
  have "units (amt_sat_sub (l_balance L from) v) + units w = units (l_balance L from) + units (l_balance L to)"
    using w(1,2) by (simp add: amt_checked_add_Some_iff units_sat_sub amount_less_iff)
  with sum_fun_upd2 [OF assms(1-4), of units _ _ "l_balance L"] w(3) show ?thesis by simp
qed

lemma sp_transfer_total:
  assumes "finite S" "from \<in> S" "to \<in> S"
  shows "(\<Sum>a\<in>S. units (l_balance (snd (sp_transfer blake3 hex now from to v L)) a)) =
    (\<Sum>a\<in>S. units (l_balance L a))"
  using sp_move_total [OF assms, of v L]
  by (auto simp: sp_transfer_def sp_close_def Let_def split: prod.split sum.split)

lemma sp_message_total:
  assumes "finite S" "AccountAddress from \<in> S" "AccountAddress to \<in> S"
  shows "(\<Sum>a\<in>S. units (l_balance (snd (sp_message_transfer blake3 hex now from to v n L)) a)) =
    (\<Sum>a\<in>S. units (l_balance L a))"
  using sp_move_total [OF assms, of "AdicAmount v" L]
  by (auto simp: sp_message_transfer_def sp_close_def Let_def split: prod.split sum.split)

lemma sp_message_ok_nonce:
  "sp_message_transfer blake3 hex now from to v n L = (Inr h, L') \<Longrightarrow>
   l_nonce L' (AccountAddress from) = n \<and> n = l_nonce L (AccountAddress from) + 1"
  by (auto simp: sp_message_transfer_def sp_close_def Let_def split: if_splits prod.splits sum.splits)

context economics_storage
begin

lemma exec_cmd_step:
  assumes "coherent view m"
  shows "coherent view (exec_cmd blake3 hex E c m) \<and>
    nonce_step (ledger_of view m) (ledger_of view (exec_cmd blake3 hex E c m))"
proof -
  have by_impl: "coherent view (snd (f m)) \<and> nonce_step (ledger_of view m) (ledger_of view (snd (f m)))"
    if "implements view f g" and "nonce_step (ledger_of view m) (snd (g (ledger_of view m)))"
    for f :: "('s, 'a) bal_op" and g
    using that assms unfolding implements_def by (metis snd_conv)
  obtain now cmd where c: "c = (now, cmd)" by (cases c)
  show ?thesis
  proof (cases cmd)
    case (CmdUnlock a v)
    then show ?thesis
      using unlock_coherent(2,3) [OF assms, of a v] c by (simp add: nonce_step_same)
  next
    case (CmdMessage f t v n)
    then show ?thesis
      using by_impl [OF message_transfer_implements sp_message_nonces] c by simp
  qed (use c in \<open>simp_all add: by_impl [OF get_balance_implements] by_impl [OF get_locked_implements]
      by_impl [OF get_nonce_implements] by_impl [OF credit_implements] by_impl [OF debit_implements]
      by_impl [OF lock_implements] by_impl [OF transfer_implements]
      nonce_step_same sp_nonces sp_transfer_nonces\<close>)
qed

lemma exec_cmds_coherent:
  assumes "coherent view m"
  shows "coherent view (exec_cmds blake3 hex E cs m) \<and>
    (\<exists>k \<le> length cs. l_nonce (ledger_of view (exec_cmds blake3 hex E cs m)) a =
       l_nonce (ledger_of view m) a + of_nat k)"
  using assms
proof (induction cs arbitrary: m)
  case Nil
  then show ?case by (simp add: exec_cmds_def)
next
  case (Cons c cs)
  let ?m1 = "exec_cmd blake3 hex E c m"
  have m1: "coherent view ?m1" and st: "nonce_step (ledger_of view m) (ledger_of view ?m1)"
    using exec_cmd_step [OF Cons.prems] by blast+
  have run: "exec_cmds blake3 hex E (c # cs) m = exec_cmds blake3 hex E cs ?m1"
    by (simp add: exec_cmds_def)
  obtain k where k: "k \<le> length cs" and
    n: "l_nonce (ledger_of view (exec_cmds blake3 hex E cs ?m1)) a = l_nonce (ledger_of view ?m1) a + of_nat k"
    using Cons.IH [OF m1] by blast
  from st have "l_nonce (ledger_of view ?m1) a = l_nonce (ledger_of view m) a \<or>
      l_nonce (ledger_of view ?m1) a = l_nonce (ledger_of view m) a + 1"
    by (simp add: nonce_step_def)
  then have "\<exists>j \<le> length (c # cs). l_nonce (ledger_of view (exec_cmds blake3 hex E cs ?m1)) a =
      l_nonce (ledger_of view m) a + of_nat j"
  proof
    assume "l_nonce (ledger_of view ?m1) a = l_nonce (ledger_of view m) a"
    with k n show ?thesis by (intro exI [of _ k]) simp
  next
    assume "l_nonce (ledger_of view ?m1) a = l_nonce (ledger_of view m) a + 1"
    with k n show ?thesis by (intro exI [of _ "Suc k"]) (simp add: ac_simps)
  qed
  with Cons.IH [OF m1] run show ?case by simp
qed

lemma of_nat_Suc_nonzero: "k < 2 ^ 64 - 1 \<Longrightarrow> (of_nat (Suc k) :: u64) \<noteq> 0"
proof
  assume "k < 2 ^ 64 - 1" "(of_nat (Suc k) :: u64) = 0"
  then have "unat (of_nat (Suc k) :: u64) = 0" by simp
  with \<open>k < 2 ^ 64 - 1\<close> show False by (simp add: unat_of_nat del: of_nat_Suc)
qed

lemma replay_rejected:
  assumes "coherent view m" and "process_message_transfer blake3 hex E now from to v n m = (Inr h, m1)"
    and "length cs < 2 ^ 64 - 1"
  shows "\<not> is_ok (fst (process_message_transfer blake3 hex E now' from to' v' n
      (exec_cmds blake3 hex E cs m1)))"
proof
  let ?m2 = "exec_cmds blake3 hex E cs m1" and ?a = "AccountAddress from"
  assume ok: "is_ok (fst (process_message_transfer blake3 hex E now' from to' v' n ?m2))"
  have first: "coherent view m1"
      "sp_message_transfer blake3 hex now from to v n (ledger_of view m) = (Inr h, ledger_of view m1)"
    using implementsD [OF message_transfer_implements assms(1,2)] by auto
  have n1: "l_nonce (ledger_of view m1) ?a = n"
    using sp_message_ok_nonce [OF first(2)] by simp
  obtain k where coh2: "coherent view ?m2" and k: "k \<le> length cs" "l_nonce (ledger_of view ?m2) ?a = n + of_nat k"
    using exec_cmds_coherent [OF first(1), of blake3 hex cs ?a] n1 by auto
  obtain h' m3 where "process_message_transfer blake3 hex E now' from to' v' n ?m2 = (Inr h', m3)"
    using ok by (cases "process_message_transfer blake3 hex E now' from to' v' n ?m2")
      (auto simp: is_ok_def split: sum.splits)
  from implementsD [OF message_transfer_implements coh2 this]
  have "n = l_nonce (ledger_of view ?m2) ?a + 1"
    using sp_message_ok_nonce by blast
  then have "(of_nat (Suc k) :: u64) = 0" using k(2) by (simp add: algebra_simps)
  moreover have "k < 2 ^ 64 - 1" using k(1) assms(3) by linarith
  ultimately show False using of_nat_Suc_nonzero by blast
qed

end

section \<open>The manager over \<open>MemoryStorage\<close>\<close>

text \<open>C2: Over \<open>MemoryStorage\<close> the reads, credits, debits, locks and transfers of
  \<open>BalanceManager\<close> implement the ledger: from a coherent cache each returns what the
  operation on the ledger returns, on every branch, leaves the ledger the operation leaves, and keeps
  the cache coherent. A transfer that fails leaves the balances and locked balances as they were.\<close>

theorem manager_implements_ledger:
  "implements mem_view (get_balance (memory_ops keys) now a) (\<lambda>L. (Inr (l_balance L a), L)) \<and>
   implements mem_view (get_locked_balance (memory_ops keys) a) (\<lambda>L. (Inr (l_locked L a), L)) \<and>
   implements mem_view (get_nonce (memory_ops keys) a) (\<lambda>L. (Inr (l_nonce L a), L)) \<and>
   implements mem_view (credit (memory_ops keys) now a v) (sp_credit a v) \<and>
   implements mem_view (debit (memory_ops keys) now a v) (sp_debit a v) \<and>
   implements mem_view (lock (memory_ops keys) now a v) (sp_lock a v) \<and>
   implements mem_view (transfer_with_reason blake3 hex (memory_ops keys) now a b v reason)
     (sp_transfer blake3 hex now a b v)"
  by (intro conjI mem.get_balance_implements mem.get_locked_implements mem.get_nonce_implements
      mem.credit_implements mem.debit_implements mem.lock_implements mem.transfer_implements)

text \<open>The transfer embedded in a message moves the amount and advances the sender's nonce when
  the lengths, the addresses, the amount, the balance and the nonce are right; otherwise it returns
  the error of the first check that fails and the balances and nonces stay as they were.\<close>

theorem message_transfer_implements_ledger:
  "implements mem_view (process_message_transfer blake3 hex (memory_ops keys) now from to amount nonce)
     (sp_message_transfer blake3 hex now from to amount nonce)"
  by (rule mem.message_transfer_implements)


text \<open>Transfers and message transfers neither create nor destroy value: the sum of the balances
  over any finite set of accounts holding both parties is the same before and after, on success and
  on failure.\<close>

theorem transfers_conserve_total:
  assumes "coherent mem_view m" and "finite S"
    and "AccountAddress from \<in> S" "AccountAddress to \<in> S"
  shows "(\<Sum>a\<in>S. units (l_balance (ledger_of mem_view (snd (process_message_transfer blake3 hex
            (memory_ops keys) now from to v n m))) a)) = (\<Sum>a\<in>S. units (l_balance (ledger_of mem_view m) a)) \<and>
    (\<Sum>a\<in>S. units (l_balance (ledger_of mem_view (snd (transfer_with_reason blake3 hex
            (memory_ops keys) now (AccountAddress from) (AccountAddress to) w reason m))) a)) =
      (\<Sum>a\<in>S. units (l_balance (ledger_of mem_view m) a))"
proof -
  have "ledger_of mem_view (snd (process_message_transfer blake3 hex (memory_ops keys) now from to v n m)) =
      snd (sp_message_transfer blake3 hex now from to v n (ledger_of mem_view m))"
    using mem.message_transfer_implements assms(1) unfolding implements_def by (metis snd_conv)
  moreover have "ledger_of mem_view (snd (transfer_with_reason blake3 hex (memory_ops keys) now
        (AccountAddress from) (AccountAddress to) w reason m)) =
      snd (sp_transfer blake3 hex now (AccountAddress from) (AccountAddress to) w (ledger_of mem_view m))"
    using mem.transfer_implements assms(1) unfolding implements_def by (metis snd_conv)
  ultimately show ?thesis
    using sp_message_total [OF assms(2-4)] sp_transfer_total [OF assms(2-4)] by simp
qed

text \<open>An empty cache over a storage in use, as after \<open>clear_cache\<close> or a restart,
  loses the nonce: \<open>get_balance\<close> caches the account with nonce 0, so \<open>validate_transfer\<close>
  accepts nonce 1 again and refuses every other nonce, whatever nonce the storage holds.\<close>

theorem nonce_forgotten_without_cache:
  "fst (validate_transfer (memory_ops keys) now from to amount nonce (clear_cache m)) =
     (if length from \<noteq> 32 \<or> length to \<noteq> 32 then Inl InvalidAddressLength
      else if from = to then Inl SameAddress
      else if amount = 0 then Inl ZeroTransfer
      else if get_or ADIC_ZERO (ms_balances (bm_storage m)) (AccountAddress from) < AdicAmount amount
        then Inl InsufficientBalance
      else if nonce \<noteq> 1 then Inl InvalidNonce else Inr ())"
  by (simp add: validate_transfer_def get_balance_def get_nonce_def clear_cache_def cache_insert_def
      fresh_info_def mem_view_def)

section \<open>Concrete instances\<close>

abbreviation addr_a :: bytes where "addr_a \<equiv> replicate 32 1"
abbreviation addr_b :: bytes where "addr_b \<equiv> replicate 32 2"

definition funded :: "memory_storage balance_manager" where
  "funded = snd (credit (memory_ops (\<lambda>_. [])) 0 (AccountAddress addr_a) (AdicAmount 5)
     (balance_manager_new memory_storage_new))"

lemma funded_coherent: "coherent mem_view funded"
  and funded_ledger: "ledger_of mem_view funded =
    empty_ledger\<lparr>l_balance := (\<lambda>_. ADIC_ZERO) (AccountAddress addr_a := AdicAmount 5)\<rparr>"
proof -
  let ?m0 = "balance_manager_new memory_storage_new"
  have coh: "coherent mem_view ?m0"
    by (rule coherent_new, rule mem_view_new)
  have led: "ledger_of mem_view ?m0 = empty_ledger"
    by (simp add: ledger_of_def balance_manager_new_def mem_view_new)
  have add: "amt_checked_add ADIC_ZERO (AdicAmount 5) = Some (AdicAmount 5)"
    by (simp add: amt_checked_add_Some_iff)
  have max: "\<not> MAX_SUPPLY < AdicAmount 5"
    by (simp add: amount_less_iff units_MAX_SUPPLY)
  have "sp_credit (AccountAddress addr_a) (AdicAmount 5) empty_ledger =
      (Inr (), empty_ledger\<lparr>l_balance := (\<lambda>_. ADIC_ZERO) (AccountAddress addr_a := AdicAmount 5)\<rparr>)"
    using add max by (simp add: sp_credit_def empty_ledger_def) (simp add: ADIC_ZERO_def)
  moreover have "coherent mem_view funded \<and>
      sp_credit (AccountAddress addr_a) (AdicAmount 5) empty_ledger =
        (fst (credit (memory_ops (\<lambda>_. [])) 0 (AccountAddress addr_a) (AdicAmount 5) ?m0), ledger_of mem_view funded)"
    using mem.credit_implements coh unfolding implements_def funded_def by (metis led)
  ultimately show "coherent mem_view funded"
    "ledger_of mem_view funded =
      empty_ledger\<lparr>l_balance := (\<lambda>_. ADIC_ZERO) (AccountAddress addr_a := AdicAmount 5)\<rparr>" by simp_all
qed


text \<open>A storage whose nonce for the sender is 7, behind an empty cache.\<close>

lemma nonce_forgotten_without_cache_witness:
  "fst (validate_transfer (memory_ops (\<lambda>_. [])) 0 addr_a addr_b 2 1 (clear_cache (balance_manager_new
     (memory_storage_new\<lparr>ms_balances := [AccountAddress addr_a \<mapsto> AdicAmount 5],
       ms_nonces := [AccountAddress addr_a \<mapsto> 7]\<rparr>)))) = Inr ()"
  using nonce_forgotten_without_cache [of "\<lambda>_. []" 0 addr_a addr_b 2 1
      "balance_manager_new (memory_storage_new\<lparr>ms_balances := [AccountAddress addr_a \<mapsto> AdicAmount 5],
        ms_nonces := [AccountAddress addr_a \<mapsto> 7]\<rparr>)"]
  by (simp add: balance_manager_new_def get_or_def amount_less_iff)

lemma transfers_conserve_total_witness:
  "(\<Sum>a\<in>{AccountAddress addr_a, AccountAddress addr_b}.
      units (l_balance (ledger_of mem_view (snd (process_message_transfer (\<lambda>_. []) (\<lambda>_. ''h'')
        (memory_ops (\<lambda>_. [])) 1 addr_a addr_b 2 1 funded))) a)) = 5"
proof -
  let ?S = "{AccountAddress addr_a, AccountAddress addr_b}"
  have "finite ?S" "AccountAddress addr_a \<in> ?S" "AccountAddress addr_b \<in> ?S" by simp_all
  from transfers_conserve_total [OF funded_coherent this]
  have "(\<Sum>a\<in>?S. units (l_balance (ledger_of mem_view (snd (process_message_transfer (\<lambda>_. []) (\<lambda>_. ''h'')
        (memory_ops (\<lambda>_. [])) 1 addr_a addr_b 2 1 funded))) a)) =
      (\<Sum>a\<in>?S. units (l_balance (ledger_of mem_view funded) a))" by blast
  also have "\<dots> = 5"
    by (simp add: funded_ledger)
  finally show ?thesis .
qed

end
