(* ===== verification/Supply.thy ===== *)
theory Supply
  imports Economics_Types
begin

text \<open>
  \<open>TokenSupply\<close> (\<open>crates/adic-economics/src/supply.rs\<close>): the supply counters, the
  guarded mints and burns, and the bounded history of transfer events. The events handed to the
  callback are the list \<open>ts_emitted\<close>.
\<close>

section \<open>State and operations\<close>

record supply_metrics =
  total_supply :: adic_amount
  circulating_supply :: adic_amount
  treasury_balance :: adic_amount
  liquidity_balance :: adic_amount
  genesis_balance :: adic_amount
  burned_amount :: adic_amount
  emission_issued :: adic_amount

definition supply_metrics_default :: supply_metrics where
  "supply_metrics_default =
     \<lparr>total_supply = ADIC_ZERO, circulating_supply = ADIC_ZERO, treasury_balance = ADIC_ZERO,
      liquidity_balance = ADIC_ZERO, genesis_balance = ADIC_ZERO, burned_amount = ADIC_ZERO,
      emission_issued = ADIC_ZERO\<rparr>"

record token_supply =
  ts_metrics :: supply_metrics
  ts_history :: "transfer_event list"
  ts_emitted :: "transfer_event list"

definition token_supply_new :: token_supply where
  "token_supply_new = \<lparr>ts_metrics = supply_metrics_default, ts_history = [], ts_emitted = []\<rparr>"

definition mint_genesis :: "adic_amount \<Rightarrow> (econ_error, token_supply, unit) rop" where
  "mint_genesis amount s =
     (if total_supply (ts_metrics s) \<noteq> ADIC_ZERO then errR GenesisAlreadyMinted s
      else if amount \<noteq> GENESIS_SUPPLY then errR InvalidGenesisAmount s
      else okR () (s\<lparr>ts_metrics := (ts_metrics s)\<lparr>total_supply := amount\<rparr>\<rparr>))"

definition mint_emission :: "adic_amount \<Rightarrow> (econ_error, token_supply, unit) rop" where
  "mint_emission amount s =
     (let metrics = ts_metrics s in
      case amt_checked_add (total_supply metrics) amount of
        None \<Rightarrow> errR SupplyOverflow s
      | Some new_supply \<Rightarrow>
          (if MAX_SUPPLY < new_supply then errR ExceedsMaxSupply s
           else okR () (s\<lparr>ts_metrics := metrics\<lparr>total_supply := new_supply,
             emission_issued := amt_sat_add (emission_issued metrics) amount,
             circulating_supply := amt_sat_add (circulating_supply metrics) amount\<rparr>\<rparr>)))"

definition burn :: "adic_amount \<Rightarrow> (econ_error, token_supply, unit) rop" where
  "burn amount s =
     (let metrics = ts_metrics s in
      if circulating_supply metrics < amount then errR BurnExceedsCirculating s
      else okR () (s\<lparr>ts_metrics := metrics\<lparr>
             circulating_supply := amt_sat_sub (circulating_supply metrics) amount,
             burned_amount := amt_sat_add (burned_amount metrics) amount\<rparr>\<rparr>))"

definition update_treasury_balance :: "adic_amount \<Rightarrow> token_supply \<Rightarrow> token_supply" where
  "update_treasury_balance balance s = s\<lparr>ts_metrics := (ts_metrics s)\<lparr>treasury_balance := balance\<rparr>\<rparr>"

definition update_liquidity_balance :: "adic_amount \<Rightarrow> token_supply \<Rightarrow> token_supply" where
  "update_liquidity_balance balance s = s\<lparr>ts_metrics := (ts_metrics s)\<lparr>liquidity_balance := balance\<rparr>\<rparr>"

definition update_genesis_balance :: "adic_amount \<Rightarrow> token_supply \<Rightarrow> token_supply" where
  "update_genesis_balance balance s = s\<lparr>ts_metrics := (ts_metrics s)\<lparr>genesis_balance := balance\<rparr>\<rparr>"

definition update_circulating_supply :: "adic_amount \<Rightarrow> token_supply \<Rightarrow> token_supply" where
  "update_circulating_supply amount s =
     s\<lparr>ts_metrics := (ts_metrics s)\<lparr>circulating_supply := amount\<rparr>\<rparr>"

text \<open>\<open>history.drain(0..1000)\<close> when the history holds more than 10000 events.\<close>

definition add_transfer_event :: "transfer_event \<Rightarrow> token_supply \<Rightarrow> token_supply" where
  "add_transfer_event event s =
     (let history = ts_history s @ [event]
      in s\<lparr>ts_history := (if 10000 < length history then drop 1000 history else history),
           ts_emitted := ts_emitted s @ [event]\<rparr>)"

definition get_transfer_history :: "nat \<Rightarrow> token_supply \<Rightarrow> transfer_event list" where
  "get_transfer_history limit s = drop (length (ts_history s) - limit) (ts_history s)"

definition can_mint :: "adic_amount \<Rightarrow> token_supply \<Rightarrow> bool" where
  "can_mint amount s =
     (case amt_checked_add (total_supply (ts_metrics s)) amount of
        None \<Rightarrow> False
      | Some new_supply \<Rightarrow> new_supply \<le> MAX_SUPPLY)"

definition remaining_mintable :: "token_supply \<Rightarrow> adic_amount" where
  "remaining_mintable s = amt_sat_sub MAX_SUPPLY (total_supply (ts_metrics s))"

section \<open>Accounting\<close>

datatype supply_cmd =
    MintGenesis adic_amount
  | MintEmission adic_amount
  | Burn adic_amount
  | SetTreasury adic_amount
  | SetLiquidity adic_amount
  | SetGenesis adic_amount
  | SetCirculating adic_amount
  | AddEvent transfer_event

fun supply_exec :: "token_supply \<Rightarrow> supply_cmd \<Rightarrow> token_supply" where
  "supply_exec s (MintGenesis a) = snd (mint_genesis a s)"
| "supply_exec s (MintEmission a) = snd (mint_emission a s)"
| "supply_exec s (Burn a) = snd (burn a s)"
| "supply_exec s (SetTreasury a) = update_treasury_balance a s"
| "supply_exec s (SetLiquidity a) = update_liquidity_balance a s"
| "supply_exec s (SetGenesis a) = update_genesis_balance a s"
| "supply_exec s (SetCirculating a) = update_circulating_supply a s"
| "supply_exec s (AddEvent e) = add_transfer_event e s"

text \<open>The total supply is the genesis supply, minted once or not at all, and the emissions; it
  is within the maximum.\<close>

definition supply_inv :: "token_supply \<Rightarrow> bool" where
  "supply_inv s \<longleftrightarrow>
     units (total_supply (ts_metrics s)) \<le> units MAX_SUPPLY \<and>
     (units (total_supply (ts_metrics s)) = units (emission_issued (ts_metrics s)) \<or>
      units (total_supply (ts_metrics s)) = units GENESIS_SUPPLY + units (emission_issued (ts_metrics s))) \<and>
     length (ts_history s) \<le> 10000"

lemma can_mint_iff:
  "can_mint a s \<longleftrightarrow> units (total_supply (ts_metrics s)) + units a \<le> units MAX_SUPPLY"
proof (cases "amt_checked_add (total_supply (ts_metrics s)) a")
  case None
  then have "2 ^ 64 \<le> units (total_supply (ts_metrics s)) + units a"
    by (simp add: amt_checked_add_None_iff)
  with None show ?thesis by (simp add: can_mint_def units_MAX_SUPPLY)
next
  case (Some v)
  then have "units v = units (total_supply (ts_metrics s)) + units a"
    by (simp add: amt_checked_add_Some_iff)
  with Some show ?thesis by (simp add: can_mint_def amount_le_iff)
qed

lemma mint_emission_ok_iff: "is_ok (fst (mint_emission a s)) \<longleftrightarrow> can_mint a s"
  by (auto simp: mint_emission_def can_mint_def Let_def split: option.split)

lemma mint_emission_effect:
  assumes "supply_inv s" and "can_mint a s"
  shows "units (total_supply (ts_metrics (snd (mint_emission a s)))) = units (total_supply (ts_metrics s)) + units a"
    and "units (emission_issued (ts_metrics (snd (mint_emission a s)))) = units (emission_issued (ts_metrics s)) + units a"
    and "supply_inv (snd (mint_emission a s))"
proof -
  have le: "units (total_supply (ts_metrics s)) + units a \<le> units MAX_SUPPLY"
    using assms(2) by (simp add: can_mint_iff)
  obtain v where v: "amt_checked_add (total_supply (ts_metrics s)) a = Some v" "v \<le> MAX_SUPPLY"
    using assms(2) by (auto simp: can_mint_def split: option.splits)
  have uv: "units v = units (total_supply (ts_metrics s)) + units a"
    using v(1) by (simp add: amt_checked_add_Some_iff)
  have em: "units (emission_issued (ts_metrics s)) \<le> units (total_supply (ts_metrics s))"
    using assms(1) by (auto simp: supply_inv_def)
  have run: "snd (mint_emission a s) = s\<lparr>ts_metrics := (ts_metrics s)\<lparr>total_supply := v,
      emission_issued := amt_sat_add (emission_issued (ts_metrics s)) a,
      circulating_supply := amt_sat_add (circulating_supply (ts_metrics s)) a\<rparr>\<rparr>"
    using v by (simp add: mint_emission_def Let_def not_less [symmetric])
  show 1: "units (total_supply (ts_metrics (snd (mint_emission a s)))) = units (total_supply (ts_metrics s)) + units a"
    by (simp add: run uv)
  show 2: "units (emission_issued (ts_metrics (snd (mint_emission a s)))) = units (emission_issued (ts_metrics s)) + units a"
    using le em by (simp add: run units_sat_add units_MAX_SUPPLY)
  show "supply_inv (snd (mint_emission a s))"
    using 1 2 le assms(1) by (auto simp: supply_inv_def run)
qed

lemma mint_emission_err: "\<not> can_mint a s \<Longrightarrow> snd (mint_emission a s) = s"
  by (auto simp: mint_emission_def can_mint_def Let_def split: option.splits)

lemma mint_genesis_inv: "supply_inv s \<Longrightarrow> supply_inv (snd (mint_genesis a s))"
  by (auto simp: mint_genesis_def supply_inv_def amount_eq_iff units_MAX_SUPPLY units_GENESIS_SUPPLY)

lemma add_transfer_event_inv: "supply_inv s \<Longrightarrow> supply_inv (add_transfer_event e s)"
  by (auto simp: add_transfer_event_def supply_inv_def Let_def)

lemma supply_exec_inv: "supply_inv s \<Longrightarrow> supply_inv (supply_exec s c)"
proof (cases c)
  case (MintEmission a)
  then show "supply_inv s \<Longrightarrow> ?thesis"
    using mint_emission_effect(3) mint_emission_err by (metis supply_exec.simps(2))
qed (simp_all add: mint_genesis_inv add_transfer_event_inv,
    auto simp: supply_inv_def burn_def Let_def update_treasury_balance_def update_liquidity_balance_def
      update_genesis_balance_def update_circulating_supply_def)

text \<open>C11: Whatever the sequence of operations on a new \<open>TokenSupply\<close>, the total supply is
  the emissions issued plus either nothing or the genesis supply, it never exceeds the maximum
  supply, and the event history holds at most 10000 events.\<close>

theorem supply_always_accounted:
  "supply_inv (foldl supply_exec token_supply_new cs)"
proof -
  have "supply_inv (foldl supply_exec s cs)" if "supply_inv s" for s
    using that by (induction cs arbitrary: s) (simp_all add: supply_exec_inv)
  then show ?thesis
    by (simp add: supply_inv_def token_supply_new_def supply_metrics_default_def)
qed

text \<open>While nothing overwrites the circulating supply, what has been issued is either in
  circulation or burned.\<close>

definition circulation_inv :: "token_supply \<Rightarrow> bool" where
  "circulation_inv s \<longleftrightarrow>
     units (circulating_supply (ts_metrics s)) + units (burned_amount (ts_metrics s)) =
     units (emission_issued (ts_metrics s))"

lemma burn_circulation:
  assumes "supply_inv s" and "circulation_inv s"
  shows "circulation_inv (snd (burn a s))"
proof (cases "circulating_supply (ts_metrics s) < a")
  case True
  then show ?thesis using assms(2) by (simp add: burn_def)
next
  case False
  have "units (emission_issued (ts_metrics s)) \<le> 10 ^ 18"
    using assms(1) by (auto simp: supply_inv_def units_MAX_SUPPLY)
  with False assms(2) show ?thesis
    by (simp add: burn_def circulation_inv_def Let_def units_sat_add units_sat_sub amount_less_iff)
qed

lemma emission_circulation:
  assumes "supply_inv s" and "circulation_inv s"
  shows "circulation_inv (snd (mint_emission a s))"
proof (cases "can_mint a s")
  case True
  have "units (emission_issued (ts_metrics s)) \<le> units (total_supply (ts_metrics s))"
    using assms(1) by (auto simp: supply_inv_def)
  with True assms(2) show ?thesis
    by (auto simp: mint_emission_def circulation_inv_def Let_def units_sat_add can_mint_iff units_MAX_SUPPLY
        split: option.split)
next
  case False
  then show ?thesis using assms(2) by (simp add: mint_emission_err)
qed

end
