(* ===== verification/Treasury.thy ===== *)
theory Treasury
  imports Balance
begin

text \<open>
  \<open>TreasuryManager\<close> (\<open>crates/adic-economics/src/treasury.rs\<close>): proposals to pay
  from the treasury account, approved by the signers of a multisig. The manager shares the
  \<open>BalanceManager\<close>, which is part of its state here. \<open>HashSet\<close>s are sets; a proposal's
  reason is its UTF-8 bytes; \<open>now\<close> is the clock in milliseconds.
\<close>

section \<open>State\<close>

record multisig_config =
  mc_signers :: "account_address list"
  mc_threshold :: u32

record treasury_proposal =
  tp_id :: bytes
  tp_recipient :: account_address
  tp_amount :: adic_amount
  tp_reason :: bytes
  tp_proposer :: account_address
  tp_approvals :: "account_address set"
  tp_rejections :: "account_address set"
  tp_executed :: bool
  tp_created_at :: i64
  tp_expires_at :: i64

record 's treasury_manager =
  tm_balances :: "'s balance_manager"
  tm_multisig :: "multisig_config option"
  tm_proposals :: "bytes \<rightharpoonup> treasury_proposal"
  tm_executed :: "bytes list"

type_synonym ('s, 'a) treasury_op = "(econ_error, 's treasury_manager, 'a) rop"

definition treasury_manager_new :: "'s balance_manager \<Rightarrow> 's treasury_manager" where
  "treasury_manager_new balances =
     \<lparr>tm_balances = balances, tm_multisig = None, tm_proposals = Map.empty, tm_executed = []\<rparr>"

definition treasury_proposal_new :: "(bytes \<Rightarrow> bytes) \<Rightarrow> i64 \<Rightarrow> account_address \<Rightarrow> adic_amount \<Rightarrow>
    bytes \<Rightarrow> account_address \<Rightarrow> treasury_proposal" where
  "treasury_proposal_new blake3 now recipient amount reason proposer =
     \<lparr>tp_id = blake3 (address_bytes recipient @ le_bytes (base_units amount) @ reason @
         le_bytes (word_of_int (unix_secs now))),
      tp_recipient = recipient, tp_amount = amount, tp_reason = reason, tp_proposer = proposer,
      tp_approvals = {proposer}, tp_rejections = {}, tp_executed = False,
      tp_created_at = unix_secs now, tp_expires_at = unix_secs now + 7 * 24 * 3600\<rparr>"

definition is_expired :: "i64 \<Rightarrow> treasury_proposal \<Rightarrow> bool" where
  "is_expired now p \<longleftrightarrow> tp_expires_at p < unix_secs now"

definition on_balances :: "('s, 'a) bal_op \<Rightarrow> ('s, 'a) treasury_op" where
  "on_balances f t = (case f (tm_balances t) of (r, m) \<Rightarrow> (r, t\<lparr>tm_balances := m\<rparr>))"

definition put_proposal :: "bytes \<Rightarrow> treasury_proposal \<Rightarrow> 's treasury_manager \<Rightarrow> 's treasury_manager" where
  "put_proposal i p t = t\<lparr>tm_proposals := (tm_proposals t)(i \<mapsto> p)\<rparr>"

section \<open>Operations\<close>

text \<open>\<open>signers.len() as u32\<close> truncates.\<close>

definition initialize_multisig :: "account_address list \<Rightarrow> u32 \<Rightarrow> ('s, unit) treasury_op" where
  "initialize_multisig signers threshold t =
     (if signers = [] then errR NoSigners t
      else if threshold = 0 \<or> of_nat (length signers) < threshold then errR InvalidThreshold t
      else if card (set signers) \<noteq> length signers then errR DuplicateSigners t
      else if tm_multisig t \<noteq> None then errR MultisigAlreadyInitialized t
      else okR () (t\<lparr>tm_multisig := Some \<lparr>mc_signers = signers, mc_threshold = threshold\<rparr>\<rparr>))"

definition update_multisig ::
    "account_address list \<Rightarrow> u32 \<Rightarrow> account_address \<Rightarrow> ('s, unit) treasury_op" where
  "update_multisig new_signers new_threshold approver t =
     (case tm_multisig t of
        None \<Rightarrow> errR MultisigNotInitialized t
      | Some config \<Rightarrow>
          (if approver \<notin> set (mc_signers config) then errR NotASigner t
           else if new_threshold = 0 \<or> of_nat (length new_signers) < new_threshold
             then errR InvalidThreshold t
           else okR () (t\<lparr>tm_multisig := Some \<lparr>mc_signers = new_signers, mc_threshold = new_threshold\<rparr>\<rparr>)))"

definition propose_transfer :: "(bytes \<Rightarrow> bytes) \<Rightarrow> 's econ_ops \<Rightarrow> i64 \<Rightarrow> account_address \<Rightarrow> adic_amount \<Rightarrow>
    bytes \<Rightarrow> account_address \<Rightarrow> ('s, bytes) treasury_op" where
  "propose_transfer blake3 E now recipient amount reason proposer t =
     (case tm_multisig t of
        None \<Rightarrow> errR MultisigNotInitialized t
      | Some config \<Rightarrow>
          (if proposer \<notin> set (mc_signers config) then errR NotASigner t
           else
             tryR (on_balances (get_balance E now treasury_address)) (\<lambda>balance.
               if balance < amount then errR InsufficientTreasury
               else
                 (let proposal = treasury_proposal_new blake3 now recipient amount reason proposer
                  in tryR (modR (put_proposal (tp_id proposal) proposal)) (\<lambda>_. okR (tp_id proposal)))) t))"

definition execute_proposal_internal :: "(bytes \<Rightarrow> bytes) \<Rightarrow> (bytes \<Rightarrow> string) \<Rightarrow> 's econ_ops \<Rightarrow> i64 \<Rightarrow>
    bytes \<Rightarrow> treasury_proposal \<Rightarrow> ('s, unit) treasury_op" where
  "execute_proposal_internal blake3 hex E now i p =
     tryR (on_balances (get_balance E now treasury_address)) (\<lambda>balance_before.
     tryR (on_balances (transfer blake3 hex E now treasury_address (tp_recipient p) (tp_amount p))) (\<lambda>_.
     tryR (on_balances (get_balance E now treasury_address)) (\<lambda>balance_after.
     tryR (modR (put_proposal i (p\<lparr>tp_executed := True\<rparr>))) (\<lambda>_.
     modR (\<lambda>t. let executed = tm_executed t @ [tp_id p]
               in t\<lparr>tm_executed := (if 1000 < length executed then drop 100 executed else executed)\<rparr>)))))"

definition approve_proposal :: "(bytes \<Rightarrow> bytes) \<Rightarrow> (bytes \<Rightarrow> string) \<Rightarrow> 's econ_ops \<Rightarrow> i64 \<Rightarrow> bytes \<Rightarrow>
    account_address \<Rightarrow> ('s, bool) treasury_op" where
  "approve_proposal blake3 hex E now i approver t =
     (case tm_multisig t of
        None \<Rightarrow> errR MultisigNotInitialized t
      | Some config \<Rightarrow>
          (if approver \<notin> set (mc_signers config) then errR NotASigner t
           else (case tm_proposals t i of
             None \<Rightarrow> errR ProposalNotFound t
           | Some p \<Rightarrow>
               (if tp_executed p then errR ProposalExecuted t
                else if is_expired now p then errR ProposalExpired t
                else
                  (let p' = p\<lparr>tp_rejections := tp_rejections p - {approver},
                              tp_approvals := insert approver (tp_approvals p)\<rparr>;
                       approval_count = of_nat (card (tp_approvals p')) :: u32;
                       t' = put_proposal i p' t
                   in if mc_threshold config \<le> approval_count \<and> \<not> tp_executed p'
                      then tryR (execute_proposal_internal blake3 hex E now i p') (\<lambda>_. okR True) t'
                      else okR False t')))))"

definition reject_proposal :: "bytes \<Rightarrow> account_address \<Rightarrow> ('s, unit) treasury_op" where
  "reject_proposal i rejector t =
     (case tm_multisig t of
        None \<Rightarrow> errR MultisigNotInitialized t
      | Some config \<Rightarrow>
          (if rejector \<notin> set (mc_signers config) then errR NotASigner t
           else (case tm_proposals t i of
             None \<Rightarrow> errR ProposalNotFound t
           | Some p \<Rightarrow>
               (if tp_executed p then errR ProposalExecuted t
                else okR () (put_proposal i (p\<lparr>tp_approvals := tp_approvals p - {rejector},
                       tp_rejections := insert rejector (tp_rejections p)\<rparr>) t)))))"

definition get_proposal :: "'s treasury_manager \<Rightarrow> bytes \<Rightarrow> treasury_proposal option" where
  "get_proposal t i = tm_proposals t i"

text \<open>The proposals of a vector in the hash map's order are a set here.\<close>

definition get_active_proposals :: "i64 \<Rightarrow> 's treasury_manager \<Rightarrow> treasury_proposal set" where
  "get_active_proposals now t =
     {p \<in> ran (tm_proposals t). \<not> tp_executed p \<and> unix_secs now < tp_expires_at p}"

definition get_treasury_balance :: "'s econ_ops \<Rightarrow> i64 \<Rightarrow> ('s, adic_amount) treasury_op" where
  "get_treasury_balance E now = on_balances (get_balance E now treasury_address)"

definition cleanup_expired_proposals :: "i64 \<Rightarrow> 's treasury_manager \<Rightarrow> 's treasury_manager" where
  "cleanup_expired_proposals now t =
     t\<lparr>tm_proposals := (\<lambda>i. case tm_proposals t i of
         None \<Rightarrow> None
       | Some p \<Rightarrow> (if \<not> tp_executed p \<and> tp_expires_at p \<le> unix_secs now then None else Some p))\<rparr>"

definition emergency_pause :: "account_address \<Rightarrow> ('s, unit) treasury_op" where
  "emergency_pause pauser t =
     (case tm_multisig t of
        None \<Rightarrow> errR MultisigNotInitialized t
      | Some config \<Rightarrow> (if pauser \<notin> set (mc_signers config) then errR NotASigner t else okR () t))"

section \<open>Runs\<close>

datatype treasury_cmd =
    InitMultisig "account_address list" u32
  | UpdateMultisig "account_address list" u32 account_address
  | Propose account_address adic_amount bytes account_address
  | Approve bytes account_address
  | Reject bytes account_address
  | Cleanup

fun treasury_exec :: "(bytes \<Rightarrow> bytes) \<Rightarrow> (bytes \<Rightarrow> string) \<Rightarrow> 's econ_ops \<Rightarrow> i64 \<times> treasury_cmd \<Rightarrow>
    's treasury_manager \<Rightarrow> 's treasury_manager" where
  "treasury_exec blake3 hex E (now, InitMultisig ss k) t = snd (initialize_multisig ss k t)"
| "treasury_exec blake3 hex E (now, UpdateMultisig ss k a) t = snd (update_multisig ss k a t)"
| "treasury_exec blake3 hex E (now, Propose rcp v r a) t = snd (propose_transfer blake3 E now rcp v r a t)"
| "treasury_exec blake3 hex E (now, Approve i a) t = snd (approve_proposal blake3 hex E now i a t)"
| "treasury_exec blake3 hex E (now, Reject i a) t = snd (reject_proposal i a t)"
| "treasury_exec blake3 hex E (now, Cleanup) t = cleanup_expired_proposals now t"

text \<open>No signer counts both for and against a proposal, and the sets of votes are finite.\<close>

definition votes_ok :: "treasury_proposal \<Rightarrow> bool" where
  "votes_ok p \<longleftrightarrow> tp_approvals p \<inter> tp_rejections p = {} \<and> finite (tp_approvals p) \<and> finite (tp_rejections p)"

definition treasury_inv :: "'s treasury_manager \<Rightarrow> bool" where
  "treasury_inv t \<longleftrightarrow> (\<forall>i p. tm_proposals t i = Some p \<longrightarrow> votes_ok p) \<and> length (tm_executed t) \<le> 1000"

lemma treasury_inv_balances [simp]: "treasury_inv (t\<lparr>tm_balances := m\<rparr>) = treasury_inv t"
  by (simp add: treasury_inv_def)

lemma on_balances_inv: "on_balances f t = (r, t') \<Longrightarrow> \<exists>m. t' = t\<lparr>tm_balances := m\<rparr>"
  by (auto simp: on_balances_def split: prod.splits)

section \<open>What an approval does\<close>

lemma len_u32_le: "k \<le> (of_nat n :: u32) \<Longrightarrow> unat k \<le> n"
  by (metis (no_types, lifting) le_trans mod_less_eq_dividend unat_of_nat word_le_nat_alt)

text \<open>The proposal with one more approval.\<close>

definition approved :: "account_address \<Rightarrow> treasury_proposal \<Rightarrow> treasury_proposal" where
  "approved a p = p\<lparr>tp_rejections := tp_rejections p - {a}, tp_approvals := insert a (tp_approvals p)\<rparr>"

lemma sp_transfer_err_balance:
  "sp_transfer blake3 hex now from to v L = (Inl e, L') \<Longrightarrow> l_balance L' = l_balance L"
  by (auto simp: sp_transfer_def Let_def split: if_splits prod.splits sum.splits)

context economics_storage
begin

lemma on_balances_implements:
  assumes "implements view f g" and "coherent view (tm_balances t)" and "on_balances f t = (r, t')"
  shows "coherent view (tm_balances t') \<and> t' = t\<lparr>tm_balances := tm_balances t'\<rparr> \<and>
    g (ledger_of view (tm_balances t)) = (r, ledger_of view (tm_balances t'))"
proof -
  obtain m' where m': "f (tm_balances t) = (r, m')" "t' = t\<lparr>tm_balances := m'\<rparr>"
    using assms(3) by (auto simp: on_balances_def split: prod.splits)
  from implementsD [OF assms(1,2) m'(1)] m'(2) show ?thesis by simp
qed

lemma transfer_standard_implements:
  "implements view (transfer blake3 hex E now from to v) (sp_transfer blake3 hex now from to v)"
  by (simp add: transfer_def transfer_implements)

lemma execute_effect:
  assumes coh: "coherent view (tm_balances t)"
    and run: "execute_proposal_internal blake3 hex E now i p t = (r, t')"
    and spec: "sp_transfer blake3 hex now treasury_address (tp_recipient p) (tp_amount p)
        (ledger_of view (tm_balances t)) = (q, L')"
  shows "coherent view (tm_balances t') \<and> ledger_of view (tm_balances t') = L' \<and>
    (case q of
       Inl e \<Rightarrow> r = Inl e \<and> t' = t\<lparr>tm_balances := tm_balances t'\<rparr>
     | Inr _ \<Rightarrow> r = Inr () \<and> tm_multisig t' = tm_multisig t \<and>
         tm_proposals t' = (tm_proposals t)(i \<mapsto> p\<lparr>tp_executed := True\<rparr>) \<and>
         (length (tm_executed t) \<le> 1000 \<longrightarrow> length (tm_executed t') \<le> 1000))"
proof -
  obtain r1 t1 where t1: "on_balances (Balance.get_balance E now treasury_address) t = (r1, t1)"
    by (cases "on_balances (Balance.get_balance E now treasury_address) t")
  note 1 = on_balances_implements [OF get_balance_implements coh t1]
  obtain r2 t2 where t2: "on_balances (transfer blake3 hex E now treasury_address (tp_recipient p) (tp_amount p)) t1 = (r2, t2)"
    by (cases "on_balances (transfer blake3 hex E now treasury_address (tp_recipient p) (tp_amount p)) t1")
  have coh1: "coherent view (tm_balances t1)" and led1: "ledger_of view (tm_balances t1) = ledger_of view (tm_balances t)"
    using 1 by auto
  note 2 = on_balances_implements [OF transfer_standard_implements coh1 t2]
  have r1: "r1 = Inr (l_balance (ledger_of view (tm_balances t)) treasury_address)" using 1 by (metis prod.inject)
  have q: "r2 = q" "ledger_of view (tm_balances t2) = L'" "coherent view (tm_balances t2)"
    using 2 spec led1 by simp_all
  have u2: "t2 = t\<lparr>tm_balances := tm_balances t2\<rparr>" using 1 2
    by (metis (no_types, lifting) treasury_manager.surjective treasury_manager.update_convs(1))
  show ?thesis
  proof (cases q)
    case (Inl e)
    then have "r = Inl e" "t' = t2"
      using run t1 t2 r1 q(1) by (simp_all add: execute_proposal_internal_def)
    with Inl q u2 show ?thesis by simp
  next
    case (Inr h)
    obtain r3 t3 where t3: "on_balances (Balance.get_balance E now treasury_address) t2 = (r3, t3)"
      by (cases "on_balances (Balance.get_balance E now treasury_address) t2")
    note 3 = on_balances_implements [OF get_balance_implements q(3) t3]
    then have led3: "ledger_of view (tm_balances t3) = L'" "coherent view (tm_balances t3)"
      and r3: "\<exists>v. r3 = Inr v" and u3: "t3 = t2\<lparr>tm_balances := tm_balances t3\<rparr>"
      using q by auto
    have "tm_proposals t3 = tm_proposals t" "tm_multisig t3 = tm_multisig t" "tm_executed t3 = tm_executed t"
      using u2 u3 by (metis treasury_manager.select_convs treasury_manager.surjective treasury_manager.update_convs(1))+
    then show ?thesis
      using Inr run t1 t2 t3 r1 q(1) r3 led3
      by (auto simp: execute_proposal_internal_def put_proposal_def Let_def) arith
  qed
qed

lemma approve_cases:
  assumes coh: "coherent view (tm_balances t)"
    and run: "approve_proposal blake3 hex E now i a t = (r, t')"
  obtains (refused) e where "r = Inl e" "t' = t"
      "\<not> (\<exists>config p. tm_multisig t = Some config \<and> a \<in> set (mc_signers config) \<and>
        tm_proposals t i = Some p \<and> \<not> tp_executed p \<and> \<not> is_expired now p)"
  | (counted) config p where "tm_multisig t = Some config" "a \<in> set (mc_signers config)"
      "tm_proposals t i = Some p" "\<not> tp_executed p" "\<not> is_expired now p"
      "(of_nat (card (insert a (tp_approvals p))) :: u32) < mc_threshold config"
      "r = Inr False" "t' = put_proposal i (approved a p) t"
  | (failed) config p e where "tm_multisig t = Some config" "a \<in> set (mc_signers config)"
      "tm_proposals t i = Some p" "\<not> tp_executed p" "\<not> is_expired now p"
      "mc_threshold config \<le> of_nat (card (insert a (tp_approvals p)))"
      "sp_transfer blake3 hex now treasury_address (tp_recipient p) (tp_amount p)
         (ledger_of view (tm_balances t)) = (Inl e, ledger_of view (tm_balances t'))"
      "r = Inl e" "coherent view (tm_balances t')"
      "t' = put_proposal i (approved a p) t\<lparr>tm_balances := tm_balances t'\<rparr>"
  | (paid) config p h where "tm_multisig t = Some config" "a \<in> set (mc_signers config)"
      "tm_proposals t i = Some p" "\<not> tp_executed p" "\<not> is_expired now p"
      "mc_threshold config \<le> of_nat (card (insert a (tp_approvals p)))"
      "sp_transfer blake3 hex now treasury_address (tp_recipient p) (tp_amount p)
         (ledger_of view (tm_balances t)) = (Inr h, ledger_of view (tm_balances t'))"
      "r = Inr True" "coherent view (tm_balances t')" "tm_multisig t' = tm_multisig t"
      "tm_proposals t' = (tm_proposals t)(i \<mapsto> (approved a p)\<lparr>tp_executed := True\<rparr>)"
      "length (tm_executed t) \<le> 1000 \<longrightarrow> length (tm_executed t') \<le> 1000"
proof (cases "\<exists>config p. tm_multisig t = Some config \<and> a \<in> set (mc_signers config) \<and>
    tm_proposals t i = Some p \<and> \<not> tp_executed p \<and> \<not> is_expired now p")
  case False
  then have "\<exists>e. r = Inl e \<and> t' = t"
    using run by (auto simp: approve_proposal_def split: option.splits if_splits)
  with False show ?thesis using refused by blast
next
  case True
  then obtain config p where p: "tm_multisig t = Some config" "a \<in> set (mc_signers config)"
      "tm_proposals t i = Some p" "\<not> tp_executed p" "\<not> is_expired now p" by blast
  let ?t1 = "put_proposal i (approved a p) t"
  show ?thesis
  proof (cases "mc_threshold config \<le> of_nat (card (insert a (tp_approvals p)))")
    case False
    then have "r = Inr False \<and> t' = ?t1"
      using p run by (simp add: approve_proposal_def Let_def approved_def)
    with p False show ?thesis using counted by (simp add: not_le)
  next
    case True
    have run1: "tryR (execute_proposal_internal blake3 hex E now i (approved a p)) (\<lambda>_. okR True) ?t1 = (r, t')"
      using p True run by (simp add: approve_proposal_def Let_def approved_def)
    obtain r2 t2 where ex: "execute_proposal_internal blake3 hex E now i (approved a p) ?t1 = (r2, t2)"
      by (cases "execute_proposal_internal blake3 hex E now i (approved a p) ?t1")
    have same: "tm_balances ?t1 = tm_balances t" "tm_multisig ?t1 = tm_multisig t" "tm_executed ?t1 = tm_executed t"
      by (simp_all add: put_proposal_def)
    have rp: "tp_recipient (approved a p) = tp_recipient p" "tp_amount (approved a p) = tp_amount p"
      by (simp_all add: approved_def)
    obtain q L' where spec: "sp_transfer blake3 hex now treasury_address (tp_recipient p) (tp_amount p)
        (ledger_of view (tm_balances t)) = (q, L')"
      by (cases "sp_transfer blake3 hex now treasury_address (tp_recipient p) (tp_amount p)
        (ledger_of view (tm_balances t))")
    note eff = execute_effect [OF _ ex, unfolded same rp, OF coh spec]
    show ?thesis
    proof (cases q)
      case (Inl e)
      with eff run1 ex have "r = Inl e" "t' = t2" by simp_all
      with Inl eff spec failed [OF p True] show ?thesis by simp
    next
      case (Inr h)
      with eff run1 ex have "r = Inr True" "t' = t2" by simp_all
      moreover have "tm_proposals t2 = (tm_proposals t)(i \<mapsto> (approved a p)\<lparr>tp_executed := True\<rparr>)"
        using Inr eff by (simp add: put_proposal_def)
      ultimately show ?thesis using Inr eff spec paid [OF p True] by simp
    qed
  qed
qed

lemma approve_pays_only_approved:
  assumes coh: "coherent view (tm_balances t)"
    and run: "approve_proposal blake3 hex E now i a t = (r, t')"
    and moved: "l_balance (ledger_of view (tm_balances t')) \<noteq> l_balance (ledger_of view (tm_balances t))"
  shows "r = Inr True \<and>
    (\<exists>config p h. tm_multisig t = Some config \<and> a \<in> set (mc_signers config) \<and>
       tm_proposals t i = Some p \<and> \<not> tp_executed p \<and> unix_secs now \<le> tp_expires_at p \<and>
       unat (mc_threshold config) \<le> card (insert a (tp_approvals p)) \<and>
       sp_transfer blake3 hex now treasury_address (tp_recipient p) (tp_amount p)
         (ledger_of view (tm_balances t)) = (Inr h, ledger_of view (tm_balances t')) \<and>
       (\<exists>p'. tm_proposals t' i = Some p' \<and> tp_executed p'))"
  using coh run
proof (cases rule: approve_cases)
  case (failed config p e)
  then have "l_balance (ledger_of view (tm_balances t')) = l_balance (ledger_of view (tm_balances t))"
    using sp_transfer_err_balance by blast
  with moved show ?thesis by simp
next
  case (paid config p h)
  then show ?thesis by (auto simp: is_expired_def not_less dest: len_u32_le)
qed (use moved in \<open>simp_all add: put_proposal_def\<close>)

end

section \<open>Runs of the treasury\<close>

fun proposes :: "(bytes \<Rightarrow> bytes) \<Rightarrow> bytes \<Rightarrow> i64 \<times> treasury_cmd \<Rightarrow> bool" where
  "proposes blake3 i (now, Propose rcp v r a) = (tp_id (treasury_proposal_new blake3 now rcp v r a) = i)"
| "proposes blake3 i _ = False"

lemma votes_ok_approved: "votes_ok p \<Longrightarrow> votes_ok (approved a p)"
  by (auto simp: votes_ok_def approved_def)

lemma votes_ok_executed: "votes_ok (p\<lparr>tp_executed := x\<rparr>) = votes_ok p"
  by (simp add: votes_ok_def)

lemma votes_ok_new: "votes_ok (treasury_proposal_new blake3 now rcp v r a)"
  by (simp add: votes_ok_def treasury_proposal_new_def)

lemma initialize_multisig_frame:
  "tm_balances (snd (initialize_multisig ss k t)) = tm_balances t \<and>
   tm_proposals (snd (initialize_multisig ss k t)) = tm_proposals t \<and>
   tm_executed (snd (initialize_multisig ss k t)) = tm_executed t"
  by (simp add: initialize_multisig_def)

lemma update_multisig_frame:
  "tm_balances (snd (update_multisig ss k a t)) = tm_balances t \<and>
   tm_proposals (snd (update_multisig ss k a t)) = tm_proposals t \<and>
   tm_executed (snd (update_multisig ss k a t)) = tm_executed t"
  by (simp add: update_multisig_def split: option.split)

lemma reject_effect:
  "snd (reject_proposal i a t) = t \<or>
   (\<exists>p. tm_proposals t i = Some p \<and> \<not> tp_executed p \<and>
      snd (reject_proposal i a t) = put_proposal i (p\<lparr>tp_approvals := tp_approvals p - {a},
         tp_rejections := insert a (tp_rejections p)\<rparr>) t)"
  by (simp add: reject_proposal_def split: option.split)

lemma put_proposal_frame [simp]:
  "tm_balances (put_proposal i p t) = tm_balances t"
  "tm_executed (put_proposal i p t) = tm_executed t"
  "tm_proposals (put_proposal i p t) = (tm_proposals t)(i \<mapsto> p)"
  by (simp_all add: put_proposal_def)

lemma cleanup_frame:
  "tm_balances (cleanup_expired_proposals now t) = tm_balances t"
  "tm_executed (cleanup_expired_proposals now t) = tm_executed t"
  "tm_proposals (cleanup_expired_proposals now t) i = Some p \<Longrightarrow> tm_proposals t i = Some p"
  "tm_proposals t i = Some p \<Longrightarrow> tp_executed p \<Longrightarrow> tm_proposals (cleanup_expired_proposals now t) i = Some p"
  by (auto simp: cleanup_expired_proposals_def split: option.splits if_splits)

context economics_storage
begin

lemma propose_effect:
  assumes coh: "coherent view (tm_balances t)"
  shows "coherent view (tm_balances (snd (propose_transfer blake3 E now rcp v r a t))) \<and>
      tm_executed (snd (propose_transfer blake3 E now rcp v r a t)) = tm_executed t \<and>
      (tm_proposals (snd (propose_transfer blake3 E now rcp v r a t)) = tm_proposals t \<or>
       tm_proposals (snd (propose_transfer blake3 E now rcp v r a t)) =
         (tm_proposals t)(tp_id (treasury_proposal_new blake3 now rcp v r a) \<mapsto>
            treasury_proposal_new blake3 now rcp v r a))"
proof -
  obtain r1 t1 where t1: "on_balances (Balance.get_balance E now treasury_address) t = (r1, t1)"
    by (cases "on_balances (Balance.get_balance E now treasury_address) t")
  note 1 = on_balances_implements [OF get_balance_implements coh t1]
  then have f: "coherent view (tm_balances t1)" "tm_proposals t1 = tm_proposals t" "tm_executed t1 = tm_executed t"
    using on_balances_inv [OF t1] by auto
  show ?thesis
  proof (cases "tm_multisig t")
    case None
    then show ?thesis using coh by (simp add: propose_transfer_def)
  next
    case (Some config)
    then show ?thesis
      using coh f t1 by (cases r1) (auto simp: propose_transfer_def Let_def)
  qed
qed

lemma treasury_exec_step:
  assumes coh: "coherent view (tm_balances t)"
  shows "coherent view (tm_balances (treasury_exec blake3 hex E c t)) \<and>
    (treasury_inv t \<longrightarrow> treasury_inv (treasury_exec blake3 hex E c t)) \<and>
    (\<forall>i p. tm_proposals t i = Some p \<and> tp_executed p \<and> \<not> proposes blake3 i c \<longrightarrow>
       tm_proposals (treasury_exec blake3 hex E c t) i = Some p)"
proof -
  obtain now cmd where c: "c = (now, cmd)" by (cases c)
  show ?thesis
  proof (cases cmd)
    case (InitMultisig ss k)
    then show ?thesis using coh c initialize_multisig_frame [of ss k t] by (simp add: treasury_inv_def)
  next
    case (UpdateMultisig ss k a)
    then show ?thesis using coh c update_multisig_frame [of ss k a t] by (simp add: treasury_inv_def)
  next
    case (Propose rcp v r a)
    show ?thesis
      using propose_effect [OF coh, of blake3 now rcp v r a]
      by (auto simp: c Propose treasury_inv_def votes_ok_new split: if_split_asm)
  next
    case (Approve i a)
    obtain r t' where run: "approve_proposal blake3 hex E now i a t = (r, t')"
      by (cases "approve_proposal blake3 hex E now i a t")
    have "coherent view (tm_balances t') \<and> (treasury_inv t \<longrightarrow> treasury_inv t') \<and>
        (\<forall>j p. tm_proposals t j = Some p \<and> tp_executed p \<longrightarrow> tm_proposals t' j = Some p)"
      using coh run
    proof (cases rule: approve_cases)
      case (failed config p e)
      then have "tm_proposals t' = (tm_proposals t)(i \<mapsto> approved a p)" "tm_executed t' = tm_executed t"
        by (metis put_proposal_frame(3) treasury_manager.select_convs(3) treasury_manager.surjective
            treasury_manager.update_convs(1))
          (metis failed(10) put_proposal_frame(2) treasury_manager.select_convs(4) treasury_manager.surjective
            treasury_manager.update_convs(1))
      with failed coh show ?thesis
        by (auto simp: treasury_inv_def votes_ok_approved)
    next
      case (paid config p h)
      then show ?thesis
        by (auto simp: treasury_inv_def votes_ok_approved votes_ok_executed)
    qed (use coh in \<open>auto simp: treasury_inv_def votes_ok_approved \<close>)
    with run c Approve show ?thesis by simp
  next
    case (Reject i a)
    show ?thesis
      using reject_effect [of i a t] coh c Reject
      by (elim disjE exE conjE) (auto simp: treasury_inv_def votes_ok_def)
  next
    case Cleanup
    then show ?thesis
      using coh c by (auto simp: treasury_inv_def cleanup_frame(1,2,4) dest: cleanup_frame(3))
  qed
qed

lemma treasury_run:
  assumes "coherent view (tm_balances t)"
  shows "coherent view (tm_balances (foldl (\<lambda>t c. treasury_exec blake3 hex E c t) t cs)) \<and>
    (treasury_inv t \<longrightarrow> treasury_inv (foldl (\<lambda>t c. treasury_exec blake3 hex E c t) t cs)) \<and>
    (tm_proposals t i = Some p \<and> tp_executed p \<and> list_all (\<lambda>c. \<not> proposes blake3 i c) cs \<longrightarrow>
       tm_proposals (foldl (\<lambda>t c. treasury_exec blake3 hex E c t) t cs) i = Some p)"
  using assms
proof (induction cs arbitrary: t)
  case (Cons c cs)
  note step = treasury_exec_step [OF Cons.prems, of blake3 hex c]
  then show ?case using Cons.IH [of "treasury_exec blake3 hex E c t"] by auto
qed simp

end

section \<open>The treasury over \<open>MemoryStorage\<close>\<close>

text \<open>C14: The treasury pays only what its multisig approved: an approval that moves any balance
  returned \<open>true\<close>, its approver is a signer, the proposal was neither executed nor expired, the
  approvals recorded with this one reach the threshold, the whole effect on the ledger is one
  transfer of the proposed amount from the treasury to the recipient, and the proposal is marked
  executed.\<close>

theorem treasury_pays_only_approved:
  assumes "coherent mem_view (tm_balances t)"
    and "approve_proposal blake3 hex (memory_ops keys) now i a t = (r, t')"
    and "l_balance (ledger_of mem_view (tm_balances t')) \<noteq> l_balance (ledger_of mem_view (tm_balances t))"
  shows "r = Inr True \<and>
    (\<exists>config p h. tm_multisig t = Some config \<and> a \<in> set (mc_signers config) \<and>
       tm_proposals t i = Some p \<and> \<not> tp_executed p \<and> unix_secs now \<le> tp_expires_at p \<and>
       unat (mc_threshold config) \<le> card (insert a (tp_approvals p)) \<and>
       sp_transfer blake3 hex now treasury_address (tp_recipient p) (tp_amount p)
         (ledger_of mem_view (tm_balances t)) = (Inr h, ledger_of mem_view (tm_balances t')) \<and>
       (\<exists>p'. tm_proposals t' i = Some p' \<and> tp_executed p'))"
  by (rule mem.approve_pays_only_approved [OF assms])

text \<open>An executed proposal stays executed and is never paid again: after any run of commands
  that does not file a new proposal under the same identifier, it is still stored as it was and every
  approval of it is refused.\<close>

theorem executed_proposal_final:
  assumes "coherent mem_view (tm_balances t)"
    and "tm_proposals t i = Some p" and "tp_executed p"
    and "list_all (\<lambda>c. \<not> proposes blake3 i c) cs"
  shows "let t' = foldl (\<lambda>t c. treasury_exec blake3 hex (memory_ops keys) c t) t cs in
    tm_proposals t' i = Some p \<and>
    (\<exists>e. approve_proposal blake3 hex (memory_ops keys) now i a t' = (Inl e, t'))"
proof -
  define t' where "t' = foldl (\<lambda>t c. treasury_exec blake3 hex (memory_ops keys) c t) t cs"
  have "tm_proposals t' i = Some p"
    using mem.treasury_run [OF assms(1)] assms(2-4) by (auto simp: t'_def)
  then have "\<exists>e. approve_proposal blake3 hex (memory_ops keys) now i a t' = (Inl e, t')"
    using assms(3) by (auto simp: approve_proposal_def split: option.split)
  with \<open>tm_proposals t' i = Some p\<close> show ?thesis by (simp add: t'_def)
qed

text \<open>In every run of a new treasury no signer counts both for and against a proposal, and
  the record of executed proposals holds at most 1000 identifiers.\<close>

theorem treasury_votes_disjoint:
  assumes "coherent mem_view m"
  shows "treasury_inv (foldl (\<lambda>t c. treasury_exec blake3 hex (memory_ops keys) c t)
    (treasury_manager_new m) cs)"
  using mem.treasury_run [of "treasury_manager_new m" blake3 hex keys cs] assms
  by (simp add: treasury_manager_new_def treasury_inv_def)

section \<open>Concrete instances\<close>

definition sample_recipient :: account_address where
  "sample_recipient = AccountAddress [3]"

definition sample_info :: account_info where
  "sample_info = \<lparr>ai_address = treasury_address, ai_balance = AdicAmount 5, ai_nonce = 0,
     ai_locked = ADIC_ZERO, ai_last_activity = 0\<rparr>"

definition sample_balances :: "memory_storage balance_manager" where
  "sample_balances =
     \<lparr>bm_storage = memory_storage_new\<lparr>ms_balances := [treasury_address \<mapsto> AdicAmount 5]\<rparr>,
      bm_cache = [treasury_address \<mapsto> sample_info], bm_events = [], bm_transfer_events = []\<rparr>"

definition sample_proposal :: treasury_proposal where
  "sample_proposal = treasury_proposal_new (\<lambda>_. [7]) 0 sample_recipient (AdicAmount 2) [] (AccountAddress [1])"

definition sample_treasury :: "memory_storage treasury_manager" where
  "sample_treasury =
     \<lparr>tm_balances = sample_balances,
      tm_multisig = Some \<lparr>mc_signers = [AccountAddress [1], AccountAddress [2]], mc_threshold = 2\<rparr>,
      tm_proposals = [[7] \<mapsto> sample_proposal], tm_executed = []\<rparr>"

lemma sample_coherent: "coherent mem_view (tm_balances sample_treasury)"
  by (auto simp: sample_treasury_def sample_balances_def coherent_def entry_def ledger_entry_def mem_view_def
      memory_storage_new_def get_or_def fun_eq_iff sample_info_def)

lemma sample_recipient_neq [simp]: "treasury_address \<noteq> sample_recipient" "sample_recipient \<noteq> treasury_address"
  by (simp_all add: treasury_address_def sample_recipient_def)

lemma sample_amount_simps [simp]:
  "\<not> AdicAmount 5 < AdicAmount 2" "AdicAmount 2 \<noteq> ADIC_ZERO" "AdicAmount 3 \<noteq> ADIC_ZERO"
  "amt_sat_sub (AdicAmount 5) (AdicAmount 2) = AdicAmount 3"
  "amt_checked_add ADIC_ZERO (AdicAmount 2) = Some (AdicAmount 2)"
  by (simp_all add: amount_less_iff ADIC_ZERO_def amt_sat_sub_def sat_sub_def amt_checked_add_def checked_add_def)

text \<open>The second signer's approval pays out the sample proposal.\<close>

lemma sample_approval:
  "\<exists>t'. approve_proposal (\<lambda>_. [7]) (\<lambda>_. ''h'') (memory_ops (\<lambda>_. [])) 0 [7] (AccountAddress [2]) sample_treasury =
      (Inr True, t') \<and>
    ledger_of mem_view (tm_balances t') = snd (sp_transfer (\<lambda>_. [7]) (\<lambda>_. ''h'') 0 treasury_address sample_recipient
      (AdicAmount 2) (ledger_of mem_view sample_balances)) \<and>
    l_balance (ledger_of mem_view (tm_balances t')) treasury_address = AdicAmount 3"
proof -
  let ?L = "ledger_of mem_view (tm_balances sample_treasury)"
  obtain r t' where run: "approve_proposal (\<lambda>_. [7]) (\<lambda>_. ''h'') (memory_ops (\<lambda>_. [])) 0 [7] (AccountAddress [2])
      sample_treasury = (r, t')" by (metis prod.exhaust)
  have p: "tm_proposals sample_treasury [7] = Some sample_proposal"
      "tm_multisig sample_treasury = Some \<lparr>mc_signers = [AccountAddress [1], AccountAddress [2]], mc_threshold = 2\<rparr>"
      "tm_balances sample_treasury = sample_balances"
    by (simp_all add: sample_treasury_def)
  have sp: "tp_recipient sample_proposal = sample_recipient" "tp_amount sample_proposal = AdicAmount 2"
      "\<not> tp_executed sample_proposal" "\<not> is_expired 0 sample_proposal"
      "tp_approvals sample_proposal = {AccountAddress [1]}"
    by (simp_all add: sample_proposal_def treasury_proposal_new_def is_expired_def unix_secs_def)
  have L: "l_balance ?L treasury_address = AdicAmount 5" "l_balance ?L sample_recipient = ADIC_ZERO"
    by (simp_all add: p sample_balances_def ledger_of_def mem_view_def get_or_def memory_storage_new_def)
  have spec: "sp_transfer (\<lambda>_. [7]) (\<lambda>_. ''h'') 0 treasury_address sample_recipient (AdicAmount 2) ?L =
      (Inr ''h'', snd (sp_transfer (\<lambda>_. [7]) (\<lambda>_. ''h'') 0 treasury_address sample_recipient (AdicAmount 2) ?L))"
    and bal: "l_balance (snd (sp_transfer (\<lambda>_. [7]) (\<lambda>_. ''h'') 0 treasury_address sample_recipient (AdicAmount 2) ?L))
      treasury_address = AdicAmount 3"
    by (simp_all add: sp_transfer_def sp_move_def L Let_def transfer_hash_def sp_close_def)
  show ?thesis
    using sample_coherent run
  proof (cases rule: mem.approve_cases)
    case (refused e)
    then show ?thesis using p sp by simp
  next
    case (counted config q)
    then show ?thesis using p sp by auto
  next
    case (failed config q e)
    then show ?thesis using p sp spec by simp
  next
    case (paid config q h)
    then show ?thesis using run p sp spec bal by simp
  qed
qed

lemma treasury_pays_only_approved_witness:
  "\<exists>t'. approve_proposal (\<lambda>_. [7]) (\<lambda>_. ''h'') (memory_ops (\<lambda>_. [])) 0 [7] (AccountAddress [2]) sample_treasury =
      (Inr True, t') \<and> (\<exists>p'. tm_proposals t' [7] = Some p' \<and> tp_executed p')"
proof -
  obtain t' where t': "approve_proposal (\<lambda>_. [7]) (\<lambda>_. ''h'') (memory_ops (\<lambda>_. [])) 0 [7] (AccountAddress [2])
      sample_treasury = (Inr True, t')"
      "l_balance (ledger_of mem_view (tm_balances t')) treasury_address = AdicAmount 3"
    using sample_approval by blast
  have "l_balance (ledger_of mem_view (tm_balances sample_treasury)) treasury_address = AdicAmount 5"
    by (simp add: sample_treasury_def sample_balances_def ledger_of_def mem_view_def get_or_def memory_storage_new_def)
  with t'(2) have "l_balance (ledger_of mem_view (tm_balances t')) \<noteq>
      l_balance (ledger_of mem_view (tm_balances sample_treasury))" by auto
  from treasury_pays_only_approved [OF sample_coherent t'(1) this] t'(1) show ?thesis by blast
qed

lemma executed_proposal_final_witness:
  "let t = sample_treasury\<lparr>tm_proposals := [[7] \<mapsto> sample_proposal\<lparr>tp_executed := True\<rparr>]\<rparr>;
       t' = foldl (\<lambda>t c. treasury_exec (\<lambda>_. [8]) (\<lambda>_. ''h'') (memory_ops (\<lambda>_. [])) c t) t
         [(5, Approve [7] (AccountAddress [2])), (6, Propose sample_recipient (AdicAmount 2) [] (AccountAddress [1]))]
   in tm_proposals t' [7] = Some (sample_proposal\<lparr>tp_executed := True\<rparr>)"
proof -
  let ?t = "sample_treasury\<lparr>tm_proposals := [[7] \<mapsto> sample_proposal\<lparr>tp_executed := True\<rparr>]\<rparr>"
  have "coherent mem_view (tm_balances ?t)" "tm_proposals ?t [7] = Some (sample_proposal\<lparr>tp_executed := True\<rparr>)"
    "tp_executed (sample_proposal\<lparr>tp_executed := True\<rparr>)"
    "list_all (\<lambda>c. \<not> proposes (\<lambda>_. [8]) [7] c) [(5, Approve [7] (AccountAddress [2])),
       (6, Propose sample_recipient (AdicAmount 2) [] (AccountAddress [1]))]"
    using sample_coherent by (simp_all add: treasury_proposal_new_def)
  from executed_proposal_final [OF this] show ?thesis unfolding Let_def by blast
qed

lemma treasury_votes_disjoint_witness:
  "treasury_inv (foldl (\<lambda>t c. treasury_exec (\<lambda>_. [7]) (\<lambda>_. ''h'') (memory_ops (\<lambda>_. [])) c t)
     (treasury_manager_new sample_balances)
     [(0, InitMultisig [AccountAddress [1], AccountAddress [2]] 2),
      (0, Propose sample_recipient (AdicAmount 2) [] (AccountAddress [1])),
      (1, Reject [7] (AccountAddress [1])), (2, Approve [7] (AccountAddress [1]))])"
proof -
  have "coherent mem_view sample_balances"
    using sample_coherent by (simp add: sample_treasury_def)
  then show ?thesis by (rule treasury_votes_disjoint)
qed

end
