(* ===== verification/Emission.thy ===== *)
theory Emission
  imports Supply Balance
begin

text \<open>
  \<open>EmissionController\<close> (\<open>crates/adic-economics/src/emission.rs\<close>): the decaying
  emission of new tokens and the rewards for useful work. The controller shares the
  \<open>TokenSupply\<close> and the \<open>BalanceManager\<close>, which are part of its state here. The
  \<open>f64\<close> arithmetic of the rates is real arithmetic, \<open>powf\<close> is \<open>powr\<close>.
\<close>

section \<open>State and operations\<close>

record emission_metrics =
  em_total_emitted :: adic_amount
  em_last_emission :: i64
  em_current_rate :: f64
  em_years_elapsed :: f64

record 's emission_controller =
  ec_supply :: token_supply
  ec_balances :: "'s balance_manager"
  ec_schedule :: emission_schedule
  ec_metrics :: emission_metrics

type_synonym ('s, 'a) emission_op = "(econ_error, 's emission_controller, 'a) rop"

definition emission_controller_new ::
    "i64 \<Rightarrow> token_supply \<Rightarrow> 's balance_manager \<Rightarrow> 's emission_controller" where
  "emission_controller_new now supply balances =
     \<lparr>ec_supply = supply, ec_balances = balances,
      ec_schedule = emission_schedule_default (unix_secs now),
      ec_metrics = \<lparr>em_total_emitted = ADIC_ZERO, em_last_emission = unix_secs now,
        em_current_rate = 1 / 100, em_years_elapsed = 0\<rparr>\<rparr>"

definition with_schedule :: "emission_schedule \<Rightarrow> 's emission_controller \<Rightarrow> 's emission_controller" where
  "with_schedule schedule c = c\<lparr>ec_schedule := schedule\<rparr>"

definition seconds_per_year :: f64 where
  "seconds_per_year = 365.25 * 24 * 3600"

definition calculate_emission_rate :: "f64 \<Rightarrow> emission_schedule \<Rightarrow> f64" where
  "calculate_emission_rate years_elapsed schedule =
     initial_rate schedule * (1 / 2) powr (years_elapsed / half_life_years schedule)"

definition calculate_emission_amount :: "adic_amount \<Rightarrow> f64 \<Rightarrow> f64 \<Rightarrow> adic_amount" where
  "calculate_emission_amount current_supply rate time_delta_seconds =
     amt_from_adic (amt_to_adic current_supply * rate / seconds_per_year * time_delta_seconds)"

definition on_supply :: "(econ_error, token_supply, 'a) rop \<Rightarrow> ('s, 'a) emission_op" where
  "on_supply f c = (case f (ec_supply c) of (r, s) \<Rightarrow> (r, c\<lparr>ec_supply := s\<rparr>))"

definition on_ec_balances :: "('s, 'a) bal_op \<Rightarrow> ('s, 'a) emission_op" where
  "on_ec_balances f c = (case f (ec_balances c) of (r, m) \<Rightarrow> (r, c\<lparr>ec_balances := m\<rparr>))"

definition record_event :: "transfer_event \<Rightarrow> 's emission_controller \<Rightarrow> 's emission_controller" where
  "record_event e c = c\<lparr>ec_supply := add_transfer_event e (ec_supply c)\<rparr>"

definition finish_emission :: "adic_amount \<Rightarrow> i64 \<Rightarrow> 's emission_controller \<Rightarrow> 's emission_controller" where
  "finish_emission amount timestamp c =
     (let schedule = (ec_schedule c)\<lparr>last_emission_timestamp := timestamp\<rparr>;
          metrics = ec_metrics c
      in c\<lparr>ec_schedule := schedule,
           ec_metrics := metrics\<lparr>em_total_emitted := amt_sat_add (em_total_emitted metrics) amount,
             em_last_emission := timestamp,
             em_current_rate := calculate_emission_rate (em_years_elapsed metrics) schedule\<rparr>\<rparr>)"

definition mint_and_distribute :: "'s econ_ops \<Rightarrow> i64 \<Rightarrow> adic_amount \<Rightarrow> account_address \<Rightarrow> i64 \<Rightarrow>
    ('s, adic_amount) emission_op" where
  "mint_and_distribute E now amount recipient timestamp =
     tryR (on_supply (mint_emission amount)) (\<lambda>_.
     tryR (on_ec_balances (credit E now recipient amount)) (\<lambda>_.
     tryR (modR (record_event \<lparr>te_from = AccountAddress (replicate 32 0), te_to = recipient,
       te_amount = amount, te_timestamp = timestamp, te_reason = Emission\<rparr>)) (\<lambda>_.
     tryR (modR (finish_emission amount timestamp)) (\<lambda>_.
     okR amount))))"

definition process_emission :: "'s econ_ops \<Rightarrow> i64 \<Rightarrow> account_address \<Rightarrow> ('s, adic_amount) emission_op" where
  "process_emission E now recipient c =
     (let schedule = ec_schedule c;
          t = unix_secs now;
          time_since_last = t - last_emission_timestamp schedule
      in if time_since_last < 60 then errR EmissionTooFrequent c
         else
           (let years_elapsed = real_of_int (t - start_timestamp schedule) / seconds_per_year;
                current_rate = calculate_emission_rate years_elapsed schedule;
                current_supply = total_supply (ts_metrics (ec_supply c));
                emission_amount = calculate_emission_amount current_supply current_rate (real_of_int time_since_last)
            in if \<not> can_mint emission_amount (ec_supply c)
               then (let remaining = remaining_mintable (ec_supply c)
                     in if remaining = ADIC_ZERO then errR MaxSupplyReached c
                        else mint_and_distribute E now remaining recipient t c)
               else mint_and_distribute E now emission_amount recipient t c))"

definition process_pouw_reward :: "(bytes \<Rightarrow> bytes) \<Rightarrow> (bytes \<Rightarrow> string) \<Rightarrow> 's econ_ops \<Rightarrow> i64 \<Rightarrow>
    account_address \<Rightarrow> adic_amount \<Rightarrow> bool \<Rightarrow> ('s, adic_amount) emission_op" where
  "process_pouw_reward blake3 hex E now validator base_reward sponsor_funded =
     tryR
       (if sponsor_funded then okR base_reward
        else
          tryR (on_ec_balances (get_balance E now treasury_address)) (\<lambda>treasury_balance.
            let matched_amount = (if base_reward \<le> treasury_balance then base_reward else treasury_balance)
            in if ADIC_ZERO < matched_amount
               then
                 tryR (on_ec_balances (transfer blake3 hex E now treasury_address validator matched_amount)) (\<lambda>_.
                 tryR (modR (record_event \<lparr>te_from = treasury_address, te_to = validator,
                   te_amount = matched_amount, te_timestamp = unix_secs now, te_reason = PoUWReward\<rparr>)) (\<lambda>_.
                 okR matched_amount))
               else okR matched_amount))
       (\<lambda>reward c. if sponsor_funded \<and> can_mint reward (ec_supply c)
                   then process_emission E now validator c else okR reward c)"

definition get_current_emission_rate :: "i64 \<Rightarrow> 's emission_controller \<Rightarrow> f64" where
  "get_current_emission_rate now c =
     calculate_emission_rate
       (real_of_int (unix_secs now - start_timestamp (ec_schedule c)) / seconds_per_year) (ec_schedule c)"

text \<open>The monthly loop of \<open>get_projected_emission\<close>; \<open>left\<close> counts the months to
  go.\<close>

fun project_months :: "adic_amount \<Rightarrow> emission_schedule \<Rightarrow> nat \<Rightarrow> nat \<Rightarrow> adic_amount \<Rightarrow> adic_amount" where
  "project_months current_supply schedule month 0 emitted = emitted"
| "project_months current_supply schedule month (Suc left) emitted =
     (let rate = calculate_emission_rate (real month / 12) schedule;
          month_emission = calculate_emission_amount (amt_sat_add current_supply emitted) rate (30.44 * 24 * 3600);
          emitted' = amt_sat_add emitted month_emission
      in if MAX_SUPPLY \<le> amt_sat_add current_supply emitted' then emitted'
         else project_months current_supply schedule (Suc month) left emitted')"

definition f64_as_u32 :: "f64 \<Rightarrow> nat" where
  "f64_as_u32 x = (if x \<le> 0 then 0 else if 2 ^ 32 \<le> x then 2 ^ 32 - 1 else nat \<lfloor>x\<rfloor>)"

definition get_projected_emission :: "f64 \<Rightarrow> 's emission_controller \<Rightarrow> adic_amount" where
  "get_projected_emission years c =
     project_months (total_supply (ts_metrics (ec_supply c))) (ec_schedule c) 0 (f64_as_u32 (years * 12)) ADIC_ZERO"

section \<open>The rate\<close>

lemma emission_rate_start: "calculate_emission_rate 0 schedule = initial_rate schedule"
  by (simp add: calculate_emission_rate_def)

text \<open>The rate halves with every half life, from the initial rate at the start.\<close>

theorem emission_rate_halves:
  assumes "half_life_years schedule \<noteq> 0"
  shows "calculate_emission_rate (t + half_life_years schedule) schedule =
    calculate_emission_rate t schedule / 2"
  using assms by (simp add: calculate_emission_rate_def add_divide_distrib powr_add)

lemma emission_rate_antimono:
  "0 < half_life_years s \<Longrightarrow> 0 \<le> initial_rate s \<Longrightarrow> t \<le> u \<Longrightarrow>
   calculate_emission_rate u s \<le> calculate_emission_rate t s"
  by (auto simp: calculate_emission_rate_def powr_def divide_right_mono intro!: mult_left_mono mult_right_mono_neg)

lemma project_months_bound:
  "units acc \<le> 10 ^ 18 \<Longrightarrow> units (project_months cs s m k acc) \<le> 10 ^ 18"
  by (induction cs s m k acc rule: project_months.induct) (simp_all add: Let_def units_sat_add)

section \<open>What an emission does\<close>

lemma add_transfer_event_metrics [simp]: "ts_metrics (add_transfer_event e s) = ts_metrics s"
  by (simp add: add_transfer_event_def Let_def)

lemma sp_credit_ok:
  "sp_credit a v L = (Inr (), L') \<Longrightarrow>
   units (l_balance L' a) = units (l_balance L a) + units v \<and>
   (\<forall>b. b \<noteq> a \<longrightarrow> l_balance L' b = l_balance L b)"
  by (auto simp: sp_credit_def amt_checked_add_Some_iff split: if_splits option.splits)

context economics_storage
begin

lemma on_ec_balances_implements:
  assumes "implements view f g" and "coherent view (ec_balances c)" and "on_ec_balances f c = (r, c')"
  shows "coherent view (ec_balances c') \<and> c' = c\<lparr>ec_balances := ec_balances c'\<rparr> \<and>
    g (ledger_of view (ec_balances c)) = (r, ledger_of view (ec_balances c'))"
proof -
  obtain m' where m': "f (ec_balances c) = (r, m')" "c' = c\<lparr>ec_balances := m'\<rparr>"
    using assms(3) by (auto simp: on_ec_balances_def split: prod.splits)
  from implementsD [OF assms(1,2) m'(1)] m'(2) show ?thesis by simp
qed

lemma mint_and_distribute_ok:
  assumes coh: "coherent view (ec_balances c)" and inv: "supply_inv (ec_supply c)"
    and run: "mint_and_distribute E now amount recipient ts c = (Inr a, c')"
  shows "a = amount \<and> coherent view (ec_balances c') \<and> supply_inv (ec_supply c') \<and>
    units (total_supply (ts_metrics (ec_supply c'))) = units (total_supply (ts_metrics (ec_supply c))) + units amount \<and>
    sp_credit recipient amount (ledger_of view (ec_balances c)) = (Inr (), ledger_of view (ec_balances c')) \<and>
    last_emission_timestamp (ec_schedule c') = ts"
proof -
  obtain r1 c1 where c1: "on_supply (mint_emission amount) c = (r1, c1)"
    by (cases "on_supply (mint_emission amount) c")
  have c1': "c1 = c\<lparr>ec_supply := snd (mint_emission amount (ec_supply c))\<rparr>" "r1 = fst (mint_emission amount (ec_supply c))"
    using c1 by (auto simp: on_supply_def split: prod.splits)
  obtain r2 c2 where c2: "on_ec_balances (credit E now recipient amount) c1 = (r2, c2)"
    by (cases "on_ec_balances (credit E now recipient amount) c1")
  have r1: "r1 = Inr ()"
    using run c1 by (cases r1) (auto simp: mint_and_distribute_def)
  have r2: "r2 = Inr ()"
    using run c1 r1 c2 by (cases r2) (auto simp: mint_and_distribute_def)
  have can: "can_mint amount (ec_supply c)"
    using r1 c1' by (metis is_ok_simps(1) mint_emission_ok_iff)
  note eff = mint_emission_effect [OF inv can]
  have coh1: "coherent view (ec_balances c1)" "ec_balances c1 = ec_balances c"
    using coh c1' by simp_all
  note 2 = on_ec_balances_implements [OF credit_implements coh1(1) c2]
  have sup2: "ec_supply c2 = ec_supply c1" using 2 by (metis emission_controller.select_convs(1)
        emission_controller.surjective emission_controller.update_convs(2))
  have c': "a = amount" "ec_balances c' = ec_balances c2"
      "last_emission_timestamp (ec_schedule c') = ts"
      "\<exists>e. ec_supply c' = add_transfer_event e (ec_supply c2)"
    using run c1 r1 c2 r2 by (auto simp: mint_and_distribute_def finish_emission_def record_event_def Let_def)
  then obtain e where e: "ec_supply c' = add_transfer_event e (ec_supply c2)" by blast
  have "ts_metrics (ec_supply c') = ts_metrics (ec_supply c2)" "supply_inv (ec_supply c')"
    using sup2 eff(3) c1'(1) by (simp_all add: e add_transfer_event_inv)
  then show ?thesis
    using c' 2 r2 coh1(2) sup2 eff(1) c1'(1) by simp
qed

lemma process_emission_ok:
  assumes coh: "coherent view (ec_balances c)" and inv: "supply_inv (ec_supply c)"
    and run: "process_emission E now recipient c = (Inr a, c')"
  shows "60 \<le> unix_secs now - last_emission_timestamp (ec_schedule c) \<and>
    last_emission_timestamp (ec_schedule c') = unix_secs now \<and>
    units (total_supply (ts_metrics (ec_supply c'))) = units (total_supply (ts_metrics (ec_supply c))) + units a \<and>
    sp_credit recipient a (ledger_of view (ec_balances c)) = (Inr (), ledger_of view (ec_balances c')) \<and>
    supply_inv (ec_supply c') \<and> coherent view (ec_balances c')"
proof -
  have "60 \<le> unix_secs now - last_emission_timestamp (ec_schedule c)"
    using run by (auto simp: process_emission_def Let_def split: if_splits)
  moreover obtain v where "mint_and_distribute E now v recipient (unix_secs now) c = (Inr a, c')"
    using run by (auto simp: process_emission_def Let_def split: if_splits)
  ultimately show ?thesis
    using mint_and_distribute_ok [OF coh inv] by blast
qed

end

text \<open>An emission that succeeds credits exactly what it mints: the total supply and the
  recipient's balance grow by the same amount and no other balance changes, at least 60 seconds have
  passed since the previous emission, and the supply stays accounted for and within its
  maximum.\<close>

theorem emission_credits_what_it_mints:
  assumes "coherent mem_view (ec_balances c)" and "supply_inv (ec_supply c)"
    and "process_emission (memory_ops keys) now recipient c = (Inr a, c')"
  shows "60 \<le> unix_secs now - last_emission_timestamp (ec_schedule c) \<and>
    last_emission_timestamp (ec_schedule c') = unix_secs now \<and>
    units (total_supply (ts_metrics (ec_supply c'))) = units (total_supply (ts_metrics (ec_supply c))) + units a \<and>
    units (l_balance (ledger_of mem_view (ec_balances c')) recipient) =
      units (l_balance (ledger_of mem_view (ec_balances c)) recipient) + units a \<and>
    (\<forall>b. b \<noteq> recipient \<longrightarrow> l_balance (ledger_of mem_view (ec_balances c')) b =
      l_balance (ledger_of mem_view (ec_balances c)) b) \<and>
    supply_inv (ec_supply c')"
proof -
  note ok = mem.process_emission_ok [OF assms]
  then show ?thesis by (auto dest: sp_credit_ok)
qed

section \<open>Concrete instances\<close>

lemma emission_rate_halves_witness:
  "calculate_emission_rate (0 + 6) (emission_schedule_default 0) = 1 / 100 / 2"
  using emission_rate_halves [of "emission_schedule_default 0" 0]
  by (simp add: emission_schedule_default_def calculate_emission_rate_def)

text \<open>The genesis supply and a rate at which 100 seconds emit five base units.\<close>

definition sample_emission :: "memory_storage emission_controller" where
  "sample_emission =
     \<lparr>ec_supply = token_supply_new\<lparr>ts_metrics := supply_metrics_default\<lparr>total_supply := GENESIS_SUPPLY\<rparr>\<rparr>,
      ec_balances = balance_manager_new memory_storage_new,
      ec_schedule = \<lparr>initial_rate = seconds_per_year * 5 / (300000000 * 100 * 1000000000), half_life_years = 6,
        start_timestamp = 100, last_emission_timestamp = 0\<rparr>,
      ec_metrics = \<lparr>em_total_emitted = ADIC_ZERO, em_last_emission = 0, em_current_rate = 0,
        em_years_elapsed = 0\<rparr>\<rparr>"

lemma sample_emission_amount:
  "calculate_emission_amount GENESIS_SUPPLY
     (calculate_emission_rate 0 (ec_schedule sample_emission)) 100 = AdicAmount 5"
proof -
  have "amt_to_adic GENESIS_SUPPLY = 300000000"
    by (simp add: amt_to_adic_def GENESIS_SUPPLY_def ADIC_BASE_UNIT_def)
  moreover have "seconds_per_year \<noteq> 0" by (simp add: seconds_per_year_def)
  ultimately show ?thesis
    by (simp add: calculate_emission_amount_def calculate_emission_rate_def sample_emission_def
        amt_from_adic_def f64_as_u64_def)
qed

lemma sample_emission_run:
  "\<exists>c'. process_emission (memory_ops (\<lambda>_. [])) 100000 (AccountAddress [1]) sample_emission = (Inr (AdicAmount 5), c')"
proof -
  have fields: "last_emission_timestamp (ec_schedule sample_emission) = 0"
      "start_timestamp (ec_schedule sample_emission) = 100"
      "total_supply (ts_metrics (ec_supply sample_emission)) = GENESIS_SUPPLY"
    by (simp_all add: sample_emission_def)
  have can: "can_mint (AdicAmount 5) (ec_supply sample_emission)"
    by (simp add: can_mint_iff fields units_GENESIS_SUPPLY units_MAX_SUPPLY)
  have "process_emission (memory_ops (\<lambda>_. [])) 100000 (AccountAddress [1]) sample_emission =
      mint_and_distribute (memory_ops (\<lambda>_. [])) 100000 (AdicAmount 5) (AccountAddress [1]) 100 sample_emission"
    using can sample_emission_amount by (simp add: process_emission_def Let_def unix_secs_def fields)
  moreover obtain s1 where "mint_emission (AdicAmount 5) (ec_supply sample_emission) = (Inr (), s1)"
    using can mint_emission_ok_iff [of "AdicAmount 5" "ec_supply sample_emission"]
    by (cases "mint_emission (AdicAmount 5) (ec_supply sample_emission)") (auto simp: is_ok_def split: sum.splits)
  moreover have "implements mem_view (credit (memory_ops (\<lambda>_. [])) 100000 (AccountAddress [1]) (AdicAmount 5))
      (sp_credit (AccountAddress [1]) (AdicAmount 5))"
    by (rule mem.credit_implements)
  moreover have "sp_credit (AccountAddress [1]) (AdicAmount 5) empty_ledger =
      (Inr (), empty_ledger\<lparr>l_balance := (\<lambda>_. ADIC_ZERO) (AccountAddress [1] := AdicAmount 5)\<rparr>)"
    by (simp add: sp_credit_def empty_ledger_def amt_checked_add_def checked_add_def amount_less_iff
        units_MAX_SUPPLY) (simp add: ADIC_ZERO_def)
  moreover have "coherent mem_view (balance_manager_new memory_storage_new)"
      "ledger_of mem_view (balance_manager_new memory_storage_new) = empty_ledger"
    by (rule coherent_new, rule mem_view_new) (simp add: ledger_of_def balance_manager_new_def mem_view_new)
  ultimately have "fst (credit (memory_ops (\<lambda>_. [])) 100000 (AccountAddress [1]) (AdicAmount 5)
      (balance_manager_new memory_storage_new)) = Inr ()"
    unfolding implements_def by (metis fst_conv)
  then obtain m1 where "credit (memory_ops (\<lambda>_. [])) 100000 (AccountAddress [1]) (AdicAmount 5)
      (balance_manager_new memory_storage_new) = (Inr (), m1)" by (metis prod.collapse)
  moreover have "ec_balances sample_emission = balance_manager_new memory_storage_new"
    by (simp add: sample_emission_def)
  ultimately show ?thesis
    using \<open>process_emission _ _ _ _ = _\<close> \<open>mint_emission _ _ = _\<close>
    by (simp add: mint_and_distribute_def on_supply_def on_ec_balances_def)
qed

lemma emission_credits_what_it_mints_witness:
  "\<exists>c'. process_emission (memory_ops (\<lambda>_. [])) 100000 (AccountAddress [1]) sample_emission = (Inr (AdicAmount 5), c') \<and>
     units (l_balance (ledger_of mem_view (ec_balances c')) (AccountAddress [1])) = 5"
proof -
  obtain c' where run: "process_emission (memory_ops (\<lambda>_. [])) 100000 (AccountAddress [1]) sample_emission =
      (Inr (AdicAmount 5), c')" using sample_emission_run by blast
  have "coherent mem_view (ec_balances sample_emission)"
    unfolding sample_emission_def emission_controller.simps by (rule coherent_new, rule mem_view_new)
  moreover have "supply_inv (ec_supply sample_emission)"
    by (simp add: supply_inv_def sample_emission_def token_supply_new_def supply_metrics_default_def
        units_GENESIS_SUPPLY units_MAX_SUPPLY)
  moreover have "l_balance (ledger_of mem_view (ec_balances sample_emission)) (AccountAddress [1]) = ADIC_ZERO"
    by (simp add: sample_emission_def ledger_of_def balance_manager_new_def mem_view_new empty_ledger_def)
  ultimately show ?thesis
    using emission_credits_what_it_mints [OF _ _ run] run by simp
qed

end
