(* ===== verification/Core_Types.thy ===== *)
theory Core_Types
  imports Padic_Types
begin

text \<open>
  The shared types of \<open>crates/adic-types/src\<close>: messages and their transfers, conflict sets,
  the protocol parameters and the error type. Message identifiers, public keys and signatures are
  byte vectors. The strings carried by \<open>AdicError\<close> are dropped; timestamps are milliseconds.
  \<open>compute_id\<close> and \<open>to_bytes\<close>, which rest on the \<open>serde\<close> serialisation of a
  message, are not modelled: the identifier is a field of the message.
\<close>

type_synonym message_id = bytes
type_synonym public_key = bytes
type_synonym signature = bytes

datatype adic_error =
    InvalidMessage | SignatureVerification | AdmissibilityFailed | ParentSelectionFailed
  | StorageError | NetworkError | FinalityFailed | Configuration | Serialization
  | InvalidParameter | ConsensusViolation | HomologyError

datatype conflict_id = ConflictId string

definition conflict_none :: conflict_id where
  "conflict_none = ConflictId ''''"

definition conflict_is_none :: "conflict_id \<Rightarrow> bool" where
  "conflict_is_none c = (case c of ConflictId s \<Rightarrow> s = '''')"

record value_transfer =
  vt_from :: bytes
  vt_to :: bytes
  vt_amount :: u64
  vt_nonce :: u64

definition transfer_is_valid :: "value_transfer \<Rightarrow> bool" where
  "transfer_is_valid t \<longleftrightarrow>
     0 < vt_amount t \<and> vt_from t \<noteq> vt_to t \<and> length (vt_from t) = 32 \<and> length (vt_to t) = 32"

definition transfer_to_bytes :: "value_transfer \<Rightarrow> bytes" where
  "transfer_to_bytes t = vt_from t @ vt_to t @ le_bytes (vt_amount t) @ le_bytes (vt_nonce t)"

record adic_meta =
  mt_timestamp :: i64
  mt_axes :: "string \<rightharpoonup> string"
  mt_conflict :: conflict_id

definition meta_new :: "i64 \<Rightarrow> adic_meta" where
  "meta_new timestamp = \<lparr>mt_timestamp = timestamp, mt_axes = Map.empty, mt_conflict = conflict_none\<rparr>"

definition with_conflict :: "conflict_id \<Rightarrow> adic_meta \<Rightarrow> adic_meta" where
  "with_conflict c m = m\<lparr>mt_conflict := c\<rparr>"

definition add_axis_tag :: "string \<Rightarrow> string \<Rightarrow> adic_meta \<Rightarrow> adic_meta" where
  "add_axis_tag k v m = m\<lparr>mt_axes := (mt_axes m)(k \<mapsto> v)\<rparr>"

record adic_message =
  am_id :: message_id
  am_parents :: "message_id list"
  am_features :: adic_features
  am_meta :: adic_meta
  am_proposer :: public_key
  am_signature :: signature
  am_transfer :: "value_transfer option"
  am_data :: bytes

definition has_value_transfer :: "adic_message \<Rightarrow> bool" where
  "has_value_transfer m \<longleftrightarrow> am_transfer m \<noteq> None"

definition parent_count :: "adic_message \<Rightarrow> nat" where
  "parent_count m = length (am_parents m)"

definition is_genesis :: "adic_message \<Rightarrow> bool" where
  "is_genesis m \<longleftrightarrow> am_parents m = []"

section \<open>Parameters\<close>

definition DEFAULT_P :: u32 where
  "DEFAULT_P = 3"

definition DEFAULT_PRECISION :: nat where
  "DEFAULT_PRECISION = 10"

record adic_params =
  prm_p :: u32
  prm_d :: u32
  prm_rho :: "u32 list"
  prm_q :: u32
  prm_k :: u32
  prm_depth_star :: u32
  prm_delta :: u32
  prm_deposit :: f64
  prm_r_min :: f64
  prm_r_sum_min :: f64
  prm_lambda :: f64
  prm_alpha :: f64
  prm_beta :: f64
  prm_mu :: f64
  prm_gamma :: f64

definition params_default :: adic_params where
  "params_default =
     \<lparr>prm_p = DEFAULT_P, prm_d = 3, prm_rho = [2, 2, 1], prm_q = 3, prm_k = 20, prm_depth_star = 12,
      prm_delta = 5, prm_deposit = 1 / 10, prm_r_min = 1, prm_r_sum_min = 4, prm_lambda = 1,
      prm_alpha = 1, prm_beta = 1, prm_mu = 1, prm_gamma = 9 / 10\<rparr>"

definition params_test :: adic_params where
  "params_test = params_default\<lparr>prm_k := 3, prm_depth_star := 2\<rparr>"

section \<open>The byte form of a transfer\<close>

lemma word_ext_bytes:
  fixes v w :: u64
  assumes "\<And>i. i < 8 \<Longrightarrow> (ucast (drop_bit (8 * i) v) :: byte) = ucast (drop_bit (8 * i) w)"
  shows "v = w"
proof (rule bit_word_eqI)
  fix n assume "n < LENGTH(64)"
  then have n: "n < 64" by simp
  have "bit (ucast (drop_bit (8 * (n div 8)) v) :: byte) (n mod 8) =
      bit (ucast (drop_bit (8 * (n div 8)) w) :: byte) (n mod 8)"
    using assms [of "n div 8"] n by simp
  then show "bit v n = bit w n"
    by (simp add: bit_ucast_iff bit_drop_bit_eq)
qed

lemma le_bytes_inj: "le_bytes v = le_bytes w \<Longrightarrow> v = w"
  by (rule word_ext_bytes) (simp add: le_bytes_def)

text \<open>\<open>to_bytes\<close> determines a transfer between accounts of the right length.\<close>

lemma transfer_to_bytes_inj:
  assumes "length (vt_from s) = 32" "length (vt_to s) = 32" "length (vt_from t) = 32" "length (vt_to t) = 32"
    and "transfer_to_bytes s = transfer_to_bytes t"
  shows "s = t"
  using assms by (cases s; cases t) (auto simp: transfer_to_bytes_def dest!: le_bytes_inj)

end
