(* ===== verification/Admissibility.thy ===== *)
theory Admissibility
  imports Core_Types Padic_Math
begin

text \<open>
  The admissibility rule of the DAG: the ultrametric validator of
  \<open>crates/adic-crypto/src/ultrametric_security.rs\<close> and the checker of
  \<open>crates/adic-consensus/src/admissibility.rs\<close>. The features of the parents are given as
  the code gives them: per parent the vector of its digit vectors, indexed by axis. \<open>blake3\<close>
  is a parameter. The difference \<open>radius as i32 - valuation as i32\<close> is the signed reading of
  the wrapped 32 bit difference; \<open>f64::INFINITY\<close>, the start of the minimum, is
  \<^term>\<open>None\<close>.
\<close>

type_synonym parent_features = "qp_digits list list"

section \<open>\<open>UltrametricValidator\<close>\<close>

fun verify_c1_loop :: "adic_message \<Rightarrow> parent_features \<Rightarrow> nat \<Rightarrow> u32 list \<Rightarrow> panic + (adic_error + bool)" where
  "verify_c1_loop message parents axis_idx [] = Inr (Inr True)"
| "verify_c1_loop message parents axis_idx (radius # rho) =
     (case get_axis (am_features message) (AxisId (of_nat axis_idx)) of
        None \<Rightarrow> Inr (Inl InvalidParameter)
      | Some msg_phi \<Rightarrow>
          (case vget parents axis_idx of
             None \<Rightarrow> Inr (Inl InvalidParameter)
           | Some pf \<Rightarrow>
               (case vget pf axis_idx of
                  None \<Rightarrow> Inr (Inl InvalidParameter)
                | Some parent_phi \<Rightarrow>
                    bindE (vp_diff (ap_digits msg_phi) parent_phi) (\<lambda>valuation.
                      if valuation < radius then Inr (Inr False)
                      else verify_c1_loop message parents (Suc axis_idx) rho))))"

definition verify_c1_ultrametric :: "adic_params \<Rightarrow> adic_message \<Rightarrow> parent_features \<Rightarrow>
    panic + (adic_error + bool)" where
  "verify_c1_ultrametric prm message parents = verify_c1_loop message parents 0 (prm_rho prm)"

text \<open>\<open>filter_map(|pf| pf.get(axis_idx).cloned())\<close>\<close>

definition axis_column :: "nat \<Rightarrow> parent_features \<Rightarrow> qp_digits list" where
  "axis_column axis_idx parents = List.map_filter (\<lambda>pf. vget pf axis_idx) parents"

fun verify_c2_loop :: "u32 \<Rightarrow> parent_features \<Rightarrow> nat \<Rightarrow> u32 list \<Rightarrow> nat list \<Rightarrow>
    adic_error + bool \<times> nat list" where
  "verify_c2_loop q parents axis_idx [] counts = Inr (True, counts)"
| "verify_c2_loop q parents axis_idx (radius # rho) counts =
     (let axis_features = axis_column axis_idx parents
      in if length axis_features \<noteq> length parents then Inl InvalidParameter
         else
           (let distinct_count = count_distinct_balls axis_features (unat radius);
                counts' = counts @ [distinct_count]
            in if distinct_count < unat q then Inr (False, counts')
               else verify_c2_loop q parents (Suc axis_idx) rho counts'))"

definition verify_c2_diversity :: "adic_params \<Rightarrow> parent_features \<Rightarrow> adic_error + bool \<times> nat list" where
  "verify_c2_diversity prm parents = verify_c2_loop (prm_q prm) parents 0 (prm_rho prm) []"

definition compute_ball_id :: "adic_features \<Rightarrow> axis_id \<Rightarrow> nat \<Rightarrow> bytes" where
  "compute_ball_id features axis radius =
     (case get_axis features axis of None \<Rightarrow> [] | Some phi \<Rightarrow> ball_id (ap_digits phi) radius)"

definition are_in_distinct_balls :: "adic_features \<Rightarrow> adic_features \<Rightarrow> axis_id \<Rightarrow> nat \<Rightarrow> bool" where
  "are_in_distinct_balls features1 features2 axis radius \<longleftrightarrow>
     compute_ball_id features1 axis radius \<noteq> compute_ball_id features2 axis radius"

fun validator_proximity_loop :: "u32 \<Rightarrow> adic_message \<Rightarrow> qp_digits list \<Rightarrow> nat \<Rightarrow> u32 list \<Rightarrow> f64 \<Rightarrow>
    panic + f64" where
  "validator_proximity_loop p message pf axis_idx [] score = Inr score"
| "validator_proximity_loop p message pf axis_idx (radius # rho) score =
     (case (get_axis (am_features message) (AxisId (of_nat axis_idx)), vget pf axis_idx) of
        (Some msg_phi, Some parent_phi) \<Rightarrow>
          bindE (vp_diff (ap_digits msg_phi) parent_phi) (\<lambda>valuation.
            validator_proximity_loop p message pf (Suc axis_idx) rho
              (score * (1 + real (unat p) powi sint (radius - valuation - 1))))
      | _ \<Rightarrow> validator_proximity_loop p message pf (Suc axis_idx) rho score)"

definition validator_proximity_score ::
    "adic_params \<Rightarrow> adic_message \<Rightarrow> qp_digits list \<Rightarrow> panic + f64" where
  "validator_proximity_score prm message pf =
     validator_proximity_loop (prm_p prm) message pf 0 (prm_rho prm) 1"

text \<open>The term of one parent on one axis, \<open>p ^ -max(0, radius - valuation)\<close>.\<close>

definition parent_term :: "u32 \<Rightarrow> u32 \<Rightarrow> u32 \<Rightarrow> f64" where
  "parent_term p radius valuation = real (unat p) powi (- max (sint (radius - valuation)) 0)"

fun min_term_loop :: "u32 \<Rightarrow> qp_digits \<Rightarrow> u32 \<Rightarrow> nat \<Rightarrow> parent_features \<Rightarrow> f64 option \<Rightarrow>
    panic + f64 option" where
  "min_term_loop p msg_phi radius axis_idx [] min_term = Inr min_term"
| "min_term_loop p msg_phi radius axis_idx (pf # pfs) min_term =
     (case vget pf axis_idx of
        None \<Rightarrow> min_term_loop p msg_phi radius axis_idx pfs min_term
      | Some parent_phi \<Rightarrow>
          bindE (vp_diff msg_phi parent_phi) (\<lambda>valuation.
            let tm = parent_term p radius valuation
            in min_term_loop p msg_phi radius axis_idx pfs
                 (case min_term of
                    None \<Rightarrow> Some tm
                  | Some m \<Rightarrow> (if tm < m then Some tm else Some m))))"

fun security_score_loop :: "u32 \<Rightarrow> adic_message \<Rightarrow> parent_features \<Rightarrow> nat \<Rightarrow> u32 list \<Rightarrow> f64 \<Rightarrow>
    panic + f64" where
  "security_score_loop p message parents axis_idx [] score = Inr score"
| "security_score_loop p message parents axis_idx (radius # rho) score =
     (case get_axis (am_features message) (AxisId (of_nat axis_idx)) of
        None \<Rightarrow> security_score_loop p message parents (Suc axis_idx) rho score
      | Some msg_phi \<Rightarrow>
          bindE (min_term_loop p (ap_digits msg_phi) radius axis_idx parents None) (\<lambda>min_term.
            case min_term of
              None \<Rightarrow> security_score_loop p message parents (Suc axis_idx) rho score
            | Some m \<Rightarrow> security_score_loop p message parents (Suc axis_idx) rho (score + m)))"

definition compute_security_score ::
    "adic_params \<Rightarrow> adic_message \<Rightarrow> parent_features \<Rightarrow> panic + f64" where
  "compute_security_score prm message parents =
     security_score_loop (prm_p prm) message parents 0 (prm_rho prm) 0"

record ball_membership_proof =
  bp_axis :: axis_id
  bp_radius :: nat
  bp_ball_id :: bytes
  bp_proof :: bytes

text \<open>\<open>u32::to_le_bytes\<close>\<close>

definition le_bytes_u32 :: "u32 \<Rightarrow> bytes" where
  "le_bytes_u32 w = map (\<lambda>i. ucast (drop_bit (8 * i) w)) [0..<4]"

definition ball_proof_input :: "adic_features \<Rightarrow> axis_id \<Rightarrow> nat \<Rightarrow> bytes" where
  "ball_proof_input features axis radius =
     (case get_axis features axis of None \<Rightarrow> [] | Some phi \<Rightarrow> qp_to_bytes (ap_digits phi)) @
     le_bytes_u32 (axis_index axis) @ le_bytes_u32 (of_nat radius) @ compute_ball_id features axis radius"

definition generate_ball_proof :: "(bytes \<Rightarrow> bytes) \<Rightarrow> adic_features \<Rightarrow> axis_id \<Rightarrow> nat \<Rightarrow>
    ball_membership_proof" where
  "generate_ball_proof blake3 features axis radius =
     \<lparr>bp_axis = axis, bp_radius = radius, bp_ball_id = compute_ball_id features axis radius,
      bp_proof = blake3 (ball_proof_input features axis radius)\<rparr>"

definition verify_ball_proof :: "(bytes \<Rightarrow> bytes) \<Rightarrow> adic_features \<Rightarrow> ball_membership_proof \<Rightarrow> bool" where
  "verify_ball_proof blake3 features pr \<longleftrightarrow>
     (let computed = generate_ball_proof blake3 features (bp_axis pr) (bp_radius pr)
      in bp_proof computed = bp_proof pr \<and> bp_ball_id computed = bp_ball_id pr)"

fun neighborhood_loop :: "adic_features list \<Rightarrow> nat \<Rightarrow> nat \<Rightarrow> u32 list \<Rightarrow> bool" where
  "neighborhood_loop feature_sets min_distinct axis_idx [] = True"
| "neighborhood_loop feature_sets min_distinct axis_idx (radius # rho) =
     (let unique_balls = foldl (\<lambda>u f. insert (compute_ball_id f (AxisId (of_nat axis_idx)) (unat radius)) u)
            {} feature_sets
      in if card unique_balls < min_distinct then False
         else neighborhood_loop feature_sets min_distinct (Suc axis_idx) rho)"

definition verify_neighborhood_coverage :: "adic_params \<Rightarrow> adic_features list \<Rightarrow> nat \<Rightarrow> bool" where
  "verify_neighborhood_coverage prm feature_sets min_distinct =
     neighborhood_loop feature_sets min_distinct 0 (prm_rho prm)"

section \<open>\<open>AdmissibilityChecker\<close>\<close>

record admissibility_result =
  ar_score :: f64
  ar_score_passed :: bool
  ar_c2_passed :: bool
  ar_c3_passed :: bool
  ar_is_admissible :: bool

definition admissibility_result_new :: "f64 \<Rightarrow> bool \<Rightarrow> bool \<Rightarrow> bool \<Rightarrow> admissibility_result" where
  "admissibility_result_new score score_passed c2 c3 =
     \<lparr>ar_score = score, ar_score_passed = score_passed, ar_c2_passed = c2, ar_c3_passed = c3,
      ar_is_admissible = (score_passed \<and> c2 \<and> c3)\<rparr>"

fun check_c2_loop :: "u32 \<Rightarrow> parent_features \<Rightarrow> nat \<Rightarrow> u32 list \<Rightarrow> bool" where
  "check_c2_loop q parents axis_idx [] = True"
| "check_c2_loop q parents axis_idx (radius # rho) =
     (let axis_features = axis_column axis_idx parents
      in if length axis_features \<noteq> length parents then False
         else if count_distinct_balls axis_features (unat radius) < unat q then False
         else check_c2_loop q parents (Suc axis_idx) rho)"

definition check_c2_diversity :: "adic_params \<Rightarrow> parent_features \<Rightarrow> bool" where
  "check_c2_diversity prm parents = check_c2_loop (prm_q prm) parents 0 (prm_rho prm)"

definition check_c3_reputation :: "adic_params \<Rightarrow> f64 list \<Rightarrow> bool" where
  "check_c3_reputation prm reputations =
     (let min_rep = (case reputations of [] \<Rightarrow> 0 | r # rs \<Rightarrow> foldl min r rs)
      in if min_rep < prm_r_min prm then False
         else \<not> sum_list reputations < prm_r_sum_min prm)"

fun admissibility_score_loop :: "u32 \<Rightarrow> adic_message \<Rightarrow> parent_features \<Rightarrow> nat \<Rightarrow> u32 list \<Rightarrow> f64 \<Rightarrow>
    panic + f64" where
  "admissibility_score_loop p message parents axis_idx [] score = Inr score"
| "admissibility_score_loop p message parents axis_idx (radius # rho) score =
     (case get_axis (am_features message) (AxisId (of_nat axis_idx)) of
        None \<Rightarrow> admissibility_score_loop p message parents (Suc axis_idx) rho score
      | Some msg_phi \<Rightarrow>
          bindE (min_term_loop p (ap_digits msg_phi) radius axis_idx parents None) (\<lambda>min_term.
            admissibility_score_loop p message parents (Suc axis_idx) rho
              (score + (case min_term of None \<Rightarrow> 0 | Some m \<Rightarrow> m))))"

definition compute_admissibility_score ::
    "adic_params \<Rightarrow> adic_message \<Rightarrow> parent_features \<Rightarrow> panic + f64" where
  "compute_admissibility_score prm message parents =
     admissibility_score_loop (prm_p prm) message parents 0 (prm_rho prm) 0"

text \<open>\<open>use_ultrametric\<close> is the flag of the checker, which always holds a validator when it is
  set. \<open>d + 1\<close> is a \<open>u32\<close> sum.\<close>

definition check_message :: "adic_params \<Rightarrow> bool \<Rightarrow> adic_message \<Rightarrow> parent_features \<Rightarrow> f64 list \<Rightarrow>
    panic + (adic_error + admissibility_result)" where
  "check_message prm use_ultrametric message parents reputations =
     (if length (am_parents message) \<noteq> unat (prm_d prm + 1) then Inr (Inl AdmissibilityFailed)
      else
        bindE
          (if use_ultrametric
           then bindE (compute_security_score prm message parents) (\<lambda>score.
                  Inr (score, case verify_c2_diversity prm parents of Inl _ \<Rightarrow> False | Inr (c2, _) \<Rightarrow> c2))
           else bindE (compute_admissibility_score prm message parents) (\<lambda>score.
                  Inr (score, check_c2_diversity prm parents)))
          (\<lambda>(score, c2).
            Inr (Inr (admissibility_result_new score (real (unat (prm_d prm)) \<le> score) c2
              (check_c3_reputation prm reputations)))))"

section \<open>The diversity and reputation checks\<close>

lemma map_filter_full:
  "length (List.map_filter f xs) = length xs \<longleftrightarrow> (\<forall>x\<in>set xs. f x \<noteq> None)"
proof (induction xs)
  case (Cons x xs)
  have "length (List.map_filter f xs) \<le> length xs"
    by (induction xs) (auto simp: List.map_filter_simps split: option.split)
  with Cons show ?case by (auto simp: List.map_filter_simps split: option.split)
qed (simp add: List.map_filter_simps)

lemma set_axis_column: "x \<in> set (axis_column j parents) \<longleftrightarrow> (\<exists>pf\<in>set parents. vget pf j = Some x)"
proof -
  have "x \<in> set (List.map_filter f xs) \<longleftrightarrow> (\<exists>y\<in>set xs. f y = Some x)" for f :: "'b \<Rightarrow> 'c option" and x xs
    by (induction xs) (auto simp: List.map_filter_simps split: option.split)
  then show ?thesis by (simp add: axis_column_def)
qed

text \<open>The diversity condition of one axis: every parent has the axis, and their digits lie in at
  least \<open>q\<close> different balls.\<close>

definition axis_diverse :: "u32 \<Rightarrow> parent_features \<Rightarrow> nat \<Rightarrow> u32 \<Rightarrow> bool" where
  "axis_diverse q parents j radius \<longleftrightarrow>
     (\<forall>pf\<in>set parents. vget pf j \<noteq> None) \<and>
     unat q \<le> card {ball_id x (unat radius) | x pf. pf \<in> set parents \<and> vget pf j = Some x}"

lemma ball_set_column:
  "ball_set (axis_column j parents) r = {ball_id x r | x pf. pf \<in> set parents \<and> vget pf j = Some x}"
  unfolding set_eq_iff image_iff Bex_def mem_Collect_eq set_axis_column by blast

lemma check_c2_loop_iff:
  "check_c2_loop q parents i rho \<longleftrightarrow> (\<forall>j<length rho. axis_diverse q parents (i + j) (rho ! j))"
proof (induction rho arbitrary: i)
  case Nil
  then show ?case by simp
next
  case (Cons radius rho)
  have "(\<forall>j<length (radius # rho). axis_diverse q parents (i + j) ((radius # rho) ! j)) \<longleftrightarrow>
      axis_diverse q parents i radius \<and> (\<forall>j<length rho. axis_diverse q parents (Suc i + j) (rho ! j))"
    by (auto simp: nth_Cons' All_less_Suc2 less_Suc_eq_0_disj)
  moreover have "axis_diverse q parents i radius \<longleftrightarrow>
      length (axis_column i parents) = length parents \<and>
      \<not> count_distinct_balls (axis_column i parents) (unat radius) < unat q"
    by (simp add: axis_diverse_def axis_column_def map_filter_full count_distinct_balls_card
        ball_set_column [unfolded axis_column_def] not_less)
  ultimately show ?case using Cons by (simp add: Let_def)
qed

lemma verify_c2_loop_check:
  "(case verify_c2_loop q parents i rho counts of Inl _ \<Rightarrow> False | Inr (c2, _) \<Rightarrow> c2) =
   check_c2_loop q parents i rho"
  by (induction rho arbitrary: i counts) (simp_all add: Let_def)

lemma foldl_min_le: "m \<le> foldl min x xs \<longleftrightarrow> m \<le> x \<and> (\<forall>y\<in>set xs. m \<le> y)" for m :: real
  by (induction xs arbitrary: x) auto

lemma foldl_min_less: "foldl min x xs < m \<longleftrightarrow> \<not> (m \<le> x \<and> (\<forall>y\<in>set xs. m \<le> y))" for m :: real
  by (simp only: foldl_min_le [symmetric] not_le)

lemma check_c3_iff:
  "reputations \<noteq> [] \<Longrightarrow> check_c3_reputation prm reputations \<longleftrightarrow>
     (\<forall>r\<in>set reputations. prm_r_min prm \<le> r) \<and> prm_r_sum_min prm \<le> sum_list reputations"
  by (cases reputations) (simp_all add: check_c3_reputation_def not_less Let_def foldl_min_less)

section \<open>The score\<close>

lemma security_score_loop_eq:
  "security_score_loop p message parents i rho score = admissibility_score_loop p message parents i rho score"
  by (induction rho arbitrary: i score) (auto simp: bindE_def split: option.split sum.split)

lemma compute_scores_agree:
  "compute_security_score prm message parents = compute_admissibility_score prm message parents"
  by (simp add: compute_security_score_def compute_admissibility_score_def security_score_loop_eq)

text \<open>The checker gives the same verdict, the same score and the same errors with and without
  the ultrametric validator.\<close>

theorem ultrametric_option_irrelevant:
  "check_message prm True message parents reputations = check_message prm False message parents reputations"
  by (simp add: check_message_def compute_scores_agree verify_c2_diversity_def check_c2_diversity_def
      verify_c2_loop_check)

lemma parent_term_le_1: "1 \<le> unat p \<Longrightarrow> parent_term p radius v \<le> 1"
proof -
  assume "1 \<le> unat p"
  then have "1 \<le> real (unat p)" by (metis of_nat_1 of_nat_le_iff)
  then have "real (unat p) powi (- max (sint (radius - v)) 0) \<le> real (unat p) powi 0"
    by (intro power_int_increasing) auto
  then show ?thesis by (simp only: parent_term_def power_int_0_right)
qed

lemma sint_diff_small:
  assumes "unat (a :: u32) < 2 ^ 31" "unat (b :: u32) < 2 ^ 31"
  shows "sint (a - b) = int (unat a) - int (unat b)"
proof -
  let ?d = "int (unat a) - int (unat b)"
  have "- (2 ^ 31) \<le> int x - int y \<and> int x - int y < 2 ^ 31"
    if "x < 2 ^ 31" "y < 2 ^ 31" for x y :: nat
    using that by simp
  from this [OF assms] have "- (2 ^ 31) \<le> ?d" "?d < 2 ^ 31" by blast+
  then have "signed_take_bit 31 ?d = ?d"
    by (intro signed_take_bit_int_eq_self)
  moreover have "sint (a - b) = signed_take_bit 31 (sint a - sint b)"
    by (simp add: sint_word_diff)
  ultimately show ?thesis
    using sint_unat_small [OF assms(1)] sint_unat_small [OF assms(2)] by simp
qed

section \<open>A full score\<close>

lemma parent_term_eq_1:
  assumes p: "1 < unat p" and full: "1 \<le> parent_term p radius v"
    and small: "unat radius < 2 ^ 31" "unat v < 2 ^ 31"
  shows "radius \<le> v"
proof (rule ccontr)
  assume "\<not> radius \<le> v"
  then have lt: "unat v < unat radius" by (simp add: word_le_nat_alt)
  then have pos: "0 < sint (radius - v)"
    using sint_diff_small [OF small] by (simp only: diff_gt_0_iff_gt of_nat_less_iff)
  have "1 < real (unat p)" using p by (metis of_nat_1 of_nat_less_iff)
  then have "real (unat p) powi (- sint (radius - v)) < real (unat p) powi 0"
    using pos by (intro power_int_strict_increasing) auto
  moreover have "max (sint (radius - v)) 0 = sint (radius - v)" using pos by simp
  ultimately have "parent_term p radius v < 1" by (simp only: parent_term_def power_int_0_right)
  with full show False by simp
qed

text \<open>The minimum is below the start value and below the term of every parent that has the axis, and
  it is one of the terms, so at most 1.\<close>

lemma min_term_loop_le:
  assumes "min_term_loop p msg radius i pfs acc = Inr m" and "1 \<le> unat p"
  shows "(\<forall>a. acc = Some a \<longrightarrow> (\<exists>b. m = Some b \<and> b \<le> a)) \<and>
    (\<forall>pf\<in>set pfs. \<forall>x. vget pf i = Some x \<longrightarrow>
       (\<exists>v b. vp_diff msg x = Inr v \<and> m = Some b \<and> b \<le> parent_term p radius v)) \<and>
    (\<forall>b. m = Some b \<longrightarrow> acc = Some b \<or> b \<le> 1)"
  using assms(1)
proof (induction pfs arbitrary: acc)
  case Nil
  then show ?case by simp
next
  case (Cons pf pfs)
  show ?case
  proof (cases "vget pf i")
    case None
    with Cons show ?thesis by simp
  next
    case (Some x)
    with Cons.prems obtain v where v: "vp_diff msg x = Inr v" and
      rest: "min_term_loop p msg radius i pfs (case acc of None \<Rightarrow> Some (parent_term p radius v)
        | Some a \<Rightarrow> if parent_term p radius v < a then Some (parent_term p radius v) else Some a) = Inr m"
      by (auto simp: bindE_Inr_iff Let_def)
    let ?t = "parent_term p radius v"
    have "\<exists>c. (case acc of None \<Rightarrow> Some ?t | Some a \<Rightarrow> if ?t < a then Some ?t else Some a) = Some c \<and>
        c \<le> ?t \<and> (\<forall>a. acc = Some a \<longrightarrow> c \<le> a) \<and> (acc = Some c \<or> c = ?t)"
      by (cases acc; cases "?t < the acc") auto
    then obtain c where c: "(case acc of None \<Rightarrow> Some ?t | Some a \<Rightarrow> if ?t < a then Some ?t else Some a) = Some c"
        "c \<le> ?t" "\<forall>a. acc = Some a \<longrightarrow> c \<le> a" "acc = Some c \<or> c = ?t"
      by blast
    note IH = Cons.IH [OF rest [unfolded c(1)]]
    then obtain b where b: "m = Some b" "b \<le> c" by auto
    have "acc = Some b \<or> b \<le> 1"
      using IH b c(4) parent_term_le_1 [OF assms(2), of radius v] by (metis option.inject)
    then show ?thesis
      using IH b c v Some by (auto intro: order_trans)
  qed
qed

lemma min_term_loop_None_le_1:
  assumes "min_term_loop p msg radius i pfs None = Inr m" and "1 \<le> unat p"
  shows "\<And>b. m = Some b \<Longrightarrow> b \<le> 1"
    and "\<And>pf x. pf \<in> set pfs \<Longrightarrow> vget pf i = Some x \<Longrightarrow>
      \<exists>v b. vp_diff msg x = Inr v \<and> m = Some b \<and> b \<le> parent_term p radius v"
  using min_term_loop_le [OF assms] by auto

lemma score_loop_full:
  assumes "1 \<le> unat p"
  shows "admissibility_score_loop p message parents i rho acc = Inr s \<Longrightarrow>
    s \<le> acc + real (length rho) \<and>
    (acc + real (length rho) \<le> s \<longrightarrow>
      (\<forall>j<length rho. \<exists>phi b. get_axis (am_features message) (AxisId (of_nat (i + j))) = Some phi \<and>
         min_term_loop p (ap_digits phi) (rho ! j) (i + j) parents None = Inr (Some b) \<and> 1 \<le> b))"
proof (induction rho arbitrary: i acc)
  case Nil
  then show ?case by simp
next
  case (Cons radius rho)
  show ?case
  proof (cases "get_axis (am_features message) (AxisId (of_nat i))")
    case None
    then have "admissibility_score_loop p message parents (Suc i) rho acc = Inr s"
      using Cons.prems by simp
    from Cons.IH [OF this] show ?thesis by auto
  next
    case (Some phi)
    with Cons.prems obtain m where m: "min_term_loop p (ap_digits phi) radius i parents None = Inr m"
      and rest: "admissibility_score_loop p message parents (Suc i) rho (acc + (case m of None \<Rightarrow> 0 | Some b \<Rightarrow> b)) = Inr s"
      by (auto simp: bindE_Inr_iff)
    let ?t = "case m of None \<Rightarrow> 0 | Some b \<Rightarrow> b"
    have t: "?t \<le> 1" using min_term_loop_None_le_1(1) [OF m assms] by (simp split: option.split)
    note IH = Cons.IH [OF rest]
    have full: "\<exists>b. m = Some b \<and> 1 \<le> b" if "acc + real (length (radius # rho)) \<le> s"
      using that IH t by (cases m) auto
    show ?thesis
    proof (intro conjI impI allI)
      show "s \<le> acc + real (length (radius # rho))" using IH t by simp
    next
      fix j assume le: "acc + real (length (radius # rho)) \<le> s" and j: "j < length (radius # rho)"
      from full [OF le] obtain b where b: "m = Some b" "1 \<le> b" by blast
      show "\<exists>phi b. get_axis (am_features message) (AxisId (of_nat (i + j))) = Some phi \<and>
         min_term_loop p (ap_digits phi) ((radius # rho) ! j) (i + j) parents None = Inr (Some b) \<and> 1 \<le> b"
      proof (cases j)
        case 0
        then show ?thesis using Some m b by simp
      next
        case (Suc j')
        have "acc + ?t + real (length rho) \<le> s" using le t by simp
        with IH Suc j show ?thesis by simp
      qed
    qed
  qed
qed

text \<open>A full score on an axis puts every parent in the message's ball.\<close>

lemma full_axis_one_ball:
  assumes p: "1 < unat p"
    and min: "min_term_loop p msg radius i parents None = Inr (Some b)" "1 \<le> b"
    and digits: "\<forall>pf\<in>set parents. \<forall>x. vget pf i = Some x \<longrightarrow>
        unat radius \<le> length (qd_digits x) \<and> length (qd_digits x) < 2 ^ 31"
    and msg: "length (qd_digits msg) < 2 ^ 31"
    and x: "pf \<in> set parents" "vget pf i = Some x" and y: "qf \<in> set parents" "vget qf i = Some y"
  shows "ball_id x (unat radius) = ball_id y (unat radius)"
proof -
  have agree: "agree (qd_digits msg) (qd_digits z) (unat radius)"
    if z: "rf \<in> set parents" "vget rf i = Some z" for rf z
  proof -
    have "1 \<le> unat p" using p by simp
    from min_term_loop_None_le_1(2) [OF min(1) this z] min(2)
    obtain v where v: "vp_diff msg z = Inr v" "1 \<le> parent_term p radius v" by auto
    have len: "unat radius \<le> length (qd_digits z)" "length (qd_digits z) < 2 ^ 31"
      using digits z by auto
    have vd: "vd_len msg z < 2 ^ 31" using len(2) msg by (simp add: vd_len_def)
    then have vd32: "vd_len msg z < 2 ^ 32" by simp
    have "unat v < 2 ^ 31" using vp_diff_le_len [OF v(1) vd32] vd by (rule order_le_less_trans)
    moreover have "unat radius < 2 ^ 31" using len by (rule order_le_less_trans)
    ultimately have "unat radius \<le> unat v"
      using parent_term_eq_1 [OF p v(2)] by (simp add: word_le_nat_alt)
    moreover have "unat radius \<le> vd_len msg z" using len(1) by (simp add: vd_len_def)
    ultimately show ?thesis using vp_diff_ge_iff [OF v(1) vd32] by blast
  qed
  have "agree (qd_digits x) (qd_digits y) (unat radius)"
    using agree [OF x] agree [OF y] by (meson agree_sym agree_trans)
  moreover have "unat radius \<le> length (qd_digits x)" "unat radius \<le> length (qd_digits y)"
    using digits x y by auto
  ultimately show ?thesis by (simp add: ball_id_eq_iff_agree)
qed

section \<open>The verdict\<close>

lemma check_message_flag:
  "check_message prm flag message parents reputations = check_message prm False message parents reputations"
  by (cases flag) (simp_all add: check_message_def compute_scores_agree verify_c2_diversity_def
      check_c2_diversity_def verify_c2_loop_check)

lemma check_message_effect:
  assumes "check_message prm flag message parents reputations = Inr (Inr r)"
  shows "length (am_parents message) = unat (prm_d prm + 1) \<and>
    compute_admissibility_score prm message parents = Inr (ar_score r) \<and>
    (ar_is_admissible r \<longleftrightarrow>
       real (unat (prm_d prm)) \<le> ar_score r \<and>
       (\<forall>j<length (prm_rho prm). axis_diverse (prm_q prm) parents j (prm_rho prm ! j)) \<and>
       check_c3_reputation prm reputations)"
proof -
  have run: "check_message prm False message parents reputations = Inr (Inr r)"
    using assms by (simp only: check_message_flag [of prm flag])
  obtain score where "length (am_parents message) = unat (prm_d prm + 1)"
    "compute_admissibility_score prm message parents = Inr score"
    "r = admissibility_result_new score (real (unat (prm_d prm)) \<le> score)
      (check_c2_loop (prm_q prm) parents 0 (prm_rho prm)) (check_c3_reputation prm reputations)"
    using run
    by (auto simp: check_message_def check_c2_diversity_def bindE_Inr_iff split: if_splits)
  then show ?thesis
    by (simp add: admissibility_result_new_def check_c2_loop_iff)
qed

text \<open>C15: The verdict of the checker, spelled out: the number of parents is \<open>d + 1\<close>, the score is
  at least \<open>d\<close>, on every axis each parent has digits and they fall into at least \<open>q\<close> balls,
  every parent's reputation is at least \<open>r_min\<close> and their sum at least \<open>r_sum_min\<close>.\<close>

theorem check_message_verdict:
  assumes "check_message prm flag message parents reputations = Inr (Inr r)" and "reputations \<noteq> []"
  shows "length (am_parents message) = unat (prm_d prm + 1) \<and>
    compute_admissibility_score prm message parents = Inr (ar_score r) \<and>
    (ar_is_admissible r \<longleftrightarrow>
       real (unat (prm_d prm)) \<le> ar_score r \<and>
       (\<forall>j<length (prm_rho prm). axis_diverse (prm_q prm) parents j (prm_rho prm ! j)) \<and>
       (\<forall>rep\<in>set reputations. prm_r_min prm \<le> rep) \<and> prm_r_sum_min prm \<le> sum_list reputations)"
  using check_message_effect [OF assms(1)] check_c3_iff [OF assms(2), of prm] by simp

text \<open>The score gate and the diversity rule exclude each other. When the parameters ask for at
  least two balls per axis and the threshold \<open>d\<close> is at least the number of axes, as the defaults
  do, no message whose parents have full-length digits is admissible: a score of \<open>d\<close> needs every
  parent in the message's own ball on every axis, which leaves one ball.\<close>

theorem score_gate_excludes_diversity:
  assumes run: "check_message prm flag message parents reputations = Inr (Inr r)"
    and prm: "1 < unat (prm_p prm)" "1 < unat (prm_q prm)" "prm_rho prm = radius # rho"
      "length (prm_rho prm) \<le> unat (prm_d prm)"
    and digits: "\<forall>pf\<in>set parents. \<forall>x. vget pf 0 = Some x \<longrightarrow>
        unat radius \<le> length (qd_digits x) \<and> length (qd_digits x) < 2 ^ 31"
    and msg: "\<forall>phi\<in>set (af_phi (am_features message)). length (qd_digits (ap_digits phi)) < 2 ^ 31"
  shows "\<not> ar_is_admissible r"
proof
  assume adm: "ar_is_admissible r"
  have verdict: "compute_admissibility_score prm message parents = Inr (ar_score r)"
      "real (unat (prm_d prm)) \<le> ar_score r" "axis_diverse (prm_q prm) parents 0 radius"
    using check_message_effect [OF run] adm prm(3) by auto
  have p1: "1 \<le> unat (prm_p prm)" using prm(1) by simp
  have "real (length (radius # rho)) \<le> ar_score r"
    using verdict(2) prm(3,4) by (metis of_nat_le_iff order_trans)
  then obtain phi b where phi: "get_axis (am_features message) (AxisId 0) = Some phi"
      "min_term_loop (prm_p prm) (ap_digits phi) radius 0 parents None = Inr (Some b)" "1 \<le> b"
    using score_loop_full [OF p1, of message parents 0 "radius # rho" 0 "ar_score r"] verdict(1) prm(3)
    by (auto simp: compute_admissibility_score_def)
  have "phi \<in> set (af_phi (am_features message))"
    using phi(1) by (auto simp: get_axis_def find_Some_iff)
  with msg have "length (qd_digits (ap_digits phi)) < 2 ^ 31" by blast
  note one = full_axis_one_ball [OF prm(1) phi(2,3) digits this]
  let ?balls = "{ball_id x (unat radius) | x pf. pf \<in> set parents \<and> vget pf 0 = Some x}"
  obtain B where "?balls \<subseteq> {B}"
  proof (cases "?balls = {}")
    case False
    then obtain B where "B \<in> ?balls" by blast
    then have "?balls \<subseteq> {B}" using one by auto
    then show ?thesis by (rule that)
  qed (auto intro: that)
  then have "card ?balls \<le> card {B}" by (intro card_mono) simp_all
  with verdict(3) prm(2) show False by (simp add: axis_diverse_def)
qed

section \<open>Ball membership proofs\<close>

definition axis_digits :: "adic_features \<Rightarrow> axis_id \<Rightarrow> bytes" where
  "axis_digits features axis =
     (case get_axis features axis of None \<Rightarrow> [] | Some phi \<Rightarrow> qd_digits (ap_digits phi))"

lemma compute_ball_id_digits: "compute_ball_id features axis radius = take radius (axis_digits features axis)"
  by (simp add: compute_ball_id_def axis_digits_def ball_id_def qp_ball_id_def split: option.split)

lemma ball_proof_input_digits:
  "ball_proof_input features axis radius =
     axis_digits features axis @ le_bytes_u32 (axis_index axis) @ le_bytes_u32 (of_nat radius) @
     take radius (axis_digits features axis)"
  by (simp add: ball_proof_input_def axis_digits_def compute_ball_id_digits qp_to_bytes_def split: option.split)

text \<open>A ball proof verifies against the features it was made from, and against other features
  exactly when they have the same digits on the axis, as long as \<open>blake3\<close> does not collide on the
  two inputs.\<close>

theorem ball_proof_verifies_iff:
  assumes "blake3 (ball_proof_input f axis radius) = blake3 (ball_proof_input g axis radius) \<Longrightarrow>
      ball_proof_input f axis radius = ball_proof_input g axis radius"
  shows "verify_ball_proof blake3 g (generate_ball_proof blake3 f axis radius) \<longleftrightarrow>
    axis_digits g axis = axis_digits f axis"
proof
  assume "verify_ball_proof blake3 g (generate_ball_proof blake3 f axis radius)"
  then have hash: "blake3 (ball_proof_input g axis radius) = blake3 (ball_proof_input f axis radius)"
    and ball: "take radius (axis_digits g axis) = take radius (axis_digits f axis)"
    by (simp_all add: verify_ball_proof_def generate_ball_proof_def compute_ball_id_digits Let_def)
  from assms [OF hash [symmetric]] ball show "axis_digits g axis = axis_digits f axis"
    by (simp add: ball_proof_input_digits)
next
  assume "axis_digits g axis = axis_digits f axis"
  then show "verify_ball_proof blake3 g (generate_ball_proof blake3 f axis radius)"
    by (simp add: verify_ball_proof_def generate_ball_proof_def compute_ball_id_digits
        ball_proof_input_digits Let_def)
qed

section \<open>Concrete instances\<close>

definition sample_point :: qp_digits where
  "sample_point = \<lparr>qd_digits = [1, 0], qd_p = 3\<rparr>"

definition sample_message :: adic_message where
  "sample_message =
     \<lparr>am_id = [], am_parents = [[1], [2], [3], [4]],
      am_features = \<lparr>af_phi = [axis_phi_new 0 sample_point, axis_phi_new 1 sample_point,
        axis_phi_new 2 sample_point]\<rparr>,
      am_meta = meta_new 0, am_proposer = [], am_signature = [], am_transfer = None, am_data = []\<rparr>"

abbreviation sample_parents :: parent_features where
  "sample_parents \<equiv> [[sample_point, sample_point, sample_point], [sample_point, sample_point, sample_point],
     [sample_point, sample_point, sample_point], [sample_point, sample_point, sample_point]]"

lemma sample_vp_diff [simp]: "vp_diff sample_point sample_point = Inr 2"
  by (simp add: vp_diff_def sample_point_def digit_at_def)

lemma sample_axes [simp]:
  "get_axis (am_features sample_message) (AxisId 0) = Some (axis_phi_new 0 sample_point)"
  "get_axis (am_features sample_message) (AxisId 1) = Some (axis_phi_new 1 sample_point)"
  "get_axis (am_features sample_message) (AxisId 2) = Some (axis_phi_new 2 sample_point)"
  by (simp_all add: get_axis_def sample_message_def axis_phi_new_def)

lemma sample_terms [simp]: "parent_term 3 2 2 = 1" "parent_term 3 1 2 = 1"
  by (simp_all add: parent_term_def)

lemma sample_check:
  "\<exists>r. check_message params_default True sample_message sample_parents [1, 1, 1, 1] = Inr (Inr r) \<and> ar_score r = 3"
proof -
  have "compute_admissibility_score params_default sample_message sample_parents = Inr 3"
    by (simp add: compute_admissibility_score_def params_default_def DEFAULT_P_def axis_phi_new_def
        Let_def)
  moreover have "length (am_parents sample_message) = unat (prm_d params_default + 1)"
    by (simp add: sample_message_def params_default_def)
  ultimately show ?thesis
    by (simp add: compute_scores_agree check_message_def admissibility_result_new_def)
qed

lemma check_message_verdict_witness:
  "\<exists>r. check_message params_default True sample_message sample_parents [1, 1, 1, 1] = Inr (Inr r) \<and>
     compute_admissibility_score params_default sample_message sample_parents = Inr (ar_score r)"
proof -
  obtain r where r: "check_message params_default True sample_message sample_parents [1, 1, 1, 1] = Inr (Inr r)"
    using sample_check by blast
  have "[1, 1, 1, 1 :: real] \<noteq> []" by simp
  from check_message_verdict [OF r this] r show ?thesis by blast
qed

lemma score_gate_excludes_diversity_witness:
  "\<exists>r. check_message params_default True sample_message sample_parents [1, 1, 1, 1] = Inr (Inr r) \<and>
     ar_score r = 3 \<and> \<not> ar_is_admissible r"
proof -
  obtain r where r: "check_message params_default True sample_message sample_parents [1, 1, 1, 1] = Inr (Inr r)"
      "ar_score r = 3"
    using sample_check by blast
  have "1 < unat (prm_p params_default)" "1 < unat (prm_q params_default)" "prm_rho params_default = 2 # [2, 1]"
      "length (prm_rho params_default) \<le> unat (prm_d params_default)"
    by (simp_all add: params_default_def DEFAULT_P_def)
  moreover have "\<forall>pf\<in>set sample_parents. \<forall>x. vget pf 0 = Some x \<longrightarrow>
      unat (2::u32) \<le> length (qd_digits x) \<and> length (qd_digits x) < 2 ^ 31"
    by (simp add: sample_point_def)
  moreover have "\<forall>phi\<in>set (af_phi (am_features sample_message)). length (qd_digits (ap_digits phi)) < 2 ^ 31"
    by (simp add: sample_message_def axis_phi_new_def sample_point_def)
  ultimately have "\<not> ar_is_admissible r"
    by (rule score_gate_excludes_diversity [OF r(1)])
  with r show ?thesis by blast
qed

lemma ball_proof_verifies_iff_witness:
  "\<not> verify_ball_proof id \<lparr>af_phi = [axis_phi_new 0 \<lparr>qd_digits = [2, 0], qd_p = 3\<rparr>]\<rparr>
     (generate_ball_proof id \<lparr>af_phi = [axis_phi_new 0 sample_point]\<rparr> (AxisId 0) 1)"
  using ball_proof_verifies_iff [of id "\<lparr>af_phi = [axis_phi_new 0 sample_point]\<rparr>" "AxisId 0" 1
      "\<lparr>af_phi = [axis_phi_new 0 \<lparr>qd_digits = [2, 0], qd_p = 3\<rparr>]\<rparr>"]
  by (simp add: axis_digits_def get_axis_def axis_phi_new_def sample_point_def)

end
