(* ===== verification/Deposit_Escrow.thy ===== *)
theory Deposit_Escrow
  imports Core_Types Balance
begin

text \<open>
  The two managers that put locks of the \<open>BalanceManager\<close> to use: the anti-spam deposits of
  \<open>crates/adic-consensus/src/deposit.rs\<close> and the application escrow of
  \<open>crates/adic-app-common/src/escrow.rs\<close>. The shared \<open>BalanceManager\<close> is part of each
  state, its errors are mapped as the code maps them. Metrics are omitted.
\<close>

section \<open>Deposits\<close>

datatype deposit_status = Escrowed | Refunded | Slashed

record deposit =
  dp_message_id :: message_id
  dp_proposer :: public_key
  dp_amount :: adic_amount
  dp_status :: deposit_status
  dp_timestamp :: i64

record 's deposit_manager =
  dm_amount :: adic_amount
  dm_deposits :: "message_id \<rightharpoonup> deposit"
  dm_balances :: "'s balance_manager option"

type_synonym ('s, 'a) deposit_op = "(adic_error, 's deposit_manager, 'a) rop"

definition deposit_manager_new :: "f64 \<Rightarrow> 's deposit_manager" where
  "deposit_manager_new amount = \<lparr>dm_amount = amt_from_adic amount, dm_deposits = Map.empty, dm_balances = None\<rparr>"

definition with_balance_manager :: "adic_amount \<Rightarrow> 's balance_manager \<Rightarrow> 's deposit_manager" where
  "with_balance_manager amount m = \<lparr>dm_amount = amount, dm_deposits = Map.empty, dm_balances = Some m\<rparr>"

definition update_deposit_amount :: "f64 \<Rightarrow> 's deposit_manager \<Rightarrow> 's deposit_manager" where
  "update_deposit_amount new_amount d = d\<lparr>dm_amount := amt_from_adic new_amount\<rparr>"

definition set_deposit_amount :: "adic_amount \<Rightarrow> 's deposit_manager \<Rightarrow> 's deposit_manager" where
  "set_deposit_amount amount d = d\<lparr>dm_amount := amount\<rparr>"

text \<open>A call of the balance manager; without one the step is skipped.\<close>

definition if_balances :: "('s, 'a) bal_op \<Rightarrow> ('s, unit) deposit_op" where
  "if_balances f d =
     (case dm_balances d of
        None \<Rightarrow> okR () d
      | Some m \<Rightarrow> (case f m of (r, m') \<Rightarrow> (map_sum (\<lambda>_. InvalidParameter) (\<lambda>_. ()) r, d\<lparr>dm_balances := Some m'\<rparr>)))"

definition require_unlocked :: "'s econ_ops \<Rightarrow> i64 \<Rightarrow> account_address \<Rightarrow> adic_amount \<Rightarrow> ('s, unit) bal_op" where
  "require_unlocked E now a amount =
     tryR (get_unlocked_balance E now a) (\<lambda>balance.
       if balance < amount then errR InsufficientBalance else okR ())"

definition put_deposit :: "message_id \<Rightarrow> deposit \<Rightarrow> 's deposit_manager \<Rightarrow> 's deposit_manager" where
  "put_deposit i x d = d\<lparr>dm_deposits := (dm_deposits d)(i \<mapsto> x)\<rparr>"

definition deposit_escrow :: "(bytes \<Rightarrow> bytes) \<Rightarrow> 's econ_ops \<Rightarrow> i64 \<Rightarrow> message_id \<Rightarrow> public_key \<Rightarrow>
    ('s, unit) deposit_op" where
  "deposit_escrow blake3 E now i proposer d =
     (let amount = dm_amount d; a = address_from_public_key blake3 proposer in
      tryR (if_balances (require_unlocked E now a amount)) (\<lambda>_.
      tryR (if_balances (lock E now a amount)) (\<lambda>_.
      modR (put_deposit i \<lparr>dp_message_id = i, dp_proposer = proposer, dp_amount = amount,
        dp_status = Escrowed, dp_timestamp = unix_secs now\<rparr>))) d)"

definition deposit_refund :: "(bytes \<Rightarrow> bytes) \<Rightarrow> 's econ_ops \<Rightarrow> message_id \<Rightarrow> ('s, unit) deposit_op" where
  "deposit_refund blake3 E i d =
     (case dm_deposits d i of
        None \<Rightarrow> errR InvalidParameter d
      | Some x \<Rightarrow>
          (if dp_status x \<noteq> Escrowed then errR InvalidParameter d
           else
             tryR (if_balances (unlock E (address_from_public_key blake3 (dp_proposer x)) (dp_amount x))) (\<lambda>_.
             modR (put_deposit i (x\<lparr>dp_status := Refunded\<rparr>))) d))"

definition deposit_slash :: "(bytes \<Rightarrow> bytes) \<Rightarrow> (bytes \<Rightarrow> string) \<Rightarrow> 's econ_ops \<Rightarrow> i64 \<Rightarrow> message_id \<Rightarrow>
    ('s, unit) deposit_op" where
  "deposit_slash blake3 hex E now i d =
     (case dm_deposits d i of
        None \<Rightarrow> errR InvalidParameter d
      | Some x \<Rightarrow>
          (if dp_status x \<noteq> Escrowed then errR InvalidParameter d
           else
             let a = address_from_public_key blake3 (dp_proposer x) in
             tryR (if_balances (unlock E a (dp_amount x))) (\<lambda>_.
             tryR (if_balances (transfer blake3 hex E now a treasury_address (dp_amount x))) (\<lambda>_.
             modR (put_deposit i (x\<lparr>dp_status := Slashed\<rparr>)))) d))"

definition deposit_get_state :: "'s deposit_manager \<Rightarrow> message_id \<Rightarrow> deposit_status option" where
  "deposit_get_state d i = map_option dp_status (dm_deposits d i)"

definition deposit_get_proposer :: "'s deposit_manager \<Rightarrow> message_id \<Rightarrow> public_key option" where
  "deposit_get_proposer d i = map_option dp_proposer (dm_deposits d i)"

definition get_escrowed_count :: "'s deposit_manager \<Rightarrow> nat" where
  "get_escrowed_count d = card {i. \<exists>x. dm_deposits d i = Some x \<and> dp_status x = Escrowed}"

definition cleanup_old_deposits :: "i64 \<Rightarrow> i64 \<Rightarrow> 's deposit_manager \<Rightarrow> 's deposit_manager" where
  "cleanup_old_deposits now older_than_days d =
     (let cutoff = unix_secs now - older_than_days * (24 * 3600)
      in d\<lparr>dm_deposits := (\<lambda>i. case dm_deposits d i of
             None \<Rightarrow> None
           | Some x \<Rightarrow> (if dp_status x \<noteq> Escrowed \<and> dp_timestamp x < cutoff then None else Some x))\<rparr>)"

section \<open>Escrow\<close>

text \<open>\<open>format!\<close> joins its parts; \<open>dec\<close> is the decimal form of a number, \<open>hex\<close> the
  encoder of the \<open>hex\<close> crate.\<close>

datatype escrow_type =
    StorageCollateral u64 account_address
  | StoragePayment u64 account_address
  | PoUWDeposit message_id account_address
  | TreasuryGrant message_id account_address
  | Custom string account_address

type_synonym lock_id = string

definition to_lock_id :: "(u64 \<Rightarrow> string) \<Rightarrow> (bytes \<Rightarrow> string) \<Rightarrow> escrow_type \<Rightarrow> lock_id" where
  "to_lock_id dec hex t =
     (case t of
        StorageCollateral deal_id provider \<Rightarrow>
          ''storage_collateral_'' @ dec deal_id @ ''_'' @ hex (take 8 (address_bytes provider))
      | StoragePayment deal_id client \<Rightarrow>
          ''storage_payment_'' @ dec deal_id @ ''_'' @ hex (take 8 (address_bytes client))
      | PoUWDeposit hook_id worker \<Rightarrow>
          ''pouw_deposit_'' @ hex hook_id @ ''_'' @ hex (take 8 (address_bytes worker))
      | TreasuryGrant proposal_id recipient \<Rightarrow>
          ''treasury_grant_'' @ hex proposal_id @ ''_'' @ hex (take 8 (address_bytes recipient))
      | Custom i owner \<Rightarrow> i)"

definition escrow_owner :: "escrow_type \<Rightarrow> account_address" where
  "escrow_owner t =
     (case t of
        StorageCollateral deal_id provider \<Rightarrow> provider
      | StoragePayment deal_id client \<Rightarrow> client
      | PoUWDeposit hook_id worker \<Rightarrow> worker
      | TreasuryGrant proposal_id recipient \<Rightarrow> recipient
      | Custom i owner \<Rightarrow> owner)"

record lock_metadata =
  lm_escrow_type :: escrow_type
  lm_amount :: adic_amount
  lm_locked_at_epoch :: u64
  lm_owner :: account_address

record 's escrow_manager =
  em_balances :: "'s balance_manager"
  em_locks :: "lock_id \<rightharpoonup> lock_metadata"

datatype app_error = EscrowError econ_error | LockNotFound

type_synonym ('s, 'a) escrow_op = "(app_error, 's escrow_manager, 'a) rop"

definition escrow_manager_new :: "'s balance_manager \<Rightarrow> 's escrow_manager" where
  "escrow_manager_new m = \<lparr>em_balances = m, em_locks = Map.empty\<rparr>"

definition on_mgr :: "('s, 'a) bal_op \<Rightarrow> ('s, 'a) escrow_op" where
  "on_mgr = lift_op em_balances (\<lambda>m e. e\<lparr>em_balances := m\<rparr>) EscrowError"

definition escrow_lock :: "(u64 \<Rightarrow> string) \<Rightarrow> (bytes \<Rightarrow> string) \<Rightarrow> 's econ_ops \<Rightarrow> i64 \<Rightarrow> escrow_type \<Rightarrow>
    adic_amount \<Rightarrow> u64 \<Rightarrow> ('s, lock_id) escrow_op" where
  "escrow_lock dec hex E now t amount current_epoch =
     (let i = to_lock_id dec hex t; owner = escrow_owner t in
      tryR (on_mgr (get_balance E now owner)) (\<lambda>balance_before.
      tryR (on_mgr (lock E now owner amount)) (\<lambda>_.
      tryR (on_mgr (get_locked_balance E owner)) (\<lambda>locked_after.
      tryR (modR (\<lambda>e. e\<lparr>em_locks := (em_locks e)(i \<mapsto> \<lparr>lm_escrow_type = t, lm_amount = amount,
        lm_locked_at_epoch = current_epoch, lm_owner = owner\<rparr>)\<rparr>)) (\<lambda>_.
      okR i)))))"

definition escrow_release :: "(bytes \<Rightarrow> bytes) \<Rightarrow> (bytes \<Rightarrow> string) \<Rightarrow> 's econ_ops \<Rightarrow> i64 \<Rightarrow> lock_id \<Rightarrow>
    account_address \<Rightarrow> ('s, unit) escrow_op" where
  "escrow_release blake3 hex E now i to e =
     (case em_locks e i of
        None \<Rightarrow> errR LockNotFound e
      | Some md \<Rightarrow>
          tryR (on_mgr (get_balance E now (lm_owner md))) (\<lambda>from_before.
          tryR (on_mgr (get_balance E now to)) (\<lambda>to_before.
          tryR (on_mgr (unlock E (lm_owner md) (lm_amount md))) (\<lambda>_.
          tryR (on_mgr (transfer blake3 hex E now (lm_owner md) to (lm_amount md))) (\<lambda>_.
          tryR (on_mgr (get_balance E now to)) (\<lambda>to_after.
          okR ()))))) e)"

definition escrow_slash :: "(bytes \<Rightarrow> bytes) \<Rightarrow> (bytes \<Rightarrow> string) \<Rightarrow> 's econ_ops \<Rightarrow> i64 \<Rightarrow> lock_id \<Rightarrow>
    account_address \<Rightarrow> ('s, unit) escrow_op" where
  "escrow_slash blake3 hex E now i treasury e =
     (case em_locks e i of
        None \<Rightarrow> errR LockNotFound e
      | Some md \<Rightarrow>
          tryR (on_mgr (get_balance E now treasury)) (\<lambda>treasury_before.
          tryR (on_mgr (unlock E (lm_owner md) (lm_amount md))) (\<lambda>_.
          tryR (on_mgr (transfer blake3 hex E now (lm_owner md) treasury (lm_amount md))) (\<lambda>_.
          tryR (on_mgr (get_balance E now treasury)) (\<lambda>treasury_after.
          okR ())))) e)"

definition escrow_refund :: "'s econ_ops \<Rightarrow> lock_id \<Rightarrow> ('s, unit) escrow_op" where
  "escrow_refund E i e =
     (case em_locks e i of
        None \<Rightarrow> errR LockNotFound e
      | Some md \<Rightarrow>
          tryR (on_mgr (get_locked_balance E (lm_owner md))) (\<lambda>locked_before.
          tryR (on_mgr (unlock E (lm_owner md) (lm_amount md))) (\<lambda>_.
          tryR (on_mgr (get_locked_balance E (lm_owner md))) (\<lambda>locked_after.
          okR ()))) e)"

definition get_lock :: "lock_id \<Rightarrow> ('s, lock_metadata) escrow_op" where
  "get_lock i e = (case em_locks e i of None \<Rightarrow> errR LockNotFound e | Some md \<Rightarrow> okR md e)"

definition lock_exists :: "'s escrow_manager \<Rightarrow> lock_id \<Rightarrow> bool" where
  "lock_exists e i \<longleftrightarrow> em_locks e i \<noteq> None"

definition remove_lock :: "lock_id \<Rightarrow> ('s, unit) escrow_op" where
  "remove_lock i e =
     (case em_locks e i of
        None \<Rightarrow> errR LockNotFound e
      | Some md \<Rightarrow> okR () (e\<lparr>em_locks := (em_locks e)(i := None)\<rparr>))"

section \<open>A deposit is settled at most once\<close>

datatype deposit_cmd =
    DoEscrow message_id public_key
  | DoRefund message_id
  | DoSlash message_id
  | DoCleanup i64
  | DoSetAmount adic_amount

fun deposit_exec :: "(bytes \<Rightarrow> bytes) \<Rightarrow> (bytes \<Rightarrow> string) \<Rightarrow> 's econ_ops \<Rightarrow> i64 \<times> deposit_cmd \<Rightarrow>
    's deposit_manager \<Rightarrow> 's deposit_manager" where
  "deposit_exec blake3 hex E (now, DoEscrow i pk) d = snd (deposit_escrow blake3 E now i pk d)"
| "deposit_exec blake3 hex E (now, DoRefund i) d = snd (deposit_refund blake3 E i d)"
| "deposit_exec blake3 hex E (now, DoSlash i) d = snd (deposit_slash blake3 hex E now i d)"
| "deposit_exec blake3 hex E (now, DoCleanup days) d = cleanup_old_deposits now days d"
| "deposit_exec blake3 hex E (now, DoSetAmount a) d = set_deposit_amount a d"

fun escrows :: "message_id \<Rightarrow> i64 \<times> deposit_cmd \<Rightarrow> bool" where
  "escrows i (now, DoEscrow j pk) = (i = j)"
| "escrows i _ = False"

lemma if_balances_deposits: "if_balances f d = (r, d') \<Longrightarrow> dm_deposits d' = dm_deposits d"
  by (auto simp: if_balances_def split: option.splits prod.splits)

lemma deposit_escrow_frame:
  "j \<noteq> i \<Longrightarrow> dm_deposits (snd (deposit_escrow blake3 E now j pk d)) i = dm_deposits d i"
  by (auto simp: deposit_escrow_def tryR_def put_deposit_def Let_def dest!: if_balances_deposits
      split: prod.splits sum.splits)

lemma deposit_refund_effect:
  "deposit_refund blake3 E i d = (r, d') \<Longrightarrow>
   (is_ok r \<longrightarrow> (\<exists>x. dm_deposits d i = Some x \<and> dp_status x = Escrowed \<and>
      dm_deposits d' = (dm_deposits d)(i \<mapsto> x\<lparr>dp_status := Refunded\<rparr>))) \<and>
   (\<not> is_ok r \<longrightarrow> dm_deposits d' = dm_deposits d)"
  by (auto simp: deposit_refund_def tryR_def put_deposit_def is_ok_def dest!: if_balances_deposits
      split: prod.splits sum.splits option.splits if_splits)

lemma deposit_slash_effect:
  "deposit_slash blake3 hex E now i d = (r, d') \<Longrightarrow>
   (is_ok r \<longrightarrow> (\<exists>x. dm_deposits d i = Some x \<and> dp_status x = Escrowed \<and>
      dm_deposits d' = (dm_deposits d)(i \<mapsto> x\<lparr>dp_status := Slashed\<rparr>))) \<and>
   (\<not> is_ok r \<longrightarrow> dm_deposits d' = dm_deposits d)"
  by (auto simp: deposit_slash_def tryR_def put_deposit_def is_ok_def Let_def dest!: if_balances_deposits
      split: prod.splits sum.splits option.splits if_splits)

lemma deposit_exec_settled:
  assumes "deposit_get_state d i \<noteq> Some Escrowed" and "\<not> escrows i c"
  shows "deposit_get_state (deposit_exec blake3 hex E c d) i \<noteq> Some Escrowed"
proof -
  obtain now cmd where c: "c = (now, cmd)" by (cases c)
  show ?thesis
  proof (cases cmd)
    case (DoEscrow j pk)
    with assms c deposit_escrow_frame [of j i blake3 E now pk d] show ?thesis by (simp add: deposit_get_state_def)
  next
    case (DoRefund j)
    with assms c deposit_refund_effect [of blake3 E j d] show ?thesis
      by (cases "deposit_refund blake3 E j d"; cases "is_ok (fst (deposit_refund blake3 E j d))")
        (auto simp: deposit_get_state_def split: if_split_asm)
  next
    case (DoSlash j)
    with assms c deposit_slash_effect [of blake3 hex E now j d] show ?thesis
      by (cases "deposit_slash blake3 hex E now j d"; cases "is_ok (fst (deposit_slash blake3 hex E now j d))")
        (auto simp: deposit_get_state_def split: if_split_asm)
  qed (use assms c in \<open>auto simp: deposit_get_state_def cleanup_old_deposits_def set_deposit_amount_def
      Let_def split: option.splits if_splits\<close>)
qed

lemma deposit_run_settled:
  assumes "deposit_get_state d i \<noteq> Some Escrowed" and "list_all (\<lambda>c. \<not> escrows i c) cs"
  shows "deposit_get_state (foldl (\<lambda>d c. deposit_exec blake3 hex E c d) d cs) i \<noteq> Some Escrowed"
  using assms by (induction cs arbitrary: d) (auto simp: deposit_exec_settled)

lemma not_escrowed_refused:
  "deposit_get_state d i \<noteq> Some Escrowed \<Longrightarrow>
   deposit_refund blake3 E i d = (Inl InvalidParameter, d) \<and>
   deposit_slash blake3 hex E now i d = (Inl InvalidParameter, d)"
  by (auto simp: deposit_get_state_def deposit_refund_def deposit_slash_def split: option.split)

text \<open>C13: A deposit is settled at most once: after a refund or a slash of a message's deposit has
  succeeded, no later refund or slash of it succeeds or changes anything, whatever commands ran in
  between, unless the message is escrowed again.\<close>

theorem deposit_settled_once:
  assumes "is_ok (fst (deposit_refund blake3 E i d)) \<and> d1 = snd (deposit_refund blake3 E i d) \<or>
      is_ok (fst (deposit_slash blake3 hex E now i d)) \<and> d1 = snd (deposit_slash blake3 hex E now i d)"
    and "list_all (\<lambda>c. \<not> escrows i c) cs"
  shows "let d2 = foldl (\<lambda>d c. deposit_exec blake3 hex E c d) d1 cs in
    deposit_refund blake3 E i d2 = (Inl InvalidParameter, d2) \<and>
    deposit_slash blake3 hex E now' i d2 = (Inl InvalidParameter, d2)"
proof -
  have "deposit_get_state d1 i \<noteq> Some Escrowed"
    using assms(1)
  proof
    assume "is_ok (fst (deposit_refund blake3 E i d)) \<and> d1 = snd (deposit_refund blake3 E i d)"
    then show ?thesis
      using deposit_refund_effect [of blake3 E i d "fst (deposit_refund blake3 E i d)" d1]
      by (auto simp: deposit_get_state_def)
  next
    assume "is_ok (fst (deposit_slash blake3 hex E now i d)) \<and> d1 = snd (deposit_slash blake3 hex E now i d)"
    then show ?thesis
      using deposit_slash_effect [of blake3 hex E now i d "fst (deposit_slash blake3 hex E now i d)" d1]
      by (auto simp: deposit_get_state_def)
  qed
  from not_escrowed_refused [OF deposit_run_settled [OF this assms(2)]] show ?thesis
    by (simp add: Let_def)
qed

section \<open>What a settlement does to the ledger\<close>

definition sp_unlock :: "account_address \<Rightarrow> adic_amount \<Rightarrow> ledger \<Rightarrow> ledger" where
  "sp_unlock a v L = L\<lparr>l_locked := (l_locked L)(a := amt_sat_sub (l_locked L a) v)\<rparr>"

context economics_storage
begin

lemma unlock_ok:
  assumes "coherent view m" and "unlock E a v m = (Inr u, m')"
  shows "coherent view m' \<and> v \<le> l_locked (ledger_of view m) a \<and>
    ledger_of view m' = sp_unlock a v (ledger_of view m)"
proof -
  have m': "m' = snd (unlock E a v m)" using assms(2) by simp
  obtain info where info: "bm_cache m a = Some info" "\<not> ai_locked info < v"
    using assms(2) by (auto simp: unlock_def split: option.splits if_splits)
  have "ai_locked info = l_locked (ledger_of view m) a"
    using coherent_entry [OF assms(1), of a] entry_simps(1) [OF info(1)] by (simp add: ledger_entry_def)
  with info show ?thesis
    using unlock_coherent(2,3) [OF assms(1), of a v] unfolding m' by (simp add: sp_unlock_def)
qed

lemma deposit_refund_ledger:
  assumes "dm_balances d = Some m" "coherent view m" "deposit_refund blake3 E i d = (Inr u, d')"
  shows "\<exists>x m'. dm_deposits d i = Some x \<and> dp_status x = Escrowed \<and> dm_balances d' = Some m' \<and>
    coherent view m' \<and>
    dp_amount x \<le> l_locked (ledger_of view m) (address_from_public_key blake3 (dp_proposer x)) \<and>
    ledger_of view m' = sp_unlock (address_from_public_key blake3 (dp_proposer x)) (dp_amount x) (ledger_of view m)"
proof -
  obtain x where x: "dm_deposits d i = Some x" "dp_status x = Escrowed"
    using assms(3) by (auto simp: deposit_refund_def split: option.splits if_splits)
  let ?a = "address_from_public_key blake3 (dp_proposer x)"
  obtain r m' where un: "unlock E ?a (dp_amount x) m = (r, m')" by (cases "unlock E ?a (dp_amount x) m")
  then obtain u' where r: "r = Inr u'" "dm_balances d' = Some m'"
    using assms(1,3) x by (cases r) (auto simp: deposit_refund_def if_balances_def tryR_def put_deposit_def)
  with unlock_ok [OF assms(2)] un x show ?thesis by blast
qed

lemma deposit_slash_ledger:
  assumes "dm_balances d = Some m" "coherent view m" "deposit_slash blake3 hex E now i d = (Inr u, d')"
  shows "\<exists>x m' h. dm_deposits d i = Some x \<and> dp_status x = Escrowed \<and> dm_balances d' = Some m' \<and>
    coherent view m' \<and>
    dp_amount x \<le> l_locked (ledger_of view m) (address_from_public_key blake3 (dp_proposer x)) \<and>
    sp_transfer blake3 hex now (address_from_public_key blake3 (dp_proposer x)) treasury_address (dp_amount x)
      (sp_unlock (address_from_public_key blake3 (dp_proposer x)) (dp_amount x) (ledger_of view m)) =
      (Inr h, ledger_of view m')"
proof -
  obtain x where x: "dm_deposits d i = Some x" "dp_status x = Escrowed"
    using assms(3) by (auto simp: deposit_slash_def split: option.splits if_splits)
  let ?a = "address_from_public_key blake3 (dp_proposer x)"
  obtain r m1 where un: "unlock E ?a (dp_amount x) m = (r, m1)" by (cases "unlock E ?a (dp_amount x) m")
  obtain q m' where tr: "transfer blake3 hex E now ?a treasury_address (dp_amount x) m1 = (q, m')"
    by (cases "transfer blake3 hex E now ?a treasury_address (dp_amount x) m1")
  obtain u' where r: "r = Inr u'"
    using assms(1,3) x un by (cases r) (auto simp: deposit_slash_def if_balances_def tryR_def Let_def)
  then obtain h where q: "q = Inr h" "dm_balances d' = Some m'"
    using assms(1,3) x un tr
    by (cases q) (auto simp: deposit_slash_def if_balances_def tryR_def Let_def put_deposit_def)
  note 1 = unlock_ok [OF assms(2) un [unfolded r]]
  have "implements view (transfer blake3 hex E now ?a treasury_address (dp_amount x))
      (sp_transfer blake3 hex now ?a treasury_address (dp_amount x))"
    by (simp add: transfer_def transfer_implements)
  from implementsD [OF this _ tr] 1 q x show ?thesis by auto
qed

end

text \<open>A refund gives the deposit back by unlocking it and changes no balance. A slash unlocks it and
  moves exactly the deposited amount from the proposer to the treasury. Either was covered by funds
  that were locked.\<close>

theorem deposit_settlement_effect:
  assumes "dm_balances d = Some m" and "coherent mem_view m"
  shows "(\<forall>d'. deposit_refund blake3 (memory_ops keys) i d = (Inr (), d') \<longrightarrow>
      (\<exists>x m'. dm_deposits d i = Some x \<and> dp_status x = Escrowed \<and> dm_balances d' = Some m' \<and> coherent mem_view m' \<and>
        dp_amount x \<le> l_locked (ledger_of mem_view m) (address_from_public_key blake3 (dp_proposer x)) \<and>
        ledger_of mem_view m' =
          sp_unlock (address_from_public_key blake3 (dp_proposer x)) (dp_amount x) (ledger_of mem_view m))) \<and>
    (\<forall>d'. deposit_slash blake3 hex (memory_ops keys) now i d = (Inr (), d') \<longrightarrow>
      (\<exists>x m' h. dm_deposits d i = Some x \<and> dp_status x = Escrowed \<and> dm_balances d' = Some m' \<and> coherent mem_view m' \<and>
        dp_amount x \<le> l_locked (ledger_of mem_view m) (address_from_public_key blake3 (dp_proposer x)) \<and>
        sp_transfer blake3 hex now (address_from_public_key blake3 (dp_proposer x)) treasury_address (dp_amount x)
          (sp_unlock (address_from_public_key blake3 (dp_proposer x)) (dp_amount x) (ledger_of mem_view m)) =
          (Inr h, ledger_of mem_view m')))"
  using mem.deposit_refund_ledger [OF assms] mem.deposit_slash_ledger [OF assms] by blast

section \<open>What an escrow release does\<close>

lemma on_mgr_apply: "f (em_balances e) = (r, m) \<Longrightarrow> on_mgr f e = (map_sum EscrowError id r, e\<lparr>em_balances := m\<rparr>)"
  by (simp add: on_mgr_def lift_op_def)

context economics_storage
begin

lemma unlock_cached:
  assumes "coherent view m" and "bm_cache m a \<noteq> None"
  shows "if l_locked (ledger_of view m) a < v then unlock E a v m = (Inl InsufficientLocked, m)
    else \<exists>m'. unlock E a v m = (Inr (), m') \<and> coherent view m' \<and> ledger_of view m' = sp_unlock a v (ledger_of view m)"
proof -
  obtain info where info: "bm_cache m a = Some info" using assms(2) by blast
  have l: "ai_locked info = l_locked (ledger_of view m) a"
    using coherent_entry [OF assms(1), of a] entry_simps(1) [OF info] by (simp add: ledger_entry_def)
  show ?thesis
  proof (cases "l_locked (ledger_of view m) a < v")
    case True
    with info l show ?thesis by (simp add: unlock_def)
  next
    case False
    then have "unlock E a v m = (Inr (), snd (unlock E a v m))"
      using info l by (simp add: unlock_def Let_def)
    with False unlock_ok [OF assms(1)] show ?thesis by metis
  qed
qed

lemma escrow_release_spec:
  assumes coh: "coherent view (em_balances e)" and lk: "em_locks e i = Some md"
  defines "L \<equiv> ledger_of view (em_balances e)"
  shows "em_locks (snd (escrow_release blake3 hex E now i to e)) = em_locks e \<and>
    coherent view (em_balances (snd (escrow_release blake3 hex E now i to e))) \<and>
    (if l_locked L (lm_owner md) < lm_amount md
     then fst (escrow_release blake3 hex E now i to e) = Inl (EscrowError InsufficientLocked) \<and>
       ledger_of view (em_balances (snd (escrow_release blake3 hex E now i to e))) = L
     else map_sum id (\<lambda>_. ()) (map_sum EscrowError id (fst (sp_transfer blake3 hex now (lm_owner md) to (lm_amount md)
           (sp_unlock (lm_owner md) (lm_amount md) L)))) = fst (escrow_release blake3 hex E now i to e) \<and>
       ledger_of view (em_balances (snd (escrow_release blake3 hex E now i to e))) =
         snd (sp_transfer blake3 hex now (lm_owner md) to (lm_amount md) (sp_unlock (lm_owner md) (lm_amount md) L)))"
proof -
  let ?a = "lm_owner md" and ?v = "lm_amount md"
  obtain m1 where m1: "Balance.get_balance E now ?a (em_balances e) = (Inr (l_balance L ?a), m1)"
      "entry m1 = entry (em_balances e)" "bm_storage m1 = bm_storage (em_balances e)" "bm_cache m1 ?a \<noteq> None"
    unfolding L_def by (rule get_balance_coherent [OF coh, of now ?a])
  have c1: "coherent view m1" "ledger_of view m1 = L"
    using m1 coh by (simp_all add: coherent_def ledger_of_def L_def)
  obtain m2 where m2: "Balance.get_balance E now to m1 = (Inr (l_balance L to), m2)"
      "entry m2 = entry m1" "bm_storage m2 = bm_storage m1"
    using get_balance_coherent [OF c1(1), of now to] unfolding c1(2) by metis
  have c2: "coherent view m2" "ledger_of view m2 = L"
    using m2 c1 by (simp_all add: coherent_def ledger_of_def)
  have cached: "bm_cache m2 ?a \<noteq> None"
    using m2(1) m1(4) by (cases "bm_cache m1 to") (auto simp: Balance.get_balance_def cache_insert_def)
  note un = unlock_cached [OF c2(1) cached, of ?v, unfolded c2(2)]
  show ?thesis
  proof (cases "l_locked L ?a < ?v")
    case True
    with un have "unlock E ?a ?v m2 = (Inl InsufficientLocked, m2)" by simp
    with True lk m1(1) m2(1) c2 show ?thesis
      by (simp add: escrow_release_def tryR_def on_mgr_apply)
  next
    case False
    with un obtain m3 where m3: "unlock E ?a ?v m2 = (Inr (), m3)" "coherent view m3"
        "ledger_of view m3 = sp_unlock ?a ?v L" by auto
    obtain q m4 where m4: "transfer blake3 hex E now ?a to ?v m3 = (q, m4)"
      by (cases "transfer blake3 hex E now ?a to ?v m3")
    have "implements view (transfer blake3 hex E now ?a to ?v) (sp_transfer blake3 hex now ?a to ?v)"
      by (simp add: transfer_def transfer_implements)
    from implementsD [OF this m3(2) m4]
    have c4: "coherent view m4" "sp_transfer blake3 hex now ?a to ?v (sp_unlock ?a ?v L) = (q, ledger_of view m4)"
      using m3(3) by simp_all
    show ?thesis
    proof (cases q)
      case (Inl er)
      with False lk m1(1) m2(1) m3(1) m4 c4 show ?thesis
        by (simp add: escrow_release_def tryR_def on_mgr_apply)
    next
      case (Inr h)
      obtain m5 where m5: "Balance.get_balance E now to m4 = (Inr (l_balance (ledger_of view m4) to), m5)"
          "entry m5 = entry m4" "bm_storage m5 = bm_storage m4"
        by (rule get_balance_coherent [OF c4(1), of now to])
      then have c5: "coherent view m5" "ledger_of view m5 = ledger_of view m4"
        using c4 by (simp_all add: coherent_def ledger_of_def)
      from Inr False lk m1(1) m2(1) m3(1) m4 c4 m5(1) c5 show ?thesis
        by (simp add: escrow_release_def tryR_def on_mgr_apply)
    qed
  qed
qed

end

text \<open>A release of a lock succeeds exactly when the owner still has the amount locked and the transfer
  to the recipient goes through; it unlocks the amount and transfers it. The lock itself stays on
  file, so a second release of the same lock is governed by the same condition on whatever other
  funds of the owner are locked.\<close>

theorem escrow_release_effect:
  assumes "coherent mem_view (em_balances e)" and "em_locks e i = Some md"
    and "L = ledger_of mem_view (em_balances e)"
    and "escrow_release blake3 hex (memory_ops keys) now i to e = (r, e')"
  shows "em_locks e' = em_locks e \<and> coherent mem_view (em_balances e') \<and>
    (is_ok r \<longleftrightarrow> lm_amount md \<le> l_locked L (lm_owner md) \<and>
       is_ok (fst (sp_transfer blake3 hex now (lm_owner md) to (lm_amount md)
         (sp_unlock (lm_owner md) (lm_amount md) L)))) \<and>
    (is_ok r \<longrightarrow> ledger_of mem_view (em_balances e') =
       snd (sp_transfer blake3 hex now (lm_owner md) to (lm_amount md) (sp_unlock (lm_owner md) (lm_amount md) L)))"
proof -
  note spec = mem.escrow_release_spec [OF assms(1,2), of blake3 hex keys now to, unfolded assms(4) fst_conv snd_conv,
      folded assms(3)]
  have ok: "is_ok (map_sum f g x) = is_ok x" for f :: "'e \<Rightarrow> 'f" and g :: "'b \<Rightarrow> 'c" and x
    by (cases x) simp_all
  show ?thesis
  proof (cases "l_locked L (lm_owner md) < lm_amount md")
    case True
    with spec show ?thesis by (auto simp: not_le)
  next
    case False
    with spec have r: "r = map_sum id (\<lambda>_. ()) (map_sum EscrowError id (fst (sp_transfer blake3 hex now (lm_owner md) to
        (lm_amount md) (sp_unlock (lm_owner md) (lm_amount md) L))))" by simp
    show ?thesis using spec False by (simp add: r ok not_less)
  qed
qed

section \<open>Concrete instances\<close>

abbreviation holder :: account_address where "holder \<equiv> AccountAddress [1]"
abbreviation holder_hash :: "bytes \<Rightarrow> bytes" where "holder_hash \<equiv> (\<lambda>_. [1])"

definition locked_info :: account_info where
  "locked_info = \<lparr>ai_address = holder, ai_balance = AdicAmount 5, ai_nonce = 0, ai_locked = AdicAmount 2,
     ai_last_activity = 0\<rparr>"

definition locked_balances :: "memory_storage balance_manager" where
  "locked_balances =
     \<lparr>bm_storage = memory_storage_new\<lparr>ms_balances := [holder \<mapsto> AdicAmount 5],
        ms_locked := [holder \<mapsto> AdicAmount 2]\<rparr>,
      bm_cache = [holder \<mapsto> locked_info], bm_events = [], bm_transfer_events = []\<rparr>"

lemma locked_coherent: "coherent mem_view locked_balances"
  by (auto simp: locked_balances_def coherent_def entry_def ledger_entry_def mem_view_def
      memory_storage_new_def get_or_def fun_eq_iff locked_info_def)

definition sample_deposits :: "memory_storage deposit_manager" where
  "sample_deposits =
     \<lparr>dm_amount = AdicAmount 2,
      dm_deposits = [[7] \<mapsto> \<lparr>dp_message_id = [7], dp_proposer = [9], dp_amount = AdicAmount 2,
        dp_status = Escrowed, dp_timestamp = 0\<rparr>],
      dm_balances = Some locked_balances\<rparr>"

lemma sample_refund:
  "\<exists>d'. deposit_refund holder_hash (memory_ops (\<lambda>_. [])) [7] sample_deposits = (Inr (), d')"
  by (simp add: deposit_refund_def sample_deposits_def if_balances_def unlock_def locked_balances_def
      address_from_public_key_def locked_info_def Let_def tryR_def)

lemma deposit_settled_once_witness:
  "let d1 = snd (deposit_refund holder_hash (memory_ops (\<lambda>_. [])) [7] sample_deposits) in
   deposit_refund holder_hash (memory_ops (\<lambda>_. [])) [7] d1 = (Inl InvalidParameter, d1)"
proof -
  let ?r = "deposit_refund holder_hash (memory_ops (\<lambda>_. [])) [7] sample_deposits"
  have ok: "is_ok (fst ?r) \<and> snd ?r = snd ?r \<or>
      is_ok (fst (deposit_slash holder_hash (\<lambda>_. ''h'') (memory_ops (\<lambda>_. [])) 0 [7] sample_deposits)) \<and>
      snd ?r = snd (deposit_slash holder_hash (\<lambda>_. ''h'') (memory_ops (\<lambda>_. [])) 0 [7] sample_deposits)"
    using sample_refund by auto
  have "list_all (\<lambda>c. \<not> escrows [7] c) []" by simp
  from deposit_settled_once [OF ok this] show ?thesis by (simp add: Let_def)
qed

lemma deposit_settlement_effect_witness:
  "\<exists>d' m'. deposit_refund holder_hash (memory_ops (\<lambda>_. [])) [7] sample_deposits = (Inr (), d') \<and>
     dm_balances d' = Some m' \<and>
     ledger_of mem_view m' = sp_unlock holder (AdicAmount 2) (ledger_of mem_view locked_balances)"
proof -
  obtain d' where d': "deposit_refund holder_hash (memory_ops (\<lambda>_. [])) [7] sample_deposits = (Inr (), d')"
    using sample_refund by blast
  have "dm_balances sample_deposits = Some locked_balances" by (simp add: sample_deposits_def)
  from deposit_settlement_effect [OF this locked_coherent, of holder_hash "\<lambda>_. []" "[7]"] d'
  obtain x m' where "dm_deposits sample_deposits [7] = Some x" "dm_balances d' = Some m'"
    "ledger_of mem_view m' =
      sp_unlock (address_from_public_key holder_hash (dp_proposer x)) (dp_amount x) (ledger_of mem_view locked_balances)"
    by blast
  with d' show ?thesis by (auto simp: sample_deposits_def address_from_public_key_def)
qed

definition sample_escrow :: "memory_storage escrow_manager" where
  "sample_escrow =
     \<lparr>em_balances = locked_balances,
      em_locks = [''k'' \<mapsto> \<lparr>lm_escrow_type = Custom ''k'' holder, lm_amount = AdicAmount 1,
        lm_locked_at_epoch = 0, lm_owner = holder\<rparr>]\<rparr>"

lemma sample_release_ok:
  assumes "l_balance L holder = AdicAmount b" "l_balance L (AccountAddress [3]) = AdicAmount c"
    and "1 \<le> b" "unat c + 1 < 2 ^ 64"
  shows "is_ok (fst (sp_transfer (\<lambda>_. []) (\<lambda>_. ''h'') 0 holder (AccountAddress [3]) (AdicAmount 1)
    (sp_unlock holder (AdicAmount 1) L)))"
proof -
  have "\<not> AdicAmount b < AdicAmount 1" using assms(3) by (auto simp: less_adic_amount_def)
  moreover have "AdicAmount 1 \<noteq> ADIC_ZERO" by (simp add: ADIC_ZERO_def)
  moreover have "amt_checked_add (AdicAmount c) (AdicAmount 1) = Some (AdicAmount (c + 1))"
    using assms(4) by (simp add: amt_checked_add_def checked_add_def)
  ultimately show ?thesis
    using assms(1,2) by (simp add: sp_transfer_def sp_move_def sp_unlock_def Let_def)
qed

text \<open>The lock of one unit is released twice, out of the two units the owner has locked.\<close>

lemma escrow_release_effect_witness:
  "let run = escrow_release (\<lambda>_. []) (\<lambda>_. ''h'') (memory_ops (\<lambda>_. [])) 0 ''k'' (AccountAddress [3])
   in is_ok (fst (run sample_escrow)) \<and> is_ok (fst (run (snd (run sample_escrow)))) \<and>
      lock_exists (snd (run (snd (run sample_escrow)))) ''k''"
proof -
  let ?run = "escrow_release (\<lambda>_. []) (\<lambda>_. ''h'') (memory_ops (\<lambda>_. [])) 0 ''k'' (AccountAddress [3])"
  let ?md = "\<lparr>lm_escrow_type = Custom ''k'' holder, lm_amount = AdicAmount 1, lm_locked_at_epoch = 0, lm_owner = holder\<rparr>"
  let ?sp = "\<lambda>L. sp_transfer (\<lambda>_. []) (\<lambda>_. ''h'') 0 holder (AccountAddress [3]) (AdicAmount 1) (sp_unlock holder (AdicAmount 1) L)"
  let ?L0 = "ledger_of mem_view locked_balances"
  have coh0: "coherent mem_view (em_balances sample_escrow)" "ledger_of mem_view (em_balances sample_escrow) = ?L0"
    and lk0: "em_locks sample_escrow ''k'' = Some ?md"
    using locked_coherent by (simp_all add: sample_escrow_def)
  have nz: "AdicAmount 1 \<noteq> ADIC_ZERO" by (simp add: ADIC_ZERO_def)
  have L0: "l_balance ?L0 holder = AdicAmount 5" "l_balance ?L0 (AccountAddress [3]) = ADIC_ZERO" "l_locked ?L0 holder = AdicAmount 2"
    by (simp_all add: locked_balances_def ledger_of_def mem_view_def get_or_def memory_storage_new_def)
  let ?L1 = "snd (?sp ?L0)"
  have ok0: "is_ok (fst (?sp ?L0))"
    by (rule sample_release_ok [of _ 5 0]) (simp_all add: L0 ADIC_ZERO_def)
  have L1: "l_balance ?L1 holder = AdicAmount 4" "l_balance ?L1 (AccountAddress [3]) = AdicAmount 1" "l_locked ?L1 holder = AdicAmount 1"
    using L0 nz by (simp_all add: sp_transfer_def sp_move_def sp_unlock_def sp_close_def Let_def amount_less_iff
        amt_checked_add_def checked_add_def ADIC_ZERO_def amt_sat_sub_def sat_sub_def)
  have ok1: "is_ok (fst (?sp ?L1))"
    by (rule sample_release_ok [of _ 4 1]) (simp_all only: L1, simp_all)
  obtain r e1 where run0: "?run sample_escrow = (r, e1)" by (cases "?run sample_escrow")
  note eff0 = escrow_release_effect [OF coh0(1) lk0 coh0(2) [symmetric] run0]
  have first: "is_ok r" "em_locks e1 = em_locks sample_escrow" "coherent mem_view (em_balances e1)"
      "ledger_of mem_view (em_balances e1) = ?L1"
    using eff0 ok0 L0 by (auto simp: amount_le_iff)
  obtain q e2 where run1: "?run e1 = (q, e2)" by (cases "?run e1")
  have lk1: "em_locks e1 ''k'' = Some ?md" using first(2) lk0 by simp
  note eff1 = escrow_release_effect [OF first(3) lk1 first(4) [symmetric] run1]
  have "is_ok q" "em_locks e2 = em_locks e1"
    using eff1 ok1 L1 by (auto simp: amount_le_iff)
  with first(1) run0 run1 lk1 show ?thesis by (simp add: Let_def lock_exists_def)
qed

end
