(* ===== verification/Reputation.thy ===== *)
theory Reputation
  imports Core_Types
begin

text \<open>
  \<open>ReputationTracker\<close> (\<open>crates/adic-consensus/src/reputation.rs\<close>): the score of
  every key, raised when its messages are finalized, lowered when they are slashed, lowered further
  when its approvals overlap with those of its peers, and decayed with time. \<open>HashMap\<close>s are
  maps; the event callback is the list of the events handed to it; \<open>now\<close> is the clock in
  milliseconds; scores are exact reals.
\<close>

section \<open>State\<close>

record reputation_change_event =
  re_validator :: public_key
  re_old :: f64
  re_new :: f64

record reputation_score =
  rs_value :: f64
  rs_finalized :: u64
  rs_pending :: u64
  rs_last_update :: i64
  rs_is_transferable :: bool
  rs_issue_timestamp :: i64
  rs_issuer :: "public_key option"
  rs_bound_to :: public_key

definition reputation_score_new :: "i64 \<Rightarrow> reputation_score" where
  "reputation_score_new now =
     \<lparr>rs_value = 1, rs_finalized = 0, rs_pending = 0, rs_last_update = unix_secs now,
      rs_is_transferable = False, rs_issue_timestamp = unix_secs now, rs_issuer = None,
      rs_bound_to = replicate 32 0\<rparr>"

definition new_sbt :: "i64 \<Rightarrow> public_key \<Rightarrow> public_key option \<Rightarrow> reputation_score" where
  "new_sbt now bound_to issuer =
     \<lparr>rs_value = 1, rs_finalized = 0, rs_pending = 0, rs_last_update = unix_secs now,
      rs_is_transferable = False, rs_issue_timestamp = unix_secs now, rs_issuer = issuer,
      rs_bound_to = bound_to\<rparr>"

definition trust_score :: "reputation_score \<Rightarrow> f64" where
  "trust_score s = ln (1 + rs_value s)"

text \<open>\<open>can_transfer\<close> answers \<open>Err\<close> for every score.\<close>

definition can_transfer :: "reputation_score \<Rightarrow> public_key + unit" where
  "can_transfer s = Inl (rs_bound_to s)"

record reputation_tracker =
  rt_scores :: "public_key \<rightharpoonup> reputation_score"
  rt_decay_factor :: f64
  rt_gamma :: f64
  rt_approvals :: "public_key \<rightharpoonup> message_id list"
  rt_events :: "reputation_change_event list"

definition reputation_tracker_new :: "f64 \<Rightarrow> reputation_tracker" where
  "reputation_tracker_new gamma =
     \<lparr>rt_scores = Map.empty, rt_decay_factor = 99 / 100, rt_gamma = gamma, rt_approvals = Map.empty,
      rt_events = []\<rparr>"

section \<open>Operations\<close>

definition update_gamma :: "f64 \<Rightarrow> reputation_tracker \<Rightarrow> reputation_tracker" where
  "update_gamma new_gamma t = t\<lparr>rt_gamma := new_gamma\<rparr>"

definition emit_reputation_event :: "reputation_change_event \<Rightarrow> reputation_tracker \<Rightarrow> reputation_tracker" where
  "emit_reputation_event ev t = t\<lparr>rt_events := rt_events t @ [ev]\<rparr>"

definition get_reputation :: "reputation_tracker \<Rightarrow> public_key \<Rightarrow> f64" where
  "get_reputation t pk = (case rt_scores t pk of None \<Rightarrow> 1 | Some s \<Rightarrow> rs_value s)"

definition get_trust_score :: "reputation_tracker \<Rightarrow> public_key \<Rightarrow> f64" where
  "get_trust_score t pk = (case rt_scores t pk of None \<Rightarrow> 0 | Some s \<Rightarrow> trust_score s)"

text \<open>\<open>scores.entry(pk).or_insert_with(ReputationScore::new)\<close>\<close>

definition score_entry :: "i64 \<Rightarrow> public_key \<Rightarrow> reputation_tracker \<Rightarrow> reputation_score" where
  "score_entry now pk t = (case rt_scores t pk of None \<Rightarrow> reputation_score_new now | Some s \<Rightarrow> s)"

definition put_score :: "public_key \<Rightarrow> reputation_score \<Rightarrow> reputation_tracker \<Rightarrow> reputation_tracker" where
  "put_score pk s t = t\<lparr>rt_scores := (rt_scores t)(pk \<mapsto> s)\<rparr>"

definition good_update :: "i64 \<Rightarrow> public_key \<Rightarrow> f64 \<Rightarrow> u32 \<Rightarrow> reputation_tracker \<Rightarrow> reputation_tracker" where
  "good_update now pk diversity depth t =
     (let gamma = rt_gamma t;
          score = score_entry now pk t;
          good_score = 1 + diversity / (1 + real (unat depth));
          old_rep = rs_value score;
          new_rep = min (gamma * old_rep + (1 - gamma) * good_score) 10
      in emit_reputation_event \<lparr>re_validator = pk, re_old = old_rep, re_new = new_rep\<rparr>
           (put_score pk (score\<lparr>rs_value := new_rep, rs_finalized := rs_finalized score + 1,
              rs_last_update := unix_secs now\<rparr>) t))"

definition bad_update :: "i64 \<Rightarrow> public_key \<Rightarrow> f64 \<Rightarrow> reputation_tracker \<Rightarrow> reputation_tracker" where
  "bad_update now pk penalty t =
     (let gamma = rt_gamma t;
          score = score_entry now pk t;
          old_rep = rs_value score;
          new_rep = max (gamma * old_rep + (1 - gamma) * (- penalty)) (1 / 10)
      in emit_reputation_event \<lparr>re_validator = pk, re_old = old_rep, re_new = new_rep\<rparr>
           (put_score pk (score\<lparr>rs_value := new_rep, rs_last_update := unix_secs now\<rparr>) t))"

text \<open>The loop over the other keys. \<open>union\<close> does not underflow, since the intersection
  is counted over the approvals of the key itself.\<close>

definition overlap_of :: "message_id list \<Rightarrow> message_id list \<Rightarrow> f64 \<Rightarrow> f64" where
  "overlap_of my_approvals other_approvals max_overlap =
     (let intersection = length (filter (\<lambda>msg. msg \<in> set other_approvals) my_approvals);
          union = length my_approvals + length other_approvals - intersection
      in if 0 < union then max max_overlap (real intersection / real union) else max_overlap)"

primrec overlap_loop :: "(public_key \<rightharpoonup> message_id list) \<Rightarrow> public_key \<Rightarrow> message_id list \<Rightarrow> public_key list \<Rightarrow>
    f64 \<Rightarrow> f64" where
  "overlap_loop history pk my_approvals [] max_overlap = max_overlap"
| "overlap_loop history pk my_approvals (other_key # others) max_overlap =
     overlap_loop history pk my_approvals others
       (if other_key = pk then max_overlap
        else (case history other_key of
                None \<Rightarrow> max_overlap
              | Some other_approvals \<Rightarrow> overlap_of my_approvals other_approvals max_overlap))"

definition calculate_overlap_score :: "reputation_tracker \<Rightarrow> public_key \<Rightarrow> public_key list \<Rightarrow> f64" where
  "calculate_overlap_score t pk other_keys =
     (case rt_approvals t pk of
        None \<Rightarrow> 0
      | Some my_approvals \<Rightarrow>
          (if my_approvals = [] then 0 else overlap_loop (rt_approvals t) pk my_approvals other_keys 0))"

definition update_reputation :: "i64 \<Rightarrow> public_key \<Rightarrow> nat \<Rightarrow> f64 \<Rightarrow> u32 \<Rightarrow> public_key list \<Rightarrow>
    reputation_tracker \<Rightarrow> reputation_tracker" where
  "update_reputation now pk finalized_count diversity depth active_peers t =
     (let good = (if 0 < finalized_count
            then real finalized_count * (1 + diversity / (1 + real (unat depth))) else 0);
          eta = 1 / 2;
          overlap_score = calculate_overlap_score t pk active_peers;
          bad = eta * overlap_score;
          gamma = rt_gamma t;
          score = score_entry now pk t;
          old_rep = rs_value score;
          new_rep = gamma * old_rep + (1 - gamma) * (good - bad);
          value = min (max new_rep (1 / 10)) 10
      in emit_reputation_event \<lparr>re_validator = pk, re_old = old_rep, re_new = value\<rparr>
           (put_score pk (score\<lparr>rs_value := value, rs_finalized := rs_finalized score + of_nat finalized_count,
              rs_last_update := unix_secs now\<rparr>) t))"

definition record_approval :: "public_key \<Rightarrow> message_id \<Rightarrow> reputation_tracker \<Rightarrow> reputation_tracker" where
  "record_approval pk message_id t =
     (let approvals = (case rt_approvals t pk of None \<Rightarrow> [] | Some xs \<Rightarrow> xs);
          recent = (if 100 \<le> length approvals then tl approvals else approvals)
      in t\<lparr>rt_approvals := (rt_approvals t)(pk \<mapsto> recent @ [message_id])\<rparr>)"

definition decay_score :: "f64 \<Rightarrow> i64 \<Rightarrow> reputation_score \<Rightarrow> reputation_score" where
  "decay_score decay_factor now_secs s =
     (let time_diff = real_of_int (now_secs - rs_last_update s) / 86400
      in if 0 < time_diff
         then s\<lparr>rs_value := max (rs_value s * decay_factor powr time_diff) (1 / 10), rs_last_update := now_secs\<rparr>
         else s)"

definition apply_decay :: "i64 \<Rightarrow> reputation_tracker \<Rightarrow> reputation_tracker" where
  "apply_decay now t =
     t\<lparr>rt_scores := (\<lambda>pk. map_option (decay_score (rt_decay_factor t) (unix_secs now)) (rt_scores t pk))\<rparr>"

definition set_reputation :: "i64 \<Rightarrow> public_key \<Rightarrow> f64 \<Rightarrow> reputation_tracker \<Rightarrow> reputation_tracker" where
  "set_reputation now pk value t =
     put_score pk ((score_entry now pk t)\<lparr>rs_value := value, rs_last_update := unix_secs now\<rparr>) t"

section \<open>Runs\<close>

datatype reputation_cmd =
    Good i64 public_key f64 u32
  | Bad i64 public_key f64
  | Overall i64 public_key nat f64 u32 "public_key list"
  | Approval public_key message_id
  | Decay i64
  | Gamma f64

fun reputation_exec :: "reputation_tracker \<Rightarrow> reputation_cmd \<Rightarrow> reputation_tracker" where
  "reputation_exec t (Good now pk diversity depth) = good_update now pk diversity depth t"
| "reputation_exec t (Bad now pk penalty) = bad_update now pk penalty t"
| "reputation_exec t (Overall now pk n diversity depth peers) = update_reputation now pk n diversity depth peers t"
| "reputation_exec t (Approval pk i) = record_approval pk i t"
| "reputation_exec t (Decay now) = apply_decay now t"
| "reputation_exec t (Gamma g) = update_gamma g t"

text \<open>The arguments the callers pass: diversities and penalties are not negative, \<open>\<gamma>\<close> is a
  weight.\<close>

fun sane_cmd :: "reputation_cmd \<Rightarrow> bool" where
  "sane_cmd (Good now pk diversity depth) \<longleftrightarrow> 0 \<le> diversity"
| "sane_cmd (Bad now pk penalty) \<longleftrightarrow> 0 \<le> penalty"
| "sane_cmd (Gamma g) \<longleftrightarrow> 0 \<le> g \<and> g \<le> 1"
| "sane_cmd _ \<longleftrightarrow> True"

definition scores_bounded :: "reputation_tracker \<Rightarrow> bool" where
  "scores_bounded t \<longleftrightarrow>
     (\<forall>pk s. rt_scores t pk = Some s \<longrightarrow> 1 / 10 \<le> rs_value s \<and> rs_value s \<le> 10) \<and>
     (\<forall>pk xs. rt_approvals t pk = Some xs \<longrightarrow> length xs \<le> 100) \<and>
     0 \<le> rt_gamma t \<and> rt_gamma t \<le> 1 \<and> 0 \<le> rt_decay_factor t \<and> rt_decay_factor t \<le> 1"

lemma convex_bounds:
  fixes g x y :: real
  assumes "0 \<le> g" "g \<le> 1" "l \<le> x" "l \<le> y"
  shows "l \<le> g * x + (1 - g) * y"
proof -
  have "g * l + (1 - g) * l \<le> g * x + (1 - g) * y"
    using assms by (intro add_mono mult_left_mono) auto
  then show ?thesis by (simp add: algebra_simps)
qed

lemma score_entry_bounded:
  "scores_bounded t \<Longrightarrow> 1 / 10 \<le> rs_value (score_entry now pk t) \<and> rs_value (score_entry now pk t) \<le> 10"
  by (auto simp: scores_bounded_def score_entry_def reputation_score_new_def split: option.splits)

lemma put_score_bounded:
  assumes "scores_bounded t" and "1 / 10 \<le> rs_value s" and "rs_value s \<le> 10"
  shows "scores_bounded (emit_reputation_event ev (put_score pk s t))"
  using assms by (auto simp: scores_bounded_def put_score_def emit_reputation_event_def split: if_split_asm)

lemma good_update_bounded:
  assumes "scores_bounded t" and "0 \<le> diversity"
  shows "scores_bounded (good_update now pk diversity depth t)"
proof -
  have g: "0 \<le> rt_gamma t" "rt_gamma t \<le> 1" using assms by (auto simp: scores_bounded_def)
  have "(1::real) / 10 \<le> 1 + diversity / (1 + real (unat depth))"
    using assms(2) by (smt (verit) divide_nonneg_nonneg of_nat_0_le_iff field_sum_of_halves divide_le_eq_1)
  then have "1 / 10 \<le> rt_gamma t * rs_value (score_entry now pk t) +
      (1 - rt_gamma t) * (1 + diversity / (1 + real (unat depth)))"
    using g score_entry_bounded [OF assms(1), of now pk] by (intro convex_bounds) auto
  then show ?thesis
    unfolding good_update_def Let_def
    by (intro put_score_bounded assms(1)) simp_all
qed

lemma bad_update_bounded:
  assumes "scores_bounded t" and "0 \<le> penalty"
  shows "scores_bounded (bad_update now pk penalty t)"
proof -
  have g: "0 \<le> rt_gamma t" "rt_gamma t \<le> 1" using assms by (auto simp: scores_bounded_def)
  have "- 10 \<le> rt_gamma t * - rs_value (score_entry now pk t) + (1 - rt_gamma t) * penalty"
    using g score_entry_bounded [OF assms(1), of now pk] assms(2) by (intro convex_bounds) auto
  then show ?thesis
    unfolding bad_update_def Let_def by (intro put_score_bounded assms(1)) simp_all
qed

lemma decay_bounded:
  assumes "1 / 10 \<le> rs_value s" "rs_value s \<le> 10" "0 \<le> d" "d \<le> 1"
  shows "1 / 10 \<le> rs_value (decay_score d n s) \<and> rs_value (decay_score d n s) \<le> 10"
proof -
  have "d powr x \<le> 1" if "0 < x" for x
    using powr_le1 [of x d] that assms by simp
  then have "rs_value s * d powr x \<le> 10 * 1" if "0 < x" for x
    using that assms by (intro mult_mono) auto
  with assms show ?thesis by (auto simp: decay_score_def Let_def)
qed

lemma reputation_exec_bounded:
  assumes "scores_bounded t" and "sane_cmd c"
  shows "scores_bounded (reputation_exec t c)"
proof (cases c)
  case (Overall now pk n diversity depth peers)
  then show ?thesis
    using assms(1) by (simp add: update_reputation_def Let_def put_score_bounded)
next
  case (Approval pk i)
  show ?thesis
  proof (cases "rt_approvals t pk")
    case (Some xs)
    then have "length xs \<le> 100" using assms(1) by (auto simp: scores_bounded_def)
    with Some Approval assms(1) show ?thesis
      by (simp add: scores_bounded_def record_approval_def le_diff_conv)
  qed (use Approval assms(1) in \<open>simp add: scores_bounded_def record_approval_def\<close>)
next
  case (Decay now)
  then show ?thesis
    using assms(1) decay_bounded by (fastforce simp: scores_bounded_def apply_decay_def)
next
  case (Gamma g)
  then show ?thesis using assms by (simp add: update_gamma_def scores_bounded_def)
qed (use assms(2) in \<open>simp_all add: assms(1) good_update_bounded bad_update_bounded\<close>)



section \<open>The overlap score\<close>

definition jaccard :: "'a set \<Rightarrow> 'a set \<Rightarrow> real" where
  "jaccard A B = real (card (A \<inter> B)) / real (card (A \<union> B))"

lemma overlap_of_jaccard:
  assumes "distinct my" and "distinct other" and "my \<noteq> []"
  shows "overlap_of my other mx = max mx (jaccard (set my) (set other))"
proof -
  have inter: "length (filter (\<lambda>x. x \<in> set other) my) = card (set my \<inter> set other)"
    using distinct_length_filter [OF assms(1), of "\<lambda>x. x \<in> set other"] by (simp add: Int_commute)
  have "card (set my \<union> set other) = length my + length other - card (set my \<inter> set other)"
    using card_Un_Int [of "set my" "set other"] assms by (simp add: distinct_card)
  moreover have "0 < card (set my \<union> set other)"
    using assms(3) by (simp add: card_gt_0_iff)
  ultimately show ?thesis by (simp add: overlap_of_def Let_def inter jaccard_def)
qed

lemma jaccard_bounds: "0 \<le> jaccard A B \<and> (finite A \<longrightarrow> finite B \<longrightarrow> jaccard A B \<le> 1)"
proof -
  have "card (A \<inter> B) \<le> card (A \<union> B)" if "finite A" "finite B"
    using that by (intro card_mono) auto
  then show ?thesis by (auto simp: jaccard_def divide_le_eq)
qed

text \<open>The peers that count: keys other than \<open>pk\<close> with a history.\<close>

definition peer_sets :: "(public_key \<rightharpoonup> message_id list) \<Rightarrow> public_key \<Rightarrow> public_key list \<Rightarrow> message_id set set" where
  "peer_sets history pk others = {set ys | ys k. k \<in> set others \<and> k \<noteq> pk \<and> history k = Some ys}"

lemma max_insert_Max:
  "finite A \<Longrightarrow> Max (insert (max x y) A) = Max (insert x (insert y A))" for x y :: real
  by (cases "A = {}") (auto simp: max.assoc)

lemma overlap_loop_max:
  assumes "distinct my" and "my \<noteq> []" and "\<forall>k ys. history k = Some ys \<longrightarrow> distinct ys"
  shows "overlap_loop history pk my others mx = Max (insert mx (jaccard (set my) ` peer_sets history pk others)) \<and>
    finite (peer_sets history pk others)"
proof (induction others arbitrary: mx)
  case (Cons k ks)
  show ?case
  proof (cases "k = pk \<or> history k = None")
    case True
    then have "peer_sets history pk (k # ks) = peer_sets history pk ks"
      by (auto simp: peer_sets_def)
    with True Cons show ?thesis by auto
  next
    case False
    then obtain ys where ys: "k \<noteq> pk" "history k = Some ys" by auto
    then have "peer_sets history pk (k # ks) = insert (set ys) (peer_sets history pk ks)"
      by (auto simp: peer_sets_def)
    moreover have "overlap_loop history pk my (k # ks) mx = overlap_loop history pk my ks (max mx (jaccard (set my) (set ys)))"
      using ys assms by (simp add: overlap_of_jaccard)
    ultimately show ?thesis
      using Cons.IH [of "max mx (jaccard (set my) (set ys))"]
      by (simp add: max_insert_Max)
  qed
qed (simp add: peer_sets_def)

text \<open>When no key approved a message twice, the overlap score of a key is the largest Jaccard
  similarity of its approvals with those of another listed key, and lies between 0 and 1.\<close>

theorem overlap_score_is_jaccard:
  assumes "\<forall>k ys. rt_approvals t k = Some ys \<longrightarrow> distinct ys"
    and "rt_approvals t pk = Some my" and "my \<noteq> []"
  shows "calculate_overlap_score t pk others =
      Max (insert 0 (jaccard (set my) ` peer_sets (rt_approvals t) pk others)) \<and>
    0 \<le> calculate_overlap_score t pk others \<and> calculate_overlap_score t pk others \<le> 1"
proof -
  have my: "distinct my" using assms by blast
  have fin: "finite (peer_sets (rt_approvals t) pk others)"
    and eq: "calculate_overlap_score t pk others =
      Max (insert 0 (jaccard (set my) ` peer_sets (rt_approvals t) pk others))"
    using overlap_loop_max [OF my assms(3,1), of pk others 0] assms(2,3)
    by (simp_all add: calculate_overlap_score_def)
  have "jaccard (set my) B \<le> 1" if "B \<in> peer_sets (rt_approvals t) pk others" for B
    using that by (auto simp: peer_sets_def jaccard_bounds)
  then have "Max (insert 0 (jaccard (set my) ` peer_sets (rt_approvals t) pk others)) \<le> 1"
    using fin by (subst Max_le_iff) auto
  moreover have "0 \<le> Max (insert 0 (jaccard (set my) ` peer_sets (rt_approvals t) pk others))"
    using fin by (intro Max_ge) auto
  ultimately show ?thesis using eq by simp
qed

definition sample_tracker :: reputation_tracker where
  "sample_tracker = foldl reputation_exec (reputation_tracker_new (9 / 10))
     [Approval [1] [7], Approval [1] [8], Approval [2] [8]]"

lemma sample_tracker_approvals: "rt_approvals sample_tracker = [[1] \<mapsto> [[7], [8]], [2] \<mapsto> [[8]]]"
  by (simp add: sample_tracker_def record_approval_def reputation_tracker_new_def)

theorem overlap_score_is_jaccard_witness:
  "calculate_overlap_score sample_tracker [1] [[1], [2]] \<le> 1 \<and>
   calculate_overlap_score sample_tracker [1] [[1], [2]] = 1 / 2"
proof -
  have "calculate_overlap_score sample_tracker [1] [[1], [2]] \<le> 1"
    using overlap_score_is_jaccard [THEN conjunct2, THEN conjunct2, of sample_tracker "[1]" "[[7], [8]]" "[[1], [2]]"]
    by (auto simp: sample_tracker_approvals split: if_split_asm)
  moreover have "calculate_overlap_score sample_tracker [1] [[1], [2]] = 1 / 2"
    by (simp add: calculate_overlap_score_def sample_tracker_approvals overlap_of_def)
  ultimately show ?thesis by simp
qed

text \<open>Repeated approvals are kept, and each of them counts.\<close>

lemma record_approval_repeat:
  assumes "n \<le> 100" and "rt_approvals t pk = None"
  shows "rt_approvals (foldl reputation_exec t (replicate n (Approval pk i))) =
    (if n = 0 then rt_approvals t else (rt_approvals t)(pk \<mapsto> replicate n i))"
  using assms(1)
proof (induction n)
  case (Suc n)
  have "replicate (Suc n) (Approval pk i) = replicate n (Approval pk i) @ [Approval pk i]"
    by (simp add: replicate_append_same)
  moreover have "replicate n i @ [i] = replicate (Suc n) i"
    by (simp add: replicate_append_same)
  ultimately show ?case using Suc assms(2)
    by (cases "n = 0") (simp_all add: record_approval_def fun_eq_iff del: replicate_Suc)
qed simp

text \<open>The score is not bounded by 1 when a key approves the same message several times: after
  \<open>n\<close> approvals of one message which a peer approved once, the overlap score is \<open>n\<close>.\<close>

theorem repeated_approvals_inflate_overlap:
  assumes "0 < n" and "n \<le> 100" and "pk \<noteq> peer"
    and "t = foldl reputation_exec (reputation_tracker_new gamma) (Approval peer i # replicate n (Approval pk i))"
  shows "calculate_overlap_score t pk [peer] = real n"
proof -
  have "rt_approvals t = [peer \<mapsto> [i], pk \<mapsto> replicate n i]"
    unfolding assms(4) using assms(1-3)
    by (simp add: record_approval_repeat record_approval_def reputation_tracker_new_def)
  with assms(1,3) show ?thesis
    by (simp add: calculate_overlap_score_def overlap_of_def)
qed

theorem repeated_approvals_inflate_overlap_witness:
  "calculate_overlap_score (foldl reputation_exec (reputation_tracker_new (9 / 10))
     (Approval [2] [7] # replicate 3 (Approval [1] [7]))) [1] [[2]] = 3"
  using repeated_approvals_inflate_overlap [of 3 "[1]" "[2]" _ "9 / 10" "[7]"] by simp

end
