(* ===== verification/Vrf.thy ===== *)
theory Vrf
  imports Reputation "HOL-Library.Multiset"
begin

text \<open>
  The commit-reveal randomness of \<open>crates/adic-vrf/src\<close>: \<open>messages.rs\<close> (commits,
  reveals and the state of an epoch), \<open>canonical.rs\<close> (the randomness of an epoch, challenges
  and committee scores) and \<open>service.rs\<close> (the service). \<open>blake3\<close> is a parameter;
  domains are their UTF-8 bytes; metrics are omitted. The shared \<open>ReputationTracker\<close> is a field
  of the service.
\<close>

section \<open>Messages\<close>

record vrf_commit =
  vc_message :: adic_message
  vc_target_epoch :: u64
  vc_commitment :: bytes
  vc_committer :: public_key
  vc_committer_reputation :: f64

definition commit_id :: "vrf_commit \<Rightarrow> message_id" where
  "commit_id c = am_id (vc_message c)"

definition verify_commitment :: "(bytes \<Rightarrow> bytes) \<Rightarrow> vrf_commit \<Rightarrow> bytes \<Rightarrow> bool" where
  "verify_commitment blake3 c vrf_proof \<longleftrightarrow> blake3 vrf_proof = vc_commitment c"

record vrf_open =
  vo_message :: adic_message
  vo_target_epoch :: u64
  vo_ref_commit :: message_id
  vo_proof :: bytes
  vo_public_key :: public_key

definition compute_commitment :: "(bytes \<Rightarrow> bytes) \<Rightarrow> vrf_open \<Rightarrow> bytes" where
  "compute_commitment blake3 r = blake3 (vo_proof r)"

record vrf_state =
  vs_epoch :: u64
  vs_commits :: "vrf_commit list"
  vs_reveals :: "vrf_open list"
  vs_is_finalized :: bool
  vs_randomness :: "bytes option"

definition vrf_state_new :: "u64 \<Rightarrow> vrf_state" where
  "vrf_state_new epoch =
     \<lparr>vs_epoch = epoch, vs_commits = [], vs_reveals = [], vs_is_finalized = False, vs_randomness = None\<rparr>"

definition add_commit :: "vrf_commit \<Rightarrow> vrf_state \<Rightarrow> vrf_state" where
  "add_commit c s = s\<lparr>vs_commits := vs_commits s @ [c]\<rparr>"

definition add_reveal :: "vrf_open \<Rightarrow> vrf_state \<Rightarrow> vrf_state" where
  "add_reveal r s = s\<lparr>vs_reveals := vs_reveals s @ [r]\<rparr>"

definition vrf_state_finalize :: "bytes \<Rightarrow> vrf_state \<Rightarrow> vrf_state" where
  "vrf_state_finalize randomness s = s\<lparr>vs_randomness := Some randomness, vs_is_finalized := True\<rparr>"

section \<open>Canonical randomness\<close>

record canonical_randomness =
  cr_epoch :: u64
  cr_randomness :: bytes
  cr_contributors :: nat

text \<open>\<open>combined[i] ^= byte\<close> for the bytes of the hash that have a place in \<open>combined\<close>.\<close>

fun xor_into :: "bytes \<Rightarrow> bytes \<Rightarrow> bytes" where
  "xor_into (a # as) (h # hs) = xor a h # xor_into as hs"
| "xor_into as [] = as"
| "xor_into [] hs = []"

fun combine_reveals :: "(bytes \<Rightarrow> bytes) \<Rightarrow> u64 \<Rightarrow> vrf_open list \<Rightarrow> bytes \<times> nat \<Rightarrow> bytes \<times> nat" where
  "combine_reveals blake3 epoch [] (combined, num) = (combined, num)"
| "combine_reveals blake3 epoch (r # rs) (combined, num) =
     combine_reveals blake3 epoch rs
       (if vo_target_epoch r = epoch then (xor_into combined (blake3 (vo_proof r)), num + 1)
        else (combined, num))"

definition compute_canonical_randomness ::
    "(bytes \<Rightarrow> bytes) \<Rightarrow> u64 \<Rightarrow> bytes \<Rightarrow> vrf_open list \<Rightarrow> canonical_randomness" where
  "compute_canonical_randomness blake3 epoch root_prev reveals =
     (case combine_reveals blake3 epoch reveals (replicate 32 0, 0) of (combined, num) \<Rightarrow>
        \<lparr>cr_epoch = epoch, cr_randomness = blake3 (root_prev @ combined), cr_contributors = num\<rparr>)"

definition compute_challenge :: "(bytes \<Rightarrow> bytes) \<Rightarrow> bytes \<Rightarrow> bytes \<Rightarrow> bytes list \<Rightarrow> bytes" where
  "compute_challenge blake3 randomness domain params =
     blake3 (domain @ [0] @ randomness @ concat params)"

definition compute_vrf_score :: "(bytes \<Rightarrow> bytes) \<Rightarrow> bytes \<Rightarrow> bytes \<Rightarrow> nat \<Rightarrow> bytes \<Rightarrow> bytes \<Rightarrow> bytes" where
  "compute_vrf_score blake3 randomness domain axis_id node_id axis_ball =
     blake3 (randomness @ domain @ [0] @ le_bytes (of_nat axis_id) @ node_id @ axis_ball)"

section \<open>The service\<close>

datatype vrf_error =
    InsufficientReputation f64 f64
  | CommitNotFound u64
  | RevealVerificationFailed
  | RandomnessNotFinalized u64
  | InvalidVrfProof
  | CommitmentMismatch bytes bytes
  | RevealDeadlinePassed u64
  | DuplicateCommit public_key u64
  | NoReveals u64

record vrf_config =
  vf_min_reputation :: f64
  vf_reveal_depth :: u64
  vf_genesis_root :: bytes

definition vrf_config_default :: vrf_config where
  "vrf_config_default = \<lparr>vf_min_reputation = 50, vf_reveal_depth = 10, vf_genesis_root = replicate 32 0\<rparr>"

record vrf_service =
  vv_config :: vrf_config
  vv_tracker :: reputation_tracker
  vv_states :: "u64 \<rightharpoonup> vrf_state"
  vv_roots :: "u64 \<rightharpoonup> bytes"

type_synonym 'a vrf_op = "(vrf_error, vrf_service, 'a) rop"

definition vrf_service_new :: "vrf_config \<Rightarrow> reputation_tracker \<Rightarrow> vrf_service" where
  "vrf_service_new config tracker =
     \<lparr>vv_config = config, vv_tracker = tracker, vv_states = Map.empty,
      vv_roots = [0 \<mapsto> vf_genesis_root config]\<rparr>"

definition put_state :: "u64 \<Rightarrow> vrf_state \<Rightarrow> vrf_service \<Rightarrow> vrf_service" where
  "put_state epoch s v = v\<lparr>vv_states := (vv_states v)(epoch \<mapsto> s)\<rparr>"

definition submit_commit :: "vrf_commit \<Rightarrow> unit vrf_op" where
  "submit_commit c v =
     (let rep = get_reputation (vv_tracker v) (vc_committer c) in
      if rep < vf_min_reputation (vv_config v)
      then (Inl (InsufficientReputation (vf_min_reputation (vv_config v)) rep), v)
      else
        (let epoch = vc_target_epoch c;
             s = (case vv_states v epoch of None \<Rightarrow> vrf_state_new epoch | Some s \<Rightarrow> s)
         in if \<exists>c'\<in>set (vs_commits s). vc_committer c' = vc_committer c
            then (Inl (DuplicateCommit (vc_committer c) epoch), put_state epoch s v)
            else (Inr (), put_state epoch (add_commit c s) v)))"

definition submit_reveal :: "(bytes \<Rightarrow> bytes) \<Rightarrow> vrf_open \<Rightarrow> u64 \<Rightarrow> unit vrf_op" where
  "submit_reveal blake3 r current_epoch v =
     (if vo_target_epoch r + vf_reveal_depth (vv_config v) < current_epoch
      then (Inl (RevealDeadlinePassed (vo_target_epoch r)), v)
      else
        (case vv_states v (vo_target_epoch r) of
           None \<Rightarrow> (Inl (CommitNotFound (vo_target_epoch r)), v)
         | Some s \<Rightarrow>
             (case find (\<lambda>c. commit_id c = vo_ref_commit r) (vs_commits s) of
                None \<Rightarrow> (Inl RevealVerificationFailed, v)
              | Some c \<Rightarrow>
                  (if \<not> verify_commitment blake3 c (vo_proof r)
                   then (Inl (CommitmentMismatch (vc_commitment c) (compute_commitment blake3 r)), v)
                   else (Inr (), put_state (vo_target_epoch r) (add_reveal r s) v)))))"

text \<open>\<open>canonical_randomness.unwrap()\<close> is \<^term>\<open>the\<close>: a finalized state always holds
  a value, see \<open>vrf_inv\<close> below. \<open>saturating_sub\<close> is \<^term>\<open>sat_sub\<close>.\<close>

definition finalize_epoch :: "(bytes \<Rightarrow> bytes) \<Rightarrow> u64 \<Rightarrow> bytes vrf_op" where
  "finalize_epoch blake3 epoch v =
     (case vv_states v epoch of
        None \<Rightarrow> (Inl (CommitNotFound epoch), v)
      | Some s \<Rightarrow>
          (if vs_is_finalized s then (Inr (the (vs_randomness s)), v)
           else if vs_reveals s = [] then (Inl (NoReveals epoch), v)
           else
             (let prev_root = (case vv_roots v (sat_sub epoch 1) of
                    None \<Rightarrow> vf_genesis_root (vv_config v) | Some prior \<Rightarrow> prior);
                  canonical = compute_canonical_randomness blake3 epoch prev_root (vs_reveals s);
                  v' = put_state epoch (vrf_state_finalize (cr_randomness canonical) s) v
              in (Inr (cr_randomness canonical),
                  v'\<lparr>vv_roots := (vv_roots v')(epoch \<mapsto> cr_randomness canonical)\<rparr>))))"

definition finalized_randomness :: "vrf_service \<Rightarrow> u64 \<Rightarrow> bytes option" where
  "finalized_randomness v epoch =
     (case vv_states v epoch of
        None \<Rightarrow> None
      | Some s \<Rightarrow> (if vs_is_finalized s then Some (the (vs_randomness s)) else None))"

definition get_canonical_randomness :: "vrf_service \<Rightarrow> u64 \<Rightarrow> vrf_error + bytes" where
  "get_canonical_randomness v epoch =
     (case finalized_randomness v epoch of
        Some r \<Rightarrow> Inr r
      | None \<Rightarrow>
          (case (if 0 < epoch then finalized_randomness v (epoch - 1) else None) of
             Some r \<Rightarrow> Inr r
           | None \<Rightarrow> Inl (RandomnessNotFinalized epoch)))"

definition compute_challenge_for_epoch ::
    "(bytes \<Rightarrow> bytes) \<Rightarrow> vrf_service \<Rightarrow> u64 \<Rightarrow> bytes \<Rightarrow> bytes list \<Rightarrow> vrf_error + bytes" where
  "compute_challenge_for_epoch blake3 v epoch domain params =
     bindE (get_canonical_randomness v epoch) (\<lambda>randomness.
       Inr (compute_challenge blake3 randomness domain params))"

definition compute_vrf_score_for_epoch ::
    "(bytes \<Rightarrow> bytes) \<Rightarrow> vrf_service \<Rightarrow> u64 \<Rightarrow> bytes \<Rightarrow> nat \<Rightarrow> bytes \<Rightarrow> bytes \<Rightarrow> vrf_error + bytes" where
  "compute_vrf_score_for_epoch blake3 v epoch domain axis_id node_id axis_ball =
     bindE (get_canonical_randomness v epoch) (\<lambda>randomness.
       Inr (compute_vrf_score blake3 randomness domain axis_id node_id axis_ball))"

definition get_commit_count :: "vrf_service \<Rightarrow> u64 \<Rightarrow> nat" where
  "get_commit_count v epoch = (case vv_states v epoch of None \<Rightarrow> 0 | Some s \<Rightarrow> length (vs_commits s))"

definition get_reveal_count :: "vrf_service \<Rightarrow> u64 \<Rightarrow> nat" where
  "get_reveal_count v epoch = (case vv_states v epoch of None \<Rightarrow> 0 | Some s \<Rightarrow> length (vs_reveals s))"

definition set_test_randomness :: "u64 \<Rightarrow> bytes \<Rightarrow> vrf_service \<Rightarrow> vrf_service" where
  "set_test_randomness epoch randomness v =
     (let v' = put_state epoch (vrf_state_finalize randomness (vrf_state_new epoch)) v
      in v'\<lparr>vv_roots := (vv_roots v')(epoch \<mapsto> randomness)\<rparr>)"

section \<open>Runs\<close>

datatype vrf_cmd =
    Commit vrf_commit
  | Reveal vrf_open u64
  | Finalize u64
  | Tracker reputation_cmd

fun vrf_exec :: "(bytes \<Rightarrow> bytes) \<Rightarrow> vrf_service \<Rightarrow> vrf_cmd \<Rightarrow> vrf_service" where
  "vrf_exec blake3 v (Commit c) = snd (submit_commit c v)"
| "vrf_exec blake3 v (Reveal r now) = snd (submit_reveal blake3 r now v)"
| "vrf_exec blake3 v (Finalize epoch) = snd (finalize_epoch blake3 epoch v)"
| "vrf_exec blake3 v (Tracker c) = v\<lparr>vv_tracker := reputation_exec (vv_tracker v) c\<rparr>"

text \<open>What holds of the state of every epoch: one commit per committer, every commit and reveal is
  of that epoch, every reveal opens one of the commits, and a finalized epoch has a value and the root
  of that value.\<close>

definition epoch_ok :: "(bytes \<Rightarrow> bytes) \<Rightarrow> u64 \<Rightarrow> vrf_state \<Rightarrow> bool" where
  "epoch_ok blake3 epoch s \<longleftrightarrow>
     distinct (map vc_committer (vs_commits s)) \<and>
     (\<forall>c\<in>set (vs_commits s). vc_target_epoch c = epoch) \<and>
     (\<forall>r\<in>set (vs_reveals s). vo_target_epoch r = epoch \<and>
        (\<exists>c\<in>set (vs_commits s). commit_id c = vo_ref_commit r \<and> vc_commitment c = blake3 (vo_proof r))) \<and>
     (vs_is_finalized s \<longrightarrow> vs_reveals s \<noteq> []) \<and>
     (vs_is_finalized s \<longleftrightarrow> vs_randomness s \<noteq> None)"

definition vrf_inv :: "(bytes \<Rightarrow> bytes) \<Rightarrow> vrf_service \<Rightarrow> bool" where
  "vrf_inv blake3 v \<longleftrightarrow>
     (\<forall>epoch s. vv_states v epoch = Some s \<longrightarrow> epoch_ok blake3 epoch s \<and>
        (vs_is_finalized s \<longrightarrow> vv_roots v epoch = vs_randomness s))"

lemma vrf_inv_put:
  assumes "vrf_inv blake3 v" and "epoch_ok blake3 epoch s"
    and "vs_is_finalized s \<Longrightarrow> vv_roots v epoch = vs_randomness s"
  shows "vrf_inv blake3 (put_state epoch s v)"
  using assms by (simp add: vrf_inv_def put_state_def)

lemma submit_commit_inv:
  assumes "vrf_inv blake3 v"
  shows "vrf_inv blake3 (snd (submit_commit c v))"
proof -
  define epoch where "epoch = vc_target_epoch c"
  define s where "s = (case vv_states v epoch of None \<Rightarrow> vrf_state_new epoch | Some s \<Rightarrow> s)"
  have s: "epoch_ok blake3 epoch s" "vs_is_finalized s \<longrightarrow> vv_roots v epoch = vs_randomness s"
    using assms by (auto simp: s_def vrf_inv_def epoch_ok_def vrf_state_new_def split: option.splits)
  have "epoch_ok blake3 epoch (add_commit c s)" if "\<not> (\<exists>c'\<in>set (vs_commits s). vc_committer c' = vc_committer c)"
    using s that by (auto simp: epoch_ok_def add_commit_def epoch_def)
  with s assms show ?thesis
    unfolding submit_commit_def Let_def epoch_def [symmetric] s_def [symmetric]
    by (auto intro!: vrf_inv_put simp: add_commit_def)
qed

lemma submit_reveal_cases:
  obtains (refused) e where "submit_reveal blake3 r now v = (Inl e, v)"
  | (accepted) s c where "submit_reveal blake3 r now v = (Inr (), put_state (vo_target_epoch r) (add_reveal r s) v)"
      "vv_states v (vo_target_epoch r) = Some s" "find (\<lambda>c. commit_id c = vo_ref_commit r) (vs_commits s) = Some c"
      "vc_commitment c = blake3 (vo_proof r)" "now \<le> vo_target_epoch r + vf_reveal_depth (vv_config v)"
proof -
  have "(\<exists>e. submit_reveal blake3 r now v = (Inl e, v)) \<or>
    (\<exists>s c. submit_reveal blake3 r now v = (Inr (), put_state (vo_target_epoch r) (add_reveal r s) v) \<and>
      vv_states v (vo_target_epoch r) = Some s \<and> find (\<lambda>c. commit_id c = vo_ref_commit r) (vs_commits s) = Some c \<and>
      vc_commitment c = blake3 (vo_proof r) \<and> now \<le> vo_target_epoch r + vf_reveal_depth (vv_config v))"
    by (auto simp: submit_reveal_def verify_commitment_def not_less split: option.splits)
  with that show thesis by blast
qed

lemma submit_reveal_inv:
  assumes "vrf_inv blake3 v"
  shows "vrf_inv blake3 (snd (submit_reveal blake3 r now v))"
proof (cases rule: submit_reveal_cases [of blake3 r now v])
  case (accepted s c)
  then have "c \<in> set (vs_commits s)" "commit_id c = vo_ref_commit r"
    by (auto simp: find_Some_iff)
  with accepted assms have "epoch_ok blake3 (vo_target_epoch r) (add_reveal r s)"
    by (auto simp: vrf_inv_def epoch_ok_def add_reveal_def)
  with accepted assms show ?thesis
    by (auto simp: vrf_inv_def put_state_def add_reveal_def)
qed (use assms in simp)

lemma finalize_epoch_cases:
  obtains (refused) e where "finalize_epoch blake3 epoch v = (Inl e, v)"
  | (again) s where "vv_states v epoch = Some s" "vs_is_finalized s"
      "finalize_epoch blake3 epoch v = (Inr (the (vs_randomness s)), v)"
  | (first) s prior where "vv_states v epoch = Some s" "\<not> vs_is_finalized s" "vs_reveals s \<noteq> []"
      "prior = (case vv_roots v (sat_sub epoch 1) of None \<Rightarrow> vf_genesis_root (vv_config v) | Some prior \<Rightarrow> prior)"
      "finalize_epoch blake3 epoch v =
        (let R = cr_randomness (compute_canonical_randomness blake3 epoch prior (vs_reveals s))
         in (Inr R, v\<lparr>vv_states := (vv_states v)(epoch \<mapsto> vrf_state_finalize R s),
              vv_roots := (vv_roots v)(epoch \<mapsto> R)\<rparr>))"
proof (cases "vv_states v epoch")
  case (Some s)
  consider "vs_is_finalized s" | "\<not> vs_is_finalized s" "vs_reveals s = []" | "\<not> vs_is_finalized s" "vs_reveals s \<noteq> []"
    by blast
  then show thesis
  proof cases
    case 1
    with Some show thesis by (intro that(2)) (simp_all add: finalize_epoch_def)
  next
    case 2
    with Some show thesis by (intro that(1)) (simp add: finalize_epoch_def)
  next
    case 3
    with Some show thesis
      by (intro that(3)) (simp_all add: finalize_epoch_def put_state_def Let_def)
  qed
qed (use that(1) in \<open>simp add: finalize_epoch_def\<close>)

lemma finalize_epoch_inv:
  assumes "vrf_inv blake3 v"
  shows "vrf_inv blake3 (snd (finalize_epoch blake3 epoch v))"
proof (cases rule: finalize_epoch_cases [of blake3 epoch v])
  case (first s prior)
  then have "epoch_ok blake3 epoch s" using assms by (auto simp: vrf_inv_def)
  then have "epoch_ok blake3 epoch (vrf_state_finalize R s)" for R
    using first by (auto simp: epoch_ok_def vrf_state_finalize_def)
  with first assms show ?thesis
    by (simp add: vrf_inv_def Let_def vrf_state_finalize_def)
qed (use assms in simp_all)

lemma vrf_exec_inv: "vrf_inv blake3 v \<Longrightarrow> vrf_inv blake3 (vrf_exec blake3 v c)"
  by (cases c) (simp_all add: submit_commit_inv submit_reveal_inv finalize_epoch_inv, simp add: vrf_inv_def)

lemma vrf_run_inv: "vrf_inv blake3 v \<Longrightarrow> vrf_inv blake3 (foldl (vrf_exec blake3) v cmds)"
  by (rule foldl_invariant) (simp_all add: vrf_exec_inv)

lemma vrf_new_inv: "vrf_inv blake3 (vrf_service_new config tracker)"
  by (simp add: vrf_inv_def vrf_service_new_def)

text \<open>In every run of the service each epoch holds at most one commit per committer, every reveal
  that was accepted opens a commit of its epoch (same identifier, \<open>blake3\<close> of the proof equal to
  the commitment), and a finalized epoch has at least one reveal and a value, so that the
  \<open>unwrap()\<close> in \<open>finalize_epoch\<close> and \<open>get_canonical_randomness\<close> never panics.\<close>

theorem vrf_reveals_open_commits:
  assumes "vv_states (foldl (vrf_exec blake3) (vrf_service_new config tracker) cmds) epoch = Some s"
  shows "distinct (map vc_committer (vs_commits s)) \<and>
    (\<forall>r\<in>set (vs_reveals s). vo_target_epoch r = epoch \<and>
       (\<exists>c\<in>set (vs_commits s). commit_id c = vo_ref_commit r \<and> vc_commitment c = blake3 (vo_proof r))) \<and>
    (vs_is_finalized s \<longleftrightarrow> vs_randomness s \<noteq> None) \<and> (vs_is_finalized s \<longrightarrow> vs_reveals s \<noteq> [])"
  using vrf_run_inv [OF vrf_new_inv, of blake3 config tracker cmds] assms
  by (simp add: vrf_inv_def epoch_ok_def)

section \<open>Finalized randomness\<close>

text \<open>A finalized epoch never changes its value.\<close>

definition final_at :: "u64 \<Rightarrow> bytes \<Rightarrow> vrf_service \<Rightarrow> bool" where
  "final_at epoch R v \<longleftrightarrow> (\<exists>s. vv_states v epoch = Some s \<and> vs_is_finalized s \<and> vs_randomness s = Some R)"

lemma final_at_exec: "final_at epoch R v \<Longrightarrow> final_at epoch R (vrf_exec blake3 v c)"
proof (cases c)
  case (Reveal r now)
  assume "final_at epoch R v"
  with Reveal show ?thesis
    by (cases rule: submit_reveal_cases [of blake3 r now v])
      (auto simp: final_at_def put_state_def add_reveal_def)
next
  case (Finalize e)
  assume "final_at epoch R v"
  with Finalize show ?thesis
    by (cases rule: finalize_epoch_cases [of blake3 e v]) (auto simp: final_at_def Let_def)
qed (auto simp: final_at_def submit_commit_def Let_def put_state_def add_commit_def)

lemma final_at_run: "final_at epoch R v \<Longrightarrow> final_at epoch R (foldl (vrf_exec blake3) v cmds)"
  by (rule foldl_invariant) (simp_all add: final_at_exec)

lemma final_at_get: "final_at epoch R v \<Longrightarrow> get_canonical_randomness v epoch = Inr R"
  by (auto simp: final_at_def get_canonical_randomness_def finalized_randomness_def)

lemma finalize_epoch_final:
  assumes "vrf_inv blake3 v" and "finalize_epoch blake3 epoch v = (Inr R, v')"
  shows "final_at epoch R v'"
proof (cases rule: finalize_epoch_cases [of blake3 epoch v])
  case (again s)
  then have "vs_randomness s \<noteq> None" using assms(1) by (auto simp: vrf_inv_def epoch_ok_def)
  with again assms(2) show ?thesis by (auto simp: final_at_def)
qed (use assms(2) in \<open>auto simp: final_at_def Let_def vrf_state_finalize_def\<close>)

text \<open>C17: Once an epoch is finalized its randomness is fixed: whatever commits, reveals, finalizations and
  reputation changes follow, it is what \<open>get_canonical_randomness\<close> returns and what finalizing
  again returns.\<close>

theorem randomness_is_final:
  assumes "v = foldl (vrf_exec blake3) (vrf_service_new config tracker) cmds"
    and "finalize_epoch blake3 epoch v = (Inr R, v')"
  shows "get_canonical_randomness (foldl (vrf_exec blake3) v' later) epoch = Inr R \<and>
    fst (finalize_epoch blake3 epoch (foldl (vrf_exec blake3) v' later)) = Inr R"
proof -
  have "vrf_inv blake3 v" unfolding assms(1) by (rule vrf_run_inv [OF vrf_new_inv])
  then have "final_at epoch R (foldl (vrf_exec blake3) v' later)"
    using finalize_epoch_final [OF _ assms(2)] final_at_run by blast
  then show ?thesis
    by (auto simp: final_at_get) (auto simp: final_at_def finalize_epoch_def)
qed

section \<open>The combined proof\<close>

lemma length_xor_into [simp]: "length (xor_into as hs) = length as"
  by (induction as hs rule: xor_into.induct) simp_all

lemma xor_into_commute: "xor_into (xor_into as g) h = xor_into (xor_into as h) g"
proof (induction as g arbitrary: h rule: xor_into.induct)
  case (1 a as g gs)
  then show ?case by (cases h) (simp_all add: ac_simps)
next
  case (2 as)
  then show ?case by (cases as; cases h) simp_all
qed (case_tac h; simp)+

lemma xor_into_twice: "xor_into (xor_into as h) h = as"
  by (induction as h rule: xor_into.induct) (simp_all add: xor.assoc)

text \<open>The loop as a fold over the hashes of the proofs of the epoch.\<close>

lemma combine_reveals_fold:
  "combine_reveals blake3 epoch rs (combined, num) =
     (fold (\<lambda>r acc. xor_into acc (blake3 (vo_proof r))) (filter (\<lambda>r. vo_target_epoch r = epoch) rs) combined,
      num + length (filter (\<lambda>r. vo_target_epoch r = epoch) rs))"
  by (induction rs arbitrary: combined num) simp_all

lemma fold_xor_mset:
  assumes "mset rs = mset ss"
  shows "fold (\<lambda>r acc. xor_into acc (blake3 (vo_proof r))) rs = fold (\<lambda>r acc. xor_into acc (blake3 (vo_proof r))) ss"
  using assms by (intro fold_multiset_equiv) (auto simp: xor_into_commute)

text \<open>The canonical randomness of an epoch depends on the multiset of the reveals and not on the
  order in which they were submitted.\<close>

theorem randomness_order_irrelevant:
  assumes "mset rs = mset ss"
  shows "compute_canonical_randomness blake3 epoch prior rs = compute_canonical_randomness blake3 epoch prior ss"
proof -
  have "mset (filter (\<lambda>r. vo_target_epoch r = epoch) rs) = mset (filter (\<lambda>r. vo_target_epoch r = epoch) ss)"
    using assms by simp
  from fold_xor_mset [OF this] mset_eq_length [OF this] show ?thesis
    by (simp add: compute_canonical_randomness_def combine_reveals_fold)
qed

lemma randomness_cancels:
  "cr_randomness (compute_canonical_randomness blake3 epoch prior (rs @ [r, r])) =
   cr_randomness (compute_canonical_randomness blake3 epoch prior rs)"
  by (simp add: compute_canonical_randomness_def combine_reveals_fold xor_into_twice)

text \<open>Nothing stops a reveal from being submitted twice: the service accepts an accepted reveal again,
  and the second copy cancels the first, so that the epoch ends with the randomness it would have had
  without the reveal. Whoever repeats the last reveal before finalization chooses between two values.\<close>

theorem repeated_reveal_cancels:
  assumes "submit_reveal blake3 r now v = (Inr (), v1)"
    and "vv_states v (vo_target_epoch r) = Some s"
  shows "\<exists>v2 s2. submit_reveal blake3 r now v1 = (Inr (), v2) \<and> vv_states v2 (vo_target_epoch r) = Some s2 \<and>
    vs_reveals s2 = vs_reveals s @ [r, r] \<and>
    cr_randomness (compute_canonical_randomness blake3 (vo_target_epoch r) prior (vs_reveals s2)) =
    cr_randomness (compute_canonical_randomness blake3 (vo_target_epoch r) prior (vs_reveals s))"
proof (cases rule: submit_reveal_cases [of blake3 r now v])
  case (accepted s' c)
  then have "submit_reveal blake3 r now v1 =
      (Inr (), put_state (vo_target_epoch r) (add_reveal r (add_reveal r s)) v1)"
    using assms by (auto simp: submit_reveal_def put_state_def add_reveal_def verify_commitment_def)
  then show ?thesis
    by (simp add: put_state_def add_reveal_def randomness_cancels)
qed (use assms in simp)

section \<open>Sample runs\<close>

abbreviation sample_hash :: "bytes \<Rightarrow> bytes" where "sample_hash \<equiv> rev"

definition vrf_message :: "message_id \<Rightarrow> adic_message" where
  "vrf_message i = \<lparr>am_id = i, am_parents = [], am_features = \<lparr>af_phi = []\<rparr>, am_meta = meta_new 0,
     am_proposer = [1], am_signature = [], am_transfer = None, am_data = []\<rparr>"

definition sample_commit :: vrf_commit where
  "sample_commit = \<lparr>vc_message = vrf_message [5], vc_target_epoch = 1, vc_commitment = [3, 2],
     vc_committer = [1], vc_committer_reputation = 60\<rparr>"

definition sample_reveal :: vrf_open where
  "sample_reveal = \<lparr>vo_message = vrf_message [6], vo_target_epoch = 1, vo_ref_commit = [5],
     vo_proof = [2, 3], vo_public_key = [1]\<rparr>"

definition sample_service :: vrf_service where
  "sample_service = vrf_service_new (vrf_config_default\<lparr>vf_min_reputation := 1\<rparr>) (reputation_tracker_new (9 / 10))"

definition committed_state :: vrf_state where
  "committed_state = add_commit sample_commit (vrf_state_new 1)"

lemmas sample_vrf_defs =
  sample_commit_def sample_reveal_def sample_service_def vrf_message_def vrf_service_new_def
  vrf_config_default_def submit_commit_def submit_reveal_def finalize_epoch_def put_state_def
  add_commit_def add_reveal_def vrf_state_new_def vrf_state_finalize_def get_reputation_def
  reputation_tracker_new_def commit_id_def verify_commitment_def committed_state_def

lemma sample_run:
  "foldl (vrf_exec sample_hash) sample_service [Commit sample_commit] = put_state 1 committed_state sample_service"
  "submit_reveal sample_hash sample_reveal 1 (put_state 1 committed_state sample_service) =
     (Inr (), put_state 1 (add_reveal sample_reveal committed_state) sample_service)"
  by (simp_all add: sample_vrf_defs fun_eq_iff)

theorem vrf_reveals_open_commits_witness:
  "\<exists>c\<in>set [sample_commit]. vc_commitment c = sample_hash (vo_proof sample_reveal)"
proof -
  have "vv_states (foldl (vrf_exec sample_hash) sample_service [Commit sample_commit, Reveal sample_reveal 1]) 1 =
      Some (add_reveal sample_reveal committed_state)"
    using sample_run by (simp add: put_state_def)
  from vrf_reveals_open_commits [OF this [unfolded sample_service_def]] show ?thesis
    by (simp add: add_reveal_def committed_state_def add_commit_def vrf_state_new_def)
qed

theorem randomness_order_irrelevant_witness:
  "compute_canonical_randomness sample_hash 1 [0] [sample_reveal, sample_reveal\<lparr>vo_proof := [7]\<rparr>] =
   compute_canonical_randomness sample_hash 1 [0] [sample_reveal\<lparr>vo_proof := [7]\<rparr>, sample_reveal]"
  by (rule randomness_order_irrelevant) simp

theorem repeated_reveal_cancels_witness:
  "\<exists>v2 s2. submit_reveal sample_hash sample_reveal 1 (put_state 1 (add_reveal sample_reveal committed_state) sample_service) =
     (Inr (), v2) \<and> vv_states v2 1 = Some s2 \<and> vs_reveals s2 = [sample_reveal, sample_reveal]"
proof -
  have at: "vv_states (put_state 1 committed_state sample_service) (vo_target_epoch sample_reveal) = Some committed_state"
    "vo_target_epoch sample_reveal = 1" "vs_reveals committed_state = []"
    by (simp_all add: put_state_def sample_reveal_def committed_state_def add_commit_def vrf_state_new_def)
  from repeated_reveal_cancels [OF sample_run(2) at(1)] at(2,3) show ?thesis
    by (metis append_Nil)
qed

theorem randomness_is_final_witness:
  "\<exists>R v'. finalize_epoch sample_hash 1 (put_state 1 (add_reveal sample_reveal committed_state) sample_service) = (Inr R, v') \<and>
     get_canonical_randomness (foldl (vrf_exec sample_hash) v' [Reveal sample_reveal 2, Finalize 1]) 1 = Inr R"
proof -
  have run: "put_state 1 (add_reveal sample_reveal committed_state) sample_service =
      foldl (vrf_exec sample_hash) sample_service [Commit sample_commit, Reveal sample_reveal 1]"
    using sample_run by simp
  have "\<exists>R v'. finalize_epoch sample_hash 1 (put_state 1 (add_reveal sample_reveal committed_state) sample_service) = (Inr R, v')"
    by (simp add: finalize_epoch_def put_state_def add_reveal_def committed_state_def add_commit_def
        vrf_state_new_def Let_def)
  then show ?thesis
    using randomness_is_final [OF run [unfolded sample_service_def]] unfolding sample_service_def by blast
qed

end
