(* ===== verification/Quorum.thy ===== *)
theory Quorum
  imports Vrf "HOL-Library.List_Lexorder" "HOL-Library.Sublist"
begin

text \<open>
  Committee selection and voting of \<open>crates/adic-quorum/src\<close>: \<open>types.rs\<close>,
  \<open>diversity.rs\<close> (caps per autonomous system and per region), \<open>selection.rs\<close> (the
  committee of an epoch, ordered by the scores of the VRF service) and \<open>verification.rs\<close> (tallies).
  The 32 byte scores are compared as Rust compares arrays, lexicographically; \<open>sort_by_key\<close> is
  the stable \<^term>\<open>sort_key\<close>. The trait \<open>QuorumVote\<close> is a record of its methods.
  Metrics are omitted.
\<close>

section \<open>Types\<close>

record quorum_config =
  qc_min_reputation :: f64
  qc_members_per_axis :: nat
  qc_total_size :: nat
  qc_max_per_asn :: nat
  qc_max_per_region :: nat
  qc_domain :: bytes
  qc_num_axes :: nat

definition quorum_config_default :: quorum_config where
  "quorum_config_default =
     \<lparr>qc_min_reputation = 50, qc_members_per_axis = 5, qc_total_size = 15, qc_max_per_asn = 2,
      qc_max_per_region = 3, qc_domain = map (\<lambda>c. of_nat (of_char c)) ''quorum_selection'', qc_num_axes = 3\<rparr>"

record quorum_member =
  qm_public_key :: public_key
  qm_reputation :: f64
  qm_vrf_score :: bytes
  qm_axis_id :: nat
  qm_asn :: "u32 option"
  qm_region :: "string option"

record quorum_result =
  qr_members :: "quorum_member list"
  qr_total_size :: nat
  qr_axes_coverage :: "nat list"

datatype vote_type = VoteFor | VoteAgainst | VoteAbstain

record simple_quorum_vote =
  sv_voter :: public_key
  sv_type :: vote_type

record 'v vote_ops =
  vt_voter :: "'v \<Rightarrow> public_key"
  vt_is_for :: "'v \<Rightarrow> bool"
  vt_is_against :: "'v \<Rightarrow> bool"
  vt_is_abstain :: "'v \<Rightarrow> bool"

definition simple_vote_ops :: "simple_quorum_vote vote_ops" where
  "simple_vote_ops =
     \<lparr>vt_voter = sv_voter, vt_is_for = (\<lambda>v. sv_type v = VoteFor), vt_is_against = (\<lambda>v. sv_type v = VoteAgainst),
      vt_is_abstain = (\<lambda>v. sv_type v = VoteAbstain)\<rparr>"

datatype quorum_error =
    InsufficientNodes nat nat
  | ThresholdNotMet nat nat f64
  | QuorumVRFError vrf_error
  | DiversityCapExceeded nat nat

section \<open>Diversity caps\<close>

record diversity_caps =
  dc_max_per_asn :: nat
  dc_max_per_region :: nat

definition count_in :: "('k \<rightharpoonup> nat) \<Rightarrow> 'k \<Rightarrow> nat" where
  "count_in counts k = (case counts k of None \<Rightarrow> 0 | Some n \<Rightarrow> n)"

text \<open>\<open>*counts.entry(k).or_insert(0) += 1\<close> when the member has the key.\<close>

definition bump :: "'k option \<Rightarrow> ('k \<rightharpoonup> nat) \<Rightarrow> ('k \<rightharpoonup> nat)" where
  "bump k counts = (case k of None \<Rightarrow> counts | Some x \<Rightarrow> counts(x \<mapsto> count_in counts x + 1))"

fun caps_loop :: "diversity_caps \<Rightarrow> (u32 \<rightharpoonup> nat) \<Rightarrow> (string \<rightharpoonup> nat) \<Rightarrow> quorum_member list \<Rightarrow> quorum_member list \<Rightarrow>
    quorum_member list" where
  "caps_loop caps asn_counts region_counts result [] = result"
| "caps_loop caps asn_counts region_counts result (m # ms) =
     (let asn_ok = (case qm_asn m of None \<Rightarrow> True | Some asn \<Rightarrow> \<not> dc_max_per_asn caps \<le> count_in asn_counts asn);
          region_ok = (case qm_region m of None \<Rightarrow> True | Some region \<Rightarrow> \<not> dc_max_per_region caps \<le> count_in region_counts region)
      in if asn_ok \<and> region_ok
         then caps_loop caps (bump (qm_asn m) asn_counts) (bump (qm_region m) region_counts) (result @ [m]) ms
         else caps_loop caps asn_counts region_counts result ms)"

definition enforce_diversity_caps :: "quorum_member list \<Rightarrow> diversity_caps \<Rightarrow> quorum_member list" where
  "enforce_diversity_caps members caps = caps_loop caps Map.empty Map.empty [] (sort_key qm_vrf_score members)"

definition check_diversity_caps :: "quorum_member \<Rightarrow> quorum_member list \<Rightarrow> diversity_caps \<Rightarrow> quorum_error + unit" where
  "check_diversity_caps m current caps =
     bindE
       (case qm_asn m of
          None \<Rightarrow> Inr ()
        | Some asn \<Rightarrow>
            (let asn_count = length (filter (\<lambda>x. qm_asn x = Some asn) current)
             in if dc_max_per_asn caps \<le> asn_count
                then Inl (DiversityCapExceeded (dc_max_per_asn caps) (asn_count + 1)) else Inr ()))
       (\<lambda>_.
        case qm_region m of
          None \<Rightarrow> Inr ()
        | Some region \<Rightarrow>
            (let region_count = length (filter (\<lambda>x. qm_region x = Some region) current)
             in if dc_max_per_region caps \<le> region_count
                then Inl (DiversityCapExceeded (dc_max_per_region caps) (region_count + 1)) else Inr ()))"

section \<open>Selection\<close>

record node_info =
  ni_public_key :: public_key
  ni_reputation :: f64
  ni_asn :: "u32 option"
  ni_region :: "string option"
  ni_axis_balls :: "bytes list"

type_synonym 'e score_fun = "u64 \<Rightarrow> bytes \<Rightarrow> nat \<Rightarrow> bytes \<Rightarrow> bytes \<Rightarrow> 'e + bytes"

text \<open>The member a node becomes on an axis; \<open>score\<close> is the score function of the VRF service.\<close>

definition axis_member :: "'e score_fun \<Rightarrow> u64 \<Rightarrow> quorum_config \<Rightarrow> nat \<Rightarrow> node_info \<Rightarrow> 'e + quorum_member" where
  "axis_member score epoch config axis_j node =
     (let axis_ball = (case vget (ni_axis_balls node) axis_j of None \<Rightarrow> [] | Some b \<Rightarrow> b) in
      bindE (score epoch (qc_domain config) axis_j (ni_public_key node) axis_ball) (\<lambda>vrf_score.
        Inr \<lparr>qm_public_key = ni_public_key node, qm_reputation = ni_reputation node, qm_vrf_score = vrf_score,
          qm_axis_id = axis_j, qm_asn = ni_asn node, qm_region = ni_region node\<rparr>))"

definition axis_selection :: "'e score_fun \<Rightarrow> u64 \<Rightarrow> quorum_config \<Rightarrow> node_info list \<Rightarrow> nat \<Rightarrow> 'e + quorum_member list" where
  "axis_selection score epoch config eligible axis_j =
     bindE (mapE (axis_member score epoch config axis_j) eligible) (\<lambda>axis_members.
       Inr (take (qc_members_per_axis config) (sort_key qm_vrf_score axis_members)))"

fun dedup_members :: "public_key set \<Rightarrow> quorum_member list \<Rightarrow> quorum_member list" where
  "dedup_members seen [] = []"
| "dedup_members seen (m # ms) =
     (if qm_public_key m \<in> seen then dedup_members seen ms
      else m # dedup_members (insert (qm_public_key m) seen) ms)"

definition select_committee ::
    "(bytes \<Rightarrow> bytes) \<Rightarrow> vrf_service \<Rightarrow> u64 \<Rightarrow> quorum_config \<Rightarrow> node_info list \<Rightarrow> quorum_error + quorum_result" where
  "select_committee blake3 v epoch config eligible_nodes =
     (let eligible = filter (\<lambda>node. qc_min_reputation config \<le> ni_reputation node) eligible_nodes in
      if eligible = [] then Inl (InsufficientNodes (qc_total_size config) 0)
      else
        bindE (map_sum QuorumVRFError id (get_canonical_randomness v epoch)) (\<lambda>_.
        bindE (map_sum QuorumVRFError id
                (mapE (axis_selection (compute_vrf_score_for_epoch blake3 v) epoch config eligible)
                  [0..<qc_num_axes config])) (\<lambda>selections.
          let unique_members = dedup_members {} (concat selections);
              capped_members = enforce_diversity_caps unique_members
                \<lparr>dc_max_per_asn = qc_max_per_asn config, dc_max_per_region = qc_max_per_region config\<rparr>;
              final_members = take (qc_total_size config) capped_members
          in Inr \<lparr>qr_members = final_members, qr_total_size = length final_members,
                  qr_axes_coverage = map length selections\<rparr>)))"

definition is_in_quorum :: "public_key \<Rightarrow> quorum_result \<Rightarrow> bool" where
  "is_in_quorum node q \<longleftrightarrow> list_ex (\<lambda>m. qm_public_key m = node) (qr_members q)"

definition get_member :: "public_key \<Rightarrow> quorum_result \<Rightarrow> quorum_member option" where
  "get_member node q = find (\<lambda>m. qm_public_key m = node) (qr_members q)"

section \<open>Votes\<close>

record voting_result =
  vr_for :: nat
  vr_against :: nat
  vr_abstain :: nat
  vr_total :: nat
  vr_quorum_size :: nat
  vr_threshold :: f64
  vr_passed :: bool

fun tally_loop :: "'v vote_ops \<Rightarrow> public_key set \<Rightarrow> public_key set \<Rightarrow> 'v list \<Rightarrow> nat \<times> nat \<times> nat \<Rightarrow> nat \<times> nat \<times> nat" where
  "tally_loop ops members voted [] counts = counts"
| "tally_loop ops members voted (v # vs) (nf, na, nb) =
     (let voter = vt_voter ops v in
      if voter \<notin> members then tally_loop ops members voted vs (nf, na, nb)
      else if voter \<in> voted then tally_loop ops members voted vs (nf, na, nb)
      else tally_loop ops members (insert voter voted) vs
             (if vt_is_for ops v then (nf + 1, na, nb)
              else if vt_is_against ops v then (nf, na + 1, nb)
              else if vt_is_abstain ops v then (nf, na, nb + 1)
              else (nf, na, nb)))"

definition verify_quorum_vote :: "'v vote_ops \<Rightarrow> quorum_result \<Rightarrow> 'v list \<Rightarrow> f64 \<Rightarrow> voting_result" where
  "verify_quorum_vote ops q votes threshold =
     (case tally_loop ops (qm_public_key ` set (qr_members q)) {} votes (0, 0, 0) of (nf, na, nb) \<Rightarrow>
        \<lparr>vr_for = nf, vr_against = na, vr_abstain = nb, vr_total = nf + na,
         vr_quorum_size = length (qr_members q), vr_threshold = threshold,
         vr_passed = (if 0 < nf + na then threshold \<le> real nf / real (nf + na) else False)\<rparr>)"

text \<open>Over an empty quorum the participation is NaN or infinite, and the comparison is false.\<close>

definition check_participation :: "voting_result \<Rightarrow> f64 \<Rightarrow> quorum_error + unit" where
  "check_participation r min_ratio =
     (if vr_quorum_size r \<noteq> 0 \<and> real (vr_total r) / real (vr_quorum_size r) < min_ratio
      then Inl (ThresholdNotMet (vr_for r) (vr_quorum_size r) min_ratio) else Inr ())"

definition get_voters_for :: "'v vote_ops \<Rightarrow> 'v list \<Rightarrow> public_key list" where
  "get_voters_for ops votes = map (vt_voter ops) (filter (vt_is_for ops) votes)"

definition get_voters_against :: "'v vote_ops \<Rightarrow> 'v list \<Rightarrow> public_key list" where
  "get_voters_against ops votes = map (vt_voter ops) (filter (vt_is_against ops) votes)"

text \<open>\<^term>\<open>None\<close> stands for the NaNs of an empty quorum.\<close>

definition vote_distribution :: "voting_result \<Rightarrow> (f64 \<times> f64 \<times> f64) option" where
  "vote_distribution r =
     (if vr_quorum_size r = 0 then None
      else let total = real (vr_quorum_size r) in
        Some (real (vr_for r) / total, real (vr_against r) / total, real (vr_abstain r) / total))"

section \<open>The caps are a greedy choice\<close>

definition asn_count :: "u32 \<Rightarrow> quorum_member list \<Rightarrow> nat" where
  "asn_count a ms = length (filter (\<lambda>m. qm_asn m = Some a) ms)"

definition region_count :: "string \<Rightarrow> quorum_member list \<Rightarrow> nat" where
  "region_count r ms = length (filter (\<lambda>m. qm_region m = Some r) ms)"

definition within_caps :: "diversity_caps \<Rightarrow> quorum_member list \<Rightarrow> bool" where
  "within_caps caps ms \<longleftrightarrow>
     (\<forall>a. asn_count a ms \<le> dc_max_per_asn caps) \<and> (\<forall>r. region_count r ms \<le> dc_max_per_region caps)"

lemma count_append [simp]:
  "asn_count a (ms @ [m]) = asn_count a ms + (if qm_asn m = Some a then 1 else 0)"
  "region_count r (ms @ [m]) = region_count r ms + (if qm_region m = Some r then 1 else 0)"
  by (simp_all add: asn_count_def region_count_def)

lemma count_in_bump [simp]: "count_in (bump k counts) x = count_in counts x + (if k = Some x then 1 else 0)"
  by (simp add: count_in_def bump_def split: option.splits)

lemma check_caps_iff:
  "is_ok (check_diversity_caps m current caps) \<longleftrightarrow>
     (\<forall>a. qm_asn m = Some a \<longrightarrow> asn_count a current < dc_max_per_asn caps) \<and>
     (\<forall>r. qm_region m = Some r \<longrightarrow> region_count r current < dc_max_per_region caps)"
  by (auto simp: check_diversity_caps_def asn_count_def region_count_def Let_def not_le split: option.split)

text \<open>One step of the greedy choice.\<close>

definition greedy_step :: "diversity_caps \<Rightarrow> quorum_member list \<Rightarrow> quorum_member \<Rightarrow> quorum_member list" where
  "greedy_step caps acc m = (if is_ok (check_diversity_caps m acc caps) then acc @ [m] else acc)"

lemma greedy_accept: "is_ok (check_diversity_caps m acc caps) \<Longrightarrow> greedy_step caps acc m = acc @ [m]"
  and greedy_reject: "\<not> is_ok (check_diversity_caps m acc caps) \<Longrightarrow> greedy_step caps acc m = acc"
  by (simp_all add: greedy_step_def)

lemma caps_loop_greedy:
  assumes "\<And>a. count_in asn_counts a = asn_count a acc" and "\<And>r. count_in region_counts r = region_count r acc"
  shows "caps_loop caps asn_counts region_counts acc ms = foldl (greedy_step caps) acc ms"
  using assms
proof (induction ms arbitrary: asn_counts region_counts acc)
  case (Cons m ms)
  have ok: "is_ok (check_diversity_caps m acc caps) \<longleftrightarrow>
      (case qm_asn m of None \<Rightarrow> True | Some asn \<Rightarrow> \<not> dc_max_per_asn caps \<le> count_in asn_counts asn) \<and>
      (case qm_region m of None \<Rightarrow> True | Some region \<Rightarrow> \<not> dc_max_per_region caps \<le> count_in region_counts region)"
    using Cons.prems by (auto simp: check_caps_iff not_le split: option.split)
  have "caps_loop caps (bump (qm_asn m) asn_counts) (bump (qm_region m) region_counts) (acc @ [m]) ms =
      foldl (greedy_step caps) (acc @ [m]) ms"
    by (rule Cons.IH) (simp_all add: Cons.prems)
  moreover have "greedy_step caps acc m = (if
      (case qm_asn m of None \<Rightarrow> True | Some asn \<Rightarrow> \<not> dc_max_per_asn caps \<le> count_in asn_counts asn) \<and>
      (case qm_region m of None \<Rightarrow> True | Some region \<Rightarrow> \<not> dc_max_per_region caps \<le> count_in region_counts region)
      then acc @ [m] else acc)"
    by (simp only: greedy_step_def ok)
  ultimately show ?case
    using Cons.IH [OF Cons.prems] by simp
qed simp

lemma enforce_greedy: "enforce_diversity_caps ms caps = foldl (greedy_step caps) [] (sort_key qm_vrf_score ms)"
  unfolding enforce_diversity_caps_def
  by (rule caps_loop_greedy) (simp_all add: count_in_def asn_count_def region_count_def)

lemma greedy_step_within: "within_caps caps acc \<Longrightarrow> within_caps caps (greedy_step caps acc m)"
  by (auto simp: within_caps_def greedy_step_def check_caps_iff Suc_le_eq)

lemma greedy_within: "within_caps caps acc \<Longrightarrow> within_caps caps (foldl (greedy_step caps) acc ms)"
  by (rule foldl_invariant) (simp_all add: greedy_step_within)

lemma greedy_extends: "\<exists>zs. foldl (greedy_step caps) acc ms = acc @ zs \<and> subseq zs ms"
proof (induction ms arbitrary: acc)
  case (Cons m ms)
  obtain zs where zs: "foldl (greedy_step caps) (greedy_step caps acc m) ms = greedy_step caps acc m @ zs" "subseq zs ms"
    using Cons.IH by blast
  show ?case
  proof (cases "is_ok (check_diversity_caps m acc caps)")
    case True
    with zs show ?thesis by (intro exI [of _ "m # zs"]) (simp add: greedy_accept)
  next
    case False
    with zs show ?thesis by (intro exI [of _ zs]) (auto simp: greedy_reject)
  qed
qed simp

lemma check_caps_antimono:
  assumes "is_ok (check_diversity_caps m (acc @ zs) caps)"
  shows "is_ok (check_diversity_caps m acc caps)"
  using assms by (auto simp: check_caps_iff asn_count_def region_count_def)

lemma greedy_maximal:
  assumes "m \<in> set ms" and "m \<notin> set (foldl (greedy_step caps) acc ms)"
  shows "\<not> is_ok (check_diversity_caps m (foldl (greedy_step caps) acc ms) caps)"
  using assms
proof (induction ms arbitrary: acc)
  case (Cons x ms)
  show ?case
  proof (cases "m = x \<and> m \<notin> set ms")
    case True
    obtain zs where zs: "foldl (greedy_step caps) acc (x # ms) = greedy_step caps acc x @ zs"
      using greedy_extends [of caps "greedy_step caps acc x" ms] by auto
    have "\<not> is_ok (check_diversity_caps m acc caps)"
    proof
      assume "is_ok (check_diversity_caps m acc caps)"
      with zs True Cons.prems(2) show False by (simp add: greedy_accept)
    qed
    with zs True show ?thesis
      using check_caps_antimono [of m acc zs caps] by (auto simp: greedy_reject)
  next
    case False
    with Cons show ?thesis by auto
  qed
qed simp

text \<open>Enforcing the caps goes through the members in the order of their scores and keeps exactly those
  that \<open>check_diversity_caps\<close> lets join the ones kept so far. The result respects both caps and is
  maximal: no member that was left out could be added.\<close>

theorem caps_greedy_maximal:
  "enforce_diversity_caps ms caps =
     foldl (\<lambda>acc m. if is_ok (check_diversity_caps m acc caps) then acc @ [m] else acc) [] (sort_key qm_vrf_score ms) \<and>
   (\<forall>a. asn_count a (enforce_diversity_caps ms caps) \<le> dc_max_per_asn caps) \<and>
   (\<forall>r. region_count r (enforce_diversity_caps ms caps) \<le> dc_max_per_region caps) \<and>
   {m \<in> set ms. is_ok (check_diversity_caps m (enforce_diversity_caps ms caps) caps)} \<subseteq> set (enforce_diversity_caps ms caps)"
proof (intro conjI)
  show "enforce_diversity_caps ms caps =
     foldl (\<lambda>acc m. if is_ok (check_diversity_caps m acc caps) then acc @ [m] else acc) [] (sort_key qm_vrf_score ms)"
    by (simp add: enforce_greedy greedy_step_def [abs_def])
  have "within_caps caps (enforce_diversity_caps ms caps)"
    unfolding enforce_greedy by (rule greedy_within) (simp add: within_caps_def asn_count_def region_count_def)
  then show "\<forall>a. asn_count a (enforce_diversity_caps ms caps) \<le> dc_max_per_asn caps"
    "\<forall>r. region_count r (enforce_diversity_caps ms caps) \<le> dc_max_per_region caps"
    by (simp_all add: within_caps_def)
  show "{m \<in> set ms. is_ok (check_diversity_caps m (enforce_diversity_caps ms caps) caps)}
      \<subseteq> set (enforce_diversity_caps ms caps)"
    using greedy_maximal [of _ "sort_key qm_vrf_score ms" caps "[]"] unfolding enforce_greedy by auto
qed

section \<open>Committees\<close>

text \<open>A node as a member of an axis, with the score it gets from the randomness \<open>r\<close>.\<close>

definition as_member :: "(bytes \<Rightarrow> bytes \<Rightarrow> nat \<Rightarrow> bytes \<Rightarrow> bytes \<Rightarrow> bytes) \<Rightarrow> bytes \<Rightarrow> quorum_config \<Rightarrow> nat \<Rightarrow> node_info \<Rightarrow> quorum_member" where
  "as_member value_of r config j n =
     \<lparr>qm_public_key = ni_public_key n, qm_reputation = ni_reputation n,
      qm_vrf_score = value_of r (qc_domain config) j (ni_public_key n)
        (case vget (ni_axis_balls n) j of None \<Rightarrow> [] | Some b \<Rightarrow> b),
      qm_axis_id = j, qm_asn = ni_asn n, qm_region = ni_region n\<rparr>"

text \<open>The interface of the service that hands out randomness: a score is a function of the epoch's
  randomness, and is refused for the reason the randomness is.\<close>

locale score_service =
  fixes rand :: "u64 \<Rightarrow> 'e + bytes" and score :: "'e score_fun"
    and value_of :: "bytes \<Rightarrow> bytes \<Rightarrow> nat \<Rightarrow> bytes \<Rightarrow> bytes \<Rightarrow> bytes"
  assumes score_by_rand: "score epoch d j node ball = bindE (rand epoch) (\<lambda>r. Inr (value_of r d j node ball))"
begin

lemma score_Inr: "rand epoch = Inr r \<Longrightarrow> score epoch d j node ball = Inr (value_of r d j node ball)"
  by (simp add: score_by_rand)

lemma axis_member_total: "rand epoch = Inr r \<Longrightarrow> axis_member score epoch config j n = Inr (as_member value_of r config j n)"
  by (simp add: axis_member_def as_member_def score_Inr)

lemma axis_selection_total:
  assumes "rand epoch = Inr r"
  shows "axis_selection score epoch config eligible j =
    Inr (take (qc_members_per_axis config) (sort_key qm_vrf_score (map (as_member value_of r config j) eligible)))"
  by (simp add: axis_selection_def mapE_total [OF axis_member_total [OF assms]])

lemma all_axes_total:
  assumes "rand epoch = Inr r"
  shows "mapE (axis_selection score epoch config eligible) js =
    Inr (map (\<lambda>j. take (qc_members_per_axis config) (sort_key qm_vrf_score (map (as_member value_of r config j) eligible))) js)"
  by (rule mapE_total) (rule axis_selection_total [OF assms])

end

interpretation vrf: score_service "get_canonical_randomness v" "compute_vrf_score_for_epoch blake3 v" "compute_vrf_score blake3"
  for blake3 v
  by unfold_locales (simp add: compute_vrf_score_for_epoch_def)

lemma dedup_members_props:
  "distinct (map qm_public_key (dedup_members seen ms)) \<and> set (dedup_members seen ms) \<subseteq> set ms \<and>
   qm_public_key ` set (dedup_members seen ms) = qm_public_key ` set ms - seen"
  by (induction ms arbitrary: seen) auto

lemma distinct_subseq_map: "subseq zs ms \<Longrightarrow> distinct (map f ms) \<Longrightarrow> distinct (map f zs)"
  by (metis subseq_map subseq_conv_nths distinct_nthsI)

lemma sorted_subseq: "subseq zs ms \<Longrightarrow> sorted (map f ms) \<Longrightarrow> sorted (map f zs)"
  by (metis subseq_map subseq_conv_nths sorted_nths)

text \<open>What makes up a committee once the randomness \<open>r\<close> of the epoch is known.\<close>

definition axis_choice :: "(bytes \<Rightarrow> bytes) \<Rightarrow> bytes \<Rightarrow> quorum_config \<Rightarrow> node_info list \<Rightarrow> nat \<Rightarrow> quorum_member list" where
  "axis_choice blake3 r config nodes j =
     take (qc_members_per_axis config) (sort_key qm_vrf_score (map (as_member (compute_vrf_score blake3) r config j)
       (filter (\<lambda>n. qc_min_reputation config \<le> ni_reputation n) nodes)))"

definition committee_of :: "(bytes \<Rightarrow> bytes) \<Rightarrow> bytes \<Rightarrow> quorum_config \<Rightarrow> node_info list \<Rightarrow> quorum_member list" where
  "committee_of blake3 r config nodes =
     take (qc_total_size config)
       (enforce_diversity_caps (dedup_members {} (concat (map (axis_choice blake3 r config nodes) [0..<qc_num_axes config])))
          \<lparr>dc_max_per_asn = qc_max_per_asn config, dc_max_per_region = qc_max_per_region config\<rparr>)"

lemma select_committee_eq:
  "select_committee blake3 v epoch config nodes =
     (if \<exists>n. n \<in> set nodes \<and> qc_min_reputation config \<le> ni_reputation n
      then (case get_canonical_randomness v epoch of
              Inl e \<Rightarrow> Inl (QuorumVRFError e)
            | Inr r \<Rightarrow> Inr \<lparr>qr_members = committee_of blake3 r config nodes,
                qr_total_size = length (committee_of blake3 r config nodes),
                qr_axes_coverage = map (\<lambda>j. length (axis_choice blake3 r config nodes j)) [0..<qc_num_axes config]\<rparr>)
      else Inl (InsufficientNodes (qc_total_size config) 0))"
proof -
  have "filter (\<lambda>n. qc_min_reputation config \<le> ni_reputation n) nodes \<noteq> [] \<longleftrightarrow>
      (\<exists>n. n \<in> set nodes \<and> qc_min_reputation config \<le> ni_reputation n)"
    by (auto simp: filter_empty_conv)
  moreover have "[length (axis_choice blake3 r config nodes j). j \<leftarrow> [0..<qc_num_axes config]] =
      map length (map (axis_choice blake3 r config nodes) [0..<qc_num_axes config])" for r
    by (simp add: comp_def)
  ultimately show ?thesis
    by (cases "get_canonical_randomness v epoch")
      (auto simp: select_committee_def Let_def vrf.all_axes_total committee_of_def axis_choice_def [abs_def] comp_def)
qed

lemma enforce_subseq: "subseq (enforce_diversity_caps ms caps) (sort_key qm_vrf_score ms)"
  using greedy_extends [of caps "[]" "sort_key qm_vrf_score ms"] by (auto simp: enforce_greedy)

lemma subseq_set: "subseq xs ys \<Longrightarrow> set xs \<subseteq> set ys"
  by (metis subseq_conv_nths set_nths_subset)

lemma committee_subseq:
  "subseq (committee_of blake3 r config nodes)
     (sort_key qm_vrf_score (dedup_members {} (concat (map (axis_choice blake3 r config nodes) [0..<qc_num_axes config]))))"
  unfolding committee_of_def
  by (meson enforce_subseq subseq_order.trans prefix_imp_subseq take_is_prefix)

lemma axis_choice_member:
  assumes "m \<in> set (axis_choice blake3 r config nodes j)"
  shows "\<exists>n. n \<in> set nodes \<and> qc_min_reputation config \<le> ni_reputation n \<and> m = as_member (compute_vrf_score blake3) r config j n"
proof -
  have "m \<in> set (sort_key qm_vrf_score (map (as_member (compute_vrf_score blake3) r config j)
       (filter (\<lambda>n. qc_min_reputation config \<le> ni_reputation n) nodes)))"
    using assms unfolding axis_choice_def by (rule in_set_takeD)
  then show ?thesis by auto
qed

lemma committee_member:
  assumes "m \<in> set (committee_of blake3 r config nodes)"
  shows "\<exists>n j. n \<in> set nodes \<and> j < qc_num_axes config \<and> qc_min_reputation config \<le> ni_reputation n \<and>
    m = as_member (compute_vrf_score blake3) r config j n"
proof -
  have "m \<in> set (dedup_members {} (concat (map (axis_choice blake3 r config nodes) [0..<qc_num_axes config])))"
    using assms subseq_set [OF committee_subseq, of blake3 r config nodes] by auto
  then have "m \<in> set (concat (map (axis_choice blake3 r config nodes) [0..<qc_num_axes config]))"
    using dedup_members_props by blast
  then obtain j where "j < qc_num_axes config" "m \<in> set (axis_choice blake3 r config nodes j)" by auto
  then show ?thesis using axis_choice_member by blast
qed

lemma committee_distinct: "distinct (map qm_public_key (committee_of blake3 r config nodes))"
proof (rule distinct_subseq_map [OF committee_subseq])
  have "mset (map qm_public_key (sort_key qm_vrf_score ms)) = mset (map qm_public_key ms)" for ms
    by (simp add: mset_map)
  then have "distinct (map qm_public_key (sort_key qm_vrf_score ms)) = distinct (map qm_public_key ms)" for ms
    by (rule mset_eq_imp_distinct_iff)
  then show "distinct (map qm_public_key (sort_key qm_vrf_score (dedup_members {}
      (concat (map (axis_choice blake3 r config nodes) [0..<qc_num_axes config])))))"
    using dedup_members_props by blast
qed

lemma committee_within:
  "asn_count a (committee_of blake3 r config nodes) \<le> qc_max_per_asn config \<and>
   region_count g (committee_of blake3 r config nodes) \<le> qc_max_per_region config"
proof -
  define caps where "caps = \<lparr>dc_max_per_asn = qc_max_per_asn config, dc_max_per_region = qc_max_per_region config\<rparr>"
  define all where "all = dedup_members {} (concat (map (axis_choice blake3 r config nodes) [0..<qc_num_axes config]))"
  have "within_caps caps (enforce_diversity_caps all caps)"
    unfolding enforce_greedy by (rule greedy_within) (simp add: within_caps_def asn_count_def region_count_def)
  moreover have "length (filter P (take n xs)) \<le> length (filter P xs)" for P n and xs :: "quorum_member list"
    by (metis append_take_drop_id filter_append le_add1 length_append)
  ultimately show ?thesis
    unfolding committee_of_def all_def [symmetric] caps_def [symmetric] asn_count_def region_count_def within_caps_def
    by (metis (no_types, lifting) caps_def diversity_caps.select_convs order_trans)
qed

text \<open>A member of a committee: an eligible node with its score on an axis.\<close>

definition eligible_member ::
    "(bytes \<Rightarrow> bytes) \<Rightarrow> vrf_service \<Rightarrow> u64 \<Rightarrow> quorum_config \<Rightarrow> node_info list \<Rightarrow> quorum_member \<Rightarrow> bool" where
  "eligible_member blake3 v epoch config nodes m \<longleftrightarrow>
     (\<exists>n j. n \<in> set nodes \<and> qc_min_reputation config \<le> ni_reputation n \<and>
        qm_public_key m = ni_public_key n \<and> qm_reputation m = ni_reputation n \<and>
        qm_asn m = ni_asn n \<and> qm_region m = ni_region n \<and> qm_axis_id m = j \<and> j < qc_num_axes config \<and>
        compute_vrf_score_for_epoch blake3 v epoch (qc_domain config) j (ni_public_key n)
          (case vget (ni_axis_balls n) j of None \<Rightarrow> [] | Some b \<Rightarrow> b) = Inr (qm_vrf_score m))"


section \<open>Tallies\<close>

text \<open>The methods of a vote that can only be for, against or an abstention.\<close>

locale quorum_vote =
  fixes ops :: "'v vote_ops"
  assumes one_kind: "\<not> (vt_is_for ops v \<and> vt_is_against ops v)" "\<not> (vt_is_for ops v \<and> vt_is_abstain ops v)"
    "\<not> (vt_is_against ops v \<and> vt_is_abstain ops v)"

text \<open>The first vote of \<open>u\<close>, and the members whose first vote is of a kind.\<close>

definition first_vote :: "'v vote_ops \<Rightarrow> 'v list \<Rightarrow> public_key \<Rightarrow> 'v option" where
  "first_vote ops votes u = find (\<lambda>v. vt_voter ops v = u) votes"

definition first_voters :: "'v vote_ops \<Rightarrow> ('v \<Rightarrow> bool) \<Rightarrow> public_key set \<Rightarrow> 'v list \<Rightarrow> public_key set" where
  "first_voters ops kind members votes = {u \<in> members. \<exists>v. first_vote ops votes u = Some v \<and> kind v}"

lemma first_voters_Nil [simp]: "first_voters ops kind members [] = {}"
  by (simp add: first_voters_def first_vote_def)

lemma first_voters_Cons:
  "first_voters ops kind members (v # vs) =
     (if vt_voter ops v \<in> members \<and> kind v then {vt_voter ops v} else {}) \<union>
     first_voters ops kind (members - {vt_voter ops v}) vs"
  by (auto simp: first_voters_def first_vote_def)

lemma card_first_voters_Cons:
  assumes "finite members"
  shows "card (first_voters ops kind members (v # vs)) =
     (if vt_voter ops v \<in> members \<and> kind v then 1 else 0) + card (first_voters ops kind (members - {vt_voter ops v}) vs)"
proof -
  have "finite (first_voters ops kind (members - {vt_voter ops v}) vs)"
    using assms by (simp add: first_voters_def)
  moreover have "vt_voter ops v \<notin> first_voters ops kind (members - {vt_voter ops v}) vs"
    by (simp add: first_voters_def)
  ultimately show ?thesis by (simp add: first_voters_Cons)
qed

context quorum_vote
begin

lemma tally_loop_counts:
  assumes "finite members"
  shows "tally_loop ops members voted votes (nf, na, nb) =
    (nf + card (first_voters ops (vt_is_for ops) (members - voted) votes),
     na + card (first_voters ops (vt_is_against ops) (members - voted) votes),
     nb + card (first_voters ops (vt_is_abstain ops) (members - voted) votes))"
proof (induction votes arbitrary: voted nf na nb)
  case (Cons v vs)
  have fin: "finite (members - voted)" using assms by simp
  show ?case
  proof (cases "vt_voter ops v \<in> members - voted")
    case True
    then have "members - voted - {vt_voter ops v} = members - insert (vt_voter ops v) voted" by blast
    with True Cons.IH show ?thesis
      using one_kind [of v] by (simp add: card_first_voters_Cons [OF fin] Let_def)
  next
    case False
    then have "members - voted - {vt_voter ops v} = members - voted" by blast
    with False Cons.IH show ?thesis
      by (auto simp: card_first_voters_Cons [OF fin] Let_def)
  qed
qed simp

lemma tally_eq:
  assumes "q = verify_quorum_vote ops quorum votes threshold"
  defines "members \<equiv> qm_public_key ` set (qr_members quorum)"
  shows "vr_for q = card (first_voters ops (vt_is_for ops) members votes)"
    and "vr_against q = card (first_voters ops (vt_is_against ops) members votes)"
    and "vr_abstain q = card (first_voters ops (vt_is_abstain ops) members votes)"
    and "vr_total q = vr_for q + vr_against q"
    and "vr_quorum_size q = length (qr_members quorum)"
    and "vr_passed q \<longleftrightarrow> 0 < vr_for q + vr_against q \<and> threshold * real (vr_for q + vr_against q) \<le> real (vr_for q)"
  using assms tally_loop_counts [of members "{}" votes 0 0 0]
  by (simp_all add: verify_quorum_vote_def members_def pos_le_divide_eq)

lemma tally_bounded:
  assumes "q = verify_quorum_vote ops quorum votes threshold"
  shows "vr_for q + vr_against q + vr_abstain q \<le> vr_quorum_size q"
proof -
  define members where "members = qm_public_key ` set (qr_members quorum)"
  let ?F = "\<lambda>kind. first_voters ops kind members votes"
  have fin: "finite members" by (simp add: members_def)
  then have "finite (?F k)" for k by (simp add: first_voters_def)
  moreover have "?F (vt_is_for ops) \<inter> ?F (vt_is_against ops) = {}"
    "(?F (vt_is_for ops) \<union> ?F (vt_is_against ops)) \<inter> ?F (vt_is_abstain ops) = {}"
    using one_kind by (auto simp: first_voters_def)
  ultimately have "card (?F (vt_is_for ops)) + card (?F (vt_is_against ops)) + card (?F (vt_is_abstain ops)) =
      card (?F (vt_is_for ops) \<union> ?F (vt_is_against ops) \<union> ?F (vt_is_abstain ops))"
    by (simp add: card_Un_disjoint)
  also have "\<dots> \<le> card members" using fin by (intro card_mono) (auto simp: first_voters_def)
  also have "\<dots> \<le> length (qr_members quorum)"
    unfolding members_def by (metis card_length list.set_map length_map)
  finally show ?thesis using tally_eq [OF assms] by (simp add: members_def)
qed

end

interpretation simple: quorum_vote simple_vote_ops
  by unfold_locales (simp_all add: simple_vote_ops_def)

text \<open>A tally counts every member of the quorum once, by the first vote it cast, and nobody else: the
  votes for and against and the abstentions are the numbers of members whose first vote is of that
  kind, together at most the size of the quorum, and the vote passes exactly when some vote counts and the
  votes for reach the threshold's share of those for and against.\<close>

theorem tally_counts_first_votes:
  "let r = verify_quorum_vote simple_vote_ops q votes threshold; members = qm_public_key ` set (qr_members q) in
   vr_for r = card (first_voters simple_vote_ops (\<lambda>v. sv_type v = VoteFor) members votes) \<and>
   vr_against r = card (first_voters simple_vote_ops (\<lambda>v. sv_type v = VoteAgainst) members votes) \<and>
   vr_abstain r = card (first_voters simple_vote_ops (\<lambda>v. sv_type v = VoteAbstain) members votes) \<and>
   vr_for r + vr_against r + vr_abstain r \<le> vr_quorum_size r \<and>
   (vr_passed r \<longleftrightarrow> 0 < vr_for r + vr_against r \<and> threshold * real (vr_for r + vr_against r) \<le> real (vr_for r))"
  using simple.tally_eq [OF refl, of q votes threshold] simple.tally_bounded [OF refl, of q votes threshold]
  by (simp add: Let_def simple_vote_ops_def)

end
