(* ===== verification/Challenges.thy ===== *)
theory Challenges
  imports Quorum
begin

text \<open>
  Challenges of \<open>crates/adic-challenges/src\<close>: \<open>types.rs\<close> and \<open>window.rs\<close> (the
  window in which a subject can be challenged), \<open>fraud_proof.rs\<close> (fraud proofs and their
  evidence) and \<open>adjudication.rs\<close> (the ruling of a committee). Epochs are \<open>u64\<close> and the sums
  of epochs wrap around. Strings are their UTF-8 bytes; \<open>blake3\<close> and \<open>hex\<close> are parameters;
  metrics are omitted.
\<close>

section \<open>Types\<close>

record challenge_config =
  cc_window_depth :: u64
  cc_fraud_proof_deposit_factor :: u64
  cc_dispute_deposit_factor :: u64
  cc_arbitrator_minority_penalty :: f64

definition challenge_config_default :: challenge_config where
  "challenge_config_default =
     \<lparr>cc_window_depth = 100, cc_fraud_proof_deposit_factor = 10, cc_dispute_deposit_factor = 5,
      cc_arbitrator_minority_penalty = -2\<rparr>"

datatype challenge_status = WindowActive | WindowChallenged | WindowFinalized | WindowSlashed

datatype dispute_ruling = ChallengerWins | SubjectWins | PartialRuling | Inconclusive

datatype fraud_type = DataCorruption | IncorrectProof | TaskAbandonment | InvalidResult | CustomFraud bytes

record fraud_evidence =
  fe_fraud_type :: fraud_type
  fe_evidence_cid :: bytes
  fe_evidence_data :: "bytes option"
  fe_metadata :: "bytes \<rightharpoonup> bytes"

record challenge_metadata =
  cm_id :: bytes
  cm_subject_id :: message_id
  cm_challenger :: public_key
  cm_submitted_at :: u64
  cm_window_expiry :: u64
  cm_status :: challenge_status

datatype challenge_error =
    WindowExpired bytes | WindowNotFound bytes | InvalidFraudProof | ChallengeQuorumError quorum_error
  | WindowNotActive

section \<open>Windows\<close>

record challenge_window =
  cw_metadata :: challenge_metadata
  cw_config :: challenge_config

definition challenge_window_new :: "(bytes \<Rightarrow> bytes) \<Rightarrow> message_id \<Rightarrow> u64 \<Rightarrow> challenge_config \<Rightarrow> challenge_window" where
  "challenge_window_new hex subject_id submitted_at config =
     \<lparr>cw_metadata = \<lparr>cm_id = hex subject_id, cm_subject_id = subject_id, cm_challenger = replicate 32 0,
        cm_submitted_at = submitted_at, cm_window_expiry = submitted_at + cc_window_depth config,
        cm_status = WindowActive\<rparr>,
      cw_config = config\<rparr>"

definition window_status :: "challenge_window \<Rightarrow> challenge_status" where
  "window_status w = cm_status (cw_metadata w)"

definition window_is_active :: "u64 \<Rightarrow> challenge_window \<Rightarrow> bool" where
  "window_is_active current_epoch w \<longleftrightarrow>
     cm_status (cw_metadata w) = WindowActive \<and> current_epoch \<le> cm_window_expiry (cw_metadata w)"

definition window_is_expired :: "u64 \<Rightarrow> challenge_window \<Rightarrow> bool" where
  "window_is_expired current_epoch w \<longleftrightarrow> cm_window_expiry (cw_metadata w) < current_epoch"

definition mark_challenged :: "public_key \<Rightarrow> challenge_window \<Rightarrow> challenge_window" where
  "mark_challenged challenger w =
     w\<lparr>cw_metadata := (cw_metadata w)\<lparr>cm_status := WindowChallenged, cm_challenger := challenger\<rparr>\<rparr>"

definition mark_finalized :: "challenge_window \<Rightarrow> challenge_window" where
  "mark_finalized w = w\<lparr>cw_metadata := (cw_metadata w)\<lparr>cm_status := WindowFinalized\<rparr>\<rparr>"

definition mark_slashed :: "challenge_window \<Rightarrow> challenge_window" where
  "mark_slashed w = w\<lparr>cw_metadata := (cw_metadata w)\<lparr>cm_status := WindowSlashed\<rparr>\<rparr>"

record window_manager =
  wm_windows :: "message_id \<rightharpoonup> challenge_window"
  wm_config :: challenge_config

type_synonym 'a window_op = "(challenge_error, window_manager, 'a) rop"

definition window_manager_new :: "challenge_config \<Rightarrow> window_manager" where
  "window_manager_new config = \<lparr>wm_windows = Map.empty, wm_config = config\<rparr>"

definition put_window :: "message_id \<Rightarrow> challenge_window \<Rightarrow> window_manager \<Rightarrow> window_manager" where
  "put_window i w m = m\<lparr>wm_windows := (wm_windows m)(i \<mapsto> w)\<rparr>"

definition open_window :: "(bytes \<Rightarrow> bytes) \<Rightarrow> message_id \<Rightarrow> u64 \<Rightarrow> unit window_op" where
  "open_window hex subject_id submitted_at m =
     (Inr (), put_window subject_id (challenge_window_new hex subject_id submitted_at (wm_config m)) m)"

text \<open>The test that the status is \<open>Active\<close> repeats a part of \<open>is_active\<close>.\<close>

definition submit_challenge :: "(bytes \<Rightarrow> bytes) \<Rightarrow> message_id \<Rightarrow> public_key \<Rightarrow> u64 \<Rightarrow> unit window_op" where
  "submit_challenge hex subject_id challenger current_epoch m =
     (case wm_windows m subject_id of
        None \<Rightarrow> (Inl (WindowNotFound (hex subject_id)), m)
      | Some w \<Rightarrow>
          (if \<not> window_is_active current_epoch w then (Inl (WindowExpired (cm_id (cw_metadata w))), m)
           else if window_status w \<noteq> WindowActive then (Inl WindowNotActive, m)
           else (Inr (), put_window subject_id (mark_challenged challenger w) m)))"

definition finalize_window :: "(bytes \<Rightarrow> bytes) \<Rightarrow> message_id \<Rightarrow> u64 \<Rightarrow> unit window_op" where
  "finalize_window hex subject_id current_epoch m =
     (case wm_windows m subject_id of
        None \<Rightarrow> (Inl (WindowNotFound (hex subject_id)), m)
      | Some w \<Rightarrow>
          (if \<not> window_is_expired current_epoch w then (Inl WindowNotActive, m)
           else if window_status w = WindowChallenged then (Inl WindowNotActive, m)
           else (Inr (), put_window subject_id (mark_finalized w) m)))"

definition slash_window :: "(bytes \<Rightarrow> bytes) \<Rightarrow> message_id \<Rightarrow> unit window_op" where
  "slash_window hex subject_id m =
     (case wm_windows m subject_id of
        None \<Rightarrow> (Inl (WindowNotFound (hex subject_id)), m)
      | Some w \<Rightarrow> (Inr (), put_window subject_id (mark_slashed w) m))"

definition get_window :: "window_manager \<Rightarrow> message_id \<Rightarrow> challenge_window option" where
  "get_window m subject_id = wm_windows m subject_id"

text \<open>The values of the map, in no particular order.\<close>

definition get_active_windows :: "window_manager \<Rightarrow> u64 \<Rightarrow> challenge_window set" where
  "get_active_windows m current_epoch = {w \<in> ran (wm_windows m). window_is_active current_epoch w}"

definition get_expired_windows :: "window_manager \<Rightarrow> u64 \<Rightarrow> challenge_window set" where
  "get_expired_windows m current_epoch =
     {w \<in> ran (wm_windows m). window_is_expired current_epoch w \<and> window_status w = WindowActive}"

definition cleanup_finalized :: "nat window_op" where
  "cleanup_finalized m =
     (let retained = (\<lambda>i. case wm_windows m i of
            None \<Rightarrow> None
          | Some w \<Rightarrow> (if window_status w \<in> {WindowFinalized, WindowSlashed} then None else Some w))
      in (Inr (card (dom (wm_windows m)) - card (dom retained)), m\<lparr>wm_windows := retained\<rparr>))"

section \<open>Fraud proofs\<close>

record fraud_proof =
  fp_id :: message_id
  fp_subject_id :: message_id
  fp_challenger :: public_key
  fp_evidence :: fraud_evidence
  fp_submitted_at :: u64

definition message_id_new :: "(bytes \<Rightarrow> bytes) \<Rightarrow> bytes \<Rightarrow> message_id" where
  "message_id_new blake3 data = blake3 data"

definition fraud_proof_data :: "message_id \<Rightarrow> public_key \<Rightarrow> fraud_evidence \<Rightarrow> u64 \<Rightarrow> bytes" where
  "fraud_proof_data subject_id challenger evidence submitted_at =
     subject_id @ challenger @ le_bytes submitted_at @ fe_evidence_cid evidence"

definition fraud_proof_new ::
    "(bytes \<Rightarrow> bytes) \<Rightarrow> message_id \<Rightarrow> public_key \<Rightarrow> fraud_evidence \<Rightarrow> u64 \<Rightarrow> fraud_proof" where
  "fraud_proof_new blake3 subject_id challenger evidence submitted_at =
     \<lparr>fp_id = message_id_new blake3 (fraud_proof_data subject_id challenger evidence submitted_at),
      fp_subject_id = subject_id, fp_challenger = challenger, fp_evidence = evidence,
      fp_submitted_at = submitted_at\<rparr>"

definition verify_structure :: "fraud_proof \<Rightarrow> challenge_error + unit" where
  "verify_structure proof = (if fe_evidence_cid (fp_evidence proof) = [] then Inl InvalidFraudProof else Inr ())"

definition verify_evidence :: "fraud_proof \<Rightarrow> bytes \<Rightarrow> bytes \<Rightarrow> bool" where
  "verify_evidence proof subject_data expected_data \<longleftrightarrow> subject_data \<noteq> expected_data"

definition hash_evidence :: "(bytes \<Rightarrow> bytes) \<Rightarrow> bytes \<Rightarrow> bytes" where
  "hash_evidence blake3 data = blake3 data"

definition verify_evidence_hash :: "(bytes \<Rightarrow> bytes) \<Rightarrow> (bytes \<Rightarrow> bytes) \<Rightarrow> fraud_evidence \<Rightarrow> bytes \<Rightarrow> bool" where
  "verify_evidence_hash blake3 hex evidence actual_data \<longleftrightarrow>
     fe_evidence_cid evidence = hex (hash_evidence blake3 actual_data)"

section \<open>Adjudication\<close>

datatype vote_decision = ValidProof | InvalidProof

record arbitrator_vote =
  av_voter :: public_key
  av_vote :: vote_decision
  av_submitted_at :: u64

definition arbitrator_vote_ops :: "arbitrator_vote vote_ops" where
  "arbitrator_vote_ops =
     \<lparr>vt_voter = av_voter, vt_is_for = (\<lambda>v. av_vote v = ValidProof), vt_is_against = (\<lambda>v. av_vote v = InvalidProof),
      vt_is_abstain = (\<lambda>v. False)\<rparr>"

record adjudication_result =
  aj_fraud_proof_id :: message_id
  aj_ruling :: dispute_ruling
  aj_quorum :: quorum_result
  aj_votes_for :: "arbitrator_vote list"
  aj_votes_against :: "arbitrator_vote list"
  aj_total_votes :: nat
  aj_threshold_met :: bool
  aj_adjudicated_at :: u64

record adjudication_config =
  ac_quorum :: quorum_config
  ac_ruling_threshold :: f64
  ac_voting_window :: u64

definition adjudication_config_default :: adjudication_config where
  "adjudication_config_default =
     \<lparr>ac_quorum = quorum_config_default, ac_ruling_threshold = 66 / 100, ac_voting_window = 50\<rparr>"

definition select_arbitrators ::
    "(bytes \<Rightarrow> bytes) \<Rightarrow> vrf_service \<Rightarrow> adjudication_config \<Rightarrow> fraud_proof \<Rightarrow> node_info list \<Rightarrow> challenge_error + quorum_result" where
  "select_arbitrators blake3 v config proof nodes =
     map_sum ChallengeQuorumError id (select_committee blake3 v (fp_submitted_at proof) (ac_quorum config) nodes)"

definition adjudicate ::
    "(bytes \<Rightarrow> bytes) \<Rightarrow> adjudication_config \<Rightarrow> fraud_proof \<Rightarrow> quorum_result \<Rightarrow> arbitrator_vote list \<Rightarrow> u64 \<Rightarrow>
     challenge_error + adjudication_result" where
  "adjudicate hex config proof quorum votes current_epoch =
     (if fp_submitted_at proof + ac_voting_window config < current_epoch then Inl (WindowExpired (hex (fp_id proof)))
      else
        (let vote_result = verify_quorum_vote arbitrator_vote_ops quorum votes (ac_ruling_threshold config);
             votes_for = filter (\<lambda>v. av_vote v = ValidProof) votes;
             votes_against = filter (\<lambda>v. av_vote v = InvalidProof) votes;
             ruling = (if vr_passed vote_result then ChallengerWins
               else if length (qr_members quorum) div 2 \<le> length votes then SubjectWins
               else Inconclusive)
         in Inr \<lparr>aj_fraud_proof_id = fp_id proof, aj_ruling = ruling, aj_quorum = quorum, aj_votes_for = votes_for,
              aj_votes_against = votes_against, aj_total_votes = length votes,
              aj_threshold_met = vr_passed vote_result, aj_adjudicated_at = current_epoch\<rparr>))"

definition adjudicate_with_selection ::
    "(bytes \<Rightarrow> bytes) \<Rightarrow> (bytes \<Rightarrow> bytes) \<Rightarrow> vrf_service \<Rightarrow> adjudication_config \<Rightarrow> fraud_proof \<Rightarrow> node_info list \<Rightarrow>
     arbitrator_vote list \<Rightarrow> u64 \<Rightarrow> challenge_error + adjudication_result" where
  "adjudicate_with_selection blake3 hex v config proof nodes votes current_epoch =
     bindE (select_arbitrators blake3 v config proof nodes) (\<lambda>quorum.
       adjudicate hex config proof quorum votes current_epoch)"

section \<open>The life of a window\<close>

text \<open>The protocol one window follows, as a step relation on what the manager holds for a subject.\<close>

datatype window_event =
    OpenWindow u64
  | Challenge public_key u64
  | FinalizeWindow u64
  | SlashWindow
  | Cleanup

inductive window_step ::
    "(bytes \<Rightarrow> bytes) \<Rightarrow> challenge_config \<Rightarrow> message_id \<Rightarrow> window_event \<Rightarrow> challenge_window option \<Rightarrow>
     challenge_window option \<Rightarrow> bool" for hex config i where
  opened: "window_step hex config i (OpenWindow e) w (Some (challenge_window_new hex i e config))"
| challenged: "window_is_active e w \<Longrightarrow>
    window_step hex config i (Challenge pk e) (Some w) (Some (mark_challenged pk w))"
| finalized: "window_is_expired e w \<Longrightarrow> window_status w \<noteq> WindowChallenged \<Longrightarrow>
    window_step hex config i (FinalizeWindow e) (Some w) (Some (mark_finalized w))"
| slashed: "window_step hex config i SlashWindow (Some w) (Some (mark_slashed w))"
| removed: "window_status w \<in> {WindowFinalized, WindowSlashed} \<Longrightarrow>
    window_step hex config i Cleanup (Some w) None"

inductive_cases window_stepE: "window_step hex config i ev w w'"

text \<open>The commands of the manager and the event a command is for the subject \<open>i\<close>.\<close>

type_synonym window_cmd = "message_id \<times> window_event"

definition window_exec :: "(bytes \<Rightarrow> bytes) \<Rightarrow> window_manager \<Rightarrow> window_cmd \<Rightarrow> window_manager" where
  "window_exec hex m c =
     (case c of (i, ev) \<Rightarrow>
        (case ev of
           OpenWindow e \<Rightarrow> snd (open_window hex i e m)
         | Challenge pk e \<Rightarrow> snd (submit_challenge hex i pk e m)
         | FinalizeWindow e \<Rightarrow> snd (finalize_window hex i e m)
         | SlashWindow \<Rightarrow> snd (slash_window hex i m)
         | Cleanup \<Rightarrow> snd (cleanup_finalized m)))"

lemmas window_ops_defs =
  open_window_def submit_challenge_def finalize_window_def slash_window_def cleanup_finalized_def put_window_def

lemma window_exec_config [simp]: "wm_config (window_exec hex m c) = wm_config m"
  by (auto simp: window_exec_def window_ops_defs Let_def split: option.split prod.split window_event.split)

lemma window_run_config [simp]: "wm_config (foldl (window_exec hex) m cmds) = wm_config m"
  by (induction cmds arbitrary: m) simp_all

text \<open>A command for a subject is a step of its window or leaves it alone, and leaves the windows of the other
  subjects alone, except that \<open>cleanup_finalized\<close> goes over all of them.\<close>

lemma window_exec_refines:
  "wm_windows (window_exec hex m (j, ev)) i = wm_windows m i \<or>
   (ev = Cleanup \<or> j = i) \<and>
     window_step hex (wm_config m) i ev (wm_windows m i) (wm_windows (window_exec hex m (j, ev)) i)"
proof (cases ev)
  case (Challenge pk e)
  then show ?thesis
    by (cases "wm_windows m j") (auto simp: window_exec_def window_ops_defs window_step.challenged)
next
  case (FinalizeWindow e)
  then show ?thesis
    by (cases "wm_windows m j") (auto simp: window_exec_def window_ops_defs window_step.finalized)
next
  case SlashWindow
  then show ?thesis
    by (cases "wm_windows m j") (auto simp: window_exec_def window_ops_defs window_step.slashed)
next
  case Cleanup
  then show ?thesis
    by (cases "wm_windows m i") (auto simp: window_exec_def window_ops_defs Let_def intro: window_step.removed)
qed (auto simp: window_exec_def window_ops_defs window_step.opened)

definition window_steps :: "(bytes \<Rightarrow> bytes) \<Rightarrow> challenge_config \<Rightarrow> message_id \<Rightarrow> challenge_window option \<Rightarrow> challenge_window option \<Rightarrow> bool" where
  "window_steps hex config i = (\<lambda>w w'. \<exists>ev. window_step hex config i ev w w')\<^sup>*\<^sup>*"

lemma window_run_refines:
  "window_steps hex (wm_config m) i (wm_windows m i) (wm_windows (foldl (window_exec hex) m cmds) i)"
proof (induction cmds arbitrary: m)
  case (Cons c cmds)
  obtain j ev where c: "c = (j, ev)" by (cases c)
  have "(\<lambda>w w'. \<exists>ev. window_step hex (wm_config m) i ev w w')\<^sup>*\<^sup>* (wm_windows m i) (wm_windows (window_exec hex m c) i)"
    using window_exec_refines [of hex m j ev i] c by (auto intro: r_into_rtranclp)
  with Cons.IH [of "window_exec hex m c"] show ?case
    by (auto simp: window_steps_def intro: rtranclp_trans)
qed (simp add: window_steps_def)

text \<open>What holds of a window that followed the protocol.\<close>

definition window_ok :: "(bytes \<Rightarrow> bytes) \<Rightarrow> challenge_config \<Rightarrow> message_id \<Rightarrow> challenge_window \<Rightarrow> bool" where
  "window_ok hex config i w \<longleftrightarrow>
     cm_id (cw_metadata w) = hex i \<and> cm_subject_id (cw_metadata w) = i \<and> cw_config w = config \<and>
     cm_window_expiry (cw_metadata w) = cm_submitted_at (cw_metadata w) + cc_window_depth config \<and>
     (window_status w = WindowActive \<longrightarrow> cm_challenger (cw_metadata w) = replicate 32 0)"

lemmas window_mark_defs =
  window_ok_def window_status_def challenge_window_new_def mark_challenged_def mark_finalized_def mark_slashed_def

lemma window_step_ok:
  "window_step hex config i ev w w' \<Longrightarrow> pred_option (window_ok hex config i) w \<Longrightarrow> pred_option (window_ok hex config i) w'"
  by (erule window_stepE) (auto simp: window_mark_defs)

lemma window_steps_ok:
  assumes "window_steps hex config i w w'" and "pred_option (window_ok hex config i) w"
  shows "pred_option (window_ok hex config i) w'"
  using assms unfolding window_steps_def by (induction rule: rtranclp_induct) (auto dest: window_step_ok)

text \<open>Whatever commands a window manager receives, the window of each subject goes through steps of the
  protocol: it is opened, challenged while active and not expired, finalized after its expiry unless it is
  challenged, slashed, removed once finalized or slashed. Its expiry is always the epoch of its submission
  plus the configured depth.\<close>

theorem windows_follow_protocol:
  "window_steps hex config i None (wm_windows (foldl (window_exec hex) (window_manager_new config) cmds) i) \<and>
   pred_option (window_ok hex config i) (wm_windows (foldl (window_exec hex) (window_manager_new config) cmds) i)"
proof -
  have steps: "window_steps hex config i None (wm_windows (foldl (window_exec hex) (window_manager_new config) cmds) i)"
    using window_run_refines [of hex "window_manager_new config" i cmds] by (simp add: window_manager_new_def)
  then show ?thesis using window_steps_ok [OF steps] by simp
qed

text \<open>Commands that open the window of \<open>i\<close> again or slash it.\<close>

definition reopens_or_slashes :: "message_id \<Rightarrow> window_cmd \<Rightarrow> bool" where
  "reopens_or_slashes i c \<longleftrightarrow> fst c = i \<and> (snd c = SlashWindow \<or> (\<exists>e. snd c = OpenWindow e))"

lemma challenged_stays:
  assumes "wm_windows m i = Some w" and "window_status w = WindowChallenged"
    and "list_all (\<lambda>c. \<not> reopens_or_slashes i c) cmds"
  shows "wm_windows (foldl (window_exec hex) m cmds) i = Some w"
  using assms(1,3)
proof (induction cmds arbitrary: m)
  case (Cons c cmds)
  obtain j ev where c: "c = (j, ev)" by (cases c)
  have "\<not> window_step hex (wm_config m) i ev (Some w) w'" if "ev = Cleanup \<or> j = i" for w'
    using assms(2) Cons.prems(2) c that
    by (auto elim!: window_stepE simp: window_status_def window_is_active_def reopens_or_slashes_def)
  then have "wm_windows (window_exec hex m c) i = Some w"
    using window_exec_refines [of hex m j ev i] Cons.prems(1) c by auto
  with Cons show ?case by simp
qed simp

text \<open>C19: A successful challenge holds the window: until it is opened again or slashed it stays challenged by
  that challenger whatever else happens, it is not finalized at any epoch and takes no second
  challenge.\<close>

theorem challenge_holds_window:
  assumes "submit_challenge hex i challenger e m = (Inr (), m1)"
    and "list_all (\<lambda>c. \<not> reopens_or_slashes i c) cmds" and "m2 = foldl (window_exec hex) m1 cmds"
  shows "(\<exists>w. get_window m2 i = Some w \<and> window_status w = WindowChallenged \<and>
      cm_challenger (cw_metadata w) = challenger \<and> e \<le> cm_window_expiry (cw_metadata w)) \<and>
    \<not> is_ok (fst (finalize_window hex i e' m2)) \<and> \<not> is_ok (fst (submit_challenge hex i other e' m2))"
proof -
  obtain w where w: "wm_windows m i = Some w" "window_is_active e w" "m1 = put_window i (mark_challenged challenger w) m"
    using assms(1) by (auto simp: submit_challenge_def split: option.splits if_splits)
  then have "wm_windows m2 i = Some (mark_challenged challenger w)"
    unfolding assms(3)
    by (intro challenged_stays assms(2)) (simp_all add: put_window_def mark_challenged_def window_status_def)
  with w show ?thesis
    by (auto simp: get_window_def finalize_window_def submit_challenge_def window_status_def mark_challenged_def
        window_is_active_def)
qed

text \<open>An open window is either challengeable or finalizable: at every epoch exactly one of the two
  succeeds on an active window.\<close>

theorem active_window_one_way:
  assumes "get_window m i = Some w" and "window_status w = WindowActive"
  shows "is_ok (fst (submit_challenge hex i challenger e m)) \<longleftrightarrow> \<not> is_ok (fst (finalize_window hex i e m))"
  using assms
  by (auto simp: get_window_def submit_challenge_def finalize_window_def window_is_active_def window_is_expired_def
      window_status_def)

text \<open>A slashed window can still be finalized once it has expired, which overwrites the slashing: the window
  then reads as one that expired without a challenge.\<close>

theorem finalizing_hides_slashing:
  assumes "get_window m i = Some w" and "cm_window_expiry (cw_metadata w) < e"
  shows "\<exists>w'. get_window (snd (finalize_window hex i e (snd (slash_window hex i m)))) i = Some w' \<and>
    window_status w' = WindowFinalized"
  using assms
  by (auto simp: get_window_def slash_window_def finalize_window_def put_window_def mark_slashed_def mark_finalized_def
      window_is_expired_def window_status_def)

section \<open>Rulings\<close>

interpretation arbitrator: quorum_vote arbitrator_vote_ops
  by unfold_locales (auto simp: arbitrator_vote_ops_def)

text \<open>The members of the quorum whose first vote is the given decision.\<close>

definition deciders :: "quorum_result \<Rightarrow> arbitrator_vote list \<Rightarrow> vote_decision \<Rightarrow> public_key set" where
  "deciders quorum votes d =
     first_voters arbitrator_vote_ops (\<lambda>v. av_vote v = d) (qm_public_key ` set (qr_members quorum)) votes"

text \<open>The ruling of an adjudication within the voting window: the challenger wins exactly when a member
  voted and the members whose first vote is for the proof make up the threshold's share of those who voted;
  otherwise the subject wins if at least half as many votes as there are members (rounded down) were
  handed in, whoever cast them, and the ruling is inconclusive if fewer were.\<close>

theorem adjudication_ruling:
  "adjudicate hex config proof quorum votes epoch =
     (if fp_submitted_at proof + ac_voting_window config < epoch then Inl (WindowExpired (hex (fp_id proof)))
      else
        let nf = card (deciders quorum votes ValidProof); na = card (deciders quorum votes InvalidProof);
            passed = (0 < nf + na \<and> ac_ruling_threshold config * real (nf + na) \<le> real nf)
        in Inr \<lparr>aj_fraud_proof_id = fp_id proof,
             aj_ruling = (if passed then ChallengerWins
               else if length (qr_members quorum) div 2 \<le> length votes then SubjectWins else Inconclusive),
             aj_quorum = quorum, aj_votes_for = filter (\<lambda>v. av_vote v = ValidProof) votes,
             aj_votes_against = filter (\<lambda>v. av_vote v = InvalidProof) votes, aj_total_votes = length votes,
             aj_threshold_met = passed, aj_adjudicated_at = epoch\<rparr>)"
  using arbitrator.tally_eq(1,2,6) [OF refl, of quorum votes "ac_ruling_threshold config"]
  by (simp add: adjudicate_def deciders_def arbitrator_vote_ops_def Let_def)

text \<open>Votes of outsiders settle a dispute: when nobody of the quorum votes, handing in half as many votes
  as the quorum has members from keys outside the quorum makes the subject win, where the same
  dispute without votes is inconclusive.\<close>

theorem outsiders_settle_dispute:
  assumes "qm_public_key ` set (qr_members quorum) \<inter> av_voter ` set votes = {}"
    and "2 \<le> length (qr_members quorum)" and "length (qr_members quorum) div 2 \<le> length votes"
    and "epoch \<le> fp_submitted_at proof + ac_voting_window config"
  shows "\<exists>r. adjudicate hex config proof quorum votes epoch = Inr r \<and> aj_ruling r = SubjectWins \<and>
    (\<exists>r0. adjudicate hex config proof quorum [] epoch = Inr r0 \<and> aj_ruling r0 = Inconclusive)"
proof -
  have "deciders quorum vs d = {}" if "set vs \<subseteq> set votes" for vs d
    using assms(1) that
    by (auto simp: deciders_def first_voters_def first_vote_def find_Some_iff arbitrator_vote_ops_def in_set_conv_nth)
      (metis (no_types, lifting) IntI image_eqI in_mono nth_mem empty_iff)
  then have none: "deciders quorum votes d = {}" "deciders quorum [] d = {}" for d by simp_all
  have "0 < length (qr_members quorum) div 2" using assms(2) by simp
  with assms(3,4) show ?thesis
    by (auto simp: adjudication_ruling none Let_def not_less)
qed

section \<open>Fraud proofs\<close>

text \<open>The identifier of a fraud proof binds its contents: for subjects and challengers of 32 bytes, two
  proofs with the same identifier agree on subject, challenger, epoch and evidence, unless \<open>blake3\<close>
  collides on them.\<close>

theorem fraud_proof_id_binds:
  assumes "fp_id (fraud_proof_new blake3 s c ev e) = fp_id (fraud_proof_new blake3 s' c' ev' e')"
    and "length s = 32" "length s' = 32" "length c = 32" "length c' = 32"
    and "blake3 (fraud_proof_data s c ev e) = blake3 (fraud_proof_data s' c' ev' e') \<Longrightarrow>
      fraud_proof_data s c ev e = fraud_proof_data s' c' ev' e'"
  shows "s = s' \<and> c = c' \<and> e = e' \<and> fe_evidence_cid ev = fe_evidence_cid ev'"
proof -
  have "fraud_proof_data s c ev e = fraud_proof_data s' c' ev' e'"
    using assms(1,6) by (simp add: fraud_proof_new_def message_id_new_def)
  then show ?thesis
    using assms(2-5) by (auto simp: fraud_proof_data_def dest: le_bytes_inj)
qed

section \<open>Sample runs\<close>

definition sample_windows :: window_manager where
  "sample_windows = snd (open_window id [7] 10 (window_manager_new challenge_config_default))"

lemmas sample_window_defs =
  sample_windows_def window_manager_new_def challenge_config_default_def challenge_window_new_def
  window_ops_defs window_is_active_def window_is_expired_def get_window_def
  window_status_def mark_challenged_def mark_slashed_def mark_finalized_def

theorem challenge_holds_window_witness:
  "\<not> is_ok (fst (finalize_window id [7] 200
     (foldl (window_exec id) (snd (submit_challenge id [7] [1] 50 sample_windows)) [([7], FinalizeWindow 150), ([8], OpenWindow 3)])))"
proof -
  have "submit_challenge id [7] [1] 50 sample_windows = (Inr (), snd (submit_challenge id [7] [1] 50 sample_windows))"
    by (simp add: sample_window_defs)
  from challenge_holds_window [OF this, of "[([7], FinalizeWindow 150), ([8], OpenWindow 3)]"] show ?thesis
    by (simp add: reopens_or_slashes_def)
qed

theorem active_window_one_way_witness:
  "is_ok (fst (submit_challenge id [7] [1] 50 sample_windows)) \<longleftrightarrow> \<not> is_ok (fst (finalize_window id [7] 50 sample_windows))"
proof -
  have "get_window sample_windows [7] = Some (challenge_window_new id [7] 10 challenge_config_default)"
    "window_status (challenge_window_new id [7] 10 challenge_config_default) = WindowActive"
    by (simp_all add: sample_window_defs)
  then show ?thesis by (rule active_window_one_way)
qed

theorem finalizing_hides_slashing_witness:
  "\<exists>w'. get_window (snd (finalize_window id [7] 111 (snd (slash_window id [7] sample_windows)))) [7] = Some w' \<and>
    window_status w' = WindowFinalized"
proof (rule finalizing_hides_slashing)
  show "get_window sample_windows [7] = Some (challenge_window_new id [7] 10 challenge_config_default)"
    by (simp add: sample_window_defs)
qed (simp add: sample_window_defs)

definition sample_quorum :: quorum_result where
  "sample_quorum = \<lparr>qr_members = map (\<lambda>k. \<lparr>qm_public_key = [k], qm_reputation = 60, qm_vrf_score = [k], qm_axis_id = 0,
     qm_asn = None, qm_region = None\<rparr>) [1, 2], qr_total_size = 2, qr_axes_coverage = [2]\<rparr>"

definition sample_evidence :: fraud_evidence where
  "sample_evidence = \<lparr>fe_fraud_type = DataCorruption, fe_evidence_cid = [9], fe_evidence_data = None, fe_metadata = Map.empty\<rparr>"

theorem outsiders_settle_dispute_witness:
  "\<exists>r. adjudicate id adjudication_config_default (fraud_proof_new id [7] [1] sample_evidence 10) sample_quorum
     [\<lparr>av_voter = [3], av_vote = InvalidProof, av_submitted_at = 11\<rparr>] 20 = Inr r \<and> aj_ruling r = SubjectWins"
  using outsiders_settle_dispute [of sample_quorum "[\<lparr>av_voter = [3], av_vote = InvalidProof, av_submitted_at = 11\<rparr>]"
      20 "fraud_proof_new id [7] [1] sample_evidence 10" adjudication_config_default id]
  by (auto simp: sample_quorum_def fraud_proof_new_def adjudication_config_default_def)

theorem fraud_proof_id_binds_witness:
  "fe_evidence_cid sample_evidence = fe_evidence_cid (sample_evidence\<lparr>fe_metadata := [[1] \<mapsto> [2]]\<rparr>)"
proof -
  have "fp_id (fraud_proof_new id (replicate 32 7) (replicate 32 1) sample_evidence 10) =
      fp_id (fraud_proof_new id (replicate 32 7) (replicate 32 1) (sample_evidence\<lparr>fe_metadata := [[1] \<mapsto> [2]]\<rparr>) 10)"
    by (simp add: fraud_proof_new_def fraud_proof_data_def sample_evidence_def)
  from fraud_proof_id_binds [OF this] show ?thesis by simp
qed

end
