(* ===== verification/Message_Storage.thy ===== *)
theory Message_Storage
  imports Core_Types
begin

text \<open>
  The message store of \<open>crates/adic-storage/src\<close>: the trait \<open>StorageBackend\<close>
  (\<open>backend.rs\<close>) is the record \<open>storage_backend\<close>, \<open>MemoryBackend\<close>
  (\<open>memory.rs\<close>) its provider \<open>memory_backend\<close>, and \<open>StorageEngine\<close>
  (\<open>store.rs\<close>) the operations over an arbitrary backend.

  The reading methods of the trait return a result and leave the backend as it is; the writing
  methods are operations on its state. \<open>HashMap\<close>s are maps and \<open>HashSet\<close>s sets; the
  vectors made by iterating over one come in an unspecified order, the parameter \<open>ord\<close>. A
  \<open>BTreeMap\<close> is a list of entries sorted by key. The strings of the errors are dropped, log
  lines and the figures computed for them only are omitted; \<open>RangePanic\<close> stands for the panic of
  \<open>BTreeMap::range\<close> on a range that starts after its end. A traversal may run forever over a
  backend that reports infinitely many messages: it is a partial function, shown below to return.
\<close>

section \<open>The interface\<close>

datatype storage_error = NotFound | AlreadyExists | BackendError | SerializationError | IoError | RangePanic

record storage_stats =
  ss_message_count :: nat
  ss_tip_count :: nat
  ss_finalized_count :: nat
  ss_reputation_entries :: nat
  ss_conflict_sets :: nat
  ss_total_size_bytes :: "u64 option"

type_synonym ('s, 'a) storage_op = "(storage_error, 's, 'a) rop"
type_synonym ('s, 'a) storage_read = "'s \<Rightarrow> storage_error + 'a"

record 's storage_backend =
  sb_put_message :: "adic_message \<Rightarrow> ('s, unit) storage_op"
  sb_get_message :: "message_id \<Rightarrow> ('s, adic_message option) storage_read"
  sb_has_message :: "message_id \<Rightarrow> ('s, bool) storage_read"
  sb_delete_message :: "message_id \<Rightarrow> ('s, unit) storage_op"
  sb_list_messages :: "('s, message_id list) storage_read"
  sb_add_parent_child :: "message_id \<Rightarrow> message_id \<Rightarrow> ('s, unit) storage_op"
  sb_get_children :: "message_id \<Rightarrow> ('s, message_id list) storage_read"
  sb_get_parents :: "message_id \<Rightarrow> ('s, message_id list) storage_read"
  sb_add_tip :: "message_id \<Rightarrow> ('s, unit) storage_op"
  sb_remove_tip :: "message_id \<Rightarrow> ('s, unit) storage_op"
  sb_get_tips :: "('s, message_id list) storage_read"
  sb_put_metadata :: "message_id \<Rightarrow> string \<Rightarrow> bytes \<Rightarrow> ('s, unit) storage_op"
  sb_get_metadata :: "message_id \<Rightarrow> string \<Rightarrow> ('s, bytes option) storage_read"
  sb_put_reputation :: "public_key \<Rightarrow> f64 \<Rightarrow> ('s, unit) storage_op"
  sb_get_reputation :: "public_key \<Rightarrow> ('s, f64 option) storage_read"
  sb_mark_finalized :: "message_id \<Rightarrow> bytes \<Rightarrow> ('s, unit) storage_op"
  sb_is_finalized :: "message_id \<Rightarrow> ('s, bool) storage_read"
  sb_get_artifact :: "message_id \<Rightarrow> ('s, bytes option) storage_read"
  sb_store_artifact :: "message_id \<Rightarrow> bytes \<Rightarrow> ('s, unit) storage_op"
  sb_add_to_conflict :: "string \<Rightarrow> message_id \<Rightarrow> ('s, unit) storage_op"
  sb_get_conflict_set :: "string \<Rightarrow> ('s, message_id list) storage_read"
  sb_add_to_ball_index :: "u32 \<Rightarrow> bytes \<Rightarrow> message_id \<Rightarrow> ('s, unit) storage_op"
  sb_get_ball_members :: "u32 \<Rightarrow> bytes \<Rightarrow> ('s, message_id list) storage_read"
  sb_begin :: "('s, unit) storage_op"
  sb_commit :: "('s, unit) storage_op"
  sb_rollback :: "('s, unit) storage_op"
  sb_flush :: "('s, unit) storage_op"
  sb_get_stats :: "('s, storage_stats) storage_read"
  sb_recently_finalized :: "nat \<Rightarrow> ('s, message_id list) storage_read"
  sb_in_time_range :: "i64 \<Rightarrow> i64 option \<Rightarrow> nat \<Rightarrow> ('s, message_id list) storage_read"
  sb_after_timestamp :: "i64 \<Rightarrow> nat \<Rightarrow> ('s, message_id list) storage_read"

section \<open>\<open>MemoryBackend\<close>\<close>

record message_store =
  st_messages :: "message_id \<rightharpoonup> adic_message"
  st_parents :: "message_id \<rightharpoonup> message_id list"
  st_children :: "message_id \<rightharpoonup> message_id list"
  st_tips :: "message_id set"
  st_metadata :: "message_id \<times> string \<rightharpoonup> bytes"
  st_reputation :: "public_key \<rightharpoonup> f64"
  st_finalized :: "message_id \<rightharpoonup> bytes"
  st_conflicts :: "string \<rightharpoonup> message_id set"
  st_ball_index :: "u32 \<times> bytes \<rightharpoonup> message_id set"
  st_time_index :: "(i64 \<times> message_id list) list"

definition message_store_new :: message_store where
  "message_store_new =
     \<lparr>st_messages = Map.empty, st_parents = Map.empty, st_children = Map.empty, st_tips = {},
      st_metadata = Map.empty, st_reputation = Map.empty, st_finalized = Map.empty,
      st_conflicts = Map.empty, st_ball_index = Map.empty, st_time_index = []\<rparr>"

text \<open>\<open>entry(k).or_insert_with(..)\<close> followed by a push or an insertion, and
  \<open>get(k).cloned().unwrap_or_default()\<close>.\<close>

definition list_at :: "('k \<rightharpoonup> 'v list) \<Rightarrow> 'k \<Rightarrow> 'v list" where
  "list_at m k = (case m k of None \<Rightarrow> [] | Some xs \<Rightarrow> xs)"

definition set_at :: "('k \<rightharpoonup> 'v set) \<Rightarrow> 'k \<Rightarrow> 'v set" where
  "set_at m k = (case m k of None \<Rightarrow> {} | Some xs \<Rightarrow> xs)"

definition push_at :: "'k \<Rightarrow> 'v \<Rightarrow> ('k \<rightharpoonup> 'v list) \<Rightarrow> ('k \<rightharpoonup> 'v list)" where
  "push_at k v m = m(k \<mapsto> list_at m k @ [v])"

definition insert_at :: "'k \<Rightarrow> 'v \<Rightarrow> ('k \<rightharpoonup> 'v set) \<Rightarrow> ('k \<rightharpoonup> 'v set)" where
  "insert_at k v m = m(k \<mapsto> insert v (set_at m k))"

definition mb_put_message :: "adic_message \<Rightarrow> (message_store, unit) storage_op" where
  "mb_put_message m s =
     (if am_id m \<in> dom (st_messages s) then errR AlreadyExists s
      else
        let timestamp_millis = mt_timestamp (am_meta m)
        in okR () (s\<lparr>st_messages := (st_messages s)(am_id m \<mapsto> m),
             st_time_index := btree_insert timestamp_millis
               (list_at (map_of (st_time_index s)) timestamp_millis @ [am_id m]) (st_time_index s)\<rparr>))"

definition mb_get_message :: "message_id \<Rightarrow> (message_store, adic_message option) storage_read" where
  "mb_get_message i s = Inr (st_messages s i)"

definition mb_has_message :: "message_id \<Rightarrow> (message_store, bool) storage_read" where
  "mb_has_message i s = Inr (i \<in> dom (st_messages s))"

definition forget_child :: "message_id \<Rightarrow> (message_id \<rightharpoonup> message_id list) \<Rightarrow> message_id \<Rightarrow> (message_id \<rightharpoonup> message_id list)" where
  "forget_child i children parent_id =
     (case children parent_id of
        None \<Rightarrow> children
      | Some cs \<Rightarrow> children(parent_id \<mapsto> filter (\<lambda>child. child \<noteq> i) cs))"

definition mb_delete_message :: "message_id \<Rightarrow> (message_store, unit) storage_op" where
  "mb_delete_message i s =
     (let children = (case st_parents s i of
            None \<Rightarrow> st_children s
          | Some parents \<Rightarrow> foldl (forget_child i) (st_children s) parents)
      in okR () (s\<lparr>st_messages := (st_messages s)(i := None), st_parents := (st_parents s)(i := None),
           st_children := children(i := None)\<rparr>))"

definition mb_list_messages :: "(message_id set \<Rightarrow> message_id list) \<Rightarrow> (message_store, message_id list) storage_read" where
  "mb_list_messages ord s = Inr (ord (dom (st_messages s)))"

definition mb_add_parent_child :: "message_id \<Rightarrow> message_id \<Rightarrow> (message_store, unit) storage_op" where
  "mb_add_parent_child parent child =
     modR (\<lambda>s. s\<lparr>st_children := push_at parent child (st_children s), st_parents := push_at child parent (st_parents s)\<rparr>)"

definition mb_get_children :: "message_id \<Rightarrow> (message_store, message_id list) storage_read" where
  "mb_get_children parent s = Inr (list_at (st_children s) parent)"

definition mb_get_parents :: "message_id \<Rightarrow> (message_store, message_id list) storage_read" where
  "mb_get_parents child s = Inr (list_at (st_parents s) child)"

definition mb_add_tip :: "message_id \<Rightarrow> (message_store, unit) storage_op" where
  "mb_add_tip i = modR (\<lambda>s. s\<lparr>st_tips := insert i (st_tips s)\<rparr>)"

definition mb_remove_tip :: "message_id \<Rightarrow> (message_store, unit) storage_op" where
  "mb_remove_tip i = modR (\<lambda>s. s\<lparr>st_tips := st_tips s - {i}\<rparr>)"

definition mb_get_tips :: "(message_id set \<Rightarrow> message_id list) \<Rightarrow> (message_store, message_id list) storage_read" where
  "mb_get_tips ord s = Inr (ord (st_tips s))"

definition mb_put_metadata :: "message_id \<Rightarrow> string \<Rightarrow> bytes \<Rightarrow> (message_store, unit) storage_op" where
  "mb_put_metadata i key v = modR (\<lambda>s. s\<lparr>st_metadata := (st_metadata s)((i, key) \<mapsto> v)\<rparr>)"

definition mb_get_metadata :: "message_id \<Rightarrow> string \<Rightarrow> (message_store, bytes option) storage_read" where
  "mb_get_metadata i key s = Inr (st_metadata s (i, key))"

definition mb_put_reputation :: "public_key \<Rightarrow> f64 \<Rightarrow> (message_store, unit) storage_op" where
  "mb_put_reputation pk score = modR (\<lambda>s. s\<lparr>st_reputation := (st_reputation s)(pk \<mapsto> score)\<rparr>)"

definition mb_get_reputation :: "public_key \<Rightarrow> (message_store, f64 option) storage_read" where
  "mb_get_reputation pk s = Inr (st_reputation s pk)"

definition mb_mark_finalized :: "message_id \<Rightarrow> bytes \<Rightarrow> (message_store, unit) storage_op" where
  "mb_mark_finalized i artifact = modR (\<lambda>s. s\<lparr>st_finalized := (st_finalized s)(i \<mapsto> artifact)\<rparr>)"

definition mb_is_finalized :: "message_id \<Rightarrow> (message_store, bool) storage_read" where
  "mb_is_finalized i s = Inr (i \<in> dom (st_finalized s))"

definition mb_get_artifact :: "message_id \<Rightarrow> (message_store, bytes option) storage_read" where
  "mb_get_artifact i s = Inr (st_finalized s i)"

definition mb_store_artifact :: "message_id \<Rightarrow> bytes \<Rightarrow> (message_store, unit) storage_op" where
  "mb_store_artifact i artifact = modR (\<lambda>s. s\<lparr>st_finalized := (st_finalized s)(i \<mapsto> artifact)\<rparr>)"

definition mb_add_to_conflict :: "string \<Rightarrow> message_id \<Rightarrow> (message_store, unit) storage_op" where
  "mb_add_to_conflict c i = modR (\<lambda>s. s\<lparr>st_conflicts := insert_at c i (st_conflicts s)\<rparr>)"

definition mb_get_conflict_set :: "(message_id set \<Rightarrow> message_id list) \<Rightarrow> string \<Rightarrow> (message_store, message_id list) storage_read" where
  "mb_get_conflict_set ord c s = Inr (case st_conflicts s c of None \<Rightarrow> [] | Some xs \<Rightarrow> ord xs)"

definition mb_add_to_ball_index :: "u32 \<Rightarrow> bytes \<Rightarrow> message_id \<Rightarrow> (message_store, unit) storage_op" where
  "mb_add_to_ball_index axis ball i = modR (\<lambda>s. s\<lparr>st_ball_index := insert_at (axis, ball) i (st_ball_index s)\<rparr>)"

definition mb_get_ball_members :: "(message_id set \<Rightarrow> message_id list) \<Rightarrow> u32 \<Rightarrow> bytes \<Rightarrow> (message_store, message_id list) storage_read" where
  "mb_get_ball_members ord axis ball s =
     Inr (case st_ball_index s (axis, ball) of None \<Rightarrow> [] | Some xs \<Rightarrow> ord xs)"

text \<open>Transactions and flushing are no-ops of this backend.\<close>

definition mb_no_op :: "(message_store, unit) storage_op" where
  "mb_no_op = okR ()"

definition mb_get_stats :: "(message_store, storage_stats) storage_read" where
  "mb_get_stats s = Inr
     \<lparr>ss_message_count = card (dom (st_messages s)), ss_tip_count = card (st_tips s),
      ss_finalized_count = card (dom (st_finalized s)), ss_reputation_entries = card (dom (st_reputation s)),
      ss_conflict_sets = card (dom (st_conflicts s)), ss_total_size_bytes = None\<rparr>"

definition mb_recently_finalized :: "(message_id set \<Rightarrow> message_id list) \<Rightarrow> nat \<Rightarrow> (message_store, message_id list) storage_read" where
  "mb_recently_finalized ord limit s = Inr (take limit (ord (dom (st_finalized s))))"

definition i64_max :: i64 where
  "i64_max = 2 ^ 63 - 1"

definition mb_in_time_range :: "i64 \<Rightarrow> i64 option \<Rightarrow> nat \<Rightarrow> (message_store, message_id list) storage_read" where
  "mb_in_time_range start end limit s =
     (let end_ts = (case end of None \<Rightarrow> i64_max | Some e \<Rightarrow> e)
      in if end_ts < start then Inl RangePanic
         else Inr (take limit (concat (map snd
           (filter (\<lambda>(ts, _). start \<le> ts \<and> ts < end_ts) (st_time_index s))))))"

definition mb_after_timestamp :: "i64 \<Rightarrow> nat \<Rightarrow> (message_store, message_id list) storage_read" where
  "mb_after_timestamp ts limit = mb_in_time_range ts None limit"

definition memory_backend :: "(message_id set \<Rightarrow> message_id list) \<Rightarrow> message_store storage_backend" where
  "memory_backend ord =
     \<lparr>sb_put_message = mb_put_message, sb_get_message = mb_get_message, sb_has_message = mb_has_message,
      sb_delete_message = mb_delete_message, sb_list_messages = mb_list_messages ord,
      sb_add_parent_child = mb_add_parent_child, sb_get_children = mb_get_children,
      sb_get_parents = mb_get_parents, sb_add_tip = mb_add_tip, sb_remove_tip = mb_remove_tip,
      sb_get_tips = mb_get_tips ord, sb_put_metadata = mb_put_metadata, sb_get_metadata = mb_get_metadata,
      sb_put_reputation = mb_put_reputation, sb_get_reputation = mb_get_reputation,
      sb_mark_finalized = mb_mark_finalized, sb_is_finalized = mb_is_finalized,
      sb_get_artifact = mb_get_artifact, sb_store_artifact = mb_store_artifact,
      sb_add_to_conflict = mb_add_to_conflict, sb_get_conflict_set = mb_get_conflict_set ord,
      sb_add_to_ball_index = mb_add_to_ball_index, sb_get_ball_members = mb_get_ball_members ord,
      sb_begin = mb_no_op, sb_commit = mb_no_op, sb_rollback = mb_no_op, sb_flush = mb_no_op,
      sb_get_stats = mb_get_stats, sb_recently_finalized = mb_recently_finalized ord,
      sb_in_time_range = mb_in_time_range, sb_after_timestamp = mb_after_timestamp\<rparr>"

section \<open>\<open>StorageEngine\<close>\<close>

text \<open>\<open>u64::from_le_bytes\<close>.\<close>

definition u64_from_le :: "bytes \<Rightarrow> u64" where
  "u64_from_le b = horner_sum of_nat 256 (map unat b)"

definition get_message_height :: "'s storage_backend \<Rightarrow> message_id \<Rightarrow> ('s, u64 option) storage_read" where
  "get_message_height B i s =
     bindE (sb_get_metadata B i ''height'' s) (\<lambda>v. Inr (case v of
         None \<Rightarrow> None
       | Some b \<Rightarrow> (if length b = 8 then Some (u64_from_le b) else None)))"

primrec max_parent_height :: "'s storage_backend \<Rightarrow> 's \<Rightarrow> message_id list \<Rightarrow> u64 \<Rightarrow> storage_error + u64" where
  "max_parent_height B s [] acc = Inr acc"
| "max_parent_height B s (p # ps) acc =
     bindE (get_message_height B p s) (\<lambda>h.
       max_parent_height B s ps (case h of None \<Rightarrow> acc | Some h \<Rightarrow> max acc h))"

definition calculate_message_height :: "'s storage_backend \<Rightarrow> adic_message \<Rightarrow> ('s, u64) storage_read" where
  "calculate_message_height B m s =
     (if am_parents m = [] then Inr 0
      else bindE (max_parent_height B s (am_parents m) 0) (\<lambda>h. Inr (h + 1)))"

definition readR :: "('s, 'a) storage_read \<Rightarrow> ('s, 'a) storage_op" where
  "readR f s = (f s, s)"

text \<open>\<open>if let Err(e) = .. { rollback_transaction()?; return Err(e) }\<close>\<close>

definition or_rollback :: "'s storage_backend \<Rightarrow> ('s, 'a) storage_op \<Rightarrow> ('s, 'a) storage_op" where
  "or_rollback B f s =
     (case f s of (r, s') \<Rightarrow> (case r of
        Inr x \<Rightarrow> (Inr x, s')
      | Inl e \<Rightarrow> tryR (sb_rollback B) (\<lambda>_. errR e) s'))"

primrec add_parents :: "'s storage_backend \<Rightarrow> message_id \<Rightarrow> message_id list \<Rightarrow> ('s, unit) storage_op" where
  "add_parents B i [] = okR ()"
| "add_parents B i (p # ps) =
     tryR (or_rollback B (sb_add_parent_child B p i)) (\<lambda>_. add_parents B i ps)"

definition ignore_not_found :: "('s, unit) storage_op \<Rightarrow> ('s, unit) storage_op" where
  "ignore_not_found f s = (case f s of (r, s') \<Rightarrow> (if r = Inl NotFound then Inr () else r, s'))"

primrec remove_tips :: "'s storage_backend \<Rightarrow> message_id list \<Rightarrow> ('s, unit) storage_op" where
  "remove_tips B [] = okR ()"
| "remove_tips B (p # ps) =
     tryR (or_rollback B (ignore_not_found (sb_remove_tip B p))) (\<lambda>_. remove_tips B ps)"

definition store_message :: "'s storage_backend \<Rightarrow> adic_message \<Rightarrow> ('s, unit) storage_op" where
  "store_message B m =
     tryR (sb_begin B) (\<lambda>_.
     tryR (readR (calculate_message_height B m)) (\<lambda>height.
     tryR (or_rollback B (sb_put_message B m)) (\<lambda>_.
     tryR (or_rollback B (sb_put_metadata B (am_id m) ''height'' (le_bytes height))) (\<lambda>_.
     tryR (add_parents B (am_id m) (am_parents m)) (\<lambda>_.
     tryR (remove_tips B (am_parents m)) (\<lambda>_.
     tryR (or_rollback B (sb_add_tip B (am_id m))) (\<lambda>_.
     sb_commit B)))))))"

definition update_reputation_score :: "'s storage_backend \<Rightarrow> public_key \<Rightarrow> f64 \<Rightarrow> ('s, unit) storage_op" where
  "update_reputation_score B pk score =
     tryR (readR (sb_get_reputation B pk)) (\<lambda>_. sb_put_reputation B pk score)"

text \<open>\<open>let _ = f()\<close>\<close>

definition ignoreR :: "('s, unit) storage_op \<Rightarrow> ('s, unit) storage_op" where
  "ignoreR f s = (Inr (), snd (f s))"

definition storage_finalize_message :: "'s storage_backend \<Rightarrow> message_id \<Rightarrow> bytes \<Rightarrow> ('s, unit) storage_op" where
  "storage_finalize_message B i artifact =
     tryR (sb_begin B) (\<lambda>_.
     tryR (or_rollback B (sb_mark_finalized B i artifact)) (\<lambda>_.
     tryR (ignoreR (sb_remove_tip B i)) (\<lambda>_.
     sb_commit B)))"

definition storage_delete_message :: "'s storage_backend \<Rightarrow> message_id \<Rightarrow> ('s, unit) storage_op" where
  "storage_delete_message B i =
     tryR (sb_begin B) (\<lambda>_.
     tryR (or_rollback B (sb_delete_message B i)) (\<lambda>_.
     tryR (ignoreR (sb_remove_tip B i)) (\<lambda>_.
     sb_commit B)))"

text \<open>\<open>cursor\<close> is the message the hexadecimal cursor decodes to, if it does.\<close>

fun range_loop :: "'s storage_backend \<Rightarrow> 's \<Rightarrow> i64 \<Rightarrow> i64 \<Rightarrow> nat \<Rightarrow> message_id option \<Rightarrow> bool \<Rightarrow>
    adic_message list \<Rightarrow> message_id list \<Rightarrow> storage_error + adic_message list" where
  "range_loop B s start end limit skip_until skip_mode messages [] = Inr messages"
| "range_loop B s start end limit skip_until skip_mode messages (i # ids) =
     (if limit \<le> length messages then Inr messages
      else bindE (sb_get_message B i s) (\<lambda>found. case found of
          None \<Rightarrow> range_loop B s start end limit skip_until skip_mode messages ids
        | Some msg \<Rightarrow>
            (if skip_mode then
               range_loop B s start end limit skip_until (Some (am_id msg) \<noteq> skip_until) messages ids
             else if start \<le> mt_timestamp (am_meta msg) \<and> mt_timestamp (am_meta msg) \<le> end then
               range_loop B s start end limit skip_until skip_mode (messages @ [msg]) ids
             else range_loop B s start end limit skip_until skip_mode messages ids)))"

definition get_messages_in_range :: "'s storage_backend \<Rightarrow> i64 \<Rightarrow> i64 \<Rightarrow> nat \<Rightarrow> message_id option \<Rightarrow>
    ('s, adic_message list) storage_read" where
  "get_messages_in_range B start end limit cursor s =
     bindE (sb_list_messages B s) (\<lambda>ids. range_loop B s start end limit cursor (cursor \<noteq> None) [] ids)"

fun since_loop :: "'s storage_backend \<Rightarrow> 's \<Rightarrow> message_id \<Rightarrow> nat \<Rightarrow> adic_message list \<Rightarrow> message_id list \<Rightarrow>
    storage_error + adic_message list" where
  "since_loop B s checkpoint limit messages [] = Inr messages"
| "since_loop B s checkpoint limit messages (i # ids) =
     (if limit \<le> length messages then Inr messages
      else if i = checkpoint then since_loop B s checkpoint limit messages ids
      else bindE (sb_get_message B i s) (\<lambda>found.
        since_loop B s checkpoint limit (case found of None \<Rightarrow> messages | Some msg \<Rightarrow> messages @ [msg]) ids))"

definition get_messages_since :: "'s storage_backend \<Rightarrow> message_id \<Rightarrow> nat \<Rightarrow> ('s, adic_message list) storage_read" where
  "get_messages_since B checkpoint limit s =
     bindE (sb_get_message B checkpoint s) (\<lambda>found. case found of
         None \<Rightarrow> Inr []
       | Some msg \<Rightarrow> bindE (sb_after_timestamp B (mt_timestamp (am_meta msg)) (limit + 10) s) (\<lambda>ids.
           since_loop B s checkpoint limit [] ids))"

primrec get_messages_bulk :: "'s storage_backend \<Rightarrow> message_id list \<Rightarrow> ('s, adic_message list) storage_read" where
  "get_messages_bulk B [] s = Inr []"
| "get_messages_bulk B (i # ids) s =
     bindE (sb_get_message B i s) (\<lambda>found. bindE (get_messages_bulk B ids s) (\<lambda>ms.
       Inr (case found of None \<Rightarrow> ms | Some m \<Rightarrow> m # ms)))"

text \<open>The breadth first traversals. \<open>visit\<close> is the loop over the neighbours of one message.\<close>

primrec visit :: "'s storage_backend \<Rightarrow> 's \<Rightarrow> nat \<Rightarrow> message_id list \<Rightarrow>
    message_id set \<Rightarrow> (message_id \<times> nat) list \<Rightarrow> adic_message list \<Rightarrow>
    message_id set \<times> (message_id \<times> nat) list \<times> adic_message list" where
  "visit B s depth [] visited queue result = (visited, queue, result)"
| "visit B s depth (n # ns) visited queue result =
     (if n \<in> visited then visit B s depth ns visited queue result
      else visit B s depth ns (insert n visited) (queue @ [(n, depth + 1)])
        (case sb_get_message B n s of Inr (Some msg) \<Rightarrow> result @ [msg] | _ \<Rightarrow> result))"

partial_function (option) traverse_loop :: "'s storage_backend \<Rightarrow> (message_id \<Rightarrow> ('s, message_id list) storage_read) \<Rightarrow>
    's \<Rightarrow> nat \<Rightarrow> message_id set \<Rightarrow> (message_id \<times> nat) list \<Rightarrow> adic_message list \<Rightarrow> adic_message list option" where
  "traverse_loop B neighbours s depth visited queue result =
     (case queue of
        [] \<Rightarrow> Some result
      | (current, current_depth) # queue \<Rightarrow>
          (if depth \<le> current_depth then traverse_loop B neighbours s depth visited queue result
           else case neighbours current s of
               Inl _ \<Rightarrow> traverse_loop B neighbours s depth visited queue result
             | Inr ns \<Rightarrow> (case visit B s current_depth ns visited queue result of
                 (visited, queue, result) \<Rightarrow> traverse_loop B neighbours s depth visited queue result)))"

definition get_ancestors :: "'s storage_backend \<Rightarrow> message_id \<Rightarrow> nat \<Rightarrow> 's \<Rightarrow> adic_message list option" where
  "get_ancestors B i depth s = traverse_loop B (sb_get_parents B) s depth {i} [(i, 0)] []"

definition get_descendants :: "'s storage_backend \<Rightarrow> message_id \<Rightarrow> nat \<Rightarrow> 's \<Rightarrow> adic_message list option" where
  "get_descendants B i depth s = traverse_loop B (sb_get_children B) s depth {i} [(i, 0)] []"

text \<open>Checkpoints; \<open>dec\<close> is the decimal form of a number.\<close>

definition checkpoint_key :: "(u64 \<Rightarrow> string) \<Rightarrow> u64 \<Rightarrow> string" where
  "checkpoint_key dec height = ''checkpoint:'' @ dec height"

definition store_checkpoint :: "(u64 \<Rightarrow> string) \<Rightarrow> 's storage_backend \<Rightarrow> u64 \<Rightarrow> message_id \<Rightarrow> ('s, unit) storage_op" where
  "store_checkpoint dec B height cp =
     tryR (sb_put_metadata B (replicate 32 0) (checkpoint_key dec height) cp) (\<lambda>_. okR ())"

definition storage_get_checkpoint :: "(u64 \<Rightarrow> string) \<Rightarrow> 's storage_backend \<Rightarrow> u64 \<Rightarrow> ('s, message_id option) storage_read" where
  "storage_get_checkpoint dec B height s =
     bindE (sb_get_metadata B (replicate 32 0) (checkpoint_key dec height) s) (\<lambda>v. Inr (case v of
         None \<Rightarrow> None
       | Some b \<Rightarrow> (if length b = 32 then Some b else None)))"

definition get_checkpoint_data :: "(u64 \<Rightarrow> string) \<Rightarrow> 's storage_backend \<Rightarrow> u64 \<Rightarrow> nat \<Rightarrow> 's \<Rightarrow>
    (storage_error + (message_id \<times> adic_message list) option) option" where
  "get_checkpoint_data dec B height max_messages s =
     (case storage_get_checkpoint dec B height s of
        Inl e \<Rightarrow> Some (Inl e)
      | Inr None \<Rightarrow> Some (Inr None)
      | Inr (Some cp) \<Rightarrow>
          (case sb_get_message B cp s of
             Inl e \<Rightarrow> Some (Inl e)
           | Inr found \<Rightarrow>
               (let messages = (case found of None \<Rightarrow> [] | Some m \<Rightarrow> [m])
                in if length messages < max_messages
                   then map_option (\<lambda>ds. Inr (Some (cp, messages @ take (max_messages - length messages) ds)))
                     (get_descendants B cp 5 s)
                   else Some (Inr (Some (cp, messages))))))"

primrec height_loop :: "'s storage_backend \<Rightarrow> 's \<Rightarrow> (u64 \<Rightarrow> bool) \<Rightarrow> message_id list \<Rightarrow> storage_error + message_id list" where
  "height_loop B s P [] = Inr []"
| "height_loop B s P (i # ids) =
     bindE (get_message_height B i s) (\<lambda>h. bindE (height_loop B s P ids) (\<lambda>r.
       Inr (case h of None \<Rightarrow> r | Some h \<Rightarrow> (if P h then i # r else r))))"

definition get_messages_at_height :: "'s storage_backend \<Rightarrow> u64 \<Rightarrow> ('s, message_id list) storage_read" where
  "get_messages_at_height B height s =
     bindE (sb_list_messages B s) (\<lambda>ids. height_loop B s (\<lambda>h. h = height) ids)"

definition get_messages_up_to_height :: "'s storage_backend \<Rightarrow> u64 \<Rightarrow> ('s, message_id list) storage_read" where
  "get_messages_up_to_height B max_height s =
     bindE (sb_list_messages B s) (\<lambda>ids. height_loop B s (\<lambda>h. h \<le> max_height) ids)"

text \<open>The path of \<open>generate_merkle_proof\<close>: \<open>climb\<close> is its loop of at most 20 rounds.\<close>

primrec push_hashes :: "message_id list \<Rightarrow> message_id set \<Rightarrow> message_id list \<Rightarrow> message_id list \<times> message_id set" where
  "push_hashes [] visited path = (path, visited)"
| "push_hashes (p # ps) visited path =
     (if p \<in> visited then push_hashes ps visited path
      else push_hashes ps (insert p visited) (path @ [p]))"

fun climb :: "'s storage_backend \<Rightarrow> 's \<Rightarrow> nat \<Rightarrow> message_id \<Rightarrow> message_id set \<Rightarrow> message_id list \<Rightarrow> message_id list" where
  "climb B s 0 current visited path = path"
| "climb B s (Suc rounds) current visited path =
     (case (case sb_get_parents B current s of Inl _ \<Rightarrow> [] | Inr ps \<Rightarrow> ps) of
        [] \<Rightarrow> path
      | p # ps \<Rightarrow> (case push_hashes (p # ps) visited path of
          (path, visited) \<Rightarrow> climb B s rounds p visited path))"

definition generate_merkle_proof :: "'s storage_backend \<Rightarrow> message_id \<Rightarrow> ('s, message_id list \<times> message_id) storage_read" where
  "generate_merkle_proof B i s =
     bindE (sb_get_message B i s) (\<lambda>found. case found of
         None \<Rightarrow> Inl NotFound
       | Some target \<Rightarrow>
           (let path = climb B s 20 i {i} []
            in Inr (path, if path = [] then am_id target else last path)))"

section \<open>Byte forms\<close>

lemma horner_sum_word: "of_nat (horner_sum id 256 xs) = horner_sum of_nat (256 :: u64) xs"
  by (induction xs) simp_all

lemma u64_from_le_bytes [simp]: "u64_from_le (le_bytes w) = w"
proof -
  have digit: "unat (ucast (drop_bit (8 * i) w) :: byte) = unat w div 256 ^ i mod 256" for i
    using unat_u64_less [of w] by (simp add: unsigned_ucast_eq unsigned_drop_bit_eq drop_bit_eq_div [where 'a = nat] take_bit_eq_mod [where 'a = nat] power_mult)
  have step: "x mod 256 + 256 * (x div 256) = x" for x :: nat
    by simp
  have "horner_sum id 256 (map (\<lambda>i. unat w div 256 ^ i mod 256) [0..<8]) = unat w"
  proof -
    have "unat w div 256 ^ 8 = 0"
      using unat_u64_less [of w] by simp
    have "horner_sum id 256 (map (\<lambda>i. x div 256 ^ i mod 256) [0..<n]) = x mod 256 ^ n" for x n :: nat
    proof (induction n arbitrary: x)
      case (Suc n)
      have "map (\<lambda>i. x div 256 ^ i mod 256) [0..<Suc n] =
          x mod 256 # map (\<lambda>i. (x div 256) div 256 ^ i mod 256) [0..<n]"
        by (simp add: map_upt_Suc div_mult2_eq del: upt_Suc)
      then show ?case
        using Suc.IH [of "x div 256"] by (simp add: mod_mult2_eq)
    qed simp
    then show ?thesis
      using unat_u64_less [of w] by simp
  qed
  moreover have "u64_from_le (le_bytes w) = of_nat (horner_sum id 256 (map (\<lambda>i. unat w div 256 ^ i mod 256) [0..<8]))"
    by (simp add: u64_from_le_def le_bytes_def digit comp_def horner_sum_word)
  ultimately show ?thesis by simp
qed


section \<open>The graph of messages\<close>

text \<open>
  What a backend promises is stated over the graph it holds. The laws of \<open>message_backend\<close> say
  that reads return the parts of the graph, that writes succeed and change their part only, and
  that a message which is already there is refused without a change.
\<close>

record dag =
  dg_messages :: "message_id \<rightharpoonup> adic_message"
  dg_parents :: "message_id \<Rightarrow> message_id list"
  dg_children :: "message_id \<Rightarrow> message_id list"
  dg_tips :: "message_id set"
  dg_meta :: "message_id \<times> string \<rightharpoonup> bytes"
  dg_final :: "message_id \<rightharpoonup> bytes"

definition empty_dag :: dag where
  "empty_dag = \<lparr>dg_messages = Map.empty, dg_parents = \<lambda>_. [], dg_children = \<lambda>_. [], dg_tips = {},
     dg_meta = Map.empty, dg_final = Map.empty\<rparr>"

definition dag_height :: "dag \<Rightarrow> message_id \<Rightarrow> u64 option" where
  "dag_height g i = (case dg_meta g (i, ''height'') of
     None \<Rightarrow> None | Some b \<Rightarrow> (if length b = 8 then Some (u64_from_le b) else None))"

definition dag_link :: "message_id \<Rightarrow> message_id \<Rightarrow> dag \<Rightarrow> dag" where
  "dag_link p c g = g\<lparr>dg_children := (dg_children g)(p := dg_children g p @ [c]),
     dg_parents := (dg_parents g)(c := dg_parents g c @ [p])\<rparr>"

definition max_height :: "dag \<Rightarrow> message_id list \<Rightarrow> u64 \<Rightarrow> u64" where
  "max_height g ps acc = foldl (\<lambda>acc p. case dag_height g p of None \<Rightarrow> acc | Some h \<Rightarrow> max acc h) acc ps"

definition new_height :: "dag \<Rightarrow> message_id list \<Rightarrow> u64" where
  "new_height g ps = (if ps = [] then 0 else max_height g ps 0 + 1)"

definition dag_store :: "adic_message \<Rightarrow> dag \<Rightarrow> dag" where
  "dag_store m g =
     (let g1 = g\<lparr>dg_messages := (dg_messages g)(am_id m \<mapsto> m),
            dg_meta := (dg_meta g)((am_id m, ''height'') \<mapsto> le_bytes (new_height g (am_parents m)))\<rparr>;
          g2 = foldl (\<lambda>g p. dag_link p (am_id m) g) g1 (am_parents m)
      in g2\<lparr>dg_tips := insert (am_id m) (dg_tips g - set (am_parents m))\<rparr>)"

definition dag_finalize :: "message_id \<Rightarrow> bytes \<Rightarrow> dag \<Rightarrow> dag" where
  "dag_finalize i artifact g = g\<lparr>dg_final := (dg_final g)(i \<mapsto> artifact), dg_tips := dg_tips g - {i}\<rparr>"

locale message_backend =
  fixes B :: "'s storage_backend" and view :: "'s \<Rightarrow> dag"
  assumes get_message: "sb_get_message B i s = Inr (dg_messages (view s) i)"
    and get_children: "sb_get_children B i s = Inr (dg_children (view s) i)"
    and get_parents: "sb_get_parents B i s = Inr (dg_parents (view s) i)"
    and get_metadata: "sb_get_metadata B i key s = Inr (dg_meta (view s) (i, key))"
    and transaction_ok: "fst (sb_begin B s) = Inr ()" "fst (sb_commit B s) = Inr ()" "fst (sb_rollback B s) = Inr ()"
    and transaction_view: "view (snd (sb_begin B s)) = view s" "view (snd (sb_commit B s)) = view s"
      "view (snd (sb_rollback B s)) = view s"
    and put_known: "am_id m \<in> dom (dg_messages (view s)) \<Longrightarrow> sb_put_message B m s = (Inl AlreadyExists, s)"
    and put_new: "am_id m \<notin> dom (dg_messages (view s)) \<Longrightarrow> fst (sb_put_message B m s) = Inr () \<and>
      view (snd (sb_put_message B m s)) = (view s)\<lparr>dg_messages := (dg_messages (view s))(am_id m \<mapsto> m)\<rparr>"
    and put_metadata_ok: "fst (sb_put_metadata B i key b s) = Inr ()"
    and put_metadata_view: "view (snd (sb_put_metadata B i key b s)) =
      (view s)\<lparr>dg_meta := (dg_meta (view s))((i, key) \<mapsto> b)\<rparr>"
    and link_ok: "fst (sb_add_parent_child B p c s) = Inr ()"
    and link_view: "view (snd (sb_add_parent_child B p c s)) = dag_link p c (view s)"
    and remove_tip_ok: "fst (sb_remove_tip B i s) = Inr ()"
    and remove_tip_view: "view (snd (sb_remove_tip B i s)) = (view s)\<lparr>dg_tips := dg_tips (view s) - {i}\<rparr>"
    and add_tip_ok: "fst (sb_add_tip B i s) = Inr ()"
    and add_tip_view: "view (snd (sb_add_tip B i s)) = (view s)\<lparr>dg_tips := insert i (dg_tips (view s))\<rparr>"
    and mark_ok: "fst (sb_mark_finalized B i a s) = Inr ()"
    and mark_view: "view (snd (sb_mark_finalized B i a s)) = (view s)\<lparr>dg_final := (dg_final (view s))(i \<mapsto> a)\<rparr>"
begin

lemmas write_ok = transaction_ok put_metadata_ok link_ok remove_tip_ok add_tip_ok mark_ok
lemmas write_view = transaction_view put_metadata_view link_view remove_tip_view add_tip_view mark_view

lemma tryR_write: "fst (f s) = Inr () \<Longrightarrow> tryR f g s = g () (snd (f s))"
  by (cases "f s") simp

lemma tryR_failed: "fst (f s) = Inl e \<Longrightarrow> tryR f g s = (Inl e, snd (f s))"
  by (cases "f s") simp

lemma or_rollback_ok: "fst (f s) = Inr x \<Longrightarrow> or_rollback B f s = f s"
  by (cases "f s") (auto simp: or_rollback_def)

lemma height_view: "get_message_height B i s = Inr (dag_height (view s) i)"
  by (simp add: get_message_height_def dag_height_def get_metadata)

lemma max_parent_height_view: "max_parent_height B s ps acc = Inr (max_height (view s) ps acc)"
  by (induction ps arbitrary: acc) (simp_all add: max_height_def height_view split: option.split)

lemma calculate_height_view: "calculate_message_height B m s = Inr (new_height (view s) (am_parents m))"
  by (simp add: calculate_message_height_def new_height_def max_parent_height_view)

lemma add_parents_view:
  "fst (add_parents B i ps s) = Inr () \<and> view (snd (add_parents B i ps s)) = foldl (\<lambda>g p. dag_link p i g) (view s) ps"
  by (induction ps arbitrary: s) (simp_all add: tryR_write or_rollback_ok write_ok write_view)

lemma ignore_not_found_ok: "fst (f s) = Inr () \<Longrightarrow> ignore_not_found f s = f s"
  by (cases "f s") (simp add: ignore_not_found_def)

lemma remove_tips_view:
  "fst (remove_tips B ps s) = Inr () \<and>
   view (snd (remove_tips B ps s)) = (view s)\<lparr>dg_tips := dg_tips (view s) - set ps\<rparr>"
proof (induction ps arbitrary: s)
  case (Cons p ps)
  have step: "or_rollback B (ignore_not_found (sb_remove_tip B p)) s = sb_remove_tip B p s"
    by (simp add: or_rollback_ok ignore_not_found_ok write_ok)
  have "remove_tips B (p # ps) s = remove_tips B ps (snd (sb_remove_tip B p s))"
    by (simp add: tryR_write step write_ok)
  then show ?case
    by (simp add: Cons.IH write_view set_diff_eq Diff_insert2 [symmetric] insert_commute)
qed simp

lemma store_known:
  assumes "am_id m \<in> dom (dg_messages (view s))"
  shows "fst (store_message B m s) = Inl AlreadyExists \<and> view (snd (store_message B m s)) = view s"
proof -
  let ?s = "snd (sb_begin B s)"
  have "sb_put_message B m ?s = (Inl AlreadyExists, ?s)"
    using assms by (intro put_known) (simp add: write_view)
  then have "or_rollback B (sb_put_message B m) ?s = (Inl AlreadyExists, snd (sb_rollback B ?s))"
    by (simp add: or_rollback_def tryR_write write_ok)
  then show ?thesis
    by (simp add: store_message_def tryR_write write_ok write_view readR_def calculate_height_view tryR_failed)
qed

lemma store_new:
  assumes "am_id m \<notin> dom (dg_messages (view s))"
  shows "fst (store_message B m s) = Inr () \<and> view (snd (store_message B m s)) = dag_store m (view s)"
proof -
  let ?s = "snd (sb_begin B s)"
  have put: "fst (sb_put_message B m ?s) = Inr ()"
    "view (snd (sb_put_message B m ?s)) = (view s)\<lparr>dg_messages := (dg_messages (view s))(am_id m \<mapsto> m)\<rparr>"
    using put_new [of m ?s] assms by (simp_all add: write_view)
  have ps: "fst (add_parents B i ps u) = Inr ()" "view (snd (add_parents B i ps u)) = foldl (\<lambda>g p. dag_link p i g) (view u) ps"
    for i ps u using add_parents_view by blast+
  have tips: "dg_tips (foldl (\<lambda>g p. dag_link p i g) g qs) = dg_tips g" for i g qs
    by (induction qs arbitrary: g) (simp_all add: dag_link_def)
  show ?thesis
    using remove_tips_view
    by (simp add: store_message_def tryR_write or_rollback_ok write_ok write_view readR_def calculate_height_view
        put ps dag_store_def Let_def tips)
qed

lemma finalize_view:
  "fst (storage_finalize_message B i a s) = Inr () \<and> view (snd (storage_finalize_message B i a s)) = dag_finalize i a (view s)"
  by (simp add: storage_finalize_message_def tryR_write or_rollback_ok write_ok write_view ignoreR_def dag_finalize_def)

end

section \<open>The graph that \<open>MemoryBackend\<close> holds\<close>

definition memory_dag :: "message_store \<Rightarrow> dag" where
  "memory_dag s = \<lparr>dg_messages = st_messages s, dg_parents = list_at (st_parents s), dg_children = list_at (st_children s),
     dg_tips = st_tips s, dg_meta = st_metadata s, dg_final = st_finalized s\<rparr>"

lemma list_at_push [simp]: "list_at (push_at k v m) = (list_at m)(k := list_at m k @ [v])"
  by (auto simp: push_at_def list_at_def fun_eq_iff)

lemmas memory_ops = mb_put_message_def mb_get_message_def mb_add_parent_child_def mb_get_children_def mb_get_parents_def
  mb_add_tip_def mb_remove_tip_def mb_put_metadata_def mb_get_metadata_def mb_mark_finalized_def mb_no_op_def

interpretation memdag: message_backend "memory_backend ord" memory_dag for ord
  by unfold_locales
    (simp_all add: memory_backend_def memory_dag_def dag_link_def memory_ops Let_def)

lemma memory_dag_new: "memory_dag message_store_new = empty_dag"
  by (simp add: memory_dag_def message_store_new_def empty_dag_def list_at_def fun_eq_iff)

section \<open>Well-formed graphs\<close>

definition dag_level :: "dag \<Rightarrow> message_id \<Rightarrow> nat" where
  "dag_level g i = (case dag_height g i of None \<Rightarrow> 0 | Some h \<Rightarrow> unat h)"

definition levels_ok :: "dag \<Rightarrow> bool" where
  "levels_ok g \<longleftrightarrow> (\<forall>i m. dg_messages g i = Some m \<longrightarrow>
     dag_height g i \<noteq> None \<and> dag_level g i < card (dom (dg_messages g)) \<and>
     dag_level g i = (if am_parents m = [] then 0 else Suc (Max (dag_level g ` set (am_parents m)))))"

definition dag_ok :: "dag \<Rightarrow> bool" where
  "dag_ok g \<longleftrightarrow>
     finite (dom (dg_messages g)) \<and>
     (\<forall>i m. dg_messages g i = Some m \<longrightarrow> am_id m = i \<and> dg_parents g i = am_parents m \<and>
        set (am_parents m) \<subseteq> dom (dg_messages g)) \<and>
     (\<forall>i. i \<notin> dom (dg_messages g) \<longrightarrow> dg_parents g i = [] \<and> dg_children g i = []) \<and>
     (\<forall>p c. count_list (dg_children g p) c = count_list (dg_parents g c) p) \<and>
     dg_tips g = {i \<in> dom (dg_messages g). dg_children g i = [] \<and> i \<notin> dom (dg_final g)} \<and>
     dom (dg_final g) \<subseteq> dom (dg_messages g) \<and>
     (card (dom (dg_messages g)) < 2 ^ 64 \<longrightarrow> levels_ok g)"

lemma dag_ok_empty: "dag_ok empty_dag"
  by (simp add: dag_ok_def empty_dag_def levels_ok_def)

lemma foldl_link_fields:
  "dg_messages (foldl (\<lambda>g p. dag_link p c g) g ps) = dg_messages g"
  "dg_meta (foldl (\<lambda>g p. dag_link p c g) g ps) = dg_meta g"
  "dg_final (foldl (\<lambda>g p. dag_link p c g) g ps) = dg_final g"
  "dg_parents (foldl (\<lambda>g p. dag_link p c g) g ps) = (dg_parents g)(c := dg_parents g c @ ps)"
  "dg_children (foldl (\<lambda>g p. dag_link p c g) g ps) x = dg_children g x @ replicate (count_list ps x) c"
  by (induction ps arbitrary: g) (auto simp: dag_link_def replicate_append_same)

lemma dag_store_fields [simp]:
  "dg_messages (dag_store m g) = (dg_messages g)(am_id m \<mapsto> m)"
  "dg_meta (dag_store m g) = (dg_meta g)((am_id m, ''height'') \<mapsto> le_bytes (new_height g (am_parents m)))"
  "dg_final (dag_store m g) = dg_final g"
  "dg_parents (dag_store m g) = (dg_parents g)(am_id m := dg_parents g (am_id m) @ am_parents m)"
  "dg_children (dag_store m g) x = dg_children g x @ replicate (count_list (am_parents m) x) (am_id m)"
  "dg_tips (dag_store m g) = insert (am_id m) (dg_tips g - set (am_parents m))"
  by (simp_all add: dag_store_def Let_def foldl_link_fields)

lemma dag_height_store:
  "dag_height (dag_store m g) i = (if i = am_id m then Some (new_height g (am_parents m)) else dag_height g i)"
  by (simp add: dag_height_def)

lemma max_height_levels:
  assumes "\<forall>p \<in> set ps. dag_height g p \<noteq> None"
  shows "unat (max_height g ps acc) = Max (insert (unat acc) (dag_level g ` set ps))"
  using assms
proof (induction ps arbitrary: acc)
  case (Cons p ps)
  then obtain h where h: "dag_height g p = Some h" by auto
  then have "unat (max_height g (p # ps) acc) = Max (insert (unat (max acc h)) (dag_level g ` set ps))"
    using Cons by (simp add: max_height_def)
  also have "\<dots> = Max (insert (unat acc) (dag_level g ` set (p # ps)))"
  proof -
    have "unat (max acc h) = max (unat acc) (unat h)"
      by (simp add: max_def word_le_nat_alt)
    then show ?thesis
      by (cases "ps = []") (simp_all add: h dag_level_def max.assoc insert_commute)
  qed
  finally show ?case .
qed (simp add: max_height_def)

lemma new_height_level:
  assumes "\<forall>p \<in> set ps. dag_height g p \<noteq> None" and "\<forall>p \<in> set ps. dag_level g p < n" and "n < 2 ^ 64"
  shows "unat (new_height g ps) = (if ps = [] then 0 else Suc (Max (dag_level g ` set ps)))"
proof (cases "ps = []")
  case False
  then have m: "unat (max_height g ps 0) = Max (dag_level g ` set ps)"
    using max_height_levels [OF assms(1), of 0] by (simp add: max_def)
  moreover have "Max (dag_level g ` set ps) < n"
    using False assms(2) by simp
  ultimately have "unat (max_height g ps 0 + 1) = Suc (Max (dag_level g ` set ps))"
    using assms(3) unat_add_lem [of "max_height g ps 0" "1 :: u64"] by simp
  with False show ?thesis by (simp add: new_height_def)
qed (simp add: new_height_def)

lemma levels_ok_store:
  assumes ok: "dag_ok g" and new: "am_id m \<notin> dom (dg_messages g)" and known: "set (am_parents m) \<subseteq> dom (dg_messages g)"
    and size: "card (dom (dg_messages (dag_store m g))) < 2 ^ 64"
  shows "levels_ok (dag_store m g)"
proof -
  have fin: "finite (dom (dg_messages g))"
    using ok by (simp add: dag_ok_def)
  then have card: "card (dom (dg_messages (dag_store m g))) = Suc (card (dom (dg_messages g)))"
    using new by simp
  then have old: "levels_ok g"
    using ok size by (simp add: dag_ok_def)
  have other: "dag_level (dag_store m g) i = dag_level g i" if "i \<in> dom (dg_messages g)" for i
    using that new by (auto simp: dag_level_def dag_height_store)
  have parents: "dag_level (dag_store m g) ` set ps = dag_level g ` set ps" if "set ps \<subseteq> dom (dg_messages g)" for ps
    using that by (intro image_cong refl other) auto
  have level: "dag_level g p < card (dom (dg_messages g))" "dag_height g p \<noteq> None" if "p \<in> dom (dg_messages g)" for p
    using old that by (auto simp: levels_ok_def)
  have "unat (new_height g (am_parents m)) =
      (if am_parents m = [] then 0 else Suc (Max (dag_level g ` set (am_parents m))))"
  proof (rule new_height_level)
    show "\<forall>p \<in> set (am_parents m). dag_height g p \<noteq> None"
      "\<forall>p \<in> set (am_parents m). dag_level g p < card (dom (dg_messages g))"
      using level known by blast+
    show "card (dom (dg_messages g)) < 2 ^ 64"
      using size card by simp
  qed
  then have "dag_level (dag_store m g) (am_id m) =
      (if am_parents m = [] then 0 else Suc (Max (dag_level g ` set (am_parents m))))"
    by (simp add: dag_level_def [of "dag_store m g"] dag_height_store)
  moreover have "(if am_parents m = [] then 0 else Suc (Max (dag_level g ` set (am_parents m)))) <
      Suc (card (dom (dg_messages g)))"
    using level(1) subsetD [OF known] by (simp add: Max_less_iff)
  ultimately have this_one: "dag_level (dag_store m g) (am_id m) < Suc (card (dom (dg_messages g))) \<and>
      dag_level (dag_store m g) (am_id m) =
      (if am_parents m = [] then 0 else Suc (Max (dag_level (dag_store m g) ` set (am_parents m))))"
    using parents [OF known] by simp
  show ?thesis
    unfolding levels_ok_def
  proof (intro allI impI)
    fix i x assume x: "dg_messages (dag_store m g) i = Some x"
    show "dag_height (dag_store m g) i \<noteq> None \<and>
      dag_level (dag_store m g) i < card (dom (dg_messages (dag_store m g))) \<and>
      dag_level (dag_store m g) i =
        (if am_parents x = [] then 0 else Suc (Max (dag_level (dag_store m g) ` set (am_parents x))))"
    proof (cases "i = am_id m")
      case True
      with x this_one show ?thesis
        unfolding card by (simp add: dag_height_store)
    next
      case False
      with x have old_x: "dg_messages g i = Some x" by simp
      have "set (am_parents x) \<subseteq> dom (dg_messages g)"
        using ok old_x unfolding dag_ok_def by blast
      moreover from this have "\<forall>a \<in> set (am_parents x). dag_level g a < card (dom (dg_messages g))"
        using level(1) by blast
      ultimately show ?thesis using old old_x False
        unfolding card levels_ok_def by (simp add: dag_height_store parents other domI less_SucI)
    qed
  qed
qed

lemma count_list_replicate: "count_list (replicate n x) y = (if x = y then n else 0)"
  by (induction n) auto

lemma dag_ok_store:
  assumes ok: "dag_ok g" and new: "am_id m \<notin> dom (dg_messages g)" and known: "set (am_parents m) \<subseteq> dom (dg_messages g)"
  shows "dag_ok (dag_store m g)"
proof -
  let ?i = "am_id m"
  note parts = ok [unfolded dag_ok_def]
  have fresh: "dg_parents g ?i = []" "dg_children g ?i = []"
    using parts new by blast+
  have not_parent: "?i \<notin> set (am_parents m)"
    using new known by blast
  have not_child: "count_list (dg_children g p) ?i = 0" for p
    using parts fresh(1) by (metis count_list.simps(1))
  have tips: "dg_tips g = {i \<in> dom (dg_messages g). dg_children g i = [] \<and> i \<notin> dom (dg_final g)}"
    and final: "dom (dg_final g) \<subseteq> dom (dg_messages g)"
    using parts by blast+
  have children: "dg_children (dag_store m g) p = [] \<longleftrightarrow> dg_children g p = [] \<and> p \<notin> set (am_parents m)" for p
    by (auto simp: count_list_0_iff)
  have tips': "dg_tips (dag_store m g) = {i \<in> dom (dg_messages (dag_store m g)).
      dg_children (dag_store m g) i = [] \<and> i \<notin> dom (dg_final (dag_store m g))}"
    unfolding children using fresh not_parent final new by (auto simp: tips simp del: dag_store_fields(5))
  have sym: "count_list (dg_children (dag_store m g) p) c = count_list (dg_parents (dag_store m g) c) p" for p c
    using parts fresh not_child [of p] by (simp add: count_list_append count_list_replicate)
  have unknown: "dg_parents (dag_store m g) i = [] \<and> dg_children (dag_store m g) i = []"
    if "i \<notin> dom (dg_messages (dag_store m g))" for i
    using that parts known unfolding children by auto
  have stored: "am_id x = i \<and> dg_parents (dag_store m g) i = am_parents x \<and>
      set (am_parents x) \<subseteq> dom (dg_messages (dag_store m g))" if "dg_messages (dag_store m g) i = Some x" for i x
  proof (cases "i = ?i")
    case True
    with that fresh known show ?thesis by auto
  next
    case False
    with that have "dg_messages g i = Some x" by simp
    then have "am_id x = i \<and> dg_parents g i = am_parents x \<and> set (am_parents x) \<subseteq> dom (dg_messages g)"
      using parts by blast
    with False show ?thesis by auto
  qed
  have fin: "finite (dom (dg_messages (dag_store m g)))" "dom (dg_final (dag_store m g)) \<subseteq> dom (dg_messages (dag_store m g))"
    using parts final by auto
  show ?thesis
    unfolding dag_ok_def using fin tips' sym unknown stored levels_ok_store [OF ok new known] by blast
qed

lemma dag_ok_finalize:
  assumes ok: "dag_ok g" and known: "i \<in> dom (dg_messages g)"
  shows "dag_ok (dag_finalize i a g)"
proof -
  have "levels_ok (dag_finalize i a g) = levels_ok g"
    by (simp add: levels_ok_def dag_finalize_def dag_level_def dag_height_def)
  with ok known show ?thesis
    by (auto simp: dag_ok_def dag_finalize_def)
qed

text \<open>The states reached by storing messages whose parents are stored and finalizing stored messages.\<close>

inductive dag_reach :: "'s storage_backend \<Rightarrow> ('s \<Rightarrow> dag) \<Rightarrow> 's \<Rightarrow> 's \<Rightarrow> bool" for B view s where
  reach_start: "dag_reach B view s s"
| reach_store: "dag_reach B view s t \<Longrightarrow> set (am_parents m) \<subseteq> dom (dg_messages (view t)) \<Longrightarrow>
    dag_reach B view s (snd (store_message B m t))"
| reach_finalize: "dag_reach B view s t \<Longrightarrow> i \<in> dom (dg_messages (view t)) \<Longrightarrow>
    dag_reach B view s (snd (storage_finalize_message B i a t))"

context message_backend
begin

lemma store_message_ok:
  assumes "dag_ok (view s)" and "set (am_parents m) \<subseteq> dom (dg_messages (view s))"
  shows "dag_ok (view (snd (store_message B m s)))"
  using assms store_known [of m s] store_new [of m s] dag_ok_store [of "view s" m] by (metis (no_types))

lemma reach_ok: "dag_reach B view s t \<Longrightarrow> dag_ok (view s) \<Longrightarrow> dag_ok (view t)"
  by (induction rule: dag_reach.induct) (simp_all add: store_message_ok finalize_view dag_ok_finalize)

end

text \<open>C9: in every state of the message store that is reached by storing messages after their
  parents and finalizing stored messages, each message is listed as a child of its parents as
  often as they are listed as its parents, the tips are the stored messages that have no child and
  are not finalized, and the recorded height of a message is zero without parents and one above its
  highest parent otherwise, so that the graph has no cycle.\<close>

theorem message_graph_consistent:
  assumes "dag_reach (memory_backend ord) memory_dag message_store_new s"
    and "card (dom (st_messages s)) < 2 ^ 64"
  shows "(\<forall>p c. mb_get_children p s = Inr (list_at (st_children s) p) \<and> mb_get_parents c s = Inr (list_at (st_parents s) c) \<and>
        count_list (list_at (st_children s) p) c = count_list (list_at (st_parents s) c) p) \<and>
    st_tips s = {i \<in> dom (st_messages s). list_at (st_children s) i = [] \<and> i \<notin> dom (st_finalized s)} \<and>
    (\<forall>i m. st_messages s i = Some m \<longrightarrow> list_at (st_parents s) i = am_parents m \<and>
       (\<exists>h. get_message_height (memory_backend ord) i s = Inr (Some h) \<and>
          (am_parents m = [] \<longrightarrow> h = 0) \<and>
          (am_parents m \<noteq> [] \<longrightarrow> unat h = Suc (Max (dag_level (memory_dag s) ` set (am_parents m)))))) \<and>
    acyclic {(p, c). c \<in> set (list_at (st_children s) p)}"
proof -
  let ?g = "memory_dag s"
  have ok: "dag_ok ?g"
    using memdag.reach_ok [OF assms(1)] by (simp add: memory_dag_new dag_ok_empty)
  note parts = ok [unfolded dag_ok_def]
  have g: "dg_messages ?g = st_messages s" "dg_parents ?g = list_at (st_parents s)" "dg_children ?g = list_at (st_children s)"
    "dg_tips ?g = st_tips s" "dg_final ?g = st_finalized s"
    by (simp_all add: memory_dag_def)
  have levels: "levels_ok ?g"
    using parts assms(2) by (simp add: g)
  have sym: "count_list (dg_children ?g p) c = count_list (dg_parents ?g c) p" for p c
    using parts by blast
  have stored: "dg_parents ?g i = am_parents m" if "dg_messages ?g i = Some m" for i m
    using that parts by blast
  have height: "\<exists>h. dag_height ?g i = Some h \<and> (am_parents m = [] \<longrightarrow> h = 0) \<and>
      (am_parents m \<noteq> [] \<longrightarrow> unat h = Suc (Max (dag_level ?g ` set (am_parents m))))"
    if "dg_messages ?g i = Some m" for i m
    using levels that unfolding levels_ok_def by (force simp: dag_level_def [of ?g i] unat_eq_0)
  have "dag_level ?g p < dag_level ?g c" if "c \<in> set (dg_children ?g p)" for p c
  proof -
    have p: "p \<in> set (dg_parents ?g c)"
      using that sym [of p c] count_notin [of p "dg_parents ?g c"] by (metis count_list_0_iff)
    then have "c \<in> dom (dg_messages ?g)"
      using parts by (metis list.set(1) empty_iff)
    then obtain m where m: "dg_messages ?g c = Some m" by blast
    have "dag_level ?g c = Suc (Max (dag_level ?g ` set (am_parents m)))"
      using levels m p stored [OF m] unfolding levels_ok_def by (metis empty_iff list.set(1))
    then show ?thesis
      using p stored [OF m] by (simp add: less_Suc_eq_le)
  qed
  then have "{(p, c). c \<in> set (dg_children ?g p)} \<subseteq> measure (dag_level ?g)"
    by auto
  then have "acyclic {(p, c). c \<in> set (dg_children ?g p)}"
    by (rule acyclic_subset [OF wf_acyclic [OF wf_measure]])
  moreover have "dg_tips ?g = {i \<in> dom (dg_messages ?g). dg_children ?g i = [] \<and> i \<notin> dom (dg_final ?g)}"
    using parts by blast
  ultimately show ?thesis
    using sym height stored unfolding g memdag.height_view by (simp add: mb_get_children_def mb_get_parents_def)
qed

definition demo_message :: "message_id \<Rightarrow> message_id list \<Rightarrow> adic_message" where
  "demo_message i ps = \<lparr>am_id = i, am_parents = ps, am_features = \<lparr>af_phi = []\<rparr>, am_meta = meta_new 0,
     am_proposer = [], am_signature = [], am_transfer = None, am_data = []\<rparr>"

lemma demo_message_simps [simp]: "am_id (demo_message i ps) = i" "am_parents (demo_message i ps) = ps"
  by (simp_all add: demo_message_def)

definition demo_store :: message_store where
  "demo_store = snd (store_message (memory_backend (\<lambda>_. [])) (demo_message [2] [[1], [1]])
     (snd (store_message (memory_backend (\<lambda>_. [])) (demo_message [1] []) message_store_new)))"

lemma demo_dag: "memory_dag demo_store = dag_store (demo_message [2] [[1], [1]]) (dag_store (demo_message [1] []) empty_dag)"
proof -
  let ?B = "memory_backend (\<lambda>_. [])"
  have one: "memory_dag (snd (store_message ?B (demo_message [1] []) message_store_new)) = dag_store (demo_message [1] []) empty_dag"
    using memdag.store_new [of "demo_message [1] []" message_store_new] by (simp add: memory_dag_new empty_dag_def)
  have "am_id (demo_message [2] [[1], [1]]) \<notin> dom (dg_messages (memory_dag (snd (store_message ?B (demo_message [1] []) message_store_new))))"
    unfolding one by (simp add: empty_dag_def)
  from memdag.store_new [OF this] show ?thesis
    unfolding demo_store_def one [symmetric] by blast
qed

lemma demo_store_messages: "dom (st_messages demo_store) = {[1], [2]}"
proof -
  have "st_messages demo_store = dg_messages (memory_dag demo_store)"
    by (simp add: memory_dag_def)
  then show ?thesis
    by (auto simp: demo_dag empty_dag_def)
qed

lemma demo_reach: "dag_reach (memory_backend (\<lambda>_. [])) memory_dag message_store_new demo_store"
proof -
  have one: "memory_dag (snd (store_message (memory_backend (\<lambda>_. [])) (demo_message [1] []) message_store_new)) =
      dag_store (demo_message [1] []) empty_dag"
    using memdag.store_new [of "demo_message [1] []" message_store_new] by (simp add: memory_dag_new empty_dag_def)
  show ?thesis
    unfolding demo_store_def by (intro reach_store reach_start) (simp_all add: one)
qed

theorem message_graph_consistent_witness:
  "dag_reach (memory_backend (\<lambda>_. [])) memory_dag message_store_new demo_store \<and> card (dom (st_messages demo_store)) < 2 ^ 64 \<and>
   st_tips demo_store = {i \<in> dom (st_messages demo_store). list_at (st_children demo_store) i = [] \<and> i \<notin> dom (st_finalized demo_store)} \<and>
   acyclic {(p, c). c \<in> set (list_at (st_children demo_store) p)}"
proof -
  have size: "card (dom (st_messages demo_store)) < 2 ^ 64"
    by (simp add: demo_store_messages)
  show ?thesis
    using demo_reach size message_graph_consistent [OF demo_reach size] by blast
qed

section \<open>Traversals\<close>

lemma visit_new:
  assumes "visit B s d ns visited queue result = (visited', queue', result')" and "finite visited"
  shows "visited' = visited \<union> set ns \<and> (\<exists>more_ids. queue' = queue @ more_ids \<and> length more_ids + card visited = card visited')"
  using assms
proof (induction ns arbitrary: visited queue result)
  case (Cons n ns)
  show ?case
  proof (cases "n \<in> visited")
    case True
    with Cons show ?thesis by (auto simp: insert_absorb)
  next
    case False
    then have "visited' = insert n visited \<union> set ns \<and>
        (\<exists>more_ids. queue' = (queue @ [(n, d + 1)]) @ more_ids \<and> length more_ids + card (insert n visited) = card visited')"
      by (intro Cons.IH) (use Cons.prems False in auto)
    then obtain more_ids where more_ids: "visited' = insert n visited \<union> set ns" "queue' = (queue @ [(n, d + 1)]) @ more_ids"
        "length more_ids + card (insert n visited) = card visited'"
      by blast
    then have "queue' = queue @ (n, d + 1) # more_ids \<and> length ((n, d + 1) # more_ids) + card visited = card visited'"
      using False Cons.prems(2) by simp
    moreover have "visited' = visited \<union> set (n # ns)"
      using more_ids(1) by simp
    ultimately show ?thesis by blast
  qed
qed auto

lemma traverse_returns:
  assumes "finite U" and "\<And>i ns. neighbours i s = Inr ns \<Longrightarrow> set ns \<subseteq> U" and "visited \<subseteq> U"
  shows "\<exists>r. traverse_loop B neighbours s depth visited queue result = Some r"
  using assms(3)
proof (induction "2 * card (U - visited) + length queue" arbitrary: visited queue result rule: less_induct)
  case less
  show ?case
  proof (cases queue)
    case Nil
    then show ?thesis by (simp add: traverse_loop.simps)
  next
    case (Cons e q)
    obtain i d where e: "e = (i, d)" by force
    have pop: "\<exists>r. traverse_loop B neighbours s depth visited q result = Some r" for result
      by (rule less.hyps) (use Cons less.prems in auto)
    show ?thesis
    proof (cases "depth \<le> d \<or> (\<exists>x. neighbours i s = Inl x)")
      case True
      with pop show ?thesis
        by (subst traverse_loop.simps) (auto simp: Cons e)
    next
      case False
      then obtain ns where ns: "neighbours i s = Inr ns"
        by (cases "neighbours i s") auto
      obtain v' q' r' where v: "visit B s d ns visited q result = (v', q', r')"
        by (metis prod_cases3)
      have fin: "finite visited"
        using less.prems assms(1) finite_subset by blast
      from visit_new [OF v this] obtain more_ids where v': "v' = visited \<union> set ns" and q': "q' = q @ more_ids"
          and len: "length more_ids + card visited = card v'"
        by blast
      have sub: "v' \<subseteq> U"
        using v' less.prems assms(2) [OF ns] by blast
      have "card (U - v') = card U - card v'" "card (U - visited) = card U - card visited"
        using sub less.prems assms(1) by (simp_all add: card_Diff_subset finite_subset)
      moreover have "card v' \<le> card U"
        by (rule card_mono [OF assms(1) sub])
      ultimately have "\<exists>r. traverse_loop B neighbours s depth v' q' r' = Some r"
        by (intro less.hyps sub) (use len in \<open>simp add: Cons q'\<close>)
      with False show ?thesis
        by (subst traverse_loop.simps) (simp add: Cons e ns v)
    qed
  qed
qed

text \<open>Over a store with finitely many links the two traversals of the message graph return.\<close>

theorem traversals_return:
  assumes "finite (dom (st_children s))" and "finite (dom (st_parents s))"
  shows "\<exists>ancestors descendants. get_ancestors (memory_backend ord) i depth s = Some ancestors \<and>
    get_descendants (memory_backend ord) i depth s = Some descendants"
proof -
  have fin: "finite (insert i (\<Union>x. set (list_at m x)))" if "finite (dom m)" for m :: "message_id \<rightharpoonup> message_id list"
  proof -
    have "(\<Union>x. set (list_at m x)) \<subseteq> (\<Union>x \<in> dom m. set (list_at m x))"
    proof (intro UN_least subsetI)
      fix x y assume y: "y \<in> set (list_at m x)"
      then have "x \<in> dom m"
        by (cases "m x") (auto simp: list_at_def)
      with y show "y \<in> (\<Union>x \<in> dom m. set (list_at m x))" by blast
    qed
    with that show ?thesis
      by (simp add: finite_subset)
  qed
  have "\<exists>r. get_ancestors (memory_backend ord) i depth s = Some r"
    unfolding get_ancestors_def
    by (rule traverse_returns [OF fin [OF assms(2)]]) (auto simp: memory_backend_def mb_get_parents_def)
  moreover have "\<exists>r. get_descendants (memory_backend ord) i depth s = Some r"
    unfolding get_descendants_def
    by (rule traverse_returns [OF fin [OF assms(1)]]) (auto simp: memory_backend_def mb_get_children_def)
  ultimately show ?thesis by blast
qed

end
