(* ===== verification/Kcore.thy ===== *)
theory Kcore
  imports Message_Storage Reputation "HOL-Library.List_Lexorder"
begin

text \<open>
  The k-core analysis behind F1 finality (\<open>crates/adic-finality/src/kcore.rs\<close>): the cone of
  descendants of a message, its k-core, the depth below the message, and the reputation and
  diversity of the core. The analyzer keeps two caches and reads the message store through
  \<open>StorageEngine\<close>, here an arbitrary backend. A \<open>HashSet\<close> is a set, a \<open>HashMap\<close> a
  map; \<open>ord\<close> is the order in which a hash table is iterated over. Reputations are exact
  reals.

  The lemmas show that the loops end on a finite store and that the peeling of the cone computes its
  largest k-core, whatever the iteration order.
\<close>

section \<open>State\<close>

record kcore_result =
  kr_is_final :: bool
  kr_core_size :: nat
  kr_depth :: u32
  kr_total_reputation :: f64
  kr_distinct_balls :: "u32 \<rightharpoonup> nat"
  kr_kcore_root :: "message_id option"

definition kcore_not_final :: kcore_result where
  "kcore_not_final = \<lparr>kr_is_final = False, kr_core_size = 0, kr_depth = 0, kr_total_reputation = 0,
     kr_distinct_balls = Map.empty, kr_kcore_root = None\<rparr>"

record kcore_analyzer =
  ka_k :: nat
  ka_min_depth :: u32
  ka_min_diversity :: nat
  ka_min_reputation :: f64
  ka_rho :: "u32 list"
  ka_depth_cache :: "message_id \<rightharpoonup> u32"
  ka_children_cache :: "message_id \<rightharpoonup> message_id list"

definition kcore_analyzer_new :: "nat \<Rightarrow> u32 \<Rightarrow> nat \<Rightarrow> f64 \<Rightarrow> u32 list \<Rightarrow> kcore_analyzer" where
  "kcore_analyzer_new k min_depth min_diversity min_reputation rho =
     \<lparr>ka_k = k, ka_min_depth = min_depth, ka_min_diversity = min_diversity, ka_min_reputation = min_reputation,
      ka_rho = rho, ka_depth_cache = Map.empty, ka_children_cache = Map.empty\<rparr>"

definition clear_caches :: "kcore_analyzer \<Rightarrow> kcore_analyzer" where
  "clear_caches a = a\<lparr>ka_depth_cache := Map.empty, ka_children_cache := Map.empty\<rparr>"

definition cache_stats :: "kcore_analyzer \<Rightarrow> nat \<times> nat" where
  "cache_stats a = (card (dom (ka_depth_cache a)), card (dom (ka_children_cache a)))"

section \<open>Operations\<close>

text \<open>\<open>if let Ok(xs) = ..\<close>\<close>

definition ok_list :: "'e + 'a list \<Rightarrow> 'a list" where
  "ok_list r = (case r of Inl _ \<Rightarrow> [] | Inr xs \<Rightarrow> xs)"

primrec enqueue_new :: "'a list \<Rightarrow> 'a set \<Rightarrow> 'a list \<Rightarrow> 'a set \<times> 'a list" where
  "enqueue_new [] cone queue = (cone, queue)"
| "enqueue_new (x # xs) cone queue =
     (if x \<in> cone then enqueue_new xs cone queue else enqueue_new xs (insert x cone) (queue @ [x]))"

partial_function (option) cone_loop :: "(message_id \<Rightarrow> message_id list) \<Rightarrow> message_id set \<Rightarrow> message_id list \<Rightarrow> message_id set option" where
  "cone_loop children cone queue =
     (case queue of
        [] \<Rightarrow> Some cone
      | current # queue \<Rightarrow> (case enqueue_new (children current) cone queue of (cone, queue) \<Rightarrow> cone_loop children cone queue))"

definition build_forward_cone :: "'s storage_backend \<Rightarrow> 's \<Rightarrow> message_id \<Rightarrow> message_id set option" where
  "build_forward_cone B s i = cone_loop (\<lambda>x. ok_list (sb_get_children B x s)) {i} [i]"

definition initial_degree :: "'s storage_backend \<Rightarrow> 's \<Rightarrow> message_id set \<Rightarrow> message_id \<Rightarrow> nat" where
  "initial_degree B s nodes node =
     length (filter (\<lambda>p. p \<in> nodes) (ok_list (sb_get_parents B node s))) +
     length (filter (\<lambda>c. c \<in> nodes) (ok_list (sb_get_children B node s)))"

definition decrement :: "(message_id \<rightharpoonup> nat) \<Rightarrow> message_id \<Rightarrow> (message_id \<rightharpoonup> nat)" where
  "decrement degrees n = (case degrees n of None \<Rightarrow> degrees | Some d \<Rightarrow> degrees(n \<mapsto> d - 1))"

primrec remove_nodes :: "'s storage_backend \<Rightarrow> 's \<Rightarrow> message_id list \<Rightarrow> message_id set \<Rightarrow> (message_id \<rightharpoonup> nat) \<Rightarrow>
    message_id set \<times> (message_id \<rightharpoonup> nat)" where
  "remove_nodes B s [] core degrees = (core, degrees)"
| "remove_nodes B s (n # ns) core degrees =
     remove_nodes B s ns (core - {n})
       (foldl decrement (foldl decrement degrees (ok_list (sb_get_parents B n s))) (ok_list (sb_get_children B n s)))"

definition below_k :: "(message_id set \<Rightarrow> message_id list) \<Rightarrow> nat \<Rightarrow> message_id set \<Rightarrow> (message_id \<rightharpoonup> nat) \<Rightarrow> message_id list" where
  "below_k ord k core degrees =
     filter (\<lambda>i. i \<in> core \<and> (case degrees i of None \<Rightarrow> False | Some d \<Rightarrow> d < k)) (ord (dom degrees))"

partial_function (option) peel_loop :: "(message_id set \<Rightarrow> message_id list) \<Rightarrow> 's storage_backend \<Rightarrow> 's \<Rightarrow> nat \<Rightarrow>
    message_id set \<Rightarrow> (message_id \<rightharpoonup> nat) \<Rightarrow> message_id set option" where
  "peel_loop ord B s k core degrees =
     (case below_k ord k core degrees of
        [] \<Rightarrow> Some core
      | n # ns \<Rightarrow> (case remove_nodes B s (n # ns) core degrees of (core, degrees) \<Rightarrow> peel_loop ord B s k core degrees))"

definition compute_kcore :: "(message_id set \<Rightarrow> message_id list) \<Rightarrow> 's storage_backend \<Rightarrow> 's \<Rightarrow> nat \<Rightarrow> message_id set \<Rightarrow> message_id set option" where
  "compute_kcore ord B s k nodes =
     peel_loop ord B s k nodes (\<lambda>n. if n \<in> nodes then Some (initial_degree B s nodes n) else None)"

text \<open>The children of a message, from the cache or else from the store, and the cache afterwards.\<close>

definition cached_children :: "'s storage_backend \<Rightarrow> 's \<Rightarrow> message_id \<Rightarrow> (message_id \<rightharpoonup> message_id list) \<Rightarrow>
    message_id list \<times> (message_id \<rightharpoonup> message_id list)" where
  "cached_children B s current cache =
     (case cache current of
        Some cs \<Rightarrow> (cs, cache)
      | None \<Rightarrow> (case sb_get_children B current s of
            Inr cs \<Rightarrow> (cs, cache(current \<mapsto> cs))
          | Inl _ \<Rightarrow> ([], cache)))"

primrec enqueue_core :: "message_id set \<Rightarrow> u32 \<Rightarrow> message_id list \<Rightarrow> message_id set \<Rightarrow> (message_id \<times> u32) list \<Rightarrow>
    message_id set \<times> (message_id \<times> u32) list" where
  "enqueue_core core d [] visited queue = (visited, queue)"
| "enqueue_core core d (c # cs) visited queue =
     (if c \<in> core \<and> c \<notin> visited then enqueue_core core d cs (insert c visited) (queue @ [(c, d + 1)])
      else enqueue_core core d cs visited queue)"

partial_function (option) depth_loop :: "'s storage_backend \<Rightarrow> 's \<Rightarrow> message_id set \<Rightarrow> message_id set \<Rightarrow> (message_id \<times> u32) list \<Rightarrow>
    u32 \<Rightarrow> (message_id \<rightharpoonup> message_id list) \<Rightarrow> (u32 \<times> (message_id \<rightharpoonup> message_id list)) option" where
  "depth_loop B s core visited queue max_depth cache =
     (case queue of
        [] \<Rightarrow> Some (max_depth, cache)
      | (current, d) # queue \<Rightarrow>
          (case cached_children B s current cache of (children, cache) \<Rightarrow>
           case enqueue_core core d children visited queue of (visited, queue) \<Rightarrow>
             depth_loop B s core visited queue (max max_depth d) cache))"

definition compute_depth :: "'s storage_backend \<Rightarrow> 's \<Rightarrow> message_id set \<Rightarrow> message_id \<Rightarrow> kcore_analyzer \<Rightarrow> (u32 \<times> kcore_analyzer) option" where
  "compute_depth B s core i a =
     (case ka_depth_cache a i of
        Some cached_depth \<Rightarrow> Some (cached_depth, a)
      | None \<Rightarrow>
          map_option (\<lambda>(max_depth, cache).
              (max_depth, a\<lparr>ka_depth_cache := (ka_depth_cache a)(i \<mapsto> max_depth), ka_children_cache := cache\<rparr>))
            (depth_loop B s core {i} [(i, 0)] 0 (ka_children_cache a)))"

definition ball_of :: "u32 list \<Rightarrow> axis_phi \<Rightarrow> u32 \<times> bytes" where
  "ball_of rho phi =
     (let axis = axis_index (ap_axis phi);
          radius = (case vget rho (unat axis) of None \<Rightarrow> 2 | Some r \<Rightarrow> unat r)
      in (axis, qp_ball_id (ap_digits phi) radius))"

definition core_messages :: "(message_id set \<Rightarrow> message_id list) \<Rightarrow> 's storage_backend \<Rightarrow> 's \<Rightarrow> message_id set \<Rightarrow> adic_message list" where
  "core_messages ord B s core =
     List.map_filter (\<lambda>n. case sb_get_message B n s of Inr (Some m) \<Rightarrow> Some m | _ \<Rightarrow> None) (ord core)"

definition compute_metrics :: "(message_id set \<Rightarrow> message_id list) \<Rightarrow> 's storage_backend \<Rightarrow> 's \<Rightarrow> reputation_tracker \<Rightarrow> u32 list \<Rightarrow>
    message_id set \<Rightarrow> f64 \<times> (u32 \<rightharpoonup> nat)" where
  "compute_metrics ord B s rep rho core =
     (let messages = core_messages ord B s core;
          total_reputation = foldl (\<lambda>acc m. acc + get_reputation rep (am_proposer m)) 0 messages;
          balls = foldl (\<lambda>acc b. insert_at (fst b) (snd b) acc) Map.empty
            (concat (map (\<lambda>m. map (ball_of rho) (af_phi (am_features m))) messages))
      in (total_reputation, map_option card \<circ> balls))"

definition analyze :: "(message_id set \<Rightarrow> message_id list) \<Rightarrow> 's storage_backend \<Rightarrow> 's \<Rightarrow> reputation_tracker \<Rightarrow> message_id \<Rightarrow>
    kcore_analyzer \<Rightarrow> (kcore_result \<times> kcore_analyzer) option" where
  "analyze ord B s rep i a =
     (case build_forward_cone B s i of
        None \<Rightarrow> None
      | Some forward_cone \<Rightarrow>
          if forward_cone = {} then Some (kcore_not_final, a)
          else case compute_kcore ord B s (ka_k a) forward_cone of
              None \<Rightarrow> None
            | Some kcore \<Rightarrow>
                if kcore = {} then Some (kcore_not_final, a)
                else case compute_depth B s kcore i a of
                    None \<Rightarrow> None
                  | Some (d, a) \<Rightarrow>
                      (case compute_metrics ord B s rep (ka_rho a) kcore of (total_rep, distinct_balls) \<Rightarrow>
                        let is_final = ka_k a \<le> card kcore \<and> ka_min_depth a \<le> d \<and>
                              (\<forall>count \<in> ran distinct_balls. ka_min_diversity a \<le> count) \<and>
                              ka_min_reputation a \<le> total_rep
                        in Some (\<lparr>kr_is_final = is_final, kr_core_size = card kcore, kr_depth = d,
                             kr_total_reputation = total_rep, kr_distinct_balls = distinct_balls,
                             kr_kcore_root = Some i\<rparr>, a)))"

section \<open>The cone\<close>

text \<open>The order of iteration over a hash table: an unspecified enumeration of its keys.\<close>

definition hash_order :: "('a set \<Rightarrow> 'a list) \<Rightarrow> bool" where
  "hash_order ord \<longleftrightarrow> (\<forall>A. finite A \<longrightarrow> set (ord A) = A \<and> distinct (ord A))"

lemma hash_orderD: "hash_order ord \<Longrightarrow> finite A \<Longrightarrow> set (ord A) = A \<and> distinct (ord A)"
  by (simp add: hash_order_def)

lemma sorted_hash_order: "hash_order sorted_list_of_set"
  by (simp add: hash_order_def)

lemma enqueue_new_props:
  assumes "enqueue_new xs cone queue = (cone', queue')" and "finite cone"
  shows "cone' = cone \<union> set xs \<and> (\<exists>fresh. queue' = queue @ fresh \<and> set fresh = set xs - cone \<and>
    length fresh + card cone = card cone')"
  using assms
proof (induction xs arbitrary: cone queue)
  case (Cons x xs)
  show ?case
  proof (cases "x \<in> cone")
    case True
    then have "cone \<union> set (x # xs) = cone \<union> set xs" "set (x # xs) - cone = set xs - cone"
      by auto
    then show ?thesis
      using Cons.IH [of cone queue] Cons.prems True unfolding \<open>set (x # xs) - cone = set xs - cone\<close> by auto
  next
    case False
    then have "cone' = insert x cone \<union> set xs \<and> (\<exists>fresh. queue' = (queue @ [x]) @ fresh \<and>
        set fresh = set xs - insert x cone \<and> length fresh + card (insert x cone) = card cone')"
      by (intro Cons.IH) (use Cons.prems False in auto)
    then obtain fresh where f: "cone' = insert x cone \<union> set xs" "queue' = (queue @ [x]) @ fresh"
        "set fresh = set xs - insert x cone" "length fresh + card (insert x cone) = card cone'"
      by blast
    then have "queue' = queue @ x # fresh" "set (x # fresh) = set (x # xs) - cone"
        "length (x # fresh) + card cone = card cone'" "cone' = cone \<union> set (x # xs)"
      using False Cons.prems(2) by auto
    then show ?thesis by blast
  qed
qed auto

definition child_rel :: "(message_id \<Rightarrow> message_id list) \<Rightarrow> (message_id \<times> message_id) set" where
  "child_rel children = {(x, y). y \<in> set (children x)}"

lemma cone_loop_correct:
  assumes fin: "finite U" and U: "\<And>x. set (children x) \<subseteq> U"
    and "cone \<subseteq> U" and "set queue \<subseteq> cone" and "i \<in> cone" and "cone \<subseteq> (child_rel children)\<^sup>* `` {i}"
    and "\<forall>x \<in> cone - set queue. set (children x) \<subseteq> cone"
  shows "cone_loop children cone queue = Some ((child_rel children)\<^sup>* `` {i})"
  using assms(3-)
proof (induction "2 * card (U - cone) + length queue" arbitrary: cone queue rule: less_induct)
  case less
  show ?case
  proof (cases queue)
    case Nil
    have "y \<in> cone" if "(i, y) \<in> (child_rel children)\<^sup>*" for y
      using that less.prems(3,5) Nil by induction (auto simp: child_rel_def)
    with less.prems(4) Nil show ?thesis
      by (subst cone_loop.simps) auto
  next
    case (Cons x q)
    obtain c' q' where e: "enqueue_new (children x) cone q = (c', q')" by force
    have "finite cone"
      using fin less.prems(1) finite_subset by blast
    from enqueue_new_props [OF e this] obtain fresh where c': "c' = cone \<union> set (children x)" and q': "q' = q @ fresh"
        and fresh: "set fresh = set (children x) - cone" "length fresh + card cone = card c'"
      by blast
    have sub: "c' \<subseteq> U"
      using less.prems(1) U by (auto simp: c')
    have size: "card (U - c') = card U - card c'" "card (U - cone) = card U - card cone"
      using sub less.prems(1) fin by (simp_all add: card_Diff_subset finite_subset)
    have "card c' \<le> card U"
      by (rule card_mono [OF fin sub])
    have x: "(i, x) \<in> (child_rel children)\<^sup>*"
      using less.prems(2,4) Cons by auto
    have "cone_loop children c' q' = Some ((child_rel children)\<^sup>* `` {i})"
    proof (rule less.hyps)
      show "2 * card (U - c') + length q' < 2 * card (U - cone) + length queue"
        using size fresh(2) \<open>card c' \<le> card U\<close> by (simp add: q' Cons)
      show "set q' \<subseteq> c'"
        using less.prems(2) fresh by (auto simp: Cons q' c')
      show "i \<in> c'"
        using less.prems(3) by (simp add: c')
      show "c' \<subseteq> (child_rel children)\<^sup>* `` {i}"
        using less.prems(4) rtrancl.rtrancl_into_rtrancl [OF x] by (auto simp: c' child_rel_def)
      show "\<forall>y \<in> c' - set q'. set (children y) \<subseteq> c'"
      proof
        fix y assume y: "y \<in> c' - set q'"
        show "set (children y) \<subseteq> c'"
        proof (cases "y = x")
          case True
          then show ?thesis by (simp add: c')
        next
          case False
          then have "y \<in> cone - set queue"
            using y fresh(1) by (auto simp: c' q' Cons)
          with less.prems(5) show ?thesis by (auto simp: c')
        qed
      qed
    qed (rule sub)
    with e show ?thesis
      by (subst cone_loop.simps) (simp add: Cons)
  qed
qed

definition children_of :: "'s storage_backend \<Rightarrow> 's \<Rightarrow> message_id \<Rightarrow> message_id list" where
  "children_of B s x = ok_list (sb_get_children B x s)"

definition parents_of :: "'s storage_backend \<Rightarrow> 's \<Rightarrow> message_id \<Rightarrow> message_id list" where
  "parents_of B s x = ok_list (sb_get_parents B x s)"

definition descendants :: "'s storage_backend \<Rightarrow> 's \<Rightarrow> message_id \<Rightarrow> message_id set" where
  "descendants B s i = (child_rel (children_of B s))\<^sup>* `` {i}"

lemma forward_cone_descendants:
  assumes "finite U" and "\<And>x. set (children_of B s x) \<subseteq> U"
  shows "build_forward_cone B s i = Some (descendants B s i)"
  unfolding build_forward_cone_def descendants_def children_of_def [abs_def]
  by (rule cone_loop_correct [where U = "insert i U"]) (use assms in \<open>auto simp: children_of_def\<close>)

section \<open>The k-core\<close>

text \<open>The reference definition: the largest set of nodes in which each is linked at least \<open>k\<close> times to
  the others, links counted with their multiplicity.\<close>

definition degree_in :: "'s storage_backend \<Rightarrow> 's \<Rightarrow> message_id set \<Rightarrow> message_id \<Rightarrow> nat" where
  "degree_in B s S v = length (filter (\<lambda>x. x \<in> S) (parents_of B s v)) + length (filter (\<lambda>x. x \<in> S) (children_of B s v))"

definition is_k_core :: "'s storage_backend \<Rightarrow> 's \<Rightarrow> nat \<Rightarrow> message_id set \<Rightarrow> bool" where
  "is_k_core B s k S \<longleftrightarrow> (\<forall>v \<in> S. k \<le> degree_in B s S v)"

definition largest_k_core :: "'s storage_backend \<Rightarrow> 's \<Rightarrow> nat \<Rightarrow> message_id set \<Rightarrow> message_id set" where
  "largest_k_core B s k nodes = \<Union>{S. S \<subseteq> nodes \<and> is_k_core B s k S}"

lemma length_filter_mono: "A \<subseteq> C \<Longrightarrow> length (filter (\<lambda>x. x \<in> A) xs) \<le> length (filter (\<lambda>x. x \<in> C) xs)"
  by (induction xs) auto

lemma degree_in_mono: "A \<subseteq> C \<Longrightarrow> degree_in B s A v \<le> degree_in B s C v"
  by (simp add: degree_in_def add_mono length_filter_mono)

lemma largest_k_core_is_core: "largest_k_core B s k nodes \<subseteq> nodes" "is_k_core B s k (largest_k_core B s k nodes)"
proof -
  show "is_k_core B s k (largest_k_core B s k nodes)"
    unfolding is_k_core_def
  proof
    fix v assume "v \<in> largest_k_core B s k nodes"
    then obtain S where S: "S \<subseteq> nodes" "is_k_core B s k S" "v \<in> S"
      by (auto simp: largest_k_core_def)
    then have "S \<subseteq> largest_k_core B s k nodes"
      by (auto simp: largest_k_core_def)
    with S show "k \<le> degree_in B s (largest_k_core B s k nodes) v"
      unfolding is_k_core_def by (meson degree_in_mono le_trans)
  qed
qed (auto simp: largest_k_core_def)

definition symmetric_links :: "'s storage_backend \<Rightarrow> 's \<Rightarrow> bool" where
  "symmetric_links B s \<longleftrightarrow> (\<forall>p c. count_list (children_of B s p) c = count_list (parents_of B s c) p)"

lemma foldl_decrement:
  "foldl decrement degrees xs v = map_option (\<lambda>d. d - count_list xs v) (degrees v)"
  by (induction xs arbitrary: degrees) (auto simp: decrement_def option.map_ident option.map_comp comp_def split: option.splits)

lemma length_filter_remove:
  "n \<in> S \<Longrightarrow> length (filter (\<lambda>x. x \<in> S - {n}) xs) + count_list xs n = length (filter (\<lambda>x. x \<in> S) xs)"
  by (induction xs) auto

lemma degree_in_remove:
  assumes "symmetric_links B s" and "n \<in> S"
  shows "degree_in B s (S - {n}) v = degree_in B s S v - count_list (parents_of B s n) v - count_list (children_of B s n) v"
proof -
  have "count_list (parents_of B s v) n = count_list (children_of B s n) v"
    "count_list (children_of B s v) n = count_list (parents_of B s n) v"
    using assms(1) by (simp_all add: symmetric_links_def)
  with length_filter_remove [OF assms(2), of "parents_of B s v"] length_filter_remove [OF assms(2), of "children_of B s v"]
  show ?thesis by (simp add: degree_in_def)
qed

definition degrees_ok :: "'s storage_backend \<Rightarrow> 's \<Rightarrow> message_id set \<Rightarrow> (message_id \<rightharpoonup> nat) \<Rightarrow> bool" where
  "degrees_ok B s core degrees \<longleftrightarrow> (\<forall>v \<in> core. degrees v = Some (degree_in B s core v))"

lemma remove_nodes_ok:
  assumes "symmetric_links B s" and "remove_nodes B s ns core degrees = (core', degrees')"
    and "set ns \<subseteq> core" and "distinct ns" and "degrees_ok B s core degrees"
  shows "core' = core - set ns \<and> degrees_ok B s core' degrees' \<and> dom degrees' = dom degrees"
  using assms(2-)
proof (induction ns arbitrary: core degrees)
  case (Cons n ns)
  let ?d = "foldl decrement (foldl decrement degrees (parents_of B s n)) (children_of B s n)"
  have d: "?d v = map_option (\<lambda>d. d - count_list (parents_of B s n) v - count_list (children_of B s n) v) (degrees v)" for v
    by (simp add: foldl_decrement option.map_comp comp_def)
  have "degrees_ok B s (core - {n}) ?d"
    using Cons.prems(2,4) degree_in_remove [OF assms(1), of n core] by (simp add: degrees_ok_def d)
  moreover have "dom ?d = dom degrees"
    using d by (auto simp: dom_def)
  moreover have "remove_nodes B s ns (core - {n}) ?d = (core', degrees')"
    using Cons.prems(1) by (simp add: parents_of_def children_of_def)
  ultimately have "core' = core - {n} - set ns \<and> degrees_ok B s core' degrees' \<and> dom degrees' = dom degrees"
    using Cons.IH [of "core - {n}" ?d] Cons.prems(2,3) by (metis Diff_empty distinct.simps(2) list.set_intros(1) set_subset_Cons subset_Diff_insert subset_trans)
  then show ?case by auto
qed simp

lemma peel_loop_correct:
  assumes sym: "symmetric_links B s" and fin: "finite nodes" and ord: "hash_order ord"
    and "core \<subseteq> nodes" and "dom degrees = nodes" and "degrees_ok B s core degrees"
    and "largest_k_core B s k nodes \<subseteq> core"
  shows "peel_loop ord B s k core degrees = Some (largest_k_core B s k nodes)"
  using assms(4-)
proof (induction "card core" arbitrary: core degrees rule: less_induct)
  case less
  have keys: "set (ord (dom degrees)) = nodes" "distinct (ord (dom degrees))"
    using hash_orderD [OF ord] fin less.prems(2) by auto
  have low: "set (below_k ord k core degrees) = {v \<in> core. degree_in B s core v < k}"
    using less.prems(1,3) keys(1) by (auto simp: below_k_def degrees_ok_def split: option.splits)
  show ?case
  proof (cases "below_k ord k core degrees")
    case Nil
    then have "is_k_core B s k core"
      using low by (auto simp: is_k_core_def not_less)
    then have "core \<subseteq> largest_k_core B s k nodes"
      using less.prems(1) by (auto simp: largest_k_core_def)
    with less.prems(4) show ?thesis
      by (subst peel_loop.simps) (simp add: Nil)
  next
    case (Cons n ns)
    obtain core' degrees' where step: "remove_nodes B s (n # ns) core degrees = (core', degrees')" by force
    have sub: "set (n # ns) \<subseteq> core" "distinct (n # ns)"
      using low keys(2) by (auto simp: Cons [symmetric] below_k_def)
    from remove_nodes_ok [OF sym step sub less.prems(3)]
    have c': "core' = core - set (n # ns)" and ok: "degrees_ok B s core' degrees'" "dom degrees' = dom degrees"
      by blast+
    have "v \<notin> set (n # ns)" if v: "v \<in> largest_k_core B s k nodes" for v
    proof -
      have "k \<le> degree_in B s (largest_k_core B s k nodes) v"
        using largest_k_core_is_core(2) [of B s k nodes] v unfolding is_k_core_def by blast
      also have "\<dots> \<le> degree_in B s core v"
        by (rule degree_in_mono [OF less.prems(4)])
      finally show ?thesis
        using low by (auto simp: Cons)
    qed
    then have "largest_k_core B s k nodes \<subseteq> core'"
      using less.prems(4) by (auto simp: c')
    moreover have "card core' < card core"
      unfolding c' using sub(1) finite_subset [OF less.prems(1) fin] by (intro psubset_card_mono) auto
    ultimately have "peel_loop ord B s k core' degrees' = Some (largest_k_core B s k nodes)"
      using less.prems(1,2) ok by (intro less.hyps) (auto simp: c')
    then show ?thesis
      by (subst peel_loop.simps) (simp add: Cons step del: remove_nodes.simps)
  qed
qed

lemma compute_kcore_largest:
  assumes "symmetric_links B s" and "finite nodes" and "hash_order ord"
  shows "compute_kcore ord B s k nodes = Some (largest_k_core B s k nodes)"
  unfolding compute_kcore_def
  by (rule peel_loop_correct [OF assms])
    (auto simp: degrees_ok_def initial_degree_def degree_in_def parents_of_def children_of_def largest_k_core_def
       dom_def split: if_splits)

section \<open>Depth\<close>

lemma enqueue_core_props:
  assumes "enqueue_core core d cs visited queue = (visited', queue')" and "finite visited"
  shows "visited' = visited \<union> (set cs \<inter> core) \<and> (\<exists>fresh. queue' = queue @ fresh \<and> length fresh + card visited = card visited')"
  using assms
proof (induction cs arbitrary: visited queue)
  case (Cons c cs)
  show ?case
  proof (cases "c \<in> core \<and> c \<notin> visited")
    case False
    then have same: "visited \<union> (set (c # cs) \<inter> core) = visited \<union> (set cs \<inter> core)" by auto
    have "enqueue_core core d cs visited queue = (visited', queue')"
      using Cons.prems(1) False by (simp only: enqueue_core.simps if_False)
    from Cons.IH [OF this Cons.prems(2)] show ?thesis
      unfolding same .
  next
    case True
    then have "visited' = insert c visited \<union> (set cs \<inter> core) \<and>
        (\<exists>fresh. queue' = (queue @ [(c, d + 1)]) @ fresh \<and> length fresh + card (insert c visited) = card visited')"
      by (intro Cons.IH) (use Cons.prems True in auto)
    then obtain fresh where f: "visited' = insert c visited \<union> (set cs \<inter> core)"
        "queue' = queue @ (c, d + 1) # fresh" "length fresh + card (insert c visited) = card visited'"
      by auto
    then have "visited' = visited \<union> (set (c # cs) \<inter> core)" "length ((c, d + 1) # fresh) + card visited = card visited'"
      using True Cons.prems(2) by auto
    with f(2) show ?thesis by blast
  qed
qed auto

lemma depth_loop_returns:
  assumes "finite core" and "finite visited" and "visited \<subseteq> insert i core"
  shows "\<exists>r. depth_loop B s core visited queue max_depth cache = Some r"
  using assms(2,3)
proof (induction "2 * card (insert i core - visited) + length queue" arbitrary: visited queue max_depth cache rule: less_induct)
  case less
  show ?case
  proof (cases queue)
    case Nil
    then show ?thesis by (simp add: depth_loop.simps)
  next
    case (Cons e q)
    obtain x d where e: "e = (x, d)" by force
    obtain cs cache' where cs: "cached_children B s x cache = (cs, cache')" by force
    obtain v' q' where v: "enqueue_core core d cs visited q = (v', q')" by force
    from enqueue_core_props [OF v less.prems(1)]
    obtain fresh where v': "v' = visited \<union> (set cs \<inter> core)" and q': "q' = q @ fresh" "length fresh + card visited = card v'"
      by blast
    have sub: "v' \<subseteq> insert i core"
      using less.prems(2) by (auto simp: v')
    have fin: "finite v'"
      using sub assms(1) by (meson finite.insertI finite_subset)
    have "card (insert i core - v') = card (insert i core) - card v'"
      "card (insert i core - visited) = card (insert i core) - card visited" "card v' \<le> card (insert i core)"
      using sub less.prems fin assms(1) by (simp_all add: card_Diff_subset card_mono)
    then have "\<exists>r. depth_loop B s core v' q' (max max_depth d) cache' = Some r"
      by (intro less.hyps) (use fin sub q' in \<open>simp_all add: Cons\<close>)
    with v cs show ?thesis
      by (subst depth_loop.simps) (simp add: Cons e)
  qed
qed

lemma compute_depth_returns:
  assumes "finite core"
  shows "\<exists>d a'. compute_depth B s core i a = Some (d, a')"
proof (cases "ka_depth_cache a i")
  case None
  have "\<exists>r. depth_loop B s core {i} [(i, 0)] 0 (ka_children_cache a) = Some r"
    by (rule depth_loop_returns [OF assms]) auto
  with None show ?thesis
    by (auto simp: compute_depth_def)
qed (simp add: compute_depth_def)

lemma compute_depth_caches:
  assumes "compute_depth B s core i a = Some (d, a')"
  shows "ka_depth_cache a' = (ka_depth_cache a)(i \<mapsto> d)" and "\<And>d'. ka_depth_cache a i = Some d' \<Longrightarrow> d = d'"
    and "ka_k a' = ka_k a" "ka_min_depth a' = ka_min_depth a" "ka_min_diversity a' = ka_min_diversity a"
      "ka_min_reputation a' = ka_min_reputation a" "ka_rho a' = ka_rho a"
  using assms by (auto simp: compute_depth_def split: option.splits)

section \<open>Metrics\<close>

lemma set_at_insert_at: "set_at (insert_at k v m) a = (if a = k then insert v (set_at m a) else set_at m a)"
  by (simp add: insert_at_def set_at_def)

lemma foldl_insert_at:
  "set_at (foldl (\<lambda>acc b. insert_at (fst b) (snd b) acc) m bs) a = set_at m a \<union> {v. (a, v) \<in> set bs}"
  "dom (foldl (\<lambda>acc b. insert_at (fst b) (snd b) acc) m bs) = dom m \<union> fst ` set bs"
  by (induction bs arbitrary: m) (auto simp: set_at_insert_at, auto simp: insert_at_def)

definition core_balls :: "'s storage_backend \<Rightarrow> 's \<Rightarrow> u32 list \<Rightarrow> message_id set \<Rightarrow> u32 \<Rightarrow> bytes set" where
  "core_balls B s rho core axis = {ball. \<exists>n \<in> core. \<exists>m. sb_get_message B n s = Inr (Some m) \<and>
     (axis, ball) \<in> ball_of rho ` set (af_phi (am_features m))}"

definition core_reputation :: "'s storage_backend \<Rightarrow> 's \<Rightarrow> reputation_tracker \<Rightarrow> message_id set \<Rightarrow> f64" where
  "core_reputation B s rep core = (\<Sum>n \<in> core. case sb_get_message B n s of
     Inr (Some m) \<Rightarrow> get_reputation rep (am_proposer m) | _ \<Rightarrow> 0)"

lemma set_core_messages:
  "set (core_messages ord B s core) = {m. \<exists>n \<in> set (ord core). sb_get_message B n s = Inr (Some m)}"
  by (force simp: core_messages_def List.map_filter_def image_iff split: sum.splits option.splits)

lemma foldl_plus_map: "foldl (\<lambda>acc m. acc + f m) (x :: real) ms = x + sum_list (map f ms)"
  by (induction ms arbitrary: x) simp_all

lemma sum_core_messages:
  "sum_list (map f (core_messages ord B s core)) =
   sum_list (map (\<lambda>n. case sb_get_message B n s of Inr (Some m) \<Rightarrow> f m | _ \<Rightarrow> 0) (ord core))" for f :: "adic_message \<Rightarrow> real"
proof -
  have "sum_list (map f (List.map_filter (\<lambda>n. case sb_get_message B n s of Inr (Some m) \<Rightarrow> Some m | _ \<Rightarrow> None) ns)) =
      sum_list (map (\<lambda>n. case sb_get_message B n s of Inr (Some m) \<Rightarrow> f m | _ \<Rightarrow> 0) ns)" for ns
    by (induction ns) (auto split: sum.split option.split)
  then show ?thesis by (simp add: core_messages_def)
qed

lemma compute_metrics_spec:
  assumes "hash_order ord" and "finite core"
  shows "fst (compute_metrics ord B s rep rho core) = core_reputation B s rep core"
    and "snd (compute_metrics ord B s rep rho core) axis =
      (if core_balls B s rho core axis = {} then None else Some (card (core_balls B s rho core axis)))"
proof -
  have o: "set (ord core) = core" "distinct (ord core)"
    using hash_orderD [OF assms] by auto
  show "fst (compute_metrics ord B s rep rho core) = core_reputation B s rep core"
    by (simp add: compute_metrics_def Let_def foldl_plus_map sum_core_messages core_reputation_def o sum_list_distinct_conv_sum_set)
  define bs where "bs = concat (map (\<lambda>m. map (ball_of rho) (af_phi (am_features m))) (core_messages ord B s core))"
  let ?m = "foldl (\<lambda>acc b. insert_at (fst b) (snd b) acc) Map.empty bs"
  have bs: "{v. (axis, v) \<in> set bs} = core_balls B s rho core axis"
    by (auto simp: bs_def set_core_messages core_balls_def o)
  have at: "set_at ?m axis = core_balls B s rho core axis" and dom: "axis \<in> dom ?m \<longleftrightarrow> core_balls B s rho core axis \<noteq> {}"
    unfolding foldl_insert_at bs [symmetric] by (force simp: set_at_def)+
  have "snd (compute_metrics ord B s rep rho core) axis = map_option card (?m axis)"
    by (simp add: compute_metrics_def Let_def bs_def)
  also have "\<dots> = (if core_balls B s rho core axis = {} then None else Some (card (core_balls B s rho core axis)))"
    using at dom by (cases "?m axis") (auto simp: set_at_def domIff)
  finally show "snd (compute_metrics ord B s rep rho core) axis =
      (if core_balls B s rho core axis = {} then None else Some (card (core_balls B s rho core axis)))" .
qed

section \<open>The verdict\<close>

lemma reached_links:
  assumes "dag_reach (memory_backend ord) memory_dag message_store_new s"
  shows "symmetric_links (memory_backend ord) s" and "finite (dom (st_messages s))"
    and "set (children_of (memory_backend ord) s x) \<subseteq> dom (st_messages s)"
proof -
  have "dag_ok (memory_dag s)"
    using memdag.reach_ok [OF assms] by (simp add: memory_dag_new dag_ok_empty)
  note parts = this [unfolded dag_ok_def]
  have links: "children_of (memory_backend ord) s y = dg_children (memory_dag s) y"
    "parents_of (memory_backend ord) s y = dg_parents (memory_dag s) y" for y
    by (simp_all add: children_of_def parents_of_def ok_list_def memdag.get_children memdag.get_parents)
  have sym: "count_list (dg_children (memory_dag s) p) c = count_list (dg_parents (memory_dag s) c) p" for p c
    using parts by blast
  then show "symmetric_links (memory_backend ord) s"
    by (simp add: symmetric_links_def links)
  show "finite (dom (st_messages s))"
    using parts by (simp add: memory_dag_def)
  show "set (children_of (memory_backend ord) s x) \<subseteq> dom (st_messages s)"
  proof
    fix c assume "c \<in> set (children_of (memory_backend ord) s x)"
    then have "dg_parents (memory_dag s) c \<noteq> []"
      using sym [of x c] by (metis links(1) count_list_0_iff count_list.simps(1))
    then show "c \<in> dom (st_messages s)"
      using parts by (simp add: memory_dag_def) blast
  qed
qed


section \<open>The depth cache\<close>

lemma analyze_caches:
  assumes "analyze ord B s rep i a = Some (r, a')"
  shows "ka_k a' = ka_k a \<and> ka_rho a' = ka_rho a \<and> ka_min_depth a' = ka_min_depth a \<and>
    (\<forall>j d. ka_depth_cache a j = Some d \<longrightarrow> ka_depth_cache a' j = Some d) \<and>
    (kr_kcore_root r \<noteq> None \<longrightarrow> ka_depth_cache a' i = Some (kr_depth r)) \<and>
    (kr_is_final r \<longrightarrow> kr_kcore_root r \<noteq> None \<and> ka_min_depth a \<le> kr_depth r)"
proof (cases "kr_kcore_root r = None")
  case True
  with assms show ?thesis
    by (auto simp: analyze_def kcore_not_final_def Let_def split: option.splits if_splits prod.splits)
next
  case False
  with assms obtain core d where depth: "compute_depth B s core i a = Some (d, a')"
    and r: "kr_depth r = d" "kr_is_final r \<longrightarrow> ka_min_depth a' \<le> d"
    by (auto simp: analyze_def kcore_not_final_def Let_def split: option.splits if_splits prod.splits) blast
  show ?thesis
    using compute_depth_caches(1-4,7) [OF depth] r False by auto
qed

definition analysis_step :: "'s storage_backend \<Rightarrow> kcore_analyzer \<Rightarrow> kcore_analyzer \<Rightarrow> bool" where
  "analysis_step B a a' \<longleftrightarrow> (\<exists>ord s rep i r. analyze ord B s rep i a = Some (r, a'))"

lemma analyses_keep_cache:
  assumes "(analysis_step B)\<^sup>*\<^sup>* a a'"
  shows "ka_min_depth a' = ka_min_depth a \<and> (\<forall>j d. ka_depth_cache a j = Some d \<longrightarrow> ka_depth_cache a' j = Some d)"
  using assms by induction (use analyze_caches in \<open>fastforce simp: analysis_step_def\<close>)+

text \<open>a message that was analysed while its k-core was not yet deep enough is never found final
  again: after any further analyses, over whatever the store has become, the analysis of the message
  uses the depth cached the first time.\<close>

theorem early_analysis_blocks_finality:
  assumes "analyze ord B s rep i a = Some (r, a1)" and "kr_kcore_root r \<noteq> None" and "kr_depth r < ka_min_depth a"
    and "(analysis_step B)\<^sup>*\<^sup>* a1 a2" and "analyze ord' B s' rep' i a2 = Some (r', a3)"
  shows "\<not> kr_is_final r'"
proof -
  have "ka_depth_cache a1 i = Some (kr_depth r)" "ka_min_depth a1 = ka_min_depth a"
    using analyze_caches [OF assms(1)] assms(2) by auto
  with analyses_keep_cache [OF assms(4)] have "ka_depth_cache a2 i = Some (kr_depth r)" "ka_min_depth a2 = ka_min_depth a"
    by auto
  with analyze_caches [OF assms(5)] assms(3) show ?thesis by fastforce
qed

section \<open>A chain of messages\<close>

abbreviation sample_backend :: "message_store storage_backend" where
  "sample_backend \<equiv> memory_backend sorted_list_of_set"

fun chain_store :: "adic_message list \<Rightarrow> message_store" where
  "chain_store [] = message_store_new"
| "chain_store (m # ms) = snd (store_message sample_backend m (chain_store ms))"

definition pair_store :: message_store where
  "pair_store = chain_store [demo_message [2] [[1]], demo_message [1] []]"

definition triple_store :: message_store where
  "triple_store = chain_store [demo_message [3] [[2]], demo_message [2] [[1]], demo_message [1] []]"

lemma chain_dag:
  assumes "am_id m \<notin> dom (dg_messages (memory_dag (chain_store ms)))"
  shows "memory_dag (chain_store (m # ms)) = dag_store m (memory_dag (chain_store ms))"
  using memdag.store_new [OF assms, of sorted_list_of_set] by simp

lemma pair_dag: "memory_dag pair_store = dag_store (demo_message [2] [[1]]) (dag_store (demo_message [1] []) empty_dag)"
  unfolding pair_store_def by (simp add: chain_dag memory_dag_new empty_dag_def del: chain_store.simps(2))

lemma triple_dag: "memory_dag triple_store = dag_store (demo_message [3] [[2]]) (memory_dag pair_store)"
  unfolding triple_store_def pair_store_def by (rule chain_dag)
    (simp add: chain_dag memory_dag_new empty_dag_def del: chain_store.simps(2))

lemma pair_reads:
  "ok_list (sb_get_children sample_backend x pair_store) = (if x = [1] then [[2]] else [])"
  "ok_list (sb_get_parents sample_backend x pair_store) = (if x = [2] then [[1]] else [])"
  "sb_get_children sample_backend x pair_store = Inr (if x = [1] then [[2]] else [])"
  "sb_get_message sample_backend x pair_store =
     Inr (if x = [2] then Some (demo_message [2] [[1]]) else if x = [1] then Some (demo_message [1] []) else None)"
  by (simp_all add: memdag.get_children memdag.get_parents memdag.get_message pair_dag ok_list_def empty_dag_def)

lemma triple_reads:
  "ok_list (sb_get_children sample_backend x triple_store) = (if x = [1] then [[2]] else if x = [2] then [[3]] else [])"
  "ok_list (sb_get_parents sample_backend x triple_store) = (if x = [2] then [[1]] else if x = [3] then [[2]] else [])"
  "sb_get_children sample_backend x triple_store = Inr (if x = [1] then [[2]] else if x = [2] then [[3]] else [])"
  "sb_get_message sample_backend x triple_store = Inr (if x = [3] then Some (demo_message [3] [[2]])
     else if x = [2] then Some (demo_message [2] [[1]]) else if x = [1] then Some (demo_message [1] []) else None)"
  by (simp_all add: memdag.get_children memdag.get_parents memdag.get_message triple_dag pair_dag ok_list_def empty_dag_def)

lemma ok_list_Inr [simp]: "ok_list (Inr xs) = xs"
  by (simp add: ok_list_def)

lemma loop_simps:
  "cone_loop children cone [] = Some cone"
  "cone_loop children cone (x # q) = (case enqueue_new (children x) cone q of (cone, queue) \<Rightarrow> cone_loop children cone queue)"
  "depth_loop B s core visited [] max_depth cache = Some (max_depth, cache)"
  "depth_loop B s core visited ((x, d) # q2) max_depth cache =
     (case cached_children B s x cache of (children, cache) \<Rightarrow>
      case enqueue_core core d children visited q2 of (visited, queue) \<Rightarrow>
        depth_loop B s core visited queue (max max_depth d) cache)"
  "below_k ord k core degrees = [] \<Longrightarrow> peel_loop ord B s k core degrees = Some core"
  by (subst cone_loop.simps depth_loop.simps peel_loop.simps, simp)+

lemma dom_if: "dom (\<lambda>n. if n \<in> A then Some (f n) else None) = A"
  by (auto simp: dom_def)

definition sample_analyzer :: kcore_analyzer where
  "sample_analyzer = kcore_analyzer_new 1 2 0 0 []"

lemma pair_cone: "build_forward_cone sample_backend pair_store [1] = Some {[1], [2]}"
  by (simp add: build_forward_cone_def loop_simps pair_reads insert_commute)

lemma triple_cone: "build_forward_cone sample_backend triple_store [1] = Some {[1], [2], [3]}"
  by (simp add: build_forward_cone_def loop_simps triple_reads insert_commute)

lemma pair_core: "compute_kcore sorted_list_of_set sample_backend pair_store 1 {[1], [2]} = Some {[1], [2]}"
  unfolding compute_kcore_def
  by (rule loop_simps(5), unfold below_k_def dom_if) (simp add: initial_degree_def pair_reads)

lemma triple_core: "compute_kcore sorted_list_of_set sample_backend triple_store 1 {[1], [2], [3]} = Some {[1], [2], [3]}"
  unfolding compute_kcore_def
  by (rule loop_simps(5), unfold below_k_def dom_if) (simp add: initial_degree_def triple_reads)

lemma sample_metrics:
  "compute_metrics sorted_list_of_set sample_backend pair_store rep [] {[1], [2]} =
     (get_reputation rep [] + get_reputation rep [], Map.empty)"
  "compute_metrics sorted_list_of_set sample_backend triple_store rep [] {[1], [2], [3]} =
     (get_reputation rep [] + get_reputation rep [] + get_reputation rep [], Map.empty)"
  by (simp_all add: compute_metrics_def core_messages_def List.map_filter_def pair_reads triple_reads demo_message_def fun_eq_iff)

definition sample_reputation :: reputation_tracker where
  "sample_reputation = reputation_tracker_new (9 / 10)"

lemma sample_reputation_1: "get_reputation sample_reputation x = 1"
  by (simp add: get_reputation_def sample_reputation_def reputation_tracker_new_def)

lemma early_analysis:
  obtains r a1 where "analyze sorted_list_of_set sample_backend pair_store sample_reputation [1] sample_analyzer = Some (r, a1)"
    and "kr_kcore_root r \<noteq> None" and "kr_depth r < ka_min_depth sample_analyzer"
proof -
  have "\<exists>a1. compute_depth sample_backend pair_store {[1], [2]} [1] sample_analyzer = Some (1, a1) \<and> ka_rho a1 = []"
    by (simp add: compute_depth_def loop_simps cached_children_def pair_reads sample_analyzer_def kcore_analyzer_new_def)
  then obtain a1 where a1: "compute_depth sample_backend pair_store {[1], [2]} [1] sample_analyzer = Some (1, a1)" "ka_rho a1 = []"
    by blast
  have "ka_k sample_analyzer = 1" "ka_min_depth sample_analyzer = 2"
    by (simp_all add: sample_analyzer_def kcore_analyzer_new_def)
  with a1 pair_cone pair_core sample_metrics(1) show ?thesis
    using that by (simp add: analyze_def)
qed

lemma fresh_analysis:
  "\<exists>r a1. analyze sorted_list_of_set sample_backend triple_store sample_reputation [1] sample_analyzer = Some (r, a1) \<and> kr_is_final r"
proof -
  have "\<exists>a1. compute_depth sample_backend triple_store {[1], [2], [3]} [1] sample_analyzer = Some (2, a1) \<and> ka_rho a1 = [] \<and>
      ka_k a1 = 1 \<and> ka_min_depth a1 = 2 \<and> ka_min_diversity a1 = 0 \<and> ka_min_reputation a1 = 0"
    by (simp add: compute_depth_def loop_simps cached_children_def triple_reads sample_analyzer_def kcore_analyzer_new_def)
  then obtain a1 where a1: "compute_depth sample_backend triple_store {[1], [2], [3]} [1] sample_analyzer = Some (2, a1)"
      "ka_rho a1 = []" "ka_k a1 = 1" "ka_min_depth a1 = 2" "ka_min_diversity a1 = 0" "ka_min_reputation a1 = 0"
    by blast
  have "ka_k sample_analyzer = 1"
    by (simp add: sample_analyzer_def kcore_analyzer_new_def)
  with a1 triple_cone triple_core sample_metrics(2) show ?thesis
    by (simp add: analyze_def sample_reputation_1)
qed

text \<open>The message [1] is analysed below the minimal depth; with a third message stored a fresh
  analyzer finds it final, the one that has analysed it before does not.\<close>

theorem early_analysis_blocks_finality_witness:
  "\<exists>r a1 fresh fresh' r' a3.
     analyze sorted_list_of_set sample_backend pair_store sample_reputation [1] sample_analyzer = Some (r, a1) \<and>
     analyze sorted_list_of_set sample_backend triple_store sample_reputation [1] sample_analyzer = Some (fresh, fresh') \<and>
     kr_is_final fresh \<and>
     analyze sorted_list_of_set sample_backend triple_store sample_reputation [1] a1 = Some (r', a3) \<and>
     \<not> kr_is_final r'"
proof -
  obtain r a1 where early: "analyze sorted_list_of_set sample_backend pair_store sample_reputation [1] sample_analyzer = Some (r, a1)"
    "kr_kcore_root r \<noteq> None" "kr_depth r < ka_min_depth sample_analyzer"
    by (rule early_analysis)
  obtain d a3 where depth: "compute_depth sample_backend triple_store {[1], [2], [3]} [1] a1 = Some (d, a3)"
    using compute_depth_returns [of "{[1], [2], [3]}" sample_backend triple_store "[1]" a1] by auto
  have "ka_k a1 = 1" "ka_rho a1 = []"
    using analyze_caches [OF early(1)] by (simp_all add: sample_analyzer_def kcore_analyzer_new_def)
  then obtain r' where late: "analyze sorted_list_of_set sample_backend triple_store sample_reputation [1] a1 = Some (r', a3)"
    using triple_cone triple_core depth compute_depth_caches(7) [OF depth] by (simp add: analyze_def sample_metrics Let_def)
  have "\<not> kr_is_final r'"
    by (rule early_analysis_blocks_finality [OF early rtranclp.rtrancl_refl late])
  with early(1) late fresh_analysis show ?thesis by blast
qed

lemma pair_reach: "dag_reach sample_backend memory_dag message_store_new pair_store"
proof -
  have "dag_reach sample_backend memory_dag message_store_new (chain_store [demo_message [1] []])"
    by (simp add: reach_store reach_start)
  moreover have "set (am_parents (demo_message [2] [[1]])) \<subseteq> dom (dg_messages (memory_dag (chain_store [demo_message [1] []])))"
    by (simp add: chain_dag memory_dag_new empty_dag_def del: chain_store.simps(2))
  ultimately show ?thesis
    unfolding pair_store_def by (simp add: reach_store)
qed


end
