(* ===== verification/Simplicial.thy ===== *)
theory Simplicial
  imports Prelude "HOL-Library.Product_Lexorder"
begin

text \<open>
  Simplicial complexes with a filtration (\<open>crates/adic-finality/src/ph/simplex.rs\<close>). Vertices
  and identifiers are \<open>usize\<close>; the map from vertex sets to identifiers has sorted vertex lists
  as keys, as in the code; weights are exact reals. The lemmas show that the complexes the code builds are
  closed under faces and that the boundary of a boundary vanishes.
\<close>

section \<open>Simplices\<close>

record simplex =
  sx_id :: nat
  sx_vertices :: "nat list"
  sx_dimension :: nat
  sx_weight :: f64

definition simplex_new :: "nat \<Rightarrow> nat list \<Rightarrow> f64 \<Rightarrow> simplex" where
  "simplex_new i vertices weight =
     \<lparr>sx_id = i, sx_vertices = sort vertices,
      sx_dimension = (if vertices = [] then 0 else length vertices - 1), sx_weight = weight\<rparr>"

text \<open>\<open>face.remove(i)\<close>\<close>

definition remove_at :: "nat \<Rightarrow> 'a list \<Rightarrow> 'a list" where
  "remove_at i xs = take i xs @ drop (Suc i) xs"

definition faces :: "simplex \<Rightarrow> nat list list" where
  "faces s = (if sx_dimension s = 0 then []
     else map (\<lambda>i. remove_at i (sx_vertices s)) [0..<length (sx_vertices s)])"

definition contains_face :: "simplex \<Rightarrow> nat list \<Rightarrow> bool" where
  "contains_face s face_vertices \<longleftrightarrow> list_all (\<lambda>v. v \<in> set (sx_vertices s)) face_vertices"

section \<open>Complexes\<close>

record simplicial_complex =
  sc_simplices :: "simplex list"
  sc_index :: "nat list \<rightharpoonup> nat"
  sc_next_id :: nat

definition complex_new :: simplicial_complex where
  "complex_new = \<lparr>sc_simplices = [], sc_index = Map.empty, sc_next_id = 0\<rparr>"

definition add_simplex :: "nat list \<Rightarrow> f64 \<Rightarrow> simplicial_complex \<Rightarrow> nat \<times> simplicial_complex" where
  "add_simplex vertices weight c =
     (let vs = sort vertices in
      case sc_index c vs of
        Some i \<Rightarrow> (i, c)
      | None \<Rightarrow>
          (let i = sc_next_id c
           in (i, \<lparr>sc_simplices = sc_simplices c @ [simplex_new i vs weight],
                   sc_index = (sc_index c)(vs \<mapsto> i), sc_next_id = i + 1\<rparr>)))"

lemma length_face: "f \<in> set (faces s) \<Longrightarrow> length f < length (sx_vertices s)"
  by (auto simp: faces_def remove_at_def split: if_split_asm)

function add_simplex_with_faces :: "nat list \<Rightarrow> f64 \<Rightarrow> simplicial_complex \<Rightarrow> nat \<times> simplicial_complex" where
  "add_simplex_with_faces vertices weight c =
     add_simplex vertices weight
       (foldl (\<lambda>c face_vertices. snd (add_simplex_with_faces face_vertices 0 c)) c (faces (simplex_new 0 vertices weight)))"
  by auto
termination
  by (relation "measure (\<lambda>(vertices, weight, c). length vertices)")
    (auto dest!: length_face simp: simplex_new_def)

declare add_simplex_with_faces.simps [simp del]

definition get_simplex :: "simplicial_complex \<Rightarrow> nat \<Rightarrow> simplex option" where
  "get_simplex c i = vget (sc_simplices c) i"

definition get_simplex_id :: "simplicial_complex \<Rightarrow> nat list \<Rightarrow> nat option" where
  "get_simplex_id c vertices = sc_index c vertices"

definition num_simplices :: "simplicial_complex \<Rightarrow> nat" where
  "num_simplices c = length (sc_simplices c)"

definition positive_weights :: "simplicial_complex \<Rightarrow> f64 list" where
  "positive_weights c = filter (\<lambda>w. 0 < w) (map sx_weight (sc_simplices c))"

fun append_loop :: "simplicial_complex \<Rightarrow> simplex list \<Rightarrow> simplicial_complex" where
  "append_loop c [] = c"
| "append_loop c (s # ss) =
     append_loop
       (let new_id = sc_next_id c; s' = s\<lparr>sx_id := new_id\<rparr>
        in \<lparr>sc_simplices = sc_simplices c @ [s'], sc_index = (sc_index c)(sx_vertices s' \<mapsto> new_id),
            sc_next_id = new_id + 1\<rparr>) ss"

text \<open>\<open>None\<close> is the error "monotonicity violated"; the minimum over no weights is infinite.\<close>

definition append_simplices :: "simplicial_complex \<Rightarrow> simplicial_complex \<Rightarrow> simplicial_complex option" where
  "append_simplices new_complex c =
     (let max_existing = foldl max 0 (positive_weights c)
      in case positive_weights new_complex of
           [] \<Rightarrow> Some (append_loop c (sc_simplices new_complex))
         | w # ws \<Rightarrow>
             (if foldl min w ws < max_existing then None
              else Some (append_loop c (sc_simplices new_complex))))"

text \<open>\<open>sort_by\<close> weight and then dimension is stable; the identifiers and the map are rebuilt.\<close>

definition filtration_key :: "simplex \<Rightarrow> f64 \<times> nat" where
  "filtration_key s = (sx_weight s, sx_dimension s)"

fun reindex_loop :: "nat \<Rightarrow> simplex list \<Rightarrow> simplex list \<times> (nat list \<rightharpoonup> nat) \<Rightarrow> simplex list \<times> (nat list \<rightharpoonup> nat)" where
  "reindex_loop i [] acc = acc"
| "reindex_loop i (s # ss) (done, index) =
     reindex_loop (Suc i) ss (done @ [s\<lparr>sx_id := i\<rparr>], index(sx_vertices s \<mapsto> i))"

definition sort_by_filtration :: "simplicial_complex \<Rightarrow> simplicial_complex" where
  "sort_by_filtration c =
     (case reindex_loop 0 (sort_key filtration_key (sc_simplices c)) ([], Map.empty) of (simplices, index) \<Rightarrow>
        \<lparr>sc_simplices = simplices, sc_index = index, sc_next_id = length simplices\<rparr>)"

definition get_face_ids :: "simplicial_complex \<Rightarrow> nat \<Rightarrow> nat list" where
  "get_face_ids c simplex_id =
     (case get_simplex c simplex_id of
        Some s \<Rightarrow> List.map_filter (get_simplex_id c) (faces s)
      | None \<Rightarrow> [])"

definition simplices_by_dimension :: "simplicial_complex \<Rightarrow> nat \<Rightarrow> nat list" where
  "simplices_by_dimension c dimension =
     map sx_id (filter (\<lambda>s. sx_dimension s = dimension) (sc_simplices c))"

section \<open>The invariant\<close>

text \<open>Vertex lists are strictly increasing, the dimension is one less than their length, the map inverts the
  list of simplices, and every face of a simplex is in the complex.\<close>

definition simplex_ok :: "simplex \<Rightarrow> bool" where
  "simplex_ok s \<longleftrightarrow> sorted (sx_vertices s) \<and> distinct (sx_vertices s) \<and> sx_vertices s \<noteq> [] \<and>
     sx_dimension s = length (sx_vertices s) - 1"

definition indexed :: "simplicial_complex \<Rightarrow> bool" where
  "indexed c \<longleftrightarrow>
     (\<forall>s\<in>set (sc_simplices c). simplex_ok s) \<and>
     (\<forall>vs i. sc_index c vs = Some i \<longleftrightarrow> i < length (sc_simplices c) \<and> sx_vertices (sc_simplices c ! i) = vs) \<and>
     (\<forall>i<length (sc_simplices c). sx_id (sc_simplices c ! i) = i) \<and>
     sc_next_id c = length (sc_simplices c)"

definition face_closed :: "simplicial_complex \<Rightarrow> bool" where
  "face_closed c \<longleftrightarrow> (\<forall>s\<in>set (sc_simplices c). \<forall>f\<in>set (faces s). f \<in> dom (sc_index c))"

lemma remove_at_props:
  assumes "sorted xs" "distinct xs" "i < length xs"
  shows "sorted (remove_at i xs)" "distinct (remove_at i xs)" "set (remove_at i xs) = set xs - {xs ! i}"
    "length (remove_at i xs) = length xs - 1"
proof -
  have split: "xs = take i xs @ xs ! i # drop (Suc i) xs"
    using assms(3) by (simp add: id_take_nth_drop)
  have "sorted (take i xs @ xs ! i # drop (Suc i) xs)" "distinct (take i xs @ xs ! i # drop (Suc i) xs)"
    using assms(1,2) split by simp_all
  then show "sorted (remove_at i xs)" "distinct (remove_at i xs)"
    by (auto simp: remove_at_def sorted_append)
  have "set xs = set (take i xs) \<union> {xs ! i} \<union> set (drop (Suc i) xs)"
    by (subst split) auto
  moreover have "xs ! i \<notin> set (take i xs)" "xs ! i \<notin> set (drop (Suc i) xs)"
    using \<open>distinct (take i xs @ xs ! i # drop (Suc i) xs)\<close> by auto
  ultimately show "set (remove_at i xs) = set xs - {xs ! i}"
    by (auto simp: remove_at_def)
  show "length (remove_at i xs) = length xs - 1"
    using assms(3) by (simp add: remove_at_def)
qed

lemma faces_ok:
  assumes "simplex_ok s" and "f \<in> set (faces s)"
  shows "sorted f \<and> distinct f \<and> f \<noteq> [] \<and> (\<exists>v\<in>set (sx_vertices s). set f = set (sx_vertices s) - {v})"
proof -
  obtain i where i: "i < length (sx_vertices s)" "f = remove_at i (sx_vertices s)" "sx_dimension s \<noteq> 0"
    using assms(2) by (auto simp: faces_def split: if_split_asm)
  have "sorted (sx_vertices s)" "distinct (sx_vertices s)" using assms(1) by (simp_all add: simplex_ok_def)
  note props = remove_at_props [OF this i(1)]
  have "f \<noteq> []" using props(4) i(2,3) assms(1) by (auto simp: simplex_ok_def)
  moreover have "sx_vertices s ! i \<in> set (sx_vertices s)" using i(1) by simp
  ultimately show ?thesis using props(1-3) i(2) by blast
qed

lemma sort_eq_Nil [simp]: "sort vs = [] \<longleftrightarrow> vs = []" for vs :: "nat list"
  by (metis length_sort length_0_conv)

lemma simplex_new_ok:
  "distinct vs \<Longrightarrow> vs \<noteq> [] \<Longrightarrow> simplex_ok (simplex_new i vs w)"
  by (simp add: simplex_ok_def simplex_new_def)

lemma indexed_lookup_inj:
  "indexed c \<Longrightarrow> i < length (sc_simplices c) \<Longrightarrow> j < length (sc_simplices c) \<Longrightarrow>
   sx_vertices (sc_simplices c ! i) = sx_vertices (sc_simplices c ! j) \<Longrightarrow> i = j"
  unfolding indexed_def by (metis option.inject)

lemma add_simplex_indexed:
  assumes "indexed c" and "distinct vs" and "vs \<noteq> []"
  shows "indexed (snd (add_simplex vs w c)) \<and> sort vs \<in> dom (sc_index (snd (add_simplex vs w c))) \<and>
    dom (sc_index c) \<subseteq> dom (sc_index (snd (add_simplex vs w c))) \<and>
    set (sc_simplices (snd (add_simplex vs w c))) \<subseteq> insert (simplex_new (sc_next_id c) vs w) (set (sc_simplices c))"
proof (cases "sc_index c (sort vs)")
  case (Some i)
  with assms(1) show ?thesis by (auto simp: add_simplex_def Let_def)
next
  case None
  have new: "simplex_new i (sort vs) w = simplex_new i vs w" for i
    by (simp add: simplex_new_def sorted_sort_id)
  define s where "s = simplex_new (sc_next_id c) vs w"
  have s: "simplex_ok s" "sx_vertices s = sort vs" "sx_id s = length (sc_simplices c)"
    using simplex_new_ok [OF assms(2,3)] assms(1) by (simp_all add: s_def simplex_new_def indexed_def)
  have c': "snd (add_simplex vs w c) = \<lparr>sc_simplices = sc_simplices c @ [s], sc_index = (sc_index c)(sort vs \<mapsto> length (sc_simplices c)),
      sc_next_id = length (sc_simplices c) + 1\<rparr>"
    using None assms(1) by (simp add: add_simplex_def Let_def new s_def indexed_def)
  have "indexed (snd (add_simplex vs w c))"
    unfolding indexed_def c'
  proof (intro conjI allI impI)
    fix us i
    have "sc_index c us = Some i \<longleftrightarrow> i < length (sc_simplices c) \<and> sx_vertices (sc_simplices c ! i) = us"
      using assms(1) by (simp add: indexed_def)
    moreover have "sx_vertices (sc_simplices c ! i) \<noteq> sort vs" if "i < length (sc_simplices c)"
      using assms(1) None that unfolding indexed_def by (metis option.distinct(1))
    ultimately show "(sc_index \<lparr>sc_simplices = sc_simplices c @ [s], sc_index = (sc_index c)(sort vs \<mapsto> length (sc_simplices c)),
        sc_next_id = length (sc_simplices c) + 1\<rparr> us = Some i) \<longleftrightarrow>
      i < length (sc_simplices \<lparr>sc_simplices = sc_simplices c @ [s], sc_index = (sc_index c)(sort vs \<mapsto> length (sc_simplices c)),
        sc_next_id = length (sc_simplices c) + 1\<rparr>) \<and>
      sx_vertices (sc_simplices \<lparr>sc_simplices = sc_simplices c @ [s], sc_index = (sc_index c)(sort vs \<mapsto> length (sc_simplices c)),
        sc_next_id = length (sc_simplices c) + 1\<rparr> ! i) = us"
      using s(2) by (auto simp: nth_append less_Suc_eq)
  qed (use assms(1) s in \<open>auto simp: indexed_def nth_append less_Suc_eq\<close>)
  with None show ?thesis by (auto simp: c' s_def)
qed

definition complex_ok :: "simplicial_complex \<Rightarrow> bool" where
  "complex_ok c \<longleftrightarrow> indexed c \<and> face_closed c"

lemma faces_new: "faces (simplex_new i vs w) = faces (simplex_new 0 vs 0)"
  by (simp add: faces_def simplex_new_def)

lemma add_simplex_complex_ok:
  assumes "complex_ok c" and "distinct vs" and "vs \<noteq> []"
    and "set (faces (simplex_new 0 vs 0)) \<subseteq> dom (sc_index c)"
  shows "complex_ok (snd (add_simplex vs w c)) \<and> dom (sc_index c) \<subseteq> dom (sc_index (snd (add_simplex vs w c))) \<and>
    sort vs \<in> dom (sc_index (snd (add_simplex vs w c)))"
proof -
  have c: "indexed c" "face_closed c" using assms(1) by (simp_all add: complex_ok_def)
  note step = add_simplex_indexed [OF c(1) assms(2,3), of w]
  have "face_closed (snd (add_simplex vs w c))"
    unfolding face_closed_def
  proof (intro ballI)
    fix s f assume s: "s \<in> set (sc_simplices (snd (add_simplex vs w c)))" "f \<in> set (faces s)"
    then have "s = simplex_new (sc_next_id c) vs w \<or> s \<in> set (sc_simplices c)" using step by blast
    then have "f \<in> dom (sc_index c)"
      using s(2) assms(4) c(2) by (auto simp: face_closed_def faces_new [of "sc_next_id c" vs w])
    with step show "f \<in> dom (sc_index (snd (add_simplex vs w c)))" by blast
  qed
  with step show ?thesis by (simp add: complex_ok_def)
qed

lemma add_simplex_with_faces_ok:
  "complex_ok c \<Longrightarrow> distinct vs \<Longrightarrow> vs \<noteq> [] \<Longrightarrow>
   complex_ok (snd (add_simplex_with_faces vs w c)) \<and> dom (sc_index c) \<subseteq> dom (sc_index (snd (add_simplex_with_faces vs w c))) \<and>
   sort vs \<in> dom (sc_index (snd (add_simplex_with_faces vs w c)))"
proof (induction vs w c rule: add_simplex_with_faces.induct)
  case (1 vs w c)
  let ?step = "\<lambda>c f. snd (add_simplex_with_faces f 0 c)"
  have ok: "simplex_ok (simplex_new 0 vs w)" using 1 by (simp add: simplex_new_ok)
  have fold: "complex_ok (foldl ?step c0 fs) \<and> dom (sc_index c0) \<subseteq> dom (sc_index (foldl ?step c0 fs)) \<and>
      set fs \<subseteq> dom (sc_index (foldl ?step c0 fs))"
    if "complex_ok c0" "set fs \<subseteq> set (faces (simplex_new 0 vs w))" for c0 fs
    using that
  proof (induction fs arbitrary: c0)
    case (Cons f fs)
    then have f: "f \<in> set (faces (simplex_new 0 vs w))" "sort f = f" "distinct f" "f \<noteq> []"
      using faces_ok [OF ok, of f] by (auto simp: sorted_sort_id)
    have "complex_ok (?step c0 f) \<and> dom (sc_index c0) \<subseteq> dom (sc_index (?step c0 f)) \<and> f \<in> dom (sc_index (?step c0 f))"
      using "1.IH" [OF f(1), of c0] Cons.prems f by auto
    then show ?case
      using Cons.IH [of "?step c0 f"] Cons.prems by (simp del: add_simplex_with_faces.simps) blast
  qed simp
  have "complex_ok (foldl ?step c (faces (simplex_new 0 vs w))) \<and>
      set (faces (simplex_new 0 vs 0)) \<subseteq> dom (sc_index (foldl ?step c (faces (simplex_new 0 vs w))))"
    using fold [OF "1.prems"(1) order_refl] by (simp add: faces_new [of 0 vs w])
  then show ?case
    using add_simplex_complex_ok [of "foldl ?step c (faces (simplex_new 0 vs w))" vs w] "1.prems"
      fold [OF "1.prems"(1) order_refl]
    by (simp add: add_simplex_with_faces.simps [of vs w c]) blast
qed

lemma reindex_loop_simplices:
  "length ds = i \<Longrightarrow> fst (reindex_loop i ss (ds, index)) = ds @ map (\<lambda>(j, s). s\<lparr>sx_id := j\<rparr>) (enumerate i ss)"
  by (induction ss arbitrary: i ds index) simp_all

lemma reindex_loop_index:
  assumes "distinct (map sx_vertices ss)"
  shows "snd (reindex_loop i ss (ds, index)) vs = Some k \<longleftrightarrow>
    (\<exists>j<length ss. k = i + j \<and> sx_vertices (ss ! j) = vs) \<or> vs \<notin> sx_vertices ` set ss \<and> index vs = Some k"
  using assms
proof (induction ss arbitrary: i ds index)
  case (Cons s ss)
  obtain index' where ix: "index' = index(sx_vertices s \<mapsto> i)" by blast
  have IH: "snd (reindex_loop (Suc i) ss (ds @ [s\<lparr>sx_id := i\<rparr>], index')) vs = Some k \<longleftrightarrow>
      (\<exists>j<length ss. k = Suc i + j \<and> sx_vertices (ss ! j) = vs) \<or> vs \<notin> sx_vertices ` set ss \<and> index' vs = Some k"
    using Cons.IH Cons.prems by simp
  have tail: "(\<exists>j<length (s # ss). k = i + j \<and> sx_vertices ((s # ss) ! j) = vs) \<longleftrightarrow>
      k = i \<and> sx_vertices s = vs \<or> (\<exists>j<length ss. k = Suc i + j \<and> sx_vertices (ss ! j) = vs)"
    by (auto simp: less_Suc_eq_0_disj)
  have fresh: "sx_vertices s \<notin> sx_vertices ` set ss" using Cons.prems by simp
  then have "\<not> (\<exists>j<length ss. sx_vertices (ss ! j) = sx_vertices s)" by (metis image_eqI nth_mem)
  moreover have "snd (reindex_loop i (s # ss) (ds, index)) = snd (reindex_loop (Suc i) ss (ds @ [s\<lparr>sx_id := i\<rparr>], index'))"
    by (simp only: reindex_loop.simps ix)
  moreover have "index' vs = (if vs = sx_vertices s then Some i else index vs)" by (simp add: ix)
  ultimately show ?case unfolding tail using IH fresh by auto
qed simp

lemma sort_simplices:
  assumes "indexed c"
  defines "ss \<equiv> sort_key filtration_key (sc_simplices c)"
  shows "length (sc_simplices (sort_by_filtration c)) = length ss"
    and "i < length ss \<Longrightarrow> sc_simplices (sort_by_filtration c) ! i = (ss ! i)\<lparr>sx_id := i\<rparr>"
    and "sc_index (sort_by_filtration c) vs = Some k \<longleftrightarrow> k < length ss \<and> sx_vertices (ss ! k) = vs"
    and "sc_next_id (sort_by_filtration c) = length ss"
proof -
  have "inj_on sx_vertices (set (sc_simplices c))" "distinct (sc_simplices c)"
    using indexed_lookup_inj [OF assms(1)]
    by (auto simp: inj_on_def in_set_conv_nth distinct_conv_nth) metis+
  then have d: "distinct (map sx_vertices ss)" by (simp add: ss_def distinct_map)
  obtain xs index where r: "reindex_loop 0 ss ([], Map.empty) = (xs, index)" by fastforce
  have xs: "xs = map (\<lambda>(j, s). s\<lparr>sx_id := j\<rparr>) (enumerate 0 ss)"
    using reindex_loop_simplices [of "[]" 0 ss Map.empty] r by simp
  have ix: "index vs = Some k \<longleftrightarrow> k < length ss \<and> sx_vertices (ss ! k) = vs" for vs k
    using reindex_loop_index [OF d, of 0 "[]" Map.empty vs k] r by auto
  have eq: "sort_by_filtration c = \<lparr>sc_simplices = xs, sc_index = index, sc_next_id = length xs\<rparr>"
    using r by (simp add: sort_by_filtration_def ss_def)
  show "length (sc_simplices (sort_by_filtration c)) = length ss"
    "i < length ss \<Longrightarrow> sc_simplices (sort_by_filtration c) ! i = (ss ! i)\<lparr>sx_id := i\<rparr>"
    "sc_next_id (sort_by_filtration c) = length ss"
    by (simp_all add: eq xs nth_enumerate_eq)
  show "sc_index (sort_by_filtration c) vs = Some k \<longleftrightarrow> k < length ss \<and> sx_vertices (ss ! k) = vs"
    by (simp add: eq ix)
qed

lemma faces_id [simp]: "faces (s\<lparr>sx_id := i\<rparr>) = faces s"
  by (simp add: faces_def)

lemma sort_by_filtration_ok:
  assumes "complex_ok c"
  shows "complex_ok (sort_by_filtration c) \<and> dom (sc_index (sort_by_filtration c)) = dom (sc_index c)"
proof -
  have c: "indexed c" "face_closed c" using assms by (simp_all add: complex_ok_def)
  let ?ss = "sort_key filtration_key (sc_simplices c)"
  note srt = sort_simplices [OF c(1)]
  have mem: "s \<in> set (sc_simplices (sort_by_filtration c)) \<longleftrightarrow> (\<exists>i<length ?ss. s = (?ss ! i)\<lparr>sx_id := i\<rparr>)" for s
    using srt(1,2) by (auto simp: in_set_conv_nth)
  have old: "?ss ! i \<in> set (sc_simplices c)" if "i < length ?ss" for i
    using that by (metis nth_mem set_sort)
  have dom_eq: "dom (sc_index (sort_by_filtration c)) = sx_vertices ` set ?ss"
  proof (rule set_eqI)
    fix vs
    have "vs \<in> dom (sc_index (sort_by_filtration c)) \<longleftrightarrow> (\<exists>k. k < length ?ss \<and> sx_vertices (?ss ! k) = vs)"
      unfolding dom_def mem_Collect_eq using srt(3) by (metis not_Some_eq)
    also have "\<dots> \<longleftrightarrow> vs \<in> sx_vertices ` set ?ss" unfolding image_iff Bex_def in_set_conv_nth by blast
    finally show "vs \<in> dom (sc_index (sort_by_filtration c)) \<longleftrightarrow> vs \<in> sx_vertices ` set ?ss" .
  qed
  moreover have "dom (sc_index c) = sx_vertices ` set (sc_simplices c)"
    using c(1) by (auto simp: indexed_def dom_def in_set_conv_nth) (metis image_eqI nth_mem)
  ultimately have dom: "dom (sc_index (sort_by_filtration c)) = dom (sc_index c)" by simp
  have "indexed (sort_by_filtration c)"
    unfolding indexed_def srt(1,3,4)
    using c(1) old by (auto simp: mem indexed_def simplex_ok_def srt(2))
  moreover have "face_closed (sort_by_filtration c)"
    unfolding face_closed_def dom
    using c(2) old by (metis mem face_closed_def faces_id)
  ultimately show ?thesis using dom by (simp add: complex_ok_def)
qed

section \<open>The boundary of a boundary\<close>

text \<open>The vertex set of a simplex determines it.\<close>

definition vset :: "simplicial_complex \<Rightarrow> nat \<Rightarrow> nat set" where
  "vset c i = set (sx_vertices (sc_simplices c ! i))"

lemma vset_inj:
  assumes "complex_ok c" and "i < num_simplices c" and "j < num_simplices c" and "vset c i = vset c j"
  shows "i = j"
proof -
  have c: "indexed c" using assms(1) by (simp add: complex_ok_def)
  then have "simplex_ok (sc_simplices c ! i)" "simplex_ok (sc_simplices c ! j)"
    using assms(2,3) by (auto simp: indexed_def num_simplices_def)
  then have "sx_vertices (sc_simplices c ! i) = sx_vertices (sc_simplices c ! j)"
    using assms(4) by (auto simp: simplex_ok_def vset_def intro: sorted_distinct_set_unique)
  then show ?thesis
    using indexed_lookup_inj [OF c] assms(2,3) by (simp add: num_simplices_def)
qed

text \<open>The face relation on identifiers: one vertex removed from at least two.\<close>

definition face_of :: "simplicial_complex \<Rightarrow> nat \<Rightarrow> nat \<Rightarrow> bool" where
  "face_of c j i \<longleftrightarrow> j < num_simplices c \<and> i < num_simplices c \<and> 2 \<le> card (vset c i) \<and>
     (\<exists>v\<in>vset c i. vset c j = vset c i - {v})"

lemma face_lists:
  assumes "simplex_ok s"
  shows "f \<in> set (faces s) \<longleftrightarrow> sorted f \<and> distinct f \<and> 2 \<le> length (sx_vertices s) \<and>
    (\<exists>v\<in>set (sx_vertices s). set f = set (sx_vertices s) - {v})"
proof
  assume f: "f \<in> set (faces s)"
  then have "sx_dimension s \<noteq> 0" by (auto simp: faces_def split: if_split_asm)
  with faces_ok [OF assms f] assms show "sorted f \<and> distinct f \<and> 2 \<le> length (sx_vertices s) \<and>
      (\<exists>v\<in>set (sx_vertices s). set f = set (sx_vertices s) - {v})"
    by (auto simp: simplex_ok_def)
next
  assume r: "sorted f \<and> distinct f \<and> 2 \<le> length (sx_vertices s) \<and>
      (\<exists>v\<in>set (sx_vertices s). set f = set (sx_vertices s) - {v})"
  then obtain i where i: "i < length (sx_vertices s)" "set f = set (sx_vertices s) - {sx_vertices s ! i}"
    by (auto simp: in_set_conv_nth)
  have so: "sorted (sx_vertices s)" "distinct (sx_vertices s)" using assms by (simp_all add: simplex_ok_def)
  have "f = remove_at i (sx_vertices s)"
    using remove_at_props [OF so i(1)] r i(2) by (intro sorted_distinct_set_unique) auto
  moreover have "sx_dimension s \<noteq> 0" using r assms by (auto simp: simplex_ok_def)
  ultimately show "f \<in> set (faces s)" using i(1) by (auto simp: faces_def)
qed

lemma set_map_filter: "x \<in> set (List.map_filter f xs) \<longleftrightarrow> (\<exists>y\<in>set xs. f y = Some x)"
  by (induction xs) (auto simp: List.map_filter_simps split: option.split)

lemma set_face_ids:
  assumes "complex_ok c" and "i < num_simplices c"
  shows "j \<in> set (get_face_ids c i) \<longleftrightarrow> face_of c j i"
proof -
  have c: "indexed c" using assms(1) by (simp add: complex_ok_def)
  define s where "s = sc_simplices c ! i"
  have s: "simplex_ok s" using c assms(2) by (simp add: indexed_def num_simplices_def s_def)
  have card: "card (vset c i) = length (sx_vertices s)"
    using s by (simp add: vset_def s_def simplex_ok_def distinct_card)
  have "j \<in> set (get_face_ids c i) \<longleftrightarrow> (\<exists>f\<in>set (faces s). sc_index c f = Some j)"
    using assms(2) by (simp add: get_face_ids_def get_simplex_def vget_def num_simplices_def set_map_filter
        get_simplex_id_def s_def)
  also have "\<dots> \<longleftrightarrow> j < num_simplices c \<and> sx_vertices (sc_simplices c ! j) \<in> set (faces s)"
    using c by (auto simp: indexed_def num_simplices_def)
  also have "\<dots> \<longleftrightarrow> face_of c j i"
  proof (cases "j < num_simplices c")
    case True
    then have "simplex_ok (sc_simplices c ! j)" using c by (simp add: indexed_def num_simplices_def)
    then show ?thesis
      using True assms(2) card by (simp add: face_of_def face_lists [OF s] simplex_ok_def) (simp add: vset_def s_def)
  qed (simp add: face_of_def)
  finally show ?thesis .
qed

text \<open>Every face has an identifier.\<close>

lemma face_exists:
  assumes "complex_ok c" and "i < num_simplices c" and "v \<in> vset c i" and "2 \<le> card (vset c i)"
  shows "\<exists>j. face_of c j i \<and> vset c j = vset c i - {v}"
proof -
  have c: "indexed c" "face_closed c" using assms(1) by (simp_all add: complex_ok_def)
  define s where "s = sc_simplices c ! i"
  have mem: "s \<in> set (sc_simplices c)" using assms(2) by (simp add: num_simplices_def s_def)
  then have s: "simplex_ok s" using c by (simp add: indexed_def)
  have len: "length (sx_vertices s) = card (vset c i)"
    using s by (simp add: vset_def s_def simplex_ok_def distinct_card)
  define f where "f = sorted_list_of_set (vset c i - {v})"
  have f: "sorted f" "distinct f" "set f = vset c i - {v}"
    by (simp_all add: f_def vset_def)
  then have "f \<in> set (faces s)"
    unfolding face_lists [OF s] using assms(3,4) len by (auto simp: vset_def s_def)
  then obtain j where "sc_index c f = Some j" using c(2) mem by (auto simp: face_closed_def)
  then have j: "j < num_simplices c" "sx_vertices (sc_simplices c ! j) = f"
    using c(1) by (auto simp: indexed_def num_simplices_def)
  then have "vset c j = vset c i - {v}" using f by (simp add: vset_def)
  with j assms show ?thesis by (auto simp: face_of_def)
qed

text \<open>The boundary of a boundary vanishes over the field of two elements.\<close>

lemma boundary_even:
  assumes "complex_ok c"
  shows "even (card {j. j \<in> set (get_face_ids c i) \<and> k \<in> set (get_face_ids c j)})"
proof (cases "\<exists>j. j \<in> set (get_face_ids c i) \<and> k \<in> set (get_face_ids c j)")
  case False
  then have "{j. j \<in> set (get_face_ids c i) \<and> k \<in> set (get_face_ids c j)} = {}" by blast
  then show ?thesis by (simp only: card.empty) simp
next
  case True
  then obtain j0 where j0: "j0 \<in> set (get_face_ids c i)" "k \<in> set (get_face_ids c j0)" by blast
  then have i: "i < num_simplices c"
    by (auto simp: get_face_ids_def get_simplex_def vget_def num_simplices_def split: if_split_asm)
  have mem: "j \<in> set (get_face_ids c i) \<and> k \<in> set (get_face_ids c j) \<longleftrightarrow> face_of c j i \<and> face_of c k j" for j
  proof -
    have "j < num_simplices c" if "j \<in> set (get_face_ids c i)"
      using that set_face_ids [OF assms i] by (simp add: face_of_def)
    then show ?thesis using set_face_ids [OF assms] i by (auto simp: face_of_def)
  qed
  have f0: "face_of c j0 i" "face_of c k j0" using j0 mem by blast+
  then obtain a b where ab0: "a \<in> vset c i" "vset c j0 = vset c i - {a}" "b \<in> vset c j0" "vset c k = vset c j0 - {b}"
    by (auto simp: face_of_def)
  then have ab: "a \<in> vset c i" "b \<in> vset c i" "a \<noteq> b" "vset c k = vset c i - {a, b}" by auto
  have fin: "finite (vset c i)" by (simp add: vset_def)
  have "2 \<le> card (vset c i - {a})" using f0(2) ab0(2) by (simp add: face_of_def)
  then have big: "3 \<le> card (vset c i)" using fin ab(1) by simp
  obtain ja jb where ja: "face_of c ja i" "vset c ja = vset c i - {a}" and jb: "face_of c jb i" "vset c jb = vset c i - {b}"
    using face_exists [OF assms i ab(1)] face_exists [OF assms i ab(2)] big by auto
  have "ja \<noteq> jb" using ja jb ab by auto
  moreover have "{j. j \<in> set (get_face_ids c i) \<and> k \<in> set (get_face_ids c j)} = {ja, jb}"
  proof (intro set_eqI iffI)
    fix j assume "j \<in> {j. j \<in> set (get_face_ids c i) \<and> k \<in> set (get_face_ids c j)}"
    then have j: "face_of c j i" "face_of c k j" using mem by auto
    then obtain v u where "v \<in> vset c i" "vset c j = vset c i - {v}" "u \<in> vset c j" "vset c k = vset c j - {u}"
      by (auto simp: face_of_def)
    then have "v = a \<or> v = b" using ab by auto
    then have "vset c j = vset c ja \<or> vset c j = vset c jb"
      using ja jb \<open>vset c j = vset c i - {v}\<close> by auto
    then show "j \<in> {ja, jb}"
      using j(1) ja(1) jb(1) vset_inj [OF assms] by (auto simp: face_of_def)
  next
    fix j assume "j \<in> {ja, jb}"
    then have "face_of c j i" and "vset c j = vset c i - {a} \<or> vset c j = vset c i - {b}" using ja jb by auto
    moreover have "k < num_simplices c" using j0 mem [of j0] by (auto simp: face_of_def)
    moreover have "2 \<le> card (vset c i - {v})" if "v \<in> vset c i" for v using big fin that by simp
    moreover have "vset c k = vset c i - {a} - {b}" "vset c k = vset c i - {b} - {a}"
      "b \<in> vset c i - {a}" "a \<in> vset c i - {b}" using ab by auto
    ultimately have "face_of c k j"
      unfolding face_of_def using ab(1,2) by metis
    with \<open>face_of c j i\<close> show "j \<in> {j. j \<in> set (get_face_ids c i) \<and> k \<in> set (get_face_ids c j)}"
      using mem by blast
  qed
  ultimately show ?thesis by simp
qed

section \<open>Complexes the code builds\<close>

text \<open>Simplices added with their faces, and sorted by the filtration.\<close>

definition add_all :: "(nat list \<times> f64) list \<Rightarrow> simplicial_complex" where
  "add_all adds = foldl (\<lambda>c (vertices, weight). snd (add_simplex_with_faces vertices weight c)) complex_new adds"

definition proper_adds :: "(nat list \<times> f64) list \<Rightarrow> bool" where
  "proper_adds adds \<longleftrightarrow> list_all (\<lambda>(vertices, weight). distinct vertices \<and> vertices \<noteq> []) adds"

lemma add_all_ok: "proper_adds adds \<Longrightarrow> complex_ok (add_all adds)"
  unfolding add_all_def
proof (rule foldl_invariant)
  show "complex_ok complex_new"
    by (simp add: complex_ok_def indexed_def face_closed_def complex_new_def)
qed (auto simp: proper_adds_def list_all_iff add_simplex_with_faces_ok)

lemma built_ok: "proper_adds adds \<Longrightarrow> complex_ok (sort_by_filtration (add_all adds))"
  by (simp add: add_all_ok sort_by_filtration_ok)

text \<open>C22: In every complex the code builds, from any simplices with pairwise different vertices, the
  boundary of a boundary vanishes: each simplex is a face of an even number of the faces of a simplex. The
  complex contains the faces of its simplices, and the identifiers are positions.\<close>

theorem boundary_of_boundary:
  assumes "proper_adds adds"
  defines "c \<equiv> sort_by_filtration (add_all adds)"
  shows "even (card {j. j \<in> set (get_face_ids c i) \<and> k \<in> set (get_face_ids c j)}) \<and>
    (\<forall>s f. s \<in> set (sc_simplices c) \<longrightarrow> f \<in> set (faces s) \<longrightarrow> get_simplex_id c f \<noteq> None)"
  using built_ok [OF assms(1)] boundary_even [OF built_ok [OF assms(1)], of i k]
  by (auto simp: c_def complex_ok_def face_closed_def get_simplex_id_def)

theorem boundary_of_boundary_witness:
  "even (card {j. j \<in> set (get_face_ids (sort_by_filtration (add_all [([0, 1, 2], 5)])) 6) \<and>
     2 \<in> set (get_face_ids (sort_by_filtration (add_all [([0, 1, 2], 5)])) j)})"
  using boundary_of_boundary [of "[([0, 1, 2], 5)]" 6 2] by (simp add: proper_adds_def)

text \<open>When the simplices added all have the dimension \<open>d\<close> and weights that are not negative, as those of
  \<open>AdicComplexBuilder\<close> do, faces come before the simplices they bound.\<close>

definition weights_ok :: "nat \<Rightarrow> simplicial_complex \<Rightarrow> bool" where
  "weights_ok d c \<longleftrightarrow> (\<forall>s\<in>set (sc_simplices c). length (sx_vertices s) \<le> Suc d \<and> 0 \<le> sx_weight s \<and>
     (length (sx_vertices s) < Suc d \<longrightarrow> sx_weight s = 0))"

lemma add_simplex_weights:
  "weights_ok d c \<Longrightarrow> 0 \<le> w \<Longrightarrow> length vs \<le> Suc d \<Longrightarrow> (length vs < Suc d \<longrightarrow> w = 0) \<Longrightarrow>
   weights_ok d (snd (add_simplex vs w c))"
  by (auto simp: weights_ok_def add_simplex_def simplex_new_def Let_def split: option.split)

lemma add_with_faces_weights:
  "weights_ok d c \<Longrightarrow> 0 \<le> w \<Longrightarrow> length vs \<le> Suc d \<Longrightarrow> (length vs < Suc d \<longrightarrow> w = 0) \<Longrightarrow>
   weights_ok d (snd (add_simplex_with_faces vs w c))"
proof (induction vs w c rule: add_simplex_with_faces.induct)
  case (1 vs w c)
  have "weights_ok d (foldl (\<lambda>c f. snd (add_simplex_with_faces f 0 c)) c (faces (simplex_new 0 vs w)))"
  proof (rule foldl_invariant [where I = "weights_ok d"])
    show "weights_ok d c" by (rule "1.prems")
  next
    fix c' f assume f: "weights_ok d c'" "f \<in> set (faces (simplex_new 0 vs w))"
    then have "length f < length vs" using length_face [OF f(2)] by (simp add: simplex_new_def)
    then show "weights_ok d (snd (add_simplex_with_faces f 0 c'))"
      using "1.IH" [OF f(2), of c'] f(1) "1.prems" by simp
  qed
  then show ?case
    using "1.prems" by (simp add: add_simplex_with_faces.simps [of vs w c] add_simplex_weights)
qed

lemma add_all_weights:
  assumes "list_all (\<lambda>(vertices, weight). length vertices = Suc d \<and> 0 \<le> weight) adds"
  shows "weights_ok d (add_all adds)"
  unfolding add_all_def
proof (rule foldl_invariant)
  show "weights_ok d complex_new" by (simp add: weights_ok_def complex_new_def)
qed (use assms in \<open>auto simp: list_all_iff add_with_faces_weights\<close>)

lemma sorted_key_less:
  assumes "i < length xs" "j < length xs" and "f (sort_key f xs ! j) < f (sort_key f xs ! i)"
  shows "j < i"
proof (rule ccontr)
  assume "\<not> j < i"
  then have "map f (sort_key f xs) ! i \<le> map f (sort_key f xs) ! j"
    using assms(1,2) by (intro sorted_nth_mono) auto
  with assms show False by simp
qed

lemma key_less:
  "sx_weight a = 0 \<Longrightarrow> 0 \<le> sx_weight b \<Longrightarrow> sx_dimension a < sx_dimension b \<Longrightarrow> filtration_key a < filtration_key b"
  by (cases "sx_weight b = 0") (simp_all add: filtration_key_def less_prod_def)

lemma faces_come_first:
  assumes "proper_adds adds" and "list_all (\<lambda>(vertices, weight). length vertices = Suc d \<and> 0 \<le> weight) adds"
    and "j \<in> set (get_face_ids (sort_by_filtration (add_all adds)) i)"
  shows "j < i"
proof -
  let ?c = "add_all adds" and ?ss = "sort_key filtration_key (sc_simplices (add_all adds))"
  have ok: "complex_ok (sort_by_filtration ?c)" "indexed ?c"
    using built_ok add_all_ok assms(1) by (auto simp: complex_ok_def)
  note srt = sort_simplices [OF ok(2)]
  have i: "i < num_simplices (sort_by_filtration ?c)"
    using assms(3) by (auto simp: get_face_ids_def get_simplex_def vget_def num_simplices_def split: if_split_asm)
  then have f: "face_of (sort_by_filtration ?c) j i" using set_face_ids [OF ok(1)] assms(3) by blast
  then have len: "i < length ?ss" "j < length ?ss"
    using srt(1) by (simp_all add: face_of_def num_simplices_def)
  have vs: "vset (sort_by_filtration ?c) k = set (sx_vertices (?ss ! k))" if "k < length ?ss" for k
    using srt(2) [OF that] by (simp add: vset_def)
  have mem: "?ss ! k \<in> set (sc_simplices ?c)" if "k < length ?ss" for k
    using that by (metis nth_mem set_sort)
  have card: "card (set (sx_vertices (?ss ! k))) = length (sx_vertices (?ss ! k))"
    "sx_dimension (?ss ! k) = length (sx_vertices (?ss ! k)) - 1" if "k < length ?ss" for k
    using ok(2) mem [OF that] by (auto simp: indexed_def simplex_ok_def distinct_card)
  obtain v where "v \<in> set (sx_vertices (?ss ! i))" "set (sx_vertices (?ss ! j)) = set (sx_vertices (?ss ! i)) - {v}"
    "2 \<le> card (set (sx_vertices (?ss ! i)))"
    using f len by (auto simp: face_of_def vs)
  then have l: "Suc (length (sx_vertices (?ss ! j))) = length (sx_vertices (?ss ! i))" "2 \<le> length (sx_vertices (?ss ! i))"
    using card(1) [OF len(1)] card(1) [OF len(2)] by (metis card_Suc_Diff1 List.finite_set)+
  have w: "length (sx_vertices s) \<le> Suc d" "0 \<le> sx_weight s" "length (sx_vertices s) < Suc d \<Longrightarrow> sx_weight s = 0"
    if "s \<in> set (sc_simplices ?c)" for s
    using add_all_weights [OF assms(2)] that by (simp_all add: weights_ok_def)
  have "length (sx_vertices (?ss ! j)) < Suc d" using w(1) [OF mem [OF len(1)]] l(1) by linarith
  then have "sx_weight (?ss ! j) = 0" "0 \<le> sx_weight (?ss ! i)"
    using w(3) [OF mem [OF len(2)]] w(2) [OF mem [OF len(1)]] by blast+
  moreover have "sx_dimension (?ss ! j) < sx_dimension (?ss ! i)"
    unfolding card(2) [OF len(1)] card(2) [OF len(2)] using l by arith
  ultimately have "filtration_key (?ss ! j) < filtration_key (?ss ! i)" by (rule key_less)
  moreover have "i < length (sc_simplices ?c)" "j < length (sc_simplices ?c)" using len by simp_all
  ultimately show ?thesis using sorted_key_less [of i "sc_simplices ?c" j filtration_key] by blast
qed

end
