(* ===== verification/Reduction.thy ===== *)
theory Reduction
  imports Simplicial "HOL-Library.AList"
begin

text \<open>
  Boundary matrices over the field of two elements and their reduction
  (\<open>crates/adic-finality/src/ph/matrix.rs\<close> and \<open>reduction.rs\<close>). A column is the sorted
  list of the rows that hold a one. A \<open>HashMap\<close> that is enumerated is an association list. The
  \<open>while\<close> loop of the reduction is a \<open>partial_function\<close> whose value is \<^term>\<open>None\<close> when it does not end;
  it is shown to end on sorted columns.
\<close>

section \<open>\<open>BoundaryMatrix\<close>\<close>

record boundary_matrix =
  bm_columns :: "nat list list"
  bm_pivots :: "(nat \<times> nat) list"

definition from_complex :: "simplicial_complex \<Rightarrow> boundary_matrix" where
  "from_complex c =
     \<lparr>bm_columns = map (\<lambda>s. sort (get_face_ids c (sx_id s))) (sc_simplices c), bm_pivots = []\<rparr>"

definition num_columns :: "boundary_matrix \<Rightarrow> nat" where
  "num_columns M = length (bm_columns M)"

definition append_columns :: "nat list list \<Rightarrow> boundary_matrix \<Rightarrow> boundary_matrix" where
  "append_columns new_columns M = M\<lparr>bm_columns := bm_columns M @ new_columns\<rparr>"

definition get_column :: "boundary_matrix \<Rightarrow> nat \<Rightarrow> nat list option" where
  "get_column M col = vget (bm_columns M) col"

definition is_empty_column :: "boundary_matrix \<Rightarrow> nat \<Rightarrow> bool" where
  "is_empty_column M col = (case get_column M col of None \<Rightarrow> True | Some c \<Rightarrow> c = [])"

definition last_of :: "'a list \<Rightarrow> 'a option" where
  "last_of xs = (if xs = [] then None else Some (last xs))"

definition lowest_face :: "boundary_matrix \<Rightarrow> nat \<Rightarrow> nat option" where
  "lowest_face M col = Option.bind (get_column M col) last_of"

definition find_column_with_pivot :: "boundary_matrix \<Rightarrow> nat \<Rightarrow> nat option" where
  "find_column_with_pivot M pivot = map_of (bm_pivots M) pivot"

text \<open>The loop over two sorted lists.\<close>

fun xor_merge :: "nat list \<Rightarrow> nat list \<Rightarrow> nat list" where
  "xor_merge (x # xs) (y # ys) =
     (if x < y then x # xor_merge xs (y # ys)
      else if y < x then y # xor_merge (x # xs) ys
      else xor_merge xs ys)"
| "xor_merge [] ys = ys"
| "xor_merge xs [] = xs"

definition xor_columns :: "boundary_matrix \<Rightarrow> nat \<Rightarrow> nat \<Rightarrow> boundary_matrix" where
  "xor_columns M target_col source_col =
     (if num_columns M \<le> target_col \<or> num_columns M \<le> source_col then M
      else M\<lparr>bm_columns := (bm_columns M)[target_col := xor_merge (bm_columns M ! target_col) (bm_columns M ! source_col)]\<rparr>)"

definition update_pivot :: "boundary_matrix \<Rightarrow> nat \<Rightarrow> boundary_matrix" where
  "update_pivot M col =
     (case lowest_face M col of
        None \<Rightarrow> M
      | Some pivot \<Rightarrow> M\<lparr>bm_pivots := AList.update pivot col (bm_pivots M)\<rparr>)"

definition clear_pivots :: "boundary_matrix \<Rightarrow> boundary_matrix" where
  "clear_pivots M = M\<lparr>bm_pivots := []\<rparr>"

section \<open>Reduction\<close>

record reduction_result =
  rr_matrix :: boundary_matrix
  rr_pairs :: "(nat \<times> nat) list"
  rr_unpaired :: "nat list"

partial_function (option) reduce_column :: "nat \<Rightarrow> boundary_matrix \<Rightarrow> boundary_matrix option" where
  "reduce_column col M =
     (case lowest_face M col of
        None \<Rightarrow> Some M
      | Some pivot \<Rightarrow>
          (case find_column_with_pivot M pivot of
             Some other_col \<Rightarrow> reduce_column col (xor_columns M col other_col)
           | None \<Rightarrow> Some (update_pivot M col)))"

primrec reduce_columns :: "nat list \<Rightarrow> boundary_matrix \<Rightarrow> boundary_matrix option" where
  "reduce_columns [] M = Some M"
| "reduce_columns (col # cols) M = Option.bind (reduce_column col M) (reduce_columns cols)"

definition extract_pairs :: "(nat \<times> nat) list \<Rightarrow> (nat \<times> nat) list" where
  "extract_pairs pivots = foldl (\<lambda>pairs (pivot_row, column). AList.update column pivot_row pairs) [] pivots"

definition extract_result :: "nat \<Rightarrow> boundary_matrix \<Rightarrow> reduction_result" where
  "extract_result n M =
     (let pairs = extract_pairs (bm_pivots M)
      in \<lparr>rr_matrix = M, rr_pairs = pairs,
          rr_unpaired = filter (\<lambda>col. col \<notin> set (map fst pairs) \<and> col \<notin> set (map snd pairs)) [0..<n]\<rparr>)"

definition reduce_boundary_matrix :: "boundary_matrix \<Rightarrow> reduction_result option" where
  "reduce_boundary_matrix M =
     (let n = num_columns M
      in map_option (extract_result n) (reduce_columns [0..<n] (clear_pivots M)))"

section \<open>Reduction with clearing\<close>

text \<open>The flags are a list of \<open>n\<close> Booleans; a row outside it panics.\<close>

definition filter_cleared :: "bool list \<Rightarrow> nat \<Rightarrow> boundary_matrix \<Rightarrow> panic + boundary_matrix" where
  "filter_cleared cleared col M =
     (case get_column M col of
        None \<Rightarrow> Inr M
      | Some data \<Rightarrow>
          (if \<exists>row\<in>set data. length cleared \<le> row then Inl IndexOutOfBounds
           else Inr (M\<lparr>bm_columns := (bm_columns M)[col := filter (\<lambda>row. \<not> cleared ! row) data]\<rparr>)))"

partial_function (option) reduce_clearing ::
    "nat \<Rightarrow> bool list \<Rightarrow> boundary_matrix \<Rightarrow> (panic + bool list \<times> boundary_matrix) option" where
  "reduce_clearing col cleared M =
     (case lowest_face M col of
        None \<Rightarrow> Some (Inr (cleared, M))
      | Some pivot \<Rightarrow>
          (case find_column_with_pivot M pivot of
             Some other_col \<Rightarrow> reduce_clearing col cleared (xor_columns M col other_col)
           | None \<Rightarrow>
               (if length cleared \<le> pivot then Some (Inl IndexOutOfBounds)
                else Some (Inr (cleared[pivot := True], update_pivot M col)))))"

primrec clearing_columns :: "nat list \<Rightarrow> bool list \<Rightarrow> boundary_matrix \<Rightarrow> (panic + boundary_matrix) option" where
  "clearing_columns [] cleared M = Some (Inr M)"
| "clearing_columns (col # cols) cleared M =
     (case filter_cleared cleared col M of
        Inl e \<Rightarrow> Some (Inl e)
      | Inr M' \<Rightarrow>
          Option.bind (reduce_clearing col cleared M') (\<lambda>r.
            case r of Inl e \<Rightarrow> Some (Inl e) | Inr (cleared', M'') \<Rightarrow> clearing_columns cols cleared' M''))"

definition reduce_with_clearing :: "boundary_matrix \<Rightarrow> (panic + reduction_result) option" where
  "reduce_with_clearing M =
     (let n = num_columns M
      in map_option (map_sum id (extract_result n)) (clearing_columns [0..<n] (replicate n False) (clear_pivots M)))"

section \<open>Sums over the field of two elements\<close>

text \<open>A vector is the set of its ones. \<open>csum F S\<close> is the sum of the vectors \<open>F k\<close> for \<open>k\<close> in
  \<open>S\<close>.\<close>

definition sdiff :: "nat set \<Rightarrow> nat set \<Rightarrow> nat set" where
  "sdiff A B = (A - B) \<union> (B - A)"

definition csum :: "(nat \<Rightarrow> nat set) \<Rightarrow> nat set \<Rightarrow> nat set" where
  "csum F S = {x. odd (card {k \<in> S. x \<in> F k})}"

lemma sdiff_iff [simp]: "x \<in> sdiff A B \<longleftrightarrow> (x \<in> A) \<noteq> (x \<in> B)"
  by (auto simp: sdiff_def)

lemma finite_sdiff [simp]: "finite A \<Longrightarrow> finite B \<Longrightarrow> finite (sdiff A B)"
  by (simp add: sdiff_def)

lemma odd_card_sdiff:
  assumes "finite A" and "finite B"
  shows "odd (card (sdiff A B)) \<longleftrightarrow> odd (card A) \<noteq> odd (card B)"
proof -
  have "card A = card (A - B) + card (A \<inter> B)" "card B = card (B - A) + card (A \<inter> B)"
    using assms by (metis card_Diff_subset_Int Int_commute card_mono finite_Int inf_le1 inf_le2 le_add_diff_inverse2)+
  moreover have "card (sdiff A B) = card (A - B) + card (B - A)"
    unfolding sdiff_def using assms by (intro card_Un_disjoint) auto
  ultimately show ?thesis by presburger
qed

lemma csum_empty [simp]: "csum F {} = {}"
  by (simp add: csum_def)

lemma csum_sdiff:
  assumes "finite S" and "finite T"
  shows "csum F (sdiff S T) = sdiff (csum F S) (csum F T)"
proof (rule set_eqI)
  fix x
  have "{k \<in> sdiff S T. x \<in> F k} = sdiff {k \<in> S. x \<in> F k} {k \<in> T. x \<in> F k}" by auto
  then show "x \<in> csum F (sdiff S T) \<longleftrightarrow> x \<in> sdiff (csum F S) (csum F T)"
    using odd_card_sdiff [of "{k \<in> S. x \<in> F k}" "{k \<in> T. x \<in> F k}"] assms by (simp add: csum_def)
qed

lemma csum_singleton [simp]: "csum F {k} = F k"
proof (rule set_eqI)
  fix x
  have "{j \<in> {k}. x \<in> F j} = (if x \<in> F k then {k} else {})" by auto
  then show "x \<in> csum F {k} \<longleftrightarrow> x \<in> F k" by (simp add: csum_def)
qed

lemma csum_insert:
  assumes "finite S" and "k \<notin> S"
  shows "csum F (insert k S) = sdiff (F k) (csum F S)"
proof -
  have "insert k S = sdiff {k} S" using assms(2) by (auto simp: sdiff_def)
  then show ?thesis using csum_sdiff [of "{k}" S F] assms(1) by simp
qed

lemma csum_cong: "(\<And>k. k \<in> S \<Longrightarrow> F k = G k) \<Longrightarrow> csum F S = csum G S"
  unfolding csum_def by (metis (mono_tags, lifting) mem_Collect_eq Collect_cong)

text \<open>A sum of sums of \<open>F\<close> is a sum of \<open>F\<close>.\<close>

lemma csum_csum:
  assumes "finite S" and "\<And>k. k \<in> S \<Longrightarrow> finite (T k)"
  shows "csum (\<lambda>k. csum F (T k)) S = csum F (csum T S)"
  using assms
proof (induction S rule: finite_induct)
  case (insert k S)
  have fin: "finite (csum T S)"
  proof -
    have "csum T S \<subseteq> (\<Union>j\<in>S. T j)"
    proof
      fix x assume "x \<in> csum T S"
      then have "odd (card {j \<in> S. x \<in> T j})" by (simp add: csum_def)
      then have "{j \<in> S. x \<in> T j} \<noteq> {}" by (metis card.empty even_zero)
      then show "x \<in> (\<Union>j\<in>S. T j)" by blast
    qed
    then show ?thesis using insert by (meson finite_UN finite_subset insertCI)
  qed
  show ?case
    using insert fin by (simp add: csum_insert csum_sdiff)
qed simp

section \<open>Columns\<close>

definition ssorted :: "nat list \<Rightarrow> bool" where
  "ssorted xs \<longleftrightarrow> sorted_wrt (<) xs"

lemma xor_merge_correct:
  assumes "ssorted xs" and "ssorted ys"
  shows "ssorted (xor_merge xs ys) \<and> set (xor_merge xs ys) = sdiff (set xs) (set ys)"
  using assms
proof (induction xs ys rule: xor_merge.induct)
  case (1 x xs y ys)
  have lt: "\<forall>z\<in>set xs. x < z" "\<forall>z\<in>set ys. y < z" "ssorted xs" "ssorted ys"
    using 1 by (auto simp: ssorted_def)
  consider "x < y" | "y < x" | "x = y" by linarith
  then show ?case
  proof cases
    case 1
    then have "\<forall>z\<in>insert y (set ys). x < z" using lt(2) by force
    with 1 "1.IH"(1) "1.prems" lt show ?thesis by (auto simp: ssorted_def)
  next
    case 2
    then have "\<forall>z\<in>insert x (set xs). y < z" using lt(1) by force
    with 2 "1.IH"(2) "1.prems" lt show ?thesis by (auto simp: ssorted_def)
  next
    case 3
    with "1.IH"(3) lt show ?thesis by auto
  qed
qed (auto simp: ssorted_def)

lemma last_of_Max:
  assumes "ssorted xs"
  shows "last_of xs = (if set xs = {} then None else Some (Max (set xs)))"
proof (cases "xs = []")
  case False
  then have "\<forall>z\<in>set xs. z \<le> last xs"
    using assms by (auto simp: ssorted_def in_set_conv_nth last_conv_nth)
      (metis One_nat_def Suc_leI Suc_pred diff_less length_greater_0_conv less_Suc_eq_le nat_less_le not_less_iff_gr_or_eq
        sorted_wrt_nth_less zero_less_one le_less_linear less_imp_le_nat order_le_less)
  with False show ?thesis
    using Max_eqI [of "set xs" "last xs"] by (auto simp: last_of_def)
qed (simp add: last_of_def)

text \<open>Columns as sets.\<close>

definition cset :: "boundary_matrix \<Rightarrow> nat \<Rightarrow> nat set" where
  "cset M k = set (bm_columns M ! k)"

definition low :: "boundary_matrix \<Rightarrow> nat \<Rightarrow> nat option" where
  "low M k = (if cset M k = {} then None else Some (Max (cset M k)))"

definition columns_ok :: "boundary_matrix \<Rightarrow> bool" where
  "columns_ok M \<longleftrightarrow> (\<forall>xs\<in>set (bm_columns M). ssorted xs)"

lemma lowest_face_low: "columns_ok M \<Longrightarrow> k < num_columns M \<Longrightarrow> lowest_face M k = low M k"
  by (simp add: lowest_face_def get_column_def vget_def num_columns_def low_def cset_def columns_ok_def last_of_Max)

lemma finite_cset [simp]: "finite (cset M k)"
  by (simp add: cset_def)

lemma xor_columns_eq:
  assumes "columns_ok M" and "i < num_columns M" and "j < num_columns M"
  shows "columns_ok (xor_columns M i j)" "num_columns (xor_columns M i j) = num_columns M"
    "bm_pivots (xor_columns M i j) = bm_pivots M"
    "cset (xor_columns M i j) k = (if k = i then sdiff (cset M i) (cset M j) else cset M k)"
proof -
  have m: "ssorted (xor_merge (bm_columns M ! i) (bm_columns M ! j))"
    "set (xor_merge (bm_columns M ! i) (bm_columns M ! j)) = sdiff (cset M i) (cset M j)"
    using assms xor_merge_correct by (auto simp: columns_ok_def num_columns_def cset_def)
  then show "columns_ok (xor_columns M i j)" "num_columns (xor_columns M i j) = num_columns M"
    "bm_pivots (xor_columns M i j) = bm_pivots M"
    "cset (xor_columns M i j) k = (if k = i then sdiff (cset M i) (cset M j) else cset M k)"
    using assms set_update_subset_insert [of "bm_columns M" i]
    by (auto simp: columns_ok_def xor_columns_def num_columns_def cset_def)
qed

section \<open>The invariant of the reduction\<close>

text \<open>Before column \<open>j\<close> is reduced: the columns before it are reduced, the pivots are their lowest ones, and
  each is its original plus a sum of originals on its left; the other columns are still the originals.\<close>

definition reduced_upto :: "(nat \<Rightarrow> nat set) \<Rightarrow> nat \<Rightarrow> nat \<Rightarrow> boundary_matrix \<Rightarrow> bool" where
  "reduced_upto F n j M \<longleftrightarrow>
     columns_ok M \<and> num_columns M = n \<and> distinct (map fst (bm_pivots M)) \<and>
     (\<forall>p k. map_of (bm_pivots M) p = Some k \<longleftrightarrow> k < j \<and> low M k = Some p) \<and>
     (\<forall>k<j. \<exists>S. S \<subseteq> {..<k} \<and> cset M k = csum F (insert k S)) \<and>
     (\<forall>k. j \<le> k \<longrightarrow> k < n \<longrightarrow> cset M k = F k)"

text \<open>The same while column \<open>j\<close> is worked on.\<close>

definition reducing :: "(nat \<Rightarrow> nat set) \<Rightarrow> nat \<Rightarrow> nat \<Rightarrow> boundary_matrix \<Rightarrow> bool" where
  "reducing F n j M \<longleftrightarrow>
     columns_ok M \<and> num_columns M = n \<and> distinct (map fst (bm_pivots M)) \<and>
     (\<forall>p k. map_of (bm_pivots M) p = Some k \<longleftrightarrow> k < j \<and> low M k = Some p) \<and>
     (\<forall>k\<le>j. \<exists>S. S \<subseteq> {..<k} \<and> cset M k = csum F (insert k S)) \<and>
     (\<forall>k. j < k \<longrightarrow> k < n \<longrightarrow> cset M k = F k)"

lemma reducing_start: "reduced_upto F n j M \<Longrightarrow> j < n \<Longrightarrow> reducing F n j M"
  unfolding reduced_upto_def reducing_def
  by (metis csum_singleton empty_subsetI le_eq_less_or_eq less_imp_le_nat)

lemma csum_insert_step:
  assumes "S \<subseteq> {..<j}" and "S' \<subseteq> {..<k}" and "k < j"
  shows "\<exists>T. T \<subseteq> {..<j} \<and> sdiff (csum F (insert j S)) (csum F (insert k S')) = csum F (insert j T)"
proof (intro exI conjI)
  let ?T = "sdiff S (insert k S')"
  have fin: "finite S" "finite S'" using assms(1,2) finite_subset by blast+
  show "?T \<subseteq> {..<j}" using assms by (auto simp: sdiff_def)
  have "j \<notin> S" "j \<notin> insert k S'" using assms by auto
  then have "sdiff (insert j S) (insert k S') = insert j ?T" by (auto simp: sdiff_def)
  with fin show "sdiff (csum F (insert j S)) (csum F (insert k S')) = csum F (insert j ?T)"
    by (metis csum_sdiff finite_insert)
qed

lemma low_Some_Max: "low M k = Some p \<Longrightarrow> cset M k \<noteq> {} \<and> p = Max (cset M k)"
  by (auto simp: low_def split: if_split_asm)

text \<open>Adding a column with the same lowest one makes the lowest one smaller.\<close>

lemma low_decreases:
  assumes "A \<noteq> {}" "B \<noteq> {}" "finite A" "finite B" "Max A = Max B" and "sdiff A B \<noteq> {}"
  shows "Max (sdiff A B) < Max A"
proof -
  have "x < Max A" if "x \<in> sdiff A B" for x
  proof -
    have "x \<in> A \<or> x \<in> B" using that by (auto simp: sdiff_def)
    then have "x \<le> Max A" using assms(3-5) Max_ge [of A x] Max_ge [of B x] by auto
    moreover have "Max A \<in> A" "Max A \<in> B" using assms(1-5) Max_in [of A] Max_in [of B] by auto
    then have "x \<noteq> Max A" using that by (auto simp: sdiff_def)
    ultimately show ?thesis by simp
  qed
  then show ?thesis using assms by simp
qed

lemma reducing_xor:
  assumes "reducing F n j M" and "j < n" and "low M j = Some p" and "map_of (bm_pivots M) p = Some k"
  shows "reducing F n j (xor_columns M j k) \<and>
    (\<forall>q. low (xor_columns M j k) j = Some q \<longrightarrow> q < p)"
proof -
  have inv: "columns_ok M" "num_columns M = n" "distinct (map fst (bm_pivots M))"
    "\<And>p k. map_of (bm_pivots M) p = Some k \<longleftrightarrow> k < j \<and> low M k = Some p"
    "\<And>k. k \<le> j \<Longrightarrow> \<exists>S. S \<subseteq> {..<k} \<and> cset M k = csum F (insert k S)"
    "\<And>k. j < k \<Longrightarrow> k < n \<Longrightarrow> cset M k = F k"
    using assms(1) by (auto simp: reducing_def)
  have k: "k < j" "low M k = Some p" using inv(4) assms(4) by auto
  note x = xor_columns_eq [OF inv(1), of j k]
  have x': "columns_ok (xor_columns M j k)" "num_columns (xor_columns M j k) = n"
    "bm_pivots (xor_columns M j k) = bm_pivots M"
    "\<And>i. cset (xor_columns M j k) i = (if i = j then sdiff (cset M j) (cset M k) else cset M i)"
    using x k assms(2) inv(2) by simp_all
  have lows: "low (xor_columns M j k) i = low M i" if "i \<noteq> j" for i
    using that by (simp add: low_def x'(4))
  have sums: "\<exists>S. S \<subseteq> {..<i} \<and> cset (xor_columns M j k) i = csum F (insert i S)" if i: "i \<le> j" for i
  proof (cases "i = j")
    case True
    obtain S S' where "S \<subseteq> {..<j}" "cset M j = csum F (insert j S)" "S' \<subseteq> {..<k}" "cset M k = csum F (insert k S')"
      using inv(5) [of j] inv(5) [of k] k(1) by auto
    with csum_insert_step [of S j S' k F] k(1) True show ?thesis by (auto simp: x'(4))
  next
    case False
    with inv(5) [OF i] show ?thesis by (simp add: x'(4))
  qed
  have "(map_of (bm_pivots M) q = Some i) = (i < j \<and> low (xor_columns M j k) i = Some q)" for q i
    using inv(4) lows [of i] by auto
  then have "reducing F n j (xor_columns M j k)"
    unfolding reducing_def x'(1-3) using inv(3,6) sums x' by auto
  moreover have "q < p" if "low (xor_columns M j k) j = Some q" for q
    using low_decreases [of "cset M j" "cset M k"] low_Some_Max [OF assms(3)] low_Some_Max [OF k(2)]
      low_Some_Max [OF that] by (simp add: x'(4))
  ultimately show ?thesis by blast
qed

lemma reducing_finish:
  assumes "reducing F n j M" and "j < n"
    and "low M j = None \<or> (\<exists>p. low M j = Some p \<and> map_of (bm_pivots M) p = None)"
  shows "reduced_upto F n (Suc j) (update_pivot M j)"
proof -
  have inv: "columns_ok M" "num_columns M = n" "distinct (map fst (bm_pivots M))"
    "\<And>p k. map_of (bm_pivots M) p = Some k \<longleftrightarrow> k < j \<and> low M k = Some p"
    "\<And>k. k \<le> j \<Longrightarrow> \<exists>S. S \<subseteq> {..<k} \<and> cset M k = csum F (insert k S)"
    "\<And>k. j < k \<Longrightarrow> k < n \<Longrightarrow> cset M k = F k"
    using assms(1) by (auto simp: reducing_def)
  have lf: "lowest_face M j = low M j" using lowest_face_low inv(1,2) assms(2) by simp
  have same: "bm_columns (update_pivot M j) = bm_columns M"
    by (simp add: update_pivot_def split: option.split)
  then have cs: "cset (update_pivot M j) k = cset M k" for k by (simp add: cset_def)
  have eqs: "columns_ok (update_pivot M j) = columns_ok M" "num_columns (update_pivot M j) = num_columns M"
    "cset (update_pivot M j) = cset M" "low (update_pivot M j) = low M"
    using same cs by (simp_all add: columns_ok_def num_columns_def fun_eq_iff low_def)
  have d: "distinct (map fst (bm_pivots (update_pivot M j)))"
    using inv(3) by (simp add: update_pivot_def distinct_update split: option.split)
  have "map_of (bm_pivots (update_pivot M j)) p = Some k \<longleftrightarrow> k < Suc j \<and> low M k = Some p" for p k
  proof (cases "low M j")
    case None
    then show ?thesis using inv(4) [of p k] by (auto simp: update_pivot_def lf less_Suc_eq)
  next
    case (Some q)
    then have none: "map_of (bm_pivots M) q = None" using assms(3) by simp
    then have fresh: "\<not> (i < j \<and> low M i = Some q)" for i using inv(4) [of q i] by simp
    have upd: "map_of (bm_pivots (update_pivot M j)) p = (if p = q then Some j else map_of (bm_pivots M) p)"
      using Some by (simp add: update_pivot_def lf update_conv')
    show ?thesis
    proof (cases "p = q")
      case True
      with upd Some fresh [of k] show ?thesis by (auto simp: less_Suc_eq)
    next
      case False
      with upd Some inv(4) [of p k] show ?thesis by (auto simp: less_Suc_eq)
    qed
  qed
  then show ?thesis
    unfolding reduced_upto_def eqs using inv d by (auto simp: less_Suc_eq_le)
qed

lemma reduce_column_ends:
  assumes "reducing F n j M" and "j < n"
  shows "\<exists>M'. reduce_column j M = Some M' \<and> reduced_upto F n (Suc j) M'"
  using assms(1)
proof (induction "case low M j of None \<Rightarrow> 0 | Some p \<Rightarrow> Suc p" arbitrary: M rule: less_induct)
  case (less M)
  have lf: "lowest_face M j = low M j"
    using lowest_face_low less.prems assms(2) by (simp add: reducing_def)
  show ?case
  proof (cases "low M j")
    case None
    then have "update_pivot M j = M" by (simp add: update_pivot_def lf)
    with None lf reducing_finish [OF less.prems assms(2)] show ?thesis by (simp add: reduce_column.simps)
  next
    case (Some p)
    show ?thesis
    proof (cases "map_of (bm_pivots M) p")
      case None
      with Some lf reducing_finish [OF less.prems assms(2)] show ?thesis
        by (subst reduce_column.simps) (simp add: find_column_with_pivot_def)
    next
      case (Some k)
      note step = reducing_xor [OF less.prems assms(2) \<open>low M j = Some p\<close> Some]
      then have "(case low (xor_columns M j k) j of None \<Rightarrow> 0 | Some p \<Rightarrow> Suc p) < (case low M j of None \<Rightarrow> 0 | Some p \<Rightarrow> Suc p)"
        using \<open>low M j = Some p\<close> by (auto split: option.split)
      with less.hyps step have "\<exists>M'. reduce_column j (xor_columns M j k) = Some M' \<and> reduced_upto F n (Suc j) M'" by blast
      with Some \<open>low M j = Some p\<close> lf show ?thesis
        by (subst reduce_column.simps) (simp add: find_column_with_pivot_def)
    qed
  qed
qed

lemma reduce_columns_end:
  assumes "reduced_upto F n j M" and "j + m = n"
  shows "\<exists>M'. reduce_columns [j..<n] M = Some M' \<and> reduced_upto F n n M'"
  using assms
proof (induction m arbitrary: j M)
  case (Suc m)
  then have j: "j < n" by simp
  obtain M1 where "reduce_column j M = Some M1" "reduced_upto F n (Suc j) M1"
    using reduce_column_ends [OF reducing_start [OF Suc.prems(1) j] j] by blast
  with Suc.IH [of "Suc j" M1] Suc.prems(2) show ?case by (simp add: upt_conv_Cons [OF j])
qed simp

lemma reduced_start:
  assumes "columns_ok M"
  shows "reduced_upto (cset M) (num_columns M) 0 (clear_pivots M)"
  using assms
  by (auto simp: reduced_upto_def clear_pivots_def columns_ok_def num_columns_def cset_def)

lemma extract_pairs_eq:
  assumes "distinct (map snd pivots)"
  shows "extract_pairs pivots = map (\<lambda>(p, k). (k, p)) pivots"
proof -
  have upd: "AList.update k p xs = xs @ [(k, p)]" if "k \<notin> fst ` set xs" for k p and xs :: "(nat \<times> nat) list"
    using that by (induction xs) auto
  have "foldl (\<lambda>pairs (p, k). AList.update k p pairs) acc pivots = acc @ map (\<lambda>(p, k). (k, p)) pivots"
    if "fst ` set acc \<inter> snd ` set pivots = {}" for acc
    using assms that
  proof (induction pivots arbitrary: acc)
    case (Cons a pivots)
    obtain p k where a: "a = (p, k)" by (cases a)
    have "k \<notin> fst ` set acc" using Cons.prems(2) a by auto
    moreover have "fst ` set (acc @ [(k, p)]) \<inter> snd ` set pivots = {}"
      using Cons.prems a by auto
    ultimately show ?case using Cons a by (simp add: upd)
  qed simp
  from this [of "[]"] show ?thesis by (simp add: extract_pairs_def)
qed

text \<open>What a reduction is, for the original columns \<open>F\<close>: the columns are sums of an original and originals
  on its left, and no two columns that are not zero have the same lowest one.\<close>

definition is_reduction :: "(nat \<Rightarrow> nat set) \<Rightarrow> nat \<Rightarrow> boundary_matrix \<Rightarrow> bool" where
  "is_reduction F n R \<longleftrightarrow> num_columns R = n \<and> columns_ok R \<and>
     (\<forall>k. k < n \<longrightarrow> (\<exists>S. S \<subseteq> {..<k} \<and> cset R k = csum F (insert k S))) \<and>
     (\<forall>j k p. j < n \<longrightarrow> k < n \<longrightarrow> low R j = Some p \<longrightarrow> low R k = Some p \<longrightarrow> j = k)"

lemma reduction_result:
  assumes "columns_ok M"
  shows "\<exists>R. reduce_boundary_matrix M = Some R \<and> is_reduction (cset M) (num_columns M) (rr_matrix R) \<and>
    distinct (map fst (rr_pairs R)) \<and> distinct (map snd (rr_pairs R)) \<and>
    set (rr_pairs R) = {(k, p). k < num_columns M \<and> low (rr_matrix R) k = Some p} \<and>
    rr_unpaired R = filter (\<lambda>k. k \<notin> fst ` set (rr_pairs R) \<and> k \<notin> snd ` set (rr_pairs R)) [0..<num_columns M]"
proof -
  let ?n = "num_columns M"
  obtain M' where M': "reduce_columns [0..<?n] (clear_pivots M) = Some M'" "reduced_upto (cset M) ?n ?n M'"
    using reduce_columns_end [OF reduced_start [OF assms], of ?n] by auto
  have piv: "map_of (bm_pivots M') p = Some k \<longleftrightarrow> k < ?n \<and> low M' k = Some p" and d: "distinct (map fst (bm_pivots M'))" for p k
    using M'(2) by (simp_all add: reduced_upto_def)
  have mem: "(p, k) \<in> set (bm_pivots M') \<longleftrightarrow> k < ?n \<and> low M' k = Some p" for p k
    using piv [of p k] d by (metis map_of_eq_Some_iff)
  have inj: "j = k" if "j < ?n" "k < ?n" "low M' j = Some p" "low M' k = Some p" for j k p
    using that piv [of p j] piv [of p k] by simp
  have d2: "distinct (map snd (bm_pivots M'))"
  proof -
    have "inj_on snd (set (bm_pivots M'))" using mem by (auto simp: inj_on_def)
    moreover have "distinct (bm_pivots M')" using d by (simp add: distinct_map)
    ultimately show ?thesis by (simp add: distinct_map)
  qed
  have pairs: "extract_pairs (bm_pivots M') = map (\<lambda>(p, k). (k, p)) (bm_pivots M')"
    by (rule extract_pairs_eq [OF d2])
  define R where "R = extract_result ?n M'"
  have R: "reduce_boundary_matrix M = Some R" "rr_matrix R = M'" "rr_pairs R = map (\<lambda>(p, k). (k, p)) (bm_pivots M')"
    using M'(1) by (simp_all add: reduce_boundary_matrix_def Let_def R_def extract_result_def pairs)
  have "map fst (rr_pairs R) = map snd (bm_pivots M')" "map snd (rr_pairs R) = map fst (bm_pivots M')"
    by (simp_all add: R(3) comp_def case_prod_beta)
  moreover have "set (rr_pairs R) = {(k, p). k < ?n \<and> low (rr_matrix R) k = Some p}"
    unfolding R(2,3) using mem by (auto simp: image_iff)
  moreover have "rr_unpaired R = filter (\<lambda>k. k \<notin> fst ` set (rr_pairs R) \<and> k \<notin> snd ` set (rr_pairs R)) [0..<?n]"
    by (simp add: R_def extract_result_def Let_def)
  moreover have "is_reduction (cset M) ?n (rr_matrix R)"
    unfolding is_reduction_def R(2) using M'(2) inj by (auto simp: reduced_upto_def)
  ultimately show ?thesis using R(1) d d2 by auto
qed

text \<open>C21: The reduction ends on every matrix with sorted columns. In the reduced matrix every column is the
  original plus a sum of original columns on its left, no two nonzero columns have the same lowest one, and the
  pairs are exactly the nonzero columns with their lowest ones.\<close>

theorem reduction_correct:
  assumes "list_all (sorted_wrt (<)) (bm_columns M)"
  shows "\<exists>R. reduce_boundary_matrix M = Some R \<and> is_reduction (cset M) (num_columns M) (rr_matrix R) \<and>
    set (rr_pairs R) = {(k, p). k < num_columns M \<and> lowest_face (rr_matrix R) k = Some p}"
proof -
  have "columns_ok M" using assms by (simp add: columns_ok_def list_all_iff ssorted_def)
  from reduction_result [OF this] obtain R where R: "reduce_boundary_matrix M = Some R"
    "is_reduction (cset M) (num_columns M) (rr_matrix R)"
    "set (rr_pairs R) = {(k, p). k < num_columns M \<and> low (rr_matrix R) k = Some p}" by blast
  moreover have "lowest_face (rr_matrix R) k = low (rr_matrix R) k" if "k < num_columns M" for k
    using R(2) that lowest_face_low by (auto simp: is_reduction_def)
  ultimately show ?thesis by auto
qed

theorem reduction_correct_witness:
  "\<exists>R. reduce_boundary_matrix \<lparr>bm_columns = [[], [], [], [0, 1], [1, 2], [0, 2], [3, 4, 5]], bm_pivots = []\<rparr> = Some R"
  using reduction_correct [of "\<lparr>bm_columns = [[], [], [], [0, 1], [1, 2], [0, 2], [3, 4, 5]], bm_pivots = []\<rparr>"] by auto

section \<open>Births and deaths\<close>

text \<open>The original columns span no more than the reduced ones.\<close>

lemma reduction_spans:
  assumes "is_reduction F n R" and "i \<le> n" and "S \<subseteq> {..<i}"
  shows "\<exists>T. T \<subseteq> {..<i} \<and> csum F S = csum (cset R) T"
  using assms(2,3)
proof (induction i arbitrary: S)
  case (Suc i)
  show ?case
  proof (cases "i \<in> S")
    case False
    with Suc.prems(2) have "S \<subseteq> {..<i}" by (auto simp: less_Suc_eq)
    with Suc.IH [of S] Suc.prems show ?thesis by (meson Suc_leD lessThan_subset_iff le_SucI order_refl order_trans)
  next
    case True
    define S0 where "S0 = S - {i}"
    have S0: "S0 \<subseteq> {..<i}" "S = insert i S0" using Suc.prems(2) True by (auto simp: S0_def less_Suc_eq)
    obtain S' where S': "S' \<subseteq> {..<i}" "cset R i = csum F (insert i S')"
      using assms(1) Suc.prems(1) by (auto simp: is_reduction_def Suc_le_eq)
    have fin: "finite S0" "finite S'" using S0 S' finite_subset by blast+
    have notin: "i \<notin> S0" "i \<notin> S'" using S0 S' by auto
    obtain T where T: "T \<subseteq> {..<i}" "csum F (sdiff S' S0) = csum (cset R) T"
      using Suc.IH [of "sdiff S' S0"] S0 S' Suc.prems(1) by (auto simp: sdiff_def)
    have "csum F S = sdiff (cset R i) (csum F (sdiff S' S0))"
      using fin notin by (auto simp: S0(2) S'(2) csum_insert csum_sdiff set_eq_iff)
    also have "\<dots> = csum (cset R) (insert i T)"
      using T finite_subset [OF T(1)] by (subst csum_insert) auto
    finally show ?thesis using T(1) by (intro exI [of _ "insert i T"]) auto
  qed
qed simp

text \<open>The lowest one of a sum of reduced columns is the lowest one of a summand.\<close>

lemma csum_low:
  assumes "is_reduction F n R" and "T \<subseteq> {..<n}" and "csum (cset R) T \<noteq> {}"
  shows "\<exists>k. k \<in> T \<and> low R k = Some (Max (csum (cset R) T))"
proof -
  define K where "K = {k \<in> T. cset R k \<noteq> {}}"
  have finT: "finite T" using assms(2) finite_subset by blast
  have K: "finite K" "K \<noteq> {}"
  proof -
    show "finite K" using finT by (simp add: K_def)
    obtain x where "x \<in> csum (cset R) T" using assms(3) by blast
    then have "odd (card {k \<in> T. x \<in> cset R k})" by (simp add: csum_def)
    then have "{k \<in> T. x \<in> cset R k} \<noteq> {}" by (metis card.empty even_zero)
    then show "K \<noteq> {}" by (auto simp: K_def)
  qed
  define m where "m = Max ((\<lambda>k. Max (cset R k)) ` K)"
  have "m \<in> (\<lambda>k. Max (cset R k)) ` K" unfolding m_def using K by (intro Max_in) auto
  then obtain k0 where k0: "k0 \<in> K" "m = Max (cset R k0)" by blast
  have low0: "low R k0 = Some m" using k0 by (simp add: low_def K_def)
  have le: "Max (cset R k) \<le> m" if "k \<in> K" for k
    unfolding m_def using that K by (intro Max_ge) auto
  have bound: "x \<le> m" if "k \<in> T" "x \<in> cset R k" for k x
    using that le [of k] Max_ge [of "cset R k" x] by (auto simp: K_def)
  have only: "{k \<in> T. m \<in> cset R k} = {k0}"
  proof (intro set_eqI iffI)
    fix k assume "k \<in> {k \<in> T. m \<in> cset R k}"
    then have k: "k \<in> T" "m \<in> cset R k" by auto
    then have "Max (cset R k) \<le> m" by (intro le) (auto simp: K_def)
    moreover have "m \<le> Max (cset R k)" using k(2) by simp
    ultimately have "Max (cset R k) = m" by simp
    then have "low R k = Some m" using k by (auto simp: low_def)
    with low0 k k0 assms(1,2) show "k \<in> {k0}" unfolding is_reduction_def K_def by blast
  next
    fix k assume "k \<in> {k0}"
    then show "k \<in> {k \<in> T. m \<in> cset R k}" using k0 Max_in [of "cset R k0"] by (auto simp: K_def)
  qed
  then have "m \<in> csum (cset R) T" by (simp add: csum_def)
  moreover have "x \<le> m" if "x \<in> csum (cset R) T" for x
  proof -
    have "odd (card {k \<in> T. x \<in> cset R k})" using that by (simp add: csum_def)
    then have "{k \<in> T. x \<in> cset R k} \<noteq> {}" by (metis card.empty even_zero)
    then show ?thesis using bound by blast
  qed
  moreover have "finite (csum (cset R) T)"
    by (rule finite_subset [of _ "{..m}"]) (use calculation(2) in auto)
  ultimately have "Max (csum (cset R) T) = m" by (intro Max_eqI)
  with low0 k0 show ?thesis by (auto simp: K_def)
qed

text \<open>When the boundary of a boundary vanishes, the column of a lowest one is zero.\<close>

lemma birth_column_zero:
  assumes red: "is_reduction F n R" and dd: "\<And>k. k < n \<Longrightarrow> F k \<subseteq> {..<n} \<and> csum F (F k) = {}"
    and j: "j < n" "low R j = Some i"
  shows "i < n \<and> cset R i = {}"
proof -
  obtain S where S: "S \<subseteq> {..<j}" "cset R j = csum F (insert j S)" using red j(1) by (auto simp: is_reduction_def)
  let ?A = "cset R j"
  have A: "?A \<noteq> {}" "i = Max ?A" using low_Some_Max [OF j(2)] by auto
  have finS: "finite (insert j S)" using S(1) finite_subset by blast
  have sub: "insert j S \<subseteq> {..<n}" using S(1) j(1) by auto
  have "?A \<subseteq> {..<n}"
  proof
    fix x assume "x \<in> ?A"
    then have "odd (card {k \<in> insert j S. x \<in> F k})" by (simp add: S(2) csum_def)
    then have "{k \<in> insert j S. x \<in> F k} \<noteq> {}" by (metis card.empty even_zero)
    then show "x \<in> {..<n}" using dd sub by blast
  qed
  then have i: "i \<in> ?A" "i < n" using A Max_in [of ?A] by auto
  have "csum F ?A = csum (\<lambda>k. csum F (F k)) (insert j S)"
    unfolding S(2) using finS dd sub by (subst csum_csum) (auto intro: finite_subset [OF _ finite_lessThan [of n]])
  also have "\<dots> = csum (\<lambda>k. {}) (insert j S)" using dd sub by (intro csum_cong) auto
  finally have zero: "csum F ?A = {}" by (simp add: csum_def)
  define B where "B = ?A - {i}"
  have "x \<le> i" if "x \<in> ?A" for x using that A(2) by simp
  then have B: "B \<subseteq> {..<i}" "?A = insert i B" "finite B" "i \<notin> B"
    using i(1) by (auto simp: B_def nless_le)
  have "csum F (insert i B) = {}" using zero B(2) by (rule subst [rotated])
  then have "sdiff (F i) (csum F B) = {}" using B(3,4) by (simp add: csum_insert)
  then have Fi: "F i = csum F B" unfolding sdiff_def by blast
  obtain S' where S': "S' \<subseteq> {..<i}" "cset R i = csum F (insert i S')" using red i(2) by (auto simp: is_reduction_def)
  have "finite S'" "i \<notin> S'" using S'(1) finite_subset by auto
  then have Ri: "cset R i = csum F (sdiff B S')"
    using B(3) by (simp add: S'(2) csum_insert csum_sdiff Fi)
  obtain T where T: "T \<subseteq> {..<i}" "cset R i = csum (cset R) T"
    using reduction_spans [OF red, of i "sdiff B S'"] i(2) B(1) S'(1) Ri by (auto simp: sdiff_def)
  have "cset R i = {}"
  proof (rule ccontr)
    assume ne: "cset R i \<noteq> {}"
    define x where "x = Max (cset R i)"
    have lowi: "low R i = Some x" using ne by (simp add: low_def x_def)
    have sub: "T \<subseteq> {..<n}" using T(1) i(2) by auto
    have ne2: "csum (cset R) T \<noteq> {}" unfolding T(2) [symmetric] by (rule ne)
    obtain k where k: "k \<in> T" "low R k = Some x"
      using csum_low [OF red sub ne2] unfolding T(2) [symmetric] x_def by blast
    have "k = i" using red i(2) sub lowi k unfolding is_reduction_def by blast
    with k(1) T(1) show False by auto
  qed
  with i show ?thesis by simp
qed

section \<open>Boundary matrices of complexes\<close>

lemma from_complex_columns:
  assumes "complex_ok c"
  shows "num_columns (from_complex c) = num_simplices c" and "columns_ok (from_complex c)"
    and "k < num_simplices c \<Longrightarrow> cset (from_complex c) k = set (get_face_ids c k)"
proof -
  have c: "indexed c" using assms by (simp add: complex_ok_def)
  show "num_columns (from_complex c) = num_simplices c"
    by (simp add: num_columns_def from_complex_def num_simplices_def)
  have ids: "sx_id (sc_simplices c ! k) = k" if "k < num_simplices c" for k
    using c that by (simp add: indexed_def num_simplices_def)
  show "k < num_simplices c \<Longrightarrow> cset (from_complex c) k = set (get_face_ids c k)"
    using ids by (simp add: cset_def from_complex_def num_simplices_def)
  have "distinct (get_face_ids c k)" if k: "k < num_simplices c" for k
  proof -
    define s where "s = sc_simplices c ! k"
    have s: "simplex_ok s" using c k by (simp add: indexed_def num_simplices_def s_def)
    have inj: "f = g" if "sc_index c f = Some j" "sc_index c g = Some j" for f g j
      using c that by (auto simp: indexed_def)
    have "distinct (faces s)"
    proof -
      have so: "sorted (sx_vertices s)" "distinct (sx_vertices s)" using s by (simp_all add: simplex_ok_def)
      have "i = i'" if "i < length (sx_vertices s)" "i' < length (sx_vertices s)"
        "remove_at i (sx_vertices s) = remove_at i' (sx_vertices s)" for i i'
      proof -
        have "set (sx_vertices s) - {sx_vertices s ! i} = set (sx_vertices s) - {sx_vertices s ! i'}"
          using remove_at_props(3) [OF so that(1)] remove_at_props(3) [OF so that(2)] that(3) by simp
        moreover have "sx_vertices s ! i \<in> set (sx_vertices s)" "sx_vertices s ! i' \<in> set (sx_vertices s)"
          using that by auto
        ultimately have "sx_vertices s ! i = sx_vertices s ! i'" by blast
        with so(2) that show ?thesis by (simp add: nth_eq_iff_index_eq)
      qed
      then show ?thesis by (auto simp: faces_def distinct_map inj_on_def)
    qed
    then have "distinct (List.map_filter (sc_index c) fs)" if "distinct fs" for fs
      using that
    proof (induction fs)
      case (Cons f fs)
      then show ?case
        by (auto simp: List.map_filter_simps set_map_filter split: option.split) (metis inj)
    qed (simp add: List.map_filter_simps)
    with \<open>distinct (faces s)\<close> show ?thesis
      using k by (simp add: get_face_ids_def get_simplex_def vget_def num_simplices_def s_def [symmetric]
          get_simplex_id_def [abs_def])
  qed
  then show "columns_ok (from_complex c)"
    using ids by (auto simp: columns_ok_def from_complex_def num_simplices_def in_set_conv_nth ssorted_def
        strict_sorted_iff)
qed

lemma complex_boundary:
  assumes "complex_ok c" and "k < num_simplices c"
  defines "F \<equiv> cset (from_complex c)"
  shows "F k \<subseteq> {..<num_simplices c} \<and> csum F (F k) = {}"
proof -
  have F: "F j = set (get_face_ids c j)" if "j < num_simplices c" for j
    unfolding F_def by (rule from_complex_columns(3) [OF assms(1) that])
  have sub: "F k \<subseteq> {..<num_simplices c}"
    using set_face_ids [OF assms(1,2)] F [OF assms(2)] by (auto simp: face_of_def)
  have "{j \<in> F k. x \<in> F j} = {j. j \<in> set (get_face_ids c k) \<and> x \<in> set (get_face_ids c j)}" for x
    using sub F by (auto simp: assms(2))
  then have "csum F (F k) = {}"
    using boundary_even [OF assms(1), of k] by (simp add: csum_def)
  with sub show ?thesis by simp
qed

text \<open>C20: The pairing of a complex is a matching. For the boundary matrix of any complex the code builds,
  the reduction ends, and every simplex is exactly one of: the death of one pair, the birth of one pair, or
  unpaired. (A birth is the lowest one of a reduced column; its own column is zero, because the boundary of a
  boundary vanishes.)\<close>

theorem pairing_is_matching:
  assumes "proper_adds adds"
  defines "c \<equiv> sort_by_filtration (add_all adds)"
  shows "\<exists>R. reduce_boundary_matrix (from_complex c) = Some R \<and>
    distinct (map fst (rr_pairs R) @ map snd (rr_pairs R) @ rr_unpaired R) \<and>
    set (map fst (rr_pairs R) @ map snd (rr_pairs R) @ rr_unpaired R) = {..<num_simplices c}"
proof -
  have ok: "complex_ok c" unfolding c_def by (rule built_ok [OF assms(1)])
  let ?n = "num_simplices c" and ?F = "cset (from_complex c)"
  obtain R where R: "reduce_boundary_matrix (from_complex c) = Some R" "is_reduction ?F ?n (rr_matrix R)"
    "distinct (map fst (rr_pairs R))" "distinct (map snd (rr_pairs R))"
    "set (rr_pairs R) = {(k, p). k < ?n \<and> low (rr_matrix R) k = Some p}"
    "rr_unpaired R = filter (\<lambda>k. k \<notin> fst ` set (rr_pairs R) \<and> k \<notin> snd ` set (rr_pairs R)) [0..<?n]"
    using reduction_result [OF from_complex_columns(2) [OF ok]] from_complex_columns(1) [OF ok] by auto
  have birth: "p < ?n \<and> cset (rr_matrix R) p = {}" if "(k, p) \<in> set (rr_pairs R)" for k p
    using birth_column_zero [OF R(2) complex_boundary [OF ok]] that R(5) by auto
  have death: "k < ?n \<and> cset (rr_matrix R) k \<noteq> {}" if "(k, p) \<in> set (rr_pairs R)" for k p
    using that R(5) by (auto simp: low_def)
  have "fst ` set (rr_pairs R) \<inter> snd ` set (rr_pairs R) = {}"
    using birth death by fastforce
  moreover have "fst ` set (rr_pairs R) \<union> snd ` set (rr_pairs R) \<subseteq> {..<?n}"
    using birth death by fastforce
  ultimately show ?thesis
    using R(1,3,4) by (intro exI [of _ R]) (auto simp: R(6))
qed

theorem pairing_is_matching_witness:
  "\<exists>R. reduce_boundary_matrix (from_complex (sort_by_filtration (add_all [([0, 1, 2], 5)]))) = Some R \<and>
    distinct (map fst (rr_pairs R) @ map snd (rr_pairs R))"
  using pairing_is_matching [of "[([0, 1, 2], 5)]"] by (auto simp: proper_adds_def)

text \<open>With simplices of one dimension, a birth comes before the death it is paired with.\<close>

lemma birth_before_death:
  assumes "proper_adds adds" and "list_all (\<lambda>(vertices, weight). length vertices = Suc d \<and> 0 \<le> weight) adds"
    and "reduce_boundary_matrix (from_complex (sort_by_filtration (add_all adds))) = Some R" and "(k, p) \<in> set (rr_pairs R)"
  shows "p < k"
proof -
  let ?c = "sort_by_filtration (add_all adds)"
  have ok: "complex_ok ?c" by (rule built_ok [OF assms(1)])
  obtain R' where R': "reduce_boundary_matrix (from_complex ?c) = Some R'"
    "is_reduction (cset (from_complex ?c)) (num_simplices ?c) (rr_matrix R')"
    "set (rr_pairs R') = {(k, p). k < num_simplices ?c \<and> low (rr_matrix R') k = Some p}"
    using reduction_result [OF from_complex_columns(2) [OF ok]] from_complex_columns(1) [OF ok] by auto
  with assms(3,4) have k: "k < num_simplices ?c" "low (rr_matrix R) k = Some p"
    and red: "is_reduction (cset (from_complex ?c)) (num_simplices ?c) (rr_matrix R)" by auto
  obtain S where S: "S \<subseteq> {..<k}" "cset (rr_matrix R) k = csum (cset (from_complex ?c)) (insert k S)"
    using red k(1) by (auto simp: is_reduction_def)
  have "p \<in> cset (rr_matrix R) k" using low_Some_Max [OF k(2)] Max_in [of "cset (rr_matrix R) k"] by simp
  then have "odd (card {i \<in> insert k S. p \<in> cset (from_complex ?c) i})" by (simp add: S(2) csum_def)
  then have "{i \<in> insert k S. p \<in> cset (from_complex ?c) i} \<noteq> {}" by (metis card.empty even_zero)
  then obtain i where i: "i \<in> insert k S" "p \<in> cset (from_complex ?c) i" by blast
  then have "i \<le> k" using S(1) by auto
  then have "p < i" using faces_come_first [OF assms(1,2)] from_complex_columns(3) [OF ok, of i] k(1) i(2) by auto
  with \<open>i \<le> k\<close> show ?thesis by simp
qed

section \<open>Clearing rows changes the pairing\<close>

lemma add_vertex: "add_simplex_with_faces [v] w c = add_simplex [v] w c"
  by (simp add: add_simplex_with_faces.simps [of "[v]"] faces_def simplex_new_def)

lemma add_edge:
  assumes "a < b"
  shows "add_simplex_with_faces [a, b] w c =
    add_simplex [a, b] w (snd (add_simplex [a] 0 (snd (add_simplex [b] 0 c))))"
proof -
  have "faces (simplex_new 0 [a, b] w) = [[b], [a]]"
    using assms by (simp add: faces_def simplex_new_def remove_at_def upt_rec)
  then show ?thesis by (simp add: add_simplex_with_faces.simps [of "[a, b]"] add_vertex)
qed

text \<open>The simplices of the path \<open>0 - 2 - 3\<close> in the order in which they are added.\<close>

definition path_adds :: "(nat list \<times> f64) list" where
  "path_adds = [([0], 0), ([2, 3], 1), ([0, 2], 2)]"

definition path_vertex :: "nat \<Rightarrow> nat \<Rightarrow> simplex" where
  "path_vertex i v = \<lparr>sx_id = i, sx_vertices = [v], sx_dimension = 0, sx_weight = 0\<rparr>"

definition path_edge :: "nat \<Rightarrow> nat \<Rightarrow> nat \<Rightarrow> f64 \<Rightarrow> simplex" where
  "path_edge i u v w = \<lparr>sx_id = i, sx_vertices = [u, v], sx_dimension = 1, sx_weight = w\<rparr>"

lemma path_added:
  "add_all path_adds = \<lparr>sc_simplices = [path_vertex 0 0, path_vertex 1 3, path_vertex 2 2, path_edge 3 2 3 1, path_edge 4 0 2 2],
     sc_index = [[0] \<mapsto> 0, [3] \<mapsto> 1, [2] \<mapsto> 2, [2, 3] \<mapsto> 3, [0, 2] \<mapsto> 4], sc_next_id = 5\<rparr>"
proof -
  have 1: "add_simplex [0] 0 complex_new = (0, \<lparr>sc_simplices = [path_vertex 0 0], sc_index = [[0] \<mapsto> 0], sc_next_id = 1\<rparr>)"
    by (simp add: complex_new_def add_simplex_def simplex_new_def path_vertex_def Let_def)
  have 2: "snd (add_simplex_with_faces [2, 3] 1 \<lparr>sc_simplices = [path_vertex 0 0], sc_index = [[0] \<mapsto> 0], sc_next_id = 1\<rparr>) =
    \<lparr>sc_simplices = [path_vertex 0 0, path_vertex 1 3, path_vertex 2 2, path_edge 3 2 3 1],
     sc_index = [[0] \<mapsto> 0, [3] \<mapsto> 1, [2] \<mapsto> 2, [2, 3] \<mapsto> 3], sc_next_id = 4\<rparr>"
    by (simp add: add_edge add_simplex_def simplex_new_def path_vertex_def path_edge_def Let_def)
      (simp add: eval_nat_numeral)
  have 3: "snd (add_simplex_with_faces [0, 2] 2
      \<lparr>sc_simplices = [path_vertex 0 0, path_vertex 1 3, path_vertex 2 2, path_edge 3 2 3 1],
       sc_index = [[0] \<mapsto> 0, [3] \<mapsto> 1, [2] \<mapsto> 2, [2, 3] \<mapsto> 3], sc_next_id = 4\<rparr>) =
    \<lparr>sc_simplices = [path_vertex 0 0, path_vertex 1 3, path_vertex 2 2, path_edge 3 2 3 1, path_edge 4 0 2 2],
     sc_index = [[0] \<mapsto> 0, [3] \<mapsto> 1, [2] \<mapsto> 2, [2, 3] \<mapsto> 3, [0, 2] \<mapsto> 4], sc_next_id = 5\<rparr>"
    by (simp add: add_edge add_simplex_def simplex_new_def path_edge_def Let_def)
  show ?thesis
    unfolding add_all_def path_adds_def foldl.simps prod.case add_vertex 1 snd_conv 2 3 by (rule refl)
qed

lemma path_sorted:
  "sc_simplices (sort_by_filtration (add_all path_adds)) =
     [path_vertex 0 0, path_vertex 1 3, path_vertex 2 2, path_edge 3 2 3 1, path_edge 4 0 2 2]"
  "sc_index (sort_by_filtration (add_all path_adds)) = [[0] \<mapsto> 0, [3] \<mapsto> 1, [2] \<mapsto> 2, [2, 3] \<mapsto> 3, [0, 2] \<mapsto> 4]"
proof -
  have "sort_key filtration_key [path_vertex 0 0, path_vertex 1 3, path_vertex 2 2, path_edge 3 2 3 1, path_edge 4 0 2 2] =
      [path_vertex 0 0, path_vertex 1 3, path_vertex 2 2, path_edge 3 2 3 1, path_edge 4 0 2 2]"
    by (simp add: filtration_key_def path_vertex_def path_edge_def)
  then show "sc_simplices (sort_by_filtration (add_all path_adds)) =
     [path_vertex 0 0, path_vertex 1 3, path_vertex 2 2, path_edge 3 2 3 1, path_edge 4 0 2 2]"
  "sc_index (sort_by_filtration (add_all path_adds)) = [[0] \<mapsto> 0, [3] \<mapsto> 1, [2] \<mapsto> 2, [2, 3] \<mapsto> 3, [0, 2] \<mapsto> 4]"
    unfolding path_added sort_by_filtration_def simplicial_complex.select_convs
    by (simp_all only:) (simp_all add: path_vertex_def path_edge_def eval_nat_numeral)
qed

lemma path_matrix:
  "from_complex (sort_by_filtration (add_all path_adds)) =
   \<lparr>bm_columns = [[], [], [], [1, 2], [0, 2]], bm_pivots = []\<rparr>"
  by (simp add: from_complex_def path_sorted get_face_ids_def get_simplex_def path_vertex_def path_edge_def
      faces_def remove_at_def upt_rec List.map_filter_simps get_simplex_id_def)

lemmas matrix_defs =
  num_columns_def get_column_def last_of_def lowest_face_def find_column_with_pivot_def xor_columns_def
  update_pivot_def clear_pivots_def extract_result_def extract_pairs_def upt_rec

text \<open>Reduction with clearing pairs differently. For the path with the edges \<open>{2, 3}\<close> and \<open>{0, 2}\<close>,
  added in this order after the vertex \<open>0\<close>, the reduction leaves the oldest vertex unpaired, as the oldest
  component never dies; with clearing, which deletes the rows of earlier pivots instead of adding their
  columns, the second edge is paired with the oldest vertex.\<close>

theorem clearing_changes_pairs:
  "map_option rr_unpaired (reduce_boundary_matrix (from_complex (sort_by_filtration (add_all path_adds)))) = Some [0] \<and>
   map_option (map_sum id rr_unpaired) (reduce_with_clearing (from_complex (sort_by_filtration (add_all path_adds)))) =
     Some (Inr [1])"
proof
  show "map_option rr_unpaired (reduce_boundary_matrix (from_complex (sort_by_filtration (add_all path_adds)))) = Some [0]"
    unfolding path_matrix by (simp add: matrix_defs reduce_boundary_matrix_def reduce_column.simps)
  show "map_option (map_sum id rr_unpaired) (reduce_with_clearing (from_complex (sort_by_filtration (add_all path_adds)))) =
     Some (Inr [1])"
    unfolding path_matrix
    by (simp add: matrix_defs reduce_with_clearing_def reduce_clearing.simps filter_cleared_def)
qed

end
