(* ===== verification/Persistence.thy ===== *)
theory Persistence
  imports Reduction
begin

text \<open>
  Persistence diagrams and their bottleneck distance (\<open>crates/adic-finality/src/ph/persistence.rs\<close>
  and \<open>bottleneck.rs\<close>). Weights are exact reals. The pairs of a reduction are a hash map from
  deaths to births: \<open>ord\<close> is the order in which it is iterated over, which is the order of the
  intervals in the diagrams. Assertions and \<open>unwrap\<close>s that fail are panics.

  The lemmas relate the distance the code computes to the bottleneck distance of its definition: it is
  never below it, but it may be above it, and it depends on the order of the intervals.
\<close>

section \<open>Diagrams\<close>

record persistence_interval =
  pi_birth :: f64
  pi_death :: "f64 option"
  pi_dimension :: nat

definition finite_interval :: "f64 \<Rightarrow> f64 \<Rightarrow> nat \<Rightarrow> persistence_interval" where
  "finite_interval birth death d = \<lparr>pi_birth = birth, pi_death = Some death, pi_dimension = d\<rparr>"

definition infinite_interval :: "f64 \<Rightarrow> nat \<Rightarrow> persistence_interval" where
  "infinite_interval birth d = \<lparr>pi_birth = birth, pi_death = None, pi_dimension = d\<rparr>"

definition persistence :: "persistence_interval \<Rightarrow> f64 option" where
  "persistence i = map_option (\<lambda>d. d - pi_birth i) (pi_death i)"

definition is_infinite :: "persistence_interval \<Rightarrow> bool" where
  "is_infinite i \<longleftrightarrow> pi_death i = None"

definition midpoint :: "persistence_interval \<Rightarrow> f64 \<times> f64" where
  "midpoint i = (case pi_death i of Some d \<Rightarrow> (pi_birth i, d) | None \<Rightarrow> (pi_birth i, pi_birth i + 1000))"

record persistence_diagram =
  pd_dimension :: nat
  pd_intervals :: "persistence_interval list"

definition diagram_new :: "nat \<Rightarrow> persistence_diagram" where
  "diagram_new d = \<lparr>pd_dimension = d, pd_intervals = []\<rparr>"

definition add_interval :: "persistence_interval \<Rightarrow> persistence_diagram \<Rightarrow> panic + persistence_diagram" where
  "add_interval i D = (if pi_dimension i \<noteq> pd_dimension D then Inl AssertFailed
     else Inr (D\<lparr>pd_intervals := pd_intervals D @ [i]\<rparr>))"

definition num_intervals :: "persistence_diagram \<Rightarrow> nat" where
  "num_intervals D = length (pd_intervals D)"

definition num_infinite :: "persistence_diagram \<Rightarrow> nat" where
  "num_infinite D = length (filter is_infinite (pd_intervals D))"

definition num_finite :: "persistence_diagram \<Rightarrow> nat" where
  "num_finite D = length (filter (\<lambda>i. \<not> is_infinite i) (pd_intervals D))"

definition betti_number :: "persistence_diagram \<Rightarrow> nat" where
  "betti_number D = num_infinite D"

definition filter_by_persistence :: "f64 \<Rightarrow> persistence_diagram \<Rightarrow> persistence_interval list" where
  "filter_by_persistence min_persistence D =
     filter (\<lambda>i. case persistence i of Some p \<Rightarrow> min_persistence \<le> p | None \<Rightarrow> True) (pd_intervals D)"

definition finite_points :: "persistence_diagram \<Rightarrow> (f64 \<times> f64) list" where
  "finite_points D = List.map_filter (\<lambda>i. map_option (\<lambda>d. (pi_birth i, d)) (pi_death i)) (pd_intervals D)"

record persistence_data =
  pe_diagrams :: "nat \<rightharpoonup> persistence_diagram"
  pe_max_dimension :: nat

definition persistence_data_new :: persistence_data where
  "persistence_data_new = \<lparr>pe_diagrams = Map.empty, pe_max_dimension = 0\<rparr>"

text \<open>\<open>diagrams.entry(dimension).or_insert_with(..).add_interval(interval)\<close> and the update of the
  maximal dimension.\<close>

definition record_interval :: "persistence_interval \<Rightarrow> persistence_data \<Rightarrow> panic + persistence_data" where
  "record_interval i P =
     (let d = pi_dimension i;
          D = (case pe_diagrams P d of None \<Rightarrow> diagram_new d | Some D \<Rightarrow> D)
      in bindE (add_interval i D) (\<lambda>D.
           Inr \<lparr>pe_diagrams = (pe_diagrams P)(d \<mapsto> D), pe_max_dimension = max (pe_max_dimension P) d\<rparr>))"

definition unwrap :: "'a option \<Rightarrow> panic + 'a" where
  "unwrap x = (case x of None \<Rightarrow> Inl UnwrapFailed | Some a \<Rightarrow> Inr a)"

primrec paired_loop :: "simplicial_complex \<Rightarrow> (nat \<times> nat) list \<Rightarrow> persistence_data \<Rightarrow> panic + persistence_data" where
  "paired_loop c [] P = Inr P"
| "paired_loop c (e # es) P =
     (case e of (death_col, birth_row) \<Rightarrow>
        bindE (unwrap (get_simplex c death_col)) (\<lambda>death_simplex.
        bindE (unwrap (get_simplex c birth_row)) (\<lambda>birth_simplex.
        bindE (record_interval
          (finite_interval (sx_weight birth_simplex) (sx_weight death_simplex) (sx_dimension birth_simplex)) P)
          (paired_loop c es))))"

primrec unpaired_loop :: "simplicial_complex \<Rightarrow> nat list \<Rightarrow> persistence_data \<Rightarrow> panic + persistence_data" where
  "unpaired_loop c [] P = Inr P"
| "unpaired_loop c (col # cols) P =
     bindE (unwrap (get_simplex c col)) (\<lambda>s.
     bindE (record_interval (infinite_interval (sx_weight s) (sx_dimension s)) P) (unpaired_loop c cols))"

definition from_reduction :: "((nat \<times> nat) list \<Rightarrow> (nat \<times> nat) list) \<Rightarrow> reduction_result \<Rightarrow> simplicial_complex \<Rightarrow>
    panic + persistence_data" where
  "from_reduction ord R c =
     bindE (paired_loop c (ord (rr_pairs R)) persistence_data_new) (unpaired_loop c (rr_unpaired R))"

definition get_diagram :: "persistence_data \<Rightarrow> nat \<Rightarrow> persistence_diagram option" where
  "get_diagram P d = pe_diagrams P d"

definition betti_numbers :: "persistence_data \<Rightarrow> nat list" where
  "betti_numbers P = map (\<lambda>d. case pe_diagrams P d of None \<Rightarrow> 0 | Some D \<Rightarrow> betti_number D) [0..<Suc (pe_max_dimension P)]"

definition is_stable_at :: "persistence_data \<Rightarrow> nat \<Rightarrow> f64 \<Rightarrow> bool" where
  "is_stable_at P d time =
     (case get_diagram P d of
        None \<Rightarrow> True
      | Some D \<Rightarrow> list_all (\<lambda>i. case pi_death i of Some death \<Rightarrow> death \<le> time | None \<Rightarrow> pi_birth i \<le> time) (pd_intervals D))"

section \<open>The bottleneck distance\<close>

type_synonym point = "f64 \<times> f64"

definition linf_distance :: "point \<Rightarrow> point \<Rightarrow> f64" where
  "linf_distance p q = max \<bar>fst p - fst q\<bar> \<bar>snd p - snd q\<bar>"

definition distance_to_diagonal :: "point \<Rightarrow> f64" where
  "distance_to_diagonal p = \<bar>snd p - fst p\<bar> / 2"

text \<open>
  The matching is kept in two vectors, which are maps here (\<open>-1\<close> is no entry), and the visited
  points of the second diagram are a set. \<open>find_augmenting_path\<close> calls itself after marking
  one more point, so that a depth of one more than the number of points is enough.
\<close>

type_synonym matching = "(nat \<rightharpoonup> nat) \<times> (nat \<rightharpoonup> nat) \<times> nat set"

fun augment_loop :: "(nat \<Rightarrow> nat \<Rightarrow> bool) \<Rightarrow> (nat \<Rightarrow> matching \<Rightarrow> bool \<times> matching) \<Rightarrow> nat \<Rightarrow> nat list \<Rightarrow> matching \<Rightarrow> bool \<times> matching" where
  "augment_loop near again i [] st = (False, st)"
| "augment_loop near again i (j # js) (match1, match2, visited) =
     (if near i j \<and> j \<notin> visited then
        (let visited = insert j visited in
         case match2 j of
           None \<Rightarrow> (True, match1(i \<mapsto> j), match2(j \<mapsto> i), visited)
         | Some j_match \<Rightarrow>
             (case again j_match (match1, match2, visited) of
                (True, match1, match2, visited) \<Rightarrow> (True, match1(i \<mapsto> j), match2(j \<mapsto> i), visited)
              | (False, st) \<Rightarrow> augment_loop near again i js st))
      else augment_loop near again i js (match1, match2, visited))"

primrec find_augmenting_path :: "nat \<Rightarrow> (nat \<Rightarrow> nat \<Rightarrow> bool) \<Rightarrow> nat \<Rightarrow> nat \<Rightarrow> nat \<Rightarrow> matching \<Rightarrow> bool \<times> matching" where
  "find_augmenting_path 0 near n1 n2 i st = (False, st)"
| "find_augmenting_path (Suc depth) near n1 n2 i st =
     (if n1 \<le> i then (False, st)
      else augment_loop near (find_augmenting_path depth near n1 n2) i [0..<n2] st)"

primrec match_pass :: "(nat \<Rightarrow> nat \<Rightarrow> bool) \<Rightarrow> nat \<Rightarrow> nat \<Rightarrow> nat list \<Rightarrow> bool \<Rightarrow> matching \<Rightarrow> bool \<times> matching" where
  "match_pass near n1 n2 [] found st = (found, st)"
| "match_pass near n1 n2 (i # is) found st =
     (case st of (match1, match2, visited) \<Rightarrow>
        (if match1 i = None \<and> i \<notin> visited then
           (case find_augmenting_path (Suc n2) near n1 n2 i st of (ok, st) \<Rightarrow> match_pass near n1 n2 is (found \<or> ok) st)
         else match_pass near n1 n2 is found st))"

primrec match_rounds :: "nat \<Rightarrow> (nat \<Rightarrow> nat \<Rightarrow> bool) \<Rightarrow> nat \<Rightarrow> nat \<Rightarrow> (nat \<rightharpoonup> nat) \<times> (nat \<rightharpoonup> nat) \<Rightarrow> (nat \<rightharpoonup> nat) \<times> (nat \<rightharpoonup> nat)" where
  "match_rounds 0 near n1 n2 m = m"
| "match_rounds (Suc rounds) near n1 n2 m =
     (case match_pass near n1 n2 [0..<max n1 n2] False (fst m, snd m, {}) of
        (found, match1, match2, visited) \<Rightarrow>
          (if found then match_rounds rounds near n1 n2 (match1, match2) else (match1, match2)))"

definition has_perfect_matching :: "point list \<Rightarrow> point list \<Rightarrow> f64 \<Rightarrow> bool" where
  "has_perfect_matching points1 points2 epsilon =
     (let n1 = length points1; n2 = length points2; n = max n1 n2;
          near = (\<lambda>i j. linf_distance (points1 ! i) (points2 ! j) \<le> epsilon)
      in case match_rounds n near n1 n2 (Map.empty, Map.empty) of (match1, match2) \<Rightarrow>
           list_all (\<lambda>i. match1 i \<noteq> None \<or> distance_to_diagonal (points1 ! i) \<le> epsilon) [0..<n1] \<and>
           list_all (\<lambda>j. match2 j \<noteq> None \<or> distance_to_diagonal (points2 ! j) \<le> epsilon) [0..<n2])"

function search_epsilon :: "(f64 \<Rightarrow> bool) \<Rightarrow> f64 list \<Rightarrow> nat \<Rightarrow> nat \<Rightarrow> nat" where
  "search_epsilon ok ds left right =
     (if left < right then
        (let mid = left + (right - left) div 2
         in if ok (ds ! mid) then search_epsilon ok ds left mid else search_epsilon ok ds (mid + 1) right)
      else left)"
  by auto
termination
  by (relation "measure (\<lambda>(ok, ds, left, right). right - left)") auto

declare search_epsilon.simps [simp del]

definition candidate_distances :: "point list \<Rightarrow> point list \<Rightarrow> f64 list" where
  "candidate_distances points1 points2 =
     remdups_adj (sort (concat (map (\<lambda>p. map (linf_distance p) points2) points1) @
       map distance_to_diagonal points1 @ map distance_to_diagonal points2))"

definition bottleneck_distance :: "persistence_diagram \<Rightarrow> persistence_diagram \<Rightarrow> panic + f64" where
  "bottleneck_distance D1 D2 =
     (if pd_dimension D1 \<noteq> pd_dimension D2 then Inl AssertFailed
      else
        let points1 = finite_points D1; points2 = finite_points D2
        in if points1 = [] \<and> points2 = [] then Inr 0
           else
             let ds = candidate_distances points1 points2
             in Inr (ds ! search_epsilon (has_perfect_matching points1 points2) ds 0 (length ds - 1)))"

section \<open>What a found matching is\<close>

definition ok_match :: "(nat \<Rightarrow> nat \<Rightarrow> bool) \<Rightarrow> nat \<Rightarrow> nat \<Rightarrow> (nat \<rightharpoonup> nat) \<Rightarrow> (nat \<rightharpoonup> nat) \<Rightarrow> bool" where
  "ok_match near n1 n2 m1 m2 \<longleftrightarrow>
     (\<forall>i j. m1 i = Some j \<longrightarrow> i < n1 \<and> j < n2 \<and> near i j) \<and> (\<forall>i j. m1 i = Some j \<longleftrightarrow> m2 j = Some i)"

text \<open>The old partner of a rematched point keeps its stale entry until the caller overwrites it.\<close>

definition forget :: "(nat \<rightharpoonup> nat) \<Rightarrow> nat option \<Rightarrow> (nat \<rightharpoonup> nat)" where
  "forget m old = (case old of None \<Rightarrow> m | Some j \<Rightarrow> m(j := None))"

definition augmented :: "(nat \<Rightarrow> nat \<Rightarrow> bool) \<Rightarrow> nat \<Rightarrow> nat \<Rightarrow> nat \<Rightarrow> matching \<Rightarrow> bool \<times> matching \<Rightarrow> bool" where
  "augmented near n1 n2 i st r = (case st of (m1, m2, V) \<Rightarrow> case r of (found, m1', m2', V') \<Rightarrow>
     V \<subseteq> V' \<and>
     (if found then
        (\<forall>i'. i' \<noteq> i \<longrightarrow> (\<forall>j. m1 i' = Some j \<longrightarrow> j \<in> V) \<longrightarrow> m1' i' = m1 i') \<and> (\<forall>j \<in> V. m2' j = m2 j) \<and>
        ok_match near n1 n2 m1' (forget m2' (m1 i))
      else m1' = m1 \<and> m2' = m2))"

definition augments :: "(nat \<Rightarrow> nat \<Rightarrow> bool) \<Rightarrow> nat \<Rightarrow> nat \<Rightarrow> (nat \<Rightarrow> matching \<Rightarrow> bool \<times> matching) \<Rightarrow> bool" where
  "augments near n1 n2 f \<longleftrightarrow> (\<forall>i m1 m2 V. ok_match near n1 n2 m1 m2 \<longrightarrow> i < n1 \<longrightarrow> (\<forall>j. m1 i = Some j \<longrightarrow> j \<in> V) \<longrightarrow>
     augmented near n1 n2 i (m1, m2, V) (f i (m1, m2, V)))"

lemma ok_match_assign:
  assumes "ok_match near n1 n2 m1 (forget m2 None)" and "m1 i = old" and "i < n1" "j < n2" "near i j" and "m2 j = None"
    and "old \<noteq> Some j"
  shows "ok_match near n1 n2 (m1(i \<mapsto> j)) (forget (m2(j \<mapsto> i)) old)"
  using assms unfolding ok_match_def forget_def
  by (auto split: option.splits; metis option.distinct(1) option.inject)

lemma augment_loop_ok:
  assumes again: "augments near n1 n2 again" and "ok_match near n1 n2 m1 m2" and "i < n1"
    and "\<And>j. m1 i = Some j \<Longrightarrow> j \<in> V" and "set js \<subseteq> {..<n2}"
  shows "augmented near n1 n2 i (m1, m2, V) (augment_loop near again i js (m1, m2, V))"
  using assms(2-)
proof (induction js arbitrary: V)
  case (Cons j js)
  have skip: "augmented near n1 n2 i (m1, m2, V) (augment_loop near again i js (m1, m2, V'))" if "V \<subseteq> V'" for V'
  proof -
    have "augmented near n1 n2 i (m1, m2, V') (augment_loop near again i js (m1, m2, V'))"
      using Cons.prems that by (intro Cons.IH) auto
    with that show ?thesis
      unfolding augmented_def by (auto split: prod.splits if_splits) blast+
  qed
  show ?case
  proof (cases "near i j \<and> j \<notin> V")
    case False
    with skip [of V] show ?thesis by auto
  next
    case True
    have old: "m1 i \<noteq> Some j" and j: "j < n2"
      using Cons.prems(3,4) True by auto
    show ?thesis
    proof (cases "m2 j")
      case None
      have "ok_match near n1 n2 (m1(i \<mapsto> j)) (forget (m2(j \<mapsto> i)) (m1 i))"
        using Cons.prems(1,2) True None j old by (intro ok_match_assign) (auto simp: forget_def)
      with True None show ?thesis
        by (auto simp: augmented_def)
    next
      case (Some jm)
      let ?V = "insert j V"
      have m: "m1 jm = Some j" "jm < n1"
        using Some Cons.prems(1) by (auto simp: ok_match_def)
      obtain found m1' m2' V' where r: "again jm (m1, m2, ?V) = (found, m1', m2', V')"
        by (metis prod_cases4)
      have aug: "augmented near n1 n2 jm (m1, m2, ?V) (found, m1', m2', V')"
        using again Cons.prems(1) m r unfolding augments_def by (metis insertI1 option.inject)
      show ?thesis
      proof (cases found)
        case False
        with aug have "m1' = m1" "m2' = m2" "V \<subseteq> V'"
          by (auto simp: augmented_def)
        with skip [of V'] True Some r False show ?thesis by simp
      next
        case True': True
        have keep: "m1' i' = m1 i'" if "i' \<noteq> jm" "\<forall>j. m1 i' = Some j \<longrightarrow> j \<in> ?V" for i'
          using aug that True' by (auto simp: augmented_def)
        have keep2: "m2' x = m2 x" if "x \<in> V" for x
          using aug that True' by (auto simp: augmented_def)
        have ok: "ok_match near n1 n2 m1' (m2'(j := None))"
          using aug True' m by (auto simp: augmented_def forget_def)
        have "i \<noteq> jm"
          using m old by auto
        then have i: "m1' i = m1 i"
          using keep Cons.prems(3) by auto
        have "ok_match near n1 n2 (m1'(i \<mapsto> j)) (forget ((m2'(j := None))(j \<mapsto> i)) (m1 i))"
          using ok i Cons.prems(2) True j old by (intro ok_match_assign) (auto simp: forget_def)
        moreover have "m1' i' = m1 i'" if "i' \<noteq> i" "\<forall>j. m1 i' = Some j \<longrightarrow> j \<in> V" for i'
          using keep [of i'] that m True by auto
        moreover have "V \<subseteq> V'"
          using aug by (auto simp: augmented_def)
        ultimately show ?thesis
          using True Some r True' keep2 by (auto simp: augmented_def)
      qed
    qed
  qed
qed (simp add: augmented_def)

lemma find_augmenting_path_ok: "augments near n1 n2 (find_augmenting_path depth near n1 n2)"
proof (induction depth)
  case (Suc depth)
  show ?case
    unfolding augments_def
  proof (intro allI impI)
    fix i m1 m2 V
    assume "ok_match near n1 n2 m1 m2" "i < n1" "\<forall>j. m1 i = Some j \<longrightarrow> j \<in> V"
    then show "augmented near n1 n2 i (m1, m2, V) (find_augmenting_path (Suc depth) near n1 n2 i (m1, m2, V))"
      using augment_loop_ok [OF Suc.IH, of m1 m2 i V "[0..<n2]"] by (simp add: atLeast0LessThan)
  qed
qed (simp add: augments_def augmented_def)

lemma match_pass_ok:
  assumes "ok_match near n1 n2 (fst st) (fst (snd st))"
  shows "ok_match near n1 n2 (fst (snd (match_pass near n1 n2 is found st))) (fst (snd (snd (match_pass near n1 n2 is found st))))"
  using assms
proof (induction "is" arbitrary: found st)
  case (Cons i "is")
  obtain m1 m2 V where st: "st = (m1, m2, V)" by (metis prod_cases3)
  show ?case
  proof (cases "m1 i = None \<and> i \<notin> V")
    case False
    with Cons show ?thesis by (auto simp: st)
  next
    case True
    obtain ok m1' m2' V' where r: "find_augmenting_path (Suc n2) near n1 n2 i st = (ok, m1', m2', V')"
      by (metis prod_cases4)
    have "ok_match near n1 n2 m1' m2'"
    proof (cases "i < n1")
      case False
      with r Cons.prems show ?thesis by (simp add: st)
    next
      case True': True
      have "augmented near n1 n2 i (m1, m2, V) (ok, m1', m2', V')"
        using find_augmenting_path_ok [of near n1 n2 "Suc n2", unfolded augments_def, rule_format, of m1 m2 i V] Cons.prems True' True
        by (simp add: st r [unfolded st] del: find_augmenting_path.simps)
      with Cons.prems True show ?thesis
        by (auto simp: augmented_def forget_def st split: if_splits)
    qed
    with Cons.IH [of "(m1', m2', V')"] True r show ?thesis
      by (simp add: st del: find_augmenting_path.simps)
  qed
qed simp

lemma match_rounds_ok:
  "ok_match near n1 n2 (fst m) (snd m) \<Longrightarrow>
   ok_match near n1 n2 (fst (match_rounds k near n1 n2 m)) (snd (match_rounds k near n1 n2 m))"
proof (induction k arbitrary: m)
  case (Suc k)
  obtain found m1 m2 V where r: "match_pass near n1 n2 [0..<max n1 n2] False (fst m, snd m, {}) = (found, m1, m2, V)"
    by (metis prod_cases4)
  have "ok_match near n1 n2 m1 m2"
    using match_pass_ok [of near n1 n2 "(fst m, snd m, {})" "[0..<max n1 n2]" False] Suc.prems by (simp add: r)
  then show ?case
    using Suc.IH [of "(m1, m2)"] by (simp add: r)
qed simp

text \<open>The reference definition: a partial matching of the points within \<open>e\<close> whose unmatched points are
  within \<open>e\<close> of the diagonal.\<close>

definition matchable :: "point list \<Rightarrow> point list \<Rightarrow> f64 \<Rightarrow> bool" where
  "matchable P Q e \<longleftrightarrow> (\<exists>M. (\<forall>(i, j) \<in> M. i < length P \<and> j < length Q \<and> linf_distance (P ! i) (Q ! j) \<le> e) \<and>
     (\<forall>(i, j) \<in> M. \<forall>(i', j') \<in> M. i = i' \<longleftrightarrow> j = j') \<and>
     (\<forall>i < length P. i \<in> fst ` M \<or> distance_to_diagonal (P ! i) \<le> e) \<and>
     (\<forall>j < length Q. j \<in> snd ` M \<or> distance_to_diagonal (Q ! j) \<le> e))"

lemma has_perfect_matching_sound:
  assumes "has_perfect_matching P Q e"
  shows "matchable P Q e"
proof -
  let ?near = "\<lambda>i j. linf_distance (P ! i) (Q ! j) \<le> e" and ?n1 = "length P" and ?n2 = "length Q"
  obtain m1 m2 where r: "match_rounds (max ?n1 ?n2) ?near ?n1 ?n2 (Map.empty, Map.empty) = (m1, m2)" by force
  have ok: "ok_match ?near ?n1 ?n2 m1 m2"
    using match_rounds_ok [of ?near ?n1 ?n2 "(Map.empty, Map.empty)" "max ?n1 ?n2"] by (simp add: r ok_match_def)
  have rest: "m1 i \<noteq> None \<or> distance_to_diagonal (P ! i) \<le> e" if "i < ?n1" for i
    using assms that by (auto simp: has_perfect_matching_def Let_def r list_all_iff)
  have rest2: "m2 j \<noteq> None \<or> distance_to_diagonal (Q ! j) \<le> e" if "j < ?n2" for j
    using assms that by (auto simp: has_perfect_matching_def Let_def r list_all_iff)
  let ?M = "{(i, j). m1 i = Some j}"
  have "(\<forall>(i, j) \<in> ?M. i < ?n1 \<and> j < ?n2 \<and> ?near i j)"
    "(\<forall>(i, j) \<in> ?M. \<forall>(i', j') \<in> ?M. i = i' \<longleftrightarrow> j = j')"
    using ok unfolding ok_match_def by (auto, metis option.inject)
  moreover have "\<forall>i < ?n1. i \<in> fst ` ?M \<or> distance_to_diagonal (P ! i) \<le> e"
    using rest by force
  moreover have "j \<in> snd ` ?M" if "m2 j = Some i" for i j
    using ok that unfolding ok_match_def by force
  then have "\<forall>j < ?n2. j \<in> snd ` ?M \<or> distance_to_diagonal (Q ! j) \<le> e"
    using rest2 by blast
  ultimately show ?thesis
    unfolding matchable_def by blast
qed

lemma search_epsilon_ok:
  assumes "left \<le> right" and "P (ds ! right)"
  shows "search_epsilon P ds left right \<le> right \<and> P (ds ! search_epsilon P ds left right)"
  using assms
proof (induction P ds left right rule: search_epsilon.induct)
  case (1 P ds left right)
  show ?case
  proof (cases "left < right")
    case False
    with 1(3,4) show ?thesis
      by (subst (1 2) search_epsilon.simps) simp
  next
    case True
    define mid where "mid = left + (right - left) div 2"
    have mid: "left \<le> mid" "mid < right"
      using True by (auto simp: mid_def)
    show ?thesis
    proof (cases "P (ds ! mid)")
      case True': True
      have "search_epsilon P ds left mid \<le> mid \<and> P (ds ! search_epsilon P ds left mid)"
        using 1(1) [OF True mid_def True'] mid True' by simp
      with True True' mid show ?thesis
        by (subst (1 2) search_epsilon.simps) (simp add: mid_def [symmetric])
    next
      case False
      have "search_epsilon P ds (mid + 1) right \<le> right \<and> P (ds ! search_epsilon P ds (mid + 1) right)"
        using 1(2) [OF True mid_def False] mid 1(4) by simp
      with True False show ?thesis
        by (subst (1 2) search_epsilon.simps) (simp add: mid_def [symmetric])
    qed
  qed
qed

lemma set_candidate_distances:
  "set (candidate_distances P Q) = {linf_distance p q | p q. p \<in> set P \<and> q \<in> set Q} \<union> distance_to_diagonal ` (set P \<union> set Q)"
  by (auto simp: candidate_distances_def)

lemma candidates_last:
  assumes "candidate_distances P Q \<noteq> []" and "x \<in> set (candidate_distances P Q)"
  shows "x \<le> last (candidate_distances P Q)"
proof -
  have "sorted (candidate_distances P Q)"
    by (simp add: candidate_distances_def)
  moreover obtain xs where "candidate_distances P Q = xs @ [last (candidate_distances P Q)]"
    using assms(1) by (metis append_butlast_last_id)
  ultimately show ?thesis
    using assms(2) by (metis Un_iff empty_iff empty_set list.simps(15) insertE order_refl set_append sorted_append list.set_intros(1))
qed

lemma last_is_matching:
  assumes "candidate_distances P Q \<noteq> []"
  shows "has_perfect_matching P Q (last (candidate_distances P Q))"
  using candidates_last [OF assms] by (auto simp: has_perfect_matching_def Let_def list_all_iff set_candidate_distances split: prod.split)

lemma bottleneck_is_matching:
  assumes "bottleneck_distance D1 D2 = Inr e" and "finite_points D1 \<noteq> [] \<or> finite_points D2 \<noteq> []"
  shows "has_perfect_matching (finite_points D1) (finite_points D2) e \<and> e \<in> set (candidate_distances (finite_points D1) (finite_points D2))"
proof -
  let ?P = "finite_points D1" and ?Q = "finite_points D2"
  let ?ds = "candidate_distances ?P ?Q"
  have "distance_to_diagonal ` (set ?P \<union> set ?Q) \<noteq> {}"
    using assms(2) by auto
  then have "set ?ds \<noteq> {}"
    unfolding set_candidate_distances by blast
  then have ne: "?ds \<noteq> []"
    by auto
  then have "has_perfect_matching ?P ?Q (?ds ! (length ?ds - 1))"
    using last_is_matching by (simp add: last_conv_nth)
  then have "search_epsilon (has_perfect_matching ?P ?Q) ?ds 0 (length ?ds - 1) < length ?ds"
    "has_perfect_matching ?P ?Q (?ds ! search_epsilon (has_perfect_matching ?P ?Q) ?ds 0 (length ?ds - 1))"
    using ne search_epsilon_ok [of 0 "length ?ds - 1" "has_perfect_matching ?P ?Q" ?ds] by (auto simp: length_greater_0_conv [symmetric] simp del: length_greater_0_conv)
  moreover have "e = ?ds ! search_epsilon (has_perfect_matching ?P ?Q) ?ds 0 (length ?ds - 1)"
    using assms by (auto simp: bottleneck_distance_def Let_def split: if_splits)
  ultimately show ?thesis by simp
qed

text \<open>The computed distance is never below the bottleneck distance of the definition: there is a
  matching within it.\<close>

theorem bottleneck_upper_bound:
  assumes "bottleneck_distance D1 D2 = Inr e"
  shows "matchable (finite_points D1) (finite_points D2) e"
proof (cases "finite_points D1 = [] \<and> finite_points D2 = []")
  case True
  then show ?thesis
    by (auto simp: matchable_def)
next
  case False
  with bottleneck_is_matching [OF assms] has_perfect_matching_sound show ?thesis by blast
qed

section \<open>Dependence on the order\<close>

definition bars :: "point list \<Rightarrow> persistence_diagram" where
  "bars ps = \<lparr>pd_dimension = 2, pd_intervals = map (\<lambda>(b, d). finite_interval b d 2) ps\<rparr>"

lemma finite_points_bars [simp]: "finite_points (bars ps) = ps"
  by (induction ps) (auto simp: bars_def finite_points_def List.map_filter_def finite_interval_def)

lemma candidates_order:
  "candidate_distances [(0, 2), (0, 10)] [(0, 6)] = [1, 3, 4, 5]"
  "candidate_distances [(0, 10), (0, 2)] [(0, 6)] = [1, 3, 4, 5]"
  by (simp_all add: candidate_distances_def linf_distance_def distance_to_diagonal_def)

text \<open>the same two intervals in another order, which is the iteration order of a hash map, give
  another distance to the same diagram, although a matching within 4 exists in both cases.\<close>

theorem bottleneck_depends_on_order:
  "bottleneck_distance (bars [(0, 2), (0, 10)]) (bars [(0, 6)]) = Inr 5 \<and>
   bottleneck_distance (bars [(0, 10), (0, 2)]) (bars [(0, 6)]) = Inr 4 \<and>
   matchable [(0, 2), (0, 10)] [(0, 6)] 4"
proof (intro conjI)
  let ?near = "linf_distance"
  have one: "\<not> has_perfect_matching [(0, 2), (0, 10)] [(0, 6)] 3" "\<not> has_perfect_matching [(0, 2), (0, 10)] [(0, 6)] 4"
    "\<not> has_perfect_matching [(0, 10), (0, 2)] [(0, 6)] 3" "has_perfect_matching [(0, 10), (0, 2)] [(0, 6)] 4"
    by (simp_all add: has_perfect_matching_def linf_distance_def distance_to_diagonal_def numeral_2_eq_2 numeral_eq_Suc)
  show "bottleneck_distance (bars [(0, 2), (0, 10)]) (bars [(0, 6)]) = Inr 5"
    using one by (simp add: bottleneck_distance_def candidates_order search_epsilon.simps Let_def) (simp add: bars_def)
  show "bottleneck_distance (bars [(0, 10), (0, 2)]) (bars [(0, 6)]) = Inr 4"
    using one by (simp add: bottleneck_distance_def candidates_order search_epsilon.simps Let_def) (simp add: bars_def)
  have "linf_distance (0, 10) (0, 6) \<le> 4" "distance_to_diagonal (0, 2) \<le> 4"
    by (simp_all add: linf_distance_def distance_to_diagonal_def)
  then show "matchable [(0, 2), (0, 10)] [(0, 6)] 4"
    unfolding matchable_def by (intro exI [of _ "{(1, 0)}"]) (auto simp: less_Suc_eq)
qed

end
