(* ===== verification/F2_Finality.thy ===== *)
theory F2_Finality
  imports Persistence Core_Types Padic_Math
begin

text \<open>
  F2 finality by persistent homology (\<open>adic_complex.rs\<close>, \<open>f2_finality.rs\<close> and
  \<open>streaming.rs\<close> of \<open>crates/adic-finality/src/ph\<close>): the complex of the messages that share
  a p-adic ball, the checker that compares the homology of successive windows, and the streaming engine.

  \<open>ordb\<close> and \<open>ordp\<close> are the orders in which the hash map of balls and the map of pairs are
  iterated over; \<open>elapsed\<close> gives the readings of the stopwatch of one check in milliseconds. The
  strings of the results are the constructors of \<open>f2_reason\<close>. A result \<open>None\<close> is a call
  that does not return; the lemmas show that there is none for windows of distinct messages.
\<close>

section \<open>The complex of a window\<close>

record complex_builder =
  cb_message_to_vertex :: "message_id \<rightharpoonup> nat"
  cb_vertex_to_message :: "nat \<rightharpoonup> message_id"
  cb_next_vertex_id :: nat

definition complex_builder_new :: complex_builder where
  "complex_builder_new = \<lparr>cb_message_to_vertex = Map.empty, cb_vertex_to_message = Map.empty, cb_next_vertex_id = 0\<rparr>"

definition get_or_create_vertex :: "message_id \<Rightarrow> complex_builder \<Rightarrow> nat \<times> complex_builder" where
  "get_or_create_vertex i b =
     (case cb_message_to_vertex b i of
        Some v \<Rightarrow> (v, b)
      | None \<Rightarrow>
          (let v = cb_next_vertex_id b
           in (v, \<lparr>cb_message_to_vertex = (cb_message_to_vertex b)(i \<mapsto> v),
                   cb_vertex_to_message = (cb_vertex_to_message b)(v \<mapsto> i), cb_next_vertex_id = v + 1\<rparr>)))"

definition get_message_id :: "complex_builder \<Rightarrow> nat \<Rightarrow> message_id option" where
  "get_message_id b v = cb_vertex_to_message b v"

definition get_vertex_id :: "complex_builder \<Rightarrow> message_id \<Rightarrow> nat option" where
  "get_vertex_id b i = cb_message_to_vertex b i"

text \<open>\<open>None\<close> is the answer \<open>false\<close>.\<close>

definition next_combination :: "nat list \<Rightarrow> nat \<Rightarrow> nat list option" where
  "next_combination indices n =
     (let k = length indices in
      if k = 0 \<or> n = 0 then None
      else map_option (\<lambda>i. take i indices @ map (\<lambda>j. indices ! i + 1 + (j - i)) [i..<k])
        (find (\<lambda>i. indices ! i < n - k + i) (rev [0..<k])))"

type_synonym weighted_message = "message_id \<times> f64"

primrec combination_simplex :: "weighted_message list \<Rightarrow> nat list \<Rightarrow> nat list \<Rightarrow> f64 \<Rightarrow> complex_builder \<Rightarrow>
    nat list \<times> f64 \<times> complex_builder" where
  "combination_simplex messages [] vertices max_weight b = (vertices, max_weight, b)"
| "combination_simplex messages (idx # is) vertices max_weight b =
     (case messages ! idx of (i, weight) \<Rightarrow>
      case get_or_create_vertex i b of (v, b) \<Rightarrow>
        combination_simplex messages is (vertices @ [v]) (max max_weight weight) b)"

partial_function (option) combination_loop :: "weighted_message list \<Rightarrow> nat list \<Rightarrow> complex_builder \<Rightarrow> simplicial_complex \<Rightarrow>
    (complex_builder \<times> simplicial_complex) option" where
  "combination_loop messages indices b c =
     (case combination_simplex messages indices [] 0 b of (vertices, max_weight, b) \<Rightarrow>
        let c = snd (add_simplex_with_faces vertices max_weight c)
        in case next_combination indices (length messages) of
             None \<Rightarrow> Some (b, c)
           | Some indices \<Rightarrow> combination_loop messages indices b c)"

definition create_simplices_from_ball :: "weighted_message list \<Rightarrow> nat \<Rightarrow> complex_builder \<Rightarrow> simplicial_complex \<Rightarrow>
    (complex_builder \<times> simplicial_complex) option" where
  "create_simplices_from_ball messages d b c =
     (if length messages < d + 1 then Some (b, c) else combination_loop messages [0..<Suc d] b c)"

text \<open>The groups of messages by ball, in the order in which the balls are first seen.\<close>

definition push_group :: "bytes \<Rightarrow> weighted_message \<Rightarrow> (bytes \<times> weighted_message list) list \<Rightarrow>
    (bytes \<times> weighted_message list) list" where
  "push_group ball m groups = AList.update ball ((case map_of groups ball of None \<Rightarrow> [] | Some ms \<Rightarrow> ms) @ [m]) groups"

definition group_message :: "u32 \<Rightarrow> nat \<Rightarrow> (bytes \<times> weighted_message list) list \<Rightarrow> adic_message \<Rightarrow>
    (bytes \<times> weighted_message list) list" where
  "group_message axis radius groups m =
     (case find (\<lambda>phi. axis_index (ap_axis phi) = axis) (af_phi (am_features m)) of
        None \<Rightarrow> groups
      | Some phi \<Rightarrow> push_group (ball_id (ap_digits phi) radius)
          (am_id m, real_of_int (unix_secs (mt_timestamp (am_meta m)))) groups)"

primrec ball_loop :: "nat \<Rightarrow> (bytes \<times> weighted_message list) list \<Rightarrow> complex_builder \<Rightarrow> simplicial_complex \<Rightarrow>
    (complex_builder \<times> simplicial_complex) option" where
  "ball_loop d [] b c = Some (b, c)"
| "ball_loop d (g # gs) b c =
     (if length (snd g) < d + 1 then ball_loop d gs b c
      else Option.bind (create_simplices_from_ball (snd g) d b c) (\<lambda>(b, c). ball_loop d gs b c))"

type_synonym ball_order = "(bytes \<times> weighted_message list) list \<Rightarrow> (bytes \<times> weighted_message list) list"

definition build_from_messages :: "ball_order \<Rightarrow> adic_message list \<Rightarrow> u32 \<Rightarrow> nat \<Rightarrow> nat \<Rightarrow> complex_builder \<Rightarrow>
    (complex_builder \<times> simplicial_complex) option" where
  "build_from_messages ordb messages axis radius d b =
     (if messages = [] then Some (b, complex_new)
      else map_option (\<lambda>(b, c). (b, sort_by_filtration c))
        (ball_loop d (ordb (foldl (group_message axis radius) [] messages)) b complex_new))"

section \<open>The streaming engine\<close>

record persistence_snapshot =
  pn_round :: u64
  pn_persistence :: persistence_data
  pn_num_simplices :: nat
  pn_timestamp :: i64

record streaming_persistence =
  sm_complex :: simplicial_complex
  sm_matrix :: boundary_matrix
  sm_reduction :: reduction_result
  sm_persistence :: persistence_data
  sm_last_reduced_index :: nat
  sm_snapshots :: "persistence_snapshot list"
  sm_max_snapshots :: nat
  sm_dimension :: nat
  sm_radius :: nat
  sm_axis :: u32
  sm_total_reductions :: nat
  sm_total_xors :: nat

definition streaming_new :: "nat \<Rightarrow> nat \<Rightarrow> u32 \<Rightarrow> streaming_persistence" where
  "streaming_new d radius axis =
     \<lparr>sm_complex = complex_new, sm_matrix = from_complex complex_new,
      sm_reduction = \<lparr>rr_matrix = from_complex complex_new, rr_pairs = [], rr_unpaired = []\<rparr>,
      sm_persistence = persistence_data_new, sm_last_reduced_index = 0, sm_snapshots = [], sm_max_snapshots = 10,
      sm_dimension = d, sm_radius = radius, sm_axis = axis, sm_total_reductions = 0, sm_total_xors = 0\<rparr>"

definition extend_boundary_matrix :: "nat \<Rightarrow> streaming_persistence \<Rightarrow> streaming_persistence" where
  "extend_boundary_matrix start_index s =
     s\<lparr>sm_matrix := append_columns
        (map (\<lambda>x. sort (get_face_ids (sm_complex s) (sx_id x))) (drop start_index (sc_simplices (sm_complex s)))) (sm_matrix s)\<rparr>"

text \<open>The loop over the pivots of one column, with the number of its eliminations and the pivot it ends with.\<close>

partial_function (option) stream_column :: "nat \<Rightarrow> boundary_matrix \<Rightarrow> nat \<Rightarrow> (boundary_matrix \<times> nat \<times> nat option) option" where
  "stream_column col M xors =
     (case lowest_face M col of
        None \<Rightarrow> Some (M, xors, None)
      | Some pivot \<Rightarrow>
          (case find_column_with_pivot M pivot of
             Some other_col \<Rightarrow> stream_column col (xor_columns M col other_col) (xors + 1)
           | None \<Rightarrow> Some (update_pivot M col, xors, Some pivot)))"

definition stream_step :: "nat \<Rightarrow> streaming_persistence \<Rightarrow> streaming_persistence option" where
  "stream_step col s =
     map_option (\<lambda>(M, xors, pivot).
       let pairs = (case pivot of None \<Rightarrow> rr_pairs (sm_reduction s) | Some p \<Rightarrow> AList.update col p (rr_pairs (sm_reduction s)));
           unpaired = (if is_empty_column M col \<and> map_of pairs col = None
             then rr_unpaired (sm_reduction s) @ [col] else rr_unpaired (sm_reduction s))
       in s\<lparr>sm_matrix := M, sm_reduction := (sm_reduction s)\<lparr>rr_pairs := pairs, rr_unpaired := unpaired\<rparr>,
            sm_total_reductions := sm_total_reductions s + 1, sm_total_xors := xors\<rparr>)
     (stream_column col (sm_matrix s) (sm_total_xors s))"

primrec stream_columns :: "nat list \<Rightarrow> streaming_persistence \<Rightarrow> streaming_persistence option" where
  "stream_columns [] s = Some s"
| "stream_columns (col # cols) s = Option.bind (stream_step col s) (stream_columns cols)"

definition incremental_reduce :: "nat \<Rightarrow> streaming_persistence \<Rightarrow> streaming_persistence option" where
  "incremental_reduce start_col s =
     (let n = num_columns (sm_matrix s)
      in if n \<le> start_col then Some s
         else map_option (\<lambda>s. s\<lparr>sm_last_reduced_index := n\<rparr>) (stream_columns [start_col..<n] s))"

definition take_snapshot :: "i64 \<Rightarrow> u64 \<Rightarrow> streaming_persistence \<Rightarrow> streaming_persistence" where
  "take_snapshot now rnd s =
     (let snapshots = sm_snapshots s @ [\<lparr>pn_round = rnd, pn_persistence = sm_persistence s,
            pn_num_simplices = num_simplices (sm_complex s), pn_timestamp = unix_secs now\<rparr>]
      in s\<lparr>sm_snapshots := drop (length snapshots - sm_max_snapshots s) snapshots\<rparr>)"

definition snapshot_delta_rounds_ago :: "streaming_persistence \<Rightarrow> nat \<Rightarrow> persistence_snapshot option" where
  "snapshot_delta_rounds_ago s delta =
     (if length (sm_snapshots s) < delta + 1 then None
      else vget (sm_snapshots s) (length (sm_snapshots s) - delta - 1))"

type_synonym pair_order = "(nat \<times> nat) list \<Rightarrow> (nat \<times> nat) list"

text \<open>The inner result is \<open>None\<close> on the error "monotonicity violated".\<close>

definition streaming_add_messages :: "ball_order \<Rightarrow> pair_order \<Rightarrow> i64 \<Rightarrow> adic_message list \<Rightarrow> u64 \<Rightarrow> streaming_persistence \<Rightarrow>
    (panic + nat option \<times> streaming_persistence) option" where
  "streaming_add_messages ordb ordp now messages rnd s =
     (if messages = [] then Some (Inr (Some 0, s))
      else
        Option.bind (build_from_messages ordb messages (sm_axis s) (sm_radius s) (sm_dimension s) complex_builder_new)
          (\<lambda>(b, new_complex).
        if num_simplices new_complex = 0 then Some (Inr (Some 0, s))
        else case append_simplices new_complex (sm_complex s) of
            None \<Rightarrow> Some (Inr (None, s))
          | Some c \<Rightarrow>
              (let start = num_simplices (sm_complex s)
               in Option.bind (incremental_reduce start (extend_boundary_matrix start (s\<lparr>sm_complex := c\<rparr>))) (\<lambda>s.
                  Some (bindE (from_reduction ordp (sm_reduction s) (sm_complex s)) (\<lambda>P.
                    Inr (Some (num_simplices new_complex), take_snapshot now rnd (s\<lparr>sm_persistence := P\<rparr>))))))))"

definition streaming_reset :: "streaming_persistence \<Rightarrow> streaming_persistence" where
  "streaming_reset s =
     s\<lparr>sm_complex := complex_new, sm_matrix := from_complex complex_new,
       sm_reduction := \<lparr>rr_matrix = from_complex complex_new, rr_pairs = [], rr_unpaired = []\<rparr>,
       sm_persistence := persistence_data_new, sm_last_reduced_index := 0, sm_snapshots := [],
       sm_total_reductions := 0, sm_total_xors := 0\<rparr>"

section \<open>The checker\<close>

record f2_config =
  f2_dimension :: nat
  f2_radius :: nat
  f2_axis :: u32
  f2_epsilon :: f64
  f2_timeout_ms :: u64
  f2_use_streaming :: bool
  f2_max_betti_d :: nat
  f2_min_persistence :: f64

definition f2_config_default :: f2_config where
  "f2_config_default = \<lparr>f2_dimension = 3, f2_radius = 5, f2_axis = 0, f2_epsilon = 1 / 10, f2_timeout_ms = 2000,
     f2_use_streaming = False, f2_max_betti_d = 2, f2_min_persistence = 1 / 100\<rparr>"

datatype f2_reason = NoMessages | NoSimplices | DistanceAboveEpsilon | FirstWindow | NotYetStable

datatype f2_result =
    F2Final (f2_stable: bool) (f2_distance: f64) (f2_confidence: f64) (f2_messages: "message_id list") (f2_elapsed: u64)
  | F2Timeout u64 "f64 option"
  | F2Pending f2_reason bool "f64 option"
  | F2Error

record f2_checker =
  fc_config :: f2_config
  fc_previous :: "persistence_diagram option"
  fc_streaming :: "streaming_persistence option"
  fc_round :: u64

definition f2_streaming :: "f2_config \<Rightarrow> streaming_persistence option" where
  "f2_streaming config = (if f2_use_streaming config
     then Some (streaming_new (f2_dimension config) (f2_radius config) (f2_axis config)) else None)"

definition f2_checker_new :: "f2_config \<Rightarrow> f2_checker" where
  "f2_checker_new config = \<lparr>fc_config = config, fc_previous = None, fc_streaming = f2_streaming config, fc_round = 0\<rparr>"

definition f2_checker_clone :: "f2_checker \<Rightarrow> f2_checker" where
  "f2_checker_clone c = \<lparr>fc_config = fc_config c, fc_previous = fc_previous c, fc_streaming = f2_streaming (fc_config c), fc_round = 0\<rparr>"

definition f2_checker_reset :: "f2_checker \<Rightarrow> f2_checker" where
  "f2_checker_reset c = c\<lparr>fc_previous := None\<rparr>"

definition check_h_d_stability :: "persistence_data \<Rightarrow> nat \<Rightarrow> nat \<Rightarrow> f64 \<Rightarrow> bool" where
  "check_h_d_stability P d max_betti_d min_persistence =
     (case get_diagram P d of
        None \<Rightarrow> False
      | Some h_d \<Rightarrow>
          (if max_betti_d < betti_number h_d then False
           else if 0 < num_intervals h_d \<and>
               length (filter_by_persistence min_persistence h_d) < num_intervals h_d div 2 then False
           else True))"

definition evaluate_finality_conditions :: "f2_config \<Rightarrow> bool \<Rightarrow> f64 option \<Rightarrow> adic_message list \<Rightarrow> u64 \<Rightarrow> f2_result" where
  "evaluate_finality_conditions config h_d_stable bottleneck_dist messages elapsed_ms =
     (if h_d_stable then
        (case bottleneck_dist of
           Some gap \<Rightarrow>
             (if gap < f2_epsilon config then
                (let confidence = (f2_epsilon config - gap) / f2_epsilon config
                 in F2Final True gap (min (max confidence 0) 1) (map am_id messages) elapsed_ms)
              else F2Pending DistanceAboveEpsilon True (Some gap))
         | None \<Rightarrow> F2Pending FirstWindow True None)
      else F2Pending NotYetStable False bottleneck_dist)"

text \<open>\<open>dimension - 1\<close> wraps around at zero.\<close>

definition usize_pred :: "nat \<Rightarrow> nat" where
  "usize_pred d = (if d = 0 then 2 ^ 64 - 1 else d - 1)"

definition distance_to_previous :: "persistence_diagram option \<Rightarrow> persistence_diagram option \<Rightarrow> panic + f64 option" where
  "distance_to_previous previous current =
     (case (previous, current) of
        (Some prev, Some cur) \<Rightarrow> map_sum id Some (bottleneck_distance prev cur)
      | _ \<Rightarrow> Inr None)"

definition keep_current :: "persistence_diagram option \<Rightarrow> f2_checker \<Rightarrow> f2_checker" where
  "keep_current current c = (case current of None \<Rightarrow> c | Some cur \<Rightarrow> c\<lparr>fc_previous := Some cur\<rparr>)"

definition check_finality_batch :: "ball_order \<Rightarrow> pair_order \<Rightarrow> (nat \<Rightarrow> nat) \<Rightarrow> adic_message list \<Rightarrow> f2_checker \<Rightarrow>
    (panic + f2_result \<times> f2_checker) option" where
  "check_finality_batch ordb ordp elapsed messages c =
     (let config = fc_config c; timed_out = (\<lambda>k. unat (f2_timeout_ms config) < elapsed k) in
      if messages = [] then Some (Inr (F2Pending NoMessages False None, c))
      else
        Option.bind (build_from_messages ordb messages (f2_axis config) (f2_radius config) (f2_dimension config) complex_builder_new)
          (\<lambda>(b, complex).
        if num_simplices complex = 0 then Some (Inr (F2Pending NoSimplices False None, c))
        else if timed_out 0 then Some (Inr (F2Timeout (of_nat (elapsed 1)) None, c))
        else
          Option.bind (reduce_boundary_matrix (from_complex complex)) (\<lambda>reduction_result.
          if timed_out 2 then Some (Inr (F2Timeout (of_nat (elapsed 3)) None, c))
          else Some (bindE (from_reduction ordp reduction_result complex) (\<lambda>P.
            let h_d_stable = check_h_d_stability P (f2_dimension config) (f2_max_betti_d config) (f2_min_persistence config);
                current = get_diagram P (usize_pred (f2_dimension config))
            in if fc_previous c \<noteq> None \<and> current \<noteq> None \<and> timed_out 4
               then Inr (F2Timeout (of_nat (elapsed 5)) None, c)
               else bindE (distance_to_previous (fc_previous c) current) (\<lambda>bottleneck_dist.
                 Inr (evaluate_finality_conditions config h_d_stable bottleneck_dist messages (of_nat (elapsed 6)),
                      keep_current current c)))))))"

definition check_finality_streaming :: "ball_order \<Rightarrow> pair_order \<Rightarrow> i64 \<Rightarrow> (nat \<Rightarrow> nat) \<Rightarrow> adic_message list \<Rightarrow> f2_checker \<Rightarrow>
    (panic + f2_result \<times> f2_checker) option" where
  "check_finality_streaming ordb ordp now elapsed messages c =
     (let config = fc_config c in
      if messages = [] then Some (Inr (F2Pending NoMessages False None, c))
      else case fc_streaming c of
          None \<Rightarrow> Some (Inl UnwrapFailed)
        | Some streaming \<Rightarrow>
            map_option (\<lambda>r. bindE r (\<lambda>(added, streaming).
              case added of
                None \<Rightarrow> Inr (F2Error, c\<lparr>fc_streaming := Some streaming\<rparr>)
              | Some new_simplices \<Rightarrow>
                  (let P = sm_persistence streaming;
                       h_d_stable = check_h_d_stability P (f2_dimension config) (f2_max_betti_d config) (f2_min_persistence config);
                       current = get_diagram P (usize_pred (f2_dimension config));
                       c = c\<lparr>fc_streaming := Some streaming, fc_round := fc_round c + 1\<rparr>
                   in bindE (distance_to_previous (fc_previous c) current) (\<lambda>bottleneck_dist.
                        Inr (evaluate_finality_conditions config h_d_stable bottleneck_dist messages (of_nat (elapsed 0)),
                             keep_current current c)))))
              (streaming_add_messages ordb ordp now messages (fc_round c) streaming))"

definition f2_check_finality :: "ball_order \<Rightarrow> pair_order \<Rightarrow> i64 \<Rightarrow> (nat \<Rightarrow> nat) \<Rightarrow> adic_message list \<Rightarrow> f2_checker \<Rightarrow>
    (panic + f2_result \<times> f2_checker) option" where
  "f2_check_finality ordb ordp now elapsed messages c =
     (if f2_use_streaming (fc_config c) then check_finality_streaming ordb ordp now elapsed messages c
      else check_finality_batch ordb ordp elapsed messages c)"

section \<open>Verdicts\<close>

lemma distance_to_previous_Some:
  assumes "distance_to_previous previous current = Inr (Some e)"
  shows "\<exists>prev cur. previous = Some prev \<and> current = Some cur \<and> bottleneck_distance prev cur = Inr e"
  using assms by (auto simp: distance_to_previous_def split: option.splits) (metis map_sum.simps obj_sumE option.inject sum.inject(2) sum.distinct(1))

text \<open>when the check of a window declares messages final, it finalizes the messages of the window,
  the top homology has few enough infinite bars, and the diagram below it can be matched with that of
  the previous window within less than epsilon.\<close>

theorem f2_final_is_stable:
  assumes "check_finality_batch ordb ordp elapsed messages c = Some (Inr (F2Final steady gap confidence ids ms, c'))"
  shows "\<exists>prev cur P. fc_previous c = Some prev \<and> fc_previous c' = Some cur \<and>
    get_diagram P (usize_pred (f2_dimension (fc_config c))) = Some cur \<and>
    matchable (finite_points prev) (finite_points cur) gap \<and> gap < f2_epsilon (fc_config c) \<and>
    (\<exists>h. get_diagram P (f2_dimension (fc_config c)) = Some h \<and> betti_number h \<le> f2_max_betti_d (fc_config c)) \<and>
    steady \<and> ids = map am_id messages \<and> messages \<noteq> [] \<and> 0 \<le> confidence \<and> confidence \<le> 1"
proof -
  let ?config = "fc_config c"
  obtain P bd where bd: "distance_to_previous (fc_previous c) (get_diagram P (usize_pred (f2_dimension ?config))) = Inr bd"
    and ev: "evaluate_finality_conditions ?config
        (check_h_d_stability P (f2_dimension ?config) (f2_max_betti_d ?config) (f2_min_persistence ?config)) bd messages (of_nat (elapsed 6)) =
      F2Final steady gap confidence ids ms"
    and c': "c' = keep_current (get_diagram P (usize_pred (f2_dimension ?config))) c" and "messages \<noteq> []"
    using assms by (auto simp: check_finality_batch_def Let_def bindE_Inr_iff split: if_splits bind_splits) metis+
  then have st: "check_h_d_stability P (f2_dimension ?config) (f2_max_betti_d ?config) (f2_min_persistence ?config)"
    and e: "bd = Some gap" "gap < f2_epsilon ?config" "steady" "ids = map am_id messages" "0 \<le> confidence" "confidence \<le> 1"
    by (auto simp: evaluate_finality_conditions_def Let_def split: if_splits option.splits)
  from distance_to_previous_Some bd e(1) obtain prev cur where pc: "fc_previous c = Some prev"
    "get_diagram P (usize_pred (f2_dimension ?config)) = Some cur" "bottleneck_distance prev cur = Inr gap"
    by blast
  moreover have "\<exists>h. get_diagram P (f2_dimension ?config) = Some h \<and> betti_number h \<le> f2_max_betti_d ?config"
    using st by (auto simp: check_h_d_stability_def not_less split: option.splits if_splits)
  ultimately show ?thesis
    using bottleneck_upper_bound [OF pc(3)] e c' \<open>messages \<noteq> []\<close> by (auto simp: keep_current_def)
qed

section \<open>Combinations\<close>

definition comb_rel :: "nat \<Rightarrow> (nat list \<times> nat list) set" where
  "comb_rel n = lex {(x, y). y < x \<and> x \<le> n}"

lemma wf_comb_rel: "wf (comb_rel n)"
proof -
  have "{(x, y). y < x \<and> x \<le> n} \<subseteq> measure (\<lambda>x. n - x)"
    by auto
  then show ?thesis
    unfolding comb_rel_def by (intro wf_lex wf_subset [OF wf_measure])
qed

definition combination_ok :: "nat \<Rightarrow> nat list \<Rightarrow> bool" where
  "combination_ok n is \<longleftrightarrow> sorted_wrt (<) is \<and> (\<forall>x \<in> set is. x < n)"

lemma find_SomeD: "find P xs = Some x \<Longrightarrow> x \<in> set xs \<and> P x"
  by (induction xs) (auto split: if_splits)

lemma next_combination_ok:
  assumes "next_combination is n = Some is'" and "combination_ok n is" and "length is \<le> n"
  shows "combination_ok n is' \<and> (is', is) \<in> comb_rel n \<and> length is' = length is"
proof -
  let ?k = "length is"
  obtain i where i: "i < ?k" "is ! i < n - ?k + i" and is': "is' = take i is @ map (\<lambda>j. is ! i + 1 + (j - i)) [i..<?k]"
    using assms(1) by (auto simp: next_combination_def Let_def dest!: find_SomeD split: if_splits)
  have tail: "[i..<?k] = i # [Suc i..<?k]"
    using i by (simp add: upt_conv_Cons)
  have split: "is = take i is @ is ! i # drop (Suc i) is"
    using i by (simp add: id_take_nth_drop)
  have sorted: "sorted_wrt (<) (take i is @ is ! i # drop (Suc i) is)"
    using assms(2) split by (simp add: combination_ok_def)
  have "\<forall>x \<in> set (map (\<lambda>j. is ! i + 1 + (j - i)) [i..<?k]). is ! i < x \<and> x < n"
    using i assms(3) by auto
  moreover have "sorted_wrt (<) (map (\<lambda>j. is ! i + 1 + (j - i)) [i..<?k])"
    by (auto simp: sorted_wrt_map sorted_wrt_iff_nth_less)
  moreover have "\<forall>x \<in> set (take i is). x < is ! i \<and> x < n"
    using sorted assms(2) i by (auto simp: sorted_wrt_append combination_ok_def dest: in_set_takeD)
  ultimately have "combination_ok n is'"
    using sorted unfolding combination_ok_def is' by (auto simp: sorted_wrt_append) force+
  moreover have "(is', is) \<in> comb_rel n"
  proof -
    have "is' = take i is @ (is ! i + 1) # map (\<lambda>j. is ! i + 1 + (j - i)) [Suc i..<?k]"
      by (simp add: is' tail)
    moreover have "is ! i + 1 \<le> n"
      using i assms(3) by linarith
    moreover have "length is' = length is"
      using i by (simp add: is')
    ultimately show ?thesis
      unfolding comb_rel_def lex_conv using split by (auto intro!: exI [of _ "take i is"]) blast
  qed
  moreover have "length is' = length is"
    using i by (simp add: is')
  ultimately show ?thesis by blast
qed

section \<open>The complex that is built\<close>

definition builder_ok :: "complex_builder \<Rightarrow> bool" where
  "builder_ok b \<longleftrightarrow> (\<forall>i v. cb_message_to_vertex b i = Some v \<longrightarrow> v < cb_next_vertex_id b) \<and>
     (\<forall>i j v. cb_message_to_vertex b i = Some v \<longrightarrow> cb_message_to_vertex b j = Some v \<longrightarrow> i = j)"

lemma get_or_create_vertex_ok:
  assumes "get_or_create_vertex i b = (v, b')" and "builder_ok b"
  shows "builder_ok b' \<and> cb_message_to_vertex b \<subseteq>\<^sub>m cb_message_to_vertex b' \<and> cb_message_to_vertex b' i = Some v"
  using assms by (auto simp: get_or_create_vertex_def builder_ok_def map_le_def Let_def dom_def split: option.splits if_splits
    dest: less_not_refl2) (metis less_irrefl less_SucI option.inject)+

lemma combination_simplex_ok:
  assumes "combination_simplex messages is vs w b = (vs', w', b')" and "builder_ok b"
  shows "builder_ok b' \<and> cb_message_to_vertex b \<subseteq>\<^sub>m cb_message_to_vertex b' \<and>
    (\<exists>us. vs' = vs @ us \<and> map (\<lambda>k. cb_message_to_vertex b' (fst (messages ! k))) is = map Some us)"
  using assms
proof (induction "is" arbitrary: vs w b)
  case (Cons k ks)
  obtain i weight where m: "messages ! k = (i, weight)" by force
  obtain v b1 where v: "get_or_create_vertex i b = (v, b1)" by force
  note b1 = get_or_create_vertex_ok [OF v Cons.prems(2)]
  have "combination_simplex messages ks (vs @ [v]) (max w weight) b1 = (vs', w', b')"
    using Cons.prems(1) m v by simp
  from Cons.IH [OF this] b1 obtain us where us: "builder_ok b'" "cb_message_to_vertex b1 \<subseteq>\<^sub>m cb_message_to_vertex b'"
    "vs' = (vs @ [v]) @ us" "map (\<lambda>k. cb_message_to_vertex b' (fst (messages ! k))) ks = map Some us"
    by blast
  have "cb_message_to_vertex b' i = Some v"
    using us(2) b1 by (metis domI map_le_def)
  with us b1 m show ?case
    by (auto intro: map_le_trans intro!: exI [of _ "v # us"])
qed auto

definition grow :: "simplicial_complex \<Rightarrow> nat list \<times> f64 \<Rightarrow> simplicial_complex" where
  "grow c a = (case a of (vertices, weight) \<Rightarrow> snd (add_simplex_with_faces vertices weight c))"

definition grown :: "simplicial_complex \<Rightarrow> simplicial_complex \<Rightarrow> bool" where
  "grown c c' \<longleftrightarrow> (\<exists>adds. proper_adds adds \<and> c' = foldl grow c adds)"

lemma grown_refl: "grown c c"
  unfolding grown_def by (rule exI [of _ "[]"]) (simp add: proper_adds_def)

lemma grown_trans: "grown c c' \<Longrightarrow> grown c' c'' \<Longrightarrow> grown c c''"
proof -
  assume "grown c c'" "grown c' c''"
  then obtain adds adds' where "proper_adds adds" "proper_adds adds'" "c'' = foldl grow c (adds @ adds')"
    by (auto simp: grown_def)
  then show "grown c c''"
    unfolding grown_def by (intro exI [of _ "adds @ adds'"]) (simp add: proper_adds_def)
qed

lemma grown_add: "distinct vs \<Longrightarrow> vs \<noteq> [] \<Longrightarrow> grown c (snd (add_simplex_with_faces vs w c))"
  unfolding grown_def by (rule exI [of _ "[(vs, w)]"]) (simp add: proper_adds_def grow_def)

lemma distinct_vertices:
  assumes "builder_ok b" and "distinct (map fst messages)" and "combination_ok (length messages) is"
    and "map (\<lambda>k. cb_message_to_vertex b (fst (messages ! k))) is = map Some us"
  shows "distinct us"
proof -
  have "distinct is"
    using assms(3) by (simp add: combination_ok_def strict_sorted_iff)
  moreover have "inj_on (\<lambda>k. cb_message_to_vertex b (fst (messages ! k))) (set is)"
  proof (rule inj_onI)
    fix k l assume kl: "k \<in> set is" "l \<in> set is"
      and eq: "cb_message_to_vertex b (fst (messages ! k)) = cb_message_to_vertex b (fst (messages ! l))"
    have "cb_message_to_vertex b (fst (messages ! k)) \<in> Some ` set us"
      using kl(1) assms(4) by (metis (no_types, lifting) image_eqI set_map)
    then have "fst (messages ! k) = fst (messages ! l)"
      using assms(1) eq unfolding builder_ok_def by (metis imageE)
    moreover have "k < length messages" "l < length messages"
      using kl assms(3) by (auto simp: combination_ok_def)
    ultimately show "k = l"
      using assms(2) by (metis length_map nth_eq_iff_index_eq nth_map)
  qed
  ultimately have "distinct (map Some us)"
    unfolding assms(4) [symmetric] by (simp add: distinct_map)
  then show ?thesis by (simp add: distinct_map)
qed

lemma combination_loop_returns:
  assumes "distinct (map fst messages)" and "combination_ok (length messages) is" and "length is \<le> length messages"
    and "is \<noteq> []" and "builder_ok b"
  shows "\<exists>b' c'. combination_loop messages is b c = Some (b', c') \<and> builder_ok b' \<and> grown c c'"
  using assms(2-)
proof (induction "is" arbitrary: b c rule: wf_induct_rule [OF wf_comb_rel [of "length messages"]])
  case (1 "is")
  obtain vs w b1 where s: "combination_simplex messages is [] 0 b = (vs, w, b1)"
    by (metis prod_cases3)
  from combination_simplex_ok [OF this "1.prems"(4)]
  have b1: "builder_ok b1" and us: "map (\<lambda>k. cb_message_to_vertex b1 (fst (messages ! k))) is = map Some vs"
    by auto
  have "distinct vs"
    by (rule distinct_vertices [OF b1 assms(1) "1.prems"(1) us])
  moreover have "vs \<noteq> []"
    using us "1.prems"(3) by auto
  ultimately have g: "grown c (snd (add_simplex_with_faces vs w c))"
    by (rule grown_add)
  show ?case
  proof (cases "next_combination is (length messages)")
    case None
    with s b1 g show ?thesis
      by (subst combination_loop.simps) (simp add: Let_def)
  next
    case (Some is')
    from next_combination_ok [OF this "1.prems"(1,2)]
    have n: "combination_ok (length messages) is'" "(is', is) \<in> comb_rel (length messages)" "length is' = length is"
      by blast+
    then have "\<exists>b' c'. combination_loop messages is' b1 (snd (add_simplex_with_faces vs w c)) = Some (b', c') \<and> builder_ok b' \<and>
        grown (snd (add_simplex_with_faces vs w c)) c'"
      using "1.prems"(2,3) b1 by (intro "1.IH") auto
    with s Some g show ?thesis
      by (subst combination_loop.simps) (auto simp: Let_def intro: grown_trans)
  qed
qed

definition groups_ok :: "(bytes \<times> weighted_message list) list \<Rightarrow> bool" where
  "groups_ok gs \<longleftrightarrow> (\<forall>g \<in> set gs. distinct (map fst (snd g)))"

lemma ball_loop_returns:
  assumes "groups_ok gs" and "builder_ok b"
  shows "\<exists>b' c'. ball_loop d gs b c = Some (b', c') \<and> builder_ok b' \<and> grown c c'"
  using assms
proof (induction gs arbitrary: b c)
  case (Cons g gs)
  have g: "distinct (map fst (snd g))" "groups_ok gs"
    using Cons.prems(1) by (auto simp: groups_ok_def)
  show ?case
  proof (cases "length (snd g) < d + 1")
    case True
    with Cons.IH [OF g(2) Cons.prems(2)] show ?thesis by simp
  next
    case False
    have "combination_ok (length (snd g)) [0..<Suc d]"
      using False by (auto simp: combination_ok_def simp del: upt_Suc)
    from combination_loop_returns [OF g(1) this, of b c] False Cons.prems(2)
    obtain b1 c1 where "create_simplices_from_ball (snd g) d b c = Some (b1, c1)" "builder_ok b1" "grown c c1"
      by (auto simp: create_simplices_from_ball_def simp del: upt_Suc)
    with Cons.IH [OF g(2), of b1 c1] False show ?thesis
      by (auto intro: grown_trans)
  qed
qed (auto intro: grown_refl)

lemma group_message_keys:
  assumes "distinct (map fst gs)" and "\<forall>g \<in> set gs. distinct (map fst (snd g)) \<and> fst ` set (snd g) \<subseteq> A" and "am_id m \<notin> A"
  shows "distinct (map fst (group_message axis radius gs m)) \<and>
    (\<forall>g \<in> set (group_message axis radius gs m). distinct (map fst (snd g)) \<and> fst ` set (snd g) \<subseteq> insert (am_id m) A)"
proof (cases "find (\<lambda>phi. axis_index (ap_axis phi) = axis) (af_phi (am_features m))")
  case None
  with assms show ?thesis by (auto simp: group_message_def)
next
  case (Some phi)
  define ball where "ball = ball_id (ap_digits phi) radius"
  define ms where "ms = (case map_of gs ball of None \<Rightarrow> [] | Some ms \<Rightarrow> ms)"
  have ms: "distinct (map fst ms)" "fst ` set ms \<subseteq> A"
  proof (atomize (full), cases "map_of gs ball")
    case (Some xs)
    then have "(ball, xs) \<in> set gs"
      by (rule map_of_SomeD)
    then show "distinct (map fst ms) \<and> fst ` set ms \<subseteq> A"
      using bspec [OF assms(2), of "(ball, xs)"] Some by (simp add: ms_def)
  qed (simp add: ms_def)
  have g: "group_message axis radius gs m = AList.update ball (ms @ [(am_id m, real_of_int (unix_secs (mt_timestamp (am_meta m))))]) gs"
    by (simp add: group_message_def Some push_group_def ball_def ms_def)
  define xs where "xs = ms @ [(am_id m, real_of_int (unix_secs (mt_timestamp (am_meta m))))]"
  have xs: "distinct (map fst xs)" "fst ` set xs \<subseteq> insert (am_id m) A"
    using ms assms(3) by (auto simp: xs_def)
  have sub: "set (AList.update ball xs gs) \<subseteq> insert (ball, xs) (set gs)"
    by (induction gs) auto
  have "distinct (map fst (snd h)) \<and> fst ` set (snd h) \<subseteq> insert (am_id m) A" if "h \<in> set (AList.update ball xs gs)" for h
    using subsetD [OF sub that] xs assms(2) by (metis insert_iff snd_conv subset_insertI2)
  then show ?thesis
    unfolding g xs_def [symmetric] using distinct_update [OF assms(1)] by blast
qed

lemma grouping_ok:
  assumes "distinct (map am_id messages)"
  shows "groups_ok (foldl (group_message axis radius) [] messages)"
proof -
  have "distinct (map fst (foldl (group_message axis radius) gs ms)) \<and>
      (\<forall>g \<in> set (foldl (group_message axis radius) gs ms). distinct (map fst (snd g)))"
    if "distinct (map am_id ms)" "distinct (map fst gs)" "\<forall>g \<in> set gs. distinct (map fst (snd g)) \<and> fst ` set (snd g) \<subseteq> A"
      "A \<inter> am_id ` set ms = {}" for ms gs A
    using that
  proof (induction ms arbitrary: gs A)
    case (Cons m ms)
    have "am_id m \<notin> A"
      using Cons.prems(4) by auto
    note keys = group_message_keys [OF Cons.prems(2,3) this, of axis radius]
    show ?case
      unfolding foldl_Cons by (rule Cons.IH [where A = "insert (am_id m) A"]) (use keys Cons.prems(1,4) in auto)
  qed auto
  from this [of messages "[]" "{}"] assms show ?thesis by (simp add: groups_ok_def)
qed

lemma build_from_messages_returns:
  assumes "distinct (map am_id messages)" and "\<And>gs. set (ordb gs) = set gs"
  shows "\<exists>b adds. build_from_messages ordb messages axis radius d complex_builder_new =
    Some (b, if messages = [] then complex_new else sort_by_filtration (add_all adds)) \<and> proper_adds adds"
proof -
  have "groups_ok (ordb (foldl (group_message axis radius) [] messages))"
    using grouping_ok [OF assms(1), of axis radius] assms(2) by (simp add: groups_ok_def)
  moreover have "builder_ok complex_builder_new"
    by (simp add: builder_ok_def complex_builder_new_def)
  ultimately obtain b c where bc: "ball_loop d (ordb (foldl (group_message axis radius) [] messages)) complex_builder_new complex_new = Some (b, c)"
      "grown complex_new c"
    using ball_loop_returns by blast
  then obtain adds where "proper_adds adds" "c = add_all adds"
    by (auto simp: grown_def add_all_def grow_def [abs_def])
  with bc show ?thesis
    by (auto simp: build_from_messages_def proper_adds_def)
qed

section \<open>The check returns\<close>

definition data_ok :: "persistence_data \<Rightarrow> bool" where
  "data_ok P \<longleftrightarrow> (\<forall>d D. pe_diagrams P d = Some D \<longrightarrow> pd_dimension D = d)"

lemma record_interval_ok:
  assumes "data_ok P"
  shows "\<exists>P'. record_interval i P = Inr P' \<and> data_ok P'"
  using assms by (auto simp: record_interval_def add_interval_def data_ok_def Let_def diagram_new_def split: option.splits)

lemma paired_loop_ok:
  assumes "\<forall>(k, p) \<in> set es. k < num_simplices c \<and> p < num_simplices c" and "data_ok P"
  shows "\<exists>P'. paired_loop c es P = Inr P' \<and> data_ok P'"
  using assms
proof (induction es arbitrary: P)
  case (Cons e es)
  obtain k p where e: "e = (k, p)" by force
  have k: "unwrap (get_simplex c k) = Inr (sc_simplices c ! k)" "unwrap (get_simplex c p) = Inr (sc_simplices c ! p)"
    using Cons.prems(1) by (auto simp: e unwrap_def get_simplex_def vget_def num_simplices_def)
  obtain P1 where "record_interval (finite_interval (sx_weight (sc_simplices c ! p)) (sx_weight (sc_simplices c ! k))
      (sx_dimension (sc_simplices c ! p))) P = Inr P1" "data_ok P1"
    using record_interval_ok [OF Cons.prems(2)] by blast
  with Cons k show ?case by (simp add: e)
qed simp

lemma unpaired_loop_ok:
  assumes "\<forall>k \<in> set ks. k < num_simplices c" and "data_ok P"
  shows "\<exists>P'. unpaired_loop c ks P = Inr P' \<and> data_ok P'"
  using assms
proof (induction ks arbitrary: P)
  case (Cons k ks)
  have k: "unwrap (get_simplex c k) = Inr (sc_simplices c ! k)"
    using Cons.prems(1) by (auto simp: unwrap_def get_simplex_def vget_def num_simplices_def)
  obtain P1 where "record_interval (infinite_interval (sx_weight (sc_simplices c ! k)) (sx_dimension (sc_simplices c ! k))) P = Inr P1"
      "data_ok P1"
    using record_interval_ok [OF Cons.prems(2)] by blast
  with Cons k show ?case by simp
qed simp

lemma from_reduction_ok:
  assumes "proper_adds adds" and "\<And>es. set (ordp es) = set es"
  defines "c \<equiv> sort_by_filtration (add_all adds)"
  shows "\<exists>R P. reduce_boundary_matrix (from_complex c) = Some R \<and> from_reduction ordp R c = Inr P \<and> data_ok P"
proof -
  obtain R where R: "reduce_boundary_matrix (from_complex c) = Some R"
    and cover: "set (map fst (rr_pairs R) @ map snd (rr_pairs R) @ rr_unpaired R) = {..<num_simplices c}"
    using pairing_is_matching [OF assms(1)] unfolding c_def by blast
  have "\<forall>(k, p) \<in> set (ordp (rr_pairs R)). k < num_simplices c \<and> p < num_simplices c"
    using cover unfolding assms(2) by force
  moreover have "data_ok persistence_data_new"
    by (simp add: data_ok_def persistence_data_new_def)
  ultimately obtain P where P: "paired_loop c (ordp (rr_pairs R)) persistence_data_new = Inr P" "data_ok P"
    using paired_loop_ok by blast
  have "\<forall>k \<in> set (rr_unpaired R). k < num_simplices c"
    using cover by auto
  with P R unpaired_loop_ok [of "rr_unpaired R" c P] show ?thesis
    by (auto simp: from_reduction_def)
qed

definition checker_ok :: "f2_checker \<Rightarrow> bool" where
  "checker_ok c \<longleftrightarrow> (\<forall>D. fc_previous c = Some D \<longrightarrow> pd_dimension D = usize_pred (f2_dimension (fc_config c)))"

lemma checker_ok_new: "checker_ok (f2_checker_new config)"
  by (simp add: checker_ok_def f2_checker_new_def)

lemma distance_to_previous_returns:
  assumes "\<And>D. previous = Some D \<Longrightarrow> pd_dimension D = k" and "\<And>D. current = Some D \<Longrightarrow> pd_dimension D = k"
  shows "\<exists>r. distance_to_previous previous current = Inr r"
  using assms by (auto simp: distance_to_previous_def bottleneck_distance_def Let_def split: option.split)

text \<open>the check of a window of distinct messages returns, without a panic, whatever the hash orders
  and the readings of the clock, and leaves a checker for which this holds again.\<close>

theorem f2_check_returns:
  assumes "checker_ok c" and "distinct (map am_id messages)"
    and "\<And>gs. set (ordb gs) = set gs" and "\<And>es. set (ordp es) = set es"
  shows "\<exists>r c'. check_finality_batch ordb ordp elapsed messages c = Some (Inr (r, c')) \<and> checker_ok c' \<and> fc_config c' = fc_config c"
proof (cases "messages = []")
  case True
  with assms(1) show ?thesis by (simp add: check_finality_batch_def)
next
  case False
  let ?config = "fc_config c"
  obtain b adds where build: "build_from_messages ordb messages (f2_axis ?config) (f2_radius ?config) (f2_dimension ?config) complex_builder_new =
      Some (b, sort_by_filtration (add_all adds))" and proper: "proper_adds adds"
    using build_from_messages_returns [where ordb = ordb, OF assms(2,3), of "f2_axis ?config" "f2_radius ?config" "f2_dimension ?config"] False by auto
  define cx where "cx = sort_by_filtration (add_all adds)"
  obtain R P where R: "reduce_boundary_matrix (from_complex cx) = Some R" and P: "from_reduction ordp R cx = Inr P" "data_ok P"
    using from_reduction_ok [where ordp = ordp, OF proper assms(4)] unfolding cx_def by blast
  define current where "current = get_diagram P (usize_pred (f2_dimension ?config))"
  have dims: "pd_dimension D = usize_pred (f2_dimension ?config)" if "current = Some D" for D
    using that P(2) by (auto simp: current_def get_diagram_def data_ok_def)
  obtain bd where bd: "distance_to_previous (fc_previous c) current = Inr bd"
    using distance_to_previous_returns [of "fc_previous c" "usize_pred (f2_dimension ?config)" current] assms(1) dims
    by (auto simp: checker_ok_def)
  have "checker_ok (keep_current current c) \<and> fc_config (keep_current current c) = ?config"
    using assms(1) dims by (auto simp: checker_ok_def keep_current_def split: option.split)
  with False build R P(1) bd assms(1) show ?thesis
    by (simp add: check_finality_batch_def Let_def cx_def [symmetric] current_def)
qed

section \<open>Streaming\<close>

text \<open>The boundary matrix of two vertices and the edge between them.\<close>

definition edge_stream :: streaming_persistence where
  "edge_stream = (streaming_new 1 5 0)\<lparr>sm_matrix := \<lparr>bm_columns = [[], [], [0, 1]], bm_pivots = []\<rparr>\<rparr>"

text \<open>the streaming engine keeps a birth among the unpaired simplices when it is paired later, so that
  an edge between two vertices leaves two infinite bars in dimension 0, where the batch reduction leaves one.\<close>

theorem streaming_keeps_dead_bars:
  "(\<exists>s. incremental_reduce 0 edge_stream = Some s \<and> rr_pairs (sm_reduction s) = [(2, 1)] \<and> rr_unpaired (sm_reduction s) = [0, 1]) \<and>
   (\<exists>R. reduce_boundary_matrix (sm_matrix edge_stream) = Some R \<and> rr_pairs R = [(2, 1)] \<and> rr_unpaired R = [0])"
proof
  have cols: "[0..<3] = [0, 1, 2 :: nat]"
    by (simp add: upt_rec)
  show "\<exists>s. incremental_reduce 0 edge_stream = Some s \<and> rr_pairs (sm_reduction s) = [(2, 1)] \<and> rr_unpaired (sm_reduction s) = [0, 1]"
    by (simp add: incremental_reduce_def edge_stream_def num_columns_def cols stream_step_def stream_column.simps lowest_face_def
        get_column_def last_of_def find_column_with_pivot_def update_pivot_def streaming_new_def is_empty_column_def Let_def
        numeral_3_eq_3 numeral_2_eq_2 upt_rec)
  show "\<exists>R. reduce_boundary_matrix (sm_matrix edge_stream) = Some R \<and> rr_pairs R = [(2, 1)] \<and> rr_unpaired R = [0]"
    by (simp add: reduce_boundary_matrix_def edge_stream_def num_columns_def cols reduce_column.simps lowest_face_def
        get_column_def last_of_def find_column_with_pivot_def update_pivot_def streaming_new_def clear_pivots_def
        extract_result_def extract_pairs_def Let_def numeral_3_eq_3 numeral_2_eq_2 upt_rec)
qed

section \<open>A window that becomes final\<close>

definition ball_message :: "message_id \<Rightarrow> adic_message" where
  "ball_message i = \<lparr>am_id = i, am_parents = [], am_features = \<lparr>af_phi = [\<lparr>ap_axis = AxisId 0, ap_digits = \<lparr>qd_digits = [0], qd_p = 3\<rparr>\<rparr>]\<rparr>,
     am_meta = meta_new 0, am_proposer = [], am_signature = [], am_transfer = None, am_data = []\<rparr>"

definition window :: "adic_message list" where
  "window = [ball_message [1], ball_message [2], ball_message [3]]"

definition window_diagram :: persistence_diagram where
  "window_diagram = \<lparr>pd_dimension = 0, pd_intervals = [finite_interval 0 0 0, finite_interval 0 0 0, infinite_interval 0 0]\<rparr>"

definition window_checker :: f2_checker where
  "window_checker = (f2_checker_new (f2_config_default\<lparr>f2_dimension := 1\<rparr>))
     \<lparr>fc_previous := Some window_diagram\<rparr>"

lemma window_groups: "foldl (group_message 0 5) [] window = [([0], [([1], 0), ([2], 0), ([3], 0)])]"
  by (simp add: window_def ball_message_def group_message_def push_group_def ball_id_def qp_ball_id_def meta_new_def unix_secs_def)

definition window_complex :: simplicial_complex where
  "window_complex = sort_by_filtration (snd (add_simplex_with_faces [1, 2] 0
     (snd (add_simplex_with_faces [0, 2] 0 (snd (add_simplex_with_faces [0, 1] 0 complex_new))))))"

lemma window_build: "\<exists>b. build_from_messages id window 0 5 1 complex_builder_new = Some (b, window_complex)"
proof -
  have upt: "[0..<Suc 1] = [0, 1]" "[0..<2] = [0, 1 :: nat]" by (simp_all add: upt_rec)
  have nexts: "next_combination [0, Suc 0] (Suc (Suc (Suc 0))) = Some [0, 2]"
    "next_combination [0, 2] (Suc (Suc (Suc 0))) = Some [Suc 0, 2]" "next_combination [Suc 0, 2] (Suc (Suc (Suc 0))) = None"
    by (simp_all add: next_combination_def upt_rec numeral_3_eq_3 numeral_2_eq_2)
  show ?thesis
    by (simp add: build_from_messages_def window_groups create_simplices_from_ball_def upt combination_loop.simps nexts
        get_or_create_vertex_def complex_builder_new_def window_complex_def Let_def)
       (simp add: window_def numeral_2_eq_2)
qed

definition point_simplex :: "nat \<Rightarrow> nat \<Rightarrow> simplex" where
  "point_simplex i v = \<lparr>sx_id = i, sx_vertices = [v], sx_dimension = 0, sx_weight = 0\<rparr>"

definition edge_simplex :: "nat \<Rightarrow> nat \<Rightarrow> nat \<Rightarrow> simplex" where
  "edge_simplex i u v = \<lparr>sx_id = i, sx_vertices = [u, v], sx_dimension = 1, sx_weight = 0\<rparr>"

lemma add_point: "add_simplex_with_faces [v] 0 c = add_simplex [v] 0 c"
  by (subst add_simplex_with_faces.simps) (simp add: faces_def simplex_new_def)

lemma add_two: "u < v \<Longrightarrow> add_simplex_with_faces [u, v] 0 c =
    add_simplex [u, v] 0 (snd (add_simplex [u] 0 (snd (add_simplex [v] 0 c))))"
  by (subst add_simplex_with_faces.simps) (simp add: faces_def simplex_new_def remove_at_def add_point)

lemma window_simplices:
  "sc_simplices window_complex = [point_simplex 0 1, point_simplex 1 0, point_simplex 2 2,
     edge_simplex 3 0 1, edge_simplex 4 0 2, edge_simplex 5 1 2]"
  "sc_index window_complex = [[1] \<mapsto> 0, [0] \<mapsto> 1, [2] \<mapsto> 2, [0, 1] \<mapsto> 3, [0, 2] \<mapsto> 4, [1, 2] \<mapsto> 5]"
  by (simp_all add: window_complex_def add_two add_simplex_def simplex_new_def complex_new_def sort_by_filtration_def
      filtration_key_def point_simplex_def edge_simplex_def Let_def less_prod_def' less_eq_prod_def numeral_eq_Suc)

lemma window_matrix: "from_complex window_complex = \<lparr>bm_columns = [[], [], [], [0, 1], [1, 2], [0, 2]], bm_pivots = []\<rparr>"
  by (simp add: from_complex_def window_simplices get_face_ids_def get_simplex_def point_simplex_def edge_simplex_def
      faces_def remove_at_def get_simplex_id_def List.map_filter_def)

lemma window_reduction:
  "\<exists>R. reduce_boundary_matrix (from_complex window_complex) = Some R \<and> rr_pairs R = [(3, 1), (4, 2)] \<and> rr_unpaired R = [0, 5]"
  by (simp add: reduce_boundary_matrix_def window_matrix num_columns_def reduce_column.simps lowest_face_def
      get_column_def last_of_def find_column_with_pivot_def update_pivot_def clear_pivots_def xor_columns_def
      extract_result_def extract_pairs_def Let_def numeral_eq_Suc upt_rec)

definition window_data :: persistence_data where
  "window_data = \<lparr>pe_diagrams =
     [0 \<mapsto> window_diagram,
      1 \<mapsto> \<lparr>pd_dimension = 1, pd_intervals = [infinite_interval 0 1]\<rparr>], pe_max_dimension = 1\<rparr>"

lemma window_persistence:
  assumes "rr_pairs R = [(3, 1), (4, 2)]" and "rr_unpaired R = [0, 5]"
  shows "from_reduction id R window_complex = Inr window_data"
  using assms by (simp add: from_reduction_def get_simplex_def window_simplices unwrap_def point_simplex_def edge_simplex_def
      record_interval_def add_interval_def diagram_new_def persistence_data_new_def finite_interval_def infinite_interval_def
      window_data_def window_diagram_def numeral_eq_Suc)

lemma window_distance:
  "bottleneck_distance window_diagram
     window_diagram = Inr 0"
  by (simp add: window_diagram_def bottleneck_distance_def finite_points_def List.map_filter_def finite_interval_def infinite_interval_def
      candidate_distances_def linf_distance_def distance_to_diagonal_def search_epsilon.simps)

lemma window_final:
  "check_finality_batch id id (\<lambda>_. 0) window window_checker = Some (Inr (F2Final True 0 1 [[1], [2], [3]] 0, window_checker))"
proof -
  obtain b where b: "build_from_messages id window 0 5 1 complex_builder_new = Some (b, window_complex)"
    using window_build by blast
  obtain R where R: "reduce_boundary_matrix (from_complex window_complex) = Some R" "rr_pairs R = [(3, 1), (4, 2)]" "rr_unpaired R = [0, 5]"
    using window_reduction by blast
  have ids: "map am_id window = [[1], [2], [3]]" "window \<noteq> []"
    by (simp_all add: window_def ball_message_def)
  show ?thesis
    using b R(1) ids(2)
    by (simp add: check_finality_batch_def window_persistence [OF R(2,3)] window_checker_def f2_checker_new_def f2_config_default_def
        num_simplices_def window_simplices Let_def window_data_def get_diagram_def usize_pred_def distance_to_previous_def
        window_distance evaluate_finality_conditions_def check_h_d_stability_def betti_number_def num_infinite_def is_infinite_def
        infinite_interval_def num_intervals_def filter_by_persistence_def persistence_def ids(1) keep_current_def f2_streaming_def)
qed

theorem f2_final_is_stable_witness:
  "\<exists>prev cur. fc_previous window_checker = Some prev \<and> fc_previous window_checker = Some cur \<and>
     matchable (finite_points prev) (finite_points cur) 0 \<and> (0 :: f64) < f2_epsilon (fc_config window_checker)"
  using f2_final_is_stable [OF window_final] by blast

theorem f2_check_returns_witness:
  "\<exists>r c'. check_finality_batch id id (\<lambda>_. 0) window (f2_checker_new f2_config_default) = Some (Inr (r, c')) \<and> checker_ok c'"
proof -
  have "distinct (map am_id window)"
    by (simp add: window_def ball_message_def)
  from f2_check_returns [where ordb = id and ordp = id, OF checker_ok_new this, of "\<lambda>_. 0" f2_config_default] show ?thesis
    by auto
qed

end
