(* ===== verification/Checkpoints.thy ===== *)
theory Checkpoints
  imports Core_Types
begin

text \<open>
  Checkpoints of the finalized state (\<open>crates/adic-finality/src/checkpoint.rs\<close>): their hash, their
  signature, and the Merkle roots over the finalized messages. \<open>sha256\<close> is a parameter, as is the
  signature scheme: \<open>key_ok\<close> tells which byte strings are keys and \<open>verify\<close> checks a
  signature. The method \<open>size\<close>, an estimate of memory, is omitted.
\<close>

record f1_metadata =
  f1_max_k_core :: u64
  f1_finalized_count :: nat
  f1_finalized_messages :: "message_id list"

record f2_metadata =
  f2_stabilized_count :: nat
  f2_stabilized_messages :: "message_id list"
  f2_homology_rank :: "nat option"

definition f1_metadata_new :: "u64 \<Rightarrow> message_id list \<Rightarrow> f1_metadata" where
  "f1_metadata_new k ms = \<lparr>f1_max_k_core = k, f1_finalized_count = length ms, f1_finalized_messages = ms\<rparr>"

definition f1_metadata_empty :: f1_metadata where
  "f1_metadata_empty = \<lparr>f1_max_k_core = 0, f1_finalized_count = 0, f1_finalized_messages = []\<rparr>"

definition f2_metadata_new :: "message_id list \<Rightarrow> nat option \<Rightarrow> f2_metadata" where
  "f2_metadata_new ms r = \<lparr>f2_stabilized_count = length ms, f2_stabilized_messages = ms, f2_homology_rank = r\<rparr>"

definition f2_metadata_empty :: f2_metadata where
  "f2_metadata_empty = \<lparr>f2_stabilized_count = 0, f2_stabilized_messages = [], f2_homology_rank = None\<rparr>"

record checkpoint =
  cp_height :: u64
  cp_timestamp :: i64
  cp_messages_root :: bytes
  cp_witnesses_root :: bytes
  cp_f1 :: f1_metadata
  cp_f2 :: f2_metadata
  cp_prev_hash :: "bytes option"
  cp_signature :: "bytes option"
  cp_signer :: "public_key option"

definition checkpoint_new :: "u64 \<Rightarrow> i64 \<Rightarrow> bytes \<Rightarrow> bytes \<Rightarrow> f1_metadata \<Rightarrow> f2_metadata \<Rightarrow> bytes option \<Rightarrow> checkpoint" where
  "checkpoint_new height timestamp messages_root witnesses_root f1 f2 prev =
     \<lparr>cp_height = height, cp_timestamp = timestamp, cp_messages_root = messages_root,
      cp_witnesses_root = witnesses_root, cp_f1 = f1, cp_f2 = f2, cp_prev_hash = prev, cp_signature = None, cp_signer = None\<rparr>"

definition checkpoint_bytes :: "checkpoint \<Rightarrow> bytes" where
  "checkpoint_bytes c =
     le_bytes (cp_height c) @ le_bytes (of_int (cp_timestamp c)) @ cp_messages_root c @ cp_witnesses_root c @
     le_bytes (f1_max_k_core (cp_f1 c)) @ le_bytes (of_nat (f1_finalized_count (cp_f1 c))) @
     concat (f1_finalized_messages (cp_f1 c)) @
     le_bytes (of_nat (f2_stabilized_count (cp_f2 c))) @ concat (f2_stabilized_messages (cp_f2 c)) @
     (case cp_prev_hash c of None \<Rightarrow> [] | Some h \<Rightarrow> h)"

definition checkpoint_hash :: "(bytes \<Rightarrow> bytes) \<Rightarrow> checkpoint \<Rightarrow> bytes" where
  "checkpoint_hash sha256 c = sha256 (checkpoint_bytes c)"

definition sign_checkpoint :: "public_key \<Rightarrow> bytes \<Rightarrow> checkpoint \<Rightarrow> checkpoint" where
  "sign_checkpoint signer sig c = c\<lparr>cp_signer := Some signer, cp_signature := Some sig\<rparr>"

definition verify_checkpoint_signature ::
    "(bytes \<Rightarrow> bytes) \<Rightarrow> (public_key \<Rightarrow> bool) \<Rightarrow> (public_key \<Rightarrow> bytes \<Rightarrow> bytes \<Rightarrow> bool) \<Rightarrow> checkpoint \<Rightarrow> adic_error + bool" where
  "verify_checkpoint_signature sha256 key_ok verify c =
     (case cp_signature c of
        None \<Rightarrow> Inr False
      | Some sig \<Rightarrow>
          (case cp_signer c of
             None \<Rightarrow> Inr False
           | Some signer \<Rightarrow>
               (if length sig \<noteq> 64 then Inr False
                else if \<not> key_ok signer then Inl SignatureVerification
                else Inr (verify signer (checkpoint_hash sha256 c) sig))))"

definition diverges_from :: "checkpoint \<Rightarrow> checkpoint \<Rightarrow> bool" where
  "diverges_from a b \<longleftrightarrow>
     (if cp_height a \<noteq> cp_height b then False
      else cp_messages_root a \<noteq> cp_messages_root b \<or> cp_witnesses_root a \<noteq> cp_witnesses_root b)"

section \<open>Merkle roots\<close>

type_synonym merkle_builder = "bytes list"

definition merkle_new :: merkle_builder where
  "merkle_new = []"

definition merkle_add :: "(bytes \<Rightarrow> bytes) \<Rightarrow> bytes \<Rightarrow> merkle_builder \<Rightarrow> merkle_builder" where
  "merkle_add sha256 leaf_data leaves = leaves @ [sha256 leaf_data]"

text \<open>One level of the tree: the hashes of \<open>chunks(2)\<close>, an odd last element hashed with itself.\<close>

fun next_level :: "(bytes \<Rightarrow> bytes) \<Rightarrow> bytes list \<Rightarrow> bytes list" where
  "next_level sha256 (x # y # xs) = sha256 (x @ y) # next_level sha256 xs"
| "next_level sha256 [x] = [sha256 (x @ x)]"
| "next_level sha256 [] = []"

lemma length_next_level: "length (next_level sha256 xs) = (length xs + 1) div 2"
  by (induction sha256 xs rule: next_level.induct) auto

function merkle_levels :: "(bytes \<Rightarrow> bytes) \<Rightarrow> bytes list \<Rightarrow> bytes list" where
  "merkle_levels sha256 xs = (if 1 < length xs then merkle_levels sha256 (next_level sha256 xs) else xs)"
  by auto
termination
  by (relation "measure (\<lambda>(sha256, xs). length xs)") (auto simp: length_next_level)

declare merkle_levels.simps [simp del]

definition compute_root :: "(bytes \<Rightarrow> bytes) \<Rightarrow> merkle_builder \<Rightarrow> bytes" where
  "compute_root sha256 leaves = (if leaves = [] then replicate 32 0 else merkle_levels sha256 leaves ! 0)"

section \<open>What a root binds\<close>

lemma next_level_duplicate:
  "odd (length xs) \<Longrightarrow> next_level sha256 (xs @ [last xs]) = next_level sha256 xs"
  by (induction sha256 xs rule: next_level.induct) auto

text \<open>the root of an odd number of at least three leaves is also the root of the list with its last
  leaf repeated, so that checkpoints over different sets of messages do not diverge.\<close>

theorem repeated_leaf_same_root:
  assumes "odd (length xs)" and "1 < length xs"
  shows "compute_root sha256 (xs @ [last xs]) = compute_root sha256 xs \<and>
    \<not> diverges_from (checkpoint_new h t (compute_root sha256 (xs @ [last xs])) w f1 f2 p)
       (checkpoint_new h t' (compute_root sha256 xs) w f1' f2' p')"
proof -
  have "xs \<noteq> []"
    using assms(2) by auto
  moreover have "merkle_levels sha256 (xs @ [last xs]) = merkle_levels sha256 xs"
    using assms calculation by (subst (1 2) merkle_levels.simps) (simp add: next_level_duplicate)
  ultimately have "compute_root sha256 (xs @ [last xs]) = compute_root sha256 xs"
    by (auto simp: compute_root_def)
  then show ?thesis
    by (simp add: diverges_from_def checkpoint_new_def)
qed

theorem repeated_leaf_same_root_witness:
  "compute_root (\<lambda>b. b) ([[1], [2], [3]] @ [[3]]) = compute_root (\<lambda>b. b) [[1], [2], [3]]"
  using repeated_leaf_same_root [of "[[1], [2], [3]]" "\<lambda>b. b" 0 0 "[]" f1_metadata_empty f2_metadata_empty None 0
      f1_metadata_empty f2_metadata_empty None] by simp

text \<open>The inputs that are hashed for a root.\<close>

fun level_inputs :: "bytes list \<Rightarrow> bytes list" where
  "level_inputs (x # y # xs) = (x @ y) # level_inputs xs"
| "level_inputs [x] = [x @ x]"
| "level_inputs [] = []"

function root_inputs :: "(bytes \<Rightarrow> bytes) \<Rightarrow> bytes list \<Rightarrow> bytes list" where
  "root_inputs sha256 xs = (if 1 < length xs then level_inputs xs @ root_inputs sha256 (next_level sha256 xs) else [])"
  by auto
termination
  by (relation "measure (\<lambda>(sha256, xs). length xs)") (auto simp: length_next_level)

declare root_inputs.simps [simp del]

lemma next_level_map: "next_level sha256 xs = map sha256 (level_inputs xs)"
  by (induction sha256 xs rule: next_level.induct) auto

lemma level_inputs_inj:
  assumes "level_inputs xs = level_inputs ys" and "length xs = length ys"
    and "\<forall>x \<in> set xs. length x = n" and "\<forall>y \<in> set ys. length y = n"
  shows "xs = ys"
  using assms
proof (induction xs arbitrary: ys rule: level_inputs.induct)
  case (1 x x' xs)
  then obtain y y' ys' where ys: "ys = y # y' # ys'"
    by (cases ys rule: level_inputs.cases) auto
  with 1 show ?case by auto
next
  case (2 x)
  then obtain y where "ys = [y]"
    by (cases ys rule: level_inputs.cases) auto
  with 2 show ?case by auto
qed simp

lemma merkle_levels_bind:
  assumes "merkle_levels sha256 xs = merkle_levels sha256 ys" and "length xs = length ys"
    and "\<forall>x \<in> set xs. length x = 32" and "\<forall>y \<in> set ys. length y = 32" and "\<And>b. length (sha256 b) = 32"
    and "inj_on sha256 (set (root_inputs sha256 xs) \<union> set (root_inputs sha256 ys))"
  shows "xs = ys"
  using assms(1-4,6)
proof (induction "length xs" arbitrary: xs ys rule: less_induct)
  case less
  show ?case
  proof (cases "1 < length xs")
    case False
    with less.prems(1,2) show ?thesis
      by (subst (asm) (1 2) merkle_levels.simps) simp
  next
    case True
    have inputs: "root_inputs sha256 zs = level_inputs zs @ root_inputs sha256 (next_level sha256 zs)" if "length zs = length xs" for zs
      using True that by (subst root_inputs.simps) simp
    have l: "merkle_levels sha256 (next_level sha256 xs) = merkle_levels sha256 (next_level sha256 ys)"
      using less.prems(1,2) True by (subst (asm) (1 2) merkle_levels.simps) simp
    have i: "inj_on sha256 (set (root_inputs sha256 (next_level sha256 xs)) \<union> set (root_inputs sha256 (next_level sha256 ys)))"
      using less.prems(2,5) by (auto simp add: inputs elim!: inj_on_subset)
    have n: "length (next_level sha256 xs) < length xs" "length (next_level sha256 xs) = length (next_level sha256 ys)"
      using less.prems(2) True by (simp_all add: length_next_level)
    have b: "\<forall>x \<in> set (next_level sha256 zs). length x = 32" for zs
      using assms(5) by (auto simp: next_level_map)
    have "next_level sha256 xs = next_level sha256 ys"
      by (rule less.hyps [OF n(1) l n(2) b b i])
    moreover have "inj_on sha256 (set (level_inputs xs) \<union> set (level_inputs ys))"
      using less.prems(2,5) by (auto simp add: inputs elim!: inj_on_subset)
    ultimately have "level_inputs xs = level_inputs ys"
      unfolding next_level_map by (simp only: inj_on_map_eq_map)
    then show ?thesis
      using less.prems(2-4) by (rule level_inputs_inj)
  qed
qed

lemma length_merkle_levels: "xs \<noteq> [] \<Longrightarrow> length (merkle_levels sha256 xs) = 1"
proof (induction sha256 xs rule: merkle_levels.induct)
  case (1 sha256 xs)
  show ?case
  proof (cases "1 < length xs")
    case True
    then have "0 < length (next_level sha256 xs)"
      by (simp add: length_next_level)
    with True 1 show ?thesis
      by (subst merkle_levels.simps) simp
  next
    case False
    moreover have "length xs \<noteq> 0"
      using 1 by simp
    ultimately have "length xs = 1"
      by linarith
    then show ?thesis
      by (subst merkle_levels.simps) simp
  qed
qed

text \<open>C28: two different leaf lists of one length have different roots, as long as no two of the inputs
  that are hashed for the two roots collide.\<close>

theorem root_binds_leaves:
  assumes "xs \<noteq> ys" and "length xs = length ys"
    and "\<forall>x \<in> set xs \<union> set ys. length x = 32" and "\<And>b. length (sha256 b) = 32"
    and "inj_on sha256 (set (root_inputs sha256 xs) \<union> set (root_inputs sha256 ys))"
  shows "compute_root sha256 xs \<noteq> compute_root sha256 ys"
proof
  assume root: "compute_root sha256 xs = compute_root sha256 ys"
  have ne: "xs \<noteq> []" "ys \<noteq> []"
    using assms(1,2) by auto
  then have "merkle_levels sha256 xs = merkle_levels sha256 ys"
    using root length_merkle_levels [of xs sha256] length_merkle_levels [of ys sha256]
    by (auto simp: compute_root_def length_Suc_conv)
  then have "xs = ys"
    by (rule merkle_levels_bind) (use assms in auto)
  with assms(1) show False by simp
qed

definition first_half :: "bytes \<Rightarrow> bytes" where
  "first_half b = take 32 (b @ replicate 32 0)"

theorem root_binds_leaves_witness:
  "compute_root first_half [replicate 32 1, replicate 32 2] \<noteq> compute_root first_half [replicate 32 3, replicate 32 2]"
proof (rule root_binds_leaves)
  show "inj_on first_half (set (root_inputs first_half [replicate 32 1, replicate 32 2]) \<union>
      set (root_inputs first_half [replicate 32 3, replicate 32 2]))"
    by (simp add: root_inputs.simps first_half_def)
qed (simp_all add: first_half_def numeral_eq_Suc)

section \<open>What a checkpoint hash binds\<close>

text \<open>The byte string that is hashed and signed has no separators: the counts delimit it, when they are
  the counts of the lists, which the constructors see to. The homology rank is not part of it.\<close>

definition checkpoint_sized :: "checkpoint \<Rightarrow> bool" where
  "checkpoint_sized c \<longleftrightarrow>
     length (cp_messages_root c) = 32 \<and> length (cp_witnesses_root c) = 32 \<and>
     f1_finalized_count (cp_f1 c) = length (f1_finalized_messages (cp_f1 c)) \<and>
     f2_stabilized_count (cp_f2 c) = length (f2_stabilized_messages (cp_f2 c)) \<and>
     list_all (\<lambda>m. length m = 32) (f1_finalized_messages (cp_f1 c)) \<and>
     list_all (\<lambda>m. length m = 32) (f2_stabilized_messages (cp_f2 c)) \<and>
     list_all (\<lambda>h. length h = 32) (case cp_prev_hash c of None \<Rightarrow> [] | Some h \<Rightarrow> [h]) \<and>
     - (2 ^ 63) \<le> cp_timestamp c \<and> cp_timestamp c < 2 ^ 63 \<and>
     f1_finalized_count (cp_f1 c) < 2 ^ 64 \<and> f2_stabilized_count (cp_f2 c) < 2 ^ 64"

definition unsigned_checkpoint :: "checkpoint \<Rightarrow> checkpoint" where
  "unsigned_checkpoint c = c\<lparr>cp_f2 := (cp_f2 c)\<lparr>f2_homology_rank := None\<rparr>, cp_signature := None, cp_signer := None\<rparr>"

lemma concat_eq_append:
  assumes "concat xs @ us = concat ys @ vs" and "length xs = length ys"
    and "list_all (\<lambda>m. length m = n) xs" and "list_all (\<lambda>m. length m = n) ys"
  shows "xs = ys \<and> us = vs"
  using assms(2,1,3,4) by (induction xs ys rule: list_induct2) auto

lemma of_nat_u64_eq:
  assumes "(of_nat m :: u64) = of_nat n" and "m < 2 ^ 64" and "n < 2 ^ 64"
  shows "m = n"
  using arg_cong [OF assms(1), of unat] assms(2,3) by (simp add: unat_of_nat take_bit_nat_eq_self)

lemma of_int_i64_eq:
  assumes "(of_int v :: u64) = of_int w" and "- (2 ^ 63) \<le> v" "v < 2 ^ 63" "- (2 ^ 63) \<le> w" "w < 2 ^ 63"
  shows "v = w"
proof -
  have "(2 ^ 64 :: int) dvd v - w"
    using assms(1) by (simp add: word_of_int_eq_iff take_bit_eq_mod mod_eq_dvd_iff)
  moreover have "\<bar>v - w\<bar> < 2 ^ 64"
    using assms(2-5) by auto
  ultimately have "v - w = 0"
    by (meson zdvd_not_zless dvd_abs_iff abs_ge_zero abs_0_eq zero_less_abs_iff)
  then show ?thesis by simp
qed

lemma checkpoint_bytes_unsigned: "checkpoint_bytes (unsigned_checkpoint c) = checkpoint_bytes c"
  by (simp add: checkpoint_bytes_def unsigned_checkpoint_def)

lemma checkpoint_bytes_inj:
  assumes eq: "checkpoint_bytes a = checkpoint_bytes b" and a: "checkpoint_sized a" and b: "checkpoint_sized b"
  shows "unsigned_checkpoint a = unsigned_checkpoint b"
proof -
  have head: "cp_height a = cp_height b" "cp_timestamp a = cp_timestamp b"
      "cp_messages_root a = cp_messages_root b" "cp_witnesses_root a = cp_witnesses_root b"
      "f1_max_k_core (cp_f1 a) = f1_max_k_core (cp_f1 b)"
    using eq a b by (auto simp: checkpoint_bytes_def checkpoint_sized_def dest!: le_bytes_inj dest: of_int_i64_eq)
  have n1: "f1_finalized_count (cp_f1 a) = f1_finalized_count (cp_f1 b)"
    using eq a b by (auto simp: checkpoint_bytes_def checkpoint_sized_def dest!: le_bytes_inj dest: of_nat_u64_eq)
  have "concat (f1_finalized_messages (cp_f1 a)) @ le_bytes (of_nat (f2_stabilized_count (cp_f2 a))) @
        concat (f2_stabilized_messages (cp_f2 a)) @ (case cp_prev_hash a of None \<Rightarrow> [] | Some h \<Rightarrow> h) =
      concat (f1_finalized_messages (cp_f1 b)) @ le_bytes (of_nat (f2_stabilized_count (cp_f2 b))) @
        concat (f2_stabilized_messages (cp_f2 b)) @ (case cp_prev_hash b of None \<Rightarrow> [] | Some h \<Rightarrow> h)"
    using eq a b by (auto simp: checkpoint_bytes_def checkpoint_sized_def)
  from concat_eq_append [OF this, of 32] n1 a b
  have m1: "f1_finalized_messages (cp_f1 a) = f1_finalized_messages (cp_f1 b)"
    and rest: "le_bytes (of_nat (f2_stabilized_count (cp_f2 a))) @
        concat (f2_stabilized_messages (cp_f2 a)) @ (case cp_prev_hash a of None \<Rightarrow> [] | Some h \<Rightarrow> h) =
      le_bytes (of_nat (f2_stabilized_count (cp_f2 b))) @
        concat (f2_stabilized_messages (cp_f2 b)) @ (case cp_prev_hash b of None \<Rightarrow> [] | Some h \<Rightarrow> h)"
    by (simp_all add: checkpoint_sized_def)
  have n2: "f2_stabilized_count (cp_f2 a) = f2_stabilized_count (cp_f2 b)"
    using rest a b by (auto simp: checkpoint_sized_def dest!: le_bytes_inj dest: of_nat_u64_eq)
  have "concat (f2_stabilized_messages (cp_f2 a)) @ (case cp_prev_hash a of None \<Rightarrow> [] | Some h \<Rightarrow> h) =
      concat (f2_stabilized_messages (cp_f2 b)) @ (case cp_prev_hash b of None \<Rightarrow> [] | Some h \<Rightarrow> h)"
    using rest by simp
  from concat_eq_append [OF this, of 32] n2 a b
  have m2: "f2_stabilized_messages (cp_f2 a) = f2_stabilized_messages (cp_f2 b)"
    and "(case cp_prev_hash a of None \<Rightarrow> [] | Some h \<Rightarrow> h) = (case cp_prev_hash b of None \<Rightarrow> [] | Some h \<Rightarrow> h)"
    by (simp_all add: checkpoint_sized_def)
  then have "cp_prev_hash a = cp_prev_hash b"
    using a b by (auto simp: checkpoint_sized_def split: option.splits)
  then show ?thesis
    using head n1 m1 n2 m2 by (simp add: unsigned_checkpoint_def)
qed

text \<open>as long as the hash does not collide on the two byte strings, checkpoints have the same hash,
  the one that is signed and that the next checkpoint refers to, exactly when they differ at most in the
  signature, the signer and the homology rank.\<close>

theorem checkpoint_hash_binds:
  assumes "checkpoint_sized a" and "checkpoint_sized b" and "inj_on sha256 {checkpoint_bytes a, checkpoint_bytes b}"
  shows "checkpoint_hash sha256 a = checkpoint_hash sha256 b \<longleftrightarrow> unsigned_checkpoint a = unsigned_checkpoint b"
proof
  assume "checkpoint_hash sha256 a = checkpoint_hash sha256 b"
  then have "sha256 (checkpoint_bytes a) = sha256 (checkpoint_bytes b)"
    by (simp only: checkpoint_hash_def)
  then have "checkpoint_bytes a = checkpoint_bytes b"
    by (rule inj_onD [OF assms(3)]) simp_all
  then show "unsigned_checkpoint a = unsigned_checkpoint b"
    using assms(1,2) by (rule checkpoint_bytes_inj)
next
  assume "unsigned_checkpoint a = unsigned_checkpoint b"
  then have "checkpoint_bytes a = checkpoint_bytes b"
    using checkpoint_bytes_unsigned [of a] checkpoint_bytes_unsigned [of b] by (simp only:)
  then show "checkpoint_hash sha256 a = checkpoint_hash sha256 b"
    by (simp add: checkpoint_hash_def)
qed

definition sample_checkpoint :: "nat option \<Rightarrow> u64 \<Rightarrow> checkpoint" where
  "sample_checkpoint rank height =
     checkpoint_new height 1700000000 (replicate 32 1) (replicate 32 2) (f1_metadata_new 3 [replicate 32 4])
       (f2_metadata_new [] rank) None"

theorem checkpoint_hash_binds_witness:
  "checkpoint_hash (\<lambda>b. b) (sample_checkpoint (Some 1) 7) = checkpoint_hash (\<lambda>b. b) (sample_checkpoint (Some 2) 7)"
proof -
  have "checkpoint_sized (sample_checkpoint rank 7)" for rank
    by (simp add: checkpoint_sized_def sample_checkpoint_def checkpoint_new_def f1_metadata_new_def f2_metadata_new_def)
  from checkpoint_hash_binds [OF this this, of "\<lambda>b. b" "Some 1" "Some 2"] show ?thesis
    by (simp add: unsigned_checkpoint_def sample_checkpoint_def checkpoint_new_def f2_metadata_new_def)
qed

end
