(* ===== verification/Finality_Engine.thy ===== *)
theory Finality_Engine
  imports Kcore F2_Finality Checkpoints Deposit_Escrow
begin

text \<open>
  The finality engine (\<open>crates/adic-finality/src/engine.rs\<close>) and its artifacts
  (\<open>artifact.rs\<close>). The engine owns the analyzer, the F2 checker, the pending window, the
  artifacts and the checkpoints; the storage, the deposits and the reputation it shares with the
  consensus are part of its state. What it takes from its surroundings is a record: the storage
  backends, the clock, elapsed times, the iteration orders of hash maps, the JSON encoders of
  \<open>serde\<close> and the hash functions. An operation that never returns is \<open>None\<close>. The Prometheus
  counters are omitted.
\<close>

section \<open>Artifacts\<close>

datatype finality_gate = F1KCore | F2PersistentHomology | F1AndF2Composite

record finality_witness =
  fw_kcore_root :: "message_id option"
  fw_depth :: u32
  fw_diversity_ok :: bool
  fw_reputation_sum :: f64
  fw_distinct_balls :: "u32 \<rightharpoonup> nat"
  fw_core_size :: nat
  fw_h3_stable :: "bool option"
  fw_h2_bottleneck :: "f64 option"
  fw_f2_confidence :: "f64 option"
  fw_num_finalized :: "nat option"

record validator_attestation =
  va_public_key :: public_key
  va_signature :: signature
  va_timestamp :: i64

record finality_params =
  fp_k :: nat
  fp_q :: nat
  fp_depth_star :: u32
  fp_r_sum_min :: f64

record finality_artifact =
  fa_intent_id :: message_id
  fa_gate :: finality_gate
  fa_params :: finality_params
  fa_witness :: finality_witness
  fa_validators :: "validator_attestation list"
  fa_timestamp :: i64

definition artifact_new :: "i64 \<Rightarrow> message_id \<Rightarrow> finality_gate \<Rightarrow> finality_params \<Rightarrow> finality_witness \<Rightarrow> finality_artifact" where
  "artifact_new now intent_id gate params witness =
     \<lparr>fa_intent_id = intent_id, fa_gate = gate, fa_params = params, fa_witness = witness, fa_validators = [],
      fa_timestamp = unix_secs now\<rparr>"

definition add_attestation :: "validator_attestation \<Rightarrow> finality_artifact \<Rightarrow> finality_artifact" where
  "add_attestation att a = a\<lparr>fa_validators := fa_validators a @ [att]\<rparr>"

definition artifact_is_valid :: "finality_artifact \<Rightarrow> bool" where
  "artifact_is_valid a \<longleftrightarrow>
     fw_diversity_ok (fa_witness a) \<and> fp_depth_star (fa_params a) \<le> fw_depth (fa_witness a) \<and>
     fp_r_sum_min (fa_params a) \<le> fw_reputation_sum (fa_witness a)"

definition has_f1_finality :: "finality_artifact \<Rightarrow> bool" where
  "has_f1_finality a \<longleftrightarrow> fa_gate a \<in> {F1KCore, F1AndF2Composite} \<and> fw_kcore_root (fa_witness a) \<noteq> None"

definition has_f2_finality :: "finality_artifact \<Rightarrow> bool" where
  "has_f2_finality a \<longleftrightarrow> fa_gate a \<in> {F2PersistentHomology, F1AndF2Composite} \<and> fw_h3_stable (fa_witness a) \<noteq> None"

definition has_composite_finality :: "finality_artifact \<Rightarrow> bool" where
  "has_composite_finality a \<longleftrightarrow> fa_gate a = F1AndF2Composite \<or> (has_f1_finality a \<and> has_f2_finality a)"

section \<open>Configuration and state\<close>

record finality_config =
  fg_k :: nat
  fg_min_depth :: u32
  fg_min_diversity :: nat
  fg_min_reputation :: f64
  fg_check_interval_ms :: u64
  fg_window_size :: nat
  fg_f2_enabled :: bool
  fg_f2_timeout_ms :: u64
  fg_f1_enabled :: bool
  fg_epsilon :: f64
  fg_checkpoint_interval :: u64

definition finality_config_of :: "adic_params \<Rightarrow> finality_config" where
  "finality_config_of p =
     \<lparr>fg_k = unat (prm_k p), fg_min_depth = prm_depth_star p, fg_min_diversity = unat (prm_q p),
      fg_min_reputation = prm_r_sum_min p, fg_check_interval_ms = 1000, fg_window_size = 1000,
      fg_f2_enabled = False, fg_f2_timeout_ms = 2000, fg_f1_enabled = True, fg_epsilon = 1 / 10,
      fg_checkpoint_interval = 100\<rparr>"

definition finality_config_default :: finality_config where
  "finality_config_default =
     \<lparr>fg_k = 3, fg_min_depth = 3, fg_min_diversity = 3, fg_min_reputation = 1, fg_check_interval_ms = 1000,
      fg_window_size = 1000, fg_f2_enabled = False, fg_f2_timeout_ms = 2000, fg_f1_enabled = True,
      fg_epsilon = 1 / 10, fg_checkpoint_interval = 100\<rparr>"

text \<open>Durations are nanoseconds.\<close>

type_synonym duration = nat

record ('s, 'e) engine_env =
  ee_backend :: "'s storage_backend"
  ee_econ :: "'e econ_ops"
  ee_now :: i64
  ee_ids :: "message_id set \<Rightarrow> message_id list"
  ee_balls :: ball_order
  ee_pairs :: pair_order
  ee_artifacts :: "(message_id \<rightharpoonup> finality_artifact) \<Rightarrow> finality_artifact list"
  ee_elapsed :: "nat \<Rightarrow> nat"
  ee_f1_duration :: "message_id \<Rightarrow> duration"
  ee_witness_json :: "finality_witness \<Rightarrow> bytes option"
  ee_artifact_json :: "finality_artifact \<Rightarrow> bytes option"
  ee_blake3 :: "bytes \<Rightarrow> bytes"
  ee_sha256 :: "bytes \<Rightarrow> bytes"

record ('s, 'e) finality_engine =
  fe_config :: finality_config
  fe_analyzer :: kcore_analyzer
  fe_f2_checker :: f2_checker
  fe_storage :: 's
  fe_finalized :: "message_id \<rightharpoonup> finality_artifact"
  fe_pending :: "message_id list"
  fe_deposits :: "'e deposit_manager"
  fe_reputation :: reputation_tracker
  fe_checkpoints :: "checkpoint list"
  fe_f1_messages :: "message_id list"
  fe_f2_messages :: "message_id list"
  fe_checkpoint_height :: u64
  fe_f1_times :: "duration list"
  fe_f2_times :: "duration list"
  fe_metrics_window :: nat
  fe_max_depth :: u32
  fe_depth_star :: u32

definition engine_f2_config :: "finality_config \<Rightarrow> nat \<Rightarrow> f64 \<Rightarrow> f2_config" where
  "engine_f2_config config max_betti min_persist =
     \<lparr>f2_dimension = 3, f2_radius = 5, f2_axis = 0, f2_epsilon = fg_epsilon config, f2_timeout_ms = fg_f2_timeout_ms config,
      f2_use_streaming = False, f2_max_betti_d = max_betti, f2_min_persistence = min_persist\<rparr>"

definition finality_engine_new :: "finality_config \<Rightarrow> adic_params \<Rightarrow> 's \<Rightarrow> 'e deposit_manager \<Rightarrow> reputation_tracker \<Rightarrow>
    ('s, 'e) finality_engine" where
  "finality_engine_new config params storage deposits reputation =
     \<lparr>fe_config = config,
      fe_analyzer = kcore_analyzer_new (fg_k config) (fg_min_depth config) (fg_min_diversity config)
        (fg_min_reputation config) (prm_rho params),
      fe_f2_checker = f2_checker_new (engine_f2_config config 2 (1 / 100)),
      fe_storage = storage, fe_finalized = Map.empty, fe_pending = [], fe_deposits = deposits, fe_reputation = reputation,
      fe_checkpoints = [], fe_f1_messages = [], fe_f2_messages = [], fe_checkpoint_height = 0,
      fe_f1_times = [], fe_f2_times = [], fe_metrics_window = 100, fe_max_depth = 0, fe_depth_star = prm_depth_star params\<rparr>"

definition engine_update_params :: "adic_params \<Rightarrow> nat \<Rightarrow> f64 \<Rightarrow> ('s, 'e) finality_engine \<Rightarrow> ('s, 'e) finality_engine" where
  "engine_update_params new_params f2_max_betti f2_min_persist e =
     (let config = (fe_config e)\<lparr>fg_k := unat (prm_k new_params), fg_min_depth := prm_depth_star new_params\<rparr>
      in e\<lparr>fe_config := config,
           fe_analyzer := kcore_analyzer_new (unat (prm_k new_params)) (prm_depth_star new_params)
             (fg_min_diversity config) (fg_min_reputation config) (prm_rho new_params),
           fe_f2_checker := f2_checker_new (engine_f2_config config f2_max_betti f2_min_persist)\<rparr>)"

text \<open>\<open>while xs.len() > n { xs.pop_front() }\<close>\<close>

definition keep_last :: "nat \<Rightarrow> 'a list \<Rightarrow> 'a list" where
  "keep_last n xs = drop (length xs - n) xs"

definition engine_add_message :: "message_id \<Rightarrow> ('s, 'e) finality_engine \<Rightarrow> ('s, 'e) finality_engine" where
  "engine_add_message i e = e\<lparr>fe_pending := keep_last (fg_window_size (fe_config e)) (fe_pending e @ [i])\<rparr>"

definition engine_is_finalized :: "('s, 'e) finality_engine \<Rightarrow> message_id \<Rightarrow> bool" where
  "engine_is_finalized e i \<longleftrightarrow> fe_finalized e i \<noteq> None"

definition engine_get_artifact :: "('s, 'e) finality_engine \<Rightarrow> message_id \<Rightarrow> finality_artifact option" where
  "engine_get_artifact e i = fe_finalized e i"

definition engine_store_artifact :: "finality_artifact \<Rightarrow> ('s, 'e) finality_engine \<Rightarrow> ('s, 'e) finality_engine" where
  "engine_store_artifact a e = e\<lparr>fe_finalized := (fe_finalized e)(fa_intent_id a \<mapsto> a)\<rparr>"

definition engine_has_composite_finality :: "('s, 'e) finality_engine \<Rightarrow> message_id \<Rightarrow> bool" where
  "engine_has_composite_finality e i =
     (case fe_finalized e i of None \<Rightarrow> False | Some artifact \<Rightarrow> has_composite_finality artifact)"

definition is_governance_finalized :: "('s, 'e) finality_engine \<Rightarrow> message_id \<Rightarrow> bool" where
  "is_governance_finalized e i = engine_has_composite_finality e i"

section \<open>Epochs and timing\<close>

definition current_epoch :: "('s, 'e) finality_engine \<Rightarrow> u64" where
  "current_epoch e = (if fe_depth_star e = 0 then 0 else ucast (fe_max_depth e div fe_depth_star e))"

definition update_finalized_depth :: "u32 \<Rightarrow> ('s, 'e) finality_engine \<Rightarrow> ('s, 'e) finality_engine" where
  "update_finalized_depth d e = (if fe_max_depth e < d then e\<lparr>fe_max_depth := d\<rparr> else e)"

definition average_time :: "duration list \<Rightarrow> duration option" where
  "average_time metrics = (if metrics = [] then None else Some (sum_list metrics div length metrics))"

definition p95_time :: "duration list \<Rightarrow> duration option" where
  "p95_time metrics =
     (if metrics = [] then None
      else let sorted = sort metrics; index = min (length sorted * 95 div 100) (length sorted - 1)
           in Some (sorted ! index))"

record finality_timing_stats =
  ts_f1_avg :: "duration option"
  ts_f1_p95 :: "duration option"
  ts_f2_avg :: "duration option"
  ts_f2_p95 :: "duration option"
  ts_f1_samples :: nat
  ts_f2_samples :: nat

definition get_finality_timing_stats :: "('s, 'e) finality_engine \<Rightarrow> finality_timing_stats" where
  "get_finality_timing_stats e =
     \<lparr>ts_f1_avg = average_time (fe_f1_times e), ts_f1_p95 = p95_time (fe_f1_times e),
      ts_f2_avg = average_time (fe_f2_times e), ts_f2_p95 = p95_time (fe_f2_times e),
      ts_f1_samples = length (fe_f1_times e), ts_f2_samples = length (fe_f2_times e)\<rparr>"

record finality_stats =
  fs_finalized_count :: nat
  fs_pending_count :: nat
  fs_total_messages :: nat

definition engine_get_stats :: "('s, 'e) finality_engine \<Rightarrow> finality_stats" where
  "engine_get_stats e =
     \<lparr>fs_finalized_count = card (dom (fe_finalized e)), fs_pending_count = length (fe_pending e),
      fs_total_messages = card (dom (fe_finalized e)) + length (fe_pending e)\<rparr>"

section \<open>Checkpoints\<close>

text \<open>\<open>create_checkpoint\<close> takes the read lock of the F1 messages: \<open>f1_write_held\<close> tells
  whether its caller holds the write lock, which is not reentrant.\<close>

definition create_checkpoint :: "('s, 'e) engine_env \<Rightarrow> bool \<Rightarrow> ('s, 'e) finality_engine \<Rightarrow> (checkpoint \<times> ('s, 'e) finality_engine) option" where
  "create_checkpoint env f1_write_held e =
     (let height = fe_checkpoint_height e;
          e = e\<lparr>fe_checkpoint_height := height + 1\<rparr>
      in if f1_write_held then None
         else
           let f1_messages = fe_f1_messages e; f2_messages = fe_f2_messages e;
               artifacts = ee_artifacts env (fe_finalized e);
               message_tree = foldl (\<lambda>t i. merkle_add (ee_sha256 env) i t) merkle_new f1_messages;
               witness_tree = foldl (\<lambda>t w. merkle_add (ee_sha256 env) w t) merkle_new
                 (List.map_filter (\<lambda>a. ee_witness_json env (fa_witness a)) artifacts);
               max_k_core = (if artifacts = [] then 0 else Max (set (map (\<lambda>a. of_nat (fp_k (fa_params a))) artifacts)));
               prev_hash = (if fe_checkpoints e = [] then None
                 else Some (checkpoint_hash (ee_sha256 env) (last (fe_checkpoints e))));
               c = checkpoint_new height (unix_secs (ee_now env)) (compute_root (ee_sha256 env) message_tree)
                 (compute_root (ee_sha256 env) witness_tree) (f1_metadata_new max_k_core f1_messages)
                 (f2_metadata_new f2_messages None) prev_hash
           in Some (c, e\<lparr>fe_checkpoints := fe_checkpoints e @ [c], fe_f1_messages := [], fe_f2_messages := []\<rparr>))"

definition track_f1_finalized :: "('s, 'e) engine_env \<Rightarrow> message_id \<Rightarrow> ('s, 'e) finality_engine \<Rightarrow> ('s, 'e) finality_engine option" where
  "track_f1_finalized env i e =
     (let e = e\<lparr>fe_f1_messages := fe_f1_messages e @ [i]\<rparr>
      in if unat (fg_checkpoint_interval (fe_config e)) \<le> length (fe_f1_messages e)
         then map_option snd (create_checkpoint env True e)
         else Some e)"

definition track_f2_stabilized :: "message_id \<Rightarrow> ('s, 'e) finality_engine \<Rightarrow> ('s, 'e) finality_engine" where
  "track_f2_stabilized i e = e\<lparr>fe_f2_messages := fe_f2_messages e @ [i]\<rparr>"

definition get_latest_checkpoint :: "('s, 'e) finality_engine \<Rightarrow> checkpoint option" where
  "get_latest_checkpoint e = (if fe_checkpoints e = [] then None else Some (last (fe_checkpoints e)))"

definition engine_get_checkpoint :: "('s, 'e) finality_engine \<Rightarrow> u64 \<Rightarrow> checkpoint option" where
  "engine_get_checkpoint e height = List.find (\<lambda>c. cp_height c = height) (fe_checkpoints e)"

section \<open>Finalizing\<close>

datatype engine_error = EngineErr adic_error | EnginePanic

text \<open>An operation on the engine that may fail or never return.\<close>

type_synonym ('s, 'e, 'a) engine_op = "('s, 'e) finality_engine \<Rightarrow> ((engine_error + 'a) \<times> ('s, 'e) finality_engine) option"

definition okD :: "'a \<Rightarrow> ('s, 'e, 'a) engine_op" where
  "okD x e = Some (Inr x, e)"

definition tryD :: "('s, 'e, 'a) engine_op \<Rightarrow> ('a \<Rightarrow> ('s, 'e, 'b) engine_op) \<Rightarrow> ('s, 'e, 'b) engine_op" where
  "tryD m f e = Option.bind (m e) (\<lambda>(r, e). case r of Inl x \<Rightarrow> Some (Inl x, e) | Inr x \<Rightarrow> f x e)"

definition modD :: "(('s, 'e) finality_engine \<Rightarrow> ('s, 'e) finality_engine) \<Rightarrow> ('s, 'e, unit) engine_op" where
  "modD f e = Some (Inr (), f e)"

definition config_params :: "finality_config \<Rightarrow> finality_params" where
  "config_params config =
     \<lparr>fp_k = fg_k config, fp_q = fg_min_diversity config, fp_depth_star = fg_min_depth config,
      fp_r_sum_min = fg_min_reputation config\<rparr>"

definition create_artifact :: "i64 \<Rightarrow> finality_config \<Rightarrow> message_id \<Rightarrow> kcore_result \<Rightarrow> finality_artifact" where
  "create_artifact now config i result =
     artifact_new now i F1KCore (config_params config)
       \<lparr>fw_kcore_root = kr_kcore_root result, fw_depth = kr_depth result,
        fw_diversity_ok = (\<forall>c \<in> ran (kr_distinct_balls result). fg_min_diversity config \<le> c),
        fw_reputation_sum = kr_total_reputation result, fw_distinct_balls = kr_distinct_balls result,
        fw_core_size = kr_core_size result, fw_h3_stable = None, fw_h2_bottleneck = None,
        fw_f2_confidence = None, fw_num_finalized = None\<rparr>"

definition f2_artifact :: "i64 \<Rightarrow> finality_config \<Rightarrow> message_id \<Rightarrow> bool \<Rightarrow> f64 \<Rightarrow> f64 \<Rightarrow> nat \<Rightarrow> finality_artifact" where
  "f2_artifact now config i h3_stable h2_bottleneck confidence num_finalized =
     \<lparr>fa_intent_id = i, fa_gate = F2PersistentHomology, fa_params = config_params config,
      fa_witness = \<lparr>fw_kcore_root = None, fw_depth = 3, fw_diversity_ok = True, fw_reputation_sum = 0,
        fw_distinct_balls = Map.empty, fw_core_size = 0, fw_h3_stable = Some h3_stable,
        fw_h2_bottleneck = Some h2_bottleneck, fw_f2_confidence = Some confidence, fw_num_finalized = Some num_finalized\<rparr>,
      fa_validators = [], fa_timestamp = unix_secs now\<rparr>"

text \<open>The refund of the deposit and the reward of the proposer, when the message has a deposit.\<close>

definition settle_deposit :: "('s, 'e) engine_env \<Rightarrow> message_id \<Rightarrow> f64 \<Rightarrow> u32 \<Rightarrow> ('s, 'e, unit) engine_op" where
  "settle_deposit env i diversity d e =
     (case deposit_get_proposer (fe_deposits e) i of
        None \<Rightarrow> okD () e
      | Some proposer \<Rightarrow>
          (case deposit_refund (ee_blake3 env) (ee_econ env) i (fe_deposits e) of
             (Inl err, deposits) \<Rightarrow> Some (Inl (EngineErr err), e\<lparr>fe_deposits := deposits\<rparr>)
           | (Inr _, deposits) \<Rightarrow>
               okD () (e\<lparr>fe_deposits := deposits,
                 fe_reputation := good_update (ee_now env) proposer diversity d (fe_reputation e)\<rparr>)))"

text \<open>A failure to persist the artifact is only logged.\<close>

definition persist_artifact :: "('s, 'e) engine_env \<Rightarrow> message_id \<Rightarrow> finality_artifact \<Rightarrow> ('s, 'e) finality_engine \<Rightarrow> ('s, 'e) finality_engine" where
  "persist_artifact env i a e =
     (case ee_artifact_json env a of
        None \<Rightarrow> e
      | Some artifact_bytes \<Rightarrow>
          e\<lparr>fe_storage := snd (sb_store_artifact (ee_backend env) i artifact_bytes (fe_storage e))\<rparr>)"

definition record_f1_time :: "duration \<Rightarrow> ('s, 'e) finality_engine \<Rightarrow> ('s, 'e) finality_engine" where
  "record_f1_time t e = e\<lparr>fe_f1_times := keep_last (fe_metrics_window e) (fe_f1_times e @ [t])\<rparr>"

definition record_f2_time :: "duration \<Rightarrow> ('s, 'e) finality_engine \<Rightarrow> ('s, 'e) finality_engine" where
  "record_f2_time t e = e\<lparr>fe_f2_times := keep_last (fe_metrics_window e) (fe_f2_times e @ [t])\<rparr>"

definition finalize_f1 :: "('s, 'e) engine_env \<Rightarrow> message_id \<Rightarrow> kcore_result \<Rightarrow> ('s, 'e, unit) engine_op" where
  "finalize_f1 env i result =
     tryD (modD (record_f1_time (ee_f1_duration env i))) (\<lambda>_ e.
       let artifact = create_artifact (ee_now env) (fe_config e) i result;
           diversity = real (\<Sum>axis \<in> dom (kr_distinct_balls result). the (kr_distinct_balls result axis))
       in tryD (modD (update_finalized_depth (kr_depth result))) (\<lambda>_.
          tryD (settle_deposit env i diversity (kr_depth result)) (\<lambda>_.
          tryD (modD (persist_artifact env i artifact)) (\<lambda>_.
          tryD (modD (\<lambda>e. e\<lparr>fe_finalized := (fe_finalized e)(i \<mapsto> artifact)\<rparr>)) (\<lambda>_ e.
          map_option (Pair (Inr ())) (track_f1_finalized env i e))))) e)"

definition finalize_message_f2 :: "('s, 'e) engine_env \<Rightarrow> message_id \<Rightarrow> bool \<Rightarrow> f64 \<Rightarrow> f64 \<Rightarrow> nat \<Rightarrow> ('s, 'e, unit) engine_op" where
  "finalize_message_f2 env i h3_stable h2_bottleneck confidence num_finalized e =
     (let artifact = f2_artifact (ee_now env) (fe_config e) i h3_stable h2_bottleneck confidence num_finalized
      in tryD (modD (update_finalized_depth (fg_min_depth (fe_config e)))) (\<lambda>_.
         tryD (settle_deposit env i 1 3) (\<lambda>_.
         tryD (modD (persist_artifact env i artifact)) (\<lambda>_.
         tryD (modD (\<lambda>e. e\<lparr>fe_finalized := (fe_finalized e)(i \<mapsto> artifact)\<rparr>)) (\<lambda>_.
         modD (track_f2_stabilized i))))) e)"

section \<open>The check\<close>

definition analyze_pending :: "('s, 'e) engine_env \<Rightarrow> message_id \<Rightarrow> ('s, 'e) finality_engine \<Rightarrow>
    (kcore_result \<times> ('s, 'e) finality_engine) option" where
  "analyze_pending env i e =
     map_option (\<lambda>(result, analyzer). (result, e\<lparr>fe_analyzer := analyzer\<rparr>))
       (analyze (ee_ids env) (ee_backend env) (fe_storage e) (fe_reputation e) i (fe_analyzer e))"

text \<open>The loop over the pending messages, with the newly finalized ones.\<close>

primrec f1_loop :: "('s, 'e) engine_env \<Rightarrow> message_id list \<Rightarrow> message_id list \<Rightarrow> ('s, 'e, message_id list) engine_op" where
  "f1_loop env [] newly e = okD newly e"
| "f1_loop env (i # is) newly e =
     (if engine_is_finalized e i then f1_loop env is newly e
      else case analyze_pending env i e of
          None \<Rightarrow> None
        | Some (result, e) \<Rightarrow>
            if kr_is_final result then tryD (finalize_f1 env i result) (\<lambda>_. f1_loop env is (newly @ [i])) e
            else f1_loop env is newly e)"

definition fetch_messages :: "'s storage_backend \<Rightarrow> 's \<Rightarrow> message_id list \<Rightarrow> adic_message list" where
  "fetch_messages B s = List.map_filter (\<lambda>i. case sb_get_message B i s of Inr (Some m) \<Rightarrow> Some m | _ \<Rightarrow> None)"

text \<open>\<open>None\<close> as a result stands for \<open>Ok(None)\<close>; the error of the checker is its only \<open>Err\<close>.\<close>

definition try_f2_finality :: "('s, 'e) engine_env \<Rightarrow> message_id list \<Rightarrow>
    ('s, 'e, (message_id list \<times> bool \<times> f64 \<times> f64) option) engine_op" where
  "try_f2_finality env pending e =
     (let messages = fetch_messages (ee_backend env) (fe_storage e) pending
      in if pending = [] \<or> messages = [] then okD None e
         else
           Option.bind (f2_check_finality (ee_balls env) (ee_pairs env) (ee_now env) (ee_elapsed env) messages (fe_f2_checker e)) (\<lambda>r.
           case r of
             Inl _ \<Rightarrow> Some (Inl EnginePanic, e)
           | Inr (result, checker) \<Rightarrow>
               (let e = e\<lparr>fe_f2_checker := checker\<rparr>
                in case result of
                    F2Final h_d_stable gap confidence msgs elapsed_ms \<Rightarrow>
                      okD (Some (msgs, h_d_stable, gap, confidence)) (record_f2_time (1000000 * unat elapsed_ms) e)
                  | F2Timeout _ _ \<Rightarrow> okD None e
                  | F2Pending _ _ _ \<Rightarrow> okD None e
                  | F2Error \<Rightarrow> Some (Inl (EngineErr HomologyError), e))))"

primrec finalize_all_f2 :: "('s, 'e) engine_env \<Rightarrow> bool \<Rightarrow> f64 \<Rightarrow> f64 \<Rightarrow> nat \<Rightarrow> message_id list \<Rightarrow> ('s, 'e, unit) engine_op" where
  "finalize_all_f2 env h3_stable gap confidence n [] = okD ()"
| "finalize_all_f2 env h3_stable gap confidence n (i # is) =
     tryD (finalize_message_f2 env i h3_stable gap confidence n) (\<lambda>_. finalize_all_f2 env h3_stable gap confidence n is)"

definition clean_pending :: "message_id list \<Rightarrow> ('s, 'e) finality_engine \<Rightarrow> ('s, 'e) finality_engine" where
  "clean_pending newly e =
     (if newly = [] then e else e\<lparr>fe_pending := filter (\<lambda>i. i \<notin> set newly) (fe_pending e)\<rparr>)"

definition check_f1 :: "('s, 'e) engine_env \<Rightarrow> message_id list \<Rightarrow> ('s, 'e, message_id list) engine_op" where
  "check_f1 env pending e =
     tryD (if fg_f1_enabled (fe_config e) then f1_loop env pending [] else okD [])
       (\<lambda>newly. tryD (modD (clean_pending newly)) (\<lambda>_. okD newly)) e"

definition check_finality :: "('s, 'e) engine_env \<Rightarrow> ('s, 'e, message_id list) engine_op" where
  "check_finality env e =
     (let pending = fe_pending e
      in if fg_f2_enabled (fe_config e) then
           Option.bind (try_f2_finality env pending e) (\<lambda>(r, e).
             case r of
               Inr (Some (msgs, h3_stable, gap, confidence)) \<Rightarrow>
                 tryD (finalize_all_f2 env h3_stable gap confidence (length msgs) msgs) (\<lambda>_.
                 tryD (modD (clean_pending msgs)) (\<lambda>_. okD msgs)) e
             | Inr None \<Rightarrow> check_f1 env pending e
             | Inl EnginePanic \<Rightarrow> Some (Inl EnginePanic, e)
             | Inl (EngineErr _) \<Rightarrow> check_f1 env pending e)
         else check_f1 env pending e)"

record kcore_finality_result =
  kf_k_value :: nat
  kf_depth :: u32
  kf_diversity_score :: nat
  kf_is_final :: bool

definition check_kcore_finality :: "('s, 'e) engine_env \<Rightarrow> message_id \<Rightarrow> ('s, 'e) finality_engine \<Rightarrow>
    (kcore_finality_result \<times> ('s, 'e) finality_engine) option" where
  "check_kcore_finality env i e =
     map_option (\<lambda>(result, e).
         (\<lparr>kf_k_value = fg_k (fe_config e), kf_depth = kr_depth result,
           kf_diversity_score = (if ran (kr_distinct_balls result) = {} then 0 else Min (ran (kr_distinct_balls result))),
           kf_is_final = kr_is_final result\<rparr>, e))
       (analyze_pending env i e)"

section \<open>What an operation leaves alone\<close>

lemma okD_eq [simp]: "okD x e = Some (r, e') \<longleftrightarrow> r = Inr x \<and> e' = e"
  by (auto simp: okD_def)

lemma modD_eq [simp]: "modD f e = Some (r, e') \<longleftrightarrow> r = Inr () \<and> e' = f e"
  by (auto simp: modD_def)

lemma tryD_modD [simp]: "tryD (modD g) f e = f () (g e)"
  by (simp add: tryD_def modD_def)

lemma tryD_SomeE:
  assumes "tryD m f e = Some (r, e')"
  obtains (ok) x e1 where "m e = Some (Inr x, e1)" "f x e1 = Some (r, e')"
    | (err) x where "m e = Some (Inl x, e')" "r = Inl x"
  using assms by (cases "m e"; cases "fst (the (m e))") (auto simp: tryD_def)

text \<open>The parts of the engine that only some operations change.\<close>

definition same_setup :: "('s, 'e) finality_engine \<Rightarrow> ('s, 'e) finality_engine \<Rightarrow> bool" where
  "same_setup e e' \<longleftrightarrow>
     fe_config e' = fe_config e \<and> fe_checkpoints e' = fe_checkpoints e \<and>
     fe_checkpoint_height e' = fe_checkpoint_height e \<and> ka_k (fe_analyzer e') = ka_k (fe_analyzer e) \<and>
     ka_min_depth (fe_analyzer e') = ka_min_depth (fe_analyzer e) \<and>
     ka_min_diversity (fe_analyzer e') = ka_min_diversity (fe_analyzer e) \<and>
     ka_min_reputation (fe_analyzer e') = ka_min_reputation (fe_analyzer e)"

lemma same_setup_refl [simp]: "same_setup e e"
  by (simp add: same_setup_def)

lemma same_setup_trans: "same_setup e e1 \<Longrightarrow> same_setup e1 e2 \<Longrightarrow> same_setup e e2"
  by (simp add: same_setup_def)

definition same_tracking :: "('s, 'e) finality_engine \<Rightarrow> ('s, 'e) finality_engine \<Rightarrow> bool" where
  "same_tracking e e' \<longleftrightarrow> same_setup e e' \<and> fe_finalized e' = fe_finalized e \<and> fe_pending e' = fe_pending e \<and>
     fe_f1_messages e' = fe_f1_messages e \<and> fe_f2_messages e' = fe_f2_messages e"

lemma same_tracking_trans: "same_tracking e e1 \<Longrightarrow> same_tracking e1 e2 \<Longrightarrow> same_tracking e e2"
  by (simp add: same_tracking_def same_setup_def)

lemma same_tracking_simps [simp]:
  "same_tracking e e"
  "same_tracking e (update_finalized_depth d e)"
  "same_tracking e (record_f1_time t e)"
  "same_tracking e (record_f2_time t e)"
  "same_tracking e (persist_artifact env i a e)"
  by (auto simp: same_tracking_def same_setup_def update_finalized_depth_def record_f1_time_def record_f2_time_def
      persist_artifact_def split: option.splits)

lemma settle_deposit_tracking: "settle_deposit env i x d e = Some (r, e') \<Longrightarrow> same_tracking e e'"
  by (auto simp: settle_deposit_def same_tracking_def same_setup_def split: option.splits prod.splits sum.splits)

lemma analyze_thresholds:
  assumes "analyze ord B s rep i a = Some (r, a')"
  shows "ka_k a' = ka_k a" "ka_min_depth a' = ka_min_depth a" "ka_min_diversity a' = ka_min_diversity a"
    "ka_min_reputation a' = ka_min_reputation a"
  using assms by (auto simp: analyze_def Let_def compute_depth_caches(3-6) split: option.splits if_splits prod.splits
      dest: compute_depth_caches(3-6))

lemma analyze_pending_tracking: "analyze_pending env i e = Some (r, e') \<Longrightarrow> same_tracking e e'"
  by (auto simp: analyze_pending_def same_tracking_def same_setup_def dest: analyze_thresholds)

lemma try_f2_tracking:
  assumes "try_f2_finality env ms e = Some (r, e')"
  shows "same_tracking e e'"
proof -
  define msgs where "msgs = fetch_messages (ee_backend env) (fe_storage e) ms"
  show ?thesis
  proof (cases "ms = [] \<or> msgs = []")
    case True
    with assms show ?thesis by (simp add: try_f2_finality_def msgs_def Let_def)
  next
    case False
    let ?check = "f2_check_finality (ee_balls env) (ee_pairs env) (ee_now env) (ee_elapsed env) msgs (fe_f2_checker e)"
    from False assms obtain x where x: "?check = Some x"
      by (cases ?check) (auto simp: try_f2_finality_def msgs_def [symmetric])
    show ?thesis
    proof (cases x)
      case (Inl p)
      with assms False x show ?thesis by (auto simp: try_f2_finality_def msgs_def [symmetric])
    next
      case (Inr y)
      obtain result checker where y: "y = (result, checker)" by force
      have "same_tracking e (e\<lparr>fe_f2_checker := checker\<rparr>)"
        by (simp add: same_tracking_def same_setup_def)
      moreover have "same_tracking e (record_f2_time t (e\<lparr>fe_f2_checker := checker\<rparr>))" for t
        by (simp add: same_tracking_def same_setup_def record_f2_time_def)
      ultimately show ?thesis
        using assms False x Inr y by (cases result) (auto simp: try_f2_finality_def msgs_def [symmetric])
    qed
  qed
qed

section \<open>Finalizing one message\<close>

text \<open>When \<open>finalize_f1\<close> returns, either the refund failed and nothing is finalized, or the message
  is finalized with its artifact and no checkpoint was due.\<close>

lemma finalize_f1_cases:
  assumes "finalize_f1 env i result e = Some (r, e')"
  shows "(\<exists>x. r = Inl x \<and> same_tracking e e') \<or>
    (r = Inr () \<and> same_setup e e' \<and> fe_pending e' = fe_pending e \<and> fe_f2_messages e' = fe_f2_messages e \<and>
     fe_finalized e' = (fe_finalized e)(i \<mapsto> create_artifact (ee_now env) (fe_config e) i result) \<and>
     fe_f1_messages e' = fe_f1_messages e @ [i] \<and>
     length (fe_f1_messages e') < unat (fg_checkpoint_interval (fe_config e)))"
proof -
  define e1 where "e1 = update_finalized_depth (kr_depth result) (record_f1_time (ee_f1_duration env i) e)"
  define a where "a = create_artifact (ee_now env) (fe_config e) i result"
  have e1: "same_tracking e e1"
    unfolding e1_def by (rule same_tracking_trans) (rule same_tracking_simps)+
  have [simp]: "fe_config (record_f1_time t e) = fe_config e" for t
    by (simp add: record_f1_time_def)
  from assms obtain x where "tryD (settle_deposit env i x (kr_depth result)) (\<lambda>_ e2.
      map_option (Pair (Inr ())) (track_f1_finalized env i
        ((persist_artifact env i a e2)\<lparr>fe_finalized := (fe_finalized (persist_artifact env i a e2))(i \<mapsto> a)\<rparr>))) e1 = Some (r, e')"
    unfolding finalize_f1_def tryD_modD Let_def e1_def a_def by auto
  then show ?thesis
  proof (cases rule: tryD_SomeE)
    case (ok y e2)
    define e3 where "e3 = persist_artifact env i a e2"
    have "same_tracking e e3"
      unfolding e3_def by (rule same_tracking_trans [OF same_tracking_trans [OF e1 settle_deposit_tracking [OF ok(1)]]]) simp
    with ok(2) show ?thesis
      unfolding a_def [symmetric] e3_def [symmetric]
      by (auto simp: track_f1_finalized_def create_checkpoint_def Let_def same_tracking_def same_setup_def split: if_splits)
  next
    case (err y)
    then show ?thesis
      using same_tracking_trans [OF e1 settle_deposit_tracking] by blast
  qed
qed

lemma finalize_message_f2_cases:
  assumes "finalize_message_f2 env i st gap conf n e = Some (r, e')"
  shows "(\<exists>x. r = Inl x \<and> same_tracking e e') \<or>
    (r = Inr () \<and> same_setup e e' \<and> fe_pending e' = fe_pending e \<and> fe_f1_messages e' = fe_f1_messages e \<and>
     fe_finalized e' = (fe_finalized e)(i \<mapsto> f2_artifact (ee_now env) (fe_config e) i st gap conf n))"
proof -
  define e1 where "e1 = update_finalized_depth (fg_min_depth (fe_config e)) e"
  define a where "a = f2_artifact (ee_now env) (fe_config e) i st gap conf n"
  have e1: "same_tracking e e1"
    unfolding e1_def by (rule same_tracking_simps)
  from assms have "tryD (settle_deposit env i 1 3) (\<lambda>_ e2. modD (track_f2_stabilized i)
        ((persist_artifact env i a e2)\<lparr>fe_finalized := (fe_finalized (persist_artifact env i a e2))(i \<mapsto> a)\<rparr>)) e1 = Some (r, e')"
    unfolding finalize_message_f2_def tryD_modD Let_def e1_def a_def .
  then show ?thesis
  proof (cases rule: tryD_SomeE)
    case (ok y e2)
    define e3 where "e3 = persist_artifact env i a e2"
    have "same_tracking e e3"
      unfolding e3_def by (rule same_tracking_trans [OF same_tracking_trans [OF e1 settle_deposit_tracking [OF ok(1)]]]) simp
    with ok(2) show ?thesis
      unfolding a_def [symmetric] e3_def [symmetric]
      by (auto simp: track_f2_stabilized_def same_tracking_def same_setup_def)
  next
    case (err y)
    then show ?thesis
      using same_tracking_trans [OF e1 settle_deposit_tracking] by blast
  qed
qed

lemma finalize_f1_no_deposit:
  assumes "deposit_get_proposer (fe_deposits e) i = None"
  shows "finalize_f1 env i result e =
    (let a = create_artifact (ee_now env) (fe_config e) i result;
         e1 = persist_artifact env i a (update_finalized_depth (kr_depth result) (record_f1_time (ee_f1_duration env i) e))
     in map_option (Pair (Inr ())) (track_f1_finalized env i (e1\<lparr>fe_finalized := (fe_finalized e1)(i \<mapsto> a)\<rparr>)))"
proof -
  define e1 where "e1 = update_finalized_depth (kr_depth result) (record_f1_time (ee_f1_duration env i) e)"
  have "fe_deposits e1 = fe_deposits e"
    by (simp add: e1_def update_finalized_depth_def record_f1_time_def)
  with assms have "settle_deposit env i d n e1 = Some (Inr (), e1)" for d n
    by (simp add: settle_deposit_def)
  then have settled: "tryD (settle_deposit env i d n) f e1 = f () e1" for d n f
    by (simp add: tryD_def)
  have "fe_config (record_f1_time t e) = fe_config e" for t
    by (simp add: record_f1_time_def)
  then show ?thesis
    by (simp add: finalize_f1_def Let_def e1_def [symmetric] settled)
qed

lemma finalize_f1_error:
  assumes "finalize_f1 env i result e = Some (Inl x, e')"
  shows "deposit_get_proposer (fe_deposits e) i \<noteq> None"
  using assms by (cases "deposit_get_proposer (fe_deposits e) i") (simp_all add: finalize_f1_no_deposit Let_def)

lemma finalize_f1_returns:
  assumes "deposit_get_proposer (fe_deposits e) i = None"
    and "Suc (length (fe_f1_messages e)) < unat (fg_checkpoint_interval (fe_config e))"
  shows "\<exists>e'. finalize_f1 env i result e = Some (Inr (), e')"
proof -
  have "same_tracking e (persist_artifact env i a (update_finalized_depth d (record_f1_time t e)))" for a d t
    by (rule same_tracking_trans, rule same_tracking_trans) (rule same_tracking_simps)+
  with assms(2) show ?thesis
    by (simp add: finalize_f1_no_deposit [OF assms(1)] Let_def track_f1_finalized_def same_tracking_def same_setup_def)
qed

section \<open>The loops\<close>

text \<open>A postcondition of the loops: the setup stays, tracked messages stay below the checkpoint interval
  when there are new ones, and every new artifact certifies its message.\<close>

definition own_artifact :: "message_id \<Rightarrow> finality_artifact \<Rightarrow> bool" where
  "own_artifact i a \<longleftrightarrow> fa_intent_id a = i \<and>
     (fa_gate a = F1KCore \<and> artifact_is_valid a \<and> fw_kcore_root (fa_witness a) = Some i \<and> fp_k (fa_params a) \<le> fw_core_size (fa_witness a) \<and>
        fw_h3_stable (fa_witness a) = None
      \<or> fa_gate a = F2PersistentHomology \<and> fw_h3_stable (fa_witness a) \<noteq> None \<and> fw_kcore_root (fa_witness a) = None)"

definition analyzer_agrees :: "('s, 'e) finality_engine \<Rightarrow> bool" where
  "analyzer_agrees e \<longleftrightarrow>
     ka_k (fe_analyzer e) = fg_k (fe_config e) \<and> ka_min_depth (fe_analyzer e) = fg_min_depth (fe_config e) \<and>
     ka_min_diversity (fe_analyzer e) = fg_min_diversity (fe_config e) \<and>
     ka_min_reputation (fe_analyzer e) = fg_min_reputation (fe_config e)"

definition loop_post :: "('s, 'e) finality_engine \<Rightarrow> ('s, 'e) finality_engine \<Rightarrow> bool" where
  "loop_post e e' \<longleftrightarrow> same_setup e e' \<and> fe_pending e' = fe_pending e \<and>
     (fe_f1_messages e' = fe_f1_messages e \<or>
        length (fe_f1_messages e') < unat (fg_checkpoint_interval (fe_config e))) \<and>
     (\<forall>i a. fe_finalized e' i = Some a \<longrightarrow> fe_finalized e i = Some a \<or> own_artifact i a)"

lemma loop_post_refl [simp]: "loop_post e e"
  by (simp add: loop_post_def)

lemma loop_post_trans: "loop_post e e1 \<Longrightarrow> loop_post e1 e2 \<Longrightarrow> loop_post e e2"
  by (auto simp: loop_post_def same_setup_def)

lemma same_tracking_post: "same_tracking e e' \<Longrightarrow> loop_post e e'"
  by (simp add: loop_post_def same_tracking_def)

lemma same_setup_agrees: "same_setup e e' \<Longrightarrow> analyzer_agrees e' \<longleftrightarrow> analyzer_agrees e"
  by (simp add: same_setup_def analyzer_agrees_def)

lemma loop_post_agrees: "loop_post e e' \<Longrightarrow> analyzer_agrees e \<Longrightarrow> analyzer_agrees e'"
  using same_setup_agrees by (auto simp: loop_post_def)

lemma analyze_final:
  assumes "analyze ord B s rep i a = Some (r, a')" and "kr_is_final r"
  shows "ka_k a \<le> kr_core_size r" "ka_min_depth a \<le> kr_depth r" "ka_min_reputation a \<le> kr_total_reputation r"
    "\<forall>c \<in> ran (kr_distinct_balls r). ka_min_diversity a \<le> c" "kr_kcore_root r = Some i"
  using assms analyze_thresholds [OF assms(1)]
  by (auto simp: analyze_def kcore_not_final_def Let_def split: option.splits if_splits prod.splits)

lemma create_artifact_own:
  assumes "analyze_pending env i e = Some (result, e1)" and "kr_is_final result" and "analyzer_agrees e"
  shows "own_artifact i (create_artifact now (fe_config e) i result)"
proof -
  from assms(1) obtain a' where
    "analyze (ee_ids env) (ee_backend env) (fe_storage e) (fe_reputation e) i (fe_analyzer e) = Some (result, a')"
    by (auto simp: analyze_pending_def)
  from analyze_final [OF this assms(2)] assms(3) show ?thesis
    by (simp add: own_artifact_def create_artifact_def artifact_new_def artifact_is_valid_def config_params_def analyzer_agrees_def)
qed

lemma f1_loop_post:
  assumes "f1_loop env is newly e = Some (r, e')" and "analyzer_agrees e"
  shows "loop_post e e'"
  using assms
proof (induction "is" arbitrary: newly e)
  case Nil
  then show ?case by simp
next
  case (Cons i "is")
  show ?case
  proof (cases "engine_is_finalized e i")
    case True
    with Cons show ?thesis by simp
  next
    case False
    with Cons.prems(1) obtain result e1 where analysis: "analyze_pending env i e = Some (result, e1)"
      by (cases "analyze_pending env i e") auto
    have e1: "same_tracking e e1"
      by (rule analyze_pending_tracking [OF analysis])
    then have post1: "loop_post e e1" and agrees1: "analyzer_agrees e1" and config1: "fe_config e1 = fe_config e"
      using same_tracking_post loop_post_agrees Cons.prems(2) by (auto simp: same_tracking_def same_setup_def)
    show ?thesis
    proof (cases "kr_is_final result")
      case False
      with Cons.prems(1) \<open>\<not> engine_is_finalized e i\<close> analysis have "f1_loop env is newly e1 = Some (r, e')" by simp
      from loop_post_trans [OF post1 Cons.IH [OF this agrees1]] show ?thesis .
    next
      case True
      with Cons.prems(1) \<open>\<not> engine_is_finalized e i\<close> analysis
      have "tryD (finalize_f1 env i result) (\<lambda>_. f1_loop env is (newly @ [i])) e1 = Some (r, e')" by simp
      then show ?thesis
      proof (cases rule: tryD_SomeE)
        case (ok x e2)
        have "own_artifact i (create_artifact (ee_now env) (fe_config e1) i result)"
          unfolding config1 by (rule create_artifact_own [OF analysis True Cons.prems(2)])
        then have "loop_post e1 e2"
          using finalize_f1_cases [OF ok(1)] config1 by (auto simp: loop_post_def)
        with ok(2) Cons.IH post1 agrees1 show ?thesis
          by (meson loop_post_trans loop_post_agrees)
      next
        case (err x)
        from finalize_f1_cases [OF err(1)] have "same_tracking e1 e'" by auto
        with post1 show ?thesis
          using loop_post_trans same_tracking_post by blast
      qed
    qed
  qed
qed

lemma f2_artifact_own: "own_artifact i (f2_artifact now config i st gap conf n)"
  by (simp add: own_artifact_def f2_artifact_def)

lemma finalize_all_f2_post: "finalize_all_f2 env st gap conf n is e = Some (r, e') \<Longrightarrow> loop_post e e'"
proof (induction "is" arbitrary: e)
  case (Cons i "is")
  then have "tryD (finalize_message_f2 env i st gap conf n) (\<lambda>_. finalize_all_f2 env st gap conf n is) e = Some (r, e')"
    by simp
  then show ?case
  proof (cases rule: tryD_SomeE)
    case (ok x e1)
    have "loop_post e e1"
      using finalize_message_f2_cases [OF ok(1)] by (auto simp: loop_post_def intro: f2_artifact_own)
    with Cons.IH [OF ok(2)] show ?thesis by (rule loop_post_trans [rotated])
  next
    case (err x)
    with finalize_message_f2_cases [OF err(1)] show ?thesis
      by (auto intro: same_tracking_post)
  qed
qed simp

text \<open>The whole check, up to the pending window.\<close>

definition check_post :: "('s, 'e) finality_engine \<Rightarrow> ('s, 'e) finality_engine \<Rightarrow> bool" where
  "check_post e e' \<longleftrightarrow> same_setup e e' \<and>
     (fe_f1_messages e' = fe_f1_messages e \<or>
        length (fe_f1_messages e') < unat (fg_checkpoint_interval (fe_config e))) \<and>
     (\<forall>i a. fe_finalized e' i = Some a \<longrightarrow> fe_finalized e i = Some a \<or> own_artifact i a)"

lemma loop_post_check: "loop_post e e' \<Longrightarrow> check_post e e'"
  by (simp add: loop_post_def check_post_def)

lemma clean_pending_post: "check_post e e' \<Longrightarrow> check_post e (clean_pending newly e')"
  by (simp add: check_post_def clean_pending_def same_setup_def)

lemma check_f1_post:
  assumes "check_f1 env pending e = Some (r, e')" and "analyzer_agrees e"
  shows "check_post e e'"
  using assms(1) unfolding check_f1_def
proof (cases rule: tryD_SomeE)
  case (ok newly e1)
  have "loop_post e e1"
    using ok(1) assms(2) f1_loop_post by (auto split: if_splits)
  with ok(2) show ?thesis
    by (auto intro: clean_pending_post loop_post_check)
next
  case (err x)
  from err(1) have "loop_post e e'"
    by (auto intro: f1_loop_post [OF _ assms(2)] split: if_splits)
  then show ?thesis by (rule loop_post_check)
qed

lemma check_finality_post:
  assumes "check_finality env e = Some (r, e')" and "analyzer_agrees e"
  shows "check_post e e'"
proof (cases "fg_f2_enabled (fe_config e)")
  case False
  with assms show ?thesis
    by (auto simp: check_finality_def intro: check_f1_post)
next
  case True
  with assms(1) obtain r1 e1 where f2: "try_f2_finality env (fe_pending e) e = Some (r1, e1)"
    by (auto simp: check_finality_def Let_def bind_eq_Some_conv)
  have e1: "same_tracking e e1"
    by (rule try_f2_tracking [OF f2])
  then have post1: "loop_post e e1" and agrees1: "analyzer_agrees e1"
    using same_tracking_post loop_post_agrees assms(2) by blast+
  have trans: "check_post e1 e' \<Longrightarrow> check_post e e'"
    using e1 by (simp add: check_post_def same_tracking_def same_setup_def)
  show ?thesis
  proof (cases r1)
    case (Inl x)
    show ?thesis
    proof (cases x)
      case (EngineErr y)
      with assms(1) True f2 Inl have "check_f1 env (fe_pending e) e1 = Some (r, e')"
        by (simp add: check_finality_def)
      with agrees1 show ?thesis by (intro trans check_f1_post)
    next
      case EnginePanic
      with assms(1) True f2 Inl have "e' = e1"
        by (simp add: check_finality_def)
      with post1 show ?thesis by (simp add: loop_post_check)
    qed
  next
    case (Inr y)
    show ?thesis
    proof (cases y)
      case None
      with assms(1) True f2 Inr have "check_f1 env (fe_pending e) e1 = Some (r, e')"
        by (simp add: check_finality_def)
      with agrees1 show ?thesis by (intro trans check_f1_post)
    next
      case (Some v)
      obtain msgs st gap conf where v: "v = (msgs, st, gap, conf)" by (cases v) auto
      with assms(1) True f2 Inr Some have "tryD (finalize_all_f2 env st gap conf (length msgs) msgs) (\<lambda>_.
          tryD (modD (clean_pending msgs)) (\<lambda>_. okD msgs)) e1 = Some (r, e')"
        by (simp add: check_finality_def)
      then show ?thesis
      proof (cases rule: tryD_SomeE)
        case (ok x e2)
        with finalize_all_f2_post [OF ok(1)] show ?thesis
          by (intro trans) (auto intro: clean_pending_post loop_post_check)
      next
        case (err x)
        with finalize_all_f2_post [OF err(1)] show ?thesis
          by (intro trans loop_post_check)
      qed
    qed
  qed
qed

section \<open>Reachable engines\<close>

text \<open>Everything that happens to an engine: its own operations, artifacts of the network that pass
  \<open>P\<close>, and whatever the rest of the node does to the storage, deposits and reputation.\<close>

inductive engine_reach :: "(bytes \<Rightarrow> bytes) \<Rightarrow> (finality_artifact \<Rightarrow> bool) \<Rightarrow> ('s, 'e) finality_engine \<Rightarrow> ('s, 'e) finality_engine \<Rightarrow> bool"
  for sha P e0 where
  start: "engine_reach sha P e0 e0"
| add: "engine_reach sha P e0 e \<Longrightarrow> engine_reach sha P e0 (engine_add_message i e)"
| receive: "engine_reach sha P e0 e \<Longrightarrow> P a \<Longrightarrow> engine_reach sha P e0 (engine_store_artifact a e)"
| check: "engine_reach sha P e0 e \<Longrightarrow> ee_sha256 env = sha \<Longrightarrow> check_finality env e = Some (r, e') \<Longrightarrow> engine_reach sha P e0 e'"
| kcore: "engine_reach sha P e0 e \<Longrightarrow> check_kcore_finality env i e = Some (k, e') \<Longrightarrow> engine_reach sha P e0 e'"
| checkpoint: "engine_reach sha P e0 e \<Longrightarrow> ee_sha256 env = sha \<Longrightarrow> create_checkpoint env False e = Some (c, e') \<Longrightarrow> engine_reach sha P e0 e'"
| params: "engine_reach sha P e0 e \<Longrightarrow> engine_reach sha P e0 (engine_update_params p n x e)"
| node: "engine_reach sha P e0 e \<Longrightarrow> engine_reach sha P e0 (e\<lparr>fe_storage := s, fe_deposits := d, fe_reputation := t\<rparr>)"

definition linked :: "(bytes \<Rightarrow> bytes) \<Rightarrow> checkpoint list \<Rightarrow> bool" where
  "linked sha cs \<longleftrightarrow>
     (\<forall>n < length cs. cp_height (cs ! n) = of_nat n \<and>
        cp_prev_hash (cs ! n) = (if n = 0 then None else Some (checkpoint_hash sha (cs ! (n - 1)))))"

definition engine_ok :: "(bytes \<Rightarrow> bytes) \<Rightarrow> (finality_artifact \<Rightarrow> bool) \<Rightarrow> ('s, 'e) finality_engine \<Rightarrow> bool" where
  "engine_ok sha P e \<longleftrightarrow> analyzer_agrees e \<and>
     (\<forall>i a. fe_finalized e i = Some a \<longrightarrow> own_artifact i a \<or> P a \<and> fa_intent_id a = i) \<and>
     fe_checkpoint_height e = of_nat (length (fe_checkpoints e)) \<and> linked sha (fe_checkpoints e)"

lemma engine_ok_new: "engine_ok sha P (finality_engine_new config params storage deposits reputation)"
  by (simp add: engine_ok_def finality_engine_new_def analyzer_agrees_def kcore_analyzer_new_def linked_def)

lemma engine_ok_same: "same_tracking e e' \<Longrightarrow> engine_ok sha P e \<Longrightarrow> engine_ok sha P e'"
  by (simp add: engine_ok_def same_tracking_def same_setup_def analyzer_agrees_def)

lemma linked_append:
  assumes "linked sha cs" and "cp_height c = of_nat (length cs)"
    and "cp_prev_hash c = (if cs = [] then None else Some (checkpoint_hash sha (last cs)))"
  shows "linked sha (cs @ [c])"
  using assms by (auto simp: linked_def nth_append less_Suc_eq last_conv_nth)

lemma create_checkpoint_ok:
  assumes "engine_ok sha P e" and "ee_sha256 env = sha" and "create_checkpoint env False e = Some (c, e')"
  shows "engine_ok sha P e'"
proof -
  from assms(3) have e': "fe_checkpoints e' = fe_checkpoints e @ [c]" "fe_checkpoint_height e' = fe_checkpoint_height e + 1"
      "fe_finalized e' = fe_finalized e" "fe_config e' = fe_config e" "fe_analyzer e' = fe_analyzer e"
    and c: "cp_height c = fe_checkpoint_height e"
      "cp_prev_hash c = (if fe_checkpoints e = [] then None else Some (checkpoint_hash (ee_sha256 env) (last (fe_checkpoints e))))"
    by (auto simp: create_checkpoint_def Let_def checkpoint_new_def)
  show ?thesis
    using assms(1,2) linked_append [of sha "fe_checkpoints e" c] c
    by (simp add: engine_ok_def e' analyzer_agrees_def add.commute)
qed

lemma check_post_ok: "check_post e e' \<Longrightarrow> engine_ok sha P e \<Longrightarrow> engine_ok sha P e'"
  unfolding engine_ok_def check_post_def by (auto simp: same_setup_def analyzer_agrees_def)

lemma engine_reach_ok:
  assumes "engine_reach sha P e0 e" and "engine_ok sha P e0"
  shows "engine_ok sha P e"
  using assms
proof induction
  case (check e env r e')
  then have "analyzer_agrees e" by (simp add: engine_ok_def)
  from check_post_ok [OF check_finality_post [OF check.hyps(3) this]] check show ?case by blast
next
  case (kcore e env i k e')
  then obtain r where "analyze_pending env i e = Some (r, e')"
    by (auto simp: check_kcore_finality_def)
  from engine_ok_same [OF analyze_pending_tracking [OF this]] kcore show ?case by blast
next
  case (checkpoint e env c e')
  then show ?case by (blast intro: create_checkpoint_ok)
next
  case (receive e a)
  then show ?case by (auto simp: engine_ok_def engine_store_artifact_def analyzer_agrees_def)
qed (auto simp: engine_ok_def engine_add_message_def engine_update_params_def analyzer_agrees_def kcore_analyzer_new_def Let_def)

text \<open>C4: an artifact of a reached engine either came from the network or certifies its message: it is an
  F1 artifact whose witness meets the parameters it names, with a k-core of at least k messages, or an F2
  artifact.\<close>

theorem artifacts_certify:
  assumes "engine_reach sha P (finality_engine_new config params storage deposits reputation) e"
    and "fe_finalized e i = Some a" and "\<not> P a"
  shows "fa_intent_id a = i \<and>
    (fa_gate a = F1KCore \<and> artifact_is_valid a \<and> fp_k (fa_params a) \<le> fw_core_size (fa_witness a) \<or>
     fa_gate a = F2PersistentHomology)"
  using engine_reach_ok [OF assms(1) engine_ok_new] assms(2,3) by (auto simp: engine_ok_def own_artifact_def)

text \<open>no message is ever final for governance, which asks for both F1 and F2, unless an artifact that
  says so came from the network: the engine makes artifacts of one kind and does not look at a finalized
  message again.\<close>

theorem composite_finality_unreachable:
  assumes "engine_reach sha P (finality_engine_new config params storage deposits reputation) e"
    and "\<And>a. P a \<Longrightarrow> \<not> has_composite_finality a"
  shows "\<not> is_governance_finalized e i"
proof -
  have "\<not> has_composite_finality a" if "own_artifact i a" for a
    using that by (auto simp: own_artifact_def has_composite_finality_def has_f1_finality_def has_f2_finality_def)
  then show ?thesis
    using engine_reach_ok [OF assms(1) engine_ok_new] assms(2)
    by (auto simp: engine_ok_def is_governance_finalized_def engine_has_composite_finality_def split: option.splits)
qed

text \<open>C29: the checkpoints of a reached engine form a chain: they have the heights 0, 1, 2, ... and each
  refers to the hash of its predecessor.\<close>

theorem checkpoints_form_chain:
  assumes "engine_reach sha P (finality_engine_new config params storage deposits reputation) e"
    and "n < length (fe_checkpoints e)"
  shows "cp_height (fe_checkpoints e ! n) = of_nat n \<and>
    cp_prev_hash (fe_checkpoints e ! n) =
      (if n = 0 then None else Some (checkpoint_hash sha (fe_checkpoints e ! (n - 1))))"
  using engine_reach_ok [OF assms(1) engine_ok_new] assms(2) by (simp add: engine_ok_def linked_def)

text \<open>F2 artifacts say that they have no reputation and depth 3, so a node that checks artifacts of its
  peers with \<open>is_valid\<close> refuses them under the usual parameters.\<close>

lemma f2_artifact_refused:
  assumes "0 < fg_min_reputation config \<or> 3 < fg_min_depth config"
  shows "\<not> artifact_is_valid (f2_artifact now config i st gap conf n)"
  using assms by (auto simp: artifact_is_valid_def f2_artifact_def config_params_def)

section \<open>Where the check does not get through\<close>


text \<open>a final message whose deposit cannot be refunded, for example because it was slashed, stops the
  check: it fails without finalizing any of the messages behind it, and leaves the pending window as it
  was, so that the next check stops there again.\<close>

theorem failed_refund_blocks_check:
  assumes "\<not> fg_f2_enabled (fe_config e)" and "fg_f1_enabled (fe_config e)"
    and "fe_pending e = i # is" and "\<not> engine_is_finalized e i"
    and "analyze_pending env i e = Some (result, e1)" and "kr_is_final result"
    and "dm_deposits (fe_deposits e) i = Some x" and "dp_status x \<noteq> Escrowed"
  shows "\<exists>e'. check_finality env e = Some (Inl (EngineErr InvalidParameter), e') \<and>
    fe_pending e' = fe_pending e \<and> fe_finalized e' = fe_finalized e \<and> dm_deposits (fe_deposits e') i = Some x"
proof -
  have e1: "same_tracking e e1" "fe_deposits e1 = fe_deposits e"
    using analyze_pending_tracking [OF assms(5)] assms(5) by (auto simp: analyze_pending_def)
  define e2 where "e2 = update_finalized_depth (kr_depth result) (record_f1_time (ee_f1_duration env i) e1)"
  have e2: "fe_deposits e2 = fe_deposits e"
    using e1(2) by (simp add: e2_def record_f1_time_def update_finalized_depth_def)
  have tracking: "same_tracking e e2"
    unfolding e2_def
    by (rule same_tracking_trans [OF e1(1)], rule same_tracking_trans) (rule same_tracking_simps)+
  have "settle_deposit env i d n e2 = Some (Inl (EngineErr InvalidParameter), e2)" for d n
    using assms(7,8) e2 by (simp add: settle_deposit_def deposit_get_proposer_def deposit_refund_def errR_def)
  then have "finalize_f1 env i result e1 = Some (Inl (EngineErr InvalidParameter), e2)"
    by (simp add: finalize_f1_def Let_def e2_def [symmetric], simp add: tryD_def)
  then have "f1_loop env (i # is) [] e = Some (Inl (EngineErr InvalidParameter), e2)"
    using assms(4-6) by (simp add: tryD_def)
  then have "check_finality env e = Some (Inl (EngineErr InvalidParameter), e2)"
    using assms(1-3) by (simp add: check_finality_def check_f1_def, simp add: tryD_def)
  with e2 tracking assms(7) show ?thesis
    by (simp add: same_tracking_def)
qed

section \<open>Sample runs\<close>

definition sample_env :: "(message_store, memory_storage) engine_env" where
  "sample_env =
     \<lparr>ee_backend = sample_backend, ee_econ = memory_ops (\<lambda>_. []), ee_now = 0, ee_ids = sorted_list_of_set, ee_balls = id,
      ee_pairs = id, ee_artifacts = (\<lambda>m. map (\<lambda>i. the (m i)) (filter (\<lambda>i. m i \<noteq> None) [[1], [2]])),
      ee_elapsed = (\<lambda>_. 0), ee_f1_duration = (\<lambda>_. 0), ee_witness_json = (\<lambda>w. Some [ucast (fw_depth w)]),
      ee_artifact_json = (\<lambda>_. None), ee_blake3 = id, ee_sha256 = first_half\<rparr>"

definition sample_config :: "u64 \<Rightarrow> finality_config" where
  "sample_config interval = finality_config_default\<lparr>fg_k := 1, fg_min_depth := 2, fg_min_diversity := 0,
     fg_min_reputation := 0, fg_checkpoint_interval := interval\<rparr>"

definition new_engine :: "u64 \<Rightarrow> (message_id \<rightharpoonup> deposit) \<Rightarrow> (message_store, memory_storage) finality_engine" where
  "new_engine interval deps = finality_engine_new (sample_config interval) (params_default\<lparr>prm_rho := []\<rparr>) triple_store
     ((deposit_manager_new 0)\<lparr>dm_deposits := deps\<rparr>) sample_reputation"

definition sample_engine :: "u64 \<Rightarrow> (message_id \<rightharpoonup> deposit) \<Rightarrow> (message_store, memory_storage) finality_engine" where
  "sample_engine interval deps = engine_add_message [2] (engine_add_message [1] (new_engine interval deps))"

lemma sample_engine_simps:
  "fe_config (sample_engine n deps) = sample_config n" "fe_pending (sample_engine n deps) = [[1], [2]]"
  "fe_finalized (sample_engine n deps) = Map.empty" "dm_deposits (fe_deposits (sample_engine n deps)) = deps"
  "fe_f1_messages (sample_engine n deps) = []" "fe_analyzer (sample_engine n deps) = sample_analyzer"
  "fe_storage (sample_engine n deps) = triple_store" "fe_reputation (sample_engine n deps) = sample_reputation"
  by (simp_all add: sample_engine_def new_engine_def engine_add_message_def finality_engine_new_def sample_config_def
      finality_config_default_def keep_last_def sample_analyzer_def kcore_analyzer_new_def params_default_def)

lemma sample_config_simps:
  "fg_f2_enabled (sample_config n) = False" "fg_f1_enabled (sample_config n) = True"
  "fg_checkpoint_interval (sample_config n) = n"
  by (simp_all add: sample_config_def finality_config_default_def)

lemma sample_analysis:
  obtains result e1 where "analyze_pending sample_env [1] (sample_engine n deps) = Some (result, e1)" "kr_is_final result"
  using fresh_analysis that by (auto simp: analyze_pending_def sample_engine_simps sample_env_def)


definition slashed_deposit :: deposit where
  "slashed_deposit = \<lparr>dp_message_id = [1], dp_proposer = [], dp_amount = ADIC_ZERO, dp_status = Slashed, dp_timestamp = 0\<rparr>"

theorem failed_refund_blocks_check_witness:
  "\<exists>e'. check_finality sample_env (sample_engine 9 [[1] \<mapsto> slashed_deposit]) = Some (Inl (EngineErr InvalidParameter), e') \<and>
     fe_pending e' = [[1], [2]] \<and> fe_finalized e' = Map.empty"
proof -
  obtain result e1 where "analyze_pending sample_env [1] (sample_engine 9 [[1] \<mapsto> slashed_deposit]) = Some (result, e1)"
      "kr_is_final result"
    by (rule sample_analysis)
  from failed_refund_blocks_check [OF _ _ _ _ this, of _ slashed_deposit] show ?thesis
    by (auto simp: sample_engine_simps sample_config_simps engine_is_finalized_def slashed_deposit_def)
qed

text \<open>A run that finalizes the first message.\<close>

definition one_pending :: "(message_store, memory_storage) finality_engine" where
  "one_pending = engine_add_message [1] (new_engine 9 Map.empty)"

lemma sample_finalized:
  obtains e' a where "check_finality sample_env one_pending = Some (Inr [[1]], e')" "fe_finalized e' [1] = Some a"
proof -
  have config: "fe_config one_pending = sample_config 9" "fe_pending one_pending = [[1]]" "fe_finalized one_pending = Map.empty"
    "fe_f1_messages one_pending = []" "fe_analyzer one_pending = sample_analyzer" "fe_storage one_pending = triple_store"
    "fe_reputation one_pending = sample_reputation" "dm_deposits (fe_deposits one_pending) = Map.empty"
    by (simp_all add: one_pending_def new_engine_def engine_add_message_def finality_engine_new_def sample_config_def
      finality_config_default_def keep_last_def sample_analyzer_def kcore_analyzer_new_def params_default_def)
  obtain result e1 where analysis: "analyze_pending sample_env [1] one_pending = Some (result, e1)" "kr_is_final result"
    using fresh_analysis by (auto simp: analyze_pending_def config sample_env_def)
  have "same_tracking one_pending e1"
    by (rule analyze_pending_tracking [OF analysis(1)])
  moreover have "fe_deposits e1 = fe_deposits one_pending"
    using analysis(1) by (auto simp: analyze_pending_def)
  ultimately have "deposit_get_proposer (fe_deposits e1) [1] = None"
      "Suc (length (fe_f1_messages e1)) < unat (fg_checkpoint_interval (fe_config e1))"
    using config by (simp_all add: deposit_get_proposer_def same_tracking_def same_setup_def sample_config_simps)
  from finalize_f1_returns [OF this] obtain e2 where fin: "finalize_f1 sample_env [1] result e1 = Some (Inr (), e2)"
    by blast
  have "f1_loop sample_env [[1]] [] one_pending = Some (Inr [[1]], e2)"
    using analysis fin by (simp add: engine_is_finalized_def config tryD_def okD_def)
  then have "check_finality sample_env one_pending = Some (Inr [[1]], clean_pending [[1]] e2)"
    by (simp add: check_finality_def check_f1_def config sample_config_simps tryD_def modD_def okD_def)
  moreover have "fe_finalized (clean_pending [[1]] e2) [1] \<noteq> None"
    using finalize_f1_cases [OF fin] by (simp add: clean_pending_def)
  ultimately show ?thesis using that by blast
qed

lemma sample_reach:
  "check_finality sample_env one_pending = Some (r, e') \<Longrightarrow> engine_reach first_half P (new_engine 9 Map.empty) e'"
  unfolding one_pending_def by (rule check [OF add [OF start]]) (simp_all add: sample_env_def)

theorem artifacts_certify_witness:
  "\<exists>e' a. check_finality sample_env one_pending = Some (Inr [[1]], e') \<and> fe_finalized e' [1] = Some a \<and> fa_intent_id a = [1]"
proof -
  obtain e' a where e': "check_finality sample_env one_pending = Some (Inr [[1]], e')" "fe_finalized e' [1] = Some a"
    by (rule sample_finalized)
  have "engine_reach first_half (\<lambda>_. False) (new_engine 9 Map.empty) e'"
    by (rule sample_reach [OF e'(1)])
  from artifacts_certify [OF this [unfolded new_engine_def] e'(2)] e' show ?thesis by blast
qed

theorem composite_finality_unreachable_witness:
  "\<exists>e'. check_finality sample_env one_pending = Some (Inr [[1]], e') \<and> engine_is_finalized e' [1] \<and> \<not> is_governance_finalized e' [1]"
proof -
  obtain e' a where e': "check_finality sample_env one_pending = Some (Inr [[1]], e')" "fe_finalized e' [1] = Some a"
    by (rule sample_finalized)
  have "engine_reach first_half (\<lambda>_. False) (new_engine 9 Map.empty) e'"
    by (rule sample_reach [OF e'(1)])
  from composite_finality_unreachable [OF this [unfolded new_engine_def]] e' show ?thesis
    by (auto simp: engine_is_finalized_def)
qed

theorem checkpoints_form_chain_witness:
  "\<exists>c1 e1 c2 e2. create_checkpoint sample_env False (new_engine 9 Map.empty) = Some (c1, e1) \<and>
     create_checkpoint sample_env False e1 = Some (c2, e2) \<and> cp_height c2 = 1 \<and>
     cp_prev_hash c2 = Some (checkpoint_hash first_half c1)"
proof -
  obtain c1 e1 where c1: "create_checkpoint sample_env False (new_engine 9 Map.empty) = Some (c1, e1)"
    by (auto simp: create_checkpoint_def Let_def)
  obtain c2 e2 where c2: "create_checkpoint sample_env False e1 = Some (c2, e2)"
    by (auto simp: create_checkpoint_def Let_def)
  have e1: "fe_checkpoints e1 = [c1]"
    using c1 by (auto simp: create_checkpoint_def Let_def new_engine_def finality_engine_new_def)
  have e2: "fe_checkpoints e2 = fe_checkpoints e1 @ [c2]"
    using c2 by (auto simp: create_checkpoint_def Let_def)
  have sha: "ee_sha256 sample_env = first_half"
    by (simp add: sample_env_def)
  have "engine_reach first_half (\<lambda>_. False) (new_engine 9 Map.empty) e2"
    by (rule engine_reach.checkpoint [OF engine_reach.checkpoint [OF start sha c1] sha c2])
  from checkpoints_form_chain [OF this [unfolded new_engine_def], of 1] c1 c2 e1 e2 show ?thesis
    by auto
qed

section \<open>Two nodes with the same state\<close>

definition other_order :: "(message_store, memory_storage) engine_env" where
  "other_order = sample_env\<lparr>ee_artifacts := (\<lambda>m. map (\<lambda>i. the (m i)) (filter (\<lambda>i. m i \<noteq> None) [[2], [1]]))\<rparr>"

definition two_final :: "(message_store, memory_storage) finality_engine" where
  "two_final = (new_engine 9 Map.empty)\<lparr>fe_finalized :=
     [[1] \<mapsto> f2_artifact 0 (sample_config 9) [1] True 0 1 2,
      [2] \<mapsto> (f2_artifact 0 (sample_config 9) [2] True 0 1 2)\<lparr>fa_witness := (fa_witness (f2_artifact 0 (sample_config 9) [2] True 0 1 2))\<lparr>fw_depth := 4\<rparr>\<rparr>]\<rparr>"

text \<open>two engines in the same state make checkpoints that diverge when their hash maps list the same
  artifacts in another order, since the witness root is taken over that order.\<close>

theorem equal_states_diverge:
  "set (ee_artifacts other_order (fe_finalized two_final)) = set (ee_artifacts sample_env (fe_finalized two_final)) \<and>
   (\<exists>c e c' e'. create_checkpoint sample_env False two_final = Some (c, e) \<and>
      create_checkpoint other_order False two_final = Some (c', e') \<and> diverges_from c c')"
proof -
  have length: "length (first_half b) = 32" for b
    by (simp add: first_half_def)
  have "first_half (first_half b @ c) = first_half b" for b c
    using length [of b] by (simp add: first_half_def [of "_ @ _"])
  with length have root: "compute_root first_half [first_half b, first_half c] = first_half b" for b c
    by (simp add: compute_root_def merkle_levels.simps)
  have "first_half [3] \<noteq> first_half [4]"
    by (simp add: first_half_def numeral_eq_Suc)
  then show ?thesis
    by (simp add: create_checkpoint_def Let_def two_final_def other_order_def sample_env_def diverges_from_def checkpoint_new_def
        List.map_filter_def merkle_add_def merkle_new_def root f2_artifact_def insert_commute)
qed

end
