(* ===== verification/Json.thy ===== *)
theory Json
  imports Core_Types "HOL-Library.Char_ord" "HOL-Library.List_Lexorder"
begin

text \<open>
  JSON values (\<open>serde_json::Value\<close>) as the crates use them, and the canonical form of
  \<open>crates/adic-types/src/canonical_json.rs\<close>. A number is an unsigned, a negative or a floating point
  number; an object is the list of its entries, whose keys are distinct. Floating point numbers are reals,
  but the conversion of a 64 bit integer to \<open>f64\<close> is written out with its rounding to 53 bits.
  Serialisation to a \<open>Value\<close>, printing and \<open>blake3\<close> are third-party code.
\<close>

section \<open>Values\<close>

datatype json =
    JNull
  | JBool bool
  | JPos u64
  | JNeg int
  | JFloat f64
  | JStr string
  | JArr "json list"
  | JObj "(string \<times> json) list"

text \<open>Rounding to the nearest integer with 53 significant bits, ties to even.\<close>

fun bit_len :: "nat \<Rightarrow> nat" where
  "bit_len n = (if n = 0 then 0 else Suc (bit_len (n div 2)))"

declare bit_len.simps [simp del]

definition round53 :: "nat \<Rightarrow> nat" where
  "round53 n =
     (let s = bit_len n - 53; q = n div 2 ^ s; r = n mod 2 ^ s
      in if s = 0 then n
         else if 2 * r < 2 ^ s \<or> (2 * r = 2 ^ s \<and> even q) then q * 2 ^ s
         else (q + 1) * 2 ^ s)"

definition as_f64 :: "json \<Rightarrow> f64 option" where
  "as_f64 v = (case v of
     JPos n \<Rightarrow> Some (real (round53 (unat n)))
   | JNeg i \<Rightarrow> Some (- real (round53 (nat (- i))))
   | JFloat f \<Rightarrow> Some f
   | _ \<Rightarrow> None)"

definition as_u64 :: "json \<Rightarrow> u64 option" where
  "as_u64 v = (case v of JPos n \<Rightarrow> Some n | _ \<Rightarrow> None)"

definition as_array :: "json \<Rightarrow> json list option" where
  "as_array v = (case v of JArr xs \<Rightarrow> Some xs | _ \<Rightarrow> None)"

definition as_object :: "json \<Rightarrow> (string \<times> json) list option" where
  "as_object v = (case v of JObj m \<Rightarrow> Some m | _ \<Rightarrow> None)"

lemmas json_views = as_f64_def as_u64_def as_array_def as_object_def

lemma bit_len_0 [simp]: "bit_len 0 = 0"
  by (simp add: bit_len.simps)

lemma bit_len_pos: "n \<noteq> 0 \<Longrightarrow> bit_len n = Suc (bit_len (n div 2))"
  by (subst bit_len.simps) simp

lemma bit_len_bound: "n < 2 ^ bit_len n"
proof (induction n rule: bit_len.induct)
  case (1 n)
  then show ?case
    by (cases "n = 0") (simp_all add: bit_len_pos div_less_iff_less_mult mult.commute)
qed

lemma bit_len_le: "n < 2 ^ k \<Longrightarrow> bit_len n \<le> k"
proof (induction k arbitrary: n)
  case 0
  then show ?case by simp
next
  case (Suc k)
  then show ?case
    by (cases "n = 0") (simp_all add: bit_len_pos less_mult_imp_div_less)
qed

lemma round53_small: "n < 2 ^ 53 \<Longrightarrow> round53 n = n"
  using bit_len_le [of n 53] by (simp add: round53_def)

section \<open>Canonical form\<close>

definition canonical_number :: "f64 option \<Rightarrow> json \<Rightarrow> json" where
  "canonical_number f n = (case f of
     None \<Rightarrow> n
   | Some f \<Rightarrow>
       (if f = of_int \<lfloor>f\<rfloor> \<and> \<bar>f\<bar> < 2 ^ 53
        then (let i = \<lfloor>f\<rfloor> in if i < 0 then JNeg i else JPos (word_of_int i))
        else JFloat f))"

lemma size_entry: "e \<in> set m \<Longrightarrow> size (snd e) \<le> size_list (size_prod (\<lambda>_. 0) size) m"
  by (erule size_list_estimation') (cases e, simp)

function canonicalize_value :: "json \<Rightarrow> json" where
  "canonicalize_value (JObj m) =
     JObj (foldl (\<lambda>sorted (k, v). btree_insert k v sorted) []
       (map (\<lambda>e. (fst e, canonicalize_value (snd e))) (filter (\<lambda>e. snd e \<noteq> JNull) m)))"
| "canonicalize_value (JArr xs) = JArr (map canonicalize_value xs)"
| "canonicalize_value (JPos n) = canonical_number (as_f64 (JPos n)) (JPos n)"
| "canonicalize_value (JNeg i) = canonical_number (as_f64 (JNeg i)) (JNeg i)"
| "canonicalize_value (JFloat f) = canonical_number (as_f64 (JFloat f)) (JFloat f)"
| "canonicalize_value (JStr s) = JStr s"
| "canonicalize_value (JBool b) = JBool b"
| "canonicalize_value JNull = JNull"
  by pat_completeness auto

termination
  by (relation "measure size") (auto intro: size_entry [THEN le_imp_less_Suc, THEN less_le_trans] simp: less_Suc_eq_le size_list_estimation')

text \<open>\<open>print\<close> is \<open>serde_json::to_string\<close>.\<close>

definition to_canonical_json :: "(json \<Rightarrow> string) \<Rightarrow> json \<Rightarrow> string" where
  "to_canonical_json print value = print (canonicalize_value value)"

definition canonical_hash :: "(bytes \<Rightarrow> bytes) \<Rightarrow> (json \<Rightarrow> string) \<Rightarrow> json \<Rightarrow> bytes" where
  "canonical_hash blake3 print value = blake3 (map of_char (to_canonical_json print value))"

definition verify_canonical_match :: "(bytes \<Rightarrow> bytes) \<Rightarrow> (json \<Rightarrow> string) \<Rightarrow> json \<Rightarrow> json \<Rightarrow> bool" where
  "verify_canonical_match blake3 print a b \<longleftrightarrow> canonical_hash blake3 print a = canonical_hash blake3 print b"

datatype canonical_json_error = CanonicalSerialization | InvalidStructure

definition parse_and_verify_hash :: "(bytes \<Rightarrow> bytes) \<Rightarrow> (json \<Rightarrow> string) \<Rightarrow> (string \<Rightarrow> json option) \<Rightarrow> string \<Rightarrow> bytes \<Rightarrow>
    canonical_json_error + json" where
  "parse_and_verify_hash blake3 print parse text expected_hash =
     (case parse text of
        None \<Rightarrow> Inl CanonicalSerialization
      | Some value \<Rightarrow>
          (if canonical_hash blake3 print value \<noteq> expected_hash then Inl InvalidStructure else Inr value))"

section \<open>Canonical forms\<close>

text \<open>Objects of a \<open>Value\<close> have distinct keys; negative numbers are negative.\<close>

inductive json_ok :: "json \<Rightarrow> bool" where
  "json_ok JNull"
| "json_ok (JBool b)"
| "json_ok (JPos n)"
| "i < 0 \<Longrightarrow> json_ok (JNeg i)"
| "json_ok (JFloat f)"
| "json_ok (JStr s)"
| "(\<And>x. x \<in> set xs \<Longrightarrow> json_ok x) \<Longrightarrow> json_ok (JArr xs)"
| "distinct (map fst m) \<Longrightarrow> (\<And>e. e \<in> set m \<Longrightarrow> json_ok (snd e)) \<Longrightarrow> json_ok (JObj m)"

definition canonical_entries :: "(string \<times> json) list \<Rightarrow> (string \<times> json) list" where
  "canonical_entries m = map (\<lambda>e. (fst e, canonicalize_value (snd e))) (filter (\<lambda>e. snd e \<noteq> JNull) m)"

lemma canonicalize_object: "canonicalize_value (JObj m) = JObj (btree_of (canonical_entries m))"
  by (simp add: btree_of_def canonical_entries_def)

lemma keys_canonical_entries: "map fst (canonical_entries m) = map fst (filter (\<lambda>e. snd e \<noteq> JNull) m)"
  by (simp add: canonical_entries_def)

lemma distinct_canonical_entries: "distinct (map fst m) \<Longrightarrow> distinct (map fst (canonical_entries m))"
  by (simp add: keys_canonical_entries distinct_map_filter)

lemma map_of_canonical_entries:
  "distinct (map fst m) \<Longrightarrow> map_of (canonical_entries m) k =
     (case map_of m k of None \<Rightarrow> None | Some v \<Rightarrow> if v = JNull then None else Some (canonicalize_value v))"
proof (induction m)
  case (Cons e m)
  then show ?case
    by (cases e) (auto simp: canonical_entries_def map_of_eq_None_iff split: option.split, force dest: map_of_SomeD)
qed (simp add: canonical_entries_def)

lemma canonical_number_not_null [simp]: "n \<noteq> JNull \<Longrightarrow> canonical_number f n \<noteq> JNull"
  by (auto simp: canonical_number_def Let_def split: option.split)

lemma canonicalize_null_iff [simp]: "canonicalize_value v = JNull \<longleftrightarrow> v = JNull"
  by (cases v) simp_all

lemma canonical_number_fixed:
  assumes "v = canonical_number (Some f) n"
  shows "canonicalize_value v = v"
proof (cases "f = of_int \<lfloor>f\<rfloor> \<and> \<bar>f\<bar> < 2 ^ 53")
  case True
  let ?i = "\<lfloor>f\<rfloor>"
  have f: "f = of_int ?i" using True by blast
  have "\<bar>of_int ?i :: real\<bar> < of_int (2 ^ 53)" using True f by simp
  then have bound: "\<bar>?i\<bar> < 2 ^ 53" by (simp only: of_int_abs [symmetric] of_int_less_iff)
  show ?thesis
  proof (cases "?i < 0")
    case neg: True
    then have "round53 (nat (- ?i)) = nat (- ?i)"
      using bound by (intro round53_small) simp
    then have "as_f64 (JNeg ?i) = Some f"
      using neg f by (simp add: as_f64_def)
    moreover have "v = JNeg ?i"
      using assms True neg by (simp add: canonical_number_def)
    ultimately show ?thesis
      using True neg by (simp add: canonical_number_def)
  next
    case False
    then have nat: "unat (word_of_int ?i :: u64) = nat ?i"
      using bound by (simp add: unat_eq_nat_uint uint_word_of_int_eq take_bit_int_eq_self)
    have "round53 (nat ?i) = nat ?i"
      using bound False by (intro round53_small) (simp only: nat_less_iff not_less abs_of_nonneg of_nat_power of_nat_numeral)
    then have "as_f64 (JPos (word_of_int ?i)) = Some f"
      using nat False f by (simp add: as_f64_def)
    moreover have "v = JPos (word_of_int ?i)"
      using assms True False by (simp add: canonical_number_def)
    ultimately show ?thesis
      using True False by (simp add: canonical_number_def)
  qed
next
  case False
  then have v: "canonical_number (Some f) m = JFloat f" for m
    by (simp only: canonical_number_def option.case if_False)
  then show ?thesis by (simp add: assms as_f64_def)
qed

lemma canonical_number_stable [simp]:
  "canonicalize_value (canonical_number (Some f) n) = canonical_number (Some f) n"
  by (rule canonical_number_fixed) simp

lemma canonicalize_idempotent_aux: "json_ok v \<Longrightarrow> canonicalize_value (canonicalize_value v) = canonicalize_value v"
proof (induction v rule: json_ok.induct)
  case (8 m)
  let ?b = "btree_of (canonical_entries m)"
  have keys: "distinct (map fst (canonical_entries m))"
    using "8.hyps"(1) by (rule distinct_canonical_entries)
  have sorted: "sorted_wrt (<) (map fst ?b)"
    by (rule sorted_btree_of [OF keys])
  have fixed: "snd e \<noteq> JNull \<and> canonicalize_value (snd e) = snd e" if "e \<in> set ?b" for e
  proof -
    have "map_of ?b (fst e) = Some (snd e)"
      using that sorted by (simp add: strict_sorted_iff)
    then have "(fst e, snd e) \<in> set (canonical_entries m)"
      using map_of_btree_of [OF keys] by (metis map_of_SomeD)
    then show ?thesis
      using "8.IH" by (auto simp: canonical_entries_def)
  qed
  have "filter (\<lambda>e. snd e \<noteq> JNull) ?b = ?b"
    by (rule filter_True) (use fixed in blast)
  moreover have "map (\<lambda>e. (fst e, canonicalize_value (snd e))) ?b = ?b"
    by (rule map_idI) (use fixed in \<open>metis prod.collapse\<close>)
  ultimately have "canonical_entries ?b = ?b"
    unfolding canonical_entries_def by (simp only:)
  then show ?case
    using btree_of_sorted [OF sorted] by (simp only: canonicalize_object)
next
  case (7 xs)
  then show ?case by simp
next
  case (3 n)
  obtain f where "as_f64 (JPos n) = Some f" by (simp add: as_f64_def)
  then show ?case by (simp only: canonicalize_value.simps canonical_number_stable)
next
  case (4 i)
  obtain f where "as_f64 (JNeg i) = Some f" by (simp add: as_f64_def)
  then show ?case by (simp only: canonicalize_value.simps canonical_number_stable)
next
  case (5 f)
  obtain f' where "as_f64 (JFloat f) = Some f'" by (simp add: as_f64_def)
  then show ?case by (simp only: canonicalize_value.simps canonical_number_stable)
qed simp_all

text \<open>The canonical form of a JSON value is stable: canonicalising it again changes nothing.\<close>

theorem canonicalize_idempotent:
  assumes "json_ok v"
  shows "canonicalize_value (canonicalize_value v) = canonicalize_value v"
  using assms by (rule canonicalize_idempotent_aux)

theorem canonicalize_idempotent_witness:
  "canonicalize_value (canonicalize_value (JObj [(''b'', JNull), (''a'', JFloat 2)])) =
   canonicalize_value (JObj [(''b'', JNull), (''a'', JFloat 2)])"
  by (rule canonicalize_idempotent) (auto intro!: json_ok.intros)



lemma round53_ge: "2 ^ 53 \<le> n \<Longrightarrow> 2 ^ 53 \<le> round53 n"
proof -
  assume n: "2 ^ 53 \<le> n"
  let ?s = "bit_len n - 53"
  have "53 < bit_len n"
  proof (rule ccontr)
    assume "\<not> 53 < bit_len n"
    then have "(2::nat) ^ bit_len n \<le> 2 ^ 53" by (intro power_increasing) simp_all
    with n bit_len_bound [of n] show False by linarith
  qed
  have "2 ^ (bit_len n - 1) \<le> n"
  proof (rule ccontr)
    assume "\<not> 2 ^ (bit_len n - 1) \<le> n"
    then have "bit_len n \<le> bit_len n - 1" by (intro bit_len_le) simp
    with \<open>53 < bit_len n\<close> show False by simp
  qed
  then have "2 ^ (52 + ?s) \<le> n"
    using \<open>53 < bit_len n\<close> by (simp add: algebra_simps)
  then have "2 ^ 52 \<le> n div 2 ^ ?s"
    by (simp add: less_eq_div_iff_mult_less_eq power_add)
  then have "2 ^ 52 * 2 ^ ?s \<le> n div 2 ^ ?s * 2 ^ ?s"
    by simp
  moreover have "(2::nat) ^ (52 + 1) \<le> 2 ^ (52 + ?s)"
    using \<open>53 < bit_len n\<close> by (intro power_increasing) simp_all
  then have "(2::nat) ^ 53 \<le> 2 ^ 52 * 2 ^ ?s"
    unfolding power_add by simp
  ultimately have "2 ^ 53 \<le> n div 2 ^ ?s * 2 ^ ?s" by (rule order_trans [rotated])
  then show ?thesis
    using n by (auto simp: round53_def Let_def intro: order_trans)
qed

lemma canonical_number_nat: "k < 2 ^ 53 \<Longrightarrow> canonical_number (Some (real k)) v = JPos (of_nat k)"
  by (simp add: canonical_number_def)

text \<open>From \<open>2 ^ 53\<close> on the canonical form of an integer is the floating point number it rounds to, so
  integers that round to the same number can not be told apart by their canonical hash; below, it is the
  integer itself.\<close>

theorem canonical_integers_collide:
  "canonicalize_value (JPos n) = (if unat n < 2 ^ 53 then JPos n else JFloat (real (round53 (unat n))))"
proof (cases "unat n < 2 ^ 53")
  case True
  then have "as_f64 (JPos n) = Some (real (unat n))"
    by (simp add: as_f64_def round53_small del: of_nat_unat)
  with True show ?thesis
    using canonical_number_nat [OF True] by (simp del: of_nat_unat) simp
next
  case False
  then have "2 ^ 53 \<le> real (round53 (unat n))"
    using round53_ge [of "unat n"] by (metis not_le of_nat_le_iff of_nat_numeral of_nat_power)
  with False show ?thesis
    by (simp add: as_f64_def canonical_number_def)
qed

end
