(* ===== verification/Param_Store.thy ===== *)
theory Param_Store
  imports Json Economics_Types
begin

text \<open>
  The live parameters: \<open>ParameterStore\<close> (\<open>crates/adic-app-common/src/parameter_store.rs\<close>), which governance
  updates and the other components read, and \<open>ParameterRegistry\<close>
  (\<open>crates/adic-governance/src/parameters.rs\<close>), the registry of the same parameters in the governance crate.
  The file of \<open>save_to_file\<close> and \<open>load_from_file\<close> is the list of its entries; reading, writing, parsing and
  printing it are the operating system's and \<open>serde_json\<close>'s. Descriptions for human readers and the texts in
  errors are left out; the receivers of the change channel see the list \<open>ps_changes\<close>.
\<close>

section \<open>State\<close>

datatype validation_rule =
    InSet "json list"
  | Range json json
  | GreaterThanOrEqual json
  | Custom string
  | NoRule

datatype param_error = ParameterNotFound string | ParameterValidationFailed string | InvalidConfiguration

record parameter_change =
  pg_key :: string
  pg_old :: json
  pg_new :: json
  pg_epoch :: u64
  pg_proposal :: "bytes option"

record parameter_metadata =
  pm_key :: string
  pm_type :: string
  pm_class :: string
  pm_default :: json
  pm_validation :: validation_rule

record parameter_store =
  ps_values :: "string \<rightharpoonup> json"
  ps_metadata :: "string \<rightharpoonup> parameter_metadata"
  ps_changes :: "parameter_change list"
  ps_epoch :: u64

type_synonym 'a param_op = "(param_error, parameter_store, 'a) rop"

definition register_param :: "string \<Rightarrow> string \<Rightarrow> string \<Rightarrow> json \<Rightarrow> validation_rule \<Rightarrow>
    (string \<rightharpoonup> json) \<times> (string \<rightharpoonup> parameter_metadata) \<Rightarrow> (string \<rightharpoonup> json) \<times> (string \<rightharpoonup> parameter_metadata)" where
  "register_param key param_type governance_class default_value validation = (\<lambda>(vals, metadata).
     (vals(key \<mapsto> default_value),
      metadata(key \<mapsto> \<lparr>pm_key = key, pm_type = param_type, pm_class = governance_class,
        pm_default = default_value, pm_validation = validation\<rparr>)))"

text \<open>The calls of \<open>register_param\<close>, in order.\<close>

definition default_parameters :: "(string \<times> string \<times> string \<times> json \<times> validation_rule) list" where
  "default_parameters =
    [(''p'', ''U8'', ''Constitutional'', JPos 3, InSet [JPos 3, JPos 5, JPos 7]),
     (''d'', ''U8'', ''Constitutional'', JPos 3, InSet [JPos 3, JPos 4]),
     (''rho'', ''VecU8'', ''Constitutional'', JArr [JPos 2, JPos 2, JPos 1], Custom ''validate_rho''),
     (''q'', ''U8'', ''Constitutional'', JPos 3, Range (JPos 2) (JPos 5)),
     (''k'', ''U32'', ''Operational'', JPos 20, GreaterThanOrEqual (JPos 1)),
     (''D'', ''U32'', ''Operational'', JPos 12, GreaterThanOrEqual (JPos 1)),
     (''Delta'', ''U32'', ''Operational'', JPos 5, GreaterThanOrEqual (JPos 1)),
     (''lambda'', ''F64'', ''Operational'', JFloat 1, GreaterThanOrEqual (JFloat 0)),
     (''mu'', ''F64'', ''Operational'', JFloat 1, GreaterThanOrEqual (JFloat 0)),
     (''alpha'', ''F64'', ''Operational'', JFloat 1, GreaterThanOrEqual (JFloat 0)),
     (''beta'', ''F64'', ''Operational'', JFloat 1, GreaterThanOrEqual (JFloat 0)),
     (''Rmin'', ''F64'', ''Operational'', JFloat 50, GreaterThanOrEqual (JFloat 0)),
     (''rmin'', ''F64'', ''Operational'', JFloat 10, GreaterThanOrEqual (JFloat 0)),
     (''m'', ''U32'', ''Operational'', JPos 64, GreaterThanOrEqual (JPos 1)),
     (''t_bls'', ''U32'', ''Operational'', JPos 43, Custom ''validate_t_bls''),
     (''replication_r'', ''U32'', ''Operational'', JPos 5, GreaterThanOrEqual (JPos 1)),
     (''replication_t'', ''U32'', ''Operational'', JPos 4, Custom ''validate_replication_t''),
     (''challenge_depth'', ''U32'', ''Operational'', JPos 5, GreaterThanOrEqual (JPos 1)),
     (''T_enact'', ''F64'', ''Operational'', JFloat 1000, GreaterThanOrEqual (JFloat 0)),
     (''Rmax'', ''F64'', ''Operational'', JFloat 100000, GreaterThanOrEqual (JFloat 1))]"

definition register_default_parameters ::
    "(string \<rightharpoonup> json) \<times> (string \<rightharpoonup> parameter_metadata) \<Rightarrow> (string \<rightharpoonup> json) \<times> (string \<rightharpoonup> parameter_metadata)" where
  "register_default_parameters s =
     foldl (\<lambda>s (key, ty, cls, v, rule). register_param key ty cls v rule s) s default_parameters"

definition parameter_store_new :: parameter_store where
  "parameter_store_new =
     (case register_default_parameters (Map.empty, Map.empty) of (vals, metadata) \<Rightarrow>
        \<lparr>ps_values = vals, ps_metadata = metadata, ps_changes = [], ps_epoch = 0\<rparr>)"

section \<open>Reading\<close>

definition set_epoch :: "u64 \<Rightarrow> parameter_store \<Rightarrow> parameter_store" where
  "set_epoch epoch s = s\<lparr>ps_epoch := epoch\<rparr>"

definition param_get :: "parameter_store \<Rightarrow> string \<Rightarrow> json option" where
  "param_get s key = ps_values s key"

text \<open>The typed getters: \<open>as u8\<close> and \<open>as u32\<close> truncate.\<close>

definition get_as :: "(json \<Rightarrow> 'a option) \<Rightarrow> parameter_store \<Rightarrow> string \<Rightarrow> param_error + 'a" where
  "get_as f s key = (case Option.bind (param_get s key) f of None \<Rightarrow> Inl (ParameterNotFound key) | Some v \<Rightarrow> Inr v)"

definition get_u8 :: "parameter_store \<Rightarrow> string \<Rightarrow> param_error + byte" where
  "get_u8 = get_as (\<lambda>v. map_option ucast (as_u64 v))"

definition get_u32 :: "parameter_store \<Rightarrow> string \<Rightarrow> param_error + u32" where
  "get_u32 = get_as (\<lambda>v. map_option ucast (as_u64 v))"

definition get_u64 :: "parameter_store \<Rightarrow> string \<Rightarrow> param_error + u64" where
  "get_u64 = get_as as_u64"

definition get_f64 :: "parameter_store \<Rightarrow> string \<Rightarrow> param_error + f64" where
  "get_f64 = get_as as_f64"

definition get_vec_u8 :: "parameter_store \<Rightarrow> string \<Rightarrow> param_error + byte list" where
  "get_vec_u8 = get_as (\<lambda>v. map_option (List.map_filter (\<lambda>x. map_option ucast (as_u64 x))) (as_array v))"

definition get_vec_u32 :: "parameter_store \<Rightarrow> string \<Rightarrow> param_error + u32 list" where
  "get_vec_u32 = get_as (\<lambda>v. map_option (List.map_filter (\<lambda>x. map_option ucast (as_u64 x))) (as_array v))"

definition get_metadata :: "parameter_store \<Rightarrow> string \<Rightarrow> parameter_metadata option" where
  "get_metadata s key = ps_metadata s key"

text \<open>\<open>get_by_class\<close> lists metadata in the order \<open>ord\<close> of the keys of the \<open>HashMap\<close>.\<close>

definition get_by_class :: "string list \<Rightarrow> parameter_store \<Rightarrow> string \<Rightarrow> parameter_metadata list" where
  "get_by_class ord s cls = filter (\<lambda>meta. pm_class meta = cls) (List.map_filter (ps_metadata s) ord)"

section \<open>Validation\<close>

definition value_in_range :: "json \<Rightarrow> json \<Rightarrow> json \<Rightarrow> bool" where
  "value_in_range v lo hi =
     (case (as_f64 v, as_f64 lo, as_f64 hi) of
        (Some x, Some l, Some h) \<Rightarrow> l \<le> x \<and> x \<le> h
      | _ \<Rightarrow>
          (case (as_u64 v, as_u64 lo, as_u64 hi) of
             (Some x, Some l, Some h) \<Rightarrow> l \<le> x \<and> x \<le> h
           | _ \<Rightarrow> False))"

definition value_gte :: "json \<Rightarrow> json \<Rightarrow> bool" where
  "value_gte v lo =
     (case (as_f64 v, as_f64 lo) of
        (Some x, Some l) \<Rightarrow> l \<le> x
      | _ \<Rightarrow> (case (as_u64 v, as_u64 lo) of (Some x, Some l) \<Rightarrow> l \<le> x | _ \<Rightarrow> False))"

definition u64_or :: "u64 \<Rightarrow> param_error + u64 \<Rightarrow> u64" where
  "u64_or d r = (case r of Inl _ \<Rightarrow> d | Inr v \<Rightarrow> v)"

definition validate_custom :: "parameter_store \<Rightarrow> string \<Rightarrow> json \<Rightarrow> string \<Rightarrow> param_error + unit" where
  "validate_custom s key v func =
     (let bad = Inl (ParameterValidationFailed key) in
      if func = ''validate_rho'' then
        (case as_array v of
           None \<Rightarrow> bad
         | Some arr \<Rightarrow>
             (let d = u64_or 3 (get_u64 s ''d'') in
              if length arr \<noteq> unat d then bad
              else if list_ex (\<lambda>r. case as_u64 r of None \<Rightarrow> True | Some x \<Rightarrow> x < 1) arr then bad
              else Inr ()))
      else if func = ''validate_t_bls'' then
        (case as_u64 v of
           None \<Rightarrow> bad
         | Some t \<Rightarrow>
             (let m = u64_or 64 (get_u64 s ''m''); min_threshold = (m + 1) div 2 in
              if t < min_threshold \<or> m < t then bad else Inr ()))
      else if func = ''validate_replication_t'' then
        (case as_u64 v of
           None \<Rightarrow> bad
         | Some t \<Rightarrow> (let r = u64_or 5 (get_u64 s ''replication_r'') in if r < t then bad else Inr ()))
      else Inr ())"

definition validate_value :: "parameter_store \<Rightarrow> string \<Rightarrow> json \<Rightarrow> validation_rule \<Rightarrow> param_error + unit" where
  "validate_value s key v rule =
     (case rule of
        InSet allowed \<Rightarrow> if v \<notin> set allowed then Inl (ParameterValidationFailed key) else Inr ()
      | Range lo hi \<Rightarrow> if \<not> value_in_range v lo hi then Inl (ParameterValidationFailed key) else Inr ()
      | GreaterThanOrEqual lo \<Rightarrow> if \<not> value_gte v lo then Inl (ParameterValidationFailed key) else Inr ()
      | Custom func \<Rightarrow> validate_custom s key v func
      | NoRule \<Rightarrow> Inr ())"

section \<open>Updating\<close>

definition apply_governance_change :: "string \<Rightarrow> json \<Rightarrow> bytes option \<Rightarrow> unit param_op" where
  "apply_governance_change key new_value proposal_id s =
     (case get_metadata s key of
        None \<Rightarrow> errR (ParameterNotFound key) s
      | Some meta \<Rightarrow>
          (case validate_value s key new_value (pm_validation meta) of
             Inl e \<Rightarrow> errR e s
           | Inr _ \<Rightarrow>
               (case param_get s key of
                  None \<Rightarrow> errR (ParameterNotFound key) s
                | Some old_value \<Rightarrow>
                    okR () (s\<lparr>ps_values := (ps_values s)(key \<mapsto> new_value),
                      ps_changes := ps_changes s @ [\<lparr>pg_key = key, pg_old = old_value, pg_new = new_value,
                        pg_epoch = ps_epoch s, pg_proposal = proposal_id\<rparr>]\<rparr>))))"

definition reset_to_default :: "string \<Rightarrow> unit param_op" where
  "reset_to_default key s =
     (case get_metadata s key of
        None \<Rightarrow> errR (ParameterNotFound key) s
      | Some meta \<Rightarrow> apply_governance_change key (pm_default meta) None s)"

text \<open>What is written to the file, in the order \<open>ord\<close> of the keys; \<open>written\<close> says whether the file system
  took it.\<close>

definition save_to_file :: "string list \<Rightarrow> bool \<Rightarrow> parameter_store \<Rightarrow> param_error + (string \<times> json) list" where
  "save_to_file ord written s =
     (if written then Inr (List.map_filter (\<lambda>k. map_option (Pair k) (ps_values s k)) ord) else Inl InvalidConfiguration)"

fun validate_loaded :: "parameter_store \<Rightarrow> (string \<times> json) list \<Rightarrow> param_error + unit" where
  "validate_loaded s [] = Inr ()"
| "validate_loaded s ((key, v) # rest) =
     (case ps_metadata s key of
        Some meta \<Rightarrow> bindE (validate_value s key v (pm_validation meta)) (\<lambda>_. validate_loaded s rest)
      | None \<Rightarrow> validate_loaded s rest)"

definition apply_loaded :: "parameter_store \<Rightarrow> (string \<times> json) list \<Rightarrow> parameter_store" where
  "apply_loaded s entries =
     foldl (\<lambda>s (key, v). if ps_values s key \<noteq> None then s\<lparr>ps_values := (ps_values s)(key \<mapsto> v)\<rparr> else s) s entries"

text \<open>\<open>None\<close> stands for a file that can not be read or parsed.\<close>

definition load_from_file :: "(string \<times> json) list option \<Rightarrow> unit param_op" where
  "load_from_file file s =
     (case file of
        None \<Rightarrow> errR InvalidConfiguration s
      | Some entries \<Rightarrow>
          (case validate_loaded s entries of
             Inl e \<Rightarrow> errR e s
           | Inr _ \<Rightarrow> okR () (apply_loaded s entries)))"

definition apply_with_persistence :: "string \<Rightarrow> json \<Rightarrow> bytes option \<Rightarrow> (string list \<times> bool) option \<Rightarrow>
    ((string \<times> json) list option) param_op" where
  "apply_with_persistence key new_value proposal_id persist =
     tryR (apply_governance_change key new_value proposal_id) (\<lambda>_ s.
       case persist of
         None \<Rightarrow> okR None s
       | Some (ord, written) \<Rightarrow> (map_sum id Some (save_to_file ord written s), s))"

definition build_adic_params :: "parameter_store \<Rightarrow> param_error + adic_params" where
  "build_adic_params s =
     bindE (get_u8 s ''p'') (\<lambda>p.
     bindE (get_u8 s ''d'') (\<lambda>d.
     bindE (get_vec_u8 s ''rho'') (\<lambda>rho.
     bindE (get_u8 s ''q'') (\<lambda>q.
     bindE (get_u32 s ''k'') (\<lambda>k.
     bindE (get_u32 s ''D'') (\<lambda>depth_star.
     bindE (get_u32 s ''Delta'') (\<lambda>delta.
     bindE (get_f64 s ''Rmin'') (\<lambda>deposit.
     bindE (get_f64 s ''Rmin'') (\<lambda>r_min.
     bindE (get_f64 s ''rmin'') (\<lambda>r_sum_min.
     bindE (get_f64 s ''lambda'') (\<lambda>lambda.
     bindE (get_f64 s ''alpha'') (\<lambda>alpha.
     bindE (get_f64 s ''beta'') (\<lambda>beta.
     bindE (get_f64 s ''mu'') (\<lambda>mu.
       Inr \<lparr>prm_p = ucast p, prm_d = ucast d, prm_rho = map ucast rho, prm_q = ucast q, prm_k = k,
         prm_depth_star = depth_star, prm_delta = delta, prm_deposit = deposit, prm_r_min = r_min,
         prm_r_sum_min = r_sum_min, prm_lambda = lambda, prm_alpha = alpha, prm_beta = beta, prm_mu = mu,
         prm_gamma = 9 / 10\<rparr>))))))))))))))"

section \<open>The registry of the governance crate\<close>

text \<open>\<open>ParameterRegistry\<close> holds the same parameters, two more, and its own copy of the checks. Its
  errors are \<open>GovernanceError\<close>s.\<close>

datatype registry_error = InvalidParameter string | ParameterOutOfRange string | RegistryValidationFailed string

datatype parameter_type = TU8 | TU32 | TU64 | TF64 | TVecU8 | TVecU32 | TVecF64 | TTupleF64F64

datatype governance_class = ConstitutionalClass | OperationalClass

record parameter =
  rp_key :: string
  rp_type :: parameter_type
  rp_class :: governance_class
  rp_default :: json
  rp_validation :: validation_rule

record parameter_registry =
  pr_parameters :: "string \<rightharpoonup> parameter"
  pr_values :: "string \<rightharpoonup> json"

definition registry_parameters :: "parameter list" where
  "registry_parameters =
    map (\<lambda>(key, ty, cls, v, rule). \<lparr>rp_key = key, rp_type = ty, rp_class = cls, rp_default = v, rp_validation = rule\<rparr>)
    [(''p'', TU8, ConstitutionalClass, JPos 3, InSet [JPos 3, JPos 5, JPos 7]),
     (''d'', TU8, ConstitutionalClass, JPos 3, InSet [JPos 3, JPos 4]),
     (''rho'', TVecU8, ConstitutionalClass, JArr [JPos 2, JPos 2, JPos 1], Custom ''validate_rho''),
     (''q'', TU8, ConstitutionalClass, JPos 3, Range (JPos 2) (JPos 5)),
     (''k'', TU32, OperationalClass, JPos 20, GreaterThanOrEqual (JPos 1)),
     (''D'', TU32, OperationalClass, JPos 12, GreaterThanOrEqual (JPos 1)),
     (''Delta'', TU32, OperationalClass, JPos 5, GreaterThanOrEqual (JPos 1)),
     (''lambda'', TF64, OperationalClass, JFloat 1, GreaterThanOrEqual (JFloat 0)),
     (''mu'', TF64, OperationalClass, JFloat 1, GreaterThanOrEqual (JFloat 0)),
     (''alpha'', TF64, OperationalClass, JFloat 1, GreaterThanOrEqual (JFloat 0)),
     (''beta'', TF64, OperationalClass, JFloat 1, GreaterThanOrEqual (JFloat 0)),
     (''Rmin'', TF64, OperationalClass, JFloat 50, GreaterThanOrEqual (JFloat 0)),
     (''rmin'', TF64, OperationalClass, JFloat 10, GreaterThanOrEqual (JFloat 0)),
     (''m'', TU32, OperationalClass, JPos 64, GreaterThanOrEqual (JPos 1)),
     (''t_bls'', TU32, OperationalClass, JPos 43, Custom ''validate_t_bls''),
     (''replication_r'', TU32, OperationalClass, JPos 5, GreaterThanOrEqual (JPos 1)),
     (''replication_t'', TU32, OperationalClass, JPos 4, Custom ''validate_replication_t''),
     (''challenge_depth'', TU32, OperationalClass, JPos 5, GreaterThanOrEqual (JPos 1)),
     (''T_enact'', TF64, OperationalClass, JFloat 1000, GreaterThanOrEqual (JFloat 0)),
     (''Rmax'', TF64, OperationalClass, JFloat 100000, GreaterThanOrEqual (JFloat 1)),
     (''f2_max_betti_d'', TU32, OperationalClass, JPos 2, Range (JPos 1) (JPos 10)),
     (''f2_min_persistence'', TF64, OperationalClass, JFloat (1 / 100), Range (JFloat (1 / 1000)) (JFloat 1))]"

definition registry_register :: "parameter \<Rightarrow> parameter_registry \<Rightarrow> parameter_registry" where
  "registry_register param r =
     r\<lparr>pr_parameters := (pr_parameters r)(rp_key param \<mapsto> param),
       pr_values := (pr_values r)(rp_key param \<mapsto> rp_default param)\<rparr>"

definition parameter_registry_new :: parameter_registry where
  "parameter_registry_new =
     foldl (\<lambda>r param. registry_register param r) \<lparr>pr_parameters = Map.empty, pr_values = Map.empty\<rparr> registry_parameters"

definition registry_get :: "parameter_registry \<Rightarrow> string \<Rightarrow> json option" where
  "registry_get r key = pr_values r key"

definition registry_u64_or :: "u64 \<Rightarrow> parameter_registry \<Rightarrow> string \<Rightarrow> u64" where
  "registry_u64_or d r key = (case Option.bind (registry_get r key) as_u64 of None \<Rightarrow> d | Some v \<Rightarrow> v)"

definition registry_f64_or :: "f64 \<Rightarrow> parameter_registry \<Rightarrow> string \<Rightarrow> f64" where
  "registry_f64_or d r key = (case Option.bind (registry_get r key) as_f64 of None \<Rightarrow> d | Some v \<Rightarrow> v)"

definition registry_validate_custom :: "parameter_registry \<Rightarrow> string \<Rightarrow> json \<Rightarrow> string \<Rightarrow> registry_error + unit" where
  "registry_validate_custom r key v func =
     (let bad = Inl (RegistryValidationFailed key) in
      if func = ''validate_rho'' then
        (case as_array v of
           None \<Rightarrow> bad
         | Some arr \<Rightarrow>
             (let d = registry_u64_or 3 r ''d'' in
              if length arr \<noteq> unat d then bad
              else if list_ex (\<lambda>x. case as_u64 x of None \<Rightarrow> True | Some n \<Rightarrow> n < 1) arr then bad
              else Inr ()))
      else if func = ''validate_t_bls'' then
        (case as_u64 v of
           None \<Rightarrow> bad
         | Some t \<Rightarrow>
             (let m = registry_u64_or 64 r ''m''; min_threshold = (m + 1) div 2 in
              if t < min_threshold \<or> m < t then bad else Inr ()))
      else if func = ''validate_replication_t'' then
        (case as_u64 v of
           None \<Rightarrow> bad
         | Some t \<Rightarrow> (let rr = registry_u64_or 5 r ''replication_r'' in if rr < t then bad else Inr ()))
      else Inr ())"

definition validate_change :: "parameter_registry \<Rightarrow> string \<Rightarrow> json \<Rightarrow> registry_error + unit" where
  "validate_change r key new_value =
     (case pr_parameters r key of
        None \<Rightarrow> Inl (InvalidParameter key)
      | Some param \<Rightarrow>
          (case rp_validation param of
             InSet allowed \<Rightarrow> if new_value \<notin> set allowed then Inl (ParameterOutOfRange key) else Inr ()
           | Range lo hi \<Rightarrow> if \<not> value_in_range new_value lo hi then Inl (ParameterOutOfRange key) else Inr ()
           | GreaterThanOrEqual lo \<Rightarrow> if \<not> value_gte new_value lo then Inl (ParameterOutOfRange key) else Inr ()
           | Custom func \<Rightarrow> registry_validate_custom r key new_value func
           | NoRule \<Rightarrow> Inr ()))"

definition apply_change :: "string \<Rightarrow> json \<Rightarrow> (registry_error, parameter_registry, unit) rop" where
  "apply_change key new_value r =
     (case validate_change r key new_value of
        Inl e \<Rightarrow> errR e r
      | Inr _ \<Rightarrow>
          (case pr_values r key of
             Some _ \<Rightarrow> okR () (r\<lparr>pr_values := (pr_values r)(key \<mapsto> new_value)\<rparr>)
           | None \<Rightarrow> errR (InvalidParameter key) r))"

text \<open>The loaded values replace all current ones.\<close>

definition registry_load :: "(string \<times> json) list option \<Rightarrow> (registry_error, parameter_registry, unit) rop" where
  "registry_load file r =
     (case file of
        None \<Rightarrow> errR (RegistryValidationFailed ''all'') r
      | Some entries \<Rightarrow>
          (case mapE (\<lambda>(key, v). validate_change r key v) entries of
             Inl e \<Rightarrow> errR e r
           | Inr _ \<Rightarrow> okR () (r\<lparr>pr_values := map_of entries\<rparr>)))"

definition export_app_params :: "parameter_registry \<Rightarrow> json" where
  "export_app_params r =
     JObj [(''vrf'', JObj
              [(''min_committer_reputation'', JFloat (registry_f64_or 10 r ''rmin'')),
               (''reveal_depth'', JPos (registry_u64_or 5 r ''challenge_depth'')),
               (''domain_prefix'', JStr ''ADIC-VRF-v1'')]),
           (''quorum'', JObj
              [(''min_arbitrator_reputation'', JFloat (registry_f64_or 10 r ''rmin'')),
               (''members_per_axis'', JPos (registry_u64_or 64 r ''m'' div 4)),
               (''quorum_size'', JPos (registry_u64_or 64 r ''m'')),
               (''max_per_asn'', JPos 2), (''max_per_region'', JPos 3), (''vote_threshold'', JFloat (66 / 100))]),
           (''challenge'', JObj
              [(''window_depth'', JPos (registry_u64_or 5 r ''challenge_depth'')),
               (''fraud_proof_deposit_factor'', JPos 10), (''dispute_deposit_factor'', JPos 5),
               (''arbitrator_minority_penalty'', JFloat (- 2))]),
           (''timelock'', JObj
              [(''f1_grace_period'', JPos 3), (''f2_grace_period'', JPos 12),
               (''min_timelock_epochs'', JPos (f64_as_u64 (registry_f64_or 1000 r ''T_enact'') div 100))])]"

section \<open>Every stored value satisfies its rule\<close>

datatype param_cmd =
    Change string json "bytes option"
  | ResetTo string
  | Load "(string \<times> json) list option"
  | Epoch u64

primrec param_exec :: "param_cmd \<Rightarrow> parameter_store \<Rightarrow> parameter_store" where
  "param_exec (Change key v p) s = snd (apply_governance_change key v p s)"
| "param_exec (ResetTo key) s = snd (reset_to_default key s)"
| "param_exec (Load file) s = snd (load_from_file file s)"
| "param_exec (Epoch e) s = set_epoch e s"

definition param_run :: "param_cmd list \<Rightarrow> parameter_store" where
  "param_run cmds = foldl (\<lambda>s cmd. param_exec cmd s) parameter_store_new cmds"

text \<open>The rules that look at one value only.\<close>

definition plain_rule :: "validation_rule \<Rightarrow> bool" where
  "plain_rule rule = (case rule of Custom _ \<Rightarrow> False | _ \<Rightarrow> True)"

lemma plain_rule_state: "plain_rule rule \<Longrightarrow> validate_value s key v rule = validate_value t key v rule"
  by (cases rule) (simp_all add: plain_rule_def validate_value_def)

definition params_ok :: "parameter_store \<Rightarrow> bool" where
  "params_ok s \<longleftrightarrow> dom (ps_values s) = dom (ps_metadata s) \<and>
     (\<forall>key meta v. ps_metadata s key = Some meta \<longrightarrow> ps_values s key = Some v \<longrightarrow>
        plain_rule (pm_validation meta) \<longrightarrow> validate_value s key v (pm_validation meta) = Inr ())"

lemma params_ok_put:
  assumes "params_ok s" and "ps_metadata s key = Some meta" and "validate_value t key v (pm_validation meta) = Inr ()"
  shows "params_ok (s\<lparr>ps_values := (ps_values s)(key \<mapsto> v)\<rparr>)"
  using assms plain_rule_state [of "pm_validation meta" t key v] plain_rule_state
  unfolding params_ok_def
  by (simp add: insert_absorb domIff) (metis plain_rule_state)

lemma param_simps:
  "ps_values (apply_loaded s []) = ps_values s"
  "apply_loaded s ((k, v) # es) =
     apply_loaded (if ps_values s k \<noteq> None then s\<lparr>ps_values := (ps_values s)(k \<mapsto> v)\<rparr> else s) es"
  by (simp_all add: apply_loaded_def)

lemma params_ok_cong:
  "params_ok s \<Longrightarrow> ps_values t = ps_values s \<Longrightarrow> ps_metadata t = ps_metadata s \<Longrightarrow> params_ok t"
  unfolding params_ok_def by (metis plain_rule_state)

lemma apply_change_ok:
  assumes "params_ok s"
  shows "params_ok (snd (apply_governance_change key v p s))"
proof (cases "snd (apply_governance_change key v p s) = s")
  case False
  then obtain meta where meta: "ps_metadata s key = Some meta" "validate_value s key v (pm_validation meta) = Inr ()"
    and t: "ps_values (snd (apply_governance_change key v p s)) = (ps_values s)(key \<mapsto> v)"
      "ps_metadata (snd (apply_governance_change key v p s)) = ps_metadata s"
    by (auto simp: apply_governance_change_def get_metadata_def split: option.splits sum.splits)
  show ?thesis
    by (rule params_ok_cong [OF params_ok_put [OF assms meta]]) (simp_all add: t)
qed (use assms in simp)

lemma validate_loaded_ok:
  "validate_loaded s es = Inr () \<Longrightarrow> (k, v) \<in> set es \<Longrightarrow> ps_metadata s k = Some meta \<Longrightarrow>
   validate_value s k v (pm_validation meta) = Inr ()"
  by (induction s es rule: validate_loaded.induct) (auto split: option.splits simp: bindE_Inr_iff)

lemma apply_loaded_ok:
  assumes "params_ok s" and "\<And>k v meta. (k, v) \<in> set es \<Longrightarrow> ps_metadata s k = Some meta \<Longrightarrow>
    validate_value t k v (pm_validation meta) = Inr ()"
  shows "params_ok (apply_loaded s es)"
  using assms
proof (induction es arbitrary: s)
  case Nil
  then show ?case by (simp add: apply_loaded_def)
next
  case (Cons e es)
  obtain k v where e: "e = (k, v)" by force
  show ?case
  proof (cases "ps_values s k")
    case None
    have "params_ok (apply_loaded s es)"
      by (rule Cons.IH) (use Cons.prems in auto)
    with None show ?thesis by (simp add: e param_simps)
  next
    case (Some old)
    then have "k \<in> dom (ps_metadata s)"
      using Cons.prems(1) by (auto simp: params_ok_def)
    then obtain meta where meta: "ps_metadata s k = Some meta" by blast
    let ?s = "s\<lparr>ps_values := (ps_values s)(k \<mapsto> v)\<rparr>"
    have "params_ok ?s"
      using params_ok_put [OF Cons.prems(1) meta] Cons.prems(2) [of k v meta] meta e by simp
    then have "params_ok (apply_loaded ?s es)"
      by (rule Cons.IH) (use Cons.prems(2) in auto)
    with Some show ?thesis by (simp add: e param_simps)
  qed
qed

lemma param_exec_ok: "params_ok s \<Longrightarrow> params_ok (param_exec cmd s)"
proof (cases cmd)
  case (Load f)
  assume s: "params_ok s"
  show ?thesis
  proof (cases f)
    case (Some es)
    then show ?thesis
      using s apply_loaded_ok [OF s, of es s] validate_loaded_ok [of s es]
      by (simp add: Load load_from_file_def split: sum.split)
  qed (use s in \<open>simp add: Load load_from_file_def\<close>)
next
  case (Epoch e)
  assume "params_ok s"
  then show ?thesis
    by (rule params_ok_cong) (simp_all add: Epoch set_epoch_def)
qed (auto simp: apply_change_ok reset_to_default_def get_metadata_def split: option.split)

lemma parameter_store_new_tables:
  "ps_values parameter_store_new = map_of (rev (map (\<lambda>(k, _, _, v, _). (k, v)) default_parameters))"
  "ps_metadata parameter_store_new = map_of (rev (map (\<lambda>(k, ty, cls, v, rule).
     (k, \<lparr>pm_key = k, pm_type = ty, pm_class = cls, pm_default = v, pm_validation = rule\<rparr>)) default_parameters))"
proof -
  have loop: "foldl (\<lambda>s (key, ty, cls, v, rule). register_param key ty cls v rule s) (vals, metadata) ps =
      (vals ++ map_of (rev (map (\<lambda>(k, _, _, v, _). (k, v)) ps)),
       metadata ++ map_of (rev (map (\<lambda>(k, ty, cls, v, rule).
         (k, \<lparr>pm_key = k, pm_type = ty, pm_class = cls, pm_default = v, pm_validation = rule\<rparr>)) ps)))"
    for ps vals metadata
    by (induction ps arbitrary: vals metadata) (auto simp: register_param_def map_add_def fun_eq_iff split: option.split)
  show "ps_values parameter_store_new = map_of (rev (map (\<lambda>(k, _, _, v, _). (k, v)) default_parameters))"
    "ps_metadata parameter_store_new = map_of (rev (map (\<lambda>(k, ty, cls, v, rule).
       (k, \<lparr>pm_key = k, pm_type = ty, pm_class = cls, pm_default = v, pm_validation = rule\<rparr>)) default_parameters))"
    by (simp_all add: parameter_store_new_def register_default_parameters_def loop)
qed

lemma default_value_ok:
  assumes "(key, ty, cls, v, rule) \<in> set default_parameters"
  shows "validate_value parameter_store_new key v rule = Inr ()"
  using assms
  by (simp add: default_parameters_def)
    (elim disjE; simp add: validate_value_def value_in_range_def value_gte_def json_views round53_small validate_custom_def
      u64_or_def get_u64_def get_as_def param_get_def parameter_store_new_tables default_parameters_def Let_def)

lemma params_ok_new: "params_ok parameter_store_new"
  unfolding params_ok_def
proof (intro conjI allI impI)
  show "dom (ps_values parameter_store_new) = dom (ps_metadata parameter_store_new)"
    by (simp add: parameter_store_new_tables dom_map_of_conv_image_fst image_image case_prod_unfold)
next
  fix key meta v
  assume "ps_metadata parameter_store_new key = Some meta" and "ps_values parameter_store_new key = Some v"
  then have "(key, pm_type meta, pm_class meta, v, pm_validation meta) \<in> set default_parameters"
    by (simp add: parameter_store_new_tables default_parameters_def split: if_splits) auto
  then show "validate_value parameter_store_new key v (pm_validation meta) = Inr ()"
    by (rule default_value_ok)
qed

lemma param_exec_metadata: "ps_metadata (param_exec cmd s) = ps_metadata s"
proof -
  have loaded: "ps_metadata (apply_loaded s es) = ps_metadata s" for es s
    by (induction es arbitrary: s) (auto simp: param_simps, simp add: apply_loaded_def)
  show ?thesis
    by (cases cmd) (auto simp: apply_governance_change_def reset_to_default_def load_from_file_def set_epoch_def
        loaded split: option.split sum.split)
qed

lemma param_run_ok: "params_ok (param_run cmds)"
  unfolding param_run_def by (rule foldl_invariant) (simp_all add: params_ok_new param_exec_ok)

lemma param_run_metadata: "ps_metadata (param_run cmds) = ps_metadata parameter_store_new"
  unfolding param_run_def
  by (rule foldl_invariant [where I = "\<lambda>s. ps_metadata s = ps_metadata parameter_store_new"])
    (simp_all add: param_exec_metadata)



text \<open>Parameters that depend on each other are checked only when the dependent one is set.\<close>

lemma param_new_lookup:
  "ps_values parameter_store_new ''m'' = Some (JPos 64)"
  "ps_values parameter_store_new ''k'' = Some (JPos 20)"
  "ps_values parameter_store_new ''t_bls'' = Some (JPos 43)"
  "ps_metadata parameter_store_new ''m'' = Some \<lparr>pm_key = ''m'', pm_type = ''U32'', pm_class = ''Operational'',
     pm_default = JPos 64, pm_validation = GreaterThanOrEqual (JPos 1)\<rparr>"
  "ps_metadata parameter_store_new ''k'' = Some \<lparr>pm_key = ''k'', pm_type = ''U32'', pm_class = ''Operational'',
     pm_default = JPos 20, pm_validation = GreaterThanOrEqual (JPos 1)\<rparr>"
  "ps_metadata parameter_store_new ''t_bls'' = Some \<lparr>pm_key = ''t_bls'', pm_type = ''U32'', pm_class = ''Operational'',
     pm_default = JPos 43, pm_validation = Custom ''validate_t_bls''\<rparr>"
  by (simp_all add: parameter_store_new_tables default_parameters_def)

definition resized_store :: parameter_store where
  "resized_store = param_run [Change ''m'' (JPos 100) None, Change ''t_bls'' (JPos 80) None]"

lemma resized_store_values:
  "ps_values resized_store ''t_bls'' = Some (JPos 80)" "ps_values resized_store ''m'' = Some (JPos 100)"
  by (simp_all add: resized_store_def param_run_def apply_governance_change_def get_metadata_def param_new_lookup
      validate_value_def value_gte_def json_views round53_small param_get_def validate_custom_def u64_or_def
      get_u64_def get_as_def Let_def)

text \<open>Parameters that governance set correctly can not be restored from the file they were saved to: with a
  committee of 100 and a BLS threshold of 80 the saved file is refused by a new store, whatever the order of its
  entries, because each entry is checked against the values of the store instead of those of the file; the store
  then keeps its defaults.\<close>

theorem saved_parameters_refused:
  assumes ord: "set ord = dom (ps_values resized_store)" and saved: "save_to_file ord True resized_store = Inr saved"
  shows "\<exists>e. load_from_file (Some saved) parameter_store_new = (Inl e, parameter_store_new)"
proof -
  have "''t_bls'' \<in> set ord"
    using ord resized_store_values(1) by blast
  then have "(''t_bls'', JPos 80) \<in> set saved"
    using saved resized_store_values(1)
    by (auto simp: save_to_file_def List.map_filter_def image_iff intro!: exI [of _ "''t_bls''"])
  moreover have "validate_value parameter_store_new ''t_bls'' (JPos 80) (Custom ''validate_t_bls'') \<noteq> Inr ()"
    by (simp add: validate_value_def validate_custom_def json_views u64_or_def get_u64_def get_as_def param_get_def
        param_new_lookup Let_def)
  ultimately obtain e where "validate_loaded parameter_store_new saved = Inl e"
    using validate_loaded_ok [of parameter_store_new saved "''t_bls''" "JPos 80"] param_new_lookup(6)
    by (cases "validate_loaded parameter_store_new saved") auto
  then show ?thesis
    by (simp add: load_from_file_def)
qed

theorem saved_parameters_refused_witness:
  "\<exists>e. load_from_file (Some (List.map_filter (\<lambda>k. map_option (Pair k) (ps_values resized_store k)) (map fst default_parameters)))
     parameter_store_new = (Inl e, parameter_store_new)"
proof (rule saved_parameters_refused)
  have "dom (ps_values resized_store) = dom (ps_metadata parameter_store_new)"
    using param_run_ok unfolding resized_store_def params_ok_def param_run_metadata by blast
  also have "\<dots> = set (map fst default_parameters)"
    by (simp add: parameter_store_new_tables dom_map_of_conv_image_fst image_image case_prod_unfold)
  finally show "set (map fst default_parameters) = dom (ps_values resized_store)" ..
qed (simp add: save_to_file_def)

text \<open>The checks do not look at the type of a parameter: a \<open>k\<close> of \<open>2 ^ 32\<close> passes, and is then read
  as 0, so that the k-core test of finality is switched off.\<close>

theorem accepted_k_reads_as_zero:
  "fst (apply_governance_change ''k'' (JPos (2 ^ 32)) p parameter_store_new) = Inr () \<and>
   get_u32 (snd (apply_governance_change ''k'' (JPos (2 ^ 32)) p parameter_store_new)) ''k'' = Inr 0"
  by (simp add: apply_governance_change_def get_metadata_def param_new_lookup validate_value_def value_gte_def json_views
      round53_small param_get_def get_u32_def get_as_def)

text \<open>The registry of the governance crate and the live store judge a change alike: on the parameters the
  store has, with the same current values, the one accepts a new value exactly when the other does.\<close>

theorem registry_and_store_agree:
  assumes "pr_parameters r key = pr_parameters parameter_registry_new key"
    and "ps_metadata parameter_store_new key = Some meta"
    and "pr_values r ''d'' = ps_values s ''d''" and "pr_values r ''m'' = ps_values s ''m''"
    and "pr_values r ''replication_r'' = ps_values s ''replication_r''"
  shows "is_ok (validate_change r key v) \<longleftrightarrow> is_ok (validate_value s key v (pm_validation meta))"
proof -
  have u64: "registry_u64_or d r k = u64_or d (get_u64 s k)" if "pr_values r k = ps_values s k" for k d
    using that by (simp add: registry_u64_or_def u64_or_def get_u64_def get_as_def registry_get_def param_get_def
        split: option.split)
  have custom: "is_ok (registry_validate_custom r key v func) \<longleftrightarrow> is_ok (validate_custom s key v func)" for func
    unfolding registry_validate_custom_def validate_custom_def Let_def
    by (simp add: u64 assms(3-5) split: option.split)
  have "\<exists>param. pr_parameters parameter_registry_new key = Some param \<and> rp_validation param = pm_validation meta"
    using assms(2)
    by (simp add: parameter_store_new_tables default_parameters_def parameter_registry_new_def registry_parameters_def
        registry_register_def split: if_splits) auto
  then obtain param where "pr_parameters r key = Some param" "rp_validation param = pm_validation meta"
    using assms(1) by auto
  then show ?thesis
    using custom by (simp add: validate_change_def validate_value_def split: validation_rule.split)
qed

theorem registry_and_store_agree_witness:
  "is_ok (validate_change parameter_registry_new ''t_bls'' (JPos 50)) \<longleftrightarrow>
   is_ok (validate_value parameter_store_new ''t_bls'' (JPos 50) (Custom ''validate_t_bls''))"
  using registry_and_store_agree [of parameter_registry_new "''t_bls''" _ parameter_store_new "JPos 50", OF refl param_new_lookup(6)]
  by (simp add: parameter_store_new_tables default_parameters_def parameter_registry_new_def registry_parameters_def
        registry_register_def)

end
