(* ===== verification/Voting.thy ===== *)
theory Voting
  imports Param_Store Reputation
begin

text \<open>
  The data of governance (\<open>crates/adic-governance/src/types.rs\<close>), the penalty on voters that vote together
  (\<open>overlap_penalties.rs\<close>) and the tally (\<open>voting.rs\<close>). Credits are exact reals; times are milliseconds.
  A \<open>HashSet\<close> of voters is the list of its elements. The texts inside errors, the metrics and the
  logging are left out. The signatures inside attestations are parameters of the types that carry them.
\<close>

section \<open>Types\<close>

datatype proposal_class = Constitutional | Operational

datatype proposal_status = Voting | Tallying | Succeeded | Enacting | Rejected | Enacted | EnactFailed

definition proposal_is_terminal :: "proposal_status \<Rightarrow> bool" where
  "proposal_is_terminal s \<longleftrightarrow> s = Enacted \<or> s = EnactFailed \<or> s = Rejected"

fun can_transition_to :: "proposal_status \<Rightarrow> proposal_status \<Rightarrow> bool" where
  "can_transition_to Voting Tallying = True"
| "can_transition_to Tallying Succeeded = True"
| "can_transition_to Tallying Rejected = True"
| "can_transition_to Succeeded Enacting = True"
| "can_transition_to Succeeded Rejected = True"
| "can_transition_to Enacting Enacted = True"
| "can_transition_to Enacting EnactFailed = True"
| "can_transition_to _ _ = False"

datatype axis_action = AddAxis | DeprecateAxis | ModifyAxis

record migration_plan =
  mp_ramp_epochs :: u64
  mp_weight_schedule :: "(u64 \<times> f64) list"

record axis_catalog_change =
  ac_action :: axis_action
  ac_axis_id :: byte
  ac_encoder_spec_cid :: string
  ac_ultrametric_proof_cid :: string
  ac_security_analysis_cid :: string
  ac_migration_plan :: migration_plan

datatype verification_scheme =
    QuorumAttestation f64
  | AutomatedCheck string
  | OracleVerification string
  | PoUWTaskVerification bytes f64

record milestone =
  ms_id :: u32
  ms_amount :: adic_amount
  ms_deliverable_cid :: string
  ms_deadline_epoch :: u64
  ms_verification_scheme :: verification_scheme

datatype grant_schedule =
    Atomic
  | Streamed adic_amount u64
  | Milestone "milestone list"

record treasury_grant =
  tg_recipient :: public_key
  tg_total_amount :: adic_amount
  tg_schedule :: grant_schedule
  tg_proposal_id :: bytes

datatype 'g attestation_proof =
    QuorumSignature 'g "public_key list" nat bytes
  | AutomatedCheckProof bool string "bytes option"
  | OracleAttestation string bool bytes "string option"
  | PoUWTaskCompletion bytes bool f64 bytes "'g option"

record 'g milestone_attestation =
  ma_milestone_id :: u32
  ma_grant_id :: bytes
  ma_deliverable_cid :: string
  ma_proof :: "'g attestation_proof"
  ma_timestamp :: i64

record governance_proposal =
  gp_proposal_id :: bytes
  gp_class :: proposal_class
  gp_proposer :: public_key
  gp_param_keys :: "string list"
  gp_new_values :: json
  gp_axis_changes :: "axis_catalog_change option"
  gp_treasury_grant :: "treasury_grant option"
  gp_enact_epoch :: u64
  gp_rationale_cid :: string
  gp_creation :: i64
  gp_voting_end :: i64
  gp_status :: proposal_status
  gp_tally_yes :: f64
  gp_tally_no :: f64
  gp_tally_abstain :: f64

datatype ballot = BallotYes | BallotNo | BallotAbstain

record governance_vote =
  gv_proposal_id :: bytes
  gv_voter :: public_key
  gv_credits :: f64
  gv_ballot :: ballot
  gv_timestamp :: i64

record quorum_stats =
  qs_yes :: f64
  qs_no :: f64
  qs_abstain :: f64
  qs_total_participation :: f64

datatype vote_result = Pass | Fail

record governance_receipt =
  gr_proposal_id :: bytes
  gr_quorum_stats :: quorum_stats
  gr_result :: vote_result
  gr_receipt_seq :: u32
  gr_prev_receipt_hash :: bytes
  gr_timestamp :: i64
  gr_quorum_signature :: "string option"
  gr_committee :: "public_key list"

datatype governance_error =
    GovInsufficientReputation | GovProposalNotFound | VoteNotFound | GovDuplicateVote public_key
  | VotingNotEnded | VotingEnded | InvalidStatus proposal_status | QuorumNotMet f64 | GovThresholdNotMet
  | GovInvalidParameter | GovParameterOutOfRange | GovParameterValidationFailed | ConflictingProposal
  | TimelockNotExpired u64 | FinalityNotMet | TreasuryError | MilestoneVerificationFailed u32
  | AxisCatalogError | GovSerializationError | GovAppCommonError | GovQuorumError | GovChallengeError
  | FinalityTimeout | InvalidOperation | ParameterUpdateFailed string | BLSCoordinatorRequired | GovOther

text \<open>\<open>serde_json::json!\<close> of the fields in their order; the serialisation of the key is a parameter.\<close>

definition compute_proposal_id :: "(bytes \<Rightarrow> bytes) \<Rightarrow> (json \<Rightarrow> string) \<Rightarrow> (public_key \<Rightarrow> json) \<Rightarrow> public_key \<Rightarrow>
    string list \<Rightarrow> json \<Rightarrow> i64 \<Rightarrow> bytes" where
  "compute_proposal_id blake3 print key_json proposer param_keys new_values creation =
     canonical_hash blake3 print
       (JObj [(''proposer'', key_json proposer), (''param_keys'', JArr (map JStr param_keys)),
              (''new_values'', new_values),
              (''creation_timestamp'', let secs = unix_secs creation in
                 if secs < 0 then JNeg secs else JPos (word_of_int secs))])"

definition requires_supermajority :: "governance_proposal \<Rightarrow> bool" where
  "requires_supermajority p \<longleftrightarrow> gp_class p = Constitutional"

definition required_threshold :: "governance_proposal \<Rightarrow> f64" where
  "required_threshold p = (case gp_class p of Constitutional \<Rightarrow> 667 / 1000 | Operational \<Rightarrow> 1 / 2)"

definition voting_ended :: "i64 \<Rightarrow> governance_proposal \<Rightarrow> bool" where
  "voting_ended now p \<longleftrightarrow> gp_voting_end p \<le> now"

definition vote_percentage :: "governance_proposal \<Rightarrow> f64 option" where
  "vote_percentage p =
     (let total_directional = gp_tally_yes p + gp_tally_no p in
      if 0 < total_directional then Some (gp_tally_yes p / total_directional) else None)"

definition passed_threshold :: "governance_proposal \<Rightarrow> bool" where
  "passed_threshold p =
     (case vote_percentage p of
        None \<Rightarrow> False
      | Some pct \<Rightarrow> (case gp_class p of Constitutional \<Rightarrow> 667 / 1000 \<le> pct | Operational \<Rightarrow> 1 / 2 < pct))"

definition governance_vote_new :: "i64 \<Rightarrow> bytes \<Rightarrow> public_key \<Rightarrow> f64 \<Rightarrow> ballot \<Rightarrow> governance_vote" where
  "governance_vote_new now proposal_id voter credits ballot =
     \<lparr>gv_proposal_id = proposal_id, gv_voter = voter, gv_credits = credits, gv_ballot = ballot, gv_timestamp = now\<rparr>"

definition stats_total :: "quorum_stats \<Rightarrow> f64" where
  "stats_total s = qs_yes s + qs_no s + qs_abstain s"

definition participation_rate :: "quorum_stats \<Rightarrow> f64 \<Rightarrow> f64" where
  "participation_rate s total_eligible = (if 0 < total_eligible then stats_total s / total_eligible else 0)"

section \<open>Overlap penalties\<close>

definition DEFAULT_LAMBDA :: f64 where
  "DEFAULT_LAMBDA = 2"

definition DEFAULT_DECAY :: f64 where
  "DEFAULT_DECAY = 4 / 5"

definition DEFAULT_WINDOW_SIZE :: nat where
  "DEFAULT_WINDOW_SIZE = 20"

definition MIN_PROPOSALS_FOR_PENALTY :: nat where
  "MIN_PROPOSALS_FOR_PENALTY = 5"

record voting_pattern =
  vp_proposal_id :: bytes
  vp_voters :: "public_key list"
  vp_timestamp :: u64

record overlap_stats =
  os_participation :: nat
  os_co_voting :: "(public_key \<times> f64) list"
  os_attenuation :: f64

record overlap_tracker =
  ot_lambda :: f64
  ot_decay :: f64
  ot_window :: nat
  ot_history :: "voting_pattern list"
  ot_stats :: "public_key \<rightharpoonup> overlap_stats"
  ot_epoch :: u64

definition overlap_tracker_new :: "f64 \<Rightarrow> f64 \<Rightarrow> nat \<Rightarrow> overlap_tracker" where
  "overlap_tracker_new lam decay window =
     \<lparr>ot_lambda = lam, ot_decay = decay, ot_window = window, ot_history = [], ot_stats = Map.empty, ot_epoch = 0\<rparr>"

definition overlap_tracker_default :: overlap_tracker where
  "overlap_tracker_default = overlap_tracker_new DEFAULT_LAMBDA DEFAULT_DECAY DEFAULT_WINDOW_SIZE"

text \<open>\<open>*overlap_freq.entry(k).or_insert(0.0) += weight\<close>\<close>

fun add_weight :: "public_key \<Rightarrow> f64 \<Rightarrow> (public_key \<times> f64) list \<Rightarrow> (public_key \<times> f64) list" where
  "add_weight k w [] = [(k, 0 + w)]"
| "add_weight k w ((k', x) # xs) = (if k' = k then (k', x + w) # xs else (k', x) # add_weight k w xs)"

text \<open>The scan of the history, most recent first, \<open>idx\<close> counting from it.\<close>

fun scan_history :: "f64 \<Rightarrow> public_key \<Rightarrow> nat \<Rightarrow> voting_pattern list \<Rightarrow> nat \<times> (public_key \<times> f64) list \<Rightarrow>
    nat \<times> (public_key \<times> f64) list" where
  "scan_history decay voter idx [] acc = acc"
| "scan_history decay voter idx (pattern # rest) (participation, freq) =
     scan_history decay voter (idx + 1) rest
       (if voter \<in> set (vp_voters pattern)
        then (participation + 1,
              foldl (\<lambda>freq co_voter. if co_voter \<noteq> voter then add_weight co_voter (decay ^ idx) freq else freq)
                freq (vp_voters pattern))
        else (participation, freq))"

definition overlap_score_of :: "f64 list \<Rightarrow> f64" where
  "overlap_score_of freqs =
     (if freqs = [] then 0
      else let top_k = take 5 (rev (sort freqs)) in sum_list top_k / real (length top_k))"

definition voter_overlap :: "overlap_tracker \<Rightarrow> public_key \<Rightarrow> overlap_stats" where
  "voter_overlap t voter =
     (case scan_history (ot_decay t) voter 0 (rev (ot_history t)) (0, []) of (participation, freq) \<Rightarrow>
        let freq' = (if 0 < participation then map (\<lambda>(k, x). (k, x / real participation)) freq else freq);
            overlap_score = overlap_score_of (map snd freq');
            attenuation = 1 / (1 + ot_lambda t * overlap_score)
        in \<lparr>os_participation = participation, os_co_voting = freq', os_attenuation = attenuation\<rparr>)"

definition update_voter_stats :: "public_key list \<Rightarrow> overlap_tracker \<Rightarrow> overlap_tracker" where
  "update_voter_stats current_voters t =
     (if length (ot_history t) < MIN_PROPOSALS_FOR_PENALTY then t
      else t\<lparr>ot_stats := foldl (\<lambda>stats voter. stats(voter \<mapsto> voter_overlap t voter)) (ot_stats t) current_voters\<rparr>)"

definition record_votes :: "bytes \<Rightarrow> public_key list \<Rightarrow> overlap_tracker \<Rightarrow> overlap_tracker" where
  "record_votes proposal_id voters t =
     (let voters_set = remdups voters;
          pattern = \<lparr>vp_proposal_id = proposal_id, vp_voters = voters_set, vp_timestamp = ot_epoch t\<rparr>;
          history = (if ot_window t \<le> length (ot_history t) then tl (ot_history t) else ot_history t)
      in update_voter_stats voters_set (t\<lparr>ot_history := history @ [pattern]\<rparr>))"

definition apply_penalty :: "overlap_tracker \<Rightarrow> public_key \<Rightarrow> f64 \<Rightarrow> f64" where
  "apply_penalty t voter original_credits =
     (case ot_stats t voter of
        Some stats \<Rightarrow> os_attenuation stats * original_credits
      | None \<Rightarrow> original_credits)"

definition get_attenuation_factor :: "overlap_tracker \<Rightarrow> public_key \<Rightarrow> f64" where
  "get_attenuation_factor t voter = (case ot_stats t voter of None \<Rightarrow> 1 | Some s \<Rightarrow> os_attenuation s)"

definition get_voter_stats :: "overlap_tracker \<Rightarrow> public_key \<Rightarrow> (nat \<times> f64) option" where
  "get_voter_stats t voter = map_option (\<lambda>s. (os_participation s, os_attenuation s)) (ot_stats t voter)"

definition overlap_advance_epoch :: "overlap_tracker \<Rightarrow> overlap_tracker" where
  "overlap_advance_epoch t = t\<lparr>ot_epoch := ot_epoch t + 1\<rparr>"

definition get_window_size :: "overlap_tracker \<Rightarrow> nat" where
  "get_window_size t = length (ot_history t)"

text \<open>\<open>voters\<close> is the list of the keys of the statistics.\<close>

definition mutual_overlap :: "overlap_tracker \<Rightarrow> f64 \<Rightarrow> public_key \<Rightarrow> public_key \<Rightarrow> bool" where
  "mutual_overlap t min_overlap a b =
     (case (ot_stats t a, ot_stats t b) of
        (Some sa, Some sb) \<Rightarrow>
          (case (map_of (os_co_voting sa) b, map_of (os_co_voting sb) a) of
             (Some ab, Some ba) \<Rightarrow> min_overlap \<le> ab \<and> min_overlap \<le> ba
           | _ \<Rightarrow> False)
      | _ \<Rightarrow> False)"

fun detect_rings :: "overlap_tracker \<Rightarrow> nat \<Rightarrow> f64 \<Rightarrow> public_key list \<Rightarrow> public_key list list" where
  "detect_rings t min_ring_size min_overlap [] = []"
| "detect_rings t min_ring_size min_overlap (a # voters) =
     (let ring = a # filter (mutual_overlap t min_overlap a) voters;
          rings = detect_rings t min_ring_size min_overlap voters
      in if ot_stats t a \<noteq> None \<and> min_ring_size \<le> length ring then ring # rings else rings)"

definition overlap_reset :: "overlap_tracker \<Rightarrow> overlap_tracker" where
  "overlap_reset t = t\<lparr>ot_history := [], ot_stats := Map.empty\<rparr>"

section \<open>The voting engine\<close>

record voting_engine =
  ve_rmax :: f64
  ve_min_quorum :: f64
  ve_overlap :: "overlap_tracker option"

definition voting_engine_new :: "f64 \<Rightarrow> f64 \<Rightarrow> voting_engine" where
  "voting_engine_new rmax min_quorum = \<lparr>ve_rmax = rmax, ve_min_quorum = min_quorum, ve_overlap = None\<rparr>"

definition with_overlap_tracker :: "overlap_tracker \<Rightarrow> voting_engine \<Rightarrow> voting_engine" where
  "with_overlap_tracker t e = e\<lparr>ve_overlap := Some t\<rparr>"

text \<open>\<open>None\<close> is NaN, the square root of a negative number.\<close>

definition compute_voting_credits :: "voting_engine \<Rightarrow> f64 \<Rightarrow> f64 option" where
  "compute_voting_credits e reputation =
     (let capped_rep = min reputation (ve_rmax e) in if capped_rep < 0 then None else Some (sqrt capped_rep))"

definition final_credits :: "voting_engine \<Rightarrow> governance_vote \<Rightarrow> f64" where
  "final_credits e vote =
     (case ve_overlap e of
        Some tracker \<Rightarrow> apply_penalty tracker (gv_voter vote) (gv_credits vote)
      | None \<Rightarrow> gv_credits vote)"

fun count_votes :: "voting_engine \<Rightarrow> bytes \<Rightarrow> public_key list \<Rightarrow> governance_vote list \<Rightarrow> f64 \<times> f64 \<times> f64 \<Rightarrow>
    governance_error + f64 \<times> f64 \<times> f64" where
  "count_votes e proposal_id voter_set [] totals = Inr totals"
| "count_votes e proposal_id voter_set (vote # votes) (y, n, a) =
     (if gv_proposal_id vote \<noteq> proposal_id then count_votes e proposal_id voter_set votes (y, n, a)
      else if gv_voter vote \<in> set voter_set then Inl (GovDuplicateVote (gv_voter vote))
      else count_votes e proposal_id (gv_voter vote # voter_set) votes
             (case gv_ballot vote of
                BallotYes \<Rightarrow> (y + final_credits e vote, n, a)
              | BallotNo \<Rightarrow> (y, n + final_credits e vote, a)
              | BallotAbstain \<Rightarrow> (y, n, a + final_credits e vote)))"

definition tally_votes :: "voting_engine \<Rightarrow> governance_vote list \<Rightarrow> bytes \<Rightarrow> governance_error + quorum_stats" where
  "tally_votes e votes proposal_id =
     bindE (count_votes e proposal_id [] votes (0, 0, 0)) (\<lambda>(y, n, a).
       Inr \<lparr>qs_yes = y, qs_no = n, qs_abstain = a, qs_total_participation = y + n + a\<rparr>)"

text \<open>Over no eligible credits the rate is infinite or NaN, and only minus infinity is below the minimum.\<close>

definition check_quorum :: "voting_engine \<Rightarrow> quorum_stats \<Rightarrow> f64 \<Rightarrow> governance_error + unit" where
  "check_quorum e stats total_eligible =
     (if (if total_eligible = 0 then qs_total_participation stats < 0
          else qs_total_participation stats / total_eligible < ve_min_quorum e)
      then Inl (QuorumNotMet (ve_min_quorum e)) else Inr ())"

definition determine_result :: "quorum_stats \<Rightarrow> f64 \<Rightarrow> vote_result" where
  "determine_result stats threshold =
     (let total_directional = qs_yes stats + qs_no stats in
      if total_directional = 0 then Fail
      else
        (let yes_percentage = qs_yes stats / total_directional;
             passed = (if 667 / 1000 \<le> threshold then threshold \<le> yes_percentage else threshold < yes_percentage)
         in if passed then Pass else Fail))"

definition validate_credits :: "voting_engine \<Rightarrow> f64 \<Rightarrow> f64 \<Rightarrow> governance_error + unit" where
  "validate_credits e credits reputation =
     (case compute_voting_credits e reputation of
        None \<Rightarrow> Inr ()
      | Some expected \<Rightarrow> if 1 / 10000 < \<bar>credits - expected\<bar> then Inl GovOther else Inr ())"

section \<open>The penalties are bounded\<close>

definition weight_at :: "(public_key \<times> f64) list \<Rightarrow> public_key \<Rightarrow> f64" where
  "weight_at freq k = (case map_of freq k of None \<Rightarrow> 0 | Some x \<Rightarrow> x)"

lemma keys_add_weight [simp]: "fst ` set (add_weight k w freq) = insert k (fst ` set freq)"
  by (induction k w freq rule: add_weight.induct) auto

lemma distinct_add_weight: "distinct (map fst freq) \<Longrightarrow> distinct (map fst (add_weight k w freq))"
proof (induction k w freq rule: add_weight.induct)
  case (2 k w k' x xs)
  then show ?case
    using keys_add_weight [of k w xs] by (auto simp del: keys_add_weight)
qed simp

lemma weight_at_add_weight [simp]: "weight_at (add_weight k w freq) j = weight_at freq j + (if j = k then w else 0)"
  by (induction k w freq rule: add_weight.induct) (auto simp: weight_at_def)

lemma weights_at: "distinct (map fst freq) \<Longrightarrow> x \<in> snd ` set freq \<Longrightarrow> \<exists>k. x = weight_at freq k"
proof -
  assume distinct: "distinct (map fst freq)" and "x \<in> snd ` set freq"
  then obtain a where "(a, x) \<in> set freq" by auto
  then have "x = weight_at freq a"
    using distinct by (simp add: weight_at_def)
  then show ?thesis ..
qed

lemma co_voter_loop:
  assumes "distinct vs" and "distinct (map fst freq)"
  shows "distinct (map fst (foldl (\<lambda>freq v. if v \<noteq> voter then add_weight v w freq else freq) freq vs)) \<and>
    (\<forall>k. weight_at (foldl (\<lambda>freq v. if v \<noteq> voter then add_weight v w freq else freq) freq vs) k =
       weight_at freq k + (if k \<in> set vs \<and> k \<noteq> voter then w else 0))"
  using assms by (induction vs arbitrary: freq) (auto simp: distinct_add_weight)

text \<open>A weight never exceeds the number of proposals counted.\<close>

definition scan_ok :: "nat \<times> (public_key \<times> f64) list \<Rightarrow> bool" where
  "scan_ok acc \<longleftrightarrow> distinct (map fst (snd acc)) \<and> (\<forall>k. 0 \<le> weight_at (snd acc) k \<and> weight_at (snd acc) k \<le> real (fst acc))"

lemma scan_history_ok:
  assumes "scan_ok acc" and "\<And>p. p \<in> set ps \<Longrightarrow> distinct (vp_voters p)" and decay: "0 \<le> decay" "decay \<le> 1"
  shows "scan_ok (scan_history decay voter idx ps acc)"
  using assms
proof (induction decay voter idx ps acc rule: scan_history.induct)
  case (2 decay voter idx pattern rest participation freq)
  let ?freq = "foldl (\<lambda>freq v. if v \<noteq> voter then add_weight v (decay ^ idx) freq else freq) freq (vp_voters pattern)"
  have loop: "distinct (map fst ?freq)" "weight_at ?freq k = weight_at freq k +
      (if k \<in> set (vp_voters pattern) \<and> k \<noteq> voter then decay ^ idx else 0)" for k
    using co_voter_loop [of "vp_voters pattern" freq voter "decay ^ idx"] "2.prems" by (simp_all add: scan_ok_def)
  have "0 \<le> decay ^ idx \<and> decay ^ idx \<le> 1"
    using "2.prems"(3,4) by (simp add: power_le_one)
  then have "scan_ok (participation + 1, ?freq)"
    using "2.prems"(1) loop by (auto simp: scan_ok_def add_nonneg_nonneg intro: add_mono order_trans)
  then show ?case
    using 2 by (simp split: if_splits)
qed simp

lemma overlap_score_bounds:
  assumes "\<And>x. x \<in> set freqs \<Longrightarrow> 0 \<le> x \<and> x \<le> 1"
  shows "0 \<le> overlap_score_of freqs \<and> overlap_score_of freqs \<le> 1"
proof (cases "freqs = []")
  case False
  let ?top = "take 5 (rev (sort freqs))"
  have top: "0 \<le> x \<and> x \<le> 1" if "x \<in> set ?top" for x
    using assms that by (metis in_set_takeD set_rev set_sort)
  have "0 \<le> sum_list ?top" by (rule sum_list_nonneg) (use top in blast)
  moreover have "sum_list ?top \<le> sum_list (map (\<lambda>_. 1) ?top)"
    using sum_list_mono [of ?top "\<lambda>x. x" "\<lambda>_. 1"] top by simp
  moreover have "0 < length ?top" using False by simp
  ultimately show ?thesis
    using False by (simp add: overlap_score_of_def Let_def sum_list_triv)
qed (simp add: overlap_score_of_def)

definition tracker_ok :: "overlap_tracker \<Rightarrow> bool" where
  "tracker_ok t \<longleftrightarrow> (\<forall>p \<in> set (ot_history t). distinct (vp_voters p)) \<and>
     (\<forall>v s. ot_stats t v = Some s \<longrightarrow> 1 / (1 + ot_lambda t) \<le> os_attenuation s \<and> os_attenuation s \<le> 1)"

lemma voter_overlap_bounds:
  assumes "0 \<le> ot_lambda t" and "0 \<le> ot_decay t" "ot_decay t \<le> 1"
    and "\<And>p. p \<in> set (ot_history t) \<Longrightarrow> distinct (vp_voters p)"
  shows "1 / (1 + ot_lambda t) \<le> os_attenuation (voter_overlap t voter) \<and> os_attenuation (voter_overlap t voter) \<le> 1"
proof -
  obtain participation freq where
    scan: "scan_history (ot_decay t) voter 0 (rev (ot_history t)) (0, []) = (participation, freq)"
    by force
  have ok: "scan_ok (participation, freq)"
    unfolding scan [symmetric] by (rule scan_history_ok) (use assms in \<open>auto simp: scan_ok_def weight_at_def\<close>)
  define freq' where "freq' = (if 0 < participation then map (\<lambda>(k, x). (k, x / real participation)) freq else freq)"
  have "0 \<le> x \<and> x \<le> 1" if "x \<in> set (map snd freq')" for x
  proof -
    obtain y where y: "y \<in> snd ` set freq" "x = (if 0 < participation then y / real participation else y)"
      using \<open>x \<in> set (map snd freq')\<close> by (auto simp: freq'_def image_iff split: if_splits) force+
    then obtain k where "y = weight_at freq k"
      using ok weights_at [of freq y] by (auto simp: scan_ok_def)
    then have "0 \<le> y \<and> y \<le> real participation"
      using ok by (simp add: scan_ok_def)
    with y show ?thesis by (auto simp: divide_le_eq_1)
  qed
  then have score: "0 \<le> overlap_score_of (map snd freq') \<and> overlap_score_of (map snd freq') \<le> 1"
    by (rule overlap_score_bounds)
  then have "0 \<le> ot_lambda t * overlap_score_of (map snd freq')" "ot_lambda t * overlap_score_of (map snd freq') \<le> ot_lambda t"
    using assms(1) by (simp_all add: mult_left_le)
  then show ?thesis
    using assms(1) by (simp add: voter_overlap_def scan freq'_def [symmetric] divide_left_mono frac_le)
qed

lemma update_voter_stats_ok:
  assumes "tracker_ok t" and "0 \<le> ot_lambda t" and "0 \<le> ot_decay t" "ot_decay t \<le> 1"
  shows "tracker_ok (update_voter_stats vs t)"
proof -
  have "tracker_ok (t\<lparr>ot_stats := foldl (\<lambda>stats voter. stats(voter \<mapsto> voter_overlap t voter)) (ot_stats t) vs\<rparr>)"
  proof -
    have bound: "1 / (1 + ot_lambda t) \<le> os_attenuation (voter_overlap t v) \<and> os_attenuation (voter_overlap t v) \<le> 1" for v
      by (rule voter_overlap_bounds) (use assms in \<open>auto simp: tracker_ok_def\<close>)
    have "\<forall>v s. foldl (\<lambda>stats voter. stats(voter \<mapsto> voter_overlap t voter)) (ot_stats t) vs v = Some s \<longrightarrow>
        1 / (1 + ot_lambda t) \<le> os_attenuation s \<and> os_attenuation s \<le> 1"
      by (rule foldl_invariant [where I = "\<lambda>stats. \<forall>v s. stats v = Some s \<longrightarrow>
          1 / (1 + ot_lambda t) \<le> os_attenuation s \<and> os_attenuation s \<le> 1"])
        (use assms(1) bound in \<open>auto simp: tracker_ok_def\<close>)
    with assms(1) show ?thesis by (simp add: tracker_ok_def)
  qed
  with assms(1) show ?thesis by (simp add: update_voter_stats_def)
qed

datatype overlap_cmd = RecordVotes bytes "public_key list" | AdvanceEpoch | ResetTracker

primrec overlap_exec :: "overlap_cmd \<Rightarrow> overlap_tracker \<Rightarrow> overlap_tracker" where
  "overlap_exec (RecordVotes p vs) t = record_votes p vs t"
| "overlap_exec AdvanceEpoch t = overlap_advance_epoch t"
| "overlap_exec ResetTracker t = overlap_reset t"

definition overlap_run :: "f64 \<Rightarrow> f64 \<Rightarrow> nat \<Rightarrow> overlap_cmd list \<Rightarrow> overlap_tracker" where
  "overlap_run lam decay window cmds = foldl (\<lambda>t cmd. overlap_exec cmd t) (overlap_tracker_new lam decay window) cmds"

lemma overlap_exec_config: "ot_lambda (overlap_exec cmd t) = ot_lambda t \<and> ot_decay (overlap_exec cmd t) = ot_decay t"
  by (cases cmd) (simp_all add: record_votes_def update_voter_stats_def overlap_advance_epoch_def overlap_reset_def Let_def)

lemma in_set_tl: "x \<in> set (tl xs) \<Longrightarrow> x \<in> set xs"
  by (cases xs) auto

lemma overlap_exec_ok:
  assumes "tracker_ok t" and "0 \<le> ot_lambda t" and "0 \<le> ot_decay t" "ot_decay t \<le> 1"
  shows "tracker_ok (overlap_exec cmd t)"
proof (cases cmd)
  case (RecordVotes p vs)
  have "tracker_ok (t\<lparr>ot_history := (if ot_window t \<le> length (ot_history t) then tl (ot_history t) else ot_history t) @
      [\<lparr>vp_proposal_id = p, vp_voters = remdups vs, vp_timestamp = ot_epoch t\<rparr>]\<rparr>)"
    using assms(1) by (auto simp: tracker_ok_def dest: in_set_tl)
  with assms show ?thesis
    by (simp add: RecordVotes record_votes_def Let_def update_voter_stats_ok)
qed (use assms in \<open>auto simp: tracker_ok_def overlap_advance_epoch_def overlap_reset_def\<close>)

lemma overlap_run_ok:
  assumes "0 \<le> lam" and "0 \<le> decay" "decay \<le> 1"
  shows "tracker_ok (overlap_run lam decay window cmds) \<and> ot_lambda (overlap_run lam decay window cmds) = lam"
proof -
  have "tracker_ok (overlap_run lam decay window cmds) \<and> ot_lambda (overlap_run lam decay window cmds) = lam \<and>
      ot_decay (overlap_run lam decay window cmds) = decay"
    unfolding overlap_run_def
    by (rule foldl_invariant [where I = "\<lambda>t. tracker_ok t \<and> ot_lambda t = lam \<and> ot_decay t = decay"])
      (use assms in \<open>auto simp: overlap_exec_ok overlap_exec_config, simp_all add: tracker_ok_def overlap_tracker_new_def\<close>)
  then show ?thesis by blast
qed

text \<open>The penalty for voting together never raises the credits of a voter and never takes more than the
  fraction \<open>\<lambda> / (1 + \<lambda>)\<close> of them, whatever votes the tracker has seen, for a sensitivity \<open>\<lambda>\<close> of at
  least 0 and a decay between 0 and 1.\<close>

theorem overlap_penalty_bounded:
  assumes "0 \<le> lam" and "0 \<le> decay" "decay \<le> 1" and "0 \<le> credits"
  shows "credits / (1 + lam) \<le> apply_penalty (overlap_run lam decay window cmds) voter credits \<and>
    apply_penalty (overlap_run lam decay window cmds) voter credits \<le> credits"
proof (cases "ot_stats (overlap_run lam decay window cmds) voter")
  case None
  have "credits / (1 + lam) \<le> credits / 1"
    by (rule frac_le) (use assms in simp_all)
  with None assms show ?thesis by (simp add: apply_penalty_def)
next
  case (Some s)
  then have s: "1 / (1 + lam) \<le> os_attenuation s" "os_attenuation s \<le> 1"
    using overlap_run_ok [OF assms(1-3), of window cmds] by (auto simp: tracker_ok_def)
  have "1 / (1 + lam) * credits \<le> os_attenuation s * credits" "os_attenuation s * credits \<le> 1 * credits"
    by (rule mult_right_mono [OF s(1) assms(4)], rule mult_right_mono [OF s(2) assms(4)])
  with Some show ?thesis by (simp add: apply_penalty_def)
qed

theorem overlap_penalty_bounded_witness:
  "12 / (1 + 2) \<le> apply_penalty (overlap_run 2 (4 / 5) 20 [RecordVotes [1] [[7], [8]]]) [7] 12 \<and>
    apply_penalty (overlap_run 2 (4 / 5) 20 [RecordVotes [1] [[7], [8]]]) [7] 12 \<le> 12"
  by (rule overlap_penalty_bounded) simp_all

section \<open>The tally\<close>

fun first_repeated :: "public_key list \<Rightarrow> public_key list \<Rightarrow> public_key" where
  "first_repeated seen [] = []"
| "first_repeated seen (x # xs) = (if x \<in> set seen then x else first_repeated (x # seen) xs)"

definition ballot_total :: "voting_engine \<Rightarrow> ballot \<Rightarrow> governance_vote list \<Rightarrow> f64" where
  "ballot_total e b votes = sum_list (map (final_credits e) (filter (\<lambda>v. gv_ballot v = b) votes))"

lemma ballot_total_Cons:
  "ballot_total e b [] = 0"
  "ballot_total e b (v # vs) = (if gv_ballot v = b then final_credits e v else 0) + ballot_total e b vs"
  by (simp_all add: ballot_total_def)

lemma count_votes_correct:
  "count_votes e p seen votes (y, n, a) =
     (let vs = filter (\<lambda>v. gv_proposal_id v = p) votes in
      if distinct (map gv_voter vs) \<and> gv_voter ` set vs \<inter> set seen = {}
      then Inr (y + ballot_total e BallotYes vs, n + ballot_total e BallotNo vs, a + ballot_total e BallotAbstain vs)
      else Inl (GovDuplicateVote (first_repeated seen (map gv_voter vs))))"
proof (induction votes arbitrary: seen y n a)
  case (Cons v votes)
  show ?case
  proof (cases "gv_proposal_id v = p")
    case True
    then show ?thesis
      using Cons.IH [of "gv_voter v # seen"]
      by (cases "gv_ballot v") (auto simp: Let_def ballot_total_Cons)
  qed (use Cons.IH in \<open>simp add: Let_def\<close>)
qed (simp add: ballot_total_Cons)

text \<open>The tally of a proposal adds up, for each ballot, the credits of its votes after the penalties, and
  ignores votes for other proposals; it fails exactly when somebody voted twice, and then names the first voter
  that did.\<close>

theorem tally_votes_correct:
  "tally_votes e votes p =
     (let vs = filter (\<lambda>v. gv_proposal_id v = p) votes in
      if distinct (map gv_voter vs)
      then Inr \<lparr>qs_yes = ballot_total e BallotYes vs, qs_no = ballot_total e BallotNo vs,
        qs_abstain = ballot_total e BallotAbstain vs,
        qs_total_participation = ballot_total e BallotYes vs + ballot_total e BallotNo vs + ballot_total e BallotAbstain vs\<rparr>
      else Inl (GovDuplicateVote (first_repeated [] (map gv_voter vs))))"
  by (simp add: tally_votes_def count_votes_correct Let_def)

text \<open>What it takes to pass, for non-negative tallies.\<close>

lemma determine_result_Pass:
  assumes "0 \<le> qs_yes s" "0 \<le> qs_no s"
  shows "determine_result s (667 / 1000) = Pass \<longleftrightarrow>
      0 < qs_yes s + qs_no s \<and> 667 * (qs_yes s + qs_no s) \<le> 1000 * qs_yes s"
    and "determine_result s (1 / 2) = Pass \<longleftrightarrow> qs_no s < qs_yes s"
  using assms by (auto simp: determine_result_def Let_def field_simps)

text \<open>The engine and the proposal agree on the outcome: with the tallies of the statistics, the proposal
  says it passed exactly when the engine determines a pass from its threshold.\<close>

lemma result_matches_proposal:
  assumes "0 \<le> qs_yes s" "0 \<le> qs_no s" and "gp_tally_yes p = qs_yes s" "gp_tally_no p = qs_no s"
  shows "passed_threshold p \<longleftrightarrow> determine_result s (required_threshold p) = Pass"
  using assms
  by (cases "gp_class p")
    (auto simp: passed_threshold_def vote_percentage_def required_threshold_def determine_result_def Let_def)

end
