(* ===== verification/Threshold_Keys.thy ===== *)
theory Threshold_Keys
  imports Core_Types
begin

text \<open>
  Threshold signatures and distributed key generation: \<open>crates/adic-crypto/src/bls.rs\<close>,
  \<open>crates/adic-crypto/src/dkg.rs\<close> and \<open>crates/adic-pouw/src/dkg_manager.rs\<close>.
  The pairing library \<open>threshold_crypto\<close>, \<open>bincode\<close> and \<open>hex\<close> are third-party code: their
  operations are the fields of the record \<open>tc_lib\<close>, an argument of the definitions that call
  them. The random polynomial of a ceremony is an argument of \<open>generate_commitment\<close>. Values of
  a \<open>HashMap\<close> come in an order that Rust does not fix: where the code iterates over one, the
  order of the keys is an argument \<open>ord\<close>. The texts inside errors are left out.
\<close>

section \<open>The pairing library\<close>

text \<open>\<open>'p\<close>: \<open>SecretKeySet\<close>, \<open>'s\<close>: \<open>SecretKeyShare\<close>, \<open>'k\<close>: \<open>PublicKeySet\<close>,
  \<open>'q\<close>: \<open>PublicKeyShare\<close>, \<open>'g\<close>: \<open>Signature\<close>, \<open>'h\<close>: \<open>SignatureShare\<close>.\<close>

record ('p, 's, 'k, 'q, 'g, 'h) tc_lib =
  tc_public_keys :: "'p \<Rightarrow> 'k"
  tc_secret_key_share :: "'p \<Rightarrow> nat \<Rightarrow> 's"
  tc_public_key_share :: "'k \<Rightarrow> nat \<Rightarrow> 'q"
  tc_sign :: "'s \<Rightarrow> bytes \<Rightarrow> 'h"
  tc_verify_share :: "'q \<Rightarrow> 'h \<Rightarrow> bytes \<Rightarrow> bool"
  tc_combine :: "'k \<Rightarrow> (nat \<times> 'h) list \<Rightarrow> 'g option"
  tc_verify :: "'k \<Rightarrow> 'g \<Rightarrow> bytes \<Rightarrow> bool"
  tc_hex :: "bytes \<Rightarrow> string"
  tc_unhex :: "string \<Rightarrow> bytes option"
  tc_put_signature :: "'g \<Rightarrow> bytes"
  tc_get_signature :: "bytes \<Rightarrow> 'g option"
  tc_put_share :: "'h \<Rightarrow> bytes"
  tc_get_share :: "bytes \<Rightarrow> 'h option"
  tc_put_key_set :: "'k \<Rightarrow> bytes"
  tc_get_key_set :: "bytes \<Rightarrow> 'k option"
  tc_put_key_share :: "'q \<Rightarrow> bytes"
  tc_get_key_share :: "bytes \<Rightarrow> 'q option"

datatype bls_error =
    BlsInvalidThreshold nat nat
  | InsufficientShares nat nat
  | VerificationFailed
  | InvalidShare nat
  | DuplicateShare nat
  | SerializationError
  | ThresholdCryptoError
  | HexError

section \<open>Threshold signatures\<close>

datatype bls_signature = BLSSignature (as_hex: string)

record bls_signature_share =
  ss_participant_id :: nat
  ss_signature_hex :: string

definition option_or :: "'e \<Rightarrow> 'a option \<Rightarrow> 'e + 'a" where
  "option_or e x = (case x of None \<Rightarrow> Inl e | Some y \<Rightarrow> Inr y)"

lemma option_or_simps [simp]: "option_or e None = Inl e" "option_or e (Some y) = Inr y"
  by (simp_all add: option_or_def)

lemma option_or_Inr_iff: "option_or e x = Inr y \<longleftrightarrow> x = Some y"
  by (cases x) auto

definition from_tc_signature :: "('p, 's, 'k, 'q, 'g, 'h) tc_lib \<Rightarrow> 'g \<Rightarrow> bls_signature" where
  "from_tc_signature T sig = BLSSignature (tc_hex T (tc_put_signature T sig))"

definition to_tc_signature :: "('p, 's, 'k, 'q, 'g, 'h) tc_lib \<Rightarrow> bls_signature \<Rightarrow> bls_error + 'g" where
  "to_tc_signature T sig =
     bindE (option_or HexError (tc_unhex T (as_hex sig))) (\<lambda>b.
       option_or SerializationError (tc_get_signature T b))"

definition signature_share_new ::
    "('p, 's, 'k, 'q, 'g, 'h) tc_lib \<Rightarrow> nat \<Rightarrow> 'h \<Rightarrow> bls_error + bls_signature_share" where
  "signature_share_new T participant_id sig_share =
     Inr \<lparr>ss_participant_id = participant_id, ss_signature_hex = tc_hex T (tc_put_share T sig_share)\<rparr>"

definition to_tc_signature_share ::
    "('p, 's, 'k, 'q, 'g, 'h) tc_lib \<Rightarrow> bls_signature_share \<Rightarrow> bls_error + 'h" where
  "to_tc_signature_share T share =
     bindE (option_or HexError (tc_unhex T (ss_signature_hex share))) (\<lambda>b.
       option_or SerializationError (tc_get_share T b))"

record threshold_config =
  tf_total :: nat
  tf_threshold :: nat

definition threshold_config_new :: "nat \<Rightarrow> nat \<Rightarrow> bls_error + threshold_config" where
  "threshold_config_new n threshold =
     (let min_threshold = (n + 1) div 2 in
      if n < threshold then Inl (BlsInvalidThreshold threshold n)
      else if threshold < min_threshold then Inl (BlsInvalidThreshold threshold n)
      else Inr \<lparr>tf_total = n, tf_threshold = threshold\<rparr>)"

definition with_bft_threshold :: "nat \<Rightarrow> bls_error + threshold_config" where
  "with_bft_threshold n = threshold_config_new n ((2 * n + 2) div 3)"

definition sign_share :: "('p, 's, 'k, 'q, 'g, 'h) tc_lib \<Rightarrow> 's \<Rightarrow> nat \<Rightarrow> bytes \<Rightarrow> bytes \<Rightarrow>
    bls_error + bls_signature_share" where
  "sign_share T secret participant_id message dst =
     signature_share_new T participant_id (tc_sign T secret (dst @ message))"

definition verify_share :: "('p, 's, 'k, 'q, 'g, 'h) tc_lib \<Rightarrow> 'k \<Rightarrow> bytes \<Rightarrow> bytes \<Rightarrow> bls_signature_share \<Rightarrow>
    bls_error + bool" where
  "verify_share T keys message dst share =
     (let pk_share = tc_public_key_share T keys (ss_participant_id share) in
      bindE (to_tc_signature_share T share) (\<lambda>sig_share.
        Inr (tc_verify_share T pk_share sig_share (dst @ message))))"

text \<open>The loop that fills the \<open>BTreeMap\<close>, which is kept sorted by participant.\<close>

fun collect_shares :: "('p, 's, 'k, 'q, 'g, 'h) tc_lib \<Rightarrow> bls_signature_share list \<Rightarrow> (nat \<times> 'h) list \<Rightarrow>
    bls_error + (nat \<times> 'h) list" where
  "collect_shares T [] shares_map = Inr shares_map"
| "collect_shares T (w # ws) shares_map =
     (if ss_participant_id w \<in> fst ` set shares_map then Inl (DuplicateShare (ss_participant_id w))
      else bindE (to_tc_signature_share T w) (\<lambda>sig_share.
        collect_shares T ws (insort_key fst (ss_participant_id w, sig_share) shares_map)))"

definition signer_aggregate :: "('p, 's, 'k, 'q, 'g, 'h) tc_lib \<Rightarrow> threshold_config \<Rightarrow> 'k \<Rightarrow>
    bls_signature_share list \<Rightarrow> bls_error + bls_signature" where
  "signer_aggregate T config keys shares =
     (if length shares < tf_threshold config
      then Inl (InsufficientShares (length shares) (tf_threshold config))
      else
        bindE (collect_shares T shares []) (\<lambda>shares_map.
        bindE (option_or ThresholdCryptoError (tc_combine T keys shares_map)) (\<lambda>combined.
          Inr (from_tc_signature T combined))))"

definition verify_signature :: "('p, 's, 'k, 'q, 'g, 'h) tc_lib \<Rightarrow> 'k \<Rightarrow> bytes \<Rightarrow> bytes \<Rightarrow> bls_signature \<Rightarrow>
    bls_error + bool" where
  "verify_signature T keys message dst signature =
     bindE (to_tc_signature T signature) (\<lambda>sig. Inr (tc_verify T keys sig (dst @ message)))"

text \<open>\<open>threshold - 1\<close> underflows for a threshold of 0, which only a configuration for no
  participants has: the first share of the random polynomial \<open>random degree\<close>.\<close>

definition generate_threshold_keys :: "('p, 's, 'k, 'q, 'g, 'h) tc_lib \<Rightarrow> (nat \<Rightarrow> 'p) \<Rightarrow> nat \<Rightarrow> nat \<Rightarrow>
    bls_error + 'k \<times> 's list" where
  "generate_threshold_keys T random n threshold =
     bindE (threshold_config_new n threshold) (\<lambda>config.
       let sk_set = random (if tf_threshold config = 0 then 2 ^ 64 - 1 else tf_threshold config - 1) in
       Inr (tc_public_keys T sk_set, map (tc_secret_key_share T sk_set) [0..<n]))"

section \<open>The ceremony\<close>

datatype dkg_state = Initialized | CollectingCommitments | ExchangingShares | Verifying | Completed | DkgFailed string

record dkg_commitment =
  dk_participant :: nat
  dk_commitments :: "string list"

record dkg_share =
  dh_from :: nat
  dh_to :: nat
  dh_key_share :: string

record ('s, 'k) dkg_result =
  dr_secret :: 's
  dr_keys :: 'k
  dr_participant :: nat

record ('p, 's, 'k) dkg_ceremony =
  dc_config :: threshold_config
  dc_participant :: nat
  dc_state :: dkg_state
  dc_polynomial :: "'p option"
  dc_commitments :: "nat \<rightharpoonup> dkg_commitment"
  dc_received :: "nat \<rightharpoonup> dkg_share"
  dc_my_secret :: "'s option"
  dc_key_set :: "'k option"

type_synonym ('p, 's, 'k, 'a) dkg_op = "(bls_error, ('p, 's, 'k) dkg_ceremony, 'a) rop"

definition dkg_ceremony_new :: "threshold_config \<Rightarrow> nat \<Rightarrow> ('p, 's, 'k) dkg_ceremony" where
  "dkg_ceremony_new config participant =
     \<lparr>dc_config = config, dc_participant = participant, dc_state = Initialized, dc_polynomial = None,
      dc_commitments = Map.empty, dc_received = Map.empty, dc_my_secret = None, dc_key_set = None\<rparr>"

definition dkg_start :: "('p, 's, 'k) dkg_ceremony \<Rightarrow> ('p, 's, 'k) dkg_ceremony" where
  "dkg_start c = c\<lparr>dc_state := CollectingCommitments\<rparr>"

definition generate_commitment ::
    "('p, 's, 'k, 'q, 'g, 'h) tc_lib \<Rightarrow> (nat \<Rightarrow> 'p) \<Rightarrow> ('p, 's, 'k, dkg_commitment) dkg_op" where
  "generate_commitment T random c =
     (if dc_state c \<noteq> CollectingCommitments then errR ThresholdCryptoError c
      else
        (let sk_set = random (if tf_threshold (dc_config c) = 0 then 2 ^ 64 - 1 else tf_threshold (dc_config c) - 1);
             pk_set = tc_public_keys T sk_set
         in okR \<lparr>dk_participant = dc_participant c, dk_commitments = [tc_hex T (tc_put_key_set T pk_set)]\<rparr>
              (c\<lparr>dc_polynomial := Some sk_set\<rparr>)))"

definition add_commitment :: "dkg_commitment \<Rightarrow> ('p, 's, 'k, unit) dkg_op" where
  "add_commitment commitment c =
     (if dc_state c \<noteq> CollectingCommitments \<and> dc_state c \<noteq> ExchangingShares then errR ThresholdCryptoError c
      else
        (let commitments = (dc_commitments c)(dk_participant commitment \<mapsto> commitment);
             c' = c\<lparr>dc_commitments := commitments\<rparr>
         in okR () (if card (dom commitments) = tf_total (dc_config c)
              then c'\<lparr>dc_state := ExchangingShares\<rparr> else c')))"

definition generate_shares :: "('p, 's, 'k, 'q, 'g, 'h) tc_lib \<Rightarrow> ('p, 's, 'k) dkg_ceremony \<Rightarrow>
    bls_error + dkg_share list" where
  "generate_shares T c =
     (if dc_state c \<noteq> ExchangingShares then Inl ThresholdCryptoError
      else
        bindE (option_or ThresholdCryptoError (dc_polynomial c)) (\<lambda>sk_set.
          let pk_set = tc_public_keys T sk_set in
          Inr (map (\<lambda>i. \<lparr>dh_from = dc_participant c, dh_to = i,
                 dh_key_share = tc_hex T (tc_put_key_share T (tc_public_key_share T pk_set i))\<rparr>)
               (filter (\<lambda>i. i \<noteq> dc_participant c) [0..<tf_total (dc_config c)]))))"

text \<open>The decoding of the first key set of a commitment. \<open>commitments_hex[0]\<close> panics for an empty
  vector; the panic is the left of the outer sum.\<close>

definition decode_commitment :: "('p, 's, 'k, 'q, 'g, 'h) tc_lib \<Rightarrow> dkg_commitment \<Rightarrow> panic + bls_error + 'k" where
  "decode_commitment T commitment =
     (case vget (dk_commitments commitment) 0 of
        None \<Rightarrow> Inl IndexOutOfBounds
      | Some h \<Rightarrow> Inr (bindE (option_or SerializationError (tc_unhex T h)) (\<lambda>b.
          option_or SerializationError (tc_get_key_set T b))))"

definition decode_key_share :: "('p, 's, 'k, 'q, 'g, 'h) tc_lib \<Rightarrow> dkg_share \<Rightarrow> bls_error + 'q" where
  "decode_key_share T share =
     bindE (option_or SerializationError (tc_unhex T (dh_key_share share))) (\<lambda>b.
       option_or SerializationError (tc_get_key_share T b))"

text \<open>The result is that of the call, in a sum with a panic. \<open>total - 1\<close> wraps around for a
  committee of nobody, and then never equals the number of shares.\<close>

definition add_share :: "('p, 's, 'k, 'q, 'g, 'h) tc_lib \<Rightarrow> dkg_share \<Rightarrow> ('p, 's, 'k) dkg_ceremony \<Rightarrow>
    panic + (bls_error + unit) \<times> ('p, 's, 'k) dkg_ceremony" where
  "add_share T share c =
     (if dc_state c \<noteq> ExchangingShares \<and> dc_state c \<noteq> Verifying then Inr (errR ThresholdCryptoError c)
      else if dh_to share \<noteq> dc_participant c then Inr (errR ThresholdCryptoError c)
      else case dc_commitments c (dh_from share) of
        None \<Rightarrow> Inr (errR ThresholdCryptoError c)
      | Some sender_commitment \<Rightarrow>
          (case decode_commitment T sender_commitment of
             Inl p \<Rightarrow> Inl p
           | Inr decoded \<Rightarrow>
               Inr (case bindE decoded (\<lambda>sender_pk_set.
                        bindE (decode_key_share T share) (\<lambda>received.
                          if tc_public_key_share T sender_pk_set (dc_participant c) \<noteq> received
                          then Inl ThresholdCryptoError else Inr ()))
                    of
                      Inl e \<Rightarrow> errR e c
                    | Inr _ \<Rightarrow>
                        (let received_shares = (dc_received c)(dh_from share \<mapsto> share);
                             c' = c\<lparr>dc_received := received_shares\<rparr>
                         in okR () (if tf_total (dc_config c) \<noteq> 0 \<and>
                                card (dom received_shares) = tf_total (dc_config c) - 1
                              then c'\<lparr>dc_state := Verifying\<rparr> else c')))))"

text \<open>The loop over \<open>commitments.values()\<close>, in the order \<open>ord\<close> of the keys.\<close>

fun decode_all :: "('p, 's, 'k, 'q, 'g, 'h) tc_lib \<Rightarrow> dkg_commitment list \<Rightarrow> panic + bls_error + 'k list" where
  "decode_all T [] = Inr (Inr [])"
| "decode_all T (commitment # rest) =
     (case decode_commitment T commitment of
        Inl p \<Rightarrow> Inl p
      | Inr (Inl e) \<Rightarrow> Inr (Inl e)
      | Inr (Inr pk_set) \<Rightarrow>
          (case decode_all T rest of
             Inl p \<Rightarrow> Inl p
           | Inr r \<Rightarrow> Inr (bindE r (\<lambda>pk_sets. Inr (pk_set # pk_sets)))))"

definition dkg_finalize :: "('p, 's, 'k, 'q, 'g, 'h) tc_lib \<Rightarrow> nat list \<Rightarrow> ('p, 's, 'k) dkg_ceremony \<Rightarrow>
    panic + (bls_error + ('s, 'k) dkg_result) \<times> ('p, 's, 'k) dkg_ceremony" where
  "dkg_finalize T ord c =
     (if dc_state c \<noteq> Verifying then Inr (errR ThresholdCryptoError c)
      else case dc_polynomial c of
        None \<Rightarrow> Inr (errR ThresholdCryptoError c)
      | Some sk_set \<Rightarrow>
          (let our_own_share = tc_secret_key_share T sk_set (dc_participant c) in
           case decode_all T (List.map_filter (dc_commitments c) ord) of
             Inl p \<Rightarrow> Inl p
           | Inr (Inl e) \<Rightarrow> Inr (errR e c)
           | Inr (Inr []) \<Rightarrow> Inr (errR ThresholdCryptoError c)
           | Inr (Inr (pk_set # _)) \<Rightarrow>
               Inr (okR \<lparr>dr_secret = our_own_share, dr_keys = pk_set, dr_participant = dc_participant c\<rparr>
                     (c\<lparr>dc_my_secret := Some our_own_share, dc_key_set := Some pk_set, dc_state := Completed\<rparr>))))"

definition dkg_is_complete :: "('p, 's, 'k) dkg_ceremony \<Rightarrow> bool" where
  "dkg_is_complete c \<longleftrightarrow> dc_state c = Completed"

section \<open>The ceremonies of a node\<close>

text \<open>\<open>DKGManager\<close>: the ceremonies in progress and the keys of the finished ones, by epoch. The
  errors are those of \<open>adic-pouw\<close>: \<open>None\<close> stands for \<open>PoUWError::Other\<close>,
  \<open>Some e\<close> for \<open>PoUWError::BLSError(e)\<close>.\<close>

record ('p, 's, 'k) dkg_manager =
  dm_key_sets :: "u64 \<rightharpoonup> 'k"
  dm_ceremonies :: "u64 \<rightharpoonup> ('p, 's, 'k) dkg_ceremony"
  dm_secrets :: "u64 \<rightharpoonup> 's"

type_synonym ('p, 's, 'k, 'a) dkgm_op = "(bls_error option, ('p, 's, 'k) dkg_manager, 'a) rop"

definition dkg_manager_new :: "('p, 's, 'k) dkg_manager" where
  "dkg_manager_new = \<lparr>dm_key_sets = Map.empty, dm_ceremonies = Map.empty, dm_secrets = Map.empty\<rparr>"

definition start_ceremony :: "u64 \<Rightarrow> nat \<Rightarrow> threshold_config \<Rightarrow> ('p, 's, 'k, unit) dkgm_op" where
  "start_ceremony epoch_id participant_id config d =
     (if dm_ceremonies d epoch_id \<noteq> None then errR None d
      else okR () (d\<lparr>dm_ceremonies := (dm_ceremonies d)(epoch_id \<mapsto>
             dkg_start (dkg_ceremony_new config participant_id))\<rparr>))"

text \<open>An operation on the ceremony of an epoch, and one that can panic.\<close>

definition on_ceremony :: "u64 \<Rightarrow> ('p, 's, 'k, 'a) dkg_op \<Rightarrow> ('p, 's, 'k, 'a) dkgm_op" where
  "on_ceremony epoch_id f d =
     (case dm_ceremonies d epoch_id of
        None \<Rightarrow> errR None d
      | Some c \<Rightarrow>
          (case f c of (r, c') \<Rightarrow> (map_sum Some id r, d\<lparr>dm_ceremonies := (dm_ceremonies d)(epoch_id \<mapsto> c')\<rparr>)))"

definition manager_generate_commitment ::
    "('p, 's, 'k, 'q, 'g, 'h) tc_lib \<Rightarrow> (nat \<Rightarrow> 'p) \<Rightarrow> u64 \<Rightarrow> ('p, 's, 'k, dkg_commitment) dkgm_op" where
  "manager_generate_commitment T random epoch_id = on_ceremony epoch_id (generate_commitment T random)"

definition manager_add_commitment :: "u64 \<Rightarrow> dkg_commitment \<Rightarrow> ('p, 's, 'k, unit) dkgm_op" where
  "manager_add_commitment epoch_id commitment = on_ceremony epoch_id (add_commitment commitment)"

definition manager_generate_shares :: "('p, 's, 'k, 'q, 'g, 'h) tc_lib \<Rightarrow> ('p, 's, 'k) dkg_manager \<Rightarrow> u64 \<Rightarrow>
    bls_error option + dkg_share list" where
  "manager_generate_shares T d epoch_id =
     (case dm_ceremonies d epoch_id of
        None \<Rightarrow> Inl None
      | Some c \<Rightarrow> map_sum Some id (generate_shares T c))"

definition manager_add_share :: "('p, 's, 'k, 'q, 'g, 'h) tc_lib \<Rightarrow> u64 \<Rightarrow> dkg_share \<Rightarrow> ('p, 's, 'k) dkg_manager \<Rightarrow>
    panic + (bls_error option + unit) \<times> ('p, 's, 'k) dkg_manager" where
  "manager_add_share T epoch_id share d =
     (case dm_ceremonies d epoch_id of
        None \<Rightarrow> Inr (errR None d)
      | Some c \<Rightarrow>
          map_sum id (\<lambda>(r, c'). (map_sum Some id r, d\<lparr>dm_ceremonies := (dm_ceremonies d)(epoch_id \<mapsto> c')\<rparr>))
            (add_share T share c))"

definition finalize_ceremony :: "('p, 's, 'k, 'q, 'g, 'h) tc_lib \<Rightarrow> nat list \<Rightarrow> u64 \<Rightarrow> ('p, 's, 'k) dkg_manager \<Rightarrow>
    panic + (bls_error option + 'k) \<times> ('p, 's, 'k) dkg_manager" where
  "finalize_ceremony T ord epoch_id d =
     (case dm_ceremonies d epoch_id of
        None \<Rightarrow> Inr (errR None d)
      | Some c \<Rightarrow>
          (case dkg_finalize T ord c of
             Inl p \<Rightarrow> Inl p
           | Inr (Inl e, c') \<Rightarrow> Inr (Inl (Some e), d\<lparr>dm_ceremonies := (dm_ceremonies d)(epoch_id \<mapsto> c')\<rparr>)
           | Inr (Inr result, c') \<Rightarrow>
               Inr (okR (dr_keys result)
                 (d\<lparr>dm_key_sets := (dm_key_sets d)(epoch_id \<mapsto> dr_keys result),
                    dm_secrets := (dm_secrets d)(epoch_id \<mapsto> dr_secret result),
                    dm_ceremonies := (dm_ceremonies d)(epoch_id := None)\<rparr>))))"

definition get_public_key_set :: "('p, 's, 'k) dkg_manager \<Rightarrow> u64 \<Rightarrow> bls_error option + 'k" where
  "get_public_key_set d epoch_id = option_or None (dm_key_sets d epoch_id)"

definition get_secret_share :: "('p, 's, 'k) dkg_manager \<Rightarrow> u64 \<Rightarrow> bls_error option + 's" where
  "get_secret_share d epoch_id = option_or None (dm_secrets d epoch_id)"

definition manager_is_complete :: "('p, 's, 'k) dkg_manager \<Rightarrow> u64 \<Rightarrow> bool" where
  "manager_is_complete d epoch_id \<longleftrightarrow> dm_key_sets d epoch_id \<noteq> None"

definition get_ceremony_state :: "('p, 's, 'k) dkg_manager \<Rightarrow> u64 \<Rightarrow> bls_error option + dkg_state" where
  "get_ceremony_state d epoch_id = option_or None (map_option dc_state (dm_ceremonies d epoch_id))"

section \<open>Thresholds\<close>

lemma threshold_config_new_iff:
  "threshold_config_new n t = Inr c \<longleftrightarrow> t \<le> n \<and> n \<le> 2 * t \<and> c = \<lparr>tf_total = n, tf_threshold = t\<rparr>"
  by (auto simp: threshold_config_new_def Let_def)

lemma bft_threshold_accepted:
  "with_bft_threshold n = Inr \<lparr>tf_total = n, tf_threshold = (2 * n + 2) div 3\<rparr>"
proof (cases "n = 0")
  case False
  then have "(2 * n + 2) div 3 \<le> n" "n \<le> 2 * ((2 * n + 2) div 3)" by presburger+
  then show ?thesis by (simp add: with_bft_threshold_def threshold_config_new_iff)
qed (simp add: with_bft_threshold_def threshold_config_new_iff)

lemma distinct_map_insort: "distinct (map f (insort_key f x xs)) \<longleftrightarrow> distinct (f x # map f xs)"
  by (induction xs) (auto simp: set_insort_key)

text \<open>What the aggregation hands to the library: the shares of distinct participants, in ascending order.\<close>

lemma collect_shares_spec:
  assumes "collect_shares T ws acc = Inr m" and "sorted (map fst acc)" and "distinct (map fst acc)"
  shows "sorted (map fst m) \<and> distinct (map fst m) \<and> length m = length acc + length ws \<and>
    set (map fst m) = set (map fst acc) \<union> ss_participant_id ` set ws"
  using assms
proof (induction ws arbitrary: acc)
  case (Cons w ws)
  obtain s where s: "collect_shares T ws (insort_key fst (ss_participant_id w, s) acc) = Inr m"
    and fresh: "ss_participant_id w \<notin> fst ` set acc"
    using Cons.prems(1) by (auto simp: bindE_Inr_iff split: if_splits)
  let ?acc = "insort_key fst (ss_participant_id w, s) acc"
  have "sorted (map fst ?acc)"
    using Cons.prems(2) by (simp add: sorted_insort_key)
  moreover have "distinct (map fst ?acc)"
    using Cons.prems(3) fresh
    by (simp add: distinct_map_insort)
  ultimately show ?case
    using Cons.IH [OF s] by (auto simp: set_insort_key)
qed simp

section \<open>The key set of a finished ceremony\<close>

lemma decode_all_ok:
  assumes "\<And>c. c \<in> set cs \<Longrightarrow> decode_commitment T c = Inr (Inr (f c))"
  shows "decode_all T cs = Inr (Inr (map f cs))"
  using assms by (induction cs) auto

lemma map_filter_dom:
  assumes "set ord \<subseteq> dom m"
  shows "List.map_filter m ord = map (the \<circ> m) ord"
  using assms by (induction ord) (auto simp: List.map_filter_def)

text \<open>\<open>finalize\<close> does not combine the commitments of the participants: it takes the key set of
  whichever commitment the \<open>HashMap\<close> yields first. For a ceremony that is ready, and any participant,
  there is an iteration order in which that participant's key set becomes the result; the secret share is
  that of the node's own polynomial in every order. So the nodes of a committee can finish the same ceremony
  with different public key sets.\<close>

theorem dkg_key_set_arbitrary:
  assumes "dc_state c = Verifying" and "dc_polynomial c = Some sk"
    and "\<And>i cm. dc_commitments c i = Some cm \<Longrightarrow> decode_commitment T cm = Inr (Inr (key_of cm))"
    and "finite (dom (dc_commitments c))" and "dc_commitments c j = Some cm_j"
  shows "\<exists>ord c'. distinct ord \<and> set ord = dom (dc_commitments c) \<and>
    dkg_finalize T ord c = Inr (Inr \<lparr>dr_secret = tc_secret_key_share T sk (dc_participant c),
      dr_keys = key_of cm_j, dr_participant = dc_participant c\<rparr>, c')"
proof -
  let ?m = "dc_commitments c"
  let ?ord = "j # sorted_list_of_set (dom ?m - {j})"
  have ord: "distinct ?ord" "set ?ord = dom ?m"
    using assms(4,5) by auto
  have "decode_all T (map (the \<circ> ?m) ?ord) = Inr (Inr (map key_of (map (the \<circ> ?m) ?ord)))"
  proof (rule decode_all_ok)
    fix cm assume "cm \<in> set (map (the \<circ> ?m) ?ord)"
    then have "cm \<in> (the \<circ> ?m) ` dom ?m"
      by (metis list.set_map ord(2))
    then show "decode_commitment T cm = Inr (Inr (key_of cm))"
      using assms(3) by auto
  qed
  then have "decode_all T (List.map_filter ?m ?ord) = Inr (Inr (map key_of (map (the \<circ> ?m) ?ord)))"
    using ord(2) by (simp only: map_filter_dom [of ?ord ?m] order_refl)
  then have "dkg_finalize T ?ord c = Inr (Inr \<lparr>dr_secret = tc_secret_key_share T sk (dc_participant c),
      dr_keys = key_of cm_j, dr_participant = dc_participant c\<rparr>,
      c\<lparr>dc_my_secret := Some (tc_secret_key_share T sk (dc_participant c)),
        dc_key_set := Some (key_of cm_j), dc_state := Completed\<rparr>)"
    using assms(1,2,5) by (simp add: dkg_finalize_def Let_def del: decode_all.simps)
  with ord show ?thesis by blast
qed

definition demo_lib :: "(nat, nat, nat, nat, nat, nat) tc_lib" where
  "demo_lib = \<lparr>tc_public_keys = id, tc_secret_key_share = (+), tc_public_key_share = (+), tc_sign = (\<lambda>s _. s),
     tc_verify_share = (\<lambda>_ _ _. True), tc_combine = (\<lambda>_ xs. map_option snd (vget xs 0)),
     tc_verify = (\<lambda>_ _ _. True), tc_hex = map (char_of \<circ> unat), tc_unhex = (\<lambda>s. Some (map of_char s)),
     tc_put_signature = (\<lambda>g. [of_nat g]), tc_get_signature = (\<lambda>b. map_option unat (vget b 0)),
     tc_put_share = (\<lambda>g. [of_nat g]), tc_get_share = (\<lambda>b. map_option unat (vget b 0)),
     tc_put_key_set = (\<lambda>g. [of_nat g]), tc_get_key_set = (\<lambda>b. map_option unat (vget b 0)),
     tc_put_key_share = (\<lambda>g. [of_nat g]), tc_get_key_share = (\<lambda>b. map_option unat (vget b 0))\<rparr>"

definition demo_ceremony :: "(nat, nat, nat) dkg_ceremony" where
  "demo_ceremony = (dkg_ceremony_new \<lparr>tf_total = 2, tf_threshold = 1\<rparr> 0)\<lparr>dc_state := Verifying,
     dc_polynomial := Some 7,
     dc_commitments := [0 \<mapsto> \<lparr>dk_participant = 0, dk_commitments = [''A'']\<rparr>,
       1 \<mapsto> \<lparr>dk_participant = 1, dk_commitments = [''B'']\<rparr>]\<rparr>"

theorem dkg_key_set_arbitrary_witness:
  "\<exists>ord c'. distinct ord \<and> set ord = dom (dc_commitments demo_ceremony) \<and>
    dkg_finalize demo_lib ord demo_ceremony =
      Inr (Inr \<lparr>dr_secret = tc_secret_key_share demo_lib 7 (dc_participant demo_ceremony), dr_keys = 66,
        dr_participant = dc_participant demo_ceremony\<rparr>, c')"
proof -
  let ?key = "\<lambda>cm. if dk_participant cm = 0 then 65 else 66 :: nat"
  let ?cm = "\<lparr>dk_participant = 1, dk_commitments = [''B'']\<rparr>"
  have decoded: "decode_commitment demo_lib cm = Inr (Inr (?key cm))"
    if "dc_commitments demo_ceremony i = Some cm" for i cm
    using that by (auto simp: demo_ceremony_def dkg_ceremony_new_def demo_lib_def decode_commitment_def split: if_splits)
  have ready: "dc_state demo_ceremony = Verifying" "dc_polynomial demo_ceremony = Some 7"
    "finite (dom (dc_commitments demo_ceremony))" "dc_commitments demo_ceremony 1 = Some ?cm"
    by (simp_all add: demo_ceremony_def)
  show ?thesis
    using dkg_key_set_arbitrary [OF ready(1,2) decoded ready(3,4)] by simp
qed

end
