(* ===== verification/Grants.thy ===== *)
theory Grants
  imports Voting Treasury Threshold_Keys
begin

text \<open>
  \<open>TreasuryExecutor\<close> (\<open>crates/adic-governance/src/treasury.rs\<close>): pays the grants that governance approved,
  at once, as a stream over epochs, or by milestones whose completion somebody attests. The executor shares the
  \<open>BalanceManager\<close>, which is part of its state. \<open>ord\<close> is the order of the keys of a \<open>HashMap\<close>;
  \<open>now\<close>, \<open>blake3\<close>, \<open>hex\<close>, the storage operations \<open>E\<close> and the pairing library \<open>T\<close> are arguments.
\<close>

section \<open>State\<close>

datatype grant_status = GrantPending | GrantActive | GrantPaused | GrantCompleted | GrantFailed | ClawedBack

record grant_state =
  gs_grant :: treasury_grant
  gs_disbursed :: adic_amount
  gs_next_milestone :: "u32 option"
  gs_status :: grant_status
  gs_start_epoch :: u64
  gs_last_epoch :: "u64 option"

record ('st, 'p, 's, 'k) treasury_executor =
  tx_balances :: "'st balance_manager"
  tx_treasury :: account_address
  tx_grants :: "bytes \<rightharpoonup> grant_state"
  tx_dkg :: "('p, 's, 'k) dkg_manager option"

type_synonym ('st, 'p, 's, 'k, 'a) grant_op = "(governance_error, ('st, 'p, 's, 'k) treasury_executor, 'a) rop"

definition treasury_executor_new :: "'st balance_manager \<Rightarrow> account_address \<Rightarrow> ('st, 'p, 's, 'k) treasury_executor" where
  "treasury_executor_new balances treasury =
     \<lparr>tx_balances = balances, tx_treasury = treasury, tx_grants = Map.empty, tx_dkg = None\<rparr>"

definition with_dkg_manager :: "('p, 's, 'k) dkg_manager \<Rightarrow> ('st, 'p, 's, 'k) treasury_executor \<Rightarrow>
    ('st, 'p, 's, 'k) treasury_executor" where
  "with_dkg_manager d x = x\<lparr>tx_dkg := Some d\<rparr>"

definition put_grant :: "bytes \<Rightarrow> grant_state \<Rightarrow> ('st, 'p, 's, 'k) treasury_executor \<Rightarrow>
    ('st, 'p, 's, 'k) treasury_executor" where
  "put_grant i g x = x\<lparr>tx_grants := (tx_grants x)(i \<mapsto> g)\<rparr>"

text \<open>\<open>balance_mgr.transfer(treasury, recipient, amount)\<close> with its error mapped.\<close>

definition pay_from_treasury :: "(bytes \<Rightarrow> bytes) \<Rightarrow> (bytes \<Rightarrow> string) \<Rightarrow> 'st econ_ops \<Rightarrow> i64 \<Rightarrow> public_key \<Rightarrow>
    adic_amount \<Rightarrow> ('st, 'p, 's, 'k, string) grant_op" where
  "pay_from_treasury blake3 hex E now recipient amount x =
     lift_op tx_balances (\<lambda>m x. x\<lparr>tx_balances := m\<rparr>) (\<lambda>_. TreasuryError)
       (transfer blake3 hex E now (tx_treasury x) (address_from_public_key blake3 recipient) amount) x"

section \<open>Starting a grant\<close>

definition execute_atomic_grant :: "(bytes \<Rightarrow> bytes) \<Rightarrow> (bytes \<Rightarrow> string) \<Rightarrow> 'st econ_ops \<Rightarrow> i64 \<Rightarrow> treasury_grant \<Rightarrow>
    ('st, 'p, 's, 'k, unit) grant_op" where
  "execute_atomic_grant blake3 hex E now grant =
     tryR (pay_from_treasury blake3 hex E now (tg_recipient grant) (tg_total_amount grant)) (\<lambda>_. okR ())"

definition initialize_streamed_grant :: "treasury_grant \<Rightarrow> u64 \<Rightarrow> ('st, 'p, 's, 'k, unit) grant_op" where
  "initialize_streamed_grant grant current_epoch =
     modR (put_grant (tg_proposal_id grant)
       \<lparr>gs_grant = grant, gs_disbursed = amt_from_adic 0, gs_next_milestone = None, gs_status = GrantActive,
        gs_start_epoch = current_epoch, gs_last_epoch = None\<rparr>)"

definition initialize_milestone_grant :: "treasury_grant \<Rightarrow> u64 \<Rightarrow> ('st, 'p, 's, 'k, unit) grant_op" where
  "initialize_milestone_grant grant current_epoch =
     (let first_milestone_id = (case tg_schedule grant of
            Milestone milestones \<Rightarrow> map_option ms_id (vget milestones 0)
          | _ \<Rightarrow> None)
      in modR (put_grant (tg_proposal_id grant)
           \<lparr>gs_grant = grant, gs_disbursed = amt_from_adic 0, gs_next_milestone = first_milestone_id,
            gs_status = GrantActive, gs_start_epoch = current_epoch, gs_last_epoch = None\<rparr>))"

definition execute_grant :: "(bytes \<Rightarrow> bytes) \<Rightarrow> (bytes \<Rightarrow> string) \<Rightarrow> 'st econ_ops \<Rightarrow> i64 \<Rightarrow> treasury_grant \<Rightarrow> u64 \<Rightarrow>
    ('st, 'p, 's, 'k, unit) grant_op" where
  "execute_grant blake3 hex E now grant current_epoch =
     (case tg_schedule grant of
        Atomic \<Rightarrow> execute_atomic_grant blake3 hex E now grant
      | Streamed _ _ \<Rightarrow> initialize_streamed_grant grant current_epoch
      | Milestone _ \<Rightarrow> initialize_milestone_grant grant current_epoch)"

section \<open>Paying\<close>

text \<open>\<open>state\<close> is a mutable reference into the map, so it comes back with the result.\<close>

definition disburse_tranche :: "(bytes \<Rightarrow> bytes) \<Rightarrow> (bytes \<Rightarrow> string) \<Rightarrow> 'st econ_ops \<Rightarrow> i64 \<Rightarrow> adic_amount \<Rightarrow> u64 \<Rightarrow>
    bytes \<Rightarrow> grant_state \<Rightarrow> ('st, 'p, 's, 'k, grant_state) grant_op" where
  "disburse_tranche blake3 hex E now amount current_epoch i state =
     tryR (pay_from_treasury blake3 hex E now (tg_recipient (gs_grant state)) amount) (\<lambda>_.
       case amt_checked_add (gs_disbursed state) amount of
         None \<Rightarrow> errR TreasuryError
       | Some disbursed \<Rightarrow>
           (let state' = state\<lparr>gs_disbursed := disbursed, gs_last_epoch := Some current_epoch\<rparr>
            in tryR (modR (put_grant i state')) (\<lambda>_. okR state')))"

definition set_status :: "bytes \<Rightarrow> grant_status \<Rightarrow> grant_state \<Rightarrow> ('st, 'p, 's, 'k, unit) grant_op" where
  "set_status i status state = modR (put_grant i (state\<lparr>gs_status := status\<rparr>))"

text \<open>The body of the loop over the grants.\<close>

definition process_grant :: "(bytes \<Rightarrow> bytes) \<Rightarrow> (bytes \<Rightarrow> string) \<Rightarrow> 'st econ_ops \<Rightarrow> i64 \<Rightarrow> u64 \<Rightarrow> bytes \<Rightarrow> grant_state \<Rightarrow>
    ('st, 'p, 's, 'k, unit) grant_op" where
  "process_grant blake3 hex E now current_epoch i state =
     (if gs_status state \<noteq> GrantActive then okR ()
      else case tg_schedule (gs_grant state) of
        Streamed rate_per_epoch duration_epochs \<Rightarrow>
          (let epochs_elapsed = sat_sub current_epoch (gs_start_epoch state) in
           if duration_epochs < epochs_elapsed then set_status i GrantCompleted state
           else case amt_checked_sub (tg_total_amount (gs_grant state)) (gs_disbursed state) of
             None \<Rightarrow> errR TreasuryError
           | Some remaining \<Rightarrow>
               (if rate_per_epoch \<le> remaining
                then tryR (disburse_tranche blake3 hex E now rate_per_epoch current_epoch i state) (\<lambda>state'.
                  if tg_total_amount (gs_grant state') \<le> gs_disbursed state' then set_status i GrantCompleted state'
                  else okR ())
                else if amt_from_adic 0 < remaining
                then tryR (disburse_tranche blake3 hex E now remaining current_epoch i state)
                       (set_status i GrantCompleted)
                else set_status i GrantCompleted state))
      | _ \<Rightarrow> okR ())"

fun process_grants :: "(bytes \<Rightarrow> bytes) \<Rightarrow> (bytes \<Rightarrow> string) \<Rightarrow> 'st econ_ops \<Rightarrow> i64 \<Rightarrow> u64 \<Rightarrow> bytes list \<Rightarrow>
    ('st, 'p, 's, 'k, unit) grant_op" where
  "process_grants blake3 hex E now current_epoch [] x = okR () x"
| "process_grants blake3 hex E now current_epoch (i # is) x =
     (case tx_grants x i of
        None \<Rightarrow> process_grants blake3 hex E now current_epoch is x
      | Some state \<Rightarrow>
          tryR (process_grant blake3 hex E now current_epoch i state) (\<lambda>_.
            process_grants blake3 hex E now current_epoch is) x)"

definition process_epoch :: "(bytes \<Rightarrow> bytes) \<Rightarrow> (bytes \<Rightarrow> string) \<Rightarrow> 'st econ_ops \<Rightarrow> i64 \<Rightarrow> bytes list \<Rightarrow> u64 \<Rightarrow>
    ('st, 'p, 's, 'k, unit) grant_op" where
  "process_epoch blake3 hex E now ord current_epoch = process_grants blake3 hex E now current_epoch ord"

section \<open>Milestones\<close>

text \<open>\<open>signers.len() as f64 / quorum_size as f64\<close> with an empty quorum is infinite or NaN, which is never below
  the threshold.\<close>

definition verify_quorum_signature :: "('p, 's, 'k, 'q, 'g, 'h) tc_lib \<Rightarrow> ('p, 's, 'k) dkg_manager option \<Rightarrow> milestone \<Rightarrow>
    bls_signature \<Rightarrow> public_key list \<Rightarrow> nat \<Rightarrow> bytes \<Rightarrow> f64 \<Rightarrow> u64 \<Rightarrow> governance_error + unit" where
  "verify_quorum_signature T dkg m signature signers quorum_size signed_message threshold current_epoch =
     (let bad = Inl (MilestoneVerificationFailed (ms_id m)) in
      if quorum_size \<noteq> 0 \<and> real (length signers) / real quorum_size < threshold then bad
      else case dkg of
        Some d \<Rightarrow>
          (case get_public_key_set d current_epoch of
             Inl _ \<Rightarrow> bad
           | Inr public_key_set \<Rightarrow>
               (case to_tc_signature T signature of
                  Inl _ \<Rightarrow> bad
                | Inr sig_tc \<Rightarrow>
                    (if \<not> tc_verify T public_key_set sig_tc (map of_char ''ADIC-GOV-MILESTONE-v1'' @ signed_message)
                     then bad else Inr ())))
      | None \<Rightarrow> Inr ())"

definition verify_automated_check_proof :: "milestone \<Rightarrow> bool \<Rightarrow> string \<Rightarrow> governance_error + unit" where
  "verify_automated_check_proof m passed evidence_cid =
     (if \<not> passed then Inl (MilestoneVerificationFailed (ms_id m))
      else if evidence_cid = '''' then Inl (MilestoneVerificationFailed (ms_id m))
      else Inr ())"

definition verify_oracle_proof :: "milestone \<Rightarrow> string \<Rightarrow> string \<Rightarrow> bool \<Rightarrow> governance_error + unit" where
  "verify_oracle_proof m expected_oracle_id proof_oracle_id result =
     (if proof_oracle_id \<noteq> expected_oracle_id then Inl (MilestoneVerificationFailed (ms_id m))
      else if \<not> result then Inl (MilestoneVerificationFailed (ms_id m))
      else Inr ())"

definition verify_pouw_completion :: "milestone \<Rightarrow> bytes \<Rightarrow> bytes \<Rightarrow> bool \<Rightarrow> f64 \<Rightarrow> f64 \<Rightarrow> governance_error + unit" where
  "verify_pouw_completion m expected_task_id proof_task_id completed quality_score min_quality =
     (if proof_task_id \<noteq> expected_task_id then Inl (MilestoneVerificationFailed (ms_id m))
      else if \<not> completed then Inl (MilestoneVerificationFailed (ms_id m))
      else if quality_score < min_quality then Inl (MilestoneVerificationFailed (ms_id m))
      else Inr ())"

definition verify_milestone_attestation :: "('p, 's, 'k, 'q, 'g, 'h) tc_lib \<Rightarrow> ('p, 's, 'k) dkg_manager option \<Rightarrow>
    milestone \<Rightarrow> bls_signature milestone_attestation \<Rightarrow> u64 \<Rightarrow> governance_error + unit" where
  "verify_milestone_attestation T dkg m attestation current_epoch =
     (if ma_deliverable_cid attestation \<noteq> ms_deliverable_cid m then Inl (MilestoneVerificationFailed (ms_id m))
      else case (ms_verification_scheme m, ma_proof attestation) of
        (QuorumAttestation threshold, QuorumSignature signature signers quorum_size signed_message) \<Rightarrow>
          verify_quorum_signature T dkg m signature signers quorum_size signed_message threshold current_epoch
      | (AutomatedCheck criteria, AutomatedCheckProof passed evidence_cid service_signature) \<Rightarrow>
          verify_automated_check_proof m passed evidence_cid
      | (OracleVerification oracle_id, OracleAttestation proof_oracle_id result oracle_signature oracle_data) \<Rightarrow>
          verify_oracle_proof m oracle_id proof_oracle_id result
      | (PoUWTaskVerification task_id min_quality,
         PoUWTaskCompletion proof_task_id completed quality_score receipt_id receipt_signature) \<Rightarrow>
          verify_pouw_completion m task_id proof_task_id completed quality_score min_quality
      | _ \<Rightarrow> Inl (MilestoneVerificationFailed (ms_id m)))"

text \<open>The index of the first milestone with an id, \<open>position\<close>, and the milestone after it.\<close>

fun milestone_after :: "u32 \<Rightarrow> milestone list \<Rightarrow> u32 option" where
  "milestone_after i [] = None"
| "milestone_after i (m # ms) =
     (if ms_id m = i then map_option ms_id (vget ms 0) else milestone_after i ms)"

definition complete_milestone :: "(bytes \<Rightarrow> bytes) \<Rightarrow> (bytes \<Rightarrow> string) \<Rightarrow> ('p, 's, 'k, 'q, 'g, 'h) tc_lib \<Rightarrow> 'st econ_ops \<Rightarrow>
    i64 \<Rightarrow> bytes \<Rightarrow> u32 \<Rightarrow> bls_signature milestone_attestation \<Rightarrow> u64 \<Rightarrow> ('st, 'p, 's, 'k, unit) grant_op" where
  "complete_milestone blake3 hex T E now grant_id milestone_id attestation current_epoch x =
     (let bad = MilestoneVerificationFailed milestone_id in
      if ma_milestone_id attestation \<noteq> milestone_id then errR bad x
      else if ma_grant_id attestation \<noteq> grant_id then errR bad x
      else case tx_grants x grant_id of
        None \<Rightarrow> errR TreasuryError x
      | Some state \<Rightarrow>
          (if gs_next_milestone state \<noteq> Some milestone_id then errR bad x
           else case tg_schedule (gs_grant state) of
             Milestone milestones \<Rightarrow>
               (case find (\<lambda>m. ms_id m = milestone_id) milestones of
                  None \<Rightarrow> errR bad x
                | Some m \<Rightarrow>
                    (if ms_deadline_epoch m < current_epoch
                     then (Inl bad, put_grant grant_id (state\<lparr>gs_status := GrantPaused\<rparr>) x)
                     else case verify_milestone_attestation T (tx_dkg x) m attestation current_epoch of
                       Inl e \<Rightarrow> errR e x
                     | Inr _ \<Rightarrow>
                         tryR (disburse_tranche blake3 hex E now (ms_amount m) current_epoch grant_id state) (\<lambda>state'.
                           let next_id = milestone_after milestone_id milestones;
                               state'' = state'\<lparr>gs_next_milestone := next_id\<rparr>
                           in modR (put_grant grant_id
                                (if next_id = None then state''\<lparr>gs_status := GrantCompleted\<rparr> else state''))) x))
           | _ \<Rightarrow> errR TreasuryError x))"

definition pause_grant :: "bytes \<Rightarrow> ('st, 'p, 's, 'k, unit) grant_op" where
  "pause_grant grant_id x =
     (case tx_grants x grant_id of
        None \<Rightarrow> errR TreasuryError x
      | Some state \<Rightarrow> okR () (put_grant grant_id (state\<lparr>gs_status := GrantPaused\<rparr>) x))"

definition clawback_grant :: "bytes \<Rightarrow> ('st, 'p, 's, 'k, adic_amount) grant_op" where
  "clawback_grant grant_id x =
     (case tx_grants x grant_id of
        None \<Rightarrow> errR TreasuryError x
      | Some state \<Rightarrow>
          (case amt_checked_sub (tg_total_amount (gs_grant state)) (gs_disbursed state) of
             None \<Rightarrow> errR TreasuryError x
           | Some remaining \<Rightarrow>
               okR remaining
                 (if amt_from_adic 0 < remaining
                  then put_grant grant_id (state\<lparr>gs_status := ClawedBack\<rparr>) x else x)))"

definition get_grant_state :: "bytes \<Rightarrow> ('st, 'p, 's, 'k) treasury_executor \<Rightarrow> grant_state option" where
  "get_grant_state grant_id x = tx_grants x grant_id"

section \<open>Streams stay within their total\<close>

datatype grant_cmd =
    ExecuteGrant i64 treasury_grant u64
  | ProcessEpoch i64 "bytes list" u64
  | CompleteMilestone i64 bytes u32 "bls_signature milestone_attestation" u64
  | PauseGrant bytes
  | ClawbackGrant bytes

primrec grant_exec :: "(bytes \<Rightarrow> bytes) \<Rightarrow> (bytes \<Rightarrow> string) \<Rightarrow> ('p, 's, 'k, 'q, 'g, 'h) tc_lib \<Rightarrow> 'st econ_ops \<Rightarrow>
    grant_cmd \<Rightarrow> ('st, 'p, 's, 'k) treasury_executor \<Rightarrow> ('st, 'p, 's, 'k) treasury_executor" where
  "grant_exec blake3 hex T E (ExecuteGrant now grant epoch) x = snd (execute_grant blake3 hex E now grant epoch x)"
| "grant_exec blake3 hex T E (ProcessEpoch now ord epoch) x = snd (process_epoch blake3 hex E now ord epoch x)"
| "grant_exec blake3 hex T E (CompleteMilestone now i m att epoch) x =
     snd (complete_milestone blake3 hex T E now i m att epoch x)"
| "grant_exec blake3 hex T E (PauseGrant i) x = snd (pause_grant i x)"
| "grant_exec blake3 hex T E (ClawbackGrant i) x = snd (clawback_grant i x)"

definition grant_run :: "(bytes \<Rightarrow> bytes) \<Rightarrow> (bytes \<Rightarrow> string) \<Rightarrow> ('p, 's, 'k, 'q, 'g, 'h) tc_lib \<Rightarrow> 'st econ_ops \<Rightarrow>
    'st balance_manager \<Rightarrow> account_address \<Rightarrow> grant_cmd list \<Rightarrow> ('st, 'p, 's, 'k) treasury_executor" where
  "grant_run blake3 hex T E balances treasury cmds =
     foldl (\<lambda>x cmd. grant_exec blake3 hex T E cmd x) (treasury_executor_new balances treasury) cmds"

definition is_streamed :: "grant_state \<Rightarrow> bool" where
  "is_streamed g \<longleftrightarrow> (case tg_schedule (gs_grant g) of Streamed _ _ \<Rightarrow> True | _ \<Rightarrow> False)"

definition stream_ok :: "grant_state \<Rightarrow> bool" where
  "stream_ok g \<longleftrightarrow> (is_streamed g \<longrightarrow> gs_disbursed g \<le> tg_total_amount (gs_grant g))"

definition executor_ok :: "('st, 'p, 's, 'k) treasury_executor \<Rightarrow> bool" where
  "executor_ok x \<longleftrightarrow> (\<forall>i g. tx_grants x i = Some g \<longrightarrow> stream_ok g)"

lemma amt_from_adic_0 [simp]: "amt_from_adic 0 = ADIC_ZERO"
  by (simp add: amt_from_adic_def ADIC_ZERO_def f64_as_u64_def)

lemma executor_ok_put: "executor_ok x \<Longrightarrow> stream_ok g \<Longrightarrow> executor_ok (put_grant i g x)"
  by (simp add: executor_ok_def put_grant_def)

lemma tx_grants_put [simp]: "tx_grants (put_grant i g x) = (tx_grants x)(i \<mapsto> g)"
  by (simp add: put_grant_def)

lemma pay_grants: "pay_from_treasury blake3 hex E now pk amount x = (r, y) \<Longrightarrow> tx_grants y = tx_grants x"
  by (auto simp: pay_from_treasury_def lift_op_def split: prod.splits)

lemma executor_ok_cong: "tx_grants y = tx_grants x \<Longrightarrow> executor_ok x \<Longrightarrow> executor_ok y"
  by (simp add: executor_ok_def)

lemma disburse_cases:
  assumes "disburse_tranche blake3 hex E now amount epoch i g x = (r, y)"
  obtains (Err) e where "r = Inl e" "tx_grants y = tx_grants x"
  | (Ok) d where "amt_checked_add (gs_disbursed g) amount = Some d"
      "r = Inr (g\<lparr>gs_disbursed := d, gs_last_epoch := Some epoch\<rparr>)"
      "tx_grants y = (tx_grants x)(i \<mapsto> g\<lparr>gs_disbursed := d, gs_last_epoch := Some epoch\<rparr>)"
proof (cases "pay_from_treasury blake3 hex E now (tg_recipient (gs_grant g)) amount x")
  case (Pair p z)
  then have z: "tx_grants z = tx_grants x"
    by (rule pay_grants)
  show ?thesis
  proof (cases p)
    case (Inl e)
    then show ?thesis
      using assms Pair z Err by (auto simp: disburse_tranche_def)
  next
    case (Inr s)
    show ?thesis
    proof (cases "amt_checked_add (gs_disbursed g) amount")
      case None
      then show ?thesis
        using assms Pair Inr z Err by (auto simp: disburse_tranche_def)
    next
      case (Some d)
      then show ?thesis
        using assms Pair Inr z Ok by (auto simp: disburse_tranche_def Let_def)
    qed
  qed
qed

lemma stream_ok_disburse:
  assumes "amt_checked_sub (tg_total_amount (gs_grant g)) (gs_disbursed g) = Some remaining" and "amount \<le> remaining"
    and "amt_checked_add (gs_disbursed g) amount = Some d"
  shows "stream_ok (g\<lparr>gs_disbursed := d, gs_last_epoch := e\<rparr>)"
proof -
  have "units d = units (gs_disbursed g) + units amount"
    using assms(3) by (simp add: amt_checked_add_Some_iff)
  moreover have "units (gs_disbursed g) \<le> units (tg_total_amount (gs_grant g))"
      "units remaining = units (tg_total_amount (gs_grant g)) - units (gs_disbursed g)"
    using assms(1) by (simp_all add: amt_checked_sub_Some_iff amount_le_iff)
  ultimately have "units d \<le> units (tg_total_amount (gs_grant g))"
    using assms(2) by (simp add: amount_le_iff)
  then show ?thesis by (simp add: stream_ok_def amount_le_iff)
qed

lemma stream_ok_status [simp]: "stream_ok (g\<lparr>gs_status := s\<rparr>) = stream_ok g"
  by (simp add: stream_ok_def is_streamed_def)

lemma disburse_ok:
  assumes "executor_ok x" and "amt_checked_sub (tg_total_amount (gs_grant g)) (gs_disbursed g) = Some remaining"
    and "amount \<le> remaining" and "disburse_tranche blake3 hex E now amount epoch i g x = (r, y)"
  shows "executor_ok y \<and> (\<forall>g'. r = Inr g' \<longrightarrow> stream_ok g')"
  using assms(4)
proof (cases rule: disburse_cases)
  case Err
  then show ?thesis using assms(1) executor_ok_cong by blast
next
  case (Ok d)
  have "stream_ok (g\<lparr>gs_disbursed := d, gs_last_epoch := Some epoch\<rparr>)"
    by (rule stream_ok_disburse [OF assms(2,3) Ok(1)])
  then show ?thesis
    using Ok(2,3) assms(1) by (auto simp: executor_ok_def)
qed

lemma process_grant_ok:
  assumes "executor_ok x" and "stream_ok g"
  shows "executor_ok (snd (process_grant blake3 hex E now epoch i g x))"
proof (cases "gs_status g = GrantActive \<and> is_streamed g")
  case True
  then obtain rate duration where schedule: "tg_schedule (gs_grant g) = Streamed rate duration"
    by (auto simp: is_streamed_def split: grant_schedule.splits)
  show ?thesis
  proof (cases "amt_checked_sub (tg_total_amount (gs_grant g)) (gs_disbursed g)")
    case None
    with True schedule assms show ?thesis
      by (simp add: process_grant_def set_status_def Let_def executor_ok_put)
  next
    case (Some remaining)
    let ?d = "\<lambda>amount. disburse_tranche blake3 hex E now amount epoch i g x"
    have paid: "executor_ok (snd (tryR (\<lambda>x. ?d amount) k x))"
      if "amount \<le> remaining" "\<And>g' y. executor_ok y \<Longrightarrow> stream_ok g' \<Longrightarrow> executor_ok (snd (k g' y))" for amount k
      using disburse_ok [OF assms(1) Some that(1), of blake3 hex E now epoch i "fst (?d amount)" "snd (?d amount)"] that(2)
      by (auto simp: tryR_def split: prod.split sum.split)
    show ?thesis
      using True schedule Some assms
        paid [of rate "\<lambda>g'. if tg_total_amount (gs_grant g') \<le> gs_disbursed g' then set_status i GrantCompleted g' else okR ()"]
        paid [of remaining "set_status i GrantCompleted"]
      by (simp add: process_grant_def set_status_def Let_def tryR_def executor_ok_put)
  qed
qed (use assms in \<open>auto simp: process_grant_def is_streamed_def split: grant_schedule.splits\<close>)

lemma process_grants_ok: "executor_ok x \<Longrightarrow> executor_ok (snd (process_grants blake3 hex E now epoch is x))"
proof (induction "is" arbitrary: x)
  case (Cons i "is")
  show ?case
  proof (cases "tx_grants x i")
    case (Some g)
    let ?r = "process_grant blake3 hex E now epoch i g x"
    have "executor_ok (snd ?r)"
      using Cons.prems Some by (intro process_grant_ok) (simp_all add: executor_ok_def)
    then have "executor_ok (snd (process_grants blake3 hex E now epoch is (snd ?r)))"
      by (rule Cons.IH)
    then show ?thesis
      using \<open>executor_ok (snd ?r)\<close> Some by (cases ?r) (auto simp: tryR_def split: sum.split)
  qed (use Cons in simp)
qed simp

lemma complete_milestone_grants:
  assumes "complete_milestone blake3 hex T E now i m att epoch x = (r, y)"
  shows "tx_grants y = tx_grants x \<or> (\<exists>g g'. tx_grants x i = Some g \<and> tx_grants y = (tx_grants x)(i \<mapsto> g') \<and>
    gs_grant g' = gs_grant g \<and> (gs_disbursed g' = gs_disbursed g \<or> \<not> is_streamed g))"
proof (cases "tx_grants x i")
  case None
  then show ?thesis using assms by (auto simp: complete_milestone_def Let_def split: if_splits)
next
  case (Some g)
  show ?thesis
  proof (cases "\<exists>ms. tg_schedule (gs_grant g) = Milestone ms")
    case False
    then show ?thesis
      using assms Some by (auto simp: complete_milestone_def Let_def split: if_splits grant_schedule.splits)
  next
    case True
    then obtain ms where ms: "tg_schedule (gs_grant g) = Milestone ms" by blast
    then have streamed: "\<not> is_streamed g" by (simp add: is_streamed_def)
    show ?thesis
    proof (cases "find (\<lambda>m'. ms_id m' = m) ms")
      case None
      then show ?thesis
        using assms Some ms by (auto simp: complete_milestone_def Let_def split: if_splits)
    next
      case (Some m')
      show ?thesis
      proof (cases "disburse_tranche blake3 hex E now (ms_amount m') epoch i g x")
        case (Pair d z)
        from this show ?thesis
          by (cases rule: disburse_cases)
            (use assms \<open>tx_grants x i = Some g\<close> Some ms streamed Pair in
              \<open>auto simp: complete_milestone_def Let_def tryR_def put_grant_def split: if_splits sum.splits\<close>)
      qed
    qed
  qed
qed

lemma grant_exec_ok:
  assumes "executor_ok x"
  shows "executor_ok (grant_exec blake3 hex T E cmd x)"
proof (cases cmd)
  case (ExecuteGrant now grant epoch)
  obtain r y where r: "execute_grant blake3 hex E now grant epoch x = (r, y)" by force
  have "executor_ok y"
  proof (cases "tg_schedule grant")
    case Atomic
    then have "tx_grants y = tx_grants x"
      using r by (auto simp: execute_grant_def execute_atomic_grant_def tryR_def dest: pay_grants split: prod.splits sum.splits)
    then show ?thesis using assms by (rule executor_ok_cong)
  qed (use r assms in \<open>auto simp: execute_grant_def initialize_streamed_grant_def initialize_milestone_grant_def Let_def
        executor_ok_def stream_ok_def is_streamed_def amount_le_iff split: if_splits\<close>)
  with r show ?thesis by (simp add: ExecuteGrant)
next
  case (ProcessEpoch now ord epoch)
  with assms show ?thesis by (simp add: process_epoch_def process_grants_ok)
next
  case (CompleteMilestone now i m att epoch)
  obtain r y where r: "complete_milestone blake3 hex T E now i m att epoch x = (r, y)" by force
  have "executor_ok y"
    using complete_milestone_grants [OF r] assms
    by (auto simp: executor_ok_def stream_ok_def is_streamed_def split: if_splits)
  with r show ?thesis by (simp add: CompleteMilestone)
qed (use assms in \<open>auto simp: pause_grant_def clawback_grant_def executor_ok_def split: option.split\<close>)


definition demo_grant :: "treasury_grant" where
  "demo_grant = \<lparr>tg_recipient = [1], tg_total_amount = AdicAmount 10, tg_schedule = Streamed (AdicAmount 4) 5,
     tg_proposal_id = [9]\<rparr>"


lemma pay_put_grant:
  "pay_from_treasury blake3 hex E now pk amount (put_grant i g x) =
     map_prod id (put_grant i g) (pay_from_treasury blake3 hex E now pk amount x)"
  by (simp add: pay_from_treasury_def lift_op_def put_grant_def split: prod.split)

lemma disburse_eq:
  "disburse_tranche blake3 hex E now amount epoch i g x =
     (case pay_from_treasury blake3 hex E now (tg_recipient (gs_grant g)) amount x of
        (Inl e, y) \<Rightarrow> (Inl e, y)
      | (Inr _, y) \<Rightarrow>
          (case amt_checked_add (gs_disbursed g) amount of
             None \<Rightarrow> (Inl TreasuryError, y)
           | Some d \<Rightarrow> (Inr (g\<lparr>gs_disbursed := d, gs_last_epoch := Some epoch\<rparr>),
               put_grant i (g\<lparr>gs_disbursed := d, gs_last_epoch := Some epoch\<rparr>) y)))"
  by (auto simp: disburse_tranche_def tryR_def Let_def split: prod.split sum.split option.split)

lemma put_grant_fields [simp]: "tx_balances (put_grant i g x) = tx_balances x" "tx_dkg (put_grant i g x) = tx_dkg x"
  by (simp_all add: put_grant_def)

text \<open>The status of a grant does not matter for its milestones: completing one has the same result and pays
  the same from the treasury whether the grant is active, paused, completed or clawed back.\<close>

theorem milestone_ignores_status:
  "map_prod id tx_balances
     (complete_milestone blake3 hex T E now i m att epoch (put_grant i (g\<lparr>gs_status := s\<rparr>) x)) =
   map_prod id tx_balances (complete_milestone blake3 hex T E now i m att epoch (put_grant i g x))"
proof -
  have step: "map_prod id tx_balances (tryR (disburse_tranche blake3 hex E now amount epoch i (g\<lparr>gs_status := s\<rparr>)) k
      (put_grant i (g\<lparr>gs_status := s\<rparr>) x)) =
    map_prod id tx_balances (tryR (disburse_tranche blake3 hex E now amount epoch i g) k (put_grant i g x))"
    if "\<And>g' y. map_prod id tx_balances (k g' y) = (Inr (), tx_balances y)" for amount k
    using that
    by (cases "pay_from_treasury blake3 hex E now (tg_recipient (gs_grant g)) amount x")
      (auto simp: disburse_eq pay_put_grant tryR_def split: sum.split option.split)
  show ?thesis
  proof (cases "tg_schedule (gs_grant g)")
    case (Milestone ms)
    show ?thesis
    proof (cases "find (\<lambda>m'. ms_id m' = m) ms")
      case (Some m')
      let ?k = "\<lambda>state'. modR (put_grant i (if milestone_after m ms = None
          then state'\<lparr>gs_next_milestone := milestone_after m ms, gs_status := GrantCompleted\<rparr>
          else state'\<lparr>gs_next_milestone := milestone_after m ms\<rparr>))"
      show ?thesis
        using step [of ?k "ms_amount m'"] Milestone Some
        by (simp add: complete_milestone_def Let_def split: sum.split)
    qed (use Milestone in \<open>simp add: complete_milestone_def Let_def\<close>)
  qed (simp_all add: complete_milestone_def Let_def)
qed

end
