(* ===== verification/Bls_Coordinator.thy ===== *)
theory Bls_Coordinator
  imports Threshold_Keys Quorum
begin

text \<open>
  \<open>BLSCoordinator\<close> (\<open>crates/adic-pouw/src/bls_coordinator.rs\<close>): sessions that collect the signature
  shares of a committee and combine them at the threshold. \<open>now\<close> is the reading of the monotonic clock,
  \<open>hex\<close> and \<open>dec\<close> print bytes and numbers. \<open>session.shares.values()\<close> comes in the order \<open>ord\<close> of the
  keys. The error type of the crate (\<open>crates/adic-pouw/src/error.rs\<close>) is here, without the texts it
  carries and with the panics of the crate's operations as \<open>PouwPanic\<close>.
\<close>

datatype pouw_error =
    TaskNotFound | WorkerNotEligible | PouwInsufficientReputation f64 f64 | InsufficientCollateral
  | DeadlineExceeded u64 u64 | InvalidTaskState | WorkerAlreadyAssigned | ValidationFailed
  | QuorumNotReached nat nat | FraudDetected | ChallengePeriodActive u64 | ResultAlreadySubmitted
  | InvalidExecutionProof | ResourceLimitExceeded | PouwEscrowError | PouwVRFError | PouwQuorumError
  | PouwChallengeError | PouwReputationError | PouwSerializationError | InvalidTaskInput | AppCommonError
  | VRFServiceError vrf_error | QuorumServiceError quorum_error | ChallengeServiceError
  | PouwStorageError | TaskNotFoundInStorage | InputNotFound | StorageNotConfigured | ReExecutionRequired
  | InsufficientCommitteeSize nat nat | SigningRequestNotFound | SigningSessionCompleted
  | SigningDeadlineExpired | UnauthorizedSigner public_key | BLSFailure bls_error | UnsupportedTaskType
  | PouwOther | PouwPanic panic

section \<open>State\<close>

definition DST_COMMITTEE_CERT :: string where
  "DST_COMMITTEE_CERT = ''ADIC-PoUW-COMMITTEE-v1''"

definition DST_TASK_RECEIPT :: string where
  "DST_TASK_RECEIPT = ''ADIC-PoUW-RECEIPT-v1''"

record bls_coordinator_config =
  bo_collection_timeout :: int
  bo_threshold :: nat
  bo_total_members :: nat

definition bls_coordinator_config_default :: bls_coordinator_config where
  "bls_coordinator_config_default = \<lparr>bo_collection_timeout = 60000, bo_threshold = 10, bo_total_members = 15\<rparr>"

text \<open>\<open>&data_hash[..8]\<close> panics on fewer than eight bytes; the callers pass digests of 32 bytes.\<close>

definition signing_request_id :: "(bytes \<Rightarrow> string) \<Rightarrow> (u64 \<Rightarrow> string) \<Rightarrow> string \<Rightarrow> u64 \<Rightarrow> bytes \<Rightarrow> string" where
  "signing_request_id hex dec tag epoch data_hash =
     tag @ ''-'' @ dec epoch @ ''-'' @ hex (take 8 data_hash)"

record signing_request =
  sq_request_id :: string
  sq_message :: bytes
  sq_dst :: bytes
  sq_committee :: "public_key list"
  sq_threshold :: nat
  sq_deadline :: int

record collection_session =
  cs_request :: signing_request
  cs_shares :: "public_key \<rightharpoonup> bls_signature_share"
  cs_created_at :: int
  cs_completed :: bool

record ('p, 's, 'k) bls_coordinator =
  bl_config :: bls_coordinator_config
  bl_dkg :: "('p, 's, 'k) dkg_manager option"
  bl_key_set :: "'k option"
  bl_sessions :: "string \<rightharpoonup> collection_session"

type_synonym ('p, 's, 'k, 'a) bls_op = "(pouw_error, ('p, 's, 'k) bls_coordinator, 'a) rop"

definition bls_coordinator_new :: "bls_coordinator_config \<Rightarrow> ('p, 's, 'k) bls_coordinator" where
  "bls_coordinator_new config =
     \<lparr>bl_config = config, bl_dkg = None, bl_key_set = None, bl_sessions = Map.empty\<rparr>"

definition with_dkg :: "bls_coordinator_config \<Rightarrow> ('p, 's, 'k) dkg_manager \<Rightarrow> ('p, 's, 'k) bls_coordinator" where
  "with_dkg config d = (bls_coordinator_new config)\<lparr>bl_dkg := Some d\<rparr>"

section \<open>Operations\<close>

definition set_public_key_set :: "'k \<Rightarrow> ('p, 's, 'k) bls_coordinator \<Rightarrow> ('p, 's, 'k) bls_coordinator" where
  "set_public_key_set pk_set b = b\<lparr>bl_key_set := Some pk_set\<rparr>"

definition has_public_key_set :: "('p, 's, 'k) bls_coordinator \<Rightarrow> bool" where
  "has_public_key_set b \<longleftrightarrow> bl_key_set b \<noteq> None"

definition pouw_dkg_error :: "bls_error option \<Rightarrow> pouw_error" where
  "pouw_dkg_error e = (case e of None \<Rightarrow> PouwOther | Some x \<Rightarrow> BLSFailure x)"

definition sign_with_share :: "('p, 's, 'k, 'q, 'g, 'h) tc_lib \<Rightarrow> ('p, 's, 'k) bls_coordinator \<Rightarrow> u64 \<Rightarrow> nat \<Rightarrow>
    bytes \<Rightarrow> bytes \<Rightarrow> pouw_error + bls_signature_share" where
  "sign_with_share T b epoch_id participant_id message dst =
     bindE (option_or PouwOther (bl_dkg b)) (\<lambda>d.
     bindE (map_sum pouw_dkg_error id (get_secret_share d epoch_id)) (\<lambda>secret_share.
       map_sum BLSFailure id (sign_share T secret_share participant_id message dst)))"

definition initiate_signing :: "int \<Rightarrow> string \<Rightarrow> bytes \<Rightarrow> bytes \<Rightarrow> public_key list \<Rightarrow>
    ('p, 's, 'k, signing_request) bls_op" where
  "initiate_signing now request_id message dst committee b =
     (if length committee < bo_threshold (bl_config b)
      then errR (InsufficientCommitteeSize (bo_threshold (bl_config b)) (length committee)) b
      else
        (let request = \<lparr>sq_request_id = request_id, sq_message = message, sq_dst = dst, sq_committee = committee,
               sq_threshold = bo_threshold (bl_config b),
               sq_deadline = now + bo_collection_timeout (bl_config b)\<rparr>;
             session = \<lparr>cs_request = request, cs_shares = Map.empty, cs_created_at = now, cs_completed = False\<rparr>
         in okR request (b\<lparr>bl_sessions := (bl_sessions b)(request_id \<mapsto> session)\<rparr>)))"

text \<open>The loop that decodes the shares.\<close>

definition tc_share_pair :: "('p, 's, 'k, 'q, 'g, 'h) tc_lib \<Rightarrow> bls_signature_share \<Rightarrow> pouw_error + nat \<times> 'h" where
  "tc_share_pair T share =
     bindE (map_sum BLSFailure id (to_tc_signature_share T share)) (\<lambda>s. Inr (ss_participant_id share, s))"

definition aggregate_shares :: "('p, 's, 'k, 'q, 'g, 'h) tc_lib \<Rightarrow> ('p, 's, 'k) bls_coordinator \<Rightarrow>
    bls_signature_share list \<Rightarrow> pouw_error + bls_signature" where
  "aggregate_shares T b shares =
     bindE (option_or (BLSFailure ThresholdCryptoError) (bl_key_set b)) (\<lambda>pk_set.
     bindE (mapE (tc_share_pair T) shares) (\<lambda>tc_shares.
     bindE (option_or (BLSFailure ThresholdCryptoError) (tc_combine T pk_set tc_shares)) (\<lambda>aggregated.
       Inr (from_tc_signature T aggregated))))"

definition put_session :: "string \<Rightarrow> collection_session \<Rightarrow> ('p, 's, 'k) bls_coordinator \<Rightarrow> ('p, 's, 'k) bls_coordinator" where
  "put_session r s b = b\<lparr>bl_sessions := (bl_sessions b)(r \<mapsto> s)\<rparr>"

definition share_values :: "public_key list \<Rightarrow> collection_session \<Rightarrow> bls_signature_share list" where
  "share_values ord s = List.map_filter (cs_shares s) ord"

definition submit_share :: "('p, 's, 'k, 'q, 'g, 'h) tc_lib \<Rightarrow> public_key list \<Rightarrow> int \<Rightarrow> string \<Rightarrow> public_key \<Rightarrow>
    bls_signature_share \<Rightarrow> ('p, 's, 'k, bls_signature option) bls_op" where
  "submit_share T ord now request_id signer_pk share b =
     (case bl_sessions b request_id of
        None \<Rightarrow> errR SigningRequestNotFound b
      | Some session \<Rightarrow>
          (if cs_completed session then errR SigningSessionCompleted b
           else if sq_deadline (cs_request session) < now then errR SigningDeadlineExpired b
           else if signer_pk \<notin> set (sq_committee (cs_request session)) then errR (UnauthorizedSigner signer_pk) b
           else if cs_shares session signer_pk \<noteq> None then okR None b
           else
             (let session' = session\<lparr>cs_shares := (cs_shares session)(signer_pk \<mapsto> share)\<rparr>;
                  b' = put_session request_id session' b
              in if sq_threshold (cs_request session) \<le> card (dom (cs_shares session'))
                 then (case aggregate_shares T b (share_values ord session') of
                         Inl e \<Rightarrow> errR e b'
                       | Inr aggregated \<Rightarrow>
                           okR (Some aggregated) (put_session request_id (session'\<lparr>cs_completed := True\<rparr>) b'))
                 else okR None b')))"

record signing_status =
  st_request_id :: string
  st_shares_collected :: nat
  st_threshold :: nat
  st_committee_size :: nat
  st_completed :: bool
  st_elapsed :: int
  st_time_remaining :: int

definition get_status :: "int \<Rightarrow> string \<Rightarrow> ('p, 's, 'k) bls_coordinator \<Rightarrow> pouw_error + signing_status" where
  "get_status now request_id b =
     (case bl_sessions b request_id of
        None \<Rightarrow> Inl SigningRequestNotFound
      | Some session \<Rightarrow>
          Inr \<lparr>st_request_id = request_id, st_shares_collected = card (dom (cs_shares session)),
            st_threshold = sq_threshold (cs_request session),
            st_committee_size = length (sq_committee (cs_request session)), st_completed = cs_completed session,
            st_elapsed = now - cs_created_at session,
            st_time_remaining = (if now \<le> sq_deadline (cs_request session)
              then sq_deadline (cs_request session) - now else 0)\<rparr>)"

definition get_aggregated_signature :: "('p, 's, 'k, 'q, 'g, 'h) tc_lib \<Rightarrow> public_key list \<Rightarrow> string \<Rightarrow>
    ('p, 's, 'k) bls_coordinator \<Rightarrow> pouw_error + bls_signature option" where
  "get_aggregated_signature T ord request_id b =
     (case bl_sessions b request_id of
        None \<Rightarrow> Inl SigningRequestNotFound
      | Some session \<Rightarrow>
          (if \<not> cs_completed session then Inr None
           else bindE (aggregate_shares T b (share_values ord session)) (\<lambda>a. Inr (Some a))))"

definition cleanup_expired :: "int \<Rightarrow> ('p, 's, 'k) bls_coordinator \<Rightarrow> ('p, 's, 'k) bls_coordinator" where
  "cleanup_expired now b =
     b\<lparr>bl_sessions := (\<lambda>r. case bl_sessions b r of
          None \<Rightarrow> None
        | Some session \<Rightarrow>
            (if now < sq_deadline (cs_request session) \<or> \<not> cs_completed session then Some session else None))\<rparr>"

section \<open>Runs\<close>

datatype 'k bls_cmd =
    SetKeys 'k
  | Initiate int string bytes bytes "public_key list"
  | Submit "public_key list" int string public_key bls_signature_share
  | Cleanup int

primrec bls_exec :: "('p, 's, 'k, 'q, 'g, 'h) tc_lib \<Rightarrow> 'k bls_cmd \<Rightarrow> ('p, 's, 'k) bls_coordinator \<Rightarrow>
    ('p, 's, 'k) bls_coordinator" where
  "bls_exec T (SetKeys k) b = set_public_key_set k b"
| "bls_exec T (Initiate now r msg dst committee) b = snd (initiate_signing now r msg dst committee b)"
| "bls_exec T (Submit ord now r pk share) b = snd (submit_share T ord now r pk share b)"
| "bls_exec T (Cleanup now) b = cleanup_expired now b"

definition bls_run :: "('p, 's, 'k, 'q, 'g, 'h) tc_lib \<Rightarrow> bls_coordinator_config \<Rightarrow> 'k bls_cmd list \<Rightarrow>
    ('p, 's, 'k) bls_coordinator" where
  "bls_run T config cmds = foldl (\<lambda>b cmd. bls_exec T cmd b) (bls_coordinator_new config) cmds"

text \<open>What holds of a session after the commands \<open>cmds\<close>.\<close>

definition session_ok :: "'k bls_cmd list \<Rightarrow> nat \<Rightarrow> string \<Rightarrow> collection_session \<Rightarrow> bool" where
  "session_ok cmds t r s \<longleftrightarrow>
     sq_threshold (cs_request s) = t \<and> t \<le> length (sq_committee (cs_request s)) \<and>
     (\<forall>pk share. cs_shares s pk = Some share \<longrightarrow>
        pk \<in> set (sq_committee (cs_request s)) \<and> (\<exists>ord now. Submit ord now r pk share \<in> set cmds)) \<and>
     (cs_completed s \<longrightarrow> t \<le> card (dom (cs_shares s)))"

definition coordinator_ok :: "'k bls_cmd list \<Rightarrow> bls_coordinator_config \<Rightarrow> ('p, 's, 'k) bls_coordinator \<Rightarrow> bool" where
  "coordinator_ok cmds config b \<longleftrightarrow> bl_config b = config \<and>
     (\<forall>r s. bl_sessions b r = Some s \<longrightarrow> session_ok cmds (bo_threshold config) r s)"

lemma session_ok_mono: "session_ok cmds t r s \<Longrightarrow> set cmds \<subseteq> set cmds' \<Longrightarrow> session_ok cmds' t r s"
  unfolding session_ok_def by blast

lemma coordinator_ok_mono: "coordinator_ok cmds config b \<Longrightarrow> set cmds \<subseteq> set cmds' \<Longrightarrow> coordinator_ok cmds' config b"
  unfolding coordinator_ok_def using session_ok_mono by blast

lemma coordinator_ok_put:
  "coordinator_ok cmds config b \<Longrightarrow> session_ok cmds (bo_threshold config) r s \<Longrightarrow>
   coordinator_ok cmds config (put_session r s b)"
  by (auto simp: coordinator_ok_def put_session_def)

lemma submit_share_ok:
  assumes "coordinator_ok cmds config b" and "Submit ord now r pk share \<in> set cmds"
  shows "coordinator_ok cmds config (snd (submit_share T ord now r pk share b))"
proof (cases "bl_sessions b r")
  case None
  with assms show ?thesis by (simp add: submit_share_def)
next
  case (Some s)
  let ?s = "s\<lparr>cs_shares := (cs_shares s)(pk \<mapsto> share)\<rparr>"
  have s: "session_ok cmds (bo_threshold config) r s"
    using assms(1) Some by (simp add: coordinator_ok_def)
  have stored: "session_ok cmds (bo_threshold config) r ?s"
    if "pk \<in> set (sq_committee (cs_request s))" "\<not> cs_completed s"
    using s that assms(2) by (auto simp: session_ok_def)
  then have "session_ok cmds (bo_threshold config) r (?s\<lparr>cs_completed := True\<rparr>)"
    if "pk \<in> set (sq_committee (cs_request s))" "\<not> cs_completed s"
      "sq_threshold (cs_request s) \<le> card (dom (cs_shares ?s))"
    using that by (auto simp: session_ok_def)
  with stored Some assms(1) show ?thesis
    by (auto simp: submit_share_def Let_def intro!: coordinator_ok_put split: sum.split)
qed

lemma bls_exec_ok:
  assumes "coordinator_ok cmds config b" and "cmd \<in> set cmds"
  shows "coordinator_ok cmds config (bls_exec T cmd b)"
proof (cases cmd)
  case (Submit ord now r pk share)
  with assms show ?thesis by (simp add: submit_share_ok)
qed (use assms in \<open>auto simp: coordinator_ok_def session_ok_def set_public_key_set_def initiate_signing_def
      cleanup_expired_def Let_def split: option.splits if_splits\<close>)

lemma bls_run_ok: "coordinator_ok cmds config (bls_run T config cmds)"
  unfolding bls_run_def
  by (rule foldl_invariant) (simp_all add: bls_exec_ok, simp add: coordinator_ok_def bls_coordinator_new_def)

lemma mapE_Inr_iff: "mapE f xs = Inr ys \<longleftrightarrow> list_all2 (\<lambda>x y. f x = Inr y) xs ys"
  by (induction xs arbitrary: ys) (auto simp: bindE_Inr_iff list_all2_Cons1)

lemma aggregate_shares_ok:
  "aggregate_shares T b shares = Inr sig \<longleftrightarrow>
     (\<exists>keys ps g. bl_key_set b = Some keys \<and> list_all2 (\<lambda>sh p. tc_share_pair T sh = Inr p) shares ps \<and>
       tc_combine T keys ps = Some g \<and> sig = from_tc_signature T g)"
  by (auto simp: aggregate_shares_def bindE_Inr_iff option_or_Inr_iff mapE_Inr_iff)

lemma submit_share_signature:
  assumes "submit_share T ord now r pk share b = (Inr (Some sig), b')"
  obtains s s' where "bl_sessions b r = Some s" "\<not> cs_completed s" "now \<le> sq_deadline (cs_request s)"
    "pk \<in> set (sq_committee (cs_request s))" "s' = s\<lparr>cs_shares := (cs_shares s)(pk \<mapsto> share)\<rparr>"
    "sq_threshold (cs_request s) \<le> card (dom (cs_shares s'))"
    "aggregate_shares T b (share_values ord s') = Inr sig"
    "bl_sessions b' r = Some (s'\<lparr>cs_completed := True\<rparr>)"
  using assms by (auto simp: submit_share_def put_session_def Let_def not_less split: option.splits if_splits sum.splits)

text \<open>C23: A signature comes out of a session only from enough members of its committee: when, after any run
  of the coordinator, \<open>submit_share\<close> returns a signature, there are at least \<open>threshold\<close> different members of
  the committee, each of whom submitted a share in this session, and the signature is what the library makes
  of exactly these shares and the configured key set.\<close>

theorem signature_needs_threshold:
  assumes submit: "submit_share T ord now r pk share (bls_run T config cmds) = (Inr (Some sig), b')"
    and order: "distinct ord" "bl_sessions b' r = Some s'" "set ord = dom (cs_shares s')"
  shows "\<exists>s signers ps keys g. bl_sessions (bls_run T config cmds) r = Some s \<and>
    distinct signers \<and> set signers \<subseteq> set (sq_committee (cs_request s)) \<and> bo_threshold config \<le> length signers \<and>
    list_all2 (\<lambda>pk' p. \<exists>ord' now' share'. Submit ord' now' r pk' share' \<in> set (cmds @ [Submit ord now r pk share]) \<and>
      tc_share_pair T share' = Inr p) signers ps \<and>
    bl_key_set (bls_run T config cmds) = Some keys \<and> tc_combine T keys ps = Some g \<and> sig = from_tc_signature T g"
proof -
  let ?b = "bls_run T config cmds" and ?cmds = "cmds @ [Submit ord now r pk share]"
  have b: "coordinator_ok ?cmds config ?b"
    by (rule coordinator_ok_mono [OF bls_run_ok]) auto
  obtain s t where s: "bl_sessions ?b r = Some s" and t: "t = s\<lparr>cs_shares := (cs_shares s)(pk \<mapsto> share)\<rparr>"
    and enough: "sq_threshold (cs_request s) \<le> card (dom (cs_shares t))"
    and agg: "aggregate_shares T ?b (share_values ord t) = Inr sig"
    and s': "bl_sessions b' r = Some (t\<lparr>cs_completed := True\<rparr>)"
    and member: "pk \<in> set (sq_committee (cs_request s))"
    by (rule submit_share_signature [OF submit])
  have "coordinator_ok ?cmds config b'"
    using submit_share_ok [OF b, of ord now r pk share T] submit by simp
  then have ok: "session_ok ?cmds (bo_threshold config) r (t\<lparr>cs_completed := True\<rparr>)"
    using s' by (simp add: coordinator_ok_def)
  have request: "cs_request t = cs_request s"
    by (simp add: t)
  have submitted: "pk' \<in> set (sq_committee (cs_request s)) \<and> (\<exists>ord' now'. Submit ord' now' r pk' share' \<in> set ?cmds)"
    if "cs_shares t pk' = Some share'" for pk' share'
    using ok that by (simp add: session_ok_def request)
  have dom: "set ord = dom (cs_shares t)"
    using order(2,3) s' by auto
  then have vals: "share_values ord t = map (the \<circ> cs_shares t) ord"
    by (simp add: share_values_def map_filter_dom)
  obtain keys ps g where keys: "bl_key_set ?b = Some keys" "tc_combine T keys ps = Some g" "sig = from_tc_signature T g"
    and ps: "list_all2 (\<lambda>sh p. tc_share_pair T sh = Inr p) (map (the \<circ> cs_shares t) ord) ps"
    using agg unfolding aggregate_shares_ok vals by blast
  have "list_all2 (\<lambda>pk' p. \<exists>ord' now' share'. Submit ord' now' r pk' share' \<in> set ?cmds \<and>
      tc_share_pair T share' = Inr p) ord ps"
  proof (rule list.rel_mono_strong)
    show "list_all2 (\<lambda>pk' p. tc_share_pair T (the (cs_shares t pk')) = Inr p) ord ps"
      using ps by (simp add: list_all2_map1)
  next
    fix pk' p assume "pk' \<in> set ord" and p: "tc_share_pair T (the (cs_shares t pk')) = Inr p"
    then obtain share' where share': "cs_shares t pk' = Some share'"
      using dom by auto
    then show "\<exists>ord' now' share'. Submit ord' now' r pk' share' \<in> set ?cmds \<and> tc_share_pair T share' = Inr p"
      using p submitted [OF share'] by (simp only: option.sel) blast
  qed
  moreover have "set ord \<subseteq> set (sq_committee (cs_request s))"
    using submitted dom by blast
  moreover have "bo_threshold config \<le> length ord"
    using enough dom order(1) ok by (simp add: session_ok_def request distinct_card [symmetric])
  ultimately show ?thesis
    using s keys order(1) by blast
qed

definition demo_signing :: "(nat, nat, nat) bls_coordinator" where
  "demo_signing = bls_run demo_lib \<lparr>bo_collection_timeout = 60, bo_threshold = 2, bo_total_members = 2\<rparr>
     [SetKeys 9, Initiate 0 ''r'' [] [] [[1], [2]],
      Submit [[1]] 5 ''r'' [1] \<lparr>ss_participant_id = 0, ss_signature_hex = ''A''\<rparr>]"

theorem signature_needs_threshold_witness:
  "\<exists>s signers ps keys g. bl_sessions demo_signing ''r'' = Some s \<and>
    distinct signers \<and> set signers \<subseteq> set (sq_committee (cs_request s)) \<and> 2 \<le> length signers \<and>
    list_all2 (\<lambda>pk' p. \<exists>ord' now' share'. Submit ord' now' ''r'' pk' share' \<in>
        set ([SetKeys 9, Initiate 0 ''r'' [] [] [[1], [2]],
          Submit [[1]] 5 ''r'' [1] \<lparr>ss_participant_id = 0, ss_signature_hex = ''A''\<rparr>] @
          [Submit [[1], [2]] 6 ''r'' [2] \<lparr>ss_participant_id = 1, ss_signature_hex = ''B''\<rparr>]) \<and>
      tc_share_pair demo_lib share' = Inr p) signers ps \<and>
    bl_key_set demo_signing = Some keys \<and> tc_combine demo_lib keys ps = Some g \<and>
    BLSSignature ''A'' = from_tc_signature demo_lib g"
proof -
  let ?share = "\<lparr>ss_participant_id = 1, ss_signature_hex = ''B''\<rparr>"
  let ?r = "submit_share demo_lib [[1], [2]] 6 ''r'' [2] ?share demo_signing"
  have result: "fst ?r = Inr (Some (BLSSignature ''A''))"
    by (simp add: demo_signing_def bls_run_def bls_coordinator_new_def set_public_key_set_def initiate_signing_def
        submit_share_def put_session_def aggregate_shares_def share_values_def List.map_filter_def tc_share_pair_def
        to_tc_signature_share_def from_tc_signature_def demo_lib_def Let_def char_of_eq_iff)
  have session: "\<exists>s'. bl_sessions (snd ?r) ''r'' = Some s' \<and> set [[1], [2]] = dom (cs_shares s')"
    by (simp add: demo_signing_def bls_run_def bls_coordinator_new_def set_public_key_set_def initiate_signing_def
        submit_share_def put_session_def aggregate_shares_def share_values_def List.map_filter_def tc_share_pair_def
        to_tc_signature_share_def from_tc_signature_def demo_lib_def Let_def, blast)
  then obtain s' where s': "bl_sessions (snd ?r) ''r'' = Some s'" "set [[1], [2]] = dom (cs_shares s')"
    by blast
  have r: "?r = (Inr (Some (BLSSignature ''A'')), snd ?r)"
    using result by (metis prod.collapse)
  show ?thesis
    using signature_needs_threshold [OF r [unfolded demo_signing_def] _ s'(1) [unfolded demo_signing_def] s'(2)]
    by (simp only: demo_signing_def) simp
qed

end
