(* ===== verification/Proposals.thy ===== *)
theory Proposals
  imports Grants Bls_Coordinator
begin

text \<open>
  \<open>ProposalLifecycleManager\<close> (\<open>crates/adic-governance/src/lifecycle.rs\<close>): submission, voting, tally, receipt
  and enactment of proposals. The components the manager shares (reputation tracker, parameter store, quorum
  selector, BLS coordinator, network metadata, treasury executor) are parts of its state. Of the BLS signer only
  its presence matters. \<open>scores\<close> is the order of the keys in the map of reputations, \<open>f64_bytes\<close> is
  \<open>f64::to_le_bytes\<close>, \<open>finality\<close> is the answer of the finality adapter, with the seconds since F1 and F2.
  Receipts handed to the callback are the list \<open>lm_emitted\<close>. Durations are exact seconds.
\<close>

section \<open>Network metadata\<close>

record node_network_info =
  nn_asn :: u32
  nn_region :: string
  nn_metadata :: "string \<rightharpoonup> string"

definition node_network_info_default :: node_network_info where
  "node_network_info_default = \<lparr>nn_asn = 0, nn_region = ''unknown'', nn_metadata = Map.empty\<rparr>"

type_synonym network_metadata = "public_key \<rightharpoonup> node_network_info"

definition metadata_register :: "public_key \<Rightarrow> node_network_info \<Rightarrow> network_metadata \<Rightarrow> network_metadata" where
  "metadata_register pk info m = m(pk \<mapsto> info)"

definition metadata_get :: "network_metadata \<Rightarrow> public_key \<Rightarrow> node_network_info option" where
  "metadata_get m pk = m pk"

definition metadata_get_or_default :: "network_metadata \<Rightarrow> public_key \<Rightarrow> node_network_info" where
  "metadata_get_or_default m pk = (case metadata_get m pk of None \<Rightarrow> node_network_info_default | Some i \<Rightarrow> i)"

definition metadata_register_batch :: "(public_key \<times> node_network_info) list \<Rightarrow> network_metadata \<Rightarrow> network_metadata" where
  "metadata_register_batch entries m = foldl (\<lambda>m (pk, info). m(pk \<mapsto> info)) m entries"

definition metadata_remove :: "public_key \<Rightarrow> network_metadata \<Rightarrow> node_network_info option \<times> network_metadata" where
  "metadata_remove pk m = (m pk, m(pk := None))"

definition metadata_count :: "network_metadata \<Rightarrow> nat" where
  "metadata_count m = card (dom m)"

definition starts_with :: "string \<Rightarrow> string \<Rightarrow> bool" where
  "starts_with s p \<longleftrightarrow> take (length p) s = p"

definition infer_from_ip :: "string \<Rightarrow> node_network_info" where
  "infer_from_ip ip =
     (let (asn, region) =
        (if starts_with ip ''10.'' \<or> starts_with ip ''192.168.'' then (64512, ''local'')
         else if starts_with ip ''8.8.'' then (15169, ''us'')
         else if starts_with ip ''1.1.'' then (13335, ''us'')
         else (0, ''unknown''))
      in \<lparr>nn_asn = asn, nn_region = region, nn_metadata = Map.empty\<rparr>)"

section \<open>State\<close>

definition DST_GOVERNANCE_RECEIPT :: string where
  "DST_GOVERNANCE_RECEIPT = ''ADIC-GOV-R-v1''"

record lifecycle_config =
  lc_min_proposer_reputation :: f64
  lc_voting_duration_secs :: i64
  lc_min_quorum :: f64
  lc_rmax :: f64
  lc_gamma_f1 :: f64
  lc_gamma_f2 :: f64
  lc_min_timelock_secs :: f64
  lc_committee_size :: nat
  lc_bls_threshold :: nat

definition lifecycle_config_default :: lifecycle_config where
  "lifecycle_config_default =
     \<lparr>lc_min_proposer_reputation = 100, lc_voting_duration_secs = 7 * 24 * 3600, lc_min_quorum = 1 / 10,
      lc_rmax = 100000, lc_gamma_f1 = 2, lc_gamma_f2 = 3, lc_min_timelock_secs = 1000,
      lc_committee_size = 15, lc_bls_threshold = 10\<rparr>"

record ('st, 'p, 's, 'k) lifecycle_manager =
  lm_config :: lifecycle_config
  lm_engine :: voting_engine
  lm_tracker :: reputation_tracker
  lm_adapter :: bool
  lm_params :: "parameter_store option"
  lm_selector :: "vrf_service option"
  lm_signer :: bool
  lm_dkg :: "('p, 's, 'k) dkg_manager option"
  lm_coordinator :: "('p, 's, 'k) bls_coordinator option"
  lm_metadata :: "network_metadata option"
  lm_executor :: "('st, 'p, 's, 'k) treasury_executor option"
  lm_callback :: bool
  lm_proposals :: "bytes \<rightharpoonup> governance_proposal"
  lm_votes :: "bytes \<rightharpoonup> governance_vote list"
  lm_receipts :: "bytes \<rightharpoonup> governance_receipt list"
  lm_message_ids :: "bytes \<rightharpoonup> message_id"
  lm_emitted :: "(governance_receipt \<times> u64) list"

type_synonym ('st, 'p, 's, 'k, 'a) lm_op = "(governance_error, ('st, 'p, 's, 'k) lifecycle_manager, 'a) rop"

definition lifecycle_manager_new :: "lifecycle_config \<Rightarrow> reputation_tracker \<Rightarrow> ('st, 'p, 's, 'k) lifecycle_manager" where
  "lifecycle_manager_new config tracker =
     \<lparr>lm_config = config, lm_engine = voting_engine_new (lc_rmax config) (lc_min_quorum config), lm_tracker = tracker,
      lm_adapter = False, lm_params = None, lm_selector = None, lm_signer = False, lm_dkg = None,
      lm_coordinator = None, lm_metadata = None, lm_executor = None, lm_callback = False,
      lm_proposals = Map.empty, lm_votes = Map.empty, lm_receipts = Map.empty, lm_message_ids = Map.empty,
      lm_emitted = []\<rparr>"

definition with_finality_adapter :: "('st, 'p, 's, 'k) lifecycle_manager \<Rightarrow> ('st, 'p, 's, 'k) lifecycle_manager" where
  "with_finality_adapter l = l\<lparr>lm_adapter := True\<rparr>"

definition with_parameter_store :: "parameter_store \<Rightarrow> ('st, 'p, 's, 'k) lifecycle_manager \<Rightarrow> ('st, 'p, 's, 'k) lifecycle_manager" where
  "with_parameter_store s l = l\<lparr>lm_params := Some s\<rparr>"

definition with_quorum_selector :: "vrf_service \<Rightarrow> ('st, 'p, 's, 'k) lifecycle_manager \<Rightarrow> ('st, 'p, 's, 'k) lifecycle_manager" where
  "with_quorum_selector v l = l\<lparr>lm_selector := Some v\<rparr>"

definition with_bls_signer :: "('st, 'p, 's, 'k) lifecycle_manager \<Rightarrow> ('st, 'p, 's, 'k) lifecycle_manager" where
  "with_bls_signer l = l\<lparr>lm_signer := True\<rparr>"

definition with_bls_coordinator :: "('p, 's, 'k) bls_coordinator \<Rightarrow> ('st, 'p, 's, 'k) lifecycle_manager \<Rightarrow>
    ('st, 'p, 's, 'k) lifecycle_manager" where
  "with_bls_coordinator b l = l\<lparr>lm_coordinator := Some b\<rparr>"

definition with_network_metadata :: "network_metadata \<Rightarrow> ('st, 'p, 's, 'k) lifecycle_manager \<Rightarrow> ('st, 'p, 's, 'k) lifecycle_manager" where
  "with_network_metadata n l = l\<lparr>lm_metadata := Some n\<rparr>"

definition with_treasury_executor :: "('st, 'p, 's, 'k) treasury_executor \<Rightarrow> ('st, 'p, 's, 'k) lifecycle_manager \<Rightarrow>
    ('st, 'p, 's, 'k) lifecycle_manager" where
  "with_treasury_executor x l = l\<lparr>lm_executor := Some x\<rparr>"

definition with_receipt_callback :: "('st, 'p, 's, 'k) lifecycle_manager \<Rightarrow> ('st, 'p, 's, 'k) lifecycle_manager" where
  "with_receipt_callback l = l\<lparr>lm_callback := True\<rparr>"

definition set_proposal :: "bytes \<Rightarrow> governance_proposal \<Rightarrow> ('st, 'p, 's, 'k) lifecycle_manager \<Rightarrow>
    ('st, 'p, 's, 'k) lifecycle_manager" where
  "set_proposal i p l = l\<lparr>lm_proposals := (lm_proposals l)(i \<mapsto> p)\<rparr>"

section \<open>Submission and votes\<close>

definition submit_proposal :: "governance_proposal \<Rightarrow> ('st, 'p, 's, 'k, bytes) lm_op" where
  "submit_proposal proposal l =
     (if get_reputation (lm_tracker l) (gp_proposer proposal) < lc_min_proposer_reputation (lm_config l)
      then errR GovInsufficientReputation l
      else
        (let proposal' = proposal\<lparr>
               gp_voting_end := gp_creation proposal + 1000 * lc_voting_duration_secs (lm_config l),
               gp_status := Voting\<rparr>
         in okR (gp_proposal_id proposal) (set_proposal (gp_proposal_id proposal) proposal' l)))"

definition cast_vote :: "i64 \<Rightarrow> governance_vote \<Rightarrow> ('st, 'p, 's, 'k, unit) lm_op" where
  "cast_vote now vote l =
     (case lm_proposals l (gv_proposal_id vote) of
        None \<Rightarrow> errR GovProposalNotFound l
      | Some proposal \<Rightarrow>
          (if gp_status proposal \<noteq> Voting then errR (InvalidStatus (gp_status proposal)) l
           else if voting_ended now proposal then errR VotingEnded l
           else case validate_credits (lm_engine l) (gv_credits vote) (get_reputation (lm_tracker l) (gv_voter vote)) of
             Inl e \<Rightarrow> errR e l
           | Inr _ \<Rightarrow>
               (let existing = (case lm_votes l (gv_proposal_id vote) of None \<Rightarrow> [] | Some vs \<Rightarrow> vs) in
                if list_ex (\<lambda>v. gv_voter v = gv_voter vote) existing then errR (GovDuplicateVote (gv_voter vote)) l
                else okR () (l\<lparr>lm_votes := (lm_votes l)(gv_proposal_id vote \<mapsto> existing @ [vote])\<rparr>))))"

text \<open>The sum over the scores, at least 1.\<close>

definition calculate_total_eligible_credits :: "public_key list \<Rightarrow> ('st, 'p, 's, 'k) lifecycle_manager \<Rightarrow> f64" where
  "calculate_total_eligible_credits scores l =
     max (foldl (\<lambda>total_credits score.
       let reputation = rs_value score in
       if 0 < reputation then total_credits + sqrt (min reputation (lc_rmax (lm_config l))) else total_credits)
       0 (List.map_filter (rt_scores (lm_tracker l)) scores)) 1"

section \<open>Receipts\<close>

definition wrapping_byte_sum :: "bytes \<Rightarrow> u64" where
  "wrapping_byte_sum b = foldl (\<lambda>acc x. acc + ucast x) 0 b"

definition be_u32 :: "bytes \<Rightarrow> u32" where
  "be_u32 b = foldl (\<lambda>acc x. acc * 256 + ucast x) 0 (take 4 b)"

definition receipt_quorum_config :: "lifecycle_config \<Rightarrow> quorum_config" where
  "receipt_quorum_config c =
     \<lparr>qc_min_reputation = 100, qc_members_per_axis = (lc_committee_size c + 2) div 3,
      qc_total_size = lc_committee_size c, qc_max_per_asn = 2, qc_max_per_region = 3,
      qc_domain = map of_char ''ADIC-GOV-Q'', qc_num_axes = 3\<rparr>"

text \<open>The node of a scored key: with its registered metadata, or with an AS number and a region derived from
  the hash of the key.\<close>

definition eligible_node :: "(bytes \<Rightarrow> bytes) \<Rightarrow> (nat \<Rightarrow> string) \<Rightarrow> network_metadata option \<Rightarrow> public_key \<Rightarrow> f64 \<Rightarrow> node_info" where
  "eligible_node blake3 dec registry pk reputation =
     (let (asn, region) =
        (case registry of
           Some n \<Rightarrow> (let info = metadata_get_or_default n pk in (nn_asn info, nn_region info))
         | None \<Rightarrow>
             (let h = blake3 pk in (be_u32 h mod 65536, ''r'' @ dec (unat (digit_at h 4) mod 26))))
      in \<lparr>ni_public_key = pk, ni_reputation = reputation, ni_asn = Some asn, ni_region = Some region,
          ni_axis_balls = []\<rparr>)"

definition eligible_nodes :: "(bytes \<Rightarrow> bytes) \<Rightarrow> (nat \<Rightarrow> string) \<Rightarrow> public_key list \<Rightarrow> f64 \<Rightarrow>
    ('st, 'p, 's, 'k) lifecycle_manager \<Rightarrow> node_info list" where
  "eligible_nodes blake3 dec scores min_reputation l =
     List.map_filter (\<lambda>pk. case rt_scores (lm_tracker l) pk of
         None \<Rightarrow> None
       | Some score \<Rightarrow>
           (if rs_value score < min_reputation then None
            else Some (eligible_node blake3 dec (lm_metadata l) pk (rs_value score)))) scores"

definition receipt_message :: "(f64 \<Rightarrow> bytes) \<Rightarrow> bytes \<Rightarrow> quorum_stats \<Rightarrow> vote_result \<Rightarrow> bytes" where
  "receipt_message f64_bytes proposal_id stats result =
     proposal_id @ f64_bytes (qs_yes stats) @ f64_bytes (qs_no stats) @ f64_bytes (qs_abstain stats) @
     [case result of Pass \<Rightarrow> 0 | Fail \<Rightarrow> 1]"

record receipt_env =
  rv_blake3 :: "bytes \<Rightarrow> bytes"
  rv_hex :: "bytes \<Rightarrow> string"
  rv_dec :: "u64 \<Rightarrow> string"
  rv_dec_nat :: "nat \<Rightarrow> string"
  rv_f64_bytes :: "f64 \<Rightarrow> bytes"
  rv_scores :: "public_key list"

definition generate_receipt_signature :: "receipt_env \<Rightarrow> i64 \<Rightarrow> bytes \<Rightarrow> quorum_stats \<Rightarrow> vote_result \<Rightarrow>
    ('st, 'p, 's, 'k, string option \<times> public_key list) lm_op" where
  "generate_receipt_signature env now proposal_id stats result l =
     (case lm_selector l of
        None \<Rightarrow> okR (None, []) l
      | Some selector \<Rightarrow>
          (if \<not> lm_signer l then okR (None, []) l
           else
             (let config = receipt_quorum_config (lm_config l);
                  nodes = eligible_nodes (rv_blake3 env) (rv_dec_nat env) (rv_scores env) (qc_min_reputation config) l
              in case select_committee (rv_blake3 env) selector (wrapping_byte_sum proposal_id) config nodes of
                   Inl _ \<Rightarrow> okR (None, []) l
                 | Inr committee \<Rightarrow>
                     (let members = map qm_public_key (qr_members committee);
                          msg = receipt_message (rv_f64_bytes env) proposal_id stats result
                      in case lm_coordinator l of
                           None \<Rightarrow> errR BLSCoordinatorRequired l
                         | Some coordinator \<Rightarrow>
                             (let request_id = signing_request_id (rv_hex env) (rv_dec env) ''gov-receipt''
                                    (wrapping_byte_sum proposal_id) proposal_id
                              in case initiate_signing now request_id msg (map of_char DST_GOVERNANCE_RECEIPT) members coordinator of
                                   (_, coordinator') \<Rightarrow>
                                     okR (None, members) (l\<lparr>lm_coordinator := Some coordinator'\<rparr>))))))"

section \<open>Tally\<close>

text \<open>The result of the votes.\<close>

definition outcome :: "public_key list \<Rightarrow> ('st, 'p, 's, 'k) lifecycle_manager \<Rightarrow> governance_proposal \<Rightarrow> quorum_stats \<Rightarrow> vote_result" where
  "outcome scores l proposal stats =
     (case check_quorum (lm_engine l) stats (calculate_total_eligible_credits scores l) of
        Inr _ \<Rightarrow> determine_result stats (required_threshold proposal)
      | Inl _ \<Rightarrow> Fail)"

definition finalize_voting :: "receipt_env \<Rightarrow> i64 \<Rightarrow> bytes \<Rightarrow> ('st, 'p, 's, 'k, vote_result) lm_op" where
  "finalize_voting env now proposal_id l =
     (case lm_proposals l proposal_id of
        None \<Rightarrow> errR GovProposalNotFound l
      | Some proposal \<Rightarrow>
          (if gp_status proposal \<noteq> Voting then errR (InvalidStatus (gp_status proposal)) l
           else if \<not> voting_ended now proposal then errR VotingNotEnded l
           else
             (let proposal_votes = (case lm_votes l proposal_id of None \<Rightarrow> [] | Some vs \<Rightarrow> vs) in
              case tally_votes (lm_engine l) proposal_votes proposal_id of
                Inl e \<Rightarrow> errR e l
              | Inr stats \<Rightarrow>
                  (let proposal' = proposal\<lparr>gp_tally_yes := qs_yes stats, gp_tally_no := qs_no stats,
                         gp_tally_abstain := qs_abstain stats, gp_status := Tallying\<rparr>;
                       result = outcome (rv_scores env) l proposal' stats;
                       l' = set_proposal proposal_id (proposal'\<lparr>gp_status :=
                              (case result of Pass \<Rightarrow> Succeeded | Fail \<Rightarrow> Rejected)\<rparr>) l
                   in tryR (generate_receipt_signature env now proposal_id stats result)
                        (\<lambda>(quorum_signature, committee_members) l.
                          let receipt = \<lparr>gr_proposal_id = proposal_id, gr_quorum_stats = stats, gr_result = result,
                                gr_receipt_seq = 0, gr_prev_receipt_hash = replicate 32 0, gr_timestamp = now,
                                gr_quorum_signature = quorum_signature, gr_committee = committee_members\<rparr>;
                              receipts = (case lm_receipts l proposal_id of None \<Rightarrow> [] | Some rs \<Rightarrow> rs)
                          in okR result (l\<lparr>lm_receipts := (lm_receipts l)(proposal_id \<mapsto> receipts @ [receipt]),
                               lm_emitted := (if lm_callback l then lm_emitted l @ [(receipt, 0)] else lm_emitted l)\<rparr>))
                        l'))))"

section \<open>Enactment\<close>

definition register_proposal_message :: "bytes \<Rightarrow> message_id \<Rightarrow> ('st, 'p, 's, 'k) lifecycle_manager \<Rightarrow>
    ('st, 'p, 's, 'k) lifecycle_manager" where
  "register_proposal_message proposal_id message_id l =
     l\<lparr>lm_message_ids := (lm_message_ids l)(proposal_id \<mapsto> message_id)\<rparr>"

definition wait_for_finality :: "(message_id \<Rightarrow> (f64 option \<times> f64 option) option) \<Rightarrow> bytes \<Rightarrow>
    ('st, 'p, 's, 'k) lifecycle_manager \<Rightarrow> governance_error + f64 \<times> f64" where
  "wait_for_finality finality proposal_id l =
     (if \<not> lm_adapter l then Inr (1, 1)
      else case lm_message_ids l proposal_id of
        None \<Rightarrow> Inl InvalidOperation
      | Some message_id \<Rightarrow>
          (case finality message_id of
             None \<Rightarrow> Inl FinalityTimeout
           | Some (f1, f2) \<Rightarrow>
               Inr ((case f1 of None \<Rightarrow> 0 | Some t \<Rightarrow> t), (case f2 of None \<Rightarrow> 0 | Some t \<Rightarrow> t))))"

text \<open>\<open>Duration::from_secs_f64\<close> panics on negative and too large numbers.\<close>

definition duration_from_secs :: "f64 \<Rightarrow> panic + f64" where
  "duration_from_secs x = (if x < 0 \<or> 2 ^ 64 \<le> x then Inl AssertFailed else Inr x)"

definition calculate_timelock :: "lifecycle_config \<Rightarrow> f64 \<Rightarrow> f64 \<Rightarrow> panic + f64" where
  "calculate_timelock c f1 f2 =
     bindE (duration_from_secs (f1 * lc_gamma_f1 c)) (\<lambda>t_f1.
     bindE (duration_from_secs (f2 * lc_gamma_f2 c)) (\<lambda>t_f2.
     bindE (duration_from_secs (lc_min_timelock_secs c)) (\<lambda>t_min.
       Inr (max (max t_f1 t_f2) t_min))))"

text \<open>The enactment time is only logged.\<close>

definition begin_enactment :: "bytes \<Rightarrow> f64 \<Rightarrow> ('st, 'p, 's, 'k, unit) lm_op" where
  "begin_enactment proposal_id timelock_duration_secs l =
     (case lm_proposals l proposal_id of
        None \<Rightarrow> errR GovProposalNotFound l
      | Some proposal \<Rightarrow>
          (if gp_status proposal \<noteq> Succeeded then errR (InvalidStatus (gp_status proposal)) l
           else okR () (set_proposal proposal_id (proposal\<lparr>gp_status := Enacting\<rparr>) l)))"

definition finalize_and_prepare_enactment :: "(message_id \<Rightarrow> (f64 option \<times> f64 option) option) \<Rightarrow> bytes \<Rightarrow>
    ('st, 'p, 's, 'k) lifecycle_manager \<Rightarrow>
    panic + (governance_error + f64) \<times> ('st, 'p, 's, 'k) lifecycle_manager" where
  "finalize_and_prepare_enactment finality proposal_id l =
     (case wait_for_finality finality proposal_id l of
        Inl e \<Rightarrow> Inr (Inl e, l)
      | Inr (f1, f2) \<Rightarrow>
          (case calculate_timelock (lm_config l) f1 f2 of
             Inl p \<Rightarrow> Inl p
           | Inr timelock \<Rightarrow> Inr (tryR (begin_enactment proposal_id timelock) (\<lambda>_. okR timelock) l)))"

text \<open>The loop over the parameters; the error names the parameter.\<close>

fun apply_parameters :: "bytes \<Rightarrow> (string \<times> json) list \<Rightarrow> string list \<Rightarrow> (string, parameter_store, unit) rop" where
  "apply_parameters proposal_id obj [] s = okR () s"
| "apply_parameters proposal_id obj (key # keys) s =
     (case map_of obj key of
        None \<Rightarrow> apply_parameters proposal_id obj keys s
      | Some new_value \<Rightarrow>
          (case apply_governance_change key new_value (Some proposal_id) s of
             (Inl _, s') \<Rightarrow> (Inl key, s')
           | (Inr _, s') \<Rightarrow> apply_parameters proposal_id obj keys s'))"

definition enact_parameters :: "bytes \<Rightarrow> governance_proposal \<Rightarrow> ('st, 'p, 's, 'k, unit) lm_op" where
  "enact_parameters proposal_id proposal l =
     (case (lm_params l, as_object (gp_new_values proposal)) of
        (Some store, Some obj) \<Rightarrow>
          (case apply_parameters proposal_id obj (gp_param_keys proposal) store of
             (Inl key, store') \<Rightarrow>
               errR (ParameterUpdateFailed key)
                 (set_proposal proposal_id (proposal\<lparr>gp_status := EnactFailed\<rparr>) (l\<lparr>lm_params := Some store'\<rparr>))
           | (Inr _, store') \<Rightarrow> okR () (l\<lparr>lm_params := Some store'\<rparr>))
      | _ \<Rightarrow> okR () l)"

definition enact_grant :: "(bytes \<Rightarrow> bytes) \<Rightarrow> (bytes \<Rightarrow> string) \<Rightarrow> 'st econ_ops \<Rightarrow> i64 \<Rightarrow> bytes \<Rightarrow> governance_proposal \<Rightarrow>
    ('st, 'p, 's, 'k, unit) lm_op" where
  "enact_grant blake3 hex E now proposal_id proposal l =
     (case (gp_treasury_grant proposal, lm_executor l) of
        (Some grant, Some executor) \<Rightarrow>
          (case execute_grant blake3 hex E now grant (gp_enact_epoch proposal) executor of
             (Inl _, executor') \<Rightarrow>
               errR TreasuryError
                 (set_proposal proposal_id (proposal\<lparr>gp_status := EnactFailed\<rparr>) (l\<lparr>lm_executor := Some executor'\<rparr>))
           | (Inr _, executor') \<Rightarrow> okR () (l\<lparr>lm_executor := Some executor'\<rparr>))
      | _ \<Rightarrow> okR () l)"

definition enact_proposal :: "(bytes \<Rightarrow> bytes) \<Rightarrow> (bytes \<Rightarrow> string) \<Rightarrow> 'st econ_ops \<Rightarrow> i64 \<Rightarrow> bytes \<Rightarrow>
    ('st, 'p, 's, 'k, unit) lm_op" where
  "enact_proposal blake3 hex E now proposal_id l =
     (case lm_proposals l proposal_id of
        None \<Rightarrow> errR GovProposalNotFound l
      | Some proposal \<Rightarrow>
          (if gp_status proposal \<noteq> Enacting then errR (InvalidStatus (gp_status proposal)) l
           else
             tryR (enact_parameters proposal_id proposal) (\<lambda>_.
             tryR (enact_grant blake3 hex E now proposal_id proposal) (\<lambda>_.
             modR (set_proposal proposal_id (proposal\<lparr>gp_status := Enacted\<rparr>)))) l))"

section \<open>Reading\<close>

definition get_governance_proposal :: "('st, 'p, 's, 'k) lifecycle_manager \<Rightarrow> bytes \<Rightarrow> governance_proposal option" where
  "get_governance_proposal l i = lm_proposals l i"

definition get_votes :: "('st, 'p, 's, 'k) lifecycle_manager \<Rightarrow> bytes \<Rightarrow> governance_vote list" where
  "get_votes l i = (case lm_votes l i of None \<Rightarrow> [] | Some vs \<Rightarrow> vs)"

definition get_receipts :: "('st, 'p, 's, 'k) lifecycle_manager \<Rightarrow> bytes \<Rightarrow> governance_receipt list" where
  "get_receipts l i = (case lm_receipts l i of None \<Rightarrow> [] | Some rs \<Rightarrow> rs)"

definition get_proposals_by_status :: "bytes list \<Rightarrow> proposal_status \<Rightarrow> ('st, 'p, 's, 'k) lifecycle_manager \<Rightarrow>
    governance_proposal list" where
  "get_proposals_by_status ord status l =
     filter (\<lambda>p. gp_status p = status) (List.map_filter (lm_proposals l) ord)"

section \<open>Runs\<close>

text \<open>The operations on proposals, and changes that other users of the shared components make.\<close>

datatype ('st, 'p, 's, 'k) lm_cmd =
    SubmitProposal governance_proposal
  | CastVote i64 governance_vote
  | FinalizeVoting receipt_env i64 bytes
  | RegisterMessage bytes message_id
  | BeginEnactment bytes f64
  | PrepareEnactment "message_id \<Rightarrow> (f64 option \<times> f64 option) option" bytes
  | EnactProposal i64 bytes
  | Environment reputation_tracker "parameter_store option" "('p, 's, 'k) bls_coordinator option"
      "('st, 'p, 's, 'k) treasury_executor option"

primrec lm_exec :: "(bytes \<Rightarrow> bytes) \<Rightarrow> (bytes \<Rightarrow> string) \<Rightarrow> 'st econ_ops \<Rightarrow> ('st, 'p, 's, 'k) lm_cmd \<Rightarrow>
    ('st, 'p, 's, 'k) lifecycle_manager \<Rightarrow> ('st, 'p, 's, 'k) lifecycle_manager" where
  "lm_exec blake3 hex E (SubmitProposal p) l = snd (submit_proposal p l)"
| "lm_exec blake3 hex E (CastVote now v) l = snd (cast_vote now v l)"
| "lm_exec blake3 hex E (FinalizeVoting env now i) l = snd (finalize_voting env now i l)"
| "lm_exec blake3 hex E (RegisterMessage i m) l = register_proposal_message i m l"
| "lm_exec blake3 hex E (BeginEnactment i t) l = snd (begin_enactment i t l)"
| "lm_exec blake3 hex E (PrepareEnactment finality i) l =
     (case finalize_and_prepare_enactment finality i l of Inl _ \<Rightarrow> l | Inr r \<Rightarrow> snd r)"
| "lm_exec blake3 hex E (EnactProposal now i) l = snd (enact_proposal blake3 hex E now i l)"
| "lm_exec blake3 hex E (Environment tracker params coordinator executor) l =
     l\<lparr>lm_tracker := tracker, lm_params := params, lm_coordinator := coordinator, lm_executor := executor\<rparr>"

definition lm_run :: "(bytes \<Rightarrow> bytes) \<Rightarrow> (bytes \<Rightarrow> string) \<Rightarrow> 'st econ_ops \<Rightarrow> ('st, 'p, 's, 'k) lifecycle_manager \<Rightarrow>
    ('st, 'p, 's, 'k) lm_cmd list \<Rightarrow> ('st, 'p, 's, 'k) lifecycle_manager" where
  "lm_run blake3 hex E l cmds = foldl (\<lambda>l cmd. lm_exec blake3 hex E cmd l) l cmds"

lemma set_proposal_fields [simp]:
  "lm_proposals (set_proposal i p l) = (lm_proposals l)(i \<mapsto> p)" "lm_votes (set_proposal i p l) = lm_votes l"
  "lm_params (set_proposal i p l) = lm_params l" "lm_executor (set_proposal i p l) = lm_executor l"
  "lm_receipts (set_proposal i p l) = lm_receipts l" "lm_selector (set_proposal i p l) = lm_selector l"
  "lm_signer (set_proposal i p l) = lm_signer l" "lm_coordinator (set_proposal i p l) = lm_coordinator l"
  "lm_engine (set_proposal i p l) = lm_engine l" "lm_config (set_proposal i p l) = lm_config l"
  "lm_tracker (set_proposal i p l) = lm_tracker l"
  by (simp_all add: set_proposal_def)

lemma receipt_signature_fields:
  assumes "generate_receipt_signature env now i stats result l = (r, l')"
  shows "lm_proposals l' = lm_proposals l \<and> lm_votes l' = lm_votes l \<and> lm_receipts l' = lm_receipts l \<and>
    lm_engine l' = lm_engine l \<and> lm_tracker l' = lm_tracker l \<and> lm_config l' = lm_config l \<and>
    (r = Inl BLSCoordinatorRequired \<or> (\<exists>x. r = Inr x))"
  using assms by (auto simp: generate_receipt_signature_def Let_def split: option.splits if_splits sum.splits prod.splits)

text \<open>What \<open>finalize_voting\<close> does, by cases.\<close>

lemma finalize_voting_cases:
  assumes "finalize_voting env now i l = (r, l')"
  obtains (Unchanged) e where "r = Inl e" "l' = l"
      "\<And>p stats. lm_proposals l i = Some p \<Longrightarrow> gp_status p = Voting \<Longrightarrow> voting_ended now p \<Longrightarrow>
         tally_votes (lm_engine l) (get_votes l i) i \<noteq> Inr stats"
  | (Decided) p stats where "lm_proposals l i = Some p" "gp_status p = Voting" "voting_ended now p"
      "tally_votes (lm_engine l) (get_votes l i) i = Inr stats"
      "lm_proposals l' = (lm_proposals l)(i \<mapsto> p\<lparr>gp_tally_yes := qs_yes stats, gp_tally_no := qs_no stats,
         gp_tally_abstain := qs_abstain stats,
         gp_status := (case outcome (rv_scores env) l p stats of Pass \<Rightarrow> Succeeded | Fail \<Rightarrow> Rejected)\<rparr>)"
      "lm_votes l' = lm_votes l" "lm_engine l' = lm_engine l" "lm_tracker l' = lm_tracker l" "lm_config l' = lm_config l"
      "r = Inl BLSCoordinatorRequired \<and> lm_receipts l' = lm_receipts l \<or>
       r = Inr (outcome (rv_scores env) l p stats) \<and>
         (\<exists>receipt. get_receipts l' i = get_receipts l i @ [receipt] \<and> gr_quorum_stats receipt = stats \<and>
            gr_result receipt = outcome (rv_scores env) l p stats)"
proof (cases "lm_proposals l i")
  case None
  then show ?thesis using assms Unchanged by (auto simp: finalize_voting_def)
next
  case (Some p)
  show ?thesis
  proof (cases "gp_status p = Voting \<and> voting_ended now p")
    case False
    then show ?thesis using assms Some Unchanged by (auto simp: finalize_voting_def split: if_splits)
  next
    case True
    show ?thesis
    proof (cases "tally_votes (lm_engine l) (get_votes l i) i")
      case (Inl e)
      then show ?thesis using assms Some True Unchanged
        by (auto simp: finalize_voting_def get_votes_def)
    next
      case (Inr stats)
      let ?p = "p\<lparr>gp_tally_yes := qs_yes stats, gp_tally_no := qs_no stats, gp_tally_abstain := qs_abstain stats,
          gp_status := Tallying\<rparr>"
      let ?result = "outcome (rv_scores env) l ?p stats"
      let ?l = "set_proposal i (?p\<lparr>gp_status := (case ?result of Pass \<Rightarrow> Succeeded | Fail \<Rightarrow> Rejected)\<rparr>) l"
      have result: "?result = outcome (rv_scores env) l p stats"
        by (simp add: outcome_def required_threshold_def split: sum.split)
      obtain s l1 where s: "generate_receipt_signature env now i stats ?result ?l = (s, l1)" by force
      note fields = receipt_signature_fields [OF s]
      have eq: "finalize_voting env now i l = tryR (generate_receipt_signature env now i stats ?result)
          (\<lambda>(quorum_signature, committee_members) l.
            let receipt = \<lparr>gr_proposal_id = i, gr_quorum_stats = stats, gr_result = ?result,
                  gr_receipt_seq = 0, gr_prev_receipt_hash = replicate 32 0, gr_timestamp = now,
                  gr_quorum_signature = quorum_signature, gr_committee = committee_members\<rparr>;
                receipts = (case lm_receipts l i of None \<Rightarrow> [] | Some rs \<Rightarrow> rs)
            in okR ?result (l\<lparr>lm_receipts := (lm_receipts l)(i \<mapsto> receipts @ [receipt]),
                 lm_emitted := (if lm_callback l then lm_emitted l @ [(receipt, 0)] else lm_emitted l)\<rparr>)) ?l"
        using Some True Inr by (simp add: finalize_voting_def get_votes_def Let_def)
      note run = eq [unfolded assms]
      show ?thesis
      proof (cases s)
        case (Inl e)
        then have "r = Inl BLSCoordinatorRequired" "l' = l1"
          using run s fields by (auto simp: tryR_def)
        with fields Some True Inr result Decided [of p stats] show ?thesis
          using \<open>tally_votes (lm_engine l) (get_votes l i) i = Inr stats\<close> by (simp add: set_proposal_def)
      next
        case (Inr x)
        obtain q cm where x: "x = (q, cm)" by force
        let ?receipt = "\<lparr>gr_proposal_id = i, gr_quorum_stats = stats, gr_result = ?result, gr_receipt_seq = 0,
            gr_prev_receipt_hash = replicate 32 0, gr_timestamp = now, gr_quorum_signature = q, gr_committee = cm\<rparr>"
        have "(r, l') = (Inr ?result, l1\<lparr>lm_receipts := (lm_receipts l1)(i \<mapsto> get_receipts l1 i @ [?receipt]),
            lm_emitted := (if lm_callback l1 then lm_emitted l1 @ [(?receipt, 0)] else lm_emitted l1)\<rparr>)"
          using s unfolding run Inr x tryR_def by (simp add: get_receipts_def Let_def)
        then have "r = Inr ?result \<and> lm_proposals l' = lm_proposals l1 \<and> lm_votes l' = lm_votes l1 \<and>
            lm_engine l' = lm_engine l1 \<and> lm_tracker l' = lm_tracker l1 \<and> lm_config l' = lm_config l1 \<and>
            get_receipts l' i = get_receipts l1 i @ [?receipt]"
          by (simp add: get_receipts_def)
        moreover have "get_receipts l1 i = get_receipts l i"
          using fields by (simp add: get_receipts_def)
        ultimately show ?thesis
          using fields Some True result Decided [of p stats]
            \<open>tally_votes (lm_engine l) (get_votes l i) i = Inr stats\<close> by (simp add: set_proposal_def)
      qed
    qed
  qed
qed

section \<open>Votes\<close>

text \<open>Nobody has two votes on a proposal.\<close>

definition votes_ok :: "('st, 'p, 's, 'k) lifecycle_manager \<Rightarrow> bool" where
  "votes_ok l \<longleftrightarrow> (\<forall>i vs. lm_votes l i = Some vs \<longrightarrow>
     distinct (map gv_voter vs) \<and> (\<forall>v \<in> set vs. gv_proposal_id v = i))"

lemma cast_vote_ok: "votes_ok l \<Longrightarrow> votes_ok (snd (cast_vote now v l))"
  by (auto simp: cast_vote_def votes_ok_def Let_def list_ex_iff split: option.split sum.split)

lemma cast_vote_proposals: "lm_proposals (snd (cast_vote now v l)) = lm_proposals l"
  by (auto simp: cast_vote_def Let_def split: option.split sum.split)

text \<open>A field that no step of a sequence changes.\<close>

lemma tryR_preserves:
  assumes "f (snd (m s)) = f s" and "\<And>x s'. m s = (Inr x, s') \<Longrightarrow> f (snd (k x s')) = f s'"
  shows "f (snd (tryR m k s)) = f s"
  using assms by (cases "m s") (auto simp: tryR_def split: sum.split)

lemma begin_enactment_votes: "lm_votes (snd (begin_enactment i t l)) = lm_votes l"
  by (simp add: begin_enactment_def split: option.split)

lemma enact_steps_votes:
  "lm_votes (snd (enact_parameters i p l)) = lm_votes l"
  "lm_votes (snd (enact_grant blake3 hex E now i p l)) = lm_votes l"
  by (auto simp: enact_parameters_def enact_grant_def split: option.splits prod.splits sum.splits)

lemma enact_proposal_votes: "lm_votes (snd (enact_proposal blake3 hex E now i l)) = lm_votes l"
  by (auto simp: enact_proposal_def enact_steps_votes intro!: tryR_preserves split: option.split)

lemma prepare_votes:
  "finalize_and_prepare_enactment finality i l = Inr r \<Longrightarrow> lm_votes (snd r) = lm_votes l"
  by (auto simp: finalize_and_prepare_enactment_def begin_enactment_votes intro!: tryR_preserves split: sum.splits)

lemma lm_exec_votes_ok:
  fixes l :: "('st, 'p, 's, 'k) lifecycle_manager"
  assumes "votes_ok l"
  shows "votes_ok (lm_exec blake3 hex E cmd l)"
proof -
  have same: "lm_votes l' = lm_votes l \<Longrightarrow> votes_ok l'" for l' :: "('st, 'p, 's, 'k) lifecycle_manager"
    using assms by (simp add: votes_ok_def)
  show ?thesis
  proof (cases cmd)
    case (FinalizeVoting env now i)
    obtain r l' where r: "finalize_voting env now i l = (r, l')" by force
    then have "lm_votes l' = lm_votes l"
      by (cases rule: finalize_voting_cases) simp_all
    with same r show ?thesis by (simp add: FinalizeVoting)
  next
    case (PrepareEnactment finality i)
    then show ?thesis
      using assms same [OF prepare_votes] by (cases "finalize_and_prepare_enactment finality i l") simp_all
  qed (use assms in \<open>auto simp: cast_vote_ok submit_proposal_def Let_def register_proposal_message_def
        begin_enactment_votes enact_proposal_votes intro!: same\<close>)
qed

lemma lm_run_votes_ok: "votes_ok (lm_run blake3 hex E (lifecycle_manager_new config tracker) cmds)"
  unfolding lm_run_def
  by (rule foldl_invariant) (simp_all add: lm_exec_votes_ok, simp add: votes_ok_def lifecycle_manager_new_def)

lemma votes_ok_tally:
  assumes "votes_ok l"
  shows "tally_votes e (get_votes l i) i = Inr
    \<lparr>qs_yes = ballot_total e BallotYes (get_votes l i), qs_no = ballot_total e BallotNo (get_votes l i),
     qs_abstain = ballot_total e BallotAbstain (get_votes l i),
     qs_total_participation = ballot_total e BallotYes (get_votes l i) + ballot_total e BallotNo (get_votes l i) +
       ballot_total e BallotAbstain (get_votes l i)\<rparr>"
proof -
  have "distinct (map gv_voter (get_votes l i))" "\<forall>v \<in> set (get_votes l i). gv_proposal_id v = i"
    using assms by (cases "lm_votes l i"; simp add: votes_ok_def get_votes_def)+
  moreover from this have "filter (\<lambda>v. gv_proposal_id v = i) (get_votes l i) = get_votes l i"
    by (simp add: filter_id_conv)
  ultimately show ?thesis by (simp add: tally_votes_correct Let_def)
qed

text \<open>The vote on a proposal is always decided: in every state the manager can reach, finalizing a proposal in
  voting after the end of its voting period makes it succeeded or rejected. It succeeds exactly when the credits
  cast reach the quorum of the eligible credits and the yes-credits reach the threshold of its class, each voter
  counted once; the answer is this result, or the error that a signature needs a BLS coordinator.\<close>

theorem voting_is_decided:
  assumes reachable: "l = lm_run blake3 hex E (lifecycle_manager_new config tracker) cmds"
    and "lm_proposals l i = Some p" and "gp_status p = Voting" and "gp_voting_end p \<le> now"
  shows "\<exists>r l'. finalize_voting env now i l = (r, l') \<and>
    (let total = (\<lambda>b. ballot_total (lm_engine l) b (get_votes l i));
         turnout = total BallotYes + total BallotNo + total BallotAbstain;
         stats = \<lparr>qs_yes = total BallotYes, qs_no = total BallotNo, qs_abstain = total BallotAbstain,
           qs_total_participation = turnout\<rparr>;
         passes = (ve_min_quorum (lm_engine l) * calculate_total_eligible_credits (rv_scores env) l \<le> turnout \<and>
           determine_result stats (required_threshold p) = Pass)
     in distinct (map gv_voter (get_votes l i)) \<and>
        (\<exists>p'. lm_proposals l' i = Some p' \<and> gp_status p' = (if passes then Succeeded else Rejected)) \<and>
        r \<in> {Inr (if passes then Pass else Fail), Inl BLSCoordinatorRequired})"
proof -
  have ok: "votes_ok l"
    unfolding reachable by (rule lm_run_votes_ok)
  obtain r l' where r: "finalize_voting env now i l = (r, l')" by force
  let ?e = "lm_engine l" and ?vs = "get_votes l i" and ?te = "calculate_total_eligible_credits (rv_scores env) l"
  have te: "1 \<le> ?te" by (simp add: calculate_total_eligible_credits_def)
  note tally = votes_ok_tally [OF ok, of ?e i]
  have distinct: "distinct (map gv_voter ?vs)"
    using ok by (cases "lm_votes l i") (simp_all add: votes_ok_def get_votes_def)
  have decided: "(\<exists>p'. lm_proposals l' i = Some p' \<and> gp_status p' =
      (case outcome (rv_scores env) l p stats of Pass \<Rightarrow> Succeeded | Fail \<Rightarrow> Rejected)) \<and>
      r \<in> {Inr (outcome (rv_scores env) l p stats), Inl BLSCoordinatorRequired}"
    if "tally_votes ?e ?vs i = Inr stats" for stats
    using r
  proof (cases rule: finalize_voting_cases)
    case (Unchanged e)
    with that assms(2-4) show ?thesis by (auto simp: voting_ended_def)
  next
    case (Decided q stats')
    with that assms(2) show ?thesis by auto
  qed
  have quorum: "is_ok (check_quorum ?e stats ?te) \<longleftrightarrow> ve_min_quorum ?e * ?te \<le> qs_total_participation stats" for stats
    using te by (auto simp: check_quorum_def pos_divide_less_eq not_less)
  have outcome: "outcome (rv_scores env) l p stats = (if ve_min_quorum ?e * ?te \<le> qs_total_participation stats \<and>
      determine_result stats (required_threshold p) = Pass then Pass else Fail)" for stats
    using quorum [of stats] unfolding outcome_def
    by (cases "determine_result stats (required_threshold p)") (auto split: sum.splits)
  let ?total = "\<lambda>b. ballot_total ?e b ?vs"
  let ?turnout = "?total BallotYes + ?total BallotNo + ?total BallotAbstain"
  let ?stats = "\<lparr>qs_yes = ?total BallotYes, qs_no = ?total BallotNo, qs_abstain = ?total BallotAbstain,
      qs_total_participation = ?turnout\<rparr>"
  have final: "outcome (rv_scores env) l p ?stats = (if ve_min_quorum ?e * ?te \<le> ?turnout \<and>
      determine_result ?stats (required_threshold p) = Pass then Pass else Fail)"
    using outcome [of ?stats] by simp
  show ?thesis
  proof (cases "ve_min_quorum ?e * ?te \<le> ?turnout \<and> determine_result ?stats (required_threshold p) = Pass")
    case True
    then have "outcome (rv_scores env) l p ?stats = Pass"
      unfolding final by (rule if_P)
    then show ?thesis
      using r distinct decided [OF tally] True by (simp only: Let_def if_P vote_result.case simp_thms) blast
  next
    case False
    then have "outcome (rv_scores env) l p ?stats = Fail"
      unfolding final by (rule if_not_P)
    then show ?thesis
      using r distinct decided [OF tally] False by (simp only: Let_def if_not_P vote_result.case simp_thms) blast
  qed
qed

definition demo_tracker :: reputation_tracker where
  "demo_tracker = put_score [1] ((reputation_score_new 0)\<lparr>rs_value := 100\<rparr>) (reputation_tracker_new (9 / 10))"

definition demo_proposal :: governance_proposal where
  "demo_proposal = \<lparr>gp_proposal_id = [7], gp_class = Operational, gp_proposer = [1], gp_param_keys = [''k'', ''q''],
     gp_new_values = JObj [(''k'', JPos 25), (''q'', JPos 99)], gp_axis_changes = None, gp_treasury_grant = None,
     gp_enact_epoch = 0, gp_rationale_cid = [], gp_creation = 0, gp_voting_end = 0, gp_status = Rejected,
     gp_tally_yes = 0, gp_tally_no = 0, gp_tally_abstain = 0\<rparr>"

definition demo_manager :: "(memory_storage, nat, nat, nat) lifecycle_manager" where
  "demo_manager = lm_run id (\<lambda>_. []) (memory_ops (\<lambda>_. [])) (lifecycle_manager_new lifecycle_config_default demo_tracker)
     [SubmitProposal demo_proposal]"

lemma demo_manager_proposal:
  "lm_proposals demo_manager [7] = Some (demo_proposal\<lparr>gp_voting_end := 604800000, gp_status := Voting\<rparr>)"
  by (simp add: demo_manager_def lm_run_def submit_proposal_def lifecycle_manager_new_def demo_tracker_def put_score_def
      demo_proposal_def get_reputation_def lifecycle_config_default_def set_proposal_def)

theorem voting_is_decided_witness:
  "\<forall>env. \<exists>r l'. finalize_voting env 604800000 [7] demo_manager = (r, l') \<and>
    (let total = (\<lambda>b. ballot_total (lm_engine demo_manager) b (get_votes demo_manager [7]));
         turnout = total BallotYes + total BallotNo + total BallotAbstain;
         stats = \<lparr>qs_yes = total BallotYes, qs_no = total BallotNo, qs_abstain = total BallotAbstain,
           qs_total_participation = turnout\<rparr>;
         passes = (ve_min_quorum (lm_engine demo_manager) * calculate_total_eligible_credits (rv_scores env) demo_manager \<le> turnout \<and>
           determine_result stats (required_threshold (demo_proposal\<lparr>gp_voting_end := 604800000, gp_status := Voting\<rparr>)) = Pass)
     in distinct (map gv_voter (get_votes demo_manager [7])) \<and>
        (\<exists>p'. lm_proposals l' [7] = Some p' \<and> gp_status p' = (if passes then Succeeded else Rejected)) \<and>
        r \<in> {Inr (if passes then Pass else Fail), Inl BLSCoordinatorRequired})"
  by (intro allI, rule voting_is_decided [OF demo_manager_def demo_manager_proposal]) simp_all

section \<open>The protocol of the status\<close>

lemma begin_enactment_status:
  "lm_proposals l i = Some p \<Longrightarrow> \<exists>p'. lm_proposals (snd (begin_enactment j t l)) i = Some p' \<and>
     (p' = p \<or> can_transition_to (gp_status p) (gp_status p'))"
  by (auto simp: begin_enactment_def split: option.split)

lemma snd_tryR_okR: "snd (tryR m (\<lambda>_. okR x) s) = snd (m s)"
  by (cases "m s") (auto simp: tryR_def split: sum.split)

lemma enact_steps_status:
  "lm_proposals (snd (enact_parameters i p l)) = (case fst (enact_parameters i p l) of
      Inl _ \<Rightarrow> (lm_proposals l)(i \<mapsto> p\<lparr>gp_status := EnactFailed\<rparr>) | Inr _ \<Rightarrow> lm_proposals l)"
  "lm_proposals (snd (enact_grant blake3 hex E now i p l)) = (case fst (enact_grant blake3 hex E now i p l) of
      Inl _ \<Rightarrow> (lm_proposals l)(i \<mapsto> p\<lparr>gp_status := EnactFailed\<rparr>) | Inr _ \<Rightarrow> lm_proposals l)"
  by (auto simp: enact_parameters_def enact_grant_def set_proposal_def split: option.splits prod.splits sum.splits)

lemma enact_proposal_status:
  assumes "lm_proposals l j = Some q"
  shows "lm_proposals (snd (enact_proposal blake3 hex E now j l)) =
    (if gp_status q \<noteq> Enacting then lm_proposals l
     else (lm_proposals l)(j \<mapsto> q\<lparr>gp_status :=
       (case fst (enact_proposal blake3 hex E now j l) of Inl _ \<Rightarrow> EnactFailed | Inr _ \<Rightarrow> Enacted)\<rparr>))"
proof (cases "gp_status q = Enacting")
  case True
  obtain r l1 where r: "enact_parameters j q l = (r, l1)" by force
  obtain r2 l2 where r2: "enact_grant blake3 hex E now j q l1 = (r2, l2)" by force
  have l1: "lm_proposals l1 = (case r of Inl _ \<Rightarrow> (lm_proposals l)(j \<mapsto> q\<lparr>gp_status := EnactFailed\<rparr>) | Inr _ \<Rightarrow> lm_proposals l)"
    using enact_steps_status(1) [of j q l] r by simp
  show ?thesis
  proof (cases r)
    case (Inl e)
    with True assms r l1 show ?thesis by (simp add: enact_proposal_def)
  next
    case (Inr u)
    have "lm_proposals l2 = (case r2 of Inl _ \<Rightarrow> (lm_proposals l1)(j \<mapsto> q\<lparr>gp_status := EnactFailed\<rparr>) | Inr _ \<Rightarrow> lm_proposals l1)"
      using enact_steps_status(2) [of blake3 hex E now j q l1] r2 by simp
    with True assms r r2 l1 Inr show ?thesis
      by (cases r2) (simp_all add: enact_proposal_def)
  qed
qed (use assms in \<open>simp add: enact_proposal_def\<close>)

text \<open>C26: The status of a proposal only moves along the transitions of its state machine, in one or more steps of
  \<open>can_transition_to\<close>: whatever operation runs, other than a submission, a proposal is still there
  afterwards, in the same state or one reachable from it, and a rejected, enacted or failed one is unchanged.\<close>

theorem proposals_follow_protocol:
  assumes "lm_proposals l i = Some p" and "\<nexists>q. cmd = SubmitProposal q"
  shows "\<exists>p'. lm_proposals (lm_exec blake3 hex E cmd l) i = Some p' \<and>
    can_transition_to\<^sup>*\<^sup>* (gp_status p) (gp_status p') \<and> (proposal_is_terminal (gp_status p) \<longrightarrow> p' = p)"
proof -
  have terminal: "\<not> proposal_is_terminal s" if "can_transition_to s t" for s t
    using that by (cases s; cases t) (simp_all add: proposal_is_terminal_def)
  have one: "can_transition_to\<^sup>*\<^sup>* (gp_status p) (gp_status p') \<and> (proposal_is_terminal (gp_status p) \<longrightarrow> p' = p)"
    if "p' = p \<or> can_transition_to (gp_status p) (gp_status p')" for p'
    using that terminal by auto
  show ?thesis
  proof (cases cmd)
    case (CastVote now v)
    with assms(1) show ?thesis by (auto simp: cast_vote_proposals)
  next
    case (FinalizeVoting env now j)
    obtain r l' where r: "finalize_voting env now j l = (r, l')" by force
    then show ?thesis
    proof (cases rule: finalize_voting_cases)
      case (Decided q stats)
      have "can_transition_to\<^sup>*\<^sup>* Voting (case outcome (rv_scores env) l q stats of Pass \<Rightarrow> Succeeded | Fail \<Rightarrow> Rejected)"
        by (cases "outcome (rv_scores env) l q stats")
          (simp_all add: converse_rtranclp_into_rtranclp [of can_transition_to Voting Tallying] r_into_rtranclp)
      with Decided(1-5) assms(1) r FinalizeVoting show ?thesis
        by (auto simp: proposal_is_terminal_def)
    qed (use r assms(1) FinalizeVoting in simp)
  next
    case (BeginEnactment j t)
    with begin_enactment_status [OF assms(1), of j t] one show ?thesis by auto
  next
    case (PrepareEnactment finality j)
    show ?thesis
    proof (cases "\<exists>t. lm_exec blake3 hex E cmd l = snd (begin_enactment j t l)")
      case True
      with begin_enactment_status [OF assms(1), of j] one show ?thesis by metis
    next
      case False
      have "lm_exec blake3 hex E cmd l = l"
      proof (cases "wait_for_finality finality j l")
        case (Inr w)
        obtain f1 f2 where "w = (f1, f2)" by force
        with Inr False PrepareEnactment show ?thesis
          by (cases "calculate_timelock (lm_config l) f1 f2")
            (auto simp: finalize_and_prepare_enactment_def snd_tryR_okR)
      qed (use PrepareEnactment in \<open>simp add: finalize_and_prepare_enactment_def\<close>)
      with assms(1) show ?thesis by simp
    qed
  next
    case (EnactProposal now j)
    show ?thesis
    proof (cases "lm_proposals l j")
      case None
      with assms(1) EnactProposal show ?thesis by (auto simp: enact_proposal_def)
    next
      case (Some q)
      show ?thesis
        using enact_proposal_status [OF Some, of blake3 hex E now] EnactProposal assms(1) Some one [of p]
        by (cases "gp_status q = Enacting \<and> j = i"; cases "fst (enact_proposal blake3 hex E now j l)")
          (auto simp: proposal_is_terminal_def)
    qed
  qed (use assms in \<open>auto simp: register_proposal_message_def\<close>)
qed

theorem proposals_follow_protocol_witness:
  "\<exists>p'. lm_proposals (lm_exec id (\<lambda>_. []) (memory_ops (\<lambda>_. [])) (BeginEnactment [7] 5) demo_manager) [7] = Some p' \<and>
    can_transition_to\<^sup>*\<^sup>* Voting (gp_status p') \<and>
    (proposal_is_terminal Voting \<longrightarrow> p' = demo_proposal\<lparr>gp_voting_end := 604800000, gp_status := Voting\<rparr>)"
  using proposals_follow_protocol [OF demo_manager_proposal, of "BeginEnactment [7] 5" id "\<lambda>_. []" "memory_ops (\<lambda>_. [])"] by simp

text \<open>A proposal that was already decided starts over when it is submitted again: with a proposer of enough
  reputation, submitting a proposal whose id exists puts it back to voting, keeping the votes already cast.\<close>

theorem resubmission_reopens:
  assumes "lc_min_proposer_reputation (lm_config l) \<le> get_reputation (lm_tracker l) (gp_proposer p)"
  shows "\<exists>p' l'. submit_proposal p l = (Inr (gp_proposal_id p), l') \<and> lm_proposals l' (gp_proposal_id p) = Some p' \<and>
    gp_status p' = Voting \<and> get_votes l' (gp_proposal_id p) = get_votes l (gp_proposal_id p)"
  using assms by (simp add: submit_proposal_def Let_def get_votes_def)

theorem resubmission_reopens_witness:
  "\<exists>p' l'. submit_proposal demo_proposal demo_manager = (Inr [7], l') \<and> lm_proposals l' [7] = Some p' \<and>
    gp_status p' = Voting \<and> get_votes l' [7] = get_votes demo_manager [7]"
proof -
  have "lc_min_proposer_reputation (lm_config demo_manager) \<le> get_reputation (lm_tracker demo_manager) (gp_proposer demo_proposal)"
    by (simp add: demo_manager_def lm_run_def submit_proposal_def lifecycle_manager_new_def demo_tracker_def put_score_def
        demo_proposal_def get_reputation_def lifecycle_config_default_def set_proposal_def)
  from resubmission_reopens [OF this] show ?thesis by (simp add: demo_proposal_def)
qed

text \<open>Enactment is not atomic: a proposal with a valid and an invalid parameter change fails, and the valid
  change stays in force.\<close>

theorem failed_enactment_keeps_changes:
  "let l = demo_manager\<lparr>lm_params := Some parameter_store_new,
         lm_proposals := [[7] \<mapsto> demo_proposal\<lparr>gp_status := Enacting\<rparr>]\<rparr>;
       (r, l') = enact_proposal blake3 hex E now [7] l
   in r = Inl (ParameterUpdateFailed ''q'') \<and> map_option gp_status (lm_proposals l' [7]) = Some EnactFailed \<and>
      map_option (\<lambda>s. param_get s ''k'') (lm_params l') = Some (Some (JPos 25))"
proof -
  have q: "ps_metadata parameter_store_new ''q'' = Some \<lparr>pm_key = ''q'', pm_type = ''U8'', pm_class = ''Constitutional'',
     pm_default = JPos 3, pm_validation = Range (JPos 2) (JPos 5)\<rparr>"
    by (simp add: parameter_store_new_tables default_parameters_def)
  show ?thesis
    by (simp add: enact_proposal_def enact_parameters_def demo_proposal_def as_object_def
        apply_governance_change_def get_metadata_def param_new_lookup q validate_value_def value_gte_def value_in_range_def
        as_f64_def round53_small param_get_def tryR_def)
qed

end
