(* ===== verification/Pouw_Tasks.thy ===== *)
theory Pouw_Tasks
  imports Deposit_Escrow Reputation Bls_Coordinator
begin

text \<open>
  Proof-of-useful-work tasks: the data of \<open>crates/adic-pouw/src/types.rs\<close> that the managers use
  and the task manager of \<open>task_manager.rs\<close>, which takes tasks, escrows their rewards and
  moves them through their life cycle. The escrow manager is part of its state, the reputation tracker
  a field it reads. Texts are UTF-8 byte strings. The texts of errors and all log output are left out,
  except that the log line of a submitted result slices the first 16 bytes of a text chosen by the
  worker, which panics on shorter ones: \<open>info_enabled\<close> tells whether that line is evaluated.
\<close>

section \<open>Tasks\<close>

type_synonym task_id = bytes

datatype computation_type = HashVerification | DataProcessing | ModelInference | CustomComputation bytes

record resource_requirements =
  rr_max_cpu_ms :: u64
  rr_max_memory_mb :: u64
  rr_max_storage_mb :: u64
  rr_max_network_kb :: u64

datatype task_type =
    ComputeTask computation_type resource_requirements
  | ValidationTask task_id bytes
  | StorageTask bytes u64 byte
  | AggregationTask "task_id list" bytes

datatype task_status =
    TaskSubmitted | TaskFinalized | TaskAssigned | TaskInProgress | TaskResultSubmitted | TaskValidating
  | TaskChallenging | TaskCompleted | TaskFailed | TaskDisputed | TaskSlashed | TaskExpired

datatype task_finality = FinalityPending | F1Complete | F2Complete

definition task_is_terminal :: "task_status \<Rightarrow> bool" where
  "task_is_terminal s \<longleftrightarrow> s \<in> {TaskCompleted, TaskFailed, TaskSlashed, TaskExpired}"

fun task_can_transition :: "task_status \<Rightarrow> task_status \<Rightarrow> bool" where
  "task_can_transition TaskSubmitted t \<longleftrightarrow> t \<in> {TaskFinalized, TaskFailed, TaskExpired}"
| "task_can_transition TaskFinalized t \<longleftrightarrow> t \<in> {TaskAssigned, TaskExpired}"
| "task_can_transition TaskAssigned t \<longleftrightarrow> t \<in> {TaskInProgress, TaskExpired}"
| "task_can_transition TaskInProgress t \<longleftrightarrow> t \<in> {TaskResultSubmitted, TaskFailed, TaskExpired}"
| "task_can_transition TaskResultSubmitted t \<longleftrightarrow> t \<in> {TaskValidating, TaskFailed}"
| "task_can_transition TaskValidating t \<longleftrightarrow> t \<in> {TaskChallenging, TaskCompleted, TaskFailed}"
| "task_can_transition TaskChallenging t \<longleftrightarrow> t \<in> {TaskCompleted, TaskDisputed, TaskFailed}"
| "task_can_transition TaskDisputed t \<longleftrightarrow> t \<in> {TaskCompleted, TaskSlashed, TaskFailed}"
| "task_can_transition _ t \<longleftrightarrow> False"

record task =
  tk_id :: task_id
  tk_sponsor :: public_key
  tk_type :: task_type
  tk_input_cid :: bytes
  tk_output_schema :: "bytes option"
  tk_reward :: adic_amount
  tk_collateral :: adic_amount
  tk_deadline :: u64
  tk_min_reputation :: f64
  tk_worker_count :: byte
  tk_created_at :: i64
  tk_status :: task_status
  tk_finality :: task_finality

record work_assignment =
  wa_id :: bytes
  wa_task_id :: task_id
  wa_worker :: public_key
  wa_epoch :: u64
  wa_vrf_proof :: bytes
  wa_index :: byte
  wa_lock :: "string option"
  wa_timestamp :: i64

datatype proof_type = MerkleTreeProof | StateTransitionProof | ZKProof | ReExecutionProof

record execution_proof =
  ep_type :: proof_type
  ep_merkle_root :: bytes
  ep_states :: "bytes list"
  ep_data :: bytes

record execution_metrics =
  em_cpu_ms :: u64
  em_memory_mb :: u64
  em_storage_mb :: u64
  em_network_kb :: u64
  em_start :: i64
  em_end :: i64

record work_result =
  wr_id :: bytes
  wr_task_id :: task_id
  wr_worker :: public_key
  wr_output_cid :: bytes
  wr_proof :: execution_proof
  wr_metrics :: execution_metrics
  wr_signature :: bytes
  wr_submitted_at :: i64

datatype validation_result = ResultAccepted | ResultRejected | ResultInconclusive

record validation_evidence =
  ve_validator :: public_key
  ve_vote :: bool
  ve_re_execution :: "bytes option"
  ve_details :: "bytes option"
  ve_signature :: bytes

record validation_report =
  vr_id :: bytes
  vr_task_id :: task_id
  vr_result_id :: bytes
  vr_validators :: "public_key list"
  vr_votes_for :: nat
  vr_votes_against :: nat
  vr_signature :: bytes
  vr_result :: validation_result
  vr_evidence :: "validation_evidence list"
  vr_epoch :: u64
  vr_timestamp :: i64

datatype task_outcome = OutcomeSuccess | OutcomeFailure | OutcomePartial | OutcomeSlashed | OutcomeExpired

datatype reputation_reason =
  WorkAccepted f64 | WorkRejected f64 | DeadlineMissed | FraudDetectedReason | ValidationPerformed bool

record reputation_update =
  ru_account :: public_key
  ru_old :: f64
  ru_new :: f64
  ru_reason :: reputation_reason
  ru_quality :: f64

datatype reward_type = BaseReward | QualityBonus | SpeedBonus | ValidationReward

record vesting_schedule =
  vs_total :: adic_amount
  vs_per_epoch :: adic_amount
  vs_start :: u64
  vs_duration :: u64

record reward_distribution =
  rd_recipient :: public_key
  rd_amount :: adic_amount
  rd_type :: reward_type
  rd_vesting :: "vesting_schedule option"

datatype slashing_reason = IncorrectResult | MissedDeadline | ProvenFraud | ResourceAbuse

record slashing_event =
  se_account :: public_key
  se_amount :: adic_amount
  se_reason :: slashing_reason
  se_evidence :: bytes
  se_beneficiary :: "public_key option"

record task_receipt =
  tr_id :: bytes
  tr_task_id :: task_id
  tr_outcome :: task_outcome
  tr_workers :: "public_key list"
  tr_reputation :: "reputation_update list"
  tr_rewards :: "reward_distribution list"
  tr_slashing :: "slashing_event list"
  tr_epoch :: u64
  tr_timestamp :: i64
  tr_signature :: bytes
  tr_quorum :: "public_key list"

record task_stats =
  tt_total :: u64
  tt_active :: u64
  tt_completed :: u64
  tt_failed :: u64
  tt_rewards :: adic_amount
  tt_slashed :: adic_amount

section \<open>The task manager\<close>

record task_manager_config =
  tc_min_deposit :: adic_amount
  tc_max_duration :: u64
  tc_min_sponsor_reputation :: f64
  tc_challenge_window :: u64
  tc_max_workers :: byte

definition task_manager_config_default :: task_manager_config where
  "task_manager_config_default =
     \<lparr>tc_min_deposit = amt_from_adic 1, tc_max_duration = 100, tc_min_sponsor_reputation = 100,
      tc_challenge_window = 5, tc_max_workers = 10\<rparr>"

record 's task_manager =
  tm_escrow :: "'s escrow_manager"
  tm_tracker :: reputation_tracker
  tm_tasks :: "task_id \<rightharpoonup> task"
  tm_assignments :: "task_id \<rightharpoonup> work_assignment list"
  tm_results :: "task_id \<rightharpoonup> work_result list"
  tm_reports :: "task_id \<rightharpoonup> validation_report"
  tm_receipts :: "task_id \<rightharpoonup> task_receipt"
  tm_config :: task_manager_config

type_synonym ('s, 'a) task_op = "(pouw_error, 's task_manager, 'a) rop"

definition task_manager_new :: "'s escrow_manager \<Rightarrow> reputation_tracker \<Rightarrow> task_manager_config \<Rightarrow> 's task_manager" where
  "task_manager_new escrow tracker config =
     \<lparr>tm_escrow = escrow, tm_tracker = tracker, tm_tasks = Map.empty, tm_assignments = Map.empty, tm_results = Map.empty,
      tm_reports = Map.empty, tm_receipts = Map.empty, tm_config = config\<rparr>"

definition validate_task :: "task_manager_config \<Rightarrow> task \<Rightarrow> u64 \<Rightarrow> pouw_error + unit" where
  "validate_task config t current_epoch =
     (if tk_deadline t \<le> current_epoch then Inl (DeadlineExceeded (tk_deadline t) current_epoch)
      else if tc_max_duration config < tk_deadline t - current_epoch then Inl InvalidTaskInput
      else if tk_worker_count t = 0 then Inl InvalidTaskInput
      else if tc_max_workers config < tk_worker_count t then Inl InvalidTaskInput
      else if tk_reward t \<le> amt_from_adic 0 then Inl InvalidTaskInput
      else if tk_collateral t < amt_from_adic 0 then Inl InvalidTaskInput
      else if tk_input_cid t = [] then Inl InvalidTaskInput
      else Inr ())"

definition set_task :: "task \<Rightarrow> 's task_manager \<Rightarrow> 's task_manager" where
  "set_task t m = m\<lparr>tm_tasks := (tm_tasks m)(tk_id t \<mapsto> t)\<rparr>"

definition set_task_status :: "task_id \<Rightarrow> task \<Rightarrow> task_status \<Rightarrow> 's task_manager \<Rightarrow> 's task_manager" where
  "set_task_status i t s m = m\<lparr>tm_tasks := (tm_tasks m)(i \<mapsto> t\<lparr>tk_status := s\<rparr>)\<rparr>"

definition on_escrow :: "('s, 'a) escrow_op \<Rightarrow> ('s, 'a) task_op" where
  "on_escrow = lift_op tm_escrow (\<lambda>e m. m\<lparr>tm_escrow := e\<rparr>) (\<lambda>_. PouwEscrowError)"

definition submit_task :: "(u64 \<Rightarrow> string) \<Rightarrow> (bytes \<Rightarrow> string) \<Rightarrow> (bytes \<Rightarrow> bytes) \<Rightarrow> 's econ_ops \<Rightarrow> i64 \<Rightarrow> task \<Rightarrow> u64 \<Rightarrow>
    ('s, task_id) task_op" where
  "submit_task dec hex blake3 E now t current_epoch m =
     (let sponsor_rep = get_reputation (tm_tracker m) (tk_sponsor t) in
      if sponsor_rep < tc_min_sponsor_reputation (tm_config m)
      then errR (PouwInsufficientReputation (tc_min_sponsor_reputation (tm_config m)) sponsor_rep) m
      else case validate_task (tm_config m) t current_epoch of
          Inl e \<Rightarrow> errR e m
        | Inr _ \<Rightarrow>
            (case amt_checked_add (tk_reward t) (tc_min_deposit (tm_config m)) of
               None \<Rightarrow> errR PouwOther m
             | Some total_escrow \<Rightarrow>
                 tryR (on_escrow (escrow_lock dec hex E now
                     (Custom (''pouw_task_'' @ hex (take 8 (tk_id t))) (address_from_public_key blake3 (tk_sponsor t)))
                     total_escrow current_epoch)) (\<lambda>_.
                 tryR (modR (set_task (t\<lparr>tk_status := TaskSubmitted, tk_finality := FinalityPending\<rparr>))) (\<lambda>_.
                 okR (tk_id t))) m))"

definition mark_task_finalized :: "task_id \<Rightarrow> ('s, unit) task_op" where
  "mark_task_finalized i m =
     (case tm_tasks m i of
        None \<Rightarrow> errR TaskNotFound m
      | Some t \<Rightarrow>
          (if tk_status t \<noteq> TaskSubmitted then errR InvalidTaskState m
           else okR () (set_task_status i (t\<lparr>tk_finality := F1Complete\<rparr>) TaskFinalized m)))"

definition record_worker_assignments :: "task_id \<Rightarrow> work_assignment list \<Rightarrow> ('s, unit) task_op" where
  "record_worker_assignments i assignments m =
     (case tm_tasks m i of
        None \<Rightarrow> errR TaskNotFound m
      | Some t \<Rightarrow>
          (if tk_status t \<noteq> TaskFinalized then errR InvalidTaskState m
           else if length assignments \<noteq> unat (tk_worker_count t) then errR PouwOther m
           else okR () ((set_task_status i t TaskAssigned m)\<lparr>tm_assignments := (tm_assignments m)(i \<mapsto> assignments)\<rparr>)))"

text \<open>\<open>&s[..16]\<close> on a UTF-8 string.\<close>

definition slice_16_ok :: "bytes \<Rightarrow> bool" where
  "slice_16_ok s \<longleftrightarrow> length s = 16 \<or> (16 < length s \<and> \<not> (128 \<le> s ! 16 \<and> s ! 16 < 192))"

definition results_of :: "'s task_manager \<Rightarrow> task_id \<Rightarrow> work_result list" where
  "results_of m i = (case tm_results m i of None \<Rightarrow> [] | Some rs \<Rightarrow> rs)"

definition submit_work_result :: "bool \<Rightarrow> work_result \<Rightarrow> u64 \<Rightarrow> ('s, bytes) task_op" where
  "submit_work_result info_enabled result current_epoch m =
     (let i = wr_task_id result in
      case tm_tasks m i of
        None \<Rightarrow> errR TaskNotFound m
      | Some t \<Rightarrow>
          (if tk_deadline t < current_epoch then errR (DeadlineExceeded (tk_deadline t) current_epoch) m
           else case tm_assignments m i of
             None \<Rightarrow> errR PouwOther m
           | Some assignments \<Rightarrow>
               (if \<not> list_ex (\<lambda>a. wa_worker a = wr_worker result) assignments then errR WorkerNotEligible m
                else if list_ex (\<lambda>r. wr_worker r = wr_worker result) (results_of m i) then errR ResultAlreadySubmitted m
                else
                  (let t = (if tk_status t = TaskAssigned then t\<lparr>tk_status := TaskInProgress\<rparr> else t);
                       results = results_of m i @ [result];
                       t = (if length results = unat (tk_worker_count t) then t\<lparr>tk_status := TaskResultSubmitted\<rparr> else t);
                       m' = m\<lparr>tm_tasks := (tm_tasks m)(i \<mapsto> t), tm_results := (tm_results m)(i \<mapsto> results)\<rparr>
                   in if info_enabled \<and> \<not> slice_16_ok (wr_output_cid result) then errR (PouwPanic IndexOutOfBounds) m'
                      else okR (wr_id result) m'))))"

definition record_validation_report :: "validation_report \<Rightarrow> ('s, unit) task_op" where
  "record_validation_report report m =
     (let i = vr_task_id report in
      case tm_tasks m i of
        None \<Rightarrow> errR TaskNotFound m
      | Some t \<Rightarrow>
          (if tk_status t \<noteq> TaskResultSubmitted then errR InvalidTaskState m
           else okR () ((set_task_status i t TaskValidating m)\<lparr>tm_reports := (tm_reports m)(i \<mapsto> report)\<rparr>)))"

definition begin_challenge_period :: "task_id \<Rightarrow> u64 \<Rightarrow> ('s, u64) task_op" where
  "begin_challenge_period i current_epoch m =
     (case tm_tasks m i of
        None \<Rightarrow> errR TaskNotFound m
      | Some t \<Rightarrow>
          (if tk_status t \<noteq> TaskValidating then errR InvalidTaskState m
           else okR (current_epoch + tc_challenge_window (tm_config m)) (set_task_status i t TaskChallenging m)))"

definition get_task :: "'s task_manager \<Rightarrow> task_id \<Rightarrow> task option" where
  "get_task m i = tm_tasks m i"

definition get_work_assignments :: "'s task_manager \<Rightarrow> task_id \<Rightarrow> work_assignment list option" where
  "get_work_assignments m i = tm_assignments m i"

definition get_work_results :: "'s task_manager \<Rightarrow> task_id \<Rightarrow> work_result list option" where
  "get_work_results m i = tm_results m i"

definition get_validation_report :: "'s task_manager \<Rightarrow> task_id \<Rightarrow> validation_report option" where
  "get_validation_report m i = tm_reports m i"

definition get_task_receipt :: "'s task_manager \<Rightarrow> task_id \<Rightarrow> task_receipt option" where
  "get_task_receipt m i = tm_receipts m i"

definition get_tasks_by_status :: "'s task_manager \<Rightarrow> task_status \<Rightarrow> task set" where
  "get_tasks_by_status m s = {t \<in> ran (tm_tasks m). tk_status t = s}"

definition tasks_pending_assignment :: "'s task_manager \<Rightarrow> task set" where
  "tasks_pending_assignment m = get_tasks_by_status m TaskFinalized"

definition tasks_ready_for_validation :: "'s task_manager \<Rightarrow> task set" where
  "tasks_ready_for_validation m = get_tasks_by_status m TaskResultSubmitted"

definition add_or_keep :: "adic_amount \<Rightarrow> adic_amount \<Rightarrow> adic_amount" where
  "add_or_keep acc x = (case amt_checked_add acc x of None \<Rightarrow> acc | Some y \<Rightarrow> y)"

definition get_task_stats :: "(task set \<Rightarrow> task list) \<Rightarrow> (task_receipt set \<Rightarrow> task_receipt list) \<Rightarrow> 's task_manager \<Rightarrow> task_stats" where
  "get_task_stats ord ord_receipts m =
     (let statuses = map tk_status (ord (ran (tm_tasks m))); receipts = ord_receipts (ran (tm_receipts m));
          in_state = (\<lambda>S. of_nat (length (filter (\<lambda>s. s \<in> S) statuses)))
      in \<lparr>tt_total = of_nat (card (dom (tm_tasks m))),
          tt_active = in_state {TaskSubmitted, TaskFinalized, TaskAssigned, TaskInProgress, TaskResultSubmitted, TaskValidating, TaskChallenging},
          tt_completed = in_state {TaskCompleted},
          tt_failed = in_state {TaskFailed, TaskSlashed, TaskExpired},
          tt_rewards = foldl add_or_keep (amt_from_adic 0) (map rd_amount (concat (map tr_rewards receipts))),
          tt_slashed = foldl add_or_keep (amt_from_adic 0) (map se_amount (concat (map tr_slashing receipts)))\<rparr>)"

section \<open>Runs\<close>

datatype task_cmd =
    CmdSubmit i64 task u64
  | CmdFinalized task_id
  | CmdAssign task_id "work_assignment list"
  | CmdResult bool work_result u64
  | CmdReport validation_report
  | CmdChallenge task_id u64

record 's task_env =
  te_dec :: "u64 \<Rightarrow> string"
  te_hex :: "bytes \<Rightarrow> string"
  te_blake3 :: "bytes \<Rightarrow> bytes"
  te_econ :: "'s econ_ops"

fun task_exec :: "'s task_env \<Rightarrow> task_cmd \<Rightarrow> 's task_manager \<Rightarrow> 's task_manager" where
  "task_exec v (CmdSubmit now t epoch) m = snd (submit_task (te_dec v) (te_hex v) (te_blake3 v) (te_econ v) now t epoch m)"
| "task_exec v (CmdFinalized i) m = snd (mark_task_finalized i m)"
| "task_exec v (CmdAssign i assignments) m = snd (record_worker_assignments i assignments m)"
| "task_exec v (CmdResult info r epoch) m = snd (submit_work_result info r epoch m)"
| "task_exec v (CmdReport report) m = snd (record_validation_report report m)"
| "task_exec v (CmdChallenge i epoch) m = snd (begin_challenge_period i epoch m)"

text \<open>The identifier of a task is its content hash, so no two tasks share one.\<close>

fun fresh_cmd :: "'s task_manager \<Rightarrow> task_cmd \<Rightarrow> bool" where
  "fresh_cmd m (CmdSubmit now t epoch) \<longleftrightarrow> tm_tasks m (tk_id t) = None"
| "fresh_cmd m _ \<longleftrightarrow> True"

inductive task_reach :: "'s task_env \<Rightarrow> 's task_manager \<Rightarrow> 's task_manager \<Rightarrow> bool" for v m0 where
  init: "task_reach v m0 m0"
| step: "task_reach v m0 m \<Longrightarrow> fresh_cmd m c \<Longrightarrow> task_reach v m0 (task_exec v c m)"

section \<open>The life cycle\<close>

text \<open>What a status says about the assignments and results of the task.\<close>

definition task_ok :: "work_assignment list option \<Rightarrow> work_result list \<Rightarrow> task \<Rightarrow> bool" where
  "task_ok assignments results t \<longleftrightarrow>
     (let n = unat (tk_worker_count t); done = map wr_worker results;
          workers = (case assignments of None \<Rightarrow> [] | Some as \<Rightarrow> map wa_worker as)
      in distinct done \<and> set done \<subseteq> set workers \<and>
         (if tk_status t \<in> {TaskSubmitted, TaskFinalized} then done = [] \<and> assignments = None
          else length workers = n \<and>
            (if tk_status t = TaskAssigned then done = [] \<and> 0 < n
             else if tk_status t = TaskInProgress then 0 < length done \<and> length done < n
             else tk_status t \<in> {TaskResultSubmitted, TaskValidating, TaskChallenging} \<and> length done = n)))"

definition entry_ok :: "task option \<Rightarrow> work_assignment list option \<Rightarrow> work_result list \<Rightarrow> bool" where
  "entry_ok stored assignments results \<longleftrightarrow>
     (case stored of None \<Rightarrow> results = [] \<and> assignments = None
      | Some t \<Rightarrow> task_ok assignments results t \<and> 0 < tk_worker_count t)"

definition tasks_ok :: "'s task_manager \<Rightarrow> bool" where
  "tasks_ok m \<longleftrightarrow>
     (\<forall>i. entry_ok (tm_tasks m i) (tm_assignments m i) (results_of m i)) \<and> tm_receipts m = Map.empty"

text \<open>An operation changes tasks along the allowed transitions and keeps what was agreed.\<close>

definition moves :: "'s task_manager \<Rightarrow> 's task_manager \<Rightarrow> bool" where
  "moves m m' \<longleftrightarrow> (\<forall>i t. tm_tasks m i = Some t \<longrightarrow>
     (\<exists>t'. tm_tasks m' i = Some t' \<and> task_can_transition\<^sup>*\<^sup>* (tk_status t) (tk_status t') \<and>
        tk_reward t' = tk_reward t \<and> tk_worker_count t' = tk_worker_count t \<and> tk_deadline t' = tk_deadline t))"

lemma moves_refl [simp]: "moves m m"
  by (auto simp: moves_def)

lemma tasks_ok_new: "tasks_ok (task_manager_new escrow tracker config)"
  by (simp add: tasks_ok_def task_manager_new_def results_of_def entry_ok_def)

lemma tasks_ok_entry: "tasks_ok m \<Longrightarrow> entry_ok (tm_tasks m i) (tm_assignments m i) (results_of m i)"
  by (simp add: tasks_ok_def)

lemma tasks_ok_get:
  "tasks_ok m \<Longrightarrow> tm_tasks m i = Some t \<Longrightarrow> task_ok (tm_assignments m i) (results_of m i) t \<and> 0 < tk_worker_count t"
  using tasks_ok_entry [of m i] by (simp add: entry_ok_def)

lemma tasks_ok_none:
  "tasks_ok m \<Longrightarrow> tm_tasks m i = None \<Longrightarrow> results_of m i = [] \<and> tm_assignments m i = None"
  using tasks_ok_entry [of m i] by (simp add: entry_ok_def)

lemma set_task_escrow: "set_task t (m\<lparr>tm_escrow := e\<rparr>) = (set_task t m)\<lparr>tm_escrow := e\<rparr>"
  by (cases m) (simp add: set_task_def)

lemma escrow_irrelevant [simp]:
  "tasks_ok (n\<lparr>tm_escrow := e\<rparr>) = tasks_ok n"
  "moves m (n\<lparr>tm_escrow := e\<rparr>) = moves m n"
  by (simp_all add: tasks_ok_def results_of_def moves_def)

text \<open>A step that rewrites one entry.\<close>

lemma rewrite_entry:
  assumes "tasks_ok m" and "entry_ok (Some t') a rs"
    and "tm_tasks m' = (tm_tasks m)(i \<mapsto> t')" and "tm_assignments m' i = a" and "results_of m' i = rs"
    and "tm_receipts m' = tm_receipts m"
    and "\<And>j. j \<noteq> i \<Longrightarrow> tm_assignments m' j = tm_assignments m j \<and> results_of m' j = results_of m j"
  shows "tasks_ok m'"
  unfolding tasks_ok_def
proof (intro conjI allI)
  show "entry_ok (tm_tasks m' j) (tm_assignments m' j) (results_of m' j)" for j
  proof (cases "j = i")
    case True
    with assms(2-5) show ?thesis by simp
  next
    case False
    then have "tm_tasks m' j = tm_tasks m j" by (simp add: assms(3))
    with assms(1) show ?thesis
      unfolding tasks_ok_def by (simp only: assms(7) [OF False])
  qed
  show "tm_receipts m' = Map.empty"
    using assms(1,6) by (simp add: tasks_ok_def)
qed

lemma move_entry:
  assumes "tasks_ok m" and "tm_tasks m i = Some t" and "tm_tasks m' = (tm_tasks m)(i \<mapsto> t')"
    and "entry_ok (Some t') (tm_assignments m' i) (results_of m' i)"
    and "task_can_transition\<^sup>*\<^sup>* (tk_status t) (tk_status t')"
    and "tk_reward t' = tk_reward t" "tk_worker_count t' = tk_worker_count t" "tk_deadline t' = tk_deadline t"
    and "tm_receipts m' = tm_receipts m"
    and "\<And>j. j \<noteq> i \<Longrightarrow> tm_assignments m' j = tm_assignments m j \<and> results_of m' j = results_of m j"
  shows "tasks_ok m' \<and> moves m m'"
proof
  show "tasks_ok m'"
    by (rule rewrite_entry [OF assms(1,4,3) refl refl assms(9,10)])
  show "moves m m'"
    unfolding moves_def
  proof (intro allI impI)
    fix j u assume u: "tm_tasks m j = Some u"
    show "\<exists>u'. tm_tasks m' j = Some u' \<and> task_can_transition\<^sup>*\<^sup>* (tk_status u) (tk_status u') \<and>
        tk_reward u' = tk_reward u \<and> tk_worker_count u' = tk_worker_count u \<and> tk_deadline u' = tk_deadline u"
    proof (cases "j = i")
      case True
      with u assms(2) have "u = t" by simp
      then show ?thesis using True assms(3,5-8) by simp
    next
      case False
      with u show ?thesis by (simp add: assms(3))
    qed
  qed
qed

lemmas status_steps = r_into_rtranclp [of task_can_transition]

lemma submit_task_effect:
  assumes "submit_task dec hex blake3 E now t epoch m = (r, m')"
  shows "(\<exists>e. m' = m\<lparr>tm_escrow := e\<rparr>) \<or>
    0 < tk_worker_count t \<and>
    (\<exists>e. m' = (set_task (t\<lparr>tk_status := TaskSubmitted, tk_finality := FinalityPending\<rparr>) m)\<lparr>tm_escrow := e\<rparr>)"
proof -
  let ?t = "t\<lparr>tk_status := TaskSubmitted, tk_finality := FinalityPending\<rparr>"
  have refl': "\<exists>e. m = m\<lparr>tm_escrow := e\<rparr>" by (rule exI [of _ "tm_escrow m"]) simp
  show ?thesis
  proof (cases "get_reputation (tm_tracker m) (tk_sponsor t) < tc_min_sponsor_reputation (tm_config m)")
    case True
    then have "m' = m" using assms by (simp add: submit_task_def errR_def)
    then show ?thesis using refl' by simp
  next
    case rep: False
    show ?thesis
    proof (cases "validate_task (tm_config m) t epoch")
      case (Inl e)
      then have "m' = m" using assms rep by (simp add: submit_task_def errR_def)
      then show ?thesis using refl' by simp
    next
      case valid: (Inr u)
      then have count: "0 < tk_worker_count t"
        by (auto simp: validate_task_def word_neq_0_conv split: if_splits)
      show ?thesis
      proof (cases "amt_checked_add (tk_reward t) (tc_min_deposit (tm_config m))")
        case None
        then have "m' = m" using assms rep valid by (simp add: submit_task_def errR_def)
        then show ?thesis using refl' by simp
      next
        case (Some total_escrow)
        obtain lr e where lock: "escrow_lock dec hex E now
            (Custom (''pouw_task_'' @ hex (take 8 (tk_id t))) (address_from_public_key blake3 (tk_sponsor t)))
            total_escrow epoch (tm_escrow m) = (lr, e)" by force
        show ?thesis
        proof (cases lr)
          case (Inl err)
          then have "m' = m\<lparr>tm_escrow := e\<rparr>"
            using assms rep valid Some lock by (simp add: submit_task_def tryR_def on_escrow_def lift_op_def)
          then show ?thesis by blast
        next
          case (Inr l)
          then have "m' = (set_task ?t m)\<lparr>tm_escrow := e\<rparr>"
            using assms rep valid Some lock
            by (simp add: submit_task_def tryR_def on_escrow_def lift_op_def set_task_escrow)
          then show ?thesis using count by blast
        qed
      qed
    qed
  qed
qed

lemma submit_task_ok:
  assumes "tasks_ok m" and "tm_tasks m (tk_id t) = None"
  shows "tasks_ok (snd (submit_task dec hex blake3 E now t epoch m)) \<and> moves m (snd (submit_task dec hex blake3 E now t epoch m))"
proof -
  obtain r m' where run: "submit_task dec hex blake3 E now t epoch m = (r, m')" by force
  let ?t = "t\<lparr>tk_status := TaskSubmitted, tk_finality := FinalityPending\<rparr>"
  have none: "results_of m (tk_id t) = []" "tm_assignments m (tk_id t) = None"
    using tasks_ok_none [OF assms] by simp_all
  have "tasks_ok (set_task ?t m)" if "0 < tk_worker_count t"
    by (rule rewrite_entry [OF assms(1), where i = "tk_id t" and t' = ?t and a = None and rs = "[]"])
      (use none that in \<open>simp_all add: entry_ok_def task_ok_def set_task_def results_of_def\<close>)
  moreover have "moves m (set_task ?t m)"
    using assms(2) by (auto simp: moves_def set_task_def)
  ultimately show ?thesis
    using submit_task_effect [OF run] run assms(1) by auto
qed

lemma mark_task_finalized_ok:
  assumes "tasks_ok m"
  shows "tasks_ok (snd (mark_task_finalized i m)) \<and> moves m (snd (mark_task_finalized i m))"
proof (cases "\<exists>t. tm_tasks m i = Some t \<and> tk_status t = TaskSubmitted")
  case True
  then obtain t where t: "tm_tasks m i = Some t" "tk_status t = TaskSubmitted" by blast
  let ?t = "t\<lparr>tk_finality := F1Complete, tk_status := TaskFinalized\<rparr>"
  have "tasks_ok (set_task_status i (t\<lparr>tk_finality := F1Complete\<rparr>) TaskFinalized m) \<and>
      moves m (set_task_status i (t\<lparr>tk_finality := F1Complete\<rparr>) TaskFinalized m)"
    by (rule move_entry [OF assms t(1), where t' = ?t])
      (use tasks_ok_get [OF assms t(1)] t(2) in
        \<open>simp_all add: entry_ok_def task_ok_def set_task_status_def results_of_def status_steps\<close>)
  then show ?thesis
    by (simp add: mark_task_finalized_def t)
next
  case False
  with assms show ?thesis
    by (auto simp: mark_task_finalized_def errR_def split: option.splits)
qed

lemma record_worker_assignments_ok:
  assumes "tasks_ok m"
  shows "tasks_ok (snd (record_worker_assignments i as m)) \<and> moves m (snd (record_worker_assignments i as m))"
proof (cases "\<exists>t. tm_tasks m i = Some t \<and> tk_status t = TaskFinalized \<and> length as = unat (tk_worker_count t)")
  case True
  then obtain t where t: "tm_tasks m i = Some t" "tk_status t = TaskFinalized" "length as = unat (tk_worker_count t)" by blast
  let ?m = "(set_task_status i t TaskAssigned m)\<lparr>tm_assignments := (tm_assignments m)(i \<mapsto> as)\<rparr>"
  have "tasks_ok ?m \<and> moves m ?m"
    by (rule move_entry [OF assms t(1), where t' = "t\<lparr>tk_status := TaskAssigned\<rparr>"])
      (use tasks_ok_get [OF assms t(1)] t(2,3) in
        \<open>simp_all add: entry_ok_def task_ok_def set_task_status_def results_of_def status_steps word_less_nat_alt\<close>)
  then show ?thesis
    by (simp add: record_worker_assignments_def t)
next
  case False
  with assms show ?thesis
    by (auto simp: record_worker_assignments_def errR_def split: option.splits)
qed

lemma record_validation_report_ok:
  assumes "tasks_ok m"
  shows "tasks_ok (snd (record_validation_report report m)) \<and> moves m (snd (record_validation_report report m))"
proof (cases "\<exists>t. tm_tasks m (vr_task_id report) = Some t \<and> tk_status t = TaskResultSubmitted")
  case True
  define i where "i = vr_task_id report"
  from True obtain t where t: "tm_tasks m i = Some t" "tk_status t = TaskResultSubmitted" unfolding i_def by blast
  let ?m = "(set_task_status i t TaskValidating m)\<lparr>tm_reports := (tm_reports m)(i \<mapsto> report)\<rparr>"
  have "tasks_ok ?m \<and> moves m ?m"
    by (rule move_entry [OF assms t(1), where t' = "t\<lparr>tk_status := TaskValidating\<rparr>"])
      (use tasks_ok_get [OF assms t(1)] t(2) in
        \<open>simp_all add: entry_ok_def task_ok_def set_task_status_def results_of_def status_steps\<close>)
  then show ?thesis
    using t unfolding i_def by (simp add: record_validation_report_def Let_def)
next
  case False
  with assms show ?thesis
    by (auto simp: record_validation_report_def Let_def errR_def split: option.splits)
qed

lemma begin_challenge_period_ok:
  assumes "tasks_ok m"
  shows "tasks_ok (snd (begin_challenge_period i epoch m)) \<and> moves m (snd (begin_challenge_period i epoch m))"
proof (cases "\<exists>t. tm_tasks m i = Some t \<and> tk_status t = TaskValidating")
  case True
  then obtain t where t: "tm_tasks m i = Some t" "tk_status t = TaskValidating" by blast
  let ?m = "set_task_status i t TaskChallenging m"
  have "tasks_ok ?m \<and> moves m ?m"
    by (rule move_entry [OF assms t(1), where t' = "t\<lparr>tk_status := TaskChallenging\<rparr>"])
      (use tasks_ok_get [OF assms t(1)] t(2) in
        \<open>simp_all add: entry_ok_def task_ok_def set_task_status_def results_of_def status_steps\<close>)
  then show ?thesis
    by (simp add: begin_challenge_period_def t)
next
  case False
  with assms show ?thesis
    by (auto simp: begin_challenge_period_def errR_def split: option.splits)
qed


text \<open>The worker of a new result has none yet, so the results do not exceed the assignments.\<close>

lemma next_result_fits:
  assumes "distinct done" and "set done \<subseteq> set workers" and "w \<in> set workers" and "w \<notin> set done"
  shows "length done < length workers"
proof -
  have "length done < card (insert w (set done))"
    using assms(1,4) by (simp add: distinct_card)
  also have "\<dots> \<le> card (set workers)"
    using assms(2,3) by (intro card_mono) auto
  also have "\<dots> \<le> length workers" by (rule card_length)
  finally show ?thesis .
qed

definition after_result :: "task \<Rightarrow> nat \<Rightarrow> task" where
  "after_result t k =
     (let t = (if tk_status t = TaskAssigned then t\<lparr>tk_status := TaskInProgress\<rparr> else t)
      in if k = unat (tk_worker_count t) then t\<lparr>tk_status := TaskResultSubmitted\<rparr> else t)"

lemma result_keeps_entry:
  assumes ok: "task_ok assignments rs t" and as: "assignments = Some as"
    and worker: "wr_worker r \<in> wa_worker ` set as" and fresh: "wr_worker r \<notin> wr_worker ` set rs"
  shows "task_ok assignments (rs @ [r]) (after_result t (Suc (length rs))) \<and>
    task_can_transition\<^sup>*\<^sup>* (tk_status t) (tk_status (after_result t (Suc (length rs))))"
proof -
  let ?n = "unat (tk_worker_count t)" and ?done = "map wr_worker rs" and ?workers = "map wa_worker as"
  have less: "length rs < length as"
    using next_result_fits [of ?done ?workers "wr_worker r"] ok as worker fresh
    by (simp add: task_ok_def Let_def)
  have status: "tk_status t = TaskAssigned \<or> tk_status t = TaskInProgress" "length as = ?n"
    using ok as less by (auto simp: task_ok_def Let_def split: if_splits)
  have two: "task_can_transition\<^sup>*\<^sup>* TaskAssigned TaskResultSubmitted"
    by (rule rtranclp.rtrancl_into_rtrancl [OF status_steps [of _ TaskInProgress]]) simp_all
  show ?thesis
  proof (cases "Suc (length rs) = ?n")
    case True
    with ok as worker fresh status two show ?thesis
      by (auto simp: task_ok_def after_result_def Let_def status_steps)
  next
    case False
    with ok as worker fresh status less show ?thesis
      by (auto simp: task_ok_def after_result_def Let_def status_steps)
  qed
qed

lemma submit_work_result_run:
  "submit_work_result info r epoch m =
     (case tm_tasks m (wr_task_id r) of
        None \<Rightarrow> (Inl TaskNotFound, m)
      | Some t \<Rightarrow>
          (if tk_deadline t < epoch then (Inl (DeadlineExceeded (tk_deadline t) epoch), m)
           else case tm_assignments m (wr_task_id r) of
             None \<Rightarrow> (Inl PouwOther, m)
           | Some as \<Rightarrow>
               (if wr_worker r \<notin> wa_worker ` set as then (Inl WorkerNotEligible, m)
                else if wr_worker r \<in> wr_worker ` set (results_of m (wr_task_id r)) then (Inl ResultAlreadySubmitted, m)
                else (if info \<and> \<not> slice_16_ok (wr_output_cid r) then Inl (PouwPanic IndexOutOfBounds) else Inr (wr_id r),
                      m\<lparr>tm_tasks := (tm_tasks m)(wr_task_id r \<mapsto> after_result t (Suc (length (results_of m (wr_task_id r))))),
                        tm_results := (tm_results m)(wr_task_id r \<mapsto> results_of m (wr_task_id r) @ [r])\<rparr>))))"
  unfolding submit_work_result_def Let_def after_result_def
  by (cases "tm_tasks m (wr_task_id r)"; cases "tm_assignments m (wr_task_id r)")
    (auto simp: list_ex_iff image_iff split: if_splits)

lemma submit_work_result_ok:
  assumes "tasks_ok m"
  shows "tasks_ok (snd (submit_work_result info r epoch m)) \<and> moves m (snd (submit_work_result info r epoch m))"
proof (cases "tm_tasks m (wr_task_id r)")
  case None
  then show ?thesis using assms by (simp add: submit_work_result_run)
next
  case t: (Some t)
  show ?thesis
  proof (cases "tm_assignments m (wr_task_id r)")
    case None
    then show ?thesis using assms t by (simp add: submit_work_result_run)
  next
    case as: (Some as)
    let ?i = "wr_task_id r" let ?rs = "results_of m ?i"
    let ?t = "after_result t (Suc (length ?rs))"
    let ?m = "m\<lparr>tm_tasks := (tm_tasks m)(?i \<mapsto> ?t), tm_results := (tm_results m)(?i \<mapsto> ?rs @ [r])\<rparr>"
    have "tasks_ok ?m \<and> moves m ?m"
      if worker: "wr_worker r \<in> wa_worker ` set as" and fresh: "wr_worker r \<notin> wr_worker ` set ?rs"
    proof (rule move_entry [OF assms t, where t' = ?t])
      note kept = result_keeps_entry [OF conjunct1 [OF tasks_ok_get [OF assms t]] as worker fresh]
      have same: "tk_reward ?t = tk_reward t" "tk_worker_count ?t = tk_worker_count t" "tk_deadline ?t = tk_deadline t"
        by (simp_all add: after_result_def Let_def)
      then show "tk_reward ?t = tk_reward t" "tk_worker_count ?t = tk_worker_count t" "tk_deadline ?t = tk_deadline t" .
      show "entry_ok (Some ?t) (tm_assignments ?m ?i) (results_of ?m ?i)"
        using kept same conjunct2 [OF tasks_ok_get [OF assms t]] by (simp add: entry_ok_def results_of_def)
      show "task_can_transition\<^sup>*\<^sup>* (tk_status t) (tk_status ?t)"
        using kept by simp
    qed (simp_all add: results_of_def)
    then show ?thesis
      using assms t as by (simp add: submit_work_result_run)
  qed
qed

section \<open>Properties\<close>

lemma task_exec_ok:
  assumes "tasks_ok m" and "fresh_cmd m c"
  shows "tasks_ok (task_exec v c m) \<and> moves m (task_exec v c m)"
  using assms
  by (cases c) (simp_all add: submit_task_ok mark_task_finalized_ok record_worker_assignments_ok
      submit_work_result_ok record_validation_report_ok begin_challenge_period_ok)

lemma moves_trans:
  assumes "moves a b" and "moves b c"
  shows "moves a c"
  unfolding moves_def
proof (intro allI impI)
  fix i t assume "tm_tasks a i = Some t"
  with assms(1) obtain u where u: "tm_tasks b i = Some u" "task_can_transition\<^sup>*\<^sup>* (tk_status t) (tk_status u)"
    "tk_reward u = tk_reward t" "tk_worker_count u = tk_worker_count t" "tk_deadline u = tk_deadline t"
    unfolding moves_def by blast
  with assms(2) obtain w where "tm_tasks c i = Some w" "task_can_transition\<^sup>*\<^sup>* (tk_status u) (tk_status w)"
    "tk_reward w = tk_reward u" "tk_worker_count w = tk_worker_count u" "tk_deadline w = tk_deadline u"
    unfolding moves_def by blast
  with u show "\<exists>t'. tm_tasks c i = Some t' \<and> task_can_transition\<^sup>*\<^sup>* (tk_status t) (tk_status t') \<and>
      tk_reward t' = tk_reward t \<and> tk_worker_count t' = tk_worker_count t \<and> tk_deadline t' = tk_deadline t"
    by (auto intro: rtranclp_trans)
qed

lemma task_reach_ok:
  "task_reach v m0 m \<Longrightarrow> tasks_ok m0 \<Longrightarrow> tasks_ok m \<and> moves m0 m"
proof (induction rule: task_reach.induct)
  case init
  then show ?case by simp
next
  case (step m c)
  then show ?case
    using task_exec_ok [of m c v] moves_trans by blast
qed


lemma same_workers:
  assumes "distinct done" and "set done \<subseteq> set workers" and "length done = length workers"
  shows "set done = set workers \<and> distinct workers"
proof -
  have "card (set workers) \<le> card (set done)"
    using assms(1,3) card_length [of workers] by (simp add: distinct_card)
  then have "set done = set workers"
    using assms(2) by (intro card_seteq) auto
  then show ?thesis
    using assms(1,3) by (metis card_distinct distinct_card)
qed


text \<open>A task whose results are all in, or that is past that, has exactly one result of each worker
  it was assigned to, the workers are pairwise different, and there are as many as the sponsor asked
  for.\<close>

theorem results_complete:
  assumes "task_reach v (task_manager_new escrow tracker config) m" and "tm_tasks m i = Some t"
    and "tk_status t \<in> {TaskResultSubmitted, TaskValidating, TaskChallenging}"
  shows "\<exists>as. get_work_assignments m i = Some as \<and> length as = unat (tk_worker_count t) \<and> distinct (map wa_worker as) \<and>
    distinct (map wr_worker (results_of m i)) \<and> set (map wr_worker (results_of m i)) = set (map wa_worker as)"
proof -
  from task_reach_ok [OF assms(1) tasks_ok_new]
  have ok: "task_ok (tm_assignments m i) (results_of m i) t" and pos: "0 < tk_worker_count t"
    using tasks_ok_get [OF _ assms(2)] by blast+
  obtain as where as: "tm_assignments m i = Some as"
    using ok assms(3) pos by (cases "tm_assignments m i") (auto simp: task_ok_def Let_def word_less_nat_alt split: if_splits)
  with ok assms(3) have fit: "length as = unat (tk_worker_count t)" "distinct (map wr_worker (results_of m i))"
    "set (map wr_worker (results_of m i)) \<subseteq> set (map wa_worker as)" "length (results_of m i) = unat (tk_worker_count t)"
    by (auto simp: task_ok_def Let_def split: if_splits)
  then have "set (map wr_worker (results_of m i)) = set (map wa_worker as) \<and> distinct (map wa_worker as)"
    by (intro same_workers) simp_all
  with as fit(1,2) show ?thesis
    by (simp add: get_work_assignments_def)
qed

text \<open>No sequence of operations completes, fails, slashes or expires a task, and no task ever has a
  receipt: the manager has no operation that settles one, so the escrowed reward stays locked.\<close>

theorem tasks_never_settle:
  assumes "task_reach v (task_manager_new escrow tracker config) m" and "tm_tasks m i = Some t"
  shows "\<not> task_is_terminal (tk_status t) \<and> tk_status t \<noteq> TaskDisputed \<and> get_task_receipt m i = None"
proof -
  from task_reach_ok [OF assms(1) tasks_ok_new] have ok: "tasks_ok m" by blast
  have "\<not> task_is_terminal (tk_status t) \<and> tk_status t \<noteq> TaskDisputed"
    using tasks_ok_get [OF ok assms(2)] by (auto simp: task_is_terminal_def task_ok_def Let_def split: if_splits)
  with ok show ?thesis
    by (simp add: tasks_ok_def get_task_receipt_def)
qed

text \<open>With the default configuration no task is ever accepted: scores are kept at most 10, a sponsor
  needs 100.\<close>

theorem default_sponsors_refused:
  assumes "scores_bounded (tm_tracker m)" and "tm_config m = task_manager_config_default"
  shows "submit_task dec hex blake3 E now t epoch m =
    (Inl (PouwInsufficientReputation 100 (get_reputation (tm_tracker m) (tk_sponsor t))), m)"
proof -
  have "get_reputation (tm_tracker m) (tk_sponsor t) \<le> 10"
    using assms(1) by (auto simp: scores_bounded_def get_reputation_def split: option.splits)
  then show ?thesis
    by (simp add: submit_task_def assms(2) task_manager_config_default_def Let_def)
qed

section \<open>Concrete instances\<close>

definition sample_task :: task where
  "sample_task =
     \<lparr>tk_id = [1], tk_sponsor = [9], tk_type = ValidationTask [2] [3], tk_input_cid = [5], tk_output_schema = None,
      tk_reward = AdicAmount 1, tk_collateral = AdicAmount 0, tk_deadline = 10, tk_min_reputation = 0, tk_worker_count = 1,
      tk_created_at = 0, tk_status = TaskSubmitted, tk_finality = FinalityPending\<rparr>"

definition sample_assignment :: work_assignment where
  "sample_assignment =
     \<lparr>wa_id = [4], wa_task_id = [1], wa_worker = [8], wa_epoch = 1, wa_vrf_proof = [], wa_index = 0, wa_lock = None,
      wa_timestamp = 0\<rparr>"

definition sample_result :: work_result where
  "sample_result =
     \<lparr>wr_id = [6], wr_task_id = [1], wr_worker = [8], wr_output_cid = [], wr_proof =
        \<lparr>ep_type = ReExecutionProof, ep_merkle_root = [], ep_states = [], ep_data = []\<rparr>,
      wr_metrics = \<lparr>em_cpu_ms = 0, em_memory_mb = 0, em_storage_mb = 0, em_network_kb = 0, em_start = 0, em_end = 0\<rparr>,
      wr_signature = [], wr_submitted_at = 0\<rparr>"

abbreviation sample_env :: "memory_storage task_env" where
  "sample_env \<equiv> \<lparr>te_dec = (\<lambda>_. ''0''), te_hex = (\<lambda>_. ''h''), te_blake3 = holder_hash, te_econ = memory_ops (\<lambda>_. [])\<rparr>"

definition sample_config :: task_manager_config where
  "sample_config = task_manager_config_default\<lparr>tc_min_deposit := AdicAmount 1, tc_min_sponsor_reputation := 1\<rparr>"

definition sample_manager :: "memory_storage task_manager" where
  "sample_manager =
     task_manager_new (escrow_manager_new locked_balances) (reputation_tracker_new (9 / 10)) sample_config"

definition submitted_manager :: "memory_storage task_manager" where
  "submitted_manager = task_exec sample_env (CmdSubmit 0 sample_task 1) sample_manager"

definition collected_manager :: "memory_storage task_manager" where
  "collected_manager =
     task_exec sample_env (CmdResult False sample_result 2)
       (task_exec sample_env (CmdAssign [1] [sample_assignment])
         (task_exec sample_env (CmdFinalized [1]) submitted_manager))"

lemma sample_validates: "validate_task sample_config sample_task 1 = Inr ()"
  by (simp add: validate_task_def sample_task_def sample_config_def task_manager_config_default_def amt_from_adic_def
      f64_as_u64_def amount_le_iff amount_less_iff word_le_nat_alt)

lemma submitted_tasks: "tm_tasks submitted_manager = [[1] \<mapsto> sample_task]"
  and submitted_rest: "tm_assignments submitted_manager = Map.empty" "tm_results submitted_manager = Map.empty"
proof -
  have lock: "\<exists>e. escrow_lock (\<lambda>_. ''0'') (\<lambda>_. ''h'') (memory_ops (\<lambda>_. [])) 0 (Custom k holder) (AdicAmount 2) 1
      (escrow_manager_new locked_balances) = (Inr k, e)" for k
    by (simp add: escrow_lock_def to_lock_id_def escrow_owner_def Let_def on_mgr_def lift_op_def tryR_def get_balance_def
        lock_def get_locked_balance_def escrow_manager_new_def locked_balances_def locked_info_def memory_ops_def
        mem_set_locked_def on_storage_def cache_insert_def amt_sat_sub_def sat_sub_def amount_less_iff)
  have add: "amt_checked_add (AdicAmount 1) (AdicAmount 1) = Some (AdicAmount 2)"
    by (simp add: amt_checked_add_def checked_add_def)
  have "\<exists>e. submitted_manager = (set_task sample_task sample_manager)\<lparr>tm_escrow := e\<rparr>"
  proof -
    obtain e where "escrow_lock (\<lambda>_. ''0'') (\<lambda>_. ''h'') (memory_ops (\<lambda>_. [])) 0 (Custom (''pouw_task_'' @ ''h'') holder)
        (AdicAmount 2) 1 (escrow_manager_new locked_balances) = (Inr (''pouw_task_'' @ ''h''), e)"
      using lock by blast
    then have "submitted_manager = set_task sample_task (sample_manager\<lparr>tm_escrow := e\<rparr>)"
      using sample_validates add
      by (simp add: submitted_manager_def submit_task_def sample_manager_def task_manager_new_def get_reputation_def
          reputation_tracker_new_def sample_config_def Let_def address_from_public_key_def tryR_def on_escrow_def lift_op_def
          sample_task_def)
    then show ?thesis by (auto simp: set_task_escrow)
  qed
  then obtain e where e: "submitted_manager = (set_task sample_task sample_manager)\<lparr>tm_escrow := e\<rparr>" by blast
  show "tm_tasks submitted_manager = [[1] \<mapsto> sample_task]"
    "tm_assignments submitted_manager = Map.empty" "tm_results submitted_manager = Map.empty"
    by (simp_all add: e set_task_def sample_manager_def task_manager_new_def, simp add: sample_task_def)
qed


lemma set_task_escrow_exec:
  "tm_tasks (set_task t m) = (tm_tasks m)(tk_id t \<mapsto> t)"
  by (simp add: set_task_def)

lemma collected_tasks:
  "tm_tasks collected_manager = [[1] \<mapsto> sample_task\<lparr>tk_finality := F1Complete, tk_status := TaskResultSubmitted\<rparr>]"
  by (simp add: collected_manager_def submitted_tasks submitted_rest mark_task_finalized_def set_task_status_def
      record_worker_assignments_def submit_work_result_run after_result_def results_of_def Let_def sample_task_def
      sample_assignment_def sample_result_def)

lemma submitted_reach: "task_reach sample_env sample_manager submitted_manager"
  unfolding submitted_manager_def
  by (rule task_reach.step [OF task_reach.init]) (simp add: sample_manager_def task_manager_new_def)

lemma collected_reach: "task_reach sample_env submitted_manager collected_manager"
  unfolding collected_manager_def
  by (rule task_reach.step task_reach.init fresh_cmd.simps(2-6) [THEN iffD2] TrueI)+

lemma reach_trans: "task_reach v b c \<Longrightarrow> task_reach v a b \<Longrightarrow> task_reach v a c"
  by (induction rule: task_reach.induct) (auto intro: task_reach.intros)


lemma results_complete_witness:
  "\<exists>as. get_work_assignments collected_manager [1] = Some as \<and> length as = 1 \<and>
     set (map wr_worker (results_of collected_manager [1])) = set (map wa_worker as)"
  using results_complete [OF reach_trans [OF collected_reach submitted_reach, unfolded sample_manager_def], of "[1]"]
  by (auto simp: collected_tasks sample_task_def)

lemma tasks_never_settle_witness: "get_task_receipt collected_manager [1] = None"
  using tasks_never_settle [OF reach_trans [OF collected_reach submitted_reach, unfolded sample_manager_def], of "[1]"]
  by (simp add: collected_tasks)

lemma default_sponsors_refused_witness:
  "fst (submit_task (\<lambda>_. ''0'') (\<lambda>_. ''h'') holder_hash (memory_ops (\<lambda>_. [])) 0 sample_task 1
     (sample_manager\<lparr>tm_config := task_manager_config_default\<rparr>)) = Inl (PouwInsufficientReputation 100 1)"
proof -
  have "scores_bounded (tm_tracker (sample_manager\<lparr>tm_config := task_manager_config_default\<rparr>))"
    by (simp add: sample_manager_def task_manager_new_def scores_bounded_def reputation_tracker_new_def)
  from default_sponsors_refused [OF this] show ?thesis
    by (simp add: sample_manager_def task_manager_new_def get_reputation_def reputation_tracker_new_def)
qed

end
