(* ===== verification/Pouw_Incentives.thy ===== *)
theory Pouw_Incentives
  imports Pouw_Tasks Challenges
begin

text \<open>
  The managers that are to reward and punish useful work: \<open>RewardManager\<close>
  (\<open>crates/adic-pouw/src/rewards.rs\<close>), \<open>DisputeManager\<close> (\<open>disputes.rs\<close>) and
  \<open>PoUWReputationManager\<close> (\<open>reputation.rs\<close>). Fractions are exact reals, the identifiers are
  byte strings, \<open>now\<close> is the clock in milliseconds. The log lines are left out: the slices they take
  are of 32-byte arrays.
\<close>

section \<open>Rewards\<close>

record reward_config =
  rc_base :: f64
  rc_quality :: f64
  rc_speed :: f64
  rc_validators :: f64
  rc_enable_vesting :: bool
  rc_vesting_threshold :: adic_amount
  rc_vesting_duration :: u64

definition reward_config_default :: reward_config where
  "reward_config_default =
     \<lparr>rc_base = 7 / 10, rc_quality = 2 / 10, rc_speed = 1 / 10, rc_validators = 5 / 100, rc_enable_vesting = True,
      rc_vesting_threshold = amt_from_adic 1000, rc_vesting_duration = 100\<rparr>"

record 's reward_manager =
  rm_escrow :: "'s escrow_manager"
  rm_config :: reward_config
  rm_rewards :: "task_id \<rightharpoonup> reward_distribution list"
  rm_slashing :: "task_id \<rightharpoonup> slashing_event list"

definition reward_manager_new :: "'s escrow_manager \<Rightarrow> reward_config \<Rightarrow> 's reward_manager" where
  "reward_manager_new escrow config =
     \<lparr>rm_escrow = escrow, rm_config = config, rm_rewards = Map.empty, rm_slashing = Map.empty\<rparr>"

definition create_vesting_schedule :: "reward_config \<Rightarrow> adic_amount \<Rightarrow> u64 \<Rightarrow> pouw_error + vesting_schedule option" where
  "create_vesting_schedule config amount start_epoch =
     (if \<not> rc_enable_vesting config then Inr None
      else if base_units amount < base_units (rc_vesting_threshold config) then Inr None
      else if rc_vesting_duration config = 0 then Inl (PouwPanic DivisionByZero)
      else Inr (Some \<lparr>vs_total = amount, vs_per_epoch = AdicAmount (base_units amount div rc_vesting_duration config),
        vs_start = start_epoch, vs_duration = rc_vesting_duration config\<rparr>))"

definition f64_of_u64 :: "u64 \<Rightarrow> f64" where
  "f64_of_u64 x = real (unat x)"

definition worker_rewards :: "reward_config \<Rightarrow> u64 \<Rightarrow> u64 \<Rightarrow> public_key \<times> f64 \<times> f64 \<Rightarrow>
    pouw_error + reward_distribution list" where
  "worker_rewards config per_worker_base current_epoch w =
     (case w of (worker, quality_score, speed_ratio) \<Rightarrow>
        (let base_amount = f64_as_u64 (f64_of_u64 per_worker_base * rc_base config);
             quality_bonus = f64_as_u64 (f64_of_u64 per_worker_base * rc_quality config * max 0 (min quality_score 1));
             speed_bonus = f64_as_u64 (f64_of_u64 per_worker_base * rc_speed config * max (min speed_ratio 2 - 1) 0);
             base = [\<lparr>rd_recipient = worker, rd_amount = AdicAmount base_amount, rd_type = BaseReward, rd_vesting = None\<rparr>];
             speed = (if 0 < speed_bonus
               then [\<lparr>rd_recipient = worker, rd_amount = AdicAmount speed_bonus, rd_type = SpeedBonus, rd_vesting = None\<rparr>]
               else [])
         in if 0 < quality_bonus
            then bindE (create_vesting_schedule config (AdicAmount quality_bonus) current_epoch) (\<lambda>vesting.
              Inr (base @ [\<lparr>rd_recipient = worker, rd_amount = AdicAmount quality_bonus, rd_type = QualityBonus,
                rd_vesting = vesting\<rparr>] @ speed))
            else Inr (base @ speed)))"

definition validator_rewards :: "u64 \<Rightarrow> public_key list \<Rightarrow> reward_distribution list" where
  "validator_rewards validator_total validators =
     (let per_validator = validator_total div of_nat (length validators)
      in map (\<lambda>v. \<lparr>rd_recipient = v, rd_amount = AdicAmount per_validator, rd_type = ValidationReward, rd_vesting = None\<rparr>)
           validators)"

definition distribute_rewards :: "task_id \<Rightarrow> adic_amount \<Rightarrow> (public_key \<times> f64 \<times> f64) list \<Rightarrow> public_key list \<Rightarrow> u64 \<Rightarrow>
    (pouw_error, 's reward_manager, reward_distribution list) rop" where
  "distribute_rewards i total_reward workers validators current_epoch m =
     (let config = rm_config m;
          pool = f64_of_u64 (base_units total_reward);
          validator_total = f64_as_u64 (pool * rc_validators config);
          worker_pool = f64_as_u64 (pool * (1 - rc_validators config));
          per_worker_base = worker_pool div of_nat (max (length workers) 1)
      in case mapE (worker_rewards config per_worker_base current_epoch) workers of
           Inl e \<Rightarrow> errR e m
         | Inr dss \<Rightarrow>
             (let ds = concat dss @ (if validators = [] then [] else validator_rewards validator_total validators)
              in okR ds (m\<lparr>rm_rewards := (rm_rewards m)(i \<mapsto> ds)\<rparr>)))"

definition get_task_slashing :: "'s reward_manager \<Rightarrow> task_id \<Rightarrow> slashing_event list" where
  "get_task_slashing m i = (case rm_slashing m i of None \<Rightarrow> [] | Some es \<Rightarrow> es)"

definition get_task_rewards :: "'s reward_manager \<Rightarrow> task_id \<Rightarrow> reward_distribution list" where
  "get_task_rewards m i = (case rm_rewards m i of None \<Rightarrow> [] | Some ds \<Rightarrow> ds)"

definition slash_collateral :: "task_id \<Rightarrow> public_key \<Rightarrow> adic_amount \<Rightarrow> slashing_reason \<Rightarrow> bytes \<Rightarrow> public_key option \<Rightarrow>
    (pouw_error, 's reward_manager, slashing_event) rop" where
  "slash_collateral i slashed_account collateral_amount reason evidence_hash beneficiary m =
     (let event = \<lparr>se_account = slashed_account, se_amount = collateral_amount, se_reason = reason,
            se_evidence = evidence_hash, se_beneficiary = beneficiary\<rparr>
      in okR event (m\<lparr>rm_slashing := (rm_slashing m)(i \<mapsto> get_task_slashing m i @ [event])\<rparr>))"

definition release_collateral :: "(bytes \<Rightarrow> bytes) \<Rightarrow> (bytes \<Rightarrow> string) \<Rightarrow> 's econ_ops \<Rightarrow> i64 \<Rightarrow> lock_id \<Rightarrow> account_address \<Rightarrow>
    (pouw_error, 's reward_manager, unit) rop" where
  "release_collateral blake3 hex E now i to =
     lift_op rm_escrow (\<lambda>e m. m\<lparr>rm_escrow := e\<rparr>) (\<lambda>_. PouwEscrowError) (escrow_release blake3 hex E now i to)"

record reward_stats =
  rw_tasks_rewarded :: u64
  rw_tasks_slashed :: u64
  rw_distributed :: adic_amount
  rw_slashed :: adic_amount

definition reward_get_stats :: "(reward_distribution list set \<Rightarrow> reward_distribution list list) \<Rightarrow>
    (slashing_event list set \<Rightarrow> slashing_event list list) \<Rightarrow> 's reward_manager \<Rightarrow> reward_stats" where
  "reward_get_stats ord ord' m =
     \<lparr>rw_tasks_rewarded = of_nat (card (dom (rm_rewards m))), rw_tasks_slashed = of_nat (card (dom (rm_slashing m))),
      rw_distributed = AdicAmount (sum_list (map (base_units \<circ> rd_amount) (concat (ord (ran (rm_rewards m)))))),
      rw_slashed = AdicAmount (sum_list (map (base_units \<circ> se_amount) (concat (ord' (ran (rm_slashing m))))))\<rparr>"

section \<open>Disputes\<close>

datatype dispute_status =
    DisputeSubmitted | DisputeUnderReview | DisputeAccepted | DisputeRejected | DisputeInconclusive | DisputeAppealed

datatype dispute_evidence =
    ReExecutionEvidence bytes "bytes list"
  | InputOutputMismatch bytes bytes
  | ResourceUsageFraud execution_metrics execution_metrics

record dispute =
  di_id :: bytes
  di_task_id :: task_id
  di_result_id :: bytes
  di_worker :: public_key
  di_challenger :: public_key
  di_stake :: adic_amount
  di_evidence :: dispute_evidence
  di_status :: dispute_status
  di_created_at :: i64
  di_deadline :: u64

record dispute_config =
  dc_min_stake :: adic_amount
  dc_challenge_period :: u64
  dc_min_arbitrator_reputation :: f64
  dc_committee_size :: nat
  dc_threshold :: f64
  dc_reward_fraction :: f64
  dc_appeal_period :: u64

definition dispute_config_default :: dispute_config where
  "dispute_config_default =
     \<lparr>dc_min_stake = amt_from_adic 10, dc_challenge_period = 24, dc_min_arbitrator_reputation = 500, dc_committee_size = 7,
      dc_threshold = 67 / 100, dc_reward_fraction = 3 / 10, dc_appeal_period = 48\<rparr>"

datatype dispute_outcome = ChallengeAccepted | ChallengeRejected | ChallengeInconclusive

record arbitration_decision =
  ad_dispute_id :: bytes
  ad_arbitrators :: "public_key list"
  ad_votes_for_challenger :: nat
  ad_votes_for_worker :: nat
  ad_outcome :: dispute_outcome
  ad_decided_at :: u64

record dispute_manager =
  dp_tracker :: reputation_tracker
  dp_config :: dispute_config
  dp_disputes :: "bytes \<rightharpoonup> dispute"
  dp_committees :: "bytes \<rightharpoonup> public_key list"
  dp_windows :: "string \<rightharpoonup> challenge_window"

type_synonym 'a dispute_op = "(pouw_error, dispute_manager, 'a) rop"

definition dispute_manager_new :: "reputation_tracker \<Rightarrow> dispute_config \<Rightarrow> dispute_manager" where
  "dispute_manager_new tracker config =
     \<lparr>dp_tracker = tracker, dp_config = config, dp_disputes = Map.empty, dp_committees = Map.empty, dp_windows = Map.empty\<rparr>"

definition generate_window_id :: "(bytes \<Rightarrow> string) \<Rightarrow> task_id \<Rightarrow> bytes \<Rightarrow> string" where
  "generate_window_id hex i result_id = ''pouw_challenge_'' @ hex (take 8 i) @ ''_'' @ hex (take 8 result_id)"

definition generate_dispute_id :: "(bytes \<Rightarrow> bytes) \<Rightarrow> i64 \<Rightarrow> task_id \<Rightarrow> bytes \<Rightarrow> public_key \<Rightarrow> bytes" where
  "generate_dispute_id blake3 now i result_id challenger =
     blake3 (i @ result_id @ challenger @ le_bytes (of_int (unix_secs now)))"

definition open_challenge_window :: "(bytes \<Rightarrow> bytes) \<Rightarrow> (bytes \<Rightarrow> string) \<Rightarrow> (bytes \<Rightarrow> bytes) \<Rightarrow> task_id \<Rightarrow> bytes \<Rightarrow> u64 \<Rightarrow>
    string dispute_op" where
  "open_challenge_window blake3 hex hexb i result_id submitted_at m =
     (let window_id = generate_window_id hex i result_id;
          window = challenge_window_new hexb (blake3 (i @ result_id)) submitted_at
            (challenge_config_default\<lparr>cc_window_depth := dc_challenge_period (dp_config m)\<rparr>)
      in okR window_id (m\<lparr>dp_windows := (dp_windows m)(window_id \<mapsto> window)\<rparr>))"

definition is_challenge_period_active :: "dispute_manager \<Rightarrow> string \<Rightarrow> u64 \<Rightarrow> bool" where
  "is_challenge_period_active m window_id current_epoch =
     (case dp_windows m window_id of None \<Rightarrow> False | Some w \<Rightarrow> window_is_active current_epoch w)"

definition dispute_submit :: "(bytes \<Rightarrow> bytes) \<Rightarrow> (bytes \<Rightarrow> string) \<Rightarrow> i64 \<Rightarrow> task_id \<Rightarrow> bytes \<Rightarrow> public_key \<Rightarrow> public_key \<Rightarrow>
    adic_amount \<Rightarrow> dispute_evidence \<Rightarrow> u64 \<Rightarrow> bytes dispute_op" where
  "dispute_submit blake3 hex now i result_id worker challenger stake evidence current_epoch m =
     (if base_units stake < base_units (dc_min_stake (dp_config m)) then errR PouwOther m
      else if \<not> is_challenge_period_active m (generate_window_id hex i result_id) current_epoch then errR PouwOther m
      else
        (let dispute_id = generate_dispute_id blake3 now i result_id challenger
         in if dp_disputes m dispute_id \<noteq> None then errR PouwOther m
            else okR dispute_id (m\<lparr>dp_disputes := (dp_disputes m)(dispute_id \<mapsto>
              \<lparr>di_id = dispute_id, di_task_id = i, di_result_id = result_id, di_worker = worker, di_challenger = challenger,
               di_stake = stake, di_evidence = evidence, di_status = DisputeSubmitted, di_created_at = now,
               di_deadline = current_epoch + dc_challenge_period (dp_config m)\<rparr>)\<rparr>)))"

definition put_dispute :: "bytes \<Rightarrow> dispute \<Rightarrow> dispute_manager \<Rightarrow> dispute_manager" where
  "put_dispute i d m = m\<lparr>dp_disputes := (dp_disputes m)(i \<mapsto> d)\<rparr>"

definition select_arbitration_committee :: "(bytes \<Rightarrow> bytes) \<Rightarrow> bytes \<Rightarrow> u64 \<Rightarrow> public_key list dispute_op" where
  "select_arbitration_committee blake3 dispute_id current_epoch m =
     (case dp_disputes m dispute_id of
        None \<Rightarrow> errR PouwOther m
      | Some d \<Rightarrow>
          (let arbitrators = map (\<lambda>k. blake3 (dispute_id @ [of_nat k] @ le_bytes current_epoch))
                 [0..<dc_committee_size (dp_config m)]
           in okR arbitrators ((put_dispute dispute_id (d\<lparr>di_status := DisputeUnderReview\<rparr>) m)
                \<lparr>dp_committees := (dp_committees m)(dispute_id \<mapsto> arbitrators)\<rparr>)))"

fun outcome_status :: "dispute_outcome \<Rightarrow> dispute_status" where
  "outcome_status ChallengeAccepted = DisputeAccepted"
| "outcome_status ChallengeRejected = DisputeRejected"
| "outcome_status ChallengeInconclusive = DisputeInconclusive"

definition with_tracker :: "(reputation_tracker \<Rightarrow> reputation_tracker) \<Rightarrow> dispute_manager \<Rightarrow> dispute_manager" where
  "with_tracker f m = m\<lparr>dp_tracker := f (dp_tracker m)\<rparr>"

fun apply_outcome :: "i64 \<Rightarrow> dispute \<Rightarrow> dispute_outcome \<Rightarrow> reputation_tracker \<Rightarrow> reputation_tracker" where
  "apply_outcome now d ChallengeAccepted t =
     (let current_rep = get_reputation t (di_worker d);
          slash_amount = max (current_rep * (1 / 10)) 10;
          t = set_reputation now (di_worker d) (max (current_rep - slash_amount) (1 / 10)) t
      in set_reputation now (di_challenger d) (min (get_reputation t (di_challenger d) + 5) 10) t)"
| "apply_outcome now d ChallengeRejected t =
     (let current_rep = get_reputation t (di_challenger d);
          slash_amount = max (current_rep * (5 / 100)) 5
      in set_reputation now (di_challenger d) (max (current_rep - slash_amount) (1 / 10)) t)"
| "apply_outcome now d ChallengeInconclusive t = t"

definition process_arbitration :: "i64 \<Rightarrow> bytes \<Rightarrow> arbitration_decision \<Rightarrow> dispute_outcome dispute_op" where
  "process_arbitration now dispute_id decision m =
     (case dp_disputes m dispute_id of
        None \<Rightarrow> errR PouwOther m
      | Some d \<Rightarrow>
          (case dp_committees m dispute_id of
             None \<Rightarrow> errR PouwOther m
           | Some expected_committee \<Rightarrow>
               (if list_ex (\<lambda>a. a \<notin> set expected_committee) (ad_arbitrators decision) then errR PouwOther m
                else okR (ad_outcome decision)
                  (with_tracker (apply_outcome now d (ad_outcome decision))
                    (put_dispute dispute_id (d\<lparr>di_status := outcome_status (ad_outcome decision)\<rparr>) m)))))"

text \<open>The difference of two resource counts, taken as \<open>i64\<close>.\<close>

definition usage_fraud :: "u64 \<Rightarrow> u64 \<Rightarrow> bool" where
  "usage_fraud claimed actual \<longleftrightarrow>
     (let d = signed_take_bit 63 (sint claimed - sint actual);
          diff = (if d = - (2 ^ 63) then d else \<bar>d\<bar>);
          half = (if sint claimed < 0 then - ((- sint claimed) div 2) else sint claimed div 2)
      in half < diff)"

fun dispute_verify_evidence :: "dispute_evidence \<Rightarrow> work_result \<Rightarrow> bool" where
  "dispute_verify_evidence (ReExecutionEvidence different_output_cid execution_trace) original =
     (different_output_cid \<noteq> wr_output_cid original \<and> execution_trace \<noteq> [])"
| "dispute_verify_evidence (InputOutputMismatch expected_output actual_output) original = (expected_output \<noteq> actual_output)"
| "dispute_verify_evidence (ResourceUsageFraud claimed actual) original =
     (usage_fraud (em_cpu_ms claimed) (em_cpu_ms actual) \<or> usage_fraud (em_memory_mb claimed) (em_memory_mb actual))"

definition submit_appeal :: "bytes \<Rightarrow> u64 \<Rightarrow> unit dispute_op" where
  "submit_appeal dispute_id current_epoch m =
     (case dp_disputes m dispute_id of
        None \<Rightarrow> errR PouwOther m
      | Some d \<Rightarrow>
          (if di_deadline d + dc_appeal_period (dp_config m) < current_epoch then errR PouwOther m
           else okR () (put_dispute dispute_id (d\<lparr>di_status := DisputeAppealed\<rparr>) m)))"

definition calculate_challenger_reward :: "dispute_config \<Rightarrow> adic_amount \<Rightarrow> adic_amount" where
  "calculate_challenger_reward config slashed_amount =
     AdicAmount (f64_as_u64 (f64_of_u64 (base_units slashed_amount) * dc_reward_fraction config))"

definition get_dispute :: "dispute_manager \<Rightarrow> bytes \<Rightarrow> dispute option" where
  "get_dispute m i = dp_disputes m i"

definition get_task_disputes :: "dispute_manager \<Rightarrow> task_id \<Rightarrow> dispute set" where
  "get_task_disputes m i = {d \<in> ran (dp_disputes m). di_task_id d = i}"

record dispute_stats =
  dst_total :: u64
  dst_submitted :: u64
  dst_under_review :: u64
  dst_accepted :: u64
  dst_rejected :: u64
  dst_appealed :: u64

definition dispute_get_stats :: "(bytes set \<Rightarrow> bytes list) \<Rightarrow> dispute_manager \<Rightarrow> dispute_stats" where
  "dispute_get_stats ord m =
     (let disputes = List.map_filter (dp_disputes m) (ord (dom (dp_disputes m)));
          counted = (\<lambda>s. of_nat (length (filter (\<lambda>d. di_status d = s) disputes)))
      in \<lparr>dst_total = of_nat (length disputes), dst_submitted = counted DisputeSubmitted,
          dst_under_review = counted DisputeUnderReview, dst_accepted = counted DisputeAccepted,
          dst_rejected = counted DisputeRejected, dst_appealed = counted DisputeAppealed\<rparr>)"

section \<open>Reputation\<close>

record pouw_reputation_config =
  pr_acceptance :: f64
  pr_rejection :: f64
  pr_max_delta :: f64
  pr_min :: f64
  pr_speed_weight :: f64
  pr_correctness_weight :: f64
  pr_challenge_weight :: f64

definition pouw_reputation_config_default :: pouw_reputation_config where
  "pouw_reputation_config_default =
     \<lparr>pr_acceptance = 1 / 10, pr_rejection = 2 / 10, pr_max_delta = 100, pr_min = 10, pr_speed_weight = 2 / 10,
      pr_correctness_weight = 5 / 10, pr_challenge_weight = 3 / 10\<rparr>"

record epoch_tracking =
  et_total_delta :: f64
  et_updates :: u64
  et_last_epoch :: u64

record pouw_reputation =
  pm_tracker :: reputation_tracker
  pm_config :: pouw_reputation_config
  pm_epochs :: "public_key \<rightharpoonup> epoch_tracking"

definition pouw_reputation_new :: "reputation_tracker \<Rightarrow> pouw_reputation_config \<Rightarrow> pouw_reputation" where
  "pouw_reputation_new tracker config = \<lparr>pm_tracker = tracker, pm_config = config, pm_epochs = Map.empty\<rparr>"

definition tracking_of :: "pouw_reputation \<Rightarrow> public_key \<Rightarrow> epoch_tracking" where
  "tracking_of m account =
     (case pm_epochs m account of
        None \<Rightarrow> \<lparr>et_total_delta = 0, et_updates = 0, et_last_epoch = 0\<rparr>
      | Some t \<Rightarrow> t)"

definition apply_epoch_cap :: "public_key \<Rightarrow> f64 \<Rightarrow> u64 \<Rightarrow> pouw_reputation \<Rightarrow> f64 \<times> pouw_reputation" where
  "apply_epoch_cap account delta current_epoch m =
     (let tracking = tracking_of m account;
          tracking = (if et_last_epoch tracking < current_epoch
            then \<lparr>et_total_delta = 0, et_updates = 0, et_last_epoch = current_epoch\<rparr> else tracking);
          remaining = pr_max_delta (pm_config m) - \<bar>et_total_delta tracking\<bar>;
          put = (\<lambda>t. m\<lparr>pm_epochs := (pm_epochs m)(account \<mapsto> t)\<rparr>)
      in if remaining \<le> 0 then (0, put tracking)
         else (let capped_delta = (if remaining < \<bar>delta\<bar> then remaining * sgn delta else delta)
               in (capped_delta, put (tracking\<lparr>et_total_delta := et_total_delta tracking + capped_delta,
                    et_updates := et_updates tracking + 1\<rparr>))))"

definition finish_update :: "i64 \<Rightarrow> public_key \<Rightarrow> f64 \<Rightarrow> f64 \<Rightarrow> reputation_reason \<Rightarrow> f64 \<Rightarrow> u64 \<Rightarrow> pouw_reputation \<Rightarrow>
    reputation_update \<times> pouw_reputation" where
  "finish_update now account old_reputation delta reason quality current_epoch m =
     (case apply_epoch_cap account delta current_epoch m of (capped_delta, m) \<Rightarrow>
        (let final_reputation = max (old_reputation + capped_delta) (pr_min (pm_config m))
         in (\<lparr>ru_account = account, ru_old = old_reputation, ru_new = final_reputation, ru_reason = reason,
              ru_quality = quality\<rparr>,
             m\<lparr>pm_tracker := set_reputation now account final_reputation (pm_tracker m)\<rparr>)))"

definition pouw_update_reputation :: "i64 \<Rightarrow> public_key \<Rightarrow> task_outcome \<Rightarrow> f64 \<Rightarrow> f64 \<Rightarrow> u64 \<Rightarrow> pouw_reputation \<Rightarrow>
    reputation_update \<times> pouw_reputation" where
  "pouw_update_reputation now account outcome quality_score severity current_epoch m =
     (let old = get_reputation (pm_tracker m) account; c = pm_config m;
          quality = max 0 (min quality_score 1); sev = max 0 (min severity 1);
          (delta, reason) =
            (case outcome of
               OutcomeSuccess \<Rightarrow> (old * pr_acceptance c * quality, WorkAccepted quality)
             | OutcomeFailure \<Rightarrow> (- (old * pr_rejection c * sev), WorkRejected sev)
             | OutcomePartial \<Rightarrow> (- (old * pr_rejection c * sev), WorkRejected sev)
             | OutcomeSlashed \<Rightarrow> (- (old * pr_rejection c * 2), FraudDetectedReason)
             | OutcomeExpired \<Rightarrow> (- (old * pr_rejection c * (1 / 2)), DeadlineMissed))
      in finish_update now account old delta reason quality_score current_epoch m)"

definition update_validator_reputation :: "i64 \<Rightarrow> public_key \<Rightarrow> bool \<Rightarrow> u64 \<Rightarrow> pouw_reputation \<Rightarrow>
    reputation_update \<times> pouw_reputation" where
  "update_validator_reputation now validator correct current_epoch m =
     (let old = get_reputation (pm_tracker m) validator
      in if correct then finish_update now validator old (old * (2 / 100)) (ValidationPerformed correct) 1 current_epoch m
         else finish_update now validator old (- (old * (5 / 100))) (ValidationPerformed correct) 0 current_epoch m)"

definition calculate_quality_score :: "pouw_reputation_config \<Rightarrow> u64 \<Rightarrow> u64 \<Rightarrow> validation_result \<Rightarrow> bool \<Rightarrow> f64" where
  "calculate_quality_score c execution_time_ms expected_time_ms result disputed =
     (let speed_ratio = f64_of_u64 expected_time_ms / f64_of_u64 (max execution_time_ms 1);
          speed_score = min speed_ratio 2 / 2;
          correctness_score = (case result of ResultAccepted \<Rightarrow> 1 | ResultRejected \<Rightarrow> 0 | ResultInconclusive \<Rightarrow> 5 / 10);
          challenge_score = (if disputed then 0 else 1);
          quality = pr_speed_weight c * speed_score + pr_correctness_weight c * correctness_score +
            pr_challenge_weight c * challenge_score
      in max 0 (min quality 1))"

definition calculate_severity :: "string \<Rightarrow> byte \<Rightarrow> f64" where
  "calculate_severity failure_type impact_level =
     (let base_severity =
            (if failure_type = ''incorrect_result'' then 8 / 10
             else if failure_type = ''missed_deadline'' then 4 / 10
             else if failure_type = ''resource_abuse'' then 6 / 10
             else if failure_type = ''proof_invalid'' then 7 / 10
             else 5 / 10);
          impact_multiplier = real (unat (min impact_level 10)) / 10
      in max 0 (min (base_severity * impact_multiplier) 1))"

definition get_epoch_stats :: "pouw_reputation \<Rightarrow> public_key \<Rightarrow> (f64 \<times> u64 \<times> f64 \<times> u64) option" where
  "get_epoch_stats m account =
     map_option (\<lambda>t. (et_total_delta t, et_updates t, pr_max_delta (pm_config m) - \<bar>et_total_delta t\<bar>, et_last_epoch t))
       (pm_epochs m account)"

definition reset_epoch_tracking :: "pouw_reputation \<Rightarrow> pouw_reputation" where
  "reset_epoch_tracking m = m\<lparr>pm_epochs := Map.empty\<rparr>"

section \<open>The pool bounds the rewards\<close>

definition sane_rewards :: "reward_config \<Rightarrow> bool" where
  "sane_rewards c \<longleftrightarrow>
     0 \<le> rc_base c \<and> 0 \<le> rc_quality c \<and> 0 \<le> rc_speed c \<and> rc_base c + rc_quality c + rc_speed c \<le> 1 \<and>
     0 \<le> rc_validators c \<and> rc_validators c \<le> 1"

definition amounts :: "reward_distribution list \<Rightarrow> nat" where
  "amounts ds = sum_list (map (units \<circ> rd_amount) ds)"

lemma amounts_simps [simp]:
  "amounts [] = 0" "amounts (d # ds) = units (rd_amount d) + amounts ds" "amounts (ds @ es) = amounts ds + amounts es"
  by (simp_all add: amounts_def)

lemma f64_as_u64_below:
  assumes "0 \<le> x" and "x < 2 ^ 64"
  shows "unat (f64_as_u64 x) = nat \<lfloor>x\<rfloor>"
proof (cases "x = 0")
  case True
  then show ?thesis by (simp add: f64_as_u64_def)
next
  case False
  have "\<lfloor>x\<rfloor> < 2 ^ 64" using assms(2) by (simp add: floor_less_iff)
  then have "unat (word_of_int \<lfloor>x\<rfloor> :: u64) = nat \<lfloor>x\<rfloor>"
    using assms(1) by (simp add: unat_eq_nat_uint uint_word_of_int)
  with False assms show ?thesis by (simp add: f64_as_u64_def)
qed

lemma f64_of_u64_nonneg [simp]: "0 \<le> f64_of_u64 n"
  unfolding f64_of_u64_def by (rule of_nat_0_le_iff)

lemma f64_of_u64_less: "f64_of_u64 n < 2 ^ 64"
proof -
  have "real (unat n) < real (2 ^ 64)"
    using unsigned_less [of n, where 'a = nat] by (intro of_nat_less_iff [THEN iffD2]) simp
  then show ?thesis by (simp only: f64_of_u64_def of_nat_power of_nat_numeral)
qed

lemma f64_as_u64_le:
  assumes "0 \<le> x" and "x \<le> f64_of_u64 n * w" and "w \<le> 1" and "0 \<le> w"
  shows "real (unat (f64_as_u64 x)) \<le> x"
proof -
  have "f64_of_u64 n * w \<le> f64_of_u64 n * 1"
    using assms(3) by (intro mult_left_mono) simp_all
  with f64_of_u64_less [of n] have "x < 2 ^ 64" using assms(2) by simp
  with assms(1) show ?thesis by (simp add: f64_as_u64_below)
qed

lemma worker_rewards_bound:
  assumes "sane_rewards c" and "worker_rewards c per epoch w = Inr ds"
  shows "amounts ds \<le> unat per"
proof -
  obtain worker q s where w: "w = (worker, q, s)" by (cases w) auto
  let ?p = "f64_of_u64 per"
  let ?q = "max 0 (min q 1)" and ?s = "max (min s 2 - 1) 0"
  let ?b = "f64_as_u64 (?p * rc_base c)" and ?qb = "f64_as_u64 (?p * rc_quality c * ?q)" and ?sb = "f64_as_u64 (?p * rc_speed c * ?s)"
  have p: "0 \<le> ?p" by simp
  have c: "0 \<le> rc_base c" "0 \<le> rc_quality c" "0 \<le> rc_speed c" "rc_base c + rc_quality c + rc_speed c \<le> 1"
    using assms(1) by (simp_all add: sane_rewards_def)
  have q: "0 \<le> ?q" "?q \<le> 1" and s: "0 \<le> ?s" "?s \<le> 1" by auto
  have qw: "rc_quality c * ?q \<le> rc_quality c" using mult_left_mono [OF q(2) c(2)] by simp
  have sw: "rc_speed c * ?s \<le> rc_speed c" using mult_left_mono [OF s(2) c(3)] by simp
  have b: "real (unat ?b) \<le> ?p * rc_base c"
    by (rule f64_as_u64_le [of _ per "rc_base c"]) (use p c in auto)
  have qb: "real (unat ?qb) \<le> ?p * rc_quality c * ?q"
    by (rule f64_as_u64_le [of _ per "rc_quality c * ?q"]) (use p c q qw in \<open>auto simp: mult.assoc\<close>)
  have sb: "real (unat ?sb) \<le> ?p * rc_speed c * ?s"
    by (rule f64_as_u64_le [of _ per "rc_speed c * ?s"]) (use p c s sw in \<open>auto simp: mult.assoc\<close>)
  have "?p * rc_base c + ?p * rc_quality c * ?q + ?p * rc_speed c * ?s =
      ?p * (rc_base c + rc_quality c * ?q + rc_speed c * ?s)"
    by (simp only: distrib_left mult.assoc)
  also have "\<dots> \<le> ?p * 1"
    using c qw sw by (intro mult_left_mono p) simp
  finally have "real (unat ?b) + real (unat ?qb) + real (unat ?sb) \<le> real (unat per)"
    using b qb sb by (simp add: f64_of_u64_def)
  then have total: "unat ?b + unat ?qb + unat ?sb \<le> unat per" by linarith
  have "amounts ds \<le> unat ?b + unat ?qb + unat ?sb"
    using assms(2) unfolding worker_rewards_def w Let_def prod.case
    by (cases "0 < ?qb"; cases "0 < ?sb") (auto simp: bindE_Inr_iff)
  with total show ?thesis by simp
qed

lemma workers_rewards_bound:
  assumes "sane_rewards c"
  shows "mapE (worker_rewards c per epoch) ws = Inr dss \<Longrightarrow> amounts (concat dss) \<le> length ws * unat per"
proof (induction ws arbitrary: dss)
  case Nil
  then show ?case by simp
next
  case (Cons w ws)
  then obtain ds dss' where "worker_rewards c per epoch w = Inr ds" "mapE (worker_rewards c per epoch) ws = Inr dss'" "dss = ds # dss'"
    by (auto simp: bindE_Inr_iff)
  with Cons.IH worker_rewards_bound [OF assms, of per epoch w ds] show ?case by fastforce
qed

lemma amounts_constant: "amounts (map (\<lambda>v. \<lparr>rd_recipient = v, rd_amount = AdicAmount x, rd_type = k, rd_vesting = y\<rparr>) vs) = length vs * unat x"
  by (induction vs) simp_all

lemma div_length_bound:
  assumes "length xs < 2 ^ 64"
  shows "length xs * unat (a div of_nat (length xs) :: u64) \<le> unat a"
proof -
  have "unat (of_nat (length xs) :: u64) = length xs"
    using assms by (simp add: unat_of_nat)
  then show ?thesis
    by (simp add: unat_div mult.commute)
qed

text \<open>With fractions that add up to at most one, the rewards distributed for a task never exceed its
  reward, whatever the qualities, the speeds and the numbers of workers and validators.\<close>

theorem rewards_within_reward:
  assumes "distribute_rewards i total_reward workers validators epoch m = (Inr ds, m')"
    and "sane_rewards (rm_config m)" and "length workers < 2 ^ 64" and "length validators < 2 ^ 64"
  shows "amounts ds \<le> units total_reward \<and> get_task_rewards m' i = ds \<and> rm_escrow m' = rm_escrow m"
proof -
  let ?c = "rm_config m" and ?pool = "f64_of_u64 (base_units total_reward)"
  let ?v = "f64_as_u64 (?pool * rc_validators ?c)" and ?w = "f64_as_u64 (?pool * (1 - rc_validators ?c))"
  let ?per = "?w div of_nat (max (length workers) 1)"
  obtain dss where dss: "mapE (worker_rewards ?c ?per epoch) workers = Inr dss"
    and ds: "ds = concat dss @ (if validators = [] then [] else validator_rewards ?v validators)"
    and m': "m' = m\<lparr>rm_rewards := (rm_rewards m)(i \<mapsto> ds)\<rparr>"
    using assms(1) by (auto simp: distribute_rewards_def Let_def split: sum.splits)
  have c: "0 \<le> rc_validators ?c" "rc_validators ?c \<le> 1" using assms(2) by (simp_all add: sane_rewards_def)
  have pool: "0 \<le> ?pool" by simp
  have "amounts (concat dss) \<le> length workers * unat ?per"
    by (rule workers_rewards_bound [OF assms(2) dss])
  also have "\<dots> \<le> unat ?w"
    using div_length_bound [OF assms(3), of ?w] by (cases workers) (simp_all add: max_def)
  finally have work: "amounts (concat dss) \<le> unat ?w" .
  have val: "amounts (validator_rewards ?v validators) \<le> unat ?v"
    using div_length_bound [OF assms(4), of ?v] by (simp add: validator_rewards_def Let_def amounts_constant)
  have "real (unat ?v) \<le> ?pool * rc_validators ?c"
    by (rule f64_as_u64_le [of _ "base_units total_reward" "rc_validators ?c"]) (use pool c in auto)
  moreover have "real (unat ?w) \<le> ?pool * (1 - rc_validators ?c)"
    by (rule f64_as_u64_le [of _ "base_units total_reward" "1 - rc_validators ?c"]) (use pool c in auto)
  ultimately have "real (unat ?v) + real (unat ?w) \<le> ?pool"
    by (simp add: algebra_simps)
  then have "real (unat ?v + unat ?w) \<le> real (units total_reward)"
    by (simp only: f64_of_u64_def of_nat_add)
  then have "unat ?v + unat ?w \<le> units total_reward"
    by (simp only: of_nat_le_iff)
  with work val have "amounts ds \<le> units total_reward"
    unfolding ds by auto
  with m' show ?thesis by (simp add: get_task_rewards_def)
qed

section \<open>Disputes\<close>

text \<open>A challenge is accepted exactly when its stake reaches the minimum, a window for the result is open
  and active, and its identifier is new; otherwise nothing changes.\<close>

theorem challenge_accepted_iff:
  "is_ok (fst (dispute_submit blake3 hex now i r worker challenger stake evidence epoch m)) \<longleftrightarrow>
     base_units (dc_min_stake (dp_config m)) \<le> base_units stake \<and>
     (\<exists>w. dp_windows m (generate_window_id hex i r) = Some w \<and> window_is_active epoch w) \<and>
     get_dispute m (generate_dispute_id blake3 now i r challenger) = None"
  by (auto simp: dispute_submit_def is_challenge_period_active_def get_dispute_def Let_def not_less split: option.splits)

text \<open>A decision that names no arbitrator at all, whatever its votes, is applied to a dispute with a
  committee: the worker of any reputation that the tracker gives is cut to 0.1, and it can be
  applied to the same dispute again.\<close>

theorem empty_decision_slashes:
  assumes "get_dispute m i = Some d" and "dp_committees m i = Some committee"
    and "scores_bounded (dp_tracker m)" and "di_worker d \<noteq> di_challenger d"
  shows "\<exists>m'. process_arbitration now i
      \<lparr>ad_dispute_id = i, ad_arbitrators = [], ad_votes_for_challenger = 0, ad_votes_for_worker = votes,
       ad_outcome = ChallengeAccepted, ad_decided_at = epoch\<rparr> m = (Inr ChallengeAccepted, m') \<and>
    get_reputation (dp_tracker m') (di_worker d) = 1 / 10 \<and> dp_committees m' i = Some committee \<and> get_dispute m' i \<noteq> None"
proof -
  have "get_reputation (dp_tracker m) (di_worker d) \<le> 10"
    using assms(3) by (auto simp: scores_bounded_def get_reputation_def split: option.splits)
  then have "max (get_reputation (dp_tracker m) (di_worker d) -
      max (get_reputation (dp_tracker m) (di_worker d) * (1 / 10)) 10) (1 / 10) = 1 / 10"
    by (simp add: max_def)
  with assms(1,2,4) show ?thesis
    by (simp add: process_arbitration_def get_dispute_def with_tracker_def put_dispute_def Let_def set_reputation_def
        put_score_def get_reputation_def)
qed

section \<open>Reputation\<close>

datatype pouw_rep_cmd = PouwTask public_key task_outcome f64 f64 u64 | PouwValidation public_key bool u64 | PouwReset

fun pouw_rep_exec :: "i64 \<times> pouw_rep_cmd \<Rightarrow> pouw_reputation \<Rightarrow> pouw_reputation" where
  "pouw_rep_exec (now, PouwTask a outcome q s e) m = snd (pouw_update_reputation now a outcome q s e m)"
| "pouw_rep_exec (now, PouwValidation a ok e) m = snd (update_validator_reputation now a ok e m)"
| "pouw_rep_exec (now, PouwReset) m = reset_epoch_tracking m"

definition capped :: "pouw_reputation \<Rightarrow> bool" where
  "capped m \<longleftrightarrow> 0 \<le> pr_max_delta (pm_config m) \<and> (\<forall>a. \<bar>et_total_delta (tracking_of m a)\<bar> \<le> pr_max_delta (pm_config m))"

lemma apply_epoch_cap_capped:
  assumes "capped m"
  shows "capped (snd (apply_epoch_cap a delta e m)) \<and> pm_config (snd (apply_epoch_cap a delta e m)) = pm_config m"
proof -
  define t where "t = (if et_last_epoch (tracking_of m a) < e
    then \<lparr>et_total_delta = 0, et_updates = 0, et_last_epoch = e\<rparr> else tracking_of m a)"
  let ?M = "pr_max_delta (pm_config m)"
  have t: "\<bar>et_total_delta t\<bar> \<le> ?M" using assms by (simp add: capped_def t_def)
  define x where "x = (if ?M - \<bar>et_total_delta t\<bar> < \<bar>delta\<bar> then (?M - \<bar>et_total_delta t\<bar>) * sgn delta else delta)"
  have "\<bar>(?M - \<bar>et_total_delta t\<bar>) * sgn delta\<bar> \<le> ?M - \<bar>et_total_delta t\<bar>"
    using t by (simp add: abs_mult sgn_if)
  then have "\<bar>x\<bar> \<le> ?M - \<bar>et_total_delta t\<bar>" by (auto simp: x_def)
  then have x: "\<bar>et_total_delta t + x\<bar> \<le> ?M" by linarith
  have upd: "capped (m\<lparr>pm_epochs := (pm_epochs m)(a \<mapsto> u)\<rparr>)" if "\<bar>et_total_delta u\<bar> \<le> ?M" for u
    using assms that by (simp add: capped_def tracking_of_def)
  have "snd (apply_epoch_cap a delta e m) = m\<lparr>pm_epochs := (pm_epochs m)(a \<mapsto> t)\<rparr> \<or>
      snd (apply_epoch_cap a delta e m) = m\<lparr>pm_epochs := (pm_epochs m)(a \<mapsto>
        t\<lparr>et_total_delta := et_total_delta t + x, et_updates := et_updates t + 1\<rparr>)\<rparr>"
    unfolding apply_epoch_cap_def Let_def t_def [symmetric] x_def by simp
  then show ?thesis
    using upd [OF t] upd [of "t\<lparr>et_total_delta := et_total_delta t + x, et_updates := et_updates t + 1\<rparr>"] x by auto
qed

lemma finish_update_capped:
  assumes "capped m"
  shows "capped (snd (finish_update now a old delta reason q e m)) \<and>
    pm_config (snd (finish_update now a old delta reason q e m)) = pm_config m"
proof -
  obtain x m' where run: "apply_epoch_cap a delta e m = (x, m')" by force
  have "capped (m'\<lparr>pm_tracker := t\<rparr>) = capped m'" for t
    by (simp add: capped_def tracking_of_def)
  with apply_epoch_cap_capped [OF assms, of a delta e] run show ?thesis
    by (simp add: finish_update_def Let_def)
qed

lemma reset_capped: "capped m \<Longrightarrow> capped (reset_epoch_tracking m) \<and> pm_config (reset_epoch_tracking m) = pm_config m"
  by (simp add: reset_epoch_tracking_def capped_def tracking_of_def)

lemma pouw_rep_exec_capped:
  assumes "capped m"
  shows "capped (pouw_rep_exec c m) \<and> pm_config (pouw_rep_exec c m) = pm_config m"
  by (cases "(c, m)" rule: pouw_rep_exec.cases)
    (auto simp: pouw_update_reputation_def update_validator_reputation_def Let_def finish_update_capped [OF assms]
      reset_capped [OF assms] split: task_outcome.splits)

lemma pouw_rep_runs_capped:
  "capped m \<Longrightarrow> capped (fold pouw_rep_exec cs m) \<and> pm_config (fold pouw_rep_exec cs m) = pm_config m"
proof (induction cs arbitrary: m)
  case Nil
  then show ?case by simp
next
  case (Cons c cs)
  then show ?case using pouw_rep_exec_capped [of m c] by simp
qed

text \<open>Whatever tasks and validations are rewarded or punished, the net change the manager accounts to a key
  in its current epoch stays within the configured cap.\<close>

theorem epoch_change_capped:
  assumes "0 \<le> pr_max_delta config"
  shows "\<bar>et_total_delta (tracking_of (fold pouw_rep_exec cs (pouw_reputation_new tracker config)) a)\<bar> \<le> pr_max_delta config"
proof -
  have new: "capped (pouw_reputation_new tracker config)"
    using assms by (simp add: capped_def pouw_reputation_new_def tracking_of_def)
  have config: "pm_config (pouw_reputation_new tracker config) = config"
    by (simp add: pouw_reputation_new_def)
  show ?thesis
    using pouw_rep_runs_capped [OF new, of cs] unfolding capped_def config by (metis config)
qed

text \<open>With the default floor, a proven fraud never leaves its author below 10: a key of the initial
  reputation 1 is lifted to 10 by it, the most that finalized messages can bring.\<close>

theorem fraud_lifts_newcomer:
  assumes "pm_config m = pouw_reputation_config_default"
  shows "10 \<le> get_reputation (pm_tracker (snd (pouw_update_reputation now a OutcomeSlashed q s e m))) a"
proof -
  obtain x m' where run: "apply_epoch_cap a (- (get_reputation (pm_tracker m) a * (2 / 10) * 2)) e m = (x, m')" by force
  then have "pm_config m' = pm_config m"
    by (auto simp: apply_epoch_cap_def Let_def split: if_splits)
  with run assms show ?thesis
    by (simp add: pouw_update_reputation_def finish_update_def pouw_reputation_config_default_def Let_def
        get_reputation_def set_reputation_def put_score_def)
qed

section \<open>Concrete instances\<close>

lemma mapE_ok:
  assumes "\<And>x. is_ok (f x)"
  shows "is_ok (mapE f xs)"
proof (induction xs)
  case Nil
  then show ?case by simp
next
  case (Cons x xs)
  obtain y where "f x = Inr y" using assms [of x] by (cases "f x") auto
  with Cons show ?case by (cases "mapE f xs") simp_all
qed

lemma distribute_without_vesting:
  assumes "\<not> rc_enable_vesting (rm_config m)"
  shows "is_ok (fst (distribute_rewards i total_reward workers validators epoch m))"
proof -
  have "is_ok (worker_rewards (rm_config m) per e w)" for per e w
    using assms by (cases w) (simp add: worker_rewards_def create_vesting_schedule_def Let_def)
  note each = this
  have all: "is_ok (mapE (worker_rewards (rm_config m) per e) ws)" for per e ws
    by (rule mapE_ok) (rule each)
  show ?thesis
    using all [of _ epoch workers] by (auto simp: distribute_rewards_def Let_def split: sum.splits) (metis is_ok_simps(2))
qed

lemma rewards_within_reward_witness:
  "\<exists>ds m'. distribute_rewards [1] (AdicAmount 100) [([8], 1, 2)] [[9]] 3
       (reward_manager_new (escrow_manager_new locked_balances) (reward_config_default\<lparr>rc_enable_vesting := False\<rparr>)) = (Inr ds, m') \<and>
     amounts ds \<le> 100"
proof -
  let ?m = "reward_manager_new (escrow_manager_new locked_balances) (reward_config_default\<lparr>rc_enable_vesting := False\<rparr>)"
  have config: "rm_config ?m = reward_config_default\<lparr>rc_enable_vesting := False\<rparr>"
    by (simp add: reward_manager_new_def)
  obtain r m' where eq: "distribute_rewards [1] (AdicAmount 100) [([8], 1, 2)] [[9]] 3 ?m = (r, m')" by force
  have "is_ok r"
  proof -
    have "\<not> rc_enable_vesting (rm_config ?m)" unfolding config by (simp add: reward_config_default_def)
    from distribute_without_vesting [OF this] show ?thesis by (metis eq fst_conv)
  qed
  then obtain ds where run: "distribute_rewards [1] (AdicAmount 100) [([8], 1, 2)] [[9]] 3 ?m = (Inr ds, m')"
    using eq by (cases r) simp_all
  have "sane_rewards (rm_config ?m)"
    unfolding config by (simp add: sane_rewards_def reward_config_default_def)
  from rewards_within_reward [OF run this] run show ?thesis by auto
qed

definition sample_dispute :: dispute where
  "sample_dispute =
     \<lparr>di_id = [7], di_task_id = [1], di_result_id = [6], di_worker = [8], di_challenger = [9], di_stake = AdicAmount 1,
      di_evidence = InputOutputMismatch [] [], di_status = DisputeUnderReview, di_created_at = 0, di_deadline = 20\<rparr>"

definition sample_disputes :: dispute_manager where
  "sample_disputes =
     \<lparr>dp_tracker = reputation_tracker_new (9 / 10), dp_config = dispute_config_default, dp_disputes = [[7] \<mapsto> sample_dispute],
      dp_committees = [[7] \<mapsto> [[2], [3]]], dp_windows = Map.empty\<rparr>"

lemma empty_decision_slashes_witness:
  "\<exists>m'. process_arbitration 0 [7]
      \<lparr>ad_dispute_id = [7], ad_arbitrators = [], ad_votes_for_challenger = 0, ad_votes_for_worker = 7,
       ad_outcome = ChallengeAccepted, ad_decided_at = 2\<rparr> sample_disputes = (Inr ChallengeAccepted, m') \<and>
    get_reputation (dp_tracker m') [8] = 1 / 10"
proof -
  have "get_dispute sample_disputes [7] = Some sample_dispute" "dp_committees sample_disputes [7] = Some [[2], [3]]"
    "scores_bounded (dp_tracker sample_disputes)" "di_worker sample_dispute \<noteq> di_challenger sample_dispute"
    by (simp_all add: sample_disputes_def sample_dispute_def get_dispute_def scores_bounded_def reputation_tracker_new_def)
  from empty_decision_slashes [OF this, of 0 7 2] show ?thesis
    by (auto simp: sample_dispute_def)
qed

lemma epoch_change_capped_witness:
  "\<bar>et_total_delta (tracking_of (fold pouw_rep_exec [(0, PouwTask [1] OutcomeSuccess 1 0 1), (1, PouwTask [1] OutcomeSlashed 0 1 1)]
     (pouw_reputation_new (reputation_tracker_new (9 / 10)) pouw_reputation_config_default)) [1])\<bar>
   \<le> pr_max_delta pouw_reputation_config_default"
  by (rule epoch_change_capped) (simp add: pouw_reputation_config_default_def)

lemma fraud_lifts_newcomer_witness:
  "let m = pouw_reputation_new (reputation_tracker_new (9 / 10)) pouw_reputation_config_default in
   get_reputation (pm_tracker m) [1] = 1 \<and>
   10 \<le> get_reputation (pm_tracker (snd (pouw_update_reputation 0 [1] OutcomeSlashed 0 1 1 m))) [1]"
proof -
  have config: "pm_config (pouw_reputation_new (reputation_tracker_new (9 / 10)) pouw_reputation_config_default) =
      pouw_reputation_config_default"
    by (simp add: pouw_reputation_new_def)
  show ?thesis
    using fraud_lifts_newcomer [OF config]
    by (simp add: Let_def pouw_reputation_new_def get_reputation_def reputation_tracker_new_def)
qed

end
