(* ===== verification/Encoders.thy ===== *)
theory Encoders
  imports Padic_Types
begin

text \<open>
  The encoders of \<open>crates/adic-types/src/encoders.rs\<close>, which turn the time, the topic, the region,
  the stake and the network of a message into p-adic digits, and the sets of encoders that give it its
  features. Texts are UTF-8 byte strings, written and read here with the decimal forms of Rust's
  \<open>to_string\<close> and \<open>parse\<close>; \<open>blake3\<close> is a parameter. The trait object is a datatype of the
  encoders. \<open>p.pow(precision)\<close> of \<open>u32\<close> wraps, and a remainder by zero panics.
\<close>

section \<open>Texts and numbers\<close>

definition ascii :: "string \<Rightarrow> bytes" where
  "ascii s = map of_char s"

fun decimal :: "nat \<Rightarrow> bytes" where
  "decimal n = (if n < 10 then [of_nat (48 + n)] else decimal (n div 10) @ [of_nat (48 + n mod 10)])"

declare decimal.simps [simp del]

definition decimal_int :: "int \<Rightarrow> bytes" where
  "decimal_int i = (if i < 0 then 45 # decimal (nat (- i)) else decimal (nat i))"

definition is_digit :: "byte \<Rightarrow> bool" where
  "is_digit b \<longleftrightarrow> 48 \<le> b \<and> b \<le> 57"

definition digits_to_nat :: "bytes \<Rightarrow> nat option" where
  "digits_to_nat s =
     (if s = [] \<or> \<not> list_all is_digit s then None else Some (foldl (\<lambda>a b. 10 * a + (unat b - 48)) 0 s))"

definition strip_plus :: "bytes \<Rightarrow> bytes" where
  "strip_plus s = (case s of [] \<Rightarrow> [] | b # bs \<Rightarrow> if b = 43 then bs else s)"

definition parse_unsigned :: "nat \<Rightarrow> bytes \<Rightarrow> nat option" where
  "parse_unsigned bits s =
     (case digits_to_nat (strip_plus s) of None \<Rightarrow> None | Some n \<Rightarrow> if n < 2 ^ bits then Some n else None)"

definition parse_i64 :: "bytes \<Rightarrow> int option" where
  "parse_i64 s =
     (if s \<noteq> [] \<and> hd s = 45
      then (case digits_to_nat (tl s) of None \<Rightarrow> None | Some n \<Rightarrow> if n \<le> 2 ^ 63 then Some (- int n) else None)
      else (case digits_to_nat (strip_plus s) of None \<Rightarrow> None | Some n \<Rightarrow> if n < 2 ^ 63 then Some (int n) else None))"

text \<open>\<open>str::from_utf8\<close>\<close>

definition utf8_cont :: "byte \<Rightarrow> bool" where
  "utf8_cont b \<longleftrightarrow> 128 \<le> b \<and> b < 192"

definition utf8_second_of_3 :: "byte \<Rightarrow> byte \<Rightarrow> bool" where
  "utf8_second_of_3 b c \<longleftrightarrow>
     224 \<le> b \<and> b < 240 \<and> utf8_cont c \<and> (b = 224 \<longrightarrow> 160 \<le> c) \<and> (b = 237 \<longrightarrow> c < 160)"

definition utf8_second_of_4 :: "byte \<Rightarrow> byte \<Rightarrow> bool" where
  "utf8_second_of_4 b c \<longleftrightarrow>
     240 \<le> b \<and> b < 245 \<and> utf8_cont c \<and> (b = 240 \<longrightarrow> 144 \<le> c) \<and> (b = 244 \<longrightarrow> c < 144)"

fun utf8_valid :: "bytes \<Rightarrow> bool" where
  "utf8_valid [] \<longleftrightarrow> True"
| "utf8_valid (b # bs) \<longleftrightarrow>
     (if b < 128 then utf8_valid bs
      else case bs of
          [] \<Rightarrow> False
        | c # cs \<Rightarrow>
            (if 194 \<le> b \<and> b < 224 then utf8_cont c \<and> utf8_valid cs
             else case cs of
                 [] \<Rightarrow> False
               | d # ds \<Rightarrow>
                   (if utf8_second_of_3 b c then utf8_cont d \<and> utf8_valid ds
                    else case ds of
                        [] \<Rightarrow> False
                      | e # es \<Rightarrow> utf8_second_of_4 b c \<and> utf8_cont d \<and> utf8_cont e \<and> utf8_valid es)))"

definition from_utf8_or :: "bytes \<Rightarrow> bytes \<Rightarrow> bytes" where
  "from_utf8_or s d = (if utf8_valid s then s else d)"

section \<open>Encoders\<close>

datatype encoder =
    TimeEpochEncoder u32 u64
  | TopicHashEncoder u32
  | RegionCodeEncoder u32
  | StakeTierEncoder u32 "u64 list"
  | AsnEncoder u32

definition stake_tier_encoder_new :: "u32 \<Rightarrow> encoder" where
  "stake_tier_encoder_new axis =
     StakeTierEncoder axis [0, 10, 100, 1000, 10000, 100000, 1000000, 10000000, 100000000]"

text \<open>The bucket of a time, whose cast to \<open>u64\<close> wraps when it is negative.\<close>

definition encode_bucket :: "u64 \<Rightarrow> int \<Rightarrow> u32 \<Rightarrow> nat \<Rightarrow> panic + qp_digits" where
  "encode_bucket bucket_size secs p precision =
     (if bucket_size = 0 then Inl DivisionByZero else qp_from_u64 (of_int secs div bucket_size) p precision)"

definition encode_timestamp :: "u64 \<Rightarrow> i64 \<Rightarrow> u32 \<Rightarrow> nat \<Rightarrow> panic + qp_digits" where
  "encode_timestamp bucket_size timestamp p precision = encode_bucket bucket_size (unix_secs timestamp) p precision"

definition encode_time_text :: "u64 \<Rightarrow> bytes \<Rightarrow> u32 \<Rightarrow> nat \<Rightarrow> panic + qp_digits" where
  "encode_time_text bucket_size s p precision =
     encode_bucket bucket_size (case parse_i64 (from_utf8_or s (ascii ''0'')) of None \<Rightarrow> 0 | Some t \<Rightarrow> t) p precision"

definition be_value :: "bytes \<Rightarrow> nat" where
  "be_value s = foldl (\<lambda>a b. 256 * a + unat b) 0 s"

definition encode_topic :: "(bytes \<Rightarrow> bytes) \<Rightarrow> bytes \<Rightarrow> u32 \<Rightarrow> nat \<Rightarrow> panic + qp_digits" where
  "encode_topic blake3 topic p precision =
     (let max_value = unat p ^ precision
      in if max_value = 0 then Inl DivisionByZero else qp_new (be_value (blake3 topic) mod max_value) p precision)"

definition encode_region :: "(bytes \<Rightarrow> bytes) \<Rightarrow> bytes \<Rightarrow> u32 \<Rightarrow> nat \<Rightarrow> panic + qp_digits" where
  "encode_region blake3 region_code p precision =
     qp_from_u64
       (if region_code = ascii ''US'' then 1
        else if region_code = ascii ''EU'' then 2
        else if region_code = ascii ''ASIA'' then 3
        else if region_code = ascii ''AF'' then 4
        else if region_code = ascii ''SA'' then 5
        else if region_code = ascii ''OC'' then 6
        else ucast (hd (blake3 region_code)) mod 100 + 7) p precision"

text \<open>\<open>iter().rev().position(..)\<close>: the first threshold from the end that the stake reaches.\<close>

fun position_of :: "('a \<Rightarrow> bool) \<Rightarrow> 'a list \<Rightarrow> nat option" where
  "position_of f [] = None"
| "position_of f (x # xs) = (if f x then Some 0 else map_option Suc (position_of f xs))"

definition stake_tier :: "u64 list \<Rightarrow> u64 \<Rightarrow> nat" where
  "stake_tier thresholds stake_amount =
     (case position_of (\<lambda>threshold. threshold \<le> stake_amount) (rev thresholds) of
        None \<Rightarrow> 0
      | Some pos \<Rightarrow> length thresholds - 1 - pos)"

definition encode_stake :: "u64 list \<Rightarrow> u64 \<Rightarrow> u32 \<Rightarrow> nat \<Rightarrow> panic + qp_digits" where
  "encode_stake thresholds stake_amount p precision = qp_from_u64 (of_nat (stake_tier thresholds stake_amount)) p precision"

definition encode_stake_text :: "u64 list \<Rightarrow> bytes \<Rightarrow> u32 \<Rightarrow> nat \<Rightarrow> panic + qp_digits" where
  "encode_stake_text thresholds s p precision =
     encode_stake thresholds (case parse_unsigned 64 (from_utf8_or s (ascii ''0'')) of None \<Rightarrow> 0 | Some n \<Rightarrow> of_nat n) p precision"

definition encode_asn :: "u32 \<Rightarrow> u32 \<Rightarrow> nat \<Rightarrow> panic + qp_digits" where
  "encode_asn asn p precision =
     (let modulus = p ^ unat (of_nat precision :: u32)
      in if modulus = 0 then Inl DivisionByZero else qp_from_u64 (ucast asn mod ucast modulus) p precision)"

fun trim_start_matches :: "byte \<Rightarrow> byte \<Rightarrow> bytes \<Rightarrow> bytes" where
  "trim_start_matches a b (x # y # s) = (if x = a \<and> y = b then trim_start_matches a b s else x # y # s)"
| "trim_start_matches a b s = s"

definition encode_asn_str :: "(bytes \<Rightarrow> bytes) \<Rightarrow> bytes \<Rightarrow> u32 \<Rightarrow> nat \<Rightarrow> panic + qp_digits" where
  "encode_asn_str blake3 asn_str p precision =
     encode_asn
       (case parse_unsigned 32 (trim_start_matches 97 115 (trim_start_matches 65 83 asn_str)) of
          None \<Rightarrow> of_nat (be_value (take 4 (blake3 asn_str)))
        | Some n \<Rightarrow> of_nat n) p precision"

fun encode :: "(bytes \<Rightarrow> bytes) \<Rightarrow> encoder \<Rightarrow> bytes \<Rightarrow> u32 \<Rightarrow> nat \<Rightarrow> panic + qp_digits" where
  "encode blake3 (TimeEpochEncoder axis bucket_size) v p precision = encode_time_text bucket_size v p precision"
| "encode blake3 (TopicHashEncoder axis) v p precision = encode_topic blake3 v p precision"
| "encode blake3 (RegionCodeEncoder axis) v p precision = encode_region blake3 (from_utf8_or v (ascii ''UNKNOWN'')) p precision"
| "encode blake3 (StakeTierEncoder axis thresholds) v p precision = encode_stake_text thresholds v p precision"
| "encode blake3 (AsnEncoder axis) v p precision = encode_asn_str blake3 (from_utf8_or v (ascii ''0'')) p precision"

fun encoder_axis :: "encoder \<Rightarrow> u32" where
  "encoder_axis (TimeEpochEncoder axis _) = axis"
| "encoder_axis (TopicHashEncoder axis) = axis"
| "encoder_axis (RegionCodeEncoder axis) = axis"
| "encoder_axis (StakeTierEncoder axis _) = axis"
| "encoder_axis (AsnEncoder axis) = axis"

section \<open>Encoder sets\<close>

record encoder_data =
  ed_timestamp :: i64
  ed_topic :: bytes
  ed_region :: bytes
  ed_stake_amount :: u64
  ed_asn :: bytes

definition encoder_data_new :: "i64 \<Rightarrow> bytes \<Rightarrow> bytes \<Rightarrow> encoder_data" where
  "encoder_data_new timestamp topic region =
     \<lparr>ed_timestamp = timestamp, ed_topic = topic, ed_region = region, ed_stake_amount = 0, ed_asn = ascii ''0''\<rparr>"

definition default_phase0 :: "encoder list" where
  "default_phase0 = [TimeEpochEncoder 0 60, TopicHashEncoder 1, RegionCodeEncoder 2]"

definition default_full :: "encoder list" where
  "default_full = [TimeEpochEncoder 0 60, TopicHashEncoder 1, RegionCodeEncoder 2, stake_tier_encoder_new 3]"

definition encoders_with_asn :: "encoder list" where
  "encoders_with_asn = [TimeEpochEncoder 0 60, TopicHashEncoder 1, AsnEncoder 2, stake_tier_encoder_new 3]"

fun encoder_value :: "encoder_data \<Rightarrow> encoder \<Rightarrow> bytes" where
  "encoder_value ed (TimeEpochEncoder _ _) = decimal_int (ed_timestamp ed)"
| "encoder_value ed (TopicHashEncoder _) = ed_topic ed"
| "encoder_value ed (RegionCodeEncoder _) = ed_region ed"
| "encoder_value ed (StakeTierEncoder _ _) = decimal (unat (ed_stake_amount ed))"
| "encoder_value ed (AsnEncoder _) = ed_asn ed"

definition encode_all :: "(bytes \<Rightarrow> bytes) \<Rightarrow> encoder list \<Rightarrow> encoder_data \<Rightarrow> u32 \<Rightarrow> nat \<Rightarrow> panic + axis_phi list" where
  "encode_all blake3 encoders ed p precision =
     mapE (\<lambda>e. bindE (encode blake3 e (encoder_value ed e) p precision) (\<lambda>x. Inr (axis_phi_new (encoder_axis e) x))) encoders"

section \<open>Balls are residue classes\<close>

lemma ball_is_residue:
  assumes "qp_new v p n = Inr x" and "qp_new w p n = Inr y" and "1 < unat p" and "unat p \<le> 256" and "r \<le> n"
  shows "qp_ball_id x r = qp_ball_id y r \<longleftrightarrow> v mod unat p ^ r = w mod unat p ^ r"
proof -
  note dx = qp_new_digits [OF assms(1,3,4)] qp_new_Inr(2) [OF assms(1)]
  note dy = qp_new_digits [OF assms(2,3,4)] qp_new_Inr(2) [OF assms(2)]
  have pow: "unat p ^ r dvd unat p ^ n" using assms(5) by (rule le_imp_power_dvd)
  have x: "digits_value (unat p) (take r (qd_digits x)) = v mod unat p ^ r"
    using digits_value_mod_take [OF dx(1), of r] dx(2,3) assms(5) mod_mod_cancel [OF pow] by simp
  have y: "digits_value (unat p) (take r (qd_digits y)) = w mod unat p ^ r"
    using digits_value_mod_take [OF dy(1), of r] dy(2,3) assms(5) mod_mod_cancel [OF pow] by simp
  show ?thesis
  proof
    assume "qp_ball_id x r = qp_ball_id y r"
    then show "v mod unat p ^ r = w mod unat p ^ r" using x y by (simp add: qp_ball_id_def)
  next
    assume "v mod unat p ^ r = w mod unat p ^ r"
    then have "take r (qd_digits x) = take r (qd_digits y)"
      using x y digits_value_inj [OF digits_below_take [OF dx(1), of r] digits_below_take [OF dy(1), of r]] dx(3) dy(3)
      by simp
    then show "qp_ball_id x r = qp_ball_id y r" by (simp add: qp_ball_id_def)
  qed
qed

section \<open>Decimal texts\<close>

lemma digit_byte:
  assumes "d < 10"
  shows "unat (of_nat (48 + d) :: byte) = 48 + d"
  using assms by (simp add: unat_of_nat del: of_nat_add)

lemma decimal_digits: "list_all is_digit (decimal n) \<and> decimal n \<noteq> []"
proof (induction n rule: decimal.induct)
  case (1 n)
  have d: "is_digit (of_nat (48 + d))" if "d < 10" for d
    using digit_byte [OF that] that by (simp add: is_digit_def word_le_nat_alt del: of_nat_add)
  show ?case
  proof (cases "n < 10")
    case True
    then show ?thesis by (simp add: decimal.simps [of n] d del: of_nat_add)
  next
    case False
    with 1 d [of "n mod 10"] show ?thesis by (simp add: decimal.simps [of n] del: of_nat_add)
  qed
qed

lemma decimal_value: "foldl (\<lambda>a b. 10 * a + (unat b - 48)) 0 (decimal n) = n"
proof (induction n rule: decimal.induct)
  case (1 n)
  show ?case
  proof (cases "n < 10")
    case True
    then show ?thesis by (simp add: decimal.simps [of n] digit_byte del: of_nat_add)
  next
    case False
    with 1 digit_byte [of "n mod 10"] show ?thesis by (simp add: decimal.simps [of n] del: of_nat_add)
  qed
qed

lemma digits_to_decimal [simp]: "digits_to_nat (decimal n) = Some n"
  using decimal_digits [of n] decimal_value [of n] by (simp add: digits_to_nat_def)

lemma decimal_ascii: "b \<in> set (decimal n) \<Longrightarrow> 48 \<le> b \<and> b \<le> 57"
  using decimal_digits [of n] by (auto simp: list_all_iff is_digit_def)

lemma utf8_ascii: "list_all (\<lambda>b. b < 128) s \<Longrightarrow> utf8_valid s"
  by (induction s) simp_all

lemma utf8_decimal [simp]: "utf8_valid (decimal n)"
proof (rule utf8_ascii)
  have "b < 128" if "b \<in> set (decimal n)" for b
  proof -
    have "b \<le> 57" using decimal_ascii [OF that] by simp
    then show ?thesis by (rule le_less_trans) simp
  qed
  then show "list_all (\<lambda>b. b < 128) (decimal n)" by (simp add: list_all_iff)
qed

lemma decimal_no_sign:
  obtains b bs where "decimal n = b # bs" and "b \<noteq> 43" and "b \<noteq> 45"
proof -
  obtain b bs where b: "decimal n = b # bs" using decimal_digits [of n] by (cases "decimal n") auto
  then have "48 \<le> b" using decimal_ascii [of b n] by simp
  then have "b \<noteq> 43" "b \<noteq> 45" by (auto simp: word_le_nat_alt)
  with b show thesis by (rule that)
qed

lemma strip_plus_decimal [simp]: "strip_plus (decimal n) = decimal n"
  by (rule decimal_no_sign [of n]) (simp add: strip_plus_def)

lemma parse_decimal [simp]: "parse_unsigned bits (decimal n) = (if n < 2 ^ bits then Some n else None)"
  by (simp add: parse_unsigned_def)

lemma parse_decimal_int:
  assumes "- (2 ^ 63) \<le> i" and "i < 2 ^ 63"
  shows "parse_i64 (decimal_int i) = Some i"
proof (cases "i < 0")
  case True
  with assms(1) have "nat (- i) \<le> 2 ^ 63" by (simp add: nat_le_iff)
  with True show ?thesis by (simp add: decimal_int_def parse_i64_def)
next
  case False
  obtain b bs where b: "decimal (nat i) = b # bs" "b \<noteq> 45" by (rule decimal_no_sign)
  have "parse_i64 (b # bs) = (case digits_to_nat (strip_plus (b # bs)) of None \<Rightarrow> None
      | Some n \<Rightarrow> if n < 2 ^ 63 then Some (int n) else None)"
    using b(2) by (simp add: parse_i64_def)
  moreover have "nat i < 2 ^ 63" using False assms(2) by (simp add: nat_less_iff)
  ultimately show ?thesis
    using False b(1) [symmetric] by (simp add: decimal_int_def)
qed

section \<open>The features of a message\<close>

lemma encode_time_decimal:
  "- (2 ^ 63) \<le> i \<Longrightarrow> i < 2 ^ 63 \<Longrightarrow> encode_time_text bucket (decimal_int i) p n = encode_bucket bucket i p n"
proof -
  assume i: "- (2 ^ 63) \<le> i" "i < 2 ^ 63"
  have "utf8_valid (decimal_int i)"
    by (simp add: decimal_int_def)
  with parse_decimal_int [OF i] show ?thesis
    by (simp add: encode_time_text_def from_utf8_or_def)
qed

lemma encode_stake_decimal: "encode_stake_text thresholds (decimal (unat stake)) p n = encode_stake thresholds stake p n"
proof -
  have "unat stake < 2 ^ 64" using unsigned_less [of stake, where 'a = nat] by simp
  then show ?thesis by (simp add: encode_stake_text_def from_utf8_or_def)
qed

text \<open>Writing the time and the stake of a message as decimal texts and reading them back, as
  \<open>encode_all\<close> does, loses nothing: the features are those of the numbers themselves.\<close>

theorem encode_all_numbers:
  assumes "- (2 ^ 63) \<le> ed_timestamp ed" and "ed_timestamp ed < 2 ^ 63"
  shows "encode_all blake3 default_full ed p n =
    bindE (encode_bucket 60 (ed_timestamp ed) p n) (\<lambda>time.
    bindE (encode_topic blake3 (ed_topic ed) p n) (\<lambda>topic.
    bindE (encode_region blake3 (from_utf8_or (ed_region ed) (ascii ''UNKNOWN'')) p n) (\<lambda>region.
    bindE (qp_from_u64 (of_nat (stake_tier [0, 10, 100, 1000, 10000, 100000, 1000000, 10000000, 100000000] (ed_stake_amount ed))) p n)
      (\<lambda>stake. Inr [axis_phi_new 0 time, axis_phi_new 1 topic, axis_phi_new 2 region, axis_phi_new 3 stake]))))"
proof -
  have assoc: "bindE (bindE x f) g = bindE x (\<lambda>y. bindE (f y) g)" for x :: "panic + 'a" and f :: "'a \<Rightarrow> panic + 'b" and g :: "'b \<Rightarrow> panic + 'c"
    by (cases x) simp_all
  show ?thesis
    using encode_time_decimal [OF assms, of 60 p n]
    by (simp add: encode_all_def default_full_def stake_tier_encoder_new_def encode_stake_decimal encode_stake_def assoc)
qed

text \<open>Two messages lie in the same ball of radius \<open>r\<close> of the time axis exactly when the numbers of
  their minutes are congruent modulo \<open>p\<^sup>r\<close>.\<close>

theorem time_ball_is_residue:
  assumes "encode_all blake3 default_full ed p n = Inr (f # fs)" and "encode_all blake3 default_full ed' p n = Inr (g # gs)"
    and "0 \<le> ed_timestamp ed" and "ed_timestamp ed < 2 ^ 63" and "0 \<le> ed_timestamp ed'" and "ed_timestamp ed' < 2 ^ 63"
    and "1 < unat p" and "unat p \<le> 256" and "r \<le> n"
  shows "qp_ball_id (ap_digits f) r = qp_ball_id (ap_digits g) r \<longleftrightarrow>
    (ed_timestamp ed div 60) mod int (unat p) ^ r = (ed_timestamp ed' div 60) mod int (unat p) ^ r"
proof -
  have bucket: "encode_bucket 60 t p n = qp_new (nat (t div 60)) p n" if "0 \<le> t" "t < 2 ^ 63" for t :: int
  proof -
    have "unat (of_int t :: u64) = nat t"
      using that by (simp add: unat_eq_nat_uint uint_word_of_int)
    then have "unat (of_int t div 60 :: u64) = nat (t div 60)"
      using that by (simp add: unat_div nat_div_distrib)
    then show ?thesis by (simp add: encode_bucket_def qp_from_u64_def)
  qed
  have first: "\<exists>x. encode_bucket 60 (ed_timestamp d) p n = Inr x \<and> h = axis_phi_new 0 x"
    if "encode_all blake3 default_full d p n = Inr (h # hs)" "0 \<le> ed_timestamp d" "ed_timestamp d < 2 ^ 63" for d h hs
  proof -
    have lower: "- (2 ^ 63) \<le> ed_timestamp d" using that(2) by (rule order_trans [rotated]) simp
    from that(1) show ?thesis
      unfolding encode_all_numbers [OF lower that(3)] by (auto simp: bindE_Inr_iff)
  qed
  obtain x where x: "encode_bucket 60 (ed_timestamp ed) p n = Inr x" "f = axis_phi_new 0 x"
    using first [OF assms(1,3,4)] by blast
  obtain y where y: "encode_bucket 60 (ed_timestamp ed') p n = Inr y" "g = axis_phi_new 0 y"
    using first [OF assms(2,5,6)] by blast
  have "nat a mod unat p ^ r = nat b mod unat p ^ r \<longleftrightarrow> a mod int (unat p) ^ r = b mod int (unat p) ^ r"
    if "0 \<le> a" "0 \<le> b" for a b :: int
  proof -
    have "int (nat a mod unat p ^ r) = a mod int (unat p) ^ r" "int (nat b mod unat p ^ r) = b mod int (unat p) ^ r"
      using that by (simp_all add: zmod_int)
    then show ?thesis by (metis of_nat_eq_iff)
  qed
  then have "nat (ed_timestamp ed div 60) mod unat p ^ r = nat (ed_timestamp ed' div 60) mod unat p ^ r \<longleftrightarrow>
      (ed_timestamp ed div 60) mod int (unat p) ^ r = (ed_timestamp ed' div 60) mod int (unat p) ^ r"
    using assms(3,5) by (simp add: pos_imp_zdiv_nonneg_iff)
  then show ?thesis
    using ball_is_residue [OF x(1) [unfolded bucket [OF assms(3,4)]] y(1) [unfolded bucket [OF assms(5,6)]] assms(7-9)]
    by (simp add: x(2) y(2) axis_phi_new_def)
qed

section \<open>Stake tiers\<close>

lemma position_of_spec:
  "position_of f xs = (if list_ex f xs then Some (length (takeWhile (\<lambda>x. \<not> f x) xs)) else None)"
  by (induction xs) auto

text \<open>With rising thresholds the tier of a stake is the number of thresholds it reaches, less one.\<close>

lemma stake_tier_counts:
  "sorted thresholds \<Longrightarrow> stake_tier thresholds stake = length (filter (\<lambda>x. x \<le> stake) thresholds) - 1"
proof (induction thresholds rule: rev_induct)
  case Nil
  then show ?case by (simp add: stake_tier_def)
next
  case (snoc t ts)
  then have s: "sorted ts" "\<forall>x \<in> set ts. x \<le> t" by (simp_all add: sorted_append)
  show ?case
  proof (cases "t \<le> stake")
    case True
    with s have "filter (\<lambda>x. x \<le> stake) ts = ts" by (fastforce simp: filter_id_conv)
    with True show ?thesis by (simp add: stake_tier_def)
  next
    case False
    with snoc.IH [OF s(1)] show ?thesis
      by (auto simp: stake_tier_def split: option.splits)
  qed
qed

lemma stake_tier_mono:
  assumes "sorted thresholds" and "a \<le> b"
  shows "stake_tier thresholds a \<le> stake_tier thresholds b"
proof -
  have "length (filter (\<lambda>x. x \<le> a) thresholds) \<le> length (filter (\<lambda>x. x \<le> b) thresholds)"
    using assms(2) by (induction thresholds) (auto intro: order_trans)
  then show ?thesis
    using assms(1) by (simp add: stake_tier_counts diff_le_mono)
qed

section \<open>Concrete instances\<close>

definition sample_data :: "int \<Rightarrow> encoder_data" where
  "sample_data t = encoder_data_new t [] (ascii ''EU'')"

lemma sample_encodes: "\<exists>f fs. encode_all (\<lambda>_. [7]) default_full (sample_data t) 3 10 = Inr (f # fs)"
proof -
  have ok: "\<exists>x. qp_new v 3 10 = Inr x" for v by (rule qp_new_ok) simp
  have all: "\<exists>x. encode (\<lambda>_. [7]) e v 3 10 = Inr x" if "e \<in> set default_full" for e v
    using that by (auto simp: default_full_def stake_tier_encoder_new_def encode_time_text_def encode_bucket_def qp_from_u64_def
        encode_topic_def Let_def encode_region_def encode_stake_text_def encode_stake_def intro: ok)
  have "\<exists>ys. mapE (\<lambda>e. bindE (encode (\<lambda>_. [7]) e (encoder_value d e) 3 10) (\<lambda>x. Inr (axis_phi_new (encoder_axis e) x))) es = Inr ys \<and>
      length ys = length es" if "set es \<subseteq> set default_full" for d es
    using that
  proof (induction es)
    case Nil
    then show ?case by simp
  next
    case (Cons e es)
    then obtain ys where ys: "mapE (\<lambda>e. bindE (encode (\<lambda>_. [7]) e (encoder_value d e) 3 10) (\<lambda>x. Inr (axis_phi_new (encoder_axis e) x))) es = Inr ys"
      "length ys = length es" by auto
    obtain x where "encode (\<lambda>_. [7]) e (encoder_value d e) 3 10 = Inr x" using all [of e] Cons.prems by auto
    with ys show ?case by simp
  qed
  from this [of default_full "sample_data t"] obtain ys where
    "encode_all (\<lambda>_. [7]) default_full (sample_data t) 3 10 = Inr ys" "length ys = length default_full"
    by (auto simp: encode_all_def)
  then show ?thesis by (cases ys) (simp_all add: default_full_def)
qed

lemma encode_all_numbers_witness:
  "encode_all (\<lambda>_. [7]) default_full (sample_data 125) 3 10 =
    bindE (encode_bucket 60 125 3 10) (\<lambda>time.
    bindE (encode_topic (\<lambda>_. [7]) [] 3 10) (\<lambda>topic.
    bindE (encode_region (\<lambda>_. [7]) (from_utf8_or (ascii ''EU'') (ascii ''UNKNOWN'')) 3 10) (\<lambda>region.
    bindE (qp_from_u64 (of_nat (stake_tier [0, 10, 100, 1000, 10000, 100000, 1000000, 10000000, 100000000] 0)) 3 10)
      (\<lambda>stake. Inr [axis_phi_new 0 time, axis_phi_new 1 topic, axis_phi_new 2 region, axis_phi_new 3 stake]))))"
  using encode_all_numbers [of "sample_data 125"] by (simp add: sample_data_def encoder_data_new_def)

text \<open>Messages one minute apart share no ball of the time axis, messages three minutes apart one of radius 1.\<close>

lemma time_ball_is_residue_witness:
  "\<exists>f g h fs gs hs. encode_all (\<lambda>_. [7]) default_full (sample_data 0) 3 10 = Inr (f # fs) \<and>
     encode_all (\<lambda>_. [7]) default_full (sample_data 60) 3 10 = Inr (g # gs) \<and>
     encode_all (\<lambda>_. [7]) default_full (sample_data 180) 3 10 = Inr (h # hs) \<and>
     qp_ball_id (ap_digits f) 1 \<noteq> qp_ball_id (ap_digits g) 1 \<and> qp_ball_id (ap_digits f) 1 = qp_ball_id (ap_digits h) 1"
proof -
  obtain f fs where f: "encode_all (\<lambda>_. [7]) default_full (sample_data 0) 3 10 = Inr (f # fs)" using sample_encodes by blast
  obtain g gs where g: "encode_all (\<lambda>_. [7]) default_full (sample_data 60) 3 10 = Inr (g # gs)" using sample_encodes by blast
  obtain h hs where h: "encode_all (\<lambda>_. [7]) default_full (sample_data 180) 3 10 = Inr (h # hs)" using sample_encodes by blast
  from time_ball_is_residue [OF f g, of 1] time_ball_is_residue [OF f h, of 1] f g h show ?thesis
    by (simp add: sample_data_def encoder_data_new_def)
qed

end
