(* ===== verification/Worker_Selection.thy ===== *)
theory Worker_Selection
  imports Pouw_Incentives Encoders
begin

text \<open>
  The choice of the workers of a task, \<open>WorkerSelector\<close>
  (\<open>crates/adic-pouw/src/worker_selection.rs\<close>): who is eligible, their scores, the diversity of
  the chosen ones on three p-adic axes and the collateral they lock. Scores are exact reals;
  \<open>blake3\<close> and the texts of lock identifiers are parameters; the axis map of a worker is the list of
  its three entries.
\<close>

record worker_selection_config =
  wc_min_reputation :: f64
  wc_collateral_multiplier :: f64
  wc_require_diversity :: bool
  wc_max_per_ball :: nat
  wc_performance_weight :: f64

definition worker_selection_config_default :: worker_selection_config where
  "worker_selection_config_default =
     \<lparr>wc_min_reputation = 500, wc_collateral_multiplier = 5 / 10, wc_require_diversity = True, wc_max_per_ball = 2,
      wc_performance_weight = 3 / 10\<rparr>"

record worker_performance =
  wp_completed :: u64
  wp_failed :: u64
  wp_slashed :: u64
  wp_execution_time :: f64
  wp_quality :: f64
  wp_last_epoch :: u64

definition worker_performance_default :: worker_performance where
  "worker_performance_default =
     \<lparr>wp_completed = 0, wp_failed = 0, wp_slashed = 0, wp_execution_time = 0, wp_quality = 1, wp_last_epoch = 0\<rparr>"

definition performance_score :: "worker_performance \<Rightarrow> f64" where
  "performance_score p =
     (let total_attempted = wp_completed p + wp_failed p + wp_slashed p
      in if total_attempted = 0 then 1
         else (let success_rate = f64_of_u64 (wp_completed p) / f64_of_u64 total_attempted;
                   slash_penalty = (if 0 < wp_slashed p then 5 / 10 else 1)
               in min (max (success_rate * wp_quality p * slash_penalty) 0) 1))"

record eligible_worker =
  ew_worker :: public_key
  ew_reputation :: f64
  ew_performance :: f64
  ew_vrf :: bytes
  ew_score :: f64

record worker_features =
  wf_region :: bytes
  wf_asn :: bytes
  wf_stake_tier :: u64

record 's worker_selector =
  ws_tracker :: reputation_tracker
  ws_escrow :: "'s escrow_manager"
  ws_performance :: "public_key \<rightharpoonup> worker_performance"
  ws_config :: worker_selection_config
  ws_features :: "public_key \<rightharpoonup> worker_features"

definition worker_selector_new :: "reputation_tracker \<Rightarrow> 's escrow_manager \<Rightarrow> worker_selection_config \<Rightarrow> 's worker_selector" where
  "worker_selector_new tracker escrow config =
     \<lparr>ws_tracker = tracker, ws_escrow = escrow, ws_performance = Map.empty, ws_config = config, ws_features = Map.empty\<rparr>"

definition get_worker_performance :: "'s worker_selector \<Rightarrow> public_key \<Rightarrow> worker_performance" where
  "get_worker_performance m w = (case ws_performance m w of None \<Rightarrow> worker_performance_default | Some p \<Rightarrow> p)"

section \<open>Eligibility\<close>

definition generate_worker_seed :: "task \<Rightarrow> public_key \<Rightarrow> u64 \<Rightarrow> bytes" where
  "generate_worker_seed t worker epoch = tk_id t @ worker @ le_bytes epoch @ ascii ''ADIC-POUW-WORKER-SELECTION-v1''"

definition le_value :: "bytes \<Rightarrow> nat" where
  "le_value s = be_value (rev s)"

definition calculate_selection_score :: "worker_selection_config \<Rightarrow> f64 \<Rightarrow> f64 \<Rightarrow> bytes \<Rightarrow> f64" where
  "calculate_selection_score c reputation perf vrf_value =
     (let vrf_score = real (le_value (take 8 vrf_value)) / real (2 ^ 64 - 1 :: nat);
          rep_score = min (reputation / 10000) 1;
          rep_weight = 4 / 10;
          perf_weight = wc_performance_weight c;
          vrf_weight = 1 - rep_weight - perf_weight
      in rep_score * rep_weight + perf * perf_weight + vrf_score * vrf_weight)"

definition eligible_of :: "(bytes \<Rightarrow> bytes) \<Rightarrow> task \<Rightarrow> u64 \<Rightarrow> 's worker_selector \<Rightarrow> public_key \<Rightarrow> eligible_worker option" where
  "eligible_of blake3 t current_epoch m worker =
     (let reputation = get_reputation (ws_tracker m) worker
      in if reputation < wc_min_reputation (ws_config m) then None
         else if reputation < tk_min_reputation t then None
         else (let perf = performance_score (get_worker_performance m worker);
                   vrf_value = blake3 (generate_worker_seed t worker current_epoch)
               in Some \<lparr>ew_worker = worker, ew_reputation = reputation, ew_performance = perf, ew_vrf = vrf_value,
                    ew_score = calculate_selection_score (ws_config m) reputation perf vrf_value\<rparr>))"

definition filter_eligible_workers :: "(bytes \<Rightarrow> bytes) \<Rightarrow> task \<Rightarrow> public_key list \<Rightarrow> u64 \<Rightarrow> 's worker_selector \<Rightarrow> eligible_worker list" where
  "filter_eligible_workers blake3 t candidates current_epoch m =
     List.map_filter (eligible_of blake3 t current_epoch m) candidates"

section \<open>Diversity\<close>

definition derive_features :: "(bytes \<Rightarrow> bytes) \<Rightarrow> public_key \<Rightarrow> worker_features" where
  "derive_features blake3 worker =
     (let h = blake3 worker
      in \<lparr>wf_region = ascii ([''US'', ''EU'', ''ASIA'', ''AF'', ''SA'', ''OC''] ! (unat (h ! 0) mod 6)),
          wf_asn = ascii ''AS'' @ decimal (be_value (take 4 (drop 1 h)) mod 100000),
          wf_stake_tier = of_nat (be_value (take 4 (drop 5 h) @ [0, 0, 0, 0]) mod 1000000)\<rparr>)"

definition get_worker_features :: "(bytes \<Rightarrow> bytes) \<Rightarrow> public_key \<Rightarrow> 's worker_selector \<Rightarrow> worker_features \<times> 's worker_selector" where
  "get_worker_features blake3 worker m =
     (case ws_features m worker of
        Some f \<Rightarrow> (f, m)
      | None \<Rightarrow>
          (let f = derive_features blake3 worker
           in (f, m\<lparr>ws_features := (ws_features m)(worker \<mapsto> f)\<rparr>)))"

type_synonym axis_balls = "(u32 \<times> bytes) list"

definition axis_balls_of :: "(bytes \<Rightarrow> bytes) \<Rightarrow> worker_features \<Rightarrow> panic + axis_balls" where
  "axis_balls_of blake3 f =
     bindE (encode blake3 (RegionCodeEncoder 1) (wf_region f) 3 5) (\<lambda>region.
     bindE (encode blake3 (AsnEncoder 2) (wf_asn f) 3 5) (\<lambda>asn.
     bindE (encode blake3 (stake_tier_encoder_new 3) (decimal (unat (wf_stake_tier f))) 3 5) (\<lambda>stake.
     Inr [(1, qp_ball_id region 3), (2, qp_ball_id asn 3), (3, qp_ball_id stake 3)])))"

definition get_worker_axis_balls :: "(bytes \<Rightarrow> bytes) \<Rightarrow> public_key \<Rightarrow> (pouw_error, 's worker_selector, axis_balls) rop" where
  "get_worker_axis_balls blake3 worker m =
     (case get_worker_features blake3 worker m of (f, m) \<Rightarrow>
        (case axis_balls_of blake3 f of Inl e \<Rightarrow> errR (PouwPanic e) m | Inr balls \<Rightarrow> okR balls m))"

fun use_balls :: "axis_balls \<Rightarrow> (u32 \<times> bytes \<Rightarrow> nat) \<Rightarrow> u32 \<times> bytes \<Rightarrow> nat" where
  "use_balls [] used = used"
| "use_balls (b # bs) used = use_balls bs (used(b := used b + 1))"

text \<open>The loop over the workers in the order of their scores; \<open>used\<close> counts the chosen workers per axis
  and ball.\<close>

fun choose_workers :: "(bytes \<Rightarrow> bytes) \<Rightarrow> nat \<Rightarrow> (u32 \<times> bytes \<Rightarrow> nat) \<Rightarrow> eligible_worker list \<Rightarrow> eligible_worker list \<Rightarrow>
    (pouw_error, 's worker_selector, eligible_worker list) rop" where
  "choose_workers blake3 n used chosen [] = okR chosen"
| "choose_workers blake3 n used chosen (candidate # rest) = (\<lambda>m.
     (if n \<le> length chosen then okR chosen m
      else if \<not> wc_require_diversity (ws_config m) then choose_workers blake3 n used (chosen @ [candidate]) rest m
      else tryR (get_worker_axis_balls blake3 (ew_worker candidate)) (\<lambda>balls m.
        (if list_ex (\<lambda>b. wc_max_per_ball (ws_config m) \<le> used b) balls
         then choose_workers blake3 n used chosen rest m
         else choose_workers blake3 n (use_balls balls used) (chosen @ [candidate]) rest m)) m))"

definition vrf_select_workers :: "(bytes \<Rightarrow> bytes) \<Rightarrow> task \<Rightarrow> eligible_worker list \<Rightarrow>
    (pouw_error, 's worker_selector, eligible_worker list) rop" where
  "vrf_select_workers blake3 t eligible =
     (let n = unat (tk_worker_count t)
      in tryR (choose_workers blake3 n (\<lambda>_. 0) [] (sort_key (\<lambda>w. - ew_score w) eligible)) (\<lambda>selected.
         if length selected < n then errR PouwOther else okR selected))"

section \<open>Collateral\<close>

definition generate_assignment_id :: "(bytes \<Rightarrow> bytes) \<Rightarrow> task \<Rightarrow> public_key \<Rightarrow> nat \<Rightarrow> bytes" where
  "generate_assignment_id blake3 t worker index = blake3 (tk_id t @ worker @ le_bytes (of_nat index))"

definition worker_collateral :: "worker_selection_config \<Rightarrow> task \<Rightarrow> u64" where
  "worker_collateral c t =
     f64_as_u64 (f64_of_u64 (base_units (tk_reward t)) * wc_collateral_multiplier c) div ucast (tk_worker_count t)"

fun lock_collateral :: "'s task_env \<Rightarrow> i64 \<Rightarrow> task \<Rightarrow> u64 \<Rightarrow> adic_amount \<Rightarrow> nat \<Rightarrow> eligible_worker list \<Rightarrow>
    (pouw_error, 's worker_selector, work_assignment list) rop" where
  "lock_collateral v now t current_epoch collateral index [] = okR []"
| "lock_collateral v now t current_epoch collateral index (w # ws) =
     tryR (lift_op ws_escrow (\<lambda>e m. m\<lparr>ws_escrow := e\<rparr>) (\<lambda>_. PouwEscrowError)
       (escrow_lock (te_dec v) (te_hex v) (te_econ v) now
         (PoUWDeposit (tk_id t) (address_from_public_key (te_blake3 v) (ew_worker w))) collateral current_epoch)) (\<lambda>lock_id.
     tryR (lock_collateral v now t current_epoch collateral (Suc index) ws) (\<lambda>assignments.
     okR (\<lparr>wa_id = generate_assignment_id (te_blake3 v) t (ew_worker w) index, wa_task_id = tk_id t, wa_worker = ew_worker w,
         wa_epoch = current_epoch, wa_vrf_proof = ew_vrf w, wa_index = of_nat index, wa_lock = Some lock_id,
         wa_timestamp = now\<rparr> # assignments)))"

definition escrow_worker_collateral :: "'s task_env \<Rightarrow> i64 \<Rightarrow> task \<Rightarrow> eligible_worker list \<Rightarrow> u64 \<Rightarrow>
    (pouw_error, 's worker_selector, work_assignment list) rop" where
  "escrow_worker_collateral v now t selected current_epoch m =
     (if tk_worker_count t = 0 then errR (PouwPanic DivisionByZero) m
      else lock_collateral v now t current_epoch (AdicAmount (worker_collateral (ws_config m) t)) 0 selected m)"

definition select_workers :: "'s task_env \<Rightarrow> i64 \<Rightarrow> task \<Rightarrow> public_key list \<Rightarrow> u64 \<Rightarrow>
    (pouw_error, 's worker_selector, work_assignment list) rop" where
  "select_workers v now t candidate_workers current_epoch m =
     (let eligible = filter_eligible_workers (te_blake3 v) t candidate_workers current_epoch m
      in if length eligible < unat (tk_worker_count t) then errR PouwOther m
         else tryR (vrf_select_workers (te_blake3 v) t eligible) (\<lambda>selected.
              escrow_worker_collateral v now t selected current_epoch) m)"

section \<open>Performance\<close>

definition update_worker_performance :: "public_key \<Rightarrow> task_outcome \<Rightarrow> u64 \<Rightarrow> f64 \<Rightarrow> u64 \<Rightarrow> 's worker_selector \<Rightarrow> 's worker_selector" where
  "update_worker_performance worker outcome execution_time_ms quality_score current_epoch m =
     (let perf = get_worker_performance m worker;
          perf =
            (case outcome of
               OutcomeSuccess \<Rightarrow>
                 (if wp_completed perf = 0
                  then perf\<lparr>wp_execution_time := f64_of_u64 execution_time_ms, wp_quality := quality_score,
                    wp_completed := wp_completed perf + 1\<rparr>
                  else perf\<lparr>wp_execution_time := 7 / 10 * wp_execution_time perf + 3 / 10 * f64_of_u64 execution_time_ms,
                    wp_quality := 7 / 10 * wp_quality perf + 3 / 10 * quality_score,
                    wp_completed := wp_completed perf + 1\<rparr>)
             | OutcomeFailure \<Rightarrow> perf\<lparr>wp_failed := wp_failed perf + 1\<rparr>
             | OutcomeSlashed \<Rightarrow> perf\<lparr>wp_slashed := wp_slashed perf + 1\<rparr>
             | _ \<Rightarrow> perf)
      in m\<lparr>ws_performance := (ws_performance m)(worker \<mapsto> perf\<lparr>wp_last_epoch := current_epoch\<rparr>)\<rparr>)"

definition get_high_performance_workers :: "'s worker_selector \<Rightarrow> f64 \<Rightarrow> public_key set" where
  "get_high_performance_workers m min_score =
     {w. \<exists>p. ws_performance m w = Some p \<and> min_score \<le> performance_score p}"

section \<open>Properties\<close>

text \<open>Balls of the workers, read without the cache; the cache holds derived features only.\<close>

definition features_derived :: "(bytes \<Rightarrow> bytes) \<Rightarrow> 's worker_selector \<Rightarrow> bool" where
  "features_derived blake3 m \<longleftrightarrow> (\<forall>w f. ws_features m w = Some f \<longrightarrow> f = derive_features blake3 w)"

definition worker_balls :: "(bytes \<Rightarrow> bytes) \<Rightarrow> public_key \<Rightarrow> panic + axis_balls" where
  "worker_balls blake3 w = axis_balls_of blake3 (derive_features blake3 w)"

lemma get_worker_axis_balls_eq:
  assumes "features_derived blake3 m"
  shows "\<exists>m'. get_worker_axis_balls blake3 w m = (map_sum PouwPanic id (worker_balls blake3 w), m') \<and>
    features_derived blake3 m' \<and> ws_config m' = ws_config m \<and> ws_escrow m' = ws_escrow m"
  using assms
  by (cases "ws_features m w")
    (auto simp: get_worker_axis_balls_def get_worker_features_def Let_def worker_balls_def features_derived_def
      split: sum.splits)

lemma axis_balls_total: "\<exists>bs. worker_balls blake3 w = Inr bs \<and> distinct bs"
proof -
  have q: "\<exists>x. qp_new v 3 5 = Inr x" for v by (rule qp_new_ok) simp
  have p: "(3 :: u32) ^ unat (of_nat 5 :: u32) = 243" by simp
  obtain a where a: "encode blake3 (RegionCodeEncoder 1) (wf_region (derive_features blake3 w)) 3 5 = Inr a"
    using q by (auto simp: encode_region_def qp_from_u64_def)
  obtain b where b: "encode blake3 (AsnEncoder 2) (wf_asn (derive_features blake3 w)) 3 5 = Inr b"
    using q by (auto simp: encode_asn_str_def encode_asn_def Let_def p qp_from_u64_def)
  obtain c where c: "encode blake3 (stake_tier_encoder_new 3) (decimal (unat (wf_stake_tier (derive_features blake3 w)))) 3 5 = Inr c"
    using q by (auto simp: stake_tier_encoder_new_def encode_stake_text_def encode_stake_def qp_from_u64_def)
  show ?thesis
    unfolding worker_balls_def axis_balls_of_def a b c by simp
qed

definition balls_of :: "(bytes \<Rightarrow> bytes) \<Rightarrow> public_key \<Rightarrow> axis_balls" where
  "balls_of blake3 w = (case worker_balls blake3 w of Inl _ \<Rightarrow> [] | Inr bs \<Rightarrow> bs)"

definition in_ball :: "(bytes \<Rightarrow> bytes) \<Rightarrow> u32 \<times> bytes \<Rightarrow> eligible_worker list \<Rightarrow> nat" where
  "in_ball blake3 b ws = length (filter (\<lambda>w. b \<in> set (balls_of blake3 (ew_worker w))) ws)"

lemma in_ball_simps [simp]:
  "in_ball blake3 b [] = 0"
  "in_ball blake3 b (ws @ [w]) = in_ball blake3 b ws + (if b \<in> set (balls_of blake3 (ew_worker w)) then 1 else 0)"
  by (simp_all add: in_ball_def)

lemma balls_of_Inr: "worker_balls blake3 w = Inr (balls_of blake3 w) \<and> distinct (balls_of blake3 w)"
  using axis_balls_total [of blake3 w] by (auto simp: balls_of_def)

lemma get_balls_run:
  assumes "features_derived blake3 m"
  obtains m' where "get_worker_axis_balls blake3 w m = (Inr (balls_of blake3 w), m')"
    and "features_derived blake3 m'" and "ws_config m' = ws_config m" and "ws_escrow m' = ws_escrow m"
  using get_worker_axis_balls_eq [OF assms, of w] balls_of_Inr [of blake3 w] that by auto

lemma use_balls_apply: "distinct bs \<Longrightarrow> use_balls bs used b = used b + (if b \<in> set bs then 1 else 0)"
  by (induction bs arbitrary: used) auto

text \<open>What the loop guarantees of the workers it returns.\<close>

lemma choose_workers_run:
  assumes "features_derived blake3 m" and "used = (\<lambda>b. in_ball blake3 b chosen)"
    and "\<And>b. wc_require_diversity (ws_config m) \<Longrightarrow> in_ball blake3 b chosen \<le> wc_max_per_ball (ws_config m)"
    and "length chosen \<le> n"
  shows "\<exists>extra m'. choose_workers blake3 n used chosen ws m = (Inr (chosen @ extra), m') \<and>
    subseq extra ws \<and> length (chosen @ extra) \<le> n \<and> ws_escrow m' = ws_escrow m \<and> ws_config m' = ws_config m \<and>
    (wc_require_diversity (ws_config m) \<longrightarrow> (\<forall>b. in_ball blake3 b (chosen @ extra) \<le> wc_max_per_ball (ws_config m)))"
  using assms
proof (induction ws arbitrary: used chosen m)
  case Nil
  then show ?case by (intro exI [of _ "[]"] exI [of _ m]) simp
next
  case (Cons w ws)
  show ?case
  proof (cases "n \<le> length chosen")
    case True
    with Cons.prems show ?thesis by (intro exI [of _ "[]"] exI [of _ m]) simp
  next
    case room: False
    have more: ?thesis if "\<exists>extra m'. choose_workers blake3 n used chosen (w # ws) m = (Inr (chosen @ w # extra), m') \<and>
        subseq extra ws \<and> length (chosen @ w # extra) \<le> n \<and> ws_escrow m' = ws_escrow m \<and> ws_config m' = ws_config m \<and>
        (wc_require_diversity (ws_config m) \<longrightarrow> (\<forall>b. in_ball blake3 b (chosen @ w # extra) \<le> wc_max_per_ball (ws_config m)))"
    proof -
      from that obtain extra m' where "choose_workers blake3 n used chosen (w # ws) m = (Inr (chosen @ w # extra), m')"
        "subseq (w # extra) (w # ws)" "length (chosen @ w # extra) \<le> n" "ws_escrow m' = ws_escrow m" "ws_config m' = ws_config m"
        "wc_require_diversity (ws_config m) \<longrightarrow> (\<forall>b. in_ball blake3 b (chosen @ w # extra) \<le> wc_max_per_ball (ws_config m))"
        by auto
      then show ?thesis by blast
    qed
    show ?thesis
    proof (cases "wc_require_diversity (ws_config m)")
      case False
      have "\<exists>extra m'. choose_workers blake3 n (\<lambda>b. in_ball blake3 b (chosen @ [w])) (chosen @ [w]) ws m = (Inr ((chosen @ [w]) @ extra), m') \<and>
        subseq extra ws \<and> length ((chosen @ [w]) @ extra) \<le> n \<and> ws_escrow m' = ws_escrow m \<and> ws_config m' = ws_config m"
        using Cons.IH [OF Cons.prems(1) refl, of "chosen @ [w]"] False room by simp
      moreover have "choose_workers blake3 n u c ws m = choose_workers blake3 n u' c ws m" for u u' c
      proof (induction ws arbitrary: c)
        case Nil
        then show ?case by simp
      next
        case (Cons x xs)
        then show ?case using False by simp
      qed
      note same = this [of used "chosen @ [w]" "\<lambda>b. in_ball blake3 b (chosen @ [w])"]
      have "choose_workers blake3 n used chosen (w # ws) m = choose_workers blake3 n used (chosen @ [w]) ws m"
        using False room by simp
      ultimately show ?thesis
        using False by (intro more) (simp add: same)
    next
      case div: True
      obtain m1 where m1: "get_worker_axis_balls blake3 (ew_worker w) m = (Inr (balls_of blake3 (ew_worker w)), m1)"
        "features_derived blake3 m1" "ws_config m1 = ws_config m" "ws_escrow m1 = ws_escrow m"
        by (rule get_balls_run [OF Cons.prems(1)])
      let ?full = "list_ex (\<lambda>b. wc_max_per_ball (ws_config m) \<le> used b) (balls_of blake3 (ew_worker w))"
      show ?thesis
      proof (cases ?full)
        case True
        have "choose_workers blake3 n used chosen (w # ws) m = choose_workers blake3 n used chosen ws m1"
          using room div True m1(1,3) by (simp add: tryR_def)
        with Cons.IH [OF m1(2) Cons.prems(2), unfolded m1(3,4), OF Cons.prems(3,4)] show ?thesis
          by (auto intro: subseq_order.order_trans)
      next
        case False
        have used: "use_balls (balls_of blake3 (ew_worker w)) used = (\<lambda>b. in_ball blake3 b (chosen @ [w]))"
          using Cons.prems(2) balls_of_Inr [of blake3 "ew_worker w"] by (intro ext) (simp add: use_balls_apply)
        have below: "in_ball blake3 b (chosen @ [w]) \<le> wc_max_per_ball (ws_config m)" for b
          using False Cons.prems(2,3) div by (auto simp: list_ex_iff not_le)
        have "choose_workers blake3 n used chosen (w # ws) m =
            choose_workers blake3 n (use_balls (balls_of blake3 (ew_worker w)) used) (chosen @ [w]) ws m1"
          using room div False m1(1,3) by (simp add: tryR_def)
        moreover have "length (chosen @ [w]) \<le> n" using room by simp
        ultimately show ?thesis
          using Cons.IH [OF m1(2) used, unfolded m1(3,4), OF below] by (intro more) auto
      qed
    qed
  qed
qed


text \<open>With the default configuration no worker is eligible, since scores are at most 10 and 500 are
  needed: a task that asks for a worker gets none.\<close>

theorem default_workers_ineligible:
  assumes "scores_bounded (ws_tracker m)" and "ws_config m = worker_selection_config_default" and "0 < tk_worker_count t"
  shows "select_workers v now t candidates epoch m = (Inl PouwOther, m)"
proof -
  have "get_reputation (ws_tracker m) w \<le> 10" for w
    using assms(1) by (auto simp: scores_bounded_def get_reputation_def split: option.splits)
  then have low: "get_reputation (ws_tracker m) w < 500" for w
    by (rule le_less_trans) simp
  have "eligible_of (te_blake3 v) t epoch m w = None" for w
    using low [of w] by (simp add: eligible_of_def assms(2) worker_selection_config_default_def Let_def)
  then have none: "filter_eligible_workers (te_blake3 v) t candidates epoch m = []"
    unfolding filter_eligible_workers_def by (induction candidates) (simp_all add: List.map_filter_simps)
  have pos: "0 < unat (tk_worker_count t)"
    using assms(3) by (simp add: word_less_nat_alt)
  show ?thesis
    unfolding select_workers_def Let_def none using pos by simp
qed

section \<open>Concrete instances\<close>

definition sample_selector :: "memory_storage worker_selector" where
  "sample_selector =
     worker_selector_new (reputation_tracker_new (9 / 10)) (escrow_manager_new locked_balances) worker_selection_config_default"

definition sample_eligible :: eligible_worker where
  "sample_eligible = \<lparr>ew_worker = [8], ew_reputation = 600, ew_performance = 1, ew_vrf = [], ew_score = 1\<rparr>"

abbreviation toy_hash :: "bytes \<Rightarrow> bytes" where "toy_hash \<equiv> (\<lambda>_. replicate 32 0)"

lemma sample_selection: "\<exists>m'. vrf_select_workers toy_hash sample_task [sample_eligible] sample_selector = (Inr [sample_eligible], m')"
proof -
  have derived: "features_derived toy_hash sample_selector"
    by (simp add: features_derived_def sample_selector_def worker_selector_new_def)
  obtain m' where m': "get_worker_axis_balls toy_hash [8] sample_selector = (Inr (balls_of toy_hash [8]), m')"
    "ws_config m' = ws_config sample_selector"
    by (rule get_balls_run [OF derived])
  have config: "ws_config sample_selector = worker_selection_config_default"
    by (simp add: sample_selector_def worker_selector_new_def)
  show ?thesis
    by (simp add: vrf_select_workers_def tryR_def sample_eligible_def sample_task_def m' config
        worker_selection_config_default_def list_ex_iff del: replicate_numeral)
qed


lemma default_workers_ineligible_witness:
  "select_workers sample_env 0 sample_task [[8], [9]] 1 sample_selector = (Inl PouwOther, sample_selector)"
proof (rule default_workers_ineligible)
  show "scores_bounded (ws_tracker sample_selector)"
    by (simp add: sample_selector_def worker_selector_new_def scores_bounded_def reputation_tracker_new_def)
  show "ws_config sample_selector = worker_selection_config_default"
    by (simp add: sample_selector_def worker_selector_new_def)
  show "0 < tk_worker_count sample_task"
    by (simp add: sample_task_def)
qed

end
