(* ===== verification/Pouw_Validation.thy ===== *)
theory Pouw_Validation
  imports Pouw_Incentives Encoders Message_Storage
begin

text \<open>
  How useful work is done and checked: \<open>TaskExecutor\<close> (\<open>crates/adic-pouw/src/executor.rs\<close>), the
  stores of tasks and inputs over a storage backend (\<open>task_storage.rs\<close>, \<open>input_storage.rs\<close>) and
  \<open>ResultValidator\<close> (\<open>validator.rs\<close>), as built for release without the features
  \<open>ml-inference\<close> and \<open>allow-weak-validation\<close>. \<open>blake3\<close>, \<open>hexb\<close> (a digest or byte slice in
  hexadecimal), the key of the worker, bincode and the threshold library are parameters. A computation does
  not wait for anything, so \<open>timeout\<close> never cuts it off; the clock readings of an execution are
  \<open>exec_clock\<close>.
\<close>

section \<open>The executor\<close>

record executor_config =
  xc_resource_multiplier :: f64
  xc_strict_enforcement :: bool
  xc_max_concurrent :: nat

definition executor_config_default :: executor_config where
  "executor_config_default = \<lparr>xc_resource_multiplier = 9 / 10, xc_strict_enforcement = True, xc_max_concurrent = 4\<rparr>"

record execution_stats =
  xs_total :: u64
  xs_successful :: u64
  xs_failed :: u64
  xs_execution_time_ms :: u64
  xs_cpu_time_ms :: u64
  xs_memory_mb :: u64

record task_executor =
  te_worker :: public_key
  te_config :: executor_config
  te_stats :: execution_stats
  te_concurrent :: nat

definition task_executor_new :: "public_key \<Rightarrow> executor_config \<Rightarrow> task_executor" where
  "task_executor_new worker config =
     \<lparr>te_worker = worker, te_config = config,
      te_stats = \<lparr>xs_total = 0, xs_successful = 0, xs_failed = 0, xs_execution_time_ms = 0, xs_cpu_time_ms = 0, xs_memory_mb = 0\<rparr>,
      te_concurrent = 0\<rparr>"

record exec_clock =
  ck_start :: i64
  ck_end :: i64
  ck_elapsed_ms :: u64
  ck_submitted :: i64

definition validate_resource_requirements :: "executor_config \<Rightarrow> task \<Rightarrow> pouw_error + unit" where
  "validate_resource_requirements c t =
     (case tk_type t of
        ComputeTask _ r \<Rightarrow>
          (if f64_as_u64 (600000 * xc_resource_multiplier c) < rr_max_cpu_ms r \<and> xc_strict_enforcement c
           then Inl ResourceLimitExceeded
           else if f64_as_u64 (8192 * xc_resource_multiplier c) < rr_max_memory_mb r \<and> xc_strict_enforcement c
           then Inl ResourceLimitExceeded
           else Inr ())
      | _ \<Rightarrow> Inr ())"

definition compute_merkle_root :: "(bytes \<Rightarrow> bytes) \<Rightarrow> bytes list \<Rightarrow> bytes" where
  "compute_merkle_root blake3 states = (if states = [] then replicate 32 0 else blake3 (concat states))"

definition generate_proof_data :: "bytes list \<Rightarrow> bytes" where
  "generate_proof_data states = concat states"

text \<open>The output and the recorded states of each computation.\<close>

fun computed :: "(bytes \<Rightarrow> bytes) \<Rightarrow> (bytes \<Rightarrow> bytes) \<Rightarrow> bytes \<Rightarrow> computation_type \<Rightarrow> pouw_error + bytes \<times> bytes list" where
  "computed blake3 hexb input HashVerification =
     (let h0 = blake3 input; h1 = blake3 h0; h2 = blake3 h1; h3 = blake3 h2 in Inr (h3, [h0, h1, h2, h3]))"
| "computed blake3 hexb input DataProcessing =
     (let transformed = map (\<lambda>b. b + 1) input
      in Inr (transformed, [blake3 (take (length transformed div 2) transformed), blake3 transformed]))"
| "computed blake3 hexb input ModelInference = Inl UnsupportedTaskType"
| "computed blake3 hexb input (CustomComputation computation) =
     (let out = ascii ''custom_'' @ computation @ ascii ''_'' @ hexb input in Inr (out, [blake3 out]))"

definition do_computation :: "(bytes \<Rightarrow> bytes) \<Rightarrow> (bytes \<Rightarrow> bytes) \<Rightarrow> bytes \<Rightarrow> computation_type \<Rightarrow>
    pouw_error + bytes \<times> execution_proof" where
  "do_computation blake3 hexb input ct =
     bindE (computed blake3 hexb input ct) (\<lambda>(out, states).
       Inr (out, \<lparr>ep_type = MerkleTreeProof, ep_merkle_root = compute_merkle_root blake3 states, ep_states = states,
         ep_data = generate_proof_data states\<rparr>))"

definition execute_validation_task :: "(bytes \<Rightarrow> bytes) \<Rightarrow> (bytes \<Rightarrow> bytes) \<Rightarrow> task \<Rightarrow> bytes \<Rightarrow> bytes \<Rightarrow>
    pouw_error + bytes \<times> execution_proof" where
  "execute_validation_task blake3 hexb t input criteria =
     (let out = ascii ''validation_'' @ criteria @ ascii ''_'' @ hexb (take 8 (tk_id t)) @ ascii ''_'' @ hexb (blake3 input);
          states = [blake3 out]
      in Inr (out, \<lparr>ep_type = ReExecutionProof, ep_merkle_root = compute_merkle_root blake3 states, ep_states = states, ep_data = []\<rparr>))"

definition execute_storage_task :: "(bytes \<Rightarrow> bytes) \<Rightarrow> (bytes \<Rightarrow> bytes) \<Rightarrow> task \<Rightarrow> bytes \<Rightarrow> bytes \<Rightarrow>
    pouw_error + bytes \<times> execution_proof" where
  "execute_storage_task blake3 hexb t input data_cid =
     (let h = blake3 input;
          out = ascii ''stored_'' @ data_cid @ ascii ''_'' @ hexb (take 8 (tk_id t)) @ ascii ''_'' @ hexb h
      in Inr (out, \<lparr>ep_type = StateTransitionProof, ep_merkle_root = compute_merkle_root blake3 [h], ep_states = [h], ep_data = []\<rparr>))"

definition execute_aggregation_task :: "(bytes \<Rightarrow> bytes) \<Rightarrow> (bytes \<Rightarrow> bytes) \<Rightarrow> task \<Rightarrow> bytes \<Rightarrow> bytes list \<Rightarrow> bytes \<Rightarrow>
    pouw_error + bytes \<times> execution_proof" where
  "execute_aggregation_task blake3 hexb t input sources aggregation =
     (let states = map (\<lambda>s. blake3 (s @ input)) sources;
          out = ascii ''aggregated_'' @ aggregation @ ascii ''_'' @ hexb (take 8 (tk_id t)) @ ascii ''_'' @ decimal (length sources)
      in Inr (out, \<lparr>ep_type = MerkleTreeProof, ep_merkle_root = compute_merkle_root blake3 states, ep_states = states, ep_data = []\<rparr>))"

definition run_task :: "(bytes \<Rightarrow> bytes) \<Rightarrow> (bytes \<Rightarrow> bytes) \<Rightarrow> task \<Rightarrow> bytes \<Rightarrow> pouw_error + bytes \<times> execution_proof" where
  "run_task blake3 hexb t input =
     (case tk_type t of
        ComputeTask ct _ \<Rightarrow> do_computation blake3 hexb input ct
      | ValidationTask _ criteria \<Rightarrow> execute_validation_task blake3 hexb t input criteria
      | StorageTask data_cid _ _ \<Rightarrow> execute_storage_task blake3 hexb t input data_cid
      | AggregationTask sources aggregation \<Rightarrow> execute_aggregation_task blake3 hexb t input sources aggregation)"

definition estimate_memory_usage :: "bytes \<Rightarrow> u64" where
  "estimate_memory_usage out = max (f64_as_u64 (real (length out) * (3 / 2) / (1024 * 1024))) 1"

definition generate_result_id :: "(bytes \<Rightarrow> bytes) \<Rightarrow> task_executor \<Rightarrow> i64 \<Rightarrow> task \<Rightarrow> bytes" where
  "generate_result_id blake3 x now t = blake3 (tk_id t @ te_worker x @ le_bytes (of_int (unix_secs now)))"

definition output_cid_of :: "(bytes \<Rightarrow> bytes) \<Rightarrow> (bytes \<Rightarrow> bytes) \<Rightarrow> bytes \<Rightarrow> bytes" where
  "output_cid_of blake3 hexb out = ascii ''Qm'' @ hexb (take 20 (blake3 out))"

record exec_env =
  xe_blake3 :: "bytes \<Rightarrow> bytes"
  xe_hexb :: "bytes \<Rightarrow> bytes"
  xe_sign :: "bytes \<Rightarrow> bytes"

definition execute_task :: "exec_env \<Rightarrow> exec_clock \<Rightarrow> task \<Rightarrow> bytes \<Rightarrow> (pouw_error, task_executor, work_result) rop" where
  "execute_task v ck t input x =
     (if xc_max_concurrent (te_config x) \<le> te_concurrent x then errR ResourceLimitExceeded x
      else
        (let x = x\<lparr>te_concurrent := te_concurrent x + 1\<rparr>;
             release = (\<lambda>x. x\<lparr>te_concurrent := te_concurrent x - 1\<rparr>)
         in case validate_resource_requirements (te_config x) t of
              Inl e \<Rightarrow> errR e (release x)
            | Inr _ \<Rightarrow>
                (case run_task (xe_blake3 v) (xe_hexb v) t input of
                   Inl e \<Rightarrow> errR e (release x)
                 | Inr (out, proof) \<Rightarrow>
                     (let metrics = \<lparr>em_cpu_ms = ck_elapsed_ms ck, em_memory_mb = estimate_memory_usage out,
                            em_storage_mb = of_nat (length out div (1024 * 1024)),
                            em_network_kb = of_nat ((length input + length out) div 1024),
                            em_start = ck_start ck, em_end = ck_end ck\<rparr>;
                          s = te_stats x;
                          x = x\<lparr>te_stats := s\<lparr>xs_total := xs_total s + 1, xs_successful := xs_successful s + 1,
                            xs_execution_time_ms := xs_execution_time_ms s + ck_elapsed_ms ck,
                            xs_cpu_time_ms := xs_cpu_time_ms s + em_cpu_ms metrics,
                            xs_memory_mb := xs_memory_mb s + em_memory_mb metrics\<rparr>\<rparr>;
                          cid = output_cid_of (xe_blake3 v) (xe_hexb v) out
                      in okR \<lparr>wr_id = generate_result_id (xe_blake3 v) x (ck_submitted ck) t, wr_task_id = tk_id t,
                           wr_worker = te_worker x, wr_output_cid = cid, wr_proof = proof, wr_metrics = metrics,
                           wr_signature = xe_sign v (tk_id t @ cid @ ep_merkle_root proof), wr_submitted_at = ck_submitted ck\<rparr>
                         (release x)))))"

section \<open>Stores\<close>

definition store_task :: "'s storage_backend \<Rightarrow> (task \<Rightarrow> bytes) \<Rightarrow> task \<Rightarrow> ('s, unit) storage_op" where
  "store_task B ser t = sb_put_metadata B (tk_id t) ''task'' (ser t)"

definition stored_task :: "'s storage_backend \<Rightarrow> (bytes \<Rightarrow> task option) \<Rightarrow> task_id \<Rightarrow> ('s, task option) storage_read" where
  "stored_task B de i s =
     bindE (sb_get_metadata B i ''task'' s) (\<lambda>d.
       case d of
         None \<Rightarrow> Inr None
       | Some bs \<Rightarrow> (case de bs of None \<Rightarrow> Inl SerializationError | Some t \<Rightarrow> Inr (Some t)))"

definition has_stored_task :: "'s storage_backend \<Rightarrow> task_id \<Rightarrow> ('s, bool) storage_read" where
  "has_stored_task B i s = bindE (sb_get_metadata B i ''task'' s) (\<lambda>d. Inr (d \<noteq> None))"

definition store_input :: "'s storage_backend \<Rightarrow> (bytes \<Rightarrow> bytes) \<Rightarrow> bytes \<Rightarrow> bytes \<Rightarrow> ('s, unit) storage_op" where
  "store_input B blake3 input_hash d =
     (if blake3 d \<noteq> input_hash then errR SerializationError else sb_put_metadata B input_hash ''input'' d)"

definition get_input :: "'s storage_backend \<Rightarrow> (bytes \<Rightarrow> bytes) \<Rightarrow> bytes \<Rightarrow> ('s, bytes option) storage_read" where
  "get_input B blake3 input_hash s =
     bindE (sb_get_metadata B input_hash ''input'' s) (\<lambda>d.
       case d of
         None \<Rightarrow> Inr None
       | Some bs \<Rightarrow> (if blake3 bs \<noteq> input_hash then Inl BackendError else Inr (Some bs)))"

definition has_input :: "'s storage_backend \<Rightarrow> bytes \<Rightarrow> ('s, bool) storage_read" where
  "has_input B input_hash s = bindE (sb_get_metadata B input_hash ''input'' s) (\<lambda>d. Inr (d \<noteq> None))"

text \<open>What the stores need of a backend.\<close>

locale metadata_backend =
  fixes B :: "'s storage_backend"
  assumes put_ok: "\<exists>s'. sb_put_metadata B i k d s = (Inr (), s') \<and> sb_get_metadata B i k s' = Inr (Some d)"
    and put_other: "sb_put_metadata B i k d s = (r, s') \<Longrightarrow> (j, l) \<noteq> (i, k) \<Longrightarrow> sb_get_metadata B j l s' = sb_get_metadata B j l s"
begin

lemma stored_input_found:
  assumes "blake3 d = h"
  shows "\<exists>s'. store_input B blake3 h d s = (Inr (), s') \<and> get_input B blake3 h s' = Inr (Some d)"
  using put_ok [of h "''input''" d s] assms by (auto simp: store_input_def get_input_def)

lemma stored_task_found:
  assumes "de (ser t) = Some t"
  shows "\<exists>s'. store_task B ser t s = (Inr (), s') \<and> stored_task B de (tk_id t) s' = Inr (Some t)"
  using put_ok [of "tk_id t" "''task''" "ser t" s] assms by (auto simp: store_task_def stored_task_def)

lemma stores_do_not_interfere:
  assumes "store_input B blake3 h d s = (r, s')"
  shows "stored_task B de i s' = stored_task B de i s"
  using assms put_other [of h "''input''" d s r s' i "''task''"]
  by (auto simp: store_input_def stored_task_def split: if_splits)

end

interpretation memstore: metadata_backend "memory_backend ord" for ord
  by unfold_locales (auto simp: memory_backend_def mb_put_metadata_def mb_get_metadata_def)

section \<open>The validator\<close>

record validator_config =
  vc_min_validators :: nat
  vc_threshold :: f64
  vc_timeout :: u64
  vc_require_re_execution :: bool

definition validator_config_default :: validator_config where
  "validator_config_default =
     \<lparr>vc_min_validators = 5, vc_threshold = 67 / 100, vc_timeout = 300, vc_require_re_execution = True\<rparr>"

type_synonym zk_verifier = "bytes \<Rightarrow> bytes \<Rightarrow> bytes \<Rightarrow> pouw_error + bool"

record ('b, 'p, 's, 'k) result_validator =
  rv_vrf :: vrf_service
  rv_config :: validator_config
  rv_cache :: "bytes \<rightharpoonup> validation_report"
  rv_messages :: "bytes \<rightharpoonup> message_id"
  rv_executor :: "task_executor option"
  rv_zk :: "zk_verifier option"
  rv_bls :: "('p, 's, 'k) bls_coordinator option"
  rv_task_store :: "'b option"
  rv_input_store :: "'b option"

type_synonym ('b, 'p, 's, 'k, 'a) validator_op = "(pouw_error, ('b, 'p, 's, 'k) result_validator, 'a) rop"

definition result_validator_new :: "vrf_service \<Rightarrow> validator_config \<Rightarrow> ('b, 'p, 's, 'k) result_validator" where
  "result_validator_new vrf config =
     \<lparr>rv_vrf = vrf, rv_config = config, rv_cache = Map.empty, rv_messages = Map.empty, rv_executor = None, rv_zk = None,
      rv_bls = None, rv_task_store = None, rv_input_store = None\<rparr>"

record ('b, 'p, 's, 'k, 'q, 'g, 'h) validator_env =
  vv_exec :: exec_env
  vv_backend :: "'b storage_backend"
  vv_de :: "bytes \<Rightarrow> task option"
  vv_tc :: "('p, 's, 'k, 'q, 'g, 'h) tc_lib"
  vv_random :: "nat \<Rightarrow> 'p"
  vv_hex :: "bytes \<Rightarrow> string"
  vv_dec :: "u64 \<Rightarrow> string"
  vv_ord :: "public_key list"
  vv_clock :: exec_clock
  vv_now :: i64

definition register_result_message :: "bytes \<Rightarrow> message_id \<Rightarrow> ('b, 'p, 's, 'k) result_validator \<Rightarrow> ('b, 'p, 's, 'k) result_validator" where
  "register_result_message result_id i m = m\<lparr>rv_messages := (rv_messages m)(result_id \<mapsto> i)\<rparr>"

text \<open>The made-up nodes among which the committee is drawn.\<close>

definition mock_node :: "('b, 'p, 's, 'k, 'q, 'g, 'h) validator_env \<Rightarrow> task_id \<Rightarrow> nat \<Rightarrow> node_info" where
  "mock_node v i k =
     \<lparr>ni_public_key = xe_blake3 (vv_exec v) (i @ le_bytes (of_nat k)), ni_reputation = 100 + real k * 10,
      ni_asn = Some (of_nat (k mod 5)), ni_region = Some (''region-'' @ vv_dec v (of_nat (k mod 3))),
      ni_axis_balls = [[of_nat (k mod 256)], [of_nat (k * 2 mod 256)], [of_nat (k * 3 mod 256)]]\<rparr>"

definition select_validators_for_task :: "('b, 'p, 's, 'k, 'q, 'g, 'h) validator_env \<Rightarrow> task_id \<Rightarrow> u64 \<Rightarrow>
    ('b, 'p, 's, 'k) result_validator \<Rightarrow> pouw_error + public_key list" where
  "select_validators_for_task v i current_epoch m =
     (let n = vc_min_validators (rv_config m);
          quorum_config = \<lparr>qc_min_reputation = 50, qc_members_per_axis = n div 3, qc_total_size = n, qc_max_per_asn = 2,
            qc_max_per_region = 3, qc_domain = ascii ''ADIC-PoUW-VALIDATOR-TASK-'' @ xe_hexb (vv_exec v) i, qc_num_axes = 3\<rparr>
      in bindE (map_sum QuorumServiceError id
           (select_committee (xe_blake3 (vv_exec v)) (rv_vrf m) current_epoch quorum_config (map (mock_node v i) [0..<n * 2])))
           (\<lambda>q. Inr (map qm_public_key (qr_members q))))"

section \<open>Checks of a result\<close>

definition verify_merkle_proof :: "(bytes \<Rightarrow> bytes) \<Rightarrow> execution_proof \<Rightarrow> bool" where
  "verify_merkle_proof blake3 p \<longleftrightarrow>
     \<not> list_all (\<lambda>b. b = 0) (ep_merkle_root p) \<and> ep_states p \<noteq> [] \<and>
     compute_merkle_root blake3 (ep_states p) = ep_merkle_root p"

definition verify_state_transition_proof :: "execution_proof \<Rightarrow> bool" where
  "verify_state_transition_proof p \<longleftrightarrow> ep_states p \<noteq> [] \<and> \<not> list_ex (list_all (\<lambda>b. b = 0)) (ep_states p)"

definition verify_zk_proof :: "zk_verifier option \<Rightarrow> execution_proof \<Rightarrow> pouw_error + bool" where
  "verify_zk_proof zk p =
     (case zk of
        None \<Rightarrow> Inl InvalidExecutionProof
      | Some verifier \<Rightarrow> verifier (ep_data p) (concat (ep_states p)) (ep_merkle_root p))"

definition verify_reexecution_proof :: "(bytes \<Rightarrow> bytes) \<Rightarrow> execution_proof \<Rightarrow> bool" where
  "verify_reexecution_proof blake3 p \<longleftrightarrow>
     ep_data p \<noteq> [] \<and> ep_states p \<noteq> [] \<and> compute_merkle_root blake3 (ep_states p) = ep_merkle_root p"

definition verify_execution_proof :: "(bytes \<Rightarrow> bytes) \<Rightarrow> zk_verifier option \<Rightarrow> execution_proof \<Rightarrow> pouw_error + bool" where
  "verify_execution_proof blake3 zk p =
     (case ep_type p of
        MerkleTreeProof \<Rightarrow> Inr (verify_merkle_proof blake3 p)
      | StateTransitionProof \<Rightarrow> Inr (verify_state_transition_proof p)
      | ZKProof \<Rightarrow> verify_zk_proof zk p
      | ReExecutionProof \<Rightarrow> Inr (verify_reexecution_proof blake3 p))"

definition claimed_input_hash :: "(bytes \<Rightarrow> bytes) \<Rightarrow> work_result \<Rightarrow> task \<Rightarrow> bytes" where
  "claimed_input_hash blake3 r t =
     (if 32 \<le> length (ep_data (wr_proof r)) then take 32 (ep_data (wr_proof r)) else blake3 (tk_input_cid t))"

text \<open>An operation on the executor of the validator.\<close>

definition with_executor :: "(pouw_error, task_executor, 'a) rop \<Rightarrow> ('b, 'p, 's, 'k, 'a) validator_op" where
  "with_executor f m =
     (case rv_executor m of
        None \<Rightarrow> errR ReExecutionRequired m
      | Some x \<Rightarrow> (case f x of (r, x') \<Rightarrow> (r, m\<lparr>rv_executor := Some x'\<rparr>)))"

definition re_execute_with_executor :: "('b, 'p, 's, 'k, 'q, 'g, 'h) validator_env \<Rightarrow> work_result \<Rightarrow>
    ('b, 'p, 's, 'k, bytes \<times> bool) validator_op" where
  "re_execute_with_executor v r m =
     (let blake3 = xe_blake3 (vv_exec v) in
      case rv_task_store m of
        None \<Rightarrow> errR StorageNotConfigured m
      | Some ts \<Rightarrow>
          (case stored_task (vv_backend v) (vv_de v) (wr_task_id r) ts of
             Inl _ \<Rightarrow> errR PouwStorageError m
           | Inr None \<Rightarrow> errR TaskNotFoundInStorage m
           | Inr (Some t) \<Rightarrow>
               (case rv_input_store m of
                  None \<Rightarrow> errR StorageNotConfigured m
                | Some st \<Rightarrow>
                    (case get_input (vv_backend v) blake3 (claimed_input_hash blake3 r t) st of
                       Inl _ \<Rightarrow> errR PouwStorageError m
                     | Inr None \<Rightarrow> errR InputNotFound m
                     | Inr (Some d) \<Rightarrow>
                         (case with_executor (execute_task (vv_exec v) (vv_clock v) t d) m of
                            (Inl _, m') \<Rightarrow> errR ValidationFailed m'
                          | (Inr again, m') \<Rightarrow>
                              (let re_exec_output_hash = blake3 (wr_output_cid again)
                               in okR (re_exec_output_hash, re_exec_output_hash = blake3 (wr_output_cid r)) m'))))))"

definition deterministic_re_execution :: "('b, 'p, 's, 'k, 'q, 'g, 'h) validator_env \<Rightarrow> work_result \<Rightarrow>
    ('b, 'p, 's, 'k, bytes \<times> bool) validator_op" where
  "deterministic_re_execution v r m =
     (case rv_executor m of None \<Rightarrow> errR ReExecutionRequired m | Some _ \<Rightarrow> re_execute_with_executor v r m)"

definition num_seconds :: "i64 \<Rightarrow> i64" where
  "num_seconds ms = (if ms < 0 then - ((- ms) div 1000) else ms div 1000)"

definition verify_resource_claims :: "work_result \<Rightarrow> bool" where
  "verify_resource_claims r \<longleftrightarrow>
     (let c = wr_metrics r; duration_secs = num_seconds (em_end c - em_start c)
      in \<not> em_end c \<le> em_start c \<and> \<not> of_int (duration_secs * 10) < em_cpu_ms c div 1000 \<and>
         \<not> (em_memory_mb c = 0 \<or> 1000000 < em_memory_mb c))"

record validation_vote =
  va_validator :: public_key
  va_vote :: bool
  va_re_execution :: "bytes option"
  va_discrepancy :: "bytes option"
  va_signature :: bytes

definition sign_vote :: "(bytes \<Rightarrow> bytes) \<Rightarrow> bool \<Rightarrow> bytes \<Rightarrow> bytes" where
  "sign_vote blake3 vote result_id =
     (let h = blake3 (result_id @ [if vote then 1 else 0]) in h @ h)"

definition discrepancy_text :: "bool \<Rightarrow> bool \<Rightarrow> bool \<Rightarrow> bytes option" where
  "discrepancy_text proof_valid output_matches resources_valid =
     (let parts = (if proof_valid then [] else [''Invalid execution proof'']) @
            (if output_matches then [] else [''Re-execution output mismatch'']) @
            (if resources_valid then [] else [''Resource usage claims invalid''])
      in if parts = [] then None
         else Some (ascii (foldl (\<lambda>a b. a @ ''; '' @ b) (hd parts) (tl parts))))"

definition verify_work_result :: "('b, 'p, 's, 'k, 'q, 'g, 'h) validator_env \<Rightarrow> work_result \<Rightarrow> public_key \<Rightarrow>
    ('b, 'p, 's, 'k, validation_vote) validator_op" where
  "verify_work_result v r validator m =
     (case verify_execution_proof (xe_blake3 (vv_exec v)) (rv_zk m) (wr_proof r) of
        Inl e \<Rightarrow> errR e m
      | Inr proof_valid \<Rightarrow>
          tryR (\<lambda>m. if vc_require_re_execution (rv_config m)
                   then tryR (deterministic_re_execution v r) (\<lambda>(h, matches). okR (Some h, matches)) m
                   else okR (None, True) m) (\<lambda>(h, output_matches).
            let resources_valid = verify_resource_claims r;
                vote = (proof_valid \<and> output_matches \<and> resources_valid)
            in okR \<lparr>va_validator = validator, va_vote = vote, va_re_execution = h,
                 va_discrepancy = discrepancy_text proof_valid output_matches resources_valid,
                 va_signature = sign_vote (xe_blake3 (vv_exec v)) vote (wr_id r)\<rparr>) m)"

fun collect_validation_votes :: "('b, 'p, 's, 'k, 'q, 'g, 'h) validator_env \<Rightarrow> work_result \<Rightarrow> public_key list \<Rightarrow>
    ('b, 'p, 's, 'k, validation_vote list) validator_op" where
  "collect_validation_votes v r [] = okR []"
| "collect_validation_votes v r (p # ps) =
     tryR (verify_work_result v r p) (\<lambda>vote.
     tryR (collect_validation_votes v r ps) (\<lambda>votes. okR (vote # votes)))"

section \<open>The verdict\<close>

text \<open>A quotient by no validators is \<open>NaN\<close>, which compares false with everything.\<close>

definition aggregate_votes :: "validator_config \<Rightarrow> validation_vote list \<Rightarrow> nat \<Rightarrow> validation_result \<times> nat \<times> nat" where
  "aggregate_votes c votes total_validators =
     (let votes_for = length (filter va_vote votes);
          votes_against = length (filter (\<lambda>x. \<not> va_vote x) votes);
          result = (if total_validators = 0 then ResultInconclusive
            else if vc_threshold c \<le> real votes_for / real total_validators then ResultAccepted
            else if 1 - vc_threshold c < real votes_against / real total_validators then ResultRejected
            else ResultInconclusive)
      in (result, votes_for, votes_against))"

text \<open>The loop that makes and submits the share of every member.\<close>

fun submit_shares :: "('b, 'p, 's, 'k, 'q, 'g, 'h) validator_env \<Rightarrow> string \<Rightarrow> bytes \<Rightarrow> (nat \<times> public_key \<times> 's) list \<Rightarrow>
    ('p, 's, 'k, bytes) bls_op" where
  "submit_shares v request_id message [] = errR PouwOther"
| "submit_shares v request_id message ((k, pk, secret) # rest) =
     (case sign_share (vv_tc v) secret k message (ascii DST_TASK_RECEIPT) of
        Inl e \<Rightarrow> errR (BLSFailure e)
      | Inr share \<Rightarrow>
          tryR (submit_share (vv_tc v) (vv_ord v) (vv_now v) request_id pk share) (\<lambda>done.
            case done of
              Some final_sig \<Rightarrow> okR (ascii (as_hex final_sig))
            | None \<Rightarrow> submit_shares v request_id message rest))"

definition coordinate_signature :: "('b, 'p, 's, 'k, 'q, 'g, 'h) validator_env \<Rightarrow> task_id \<Rightarrow> bytes \<Rightarrow> public_key list \<Rightarrow>
    ('p, 's, 'k, bytes) bls_op" where
  "coordinate_signature v i result_id members =
     (let request_id = signing_request_id (vv_hex v) (vv_dec v) ''validation'' 0 result_id;
          message = i @ result_id; n = length members
      in tryR (initiate_signing (vv_now v) request_id message (ascii DST_TASK_RECEIPT) members) (\<lambda>_ b.
         case get_aggregated_signature (vv_tc v) (vv_ord v) request_id b of
           Inl e \<Rightarrow> errR e b
         | Inr (Some signature) \<Rightarrow> okR (ascii (as_hex signature)) b
         | Inr None \<Rightarrow>
             (case generate_threshold_keys (vv_tc v) (vv_random v) n (n * 2 div 3 + 1) of
                Inl e \<Rightarrow> errR (BLSFailure e) b
              | Inr (pub_key_set, secret_shares) \<Rightarrow>
                  (let b = (if has_public_key_set b then b else set_public_key_set pub_key_set b)
                   in case threshold_config_new n (n * 2 div 3 + 1) of
                        Inl e \<Rightarrow> errR (BLSFailure e) b
                      | Inr _ \<Rightarrow> submit_shares v request_id message (zip [0..<n] (zip members secret_shares)) b))))"

definition generate_threshold_signature :: "('b, 'p, 's, 'k, 'q, 'g, 'h) validator_env \<Rightarrow> task_id \<Rightarrow> bytes \<Rightarrow> validation_vote list \<Rightarrow>
    ('b, 'p, 's, 'k, bytes) validator_op" where
  "generate_threshold_signature v i result_id votes m =
     (case rv_bls m of
        None \<Rightarrow> okR (xe_blake3 (vv_exec v) (i @ result_id @ map (\<lambda>x. if va_vote x then 1 else 0) votes)) m
      | Some b \<Rightarrow>
          (case coordinate_signature v i result_id (map va_validator votes) b of (r, b') \<Rightarrow> (r, m\<lparr>rv_bls := Some b'\<rparr>)))"

definition generate_report_id :: "('b, 'p, 's, 'k, 'q, 'g, 'h) validator_env \<Rightarrow> task_id \<Rightarrow> bytes \<Rightarrow> bytes" where
  "generate_report_id v i result_id = xe_blake3 (vv_exec v) (i @ result_id @ le_bytes (of_int (unix_secs (vv_now v))))"

definition evidence_of :: "validation_vote \<Rightarrow> validation_evidence" where
  "evidence_of x =
     \<lparr>ve_validator = va_validator x, ve_vote = va_vote x, ve_re_execution = va_re_execution x, ve_details = va_discrepancy x,
      ve_signature = va_signature x\<rparr>"

definition validate_result :: "('b, 'p, 's, 'k, 'q, 'g, 'h) validator_env \<Rightarrow> task_id \<Rightarrow> work_result \<Rightarrow> u64 \<Rightarrow>
    ('b, 'p, 's, 'k, validation_report) validator_op" where
  "validate_result v i r current_epoch m =
     (case rv_cache m (wr_id r) of
        Some cached \<Rightarrow> okR cached m
      | None \<Rightarrow>
          (case select_validators_for_task v i current_epoch m of
             Inl e \<Rightarrow> errR e m
           | Inr validators \<Rightarrow>
               (if length validators < vc_min_validators (rv_config m)
                then errR (QuorumNotReached (vc_min_validators (rv_config m)) (length validators)) m
                else
                  tryR (collect_validation_votes v r validators) (\<lambda>votes.
                  tryR (generate_threshold_signature v i (wr_id r) votes) (\<lambda>sig m.
                    case aggregate_votes (rv_config m) votes (length validators) of (result, votes_for, votes_against) \<Rightarrow>
                      (let report = \<lparr>vr_id = generate_report_id v i (wr_id r), vr_task_id = i, vr_result_id = wr_id r,
                             vr_validators = validators, vr_votes_for = votes_for, vr_votes_against = votes_against,
                             vr_signature = sig, vr_result = result, vr_evidence = map evidence_of votes,
                             vr_epoch = current_epoch, vr_timestamp = vv_now v\<rparr>
                       in okR report (m\<lparr>rv_cache := (rv_cache m)(wr_id r \<mapsto> report)\<rparr>)))) m)))"

definition get_cached_report :: "('b, 'p, 's, 'k) result_validator \<Rightarrow> bytes \<Rightarrow> validation_report option" where
  "get_cached_report m result_id = rv_cache m result_id"

definition is_validated :: "('b, 'p, 's, 'k) result_validator \<Rightarrow> bytes \<Rightarrow> bool" where
  "is_validated m result_id \<longleftrightarrow> rv_cache m result_id \<noteq> None"

record validation_stats =
  vst_total :: u64
  vst_accepted :: u64
  vst_rejected :: u64
  vst_inconclusive :: u64

definition validation_get_stats :: "(bytes set \<Rightarrow> bytes list) \<Rightarrow> ('b, 'p, 's, 'k) result_validator \<Rightarrow> validation_stats" where
  "validation_get_stats ord m =
     (let reports = List.map_filter (rv_cache m) (ord (dom (rv_cache m)));
          counted = (\<lambda>s. of_nat (length (filter (\<lambda>x. vr_result x = s) reports)))
      in \<lparr>vst_total = of_nat (length reports), vst_accepted = counted ResultAccepted, vst_rejected = counted ResultRejected,
          vst_inconclusive = counted ResultInconclusive\<rparr>)"

section \<open>Executions\<close>

text \<open>Every execution, failed or not, gives back its slot.\<close>

lemma execute_task_slots:
  assumes "execute_task v ck t d x = (r, x')"
  shows "te_concurrent x' = te_concurrent x \<and> te_config x' = te_config x \<and> te_worker x' = te_worker x"
  using assms
  by (auto simp: execute_task_def Let_def split: if_splits sum.splits prod.splits)

text \<open>What a successful execution returns depends on the task, the input and the worker only.\<close>

lemma execute_task_Inr:
  assumes "execute_task v ck t d x = (Inr r, x')"
  obtains out p where "run_task (xe_blake3 v) (xe_hexb v) t d = Inr (out, p)" and "wr_proof r = p"
    and "wr_output_cid r = output_cid_of (xe_blake3 v) (xe_hexb v) out" and "wr_task_id r = tk_id t"
    and "wr_metrics r = \<lparr>em_cpu_ms = ck_elapsed_ms ck, em_memory_mb = estimate_memory_usage out,
      em_storage_mb = of_nat (length out div (1024 * 1024)), em_network_kb = of_nat ((length d + length out) div 1024),
      em_start = ck_start ck, em_end = ck_end ck\<rparr>"
  using assms
  by (auto simp: execute_task_def Let_def split: if_splits sum.splits prod.splits)

lemma execute_task_ok:
  assumes "te_concurrent x < xc_max_concurrent (te_config x)"
    and "validate_resource_requirements (te_config x) t = Inr ()"
    and "run_task (xe_blake3 v) (xe_hexb v) t d = Inr (out, p)"
  shows "\<exists>r x'. execute_task v ck t d x = (Inr r, x') \<and> wr_output_cid r = output_cid_of (xe_blake3 v) (xe_hexb v) out"
  using assms by (simp add: execute_task_def Let_def)

section \<open>Honest and dishonest results\<close>

text \<open>The proof that the executor attaches to the result of a validation task is refused by every validator:
  it is a re-execution proof without the data such a proof must have.\<close>

theorem honest_validation_refused:
  assumes "execute_task w ck t d x = (Inr r, x')" and "tk_type t = ValidationTask target criteria"
    and "verify_work_result v r validator m = (Inr vote, m')"
  shows "\<not> va_vote vote"
proof -
  obtain out p where run: "run_task (xe_blake3 w) (xe_hexb w) t d = Inr (out, p)" and p: "wr_proof r = p"
    using assms(1) by (rule execute_task_Inr)
  have "ep_type p = ReExecutionProof" "ep_data p = []"
    using run by (auto simp: run_task_def assms(2) execute_validation_task_def Let_def)
  then have "verify_execution_proof (xe_blake3 (vv_exec v)) (rv_zk m) (wr_proof r) = Inr False"
    by (simp add: verify_execution_proof_def verify_reexecution_proof_def p)
  with assms(3) show ?thesis
    by (auto simp: verify_work_result_def tryR_Inr_iff Let_def split: prod.splits)
qed

text \<open>The input that the validator looks up is chosen by the proof of the worker.\<close>

lemma hash_chain_result:
  assumes "run_task blake3 hexb t d = Inr (out, p)" and "tk_type t = ComputeTask HashVerification req"
    and "\<And>s. length (blake3 s) = 32"
  shows "take 32 (ep_data p) = blake3 d \<and> 32 \<le> length (ep_data p) \<and> ep_type p = MerkleTreeProof \<and> ep_states p \<noteq> [] \<and>
    ep_merkle_root p = blake3 (concat (ep_states p)) \<and> length out = 32"
  using assms by (auto simp: run_task_def do_computation_def Let_def bindE_Inr_iff compute_merkle_root_def generate_proof_data_def)

lemma small_output_memory:
  assumes "length out = 32"
  shows "estimate_memory_usage out = 1"
proof -
  have "f64_as_u64 (real (length out) * (3 / 2) / (1024 * 1024)) = 0"
    using assms by (simp add: f64_as_u64_def)
  then show ?thesis by (simp add: estimate_memory_usage_def)
qed

text \<open>For a hash task every validator accepts the result of the computation on any stored input whatsoever,
  not only on the input the task names: the input is looked up under the first 32 bytes of the proof
  data, which are the worker's. In particular the honest result is accepted.\<close>

theorem any_stored_input_accepted:
  fixes v :: "('b, 'p, 's, 'k, 'q, 'g, 'h) validator_env"
  assumes "execute_task (vv_exec v) ck t d worker = (Inr r, worker')" and "tk_type t = ComputeTask HashVerification req"
    and "\<And>s. length (xe_blake3 (vv_exec v) s) = 32 \<and> \<not> list_all (\<lambda>b. b = 0) (xe_blake3 (vv_exec v) s)"
    and "rv_task_store m = Some ts" and "stored_task (vv_backend v) (vv_de v) (tk_id t) ts = Inr (Some t)"
    and "rv_input_store m = Some st" and "get_input (vv_backend v) (xe_blake3 (vv_exec v)) (xe_blake3 (vv_exec v) d) st = Inr (Some d)"
    and "rv_executor m = Some x" and "te_concurrent x < xc_max_concurrent (te_config x)"
    and "validate_resource_requirements (te_config x) t = Inr ()"
    and "ck_start ck < ck_end ck" and "ck_elapsed_ms ck div 1000 \<le> of_int (num_seconds (ck_end ck - ck_start ck) * 10)"
  shows "\<exists>vote m'. verify_work_result v r validator m = (Inr vote, m') \<and> va_vote vote"
proof -
  let ?b = "xe_blake3 (vv_exec v)"
  obtain out p where run: "run_task ?b (xe_hexb (vv_exec v)) t d = Inr (out, p)" and p: "wr_proof r = p"
    and cid: "wr_output_cid r = output_cid_of ?b (xe_hexb (vv_exec v)) out" and i: "wr_task_id r = tk_id t"
    and metrics: "wr_metrics r = \<lparr>em_cpu_ms = ck_elapsed_ms ck, em_memory_mb = estimate_memory_usage out,
      em_storage_mb = of_nat (length out div (1024 * 1024)), em_network_kb = of_nat ((length d + length out) div 1024),
      em_start = ck_start ck, em_end = ck_end ck\<rparr>"
    using assms(1) by (rule execute_task_Inr)
  note chain = hash_chain_result [OF run assms(2)] assms(3)
  have proof_ok: "verify_execution_proof ?b (rv_zk m) (wr_proof r) = Inr True"
    using chain by (simp add: verify_execution_proof_def p verify_merkle_proof_def compute_merkle_root_def)
  have input: "claimed_input_hash ?b r t = ?b d"
    using chain by (simp add: claimed_input_hash_def p)
  obtain again x' where again: "execute_task (vv_exec v) (vv_clock v) t d x = (Inr again, x')"
    "wr_output_cid again = output_cid_of ?b (xe_hexb (vv_exec v)) out"
    using execute_task_ok [OF assms(9,10) run] by blast
  have re: "deterministic_re_execution v r m = (Inr (?b (wr_output_cid again), True), m\<lparr>rv_executor := Some x'\<rparr>)"
    by (simp add: deterministic_re_execution_def assms(4,6,8) re_execute_with_executor_def i assms(5,7) input with_executor_def
        again(1) Let_def again(2) cid)
  have "length out = 32" using chain by simp
  then have "verify_resource_claims r"
    using assms(11,12) by (simp add: verify_resource_claims_def metrics small_output_memory Let_def not_less)
  with proof_ok re show ?thesis
    by (cases "vc_require_re_execution (rv_config m)") (simp_all add: verify_work_result_def tryR_def Let_def)
qed

text \<open>The honest result of a data processing task cannot be validated: its proof data start with the digest of
  half of the output, under which no input is stored.\<close>

lemma honest_processing_unverifiable:
  assumes "execute_task (vv_exec v) ck t d worker = (Inr r, worker')" and "tk_type t = ComputeTask DataProcessing req"
    and "\<And>s. length (xe_blake3 (vv_exec v) s) = 32"
    and "rv_task_store m = Some ts" and "stored_task (vv_backend v) (vv_de v) (tk_id t) ts = Inr (Some t)"
    and "rv_input_store m = Some st"
    and "get_input (vv_backend v) (xe_blake3 (vv_exec v)) (xe_blake3 (vv_exec v) (take (length d div 2) (map (\<lambda>b. b + 1) d))) st = Inr None"
    and "rv_executor m = Some x" and "vc_require_re_execution (rv_config m)"
  shows "verify_work_result v r validator m = (Inl InputNotFound, m)"
proof -
  let ?b = "xe_blake3 (vv_exec v)"
  obtain out p where run: "run_task ?b (xe_hexb (vv_exec v)) t d = Inr (out, p)" and p: "wr_proof r = p"
    and i: "wr_task_id r = tk_id t"
    using assms(1) by (rule execute_task_Inr)
  have data: "take 32 (ep_data p) = ?b (take (length d div 2) (map (\<lambda>b. b + 1) d))" "32 \<le> length (ep_data p)"
      "ep_type p = MerkleTreeProof"
    using run assms(2,3) by (auto simp: run_task_def do_computation_def Let_def bindE_Inr_iff generate_proof_data_def)
  have "claimed_input_hash ?b r t = ?b (take (length d div 2) (map (\<lambda>b. b + 1) d))"
    using data by (simp add: claimed_input_hash_def p)
  then have "deterministic_re_execution v r m = (Inl InputNotFound, m)"
    by (simp add: deterministic_re_execution_def assms(4,6,8) re_execute_with_executor_def i assms(5,7) Let_def)
  with data(3) assms(9) show ?thesis
    by (simp add: verify_work_result_def verify_execution_proof_def p tryR_def)
qed

section \<open>Votes\<close>

text \<open>What a vote depends on is the same for every validator.\<close>

definition same_validation :: "('b, 'p, 's, 'k) result_validator \<Rightarrow> ('b, 'p, 's, 'k) result_validator \<Rightarrow> bool" where
  "same_validation m m' \<longleftrightarrow>
     rv_config m' = rv_config m \<and> rv_zk m' = rv_zk m \<and> rv_task_store m' = rv_task_store m \<and>
     rv_input_store m' = rv_input_store m \<and> rv_bls m' = rv_bls m \<and> rv_cache m' = rv_cache m \<and>
     rel_option (\<lambda>x x'. te_concurrent x' = te_concurrent x \<and> te_config x' = te_config x) (rv_executor m) (rv_executor m')"

lemma same_validation_refl [simp]: "same_validation m m"
  by (simp add: same_validation_def option.rel_refl)

lemma same_validation_trans: "same_validation a b \<Longrightarrow> same_validation b c \<Longrightarrow> same_validation a c"
  by (auto simp: same_validation_def option_rel_Some1 elim!: option.rel_cases)

lemma execute_task_again:
  assumes "execute_task v ck t d x = (r, x1)" and "te_concurrent y = te_concurrent x" and "te_config y = te_config x"
  shows "\<exists>r' y1. execute_task v ck t d y = (r', y1) \<and> map_sum id wr_output_cid r' = map_sum id wr_output_cid r \<and>
    te_concurrent y1 = te_concurrent x1 \<and> te_config y1 = te_config x1"
  using assms
  by (auto simp: execute_task_def Let_def split: if_splits sum.splits prod.splits)

lemma re_execution_same:
  assumes "same_validation m n" and "deterministic_re_execution v r m = (Inr hm, m1)"
  shows "\<exists>n1. deterministic_re_execution v r n = (Inr hm, n1) \<and> same_validation m m1 \<and> same_validation n n1"
proof -
  obtain x where x: "rv_executor m = Some x"
    using assms(2) by (cases "rv_executor m") (auto simp: deterministic_re_execution_def)
  then obtain y where y: "rv_executor n = Some y" "te_concurrent y = te_concurrent x" "te_config y = te_config x"
    using assms(1) by (auto simp: same_validation_def option_rel_Some1)
  obtain ts t st d where ts: "rv_task_store m = Some ts" "stored_task (vv_backend v) (vv_de v) (wr_task_id r) ts = Inr (Some t)"
    "rv_input_store m = Some st" "get_input (vv_backend v) (xe_blake3 (vv_exec v)) (claimed_input_hash (xe_blake3 (vv_exec v)) r t) st = Inr (Some d)"
    using assms(2) x by (auto simp: deterministic_re_execution_def re_execute_with_executor_def Let_def split: option.splits sum.splits)
  obtain e x1 where run: "execute_task (vv_exec v) (vv_clock v) t d x = (e, x1)" by force
  obtain e' y1 where run': "execute_task (vv_exec v) (vv_clock v) t d y = (e', y1)"
    "map_sum id wr_output_cid e' = map_sum id wr_output_cid e" "te_concurrent y1 = te_concurrent x1" "te_config y1 = te_config x1"
    using execute_task_again [OF run y(2,3)] by blast
  obtain again where again: "e = Inr again"
    using assms(2) x ts run by (cases e) (auto simp: deterministic_re_execution_def re_execute_with_executor_def Let_def with_executor_def)
  obtain again' where again': "e' = Inr again'" "wr_output_cid again' = wr_output_cid again"
    using run'(2) again by (cases e') auto
  have tsn: "rv_task_store n = Some ts" "rv_input_store n = Some st"
    using assms(1) ts by (auto simp: same_validation_def)
  have hm: "hm = (xe_blake3 (vv_exec v) (wr_output_cid again),
      xe_blake3 (vv_exec v) (wr_output_cid again) = xe_blake3 (vv_exec v) (wr_output_cid r))" "m1 = m\<lparr>rv_executor := Some x1\<rparr>"
    using assms(2) x ts run again by (auto simp: deterministic_re_execution_def re_execute_with_executor_def Let_def with_executor_def)
  have "deterministic_re_execution v r n = (Inr hm, n\<lparr>rv_executor := Some y1\<rparr>)"
    using y(1) ts tsn run'(1) again' hm(1)
    by (simp add: deterministic_re_execution_def re_execute_with_executor_def Let_def with_executor_def)
  moreover have "same_validation m m1" "same_validation n (n\<lparr>rv_executor := Some y1\<rparr>)"
    using execute_task_slots [OF run] execute_task_slots [OF run'(1)] x y(1)
    by (auto simp: same_validation_def hm(2))
  ultimately show ?thesis by blast
qed

lemma verify_work_result_same:
  assumes "same_validation m n" and "verify_work_result v r p m = (Inr vote, m1)"
  shows "same_validation m m1 \<and> va_validator vote = p \<and>
    (\<exists>vote' n1. verify_work_result v r q n = (Inr vote', n1) \<and> same_validation n n1 \<and> va_vote vote' = va_vote vote)"
proof -
  obtain ok where ok: "verify_execution_proof (xe_blake3 (vv_exec v)) (rv_zk m) (wr_proof r) = Inr ok"
    using assms(2) by (auto simp: verify_work_result_def split: sum.splits)
  have zk: "rv_zk n = rv_zk m" "rv_config n = rv_config m" using assms(1) by (auto simp: same_validation_def)
  show ?thesis
  proof (cases "vc_require_re_execution (rv_config m)")
    case True
    then obtain hm where re: "deterministic_re_execution v r m = (Inr hm, m1)"
      and vote: "vote = \<lparr>va_validator = p, va_vote = (ok \<and> snd hm \<and> verify_resource_claims r), va_re_execution = Some (fst hm),
        va_discrepancy = discrepancy_text ok (snd hm) (verify_resource_claims r),
        va_signature = sign_vote (xe_blake3 (vv_exec v)) (ok \<and> snd hm \<and> verify_resource_claims r) (wr_id r)\<rparr>"
      using assms(2) ok by (auto simp: verify_work_result_def tryR_Inr_iff Let_def)
    from re_execution_same [OF assms(1) re] obtain n1 where n1: "deterministic_re_execution v r n = (Inr hm, n1)"
      "same_validation m m1" "same_validation n n1" by blast
    obtain h b where hm: "hm = (h, b)" by (cases hm)
    have "verify_work_result v r q n = (Inr (vote\<lparr>va_validator := q\<rparr>), n1)"
      using True zk ok n1(1) by (simp add: verify_work_result_def tryR_def Let_def vote hm)
    with n1(2,3) vote show ?thesis by (auto simp: vote)
  next
    case False
    then have "m1 = m" "vote = \<lparr>va_validator = p, va_vote = (ok \<and> verify_resource_claims r), va_re_execution = None,
        va_discrepancy = discrepancy_text ok True (verify_resource_claims r),
        va_signature = sign_vote (xe_blake3 (vv_exec v)) (ok \<and> verify_resource_claims r) (wr_id r)\<rparr>"
      using assms(2) ok by (auto simp: verify_work_result_def tryR_Inr_iff Let_def)
    with False zk ok show ?thesis by (simp add: verify_work_result_def tryR_def Let_def)
  qed
qed

lemma votes_unanimous:
  assumes "same_validation m0 m" and "verify_work_result v r p0 m0 = (Inr vote0, m01)"
  shows "collect_validation_votes v r ps m = (Inr votes, m') \<Longrightarrow>
    same_validation m m' \<and> map va_validator votes = ps \<and> (\<forall>x \<in> set votes. va_vote x = va_vote vote0)"
  using assms(1)
proof (induction ps arbitrary: m votes)
  case Nil
  then show ?case by simp
next
  case (Cons p ps)
  then obtain vote m1 votes' where v1: "verify_work_result v r p m = (Inr vote, m1)"
    "collect_validation_votes v r ps m1 = (Inr votes', m')" "votes = vote # votes'"
    by (auto simp: tryR_Inr_iff)
  have same: "same_validation m m1" "va_validator vote = p"
    using verify_work_result_same [OF same_validation_refl v1(1), of q] by (auto simp: verify_work_result_same [OF same_validation_refl v1(1)])
  have "va_vote vote = va_vote vote0"
    using verify_work_result_same [OF Cons.prems(2) assms(2), of p] v1(1) by auto
  moreover have "same_validation m0 m1" using Cons.prems(2) same(1) by (rule same_validation_trans)
  ultimately show ?case
    using Cons.IH [OF v1(2)] v1(3) same by (auto intro: same_validation_trans)
qed

lemma aggregate_unanimous:
  assumes "\<forall>x \<in> set votes. va_vote x = b" and "votes \<noteq> []" and "0 < vc_threshold c" and "vc_threshold c \<le> 1"
  shows "aggregate_votes c votes (length votes) =
    (if b then (ResultAccepted, length votes, 0) else (ResultRejected, 0, length votes))"
proof (cases b)
  case True
  then have "filter va_vote votes = votes" "filter (\<lambda>x. \<not> va_vote x) votes = []"
    using assms(1) by (auto simp: filter_id_conv filter_empty_conv)
  with True assms(2-4) show ?thesis by (simp add: aggregate_votes_def Let_def)
next
  case False
  then have "filter va_vote votes = []" "filter (\<lambda>x. \<not> va_vote x) votes = votes"
    using assms(1) by (auto simp: filter_id_conv filter_empty_conv)
  with False assms(2-4) show ?thesis by (simp add: aggregate_votes_def Let_def)
qed

text \<open>A fresh verdict is that of a single check: the validators never disagree.\<close>

lemma verdict_unanimous:
  assumes "rv_cache m (wr_id r) = None" and "validate_result v i r epoch m = (Inr report, m')"
    and "0 < vc_threshold (rv_config m)" and "vc_threshold (rv_config m) \<le> 1" and "0 < vc_min_validators (rv_config m)"
  shows "\<exists>b. map ve_validator (vr_evidence report) = vr_validators report \<and>
    (\<forall>x \<in> set (vr_evidence report). ve_vote x = b) \<and> vr_result report = (if b then ResultAccepted else ResultRejected) \<and>
    vc_min_validators (rv_config m) \<le> length (vr_validators report) \<and> get_cached_report m' (wr_id r) = Some report"
proof -
  obtain ps where ps: "select_validators_for_task v i epoch m = Inr ps" "vc_min_validators (rv_config m) \<le> length ps"
    using assms(1,2) by (auto simp: validate_result_def split: sum.splits if_splits)
  obtain votes m1 sig m2 where run: "collect_validation_votes v r ps m = (Inr votes, m1)"
    "generate_threshold_signature v i (wr_id r) votes m1 = (Inr sig, m2)"
    and report: "vr_validators report = ps" "vr_evidence report = map evidence_of votes"
      "vr_result report = fst (aggregate_votes (rv_config m2) votes (length ps))" "rv_cache m' (wr_id r) = Some report"
    using assms(1,2) ps by (auto simp: validate_result_def tryR_Inr_iff Let_def not_less case_prod_beta)
  obtain p ps' where pps: "ps = p # ps'" using ps(2) assms(5) by (cases ps) auto
  obtain vote0 m0 where v0: "verify_work_result v r p m = (Inr vote0, m0)"
    using run(1) by (auto simp: pps tryR_Inr_iff)
  note votes = votes_unanimous [OF same_validation_refl v0 run(1)]
  have len: "length votes = length ps" using votes by (metis length_map)
  have "rv_config m2 = rv_config m1"
    using run(2) by (auto simp: generate_threshold_signature_def split: option.splits prod.splits)
  then have "rv_config m2 = rv_config m" using votes by (simp add: same_validation_def)
  then have "vr_result report = (if va_vote vote0 then ResultAccepted else ResultRejected)"
    using report(3) aggregate_unanimous [of votes "va_vote vote0" "rv_config m"] votes len pps assms(3,4) by auto
  moreover have "map ve_validator (vr_evidence report) = vr_validators report"
    using votes by (simp add: report(1,2) evidence_of_def comp_def)
  ultimately show ?thesis
    using votes ps(2) report by (auto simp: evidence_of_def get_cached_report_def)
qed

section \<open>Concrete instances\<close>

definition hash_task :: task where
  "hash_task = sample_task\<lparr>tk_type := ComputeTask HashVerification
     \<lparr>rr_max_cpu_ms = 0, rr_max_memory_mb = 0, rr_max_storage_mb = 0, rr_max_network_kb = 0\<rparr>\<rparr>"

abbreviation ones :: "bytes \<Rightarrow> bytes" where "ones \<equiv> (\<lambda>_. replicate 32 1)"

definition sample_exec :: exec_env where
  "sample_exec = \<lparr>xe_blake3 = ones, xe_hexb = id, xe_sign = id\<rparr>"

definition sample_clock :: exec_clock where
  "sample_clock = \<lparr>ck_start = 0, ck_end = 2000, ck_elapsed_ms = 2000, ck_submitted = 2000\<rparr>"

definition validation_env :: "(message_store, nat, nat, nat, nat, nat, nat) validator_env" where
  "validation_env =
     \<lparr>vv_exec = sample_exec, vv_backend = memory_backend (\<lambda>_. []), vv_de = (\<lambda>_. Some hash_task), vv_tc = demo_lib,
      vv_random = id, vv_hex = (\<lambda>_. ''h''), vv_dec = (\<lambda>_. ''0''), vv_ord = [], vv_clock = sample_clock, vv_now = 0\<rparr>"

definition sample_executor :: task_executor where
  "sample_executor = task_executor_new [8] executor_config_default"

text \<open>A store that holds the task, and one that holds another input than the one it names.\<close>

definition sample_validator :: "(message_store, nat, nat, nat) result_validator" where
  "sample_validator =
     (result_validator_new (vrf_service_new vrf_config_default (reputation_tracker_new (9 / 10))) validator_config_default)
       \<lparr>rv_executor := Some sample_executor,
        rv_task_store := Some (message_store_new\<lparr>st_metadata := [([1], ''task'') \<mapsto> []]\<rparr>),
        rv_input_store := Some (message_store_new\<lparr>st_metadata := [(ones [], ''input'') \<mapsto> [77]]\<rparr>)\<rparr>"

lemma sample_slot: "te_concurrent sample_executor < xc_max_concurrent (te_config sample_executor)"
  by (simp add: sample_executor_def task_executor_new_def executor_config_default_def)

lemma hash_task_runs: "\<exists>r x'. execute_task sample_exec sample_clock hash_task d sample_executor = (Inr r, x')"
proof -
  have "\<exists>out p. run_task (xe_blake3 sample_exec) (xe_hexb sample_exec) hash_task d = Inr (out, p)"
    by (simp add: run_task_def hash_task_def do_computation_def Let_def)
  then obtain out p where run: "run_task (xe_blake3 sample_exec) (xe_hexb sample_exec) hash_task d = Inr (out, p)" by blast
  have "validate_resource_requirements (te_config sample_executor) hash_task = Inr ()"
    by (simp add: validate_resource_requirements_def hash_task_def)
  from execute_task_ok [OF sample_slot this run] show ?thesis by blast
qed

lemma any_stored_input_accepted_witness:
  "\<exists>r vote x' m'. execute_task sample_exec sample_clock hash_task [77] sample_executor = (Inr r, x') \<and>
     verify_work_result validation_env r [9] sample_validator = (Inr vote, m') \<and> va_vote vote"
proof -
  obtain r x' where run: "execute_task sample_exec sample_clock hash_task [77] sample_executor = (Inr r, x')"
    using hash_task_runs by blast
  have env: "vv_exec validation_env = sample_exec" "xe_blake3 sample_exec = ones" "vv_backend validation_env = memory_backend (\<lambda>_. [])"
    "vv_de validation_env = (\<lambda>_. Some hash_task)"
    by (simp_all add: validation_env_def sample_exec_def)
  have "\<exists>vote m'. verify_work_result validation_env r [9] sample_validator = (Inr vote, m') \<and> va_vote vote"
  proof (rule any_stored_input_accepted)
    show "execute_task (vv_exec validation_env) sample_clock hash_task [77] sample_executor = (Inr r, x')"
      using run by (simp add: env)
    show "tk_type hash_task = ComputeTask HashVerification
        \<lparr>rr_max_cpu_ms = 0, rr_max_memory_mb = 0, rr_max_storage_mb = 0, rr_max_network_kb = 0\<rparr>"
      by (simp add: hash_task_def)
    show "length (xe_blake3 (vv_exec validation_env) s) = 32 \<and> \<not> list_all (\<lambda>b. b = 0) (xe_blake3 (vv_exec validation_env) s)" for s
      by (simp add: env)
    show "rv_task_store sample_validator = Some (message_store_new\<lparr>st_metadata := [([1], ''task'') \<mapsto> []]\<rparr>)"
      "rv_input_store sample_validator = Some (message_store_new\<lparr>st_metadata := [(ones [], ''input'') \<mapsto> [77]]\<rparr>)"
      "rv_executor sample_validator = Some sample_executor"
      by (simp_all add: sample_validator_def)
    show "stored_task (vv_backend validation_env) (vv_de validation_env) (tk_id hash_task)
        (message_store_new\<lparr>st_metadata := [([1], ''task'') \<mapsto> []]\<rparr>) = Inr (Some hash_task)"
      by (simp add: env stored_task_def memory_backend_def mb_get_metadata_def hash_task_def sample_task_def)
    show "get_input (vv_backend validation_env) (xe_blake3 (vv_exec validation_env)) (xe_blake3 (vv_exec validation_env) [77])
        (message_store_new\<lparr>st_metadata := [(ones [], ''input'') \<mapsto> [77]]\<rparr>) = Inr (Some [77])"
      by (simp add: env get_input_def memory_backend_def mb_get_metadata_def)
    show "te_concurrent sample_executor < xc_max_concurrent (te_config sample_executor)"
      by (rule sample_slot)
    show "validate_resource_requirements (te_config sample_executor) hash_task = Inr ()"
      by (simp add: validate_resource_requirements_def hash_task_def)
    show "ck_start sample_clock < ck_end sample_clock"
      by (simp add: sample_clock_def)
    show "ck_elapsed_ms sample_clock div 1000 \<le> of_int (num_seconds (ck_end sample_clock - ck_start sample_clock) * 10)"
      by (simp add: sample_clock_def num_seconds_def word_le_nat_alt unat_div)
  qed
  with run show ?thesis by blast
qed

lemma honest_validation_refused_witness:
  "\<exists>r x' vote. execute_task sample_exec sample_clock sample_task [77] sample_executor = (Inr r, x') \<and>
     fst (verify_work_result validation_env r [9]
       (sample_validator\<lparr>rv_config := validator_config_default\<lparr>vc_require_re_execution := False\<rparr>\<rparr>)) = Inr vote \<and> \<not> va_vote vote"
proof -
  let ?m = "sample_validator\<lparr>rv_config := validator_config_default\<lparr>vc_require_re_execution := False\<rparr>\<rparr>"
  have type: "tk_type sample_task = ValidationTask [2] [3]" by (simp add: sample_task_def)
  obtain out p where run: "run_task (xe_blake3 sample_exec) (xe_hexb sample_exec) sample_task [77] = Inr (out, p)"
    by (auto simp: run_task_def type execute_validation_task_def Let_def)
  have res: "validate_resource_requirements (te_config sample_executor) sample_task = Inr ()"
    by (simp add: validate_resource_requirements_def type)
  obtain r x' where r: "execute_task sample_exec sample_clock sample_task [77] sample_executor = (Inr r, x')"
    using execute_task_ok [OF sample_slot res run] by blast
  obtain p' where p': "wr_proof r = p'" "run_task (xe_blake3 sample_exec) (xe_hexb sample_exec) sample_task [77] = Inr (out, p')"
    using r run by (metis execute_task_Inr prod.inject sum.inject(2))
  have "ep_type p' = ReExecutionProof"
    using p'(2) by (auto simp: run_task_def type execute_validation_task_def Let_def)
  then have "ep_type (wr_proof r) = ReExecutionProof" by (simp only: p'(1))
  then obtain vote m' where vote: "verify_work_result validation_env r [9] ?m = (Inr vote, m')"
    by (simp add: verify_work_result_def verify_execution_proof_def tryR_def Let_def)
  from honest_validation_refused [OF r type vote] r vote show ?thesis by auto
qed

end
