(* ===== verification/Pouw_Receipts.thy ===== *)
theory Pouw_Receipts
  imports Pouw_Validation Proposals
begin

text \<open>
  Receipts of useful work and certificates of committees: \<open>ReceiptValidator\<close>
  (\<open>crates/adic-pouw/src/receipt_validator.rs\<close>), \<open>CommitteeCertGenerator\<close> and
  \<open>AggregatorSelector\<close> (\<open>committee.rs\<close>). The canonical hash of a receipt, bincode and the threshold
  library are parameters. The choice of arbitrators for a fraud proof reaches the log only and is left out,
  as are the texts of errors.
\<close>

section \<open>Receipts\<close>

record chunk_acceptance =
  ca_chunk :: u64
  ca_worker :: public_key
  ca_output :: bytes

record chunk_rejection =
  cr_chunk :: u64
  cr_worker :: public_key
  cr_reason :: bytes

record pouw_receipt =
  rp_version :: byte
  rp_hook :: bytes
  rp_epoch :: u64
  rp_seq :: u32
  rp_prev :: bytes
  rp_accepted :: "chunk_acceptance list"
  rp_rejected :: "chunk_rejection list"
  rp_agg_pk :: bytes
  rp_sig :: "bls_signature option"

datatype validation_status = PendingChallenge | UnderDispute | StatusValid | StatusInvalid | FinalizedValid

record re_execution_evidence =
  re_task_id :: bytes
  re_input_hash :: bytes
  re_expected :: bytes
  re_claimed :: bytes
  re_merkle_root :: bytes
  re_states :: "bytes list"
  re_executed_at :: i64

record work_fraud_proof =
  wk_proof :: fraud_proof
  wk_chunk :: bytes
  wk_worker :: public_key
  wk_correct :: "bytes option"
  wk_discrepancy :: bytes

definition work_fraud_proof_new :: "(bytes \<Rightarrow> bytes) \<Rightarrow> (bytes \<Rightarrow> bytes) \<Rightarrow> (re_execution_evidence \<Rightarrow> bytes option) \<Rightarrow> message_id \<Rightarrow>
    bytes \<Rightarrow> public_key \<Rightarrow> public_key \<Rightarrow> bytes option \<Rightarrow> bytes \<Rightarrow> u64 \<Rightarrow> re_execution_evidence option \<Rightarrow> work_fraud_proof" where
  "work_fraud_proof_new blake3 hexb ser receipt_id chunk worker challenger correct discrepancy epoch evidence =
     (let metadata = [ascii ''chunk_id'' \<mapsto> chunk, ascii ''discrepancy'' \<mapsto> discrepancy];
          metadata = (case correct of None \<Rightarrow> metadata | Some h \<Rightarrow> metadata(ascii ''correct_hash'' \<mapsto> hexb h));
          fe = \<lparr>fe_fraud_type = InvalidResult, fe_evidence_cid = ascii ''fraud_chunk_'' @ chunk,
            fe_evidence_data = Option.bind evidence ser, fe_metadata = metadata\<rparr>
      in \<lparr>wk_proof = fraud_proof_new blake3 receipt_id challenger fe epoch, wk_chunk = chunk, wk_worker = worker,
          wk_correct = correct, wk_discrepancy = discrepancy\<rparr>)"

record receipt_validator =
  rc_window :: u64
  rc_pending :: "bytes \<rightharpoonup> work_fraud_proof list"
  rc_adjudications :: "message_id \<rightharpoonup> adjudication_result"
  rc_executor :: "task_executor option"
  rc_bls :: bool
  rc_enforce :: bool

text \<open>\<open>rc_bls\<close> tells whether a signer is configured, which holds no state.\<close>

definition receipt_validator_new :: "u64 \<Rightarrow> receipt_validator" where
  "receipt_validator_new window =
     \<lparr>rc_window = window, rc_pending = Map.empty, rc_adjudications = Map.empty, rc_executor = None, rc_bls = False,
      rc_enforce = False\<rparr>"

definition pending_at :: "receipt_validator \<Rightarrow> bytes \<Rightarrow> work_fraud_proof list" where
  "pending_at m h = (case rc_pending m h of None \<Rightarrow> [] | Some ps \<Rightarrow> ps)"

definition submit_fraud_proof :: "(pouw_receipt \<Rightarrow> bytes) \<Rightarrow> pouw_receipt \<Rightarrow> work_fraud_proof \<Rightarrow> u64 \<Rightarrow>
    (unit, receipt_validator, unit) rop" where
  "submit_fraud_proof rh r p current_epoch m =
     (if rp_epoch r + rc_window m < current_epoch then errR () m
      else case verify_structure (wk_proof p) of
          Inl _ \<Rightarrow> errR () m
        | Inr _ \<Rightarrow> okR () (m\<lparr>rc_pending := (rc_pending m)(rh r \<mapsto> pending_at m (rh r) @ [p])\<rparr>))"

definition le_bytes4 :: "u32 \<Rightarrow> bytes" where
  "le_bytes4 w = take 4 (le_bytes (ucast w))"

definition build_receipt_message :: "pouw_receipt \<Rightarrow> bytes" where
  "build_receipt_message r =
     rp_hook r @ le_bytes (rp_epoch r) @ le_bytes4 (of_nat (length (rp_accepted r))) @
     le_bytes4 (of_nat (length (rp_rejected r))) @
     concat (map (\<lambda>a. ca_output a @ ca_worker a) (rp_accepted r)) @
     concat (map (\<lambda>x. le_bytes (cr_chunk x) @ cr_worker x) (rp_rejected r))"

definition verify_bls_signature :: "('p, 's, 'k, 'q, 'g, 'h) tc_lib \<Rightarrow> receipt_validator \<Rightarrow> pouw_receipt \<Rightarrow> unit + bool" where
  "verify_bls_signature T m r =
     (if \<not> rc_bls m then (if rc_enforce m then Inl () else Inr False)
      else case rp_sig r of
          None \<Rightarrow> if rc_enforce m then Inl () else Inr False
        | Some sig \<Rightarrow>
            (if rp_agg_pk r = [] then Inl ()
             else case tc_get_key_set T (rp_agg_pk r) of
                None \<Rightarrow> Inl ()
              | Some pk_set \<Rightarrow>
                  (case verify_signature T pk_set (build_receipt_message r) (ascii DST_TASK_RECEIPT) sig of
                     Inl _ \<Rightarrow> Inl ()
                   | Inr ok \<Rightarrow> if ok then Inr True else Inl ())))"

record receipt_verdict =
  rv_receipt_id :: bytes
  rv_is_valid :: bool
  rv_fraud_proofs :: nat
  rv_upheld :: "message_id list"
  rv_rejected :: "message_id list"
  rv_status :: validation_status

definition ruled :: "receipt_validator \<Rightarrow> dispute_ruling \<Rightarrow> work_fraud_proof list \<Rightarrow> message_id list" where
  "ruled m ruling ps =
     map (fp_id \<circ> wk_proof)
       (filter (\<lambda>p. case rc_adjudications m (fp_id (wk_proof p)) of None \<Rightarrow> False | Some a \<Rightarrow> aj_ruling a = ruling) ps)"

definition receipt_status :: "receipt_validator \<Rightarrow> pouw_receipt \<Rightarrow> work_fraud_proof list \<Rightarrow> message_id list \<Rightarrow> u64 \<Rightarrow> validation_status" where
  "receipt_status m r proofs upheld current_epoch =
     (let over = rp_epoch r + rc_window m < current_epoch
      in if upheld \<noteq> [] then StatusInvalid
         else if proofs = [] \<and> over then FinalizedValid
         else if proofs \<noteq> [] \<and> upheld = [] then (if over then FinalizedValid else UnderDispute)
         else if current_epoch \<le> rp_epoch r + rc_window m then PendingChallenge
         else StatusValid)"

definition validate_receipt :: "('p, 's, 'k, 'q, 'g, 'h) tc_lib \<Rightarrow> (pouw_receipt \<Rightarrow> bytes) \<Rightarrow> receipt_validator \<Rightarrow> pouw_receipt \<Rightarrow>
    u64 \<Rightarrow> receipt_verdict" where
  "validate_receipt T rh m r current_epoch =
     (if \<not> is_ok (verify_bls_signature T m r) \<and> rc_enforce m
      then \<lparr>rv_receipt_id = rh r, rv_is_valid = False, rv_fraud_proofs = 0, rv_upheld = [], rv_rejected = [],
        rv_status = StatusInvalid\<rparr>
      else
        (let proofs = pending_at m (rh r);
             upheld = ruled m ChallengerWins proofs;
             status = receipt_status m r proofs upheld current_epoch
         in \<lparr>rv_receipt_id = rh r, rv_is_valid = (status \<in> {StatusValid, FinalizedValid, PendingChallenge}),
             rv_fraud_proofs = length proofs, rv_upheld = upheld, rv_rejected = ruled m SubjectWins proofs, rv_status = status\<rparr>))"

definition record_adjudication :: "adjudication_result \<Rightarrow> receipt_validator \<Rightarrow> receipt_validator" where
  "record_adjudication a m = m\<lparr>rc_adjudications := (rc_adjudications m)(aj_fraud_proof_id a \<mapsto> a)\<rparr>"

record validated_receipt =
  vd_receipt :: pouw_receipt
  vd_fraud_proofs :: "fraud_proof list"
  vd_adjudications :: "adjudication_result list"
  vd_status :: validation_status
  vd_finalized_at :: "u64 option"

definition get_validated_receipt :: "('p, 's, 'k, 'q, 'g, 'h) tc_lib \<Rightarrow> (pouw_receipt \<Rightarrow> bytes) \<Rightarrow> receipt_validator \<Rightarrow> pouw_receipt \<Rightarrow>
    u64 \<Rightarrow> validated_receipt" where
  "get_validated_receipt T rh m r current_epoch =
     (let fraud_proofs = map wk_proof (pending_at m (rh r));
          status = rv_status (validate_receipt T rh m r current_epoch)
      in \<lparr>vd_receipt = r, vd_fraud_proofs = fraud_proofs,
          vd_adjudications = List.map_filter (\<lambda>p. rc_adjudications m (fp_id p)) fraud_proofs, vd_status = status,
          vd_finalized_at = (if status \<in> {FinalizedValid, StatusInvalid} then Some (rp_epoch r + rc_window m) else None)\<rparr>)"

definition verify_execution_proof_consistency :: "execution_proof \<Rightarrow> execution_proof \<Rightarrow> bool" where
  "verify_execution_proof_consistency claimed again \<longleftrightarrow>
     ep_type claimed = ep_type again \<and> ep_merkle_root claimed = ep_merkle_root again \<and>
     length (ep_states claimed) = length (ep_states again) \<and>
     list_all (\<lambda>(a, b). a = b) (zip (ep_states claimed) (ep_states again))"

definition verify_chunk_acceptance :: "exec_env \<Rightarrow> exec_clock \<Rightarrow> i64 \<Rightarrow> chunk_acceptance \<Rightarrow> task \<Rightarrow> work_result \<Rightarrow> bytes \<Rightarrow>
    (unit, receipt_validator, re_execution_evidence option) rop" where
  "verify_chunk_acceptance v ck now a t r input m =
     (if wr_worker r \<noteq> ca_worker a then errR () m
      else case rc_executor m of
          Some x \<Rightarrow>
            (case execute_task v ck t input x of
               (Inl _, x') \<Rightarrow> errR () (m\<lparr>rc_executor := Some x'\<rparr>)
             | (Inr again, x') \<Rightarrow>
                 (let m = m\<lparr>rc_executor := Some x'\<rparr>;
                      expected = xe_blake3 v (wr_output_cid again);
                      evidence = \<lparr>re_task_id = tk_id t, re_input_hash = xe_blake3 v input, re_expected = expected,
                        re_claimed = ca_output a, re_merkle_root = ep_merkle_root (wr_proof again),
                        re_states = ep_states (wr_proof again), re_executed_at = now\<rparr>
                  in if expected \<noteq> ca_output a then okR (Some evidence) m
                     else if \<not> verify_execution_proof_consistency (wr_proof r) (wr_proof again) then okR (Some evidence) m
                     else okR None m))
        | None \<Rightarrow>
            (if list_all (\<lambda>b. b = 0) (ep_merkle_root (wr_proof r)) then errR () m else okR None m))"

definition get_fraud_proofs :: "receipt_validator \<Rightarrow> bytes \<Rightarrow> work_fraud_proof list" where
  "get_fraud_proofs m h = pending_at m h"

definition cleanup_finalized_receipt :: "(pouw_receipt \<Rightarrow> bytes) \<Rightarrow> pouw_receipt \<Rightarrow> u64 \<Rightarrow> receipt_validator \<Rightarrow> receipt_validator" where
  "cleanup_finalized_receipt rh r current_epoch m =
     (if rp_epoch r + rc_window m < current_epoch then m\<lparr>rc_pending := (rc_pending m)(rh r := None)\<rparr> else m)"

section \<open>Committee certificates\<close>

record axis_stats =
  xt_distribution :: "(u32 \<times> u32) list"
  xt_diversity :: f64

record committee_cert =
  cc_epoch :: u64
  cc_randomness :: bytes
  cc_members :: "public_key list"
  cc_axis_stats :: axis_stats
  cc_signature :: "bls_signature option"

record committee_cert_config =
  ct_quorum :: quorum_config
  ct_require_signatures :: bool
  ct_min_reputation :: f64

definition committee_cert_config_default :: committee_cert_config where
  "committee_cert_config_default =
     \<lparr>ct_quorum = \<lparr>qc_min_reputation = 50, qc_members_per_axis = 5, qc_total_size = 15, qc_max_per_asn = 2,
        qc_max_per_region = 3, qc_domain = ascii ''ADIC-PoUW-COMMITTEE-v1'', qc_num_axes = 3\<rparr>,
      ct_require_signatures = True, ct_min_reputation = 50\<rparr>"

record ('p, 's, 'k) cert_generator =
  cg_vrf :: vrf_service
  cg_tracker :: reputation_tracker
  cg_metadata :: network_metadata
  cg_bls :: "('p, 's, 'k) bls_coordinator option"
  cg_dkg :: "('p, 's, 'k) dkg_manager option"
  cg_config :: committee_cert_config

text \<open>The counts per axis in the order of the axes, and their deviation from an equal share; no member at all
  gives the quotient \<open>NaN\<close>, for which a value is left open.\<close>

definition compute_axis_stats :: "f64 \<Rightarrow> committee_cert_config \<Rightarrow> quorum_member list \<Rightarrow> axis_stats" where
  "compute_axis_stats nan c members =
     (let axes = sort (remdups (map qm_axis_id members));
          count = (\<lambda>a. length (filter (\<lambda>x. qm_axis_id x = a) members));
          num_axes = real (qc_num_axes (ct_quorum c));
          ideal = real (length members) / num_axes;
          variance = sum_list (map (\<lambda>a. (real (count a) - ideal) * (real (count a) - ideal)) axes) / num_axes
      in \<lparr>xt_distribution = map (\<lambda>a. (of_nat a, of_nat (count a))) axes,
          xt_diversity = (if members = [] \<or> qc_num_axes (ct_quorum c) = 0 then nan else exp (- variance / (ideal * ideal)))\<rparr>)"

definition cert_message_data :: "u64 \<Rightarrow> bytes \<Rightarrow> public_key list \<Rightarrow> bytes" where
  "cert_message_data epoch randomness members = le_bytes epoch @ randomness @ concat members"

definition reconstruct_cert_message :: "(bytes \<Rightarrow> bytes) \<Rightarrow> committee_cert \<Rightarrow> bytes" where
  "reconstruct_cert_message blake3 c = blake3 (cert_message_data (cc_epoch c) (cc_randomness c) (sort (cc_members c)))"

definition node_of :: "network_metadata \<Rightarrow> public_key \<times> f64 \<times> bytes list \<Rightarrow> node_info" where
  "node_of metadata n =
     (case n of (pk, reputation, balls) \<Rightarrow>
        (let md = metadata_get metadata pk
         in \<lparr>ni_public_key = pk, ni_reputation = reputation, ni_asn = map_option nn_asn md, ni_region = map_option nn_region md,
             ni_axis_balls = balls\<rparr>))"

text \<open>A signing session is opened for the certificate; that it cannot be opened is only logged.\<close>

definition request_cert_signature :: "(bytes \<Rightarrow> bytes) \<Rightarrow> (bytes \<Rightarrow> string) \<Rightarrow> (u64 \<Rightarrow> string) \<Rightarrow> i64 \<Rightarrow> u64 \<Rightarrow> bytes \<Rightarrow>
    public_key list \<Rightarrow> ('p, 's, 'k) bls_coordinator \<Rightarrow> ('p, 's, 'k) bls_coordinator" where
  "request_cert_signature blake3 hex dec now epoch randomness members b =
     (let message_data = cert_message_data epoch randomness members
      in snd (initiate_signing now (signing_request_id hex dec ''committee-cert'' epoch (blake3 message_data)) message_data
           (ascii DST_COMMITTEE_CERT) members b))"

definition generate_certificate :: "(bytes \<Rightarrow> bytes) \<Rightarrow> (bytes \<Rightarrow> string) \<Rightarrow> (u64 \<Rightarrow> string) \<Rightarrow> f64 \<Rightarrow> i64 \<Rightarrow> u64 \<Rightarrow>
    (public_key \<times> f64 \<times> bytes list) list \<Rightarrow> (pouw_error, ('p, 's, 'k) cert_generator, committee_cert) rop" where
  "generate_certificate blake3 hex dec nan now epoch candidates g =
     (case get_canonical_randomness (cg_vrf g) epoch of
        Inl _ \<Rightarrow> errR PouwVRFError g
      | Inr randomness \<Rightarrow>
          (case select_committee blake3 (cg_vrf g) epoch (ct_quorum (cg_config g)) (map (node_of (cg_metadata g)) candidates) of
             Inl _ \<Rightarrow> errR PouwQuorumError g
           | Inr q \<Rightarrow>
               (let members = map qm_public_key (qr_members q); n = length members
                in if list_ex (\<lambda>p. get_reputation (cg_tracker g) p < ct_min_reputation (cg_config g)) members then errR PouwOther g
                   else case (case cg_dkg g of
                       None \<Rightarrow> Inr ()
                     | Some d \<Rightarrow> if manager_is_complete d epoch then Inr () else map_sum BLSFailure (\<lambda>_. ()) (threshold_config_new n (n * 2 div 3 + 1))) of
                     Inl e \<Rightarrow> errR e g
                   | Inr _ \<Rightarrow>
                       okR \<lparr>cc_epoch = epoch, cc_randomness = randomness, cc_members = members,
                         cc_axis_stats = compute_axis_stats nan (cg_config g) (qr_members q), cc_signature = None\<rparr>
                       (if ct_require_signatures (cg_config g)
                        then g\<lparr>cg_bls := map_option (request_cert_signature blake3 hex dec now epoch randomness members) (cg_bls g)\<rparr>
                        else g))))"

definition verify_certificate :: "('p, 's, 'k) cert_generator \<Rightarrow> committee_cert \<Rightarrow> pouw_error + bool" where
  "verify_certificate g c =
     (case get_canonical_randomness (cg_vrf g) (cc_epoch c) of
        Inl _ \<Rightarrow> Inl PouwVRFError
      | Inr expected \<Rightarrow> Inr (cc_randomness c = expected))"

definition verify_with_public_key_set :: "(bytes \<Rightarrow> bytes) \<Rightarrow> ('p, 's, 'k, 'q, 'g, 'h) tc_lib \<Rightarrow> ('p, 's, 'k) cert_generator \<Rightarrow>
    committee_cert \<Rightarrow> 'k \<Rightarrow> pouw_error + bool" where
  "verify_with_public_key_set blake3 T g c keys =
     (if verify_certificate g c \<noteq> Inr True then Inr False
      else case cc_signature c of
          None \<Rightarrow> Inr True
        | Some signature \<Rightarrow>
            bindE (map_sum BLSFailure id (to_tc_signature T signature)) (\<lambda>sig.
              Inr (tc_verify T keys sig (ascii DST_COMMITTEE_CERT @ reconstruct_cert_message blake3 c))))"

definition add_signature :: "committee_cert \<Rightarrow> bls_signature \<Rightarrow> committee_cert" where
  "add_signature c signature = c\<lparr>cc_signature := Some signature\<rparr>"

section \<open>Aggregators\<close>

definition min_scores :: "quorum_member list \<Rightarrow> public_key \<rightharpoonup> bytes" where
  "min_scores members =
     foldl (\<lambda>scores x. case scores (qm_public_key x) of
         None \<Rightarrow> scores(qm_public_key x \<mapsto> qm_vrf_score x)
       | Some s \<Rightarrow> if qm_vrf_score x < s then scores(qm_public_key x \<mapsto> qm_vrf_score x) else scores) Map.empty members"

text \<open>\<open>min_by_key\<close> returns the first of the least keys.\<close>

fun first_min :: "('a \<Rightarrow> 'b::linorder) \<Rightarrow> 'a list \<Rightarrow> 'a option" where
  "first_min f [] = None"
| "first_min f (x # xs) = (case first_min f xs of None \<Rightarrow> Some x | Some y \<Rightarrow> if f x \<le> f y then Some x else Some y)"

definition select_primary_aggregator :: "(public_key set \<Rightarrow> public_key list) \<Rightarrow> quorum_member list \<Rightarrow> public_key option" where
  "select_primary_aggregator ord members =
     (if members = [] then None
      else (let scores = min_scores members in first_min (\<lambda>p. the (scores p)) (ord (dom scores))))"

definition is_timeout_elapsed :: "u64 \<Rightarrow> u64 \<Rightarrow> bool" where
  "is_timeout_elapsed timeout_secs elapsed_secs \<longleftrightarrow> timeout_secs \<le> elapsed_secs"

definition can_aggregate :: "(public_key set \<Rightarrow> public_key list) \<Rightarrow> u64 \<Rightarrow> public_key \<Rightarrow> quorum_member list \<Rightarrow> u64 \<Rightarrow> bool" where
  "can_aggregate ord timeout_secs member_pk members elapsed_secs \<longleftrightarrow>
     list_ex (\<lambda>x. qm_public_key x = member_pk) members \<and>
     (select_primary_aggregator ord members = Some member_pk \<or> is_timeout_elapsed timeout_secs elapsed_secs)"

section \<open>Verdicts\<close>

text \<open>A receipt whose signature is in order, or not insisted on, counts as valid exactly when no fraud proof
  against it was upheld and either none was submitted or the challenge window is over; the verdict is
  final only after the window or by an upheld proof.\<close>

theorem receipt_verdict_iff:
  assumes "is_ok (verify_bls_signature T m r) \<or> \<not> rc_enforce m"
  shows "(rv_is_valid (validate_receipt T rh m r e) \<longleftrightarrow>
      ruled m ChallengerWins (get_fraud_proofs m (rh r)) = [] \<and>
      (get_fraud_proofs m (rh r) = [] \<or> rp_epoch r + rc_window m < e)) \<and>
    rv_status (validate_receipt T rh m r e) \<noteq> StatusValid \<and>
    (vd_finalized_at (get_validated_receipt T rh m r e) \<noteq> None \<longleftrightarrow>
      rp_epoch r + rc_window m < e \<or> ruled m ChallengerWins (get_fraud_proofs m (rh r)) \<noteq> [])"
proof -
  let ?ps = "pending_at m (rh r)" and ?up = "ruled m ChallengerWins (pending_at m (rh r))"
  have up: "?ps = [] \<Longrightarrow> ?up = []" by (simp add: ruled_def)
  have val: "validate_receipt T rh m r e =
      \<lparr>rv_receipt_id = rh r, rv_is_valid = (receipt_status m r ?ps ?up e \<in> {StatusValid, FinalizedValid, PendingChallenge}),
        rv_fraud_proofs = length ?ps, rv_upheld = ?up, rv_rejected = ruled m SubjectWins ?ps, rv_status = receipt_status m r ?ps ?up e\<rparr>"
    using assms by (auto simp: validate_receipt_def Let_def)
  show ?thesis
    unfolding get_validated_receipt_def Let_def val get_fraud_proofs_def
    using up by (cases "?up = []"; cases "?ps = []"; cases "rp_epoch r + rc_window m < e")
      (auto simp: receipt_status_def Let_def not_less)
qed

text \<open>Cleaning up after the window forgets an upheld fraud proof: the receipt that was invalid is final and
  valid from then on.\<close>

theorem cleanup_revives_receipt:
  assumes "is_ok (verify_bls_signature T m r) \<or> \<not> rc_enforce m"
    and "p \<in> set (get_fraud_proofs m (rh r))" and "rc_adjudications m (fp_id (wk_proof p)) = Some a" and "aj_ruling a = ChallengerWins"
    and "rp_epoch r + rc_window m < e"
  shows "rv_status (validate_receipt T rh m r e) = StatusInvalid \<and>
    rv_status (validate_receipt T rh (cleanup_finalized_receipt rh r e m) r e) = FinalizedValid"
proof -
  let ?m = "cleanup_finalized_receipt rh r e m"
  have "fp_id (wk_proof p) \<in> set (ruled m ChallengerWins (pending_at m (rh r)))"
    using assms(2-4) by (auto simp: ruled_def get_fraud_proofs_def)
  then have "ruled m ChallengerWins (pending_at m (rh r)) \<noteq> []" by auto
  then have first: "rv_status (validate_receipt T rh m r e) = StatusInvalid"
    by (simp add: validate_receipt_def Let_def receipt_status_def)
  have m: "?m = m\<lparr>rc_pending := (rc_pending m)(rh r := None)\<rparr>"
    using assms(5) by (simp add: cleanup_finalized_receipt_def)
  have "verify_bls_signature T ?m r = verify_bls_signature T m r"
    by (simp add: m verify_bls_signature_def)
  then have "rv_status (validate_receipt T rh ?m r e) = FinalizedValid"
    using assms(1,5) by (auto simp: validate_receipt_def Let_def m pending_at_def ruled_def receipt_status_def)
  with first show ?thesis by simp
qed

section \<open>What a signature covers\<close>

definition receipt_sized :: "pouw_receipt \<Rightarrow> bool" where
  "receipt_sized r \<longleftrightarrow>
     length (rp_hook r) = 32 \<and> length (rp_accepted r) < 2 ^ 32 \<and> length (rp_rejected r) < 2 ^ 32 \<and>
     (\<forall>a \<in> set (rp_accepted r). length (ca_output a) = 32 \<and> length (ca_worker a) = 32) \<and>
     (\<forall>x \<in> set (rp_rejected r). length (cr_worker x) = 32)"

lemma le_bytes4_inj: "le_bytes4 v = le_bytes4 w \<Longrightarrow> v = w"
proof -
  assume eq: "le_bytes4 v = le_bytes4 w"
  have byte: "le_bytes4 x ! i = ucast (drop_bit (8 * i) (ucast x :: u64))" if "i < 4" for x i
    using that by (simp add: le_bytes4_def le_bytes_def)
  have "bit v n \<longleftrightarrow> bit w n" if n: "n < 32" for n
  proof -
    have b: "bit x n \<longleftrightarrow> bit (le_bytes4 x ! (n div 8)) (n mod 8)" for x :: u32
      using n by (simp add: byte bit_ucast_iff bit_drop_bit_eq)
    show ?thesis unfolding b [of v] b [of w] eq ..
  qed
  then show "v = w"
    by (intro bit_word_eqI) simp
qed

lemma concat_map_sized_inj:
  assumes "\<forall>x \<in> set xs. length (f x) = n" and "\<forall>y \<in> set ys. length (f y) = n" and "length xs = length ys"
    and "concat (map f xs) @ s = concat (map f ys) @ t"
  shows "map f xs = map f ys \<and> s = t"
  using assms
proof (induction xs arbitrary: ys)
  case Nil
  then show ?case by simp
next
  case (Cons x xs)
  then obtain y ys' where ys: "ys = y # ys'" by (cases ys) auto
  have len: "length (f x) = length (f y)" using Cons.prems(1,2) by (simp add: ys)
  have "f x @ concat (map f xs) @ s = f y @ concat (map f ys') @ t" using Cons.prems(4) by (simp add: ys)
  with len have eq: "f x = f y" "concat (map f xs) @ s = concat (map f ys') @ t" by simp_all
  have "map f xs = map f ys' \<and> s = t"
    by (rule Cons.IH [OF _ _ _ eq(2)]) (use Cons.prems(1-3) ys in auto)
  with eq(1) show ?case by (simp add: ys)
qed

lemma of_nat_u32_eq:
  assumes "(of_nat m :: u32) = of_nat n" and "m < 2 ^ 32" and "n < 2 ^ 32"
  shows "m = n"
  using arg_cong [OF assms(1), of unat] assms(2,3) by (simp add: unat_of_nat take_bit_nat_eq_self)

lemma pair_maps: "map (\<lambda>a. h (f a) (g a)) xs = map (\<lambda>(u, v). h u v) (map (\<lambda>a. (f a, g a)) xs)"
  by simp

text \<open>Two receipts give the same bytes to sign exactly when they agree on the hook, the epoch, the outputs and
  workers of the accepted chunks and the chunks and workers of the rejected ones; the accepted chunk numbers,
  the sequence number and the link to the previous receipt are not covered.\<close>

theorem receipt_message_binds:
  assumes "receipt_sized r" and "receipt_sized s"
  shows "build_receipt_message r = build_receipt_message s \<longleftrightarrow>
    rp_hook r = rp_hook s \<and> rp_epoch r = rp_epoch s \<and>
    map (\<lambda>a. (ca_output a, ca_worker a)) (rp_accepted r) = map (\<lambda>a. (ca_output a, ca_worker a)) (rp_accepted s) \<and>
    map (\<lambda>x. (cr_chunk x, cr_worker x)) (rp_rejected r) = map (\<lambda>x. (cr_chunk x, cr_worker x)) (rp_rejected s)"
    (is "?eq \<longleftrightarrow> ?same")
proof
  assume ?same
  then have a: "map (\<lambda>a. ca_output a @ ca_worker a) (rp_accepted r) = map (\<lambda>a. ca_output a @ ca_worker a) (rp_accepted s)"
    and x: "map (\<lambda>x. le_bytes (cr_chunk x) @ cr_worker x) (rp_rejected r) = map (\<lambda>x. le_bytes (cr_chunk x) @ cr_worker x) (rp_rejected s)"
    and l: "length (rp_accepted r) = length (rp_accepted s)" "length (rp_rejected r) = length (rp_rejected s)"
    using pair_maps [of "\<lambda>u v. u @ v" ca_output ca_worker "rp_accepted r"] pair_maps [of "\<lambda>u v. u @ v" ca_output ca_worker "rp_accepted s"]
      pair_maps [of "\<lambda>u v. le_bytes u @ v" cr_chunk cr_worker "rp_rejected r"]
      pair_maps [of "\<lambda>u v. le_bytes u @ v" cr_chunk cr_worker "rp_rejected s"]
    by (auto dest: map_eq_imp_length_eq)
  from \<open>?same\<close> show ?eq
    unfolding build_receipt_message_def a x l by simp
next
  assume eq: ?eq
  let ?fa = "\<lambda>a. ca_output a @ ca_worker a" and ?fx = "\<lambda>x. le_bytes (cr_chunk x) @ cr_worker x"
  have len4 [simp]: "length (le_bytes4 w) = 4" for w by (simp add: le_bytes4_def)
  have hook: "rp_hook r = rp_hook s" "le_bytes (rp_epoch r) = le_bytes (rp_epoch s)"
    and counts: "le_bytes4 (of_nat (length (rp_accepted r))) = le_bytes4 (of_nat (length (rp_accepted s)))"
      "le_bytes4 (of_nat (length (rp_rejected r))) = le_bytes4 (of_nat (length (rp_rejected s)))"
    and rest: "concat (map ?fa (rp_accepted r)) @ concat (map ?fx (rp_rejected r)) =
      concat (map ?fa (rp_accepted s)) @ concat (map ?fx (rp_rejected s))"
    using eq assms by (simp_all add: build_receipt_message_def receipt_sized_def)
  have la: "length (rp_accepted r) = length (rp_accepted s)" and lx: "length (rp_rejected r) = length (rp_rejected s)"
    using counts assms by (auto simp: receipt_sized_def dest!: le_bytes4_inj intro: of_nat_u32_eq)
  have fa: "map ?fa (rp_accepted r) = map ?fa (rp_accepted s) \<and>
      concat (map ?fx (rp_rejected r)) = concat (map ?fx (rp_rejected s))"
    by (rule concat_map_sized_inj [OF _ _ la rest, of 64]) (use assms in \<open>auto simp: receipt_sized_def\<close>)
  then have fx: "map ?fx (rp_rejected r) = map ?fx (rp_rejected s)"
    using concat_map_sized_inj [of "rp_rejected r" ?fx 40 "rp_rejected s" "[]" "[]"] assms lx by (auto simp: receipt_sized_def)
  have "(ca_output (rp_accepted r ! k), ca_worker (rp_accepted r ! k)) = (ca_output (rp_accepted s ! k), ca_worker (rp_accepted s ! k))"
    if k: "k < length (rp_accepted r)" for k
  proof -
    have "?fa (rp_accepted r ! k) = ?fa (rp_accepted s ! k)"
      using arg_cong [OF conjunct1 [OF fa], of "\<lambda>l. l ! k"] k la by simp
    moreover have "length (ca_output (rp_accepted r ! k)) = 32" "length (ca_output (rp_accepted s ! k)) = 32"
      using assms k la nth_mem by (auto simp: receipt_sized_def)
    ultimately show ?thesis by simp
  qed
  moreover have "(cr_chunk (rp_rejected r ! k), cr_worker (rp_rejected r ! k)) = (cr_chunk (rp_rejected s ! k), cr_worker (rp_rejected s ! k))"
    if k: "k < length (rp_rejected r)" for k
  proof -
    have "?fx (rp_rejected r ! k) = ?fx (rp_rejected s ! k)"
      using arg_cong [OF fx, of "\<lambda>l. l ! k"] k lx by simp
    then show ?thesis by (auto dest: le_bytes_inj)
  qed
  ultimately have "map (\<lambda>a. (ca_output a, ca_worker a)) (rp_accepted r) = map (\<lambda>a. (ca_output a, ca_worker a)) (rp_accepted s)"
    "map (\<lambda>x. (cr_chunk x, cr_worker x)) (rp_rejected r) = map (\<lambda>x. (cr_chunk x, cr_worker x)) (rp_rejected s)"
    using la lx by (auto intro!: nth_equalityI)
  with hook(1) le_bytes_inj [OF hook(2)] show ?same by simp
qed

text \<open>The key set that a signature is checked against is part of the receipt: whoever has a key set of his own
  signs whatever he likes.\<close>

lemma self_signed_accepted:
  assumes "rc_bls m" and "tc_get_key_set T pk = Some keys" and "pk \<noteq> []"
    and "verify_signature T keys (build_receipt_message r) (ascii DST_TASK_RECEIPT) sig = Inr True"
  shows "verify_bls_signature T m (r\<lparr>rp_agg_pk := pk, rp_sig := Some sig\<rparr>) = Inr True"
  using assms by (simp add: verify_bls_signature_def build_receipt_message_def)

section \<open>Certificates\<close>

text \<open>A certificate without a signature, which is all that is ever generated, passes the complete verification
  for any list of members whatsoever, provided it carries the randomness of its epoch.\<close>

theorem unsigned_certificate_accepted:
  assumes "get_canonical_randomness (cg_vrf g) epoch = Inr randomness"
  shows "verify_with_public_key_set blake3 T g
    \<lparr>cc_epoch = epoch, cc_randomness = randomness, cc_members = members, cc_axis_stats = stats, cc_signature = None\<rparr> keys = Inr True"
  using assms by (simp add: verify_with_public_key_set_def verify_certificate_def)

text \<open>The committee signs the data, the verifier checks the signature of their digest.\<close>

lemma cert_message_differs:
  assumes "\<And>s. length (blake3 s) = 32" and "length (cc_randomness c) = 32"
  shows "cert_message_data (cc_epoch c) (cc_randomness c) (cc_members c) \<noteq> reconstruct_cert_message blake3 c"
proof
  assume eq: "cert_message_data (cc_epoch c) (cc_randomness c) (cc_members c) = reconstruct_cert_message blake3 c"
  have "length (cert_message_data (cc_epoch c) (cc_randomness c) (cc_members c)) \<ge> 40"
    using assms(2) by (simp add: cert_message_data_def)
  moreover have "length (reconstruct_cert_message blake3 c) = 32"
    by (simp add: reconstruct_cert_message_def assms(1))
  ultimately show False unfolding eq by simp
qed

text \<open>The signature a committee makes of its own certificate never passes the verification, if a signature
  verifies for the message it was made of only.\<close>

lemma committee_signature_refused:
  assumes "\<And>s. length (blake3 s) = 32" and "length (cc_randomness c) = 32"
    and "to_tc_signature T signature = Inr sig"
    and "\<And>msg. tc_verify T keys sig msg \<Longrightarrow>
      msg = ascii DST_COMMITTEE_CERT @ cert_message_data (cc_epoch c) (cc_randomness c) (cc_members c)"
  shows "verify_with_public_key_set blake3 T g (add_signature c signature) keys = Inr False"
proof -
  have "\<not> tc_verify T keys sig (ascii DST_COMMITTEE_CERT @ reconstruct_cert_message blake3 c)"
    using assms(4) cert_message_differs [of blake3 c, OF assms(1,2)] by fastforce
  moreover have "reconstruct_cert_message blake3 (add_signature c signature) = reconstruct_cert_message blake3 c"
    by (simp add: add_signature_def reconstruct_cert_message_def)
  ultimately show ?thesis
    by (simp add: verify_with_public_key_set_def assms(3) add_signature_def reconstruct_cert_message_def)
qed

section \<open>Aggregators\<close>

lemma first_min_least:
  "xs \<noteq> [] \<Longrightarrow> \<exists>y. first_min f xs = Some y \<and> y \<in> set xs \<and> (\<forall>x \<in> set xs. f y \<le> f x)"
proof (induction xs)
  case Nil
  then show ?case by simp
next
  case (Cons x xs)
  show ?case
  proof (cases "xs = []")
    case True
    then show ?thesis by simp
  next
    case False
    with Cons.IH obtain y where y: "first_min f xs = Some y" "y \<in> set xs" "\<forall>z \<in> set xs. f y \<le> f z" by blast
    then show ?thesis by (cases "f x \<le> f y") (auto intro: order_trans)
  qed
qed

lemma min_scores_spec:
  "min_scores members p =
     (if p \<in> qm_public_key ` set members
      then Some (Min (qm_vrf_score ` {x \<in> set members. qm_public_key x = p})) else None)"
proof (induction members rule: rev_induct)
  case Nil
  then show ?case by (simp add: min_scores_def)
next
  case (snoc x xs)
  let ?S = "\<lambda>ys q. qm_vrf_score ` {y \<in> set ys. qm_public_key y = q}"
  have step: "min_scores (xs @ [x]) = (case min_scores xs (qm_public_key x) of
      None \<Rightarrow> (min_scores xs)(qm_public_key x \<mapsto> qm_vrf_score x)
    | Some s \<Rightarrow> if qm_vrf_score x < s then (min_scores xs)(qm_public_key x \<mapsto> qm_vrf_score x) else min_scores xs)"
    by (simp only: min_scores_def foldl_append foldl.simps)
  show ?case
  proof (cases "p = qm_public_key x")
    case False
    then have "?S (xs @ [x]) p = ?S xs p" by auto
    moreover have "min_scores (xs @ [x]) p = min_scores xs p"
      using False by (simp add: step split: option.splits)
    ultimately show ?thesis using snoc False by auto
  next
    case True
    then have S: "?S (xs @ [x]) p = insert (qm_vrf_score x) (?S xs p)" by auto
    show ?thesis
    proof (cases "p \<in> qm_public_key ` set xs")
      case False
      then have "?S xs p = {}" by auto
      then have "?S (xs @ [x]) p = {qm_vrf_score x}" by (simp only: S)
      moreover have "min_scores (xs @ [x]) p = Some (qm_vrf_score x)"
        using False True snoc by (simp add: step)
      ultimately show ?thesis using True by simp
    next
      case old: True
      then have ne: "?S xs p \<noteq> {}" by auto
      have "min_scores (xs @ [x]) p = Some (min (qm_vrf_score x) (Min (?S xs p)))"
        using old True snoc by (auto simp: step min_def)
      also have "min (qm_vrf_score x) (Min (?S xs p)) = Min (?S (xs @ [x]) p)"
        unfolding S using ne by simp
      finally show ?thesis using old by simp
    qed
  qed
qed

text \<open>The primary aggregator of a committee is one of its members, and no member has a smaller score on any axis
  than the smallest of its own.\<close>

theorem primary_aggregator_minimal:
  assumes "members \<noteq> []" and "\<And>S. finite S \<Longrightarrow> set (ord S) = S"
  shows "\<exists>p. select_primary_aggregator ord members = Some p \<and>
    (\<exists>x \<in> set members. qm_public_key x = p \<and> (\<forall>y \<in> set members. qm_vrf_score x \<le> qm_vrf_score y))"
proof -
  have dom: "dom (min_scores members) = qm_public_key ` set members"
    by (auto simp: dom_def min_scores_spec split: if_splits)
  then have keys: "set (ord (dom (min_scores members))) = qm_public_key ` set members"
    by (simp add: assms(2))
  with assms(1) have "ord (dom (min_scores members)) \<noteq> []" by auto
  from first_min_least [OF this, of "\<lambda>p. the (min_scores members p)"] obtain p
    where p: "first_min (\<lambda>p. the (min_scores members p)) (ord (dom (min_scores members))) = Some p"
      "p \<in> qm_public_key ` set members" "\<And>q. q \<in> qm_public_key ` set members \<Longrightarrow> the (min_scores members p) \<le> the (min_scores members q)"
    unfolding keys by blast
  let ?S = "\<lambda>q. qm_vrf_score ` {y \<in> set members. qm_public_key y = q}"
  have val: "the (min_scores members q) = Min (?S q)" if "q \<in> qm_public_key ` set members" for q
    using that by (simp add: min_scores_spec)
  have "?S p \<noteq> {}" using p(2) by auto
  then have "Min (?S p) \<in> ?S p" by (intro Min_in) auto
  then obtain x where x: "x \<in> set members" "qm_public_key x = p" "Min (?S p) = qm_vrf_score x" by auto
  have "qm_vrf_score x \<le> qm_vrf_score y" if "y \<in> set members" for y
  proof -
    have "qm_vrf_score x \<le> Min (?S (qm_public_key y))"
      using p(3) [of "qm_public_key y"] val [OF p(2)] val [of "qm_public_key y"] that x(3) by auto
    also have "\<dots> \<le> qm_vrf_score y" using that by (intro Min_le) auto
    finally show ?thesis .
  qed
  with x p(1) assms(1) show ?thesis
    by (auto simp: select_primary_aggregator_def Let_def)
qed

section \<open>Concrete instances\<close>

definition sample_receipt :: pouw_receipt where
  "sample_receipt =
     \<lparr>rp_version = 1, rp_hook = replicate 32 3, rp_epoch = 1, rp_seq = 0, rp_prev = replicate 32 0,
      rp_accepted = [\<lparr>ca_chunk = 7, ca_worker = replicate 32 8, ca_output = replicate 32 5\<rparr>], rp_rejected = [], rp_agg_pk = [],
      rp_sig = None\<rparr>"

definition sample_fraud :: work_fraud_proof where
  "sample_fraud = work_fraud_proof_new id id (\<lambda>_. None) [3] [7] [8] [9] None [] 2 None"

definition sample_ruling :: adjudication_result where
  "sample_ruling =
     \<lparr>aj_fraud_proof_id = fp_id (wk_proof sample_fraud), aj_ruling = ChallengerWins,
      aj_quorum = \<lparr>qr_members = [], qr_total_size = 0, qr_axes_coverage = []\<rparr>, aj_votes_for = [], aj_votes_against = [],
      aj_total_votes = 0, aj_threshold_met = True, aj_adjudicated_at = 3\<rparr>"

definition disputed_receipts :: receipt_validator where
  "disputed_receipts =
     record_adjudication sample_ruling
       ((receipt_validator_new 10)\<lparr>rc_pending := [rp_hook sample_receipt \<mapsto> [sample_fraud]]\<rparr>)"

lemma disputed_facts:
  "\<not> rc_enforce disputed_receipts" "get_fraud_proofs disputed_receipts (rp_hook sample_receipt) = [sample_fraud]"
  "rc_adjudications disputed_receipts (fp_id (wk_proof sample_fraud)) = Some sample_ruling"
  "rp_epoch sample_receipt + rc_window disputed_receipts < 20"
  by (simp_all add: disputed_receipts_def record_adjudication_def receipt_validator_new_def get_fraud_proofs_def pending_at_def
      sample_ruling_def sample_receipt_def)

lemma cleanup_revives_receipt_witness:
  "rv_status (validate_receipt demo_lib rp_hook disputed_receipts sample_receipt 20) = StatusInvalid \<and>
   rv_status (validate_receipt demo_lib rp_hook (cleanup_finalized_receipt rp_hook sample_receipt 20 disputed_receipts) sample_receipt 20) =
     FinalizedValid"
  by (rule cleanup_revives_receipt [where p = sample_fraud and a = sample_ruling])
    (simp_all add: disputed_facts, simp add: sample_ruling_def)

lemma receipt_verdict_iff_witness:
  "\<not> rv_is_valid (validate_receipt demo_lib rp_hook disputed_receipts sample_receipt 20)"
  using receipt_verdict_iff [of demo_lib disputed_receipts sample_receipt rp_hook 20]
  by (simp add: disputed_facts ruled_def sample_ruling_def)

lemma receipt_message_binds_witness:
  "let other = sample_receipt\<lparr>rp_seq := 5, rp_prev := [1],
         rp_accepted := [\<lparr>ca_chunk = 99, ca_worker = replicate 32 8, ca_output = replicate 32 5\<rparr>]\<rparr>
   in build_receipt_message sample_receipt = build_receipt_message other"
proof -
  let ?other = "sample_receipt\<lparr>rp_seq := 5, rp_prev := [1],
         rp_accepted := [\<lparr>ca_chunk = 99, ca_worker = replicate 32 8, ca_output = replicate 32 5\<rparr>]\<rparr>"
  have "receipt_sized sample_receipt" "receipt_sized ?other"
    by (simp_all add: receipt_sized_def sample_receipt_def)
  from receipt_message_binds [OF this] show ?thesis
    by (simp add: sample_receipt_def)
qed

definition sample_generator :: "(nat, nat, nat) cert_generator" where
  "sample_generator =
     \<lparr>cg_vrf = set_test_randomness 4 [6] sample_service, cg_tracker = reputation_tracker_new (9 / 10), cg_metadata = Map.empty,
      cg_bls = None, cg_dkg = None, cg_config = committee_cert_config_default\<rparr>"

lemma unsigned_certificate_accepted_witness:
  "verify_with_public_key_set id demo_lib sample_generator
     \<lparr>cc_epoch = 4, cc_randomness = [6], cc_members = [[13], [13]], cc_axis_stats = \<lparr>xt_distribution = [], xt_diversity = 0\<rparr>,
      cc_signature = None\<rparr> 0 = Inr True"
proof (rule unsigned_certificate_accepted)
  show "get_canonical_randomness (cg_vrf sample_generator) 4 = Inr [6]"
    by (simp add: sample_generator_def set_test_randomness_def get_canonical_randomness_def put_state_def vrf_state_new_def
        vrf_state_finalize_def finalized_randomness_def)
qed

definition aggregator_members :: "quorum_member list" where
  "aggregator_members =
     [\<lparr>qm_public_key = [1], qm_reputation = 50, qm_vrf_score = [4], qm_axis_id = 0, qm_asn = None, qm_region = None\<rparr>,
      \<lparr>qm_public_key = [2], qm_reputation = 50, qm_vrf_score = [3], qm_axis_id = 1, qm_asn = None, qm_region = None\<rparr>]"

lemma primary_aggregator_minimal_witness:
  "\<exists>p. select_primary_aggregator (\<lambda>S. SOME xs. set xs = S) aggregator_members = Some p \<and> p = [2]"
proof -
  have ord: "set (SOME xs. set xs = S) = S" if "finite S" for S :: "public_key set"
    using someI_ex [OF finite_list [OF that]] .
  have "aggregator_members \<noteq> []" by (simp add: aggregator_members_def)
  from primary_aggregator_minimal [OF this ord] show ?thesis
    by (auto simp: aggregator_members_def)
qed

end
