(* ===== verification/Market_Types.thy ===== *)
theory Market_Types
  imports Core_Types Balance
begin

text \<open>
  The data of the storage market, \<open>crates/adic-storage-market/src/types.rs\<close> and \<open>error.rs\<close>:
  intents, acceptances, deals, activations, storage proofs and the Merkle proofs of chunks. The fields that
  every message of the market has come first, in a record that the others extend. \<open>blake3\<close> is a
  parameter; \<open>now\<close> is the clock in milliseconds. The texts of errors are left out.
\<close>

section \<open>Errors and messages\<close>

datatype market_error =
    MarketInvalidMessage
  | MarketInvalidSignature
  | AdmissibilityViolation
  | FinalityNotReached
  | IntentExpired i64
  | MarketInsufficientFunds adic_amount adic_amount
  | MarketInsufficientReputation f64 f64
  | DiversityViolation
  | ActivationDeadlineExceeded u64 u64
  | ProofVerificationFailed
  | InvalidChallengeResponse
  | DealNotFound
  | InvalidStateTransition
  | InsufficientCollateral adic_amount adic_amount
  | UnsupportedSettlementRail
  | SettlementFailed
  | MarketEconomicsError econ_error
  | MarketReleaseExceedsEscrow  \<comment> \<open>the \<open>EconomicsError\<close> of \<open>release_payment\<close> itself\<close>
  | MarketVRFError
  | MarketQuorumError
  | MarketChallengeError
  | InvalidDispute
  | MarketNotFound
  | MarketOther
  | MarketPanic panic

datatype market_finality = MarketPending | MarketF1Complete u32 u32 f64 | MarketF2Complete bool

definition market_finalized :: "market_finality \<Rightarrow> bool" where
  "market_finalized f \<longleftrightarrow> f \<noteq> MarketPending"

datatype settlement_rail = AdicNative | Filecoin | Arweave | Fiat bytes

record market_message =
  mm_approvals :: "bytes list"
  mm_features :: "u64 list"
  mm_signature :: signature
  mm_deposit :: adic_amount
  mm_timestamp :: i64
  mm_finality :: market_finality
  mm_finalized_at :: "u64 option"

text \<open>\<open>is_finalized\<close> of each message.\<close>

definition is_final :: "'a market_message_scheme \<Rightarrow> bool" where
  "is_final x \<longleftrightarrow> market_finalized (mm_finality x)"

definition set_finality :: "market_finality \<Rightarrow> u64 \<Rightarrow> 'a market_message_scheme \<Rightarrow> 'a market_message_scheme" where
  "set_finality f epoch x = x\<lparr>mm_finality := f, mm_finalized_at := Some epoch\<rparr>"

text \<open>The protocol fields of a new message.\<close>

definition blank_message :: "i64 \<Rightarrow> market_message" where
  "blank_message now =
     \<lparr>mm_approvals = replicate 4 (replicate 32 0), mm_features = [0, 0, 0], mm_signature = [],
      mm_deposit = ADIC_ZERO, mm_timestamp = unix_secs now, mm_finality = MarketPending, mm_finalized_at = None\<rparr>"

section \<open>Intents and acceptances\<close>

record storage_intent = market_message +
  si_id :: bytes
  si_client :: account_address
  si_data_cid :: bytes
  si_data_size :: u64
  si_duration :: u64
  si_max_price :: adic_amount
  si_redundancy :: byte
  si_expires_at :: i64
  si_rails :: "settlement_rail list"
  si_hints :: bytes

definition storage_intent_new :: "(bytes \<Rightarrow> bytes) \<Rightarrow> i64 \<Rightarrow> account_address \<Rightarrow> bytes \<Rightarrow> u64 \<Rightarrow> u64 \<Rightarrow> adic_amount \<Rightarrow> byte \<Rightarrow>
    settlement_rail list \<Rightarrow> storage_intent" where
  "storage_intent_new blake3 now client data_cid data_size duration max_price redundancy rails =
     market_message.extend (blank_message now)
       (storage_intent.fields
         (blake3 (data_cid @ le_bytes data_size @ le_bytes duration @ le_bytes (of_int (unix_secs now))))
         client data_cid data_size duration max_price redundancy (unix_secs now + 86400) rails [])"

definition intent_is_expired :: "i64 \<Rightarrow> storage_intent \<Rightarrow> bool" where
  "intent_is_expired now x \<longleftrightarrow> si_expires_at x < unix_secs now"

record provider_acceptance = market_message +
  pa_id :: bytes
  pa_ref_intent :: bytes
  pa_provider :: account_address
  pa_price :: adic_amount
  pa_collateral :: adic_amount
  pa_reputation :: f64

definition provider_acceptance_new :: "(bytes \<Rightarrow> bytes) \<Rightarrow> i64 \<Rightarrow> bytes \<Rightarrow> account_address \<Rightarrow> adic_amount \<Rightarrow> adic_amount \<Rightarrow> f64 \<Rightarrow>
    provider_acceptance" where
  "provider_acceptance_new blake3 now ref_intent provider price collateral reputation =
     market_message.extend (blank_message now)
       (provider_acceptance.fields (blake3 (ref_intent @ le_bytes (of_int (unix_secs now)))) ref_intent provider price
         collateral reputation)"

section \<open>Deals\<close>

datatype deal_status = DealPublished | PendingActivation | DealActive | DealCompleted | DealFailed | DealTerminated

definition deal_is_terminal :: "deal_status \<Rightarrow> bool" where
  "deal_is_terminal s \<longleftrightarrow> s \<in> {DealCompleted, DealFailed, DealTerminated}"

fun deal_can_transition :: "deal_status \<Rightarrow> deal_status \<Rightarrow> bool" where
  "deal_can_transition DealPublished t \<longleftrightarrow> t \<in> {PendingActivation, DealFailed}"
| "deal_can_transition PendingActivation t \<longleftrightarrow> t \<in> {DealActive, DealFailed, DealTerminated}"
| "deal_can_transition DealActive t \<longleftrightarrow> t \<in> {DealCompleted, DealFailed, DealTerminated}"
| "deal_can_transition _ t \<longleftrightarrow> False"

record storage_deal = market_message +
  sd_id :: u64
  sd_ref_intent :: bytes
  sd_ref_acceptance :: bytes
  sd_client :: account_address
  sd_provider :: account_address
  sd_data_cid :: bytes
  sd_data_size :: u64
  sd_duration :: u64
  sd_price :: adic_amount
  sd_collateral :: adic_amount
  sd_escrow :: adic_amount
  sd_merkle_root :: "bytes option"
  sd_start_epoch :: "u64 option"
  sd_deadline :: u64
  sd_status :: deal_status

definition deal_from :: "i64 \<Rightarrow> storage_intent \<Rightarrow> provider_acceptance \<Rightarrow> u64 \<Rightarrow> u64 \<Rightarrow> u64 \<Rightarrow> storage_deal" where
  "deal_from now x a deal_id current_epoch grace =
     market_message.extend (blank_message now)
       (storage_deal.fields deal_id (si_id x) (pa_id a) (si_client x) (pa_provider a) (si_data_cid x) (si_data_size x)
         (si_duration x) (pa_price a) (pa_collateral a) (AdicAmount (base_units (pa_price a) * si_duration x)) None None
         (current_epoch + grace) DealPublished)"

definition activation_deadline_exceeded :: "storage_deal \<Rightarrow> u64 \<Rightarrow> bool" where
  "activation_deadline_exceeded d current_epoch \<longleftrightarrow> sd_deadline d < current_epoch \<and> sd_start_epoch d = None"

definition deal_is_active :: "storage_deal \<Rightarrow> bool" where
  "deal_is_active d \<longleftrightarrow> sd_status d = DealActive"

definition deal_transition :: "deal_status \<Rightarrow> storage_deal \<Rightarrow> market_error + storage_deal" where
  "deal_transition s d =
     (if deal_can_transition (sd_status d) s then Inr (d\<lparr>sd_status := s\<rparr>) else Inl InvalidStateTransition)"

record deal_activation = market_message +
  ac_ref_deal :: u64
  ac_provider :: account_address
  ac_merkle_root :: bytes
  ac_chunk_count :: u64
  ac_epoch :: u64

section \<open>Storage proofs\<close>

record merkle_proof =
  mp_index :: u64
  mp_data :: bytes
  mp_siblings :: "bytes list"

record storage_proof = market_message +
  sp_deal_id :: u64
  sp_provider :: account_address
  sp_epoch :: u64
  sp_challenges :: "u64 list"
  sp_proofs :: "merkle_proof list"

fun merkle_path :: "(bytes \<Rightarrow> bytes) \<Rightarrow> bytes \<Rightarrow> u64 \<Rightarrow> bytes list \<Rightarrow> bytes" where
  "merkle_path blake3 current index [] = current"
| "merkle_path blake3 current index (s # ss) =
     merkle_path blake3 (blake3 (if index mod 2 = 0 then current @ s else s @ current)) (index div 2) ss"

definition merkle_verify :: "(bytes \<Rightarrow> bytes) \<Rightarrow> merkle_proof \<Rightarrow> bytes \<Rightarrow> bool" where
  "merkle_verify blake3 p node \<longleftrightarrow> merkle_path blake3 (blake3 (mp_data p)) (mp_index p) (mp_siblings p) = node"

text \<open>Addition and subtraction of \<open>i64\<close> wrap.\<close>

definition i64_sub :: "i64 \<Rightarrow> i64 \<Rightarrow> i64" where
  "i64_sub a b = signed_take_bit 63 (a - b)"

end
