(* ===== verification/Market_Intents.thy ===== *)
theory Market_Intents
  imports Market_Types Reputation
begin

text \<open>
  The intent layer of the storage market, \<open>IntentManager\<close> (\<open>crates/adic-storage-market/src/intent.rs\<close>):
  clients publish intents and providers accept them, both against a deposit that is credited back on
  finality. The balance manager is a field of its state. Reputation is looked up under the bytes of the
  address.
\<close>

record intent_config =
  ic_min_deposit :: adic_amount
  ic_min_reputation :: f64
  ic_max_duration :: i64
  ic_max_intents :: nat

definition intent_config_default :: intent_config where
  "intent_config_default =
     \<lparr>ic_min_deposit = amt_from_adic (1 / 10), ic_min_reputation = 10, ic_max_duration = 86400, ic_max_intents = 10\<rparr>"

record 's intent_manager =
  im_config :: intent_config
  im_balance :: "'s balance_manager"
  im_tracker :: reputation_tracker
  im_intents :: "bytes \<rightharpoonup> storage_intent"
  im_acceptances :: "bytes \<rightharpoonup> provider_acceptance"
  im_intent_acceptances :: "bytes \<rightharpoonup> bytes list"
  im_client_intents :: "account_address \<rightharpoonup> bytes list"

type_synonym ('s, 'a) intent_op = "(market_error, 's intent_manager, 'a) rop"

definition intent_manager_new :: "intent_config \<Rightarrow> 's balance_manager \<Rightarrow> reputation_tracker \<Rightarrow> 's intent_manager" where
  "intent_manager_new config balance tracker =
     \<lparr>im_config = config, im_balance = balance, im_tracker = tracker, im_intents = Map.empty, im_acceptances = Map.empty,
      im_intent_acceptances = Map.empty, im_client_intents = Map.empty\<rparr>"

definition on_intent_balance :: "('s, 'a) bal_op \<Rightarrow> ('s, 'a) intent_op" where
  "on_intent_balance = lift_op im_balance (\<lambda>b m. m\<lparr>im_balance := b\<rparr>) MarketEconomicsError"

text \<open>\<open>entry(k).or_insert_with(Vec::new)\<close>\<close>

definition entries :: "('k \<rightharpoonup> 'v list) \<Rightarrow> 'k \<Rightarrow> 'v list" where
  "entries m k = (case m k of None \<Rightarrow> [] | Some vs \<Rightarrow> vs)"

definition push_entry :: "'k \<Rightarrow> 'v \<Rightarrow> ('k \<rightharpoonup> 'v list) \<Rightarrow> 'k \<rightharpoonup> 'v list" where
  "push_entry k v m = m(k \<mapsto> entries m k @ [v])"

definition put_intent :: "storage_intent \<Rightarrow> 's intent_manager \<Rightarrow> 's intent_manager" where
  "put_intent x m =
     m\<lparr>im_intents := (im_intents m)(si_id x \<mapsto> x),
       im_client_intents := push_entry (si_client x) (si_id x) (im_client_intents m)\<rparr>"

definition publish_intent :: "'s econ_ops \<Rightarrow> i64 \<Rightarrow> storage_intent \<Rightarrow> ('s, bytes) intent_op" where
  "publish_intent E now x m =
     (let c = im_config m;
          client_rep = get_reputation (im_tracker m) (address_bytes (si_client x))
      in if client_rep < ic_min_reputation c then errR (MarketInsufficientReputation (ic_min_reputation c) client_rep) m
         else if mm_deposit x < ic_min_deposit c then errR (MarketInsufficientFunds (ic_min_deposit c) (mm_deposit x)) m
         else if ic_max_intents c \<le> length (entries (im_client_intents m) (si_client x)) \<and>
             im_client_intents m (si_client x) \<noteq> None then errR MarketOther m
         else if ic_max_duration c < i64_sub (si_expires_at x) (mm_timestamp x) then errR MarketOther m
         else tryR (on_intent_balance (debit E now (si_client x) (mm_deposit x))) (\<lambda>_.
              tryR (modR (put_intent x)) (\<lambda>_.
              okR (si_id x))) m)"

definition update_intent_finality :: "'s econ_ops \<Rightarrow> i64 \<Rightarrow> bytes \<Rightarrow> market_finality \<Rightarrow> u64 \<Rightarrow> ('s, unit) intent_op" where
  "update_intent_finality E now i f finalized_at m =
     (case im_intents m i of
        None \<Rightarrow> errR MarketOther m
      | Some x \<Rightarrow>
          (let m' = m\<lparr>im_intents := (im_intents m)(i \<mapsto> set_finality f finalized_at x)\<rparr>
           in if market_finalized f then on_intent_balance (credit E now (si_client x) (mm_deposit x)) m'
              else okR () m'))"

definition put_acceptance :: "provider_acceptance \<Rightarrow> 's intent_manager \<Rightarrow> 's intent_manager" where
  "put_acceptance a m =
     m\<lparr>im_acceptances := (im_acceptances m)(pa_id a \<mapsto> a),
       im_intent_acceptances := push_entry (pa_ref_intent a) (pa_id a) (im_intent_acceptances m)\<rparr>"

definition submit_acceptance :: "'s econ_ops \<Rightarrow> i64 \<Rightarrow> provider_acceptance \<Rightarrow> ('s, bytes) intent_op" where
  "submit_acceptance E now a m =
     (let c = im_config m in
      case im_intents m (pa_ref_intent a) of
        None \<Rightarrow> errR MarketOther m
      | Some x \<Rightarrow>
          (if \<not> is_final x then errR FinalityNotReached m
           else if intent_is_expired now x then errR (IntentExpired (si_expires_at x)) m
           else
             (let provider_rep = get_reputation (im_tracker m) (address_bytes (pa_provider a))
              in if provider_rep < ic_min_reputation c
                 then errR (MarketInsufficientReputation (ic_min_reputation c) provider_rep) m
                 else if mm_deposit a < ic_min_deposit c
                 then errR (MarketInsufficientFunds (ic_min_deposit c) (mm_deposit a)) m
                 else tryR (on_intent_balance (debit E now (pa_provider a) (mm_deposit a))) (\<lambda>_.
                      tryR (modR (put_acceptance (a\<lparr>pa_reputation := provider_rep\<rparr>))) (\<lambda>_.
                      okR (pa_id a))) m)))"

definition update_acceptance_finality :: "'s econ_ops \<Rightarrow> i64 \<Rightarrow> bytes \<Rightarrow> market_finality \<Rightarrow> u64 \<Rightarrow> ('s, unit) intent_op" where
  "update_acceptance_finality E now i f finalized_at m =
     (case im_acceptances m i of
        None \<Rightarrow> errR MarketOther m
      | Some a \<Rightarrow>
          (let m' = m\<lparr>im_acceptances := (im_acceptances m)(i \<mapsto> set_finality f finalized_at a)\<rparr>
           in if market_finalized f then on_intent_balance (credit E now (pa_provider a) (mm_deposit a)) m'
              else okR () m'))"

definition get_acceptances_for_intent :: "'s intent_manager \<Rightarrow> bytes \<Rightarrow> market_error + provider_acceptance list" where
  "get_acceptances_for_intent m i =
     (case im_intent_acceptances m i of
        None \<Rightarrow> Inl MarketOther
      | Some ids \<Rightarrow> Inr (filter is_final (List.map_filter (im_acceptances m) ids)))"

definition get_intent :: "'s intent_manager \<Rightarrow> bytes \<Rightarrow> storage_intent option" where
  "get_intent m i = im_intents m i"

definition get_acceptance :: "'s intent_manager \<Rightarrow> bytes \<Rightarrow> provider_acceptance option" where
  "get_acceptance m i = im_acceptances m i"

definition get_finalized_intents :: "i64 \<Rightarrow> 's intent_manager \<Rightarrow> storage_intent set" where
  "get_finalized_intents now m = {x \<in> ran (im_intents m). is_final x \<and> \<not> intent_is_expired now x}"

definition forget_intent :: "bytes \<Rightarrow> 's intent_manager \<Rightarrow> 's intent_manager" where
  "forget_intent i m =
     (case im_intents m i of
        None \<Rightarrow> m
      | Some x \<Rightarrow>
          m\<lparr>im_intents := (im_intents m)(i := None),
            im_client_intents :=
              (case im_client_intents m (si_client x) of
                 None \<Rightarrow> im_client_intents m
               | Some ids \<Rightarrow> (im_client_intents m)(si_client x \<mapsto> filter (\<lambda>j. j \<noteq> i) ids)),
            im_intent_acceptances := (im_intent_acceptances m)(i := None)\<rparr>)"

definition cleanup_expired_intents :: "(bytes set \<Rightarrow> bytes list) \<Rightarrow> i64 \<Rightarrow> ('s, nat) intent_op" where
  "cleanup_expired_intents ord now m =
     (let expired = ord {i. \<exists>x. im_intents m i = Some x \<and> intent_is_expired now x}
      in okR (length expired) (foldl (\<lambda>m i. forget_intent i m) m expired))"

record intent_stats =
  is_total_intents :: u64
  is_finalized_intents :: u64
  is_pending_intents :: u64
  is_expired_intents :: u64
  is_total_acceptances :: u64
  is_finalized_acceptances :: u64

definition intent_get_stats :: "(bytes set \<Rightarrow> bytes list) \<Rightarrow> i64 \<Rightarrow> 's intent_manager \<Rightarrow> intent_stats" where
  "intent_get_stats ord now m =
     (let intents = List.map_filter (im_intents m) (ord (dom (im_intents m)));
          acceptances = List.map_filter (im_acceptances m) (ord (dom (im_acceptances m)));
          counted = (\<lambda>P. of_nat (length (filter P intents)))
      in \<lparr>is_total_intents = of_nat (length intents),
          is_finalized_intents = counted (\<lambda>x. \<not> intent_is_expired now x \<and> is_final x),
          is_pending_intents = counted (\<lambda>x. \<not> intent_is_expired now x \<and> \<not> is_final x),
          is_expired_intents = counted (intent_is_expired now),
          is_total_acceptances = of_nat (length acceptances),
          is_finalized_acceptances = of_nat (length (filter is_final acceptances))\<rparr>)"

definition get_provider_acceptance_count :: "'s intent_manager \<Rightarrow> account_address \<Rightarrow> nat" where
  "get_provider_acceptance_count m provider =
     card {i. \<exists>a. im_acceptances m i = Some a \<and> pa_provider a = provider}"

definition get_client_intent_count :: "'s intent_manager \<Rightarrow> account_address \<Rightarrow> nat" where
  "get_client_intent_count m client = length (entries (im_client_intents m) client)"

section \<open>Balances and pending deposits\<close>

lemma sp_debit_cases:
  "sp_debit a v L =
     (if units (l_balance L a) < units v then (Inl InsufficientBalance, L)
      else (Inr (), L\<lparr>l_balance := (l_balance L)(a := AdicAmount (base_units (l_balance L a) - base_units v))\<rparr>))"
proof (cases "v = ADIC_ZERO")
  case True
  then show ?thesis by (simp add: sp_debit_def ADIC_ZERO_def)
next
  case False
  then show ?thesis
    by (auto simp: sp_debit_def amt_checked_sub_def checked_sub_def word_less_nat_alt word_le_nat_alt)
qed

lemma credit_within_supply:
  assumes "units (l_balance L a) + units v \<le> units MAX_SUPPLY"
  shows "\<exists>w. sp_credit a v L = (Inr (), L\<lparr>l_balance := (l_balance L)(a := w)\<rparr>) \<and> units w = units (l_balance L a) + units v"
proof (cases "v = ADIC_ZERO")
  case True
  then show ?thesis by (intro exI [of _ "l_balance L a"]) (simp add: sp_credit_def)
next
  case False
  have "units (l_balance L a) + units v < 2 ^ 64" using assms by (simp add: units_MAX_SUPPLY)
  then obtain w where w: "amt_checked_add (l_balance L a) v = Some w"
    by (metis amt_checked_add_None_iff not_le option.exhaust)
  then have "units w = units (l_balance L a) + units v" by (simp add: amt_checked_add_Some_iff)
  with w False assms show ?thesis by (intro exI [of _ w]) (simp add: sp_credit_def amount_less_iff)
qed

definition balance_of :: "('s \<Rightarrow> ledger) \<Rightarrow> 's balance_manager \<Rightarrow> account_address \<Rightarrow> nat" where
  "balance_of view b a = units (l_balance (ledger_of view b) a)"

context economics_storage
begin

text \<open>A debit succeeds exactly when the balance suffices; a credit succeeds below the maximum supply.\<close>

lemma debit_run:
  assumes "coherent view b"
  obtains (refused) b' where "balance_of view b a < units v" and "debit E now a v b = (Inl InsufficientBalance, b')"
      and "coherent view b'" and "balance_of view b' = balance_of view b"
    | (paid) b' where "units v \<le> balance_of view b a" and "debit E now a v b = (Inr (), b')"
      and "coherent view b'" and "balance_of view b' = (balance_of view b)(a := balance_of view b a - units v)"
proof -
  obtain r b' where run: "debit E now a v b = (r, b')" by (cases "debit E now a v b")
  have *: "coherent view b'" "sp_debit a v (ledger_of view b) = (r, ledger_of view b')"
    using implementsD [OF debit_implements assms run] by auto
  show ?thesis
  proof (cases "balance_of view b a < units v")
    case True
    with * run show ?thesis by (intro refused [of b']) (auto simp: sp_debit_cases balance_of_def)
  next
    case False
    have "ledger_of view b' = (ledger_of view b)\<lparr>l_balance := (l_balance (ledger_of view b))
        (a := AdicAmount (base_units (l_balance (ledger_of view b) a) - base_units v))\<rparr>"
      using * False by (simp add: sp_debit_cases balance_of_def)
    then have "balance_of view b' = (balance_of view b)(a := balance_of view b a - units v)"
      using False by (simp add: balance_of_def fun_eq_iff unat_sub_if')
    moreover have "r = Inr ()" using * False by (simp add: sp_debit_cases balance_of_def)
    ultimately show ?thesis using False * run by (intro paid [of b']) auto
  qed
qed

lemma credit_run:
  assumes "coherent view b" and "balance_of view b a + units v \<le> units MAX_SUPPLY"
  obtains b' where "credit E now a v b = (Inr (), b')" and "coherent view b'"
    and "balance_of view b' = (balance_of view b)(a := balance_of view b a + units v)"
proof -
  obtain r b' where run: "credit E now a v b = (r, b')" by (cases "credit E now a v b")
  have *: "coherent view b'" "sp_credit a v (ledger_of view b) = (r, ledger_of view b')"
    using implementsD [OF credit_implements assms(1) run] by auto
  from credit_within_supply [of "ledger_of view b" a v] assms(2)
  show ?thesis using * run by (intro that) (auto simp: balance_of_def fun_eq_iff)
qed

end

text \<open>The sum of a weight over the entries of a finite map.\<close>

definition weight :: "('v \<Rightarrow> nat) \<Rightarrow> ('k \<rightharpoonup> 'v) \<Rightarrow> nat" where
  "weight w m = (\<Sum>k\<in>dom m. w (the (m k)))"

lemma weight_empty [simp]: "weight w Map.empty = 0"
  by (simp add: weight_def)

lemma weight_remove:
  assumes "finite (dom m)"
  shows "weight w (m(k := None)) + (case m k of None \<Rightarrow> 0 | Some v \<Rightarrow> w v) = weight w m"
proof (cases "m k")
  case None
  then have "m(k := None) = m" by auto
  with None show ?thesis by simp
next
  case (Some v)
  have "(\<Sum>j\<in>dom m - {k}. w (the ((m(k := None)) j))) = (\<Sum>j\<in>dom m - {k}. w (the (m j)))"
    by (rule sum.cong) auto
  then show ?thesis
    using sum.remove [OF assms, of k "\<lambda>j. w (the (m j))"] Some by (simp add: weight_def domI)
qed

lemma weight_update:
  assumes "finite (dom m)"
  shows "weight w (m(k \<mapsto> v)) + (case m k of None \<Rightarrow> 0 | Some u \<Rightarrow> w u) = weight w m + w v"
proof -
  have "(\<Sum>j\<in>dom m - {k}. w (the ((m(k \<mapsto> v)) j))) = (\<Sum>j\<in>dom m - {k}. w (the ((m(k := None)) j)))"
    by (rule sum.cong) auto
  then have "weight w (m(k \<mapsto> v)) = weight w (m(k := None)) + w v"
    using assms by (simp add: weight_def sum.insert_remove)
  then show ?thesis using weight_remove [OF assms, of w k] by simp
qed

text \<open>What an account has: its balance and its deposits for messages that are not final.\<close>

definition intent_hold :: "account_address \<Rightarrow> storage_intent \<Rightarrow> nat" where
  "intent_hold a x = (if si_client x = a \<and> \<not> is_final x then units (mm_deposit x) else 0)"

definition acceptance_hold :: "account_address \<Rightarrow> provider_acceptance \<Rightarrow> nat" where
  "acceptance_hold a x = (if pa_provider x = a \<and> \<not> is_final x then units (mm_deposit x) else 0)"

definition intent_funds :: "('s \<Rightarrow> ledger) \<Rightarrow> 's intent_manager \<Rightarrow> account_address \<Rightarrow> nat" where
  "intent_funds view m a =
     balance_of view (im_balance m) a + weight (intent_hold a) (im_intents m) +
     weight (acceptance_hold a) (im_acceptances m)"

definition intents_ok :: "('s \<Rightarrow> ledger) \<Rightarrow> 's intent_manager \<Rightarrow> bool" where
  "intents_ok view m \<longleftrightarrow>
     coherent view (im_balance m) \<and> finite (dom (im_intents m)) \<and> finite (dom (im_acceptances m))"

section \<open>Runs\<close>

datatype intent_cmd =
    Publish i64 storage_intent
  | IntentFinality i64 bytes market_finality u64
  | Accept i64 provider_acceptance
  | AcceptanceFinality i64 bytes market_finality u64
  | Cleanup "bytes list" i64

fun intent_exec :: "'s econ_ops \<Rightarrow> intent_cmd \<Rightarrow> 's intent_manager \<Rightarrow> 's intent_manager" where
  "intent_exec E (Publish now x) m = snd (publish_intent E now x m)"
| "intent_exec E (IntentFinality now i f epoch) m = snd (update_intent_finality E now i f epoch m)"
| "intent_exec E (Accept now a) m = snd (submit_acceptance E now a m)"
| "intent_exec E (AcceptanceFinality now i f epoch) m = snd (update_acceptance_finality E now i f epoch m)"
| "intent_exec E (Cleanup order now) m = snd (cleanup_expired_intents (\<lambda>_. order) now m)"

text \<open>What the caller has to see to: new messages are not final and have new identifiers, finality is
  reported once, and no intent expires before it is final.\<close>

fun orderly :: "'s intent_manager \<Rightarrow> intent_cmd \<Rightarrow> bool" where
  "orderly m (Publish now x) \<longleftrightarrow> im_intents m (si_id x) = None \<and> \<not> is_final x"
| "orderly m (IntentFinality now i f epoch) \<longleftrightarrow> (\<forall>x. im_intents m i = Some x \<longrightarrow> \<not> is_final x)"
| "orderly m (Accept now a) \<longleftrightarrow> im_acceptances m (pa_id a) = None \<and> \<not> is_final a"
| "orderly m (AcceptanceFinality now i f epoch) \<longleftrightarrow> (\<forall>x. im_acceptances m i = Some x \<longrightarrow> \<not> is_final x)"
| "orderly m (Cleanup order now) \<longleftrightarrow>
     set order = {i. \<exists>x. im_intents m i = Some x \<and> intent_is_expired now x} \<and> distinct order \<and>
     (\<forall>i \<in> set order. \<forall>x. im_intents m i = Some x \<longrightarrow> is_final x)"

inductive intent_reach :: "'s econ_ops \<Rightarrow> 's intent_manager \<Rightarrow> 's intent_manager \<Rightarrow> bool" for E m0 where
  init: "intent_reach E m0 m0"
| step: "intent_reach E m0 m \<Longrightarrow> orderly m c \<Longrightarrow> intent_reach E m0 (intent_exec E c m)"

lemma is_final_set [simp]: "is_final (set_finality f epoch x) = market_finalized f"
  by (simp add: is_final_def set_finality_def)

lemma set_finality_deposit [simp]: "mm_deposit (set_finality f epoch x) = mm_deposit x"
  by (simp add: set_finality_def)

lemma set_finality_simps [simp]:
  "si_client (set_finality f epoch x) = si_client x" "pa_provider (set_finality f epoch a) = pa_provider a"
  by (simp_all add: set_finality_def)

context economics_storage
begin

text \<open>A deposit that is taken for a new entry.\<close>

lemma publish_funds:
  assumes ok: "intents_ok view m" and new: "im_intents m (si_id x) = None" "\<not> is_final x"
  shows "intents_ok view (snd (publish_intent E now x m)) \<and> intent_funds view (snd (publish_intent E now x m)) = intent_funds view m"
proof -
  have coh: "coherent view (im_balance m)" and fin: "finite (dom (im_intents m))"
    using ok by (simp_all add: intents_ok_def)
  show ?thesis
  proof (cases rule: debit_run [OF coh, where a="si_client x" and v="mm_deposit x" and now=now])
    case refused: (1 b)
    then have "snd (publish_intent E now x m) = m \<or> snd (publish_intent E now x m) = m\<lparr>im_balance := b\<rparr>"
      by (simp add: publish_intent_def Let_def on_intent_balance_def lift_op_def tryR_def)
    then show ?thesis using ok refused by (auto simp: intents_ok_def intent_funds_def)
  next
    case paid: (2 b)
    let ?m = "put_intent x (m\<lparr>im_balance := b\<rparr>)"
    have "snd (publish_intent E now x m) = m \<or> snd (publish_intent E now x m) = ?m"
      using paid by (simp add: publish_intent_def Let_def on_intent_balance_def lift_op_def tryR_def)
    moreover have "intents_ok view ?m" using ok paid by (simp add: intents_ok_def put_intent_def)
    moreover have "intent_funds view ?m a = intent_funds view m a" for a
      using weight_update [OF fin, of "intent_hold a" "si_id x" x] paid new
      by (auto simp: intent_funds_def put_intent_def intent_hold_def)
    ultimately show ?thesis using ok by auto
  qed
qed

lemma accept_funds:
  assumes ok: "intents_ok view m" and new: "im_acceptances m (pa_id x) = None" "\<not> is_final x"
  shows "intents_ok view (snd (submit_acceptance E now x m)) \<and>
    intent_funds view (snd (submit_acceptance E now x m)) = intent_funds view m"
proof -
  let ?x = "x\<lparr>pa_reputation := get_reputation (im_tracker m) (address_bytes (pa_provider x))\<rparr>"
  have coh: "coherent view (im_balance m)" and fin: "finite (dom (im_acceptances m))"
    using ok by (simp_all add: intents_ok_def)
  show ?thesis
  proof (cases rule: debit_run [OF coh, where a="pa_provider x" and v="mm_deposit x" and now=now])
    case refused: (1 b)
    then have "snd (submit_acceptance E now x m) = m \<or> snd (submit_acceptance E now x m) = m\<lparr>im_balance := b\<rparr>"
      by (simp add: submit_acceptance_def Let_def on_intent_balance_def lift_op_def tryR_def split: option.split)
    then show ?thesis using ok refused by (auto simp: intents_ok_def intent_funds_def)
  next
    case paid: (2 b)
    let ?m = "put_acceptance ?x (m\<lparr>im_balance := b\<rparr>)"
    have "snd (submit_acceptance E now x m) = m \<or> snd (submit_acceptance E now x m) = ?m"
      using paid by (simp add: submit_acceptance_def Let_def on_intent_balance_def lift_op_def tryR_def split: option.split)
    moreover have "intents_ok view ?m" using ok paid by (simp add: intents_ok_def put_acceptance_def)
    moreover have "intent_funds view ?m a = intent_funds view m a" for a
      using weight_update [OF fin, of "acceptance_hold a" "pa_id x" ?x] paid new
      by (auto simp: intent_funds_def put_acceptance_def acceptance_hold_def is_final_def)
    ultimately show ?thesis using ok by auto
  qed
qed

text \<open>A deposit that is credited back: \<open>n\<close> is what the entry held before.\<close>

lemma refund_ok:
  assumes "coherent view b" and "balance_of view b a + units v + n \<le> units MAX_SUPPLY"
  shows "\<exists>b'. credit E now a v b = (Inr (), b') \<and> coherent view b' \<and>
    balance_of view b' = (balance_of view b)(a := balance_of view b a + units v)"
  using credit_run [OF assms(1), of a v now] assms(2) by (metis add_leD1)

lemma intent_finality_funds:
  assumes ok: "intents_ok view m" and pending: "\<And>x. im_intents m i = Some x \<Longrightarrow> \<not> is_final x"
    and bound: "\<And>a. intent_funds view m a \<le> units MAX_SUPPLY"
  shows "intents_ok view (snd (update_intent_finality E now i f epoch m)) \<and>
    intent_funds view (snd (update_intent_finality E now i f epoch m)) = intent_funds view m"
proof (cases "im_intents m i")
  case None
  then show ?thesis using ok by (simp add: update_intent_finality_def)
next
  case (Some x)
  let ?x = "set_finality f epoch x" and ?m = "m\<lparr>im_intents := (im_intents m)(i \<mapsto> set_finality f epoch x)\<rparr>"
  have fin: "finite (dom (im_intents m))" and coh: "coherent view (im_balance m)" using ok by (simp_all add: intents_ok_def)
  have w: "weight (intent_hold a) (im_intents ?m) + intent_hold a x = weight (intent_hold a) (im_intents m) + intent_hold a ?x" for a
    using weight_update [OF fin, of "intent_hold a" i ?x] Some by simp
  note hold = pending [OF Some] intent_hold_def intent_funds_def
  show ?thesis
  proof (cases "market_finalized f")
    case False
    then have "intent_hold a ?x = intent_hold a x" for a by (simp add: hold)
    with w have "weight (intent_hold a) (im_intents ?m) = weight (intent_hold a) (im_intents m)" for a by (metis add_right_cancel)
    then show ?thesis using False Some ok by (auto simp: update_intent_finality_def Let_def intents_ok_def intent_funds_def fun_eq_iff)
  next
    case True
    obtain b where b: "credit E now (si_client x) (mm_deposit x) (im_balance m) = (Inr (), b)" "coherent view b"
      "balance_of view b = (balance_of view (im_balance m))(si_client x := balance_of view (im_balance m) (si_client x) + units (mm_deposit x))"
      using refund_ok [OF coh, of "si_client x" "mm_deposit x" 0 now] bound [of "si_client x"] w [of "si_client x"] True
      by (auto simp: hold)
    have "snd (update_intent_finality E now i f epoch m) = ?m\<lparr>im_balance := b\<rparr>"
      using Some True b(1) by (simp add: update_intent_finality_def Let_def on_intent_balance_def lift_op_def)
    moreover have "intent_funds view (?m\<lparr>im_balance := b\<rparr>) a = intent_funds view m a" for a
      using w [of a] True by (auto simp: b(3) hold)
    ultimately show ?thesis using ok b(2) by (auto simp: intents_ok_def)
  qed
qed

lemma acceptance_finality_funds:
  assumes ok: "intents_ok view m" and pending: "\<And>x. im_acceptances m i = Some x \<Longrightarrow> \<not> is_final x"
    and bound: "\<And>a. intent_funds view m a \<le> units MAX_SUPPLY"
  shows "intents_ok view (snd (update_acceptance_finality E now i f epoch m)) \<and>
    intent_funds view (snd (update_acceptance_finality E now i f epoch m)) = intent_funds view m"
proof (cases "im_acceptances m i")
  case None
  then show ?thesis using ok by (simp add: update_acceptance_finality_def)
next
  case (Some x)
  let ?x = "set_finality f epoch x" and ?m = "m\<lparr>im_acceptances := (im_acceptances m)(i \<mapsto> set_finality f epoch x)\<rparr>"
  have fin: "finite (dom (im_acceptances m))" and coh: "coherent view (im_balance m)" using ok by (simp_all add: intents_ok_def)
  have w: "weight (acceptance_hold a) (im_acceptances ?m) + acceptance_hold a x =
      weight (acceptance_hold a) (im_acceptances m) + acceptance_hold a ?x" for a
    using weight_update [OF fin, of "acceptance_hold a" i ?x] Some by simp
  note hold = pending [OF Some] acceptance_hold_def intent_funds_def
  show ?thesis
  proof (cases "market_finalized f")
    case False
    then have "acceptance_hold a ?x = acceptance_hold a x" for a by (simp add: hold)
    with w have "weight (acceptance_hold a) (im_acceptances ?m) = weight (acceptance_hold a) (im_acceptances m)" for a by (metis add_right_cancel)
    then show ?thesis using False Some ok by (auto simp: update_acceptance_finality_def Let_def intents_ok_def intent_funds_def fun_eq_iff)
  next
    case True
    obtain b where b: "credit E now (pa_provider x) (mm_deposit x) (im_balance m) = (Inr (), b)" "coherent view b"
      "balance_of view b = (balance_of view (im_balance m))(pa_provider x := balance_of view (im_balance m) (pa_provider x) + units (mm_deposit x))"
      using refund_ok [OF coh, of "pa_provider x" "mm_deposit x" 0 now] bound [of "pa_provider x"] w [of "pa_provider x"] True
      by (auto simp: hold)
    have "snd (update_acceptance_finality E now i f epoch m) = ?m\<lparr>im_balance := b\<rparr>"
      using Some True b(1) by (simp add: update_acceptance_finality_def Let_def on_intent_balance_def lift_op_def)
    moreover have "intent_funds view (?m\<lparr>im_balance := b\<rparr>) a = intent_funds view m a" for a
      using w [of a] True by (auto simp: b(3) hold)
    ultimately show ?thesis using ok b(2) by (auto simp: intents_ok_def)
  qed
qed

lemma forget_funds:
  assumes ok: "intents_ok view m" and final: "\<And>x. im_intents m i = Some x \<Longrightarrow> is_final x"
  shows "intents_ok view (forget_intent i m) \<and> intent_funds view (forget_intent i m) = intent_funds view m"
proof (cases "im_intents m i")
  case None
  then show ?thesis using ok by (simp add: forget_intent_def)
next
  case (Some x)
  have fin: "finite (dom (im_intents m))" using ok by (simp add: intents_ok_def)
  have "weight (intent_hold a) ((im_intents m)(i := None)) = weight (intent_hold a) (im_intents m)" for a
    using weight_remove [OF fin, of "intent_hold a" i] Some final [OF Some] by (simp add: intent_hold_def)
  then show ?thesis using Some ok by (auto simp: forget_intent_def intents_ok_def intent_funds_def)
qed

lemma forget_other [simp]: "j \<noteq> i \<Longrightarrow> im_intents (forget_intent i m) j = im_intents m j"
  by (simp add: forget_intent_def split: option.split)

lemma forget_all_funds:
  assumes "intents_ok view m" and "\<And>i x. i \<in> set is \<Longrightarrow> im_intents m i = Some x \<Longrightarrow> is_final x" and "distinct is"
  shows "intents_ok view (foldl (\<lambda>m i. forget_intent i m) m is) \<and>
    intent_funds view (foldl (\<lambda>m i. forget_intent i m) m is) = intent_funds view m"
  using assms
proof (induction "is" arbitrary: m)
  case (Cons i "is")
  have 1: "intents_ok view (forget_intent i m) \<and> intent_funds view (forget_intent i m) = intent_funds view m"
    by (rule forget_funds) (use Cons.prems in auto)
  have "im_intents (forget_intent i m) j = Some x \<Longrightarrow> is_final x" if "j \<in> set is" for j x
  proof -
    assume "im_intents (forget_intent i m) j = Some x"
    moreover have "j \<noteq> i" using that Cons.prems(3) by auto
    ultimately show "is_final x" using Cons.prems(2) [of j x] that by simp
  qed
  then show ?case using Cons.IH [of "forget_intent i m"] 1 Cons.prems(3) by simp
qed simp

lemma orderly_funds:
  assumes "intents_ok view m" and "\<And>a. intent_funds view m a \<le> units MAX_SUPPLY" and "orderly m c"
  shows "intents_ok view (intent_exec E c m) \<and> intent_funds view (intent_exec E c m) = intent_funds view m"
proof (cases c)
  case (Publish now x)
  then show ?thesis using publish_funds assms by simp
next
  case (IntentFinality now i f epoch)
  then show ?thesis using intent_finality_funds assms by simp
next
  case (Accept now a)
  then show ?thesis using accept_funds assms by simp
next
  case (AcceptanceFinality now i f epoch)
  then show ?thesis using acceptance_finality_funds assms by simp
next
  case (Cleanup order now)
  then show ?thesis
    using forget_all_funds [OF assms(1), of order] assms(3)
    by (simp add: cleanup_expired_intents_def Let_def del: mem_Collect_eq)
qed

lemma run_funds:
  assumes "intent_reach E m0 m" and "intents_ok view m0" and "\<And>a. intent_funds view m0 a \<le> units MAX_SUPPLY"
  shows "intents_ok view m \<and> intent_funds view m = intent_funds view m0"
  using assms(1)
proof induction
  case init
  then show ?case using assms(2) by simp
next
  case (step m c)
  then show ?case using orderly_funds [of m c] assms(3) by simp
qed

end

section \<open>Properties\<close>

text \<open>As long as every message is published once, its finality is reported once and no intent expires
  before it is final, no account wins or loses anything by intents and acceptances: at every moment its
  balance and its deposits for messages that are not final add up to the balance it started with.\<close>

theorem deposits_conserved:
  assumes "intent_reach (memory_ops keys) (intent_manager_new config b tracker) m" and "coherent mem_view b"
    and "\<And>a. balance_of mem_view b a \<le> units MAX_SUPPLY"
  shows "balance_of mem_view (im_balance m) a + weight (intent_hold a) (im_intents m) +
    weight (acceptance_hold a) (im_acceptances m) = balance_of mem_view b a"
proof -
  let ?m = "intent_manager_new config b tracker"
  have funds: "intent_funds mem_view ?m = balance_of mem_view b"
    by (simp add: intent_funds_def intent_manager_new_def fun_eq_iff)
  have "intents_ok mem_view ?m" using assms(2) by (simp add: intents_ok_def intent_manager_new_def)
  then have "intent_funds mem_view m = balance_of mem_view b"
    using mem.run_funds [OF assms(1)] assms(3) by (simp add: funds)
  then show ?thesis by (simp add: intent_funds_def fun_eq_iff)
qed

text \<open>Every report of finality credits the deposit, the second and any later one too: nothing marks
  that the deposit of an intent was paid back, and no debit is set against the credit.\<close>

theorem finality_pays_again:
  assumes "im_intents m i = Some x" and "market_finalized f" and "coherent mem_view (im_balance m)"
    and "balance_of mem_view (im_balance m) (si_client x) + units (mm_deposit x) \<le> units MAX_SUPPLY"
  shows "\<exists>m'. update_intent_finality (memory_ops keys) now i f epoch m = (Inr (), m') \<and>
    im_intents m' i = Some (set_finality f epoch x) \<and> coherent mem_view (im_balance m') \<and>
    balance_of mem_view (im_balance m') (si_client x) =
      balance_of mem_view (im_balance m) (si_client x) + units (mm_deposit x)"
proof -
  obtain b' where "credit (memory_ops keys) now (si_client x) (mm_deposit x) (im_balance m) = (Inr (), b')"
    "coherent mem_view b'" "balance_of mem_view b' = (balance_of mem_view (im_balance m))
       (si_client x := balance_of mem_view (im_balance m) (si_client x) + units (mm_deposit x))"
    using mem.credit_run [OF assms(3,4)] by blast
  then show ?thesis
    using assms(1,2) by (simp add: update_intent_finality_def Let_def on_intent_balance_def lift_op_def)
qed

text \<open>An acceptance is stored only for a stored intent that is final and not expired, by a provider who pays
  the deposit.\<close>

lemma acceptance_follows_intent:
  assumes "submit_acceptance E now a m = (Inr i, m')"
  shows "i = pa_id a \<and> (\<exists>x. im_intents m (pa_ref_intent a) = Some x \<and> is_final x \<and> \<not> intent_is_expired now x) \<and>
    (\<exists>b. debit E now (pa_provider a) (mm_deposit a) (im_balance m) = (Inr (), b) \<and> im_balance m' = b) \<and>
    ic_min_deposit (im_config m) \<le> mm_deposit a"
proof (cases "im_intents m (pa_ref_intent a)")
  case None
  with assms show ?thesis by (simp add: submit_acceptance_def)
next
  case (Some x)
  obtain r b where "debit E now (pa_provider a) (mm_deposit a) (im_balance m) = (r, b)"
    by (cases "debit E now (pa_provider a) (mm_deposit a) (im_balance m)")
  with Some show ?thesis
    using assms
    by (cases r)
      (auto simp: submit_acceptance_def Let_def on_intent_balance_def lift_op_def tryR_def put_acceptance_def
        split: if_splits)
qed

text \<open>Cleaning up forgets expired intents without paying back the deposits of those that are not final.\<close>

lemma cleanup_refunds_nothing: "im_balance (snd (cleanup_expired_intents ord now m)) = im_balance m"
proof -
  have "im_balance (foldl (\<lambda>m i. forget_intent i m) m is) = im_balance m" for "is"
    by (induction "is" arbitrary: m) (simp_all add: forget_intent_def split: option.split)
  then show ?thesis by (simp add: cleanup_expired_intents_def Let_def)
qed

section \<open>Concrete instances\<close>

definition sample_intent :: storage_intent where
  "sample_intent = storage_intent_new (\<lambda>_. [7]) 1000 (AccountAddress addr_a) (replicate 32 9) 8192 10 (AdicAmount 2) 1 [AdicNative]
     \<lparr>mm_deposit := AdicAmount 3\<rparr>"

definition open_config :: intent_config where
  "open_config = intent_config_default\<lparr>ic_min_deposit := AdicAmount 1, ic_min_reputation := 1\<rparr>"

abbreviation "market_ops \<equiv> memory_ops (\<lambda>_ :: account_address set. [])"

definition published :: "memory_storage intent_manager" where
  "published = intent_exec market_ops (Publish 1000 sample_intent)
     (intent_manager_new open_config funded (reputation_tracker_new (1 / 10)))"

lemma sample_intent_simps:
  "si_id sample_intent = [7]" "si_client sample_intent = AccountAddress addr_a" "mm_deposit sample_intent = AdicAmount 3"
  "\<not> is_final sample_intent" "si_expires_at sample_intent = 86401" "mm_timestamp sample_intent = 1"
  by (simp_all add: sample_intent_def storage_intent_new_def blank_message_def is_final_def market_finalized_def unix_secs_def
      storage_intent.defs market_message.defs)

lemma funded_balance: "balance_of mem_view funded = (\<lambda>_. 0) (AccountAddress addr_a := 5)"
  by (simp add: balance_of_def funded_ledger fun_eq_iff ADIC_ZERO_def)

lemma published_run:
  "im_intents published = [[7] \<mapsto> sample_intent] \<and> coherent mem_view (im_balance published) \<and>
   balance_of mem_view (im_balance published) (AccountAddress addr_a) = 2"
proof (cases rule: mem.debit_run [OF funded_coherent, where a="AccountAddress addr_a" and v="AdicAmount 3" and now=1000 and keys="\<lambda>_. []"])
  case (1 b')
  then show ?thesis by (simp add: funded_balance)
next
  case (2 b')
  have sub: "i64_sub 86401 1 = 86400" by (simp add: i64_sub_def signed_take_bit_int_eq_self)
  have run: "published = put_intent sample_intent
      ((intent_manager_new open_config funded (reputation_tracker_new (1 / 10)))\<lparr>im_balance := b'\<rparr>)"
    using 2(2)
    by (simp add: sub published_def publish_intent_def Let_def on_intent_balance_def lift_op_def sample_intent_simps open_config_def
        intent_config_default_def intent_manager_new_def get_reputation_def reputation_tracker_new_def amount_less_iff entries_def)
  show ?thesis
    unfolding run using 2(3,4) by (simp add: put_intent_def intent_manager_new_def sample_intent_simps funded_balance)
qed

lemma deposits_conserved_witness:
  "im_intents published \<noteq> Map.empty \<and>
   balance_of mem_view (im_balance published) (AccountAddress addr_a) +
     weight (intent_hold (AccountAddress addr_a)) (im_intents published) +
     weight (acceptance_hold (AccountAddress addr_a)) (im_acceptances published) = 5"
proof -
  let ?m0 = "intent_manager_new open_config funded (reputation_tracker_new (1 / 10))"
  have "intent_reach market_ops ?m0 published"
    unfolding published_def
    by (rule intent_reach.step [OF intent_reach.init]) (simp add: intent_manager_new_def sample_intent_simps)
  from deposits_conserved [OF this funded_coherent, of "AccountAddress addr_a"]
  show ?thesis using published_run by (simp add: funded_balance units_MAX_SUPPLY)
qed

lemma finality_pays_again_witness:
  "\<exists>m1 m2. update_intent_finality market_ops 2000 [7] (MarketF2Complete True) 3 published = (Inr (), m1) \<and>
     update_intent_finality market_ops 2000 [7] (MarketF2Complete True) 4 m1 = (Inr (), m2) \<and>
     balance_of mem_view (im_balance m2) (AccountAddress addr_a) = 8"
proof -
  obtain m1 where m1: "update_intent_finality market_ops 2000 [7] (MarketF2Complete True) 3 published = (Inr (), m1)"
    "im_intents m1 [7] = Some (set_finality (MarketF2Complete True) 3 sample_intent)" "coherent mem_view (im_balance m1)"
    "balance_of mem_view (im_balance m1) (AccountAddress addr_a) = 5"
    using finality_pays_again [of published "[7]" sample_intent "MarketF2Complete True" "\<lambda>_. []" 2000 3] published_run
    by (auto simp: market_finalized_def sample_intent_simps units_MAX_SUPPLY)
  show ?thesis
    using finality_pays_again [OF m1(2) _ m1(3), of "MarketF2Complete True" "\<lambda>_. []" 2000 4] m1(1,4)
    by (auto simp: market_finalized_def sample_intent_simps units_MAX_SUPPLY)
qed

end
