(* ===== verification/Market_Deals.thy ===== *)
theory Market_Deals
  imports Market_Types Market_Intents Pouw_Incentives
begin

text \<open>
  Deals of the storage market: the compiler of intents and acceptances into deals, \<open>JitcaCompiler\<close>
  (\<open>crates/adic-storage-market/src/jitca.rs\<close>), and the renewal, termination and migration of active deals,
  \<open>DealManagementCoordinator\<close> (\<open>deal_management.rs\<close>). Products and differences of \<open>u64\<close> wrap unless the
  code checks them; fractions are exact reals. The order in which a hash map is searched is \<open>ord\<close>.
\<close>

section \<open>The compiler\<close>

record jitca_config =
  jc_min_ratio :: f64
  jc_max_window :: u64
  jc_activation :: u64
  jc_require_f1 :: bool

definition jitca_config_default :: jitca_config where
  "jitca_config_default = \<lparr>jc_min_ratio = 1, jc_max_window = 100, jc_activation = 50, jc_require_f1 = True\<rparr>"

record 's jitca_compiler =
  jm_config :: jitca_config
  jm_balance :: "'s balance_manager"
  jm_deals :: "bytes \<rightharpoonup> storage_deal"
  jm_next_id :: u64

type_synonym ('s, 'a) jitca_op = "(market_error, 's jitca_compiler, 'a) rop"

definition jitca_new :: "jitca_config \<Rightarrow> 's balance_manager \<Rightarrow> 's jitca_compiler" where
  "jitca_new config balance = \<lparr>jm_config = config, jm_balance = balance, jm_deals = Map.empty, jm_next_id = 1\<rparr>"

definition validate_compatibility :: "storage_intent \<Rightarrow> provider_acceptance \<Rightarrow> market_error + unit" where
  "validate_compatibility x a =
     (if pa_ref_intent a \<noteq> si_id x then Inl MarketInvalidMessage
      else if si_max_price x < pa_price a then Inl MarketInvalidMessage
      else Inr ())"

definition validate_finality :: "jitca_config \<Rightarrow> storage_intent \<Rightarrow> provider_acceptance \<Rightarrow> market_error + unit" where
  "validate_finality c x a =
     (if \<not> jc_require_f1 c then Inr ()
      else if \<not> is_final x then Inl FinalityNotReached
      else if \<not> is_final a then Inl FinalityNotReached
      else Inr ())"

definition validate_compilation_window :: "jitca_config \<Rightarrow> provider_acceptance \<Rightarrow> u64 \<Rightarrow> market_error + unit" where
  "validate_compilation_window c a current_epoch =
     (case mm_finalized_at a of
        None \<Rightarrow> Inr ()
      | Some finalized \<Rightarrow> if jc_max_window c < sat_sub current_epoch finalized then Inl MarketOther else Inr ())"

definition checked_mul :: "u64 \<Rightarrow> u64 \<Rightarrow> u64 option" where
  "checked_mul a b = (if unat a * unat b < 2 ^ 64 then Some (a * b) else None)"

definition calculate_total_payment :: "storage_intent \<Rightarrow> provider_acceptance \<Rightarrow> market_error + adic_amount" where
  "calculate_total_payment x a =
     (case checked_mul (base_units (pa_price a)) (si_duration x) of
        None \<Rightarrow> Inl MarketOther
      | Some t \<Rightarrow> Inr (AdicAmount t))"

definition calculate_required_collateral :: "jitca_config \<Rightarrow> adic_amount \<Rightarrow> adic_amount" where
  "calculate_required_collateral c payment = AdicAmount (f64_as_u64 (f64_of_u64 (base_units payment) * jc_min_ratio c))"

definition jitca_debit :: "'s econ_ops \<Rightarrow> i64 \<Rightarrow> account_address \<Rightarrow> adic_amount \<Rightarrow> ('s, unit) jitca_op" where
  "jitca_debit E now a v = lift_op jm_balance (\<lambda>b m. m\<lparr>jm_balance := b\<rparr>) MarketEconomicsError (debit E now a v)"

definition next_deal_id :: "('s, u64) jitca_op" where
  "next_deal_id m = okR (jm_next_id m) (m\<lparr>jm_next_id := jm_next_id m + 1\<rparr>)"

text \<open>The checks and computations before any money moves.\<close>

definition compile_checks :: "jitca_config \<Rightarrow> storage_intent \<Rightarrow> provider_acceptance \<Rightarrow> u64 \<Rightarrow> market_error + adic_amount" where
  "compile_checks c x a current_epoch =
     bindE (validate_compatibility x a) (\<lambda>_.
     bindE (validate_finality c x a) (\<lambda>_.
     bindE (validate_compilation_window c a current_epoch) (\<lambda>_.
     bindE (calculate_total_payment x a) (\<lambda>payment.
     (let required = calculate_required_collateral c payment
      in if pa_collateral a < required then Inl (market_error.InsufficientCollateral required (pa_collateral a)) else Inr payment)))))"

definition compile_deal :: "'s econ_ops \<Rightarrow> i64 \<Rightarrow> storage_intent \<Rightarrow> provider_acceptance \<Rightarrow> u64 \<Rightarrow> ('s, storage_deal) jitca_op" where
  "compile_deal E now x a current_epoch m =
     (case compile_checks (jm_config m) x a current_epoch of
        Inl e \<Rightarrow> errR e m
      | Inr payment \<Rightarrow>
          tryR (jitca_debit E now (si_client x) payment) (\<lambda>_.
          tryR (jitca_debit E now (pa_provider a) (pa_collateral a)) (\<lambda>_.
          tryR next_deal_id (\<lambda>deal_id.
          (case deal_transition PendingActivation (deal_from now x a deal_id current_epoch (jc_activation (jm_config m))) of
             Inl e \<Rightarrow> errR e
           | Inr d \<Rightarrow>
               tryR (modR (\<lambda>m. m\<lparr>jm_deals := (jm_deals m)(si_id x \<mapsto> d)\<rparr>)) (\<lambda>_.
               okR d))))) m)"

definition get_deal :: "'s jitca_compiler \<Rightarrow> bytes \<Rightarrow> storage_deal option" where
  "get_deal m i = jm_deals m i"

definition activate_deal :: "(bytes set \<Rightarrow> bytes list) \<Rightarrow> u64 \<Rightarrow> u64 \<Rightarrow> ('s, unit) jitca_op" where
  "activate_deal ord deal_id current_epoch m =
     (case List.find (\<lambda>i. map_option sd_id (jm_deals m i) = Some deal_id) (ord (dom (jm_deals m))) of
        None \<Rightarrow> errR DealNotFound m
      | Some i \<Rightarrow>
          (let d = the (jm_deals m i)
           in if sd_status d \<noteq> PendingActivation then errR InvalidStateTransition m
              else if sd_deadline d < current_epoch then errR (ActivationDeadlineExceeded (sd_deadline d) current_epoch) m
              else case deal_transition DealActive d of
                  Inl e \<Rightarrow> errR e m
                | Inr d' \<Rightarrow> okR () (m\<lparr>jm_deals := (jm_deals m)(i \<mapsto> d'\<lparr>sd_start_epoch := Some current_epoch\<rparr>)\<rparr>)))"

definition get_client_deals :: "'s jitca_compiler \<Rightarrow> account_address \<Rightarrow> storage_deal set" where
  "get_client_deals m client = {d \<in> ran (jm_deals m). sd_client d = client}"

definition get_provider_deals :: "'s jitca_compiler \<Rightarrow> account_address \<Rightarrow> storage_deal set" where
  "get_provider_deals m provider = {d \<in> ran (jm_deals m). sd_provider d = provider}"

record jitca_stats =
  js_total :: nat
  js_published :: nat
  js_pending :: nat
  js_active :: nat
  js_completed :: nat
  js_failed :: nat

definition jitca_get_stats :: "(bytes set \<Rightarrow> bytes list) \<Rightarrow> 's jitca_compiler \<Rightarrow> jitca_stats" where
  "jitca_get_stats ord m =
     (let statuses = map sd_status (List.map_filter (jm_deals m) (ord (dom (jm_deals m))));
          counted = (\<lambda>s. length (filter (\<lambda>t. t = s) statuses))
      in \<lparr>js_total = length statuses, js_published = counted DealPublished, js_pending = counted PendingActivation,
          js_active = counted DealActive, js_completed = counted DealCompleted, js_failed = counted DealFailed\<rparr>)"

section \<open>Renewal, termination and migration\<close>

record deal_renewal = market_message +
  dr_deal :: u64
  dr_client :: account_address
  dr_provider :: account_address
  dr_epochs :: u64
  dr_payment :: adic_amount
  dr_collateral :: adic_amount
  dr_price :: "adic_amount option"
  dr_id :: bytes

definition deal_renewal_new :: "(bytes \<Rightarrow> bytes) \<Rightarrow> i64 \<Rightarrow> u64 \<Rightarrow> account_address \<Rightarrow> account_address \<Rightarrow> u64 \<Rightarrow> adic_amount \<Rightarrow>
    adic_amount \<Rightarrow> adic_amount option \<Rightarrow> deal_renewal" where
  "deal_renewal_new blake3 now deal client provider epochs payment collateral price =
     market_message.extend (blank_message now)
       (deal_renewal.fields deal client provider epochs payment collateral price
         (blake3 (le_bytes deal @ address_bytes client @ le_bytes epochs @ le_bytes (of_int (unix_secs now)))))"

datatype termination_reason =
  ClientRequest | ProviderRequest | MutualAgreement | ProviderBreach | ClientBreach | DataCorruption

record deal_termination = market_message +
  dt_deal :: u64
  dt_initiator :: account_address
  dt_reason :: termination_reason
  dt_epoch :: u64
  dt_client_refund :: adic_amount
  dt_provider_payment :: adic_amount
  dt_collateral_return :: adic_amount
  dt_penalty :: adic_amount
  dt_id :: bytes

definition deal_termination_new :: "(bytes \<Rightarrow> bytes) \<Rightarrow> i64 \<Rightarrow> u64 \<Rightarrow> account_address \<Rightarrow> termination_reason \<Rightarrow> u64 \<Rightarrow>
    adic_amount \<Rightarrow> adic_amount \<Rightarrow> adic_amount \<Rightarrow> adic_amount \<Rightarrow> deal_termination" where
  "deal_termination_new blake3 now deal initiator reason epoch refund payment return penalty =
     market_message.extend (blank_message now)
       (deal_termination.fields deal initiator reason epoch refund payment return penalty
         (blake3 (le_bytes deal @ address_bytes initiator @ le_bytes epoch @ le_bytes (of_int (unix_secs now)))))"

record migration_proof =
  mg_old_root :: bytes
  mg_new_root :: bytes
  mg_epoch :: u64
  mg_signature :: signature

record deal_migration = market_message +
  dg_deal :: u64
  dg_client :: account_address
  dg_old_provider :: account_address
  dg_new_provider :: account_address
  dg_deadline :: u64
  dg_collateral :: adic_amount
  dg_proof :: "migration_proof option"
  dg_id :: bytes

definition deal_migration_new :: "(bytes \<Rightarrow> bytes) \<Rightarrow> i64 \<Rightarrow> u64 \<Rightarrow> account_address \<Rightarrow> account_address \<Rightarrow> account_address \<Rightarrow> u64 \<Rightarrow>
    adic_amount \<Rightarrow> deal_migration" where
  "deal_migration_new blake3 now deal client old_provider new_provider deadline collateral =
     market_message.extend (blank_message now)
       (deal_migration.fields deal client old_provider new_provider deadline collateral None
         (blake3 (le_bytes deal @ address_bytes client @ address_bytes old_provider @ address_bytes new_provider @
           le_bytes (of_int (unix_secs now)))))"

record deal_management_config =
  dm_min_renewal :: u64
  dm_penalty :: f64
  dm_grace :: u64

definition deal_management_config_default :: deal_management_config where
  "deal_management_config_default = \<lparr>dm_min_renewal = 100, dm_penalty = 1 / 10, dm_grace = 1000\<rparr>"

record deal_management =
  dm_config :: deal_management_config
  dm_renewals :: "bytes \<rightharpoonup> deal_renewal"
  dm_terminations :: "bytes \<rightharpoonup> deal_termination"
  dm_migrations :: "bytes \<rightharpoonup> deal_migration"

type_synonym 'a management_op = "(market_error, deal_management, 'a) rop"

definition deal_management_new :: "deal_management_config \<Rightarrow> deal_management" where
  "deal_management_new config =
     \<lparr>dm_config = config, dm_renewals = Map.empty, dm_terminations = Map.empty, dm_migrations = Map.empty\<rparr>"

definition submit_renewal :: "deal_renewal \<Rightarrow> storage_deal \<Rightarrow> bytes management_op" where
  "submit_renewal r d m =
     (if sd_status d \<noteq> DealActive then errR InvalidStateTransition m
      else if dr_epochs r < dm_min_renewal (dm_config m) then errR MarketOther m
      else if dr_client r \<noteq> sd_client d \<or> dr_provider r \<noteq> sd_provider d then errR MarketOther m
      else okR (dr_id r) (m\<lparr>dm_renewals := (dm_renewals m)(dr_id r \<mapsto> r)\<rparr>))"

definition submit_termination :: "deal_termination \<Rightarrow> storage_deal \<Rightarrow> bytes management_op" where
  "submit_termination t d m =
     (if sd_status d \<noteq> DealActive then errR InvalidStateTransition m
      else if dt_initiator t \<noteq> sd_client d \<and> dt_initiator t \<noteq> sd_provider d then errR MarketOther m
      else okR (dt_id t) (m\<lparr>dm_terminations := (dm_terminations m)(dt_id t \<mapsto> t)\<rparr>))"

definition submit_migration :: "deal_migration \<Rightarrow> storage_deal \<Rightarrow> bytes management_op" where
  "submit_migration g d m =
     (if sd_status d \<noteq> DealActive then errR InvalidStateTransition m
      else if dg_client g \<noteq> sd_client d \<or> dg_old_provider g \<noteq> sd_provider d then errR MarketOther m
      else if dg_new_provider g = dg_old_provider g then errR MarketOther m
      else okR (dg_id g) (m\<lparr>dm_migrations := (dm_migrations m)(dg_id g \<mapsto> g)\<rparr>))"

text \<open>Refund of the client, payment of the provider, collateral returned, penalty.\<close>

definition unused_payment :: "storage_deal \<Rightarrow> u64 \<Rightarrow> u64" where
  "unused_payment d current_epoch =
     (let start_epoch = (case sd_start_epoch d of None \<Rightarrow> 0 | Some e \<Rightarrow> e);
          remaining_epochs = sat_sub (sd_duration d) (sat_sub current_epoch start_epoch)
      in base_units (sd_price d) * remaining_epochs)"

definition termination_amounts :: "deal_management_config \<Rightarrow> storage_deal \<Rightarrow> u64 \<Rightarrow> termination_reason \<Rightarrow>
    adic_amount \<times> adic_amount \<times> adic_amount \<times> adic_amount" where
  "termination_amounts c d current_epoch reason =
     (let unused = unused_payment d current_epoch; escrow = base_units (sd_escrow d); collateral = base_units (sd_collateral d)
      in case reason of
           ClientRequest \<Rightarrow>
             (let penalty = f64_as_u64 (f64_of_u64 unused * dm_penalty c); refund = unused - penalty
              in (AdicAmount refund, AdicAmount (escrow - refund), sd_collateral d, AdicAmount penalty))
         | MutualAgreement \<Rightarrow> (AdicAmount unused, AdicAmount (escrow - unused), sd_collateral d, ADIC_ZERO)
         | ClientBreach \<Rightarrow> (ADIC_ZERO, sd_escrow d, sd_collateral d, AdicAmount (f64_as_u64 (f64_of_u64 unused * (1 / 10))))
         | DataCorruption \<Rightarrow> (sd_escrow d, ADIC_ZERO, ADIC_ZERO, sd_collateral d)
         | _ \<Rightarrow>
             (let penalty = f64_as_u64 (f64_of_u64 collateral * (2 / 10))
              in (AdicAmount (unused + penalty), AdicAmount (escrow - unused), AdicAmount (collateral - penalty),
                  AdicAmount penalty)))"

definition get_renewal :: "deal_management \<Rightarrow> bytes \<Rightarrow> deal_renewal option" where
  "get_renewal m i = dm_renewals m i"

definition get_termination :: "deal_management \<Rightarrow> bytes \<Rightarrow> deal_termination option" where
  "get_termination m i = dm_terminations m i"

definition get_migration :: "deal_management \<Rightarrow> bytes \<Rightarrow> deal_migration option" where
  "get_migration m i = dm_migrations m i"

definition terminations_by_reason :: "deal_management \<Rightarrow> termination_reason \<rightharpoonup> nat" where
  "terminations_by_reason m r =
     (let n = card {i. \<exists>t. dm_terminations m i = Some t \<and> dt_reason t = r} in if n = 0 then None else Some n)"

record deal_management_stats =
  dms_renewals :: nat
  dms_terminations :: nat
  dms_migrations :: nat
  dms_by_reason :: "termination_reason \<rightharpoonup> nat"

definition management_get_stats :: "deal_management \<Rightarrow> deal_management_stats" where
  "management_get_stats m =
     \<lparr>dms_renewals = card (dom (dm_renewals m)), dms_terminations = card (dom (dm_terminations m)),
      dms_migrations = card (dom (dm_migrations m)), dms_by_reason = terminations_by_reason m\<rparr>"

section \<open>What a compilation does\<close>

text \<open>The checks before any money moves.\<close>

definition compilable :: "jitca_config \<Rightarrow> storage_intent \<Rightarrow> provider_acceptance \<Rightarrow> u64 \<Rightarrow> bool" where
  "compilable c x a current_epoch \<longleftrightarrow>
     pa_ref_intent a = si_id x \<and> pa_price a \<le> si_max_price x \<and>
     (jc_require_f1 c \<longrightarrow> is_final x \<and> is_final a) \<and>
     (\<forall>e. mm_finalized_at a = Some e \<longrightarrow> unat current_epoch - unat e \<le> unat (jc_max_window c)) \<and>
     units (pa_price a) * unat (si_duration x) < 2 ^ 64 \<and>
     calculate_required_collateral c (AdicAmount (base_units (pa_price a) * si_duration x)) \<le> pa_collateral a"

definition deal_price :: "storage_intent \<Rightarrow> provider_acceptance \<Rightarrow> nat" where
  "deal_price x a = units (pa_price a) * unat (si_duration x)"

lemma deal_from_simps [simp]:
  "sd_status (deal_from now x a i e g) = DealPublished"
  "sd_escrow (deal_from now x a i e g) = AdicAmount (base_units (pa_price a) * si_duration x)"
  "sd_collateral (deal_from now x a i e g) = pa_collateral a"
  "sd_client (deal_from now x a i e g) = si_client x" "sd_provider (deal_from now x a i e g) = pa_provider a"
  "sd_id (deal_from now x a i e g) = i"
  by (simp_all add: deal_from_def storage_deal.defs market_message.defs blank_message_def)

lemma unat_mult_below: "unat a * unat b < 2 ^ 64 \<Longrightarrow> unat (a * b) = unat a * unat b" for a b :: u64
  using unat_mult_lem [of a b] by simp

lemma compile_checks_iff:
  "compile_checks c x a e = Inr v \<longleftrightarrow> compilable c x a e \<and> v = AdicAmount (base_units (pa_price a) * si_duration x)"
  by (auto simp: compile_checks_def validate_compatibility_def validate_finality_def validate_compilation_window_def
      calculate_total_payment_def checked_mul_def compilable_def bindE_Inr_iff Let_def unat_sat_sub word_less_nat_alt
      not_less split: option.splits if_splits)

lemma compile_deal_eq:
  "compile_deal E now x a e m =
     (case compile_checks (jm_config m) x a e of
        Inl err \<Rightarrow> (Inl err, m)
      | Inr v \<Rightarrow>
          (case debit E now (si_client x) v (jm_balance m) of
             (Inl err, b) \<Rightarrow> (Inl (MarketEconomicsError err), m\<lparr>jm_balance := b\<rparr>)
           | (Inr _, b) \<Rightarrow>
               (case debit E now (pa_provider a) (pa_collateral a) b of
                  (Inl err, b') \<Rightarrow> (Inl (MarketEconomicsError err), m\<lparr>jm_balance := b'\<rparr>)
                | (Inr _, b') \<Rightarrow>
                    (let d = (deal_from now x a (jm_next_id m) e (jc_activation (jm_config m)))\<lparr>sd_status := PendingActivation\<rparr>
                     in (Inr d, m\<lparr>jm_balance := b', jm_next_id := jm_next_id m + 1, jm_deals := (jm_deals m)(si_id x \<mapsto> d)\<rparr>)))))"
proof (cases "compile_checks (jm_config m) x a e")
  case (Inr v)
  obtain r b where 1: "debit E now (si_client x) v (jm_balance m) = (r, b)" by (cases "debit E now (si_client x) v (jm_balance m)")
  obtain r' b' where 2: "debit E now (pa_provider a) (pa_collateral a) b = (r', b')" by (cases "debit E now (pa_provider a) (pa_collateral a) b")
  show ?thesis
    by (cases r; cases r')
      (simp_all add: compile_deal_def Inr jitca_debit_def lift_op_def tryR_def next_deal_id_def deal_transition_def 1 2 Let_def)
qed (simp add: compile_deal_def)

definition deal_open :: "i64 \<Rightarrow> storage_intent \<Rightarrow> provider_acceptance \<Rightarrow> u64 \<Rightarrow> 's jitca_compiler \<Rightarrow> storage_deal" where
  "deal_open now x a e m = (deal_from now x a (jm_next_id m) e (jc_activation (jm_config m)))\<lparr>sd_status := PendingActivation\<rparr>"

context economics_storage
begin

lemma compile_run:
  assumes coh: "coherent view (jm_balance m)" and ok: "compilable (jm_config m) x a e"
  defines "bal \<equiv> balance_of view (jm_balance m)" and "price \<equiv> deal_price x a"
  obtains (no_payment) m' where "bal (si_client x) < price"
      and "compile_deal E now x a e m = (Inl (MarketEconomicsError InsufficientBalance), m')"
      and "coherent view (jm_balance m')" and "balance_of view (jm_balance m') = bal" and "jm_deals m' = jm_deals m"
    | (no_collateral) m' where "price \<le> bal (si_client x)"
      and "(bal(si_client x := bal (si_client x) - price)) (pa_provider a) < units (pa_collateral a)"
      and "compile_deal E now x a e m = (Inl (MarketEconomicsError InsufficientBalance), m')"
      and "coherent view (jm_balance m')"
      and "balance_of view (jm_balance m') = bal(si_client x := bal (si_client x) - price)" and "jm_deals m' = jm_deals m"
    | (compiled) m' where "price \<le> bal (si_client x)"
      and "units (pa_collateral a) \<le> (bal(si_client x := bal (si_client x) - price)) (pa_provider a)"
      and "compile_deal E now x a e m = (Inr (deal_open now x a e m), m')"
      and "coherent view (jm_balance m')"
      and "balance_of view (jm_balance m') = (bal(si_client x := bal (si_client x) - price))
        (pa_provider a := (bal(si_client x := bal (si_client x) - price)) (pa_provider a) - units (pa_collateral a))"
      and "jm_deals m' = (jm_deals m)(si_id x \<mapsto> deal_open now x a e m)"
proof -
  let ?v = "AdicAmount (base_units (pa_price a) * si_duration x)"
  have v: "unat (base_units (pa_price a) * si_duration x) = price" using ok by (simp add: compilable_def price_def deal_price_def unat_mult_below)
  have checks: "compile_checks (jm_config m) x a e = Inr ?v" using ok by (simp add: compile_checks_iff)
  note eq = compile_deal_eq [of E now x a e m, unfolded checks sum.case]
  show ?thesis
  proof (cases rule: debit_run [OF coh, where a="si_client x" and v="?v" and now=now])
    case (1 b)
    then show ?thesis by (intro no_payment [of "m\<lparr>jm_balance := b\<rparr>"]) (simp_all add: eq v bal_def)
  next
    case client: (2 b)
    show ?thesis
    proof (cases rule: debit_run [OF client(3), where a="pa_provider a" and v="pa_collateral a" and now=now])
      case (1 b')
      then show ?thesis
        using client by (intro no_collateral [of "m\<lparr>jm_balance := b'\<rparr>"]) (simp_all add: eq v bal_def)
    next
      case (2 b')
      then show ?thesis
        using client
        by (intro compiled [of "m\<lparr>jm_balance := b', jm_next_id := jm_next_id m + 1,
            jm_deals := (jm_deals m)(si_id x \<mapsto> deal_open now x a e m)\<rparr>"])
          (simp_all add: eq v bal_def Let_def deal_open_def)
    qed
  qed
qed

end

section \<open>Properties\<close>

text \<open>Compiling an intent and an acceptance succeeds exactly when they fit together, are final and recent, the
  price times the duration is a 64-bit number, the collateral reaches the required ratio, the client can
  pay all of it, and the provider then still has the collateral.\<close>

theorem compile_deal_verdict:
  assumes "coherent mem_view (jm_balance m)"
  shows "is_ok (fst (compile_deal (memory_ops keys) now x a e m)) \<longleftrightarrow>
    compilable (jm_config m) x a e \<and> deal_price x a \<le> balance_of mem_view (jm_balance m) (si_client x) \<and>
    units (pa_collateral a) + (if si_client x = pa_provider a then deal_price x a else 0)
      \<le> balance_of mem_view (jm_balance m) (pa_provider a)"
proof (cases "compilable (jm_config m) x a e")
  case False
  then have "\<not> is_ok (compile_checks (jm_config m) x a e)"
    using compile_checks_iff [of "jm_config m" x a e] by (cases "compile_checks (jm_config m) x a e") auto
  then show ?thesis using False by (auto simp: compile_deal_eq is_ok_def split: sum.splits)
next
  case True
  show ?thesis
    by (cases rule: mem.compile_run [OF assms True, where now=now and keys=keys]) (use True in auto)
qed

text \<open>What a successful compilation leaves behind.\<close>

lemma compiled_deal_state:
  assumes "coherent mem_view (jm_balance m)" and "compile_deal (memory_ops keys) now x a e m = (Inr d, m')"
  shows "coherent mem_view (jm_balance m') \<and> sd_status d = PendingActivation \<and> jm_deals m' (si_id x) = Some d \<and> sd_client d = si_client x \<and>
    sd_provider d = pa_provider a \<and> units (sd_escrow d) = deal_price x a \<and> sd_collateral d = pa_collateral a \<and>
    (\<forall>b. balance_of mem_view (jm_balance m) b = balance_of mem_view (jm_balance m') b +
       (if b = si_client x then units (sd_escrow d) else 0) + (if b = pa_provider a then units (sd_collateral d) else 0))"
proof -
  have ok: "compilable (jm_config m) x a e"
    using assms(2) compile_checks_iff [of "jm_config m" x a e] by (auto simp: compile_deal_eq split: sum.splits)
  then have price: "unat (base_units (pa_price a) * si_duration x) = deal_price x a"
    by (simp add: compilable_def deal_price_def unat_mult_below)
  show ?thesis
  proof (cases rule: mem.compile_run [OF assms(1) ok, where now=now and keys=keys])
    case (3 m'')
    then have "d = deal_open now x a e m" "m'' = m'" using assms(2) by simp_all
    with 3 show ?thesis by (auto simp: deal_open_def price)
  qed (use assms(2) in auto)
qed


text \<open>A compiled deal awaits its activation and is stored under its intent; its price and its collateral, and
  nothing else, have left the balances of the client and the provider.\<close>

theorem compiled_deal_funded:
  assumes "coherent mem_view (jm_balance m)" and "compile_deal (memory_ops keys) now x a e m = (Inr d, m')"
  shows "sd_status d = PendingActivation \<and> jm_deals m' (si_id x) = Some d \<and> sd_client d = si_client x \<and>
    sd_provider d = pa_provider a \<and> units (sd_escrow d) = deal_price x a \<and> sd_collateral d = pa_collateral a \<and>
    (\<forall>b. balance_of mem_view (jm_balance m) b = balance_of mem_view (jm_balance m') b +
       (if b = si_client x then units (sd_escrow d) else 0) + (if b = pa_provider a then units (sd_collateral d) else 0))"
  using compiled_deal_state [OF assms] by blast

text \<open>When the provider turns out not to have the collateral, the compilation fails but the price stays debited
  from the client: no deal is stored, and nothing credits it back.\<close>

theorem failed_compile_keeps_payment:
  assumes "coherent mem_view (jm_balance m)" and "compilable (jm_config m) x a e"
    and "si_client x \<noteq> pa_provider a" and "deal_price x a \<le> balance_of mem_view (jm_balance m) (si_client x)"
    and "balance_of mem_view (jm_balance m) (pa_provider a) < units (pa_collateral a)"
  shows "\<exists>m'. compile_deal (memory_ops keys) now x a e m = (Inl (MarketEconomicsError InsufficientBalance), m') \<and>
    jm_deals m' = jm_deals m \<and>
    balance_of mem_view (jm_balance m') (si_client x) = balance_of mem_view (jm_balance m) (si_client x) - deal_price x a"
  by (cases rule: mem.compile_run [OF assms(1,2), where now=now and keys=keys]) (use assms(3-5) in auto)

text \<open>Compiling the same pair once more charges both parties again and replaces the deal that was there.\<close>

lemma compiled_again_replaces:
  assumes "compile_deal E now x a e m = (Inr d, m')" and "compile_deal E now' x a e' m' = (Inr d', m'')"
  shows "jm_deals m'' = (jm_deals m)(si_id x \<mapsto> d')"
  using assms by (auto simp: compile_deal_eq Let_def split: sum.splits prod.splits)

text \<open>An activated deal was pending and in time.\<close>

lemma activate_deal_ok:
  assumes "activate_deal ord deal_id e m = (Inr (), m')"
  shows "\<exists>i d. jm_deals m i = Some d \<and> sd_id d = deal_id \<and> sd_status d = PendingActivation \<and> e \<le> sd_deadline d \<and>
    jm_deals m' = (jm_deals m)(i \<mapsto> d\<lparr>sd_status := DealActive, sd_start_epoch := Some e\<rparr>)"
proof -
  let ?f = "\<lambda>i. map_option sd_id (jm_deals m i) = Some deal_id"
  obtain i where i: "List.find ?f (ord (dom (jm_deals m))) = Some i"
    using assms by (cases "List.find ?f (ord (dom (jm_deals m)))") (simp_all add: activate_deal_def)
  then have "?f i" by (auto simp: find_Some_iff)
  then obtain d where d: "jm_deals m i = Some d" "sd_id d = deal_id" by auto
  have "sd_status d = PendingActivation \<and> e \<le> sd_deadline d \<and>
      jm_deals m' = (jm_deals m)(i \<mapsto> d\<lparr>sd_status := DealActive, sd_start_epoch := Some e\<rparr>)"
    using assms by (cases "sd_status d = PendingActivation"; cases "sd_deadline d < e")
      (auto simp: activate_deal_def i [simplified] d Let_def deal_transition_def)
  with d show ?thesis by blast
qed

section \<open>Terminations\<close>

lemma f64_share_le:
  assumes "0 \<le> r" and "r \<le> 1"
  shows "f64_as_u64 (f64_of_u64 n * r) \<le> n"
proof -
  have "f64_of_u64 n * r \<le> f64_of_u64 n" using mult_left_mono [OF assms(2), of "f64_of_u64 n"] by simp
  moreover have lt: "f64_of_u64 n < 2 ^ 64" by (rule f64_of_u64_less)
  ultimately have "unat (f64_as_u64 (f64_of_u64 n * r)) = nat \<lfloor>f64_of_u64 n * r\<rfloor>"
    using assms(1) by (intro f64_as_u64_below) auto
  also have "\<dots> \<le> nat \<lfloor>f64_of_u64 n\<rfloor>"
    using \<open>f64_of_u64 n * r \<le> f64_of_u64 n\<close> by (intro nat_mono floor_mono)
  also have "\<dots> = unat n" unfolding f64_of_u64_def by (simp only: floor_of_nat nat_int)
  finally show ?thesis by (simp add: word_le_nat_alt)
qed

text \<open>C33: However a deal whose escrow is its price times its duration is ended, what the client gets back, what the
  provider is paid and what is returned of the collateral, together with the collateral that is forfeited on
  data corruption, add up to the escrow and the collateral.\<close>

theorem termination_conserves_funds:
  assumes "units (sd_escrow d) = units (sd_price d) * unat (sd_duration d)" and "0 \<le> dm_penalty c" and "dm_penalty c \<le> 1"
    and "units (sd_escrow d) + units (sd_collateral d) < 2 ^ 64"
    and "termination_amounts c d e reason = (refund, payment, returned, penalty)"
  shows "units refund + units payment + units returned + (if reason = DataCorruption then units penalty else 0) =
    units (sd_escrow d) + units (sd_collateral d)"
proof -
  let ?unused = "unused_payment d e" and ?escrow = "base_units (sd_escrow d)" and ?coll = "base_units (sd_collateral d)"
  let ?rem = "sat_sub (sd_duration d) (sat_sub e (case sd_start_epoch d of None \<Rightarrow> 0 | Some e \<Rightarrow> e))"
  have rem: "unat ?rem \<le> unat (sd_duration d)" by (simp add: unat_sat_sub)
  have le: "units (sd_price d) * unat ?rem \<le> units (sd_escrow d)"
    using rem by (simp add: assms(1))
  then have "units (sd_price d) * unat ?rem < 2 ^ 64" using units_bound [of "sd_escrow d"] by linarith
  then have "unat ?unused \<le> unat ?escrow"
    using le by (simp add: unused_payment_def Let_def unat_mult_below)
  then have unused: "?unused \<le> ?escrow" by (simp add: word_le_nat_alt)
  have p1: "f64_as_u64 (f64_of_u64 ?unused * dm_penalty c) \<le> ?unused" by (rule f64_share_le [OF assms(2,3)])
  have p2: "f64_as_u64 (f64_of_u64 ?coll * (2 / 10)) \<le> ?coll" by (rule f64_share_le) simp_all
  have sub: "unat (x - y) = unat x - unat y" if "y \<le> x" for x y :: u64
    using that by (simp add: unat_sub)
  have "?unused - f64_as_u64 (f64_of_u64 ?unused * dm_penalty c) \<le> ?escrow"
    using unused p1 by (metis word_sub_le order_trans)
  then have client: ?thesis if "reason = ClientRequest"
    using assms(5) that p1 unused by (auto simp: termination_amounts_def Let_def sub word_le_nat_alt)
  have "unat ?unused + unat (f64_as_u64 (f64_of_u64 ?coll * (2 / 10))) < 2 ^ 64"
    using assms(4) unused p2 by (simp add: word_le_nat_alt)
  then have "unat (?unused + f64_as_u64 (f64_of_u64 ?coll * (2 / 10))) =
      unat ?unused + unat (f64_as_u64 (f64_of_u64 ?coll * (2 / 10)))"
    using unat_add_lem [of ?unused "f64_as_u64 (f64_of_u64 ?coll * (2 / 10))"] by simp
  then have provider: ?thesis if "reason \<in> {ProviderRequest, ProviderBreach}"
    using assms(5) that p2 unused by (auto simp: termination_amounts_def Let_def sub word_le_nat_alt)
  show ?thesis
    using client provider assms(5) unused
    by (cases reason) (auto simp: termination_amounts_def Let_def sub word_le_nat_alt)
qed

section \<open>Concrete instances\<close>

definition sample_acceptance :: provider_acceptance where
  "sample_acceptance = set_finality (MarketF1Complete 3 2 5) 2
     (provider_acceptance_new (\<lambda>_. [8]) 2000 [7] (AccountAddress addr_b) (AdicAmount 1) (AdicAmount 4) 1)"

definition final_intent :: storage_intent where
  "final_intent = set_finality (MarketF1Complete 3 2 5) 1 (sample_intent\<lparr>si_duration := 4\<rparr>)"

definition sample_compiler :: "memory_storage jitca_compiler" where
  "sample_compiler = jitca_new jitca_config_default funded"

lemma sample_acceptance_simps:
  "pa_ref_intent sample_acceptance = [7]" "pa_provider sample_acceptance = AccountAddress addr_b"
  "pa_price sample_acceptance = AdicAmount 1" "pa_collateral sample_acceptance = AdicAmount 4" "is_final sample_acceptance"
  "mm_finalized_at sample_acceptance = Some 2"
  by (simp_all add: sample_acceptance_def provider_acceptance_new_def blank_message_def is_final_def market_finalized_def
      set_finality_def provider_acceptance.defs market_message.defs)

lemma final_intent_simps:
  "si_id final_intent = [7]" "si_client final_intent = AccountAddress addr_a" "si_max_price final_intent = AdicAmount 2"
  "si_duration final_intent = 4" "is_final final_intent"
  by (simp_all add: final_intent_def sample_intent_def storage_intent_new_def blank_message_def is_final_def market_finalized_def
      set_finality_def storage_intent.defs market_message.defs)

lemma f64_of_u64_4: "f64_as_u64 (f64_of_u64 4) = 4"
  by (simp add: f64_of_u64_def f64_as_u64_def)

lemma sample_compilable: "compilable jitca_config_default final_intent sample_acceptance 5"
  by (simp add: compilable_def sample_acceptance_simps final_intent_simps jitca_config_default_def amount_le_iff
      calculate_required_collateral_def f64_of_u64_4)

lemma sample_compiler_simps:
  "jm_config sample_compiler = jitca_config_default" "jm_balance sample_compiler = funded" "jm_deals sample_compiler = Map.empty"
  by (simp_all add: sample_compiler_def jitca_new_def)

lemma sample_price: "deal_price final_intent sample_acceptance = 4"
  by (simp add: deal_price_def final_intent_simps sample_acceptance_simps)

text \<open>A client that is its own provider, under a configuration without collateral.\<close>

definition self_acceptance :: provider_acceptance where
  "self_acceptance = sample_acceptance\<lparr>pa_provider := AccountAddress addr_a, pa_collateral := AdicAmount 1\<rparr>"

definition lax_compiler :: "memory_storage jitca_compiler" where
  "lax_compiler = sample_compiler\<lparr>jm_config := jitca_config_default\<lparr>jc_min_ratio := 0\<rparr>\<rparr>"

lemma self_acceptance_simps:
  "pa_ref_intent self_acceptance = [7]" "pa_provider self_acceptance = AccountAddress addr_a"
  "pa_price self_acceptance = AdicAmount 1" "pa_collateral self_acceptance = AdicAmount 1" "mm_finalized_at self_acceptance = Some 2"
  by (simp_all add: self_acceptance_def sample_acceptance_simps)

lemma self_compilable: "compilable (jitca_config_default\<lparr>jc_min_ratio := 0\<rparr>) final_intent self_acceptance 5"
proof -
  have "is_final self_acceptance" using sample_acceptance_simps(5) by (simp add: self_acceptance_def is_final_def)
  then show ?thesis
    by (simp add: compilable_def self_acceptance_simps final_intent_simps jitca_config_default_def amount_le_iff
        calculate_required_collateral_def f64_as_u64_def)
qed

lemma lax_compiler_simps:
  "jm_config lax_compiler = jitca_config_default\<lparr>jc_min_ratio := 0\<rparr>" "jm_balance lax_compiler = funded"
  by (simp_all add: lax_compiler_def sample_compiler_simps)

lemma compile_deal_verdict_witness:
  "\<not> is_ok (fst (compile_deal market_ops 3000 final_intent sample_acceptance 5 sample_compiler)) \<and>
   is_ok (fst (compile_deal market_ops 3000 final_intent self_acceptance 5 lax_compiler))"
  using compile_deal_verdict [of sample_compiler "\<lambda>_. []" 3000 final_intent sample_acceptance 5]
    compile_deal_verdict [of lax_compiler "\<lambda>_. []" 3000 final_intent self_acceptance 5] self_compilable
  by (simp add: sample_compiler_simps lax_compiler_simps funded_coherent funded_balance sample_acceptance_simps self_acceptance_simps
      final_intent_simps deal_price_def)

lemma lax_compile_ok: "is_ok (fst (compile_deal market_ops 3000 final_intent self_acceptance 5 lax_compiler))"
proof -
  have coh: "coherent mem_view (jm_balance lax_compiler)" by (simp add: lax_compiler_simps funded_coherent)
  have ok: "compilable (jm_config lax_compiler) final_intent self_acceptance 5" by (simp add: lax_compiler_simps self_compilable)
  show ?thesis
    by (cases rule: mem.compile_run [OF coh ok, where now=3000 and keys="\<lambda>_. []"])
      (simp_all add: lax_compiler_simps funded_balance self_acceptance_simps final_intent_simps deal_price_def)
qed

text \<open>The provider has nothing: the client pays for a deal that is never made.\<close>

lemma failed_compile_keeps_payment_witness:
  "\<exists>m'. compile_deal market_ops 3000 final_intent sample_acceptance 5 sample_compiler =
      (Inl (MarketEconomicsError InsufficientBalance), m') \<and>
    jm_deals m' = Map.empty \<and> balance_of mem_view (jm_balance m') (AccountAddress addr_a) = 1"
  using failed_compile_keeps_payment [of sample_compiler final_intent sample_acceptance 5 "\<lambda>_. []" 3000]
  by (simp add: sample_compiler_simps funded_coherent sample_compilable sample_price funded_balance sample_acceptance_simps
      final_intent_simps)

lemma compiled_deal_funded_witness:
  "\<exists>d m'. compile_deal market_ops 3000 final_intent self_acceptance 5 lax_compiler = (Inr d, m') \<and>
     sd_status d = PendingActivation \<and> balance_of mem_view (jm_balance m') (AccountAddress addr_a) = 0"
proof -
  obtain d m' where run: "compile_deal market_ops 3000 final_intent self_acceptance 5 lax_compiler = (Inr d, m')"
    using lax_compile_ok by (cases "compile_deal market_ops 3000 final_intent self_acceptance 5 lax_compiler")
      (auto simp: is_ok_def split: sum.splits)
  have coh: "coherent mem_view (jm_balance lax_compiler)" by (simp add: lax_compiler_simps funded_coherent)
  from compiled_deal_funded [OF coh run] have p: "sd_status d = PendingActivation" "units (sd_escrow d) = 4" "units (sd_collateral d) = 1"
    "\<And>b. balance_of mem_view funded b = balance_of mem_view (jm_balance m') b +
       (if b = AccountAddress addr_a then units (sd_escrow d) else 0) + (if b = AccountAddress addr_a then units (sd_collateral d) else 0)"
    by (simp_all add: lax_compiler_simps final_intent_simps deal_price_def self_acceptance_simps)
  show ?thesis using run p(1-3) p(4) [of "AccountAddress addr_a"] by (simp add: funded_balance)
qed

definition running_deal :: storage_deal where
  "running_deal = (deal_from 0 final_intent sample_acceptance 1 5 50)\<lparr>sd_start_epoch := Some 5\<rparr>"

lemma running_deal_simps:
  "sd_duration running_deal = 4" "sd_price running_deal = AdicAmount 1" "sd_escrow running_deal = AdicAmount 4"
  "sd_collateral running_deal = AdicAmount 4"
  by (simp_all add: running_deal_def deal_from_def storage_deal.defs market_message.defs blank_message_def final_intent_simps
      sample_acceptance_simps)

lemma termination_conserves_funds_witness:
  "\<exists>refund payment returned penalty.
     termination_amounts deal_management_config_default running_deal 6 ProviderBreach = (refund, payment, returned, penalty) \<and>
     units refund + units payment + units returned = 8"
proof -
  obtain r p c q where t: "termination_amounts deal_management_config_default running_deal 6 ProviderBreach = (r, p, c, q)"
    by (metis prod_cases4)
  show ?thesis
    using termination_conserves_funds [OF _ _ _ _ t] t by (simp add: running_deal_simps deal_management_config_default_def)
qed

end
