(* ===== verification/Market_Proofs.thy ===== *)
theory Market_Proofs
  imports Market_Deals Challenges Worker_Selection
begin

text \<open>
  The proof cycle of the storage market, \<open>ProofCycleManager\<close> (\<open>crates/adic-storage-market/src/proof.rs\<close>), as
  built for release without the feature \<open>allow-deterministic-challenges\<close>: challenges of the chunks of a deal,
  the proofs that answer them, the payments they release, slashing, fraud proofs and the completion of
  deals. A deal is passed by mutable reference: an operation returns the deal it leaves. \<open>blake3\<close>, \<open>hexb\<close>
  and \<open>hex\<close> are parameters, collected with the operations of the economics storage in \<open>market_env\<close>.
\<close>

record 's market_env =
  mk_blake3 :: "bytes \<Rightarrow> bytes"
  mk_hexb :: "bytes \<Rightarrow> bytes"
  mk_hex :: "bytes \<Rightarrow> string"
  mk_econ :: "'s econ_ops"

record proof_config =
  pf_grace :: u64
  pf_slash :: f64
  pf_chunks :: u32
  pf_payment :: f64
  pf_vrf_grace :: u64

definition proof_config_default :: proof_config where
  "proof_config_default = \<lparr>pf_grace = 5, pf_slash = 1 / 10, pf_chunks = 3, pf_payment = 1 / 10, pf_vrf_grace = 3\<rparr>"

record 's proof_cycle =
  pc_config :: proof_config
  pc_balance :: "'s balance_manager"
  pc_windows :: window_manager
  pc_vrf :: vrf_service
  pc_adjudicator :: adjudication_config
  pc_proofs :: "u64 \<rightharpoonup> storage_proof list"
  pc_pending :: "u64 \<rightharpoonup> u64 list"
  pc_released :: "u64 \<rightharpoonup> adic_amount"
  pc_message_ids :: "u64 \<rightharpoonup> message_id"
  pc_fraud :: "message_id \<rightharpoonup> fraud_proof"

type_synonym ('s, 'a) proof_op = "(market_error, 's proof_cycle, 'a) rop"

definition proof_cycle_new :: "proof_config \<Rightarrow> 's balance_manager \<Rightarrow> window_manager \<Rightarrow> vrf_service \<Rightarrow> adjudication_config \<Rightarrow>
    's proof_cycle" where
  "proof_cycle_new config balance windows vrf adjudicator =
     \<lparr>pc_config = config, pc_balance = balance, pc_windows = windows, pc_vrf = vrf, pc_adjudicator = adjudicator,
      pc_proofs = Map.empty, pc_pending = Map.empty, pc_released = Map.empty, pc_message_ids = Map.empty, pc_fraud = Map.empty\<rparr>"

definition register_proof_message :: "u64 \<Rightarrow> message_id \<Rightarrow> 's proof_cycle \<Rightarrow> 's proof_cycle" where
  "register_proof_message deal_id i m = m\<lparr>pc_message_ids := (pc_message_ids m)(deal_id \<mapsto> i)\<rparr>"

section \<open>Challenges\<close>

definition challenge_seed :: "(bytes \<Rightarrow> bytes) \<Rightarrow> 's proof_cycle \<Rightarrow> storage_deal \<Rightarrow> u64 \<Rightarrow> u64 \<Rightarrow> market_error + bytes" where
  "challenge_seed blake3 m d epoch current_epoch =
     (case get_canonical_randomness (pc_vrf m) epoch of
        Inr _ \<Rightarrow>
          map_sum (\<lambda>_. MarketChallengeError) id
            (compute_challenge_for_epoch blake3 (pc_vrf m) epoch (ascii ''storage-challenge'') [le_bytes (sd_id d), sd_data_cid d])
      | Inl _ \<Rightarrow>
          (if sat_sub current_epoch epoch < pf_vrf_grace (pc_config m) then Inl MarketChallengeError
           else Inr (blake3 (le_bytes (sd_id d) @ le_bytes epoch @ sd_data_cid d))))"

text \<open>The index that each group of 8 bytes of the seed gives, while there are bytes left. The position is computed
  in 32 bits.\<close>

definition challenge_indices :: "u32 \<Rightarrow> u64 \<Rightarrow> bytes \<Rightarrow> u64 list" where
  "challenge_indices chunks num_chunks seed =
     List.map_filter (\<lambda>i.
       (let offset = unat (of_nat i * 8 :: u32)
        in if offset + 8 \<le> length seed then Some (of_nat (le_value (take 8 (drop offset seed))) mod num_chunks) else None))
       [0..<unat chunks]"

definition generate_challenge :: "'s market_env \<Rightarrow> storage_deal \<Rightarrow> u64 \<Rightarrow> u64 \<Rightarrow> ('s, u64 list) proof_op" where
  "generate_challenge v d epoch current_epoch m =
     (if sd_status d \<noteq> DealActive then errR InvalidStateTransition m
      else case challenge_seed (mk_blake3 v) m d epoch current_epoch of
          Inl e \<Rightarrow> errR e m
        | Inr seed \<Rightarrow>
            (let num_chunks = (sd_data_size d + 4095) div 4096
             in if num_chunks = 0 \<and> 8 \<le> length seed \<and> pf_chunks (pc_config m) \<noteq> 0 then errR (MarketPanic DivisionByZero) m
                else (let indices = challenge_indices (pf_chunks (pc_config m)) num_chunks seed
                      in okR indices (m\<lparr>pc_pending := (pc_pending m)(sd_id d \<mapsto> indices)\<rparr>))))"

section \<open>Proofs\<close>

definition validate_proof_timing :: "proof_config \<Rightarrow> storage_proof \<Rightarrow> u64 \<Rightarrow> market_error + unit" where
  "validate_proof_timing c p current_epoch =
     (if pf_grace c < sat_sub current_epoch (sp_epoch p) then Inl MarketChallengeError else Inr ())"

definition verify_merkle_proofs :: "(bytes \<Rightarrow> bytes) \<Rightarrow> storage_proof \<Rightarrow> u64 list \<Rightarrow> storage_deal \<Rightarrow> market_error + unit" where
  "verify_merkle_proofs blake3 p challenges d =
     (if length (sp_proofs p) \<noteq> length challenges then Inl ProofVerificationFailed
      else case sd_merkle_root d of
          None \<Rightarrow> Inl ProofVerificationFailed
        | Some merkle_root \<Rightarrow>
            (if list_all (\<lambda>(i, q). mp_index q = i \<and> merkle_verify blake3 q merkle_root) (zip challenges (sp_proofs p))
             then Inr () else Inl ProofVerificationFailed))"

definition verify_challenge_authenticity :: "storage_proof \<Rightarrow> u64 list \<Rightarrow> market_error + unit" where
  "verify_challenge_authenticity p expected =
     (if length (sp_challenges p) \<noteq> length expected then Inl ProofVerificationFailed
      else if list_all (\<lambda>(a, b). a = b) (zip (sp_challenges p) expected) then Inr ()
      else Inl ProofVerificationFailed)"

definition compute_proof_id :: "(bytes \<Rightarrow> bytes) \<Rightarrow> storage_proof \<Rightarrow> u64 \<Rightarrow> message_id" where
  "compute_proof_id blake3 p deal_id =
     message_id_new blake3 (le_bytes deal_id @ le_bytes (sp_epoch p) @ address_bytes (sp_provider p) @
       le_bytes (of_int (mm_timestamp p)) @ concat (map le_bytes (sp_challenges p)))"

definition proof_credit :: "'s econ_ops \<Rightarrow> i64 \<Rightarrow> account_address \<Rightarrow> adic_amount \<Rightarrow> ('s, unit) proof_op" where
  "proof_credit E now a v = lift_op pc_balance (\<lambda>b m. m\<lparr>pc_balance := b\<rparr>) MarketEconomicsError (credit E now a v)"

definition released_so_far :: "'s proof_cycle \<Rightarrow> u64 \<Rightarrow> adic_amount" where
  "released_so_far m i = (case pc_released m i of None \<Rightarrow> ADIC_ZERO | Some r \<Rightarrow> r)"

definition set_released :: "u64 \<Rightarrow> adic_amount \<Rightarrow> 's proof_cycle \<Rightarrow> 's proof_cycle" where
  "set_released i r m = m\<lparr>pc_released := (pc_released m)(i \<mapsto> r)\<rparr>"

definition release_payment :: "'s econ_ops \<Rightarrow> i64 \<Rightarrow> storage_deal \<Rightarrow> ('s, unit) proof_op" where
  "release_payment E now d m =
     (let payment = base_units (sd_escrow d);
          release = f64_as_u64 (f64_of_u64 payment * pf_payment (pc_config m));
          released = released_so_far m (sd_id d);
          m = set_released (sd_id d) released m;
          new_total = base_units released + release
      in if payment < new_total then errR MarketReleaseExceedsEscrow m
         else tryR (proof_credit E now (sd_provider d) (AdicAmount release)) (\<lambda>_.
              modR (set_released (sd_id d) (AdicAmount new_total))) m)"

definition submit_proof :: "'s market_env \<Rightarrow> i64 \<Rightarrow> storage_proof \<Rightarrow> storage_deal \<Rightarrow> u64 \<Rightarrow> ('s, unit) proof_op" where
  "submit_proof v now p d current_epoch m =
     (case validate_proof_timing (pc_config m) p current_epoch of
        Inl e \<Rightarrow> errR e m
      | Inr _ \<Rightarrow>
          (case pc_pending m (sd_id d) of
             None \<Rightarrow> errR MarketChallengeError m
           | Some challenges \<Rightarrow>
               (case bindE (verify_challenge_authenticity p challenges) (\<lambda>_. verify_merkle_proofs (mk_blake3 v) p challenges d) of
                  Inl e \<Rightarrow> errR e m
                | Inr _ \<Rightarrow>
                    tryR (lift_op pc_windows (\<lambda>w m. m\<lparr>pc_windows := w\<rparr>) (\<lambda>_. MarketChallengeError)
                      (open_window (mk_hexb v) (compute_proof_id (mk_blake3 v) p (sd_id d)) current_epoch)) (\<lambda>_.
                    tryR (release_payment (mk_econ v) now d) (\<lambda>_.
                    modR (\<lambda>m. m\<lparr>pc_proofs := push_entry (sd_id d) p (pc_proofs m),
                      pc_pending := (pc_pending m)(sd_id d := None)\<rparr>))) m)))"

definition slash_provider :: "'s market_env \<Rightarrow> i64 \<Rightarrow> storage_deal \<Rightarrow> ('s, unit) proof_op" where
  "slash_provider v now d m =
     tryR (lift_op pc_balance (\<lambda>b m. m\<lparr>pc_balance := b\<rparr>) MarketEconomicsError
       (transfer_with_reason (mk_blake3 v) (mk_hex v) (mk_econ v) now (sd_provider d) treasury_address
         (AdicAmount (f64_as_u64 (f64_of_u64 (base_units (sd_collateral d)) * pf_slash (pc_config m)))) Slashing)) (\<lambda>_. okR ()) m"

definition check_missed_proofs :: "'s market_env \<Rightarrow> i64 \<Rightarrow> storage_deal \<Rightarrow> u64 \<Rightarrow> ('s, storage_deal) proof_op" where
  "check_missed_proofs v now d current_epoch m =
     (case sd_start_epoch d of
        None \<Rightarrow> okR d m
      | Some start_epoch \<Rightarrow>
          (if sd_duration d = 0 then errR (MarketPanic DivisionByZero) m
           else
             (let expected_proofs = sat_sub current_epoch start_epoch div sd_duration d;
                  proofs = entries (pc_proofs m) (sd_id d)
              in if of_nat (length proofs) < expected_proofs
                 then
                   (let last_proof_epoch = (if proofs = [] then start_epoch else sp_epoch (last proofs))
                    in if pf_grace (pc_config m) < sat_sub current_epoch (last_proof_epoch + sd_duration d)
                       then tryR (slash_provider v now d) (\<lambda>_.
                         (case deal_transition DealFailed d of Inl e \<Rightarrow> errR e | Inr d' \<Rightarrow> okR d')) m
                       else okR d m)
                 else okR d m)))"

section \<open>Windows and fraud proofs\<close>

text \<open>The identifiers of the expired windows, in the order in which the hash map is read.\<close>

definition process_expired_windows :: "'s market_env \<Rightarrow> (challenge_window set \<Rightarrow> challenge_window list) \<Rightarrow> u64 \<Rightarrow> ('s, nat) proof_op" where
  "process_expired_windows v ord current_epoch m =
     (let expired = ord (get_expired_windows (pc_windows m) current_epoch)
      in okR (length expired)
           (m\<lparr>pc_windows := foldl (\<lambda>w x. snd (finalize_window (mk_hexb v) (cm_subject_id (cw_metadata x)) current_epoch w))
              (pc_windows m) expired\<rparr>))"

definition get_proof_challenge_window :: "'s market_env \<Rightarrow> 's proof_cycle \<Rightarrow> storage_proof \<Rightarrow> u64 \<Rightarrow> challenge_window option" where
  "get_proof_challenge_window v m p deal_id = get_window (pc_windows m) (compute_proof_id (mk_blake3 v) p deal_id)"

definition proof_submit_fraud :: "'s market_env \<Rightarrow> message_id \<Rightarrow> fraud_proof \<Rightarrow> ('s, unit) proof_op" where
  "proof_submit_fraud v proof_id f m =
     (case get_window (pc_windows m) proof_id of
        None \<Rightarrow> errR MarketChallengeError m
      | Some w \<Rightarrow>
          (if \<not> window_is_active (fp_submitted_at f) w then errR MarketChallengeError m
           else tryR (lift_op pc_windows (\<lambda>w m. m\<lparr>pc_windows := w\<rparr>) (\<lambda>_. MarketChallengeError)
                  (submit_challenge (mk_hexb v) proof_id (fp_challenger f) (fp_submitted_at f))) (\<lambda>_.
                modR (\<lambda>m. m\<lparr>pc_fraud := (pc_fraud m)(fp_id f \<mapsto> f)\<rparr>)) m))"

definition get_fraud_proof :: "'s proof_cycle \<Rightarrow> message_id \<Rightarrow> fraud_proof option" where
  "get_fraud_proof m i = pc_fraud m i"

definition get_all_fraud_proofs :: "'s proof_cycle \<Rightarrow> fraud_proof set" where
  "get_all_fraud_proofs m = ran (pc_fraud m)"

definition adjudicate_fraud_proof :: "'s market_env \<Rightarrow> 's proof_cycle \<Rightarrow> message_id \<Rightarrow> quorum_result \<Rightarrow> arbitrator_vote list \<Rightarrow> u64 \<Rightarrow>
    market_error + adjudication_result" where
  "adjudicate_fraud_proof v m i quorum votes epoch =
     (case get_fraud_proof m i of
        None \<Rightarrow> Inl MarketChallengeError
      | Some f \<Rightarrow> map_sum (\<lambda>_. MarketChallengeError) id (adjudicate (mk_hexb v) (pc_adjudicator m) f quorum votes epoch))"

section \<open>Completion\<close>

definition complete_deal :: "'s econ_ops \<Rightarrow> i64 \<Rightarrow> storage_deal \<Rightarrow> u64 \<Rightarrow> ('s, storage_deal) proof_op" where
  "complete_deal E now d current_epoch m =
     (if (case sd_start_epoch d of None \<Rightarrow> False | Some s \<Rightarrow> sat_sub current_epoch s < sd_duration d) then errR MarketOther m
      else
        (let remaining = sat_sub (base_units (sd_escrow d)) (base_units (released_so_far m (sd_id d)))
         in tryR (if 0 < remaining then proof_credit E now (sd_provider d) (AdicAmount remaining) else okR ()) (\<lambda>_.
            tryR (proof_credit E now (sd_provider d) (sd_collateral d)) (\<lambda>_.
            (case deal_transition DealCompleted d of Inl e \<Rightarrow> errR e | Inr d' \<Rightarrow> okR d'))) m))"

definition get_proof_stats :: "'s proof_cycle \<Rightarrow> u64 \<Rightarrow> nat \<times> adic_amount" where
  "get_proof_stats m deal_id = (length (entries (pc_proofs m) deal_id), released_so_far m deal_id)"

section \<open>Merkle proofs\<close>

text \<open>The inputs that the verification of a path hashes.\<close>

fun path_inputs :: "(bytes \<Rightarrow> bytes) \<Rightarrow> bytes \<Rightarrow> u64 \<Rightarrow> bytes list \<Rightarrow> bytes set" where
  "path_inputs blake3 current index [] = {}"
| "path_inputs blake3 current index (s # ss) =
     (let input = (if index mod 2 = 0 then current @ s else s @ current)
      in insert input (path_inputs blake3 (blake3 input) (index div 2) ss))"

text \<open>Two paths of one length that start at the same position and end in the same node are the same path, unless two
  of the inputs hashed along them collide.\<close>

lemma merkle_path_inj:
  assumes hash: "\<And>x. length (blake3 x) = 32"
  shows "length ss = length ts \<Longrightarrow> list_all (\<lambda>s. length s = 32) (ss @ ts) \<Longrightarrow> length a = 32 \<Longrightarrow> length b = 32 \<Longrightarrow>
    inj_on blake3 (path_inputs blake3 a i ss \<union> path_inputs blake3 b i ts) \<Longrightarrow>
    merkle_path blake3 a i ss = merkle_path blake3 b i ts \<Longrightarrow> a = b \<and> ss = ts"
proof (induction ss arbitrary: a b i ts)
  case Nil
  then show ?case by simp
next
  case (Cons s ss)
  then obtain t ts' where ts: "ts = t # ts'" by (cases ts) auto
  let ?a = "if i mod 2 = 0 then a @ s else s @ a" and ?b = "if i mod 2 = 0 then b @ t else t @ b"
  have inj: "inj_on blake3 (insert ?a (insert ?b (path_inputs blake3 (blake3 ?a) (i div 2) ss \<union> path_inputs blake3 (blake3 ?b) (i div 2) ts')))"
    using Cons.prems(5) by (simp only: ts path_inputs.simps Let_def Un_insert_left Un_insert_right insert_commute)
  have eq: "blake3 ?a = blake3 ?b \<and> ss = ts'"
  proof (rule Cons.IH)
    show "length ss = length ts'" using Cons.prems(1) by (simp only: ts list.size)
    show "list_all (\<lambda>s. length s = 32) (ss @ ts')" using Cons.prems(2) by (simp add: ts)
    show "inj_on blake3 (path_inputs blake3 (blake3 ?a) (i div 2) ss \<union> path_inputs blake3 (blake3 ?b) (i div 2) ts')"
      by (rule inj_on_subset [OF inj]) blast
    show "merkle_path blake3 (blake3 ?a) (i div 2) ss = merkle_path blake3 (blake3 ?b) (i div 2) ts'"
      using Cons.prems(6) by (simp only: ts merkle_path.simps)
  qed (rule hash)+
  have "?a = ?b" by (rule inj_onD [OF inj conjunct1 [OF eq]]) simp_all
  moreover have "length s = length t" "length a = length b" using Cons.prems(2-4) by (simp_all add: ts)
  ultimately have "a = b \<and> s = t" by (cases "i mod 2 = 0") simp_all
  then show ?case using eq by (simp add: ts)
qed

section \<open>Payments\<close>

definition keyed :: "('k \<rightharpoonup> 'v) \<Rightarrow> 'k \<rightharpoonup> 'k \<times> 'v" where
  "keyed m = (\<lambda>k. map_option (Pair k) (m k))"

text \<open>What the releases recorded for the deals of a provider add up to.\<close>

definition paid_to :: "(u64 \<Rightarrow> account_address) \<Rightarrow> (u64 \<rightharpoonup> adic_amount) \<Rightarrow> account_address \<Rightarrow> nat" where
  "paid_to provider released a = weight (\<lambda>(i, r). if provider i = a then units r else 0) (keyed released)"

lemma paid_to_update:
  assumes "finite (dom released)"
  shows "paid_to provider (released(i \<mapsto> r)) a +
      (if provider i = a then (case released i of None \<Rightarrow> 0 | Some q \<Rightarrow> units q) else 0) =
    paid_to provider released a + (if provider i = a then units r else 0)"
proof -
  have k: "keyed (released(i \<mapsto> r)) = (keyed released)(i \<mapsto> (i, r))" by (simp add: keyed_def fun_eq_iff)
  have "dom (keyed released) = dom released" by (auto simp: keyed_def dom_def)
  then have "finite (dom (keyed released))" using assms by simp
  from weight_update [OF this, of "\<lambda>(i, r). if provider i = a then units r else 0" i "(i, r)"] show ?thesis
    by (cases "released i") (simp_all add: paid_to_def k, simp_all add: keyed_def split: if_splits)
qed

lemma credit_share:
  assumes "0 \<le> pf_payment c" and "pf_payment c \<le> 1"
  shows "unat (f64_as_u64 (f64_of_u64 p * pf_payment c)) \<le> unat p"
  using f64_share_le [OF assms, of p] by (simp add: word_le_nat_alt)

text \<open>The terms of the deals that the operations are called with.\<close>

definition on_terms :: "(u64 \<Rightarrow> account_address) \<Rightarrow> (u64 \<Rightarrow> adic_amount) \<Rightarrow> storage_deal \<Rightarrow> bool" where
  "on_terms provider escrow d \<longleftrightarrow> sd_provider d = provider (sd_id d) \<and> sd_escrow d = escrow (sd_id d)"

definition payments_ok :: "('s \<Rightarrow> ledger) \<Rightarrow> (u64 \<Rightarrow> account_address) \<Rightarrow> (u64 \<Rightarrow> adic_amount) \<Rightarrow> (account_address \<Rightarrow> nat) \<Rightarrow>
    's proof_cycle \<Rightarrow> bool" where
  "payments_ok view provider escrow bal m \<longleftrightarrow>
     coherent view (pc_balance m) \<and> finite (dom (pc_released m)) \<and>
     0 \<le> pf_payment (pc_config m) \<and> pf_payment (pc_config m) \<le> 1 \<and>
     (\<forall>i. units (released_so_far m i) \<le> units (escrow i)) \<and>
     (\<forall>a. balance_of view (pc_balance m) a = bal a + paid_to provider (pc_released m) a)"

lemma payments_ok_cong:
  "pc_balance m' = pc_balance m \<Longrightarrow> pc_released m' = pc_released m \<Longrightarrow> pc_config m' = pc_config m \<Longrightarrow>
   payments_ok view provider escrow bal m' = payments_ok view provider escrow bal m"
  by (simp add: payments_ok_def released_so_far_def)

lemma payments_ok_keep:
  "payments_ok view provider escrow bal m \<Longrightarrow> pc_balance m' = pc_balance m \<Longrightarrow> pc_released m' = pc_released m \<Longrightarrow>
   pc_config m' = pc_config m \<Longrightarrow> payments_ok view provider escrow bal m'"
  using payments_ok_cong [of m' m] by blast

lemma payments_ok_start:
  "coherent view (pc_balance m) \<Longrightarrow> pc_released m = Map.empty \<Longrightarrow> 0 \<le> pf_payment (pc_config m) \<Longrightarrow> pf_payment (pc_config m) \<le> 1 \<Longrightarrow>
   payments_ok view provider escrow (balance_of view (pc_balance m)) m"
  by (simp add: payments_ok_def released_so_far_def paid_to_def keyed_def weight_def)

lemma set_released_simps [simp]:
  "pc_balance (set_released i r m) = pc_balance m" "pc_config (set_released i r m) = pc_config m"
  "pc_released (set_released i r m) = (pc_released m)(i \<mapsto> r)"
  by (simp_all add: set_released_def)

lemma units_released: "units (released_so_far m i) = (case pc_released m i of None \<Rightarrow> 0 | Some q \<Rightarrow> units q)"
  by (simp add: released_so_far_def split: option.split)

lemma released_so_far_balance [simp]: "released_so_far (m\<lparr>pc_balance := b\<rparr>) i = released_so_far m i"
  by (simp add: released_so_far_def)

lemma released_so_far_update:
  "released_so_far (set_released i r m) j = (if j = i then r else released_so_far m j)"
  by (simp add: released_so_far_def)

context economics_storage
begin

lemma credit_cases:
  assumes "coherent view b"
  obtains (failed) e b' where "credit E now a v b = (Inl e, b')" and "coherent view b'" and "balance_of view b' = balance_of view b"
    | (paid) b' where "credit E now a v b = (Inr (), b')" and "coherent view b'"
      and "balance_of view b' = (balance_of view b)(a := balance_of view b a + units v)"
proof -
  obtain r b' where run: "credit E now a v b = (r, b')" by (cases "credit E now a v b")
  have *: "coherent view b'" "sp_credit a v (ledger_of view b) = (r, ledger_of view b')"
    using implementsD [OF credit_implements assms run] by auto
  show ?thesis
  proof (cases r)
    case (Inl e)
    with * have "ledger_of view b' = ledger_of view b"
      by (auto simp: sp_credit_def split: if_splits option.splits)
    then show ?thesis using * run Inl by (intro failed [of e b']) (simp_all add: balance_of_def fun_eq_iff)
  next
    case (Inr u)
    have "balance_of view b' = (balance_of view b)(a := balance_of view b a + units v)"
    proof (cases "v = ADIC_ZERO")
      case True
      then show ?thesis using * Inr by (simp add: sp_credit_def balance_of_def fun_eq_iff)
    next
      case False
      then obtain w where "amt_checked_add (l_balance (ledger_of view b) a) v = Some w"
        and "ledger_of view b' = (ledger_of view b)\<lparr>l_balance := (l_balance (ledger_of view b))(a := w)\<rparr>"
        using * Inr by (auto simp: sp_credit_def split: if_splits option.splits)
      then show ?thesis by (simp add: balance_of_def fun_eq_iff amt_checked_add_Some_iff)
    qed
    then show ?thesis using * run Inr by (intro paid [of b']) simp_all
  qed
qed

lemma set_same_released:
  assumes "payments_ok view provider escrow bal m"
  shows "payments_ok view provider escrow bal (set_released i (released_so_far m i) m)"
proof -
  have fin: "finite (dom (pc_released m))" using assms by (simp add: payments_ok_def)
  have "paid_to provider ((pc_released m)(i \<mapsto> released_so_far m i)) a = paid_to provider (pc_released m) a" for a
    using paid_to_update [OF fin, of provider i "released_so_far m i" a] by (simp add: units_released split: if_splits)
  then show ?thesis using assms by (simp add: payments_ok_def released_so_far_update)
qed

lemma release_payments_ok:
  assumes ok: "payments_ok view provider escrow bal m" and d: "on_terms provider escrow d" and cap: "escrow (sd_id d) \<le> MAX_SUPPLY"
  shows "payments_ok view provider escrow bal (snd (release_payment E now d m))"
proof -
  let ?i = "sd_id d" and ?r = "released_so_far m (sd_id d)"
  let ?rel = "f64_as_u64 (f64_of_u64 (base_units (sd_escrow d)) * pf_payment (pc_config m))"
  let ?m = "set_released ?i ?r m"
  have m: "payments_ok view provider escrow bal ?m" by (rule set_same_released [OF ok])
  have terms: "sd_provider d = provider ?i" "sd_escrow d = escrow ?i" using d by (simp_all add: on_terms_def)
  have "units ?r \<le> units (escrow ?i)" "unat ?rel \<le> units (escrow ?i)"
    using ok credit_share [of "pc_config m"] by (simp_all add: payments_ok_def terms)
  moreover have "units (escrow ?i) \<le> 10 ^ 18" using cap by (simp add: amount_le_iff units_MAX_SUPPLY)
  ultimately have "units ?r + unat ?rel < 2 ^ 64" by simp
  then have sum: "unat (base_units ?r + ?rel) = units ?r + unat ?rel"
    using unat_add_lem [of "base_units ?r" ?rel] by simp
  show ?thesis
  proof (cases "base_units (sd_escrow d) < base_units ?r + ?rel")
    case True
    then show ?thesis using m by (simp add: release_payment_def Let_def)
  next
    case False
    have "unat (base_units ?r + ?rel) \<le> units (sd_escrow d)"
      using False by (simp only: not_less word_le_nat_alt)
    then have le: "units ?r + unat ?rel \<le> units (escrow ?i)"
      by (simp only: terms(2) sum [unfolded terms(2)])
    have coh: "coherent view (pc_balance ?m)" using m by (simp add: payments_ok_def)
    show ?thesis
    proof (cases rule: credit_cases [OF coh, where a="sd_provider d" and v="AdicAmount ?rel" and now=now])
      case (1 e b)
      then have "snd (release_payment E now d m) = ?m\<lparr>pc_balance := b\<rparr>"
        using False by (simp add: release_payment_def Let_def proof_credit_def lift_op_def tryR_def)
      then show ?thesis using m 1 by (simp add: payments_ok_def released_so_far_def)
    next
      case (2 b)
      let ?m' = "set_released ?i (AdicAmount (base_units ?r + ?rel)) (?m\<lparr>pc_balance := b\<rparr>)"
      have run: "snd (release_payment E now d m) = ?m'"
        using False 2 by (simp add: release_payment_def Let_def proof_credit_def lift_op_def tryR_def)
      have fin: "finite (dom (pc_released ?m))" using m by (simp add: payments_ok_def)
      have "paid_to provider (pc_released ?m') a = paid_to provider (pc_released ?m) a + (if provider ?i = a then unat ?rel else 0)" for a
        using paid_to_update [OF fin, of provider ?i "AdicAmount (base_units ?r + ?rel)" a] sum by (simp split: if_splits)
      moreover have "units (released_so_far ?m' i) \<le> units (escrow i)" for i
        using ok le sum by (simp add: payments_ok_def released_so_far_update)
      ultimately show ?thesis
        unfolding run using m 2 by (simp add: payments_ok_def terms)
    qed
  qed
qed

end

section \<open>Runs\<close>

datatype proof_cmd =
    ProofChallenge storage_deal u64 u64
  | ProofSubmit i64 storage_proof storage_deal u64
  | ProofExpire "challenge_window list" u64
  | ProofFraud message_id fraud_proof
  | ProofMessage u64 message_id

fun proof_exec :: "'s market_env \<Rightarrow> proof_cmd \<Rightarrow> 's proof_cycle \<Rightarrow> 's proof_cycle" where
  "proof_exec v (ProofChallenge d epoch current_epoch) m = snd (generate_challenge v d epoch current_epoch m)"
| "proof_exec v (ProofSubmit now p d current_epoch) m = snd (submit_proof v now p d current_epoch m)"
| "proof_exec v (ProofExpire order current_epoch) m = snd (process_expired_windows v (\<lambda>_. order) current_epoch m)"
| "proof_exec v (ProofFraud i f) m = snd (proof_submit_fraud v i f m)"
| "proof_exec v (ProofMessage i j) m = register_proof_message i j m"

fun cmd_on_terms :: "(u64 \<Rightarrow> account_address) \<Rightarrow> (u64 \<Rightarrow> adic_amount) \<Rightarrow> proof_cmd \<Rightarrow> bool" where
  "cmd_on_terms provider escrow (ProofSubmit now p d current_epoch) \<longleftrightarrow> on_terms provider escrow d"
| "cmd_on_terms provider escrow _ \<longleftrightarrow> True"

inductive proof_reach :: "'s market_env \<Rightarrow> (u64 \<Rightarrow> account_address) \<Rightarrow> (u64 \<Rightarrow> adic_amount) \<Rightarrow> 's proof_cycle \<Rightarrow> 's proof_cycle \<Rightarrow> bool"
  for v provider escrow m0 where
  init: "proof_reach v provider escrow m0 m0"
| step: "proof_reach v provider escrow m0 m \<Longrightarrow> cmd_on_terms provider escrow c \<Longrightarrow> proof_reach v provider escrow m0 (proof_exec v c m)"

lemma generate_challenge_keeps [simp]:
  "pc_balance (snd (generate_challenge v d epoch e m)) = pc_balance m"
  "pc_released (snd (generate_challenge v d epoch e m)) = pc_released m"
  "pc_config (snd (generate_challenge v d epoch e m)) = pc_config m"
  by (simp_all add: generate_challenge_def Let_def split: sum.split)

lemma fraud_keeps [simp]:
  "pc_balance (snd (proof_submit_fraud v i f m)) = pc_balance m"
  "pc_released (snd (proof_submit_fraud v i f m)) = pc_released m"
  "pc_config (snd (proof_submit_fraud v i f m)) = pc_config m"
  by (simp_all add: proof_submit_fraud_def lift_op_def tryR_def split: option.split prod.split sum.split)

lemma submit_proof_state:
  "\<exists>w. snd (submit_proof v now p d e m) = m \<or>
     (case release_payment (mk_econ v) now d (m\<lparr>pc_windows := w\<rparr>) of
        (Inl _, m') \<Rightarrow> snd (submit_proof v now p d e m) = m'
      | (Inr _, m') \<Rightarrow> snd (submit_proof v now p d e m) =
          m'\<lparr>pc_proofs := push_entry (sd_id d) p (pc_proofs m'), pc_pending := (pc_pending m')(sd_id d := None)\<rparr>)"
proof (cases "validate_proof_timing (pc_config m) p e")
  case (Inl x)
  then show ?thesis by (simp add: submit_proof_def)
next
  case 1: (Inr x)
  show ?thesis
  proof (cases "pc_pending m (sd_id d)")
    case None
    then show ?thesis using 1 by (simp add: submit_proof_def)
  next
    case 2: (Some cs)
    show ?thesis
    proof (cases "bindE (verify_challenge_authenticity p cs) (\<lambda>_. verify_merkle_proofs (mk_blake3 v) p cs d)")
      case (Inl x)
      then show ?thesis using 1 2 by (simp add: submit_proof_def)
    next
      case (Inr x)
      then show ?thesis
        using 1 2
        by (intro exI [of _ "snd (open_window (mk_hexb v) (compute_proof_id (mk_blake3 v) p (sd_id d)) e (pc_windows m))"])
          (auto simp: submit_proof_def lift_op_def open_window_def tryR_def split: prod.split sum.split)
    qed
  qed
qed

context economics_storage
begin

lemma proof_run_ok:
  assumes "proof_reach v provider escrow m0 m" and "mk_econ v = E" and "payments_ok view provider escrow bal m0"
    and "\<And>i. escrow i \<le> MAX_SUPPLY"
  shows "payments_ok view provider escrow bal m"
  using assms(1)
proof induction
  case init
  show ?case by (rule assms(3))
next
  case (step m c)
  show ?case
  proof (cases c)
    case (ProofSubmit now p d e)
    obtain w where w: "snd (submit_proof v now p d e m) = m \<or>
       (case release_payment (mk_econ v) now d (m\<lparr>pc_windows := w\<rparr>) of
          (Inl _, m') \<Rightarrow> snd (submit_proof v now p d e m) = m'
        | (Inr _, m') \<Rightarrow> snd (submit_proof v now p d e m) =
            m'\<lparr>pc_proofs := push_entry (sd_id d) p (pc_proofs m'), pc_pending := (pc_pending m')(sd_id d := None)\<rparr>)"
      by (rule exE [OF submit_proof_state [of v now p d e m]])
    have "payments_ok view provider escrow bal (m\<lparr>pc_windows := w\<rparr>)"
      using step.IH payments_ok_cong [of "m\<lparr>pc_windows := w\<rparr>" m] by simp
    then have rel: "payments_ok view provider escrow bal (snd (release_payment E now d (m\<lparr>pc_windows := w\<rparr>)))"
      using step.hyps(2) assms(4) by (intro release_payments_ok) (simp_all add: ProofSubmit)
    obtain r m' where run: "release_payment E now d (m\<lparr>pc_windows := w\<rparr>) = (r, m')"
      by (cases "release_payment E now d (m\<lparr>pc_windows := w\<rparr>)")
    show ?thesis
      using w step.IH rel payments_ok_cong [of "m'\<lparr>pc_proofs := push_entry (sd_id d) p (pc_proofs m'),
          pc_pending := (pc_pending m')(sd_id d := None)\<rparr>" m']
      by (cases r) (auto simp: ProofSubmit assms(2) run)
  qed (rule payments_ok_keep [OF step.IH]; simp add: process_expired_windows_def Let_def register_proof_message_def)+
qed

end

section \<open>Completion\<close>

context economics_storage
begin

lemma proof_credit_run:
  assumes "coherent view (pc_balance m)" and "balance_of view (pc_balance m) a + units w \<le> units MAX_SUPPLY"
  obtains b where "proof_credit E now a w m = (Inr (), m\<lparr>pc_balance := b\<rparr>)" and "coherent view b"
    and "balance_of view b = (balance_of view (pc_balance m))(a := balance_of view (pc_balance m) a + units w)"
proof -
  obtain b where "credit E now a w (pc_balance m) = (Inr (), b)" and "coherent view b"
    and "balance_of view b = (balance_of view (pc_balance m))(a := balance_of view (pc_balance m) a + units w)"
    by (rule credit_run [OF assms])
  then show ?thesis by (intro that [of b]) (simp_all add: proof_credit_def lift_op_def)
qed

lemma complete_deal_pays:
  fixes d m
  defines "rem \<equiv> units (sd_escrow d) - units (released_so_far m (sd_id d))"
  assumes coh: "coherent view (pc_balance m)" and over: "pred_option (\<lambda>s. sd_duration d \<le> sat_sub e s) (sd_start_epoch d)"
    and room: "balance_of view (pc_balance m) (sd_provider d) + rem + units (sd_collateral d) \<le> units MAX_SUPPLY"
  obtains b where "complete_deal E now d e m = (deal_transition DealCompleted d, m\<lparr>pc_balance := b\<rparr>)" and "coherent view b"
    and "balance_of view b = (balance_of view (pc_balance m))(sd_provider d :=
      balance_of view (pc_balance m) (sd_provider d) + rem + units (sd_collateral d))"
proof -
  let ?rem = "sat_sub (base_units (sd_escrow d)) (base_units (released_so_far m (sd_id d)))" and ?p = "sd_provider d"
  let ?pay = "if 0 < ?rem then proof_credit E now ?p (AdicAmount ?rem) else okR ()"
  have rem: "unat ?rem = rem" by (simp add: rem_def unat_sat_sub)
  obtain b where pay: "?pay m = (Inr (), m\<lparr>pc_balance := b\<rparr>)" and b: "coherent view b"
    "balance_of view b = (balance_of view (pc_balance m))(?p := balance_of view (pc_balance m) ?p + rem)"
  proof (cases "?rem = 0")
    case True
    then show ?thesis using that [of "pc_balance m"] coh rem by (simp add: okR_def)
  next
    case False
    then have pos: "0 < ?rem" by (simp add: word_neq_0_conv)
    have room': "balance_of view (pc_balance m) ?p + units (AdicAmount ?rem) \<le> units MAX_SUPPLY"
      using room by (simp add: rem)
    show ?thesis
      by (rule proof_credit_run [OF coh room', of now]) (use pos rem in \<open>simp add: that\<close>)
  qed
  have coh': "coherent view (pc_balance (m\<lparr>pc_balance := b\<rparr>))" using b by simp
  have "balance_of view (pc_balance (m\<lparr>pc_balance := b\<rparr>)) ?p + units (sd_collateral d) \<le> units MAX_SUPPLY"
    using room b(2) by simp
  from proof_credit_run [OF coh' this, of now] obtain c where
    run: "proof_credit E now ?p (sd_collateral d) (m\<lparr>pc_balance := b\<rparr>) = (Inr (), m\<lparr>pc_balance := c\<rparr>)" and c: "coherent view c"
    "balance_of view c = (balance_of view b)(?p := balance_of view b ?p + units (sd_collateral d))"
    by simp metis
  have "complete_deal E now d e m = (deal_transition DealCompleted d, m\<lparr>pc_balance := c\<rparr>)"
    using over pay run
    by (cases "sd_start_epoch d")
      (auto simp: complete_deal_def Let_def tryR_def errR_def okR_def not_less [symmetric] split: sum.split)
  then show ?thesis using c b by (intro that) simp_all
qed

end

section \<open>Properties\<close>

text \<open>C34: From any state in which the releases recorded stay within the escrows, whatever challenges, proofs, expiries and
  fraud proofs follow and in whatever order, what is released for a deal never exceeds its escrow, and each
  account has exactly what it started with and the releases recorded for the deals it serves: refused proofs
  and failed credits pay nothing.\<close>

theorem releases_match_balances:
  assumes "proof_reach v provider escrow m0 m" and "mk_econ v = memory_ops keys"
    and "\<And>i. escrow i \<le> MAX_SUPPLY" and "coherent mem_view (pc_balance m0)" and "pc_released m0 = Map.empty"
    and "0 \<le> pf_payment (pc_config m0)" and "pf_payment (pc_config m0) \<le> 1"
  shows "units (released_so_far m i) \<le> units (escrow i) \<and>
    balance_of mem_view (pc_balance m) a = balance_of mem_view (pc_balance m0) a + paid_to provider (pc_released m) a"
  using mem.proof_run_ok [OF assms(1,2) payments_ok_start [OF assms(4-7)] assms(3)] by (simp add: payments_ok_def)

text \<open>A chunk is bound to its position: two Merkle proofs of one length that verify at one index against the same
  root carry the same data, unless two of the inputs hashed for them collide.\<close>

theorem merkle_proof_binds_chunk:
  assumes "\<And>x. length (blake3 x) = 32" and "merkle_verify blake3 p node" and "merkle_verify blake3 q node"
    and "mp_index p = mp_index q" and "length (mp_siblings p) = length (mp_siblings q)"
    and "list_all (\<lambda>s. length s = 32) (mp_siblings p @ mp_siblings q)"
    and "inj_on blake3 ({mp_data p, mp_data q} \<union> path_inputs blake3 (blake3 (mp_data p)) (mp_index p) (mp_siblings p) \<union>
      path_inputs blake3 (blake3 (mp_data q)) (mp_index q) (mp_siblings q))"
  shows "mp_data p = mp_data q \<and> mp_siblings p = mp_siblings q"
proof -
  have "inj_on blake3 (path_inputs blake3 (blake3 (mp_data p)) (mp_index p) (mp_siblings p) \<union>
      path_inputs blake3 (blake3 (mp_data q)) (mp_index p) (mp_siblings q))"
    by (rule inj_on_subset [OF assms(7)]) (auto simp: assms(4))
  from merkle_path_inj [OF assms(1,5,6) assms(1,1) this]
  have "blake3 (mp_data p) = blake3 (mp_data q) \<and> mp_siblings p = mp_siblings q"
    using assms(2-4) by (simp add: merkle_verify_def)
  then show ?thesis using inj_onD [OF assms(7), of "mp_data p" "mp_data q"] by simp
qed

text \<open>C35: Without the length of the path checked, any input that hashes to the root answers every challenge: a proof
  that repeats it, with no siblings, for each index asked for is accepted. The node below the root of a tree
  is such an input, so 64 bytes are enough to hold for a file of any size.\<close>

theorem preimage_of_root_answers_challenges:
  assumes "sd_merkle_root d = Some (blake3 x)" and "sp_challenges p = challenges"
    and "sp_proofs p = map (\<lambda>i. \<lparr>mp_index = i, mp_data = x, mp_siblings = []\<rparr>) challenges"
  shows "bindE (verify_challenge_authenticity p challenges) (\<lambda>_. verify_merkle_proofs blake3 p challenges d) = Inr ()"
proof -
  have "list_all (\<lambda>(i, q). mp_index q = i \<and> merkle_verify blake3 q (blake3 x)) (zip challenges (sp_proofs p))"
    by (auto simp: assms(3) zip_map2 list_all_iff merkle_verify_def zip_same)
  moreover have "list_all (\<lambda>(a, b). a = b) (zip challenges challenges)" by (auto simp: list_all_iff zip_same)
  ultimately show ?thesis by (simp add: verify_challenge_authenticity_def verify_merkle_proofs_def assms)
qed

text \<open>No provider is found to have missed a proof before the term of the deal is over, whatever it has failed to
  prove: one proof is expected per whole term.\<close>

theorem no_missed_proof_within_term:
  assumes "sd_start_epoch d = Some s" and "sat_sub e s < sd_duration d"
  shows "check_missed_proofs v now d e m = (Inr d, m)"
proof -
  have "sd_duration d \<noteq> 0" using assms(2) by auto
  moreover have "sat_sub e s div sd_duration d = 0" using assms(2) by (simp add: word_arith_nat_div div_less word_less_nat_alt)
  ultimately show ?thesis by (simp add: check_missed_proofs_def assms Let_def okR_def)
qed

text \<open>Completion pays first and looks at the state of the deal afterwards. For a deal that is not active the
  call is refused, and yet the provider has received the unreleased escrow and the collateral; nothing is
  recorded of it, so that the next call pays the same again.\<close>

theorem refused_completion_pays:
  assumes "coherent mem_view (pc_balance m)" and "sd_status d \<noteq> DealActive"
    and "pred_option (\<lambda>s. sd_duration d \<le> sat_sub e s) (sd_start_epoch d)"
    and "balance_of mem_view (pc_balance m) (sd_provider d) +
      (units (sd_escrow d) - units (released_so_far m (sd_id d))) + units (sd_collateral d) \<le> units MAX_SUPPLY"
  shows "\<exists>b. complete_deal (memory_ops keys) now d e m = (Inl InvalidStateTransition, m\<lparr>pc_balance := b\<rparr>) \<and>
    coherent mem_view b \<and>
    balance_of mem_view b = (balance_of mem_view (pc_balance m))(sd_provider d :=
      balance_of mem_view (pc_balance m) (sd_provider d) +
      (units (sd_escrow d) - units (released_so_far m (sd_id d))) + units (sd_collateral d))"
proof -
  have "deal_transition DealCompleted d = Inl InvalidStateTransition"
    using assms(2) by (cases "sd_status d") (simp_all add: deal_transition_def)
  then show ?thesis
    using mem.complete_deal_pays [OF assms(1,3,4), where now=now and keys=keys] by metis
qed

section \<open>Concrete instances\<close>

definition pad_hash :: "bytes \<Rightarrow> bytes" where
  "pad_hash x = take 32 (List.rev x @ replicate 32 0)"

definition sample_env :: "memory_storage market_env" where
  "sample_env = \<lparr>mk_blake3 = pad_hash, mk_hexb = id, mk_hex = (\<lambda>_. []), mk_econ = market_ops\<rparr>"

definition sample_cycle :: "memory_storage proof_cycle" where
  "sample_cycle = (proof_cycle_new proof_config_default funded (window_manager_new challenge_config_default) sample_service
     adjudication_config_default)\<lparr>pc_pending := [1 \<mapsto> [0, 2]]\<rparr>"

definition proved_deal :: storage_deal where
  "proved_deal = running_deal\<lparr>sd_status := DealActive, sd_merkle_root := Some (pad_hash [9])\<rparr>"

definition cheap_proof :: storage_proof where
  "cheap_proof = market_message.extend (blank_message 3000)
     (storage_proof.fields 0 (AccountAddress addr_b) 6 [0, 2]
        (map (\<lambda>i. \<lparr>mp_index = i, mp_data = [9], mp_siblings = []\<rparr>) [0, 2]))"

lemma sample_cycle_simps:
  "pc_balance sample_cycle = funded" "pc_released sample_cycle = Map.empty" "pc_config sample_cycle = proof_config_default"
  by (simp_all add: sample_cycle_def proof_cycle_new_def)

lemma proved_deal_simps:
  "sd_duration proved_deal = 4" "sd_start_epoch proved_deal = Some 5" "sd_merkle_root proved_deal = Some (pad_hash [9])"
  "sd_escrow proved_deal = AdicAmount 4" "sd_collateral proved_deal = AdicAmount 4" "sd_status proved_deal = DealActive"
  "sd_provider proved_deal = AccountAddress addr_b" "sd_id proved_deal = 1"
  by (simp_all add: proved_deal_def running_deal_simps)
    (simp_all add: running_deal_def deal_from_def storage_deal.defs market_message.defs blank_message_def sample_acceptance_simps)

lemma releases_match_balances_witness:
  "let m = proof_exec sample_env (ProofSubmit 3000 cheap_proof proved_deal 6) sample_cycle
   in units (released_so_far m 1) \<le> 4 \<and>
     balance_of mem_view (pc_balance m) (AccountAddress addr_b) = paid_to (\<lambda>_. AccountAddress addr_b) (pc_released m) (AccountAddress addr_b)"
proof -
  have "proof_reach sample_env (\<lambda>_. AccountAddress addr_b) (\<lambda>_. AdicAmount 4) sample_cycle
      (proof_exec sample_env (ProofSubmit 3000 cheap_proof proved_deal 6) sample_cycle)"
    by (intro proof_reach.step proof_reach.init) (simp add: on_terms_def proved_deal_simps)
  from releases_match_balances [OF this, of "\<lambda>_. []" 1 "AccountAddress addr_b"] show ?thesis
    by (simp add: Let_def sample_env_def sample_cycle_simps funded_coherent funded_balance proof_config_default_def amount_le_iff
        units_MAX_SUPPLY)
qed

lemma preimage_of_root_answers_challenges_witness:
  "bindE (verify_challenge_authenticity cheap_proof [0, 2]) (\<lambda>_. verify_merkle_proofs pad_hash cheap_proof [0, 2] proved_deal) = Inr ()"
  by (rule preimage_of_root_answers_challenges [of _ pad_hash "[9]"])
    (simp_all add: proved_deal_simps cheap_proof_def storage_proof.defs market_message.defs blank_message_def)

lemma merkle_proof_binds_chunk_witness:
  "\<exists>p. merkle_verify pad_hash p (pad_hash (pad_hash [9] @ replicate 32 2)) \<and>
     (mp_data p = mp_data \<lparr>mp_index = 0, mp_data = [9], mp_siblings = [replicate 32 2]\<rparr>)"
proof -
  let ?p = "\<lparr>mp_index = 0, mp_data = [9], mp_siblings = [replicate 32 2]\<rparr>"
  have "mp_data ?p = mp_data ?p \<and> mp_siblings ?p = mp_siblings ?p"
    by (rule merkle_proof_binds_chunk [of pad_hash _ "pad_hash (pad_hash [9] @ replicate 32 2)"])
      (simp_all add: pad_hash_def merkle_verify_def Let_def)
  moreover have "merkle_verify pad_hash ?p (pad_hash (pad_hash [9] @ replicate 32 2))" by (simp add: merkle_verify_def)
  ultimately show ?thesis by blast
qed

lemma no_missed_proof_within_term_witness: "check_missed_proofs sample_env 3000 proved_deal 8 sample_cycle = (Inr proved_deal, sample_cycle)"
  by (rule no_missed_proof_within_term [of _ 5]) (simp_all add: proved_deal_simps sat_sub_def)

lemma refused_completion_pays_witness:
  "\<exists>b. complete_deal market_ops 3000 (proved_deal\<lparr>sd_status := DealFailed\<rparr>) 9 sample_cycle =
      (Inl InvalidStateTransition, sample_cycle\<lparr>pc_balance := b\<rparr>) \<and>
    balance_of mem_view b (AccountAddress addr_b) = 8"
  using refused_completion_pays [of sample_cycle "proved_deal\<lparr>sd_status := DealFailed\<rparr>" 9 "\<lambda>_. []" 3000]
  by (simp add: sample_cycle_simps proved_deal_simps funded_coherent funded_balance sat_sub_def released_so_far_def ADIC_ZERO_def units_MAX_SUPPLY)
    (metis fun_upd_same)

end
