(* ===== verification/Conflict_Energy.thy ===== *)
theory Conflict_Energy
  imports Kcore
begin

text \<open>
  Conflicts between messages, \<open>EnergyDescentTracker\<close> (\<open>crates/adic-consensus/src/energy_descent.rs\<close>): the support of each
  message of a conflict set, which adds the reputations of the proposers of its descendants, discounted by
  their depth; the energy of the set; whether it is resolved; and the penalty of its losers. The tracker
  reads the message store through an arbitrary backend. \<open>ord\<close> and \<open>word\<close> are the orders in which the hash
  tables of descendants and of supports are read; supports and energies are exact reals.

  The lemmas show that the support of a message is well defined and what the energy is: the distance between
  the leader and all others together.
\<close>

section \<open>State\<close>

record conflict_energy =
  ce_conflict_id :: conflict_id
  ce_support :: "message_id \<rightharpoonup> f64"
  ce_total_energy :: f64
  ce_is_descending :: bool
  ce_history :: "f64 list"
  ce_last_update :: i64

definition conflict_energy_new :: "i64 \<Rightarrow> conflict_id \<Rightarrow> conflict_energy" where
  "conflict_energy_new now c = \<lparr>ce_conflict_id = c, ce_support = Map.empty, ce_total_energy = 0, ce_is_descending = False,
     ce_history = [], ce_last_update = now div 1000\<rparr>"

record energy_tracker =
  et_conflicts :: "conflict_id \<rightharpoonup> conflict_energy"
  et_depths :: "message_id \<rightharpoonup> u32"
  et_lambda :: f64
  et_mu :: f64
  et_delta :: f64
  et_c :: f64

definition energy_tracker_new :: "f64 \<Rightarrow> f64 \<Rightarrow> energy_tracker" where
  "energy_tracker_new lambda mu = \<lparr>et_conflicts = Map.empty, et_depths = Map.empty, et_lambda = lambda, et_mu = mu,
     et_delta = 1 / 10, et_c = 1 / 100\<rparr>"

section \<open>Support\<close>

text \<open>The descendants of a message. The vector of messages to look at is a stack, its top the head of the list.\<close>

primrec push_new :: "'a list \<Rightarrow> 'a set \<Rightarrow> 'a list \<Rightarrow> 'a set \<times> 'a list" where
  "push_new [] seen stack = (seen, stack)"
| "push_new (x # xs) seen stack =
     (if x \<in> seen then push_new xs seen stack else push_new xs (insert x seen) (x # stack))"

partial_function (option) descend_loop :: "(message_id \<Rightarrow> message_id list) \<Rightarrow> message_id list \<Rightarrow> message_id set \<Rightarrow> message_id set \<Rightarrow>
    message_id set option" where
  "descend_loop children stack visited found =
     (case stack of
        [] \<Rightarrow> Some found
      | current # stack \<Rightarrow>
          (if current \<in> visited then descend_loop children stack visited found
           else (case push_new (children current) found stack of (found, stack) \<Rightarrow>
                   descend_loop children stack (insert current visited) found)))"

definition conflict_descendants :: "'s storage_backend \<Rightarrow> 's \<Rightarrow> message_id \<Rightarrow> message_id set option" where
  "conflict_descendants B s i = descend_loop (children_of B s) [i] {} {}"

text \<open>The depth of a message: the length of the path of first parents from it, cut off after 10001 steps.\<close>

function depth_climb :: "(message_id \<Rightarrow> 'e + message_id list) \<Rightarrow> message_id set \<Rightarrow> nat \<Rightarrow> message_id \<Rightarrow> nat" where
  "depth_climb parents visited depth current =
     (if current \<in> visited then depth
      else case parents current of
          Inl _ \<Rightarrow> depth
        | Inr [] \<Rightarrow> depth
        | Inr (q # _) \<Rightarrow>
            (if 10000 < depth + 1 then depth + 1
             else depth_climb parents (insert current visited) (depth + 1) q))"
  by pat_completeness auto

termination depth_climb
  by (relation "measure (\<lambda>(_, _, depth, _). 10001 - depth)") auto

definition calculate_depth_from_storage :: "'s storage_backend \<Rightarrow> 's \<Rightarrow> message_id \<Rightarrow> u32" where
  "calculate_depth_from_storage B s i = of_nat (depth_climb (\<lambda>x. sb_get_parents B x s) {} 0 i)"

definition cached_depth :: "'s storage_backend \<Rightarrow> 's \<Rightarrow> message_id \<Rightarrow> (message_id \<rightharpoonup> u32) \<Rightarrow> u32 \<times> (message_id \<rightharpoonup> u32)" where
  "cached_depth B s i cache =
     (case cache i of
        Some d \<Rightarrow> (d, cache)
      | None \<Rightarrow> (let d = calculate_depth_from_storage B s i in (d, cache(i \<mapsto> d))))"

fun support_loop :: "'s storage_backend \<Rightarrow> 's \<Rightarrow> reputation_tracker \<Rightarrow> message_id list \<Rightarrow> f64 \<Rightarrow> (message_id \<rightharpoonup> u32) \<Rightarrow>
    f64 \<times> (message_id \<rightharpoonup> u32)" where
  "support_loop B s t [] total_support cache = (total_support, cache)"
| "support_loop B s t (i # is) total_support cache =
     (case sb_get_message B i s of
        Inr (Some m) \<Rightarrow>
          (case cached_depth B s i cache of (depth, cache) \<Rightarrow>
             support_loop B s t is (total_support + get_reputation t (am_proposer m) / (1 + real (unat depth))) cache)
      | _ \<Rightarrow> support_loop B s t is total_support cache)"

definition calculate_support_cached :: "(message_id set \<Rightarrow> message_id list) \<Rightarrow> 's storage_backend \<Rightarrow> 's \<Rightarrow> reputation_tracker \<Rightarrow>
    message_id \<Rightarrow> (message_id \<rightharpoonup> u32) \<Rightarrow> (f64 \<times> (message_id \<rightharpoonup> u32)) option" where
  "calculate_support_cached ord B s t i cache =
     map_option (\<lambda>found. support_loop B s t (ord found) 0 cache) (conflict_descendants B s i)"

section \<open>Energy\<close>

fun leader_loop :: "(message_id \<times> f64) list \<Rightarrow> f64 \<Rightarrow> message_id option \<Rightarrow> message_id option" where
  "leader_loop [] max_support winner = winner"
| "leader_loop ((i, x) # es) max_support winner =
     (if max_support < x then leader_loop es x (Some i) else leader_loop es max_support winner)"

fun signed_loop :: "message_id option \<Rightarrow> (message_id \<times> f64) list \<Rightarrow> f64 \<Rightarrow> f64" where
  "signed_loop winner [] signed_support = signed_support"
| "signed_loop winner ((i, x) # es) signed_support =
     signed_loop winner es (signed_support + (if Some i = winner then 1 else - 1) * x)"

definition support_entries :: "(message_id set \<Rightarrow> message_id list) \<Rightarrow> conflict_energy \<Rightarrow> (message_id \<times> f64) list" where
  "support_entries ord e = map (\<lambda>i. (i, the (ce_support e i))) (ord (dom (ce_support e)))"

definition check_drift :: "conflict_energy \<Rightarrow> conflict_energy" where
  "check_drift e =
     (let h = ce_history e; n = length h
      in if 2 \<le> n then e\<lparr>ce_is_descending := h ! (n - 1) < h ! (n - 2)\<rparr> else e)"

definition update_energy :: "(message_id set \<Rightarrow> message_id list) \<Rightarrow> i64 \<Rightarrow> conflict_energy \<Rightarrow> conflict_energy" where
  "update_energy ord now e =
     (let history = (if 100 \<le> length (ce_history e) then drop 1 (ce_history e) else ce_history e) @ [ce_total_energy e];
          entries = support_entries ord e;
          winner = leader_loop entries 0 None
      in (check_drift (e\<lparr>ce_history := history, ce_total_energy := \<bar>signed_loop winner entries 0\<bar>\<rparr>))\<lparr>ce_last_update := now div 1000\<rparr>)"

text \<open>\<open>max_by\<close> keeps the last of several largest entries.\<close>

fun max_entry :: "(message_id \<times> f64) list \<Rightarrow> (message_id \<times> f64) option" where
  "max_entry [] = None"
| "max_entry (e # es) = (case max_entry es of None \<Rightarrow> Some e | Some e' \<Rightarrow> if snd e \<le> snd e' then Some e' else Some e)"

definition energy_winner :: "(message_id set \<Rightarrow> message_id list) \<Rightarrow> conflict_energy \<Rightarrow> message_id option" where
  "energy_winner ord e = map_option fst (max_entry (support_entries ord e))"

definition energy_is_resolved :: "f64 \<Rightarrow> conflict_energy \<Rightarrow> bool" where
  "energy_is_resolved threshold e \<longleftrightarrow> ce_total_energy e < threshold \<and> ce_is_descending e"

section \<open>Tracker\<close>

definition update_energy_params :: "f64 \<Rightarrow> f64 \<Rightarrow> energy_tracker \<Rightarrow> energy_tracker" where
  "update_energy_params lambda mu k = k\<lparr>et_lambda := lambda, et_mu := mu\<rparr>"

definition cache_depth :: "message_id \<Rightarrow> u32 \<Rightarrow> energy_tracker \<Rightarrow> energy_tracker" where
  "cache_depth i d k = k\<lparr>et_depths := (et_depths k)(i \<mapsto> d)\<rparr>"

definition cleanup_depth_cache :: "nat \<Rightarrow> energy_tracker \<Rightarrow> energy_tracker" where
  "cleanup_depth_cache keep_recent k = (if keep_recent * 2 < card (dom (et_depths k)) then k\<lparr>et_depths := Map.empty\<rparr> else k)"

definition conflict_entry :: "i64 \<Rightarrow> conflict_id \<Rightarrow> energy_tracker \<Rightarrow> conflict_energy" where
  "conflict_entry now c k = (case et_conflicts k c of None \<Rightarrow> conflict_energy_new now c | Some e \<Rightarrow> e)"

definition register_conflict :: "i64 \<Rightarrow> conflict_id \<Rightarrow> energy_tracker \<Rightarrow> energy_tracker" where
  "register_conflict now c k = k\<lparr>et_conflicts := (et_conflicts k)(c \<mapsto> conflict_entry now c k)\<rparr>"

definition update_support :: "(message_id set \<Rightarrow> message_id list) \<Rightarrow> (message_id set \<Rightarrow> message_id list) \<Rightarrow> 's storage_backend \<Rightarrow> 's \<Rightarrow>
    reputation_tracker \<Rightarrow> i64 \<Rightarrow> conflict_id \<Rightarrow> message_id \<Rightarrow> energy_tracker \<Rightarrow> energy_tracker option" where
  "update_support ord word B s t now c i k =
     (let e = conflict_entry now c k
      in map_option (\<lambda>(support, cache).
           k\<lparr>et_depths := cache,
             et_conflicts := (et_conflicts k)(c \<mapsto> update_energy word now (e\<lparr>ce_support := (ce_support e)(i \<mapsto> support)\<rparr>))\<rparr>)
         (calculate_support_cached ord B s t i (et_depths k)))"

text \<open>The smallest support starts at infinity: \<^term>\<open>None\<close> is a drift that is not finite.\<close>

definition calculate_expected_drift :: "energy_tracker \<Rightarrow> conflict_id \<Rightarrow> f64 option" where
  "calculate_expected_drift k c =
     (case et_conflicts k c of
        None \<Rightarrow> Some 0
      | Some e \<Rightarrow>
          (if et_delta k < ce_total_energy e
           then (if ran (ce_support e) = {} then None
                 else Some (- ((Max (insert 0 (ran (ce_support e))) - Min (ran (ce_support e))) * et_c k)))
           else Some 0))"

definition tracker_penalty :: "(message_id set \<Rightarrow> message_id list) \<Rightarrow> energy_tracker \<Rightarrow> message_id \<Rightarrow> conflict_id \<Rightarrow> f64" where
  "tracker_penalty word k i c =
     (case et_conflicts k c of
        None \<Rightarrow> 0
      | Some e \<Rightarrow>
          (case energy_winner word e of
             None \<Rightarrow> 0
           | Some winner \<Rightarrow> if winner \<noteq> i then et_mu k * ce_total_energy e else 0))"

definition tracker_is_resolved :: "energy_tracker \<Rightarrow> conflict_id \<Rightarrow> bool" where
  "tracker_is_resolved k c = (case et_conflicts k c of None \<Rightarrow> False | Some e \<Rightarrow> energy_is_resolved (et_delta k) e)"

definition tracker_winner :: "(message_id set \<Rightarrow> message_id list) \<Rightarrow> energy_tracker \<Rightarrow> conflict_id \<Rightarrow> message_id option" where
  "tracker_winner word k c =
     (case et_conflicts k c of
        None \<Rightarrow> None
      | Some e \<Rightarrow> if energy_is_resolved (et_delta k) e then energy_winner word e else None)"

definition get_total_energy :: "energy_tracker \<Rightarrow> f64" where
  "get_total_energy k = (\<Sum>c\<in>dom (et_conflicts k). ce_total_energy (the (et_conflicts k c)))"

definition cleanup_resolved :: "i64 \<Rightarrow> i64 \<Rightarrow> energy_tracker \<Rightarrow> energy_tracker" where
  "cleanup_resolved now max_age_seconds k =
     k\<lparr>et_conflicts := (\<lambda>c. case et_conflicts k c of
        None \<Rightarrow> None
      | Some e \<Rightarrow>
          if now div 1000 - ce_last_update e < max_age_seconds \<or> \<not> energy_is_resolved (et_delta k) e then Some e else None)\<rparr>"

record energy_metrics =
  em_total :: nat
  em_resolved :: nat
  em_descending :: nat
  em_energy :: f64
  em_average :: f64

definition energy_get_metrics :: "energy_tracker \<Rightarrow> energy_metrics" where
  "energy_get_metrics k =
     (let n = card (dom (et_conflicts k))
      in \<lparr>em_total = n,
          em_resolved = card {c. \<exists>e. et_conflicts k c = Some e \<and> energy_is_resolved (et_delta k) e},
          em_descending = card {c. \<exists>e. et_conflicts k c = Some e \<and> ce_is_descending e},
          em_energy = get_total_energy k,
          em_average = (if 0 < n then get_total_energy k / real n else 0)\<rparr>)"

definition get_resolved_conflicts :: "energy_tracker \<Rightarrow> conflict_id set" where
  "get_resolved_conflicts k = {c. \<exists>e. et_conflicts k c = Some e \<and> energy_is_resolved (et_delta k) e}"

definition get_conflict_details :: "energy_tracker \<Rightarrow> conflict_id \<Rightarrow> conflict_energy option" where
  "get_conflict_details k c = et_conflicts k c"

definition get_energy :: "energy_tracker \<Rightarrow> conflict_id \<Rightarrow> f64" where
  "get_energy k c = (case et_conflicts k c of None \<Rightarrow> 0 | Some e \<Rightarrow> ce_total_energy e)"

definition register_conflict_with_messages :: "i64 \<Rightarrow> string \<Rightarrow> message_id list \<Rightarrow> energy_tracker \<Rightarrow> energy_tracker" where
  "register_conflict_with_messages now c ids = register_conflict now (ConflictId c)"

section \<open>Descendants\<close>

lemma push_new_props:
  assumes "push_new xs seen stack = (seen', stack')" and "finite seen"
  shows "seen' = seen \<union> set xs \<and> set stack' = set stack \<union> (set xs - seen) \<and> length stack' + card seen = length stack + card seen'"
  using assms
proof (induction xs arbitrary: seen stack)
  case (Cons x xs)
  show ?case
  proof (cases "x \<in> seen")
    case True
    then have "push_new xs seen stack = (seen', stack')" using Cons.prems(1) by simp
    from Cons.IH [OF this Cons.prems(2)] show ?thesis using True by auto
  next
    case False
    then have "push_new xs (insert x seen) (x # stack) = (seen', stack')" using Cons.prems(1) by simp
    from Cons.IH [OF this] Cons.prems(2) show ?thesis using False by auto
  qed
qed auto

lemma descend_loop_correct:
  assumes fin: "finite U" and U: "\<And>x. set (children x) \<subseteq> U"
    and "found \<subseteq> U" and "set stack \<subseteq> insert i found" and "insert i found \<subseteq> visited \<union> set stack"
    and "found \<subseteq> (child_rel children)\<^sup>+ `` {i}" and "visited \<subseteq> insert i found" and "\<forall>x\<in>visited. set (children x) \<subseteq> found"
  shows "descend_loop children stack visited found = Some ((child_rel children)\<^sup>+ `` {i})"
  using assms(3-)
proof (induction "2 * card (U - found) + length stack" arbitrary: visited found stack rule: less_induct)
  case less
  show ?case
  proof (cases stack)
    case Nil
    have "y \<in> found" if "(i, y) \<in> (child_rel children)\<^sup>+" for y
      using that less.prems(3,6) Nil by induction (auto simp: child_rel_def)
    with less.prems(4) Nil show ?thesis by (subst descend_loop.simps) auto
  next
    case (Cons x q)
    show ?thesis
    proof (cases "x \<in> visited")
      case True
      then have "descend_loop children q visited found = Some ((child_rel children)\<^sup>+ `` {i})"
        by (intro less.hyps) (use less.prems Cons in auto)
      then show ?thesis using True by (subst descend_loop.simps) (simp add: Cons)
    next
      case False
      obtain f' q' where e: "push_new (children x) found q = (f', q')" by force
      have "finite found" using fin less.prems(1) finite_subset by blast
      from push_new_props [OF e this] have f': "f' = found \<union> set (children x)" and q': "set q' = set q \<union> (set (children x) - found)"
        and len: "length q' + card found = length q + card f'" by auto
      have sub: "f' \<subseteq> U" using less.prems(1) U by (auto simp: f')
      have size: "card (U - f') = card U - card f'" "card (U - found) = card U - card found" "card f' \<le> card U" "card found \<le> card f'"
        using sub less.prems(1) fin by (simp_all add: card_Diff_subset card_mono finite_subset f')
      have x: "x = i \<or> (i, x) \<in> (child_rel children)\<^sup>+" using less.prems(2,4) Cons by auto
      have new: "(i, y) \<in> (child_rel children)\<^sup>+" if "y \<in> set (children x)" for y
        using x that by (auto simp: child_rel_def intro: trancl_into_trancl)
      have "descend_loop children q' (insert x visited) f' = Some ((child_rel children)\<^sup>+ `` {i})"
      proof (rule less.hyps)
        show "2 * card (U - f') + length q' < 2 * card (U - found) + length stack"
          using size len by (simp add: Cons)
        show "insert i f' \<subseteq> insert x visited \<union> set q'" using less.prems(3) Cons by (auto simp: f' q')
        show "f' \<subseteq> (child_rel children)\<^sup>+ `` {i}" using less.prems(4) new by (auto simp: f')
      qed (use less.prems Cons sub in \<open>auto simp: f' q'\<close>)
      then show ?thesis using False e by (subst descend_loop.simps) (simp add: Cons)
    qed
  qed
qed

text \<open>The messages that descend from \<open>i\<close>, it excluded.\<close>

definition proper_descendants :: "'s storage_backend \<Rightarrow> 's \<Rightarrow> message_id \<Rightarrow> message_id set" where
  "proper_descendants B s i = (child_rel (children_of B s))\<^sup>+ `` {i}"

lemma conflict_descendants_correct:
  assumes "finite U" and "\<And>x. set (children_of B s x) \<subseteq> U"
  shows "conflict_descendants B s i = Some (proper_descendants B s i)"
  unfolding conflict_descendants_def proper_descendants_def
  by (rule descend_loop_correct [where U=U]) (use assms in auto)

lemma finite_proper_descendants:
  assumes "finite U" and "\<And>x. set (children_of B s x) \<subseteq> U"
  shows "finite (proper_descendants B s i)"
proof -
  have "y \<in> U" if "(i, y) \<in> (child_rel (children_of B s))\<^sup>+" for y
    using that assms(2) by induction (auto simp: child_rel_def)
  then have "proper_descendants B s i \<subseteq> U" by (auto simp: proper_descendants_def)
  then show ?thesis using assms(1) finite_subset by blast
qed

section \<open>Support\<close>

definition depths_ok :: "'s storage_backend \<Rightarrow> 's \<Rightarrow> (message_id \<rightharpoonup> u32) \<Rightarrow> bool" where
  "depths_ok B s cache \<longleftrightarrow> (\<forall>i d. cache i = Some d \<longrightarrow> d = calculate_depth_from_storage B s i)"

definition contribution :: "'s storage_backend \<Rightarrow> 's \<Rightarrow> reputation_tracker \<Rightarrow> message_id \<Rightarrow> f64" where
  "contribution B s t i =
     (case sb_get_message B i s of
        Inr (Some m) \<Rightarrow> get_reputation t (am_proposer m) / (1 + real (unat (calculate_depth_from_storage B s i)))
      | _ \<Rightarrow> 0)"

lemma cached_depth_ok:
  assumes "depths_ok B s cache" and "cached_depth B s i cache = (d, cache')"
  shows "d = calculate_depth_from_storage B s i \<and> depths_ok B s cache'"
  using assms by (auto simp: cached_depth_def depths_ok_def Let_def split: option.splits if_splits)

lemma support_loop_sum:
  assumes "depths_ok B s cache"
  shows "fst (support_loop B s t is x cache) = x + sum_list (map (contribution B s t) is) \<and>
    depths_ok B s (snd (support_loop B s t is x cache))"
  using assms
proof (induction "is" arbitrary: x cache)
  case (Cons i "is")
  show ?case
  proof (cases "\<exists>m. sb_get_message B i s = Inr (Some m)")
    case True
    then obtain m where m: "sb_get_message B i s = Inr (Some m)" by blast
    obtain d c where d: "cached_depth B s i cache = (d, c)" by force
    from cached_depth_ok [OF Cons.prems d] have "d = calculate_depth_from_storage B s i" "depths_ok B s c" by auto
    then show ?thesis using Cons.IH by (simp add: m d contribution_def)
  next
    case False
    then show ?thesis using Cons by (auto simp: contribution_def split: sum.splits option.splits)
  qed
qed auto

lemma calculate_support_sum:
  assumes "hash_order ord" and "finite U" and "\<And>x. set (children_of B s x) \<subseteq> U" and "depths_ok B s cache"
  shows "\<exists>cache'. calculate_support_cached ord B s t i cache =
      Some (\<Sum>j\<in>proper_descendants B s i. contribution B s t j, cache') \<and> depths_ok B s cache'"
proof -
  let ?ds = "proper_descendants B s i"
  have "finite ?ds" by (rule finite_proper_descendants [OF assms(2,3)])
  with hash_orderD [OF assms(1) this] have "sum_list (map (contribution B s t) (ord ?ds)) = (\<Sum>j\<in>?ds. contribution B s t j)"
    by (simp add: sum_list_distinct_conv_sum_set)
  with support_loop_sum [OF assms(4), of t "ord ?ds" 0] show ?thesis
    by (cases "support_loop B s t (ord ?ds) 0 cache")
      (simp add: calculate_support_cached_def conflict_descendants_correct [OF assms(2,3)])
qed

section \<open>Energy\<close>

lemma leader_loop_max:
  "(leader_loop es m w = w \<and> (\<forall>e\<in>set es. snd e \<le> m)) \<or>
   (\<exists>i x. leader_loop es m w = Some i \<and> (i, x) \<in> set es \<and> m < x \<and> (\<forall>e\<in>set es. snd e \<le> x))"
proof (induction es m w rule: leader_loop.induct)
  case (2 i x es m w)
  show ?case
  proof (cases "m < x")
    case True
    from 2(1) [OF True] show ?thesis
    proof
      assume "leader_loop es x (Some i) = Some i \<and> (\<forall>e\<in>set es. snd e \<le> x)"
      then show ?thesis using True by auto
    next
      assume "\<exists>j y. leader_loop es x (Some i) = Some j \<and> (j, y) \<in> set es \<and> x < y \<and> (\<forall>e\<in>set es. snd e \<le> y)"
      then obtain j y where j: "leader_loop es x (Some i) = Some j" "(j, y) \<in> set es" "x < y" "\<forall>e\<in>set es. snd e \<le> y" by blast
      have "leader_loop ((i, x) # es) m w = Some j \<and> (j, y) \<in> set ((i, x) # es) \<and> m < y \<and> (\<forall>e\<in>set ((i, x) # es). snd e \<le> y)"
        using True j by simp
      then show ?thesis by blast
    qed
  next
    case False
    from 2(2) [OF False] show ?thesis
    proof
      assume "leader_loop es m w = w \<and> (\<forall>e\<in>set es. snd e \<le> m)"
      then show ?thesis using False by auto
    next
      assume "\<exists>j y. leader_loop es m w = Some j \<and> (j, y) \<in> set es \<and> m < y \<and> (\<forall>e\<in>set es. snd e \<le> y)"
      then obtain j y where j: "leader_loop es m w = Some j" "(j, y) \<in> set es" "m < y" "\<forall>e\<in>set es. snd e \<le> y" by blast
      have "leader_loop ((i, x) # es) m w = Some j \<and> (j, y) \<in> set ((i, x) # es) \<and> m < y \<and> (\<forall>e\<in>set ((i, x) # es). snd e \<le> y)"
        using False j by simp
      then show ?thesis by blast
    qed
  qed
qed auto

lemma signed_loop_sum:
  "signed_loop w es x = x + (\<Sum>e\<leftarrow>es. (if Some (fst e) = w then 1 else - 1) * snd e)"
  by (induction w es x rule: signed_loop.induct) auto

text \<open>By how much the leader exceeds all the others together, or they it.\<close>

definition lead :: "(message_id \<rightharpoonup> f64) \<Rightarrow> f64" where
  "lead support = \<bar>2 * Max (insert 0 (ran support)) - (\<Sum>i\<in>dom support. the (support i))\<bar>"

lemma signed_entries_lead:
  assumes "hash_order ord" and "finite (dom (ce_support e))"
  shows "\<bar>signed_loop (leader_loop (support_entries ord e) 0 None) (support_entries ord e) 0\<bar> = lead (ce_support e)"
proof -
  let ?S = "ce_support e" and ?es = "support_entries ord e"
  let ?f = "\<lambda>i. the (?S i)" and ?w = "leader_loop ?es 0 None"
  have ord: "set (ord (dom ?S)) = dom ?S" "distinct (ord (dom ?S))" using hash_orderD [OF assms] by auto
  have ran: "ran ?S = ?f ` dom ?S" by (auto simp: ran_def dom_def image_iff) (metis option.sel)
  have fin: "finite (ran ?S)" using assms(2) by (simp add: ran)
  have sum: "signed_loop ?w ?es 0 = (\<Sum>i\<in>dom ?S. (if Some i = ?w then 1 else - 1) * ?f i)"
    using ord by (simp add: signed_loop_sum support_entries_def comp_def sum_list_distinct_conv_sum_set)
  from leader_loop_max [of ?es 0 None] show ?thesis
  proof
    assume *: "?w = None \<and> (\<forall>e\<in>set ?es. snd e \<le> 0)"
    then have "\<forall>x\<in>ran ?S. x \<le> 0" using ord by (auto simp: support_entries_def ran)
    then have "Max (insert 0 (ran ?S)) = 0" using fin by (intro Max_eqI) auto
    then show ?thesis unfolding sum using * by (simp add: lead_def sum_negf)
  next
    assume "\<exists>i x. ?w = Some i \<and> (i, x) \<in> set ?es \<and> 0 < x \<and> (\<forall>e\<in>set ?es. snd e \<le> x)"
    then obtain i x where w: "?w = Some i" and x: "(i, x) \<in> set ?es" "0 < x" "\<forall>e\<in>set ?es. snd e \<le> x" by blast
    then have i: "i \<in> dom ?S" "x = ?f i" "\<forall>y\<in>ran ?S. y \<le> x" using ord by (auto simp: support_entries_def ran)
    have "Max (insert 0 (ran ?S)) = x" using fin x(2) i by (intro Max_eqI) (auto simp: ran)
    moreover have "(\<Sum>j\<in>dom ?S. (if Some j = ?w then 1 else - 1) * ?f j) = 2 * ?f i - (\<Sum>j\<in>dom ?S. ?f j)"
      using i(1) assms(2) by (simp add: w sum.remove [of _ i] sum_negf)
    ultimately show ?thesis unfolding sum by (simp add: lead_def i(2))
  qed
qed

lemma check_drift_simps [simp]:
  "ce_support (check_drift e) = ce_support e" "ce_total_energy (check_drift e) = ce_total_energy e"
  "ce_history (check_drift e) = ce_history e"
  by (simp_all add: check_drift_def Let_def)

lemma update_energy_simps:
  "ce_support (update_energy ord now e) = ce_support e"
  "hash_order ord \<Longrightarrow> finite (dom (ce_support e)) \<Longrightarrow> ce_total_energy (update_energy ord now e) = lead (ce_support e)"
  by (simp_all add: update_energy_def Let_def signed_entries_lead)

section \<open>Runs\<close>

text \<open>The calls of the tracker. Each update of a support reads the store and the reputations of its time.\<close>

inductive energy_step :: "(message_id set \<Rightarrow> message_id list) \<Rightarrow> (message_id set \<Rightarrow> message_id list) \<Rightarrow> 's storage_backend \<Rightarrow>
    energy_tracker \<Rightarrow> energy_tracker \<Rightarrow> bool" for ord word B where
  energy_params: "energy_step ord word B k (update_energy_params lambda mu k)"
| energy_depth: "energy_step ord word B k (cache_depth i d k)"
| energy_clean_depths: "energy_step ord word B k (cleanup_depth_cache n k)"
| energy_register: "energy_step ord word B k (register_conflict now c k)"
| energy_support: "update_support ord word B s t now c i k = Some k' \<Longrightarrow> energy_step ord word B k k'"
| energy_clean: "energy_step ord word B k (cleanup_resolved now max_age k)"

definition conflict_ok :: "conflict_energy \<Rightarrow> bool" where
  "conflict_ok e \<longleftrightarrow> finite (dom (ce_support e)) \<and> length (ce_history e) \<le> 100 \<and> ce_total_energy e = lead (ce_support e) \<and>
     (let h = ce_history e; n = length h in ce_is_descending e \<longleftrightarrow> 2 \<le> n \<and> h ! (n - 1) < h ! (n - 2))"

lemma conflict_ok_new: "conflict_ok (conflict_energy_new now c)"
  by (simp add: conflict_ok_def conflict_energy_new_def lead_def)

lemma conflict_ok_update:
  assumes "hash_order ord" and "conflict_ok e"
  shows "conflict_ok (update_energy ord now (e\<lparr>ce_support := (ce_support e)(i \<mapsto> x)\<rparr>))"
proof -
  let ?e = "e\<lparr>ce_support := (ce_support e)(i \<mapsto> x)\<rparr>"
  let ?h = "(if 100 \<le> length (ce_history e) then drop 1 (ce_history e) else ce_history e) @ [ce_total_energy e]"
  have fin: "finite (dom (ce_support ?e))" using assms(2) by (simp add: conflict_ok_def)
  have h: "ce_history (update_energy ord now ?e) = ?h" by (simp add: update_energy_def Let_def)
  have "ce_is_descending (update_energy ord now ?e) = (if 2 \<le> length ?h then ?h ! (length ?h - 1) < ?h ! (length ?h - 2) else ce_is_descending e)"
    by (simp add: update_energy_def Let_def check_drift_def)
  moreover have "ce_is_descending e = False" if "\<not> 2 \<le> length ?h"
    using that assms(2) by (auto simp: conflict_ok_def Let_def split: if_splits)
  ultimately have "ce_is_descending (update_energy ord now ?e) \<longleftrightarrow> 2 \<le> length ?h \<and> ?h ! (length ?h - 1) < ?h ! (length ?h - 2)"
    by presburger
  moreover have "length ?h \<le> 100" using assms(2) by (auto simp: conflict_ok_def)
  ultimately show ?thesis
    using fin unfolding conflict_ok_def h Let_def by (simp only: update_energy_simps(2) [OF assms(1) fin] update_energy_simps(1))
qed

definition tracker_ok :: "energy_tracker \<Rightarrow> bool" where
  "tracker_ok k \<longleftrightarrow> et_delta k = 1 / 10 \<and> (\<forall>c e. et_conflicts k c = Some e \<longrightarrow> conflict_ok e)"

lemma conflict_entry_ok: "tracker_ok k \<Longrightarrow> conflict_ok (conflict_entry now c k)"
  by (simp add: conflict_entry_def tracker_ok_def conflict_ok_new split: option.split)

lemma energy_step_ok:
  assumes "energy_step ord word B k k'" and "hash_order word" and "tracker_ok k"
  shows "tracker_ok k'"
  using assms(1)
proof cases
  case (energy_support s t now c i)
  then obtain x cache where "k' = k\<lparr>et_depths := cache, et_conflicts := (et_conflicts k)(c \<mapsto>
      update_energy word now ((conflict_entry now c k)\<lparr>ce_support := (ce_support (conflict_entry now c k))(i \<mapsto> x)\<rparr>))\<rparr>"
    by (auto simp: update_support_def Let_def)
  then show ?thesis
    using assms(3) conflict_ok_update [OF assms(2) conflict_entry_ok [OF assms(3)]] by (simp add: tracker_ok_def)
qed (use assms(3) conflict_entry_ok [OF assms(3)] in \<open>auto simp: tracker_ok_def update_energy_params_def cache_depth_def
      cleanup_depth_cache_def register_conflict_def cleanup_resolved_def split: option.splits if_splits\<close>)

lemma energy_run_ok:
  assumes "(energy_step ord word B)\<^sup>*\<^sup>* (energy_tracker_new lambda mu) k" and "hash_order word"
  shows "tracker_ok k"
  using assms(1)
proof induction
  case base
  show ?case by (simp add: tracker_ok_def energy_tracker_new_def)
next
  case (step k k')
  then show ?case using energy_step_ok [OF _ assms(2)] by blast
qed

section \<open>Properties\<close>

text \<open>C36: Updating the support of a message always returns. The support recorded is the sum over the descendants of the
  message, itself excluded, of the reputation of the proposer divided by one more than the depth; the
  energy of the conflict is by how much the leader exceeds all the others together or they exceed it;
  the cached depths stay correct and the other conflicts as they were.\<close>

theorem update_support_correct:
  assumes "hash_order ord" and "hash_order word" and "finite U" and "\<And>x. set (children_of B s x) \<subseteq> U"
    and "depths_ok B s (et_depths k)" and "finite (dom (ce_support (conflict_entry now c k)))"
  shows "\<exists>k' e. update_support ord word B s t now c i k = Some k' \<and> et_conflicts k' = (et_conflicts k)(c \<mapsto> e) \<and>
    ce_support e = (ce_support (conflict_entry now c k))(i \<mapsto> \<Sum>j\<in>proper_descendants B s i. contribution B s t j) \<and>
    ce_total_energy e = lead (ce_support e) \<and> depths_ok B s (et_depths k')"
proof -
  let ?x = "\<Sum>j\<in>proper_descendants B s i. contribution B s t j" and ?e = "conflict_entry now c k"
  let ?e' = "update_energy word now (?e\<lparr>ce_support := (ce_support ?e)(i \<mapsto> ?x)\<rparr>)"
  obtain cache where "calculate_support_cached ord B s t i (et_depths k) = Some (?x, cache)" "depths_ok B s cache"
    using calculate_support_sum [OF assms(1,3,4,5)] by blast
  then show ?thesis
    by (intro exI [of _ "k\<lparr>et_depths := cache, et_conflicts := (et_conflicts k)(c \<mapsto> ?e')\<rparr>"] exI [of _ ?e'])
      (simp add: update_support_def Let_def update_energy_simps assms(2,6))
qed

text \<open>A conflict counts as resolved only while it is undecided: in every run, the leader of a resolved conflict and all the
  other messages together differ by less than a tenth. A message that leads by more than that is never
  reported as the winner.\<close>

theorem resolved_conflicts_undecided:
  assumes "(energy_step ord word B)\<^sup>*\<^sup>* (energy_tracker_new lambda mu) k" and "hash_order word"
    and "tracker_is_resolved k c \<or> tracker_winner word k c \<noteq> None"
  shows "\<exists>e. et_conflicts k c = Some e \<and> lead (ce_support e) < 1 / 10"
  using energy_run_ok [OF assms(1,2)] assms(3)
  by (auto simp: tracker_ok_def tracker_is_resolved_def tracker_winner_def energy_is_resolved_def conflict_ok_def
      split: option.splits if_splits)

section \<open>Concrete instances\<close>

text \<open>Two messages with one descendant each.\<close>

definition fork_store :: message_store where
  "fork_store = chain_store [demo_message [4] [[3]], demo_message [3] [], demo_message [2] [[1]], demo_message [1] []]"

lemma fork_dag: "memory_dag fork_store = dag_store (demo_message [4] [[3]]) (dag_store (demo_message [3] []) (memory_dag pair_store))"
proof -
  have 3: "memory_dag (chain_store [demo_message [3] [], demo_message [2] [[1]], demo_message [1] []]) =
      dag_store (demo_message [3] []) (memory_dag pair_store)"
    unfolding pair_store_def [symmetric] by (subst chain_dag) (simp_all add: pair_store_def [symmetric] pair_dag empty_dag_def del: chain_store.simps(2))
  show ?thesis
    unfolding fork_store_def by (subst chain_dag) (simp_all add: 3 pair_dag empty_dag_def del: chain_store.simps(2))
qed

lemma fork_reads:
  "sb_get_children sample_backend x fork_store = Inr (if x = [1] then [[2]] else if x = [3] then [[4]] else [])"
  "sb_get_parents sample_backend x fork_store = Inr (if x = [2] then [[1]] else if x = [4] then [[3]] else [])"
  "sb_get_message sample_backend x fork_store = Inr (if x = [4] then Some (demo_message [4] [[3]]) else if x = [3] then Some (demo_message [3] [])
     else if x = [2] then Some (demo_message [2] [[1]]) else if x = [1] then Some (demo_message [1] []) else None)"
  by (simp_all add: memdag.get_children memdag.get_parents memdag.get_message fork_dag pair_dag empty_dag_def)

lemma fork_children: "set (children_of sample_backend fork_store x) \<subseteq> {[2], [4]}"
  unfolding children_of_def fork_reads(1) ok_list_Inr by (cases "x = [1]"; cases "x = [3]") simp_all

lemma descend_simps:
  "descend_loop children [] visited found = Some found"
  "descend_loop children (x # stack) visited found =
     (if x \<in> visited then descend_loop children stack visited found
      else (case push_new (children x) found stack of (found, stack) \<Rightarrow> descend_loop children stack (insert x visited) found))"
  by (simp_all add: descend_loop.simps [of children "[]"] descend_loop.simps [of children "x # stack"])

lemma fork_descendants:
  "proper_descendants sample_backend fork_store [1] = {[2]}" "proper_descendants sample_backend fork_store [3] = {[4]}"
proof -
  have "conflict_descendants sample_backend fork_store i = Some (proper_descendants sample_backend fork_store i)" for i
    by (rule conflict_descendants_correct [where U="{[2], [4]}"]) (simp_all add: fork_children)
  moreover have "conflict_descendants sample_backend fork_store [1] = Some {[2]}" "conflict_descendants sample_backend fork_store [3] = Some {[4]}"
    by (simp_all add: conflict_descendants_def children_of_def fork_reads descend_simps)
  ultimately show "proper_descendants sample_backend fork_store [1] = {[2]}" "proper_descendants sample_backend fork_store [3] = {[4]}"
    by simp_all
qed

lemma fork_depths:
  "calculate_depth_from_storage sample_backend fork_store [2] = 1" "calculate_depth_from_storage sample_backend fork_store [4] = 1"
  by (simp_all add: calculate_depth_from_storage_def fork_reads depth_climb.simps)

lemma fork_contributions:
  "contribution sample_backend fork_store sample_reputation [2] = 1 / 2" "contribution sample_backend fork_store sample_reputation [4] = 1 / 2"
  by (simp_all add: contribution_def fork_reads sample_reputation_1 fork_depths)

abbreviation "fork_update now i k \<equiv>
  update_support sorted_list_of_set sorted_list_of_set sample_backend fork_store sample_reputation now (ConflictId ''c'') i k"

lemma update_support_correct_witness:
  "\<exists>k e. fork_update 1000 [1] (energy_tracker_new 1 1) = Some k \<and> et_conflicts k (ConflictId ''c'') = Some e \<and>
     ce_support e = [[1] \<mapsto> 1 / 2] \<and> ce_total_energy e = 1 / 2"
proof -
  have "\<exists>k e. fork_update 1000 [1] (energy_tracker_new 1 1) = Some k \<and>
      et_conflicts k = (et_conflicts (energy_tracker_new 1 1))(ConflictId ''c'' \<mapsto> e) \<and>
      ce_support e = (ce_support (conflict_entry 1000 (ConflictId ''c'') (energy_tracker_new 1 1)))
        ([1] \<mapsto> \<Sum>j\<in>proper_descendants sample_backend fork_store [1]. contribution sample_backend fork_store sample_reputation j) \<and>
      ce_total_energy e = lead (ce_support e) \<and> depths_ok sample_backend fork_store (et_depths k)"
    by (rule update_support_correct [where U="{[2], [4]}"])
      (simp_all add: sorted_hash_order fork_children depths_ok_def energy_tracker_new_def conflict_entry_def conflict_energy_new_def)
  then show ?thesis
    by (auto simp: fork_descendants fork_contributions energy_tracker_new_def conflict_entry_def conflict_energy_new_def lead_def)
qed

text \<open>Both messages supported alike, and the first looked at again: a tie is resolved.\<close>

lemma fork_step:
  assumes "depths_ok sample_backend fork_store (et_depths k)" and "i = [1] \<or> i = [3]"
  shows "\<exists>k'. fork_update now i k = Some k' \<and> depths_ok sample_backend fork_store (et_depths k') \<and> et_delta k' = et_delta k \<and>
    et_conflicts k' (ConflictId ''c'') = Some (update_energy sorted_list_of_set now ((conflict_entry now (ConflictId ''c'') k)
      \<lparr>ce_support := (ce_support (conflict_entry now (ConflictId ''c'') k))(i \<mapsto> 1 / 2)\<rparr>))"
proof -
  have fin: "finite {[2], [4 :: byte]}" by simp
  obtain cache where "calculate_support_cached sorted_list_of_set sample_backend fork_store sample_reputation i (et_depths k) =
      Some (\<Sum>j\<in>proper_descendants sample_backend fork_store i. contribution sample_backend fork_store sample_reputation j, cache)"
    "depths_ok sample_backend fork_store cache"
    using calculate_support_sum [OF sorted_hash_order fin fork_children assms(1), of sample_reputation i] by (elim exE conjE)
  then show ?thesis using assms(2) by (auto simp: update_support_def Let_def fork_descendants fork_contributions)
qed

lemma update_energy_history:
  "ce_history (update_energy ord now e) = (if 100 \<le> length (ce_history e) then drop 1 (ce_history e) else ce_history e) @ [ce_total_energy e]"
  by (simp add: update_energy_def Let_def)

lemma tie_resolved:
  obtains k where "(energy_step sorted_list_of_set sorted_list_of_set sample_backend)\<^sup>*\<^sup>* (energy_tracker_new 1 1) k"
    and "tracker_is_resolved k (ConflictId ''c'')"
proof -
  let ?c = "ConflictId ''c''" and ?k0 = "energy_tracker_new 1 1"
  have k0: "depths_ok sample_backend fork_store (et_depths ?k0)" "et_delta ?k0 = 1 / 10"
    "conflict_entry 1000 ?c ?k0 = conflict_energy_new 1000 ?c"
    by (simp_all add: depths_ok_def energy_tracker_new_def conflict_entry_def)
  obtain k1 e1 where k1: "fork_update 1000 [1] ?k0 = Some k1" "depths_ok sample_backend fork_store (et_depths k1)" "et_delta k1 = 1 / 10"
    "et_conflicts k1 ?c = Some e1" "ce_support e1 = [[1] \<mapsto> 1 / 2]" "ce_history e1 = [0]" "ce_total_energy e1 = 1 / 2"
    using fork_step [OF k0(1), of "[1]" 1000] k0 by (auto simp: update_energy_simps update_energy_history sorted_hash_order conflict_energy_new_def lead_def)
  obtain k2 e2 where k2: "fork_update 2000 [3] k1 = Some k2" "depths_ok sample_backend fork_store (et_depths k2)" "et_delta k2 = 1 / 10"
    "et_conflicts k2 ?c = Some e2" "ce_support e2 = [[1] \<mapsto> 1 / 2, [3] \<mapsto> 1 / 2]" "ce_history e2 = [0, 1 / 2]" "ce_total_energy e2 = 0"
    using fork_step [OF k1(2), of "[3]" 2000] k1
    by (auto simp: update_energy_simps update_energy_history sorted_hash_order conflict_entry_def lead_def)
  obtain k3 e3 where k3: "fork_update 3000 [1] k2 = Some k3" "et_conflicts k3 ?c = Some e3" "ce_support e3 = [[1] \<mapsto> 1 / 2, [3] \<mapsto> 1 / 2]"
    "ce_history e3 = [0, 1 / 2, 0]" "et_delta k3 = 1 / 10"
    using fork_step [OF k2(2), of "[1]" 3000] k2
    by (auto simp: update_energy_simps update_energy_history sorted_hash_order conflict_entry_def fun_upd_twist)
  have run: "(energy_step sorted_list_of_set sorted_list_of_set sample_backend)\<^sup>*\<^sup>* ?k0 k3"
    by (rule rtranclp.rtrancl_into_rtrancl [OF rtranclp.rtrancl_into_rtrancl [OF r_into_rtranclp]])
      (rule energy_support [OF k1(1)] energy_support [OF k2(1)] energy_support [OF k3(1)])+
  then have "conflict_ok e3" using energy_run_ok [OF run sorted_hash_order] k3(2) by (simp add: tracker_ok_def)
  then have "tracker_is_resolved k3 ?c"
    using k3 by (simp add: tracker_is_resolved_def energy_is_resolved_def conflict_ok_def lead_def)
  with run show ?thesis by (rule that)
qed

lemma resolved_conflicts_undecided_witness:
  "\<exists>k e. (energy_step sorted_list_of_set sorted_list_of_set sample_backend)\<^sup>*\<^sup>* (energy_tracker_new 1 1) k \<and>
     tracker_is_resolved k (ConflictId ''c'') \<and> et_conflicts k (ConflictId ''c'') = Some e \<and> lead (ce_support e) < 1 / 10"
proof -
  obtain k where k: "(energy_step sorted_list_of_set sorted_list_of_set sample_backend)\<^sup>*\<^sup>* (energy_tracker_new 1 1) k"
    "tracker_is_resolved k (ConflictId ''c'')"
    by (rule tie_resolved)
  then show ?thesis using resolved_conflicts_undecided [OF k(1) sorted_hash_order disjI1 [OF k(2)]] by blast
qed

end
