(* ===== verification/Message_Validation.thy ===== *)
theory Message_Validation
  imports Admissibility Deposit_Escrow Conflict_Energy
begin

text \<open>
  The validation of messages, \<open>MessageValidator\<close> (\<open>crates/adic-consensus/src/validation.rs\<close>) with its cache of
  verdicts, the signature check of \<open>CryptoEngine\<close> (\<open>crates/adic-crypto/src/lib.rs\<close>), and the \<open>ConsensusEngine\<close>
  (\<open>crates/adic-consensus/src/lib.rs\<close>), which slashes the deposits of invalid messages. The identifier and the bytes to
  sign of a message, made by its serialisation, and the signature scheme are parameters, collected in
  \<open>crypto_env\<close>. Error texts are values of a datatype; the counters of the metrics and the times of the cache
  entries, which nothing reads, are omitted.
\<close>

section \<open>Signatures\<close>

record crypto_env =
  cr_compute_id :: "adic_message \<Rightarrow> message_id"
  cr_to_bytes :: "adic_message \<Rightarrow> bytes"
  cr_valid_key :: "public_key \<Rightarrow> bool"
  cr_verify :: "public_key \<Rightarrow> bytes \<Rightarrow> signature \<Rightarrow> bool"

definition crypto_verify_signature :: "crypto_env \<Rightarrow> adic_message \<Rightarrow> public_key \<Rightarrow> signature \<Rightarrow> adic_error + bool" where
  "crypto_verify_signature v m pk sig =
     (if \<not> cr_valid_key v pk then Inl SignatureVerification
      else if length sig \<noteq> 64 then Inr False
      else Inr (cr_verify v pk (cr_to_bytes v m) sig))"

definition verify_id :: "crypto_env \<Rightarrow> adic_message \<Rightarrow> bool" where
  "verify_id v m \<longleftrightarrow> am_id m = cr_compute_id v m"

section \<open>Verdicts\<close>

datatype validation_error =
    IdMismatch | EmptySignature | InvalidSignature | SignatureCheckError
  | TimestampDrift | NoParents | DuplicateParents | SelfParent
  | PayloadTooLarge | NoFeatures | DuplicateAxis u32 | EmptyDigits u32
  | InvalidTransfer | TransferAmountZero | TransferToSelf | SenderLength nat | RecipientLength nat

datatype validation_warning = EmptyPayload | ZeroNonce

record message_verdict =
  vr_is_valid :: bool
  vr_errors :: "validation_error list"
  vr_warnings :: "validation_warning list"

definition validation_valid :: message_verdict where
  "validation_valid = \<lparr>vr_is_valid = True, vr_errors = [], vr_warnings = []\<rparr>"

definition validation_invalid :: "validation_error \<Rightarrow> message_verdict" where
  "validation_invalid e = \<lparr>vr_is_valid = False, vr_errors = [e], vr_warnings = []\<rparr>"

definition add_error :: "validation_error \<Rightarrow> message_verdict \<Rightarrow> message_verdict" where
  "add_error e r = r\<lparr>vr_errors := vr_errors r @ [e], vr_is_valid := False\<rparr>"

definition add_warning :: "validation_warning \<Rightarrow> message_verdict \<Rightarrow> message_verdict" where
  "add_warning w r = r\<lparr>vr_warnings := vr_warnings r @ [w]\<rparr>"

text \<open>A check adds its error when the condition holds.\<close>

abbreviation error_if :: "bool \<Rightarrow> validation_error \<Rightarrow> message_verdict \<Rightarrow> message_verdict" where
  "error_if c e r \<equiv> (if c then add_error e r else r)"

section \<open>Checks\<close>

record message_validator =
  mv_max_drift :: i64
  mv_max_payload :: nat
  mv_cache :: "message_id \<rightharpoonup> message_verdict"
  mv_queue :: "message_id list"
  mv_max_cache :: nat

definition message_validator_new :: message_validator where
  "message_validator_new = \<lparr>mv_max_drift = 300, mv_max_payload = 1024 * 1024, mv_cache = Map.empty, mv_queue = [], mv_max_cache = 10000\<rparr>"

definition verify_message_signature :: "crypto_env \<Rightarrow> adic_message \<Rightarrow> message_verdict \<Rightarrow> message_verdict" where
  "verify_message_signature v m r =
     (if am_signature m = [] then add_error EmptySignature r
      else case crypto_verify_signature v m (am_proposer m) (am_signature m) of
          Inr ok \<Rightarrow> error_if (\<not> ok) InvalidSignature r
        | Inl _ \<Rightarrow> add_error SignatureCheckError r)"

definition validate_structure :: "crypto_env \<Rightarrow> adic_message \<Rightarrow> message_verdict \<Rightarrow> message_verdict" where
  "validate_structure v m r = (if \<not> verify_id v m then add_error IdMismatch r else verify_message_signature v m r)"

definition whole_seconds :: "i64 \<Rightarrow> i64" where
  "whole_seconds ms = (if ms < 0 then - ((- ms) div 1000) else ms div 1000)"

definition validate_timestamp :: "message_validator \<Rightarrow> i64 \<Rightarrow> adic_message \<Rightarrow> message_verdict \<Rightarrow> message_verdict" where
  "validate_timestamp c now m = error_if (mv_max_drift c < \<bar>whole_seconds (now - mt_timestamp (am_meta m))\<bar>) TimestampDrift"

definition validate_parents :: "adic_message \<Rightarrow> message_verdict \<Rightarrow> message_verdict" where
  "validate_parents m r =
     (let r = error_if (am_parents m = [] \<and> \<not> is_genesis m) NoParents r;
          r = error_if (card (set (am_parents m)) \<noteq> length (am_parents m)) DuplicateParents r
      in error_if (am_id m \<in> set (am_parents m)) SelfParent r)"

definition validate_payload :: "message_validator \<Rightarrow> adic_message \<Rightarrow> message_verdict \<Rightarrow> message_verdict" where
  "validate_payload c m r =
     (let r = error_if (mv_max_payload c < length (am_data m)) PayloadTooLarge r
      in if am_data m = [] then add_warning EmptyPayload r else r)"

fun axes_loop :: "axis_phi list \<Rightarrow> axis_id set \<Rightarrow> message_verdict \<Rightarrow> message_verdict" where
  "axes_loop [] seen_axes r = r"
| "axes_loop (phi # phis) seen_axes r =
     (let r = error_if (ap_axis phi \<in> seen_axes) (DuplicateAxis (axis_index (ap_axis phi))) r;
          r = error_if (qd_digits (ap_digits phi) = []) (EmptyDigits (axis_index (ap_axis phi))) r
      in axes_loop phis (insert (ap_axis phi) seen_axes) r)"

definition validate_features :: "adic_message \<Rightarrow> message_verdict \<Rightarrow> message_verdict" where
  "validate_features m r = axes_loop (af_phi (am_features m)) {} (error_if (length (af_phi (am_features m)) = 0) NoFeatures r)"

definition validate_value_transfer :: "adic_message \<Rightarrow> message_verdict \<Rightarrow> message_verdict" where
  "validate_value_transfer m r =
     (case am_transfer m of
        None \<Rightarrow> r
      | Some t \<Rightarrow>
          (let r = (if transfer_is_valid t then r
                    else (let r = add_error InvalidTransfer r;
                              r = error_if (vt_amount t = 0) TransferAmountZero r;
                              r = error_if (vt_from t = vt_to t) TransferToSelf r;
                              r = error_if (length (vt_from t) \<noteq> 32) (SenderLength (length (vt_from t))) r
                          in error_if (length (vt_to t) \<noteq> 32) (RecipientLength (length (vt_to t))) r))
           in if vt_nonce t = 0 then add_warning ZeroNonce r else r))"

definition validate_message :: "crypto_env \<Rightarrow> message_validator \<Rightarrow> i64 \<Rightarrow> adic_message \<Rightarrow> message_verdict" where
  "validate_message v c now m =
     (let r = validate_structure v m validation_valid;
          r = validate_timestamp c now m r;
          r = validate_parents m r;
          r = validate_payload c m r;
          r = validate_features m r
      in validate_value_transfer m r)"

definition validate_acyclicity :: "adic_message \<Rightarrow> message_id set \<Rightarrow> bool" where
  "validate_acyclicity m ancestor_ids \<longleftrightarrow> am_id m \<notin> ancestor_ids"

section \<open>Cache\<close>

definition clear_validation_cache :: "message_validator \<Rightarrow> message_validator" where
  "clear_validation_cache c = c\<lparr>mv_cache := Map.empty, mv_queue := []\<rparr>"

definition validator_cache_stats :: "message_validator \<Rightarrow> nat \<times> nat" where
  "validator_cache_stats c = (card (dom (mv_cache c)), mv_max_cache c)"

definition evict_oldest :: "message_validator \<Rightarrow> message_validator" where
  "evict_oldest c =
     (if mv_max_cache c \<le> card (dom (mv_cache c))
      then (case mv_queue c of
              [] \<Rightarrow> c
            | old_id # queue \<Rightarrow> c\<lparr>mv_queue := queue, mv_cache := (mv_cache c)(old_id := None)\<rparr>)
      else c)"

definition validate_message_cached :: "crypto_env \<Rightarrow> i64 \<Rightarrow> adic_message \<Rightarrow> message_validator \<Rightarrow> message_verdict \<times> message_validator" where
  "validate_message_cached v now m c =
     (case mv_cache c (am_id m) of
        Some cached \<Rightarrow> (cached, c)
      | None \<Rightarrow>
          (let result = validate_message v c now m;
               c = evict_oldest c
           in (result, c\<lparr>mv_cache := (mv_cache c)(am_id m \<mapsto> result), mv_queue := mv_queue c @ [am_id m]\<rparr>)))"

section \<open>Consensus engine\<close>

text \<open>The engine reads the shared message store; the admissibility check keeps its own copy of the parameters.\<close>

record 's consensus_engine =
  cx_params :: adic_params
  cx_admissibility :: adic_params
  cx_deposits :: "'s deposit_manager"
  cx_reputation :: reputation_tracker
  cx_validator :: message_validator
  cx_tracker :: energy_tracker

definition consensus_engine_new :: "adic_params \<Rightarrow> 's consensus_engine" where
  "consensus_engine_new params =
     \<lparr>cx_params = params, cx_admissibility = params, cx_deposits = deposit_manager_new (prm_deposit params),
      cx_reputation = reputation_tracker_new (prm_gamma params), cx_validator = message_validator_new,
      cx_tracker = energy_tracker_new (prm_lambda params) (prm_mu params)\<rparr>"

definition validate_and_slash :: "crypto_env \<Rightarrow> (bytes \<Rightarrow> bytes) \<Rightarrow> (bytes \<Rightarrow> string) \<Rightarrow> 's econ_ops \<Rightarrow> i64 \<Rightarrow> adic_message \<Rightarrow>
    (adic_error, 's consensus_engine, message_verdict) rop" where
  "validate_and_slash v blake3 hex E now m x =
     (let result = validate_message v (cx_validator x) now m
      in if vr_is_valid result then okR result x
         else tryR (lift_op cx_deposits (\<lambda>d x. x\<lparr>cx_deposits := d\<rparr>) id (deposit_slash blake3 hex E now (am_id m))) (\<lambda>_.
              tryR (modR (\<lambda>x. case deposit_get_proposer (cx_deposits x) (am_id m) of
                None \<Rightarrow> x
              | Some proposer \<Rightarrow> x\<lparr>cx_reputation := bad_update now proposer 1 (cx_reputation x)\<rparr>)) (\<lambda>_.
              okR result)) x)"

definition update_operational_params :: "adic_params \<Rightarrow> 's consensus_engine \<Rightarrow> 's consensus_engine" where
  "update_operational_params new_params x =
     x\<lparr>cx_reputation := update_gamma (prm_gamma new_params) (cx_reputation x),
       cx_tracker := update_energy_params (prm_lambda new_params) (prm_mu new_params) (cx_tracker x),
       cx_deposits := update_deposit_amount (prm_deposit new_params) (cx_deposits x),
       cx_params := new_params\<rparr>"

definition track_conflict :: "(message_id set \<Rightarrow> message_id list) \<Rightarrow> (message_id set \<Rightarrow> message_id list) \<Rightarrow> 'b storage_backend \<Rightarrow> 'b \<Rightarrow>
    i64 \<Rightarrow> conflict_id \<Rightarrow> message_id \<Rightarrow> 's consensus_engine \<Rightarrow> 's consensus_engine option" where
  "track_conflict ord word B s now c i x =
     map_option (\<lambda>k. x\<lparr>cx_tracker := k\<rparr>)
       (update_support ord word B s (cx_reputation x) now c i (register_conflict now c (cx_tracker x)))"

definition get_conflict_penalty :: "(message_id set \<Rightarrow> message_id list) \<Rightarrow> 's consensus_engine \<Rightarrow> message_id \<Rightarrow> conflict_id \<Rightarrow> f64" where
  "get_conflict_penalty word x i c = tracker_penalty word (cx_tracker x) i c"

definition is_conflict_resolved :: "'s consensus_engine \<Rightarrow> conflict_id \<Rightarrow> bool" where
  "is_conflict_resolved x c = tracker_is_resolved (cx_tracker x) c"

definition get_energy_metrics :: "'s consensus_engine \<Rightarrow> energy_metrics" where
  "get_energy_metrics x = energy_get_metrics (cx_tracker x)"

section \<open>The verdict\<close>

lemma add_simps [simp]:
  "vr_is_valid (add_error e r) = False" "vr_errors (add_error e r) = vr_errors r @ [e]"
  "vr_is_valid (add_warning w r) = vr_is_valid r" "vr_errors (add_warning w r) = vr_errors r"
  by (simp_all add: add_error_def add_warning_def)

lemma error_if_valid [simp]: "vr_is_valid (error_if c e r) \<longleftrightarrow> \<not> c \<and> vr_is_valid r"
  by simp

lemma structure_valid:
  "vr_is_valid (validate_structure v m r) \<longleftrightarrow> vr_is_valid r \<and> verify_id v m \<and> am_signature m \<noteq> [] \<and>
    crypto_verify_signature v m (am_proposer m) (am_signature m) = Inr True"
  by (auto simp: validate_structure_def verify_message_signature_def split: sum.splits)

lemma parents_valid:
  "vr_is_valid (validate_parents m r) \<longleftrightarrow> vr_is_valid r \<and> distinct (am_parents m) \<and> am_id m \<notin> set (am_parents m)"
proof -
  have "card (set (am_parents m)) = length (am_parents m) \<longleftrightarrow> distinct (am_parents m)"
    by (metis card_distinct distinct_card)
  then show ?thesis by (auto simp: validate_parents_def Let_def is_genesis_def)
qed

lemma axes_loop_valid:
  "vr_is_valid (axes_loop phis seen r) \<longleftrightarrow> vr_is_valid r \<and> distinct (map ap_axis phis) \<and> ap_axis ` set phis \<inter> seen = {} \<and>
    (\<forall>phi\<in>set phis. qd_digits (ap_digits phi) \<noteq> [])"
proof (induction phis seen r rule: axes_loop.induct)
  case (2 phi phis seen r)
  show ?case
    by (simp add: Let_def 2 [OF refl refl] del: error_if_valid split del: if_split) (auto simp del: error_if_valid split: if_splits)
qed simp

lemma transfer_valid:
  "vr_is_valid (validate_value_transfer m r) \<longleftrightarrow> vr_is_valid r \<and> pred_option transfer_is_valid (am_transfer m)"
  by (auto simp: validate_value_transfer_def Let_def split: option.split)

text \<open>The conditions that make a message valid at a time.\<close>

definition acceptable :: "crypto_env \<Rightarrow> message_validator \<Rightarrow> i64 \<Rightarrow> adic_message \<Rightarrow> bool" where
  "acceptable v c now m \<longleftrightarrow>
     am_id m = cr_compute_id v m \<and> length (am_signature m) = 64 \<and> cr_valid_key v (am_proposer m) \<and>
     cr_verify v (am_proposer m) (cr_to_bytes v m) (am_signature m) \<and>
     \<bar>now - mt_timestamp (am_meta m)\<bar> div 1000 \<le> mv_max_drift c \<and>
     distinct (am_parents m) \<and> am_id m \<notin> set (am_parents m) \<and> length (am_data m) \<le> mv_max_payload c \<and>
     af_phi (am_features m) \<noteq> [] \<and> distinct (map ap_axis (af_phi (am_features m))) \<and>
     list_all (\<lambda>phi. qd_digits (ap_digits phi) \<noteq> []) (af_phi (am_features m)) \<and> pred_option transfer_is_valid (am_transfer m)"

lemma whole_seconds_abs: "\<bar>whole_seconds d\<bar> = \<bar>d\<bar> div 1000"
  by (simp add: whole_seconds_def pos_imp_zdiv_nonneg_iff)

lemma signature_true:
  "am_signature m \<noteq> [] \<and> crypto_verify_signature v m pk (am_signature m) = Inr True \<longleftrightarrow>
    length (am_signature m) = 64 \<and> cr_valid_key v pk \<and> cr_verify v pk (cr_to_bytes v m) (am_signature m)"
  by (auto simp: crypto_verify_signature_def)

lemma timestamp_valid:
  "vr_is_valid (validate_timestamp c now m r) \<longleftrightarrow> vr_is_valid r \<and> \<bar>now - mt_timestamp (am_meta m)\<bar> div 1000 \<le> mv_max_drift c"
  by (auto simp: validate_timestamp_def whole_seconds_abs)

lemma payload_valid: "vr_is_valid (validate_payload c m r) \<longleftrightarrow> vr_is_valid r \<and> length (am_data m) \<le> mv_max_payload c"
  by (auto simp: validate_payload_def)

lemma features_valid:
  "vr_is_valid (validate_features m r) \<longleftrightarrow> vr_is_valid r \<and> af_phi (am_features m) \<noteq> [] \<and>
    distinct (map ap_axis (af_phi (am_features m))) \<and> list_all (\<lambda>phi. qd_digits (ap_digits phi) \<noteq> []) (af_phi (am_features m))"
  by (auto simp: validate_features_def axes_loop_valid list_all_iff)

lemma validate_message_acceptable: "vr_is_valid (validate_message v c now m) \<longleftrightarrow> acceptable v c now m"
proof -
  have "vr_is_valid validation_valid" by (simp add: validation_valid_def)
  then show ?thesis
    unfolding validate_message_def Let_def transfer_valid features_valid payload_valid parents_valid timestamp_valid structure_valid
      signature_true verify_id_def acceptable_def
    by blast
qed

section \<open>The cache\<close>

definition cache_ok :: "message_validator \<Rightarrow> bool" where
  "cache_ok c \<longleftrightarrow> distinct (mv_queue c) \<and> set (mv_queue c) = dom (mv_cache c) \<and> length (mv_queue c) \<le> max 1 (mv_max_cache c)"

lemma evict_oldest_ok:
  assumes "cache_ok c"
  shows "cache_ok (evict_oldest c) \<and> length (mv_queue (evict_oldest c)) < max 1 (mv_max_cache c) \<and>
    mv_max_cache (evict_oldest c) = mv_max_cache c \<and> dom (mv_cache (evict_oldest c)) \<subseteq> dom (mv_cache c)"
proof -
  have card: "card (dom (mv_cache c)) = length (mv_queue c)"
    using assms by (simp add: cache_ok_def distinct_card [symmetric])
  show ?thesis
  proof (cases "mv_queue c")
    case Nil
    then show ?thesis using assms card by (auto simp: evict_oldest_def cache_ok_def)
  next
    case (Cons i q)
    then have "set q = dom (mv_cache c) - {i}" using assms by (auto simp: cache_ok_def)
    then show ?thesis using assms card Cons by (auto simp: evict_oldest_def cache_ok_def)
  qed
qed

lemma cached_validation_ok:
  assumes "cache_ok c"
  shows "cache_ok (snd (validate_message_cached v now m c))"
proof (cases "mv_cache c (am_id m)")
  case None
  let ?c = "evict_oldest c"
  have e: "cache_ok ?c" "length (mv_queue ?c) < max 1 (mv_max_cache c)" "mv_max_cache ?c = mv_max_cache c"
    "dom (mv_cache ?c) \<subseteq> dom (mv_cache c)" using evict_oldest_ok [OF assms] by auto
  then have "am_id m \<notin> dom (mv_cache ?c)" using None by auto
  then show ?thesis using e None by (auto simp: validate_message_cached_def Let_def cache_ok_def)
qed (simp add: validate_message_cached_def assms)

section \<open>Properties\<close>

text \<open>C37: A message is valid exactly when its identifier is that of its contents, its signature verifies under a valid
  key, its time is within the drift, its parents are distinct and do not contain it, its payload is within
  the limit, it has features on distinct axes, each with digits, and its transfer, if it has one, is valid. An
  empty list of parents is no obstacle.\<close>

theorem message_valid_iff: "vr_is_valid (validate_message v c now m) \<longleftrightarrow> acceptable v c now m"
  by (rule validate_message_acceptable)

text \<open>The cache of verdicts never holds more than its maximum, and its queue lists exactly the messages it has a
  verdict for.\<close>

theorem validator_cache_bounded:
  "cache_ok (foldl (\<lambda>c (now, m). snd (validate_message_cached v now m c)) message_validator_new ms) \<and>
   card (dom (mv_cache (foldl (\<lambda>c (now, m). snd (validate_message_cached v now m c)) message_validator_new ms))) \<le> 10000"
proof -
  let ?step = "\<lambda>c (now, m). snd (validate_message_cached v now m c)"
  have keep: "mv_max_cache (snd (validate_message_cached v now m c)) = mv_max_cache c" for now m c
    by (simp add: validate_message_cached_def Let_def evict_oldest_def split: option.split list.split)
  have "cache_ok (foldl ?step message_validator_new ms) \<and> mv_max_cache (foldl ?step message_validator_new ms) = 10000"
  proof (induction ms rule: rev_induct)
    case Nil
    show ?case by (simp add: cache_ok_def message_validator_new_def)
  next
    case (snoc x ms)
    then show ?case using keep cached_validation_ok by (cases x) simp
  qed
  moreover from this have "card (dom (mv_cache (foldl ?step message_validator_new ms))) \<le> 10000"
    by (auto simp: cache_ok_def dest: distinct_card)
  ultimately show ?thesis by blast
qed

text \<open>C38: The cache goes by the identifier that a message claims, before the identifier is checked: once a message has a
  verdict, every other message that claims its identifier gets the same one, whatever it contains and whoever
  signed it.\<close>

theorem cached_verdict_for_any_content:
  assumes "validate_message_cached v now m c = (r, c')" and "am_id m' = am_id m"
  shows "validate_message_cached v now' m' c' = (r, c')"
  using assms by (auto simp: validate_message_cached_def Let_def split: option.splits)

text \<open>An invalid message costs its proposer the deposit and reputation when the deposit can be slashed. When it can
  not, because there is none or it is settled, the call fails, the verdict is lost and the reputation is as it
  was.\<close>

theorem validate_and_slash_effect:
  "case deposit_slash blake3 hex E now (am_id m) (cx_deposits x) of
     (Inl e, d) \<Rightarrow>
       validate_and_slash v blake3 hex E now m x =
         (if acceptable v (cx_validator x) now m then (Inr (validate_message v (cx_validator x) now m), x)
          else (Inl e, x\<lparr>cx_deposits := d\<rparr>))
   | (Inr _, d) \<Rightarrow>
       validate_and_slash v blake3 hex E now m x =
         (Inr (validate_message v (cx_validator x) now m),
          if acceptable v (cx_validator x) now m then x
          else x\<lparr>cx_deposits := d,
                 cx_reputation := (case deposit_get_proposer d (am_id m) of
                   None \<Rightarrow> cx_reputation x | Some proposer \<Rightarrow> bad_update now proposer 1 (cx_reputation x))\<rparr>)"
  by (cases "deposit_slash blake3 hex E now (am_id m) (cx_deposits x)")
    (simp add: validate_and_slash_def Let_def tryR_def lift_op_def modR_def okR_def validate_message_acceptable split: sum.split option.split)

section \<open>Concrete instances\<close>

definition sample_crypto :: crypto_env where
  "sample_crypto = \<lparr>cr_compute_id = (\<lambda>_. [7]), cr_to_bytes = am_data, cr_valid_key = (\<lambda>_. True), cr_verify = (\<lambda>pk b sig. b = [1])\<rparr>"

definition honest_message :: adic_message where
  "honest_message = \<lparr>am_id = [7], am_parents = [], am_features = \<lparr>af_phi = [\<lparr>ap_axis = AxisId 0, ap_digits = \<lparr>qd_digits = [1], qd_p = 3\<rparr>\<rparr>]\<rparr>,
     am_meta = meta_new 0, am_proposer = [5], am_signature = replicate 64 0, am_transfer = None, am_data = [1]\<rparr>"

definition forged_message :: adic_message where
  "forged_message = honest_message\<lparr>am_data := [2], am_signature := []\<rparr>"

lemma honest_acceptable: "acceptable sample_crypto message_validator_new 0 honest_message"
  by (simp add: acceptable_def sample_crypto_def message_validator_new_def honest_message_def meta_new_def)

lemma forged_not_acceptable: "\<not> acceptable sample_crypto message_validator_new 0 forged_message"
  by (simp add: acceptable_def forged_message_def)

lemma cached_verdict_for_any_content_witness:
  "\<exists>c. snd (validate_message_cached sample_crypto 0 honest_message message_validator_new) = c \<and>
     vr_is_valid (fst (validate_message_cached sample_crypto 0 forged_message c)) \<and>
     \<not> vr_is_valid (validate_message sample_crypto message_validator_new 0 forged_message)"
proof -
  obtain r c where run: "validate_message_cached sample_crypto 0 honest_message message_validator_new = (r, c)"
    by (cases "validate_message_cached sample_crypto 0 honest_message message_validator_new")
  then have "r = validate_message sample_crypto message_validator_new 0 honest_message"
    by (simp add: validate_message_cached_def Let_def message_validator_new_def)
  then have "vr_is_valid r" using honest_acceptable by (simp add: validate_message_acceptable)
  moreover have "validate_message_cached sample_crypto 0 forged_message c = (r, c)"
    by (rule cached_verdict_for_any_content [OF run]) (simp add: forged_message_def)
  ultimately show ?thesis using run forged_not_acceptable by (simp add: validate_message_acceptable)
qed

end
