(* ===== verification/Parent_Selection.thy ===== *)
theory Parent_Selection
  imports Message_Validation Padic_Math "HOL-Library.Product_Lexorder" "HOL-Library.Char_ord" "HOL-Library.Multiset"
begin

text \<open>
  The choice of parents, the multi-axis random walk of \<open>crates/adic-mrw/src\<close>: the weights of tips (\<open>weights.rs\<close>), the
  selector with its diversity bonus, its bootstrap and its fallback (\<open>selector.rs\<close>), the traces
  (\<open>trace.rs\<close>) and the \<open>MrwEngine\<close> that builds candidates from the tips (\<open>lib.rs\<close>).

  The random numbers are a function \<open>rnd\<close> of the attempt, the axis and the position of the tip; the theorems hold for
  every such function. \<open>axord\<close> and \<open>mord\<close> are the orders in which the tables of axes and of merged candidates are
  read. A weight is a real number unless the tip is dated in the future: then \<open>powf\<close> of the age may
  be infinite or not a number, which \<open>xf64\<close> keeps apart, and a sort that meets the latter panics. The
  texts of a trace step are the values they print; metrics are omitted.
\<close>

section \<open>Weights\<close>

datatype xf64 = Fin f64 | PInf | NotANumber

text \<open>\<open>f64::powf\<close>; zero and negative bases only arise from ages below zero.\<close>

definition powf :: "f64 \<Rightarrow> f64 \<Rightarrow> xf64" where
  "powf x y =
     (if 0 < x then Fin (x powr y)
      else if y = 0 then Fin 1
      else if x = 0 then (if 0 < y then Fin 0 else PInf)
      else if y \<in> \<int> then Fin (x powi \<lfloor>y\<rfloor>) else NotANumber)"

fun xadd :: "xf64 \<Rightarrow> xf64 \<Rightarrow> xf64" where
  "xadd (Fin x) (Fin y) = Fin (x + y)"
| "xadd NotANumber _ = NotANumber"
| "xadd _ NotANumber = NotANumber"
| "xadd _ _ = PInf"

record mrw_weights =
  mw_proximity :: f64
  mw_trust :: f64
  mw_penalty :: f64
  mw_total :: f64

definition mrw_weights_new :: "f64 \<Rightarrow> f64 \<Rightarrow> f64 \<Rightarrow> mrw_weights" where
  "mrw_weights_new proximity trust penalty =
     \<lparr>mw_proximity = proximity, mw_trust = trust, mw_penalty = penalty, mw_total = proximity * trust * (1 - penalty)\<rparr>"

record weight_calculator =
  wc_lambda :: f64
  wc_alpha :: f64
  wc_beta :: f64
  wc_mu :: f64

definition weight_calculator_new :: "f64 \<Rightarrow> f64 \<Rightarrow> f64 \<Rightarrow> weight_calculator" where
  "weight_calculator_new lambda beta mu = \<lparr>wc_lambda = lambda, wc_alpha = 1, wc_beta = beta, wc_mu = mu\<rparr>"

definition weight_calculator_with_alpha :: "f64 \<Rightarrow> f64 \<Rightarrow> f64 \<Rightarrow> f64 \<Rightarrow> weight_calculator" where
  "weight_calculator_with_alpha lambda alpha beta mu = \<lparr>wc_lambda = lambda, wc_alpha = alpha, wc_beta = beta, wc_mu = mu\<rparr>"

text \<open>Reputations are positive: \<open>reputation.rs\<close> keeps them at least a tenth.\<close>

definition compute_trust :: "weight_calculator \<Rightarrow> f64 \<Rightarrow> f64" where
  "compute_trust c reputation = reputation powr wc_alpha c"

definition compute_trust_with_age :: "weight_calculator \<Rightarrow> f64 \<Rightarrow> f64 \<Rightarrow> xf64" where
  "compute_trust_with_age c reputation age =
     (case powf (1 + age) (- wc_beta c) of Fin x \<Rightarrow> Fin (reputation powr wc_alpha c * x) | y \<Rightarrow> y)"

definition compute_weight :: "weight_calculator \<Rightarrow> f64 \<Rightarrow> f64 \<Rightarrow> f64 \<Rightarrow> f64 \<Rightarrow> xf64" where
  "compute_weight c proximity reputation penalty age =
     (case compute_trust_with_age c reputation age of
        Fin trust \<Rightarrow> Fin (exp (wc_lambda c * proximity * trust - wc_mu c * penalty))
      | PInf \<Rightarrow>
          (if 0 < wc_lambda c * proximity then PInf else if wc_lambda c * proximity < 0 then Fin 0 else NotANumber)
      | NotANumber \<Rightarrow> NotANumber)"

definition compute_detailed_weights :: "weight_calculator \<Rightarrow> f64 \<Rightarrow> f64 \<Rightarrow> f64 \<Rightarrow> mrw_weights" where
  "compute_detailed_weights c proximity reputation penalty =
     (let trust = compute_trust c reputation;
          combined_weight = exp (wc_lambda c * proximity * trust);
          penalty_weight = exp (- wc_mu c * penalty)
      in \<lparr>mw_proximity = proximity, mw_trust = trust, mw_penalty = penalty_weight, mw_total = combined_weight * penalty_weight\<rparr>)"

definition compute_transition_probability :: "f64 \<Rightarrow> f64 \<Rightarrow> f64" where
  "compute_transition_probability candidate_weight total_weight =
     (if 0 < total_weight then candidate_weight / total_weight else 0)"

definition normalize_weights :: "f64 list \<Rightarrow> f64 list" where
  "normalize_weights ws = (let s = sum_list ws in if 0 < s then map (\<lambda>w. w / s) ws else ws)"

section \<open>Traces\<close>

datatype step_kind =
    StepAxisCandidates u32 nat
  | StepWidening nat u32
  | StepSampling nat nat
  | StepValidation bool string
  | StepSuccess nat
  | StepFailure string

record selection_step =
  ss_kind :: step_kind
  ss_timestamp :: i64

record mrw_trace =
  tc_steps :: "selection_step list"
  tc_parents :: "message_id list"
  tc_success :: bool
  tc_considered :: nat
  tc_widen_count :: u32
  tc_final_horizon :: nat

definition mrw_trace_new :: mrw_trace where
  "mrw_trace_new = \<lparr>tc_steps = [], tc_parents = [], tc_success = False, tc_considered = 0, tc_widen_count = 0, tc_final_horizon = 0\<rparr>"

definition record_step :: "i64 \<Rightarrow> step_kind \<Rightarrow> mrw_trace \<Rightarrow> mrw_trace" where
  "record_step now k t = t\<lparr>tc_steps := tc_steps t @ [\<lparr>ss_kind = k, ss_timestamp = now\<rparr>]\<rparr>"

definition record_axis_candidates :: "i64 \<Rightarrow> u32 \<Rightarrow> nat \<Rightarrow> mrw_trace \<Rightarrow> mrw_trace" where
  "record_axis_candidates now axis n t = (record_step now (StepAxisCandidates axis n) t)\<lparr>tc_considered := tc_considered t + n\<rparr>"

definition record_widen :: "i64 \<Rightarrow> nat \<Rightarrow> mrw_trace \<Rightarrow> mrw_trace" where
  "record_widen now horizon t = (record_step now (StepWidening horizon (tc_widen_count t + 1)) t)
     \<lparr>tc_widen_count := tc_widen_count t + 1, tc_final_horizon := horizon\<rparr>"

definition record_sampling :: "i64 \<Rightarrow> nat \<Rightarrow> nat \<Rightarrow> mrw_trace \<Rightarrow> mrw_trace" where
  "record_sampling now sampled from_pool = record_step now (StepSampling sampled from_pool)"

definition record_validation :: "i64 \<Rightarrow> bool \<Rightarrow> string \<Rightarrow> mrw_trace \<Rightarrow> mrw_trace" where
  "record_validation now passed reason = record_step now (StepValidation passed reason)"

definition record_success :: "i64 \<Rightarrow> message_id list \<Rightarrow> mrw_trace \<Rightarrow> mrw_trace" where
  "record_success now parents t = (record_step now (StepSuccess (length parents)) t)\<lparr>tc_parents := parents, tc_success := True\<rparr>"

definition record_failure :: "i64 \<Rightarrow> string \<Rightarrow> mrw_trace \<Rightarrow> mrw_trace" where
  "record_failure now reason t = (record_step now (StepFailure reason) t)\<lparr>tc_success := False\<rparr>"

definition trace_duration_ms :: "mrw_trace \<Rightarrow> i64 option" where
  "trace_duration_ms t =
     (if length (tc_steps t) < 2 then None
      else Some (ss_timestamp (last (tc_steps t)) - ss_timestamp (hd (tc_steps t))))"

definition trace_step_count :: "mrw_trace \<Rightarrow> nat" where
  "trace_step_count t = length (tc_steps t)"

section \<open>Selector\<close>

record parent_candidate =
  pn_id :: message_id
  pn_features :: "qp_digits list"
  pn_reputation :: f64
  pn_penalty :: f64
  pn_weight :: f64
  pn_axis_weights :: "u32 \<rightharpoonup> f64"
  pn_age :: f64

record selection_params =
  sl_d :: u32
  sl_q :: u32
  sl_rho :: "u32 list"
  sl_max_horizon :: u32
  sl_widen :: f64

definition selection_from_params :: "adic_params \<Rightarrow> selection_params" where
  "selection_from_params p = \<lparr>sl_d = prm_d p, sl_q = prm_q p, sl_rho = prm_rho p, sl_max_horizon = 100, sl_widen = 3 / 2\<rparr>"

datatype mrw_error = MrwFailed adic_error | MrwPanic panic | NoValidCandidates

definition required_parents :: "selection_params \<Rightarrow> nat" where
  "required_parents p = unat (sl_d p + 1)"

text \<open>The candidates of one axis, of the tips from position \<open>i\<close> on.\<close>

fun axis_loop :: "selection_params \<Rightarrow> weight_calculator \<Rightarrow> (nat \<Rightarrow> f64) \<Rightarrow> qp_digits \<Rightarrow> nat \<Rightarrow> nat \<Rightarrow> parent_candidate list \<Rightarrow>
    panic + parent_candidate list" where
  "axis_loop p wc rnd msg axis i [] = Inr []"
| "axis_loop p wc rnd msg axis i (tip # tips) =
     (case vget (pn_features tip) axis of
        None \<Rightarrow> axis_loop p wc rnd msg axis (Suc i) tips
      | Some tip_phi \<Rightarrow>
          (case vget (sl_rho p) axis of
             None \<Rightarrow> Inl IndexOutOfBounds
           | Some radius \<Rightarrow>
               bindE (proximity_score msg tip_phi radius) (\<lambda>proximity.
               bindE (axis_loop p wc rnd msg axis (Suc i) tips) (\<lambda>candidates.
               Inr (case compute_weight wc proximity (pn_reputation tip) (pn_penalty tip) (pn_age tip) of
                      Fin w \<Rightarrow> if rnd i < w / (w + 1) then tip\<lparr>pn_weight := w\<rparr> # candidates else candidates
                    | _ \<Rightarrow> candidates)))))"

fun axes_walk :: "selection_params \<Rightarrow> weight_calculator \<Rightarrow> i64 \<Rightarrow> (nat \<Rightarrow> nat \<Rightarrow> f64) \<Rightarrow> adic_features \<Rightarrow> parent_candidate list \<Rightarrow>
    nat list \<Rightarrow> (u32 \<rightharpoonup> parent_candidate list) \<Rightarrow> mrw_trace \<Rightarrow> mrw_error + (u32 \<rightharpoonup> parent_candidate list) \<times> mrw_trace" where
  "axes_walk p wc now rnd features tips [] found t = Inr (found, t)"
| "axes_walk p wc now rnd features tips (axis # axes) found t =
     (case get_axis features (AxisId (of_nat axis)) of
        None \<Rightarrow> Inl (MrwFailed InvalidParameter)
      | Some msg_axis \<Rightarrow>
          (case axis_loop p wc (rnd axis) (ap_digits msg_axis) axis 0 tips of
             Inl e \<Rightarrow> Inl (MrwPanic e)
           | Inr candidates \<Rightarrow>
               axes_walk p wc now rnd features tips axes (found(of_nat axis \<mapsto> candidates))
                 (record_axis_candidates now (of_nat axis) (length candidates) t)))"

definition merge_candidate :: "u32 \<Rightarrow> (message_id \<rightharpoonup> parent_candidate) \<Rightarrow> parent_candidate \<Rightarrow> (message_id \<rightharpoonup> parent_candidate)" where
  "merge_candidate axis merged c =
     (case merged (pn_id c) of
        Some x \<Rightarrow> merged(pn_id c \<mapsto> x\<lparr>pn_weight := pn_weight x + pn_weight c, pn_axis_weights := (pn_axis_weights x)(axis \<mapsto> pn_weight c)\<rparr>)
      | None \<Rightarrow> merged(pn_id c \<mapsto> c\<lparr>pn_axis_weights := (pn_axis_weights c)(axis \<mapsto> pn_weight c)\<rparr>))"

definition merge_axis_candidates :: "(u32 set \<Rightarrow> u32 list) \<Rightarrow> (message_id set \<Rightarrow> message_id list) \<Rightarrow> (u32 \<rightharpoonup> parent_candidate list) \<Rightarrow>
    parent_candidate list" where
  "merge_axis_candidates axord mord found =
     (let merged = foldl (\<lambda>acc axis. foldl (merge_candidate axis) acc (the (found axis))) Map.empty (axord (dom found))
      in sort_key (\<lambda>c. - pn_weight c) (map (\<lambda>i. the (merged i)) (mord (dom merged))))"

definition run_mrw_per_axis :: "(u32 set \<Rightarrow> u32 list) \<Rightarrow> (message_id set \<Rightarrow> message_id list) \<Rightarrow> selection_params \<Rightarrow> weight_calculator \<Rightarrow> i64 \<Rightarrow>
    (nat \<Rightarrow> nat \<Rightarrow> f64) \<Rightarrow> adic_features \<Rightarrow> parent_candidate list \<Rightarrow> nat \<Rightarrow> mrw_trace \<Rightarrow> mrw_error + parent_candidate list \<times> mrw_trace" where
  "run_mrw_per_axis axord mord p wc now rnd features tips horizon t =
     bindE (axes_walk p wc now rnd features (take horizon tips) [0..<unat (sl_d p)] Map.empty t)
       (\<lambda>(found, t). Inr (merge_axis_candidates axord mord found, t))"

definition candidate_balls :: "nat \<Rightarrow> nat \<Rightarrow> parent_candidate list \<Rightarrow> bytes set" where
  "candidate_balls axis radius selected =
     set (List.map_filter (\<lambda>c. map_option (\<lambda>f. qp_ball_id f radius) (vget (pn_features c) axis)) selected)"

definition axis_bonus :: "selection_params \<Rightarrow> parent_candidate list \<Rightarrow> parent_candidate \<Rightarrow> nat \<times> u32 \<Rightarrow> f64" where
  "axis_bonus p selected c = (\<lambda>(axis, radius).
     (let current_balls = candidate_balls axis (unat radius) selected
      in if of_nat (card current_balls) < sl_q p
         then (case vget (pn_features c) axis of
                 None \<Rightarrow> 0
               | Some f \<Rightarrow> if qp_ball_id f (unat radius) \<notin> current_balls then 1 else 0)
         else 0))"

definition candidate_score :: "selection_params \<Rightarrow> parent_candidate list \<Rightarrow> parent_candidate \<Rightarrow> f64" where
  "candidate_score p selected c = pn_weight c + sum_list (map (axis_bonus p selected c) (enumerate 0 (sl_rho p)))"

fun best_loop :: "('a \<Rightarrow> f64) \<Rightarrow> nat \<Rightarrow> 'a list \<Rightarrow> nat option \<Rightarrow> f64 \<Rightarrow> nat option" where
  "best_loop score i [] best max_score = best"
| "best_loop score i (c # cs) best max_score =
     (if max_score < score c then best_loop score (Suc i) cs (Some i) (score c) else best_loop score (Suc i) cs best max_score)"

text \<open>\<open>n\<close> parents are still to be found.\<close>

fun sample_loop :: "selection_params \<Rightarrow> nat \<Rightarrow> parent_candidate list \<Rightarrow> parent_candidate list \<Rightarrow> parent_candidate list" where
  "sample_loop p 0 selected available = selected"
| "sample_loop p (Suc n) selected available =
     (case best_loop (candidate_score p selected) 0 available None (- 1) of
        None \<Rightarrow> selected
      | Some i \<Rightarrow> sample_loop p n (selected @ [available ! i]) (take i available @ drop (Suc i) available))"

definition sample_diverse_parents :: "selection_params \<Rightarrow> parent_candidate list \<Rightarrow> adic_error + parent_candidate list" where
  "sample_diverse_parents p candidates =
     (if length candidates < required_parents p then Inl ParentSelectionFailed
      else (let selected = sample_loop p (required_parents p) [] candidates
            in if length selected < required_parents p then Inl ParentSelectionFailed else Inr selected))"

primrec cycle_from :: "nat \<Rightarrow> nat \<Rightarrow> 'a list \<Rightarrow> 'a list" where
  "cycle_from idx 0 xs = []"
| "cycle_from idx (Suc n) xs = xs ! (idx mod length xs) # cycle_from (Suc idx) n xs"

definition select_bootstrap_parents :: "selection_params \<Rightarrow> parent_candidate list \<Rightarrow> adic_error + parent_candidate list" where
  "select_bootstrap_parents p tips =
     (if tips = [] then Inl ParentSelectionFailed else Inr (cycle_from 0 (required_parents p) tips))"

fun total_weight :: "selection_params \<Rightarrow> weight_calculator \<Rightarrow> parent_candidate \<Rightarrow> (nat \<times> axis_phi) list \<Rightarrow> xf64 \<Rightarrow> panic + xf64" where
  "total_weight p wc tip [] w = Inr w"
| "total_weight p wc tip ((axis, msg_axis) # axes) w =
     (case vget (pn_features tip) axis of
        None \<Rightarrow> total_weight p wc tip axes w
      | Some tip_phi \<Rightarrow>
          bindE (proximity_score (ap_digits msg_axis) tip_phi (case vget (sl_rho p) axis of None \<Rightarrow> 2 | Some r \<Rightarrow> r)) (\<lambda>proximity.
          total_weight p wc tip axes
            (xadd w (compute_weight wc proximity (pn_reputation tip) (pn_penalty tip) (pn_age tip)))))"

fun weigh_tips :: "selection_params \<Rightarrow> weight_calculator \<Rightarrow> adic_features \<Rightarrow> parent_candidate list \<Rightarrow> panic + (parent_candidate \<times> xf64) list" where
  "weigh_tips p wc features [] = Inr []"
| "weigh_tips p wc features (tip # tips) =
     bindE (total_weight p wc tip (enumerate 0 (af_phi features)) (Fin 0)) (\<lambda>w.
     bindE (weigh_tips p wc features tips) (\<lambda>ws. Inr ((tip, w) # ws)))"

text \<open>Infinite weights come first, the others in descending order.\<close>

fun weight_key :: "xf64 \<Rightarrow> nat \<times> f64" where
  "weight_key (Fin x) = (1, - x)"
| "weight_key _ = (0, 0)"

definition select_best_available :: "selection_params \<Rightarrow> weight_calculator \<Rightarrow> adic_features \<Rightarrow> parent_candidate list \<Rightarrow>
    mrw_error + parent_candidate list" where
  "select_best_available p wc features tips =
     (if tips = [] then Inl (MrwFailed ParentSelectionFailed)
      else case weigh_tips p wc features tips of
          Inl e \<Rightarrow> Inl (MrwPanic e)
        | Inr ws \<Rightarrow>
            (if 2 \<le> length ws \<and> NotANumber \<in> snd ` set ws then Inl (MrwPanic UnwrapFailed)
             else Inr (cycle_from 0 (required_parents p) (map fst (sort_key (\<lambda>(tip, w). weight_key w) ws)))))"

text \<open>The attempts of the walk: \<^term>\<open>None\<close> when no attempt finds diverse parents within the horizon.\<close>

fun walk_loop :: "(u32 set \<Rightarrow> u32 list) \<Rightarrow> (message_id set \<Rightarrow> message_id list) \<Rightarrow> selection_params \<Rightarrow> weight_calculator \<Rightarrow> i64 \<Rightarrow>
    (nat \<Rightarrow> nat \<Rightarrow> nat \<Rightarrow> f64) \<Rightarrow> adic_features \<Rightarrow> parent_candidate list \<Rightarrow> nat \<Rightarrow> nat \<Rightarrow> mrw_trace \<Rightarrow>
    mrw_error + parent_candidate list option \<times> mrw_trace" where
  "walk_loop axord mord p wc now rnd features tips 0 horizon t = Inr (None, t)"
| "walk_loop axord mord p wc now rnd features tips (Suc n) horizon t =
     bindE (run_mrw_per_axis axord mord p wc now (rnd n) features tips horizon t) (\<lambda>(candidates, t).
       (case sample_diverse_parents p candidates of
          Inr selected \<Rightarrow> Inr (Some selected, t)
        | Inl _ \<Rightarrow>
            (let horizon = unat (f64_as_u64 (real horizon * sl_widen p));
                 t = record_widen now horizon t
             in if unat (sl_max_horizon p) < horizon then Inr (None, t)
                else walk_loop axord mord p wc now rnd features tips n horizon t)))"

definition select_from_candidates :: "(u32 set \<Rightarrow> u32 list) \<Rightarrow> (message_id set \<Rightarrow> message_id list) \<Rightarrow> selection_params \<Rightarrow>
    weight_calculator \<Rightarrow> i64 \<Rightarrow> (nat \<Rightarrow> nat \<Rightarrow> nat \<Rightarrow> f64) \<Rightarrow> adic_features \<Rightarrow> parent_candidate list \<Rightarrow>
    mrw_error + message_id list \<times> mrw_trace" where
  "select_from_candidates axord mord p wc now rnd features tips =
     (if length tips \<le> required_parents p
      then (case select_bootstrap_parents p tips of
              Inl e \<Rightarrow> Inl (MrwFailed e)
            | Inr selected \<Rightarrow> (let ids = map pn_id selected in Inr (ids, record_success now ids mrw_trace_new)))
      else bindE (walk_loop axord mord p wc now rnd features tips 10 (required_parents p * 2) mrw_trace_new) (\<lambda>(found, t).
        bindE (case found of Some selected \<Rightarrow> Inr selected | None \<Rightarrow> select_best_available p wc features tips) (\<lambda>selected.
        (let ids = map pn_id selected in Inr (ids, record_success now ids t)))))"

section \<open>Engine\<close>

record mrw_engine =
  mrw_params :: adic_params
  mrw_selector :: selection_params
  mrw_calc :: weight_calculator
  mrw_traces :: "string \<rightharpoonup> mrw_trace"

definition mrw_engine_new :: "adic_params \<Rightarrow> mrw_engine" where
  "mrw_engine_new p =
     \<lparr>mrw_params = p, mrw_selector = selection_from_params p,
      mrw_calc = weight_calculator_with_alpha (prm_lambda p) (prm_alpha p) (prm_beta p) (prm_mu p), mrw_traces = Map.empty\<rparr>"

definition mrw_update_params :: "adic_params \<Rightarrow> mrw_engine \<Rightarrow> mrw_engine" where
  "mrw_update_params p e = (mrw_engine_new p)\<lparr>mrw_traces := mrw_traces e\<rparr>"

definition tip_candidate :: "(message_id set \<Rightarrow> message_id list) \<Rightarrow> 'b storage_backend \<Rightarrow> 'b \<Rightarrow> 's consensus_engine \<Rightarrow> i64 \<Rightarrow> message_id \<Rightarrow>
    parent_candidate option" where
  "tip_candidate word B s x now tip_id =
     (case sb_get_message B tip_id s of
        Inr (Some m) \<Rightarrow>
          Some \<lparr>pn_id = tip_id, pn_features = map ap_digits (af_phi (am_features m)),
            pn_reputation = get_reputation (cx_reputation x) (am_proposer m),
            pn_penalty = (if \<not> conflict_is_none (mt_conflict (am_meta m))
              then get_conflict_penalty word x tip_id (mt_conflict (am_meta m)) else 0),
            pn_weight = 0, pn_axis_weights = Map.empty, pn_age = real_of_int (whole_seconds (now - mt_timestamp (am_meta m)))\<rparr>
      | _ \<Rightarrow> None)"

definition store_trace :: "string \<Rightarrow> mrw_trace \<Rightarrow> mrw_engine \<Rightarrow> mrw_engine" where
  "store_trace trace_id t e =
     (let traces = (mrw_traces e)(trace_id \<mapsto> t);
          traces = (if 100 < card (dom traces) then traces(Min (dom traces) := None) else traces)
      in e\<lparr>mrw_traces := traces\<rparr>)"

definition select_parents :: "(i64 \<Rightarrow> string) \<Rightarrow> (u32 set \<Rightarrow> u32 list) \<Rightarrow> (message_id set \<Rightarrow> message_id list) \<Rightarrow>
    (message_id set \<Rightarrow> message_id list) \<Rightarrow> (nat \<Rightarrow> nat \<Rightarrow> nat \<Rightarrow> f64) \<Rightarrow> 'b storage_backend \<Rightarrow> 'b \<Rightarrow> 's consensus_engine \<Rightarrow> i64 \<Rightarrow>
    adic_features \<Rightarrow> message_id list \<Rightarrow> (mrw_error, mrw_engine, message_id list) rop" where
  "select_parents dec axord mord word rnd B s x now features tips e =
     (let candidates = List.map_filter (tip_candidate word B s x now) tips
      in if candidates = [] then (if tips = [] then okR [] e else errR NoValidCandidates e)
         else case select_from_candidates axord mord (mrw_selector e) (mrw_calc e) now rnd features candidates of
             Inl err \<Rightarrow> errR err e
           | Inr (selected, t) \<Rightarrow> okR selected (store_trace (''mrw_'' @ dec now) t e))"

definition get_trace :: "mrw_engine \<Rightarrow> string \<Rightarrow> mrw_trace option" where
  "get_trace e i = mrw_traces e i"

definition get_trace_ids :: "mrw_engine \<Rightarrow> string list" where
  "get_trace_ids e = List.rev (sorted_list_of_set (dom (mrw_traces e)))"

definition get_recent_traces :: "mrw_engine \<Rightarrow> nat \<Rightarrow> (string \<times> mrw_trace) list" where
  "get_recent_traces e limit = map (\<lambda>i. (i, the (mrw_traces e i))) (take limit (get_trace_ids e))"

section \<open>Cycles\<close>

lemma length_cycle [simp]: "length (cycle_from i n xs) = n"
  by (induction n arbitrary: i) auto

lemma set_cycle: "xs \<noteq> [] \<Longrightarrow> set (cycle_from i n xs) \<subseteq> set xs"
  by (induction n arbitrary: i) auto

lemma cycle_take: "i + n \<le> length xs \<Longrightarrow> cycle_from i n xs = take n (drop i xs)"
proof (induction n arbitrary: i)
  case (Suc n)
  then have "drop i xs = xs ! i # drop (Suc i) xs" by (simp add: Cons_nth_drop_Suc)
  then show ?case using Suc by simp
qed simp

lemma map_cycle: "xs \<noteq> [] \<Longrightarrow> map f (cycle_from i n xs) = cycle_from i n (map f xs)"
  by (induction n arbitrary: i) (simp_all add: nth_map)

text \<open>Fewer than \<open>n\<close> elements can not fill \<open>n\<close> places without a repetition; with enough of them there is none.\<close>

lemma distinct_cycle_iff:
  assumes "xs \<noteq> []" and "distinct xs"
  shows "distinct (cycle_from 0 n xs) \<longleftrightarrow> n \<le> length xs"
proof
  assume "distinct (cycle_from 0 n xs)"
  then have "n = card (set (cycle_from 0 n xs))" by (simp add: distinct_card)
  also have "\<dots> \<le> card (set xs)" using assms(1) by (intro card_mono) (auto dest: set_cycle [THEN subsetD])
  also have "\<dots> \<le> length xs" by (rule card_length)
  finally show "n \<le> length xs" .
next
  assume "n \<le> length xs"
  then show "distinct (cycle_from 0 n xs)" using assms(2) cycle_take [of 0 n xs] by simp
qed

section \<open>Sampling\<close>

lemma distinct_mset_sub: "mset xs \<subseteq># mset ys \<Longrightarrow> distinct ys \<Longrightarrow> distinct xs"
proof -
  assume sub: "mset xs \<subseteq># mset ys" and "distinct ys"
  from sub obtain zs where "mset ys = mset (xs @ zs)" by (metis ex_mset mset_append mset_subset_eq_exists_conv)
  with \<open>distinct ys\<close> have "distinct (xs @ zs)" by (metis mset_eq_imp_distinct_iff)
  then show "distinct xs" by simp
qed

lemma best_loop_range:
  "best_loop score i cs best w = Some j \<Longrightarrow> best = Some j \<or> (i \<le> j \<and> j < i + length cs)"
  by (induction score i cs best w rule: best_loop.induct) (auto split: if_splits)

lemma sample_loop_sub: "mset (sample_loop p n selected available) \<subseteq># mset selected + mset available"
proof (induction n arbitrary: selected available)
  case (Suc n)
  show ?case
  proof (cases "best_loop (candidate_score p selected) 0 available None (- 1)")
    case (Some i)
    then have "i < length available" using best_loop_range by fastforce
    then have "mset available = add_mset (available ! i) (mset (take i available @ drop (Suc i) available))"
      by (metis id_take_nth_drop mset.simps(2) mset_append union_mset_add_mset_right)
    then show ?thesis using Suc.IH [of "selected @ [available ! i]" "take i available @ drop (Suc i) available"] Some by simp
  qed simp
qed simp

lemma length_sample_loop: "length (sample_loop p n selected available) \<le> length selected + n"
proof (induction n arbitrary: selected available)
  case (Suc n)
  then show ?case
    by (simp split: option.split) (metis (no_types) Suc.IH add_Suc_right add_Suc_shift length_append_singleton)
qed simp

lemma sample_diverse:
  assumes "sample_diverse_parents p candidates = Inr selected"
  shows "length selected = required_parents p \<and> mset selected \<subseteq># mset candidates"
  using assms length_sample_loop [of p "required_parents p" "[]" candidates] sample_loop_sub [of p "required_parents p" "[]" candidates]
  by (auto simp: sample_diverse_parents_def Let_def split: if_splits)

section \<open>Candidates\<close>

abbreviation ids_of :: "parent_candidate list \<Rightarrow> message_id set" where
  "ids_of cs \<equiv> pn_id ` set cs"

lemma axis_loop_ids: "axis_loop p wc rnd msg axis i tips = Inr cs \<Longrightarrow> ids_of cs \<subseteq> ids_of tips"
proof (induction tips arbitrary: i cs)
  case (Cons tip tips)
  show ?case
  proof (cases "vget (pn_features tip) axis")
    case None
    then show ?thesis using Cons.prems Cons.IH [of "Suc i" cs] by auto
  next
    case (Some f)
    then obtain cs' where rest: "axis_loop p wc rnd msg axis (Suc i) tips = Inr cs'" and cs: "ids_of cs \<subseteq> insert (pn_id tip) (ids_of cs')"
      using Cons.prems by (auto simp: bindE_def split: option.splits sum.splits xf64.splits if_splits)
    then show ?thesis using Cons.IH [OF rest] by auto
  qed
qed simp

lemma axes_walk_ids:
  "axes_walk p wc now rnd features tips axes found t = Inr (found', t') \<Longrightarrow>
   \<forall>cs\<in>ran found. ids_of cs \<subseteq> ids_of tips \<Longrightarrow> finite (dom found) \<Longrightarrow>
   (\<forall>cs\<in>ran found'. ids_of cs \<subseteq> ids_of tips) \<and> finite (dom found')"
proof (induction axes arbitrary: found t)
  case (Cons a axes)
  then obtain phi cs where a: "get_axis features (AxisId (of_nat a)) = Some phi" "axis_loop p wc (rnd a) (ap_digits phi) a 0 tips = Inr cs"
    "axes_walk p wc now rnd features tips axes (found(of_nat a \<mapsto> cs)) (record_axis_candidates now (of_nat a) (length cs) t) = Inr (found', t')"
    by (auto split: option.splits sum.splits)
  have "\<forall>cs\<in>ran (found(of_nat a \<mapsto> cs)). ids_of cs \<subseteq> ids_of tips"
    using Cons.prems(2) axis_loop_ids [OF a(2)] by (auto simp: ran_def)
  then show ?case by (rule Cons.IH [OF a(3)]) (simp add: Cons.prems(3))
qed simp

definition merged_ok :: "message_id set \<Rightarrow> (message_id \<rightharpoonup> parent_candidate) \<Rightarrow> bool" where
  "merged_ok ids merged \<longleftrightarrow> finite (dom merged) \<and> dom merged \<subseteq> ids \<and> (\<forall>i c. merged i = Some c \<longrightarrow> pn_id c = i)"

lemma merge_candidate_ok: "merged_ok ids merged \<Longrightarrow> pn_id c \<in> ids \<Longrightarrow> merged_ok ids (merge_candidate axis merged c)"
  by (auto simp: merged_ok_def merge_candidate_def split: option.split)

lemma foldl_merge_ok: "merged_ok ids merged \<Longrightarrow> ids_of cs \<subseteq> ids \<Longrightarrow> merged_ok ids (foldl (merge_candidate axis) merged cs)"
  by (induction cs arbitrary: merged) (simp_all add: merge_candidate_ok)

lemma merge_axis_candidates_ids:
  assumes "\<forall>cs\<in>ran found. ids_of cs \<subseteq> ids" and "finite (dom found)" and "hash_order axord" and "hash_order mord"
  shows "distinct (map pn_id (merge_axis_candidates axord mord found)) \<and> ids_of (merge_axis_candidates axord mord found) \<subseteq> ids"
proof -
  let ?step = "\<lambda>acc axis. foldl (merge_candidate axis) acc (the (found axis))"
  have fold: "merged_ok ids (foldl ?step acc axes)" if "merged_ok ids acc" "set axes \<subseteq> dom found" for acc axes
    using that
  proof (induction axes arbitrary: acc)
    case (Cons a axes)
    then obtain cs where "found a = Some cs" by auto
    moreover from this have "ids_of cs \<subseteq> ids" using assms(1) by (blast intro: ranI)
    ultimately have "ids_of (the (found a)) \<subseteq> ids" by simp
    then show ?case using Cons foldl_merge_ok by simp
  qed simp
  define merged where "merged = foldl ?step Map.empty (axord (dom found))"
  have ok: "merged_ok ids merged"
    unfolding merged_def using hash_orderD [OF assms(3,2)] by (intro fold) (auto simp: merged_ok_def)
  then have fin: "finite (dom merged)" by (simp add: merged_ok_def)
  note ord = hash_orderD [OF assms(4) fin]
  have id: "map pn_id (map (\<lambda>i. the (merged i)) (mord (dom merged))) = mord (dom merged)"
    unfolding map_map by (rule map_idI) (use ok ord in \<open>auto simp: merged_ok_def\<close>)
  have "mset (map pn_id (merge_axis_candidates axord mord found)) = mset (mord (dom merged))"
    unfolding merge_axis_candidates_def Let_def merged_def [symmetric] using id by (metis mset_map mset_sort)
  then have "distinct (map pn_id (merge_axis_candidates axord mord found))" "set (map pn_id (merge_axis_candidates axord mord found)) = dom merged"
    using ord by (metis mset_eq_imp_distinct_iff, metis set_mset_mset)
  then show ?thesis using ok by (auto simp: merged_ok_def)
qed

lemma run_mrw_ids:
  assumes "run_mrw_per_axis axord mord p wc now rnd features tips horizon t = Inr (cs, t')" and "hash_order axord" and "hash_order mord"
  shows "distinct (map pn_id cs) \<and> ids_of cs \<subseteq> ids_of tips"
proof -
  obtain found where f: "axes_walk p wc now rnd features (take horizon tips) [0..<unat (sl_d p)] Map.empty t = Inr (found, t')"
    and cs: "cs = merge_axis_candidates axord mord found"
    using assms(1) by (auto simp: run_mrw_per_axis_def bindE_def split: sum.splits)
  from axes_walk_ids [OF f] have "\<forall>cs\<in>ran found. ids_of cs \<subseteq> ids_of (take horizon tips)" and fin: "finite (dom found)" by simp_all
  moreover have "ids_of (take horizon tips) \<subseteq> ids_of tips" by (rule image_mono) (rule set_take_subset)
  ultimately have "\<forall>cs\<in>ran found. ids_of cs \<subseteq> ids_of tips" by blast
  from merge_axis_candidates_ids [OF this fin assms(2,3)] show ?thesis by (simp add: cs)
qed

lemma walk_loop_found:
  assumes "walk_loop axord mord p wc now rnd features tips n horizon t = Inr (Some selected, t')" and "hash_order axord" and "hash_order mord"
  shows "length selected = required_parents p \<and> distinct (map pn_id selected) \<and> ids_of selected \<subseteq> ids_of tips"
  using assms(1)
proof (induction n arbitrary: horizon t)
  case (Suc n)
  obtain cs t1 where run: "run_mrw_per_axis axord mord p wc now (rnd n) features tips horizon t = Inr (cs, t1)"
    using Suc.prems by (auto simp: bindE_def split: sum.splits)
  show ?case
  proof (cases "sample_diverse_parents p cs")
    case (Inl e)
    then show ?thesis using Suc.prems Suc.IH run by (auto simp: bindE_def Let_def split: if_splits)
  next
    case (Inr sel)
    then have "selected = sel" using Suc.prems run by (simp add: bindE_def)
    with sample_diverse [OF Inr] have sel: "length selected = required_parents p" "mset selected \<subseteq># mset cs" by auto
    note ids = run_mrw_ids [OF run assms(2,3)]
    have "mset (map pn_id selected) \<subseteq># mset (map pn_id cs)" using sel(2) by (simp add: image_mset_subseteq_mono)
    then have "distinct (map pn_id selected)" using ids distinct_mset_sub by blast
    then show ?thesis using sel ids set_mset_mono [OF sel(2)] by auto
  qed
qed simp

section \<open>The parents\<close>

lemma best_available_ids:
  assumes "select_best_available p wc features tips = Inr selected" and "required_parents p \<le> length tips" and "distinct (map pn_id tips)"
  shows "length selected = required_parents p \<and> distinct (map pn_id selected) \<and> ids_of selected \<subseteq> ids_of tips"
proof -
  have weigh: "map fst ws = tips" if "weigh_tips p wc features tips = Inr ws" for ws tips
    using that by (induction tips arbitrary: ws) (auto simp: bindE_def split: sum.splits)
  obtain ws where ws: "weigh_tips p wc features tips = Inr ws" and ne: "tips \<noteq> []"
    and sel: "selected = cycle_from 0 (required_parents p) (map fst (sort_key (\<lambda>(tip, w). weight_key w) ws))"
    using assms(1) by (auto simp: select_best_available_def split: if_splits sum.splits)
  let ?sorted = "map fst (sort_key (\<lambda>(tip, w). weight_key w) ws)"
  have m: "mset ?sorted = mset tips" by (simp add: weigh [OF ws, symmetric])
  have len: "length ?sorted = length tips" and ids: "set ?sorted = set tips"
    using m by (metis size_mset, metis set_mset_mset)
  have d: "distinct (map pn_id ?sorted)" using m assms(3) by (metis mset_eq_imp_distinct_iff mset_map)
  have take: "selected = take (required_parents p) ?sorted" using cycle_take [of 0 "required_parents p" ?sorted] assms(2) len by (simp add: sel)
  have "ids_of selected \<subseteq> ids_of tips" using ids set_take_subset [of "required_parents p" ?sorted] unfolding take by blast
  then show ?thesis using d len assms(2) by (simp add: take take_map [symmetric] del: map_map)
qed

lemma select_from_candidates_parents:
  assumes "select_from_candidates axord mord p wc now rnd features tips = Inr (ids, t)"
    and "hash_order axord" and "hash_order mord" and "distinct (map pn_id tips)"
  shows "length ids = required_parents p \<and> set ids \<subseteq> ids_of tips \<and> (distinct ids \<longleftrightarrow> required_parents p \<le> length tips) \<and>
    tc_parents t = ids \<and> tc_success t"
proof (cases "length tips \<le> required_parents p")
  case True
  then have ne: "tips \<noteq> []" and ids: "ids = map pn_id (cycle_from 0 (required_parents p) tips)" and t: "t = record_success now ids mrw_trace_new"
    using assms(1) by (auto simp: select_from_candidates_def select_bootstrap_parents_def Let_def split: if_splits)
  have ids': "ids = cycle_from 0 (required_parents p) (map pn_id tips)" by (simp add: ids map_cycle [OF ne])
  have "distinct ids \<longleftrightarrow> required_parents p \<le> length tips"
    using distinct_cycle_iff [of "map pn_id tips" "required_parents p"] ne assms(4) by (simp add: ids')
  moreover have "set ids \<subseteq> ids_of tips" using set_cycle [of "map pn_id tips" 0 "required_parents p"] ne by (simp add: ids')
  ultimately show ?thesis by (simp add: ids' t record_success_def)
next
  case False
  obtain found t1 selected where walk: "walk_loop axord mord p wc now rnd features tips 10 (required_parents p * 2) mrw_trace_new = Inr (found, t1)"
    and sel: "(case found of Some selected \<Rightarrow> Inr selected | None \<Rightarrow> select_best_available p wc features tips) = Inr selected"
    and ids: "ids = map pn_id selected" and t: "t = record_success now ids t1"
    using assms(1) False by (auto simp: select_from_candidates_def bindE_def Let_def split: sum.splits prod.splits)
  have "length selected = required_parents p \<and> distinct (map pn_id selected) \<and> ids_of selected \<subseteq> ids_of tips"
  proof (cases found)
    case None
    then show ?thesis using best_available_ids [of p wc features tips selected] sel False assms(4) by simp
  next
    case (Some x)
    then show ?thesis using walk_loop_found [OF _ assms(2,3)] walk sel by fastforce
  qed
  then show ?thesis using False by (simp add: ids t record_success_def)
qed

lemma tip_candidate_id: "tip_candidate word B s x now i = Some c \<Longrightarrow> pn_id c = i"
  by (auto simp: tip_candidate_def split: sum.splits option.splits)

lemma candidates_ids:
  "map pn_id (List.map_filter (tip_candidate word B s x now) tips) = filter (\<lambda>i. tip_candidate word B s x now i \<noteq> None) tips"
  by (induction tips) (auto simp: List.map_filter_simps tip_candidate_id split: option.split)

text \<open>The tips that the store has.\<close>

definition known_tips :: "'b storage_backend \<Rightarrow> 'b \<Rightarrow> message_id list \<Rightarrow> message_id list" where
  "known_tips B s tips = filter (\<lambda>i. \<exists>m. sb_get_message B i s = Inr (Some m)) tips"

lemma known_candidates: "filter (\<lambda>i. tip_candidate word B s x now i \<noteq> None) tips = known_tips B s tips"
  unfolding known_tips_def by (rule filter_cong [OF refl]) (auto simp: tip_candidate_def split: sum.splits option.splits)

lemma select_parents_from_tips:
  assumes "select_parents dec axord mord word rnd B s x now features tips e = (Inr ids, e')" and "known_tips B s tips \<noteq> []"
    and "hash_order axord" and "hash_order mord" and "distinct tips"
  shows "length ids = required_parents (mrw_selector e) \<and> set ids \<subseteq> set (known_tips B s tips) \<and>
    (distinct ids \<longleftrightarrow> required_parents (mrw_selector e) \<le> length (known_tips B s tips))"
proof -
  let ?cs = "List.map_filter (tip_candidate word B s x now) tips"
  have ids_cs: "map pn_id ?cs = known_tips B s tips" by (simp only: candidates_ids known_candidates)
  then have ne: "?cs \<noteq> []" and len: "length ?cs = length (known_tips B s tips)" using assms(2) by (metis list.map_disc_iff, metis length_map)
  have d: "distinct (map pn_id ?cs)" unfolding ids_cs known_tips_def using assms(5) by simp
  obtain t where "select_from_candidates axord mord (mrw_selector e) (mrw_calc e) now rnd features ?cs = Inr (ids, t)"
    using assms(1) ne by (auto simp: select_parents_def Let_def okR_def errR_def split: sum.splits prod.splits)
  from select_from_candidates_parents [OF this assms(3,4) d] show ?thesis using ids_cs len by (metis set_map)
qed

section \<open>Properties\<close>

text \<open>The walk returns as many parents as the dimension requires, all of them tips that the store has, whatever the random
  numbers. They are distinct exactly when there are enough tips to choose from: with fewer, tips are
  repeated.\<close>

theorem parents_distinct_iff_enough_tips:
  assumes "select_parents dec axord mord word rnd B s x now features tips e = (Inr ids, e')" and "known_tips B s tips \<noteq> []"
    and "hash_order axord" and "hash_order mord" and "distinct tips"
  shows "length ids = required_parents (mrw_selector e) \<and> set ids \<subseteq> set (known_tips B s tips) \<and>
    (distinct ids \<longleftrightarrow> required_parents (mrw_selector e) \<le> length (known_tips B s tips))"
  by (rule select_parents_from_tips [OF assms])


section \<open>Concrete instances\<close>

text \<open>One tip, the first message of the store, under the default parameters: four times the same parent.\<close>

lemma lone_tip_known: "known_tips sample_backend pair_store [[1]] = [[1]]"
  by (simp add: known_tips_def pair_reads)

lemma default_parents: "required_parents (mrw_selector (mrw_engine_new params_default)) = 4"
  by (simp add: required_parents_def mrw_engine_new_def selection_from_params_def params_default_def)

lemma lone_tip_parents:
  "\<exists>e. select_parents (\<lambda>_. []) sorted_list_of_set sorted_list_of_set sorted_list_of_set (\<lambda>_ _ _. 0) sample_backend pair_store
     (consensus_engine_new params_default :: nat consensus_engine) 0 \<lparr>af_phi = []\<rparr> [[1]] (mrw_engine_new params_default) =
     (Inr [[1], [1], [1], [1]], e)"
proof -
  obtain c where c: "tip_candidate sorted_list_of_set sample_backend pair_store (consensus_engine_new params_default :: nat consensus_engine) 0 [1] = Some c"
    by (simp add: tip_candidate_def pair_reads)
  then have id: "pn_id c = [1]" by (rule tip_candidate_id)
  have cs: "List.map_filter (tip_candidate sorted_list_of_set sample_backend pair_store (consensus_engine_new params_default :: nat consensus_engine) 0)
      [[1]] = [c]"
    by (simp add: List.map_filter_simps c)
  have "select_from_candidates sorted_list_of_set sorted_list_of_set (mrw_selector (mrw_engine_new params_default))
      (mrw_calc (mrw_engine_new params_default)) 0 (\<lambda>_ _ _. 0) \<lparr>af_phi = []\<rparr> [c] =
      Inr ([[1], [1], [1], [1]], record_success 0 [[1], [1], [1], [1]] mrw_trace_new)"
    unfolding select_from_candidates_def select_bootstrap_parents_def default_parents by (simp add: numeral_eq_Suc id Let_def)
  then show ?thesis unfolding select_parents_def Let_def cs by (simp add: okR_def)
qed

lemma parents_distinct_iff_enough_tips_witness:
  "\<exists>ids e. select_parents (\<lambda>_. []) sorted_list_of_set sorted_list_of_set sorted_list_of_set (\<lambda>_ _ _. 0) sample_backend pair_store
     (consensus_engine_new params_default :: nat consensus_engine) 0 \<lparr>af_phi = []\<rparr> [[1]] (mrw_engine_new params_default) = (Inr ids, e) \<and>
     length ids = 4 \<and> \<not> distinct ids"
proof -
  obtain e where e: "select_parents (\<lambda>_. []) sorted_list_of_set sorted_list_of_set sorted_list_of_set (\<lambda>_ _ _. 0) sample_backend pair_store
     (consensus_engine_new params_default :: nat consensus_engine) 0 \<lparr>af_phi = []\<rparr> [[1]] (mrw_engine_new params_default) =
     (Inr [[1], [1], [1], [1]], e)"
    using lone_tip_parents by blast
  from parents_distinct_iff_enough_tips [OF e _ sorted_hash_order sorted_hash_order] show ?thesis
    using e by (intro exI [of _ "[[1], [1], [1], [1]]"] exI [of _ e]) (simp add: lone_tip_known default_parents)
qed


end
