(* ===== verification/Storage_Index.thy ===== *)
theory Storage_Index
  imports Message_Storage
begin

text \<open>
  The in-memory index of messages and the set of tips of a node, \<open>MessageIndex\<close> and \<open>TipManager\<close>
  (\<open>crates/adic-storage/src/index.rs\<close>). A lookup in the time index is by whole seconds; \<open>BTreeMap::range\<close> panics on an
  empty range given backwards. The lemmas show that removing a message undoes its insertion for every query,
  and that exactly the tips have scores.
\<close>

section \<open>Message index\<close>

record message_index =
  mx_by_time :: "i64 \<rightharpoonup> message_id list"
  mx_by_author :: "public_key \<rightharpoonup> message_id list"
  mx_by_axis :: "u32 \<rightharpoonup> (bytes \<rightharpoonup> message_id list)"
  mx_depths :: "message_id \<rightharpoonup> u32"
  mx_counts :: "message_id \<rightharpoonup> nat"

definition message_index_new :: message_index where
  "message_index_new = \<lparr>mx_by_time = Map.empty, mx_by_author = Map.empty, mx_by_axis = Map.empty, mx_depths = Map.empty, mx_counts = Map.empty\<rparr>"

definition axis_at :: "(u32 \<rightharpoonup> (bytes \<rightharpoonup> 'a)) \<Rightarrow> u32 \<Rightarrow> (bytes \<rightharpoonup> 'a)" where
  "axis_at m axis = (case m axis of None \<Rightarrow> Map.empty | Some a \<Rightarrow> a)"

definition push_axis :: "message_id \<Rightarrow> (u32 \<rightharpoonup> (bytes \<rightharpoonup> message_id list)) \<Rightarrow> axis_phi \<Rightarrow> (u32 \<rightharpoonup> (bytes \<rightharpoonup> message_id list))" where
  "push_axis i m phi =
     (let axis = axis_index (ap_axis phi)
      in m(axis \<mapsto> push_at (qp_to_bytes (ap_digits phi)) i (axis_at m axis)))"

definition count_once :: "(message_id \<rightharpoonup> nat) \<times> message_id set \<Rightarrow> message_id \<Rightarrow> (message_id \<rightharpoonup> nat) \<times> message_id set" where
  "count_once = (\<lambda>(counts, visited) ancestor.
     (if ancestor \<in> visited then (counts, visited)
      else (counts(ancestor \<mapsto> (case counts ancestor of None \<Rightarrow> 0 | Some n \<Rightarrow> n) + 1), insert ancestor visited)))"

definition update_descendant_counts :: "message_id list \<Rightarrow> (message_id \<rightharpoonup> nat) \<Rightarrow> (message_id \<rightharpoonup> nat)" where
  "update_descendant_counts parents counts = fst (foldl count_once (counts, {}) parents)"

definition index_add_message :: "adic_message \<Rightarrow> u32 list \<Rightarrow> message_index \<Rightarrow> message_index" where
  "index_add_message m parent_depths x =
     (let depth = (case parent_depths of [] \<Rightarrow> 0 | d # ds \<Rightarrow> Max (set (d # ds)) + 1)
      in x\<lparr>mx_by_time := push_at (mt_timestamp (am_meta m) div 1000) (am_id m) (mx_by_time x),
           mx_by_author := push_at (am_proposer m) (am_id m) (mx_by_author x),
           mx_by_axis := foldl (push_axis (am_id m)) (mx_by_axis x) (af_phi (am_features m)),
           mx_depths := (mx_depths x)(am_id m \<mapsto> depth),
           mx_counts := update_descendant_counts (am_parents m) (mx_counts x)\<rparr>)"

definition drop_at :: "'k \<Rightarrow> 'v \<Rightarrow> ('k \<rightharpoonup> 'v list) \<Rightarrow> ('k \<rightharpoonup> 'v list)" where
  "drop_at k v m =
     (case m k of
        None \<Rightarrow> m
      | Some xs \<Rightarrow> (let ys = filter (\<lambda>x. x \<noteq> v) xs in if ys = [] then m(k := None) else m(k \<mapsto> ys)))"

definition drop_axis :: "message_id \<Rightarrow> (u32 \<rightharpoonup> (bytes \<rightharpoonup> message_id list)) \<Rightarrow> axis_phi \<Rightarrow> (u32 \<rightharpoonup> (bytes \<rightharpoonup> message_id list))" where
  "drop_axis i m phi =
     (let axis = axis_index (ap_axis phi)
      in case m axis of None \<Rightarrow> m | Some a \<Rightarrow> m(axis \<mapsto> drop_at (qp_to_bytes (ap_digits phi)) i a))"

definition decrement_count :: "(message_id \<rightharpoonup> nat) \<Rightarrow> message_id \<Rightarrow> (message_id \<rightharpoonup> nat)" where
  "decrement_count counts parent = (case counts parent of None \<Rightarrow> counts | Some n \<Rightarrow> counts(parent \<mapsto> n - 1))"

definition index_remove_message :: "adic_message \<Rightarrow> message_index \<Rightarrow> message_index" where
  "index_remove_message m x =
     x\<lparr>mx_by_time := drop_at (mt_timestamp (am_meta m) div 1000) (am_id m) (mx_by_time x),
       mx_by_author := drop_at (am_proposer m) (am_id m) (mx_by_author x),
       mx_by_axis := foldl (drop_axis (am_id m)) (mx_by_axis x) (af_phi (am_features m)),
       mx_depths := (mx_depths x)(am_id m := None),
       mx_counts := foldl decrement_count (mx_counts x) (am_parents m)\<rparr>"

definition get_by_timestamp_range :: "message_index \<Rightarrow> i64 \<Rightarrow> i64 \<Rightarrow> panic + message_id list" where
  "get_by_timestamp_range x start_time end_time =
     (if end_time < start_time then Inl AssertFailed
      else Inr (concat (map (list_at (mx_by_time x)) (sorted_list_of_set {t \<in> dom (mx_by_time x). start_time \<le> t \<and> t \<le> end_time}))))"

definition get_by_author :: "message_index \<Rightarrow> public_key \<Rightarrow> message_id list" where
  "get_by_author x pk = list_at (mx_by_author x) pk"

definition get_by_axis_value :: "message_index \<Rightarrow> u32 \<Rightarrow> bytes \<Rightarrow> message_id list" where
  "get_by_axis_value x axis b = list_at (axis_at (mx_by_axis x) axis) b"

definition index_get_depth :: "message_index \<Rightarrow> message_id \<Rightarrow> u32 option" where
  "index_get_depth x i = mx_depths x i"

definition get_descendant_count :: "message_index \<Rightarrow> message_id \<Rightarrow> nat" where
  "get_descendant_count x i = (case mx_counts x i of None \<Rightarrow> 0 | Some n \<Rightarrow> n)"

section \<open>Tips\<close>

record tip_manager =
  tm_tips :: "message_id set"
  tm_scores :: "message_id \<rightharpoonup> f64"

definition tip_manager_new :: tip_manager where
  "tip_manager_new = \<lparr>tm_tips = {}, tm_scores = Map.empty\<rparr>"

definition tip_add :: "message_id \<Rightarrow> f64 \<Rightarrow> tip_manager \<Rightarrow> tip_manager" where
  "tip_add i score t = t\<lparr>tm_tips := insert i (tm_tips t), tm_scores := (tm_scores t)(i \<mapsto> score)\<rparr>"

definition tip_remove :: "message_id \<Rightarrow> tip_manager \<Rightarrow> bool \<times> tip_manager" where
  "tip_remove i t =
     (if i \<in> tm_tips t then (True, t\<lparr>tm_tips := tm_tips t - {i}, tm_scores := (tm_scores t)(i := None)\<rparr>) else (False, t))"

definition tips_list :: "(message_id set \<Rightarrow> message_id list) \<Rightarrow> tip_manager \<Rightarrow> message_id list" where
  "tips_list ord t = ord (tm_tips t)"

definition get_tips_by_score :: "(message_id set \<Rightarrow> message_id list) \<Rightarrow> tip_manager \<Rightarrow> (message_id \<times> f64) list" where
  "get_tips_by_score ord t = sort_key (\<lambda>(i, s). - s) (map (\<lambda>i. (i, the (tm_scores t i))) (ord (dom (tm_scores t))))"

definition tip_update_score :: "message_id \<Rightarrow> f64 \<Rightarrow> tip_manager \<Rightarrow> bool \<times> tip_manager" where
  "tip_update_score i score t =
     (if i \<notin> tm_tips t then (False, t) else (True, t\<lparr>tm_scores := (tm_scores t)(i \<mapsto> score)\<rparr>))"

definition tip_get_score :: "tip_manager \<Rightarrow> message_id \<Rightarrow> f64 option" where
  "tip_get_score t i = tm_scores t i"

definition get_top_tips :: "(message_id set \<Rightarrow> message_id list) \<Rightarrow> tip_manager \<Rightarrow> nat \<Rightarrow> (message_id \<times> f64) list" where
  "get_top_tips ord t n = take n (get_tips_by_score ord t)"

definition is_tip :: "tip_manager \<Rightarrow> message_id \<Rightarrow> bool" where
  "is_tip t i \<longleftrightarrow> i \<in> tm_tips t"

definition tip_count :: "tip_manager \<Rightarrow> nat" where
  "tip_count t = card (tm_tips t)"

definition tips_clear :: "tip_manager \<Rightarrow> tip_manager" where
  "tips_clear t = t\<lparr>tm_tips := {}, tm_scores := Map.empty\<rparr>"

section \<open>Insertion and removal\<close>

lemma drop_push:
  assumes "v \<notin> set (list_at m k)" and "m k \<noteq> Some []"
  shows "drop_at k v (push_at k v m) = m"
proof (cases "m k")
  case None
  then show ?thesis by (simp add: drop_at_def push_at_def list_at_def fun_eq_iff)
next
  case (Some xs)
  then have "filter (\<lambda>x. x \<noteq> v) xs = xs" "xs \<noteq> []" using assms by (auto simp: list_at_def intro: filter_True)
  then show ?thesis using Some by (simp add: drop_at_def push_at_def list_at_def fun_eq_iff)
qed

lemma list_at_drop: "list_at (drop_at k v m) j = (if j = k then filter (\<lambda>x. x \<noteq> v) (list_at m k) else list_at m j)"
  by (auto simp: drop_at_def list_at_def Let_def split: option.split)

text \<open>The entries of an axis: each insertion adds the message at the place of its digits.\<close>

lemma axis_push:
  "list_at (axis_at (foldl (push_axis i) m phis) a) b =
     list_at (axis_at m a) b @ replicate (length (filter (\<lambda>phi. axis_index (ap_axis phi) = a \<and> qp_to_bytes (ap_digits phi) = b) phis)) i"
proof (induction phis arbitrary: m)
  case (Cons phi phis)
  have "list_at (axis_at (push_axis i m phi) a) b =
      list_at (axis_at m a) b @ (if axis_index (ap_axis phi) = a \<and> qp_to_bytes (ap_digits phi) = b then [i] else [])"
    by (auto simp: push_axis_def Let_def axis_at_def)
  then show ?case using Cons by (simp add: replicate_app_Cons_same)
qed simp

lemma axis_drop:
  "list_at (axis_at (foldl (drop_axis i) m phis) a) b =
     (if \<exists>phi\<in>set phis. axis_index (ap_axis phi) = a \<and> qp_to_bytes (ap_digits phi) = b
      then filter (\<lambda>x. x \<noteq> i) (list_at (axis_at m a) b) else list_at (axis_at m a) b)"
proof (induction phis arbitrary: m)
  case (Cons phi phis)
  have "list_at (axis_at (drop_axis i m phi) a) b =
      (if axis_index (ap_axis phi) = a \<and> qp_to_bytes (ap_digits phi) = b then filter (\<lambda>x. x \<noteq> i) (list_at (axis_at m a) b)
       else list_at (axis_at m a) b)"
    by (auto simp: drop_axis_def Let_def axis_at_def list_at_drop list_at_def [of Map.empty] split: option.split)
  then show ?case using Cons by auto
qed simp

definition count_at :: "(message_id \<rightharpoonup> nat) \<Rightarrow> message_id \<Rightarrow> nat" where
  "count_at counts i = (case counts i of None \<Rightarrow> 0 | Some n \<Rightarrow> n)"

lemma count_at_upd: "count_at (counts(p \<mapsto> n)) i = (if i = p then n else count_at counts i)"
  by (simp add: count_at_def)

lemma count_updates:
  assumes "distinct parents"
  shows "count_at (update_descendant_counts parents counts) i = count_at counts i + (if i \<in> set parents then 1 else 0)"
proof -
  have "count_at (fst (foldl count_once (counts, visited) parents)) i = count_at counts i + (if i \<in> set parents then 1 else 0)"
    if "distinct parents" "set parents \<inter> visited = {}" for visited
    using that
  proof (induction parents arbitrary: counts visited)
    case (Cons p ps)
    then have one: "count_once (counts, visited) p = (counts(p \<mapsto> count_at counts p + 1), insert p visited)"
      by (simp add: count_once_def count_at_def)
    have "count_at (fst (foldl count_once (counts(p \<mapsto> count_at counts p + 1), insert p visited) ps)) i =
        count_at (counts(p \<mapsto> count_at counts p + 1)) i + (if i \<in> set ps then 1 else 0)"
      by (rule Cons.IH) (use Cons.prems in auto)
    then show ?case using Cons.prems unfolding foldl_Cons one by (simp only: count_at_upd) simp
  qed simp
  from this [OF assms, of "{}"] show ?thesis by (simp add: update_descendant_counts_def)
qed

lemma count_decrements: "distinct parents \<Longrightarrow> count_at (foldl decrement_count counts parents) i = count_at counts i - (if i \<in> set parents then 1 else 0)"
proof (induction parents arbitrary: counts)
  case (Cons p ps)
  have "count_at (decrement_count counts p) i = count_at counts i - (if i = p then 1 else 0)"
    by (simp add: decrement_count_def count_at_def split: option.split)
  then show ?case using Cons by auto
qed simp

section \<open>Properties\<close>

text \<open>Removing a message undoes its insertion: for a message that is new to the index and whose parents are distinct, every
  query, by time, by author, by axis value, of a depth and of a number of descendants, has the answer it
  had before the message was added.\<close>

theorem index_remove_undoes_add:
  fixes m x depths
  assumes "am_id m \<notin> dom (mx_depths x)" and "am_id m \<notin> set (list_at (mx_by_time x) (mt_timestamp (am_meta m) div 1000))"
    and "mx_by_time x (mt_timestamp (am_meta m) div 1000) \<noteq> Some []" and "am_id m \<notin> set (get_by_author x (am_proposer m))"
    and "\<forall>a b. am_id m \<notin> set (get_by_axis_value x a b)" and "distinct (am_parents m)"
  defines "y \<equiv> index_remove_message m (index_add_message m depths x)"
  shows "get_by_timestamp_range y s e = get_by_timestamp_range x s e \<and> get_by_author y pk = get_by_author x pk \<and>
    get_by_axis_value y a b = get_by_axis_value x a b \<and> index_get_depth y i = index_get_depth x i \<and>
    get_descendant_count y i = get_descendant_count x i"
proof -
  have time: "mx_by_time y = mx_by_time x" using assms(2,3) by (simp add: y_def index_add_message_def index_remove_message_def Let_def drop_push)
  have "get_by_author y pk = get_by_author x pk"
    using assms(4) by (auto simp: y_def index_add_message_def index_remove_message_def Let_def get_by_author_def list_at_drop intro: filter_True)
  moreover have "get_by_axis_value y a b = get_by_axis_value x a b"
    using assms(5) unfolding y_def get_by_axis_value_def
    by (auto simp: index_add_message_def index_remove_message_def Let_def axis_drop axis_push get_by_axis_value_def filter_empty_conv
        intro!: filter_True split: if_splits)
  moreover have "index_get_depth y i = index_get_depth x i"
    using assms(1) by (auto simp: y_def index_add_message_def index_remove_message_def Let_def index_get_depth_def)
  moreover have "get_descendant_count y i = get_descendant_count x i"
  proof -
    have "count_at (mx_counts y) i = count_at (mx_counts x) i"
      using assms(6) by (simp add: y_def index_add_message_def index_remove_message_def Let_def count_decrements count_updates)
    then show ?thesis by (simp add: get_descendant_count_def count_at_def)
  qed
  ultimately show ?thesis using time by (simp add: get_by_timestamp_range_def)
qed

text \<open>The scores are those of the tips, whatever is added, removed, scored and cleared.\<close>

datatype tip_cmd = TipAdd message_id f64 | TipRemove message_id | TipScore message_id f64 | TipClear

fun tip_exec :: "tip_manager \<Rightarrow> tip_cmd \<Rightarrow> tip_manager" where
  "tip_exec t (TipAdd i x) = tip_add i x t"
| "tip_exec t (TipRemove i) = snd (tip_remove i t)"
| "tip_exec t (TipScore i x) = snd (tip_update_score i x t)"
| "tip_exec t TipClear = tips_clear t"

lemma tips_have_scores: "dom (tm_scores (foldl tip_exec tip_manager_new cmds)) = tm_tips (foldl tip_exec tip_manager_new cmds)"
proof (induction cmds rule: rev_induct)
  case (snoc c cmds)
  then show ?case by (cases c) (simp_all add: tip_add_def tip_remove_def tip_update_score_def tips_clear_def insert_absorb del: fun_upd_apply)
qed (simp add: tip_manager_new_def)

lemma index_remove_undoes_add_witness:
  "get_by_author (index_remove_message (demo_message [2] [[1]]) (index_add_message (demo_message [2] [[1]]) [0]
     (index_add_message (demo_message [1] []) [] message_index_new))) [] = [[1]]"
proof -
  let ?x = "index_add_message (demo_message [1] []) [] message_index_new"
  have d: "mt_timestamp (am_meta (demo_message [2] [[1]])) = mt_timestamp (am_meta (demo_message [1] []))" "am_proposer (demo_message [i] ps) = []"
    "af_phi (am_features (demo_message [i] ps)) = []" for i ps
    by (simp_all add: demo_message_def)
  have "get_by_author (index_remove_message (demo_message [2] [[1]]) (index_add_message (demo_message [2] [[1]]) [0] ?x)) [] = get_by_author ?x []"
    using index_remove_undoes_add [of "demo_message [2] [[1]]" ?x "[0]"]
    by (simp add: d index_add_message_def [of _ "[]"] message_index_new_def push_at_def list_at_def get_by_author_def get_by_axis_value_def axis_at_def)
  then show ?thesis by (simp add: d index_add_message_def message_index_new_def push_at_def list_at_def get_by_author_def)
qed

end
