(* ===== verification/Message_Pipeline.thy ===== *)
theory Message_Pipeline
  imports Message_Validation
begin

text \<open>
  The queue of messages from the network, \<open>MessagePipeline\<close> with its \<open>RateLimiter\<close>
  (\<open>crates/adic-network/src/pipeline.rs\<close>). Instants are nanoseconds on the monotonic clock. The results of a batch,
  which the code computes in parallel and collects in order, are those of the validator; how long each
  took is the argument \<open>millis\<close>. The compression of messages, which is that of libraries, is not modelled.

  The lemmas show that no peer gets more messages into the queues than its limit allows in any window, and that
  draining the queues keeps their order.
\<close>

section \<open>Rate limits\<close>

record 'p rate_limiter =
  rl_limits :: "'p \<rightharpoonup> nat list"
  rl_max :: nat
  rl_window :: nat

definition rate_limiter_new :: "nat \<Rightarrow> nat \<Rightarrow> 'p rate_limiter" where
  "rate_limiter_new max_per_window window = \<lparr>rl_limits = Map.empty, rl_max = max_per_window, rl_window = window\<rparr>"

definition recent :: "nat \<Rightarrow> nat \<Rightarrow> nat list \<Rightarrow> nat list" where
  "recent window now ts = dropWhile (\<lambda>front. window < now - front) ts"

definition check_rate_limit :: "nat \<Rightarrow> 'p \<Rightarrow> 'p rate_limiter \<Rightarrow> bool \<times> 'p rate_limiter" where
  "check_rate_limit now peer r =
     (let timestamps = recent (rl_window r) now (list_at (rl_limits r) peer)
      in if rl_max r \<le> length timestamps then (False, r\<lparr>rl_limits := (rl_limits r)(peer \<mapsto> timestamps)\<rparr>)
         else (True, r\<lparr>rl_limits := (rl_limits r)(peer \<mapsto> timestamps @ [now])\<rparr>))"

definition cleanup_old_entries :: "nat \<Rightarrow> 'p rate_limiter \<Rightarrow> 'p rate_limiter" where
  "cleanup_old_entries now r =
     r\<lparr>rl_limits := (\<lambda>peer. case rl_limits r peer of
        None \<Rightarrow> None
      | Some ts \<Rightarrow> (let kept = filter (\<lambda>t. now - t \<le> rl_window r) ts in if kept = [] then None else Some kept))\<rparr>"

section \<open>Queues\<close>

record pipeline_config =
  pl_batch_size :: nat
  pl_workers :: nat
  pl_max_queue :: nat
  pl_priority_queue :: nat
  pl_rate_limit :: nat
  pl_rate_window :: nat
  pl_compression :: nat

definition pipeline_config_default :: pipeline_config where
  "pipeline_config_default = \<lparr>pl_batch_size = 100, pl_workers = 4, pl_max_queue = 10000, pl_priority_queue = 1000,
     pl_rate_limit = 100, pl_rate_window = 10 ^ 9, pl_compression = 1024\<rparr>"

datatype message_priority = PriorityCritical | PriorityHigh | PriorityNormal | PriorityLow

record 'p queued_message =
  qx_message :: adic_message
  qx_priority :: message_priority
  qx_source :: 'p
  qx_received_at :: nat
  qx_attempts :: nat

record pipeline_stats =
  px_received :: u64
  px_validated :: u64
  px_rejected :: u64
  px_rate_limited :: u64
  px_average_ms :: "f64 option"
  px_queue_depth :: nat
  px_priority_depth :: nat

datatype 'p pipeline_event =
    MessageQueued message_id message_priority
  | MessageValidated message_id
  | MessageRejected message_id
  | RateLimitExceeded 'p
  | QueueFull

record 'p message_pipeline =
  pp_config :: pipeline_config
  pp_critical :: "'p queued_message list"
  pp_high :: "'p queued_message list"
  pp_normal :: "'p queued_message list"
  pp_low :: "'p queued_message list"
  pp_limiter :: "'p rate_limiter"
  pp_stats :: pipeline_stats
  pp_events :: "'p pipeline_event list"

definition stats_default :: pipeline_stats where
  "stats_default = \<lparr>px_received = 0, px_validated = 0, px_rejected = 0, px_rate_limited = 0, px_average_ms = Some 0,
     px_queue_depth = 0, px_priority_depth = 0\<rparr>"

definition message_pipeline_new :: "pipeline_config \<Rightarrow> 'p message_pipeline" where
  "message_pipeline_new c =
     \<lparr>pp_config = c, pp_critical = [], pp_high = [], pp_normal = [], pp_low = [],
      pp_limiter = rate_limiter_new (pl_rate_limit c) (pl_rate_window c), pp_stats = stats_default, pp_events = []\<rparr>"

definition determine_priority :: "adic_message \<Rightarrow> message_priority" where
  "determine_priority m =
     (if has_value_transfer m then PriorityHigh
      else if \<not> conflict_is_none (mt_conflict (am_meta m)) then PriorityHigh
      else if 10000 < length (am_data m) then PriorityLow
      else PriorityNormal)"

fun queue_of :: "message_priority \<Rightarrow> 'p message_pipeline \<Rightarrow> 'p queued_message list" where
  "queue_of PriorityCritical p = pp_critical p"
| "queue_of PriorityHigh p = pp_high p"
| "queue_of PriorityNormal p = pp_normal p"
| "queue_of PriorityLow p = pp_low p"

fun set_queue :: "message_priority \<Rightarrow> 'p queued_message list \<Rightarrow> 'p message_pipeline \<Rightarrow> 'p message_pipeline" where
  "set_queue PriorityCritical q p = p\<lparr>pp_critical := q\<rparr>"
| "set_queue PriorityHigh q p = p\<lparr>pp_high := q\<rparr>"
| "set_queue PriorityNormal q p = p\<lparr>pp_normal := q\<rparr>"
| "set_queue PriorityLow q p = p\<lparr>pp_low := q\<rparr>"

fun queue_capacity :: "message_priority \<Rightarrow> pipeline_config \<Rightarrow> nat" where
  "queue_capacity PriorityCritical c = pl_priority_queue c div 4"
| "queue_capacity PriorityHigh c = pl_priority_queue c div 4"
| "queue_capacity PriorityNormal c = pl_max_queue c"
| "queue_capacity PriorityLow c = pl_priority_queue c div 2"

definition send_event :: "'p pipeline_event \<Rightarrow> 'p message_pipeline \<Rightarrow> 'p message_pipeline" where
  "send_event e p = p\<lparr>pp_events := pp_events p @ [e]\<rparr>"

definition pipeline_submit :: "nat \<Rightarrow> adic_message \<Rightarrow> 'p \<Rightarrow> (adic_error, 'p message_pipeline, unit) rop" where
  "pipeline_submit now m source p =
     (case check_rate_limit now source (pp_limiter p) of (ok, limiter) \<Rightarrow>
        (let p = p\<lparr>pp_limiter := limiter\<rparr>
         in if \<not> ok then
              errR NetworkError (send_event (RateLimitExceeded source)
                (p\<lparr>pp_stats := (pp_stats p)\<lparr>px_rate_limited := px_rate_limited (pp_stats p) + 1\<rparr>\<rparr>))
            else
              (let priority = determine_priority m;
                   queued = \<lparr>qx_message = m, qx_priority = priority, qx_source = source, qx_received_at = now, qx_attempts = 0\<rparr>;
                   queue = queue_of priority p
               in if queue_capacity priority (pp_config p) \<le> length queue then errR NetworkError (send_event QueueFull p)
                  else
                    (let p = set_queue priority (queue @ [queued]) p;
                         stats = (pp_stats p)\<lparr>px_received := px_received (pp_stats p) + 1, px_queue_depth := length (pp_normal p),
                           px_priority_depth := length (pp_critical p) + length (pp_high p) + length (pp_low p)\<rparr>
                     in okR () (send_event (MessageQueued (am_id m) priority) (p\<lparr>pp_stats := stats\<rparr>))))))"

text \<open>Messages are taken from the front of a queue while fewer than \<open>limit\<close> have been collected.\<close>

definition drain_to :: "nat \<Rightarrow> message_priority \<Rightarrow> 'p queued_message list \<times> 'p message_pipeline \<Rightarrow> 'p queued_message list \<times> 'p message_pipeline" where
  "drain_to limit priority = (\<lambda>(batch, p).
     (let n = limit - length batch; queue = queue_of priority p
      in (batch @ take n queue, set_queue priority (drop n queue) p)))"

definition get_pending_messages :: "'p message_pipeline \<Rightarrow> adic_message list \<times> 'p message_pipeline" where
  "get_pending_messages p =
     map_prod (map qx_message) id
       (drain_to 100 PriorityLow (drain_to 100 PriorityNormal (drain_to 50 PriorityHigh (drain_to 25 PriorityCritical ([], p)))))"

text \<open>The running average is \<^term>\<open>None\<close> once it is infinite or not a number.\<close>

definition average_update :: "nat \<Rightarrow> pipeline_stats \<Rightarrow> pipeline_stats" where
  "average_update millis s =
     s\<lparr>px_average_ms :=
       (case px_average_ms s of
          None \<Rightarrow> None
        | Some avg \<Rightarrow>
            (if px_validated s = 0 then None
             else Some ((avg * (real (unat (px_validated s)) - 1) + real millis) / real (unat (px_validated s)))))\<rparr>"

definition collect_result :: "(adic_message \<Rightarrow> bool) \<Rightarrow> (adic_message \<Rightarrow> nat) \<Rightarrow> adic_message list \<times> 'p message_pipeline \<Rightarrow> 'p queued_message \<Rightarrow>
    adic_message list \<times> 'p message_pipeline" where
  "collect_result validator millis = (\<lambda>(validated, p) q.
     (let m = qx_message q; s = pp_stats p
      in if validator m
         then (validated @ [m], send_event (MessageValidated (am_id m))
           (p\<lparr>pp_stats := average_update (millis m) (s\<lparr>px_validated := px_validated s + 1\<rparr>)\<rparr>))
         else (validated, send_event (MessageRejected (am_id m))
           (p\<lparr>pp_stats := average_update (millis m) (s\<lparr>px_rejected := px_rejected s + 1\<rparr>)\<rparr>))))"

definition process_batch :: "(adic_message \<Rightarrow> bool) \<Rightarrow> (adic_message \<Rightarrow> nat) \<Rightarrow> 'p message_pipeline \<Rightarrow> adic_message list \<times> 'p message_pipeline" where
  "process_batch validator millis p =
     (let n = pl_batch_size (pp_config p)
      in case drain_to n PriorityLow (drain_to n PriorityNormal (drain_to n PriorityHigh (drain_to n PriorityCritical ([], p)))) of
          (batch, p) \<Rightarrow> foldl (collect_result validator millis) ([], p) batch)"

definition parallel_signature_verification :: "crypto_env \<Rightarrow> adic_message list \<Rightarrow> (message_id \<times> bool) list" where
  "parallel_signature_verification v ms =
     map (\<lambda>m. (am_id m, case crypto_verify_signature v m (am_proposer m) (am_signature m) of Inl _ \<Rightarrow> False | Inr b \<Rightarrow> b)) ms"

definition pipeline_get_stats :: "'p message_pipeline \<Rightarrow> pipeline_stats" where
  "pipeline_get_stats p = pp_stats p"

definition clear_queues :: "'p message_pipeline \<Rightarrow> 'p message_pipeline" where
  "clear_queues p = p\<lparr>pp_critical := [], pp_high := [], pp_normal := [], pp_low := [],
     pp_stats := (pp_stats p)\<lparr>px_queue_depth := 0, px_priority_depth := 0\<rparr>\<rparr>"

section \<open>Admissions\<close>

text \<open>A run of the limiter: checks of peers and cleanups at times that do not decrease. \<open>admitted\<close> lists the times at which
  messages of one peer were let through.\<close>

datatype 'p limiter_cmd = LimitCheck nat 'p | LimitCleanup nat

fun cmd_time :: "'p limiter_cmd \<Rightarrow> nat" where
  "cmd_time (LimitCheck now peer) = now"
| "cmd_time (LimitCleanup now) = now"

fun limiter_exec :: "'p \<Rightarrow> 'p rate_limiter \<times> nat list \<Rightarrow> 'p limiter_cmd \<Rightarrow> 'p rate_limiter \<times> nat list" where
  "limiter_exec a (r, admitted) (LimitCheck now peer) =
     (case check_rate_limit now peer r of (ok, r) \<Rightarrow> (r, if ok \<and> peer = a then admitted @ [now] else admitted))"
| "limiter_exec a (r, admitted) (LimitCleanup now) = (cleanup_old_entries now r, admitted)"

definition spaced :: "nat \<Rightarrow> nat \<Rightarrow> nat list \<Rightarrow> bool" where
  "spaced n window ts \<longleftrightarrow> (\<forall>i. i + n < length ts \<longrightarrow> window < ts ! (i + n) - ts ! i)"

lemma filter_recent:
  "sorted ts \<Longrightarrow> filter (\<lambda>t. now - t \<le> window) ts = recent window now ts" for ts :: "nat list"
proof (induction ts)
  case (Cons t ts)
  show ?case
  proof (cases "window < now - t")
    case True
    then show ?thesis using Cons by (simp add: recent_def)
  next
    case False
    then have "filter (\<lambda>t. now - t \<le> window) (t # ts) = t # ts" using Cons.prems by (auto intro!: filter_True)
    then show ?thesis using False by (simp add: recent_def)
  qed
qed (simp add: recent_def)

lemma recent_split:
  obtains old where "ts = old @ recent window now ts" and "\<forall>x\<in>set old. window < now - x"
  using that [of "takeWhile (\<lambda>front. window < now - front) ts"] by (auto simp: recent_def dest: set_takeWhileD)

definition limiter_ok :: "nat \<Rightarrow> nat \<Rightarrow> 'p \<Rightarrow> nat \<Rightarrow> 'p rate_limiter \<times> nat list \<Rightarrow> bool" where
  "limiter_ok n window a now = (\<lambda>(r, admitted).
     rl_max r = n \<and> rl_window r = window \<and> sorted admitted \<and> (\<forall>x\<in>set admitted. x \<le> now) \<and> spaced n window admitted \<and>
     (\<exists>old. admitted = old @ list_at (rl_limits r) a \<and> (\<forall>x\<in>set old. window < now - x)))"

lemma limiter_ok_later: "limiter_ok n window a t x \<Longrightarrow> t \<le> now \<Longrightarrow> limiter_ok n window a now x"
  unfolding limiter_ok_def by (cases x) (auto intro: order_trans, fastforce)

lemma limiter_recent:
  assumes "limiter_ok n window a now (r, admitted)"
  obtains old where "admitted = old @ recent window now (list_at (rl_limits r) a)" and "\<forall>x\<in>set old. window < now - x"
proof -
  obtain old where old: "admitted = old @ list_at (rl_limits r) a" "\<forall>x\<in>set old. window < now - x"
    using assms by (auto simp: limiter_ok_def)
  obtain old' where "list_at (rl_limits r) a = old' @ recent window now (list_at (rl_limits r) a)" "\<forall>x\<in>set old'. window < now - x"
    by (rule recent_split)
  then show ?thesis using old that [of "old @ old'"] by (metis Un_iff append.assoc set_append)
qed

lemma spaced_snoc:
  assumes "spaced n window xs" and xs: "xs = old @ kept" and "\<forall>x\<in>set old. window < now - x" and "length kept < n"
  shows "spaced n window (xs @ [now])"
  unfolding spaced_def
proof (intro allI impI)
  fix i assume i: "i + n < length (xs @ [now])"
  show "window < (xs @ [now]) ! (i + n) - (xs @ [now]) ! i"
  proof (cases "i + n < length xs")
    case True
    then show ?thesis using assms(1) by (simp add: spaced_def nth_append)
  next
    case False
    then have at: "i + n = length xs" using i by simp
    then have "i < length old" using assms(4) by (simp add: xs)
    then have "xs ! i \<in> set old" by (simp add: xs nth_append)
    then show ?thesis using assms(3) at \<open>i < length old\<close> by (simp add: nth_append) (simp add: xs)
  qed
qed

lemma limiter_exec_ok:
  assumes "limiter_ok n window a now (r, admitted)" and "cmd_time c = now"
  shows "limiter_ok n window a now (limiter_exec a (r, admitted) c)"
proof -
  obtain old where old: "admitted = old @ recent window now (list_at (rl_limits r) a)" "\<forall>x\<in>set old. window < now - x"
    by (rule limiter_recent [OF assms(1)])
  show ?thesis
  proof (cases c)
    case (LimitCheck t peer)
    show ?thesis
    proof (cases "peer = a")
      case True
      then show ?thesis
        using assms old spaced_snoc [of n window admitted old "recent window now (list_at (rl_limits r) a)" now]
        by (auto simp: limiter_ok_def LimitCheck check_rate_limit_def Let_def list_at_def [of "_(_ \<mapsto> _)"] sorted_append not_le)
    next
      case False
      then have "list_at (rl_limits (snd (check_rate_limit t peer r))) a = list_at (rl_limits r) a"
        by (simp add: check_rate_limit_def Let_def list_at_def)
      then show ?thesis using assms False
        by (auto simp: limiter_ok_def LimitCheck check_rate_limit_def Let_def)
    qed
  next
    case (LimitCleanup t)
    have sorted: "sorted (list_at (rl_limits r) a)" using assms(1) by (auto simp: limiter_ok_def sorted_append)
    have "list_at (rl_limits (cleanup_old_entries t r)) a = filter (\<lambda>x. t - x \<le> window) (list_at (rl_limits r) a)"
      using assms(1) by (auto simp: limiter_ok_def cleanup_old_entries_def list_at_def Let_def split: option.split)
    then have "list_at (rl_limits (cleanup_old_entries t r)) a = recent window now (list_at (rl_limits r) a)"
      using filter_recent [OF sorted] assms(2) by (simp add: LimitCleanup)
    then have "\<exists>old. admitted = old @ list_at (rl_limits (cleanup_old_entries t r)) a \<and> (\<forall>x\<in>set old. window < now - x)"
      using old by metis
    moreover have "rl_max (cleanup_old_entries t r) = rl_max r" "rl_window (cleanup_old_entries t r) = rl_window r"
      by (simp_all add: cleanup_old_entries_def)
    ultimately show ?thesis using assms(1) by (simp add: limiter_ok_def LimitCleanup)
  qed
qed

lemma limiter_run_ok:
  assumes "sorted (map cmd_time cmds)"
  shows "limiter_ok n window a (if cmds = [] then 0 else cmd_time (last cmds)) (foldl (limiter_exec a) (rate_limiter_new n window, []) cmds)"
  using assms
proof (induction cmds rule: rev_induct)
  case Nil
  show ?case by (simp add: limiter_ok_def rate_limiter_new_def spaced_def list_at_def)
next
  case (snoc c cmds)
  let ?x = "foldl (limiter_exec a) (rate_limiter_new n window, []) cmds"
  let ?t = "if cmds = [] then 0 else cmd_time (last cmds)"
  have sorted: "sorted (map cmd_time cmds)" and le: "\<forall>d\<in>set cmds. cmd_time d \<le> cmd_time c" using snoc.prems by (simp_all add: sorted_append)
  have "?t \<le> cmd_time c" using le by simp
  from limiter_ok_later [OF snoc.IH [OF sorted] this] have ok: "limiter_ok n window a (cmd_time c) ?x" .
  obtain r admitted where x: "?x = (r, admitted)" by force
  from limiter_exec_ok [OF ok [unfolded x] refl] show ?case by (simp add: x)
qed

section \<open>Draining\<close>

lemma queue_set [simp]: "queue_of i (set_queue j q p) = (if i = j then q else queue_of i p)"
  by (cases i; cases j) simp_all

lemma drain_to_order:
  "drain_to limit i (batch, p) = (batch', p') \<Longrightarrow>
   batch' @ queue_of i p' = batch @ queue_of i p \<and> (\<forall>j. j \<noteq> i \<longrightarrow> queue_of j p' = queue_of j p) \<and>
   length batch' \<le> max limit (length batch) \<and> (queue_of i p' \<noteq> [] \<longrightarrow> limit \<le> length batch')"
  by (auto simp: drain_to_def Let_def)

lemma fill_bound: "length xs \<le> n \<Longrightarrow> length (xs @ take (n - length xs) ys) \<le> n"
  by simp

section \<open>Properties\<close>

text \<open>C40: No peer gets more messages past the limiter than its limit in any window of time: of the times at which messages
  of a peer were let through, one and the one a full limit later are more than a window apart, whatever other peers
  send and whenever the old entries are cleaned up.\<close>

theorem rate_limit_holds:
  assumes "sorted (map cmd_time cmds)"
    and "admitted = snd (foldl (limiter_exec peer) (rate_limiter_new n window, []) cmds)" and "i + n < length admitted"
  shows "window < admitted ! (i + n) - admitted ! i"
  using limiter_run_ok [OF assms(1), of n window peer] assms(2,3)
  by (cases "foldl (limiter_exec peer) (rate_limiter_new n window, []) cmds") (auto simp: limiter_ok_def spaced_def)

lemma rate_limit_holds_witness:
  "snd (foldl (limiter_exec ''p'') (rate_limiter_new 1 5, []) [LimitCheck 0 ''p'', LimitCheck 3 ''p'', LimitCheck 9 ''p'']) = [0, 9] \<and>
   (5 :: nat) < [0, 9] ! 1 - [0, 9] ! 0"
proof -
  have run: "[0, 9] = snd (foldl (limiter_exec ''p'') (rate_limiter_new 1 5, []) [LimitCheck 0 ''p'', LimitCheck 3 ''p'', LimitCheck 9 ''p''])"
    by (simp add: check_rate_limit_def rate_limiter_new_def recent_def list_at_def Let_def)
  show ?thesis using rate_limit_holds [OF _ run, of 0] unfolding run [symmetric] by simp
qed

text \<open>Fetching the pending messages takes each queue from its front: what is returned and what stays are, in order, what
  each queue held, and at most a hundred are returned.\<close>

theorem pending_messages_in_order:
  assumes "get_pending_messages p = (ms, p')"
  shows "\<exists>c h n l. ms = map qx_message (c @ h @ n @ l) \<and> length ms \<le> 100 \<and>
    pp_critical p = c @ pp_critical p' \<and> pp_high p = h @ pp_high p' \<and> pp_normal p = n @ pp_normal p' \<and> pp_low p = l @ pp_low p'"
proof -
  let ?c = "take 25 (pp_critical p)"
  let ?h = "take (50 - length ?c) (pp_high p)"
  let ?n = "take (100 - length (?c @ ?h)) (pp_normal p)"
  let ?l = "take (100 - length (?c @ ?h @ ?n)) (pp_low p)"
  have p': "ms = map qx_message (?c @ ?h @ ?n @ ?l)" "p' = p\<lparr>pp_critical := drop 25 (pp_critical p),
      pp_high := drop (50 - length ?c) (pp_high p), pp_normal := drop (100 - length (?c @ ?h)) (pp_normal p),
      pp_low := drop (100 - length (?c @ ?h @ ?n)) (pp_low p)\<rparr>"
    using assms by (simp_all add: get_pending_messages_def drain_to_def Let_def)
  then have "pp_critical p = ?c @ pp_critical p'" "pp_high p = ?h @ pp_high p'"
    "pp_normal p = ?n @ pp_normal p'" "pp_low p = ?l @ pp_low p'"
    by (simp_all del: length_take length_append)
  moreover have "length (?c @ ?h) \<le> 100" by simp
  then have "length (?c @ ?h @ ?n) \<le> 100" using fill_bound [of "?c @ ?h"] by (simp only: append_assoc)
  then have "length (map qx_message (?c @ ?h @ ?n @ ?l)) \<le> 100"
    using fill_bound [of "?c @ ?h @ ?n"] by (simp only: append_assoc length_map)
  ultimately have "ms = map qx_message (?c @ ?h @ ?n @ ?l) \<and> length ms \<le> 100 \<and> pp_critical p = ?c @ pp_critical p' \<and>
      pp_high p = ?h @ pp_high p' \<and> pp_normal p = ?n @ pp_normal p' \<and> pp_low p = ?l @ pp_low p'"
    using p'(1) by (simp only: simp_thms)
  then show ?thesis by (intro exI)
qed

end
