(* ===== verification/Node_Messages.thy ===== *)
theory Node_Messages
  imports Parent_Selection Storage_Index Message_Pipeline Finality_Engine Encoders Vrf
begin

text \<open>
  The node (\<open>crates/adic-node/src/node.rs\<close>) as far as messages go: submission, messages from the network, finality,
  the epochs of the randomness, tips and metrics, with the handlers of the network engine
  (\<open>crates/adic-network/src/lib.rs\<close>) that store messages and artifacts. The components are those of the other theories. What they
  share through reference counting is kept once: storage, deposits and reputation belong to the node and the consensus
  engine, and the finality engine and the randomness service work on them. The node is one without an orchestrator of
  key generation, as \<open>new\<close> makes it when that is not configured. Keys, signatures, clocks, random numbers, the
  order of hash maps, JSON and the transport are parameters. The code takes the time anew for each use; a call here has
  one time. The texts of events and errors are dropped.
\<close>

section \<open>State\<close>

datatype node_error =
    NodeAdic adic_error
  | NodeEcon econ_error
  | NodeStorage storage_error
  | NodeMrw mrw_error
  | NodeEngine engine_error
  | NodePanic panic
  | MissingParent
  | NotAdmissible
  | NotValid

datatype rejection_type = AdmissibilityRejection | ValidationRejection

datatype finality_type = FinalKCore | FinalHomology | FinalComposite

record axis_data =
  xd_axis :: u32
  xd_radius :: u32
  xd_distinct_balls :: nat
  xd_required :: nat
  xd_meets :: bool

datatype node_event =
    EvTipsUpdated "message_id list"
  | EvMessageFinalized message_id finality_type
  | EvDiversityUpdated f64 "axis_data list" nat
  | EvEnergyUpdated u32 u32 u32 f64
  | EvKCoreUpdated u32 u32 u32
  | EvAdmissibilityUpdated f64 f64 f64 f64 nat
  | EvMessageAdded message_id u64
  | EvMessageRejected message_id rejection_type
  | EvDepositEscrowed message_id public_key adic_amount
  | EvDepositSlashed message_id public_key adic_amount
  | EvCommitSubmitted message_id public_key u64
  | EvRevealOpened message_id public_key u64
  | EvRandomnessFinalized u64 nat

datatype throttled = ReputationDecay | ConflictCleanup | StalePeers | EnergyMetrics | AdmissibilityMetrics | TipsMetrics | KCoreMetrics | DiversityMetrics

record ('s, 'e, 'p) adic_node =
  nd_consensus :: "'e consensus_engine"
  nd_mrw :: mrw_engine
  nd_storage :: 's
  nd_finality :: "('s, 'e) finality_engine"
  nd_balances :: "'e balance_manager"
  nd_pipeline :: "'p message_pipeline option"
  nd_index :: message_index
  nd_tips :: tip_manager
  nd_vrf :: vrf_service
  nd_epoch :: u64
  nd_throttle :: "throttled \<Rightarrow> u64"
  nd_events :: "node_event list"

record ('s, 'e, 'p) node_env =
  ne_engine :: "('s, 'e) engine_env"
  ne_crypto :: crypto_env
  ne_params :: adic_params
  ne_encoders :: "encoder list"
  ne_key :: public_key
  ne_wallet_key :: public_key
  ne_sign :: "bytes \<Rightarrow> signature"
  ne_hex :: "bytes \<Rightarrow> string"
  ne_dec :: "i64 \<Rightarrow> string"
  ne_axes :: "u32 set \<Rightarrow> u32 list"
  ne_rnd :: "nat \<Rightarrow> nat \<Rightarrow> nat \<Rightarrow> f64"
  ne_instant :: nat
  ne_peer :: 'p
  ne_serializes :: "adic_message \<Rightarrow> bool"
  ne_commit_json :: "bytes \<Rightarrow> vrf_commit option"
  ne_open_json :: "bytes \<Rightarrow> vrf_open option"

type_synonym ('s, 'e, 'p, 'a) node_op = "(node_error, ('s, 'e, 'p) adic_node, 'a) rop"

abbreviation ne_backend :: "('s, 'e, 'p) node_env \<Rightarrow> 's storage_backend" where
  "ne_backend env \<equiv> ee_backend (ne_engine env)"

abbreviation ne_econ :: "('s, 'e, 'p) node_env \<Rightarrow> 'e econ_ops" where
  "ne_econ env \<equiv> ee_econ (ne_engine env)"

abbreviation ne_now :: "('s, 'e, 'p) node_env \<Rightarrow> i64" where
  "ne_now env \<equiv> ee_now (ne_engine env)"

abbreviation ne_ids :: "('s, 'e, 'p) node_env \<Rightarrow> message_id set \<Rightarrow> message_id list" where
  "ne_ids env \<equiv> ee_ids (ne_engine env)"

text \<open>Operations of the components as operations of the node.\<close>

definition on_consensus :: "(adic_error, 'e consensus_engine, 'a) rop \<Rightarrow> ('s, 'e, 'p, 'a) node_op" where
  "on_consensus = lift_op nd_consensus (\<lambda>c n. n\<lparr>nd_consensus := c\<rparr>) NodeAdic"

definition on_deposits :: "('e, 'a) deposit_op \<Rightarrow> ('s, 'e, 'p, 'a) node_op" where
  "on_deposits = lift_op (\<lambda>n. cx_deposits (nd_consensus n)) (\<lambda>d n. n\<lparr>nd_consensus := (nd_consensus n)\<lparr>cx_deposits := d\<rparr>\<rparr>) NodeAdic"

definition on_store :: "('s, 'a) storage_op \<Rightarrow> ('s, 'e, 'p, 'a) node_op" where
  "on_store = lift_op nd_storage (\<lambda>s n. n\<lparr>nd_storage := s\<rparr>) NodeStorage"

definition on_balances :: "('e, 'a) bal_op \<Rightarrow> ('s, 'e, 'p, 'a) node_op" where
  "on_balances = lift_op nd_balances (\<lambda>b n. n\<lparr>nd_balances := b\<rparr>) NodeEcon"

definition finality_of :: "('s, 'e, 'p) adic_node \<Rightarrow> ('s, 'e) finality_engine" where
  "finality_of n = (nd_finality n)\<lparr>fe_storage := nd_storage n, fe_deposits := cx_deposits (nd_consensus n),
     fe_reputation := cx_reputation (nd_consensus n)\<rparr>"

definition put_finality :: "('s, 'e) finality_engine \<Rightarrow> ('s, 'e, 'p) adic_node \<Rightarrow> ('s, 'e, 'p) adic_node" where
  "put_finality f n = n\<lparr>nd_finality := f, nd_storage := fe_storage f,
     nd_consensus := (nd_consensus n)\<lparr>cx_deposits := fe_deposits f, cx_reputation := fe_reputation f\<rparr>\<rparr>"

definition node_emit :: "node_event \<Rightarrow> ('s, 'e, 'p) adic_node \<Rightarrow> ('s, 'e, 'p) adic_node" where
  "node_emit ev n = n\<lparr>nd_events := nd_events n @ [ev]\<rparr>"

section \<open>Features of new messages\<close>

definition create_encoded_features :: "('s, 'e, 'p) node_env \<Rightarrow> bytes \<Rightarrow> bytes \<Rightarrow> ('s, 'e, 'p, adic_features) node_op" where
  "create_encoded_features env topic region =
     tryR (on_balances (get_balance (ne_econ env) (ne_now env) (address_from_public_key (ee_blake3 (ne_engine env)) (ne_wallet_key env)))) (\<lambda>balance.
       let stake_amount = f64_as_u64 (amt_to_adic balance);
           ed = (encoder_data_new (unix_secs (ne_now env)) topic region)\<lparr>ed_stake_amount := stake_amount\<rparr>
       in case encode_all (ee_blake3 (ne_engine env)) (ne_encoders env) ed (prm_p (ne_params env)) 10 of
            Inl e \<Rightarrow> errR (NodePanic e)
          | Inr axis_phi \<Rightarrow> okR \<lparr>af_phi = axis_phi\<rparr>)"

abbreviation default_features :: "('s, 'e, 'p) node_env \<Rightarrow> ('s, 'e, 'p, adic_features) node_op" where
  "default_features env \<equiv> create_encoded_features env (ascii ''default'') (ascii ''unknown'')"

text \<open>The digit after the ball of the tip is changed, or the last one.\<close>

definition perturb_digits :: "nat \<Rightarrow> bytes \<Rightarrow> bytes" where
  "perturb_digits radius digits =
     (if radius < length digits then digits[radius := (digits ! radius + 1) mod 3]
      else if digits \<noteq> [] then digits[length digits - 1 := (digits ! (length digits - 1) + 1) mod 3]
      else digits)"

definition tip_radius :: "adic_params \<Rightarrow> nat \<Rightarrow> nat" where
  "tip_radius prm i = (case vget (prm_rho prm) i of None \<Rightarrow> 2 | Some r \<Rightarrow> unat r)"

definition tip_features :: "adic_params \<Rightarrow> adic_message \<Rightarrow> adic_features" where
  "tip_features prm tip_msg =
     \<lparr>af_phi = map (\<lambda>(i, axis_phi). axis_phi_new (of_nat i)
        ((ap_digits axis_phi)\<lparr>qd_digits := perturb_digits (tip_radius prm i) (qd_digits (ap_digits axis_phi))\<rparr>))
        (enumerate 0 (af_phi (am_features tip_msg)))\<rparr>"

definition features_for :: "('s, 'e, 'p) node_env \<Rightarrow> message_id list \<Rightarrow> ('s, 'e, 'p, adic_features) node_op" where
  "features_for env tips n =
     (case tips of
        [] \<Rightarrow> default_features env n
      | tip # _ \<Rightarrow>
          (case sb_get_message (ne_backend env) tip (nd_storage n) of
             Inr (Some tip_msg) \<Rightarrow> okR (tip_features (ne_params env) tip_msg) n
           | _ \<Rightarrow> default_features env n))"

text \<open>With given parents a feature is the median of theirs, digit by digit.\<close>

definition median_digit :: "qp_digits list \<Rightarrow> nat \<Rightarrow> byte" where
  "median_digit ds i = (let digits_at_pos = sort (map (\<lambda>d. digit_at (qd_digits d) i) ds) in digits_at_pos ! (length digits_at_pos div 2))"

definition median_feature :: "adic_params \<Rightarrow> adic_features list \<Rightarrow> nat \<Rightarrow> panic + axis_phi" where
  "median_feature prm parents axis =
     (let ds = List.map_filter (\<lambda>pf. map_option ap_digits (get_axis pf (AxisId (of_nat axis)))) parents
      in if ds \<noteq> []
         then Inr (axis_phi_new (of_nat axis)
           \<lparr>qd_digits = map (median_digit ds) [0..<Max (set (map (\<lambda>d. length (qd_digits d)) ds))], qd_p = qd_p (hd ds)\<rparr>)
         else bindE (qp_from_u64 (1 + of_nat axis) (prm_p prm) 10) (\<lambda>d. Inr (axis_phi_new (of_nat axis) d)))"

definition parents_features :: "('s, 'e, 'p) node_env \<Rightarrow> 's \<Rightarrow> message_id list \<Rightarrow> adic_features list" where
  "parents_features env s parents = map am_features (fetch_messages (ne_backend env) s parents)"

definition explicit_features :: "('s, 'e, 'p) node_env \<Rightarrow> message_id list \<Rightarrow> (u32 \<times> u64) list option \<Rightarrow> ('s, 'e, 'p, adic_features) node_op" where
  "explicit_features env parents features_opt n =
     (case features_opt of
        Some axes \<Rightarrow>
          (case mapE (\<lambda>(axis, value). bindE (qp_from_u64 value 3 10) (\<lambda>d. Inr (axis_phi_new axis d))) axes of
             Inl e \<Rightarrow> errR (NodePanic e) n
           | Inr phi \<Rightarrow> okR \<lparr>af_phi = phi\<rparr> n)
      | None \<Rightarrow>
          (if parents = [] then default_features env n
           else let all_features = parents_features env (nd_storage n) parents
                in if all_features = [] then default_features env n
                   else case mapE (median_feature (ne_params env) all_features) [0..<unat (prm_d (ne_params env))] of
                       Inl e \<Rightarrow> errR (NodePanic e) n
                     | Inr phi \<Rightarrow> okR \<lparr>af_phi = phi\<rparr> n))"

section \<open>Submission\<close>

definition adic_message_new :: "crypto_env \<Rightarrow> message_id list \<Rightarrow> adic_features \<Rightarrow> adic_meta \<Rightarrow> public_key \<Rightarrow> value_transfer option \<Rightarrow>
    bytes \<Rightarrow> adic_message" where
  "adic_message_new v parents features meta pk tx data =
     (let m = \<lparr>am_id = replicate 32 0, am_parents = parents, am_features = features, am_meta = meta, am_proposer = pk,
                am_signature = [], am_transfer = tx, am_data = data\<rparr>
      in m\<lparr>am_id := cr_compute_id v m\<rparr>)"

definition node_message :: "('s, 'e, 'p) node_env \<Rightarrow> message_id list \<Rightarrow> adic_features \<Rightarrow> value_transfer option \<Rightarrow> bytes \<Rightarrow> adic_message" where
  "node_message env parents features tx content =
     (let m = adic_message_new (ne_crypto env) parents features (meta_new (ne_now env)) (ne_key env) tx content
      in m\<lparr>am_signature := ne_sign env (cr_to_bytes (ne_crypto env) m)\<rparr>)"

definition choose_parents :: "('s, 'e, 'p) node_env \<Rightarrow> adic_features \<Rightarrow> message_id list \<Rightarrow> ('s, 'e, 'p, message_id list) node_op" where
  "choose_parents env features tips n =
     lift_op nd_mrw (\<lambda>e n. n\<lparr>nd_mrw := e\<rparr>) NodeMrw
       (select_parents (ne_dec env) (ne_axes env) (ne_ids env) (ne_ids env) (ne_rnd env) (ne_backend env) (nd_storage n)
         (nd_consensus n) (ne_now env) features tips) n"

definition check_transfer :: "('s, 'e, 'p) node_env \<Rightarrow> value_transfer option \<Rightarrow> ('s, 'e, 'p, unit) node_op" where
  "check_transfer env tx =
     (case tx of
        None \<Rightarrow> okR ()
      | Some t \<Rightarrow> on_balances (validate_transfer (ne_econ env) (ne_now env) (vt_from t) (vt_to t) (vt_amount t) (vt_nonce t)))"

definition escrow_deposit :: "('s, 'e, 'p) node_env \<Rightarrow> adic_message \<Rightarrow> ('s, 'e, 'p, adic_amount) node_op" where
  "escrow_deposit env m =
     tryR (getR (\<lambda>n. dm_amount (cx_deposits (nd_consensus n)))) (\<lambda>amount.
     tryR (on_deposits (deposit_escrow (ee_blake3 (ne_engine env)) (ne_econ env) (ne_now env) (am_id m) (am_proposer m))) (\<lambda>_.
     tryR (modR (node_emit (EvDepositEscrowed (am_id m) (am_proposer m) amount))) (\<lambda>_.
     okR amount)))"

primrec fetch_parents :: "('s, 'e, 'p) node_env \<Rightarrow> ('s, 'e, 'p) adic_node \<Rightarrow> message_id list \<Rightarrow> node_error + parent_features \<times> f64 list" where
  "fetch_parents env n [] = Inr ([], [])"
| "fetch_parents env n (p # ps) =
     (case sb_get_message (ne_backend env) p (nd_storage n) of
        Inl e \<Rightarrow> Inl (NodeStorage e)
      | Inr None \<Rightarrow> Inl MissingParent
      | Inr (Some parent) \<Rightarrow>
          bindE (fetch_parents env n ps) (\<lambda>(features, reputations).
            Inr (map ap_digits (af_phi (am_features parent)) # features,
              get_reputation (cx_reputation (nd_consensus n)) (am_proposer parent) # reputations)))"

definition require_admissible :: "('s, 'e, 'p) node_env \<Rightarrow> adic_amount \<Rightarrow> adic_message \<Rightarrow> ('s, 'e, 'p, unit) node_op" where
  "require_admissible env amount m n =
     (if am_parents m = [] then okR () n
      else case fetch_parents env n (am_parents m) of
          Inl e \<Rightarrow> errR e n
        | Inr (features, reputations) \<Rightarrow>
            (case check_message (cx_admissibility (nd_consensus n)) True m features reputations of
               Inl e \<Rightarrow> errR (NodePanic e) n
             | Inr (Inl e) \<Rightarrow> errR (NodeAdic e) n
             | Inr (Inr result) \<Rightarrow>
                 (if ar_is_admissible result then okR () n
                  else
                    tryR (on_deposits (deposit_slash (ee_blake3 (ne_engine env)) (ne_hex env) (ne_econ env) (ne_now env) (am_id m))) (\<lambda>_.
                    tryR (modR (node_emit (EvDepositSlashed (am_id m) (am_proposer m) amount))) (\<lambda>_.
                    tryR (modR (node_emit (EvMessageRejected (am_id m) AdmissibilityRejection))) (\<lambda>_.
                    errR NotAdmissible))) n)))"

definition node_validate :: "('s, 'e, 'p) node_env \<Rightarrow> adic_message \<Rightarrow> ('s, 'e, 'p, message_verdict) node_op" where
  "node_validate env m =
     on_consensus (validate_and_slash (ne_crypto env) (ee_blake3 (ne_engine env)) (ne_hex env) (ne_econ env) (ne_now env) m)"

definition require_valid :: "('s, 'e, 'p) node_env \<Rightarrow> adic_amount \<Rightarrow> adic_message \<Rightarrow> ('s, 'e, 'p, unit) node_op" where
  "require_valid env amount m =
     tryR (node_validate env m) (\<lambda>result.
       if vr_is_valid result then okR ()
       else
         tryR (modR (node_emit (EvDepositSlashed (am_id m) (am_proposer m) amount))) (\<lambda>_.
         tryR (modR (node_emit (EvMessageRejected (am_id m) ValidationRejection))) (\<lambda>_.
         errR NotValid)))"

text \<open>The index takes the depths of the parents; \<open>unknown\<close> is what a parent without a depth gives.\<close>

definition parent_depths :: "u32 list \<Rightarrow> message_index \<Rightarrow> message_id list \<Rightarrow> u32 list" where
  "parent_depths unknown x parents = concat (map (\<lambda>p. case index_get_depth x p of None \<Rightarrow> unknown | Some d \<Rightarrow> [d]) parents)"

definition store_and_index :: "('s, 'e, 'p) node_env \<Rightarrow> u32 list \<Rightarrow> adic_message \<Rightarrow> ('s, 'e, 'p, unit) node_op" where
  "store_and_index env unknown m =
     tryR (on_store (store_message (ne_backend env) m)) (\<lambda>_.
     tryR (modR (\<lambda>n. n\<lparr>nd_index := index_add_message m (parent_depths unknown (nd_index n) (am_parents m)) (nd_index n)\<rparr>)) (\<lambda>_.
     modR (\<lambda>n. n\<lparr>nd_tips := foldl (\<lambda>t p. snd (tip_remove p t)) (tip_add (am_id m) 1 (nd_tips n)) (am_parents m)\<rparr>)))"

definition axis_diversity :: "('s, 'e, 'p) node_env \<Rightarrow> 's \<Rightarrow> adic_params \<Rightarrow> message_id list \<Rightarrow> nat \<times> u32 \<Rightarrow> axis_data" where
  "axis_diversity env s prm tips = (\<lambda>(axis, radius).
     (let balls = set (List.map_filter (\<lambda>m. map_option (\<lambda>phi. ball_id (ap_digits phi) (unat radius)) (get_axis (am_features m) (AxisId (of_nat axis))))
            (fetch_messages (ne_backend env) s tips))
      in \<lparr>xd_axis = of_nat axis, xd_radius = radius, xd_distinct_balls = card balls, xd_required = unat (prm_q prm),
          xd_meets = (unat (prm_q prm) \<le> card balls)\<rparr>))"

definition emit_diversity_event :: "('s, 'e, 'p) node_env \<Rightarrow> message_id list \<Rightarrow> ('s, 'e, 'p) adic_node \<Rightarrow> ('s, 'e, 'p) adic_node" where
  "emit_diversity_event env tips n =
     (let prm = cx_params (nd_consensus n);
          axes_data = map (axis_diversity env (nd_storage n) prm tips) (enumerate 0 (prm_rho prm));
          diversity_score = (if axes_data \<noteq> [] then real (length (filter xd_meets axes_data)) / real (length axes_data) else 0)
      in node_emit (EvDiversityUpdated diversity_score axes_data (length tips)) n)"

definition announce_message :: "('s, 'e, 'p) node_env \<Rightarrow> adic_message \<Rightarrow> ('s, 'e, 'p) adic_node \<Rightarrow> ('s, 'e, 'p) adic_node" where
  "announce_message env m n =
     (let tips = tips_list (ne_ids env) (nd_tips n);
          n = emit_diversity_event env tips (node_emit (EvTipsUpdated tips) n)
      in node_emit (EvMessageAdded (am_id m) (case index_get_depth (nd_index n) (am_id m) of None \<Rightarrow> 0 | Some d \<Rightarrow> ucast d)) n)"

definition await_finality :: "adic_message \<Rightarrow> ('s, 'e, 'p) adic_node \<Rightarrow> ('s, 'e, 'p) adic_node" where
  "await_finality m n = put_finality (engine_add_message (am_id m) (finality_of n)) n"

definition to_pipeline :: "('s, 'e, 'p) node_env \<Rightarrow> adic_message \<Rightarrow> 'p \<Rightarrow> ('s, 'e, 'p, unit) node_op" where
  "to_pipeline env m source n =
     (case nd_pipeline n of
        None \<Rightarrow> okR () n
      | Some pipeline \<Rightarrow>
          lift_op (\<lambda>_. pipeline) (\<lambda>p n. n\<lparr>nd_pipeline := Some p\<rparr>) NodeAdic (pipeline_submit (ne_instant env) m source) n)"

definition network_store :: "('s, 'e, 'p) node_env \<Rightarrow> adic_message \<Rightarrow> ('s, 'e, 'p, unit) node_op" where
  "network_store env m = lift_op id (\<lambda>n _. n) (\<lambda>_. NodeAdic StorageError) (on_store (store_message (ne_backend env) m))"

definition network_relay :: "('s, 'e, 'p) node_env \<Rightarrow> adic_message \<Rightarrow> ('s, 'e, 'p, unit) node_op" where
  "network_relay env m = (if ne_serializes env m then okR () else errR (NodeAdic Serialization))"

text \<open>The engine of the network stores the message itself, and its pipeline is given it as coming from the node.\<close>

definition network_broadcast :: "('s, 'e, 'p) node_env \<Rightarrow> adic_message \<Rightarrow> ('s, 'e, 'p, unit) node_op" where
  "network_broadcast env m n =
     (if nd_pipeline n = None then okR () n
      else if am_signature m = [] then errR (NodeAdic SignatureVerification) n
      else
        tryR (network_store env m) (\<lambda>_.
        tryR (modR (await_finality m)) (\<lambda>_.
        tryR (to_pipeline env m (ne_peer env)) (\<lambda>_.
        network_relay env m))) n)"

text \<open>From the signed message on; only a submission with chosen parents announces its message.\<close>

definition submit_signed :: "('s, 'e, 'p) node_env \<Rightarrow> bool \<Rightarrow> adic_message \<Rightarrow> ('s, 'e, 'p, message_id) node_op" where
  "submit_signed env announce m =
     tryR (escrow_deposit env m) (\<lambda>amount.
     tryR (require_admissible env amount m) (\<lambda>_.
     tryR (require_valid env amount m) (\<lambda>_.
     tryR (store_and_index env (if announce then [0] else []) m) (\<lambda>_.
     tryR (modR (if announce then announce_message env m else id)) (\<lambda>_.
     tryR (modR (await_finality m)) (\<lambda>_.
     tryR (network_broadcast env m) (\<lambda>_.
     okR (am_id m))))))))"

definition submit_message_with_transfer :: "('s, 'e, 'p) node_env \<Rightarrow> bytes \<Rightarrow> value_transfer option \<Rightarrow> ('s, 'e, 'p, message_id) node_op" where
  "submit_message_with_transfer env content tx =
     tryR (getR (\<lambda>n. tips_list (ne_ids env) (nd_tips n))) (\<lambda>tips.
     tryR (features_for env tips) (\<lambda>features.
     tryR (choose_parents env features tips) (\<lambda>parents.
     tryR (check_transfer env tx) (\<lambda>_.
     submit_signed env True (node_message env parents features tx content)))))"

definition submit_message_with_parents_and_transfer :: "('s, 'e, 'p) node_env \<Rightarrow> bytes \<Rightarrow> message_id list \<Rightarrow> (u32 \<times> u64) list option \<Rightarrow>
    value_transfer option \<Rightarrow> ('s, 'e, 'p, message_id) node_op" where
  "submit_message_with_parents_and_transfer env content parents features_opt tx =
     tryR (explicit_features env parents features_opt) (\<lambda>features.
     tryR (check_transfer env tx) (\<lambda>_.
     submit_signed env False (node_message env parents features tx content)))"

section \<open>Messages from the network\<close>

text \<open>What the engine of the network does with a message of a peer.\<close>

definition incoming_admissible :: "('s, 'e, 'p) node_env \<Rightarrow> adic_message \<Rightarrow> ('s, 'e, 'p, unit) node_op" where
  "incoming_admissible env m n =
     (if am_parents m = [] then okR () n
      else case fetch_parents env n (am_parents m) of
          Inl _ \<Rightarrow> errR (NodeAdic InvalidMessage) n
        | Inr (features, reputations) \<Rightarrow>
            (case check_message (cx_admissibility (nd_consensus n)) True m features reputations of
               Inl e \<Rightarrow> errR (NodePanic e) n
             | Inr (Inl e) \<Rightarrow> errR (NodeAdic AdmissibilityFailed) n
             | Inr (Inr result) \<Rightarrow> (if ar_is_admissible result then okR () n else errR (NodeAdic AdmissibilityFailed) n)))"

definition handle_incoming_message :: "('s, 'e, 'p) node_env \<Rightarrow> adic_message \<Rightarrow> 'p \<Rightarrow> ('s, 'e, 'p, unit) node_op" where
  "handle_incoming_message env m from_peer n =
     (case sb_get_message (ne_backend env) (am_id m) (nd_storage n) of
        Inr (Some _) \<Rightarrow> okR () n
      | _ \<Rightarrow>
          (if am_signature m = [] \<or> crypto_verify_signature (ne_crypto env) m (am_proposer m) (am_signature m) \<noteq> Inr True
           then errR (NodeAdic SignatureVerification) n
           else
             tryR (incoming_admissible env m) (\<lambda>_.
             tryR (network_store env m) (\<lambda>_.
             tryR (modR (await_finality m)) (\<lambda>_.
             tryR (to_pipeline env m from_peer) (\<lambda>_.
             network_relay env m)))) n))"

definition vrf_of :: "('s, 'e, 'p) adic_node \<Rightarrow> vrf_service" where
  "vrf_of n = (nd_vrf n)\<lparr>vv_tracker := cx_reputation (nd_consensus n)\<rparr>"

definition process_vrf_message :: "('s, 'e, 'p) node_env \<Rightarrow> adic_message \<Rightarrow> ('s, 'e, 'p) adic_node \<Rightarrow> ('s, 'e, 'p) adic_node" where
  "process_vrf_message env m n =
     (case ne_commit_json env (am_data m) of
        Some c \<Rightarrow>
          (case submit_commit c (vrf_of n) of
             (Inr _, v) \<Rightarrow> node_emit (EvCommitSubmitted (commit_id c) (vc_committer c) (vc_target_epoch c)) (n\<lparr>nd_vrf := v\<rparr>)
           | (Inl _, v) \<Rightarrow> n\<lparr>nd_vrf := v\<rparr>)
      | None \<Rightarrow>
          (case ne_open_json env (am_data m) of
             None \<Rightarrow> n
           | Some r \<Rightarrow>
               (case submit_reveal (ee_blake3 (ne_engine env)) r (nd_epoch n) (vrf_of n) of
                  (Inr _, v) \<Rightarrow> node_emit (EvRevealOpened (vo_ref_commit r) (vo_public_key r) (vo_target_epoch r)) (n\<lparr>nd_vrf := v\<rparr>)
                | (Inl _, v) \<Rightarrow> n\<lparr>nd_vrf := v\<rparr>)))"

definition accept_incoming :: "('s, 'e, 'p) node_env \<Rightarrow> adic_message \<Rightarrow> ('s, 'e, 'p, unit) node_op" where
  "accept_incoming env m =
     tryR (on_store (store_message (ne_backend env) m)) (\<lambda>_.
     tryR (modR (\<lambda>n. n\<lparr>nd_tips := tip_add (am_id m) 1 (nd_tips n)\<rparr>)) (\<lambda>_.
     tryR (modR (await_finality m)) (\<lambda>_.
     tryR (modR (process_vrf_message env m)) (\<lambda>_.
     network_broadcast env m))))"

primrec incoming_loop :: "('s, 'e, 'p) node_env \<Rightarrow> adic_message list \<Rightarrow> ('s, 'e, 'p, unit) node_op" where
  "incoming_loop env [] = okR ()"
| "incoming_loop env (m # ms) =
     tryR (node_validate env m) (\<lambda>result.
     tryR (if vr_is_valid result then accept_incoming env m else okR ()) (\<lambda>_.
     incoming_loop env ms))"

definition process_incoming_messages :: "('s, 'e, 'p) node_env \<Rightarrow> ('s, 'e, 'p, unit) node_op" where
  "process_incoming_messages env n =
     (case nd_pipeline n of
        None \<Rightarrow> okR () n
      | Some pipeline \<Rightarrow>
          (case get_pending_messages pipeline of (messages, pipeline) \<Rightarrow>
             incoming_loop env messages (n\<lparr>nd_pipeline := Some pipeline\<rparr>)))"

section \<open>Finality\<close>

fun gate_type :: "finality_gate \<Rightarrow> finality_type" where
  "gate_type F1KCore = FinalKCore"
| "gate_type F2PersistentHomology = FinalHomology"
| "gate_type F1AndF2Composite = FinalComposite"

text \<open>A transfer is executed when its message is final; that it fails is only logged.\<close>

definition execute_transfer :: "('s, 'e, 'p) node_env \<Rightarrow> message_id \<Rightarrow> ('s, 'e, 'p) adic_node \<Rightarrow> ('s, 'e, 'p) adic_node" where
  "execute_transfer env i n =
     (case sb_get_message (ne_backend env) i (nd_storage n) of
        Inr (Some m) \<Rightarrow>
          (case am_transfer m of
             None \<Rightarrow> n
           | Some t \<Rightarrow> n\<lparr>nd_balances := snd (process_message_transfer (ee_blake3 (ne_engine env)) (ne_hex env) (ne_econ env) (ne_now env)
               (vt_from t) (vt_to t) (vt_amount t) (vt_nonce t) (nd_balances n))\<rparr>)
      | _ \<Rightarrow> n)"

definition settle_finalized :: "('s, 'e, 'p) node_env \<Rightarrow> message_id \<Rightarrow> ('s, 'e, 'p) adic_node \<Rightarrow> ('s, 'e, 'p) adic_node" where
  "settle_finalized env i n =
     (let kind = (case engine_get_artifact (nd_finality n) i of None \<Rightarrow> FinalKCore | Some a \<Rightarrow> gate_type (fa_gate a));
          n = execute_transfer env i (node_emit (EvMessageFinalized i kind) n)
      in case sb_get_tips (ne_backend env) (nd_storage n) of
           Inl _ \<Rightarrow> n
         | Inr tips \<Rightarrow> (if i \<in> set tips then n\<lparr>nd_tips := snd (tip_remove i (nd_tips n))\<rparr> else n))"

section \<open>Metrics\<close>

fun throttle_period :: "throttled \<Rightarrow> u64" where
  "throttle_period ReputationDecay = 3600"
| "throttle_period ConflictCleanup = 600"
| "throttle_period StalePeers = 60"
| "throttle_period EnergyMetrics = 5"
| "throttle_period AdmissibilityMetrics = 30"
| "throttle_period TipsMetrics = 2"
| "throttle_period KCoreMetrics = 5"
| "throttle_period DiversityMetrics = 5"

text \<open>\<open>throttle k f\<close> runs \<open>f\<close> when more than the period of \<open>k\<close> has passed since it last did.\<close>

definition throttle_now :: "('s, 'e, 'p) node_env \<Rightarrow> u64" where
  "throttle_now env = of_int (unix_secs (ne_now env))"

definition throttle_due :: "('s, 'e, 'p) node_env \<Rightarrow> throttled \<Rightarrow> ('s, 'e, 'p) adic_node \<Rightarrow> bool" where
  "throttle_due env k n \<longleftrightarrow> throttle_period k < throttle_now env - nd_throttle n k"

definition throttle :: "('s, 'e, 'p) node_env \<Rightarrow> throttled \<Rightarrow> (('s, 'e, 'p) adic_node \<Rightarrow> ('s, 'e, 'p) adic_node) \<Rightarrow>
    ('s, 'e, 'p) adic_node \<Rightarrow> ('s, 'e, 'p) adic_node" where
  "throttle env k f n = (if throttle_due env k n then f (n\<lparr>nd_throttle := (nd_throttle n)(k := throttle_now env)\<rparr>) else n)"

definition emit_kcore_event :: "('s, 'e, 'p) adic_node \<Rightarrow> ('s, 'e, 'p) adic_node" where
  "emit_kcore_event n =
     (let stats = engine_get_stats (nd_finality n)
      in node_emit (EvKCoreUpdated (of_nat (fs_finalized_count stats)) (of_nat (fs_pending_count stats)) (prm_k (cx_params (nd_consensus n)))) n)"

definition emit_energy_event :: "('s, 'e, 'p) adic_node \<Rightarrow> ('s, 'e, 'p) adic_node" where
  "emit_energy_event n =
     (let metrics = get_energy_metrics (nd_consensus n)
      in node_emit (EvEnergyUpdated (of_nat (em_total metrics)) (of_nat (em_resolved metrics)) (of_nat (em_total metrics - em_resolved metrics))
           (em_energy metrics)) n)"

definition recheck_admissibility :: "('s, 'e, 'p) node_env \<Rightarrow> ('s, 'e, 'p) adic_node \<Rightarrow> adic_message \<Rightarrow> panic + admissibility_result option" where
  "recheck_admissibility env n m =
     (let parents = fetch_messages (ne_backend env) (nd_storage n) (am_parents m);
          features = map (\<lambda>p. map ap_digits (af_phi (am_features p))) parents;
          reputations = map (\<lambda>p. get_reputation (cx_reputation (nd_consensus n)) (am_proposer p)) parents
      in bindE (check_message (cx_admissibility (nd_consensus n)) True m features reputations) (\<lambda>r.
           Inr (case r of Inl _ \<Rightarrow> None | Inr result \<Rightarrow> Some result)))"

definition emit_admissibility_event :: "('s, 'e, 'p) node_env \<Rightarrow> ('s, 'e, 'p) adic_node \<Rightarrow> panic + ('s, 'e, 'p) adic_node" where
  "emit_admissibility_event env n =
     (case sb_get_tips (ne_backend env) (nd_storage n) of
        Inl _ \<Rightarrow> Inr n
      | Inr tips \<Rightarrow>
          bindE (mapE (recheck_admissibility env n) (fetch_messages (ne_backend env) (nd_storage n) (take 50 tips))) (\<lambda>checks.
            (let results = List.map_filter id checks;
                 total = length results;
                 rate = (\<lambda>f. real (length (filter f results)) / real total)
             in Inr (if 0 < total
                then node_emit (EvAdmissibilityUpdated (rate ar_score_passed) (rate ar_c2_passed) (rate ar_c3_passed) (rate ar_is_admissible) total) n
                else n))))"

definition node_check_finality :: "('s, 'e, 'p) node_env \<Rightarrow> ('s, 'e, 'p) adic_node \<Rightarrow> ((node_error + unit) \<times> ('s, 'e, 'p) adic_node) option" where
  "node_check_finality env n =
     map_option (\<lambda>(r, f).
       (case r of
          Inl e \<Rightarrow> (Inl (NodeEngine e), put_finality f n)
        | Inr finalized \<Rightarrow>
            (let n = foldl (\<lambda>n i. settle_finalized env i n) (put_finality f n) finalized
             in (Inr (), if finalized \<noteq> [] then emit_kcore_event n else throttle env KCoreMetrics emit_kcore_event n))))
     (check_finality (ne_engine env) (finality_of n))"

section \<open>The main loop\<close>

definition check_epoch_transition :: "('s, 'e, 'p) node_env \<Rightarrow> ('s, 'e, 'p) adic_node \<Rightarrow> ('s, 'e, 'p) adic_node" where
  "check_epoch_transition env n =
     (let new_epoch = (case get_latest_checkpoint (nd_finality n) of None \<Rightarrow> 0 | Some c \<Rightarrow> cp_height c); old_epoch = nd_epoch n
      in if old_epoch < new_epoch
         then (let n = (case finalize_epoch (ee_blake3 (ne_engine env)) old_epoch (vrf_of n) of
                   (Inr _, v) \<Rightarrow> node_emit (EvRandomnessFinalized old_epoch (get_reveal_count v old_epoch)) (n\<lparr>nd_vrf := v\<rparr>)
                 | (Inl _, v) \<Rightarrow> n\<lparr>nd_vrf := v\<rparr>)
               in n\<lparr>nd_epoch := new_epoch\<rparr>)
         else n)"

definition update_tips :: "('s, 'e, 'p) node_env \<Rightarrow> ('s, 'e, 'p, unit) node_op" where
  "update_tips env n =
     (let n = n\<lparr>nd_tips := tips_clear (nd_tips n)\<rparr>
      in case sb_get_tips (ne_backend env) (nd_storage n) of
           Inl e \<Rightarrow> errR (NodeStorage e) n
         | Inr tips \<Rightarrow>
             okR () (throttle env TipsMetrics (\<lambda>n. throttle env DiversityMetrics (emit_diversity_event env tips) (node_emit (EvTipsUpdated tips) n))
               (n\<lparr>nd_tips := foldl (\<lambda>t i. tip_add i 1 t) (nd_tips n) tips\<rparr>)))"

definition decay_reputations :: "('s, 'e, 'p) node_env \<Rightarrow> ('s, 'e, 'p) adic_node \<Rightarrow> ('s, 'e, 'p) adic_node" where
  "decay_reputations env n =
     n\<lparr>nd_consensus := (nd_consensus n)\<lparr>cx_reputation := apply_decay (ne_now env) (cx_reputation (nd_consensus n))\<rparr>\<rparr>"

definition cleanup_conflicts :: "('s, 'e, 'p) node_env \<Rightarrow> ('s, 'e, 'p) adic_node \<Rightarrow> ('s, 'e, 'p) adic_node" where
  "cleanup_conflicts env n =
     n\<lparr>nd_consensus := (nd_consensus n)\<lparr>cx_tracker := cleanup_resolved (ne_now env) 86400 (cx_tracker (nd_consensus n))\<rparr>\<rparr>"

text \<open>One round of the loop; \<^term>\<open>None\<close> when the finality engine never returns. Peers and gauges are left out.\<close>

definition periodic_tasks :: "('s, 'e, 'p) node_env \<Rightarrow> ('s, 'e, 'p, unit) node_op" where
  "periodic_tasks env n =
     (let n = throttle env ReputationDecay (decay_reputations env) n;
          n = throttle env ConflictCleanup (cleanup_conflicts env) n;
          n = throttle env EnergyMetrics emit_energy_event n
      in if throttle_due env AdmissibilityMetrics n
         then (case emit_admissibility_event env (throttle env AdmissibilityMetrics id n) of
                 Inl e \<Rightarrow> errR (NodePanic e) n
               | Inr n \<Rightarrow> okR () n)
         else okR () n)"

definition node_round :: "('s, 'e, 'p) node_env \<Rightarrow> ('s, 'e, 'p) adic_node \<Rightarrow> ((node_error + unit) \<times> ('s, 'e, 'p) adic_node) option" where
  "node_round env n =
     (case process_incoming_messages env n of
        (Inl e, n) \<Rightarrow> Some (Inl e, n)
      | (Inr _, n) \<Rightarrow>
          Option.bind (node_check_finality env n) (\<lambda>(r, n).
            case r of
              Inl e \<Rightarrow> Some (Inl e, n)
            | Inr _ \<Rightarrow> Some (tryR (update_tips env) (\<lambda>_. periodic_tasks env) (check_epoch_transition env n))))"

text \<open>Rounds until one fails.\<close>

fun node_run :: "('s, 'e, 'p) node_env list \<Rightarrow> ('s, 'e, 'p) adic_node \<Rightarrow> ((node_error + unit) \<times> ('s, 'e, 'p) adic_node) option" where
  "node_run [] n = Some (Inr (), n)"
| "node_run (env # envs) n =
     Option.bind (node_round env n) (\<lambda>(r, n). case r of Inl e \<Rightarrow> Some (Inl e, n) | Inr _ \<Rightarrow> node_run envs n)"

section \<open>Artifacts and reputations from peers\<close>

definition handle_finality_artifact :: "('s, 'e, 'p) node_env \<Rightarrow> finality_artifact \<Rightarrow> ('s, 'e, 'p, unit) node_op" where
  "handle_finality_artifact env a n =
     (if \<not> artifact_is_valid a then errR (NodeAdic InvalidMessage) n
      else case ee_artifact_json (ne_engine env) a of
          None \<Rightarrow> errR (NodeAdic Serialization) n
        | Some artifact_bytes \<Rightarrow>
            tryR (lift_op id (\<lambda>n _. n) (\<lambda>_. NodeAdic StorageError) (on_store (sb_store_artifact (ne_backend env) (fa_intent_id a) artifact_bytes))) (\<lambda>_.
            modR (\<lambda>n. put_finality (engine_store_artifact a (finality_of n)) n)) n)"

datatype reputation_sync =
    SyncRequestSnapshot
  | SyncSnapshotResponse i64 "(public_key \<times> reputation_score) list"
  | SyncIncrementalUpdate public_key reputation_score
  | SyncRequestValidators "public_key list"
  | SyncValidatorsResponse "(public_key \<times> reputation_score) list"

definition merge_reputation :: "i64 \<Rightarrow> i64 \<Rightarrow> reputation_tracker \<Rightarrow> public_key \<times> reputation_score \<Rightarrow> reputation_tracker" where
  "merge_reputation now timestamp t = (\<lambda>(validator, score).
     (if get_reputation t validator = 1 \<or> timestamp - 86400 < rs_last_update score then set_reputation now validator (rs_value score) t else t))"

fun sync_reputations :: "i64 \<Rightarrow> reputation_sync \<Rightarrow> reputation_tracker \<Rightarrow> reputation_tracker" where
  "sync_reputations now SyncRequestSnapshot t = t"
| "sync_reputations now (SyncSnapshotResponse timestamp scores) t = foldl (merge_reputation now timestamp) t scores"
| "sync_reputations now (SyncIncrementalUpdate validator score) t = set_reputation now validator (rs_value score) t"
| "sync_reputations now (SyncRequestValidators validators) t = t"
| "sync_reputations now (SyncValidatorsResponse scores) t = foldl (\<lambda>t (validator, score). set_reputation now validator (rs_value score) t) t scores"

definition handle_reputation_sync :: "('s, 'e, 'p) node_env \<Rightarrow> reputation_sync \<Rightarrow> ('s, 'e, 'p) adic_node \<Rightarrow> ('s, 'e, 'p) adic_node" where
  "handle_reputation_sync env msg n =
     n\<lparr>nd_consensus := (nd_consensus n)\<lparr>cx_reputation := sync_reputations (ne_now env) msg (cx_reputation (nd_consensus n))\<rparr>\<rparr>"

section \<open>Queries\<close>

record node_stats =
  ns_message_count :: nat
  ns_tip_count :: nat
  ns_finalized_count :: nat
  ns_pending :: nat

definition node_get_stats :: "('s, 'e, 'p) node_env \<Rightarrow> ('s, 'e, 'p) adic_node \<Rightarrow> node_error + node_stats" where
  "node_get_stats env n =
     (case sb_get_stats (ne_backend env) (nd_storage n) of
        Inl e \<Rightarrow> Inl (NodeStorage e)
      | Inr s \<Rightarrow> Inr \<lparr>ns_message_count = ss_message_count s, ns_tip_count = ss_tip_count s,
          ns_finalized_count = fs_finalized_count (engine_get_stats (nd_finality n)),
          ns_pending = fs_pending_count (engine_get_stats (nd_finality n))\<rparr>)"

definition node_get_message :: "('s, 'e, 'p) node_env \<Rightarrow> ('s, 'e, 'p) adic_node \<Rightarrow> message_id \<Rightarrow> node_error + adic_message option" where
  "node_get_message env n i = map_sum NodeStorage id (sb_get_message (ne_backend env) i (nd_storage n))"

definition node_get_tips :: "('s, 'e, 'p) node_env \<Rightarrow> ('s, 'e, 'p) adic_node \<Rightarrow> node_error + message_id list" where
  "node_get_tips env n = map_sum NodeStorage id (sb_get_tips (ne_backend env) (nd_storage n))"

definition get_finality_artifact :: "('s, 'e, 'p) adic_node \<Rightarrow> message_id \<Rightarrow> finality_artifact option" where
  "get_finality_artifact n i = engine_get_artifact (nd_finality n) i"

definition get_message_depth :: "('s, 'e, 'p) adic_node \<Rightarrow> message_id \<Rightarrow> u32 option" where
  "get_message_depth n i = index_get_depth (nd_index n) i"

end
