(* ===== verification/Node_Safety.thy ===== *)
theory Node_Safety
  imports Node_Messages
begin

text \<open>
  What the node's handling of messages does as a whole: the outcome of every submission, the fate of messages and artifacts that
  peers send, and the conservation of money over any sequence of steps. The first sections follow the graph and the balances
  through the operations of \<open>Node_Messages\<close>; a node of the sample theories' parts is the witness of the properties.
\<close>

section \<open>Features\<close>

lemma bump_ne: "(d + 1) mod 3 \<noteq> d" for d :: byte
proof
  assume "(d + 1) mod 3 = d"
  then have "unat ((d + 1) mod 3) = unat d" by simp
  moreover have "unat ((d + 1) mod 3) = Suc (unat d) mod 256 mod 3" by (simp add: unat_mod unat_word_ariths)
  ultimately have eq: "Suc (unat d) mod 256 mod 3 = unat d" by metis
  then have "unat d < 3" by (metis mod_less_divisor zero_less_numeral)
  then have "unat d \<in> {0, 1, 2}" by auto
  then show False using eq by auto
qed

lemma perturb_ball: "radius < length digits \<Longrightarrow> take radius (perturb_digits radius digits) = take radius digits"
  by (simp add: perturb_digits_def)

lemma perturb_ne: "digits \<noteq> [] \<Longrightarrow> perturb_digits radius digits \<noteq> digits"
  using bump_ne by (auto simp: perturb_digits_def list_update_same_conv dest: sym)

lemma length_perturb [simp]: "length (perturb_digits radius digits) = length digits"
  by (simp add: perturb_digits_def)

section \<open>Parts of the state\<close>

lemma node_parts [simp]:
  "nd_storage (node_emit ev n) = nd_storage n" "nd_pipeline (node_emit ev n) = nd_pipeline n" "nd_tips (node_emit ev n) = nd_tips n"
  "nd_index (node_emit ev n) = nd_index n" "nd_finality (node_emit ev n) = nd_finality n" "nd_consensus (node_emit ev n) = nd_consensus n"
  "nd_balances (node_emit ev n) = nd_balances n"
  by (simp_all add: node_emit_def)

lemma await_parts [simp]:
  "nd_storage (await_finality m n) = nd_storage n" "nd_pipeline (await_finality m n) = nd_pipeline n"
  "nd_tips (await_finality m n) = nd_tips n" "nd_index (await_finality m n) = nd_index n" "nd_balances (await_finality m n) = nd_balances n"
  "nd_consensus (await_finality m n) = nd_consensus n"
  by (simp_all add: await_finality_def put_finality_def finality_of_def engine_add_message_def)

lemma announce_parts [simp]:
  "nd_storage (announce_message env m n) = nd_storage n" "nd_pipeline (announce_message env m n) = nd_pipeline n"
  "nd_tips (announce_message env m n) = nd_tips n" "nd_index (announce_message env m n) = nd_index n"
  "nd_consensus (announce_message env m n) = nd_consensus n" "nd_finality (announce_message env m n) = nd_finality n"
  "nd_balances (announce_message env m n) = nd_balances n"
  by (simp_all add: announce_message_def emit_diversity_event_def Let_def)

text \<open>An operation leaves the graph as it is: the stored messages, the tips, the index and the messages that await finality.\<close>

definition same_graph :: "('s, 'e, 'p) adic_node \<Rightarrow> ('s, 'e, 'p) adic_node \<Rightarrow> bool" where
  "same_graph n n' \<longleftrightarrow> nd_storage n' = nd_storage n \<and> nd_tips n' = nd_tips n \<and> nd_index n' = nd_index n \<and>
     nd_pipeline n' = nd_pipeline n \<and> nd_finality n' = nd_finality n"

lemma same_graph_trans: "same_graph n n1 \<Longrightarrow> same_graph n1 n2 \<Longrightarrow> same_graph n n2"
  by (simp add: same_graph_def)

lemma same_graph_emit [simp]: "same_graph n (node_emit ev n') \<longleftrightarrow> same_graph n n'" "same_graph n n"
  by (simp_all add: same_graph_def)

lemma same_graph_lift [simp]:
  "same_graph n (snd (on_deposits f n))" "same_graph n (snd (on_consensus g n))" "same_graph n (snd (on_balances h n))"
  by (auto simp: same_graph_def on_deposits_def on_consensus_def on_balances_def lift_op_def split: prod.split)

lemma same_graph_try:
  assumes "same_graph n (snd (f n))" and "\<And>x n1. f n = (Inr x, n1) \<Longrightarrow> same_graph n n1 \<Longrightarrow> same_graph n1 (snd (g x n1))"
  shows "same_graph n (snd (tryR f g n))"
proof (cases "f n")
  case (Pair r n1)
  then show ?thesis using assms by (cases r) (auto intro: same_graph_trans)
qed

lemma same_graph_escrow [simp]: "same_graph n (snd (escrow_deposit env m n))"
  unfolding escrow_deposit_def by (intro same_graph_try) simp_all

lemma same_graph_validate [simp]: "same_graph n (snd (node_validate env m n))"
  by (simp add: node_validate_def)

lemma same_graph_admissible [simp]: "same_graph n (snd (require_admissible env amount m n))"
  unfolding require_admissible_def
  by (auto split: sum.split intro!: same_graph_try)

lemma same_graph_valid [simp]: "same_graph n (snd (require_valid env amount m n))"
  unfolding require_valid_def by (auto intro!: same_graph_try intro: same_graph_trans)

section \<open>Storing\<close>

lemma store_ok_new:
  assumes "ne_backend env = memory_backend ord" and "on_store (store_message (ne_backend env) m) n = (Inr x, n')"
  shows "am_id m \<notin> dom (st_messages (nd_storage n)) \<and> n' = n\<lparr>nd_storage := nd_storage n'\<rparr> \<and>
    memory_dag (nd_storage n') = dag_store m (memory_dag (nd_storage n))"
proof -
  obtain r s where rs: "store_message (memory_backend ord) m (nd_storage n) = (r, s)" by force
  then have r: "r = Inr x" "n' = n\<lparr>nd_storage := s\<rparr>" using assms by (cases r; simp add: on_store_def lift_op_def)+
  then have new: "am_id m \<notin> dom (dg_messages (memory_dag (nd_storage n)))"
    using memdag.store_known [of m "nd_storage n" ord] rs by auto
  then show ?thesis using memdag.store_new [OF new, of ord] rs r by (simp add: memory_dag_def)
qed

lemma store_known_fails:
  assumes "ne_backend env = memory_backend ord" and "am_id m \<in> dom (st_messages (nd_storage n))"
  obtains s where "on_store (store_message (ne_backend env) m) n = (Inl (NodeStorage AlreadyExists), n\<lparr>nd_storage := s\<rparr>)"
    and "memory_dag s = memory_dag (nd_storage n)"
proof -
  have "am_id m \<in> dom (dg_messages (memory_dag (nd_storage n)))" using assms(2) by (simp add: memory_dag_def)
  from memdag.store_known [OF this, of ord] show thesis
    using that assms(1) by (cases "store_message (memory_backend ord) m (nd_storage n)") (simp add: on_store_def lift_op_def)
qed

section \<open>Submission of a signed message\<close>

definition graph_of :: "(message_store, 'e, 'p) adic_node \<Rightarrow> dag \<times> tip_manager \<times> message_index \<times> 'p message_pipeline option \<times> (message_store, 'e) finality_engine" where
  "graph_of n = (memory_dag (nd_storage n), nd_tips n, nd_index n, nd_pipeline n, nd_finality n)"

lemma memory_dag_messages: "dg_messages (memory_dag s) = st_messages s" "dg_tips (memory_dag s) = st_tips s"
  by (simp_all add: memory_dag_def)

lemma same_graph_of: "same_graph n n' \<Longrightarrow> graph_of n' = graph_of n"
  by (simp add: same_graph_def graph_of_def)

text \<open>What holds once a message is published: it is acceptable and, unless it has no parents, admissible; it is stored, a tip in
  the place of its parents, awaits finality, and its deposit is in escrow.\<close>

definition admitted :: "('s, 'e, 'p) node_env \<Rightarrow> ('s, 'e, 'p) adic_node \<Rightarrow> adic_message \<Rightarrow> bool" where
  "admitted env n m \<longleftrightarrow> am_parents m = [] \<or>
     (\<exists>features reputations result. fetch_parents env n (am_parents m) = Inr (features, reputations) \<and>
       check_message (cx_admissibility (nd_consensus n)) True m features reputations = Inr (Inr result) \<and> ar_is_admissible result)"

definition published :: "(message_store, 'e, 'p) node_env \<Rightarrow> (message_store, 'e, 'p) adic_node \<Rightarrow> adic_message \<Rightarrow> (message_store, 'e, 'p) adic_node \<Rightarrow> bool" where
  "published env n m n' \<longleftrightarrow>
     acceptable (ne_crypto env) (cx_validator (nd_consensus n)) (ne_now env) m \<and> admitted env n m \<and>
     am_id m \<notin> dom (st_messages (nd_storage n)) \<and> memory_dag (nd_storage n') = dag_store m (memory_dag (nd_storage n)) \<and>
     tm_tips (nd_tips n') = insert (am_id m) (tm_tips (nd_tips n)) - set (am_parents m) \<and>
     fe_pending (nd_finality n') = keep_last (fg_window_size (fe_config (nd_finality n))) (fe_pending (nd_finality n) @ [am_id m]) \<and>
     deposit_get_state (cx_deposits (nd_consensus n')) (am_id m) = Some Escrowed"

lemma fetch_parents_cong:
  "nd_storage n' = nd_storage n \<Longrightarrow> cx_reputation (nd_consensus n') = cx_reputation (nd_consensus n) \<Longrightarrow>
   fetch_parents env n' ps = fetch_parents env n ps"
  by (induction ps) (simp_all split: sum.split option.split)

lemma deposit_escrow_ok: "deposit_escrow blake3 E now i pk d = (Inr x, d') \<Longrightarrow> deposit_get_state d' i = Some Escrowed"
  by (auto simp: deposit_escrow_def Let_def tryR_Inr_iff deposit_get_state_def put_deposit_def)

lemma escrow_ok:
  assumes "escrow_deposit env m n = (Inr amount, n1)"
  shows "deposit_get_state (cx_deposits (nd_consensus n1)) (am_id m) = Some Escrowed"
    "cx_reputation (nd_consensus n1) = cx_reputation (nd_consensus n)" "cx_validator (nd_consensus n1) = cx_validator (nd_consensus n)"
    "cx_admissibility (nd_consensus n1) = cx_admissibility (nd_consensus n)"
proof -
  obtain x1 d where run: "deposit_escrow (ee_blake3 (ne_engine env)) (ne_econ env) (ne_now env) (am_id m) (am_proposer m)
      (cx_deposits (nd_consensus n)) = (x1, d)" by force
  then have "x1 = Inr ()" using assms by (cases x1) (auto simp: escrow_deposit_def tryR_Inr_iff on_deposits_def lift_op_def)
  with run have "deposit_get_state d (am_id m) = Some Escrowed" by (simp add: deposit_escrow_ok)
  moreover have "n1 = node_emit (EvDepositEscrowed (am_id m) (am_proposer m) amount) (n\<lparr>nd_consensus := (nd_consensus n)\<lparr>cx_deposits := d\<rparr>\<rparr>)"
    using assms run by (auto simp: escrow_deposit_def tryR_Inr_iff on_deposits_def lift_op_def)
  ultimately show "deposit_get_state (cx_deposits (nd_consensus n1)) (am_id m) = Some Escrowed"
    "cx_reputation (nd_consensus n1) = cx_reputation (nd_consensus n)" "cx_validator (nd_consensus n1) = cx_validator (nd_consensus n)"
    "cx_admissibility (nd_consensus n1) = cx_admissibility (nd_consensus n)"
    by simp_all
qed

lemma admissible_ok:
  assumes "require_admissible env amount m n = (Inr x, n')"
  shows "n' = n \<and> admitted env n m"
  using assms by (auto simp: require_admissible_def admitted_def tryR_Inr_iff split: if_splits sum.splits)

lemma validate_and_slash_result:
  assumes "validate_and_slash v blake3 hex E now m x = (Inr r, x')"
  shows "r = validate_message v (cx_validator x) now m \<and> (vr_is_valid r \<longrightarrow> x' = x)"
  using assms by (auto simp: validate_and_slash_def Let_def tryR_Inr_iff split: if_splits)

lemma node_validate_result:
  assumes "node_validate env m n = (Inr r, n')"
  shows "r = validate_message (ne_crypto env) (cx_validator (nd_consensus n)) (ne_now env) m \<and> (vr_is_valid r \<longrightarrow> n' = n)"
proof -
  obtain x1 c where run: "validate_and_slash (ne_crypto env) (ee_blake3 (ne_engine env)) (ne_hex env) (ne_econ env) (ne_now env) m (nd_consensus n) = (x1, c)"
    by force
  then have "x1 = Inr r" "n' = n\<lparr>nd_consensus := c\<rparr>"
    using assms by (cases x1; simp add: node_validate_def on_consensus_def lift_op_def)+
  with validate_and_slash_result [OF run [unfolded this(1)]] show ?thesis by simp
qed

lemma valid_ok:
  assumes "require_valid env amount m n = (Inr x, n')"
  shows "n' = n \<and> acceptable (ne_crypto env) (cx_validator (nd_consensus n)) (ne_now env) m"
  using assms by (auto simp: require_valid_def tryR_Inr_iff validate_message_acceptable [symmetric] split: if_splits dest!: node_validate_result)

lemma tips_removed: "tm_tips (foldl (\<lambda>t p. snd (tip_remove p t)) t ps) = tm_tips t - set ps"
  by (induction ps arbitrary: t) (auto simp: tip_remove_def)

lemma store_and_index_cases:
  assumes "ne_backend env = memory_backend ord"
  obtains (refused) e n' where "store_and_index env unknown m n = (Inl e, n')" "graph_of n' = graph_of n"
  | (stored) n' where "store_and_index env unknown m n = (Inr (), n')" "am_id m \<notin> dom (st_messages (nd_storage n))"
      "memory_dag (nd_storage n') = dag_store m (memory_dag (nd_storage n))"
      "tm_tips (nd_tips n') = insert (am_id m) (tm_tips (nd_tips n)) - set (am_parents m)" "nd_finality n' = nd_finality n"
      "nd_consensus n' = nd_consensus n" "nd_pipeline n' = nd_pipeline n"
proof (cases "am_id m \<in> dom (st_messages (nd_storage n))")
  case True
  then obtain s where "on_store (store_message (ne_backend env) m) n = (Inl (NodeStorage AlreadyExists), n\<lparr>nd_storage := s\<rparr>)"
    and "memory_dag s = memory_dag (nd_storage n)" by (rule store_known_fails [OF assms])
  then show ?thesis using refused by (simp add: store_and_index_def graph_of_def)
next
  case False
  then have new: "am_id m \<notin> dom (dg_messages (memory_dag (nd_storage n)))" by (simp add: memory_dag_def)
  obtain s where store: "store_message (memory_backend ord) m (nd_storage n) = (Inr (), s)"
    and dag: "memory_dag s = dag_store m (memory_dag (nd_storage n))"
    using memdag.store_new [OF new, of ord] by (cases "store_message (memory_backend ord) m (nd_storage n)") auto
  define n1 where "n1 = n\<lparr>nd_storage := s\<rparr>"
  have r: "on_store (store_message (ne_backend env) m) n = (Inr (), n1)" using store assms by (simp add: on_store_def lift_op_def n1_def)
  define n2 where "n2 = n1\<lparr>nd_index := index_add_message m (parent_depths unknown (nd_index n1) (am_parents m)) (nd_index n1),
    nd_tips := foldl (\<lambda>t p. snd (tip_remove p t)) (tip_add (am_id m) 1 (nd_tips n1)) (am_parents m)\<rparr>"
  have run: "store_and_index env unknown m n = (Inr (), n2)" using r by (simp add: store_and_index_def n2_def)
  show ?thesis
    by (rule stored [OF run False]) (simp_all add: n2_def n1_def dag tips_removed tip_add_def)
qed

lemma broadcast_known:
  assumes "ne_backend env = memory_backend ord" and "am_id m \<in> dom (st_messages (nd_storage n))" and "nd_pipeline n \<noteq> None"
    and "am_signature m \<noteq> []"
  shows "\<exists>n'. network_broadcast env m n = (Inl (NodeAdic StorageError), n') \<and> graph_of n' = graph_of n \<and> nd_consensus n' = nd_consensus n"
proof -
  obtain s where r: "on_store (store_message (ne_backend env) m) n = (Inl (NodeStorage AlreadyExists), n\<lparr>nd_storage := s\<rparr>)"
    and "memory_dag s = memory_dag (nd_storage n)" by (rule store_known_fails [OF assms(1,2)])
  then have "graph_of (n\<lparr>nd_storage := s\<rparr>) = graph_of n" by (simp add: graph_of_def)
  moreover have "network_broadcast env m n = (Inl (NodeAdic StorageError), n\<lparr>nd_storage := s\<rparr>)"
    using assms(3,4) r by (cases "nd_pipeline n") (simp_all add: network_broadcast_def network_store_def lift_op_def tryR_def)
  ultimately show ?thesis by auto
qed

lemma submit_signed_cases:
  assumes "ne_backend env = memory_backend ord"
  obtains (refused) e n' where "submit_signed env announce m n = (Inl e, n')" "graph_of n' = graph_of n"
  | (published) n' where "published env n m n'"
      "submit_signed env announce m n = ((if nd_pipeline n = None then Inr (am_id m) else Inl (NodeAdic StorageError)), n')"
proof -
  have refuse: thesis if "submit_signed env announce m n = (Inl e, n')" "same_graph n n1" "graph_of n' = graph_of n1" for e n' n1
    using refused that same_graph_of by metis
  obtain r n1 where esc: "escrow_deposit env m n = (r, n1)" by force
  then have g1: "same_graph n n1" by (metis same_graph_escrow snd_conv)
  show ?thesis
  proof (cases r)
    case (Inl e)
    then show ?thesis using refuse [OF _ g1] esc by (simp add: submit_signed_def)
  next
    case (Inr amount)
    note esc = esc [unfolded Inr]
    obtain r2 n2 where adm: "require_admissible env amount m n1 = (r2, n2)" by force
    then have g2: "same_graph n n2" using g1 same_graph_trans by (metis same_graph_admissible snd_conv)
    obtain r3 n3 where val: "require_valid env amount m n2 = (r3, n3)" by force
    then have g3: "same_graph n n3" using g2 same_graph_trans by (metis same_graph_valid snd_conv)
    show ?thesis
    proof (cases "(\<exists>e. r2 = Inl e) \<or> (\<exists>e. r3 = Inl e)")
      case True
      then show ?thesis
      proof
        assume "\<exists>e. r2 = Inl e"
        then show ?thesis using refuse [OF _ g2 refl] esc adm by (auto simp: submit_signed_def)
      next
        assume "\<exists>e. r3 = Inl e"
        then show ?thesis
        proof (cases r2)
          case (Inl e)
          then show ?thesis using refuse [OF _ g2 refl] esc adm by (auto simp: submit_signed_def)
        next
          case (Inr x)
          then show ?thesis using refuse [OF _ g3 refl] esc adm val \<open>\<exists>e. r3 = Inl e\<close> by (auto simp: submit_signed_def)
        qed
      qed
    next
      case False
      then have ok: "r2 = Inr ()" "r3 = Inr ()" by (cases r2; cases r3; simp)+
      have n3: "n2 = n1" "n3 = n1" "admitted env n1 m" "acceptable (ne_crypto env) (cx_validator (nd_consensus n1)) (ne_now env) m"
        using admissible_ok [of env amount m n1] valid_ok [of env amount m n1] adm val ok by auto
      from assms show ?thesis
      proof (cases rule: store_and_index_cases [of env ord "if announce then [0] else []" m n1])
        case (refused e n')
        then show ?thesis using refuse [OF _ g1] esc adm val ok n3 by (simp add: submit_signed_def)
      next
        case (stored n4)
        define n5 where "n5 = await_finality m ((if announce then announce_message env m else id) n4)"
        have run: "submit_signed env announce m n = tryR (network_broadcast env m) (\<lambda>_. okR (am_id m)) n5"
          using esc adm val ok n3 stored by (simp add: submit_signed_def n5_def)
        have n5: "nd_storage n5 = nd_storage n4" "nd_pipeline n5 = nd_pipeline n" "nd_tips n5 = nd_tips n4" "nd_consensus n5 = nd_consensus n1"
          "fe_pending (nd_finality n5) = keep_last (fg_window_size (fe_config (nd_finality n))) (fe_pending (nd_finality n) @ [am_id m])"
          using stored(5-7) g1
          by (cases announce; simp add: n5_def same_graph_def await_finality_def put_finality_def finality_of_def engine_add_message_def)+
        have "admitted env n m" using n3(3) escrow_ok [OF esc] g1 fetch_parents_cong [of n1 n env]
          by (simp add: admitted_def same_graph_def)
        then have pub: "published env n m n5"
          using n3(4) stored(2-4) g1 escrow_ok [OF esc] by (simp add: published_def same_graph_def n5)
        show ?thesis
        proof (cases "nd_pipeline n")
          case None
          then show ?thesis using published [OF pub] run n5(2) by (simp add: network_broadcast_def)
        next
          case (Some p)
          have "dg_messages (memory_dag (nd_storage n5)) (am_id m) = Some m" using pub by (simp add: published_def)
          then have known: "am_id m \<in> dom (st_messages (nd_storage n5))" by (auto simp: memory_dag_messages)
          have signed: "am_signature m \<noteq> []" using n3(4) by (auto simp: acceptable_def)
          from Some n5(2) have networked: "nd_pipeline n5 \<noteq> None" by simp
          obtain n' where bc: "network_broadcast env m n5 = (Inl (NodeAdic StorageError), n')" and same: "graph_of n' = graph_of n5"
            "nd_consensus n' = nd_consensus n5"
            using broadcast_known [OF assms known networked signed] by blast
          have "published env n m n'" using pub same by (simp add: published_def graph_of_def)
          then show ?thesis using published run bc Some by simp
        qed
      qed
    qed
  qed
qed

section \<open>Submission\<close>

definition same_input :: "('s, 'e, 'p) adic_node \<Rightarrow> ('s, 'e, 'p) adic_node \<Rightarrow> bool" where
  "same_input n n' \<longleftrightarrow> same_graph n n' \<and> nd_consensus n' = nd_consensus n"

lemma same_input_refl [simp]: "same_input n n"
  by (simp add: same_input_def)

lemma same_input_try:
  assumes "same_input n (snd (f n))" and "\<And>x n1. same_input n n1 \<Longrightarrow> same_input n1 (snd (g x n1))"
  shows "same_input n (snd (tryR f g n))"
proof (cases "f n")
  case (Pair r n1)
  then show ?thesis using assms by (cases r) (auto simp: same_input_def intro: same_graph_trans)
qed

lemma same_input_balances [simp]: "same_input n (snd (on_balances f n))"
  by (auto simp: same_input_def same_graph_def on_balances_def lift_op_def split: prod.split)

lemma same_input_encoded [simp]: "same_input n (snd (create_encoded_features env topic region n))"
  unfolding create_encoded_features_def by (auto simp: Let_def split: sum.split intro!: same_input_try)

lemma same_input_features [simp]: "same_input n (snd (features_for env tips n))"
  by (simp add: features_for_def split: list.split sum.split option.split)

lemma same_input_explicit [simp]: "same_input n (snd (explicit_features env parents features_opt n))"
  by (simp add: explicit_features_def Let_def split: sum.split option.split)

lemma same_input_transfer [simp]: "same_input n (snd (check_transfer env t n))"
  by (simp add: check_transfer_def split: option.split)

lemma same_input_choose [simp]: "same_input n (snd (choose_parents env features tips n))"
  by (auto simp: choose_parents_def lift_op_def same_input_def same_graph_def split: prod.split)

lemma published_cong: "same_input n n1 \<Longrightarrow> published env n1 m n' = published env n m n'"
  by (simp add: published_def admitted_def same_input_def same_graph_def fetch_parents_cong [of n1 n env])

text \<open>A submission that prepares its message by an operation which changes no graph.\<close>

lemma prepared_cases:
  assumes memory: "ne_backend env = memory_backend ord" and prep: "same_input n (snd (f n))"
  obtains (refused) e n' where "tryR f (\<lambda>x. submit_signed env announce (mk x)) n = (Inl e, n')" "graph_of n' = graph_of n"
  | (published) x n' where "published env n (mk x) n'"
      "tryR f (\<lambda>x. submit_signed env announce (mk x)) n = ((if nd_pipeline n = None then Inr (am_id (mk x)) else Inl (NodeAdic StorageError)), n')"
proof (cases "f n")
  case (Pair r n1)
  then have same: "same_input n n1" using prep by simp
  then have g: "graph_of n1 = graph_of n" by (simp add: same_input_def same_graph_of)
  show ?thesis
  proof (cases r)
    case (Inl e)
    then show ?thesis using refused [of e n1] Pair g by simp
  next
    case (Inr x)
    then have run: "tryR f (\<lambda>x. submit_signed env announce (mk x)) n = submit_signed env announce (mk x) n1" using Pair by simp
    from memory show ?thesis
    proof (cases rule: submit_signed_cases [of env ord announce "mk x" n1])
      case (refused e n')
      then show ?thesis using that(1) run g by simp
    next
      case (published n')
      have "nd_pipeline n1 = nd_pipeline n" using same by (simp add: same_input_def same_graph_def)
      then show ?thesis using that(2) run published published_cong [OF same] by simp
    qed
  qed
qed

definition submits :: "('s, 'e, 'p) node_env \<Rightarrow> bytes \<Rightarrow> value_transfer option \<Rightarrow> ('s, 'e, 'p, message_id) node_op \<Rightarrow> bool" where
  "submits env content tx f \<longleftrightarrow> f = submit_message_with_transfer env content tx \<or>
     (\<exists>parents features_opt. f = submit_message_with_parents_and_transfer env content parents features_opt tx)"

lemma submit_cases:
  assumes memory: "ne_backend env = memory_backend ord" and submit: "submits env content tx f"
  obtains (refused) e n' where "f n = (Inl e, n')" "graph_of n' = graph_of n"
  | (published) m n' where "published env n m n'" "am_data m = content" "am_transfer m = tx" "am_proposer m = ne_key env"
      "f n = ((if nd_pipeline n = None then Inr (am_id m) else Inl (NodeAdic StorageError)), n')"
proof -
  have message: "am_data (node_message env ps fs tx content) = content" "am_transfer (node_message env ps fs tx content) = tx"
    "am_proposer (node_message env ps fs tx content) = ne_key env" for ps fs
    by (simp_all add: node_message_def adic_message_new_def Let_def)
  let ?mk = "\<lambda>x. node_message env (fst x) (snd x) tx content"
  obtain prep announce where f: "f = tryR prep (\<lambda>x. submit_signed env announce (?mk x))" and same: "\<And>n. same_input n (snd (prep n))"
  proof -
    from submit consider "f = submit_message_with_transfer env content tx"
      | ps fo where "f = submit_message_with_parents_and_transfer env content ps fo tx" by (auto simp: submits_def)
    then show thesis
    proof cases
      case 1
      let ?prep = "tryR (getR (\<lambda>n. tips_list (ne_ids env) (nd_tips n))) (\<lambda>tips.
        tryR (features_for env tips) (\<lambda>features. tryR (choose_parents env features tips) (\<lambda>parents.
        tryR (check_transfer env tx) (\<lambda>_. okR (parents, features)))))"
      have "f = tryR ?prep (\<lambda>x. submit_signed env True (?mk x))"
        unfolding 1 submit_message_with_transfer_def by (simp add: tryR_def fun_eq_iff split: prod.split sum.split)
      moreover have "same_input n (snd (?prep n))" for n
        by (intro same_input_try) simp_all
      ultimately show thesis by (rule that)
    next
      case 2
      let ?prep = "tryR (explicit_features env ps fo) (\<lambda>features. tryR (check_transfer env tx) (\<lambda>_. okR (ps, features)))"
      have "f = tryR ?prep (\<lambda>x. submit_signed env False (?mk x))"
        unfolding 2 submit_message_with_parents_and_transfer_def by (simp add: tryR_def fun_eq_iff split: prod.split sum.split)
      moreover have "same_input n (snd (?prep n))" for n
        by (intro same_input_try) simp_all
      ultimately show thesis by (rule that)
    qed
  qed
  from memory same show thesis
  proof (cases rule: prepared_cases [of env ord n prep announce ?mk])
    case (refused e n')
    then show thesis using that(1) f by simp
  next
    case (published x n')
    then show thesis using that(2) f message by simp
  qed
qed

section \<open>Money\<close>

text \<open>Outside a finite set of accounts nothing changes, and over every finite set that holds it the sum is the same.\<close>

definition conserved :: "ledger \<Rightarrow> ledger \<Rightarrow> bool" where
  "conserved L L' \<longleftrightarrow> (\<exists>T. finite T \<and> (\<forall>S. finite S \<longrightarrow> T \<subseteq> S \<longrightarrow>
     (\<Sum>a\<in>S. units (l_balance L' a)) = (\<Sum>a\<in>S. units (l_balance L a))))"

lemma conserved_refl: "l_balance L' = l_balance L \<Longrightarrow> conserved L L'"
  unfolding conserved_def by (rule exI [of _ "{}"]) simp

lemma conserved_trans:
  assumes "conserved L L1" and "conserved L1 L2"
  shows "conserved L L2"
proof -
  obtain T T' where T: "finite T" "\<And>S. finite S \<Longrightarrow> T \<subseteq> S \<Longrightarrow> (\<Sum>a\<in>S. units (l_balance L1 a)) = (\<Sum>a\<in>S. units (l_balance L a))"
    "finite T'" "\<And>S. finite S \<Longrightarrow> T' \<subseteq> S \<Longrightarrow> (\<Sum>a\<in>S. units (l_balance L2 a)) = (\<Sum>a\<in>S. units (l_balance L1 a))"
    using assms unfolding conserved_def by blast
  then show ?thesis unfolding conserved_def by (intro exI [of _ "T \<union> T'"]) simp
qed

definition money :: "('s, memory_storage, 'p) adic_node \<Rightarrow> ('s, memory_storage, 'p) adic_node \<Rightarrow> bool" where
  "money n n' \<longleftrightarrow> (coherent mem_view (nd_balances n) \<longrightarrow>
     coherent mem_view (nd_balances n') \<and> conserved (ledger_of mem_view (nd_balances n)) (ledger_of mem_view (nd_balances n')))"

lemma money_same: "nd_balances n' = nd_balances n \<Longrightarrow> money n n'"
  by (simp add: money_def conserved_refl)

lemma money_trans: "money n n1 \<Longrightarrow> money n1 n2 \<Longrightarrow> money n n2"
  by (auto simp: money_def intro: conserved_trans)

lemma money_try:
  assumes "money n (snd (f n))" and "\<And>x n1. money n1 (snd (g x n1))"
  shows "money n (snd (tryR f g n))"
proof (cases "f n")
  case (Pair r n1)
  then show ?thesis using assms by (cases r) (auto intro: money_trans)
qed

lemma money_balances:
  assumes "implements mem_view f (\<lambda>L. (g L, L))"
  shows "money n (snd (on_balances f n))"
proof -
  obtain r b where f: "f (nd_balances n) = (r, b)" by force
  show ?thesis
    using implementsD [OF assms _ f] f by (auto simp: money_def on_balances_def lift_op_def intro!: conserved_refl)
qed

lemma money_execute:
  assumes "ne_econ env = memory_ops keys"
  shows "money n (execute_transfer env i n)"
proof -
  have step: "money n (n\<lparr>nd_balances := snd (process_message_transfer blake3 hex (memory_ops keys) now from to amount nonce (nd_balances n))\<rparr>)"
    for blake3 hex now "from" to amount nonce
  proof -
    obtain r b where run: "process_message_transfer blake3 hex (memory_ops keys) now from to amount nonce (nd_balances n) = (r, b)" by force
    show ?thesis
      unfolding money_def
    proof
      assume coh: "coherent mem_view (nd_balances n)"
      let ?L = "ledger_of mem_view (nd_balances n)"
      have b: "coherent mem_view b" "ledger_of mem_view b = snd (sp_message_transfer blake3 hex now from to amount nonce ?L)"
        using implementsD [OF mem.message_transfer_implements coh run] by auto
      have "conserved ?L (ledger_of mem_view b)"
        unfolding conserved_def b(2)
        by (intro exI [of _ "{AccountAddress from, AccountAddress to}"]) (simp add: sp_message_total)
      then show "coherent mem_view (nd_balances (n\<lparr>nd_balances := snd (process_message_transfer blake3 hex (memory_ops keys) now from to amount nonce
          (nd_balances n))\<rparr>)) \<and> conserved ?L (ledger_of mem_view (nd_balances (n\<lparr>nd_balances := snd (process_message_transfer blake3 hex
          (memory_ops keys) now from to amount nonce (nd_balances n))\<rparr>)))"
        using b(1) run by simp
    qed
  qed
  show ?thesis using step assms by (simp add: execute_transfer_def money_same split: sum.split option.split)
qed

lemma money_settle: "ne_econ env = memory_ops keys \<Longrightarrow> money n (foldl (\<lambda>n i. settle_finalized env i n) n ids)"
proof (induction ids arbitrary: n)
  case (Cons i ids)
  have "money n (settle_finalized env i n)"
    using money_trans [OF money_same money_execute [OF Cons.prems]]
    by (auto simp: settle_finalized_def Let_def money_def split: sum.split)
  then show ?case using Cons money_trans by fastforce
qed (simp add: money_same)

lemma money_reads [simp]:
  "money n (snd (on_balances (get_balance (memory_ops keys) now a) n))"
  "money n (snd (on_balances (validate_transfer (memory_ops keys) now from to amount nonce) n))"
  by (simp_all add: money_balances [OF mem.get_balance_implements] money_balances [OF mem.validate_transfer_implements])

lemma money_same_parts [simp]:
  "money n (node_emit ev n') \<longleftrightarrow> money n n'" "money n (await_finality m n)" "money n (announce_message env m n)" "money n (put_finality f n)"
  "money n (snd (on_deposits d n))" "money n (snd (on_consensus c n))" "money n (snd (on_store s n))" "money n n"
  by (auto simp: money_same put_finality_def on_deposits_def on_consensus_def on_store_def lift_op_def split: prod.split) (simp_all add: money_def)

lemma money_network [simp]:
  "money n (snd (network_store env m n))" "money n (snd (to_pipeline env m peer n))" "money n (snd (network_relay env m n))"
  by (auto simp: network_store_def to_pipeline_def network_relay_def on_store_def lift_op_def money_same split: prod.split option.split)

lemma money_validate [simp]: "money n (snd (node_validate env m n))"
  by (simp add: node_validate_def)

lemma money_broadcast [simp]: "money n (snd (network_broadcast env m n))"
  unfolding network_broadcast_def by (auto intro!: money_try)

lemma money_signed: "money n (snd (submit_signed env announce m n))"
proof -
  have "money n (snd (escrow_deposit env m n))" for n
    unfolding escrow_deposit_def by (intro money_try) simp_all
  moreover have "money n (snd (require_admissible env amount m n))" for n amount
    unfolding require_admissible_def by (auto split: sum.split intro!: money_try)
  moreover have "money n (snd (require_valid env amount m n))" for n amount
    unfolding require_valid_def by (auto intro!: money_try)
  moreover have "money n (snd (store_and_index env unknown m n))" for n unknown
    unfolding store_and_index_def by (auto simp: money_same intro!: money_try)
  ultimately show ?thesis
    unfolding submit_signed_def by (intro money_try) simp_all
qed

lemma money_encoded: "ne_econ env = memory_ops keys \<Longrightarrow> money n (snd (create_encoded_features env topic region n))"
  unfolding create_encoded_features_def by (rule money_try) (auto simp: Let_def split: sum.split)

lemma money_submit:
  assumes "ne_econ env = memory_ops keys" and "submits env content tx f"
  shows "money n (snd (f n))"
proof -
  have transfer: "money n (snd (check_transfer env tx n))" for n
    using assms(1) by (simp add: check_transfer_def split: option.split)
  have features: "money n (snd (features_for env tips n))" for tips n
    by (simp add: features_for_def money_encoded [OF assms(1)] split: list.split sum.split option.split)
  have explicit: "money n (snd (explicit_features env parents fo n))" for parents fo n
    by (simp add: explicit_features_def Let_def money_encoded [OF assms(1)] split: sum.split option.split)
  have choose: "money n (snd (choose_parents env fs tips n))" for fs tips n
    by (auto simp: choose_parents_def lift_op_def money_same split: prod.split)
  show ?thesis
    using assms(2) unfolding submits_def submit_message_with_transfer_def submit_message_with_parents_and_transfer_def
    by (elim disjE exE; simp only:; intro money_try features choose transfer explicit money_signed; simp)
qed

lemma money_fetched: "money n (snd (handle_incoming_message env m peer n))"
proof -
  have "money n (snd (incoming_admissible env m n))" for n
    by (simp add: incoming_admissible_def split: sum.split prod.split)
  then show ?thesis
    unfolding handle_incoming_message_def by (auto split: option.split sum.split intro!: money_try)
qed

lemma money_incoming: "money n (snd (process_incoming_messages env n))"
proof -
  have vrf: "nd_balances (process_vrf_message env m n) = nd_balances n" for m n
    by (auto simp: process_vrf_message_def split: option.split prod.split sum.split)
  have "money n (snd (accept_incoming env m n))" for m n
    unfolding accept_incoming_def by (intro money_try) (simp_all add: money_same vrf)
  then have loop: "money n (snd (incoming_loop env ms n))" for ms n
    by (induction ms arbitrary: n) (auto intro!: money_try)
  show ?thesis
    using money_trans [OF money_same loop] by (auto simp: process_incoming_messages_def split: option.split prod.split)
qed

lemma balances_throttle: "(\<And>n. nd_balances (f n) = nd_balances n) \<Longrightarrow> nd_balances (throttle env k f n) = nd_balances n"
  by (simp add: throttle_def)

lemma money_finality:
  assumes "ne_econ env = memory_ops keys" and "node_check_finality env n = Some (r, n')"
  shows "money n n'"
proof -
  have "nd_balances (emit_kcore_event n) = nd_balances n" for n :: "('a, memory_storage, 'b) adic_node"
    by (simp add: emit_kcore_event_def Let_def)
  then have kcore: "money n (emit_kcore_event n)" "money n (throttle env KCoreMetrics emit_kcore_event n)"
    for n :: "('a, memory_storage, 'b) adic_node"
    by (simp_all add: money_same balances_throttle)
  have settle: "money n (foldl (\<lambda>n i. settle_finalized env i n) (put_finality f n) ids)" for f ids
    using money_trans [OF money_same_parts(4) money_settle [OF assms(1)]] .
  obtain r1 f where run: "check_finality (ne_engine env) (finality_of n) = Some (r1, f)"
    using assms(2) by (auto simp: node_check_finality_def)
  show ?thesis
  proof (cases r1)
    case (Inl e)
    then show ?thesis using assms(2) run by (auto simp: node_check_finality_def)
  next
    case (Inr ids)
    then show ?thesis
      using assms(2) run money_trans [OF settle kcore(1)] money_trans [OF money_same_parts(4) [of n f] kcore(2)]
      by (cases "ids = []") (auto simp: node_check_finality_def Let_def)
  qed
qed

lemma money_round:
  assumes "ne_econ env = memory_ops keys" and "node_round env n = Some (r, n')"
  shows "money n n'"
proof -
  have diversity: "nd_balances (emit_diversity_event env tips n) = nd_balances n" for tips n
    by (simp add: emit_diversity_event_def Let_def)
  have "nd_balances (snd (update_tips env n)) = nd_balances n" for n
    by (simp add: update_tips_def Let_def balances_throttle diversity split: sum.split)
  then have tips: "money n (snd (update_tips env n))" for n by (simp add: money_same)
  have "nd_balances (snd (periodic_tasks env n)) = nd_balances n" for n
  proof -
    have "emit_admissibility_event env n1 = Inr n2 \<Longrightarrow> nd_balances n2 = nd_balances n1" for n1 n2
      by (auto simp: emit_admissibility_event_def bindE_Inr_iff Let_def split: sum.splits if_splits)
    then show ?thesis
      by (auto simp: periodic_tasks_def Let_def balances_throttle decay_reputations_def cleanup_conflicts_def emit_energy_event_def
          split: sum.split)
  qed
  then have tasks: "money n (snd (periodic_tasks env n))" for n by (simp add: money_same)
  have "nd_balances (check_epoch_transition env n) = nd_balances n" for n
    by (auto simp: check_epoch_transition_def Let_def split: prod.split sum.split)
  then have epoch: "money n (check_epoch_transition env n)" for n by (simp add: money_same)
  obtain r1 n1 where inc: "process_incoming_messages env n = (r1, n1)" by force
  then have m1: "money n n1" by (metis money_incoming snd_conv)
  show ?thesis
  proof (cases r1)
    case (Inl e)
    then show ?thesis using assms(2) inc m1 by (simp add: node_round_def)
  next
    case (Inr x)
    then obtain r2 n2 where fin: "node_check_finality env n1 = Some (r2, n2)"
      and rest: "Some (r, n') = (case r2 of Inl e \<Rightarrow> Some (Inl e, n2)
        | Inr _ \<Rightarrow> Some (tryR (update_tips env) (\<lambda>_. periodic_tasks env) (check_epoch_transition env n2)))"
      using assms(2) inc by (auto simp: node_round_def bind_eq_Some_conv)
    have m2: "money n n2" using money_trans [OF m1 money_finality [OF assms(1) fin]] .
    have "money n2 (snd (tryR (update_tips env) (\<lambda>_. periodic_tasks env) (check_epoch_transition env n2)))"
      by (rule money_trans [OF epoch], rule money_try) (rule tips, rule tasks)
    then show ?thesis using rest money_trans [OF m2] m2 by (cases r2) (auto, metis snd_conv)
  qed
qed

section \<open>Steps of a node\<close>

text \<open>What a client, a peer or the loop makes the node do, at any time. Its economics are those of the in-memory storage.\<close>

inductive node_step :: "(account_address set \<Rightarrow> account_address list) \<Rightarrow> ('s, memory_storage, 'p) adic_node \<Rightarrow> ('s, memory_storage, 'p) adic_node \<Rightarrow> bool"
  for keys where
  step_submit: "ne_econ env = memory_ops keys \<Longrightarrow> submits env content tx f \<Longrightarrow> node_step keys n (snd (f n))"
| step_message: "node_step keys n (snd (handle_incoming_message env m peer n))"
| step_artifact: "node_step keys n (snd (handle_finality_artifact env a n))"
| step_reputation: "node_step keys n (handle_reputation_sync env msg n)"
| step_round: "ne_econ env = memory_ops keys \<Longrightarrow> node_round env n = Some (r, n') \<Longrightarrow> node_step keys n n'"

lemma money_step: "node_step keys n n' \<Longrightarrow> money n n'"
proof (induction rule: node_step.induct)
  case (step_artifact n env a)
  show ?case
    unfolding handle_finality_artifact_def network_store_def [symmetric]
    by (auto split: option.split prod.split intro!: money_try simp: lift_op_def on_store_def money_same)
qed (simp_all add: money_submit money_fetched money_round money_same handle_reputation_sync_def)

section \<open>Messages that the network already stored\<close>

lemma submit_signed_accepts:
  assumes memory: "ne_backend env = memory_backend ord" and deposits: "dm_balances (cx_deposits (nd_consensus n)) = None"
    and "acceptable (ne_crypto env) (cx_validator (nd_consensus n)) (ne_now env) m" and "admitted env n m"
    and new: "am_id m \<notin> dom (st_messages (nd_storage n))"
  obtains n' where "published env n m n'"
    "submit_signed env announce m n = ((if nd_pipeline n = None then Inr (am_id m) else Inl (NodeAdic StorageError)), n')"
proof -
  obtain amount n1 where esc: "escrow_deposit env m n = (Inr amount, n1)"
    using deposits by (simp add: escrow_deposit_def on_deposits_def lift_op_def deposit_escrow_def if_balances_def tryR_def Let_def)
  then have g1: "same_graph n n1" by (metis same_graph_escrow snd_conv)
  have adm: "require_admissible env amount m n1 = (Inr (), n1)"
    using assms(4) escrow_ok [OF esc] g1 fetch_parents_cong [of n1 n env]
    by (auto simp: require_admissible_def admitted_def same_graph_def)
  have val: "require_valid env amount m n1 = (Inr (), n1)"
    using assms(3) escrow_ok(3) [OF esc]
    by (simp add: require_valid_def tryR_def node_validate_def on_consensus_def lift_op_def validate_and_slash_def Let_def
        validate_message_acceptable)
  have stored: "\<exists>n2. store_and_index env unknown m n1 = (Inr (), n2) \<and> st_messages (nd_storage n2) (am_id m) = Some m" for unknown
    using memory
  proof (cases rule: store_and_index_cases [of env ord unknown m n1])
    case (refused e n')
    have "am_id m \<notin> dom (dg_messages (memory_dag (nd_storage n1)))" using new g1 by (simp add: same_graph_def memory_dag_messages)
    from memdag.store_new [OF this, of ord] memory have "\<exists>n2. on_store (store_message (ne_backend env) m) n1 = (Inr (), n2)"
      by (cases "store_message (memory_backend ord) m (nd_storage n1)") (simp add: on_store_def lift_op_def)
    then show ?thesis using refused by (auto simp: store_and_index_def)
  next
    case (stored n')
    have "dg_messages (memory_dag (nd_storage n')) (am_id m) = Some m" by (simp add: stored(3))
    then show ?thesis using stored(1) by (auto simp: memory_dag_messages)
  qed
  from memory show thesis
  proof (cases rule: submit_signed_cases [of env ord announce m n])
    case (refused e n')
    obtain n2 where n2: "store_and_index env (if announce then [0] else []) m n1 = (Inr (), n2)" "st_messages (nd_storage n2) (am_id m) = Some m"
      using stored by blast
    let ?n3 = "await_finality m ((if announce then announce_message env m else id) n2)"
    have run: "submit_signed env announce m n = tryR (network_broadcast env m) (\<lambda>_. okR (am_id m)) ?n3"
      using esc adm val n2 by (simp add: submit_signed_def)
    have known: "st_messages (nd_storage ?n3) (am_id m) = Some m" using n2(2) by simp
    have "am_id m \<in> dom (st_messages (nd_storage n'))"
    proof (cases "nd_pipeline ?n3 = None")
      case True
      then show ?thesis using run refused by (simp add: network_broadcast_def)
    next
      case False
      have "am_signature m \<noteq> []" using assms(3) by (auto simp: acceptable_def)
      then obtain n4 where "network_broadcast env m ?n3 = (Inl (NodeAdic StorageError), n4)" "graph_of n4 = graph_of ?n3"
        using broadcast_known [OF memory _ False, of m] known by blast
      then have "n' = n4" "memory_dag (nd_storage n4) = memory_dag (nd_storage ?n3)" using run refused by (simp_all add: graph_of_def)
      then show ?thesis using known by (metis domI memory_dag_messages(1))
    qed
    then have False using refused(2) new by (auto simp: graph_of_def dest: arg_cong [where f = dg_messages] simp: memory_dag_messages)
    then show thesis ..
  next
    case (published n')
    then show thesis by (rule that)
  qed
qed

lemma invalid_without_deposit:
  assumes "deposit_get_state (cx_deposits (nd_consensus n)) (am_id m) \<noteq> Some Escrowed"
    and "node_validate env m n = (Inr r, n')"
  shows "vr_is_valid r \<and> n' = n"
proof (rule ccontr)
  assume "\<not> (vr_is_valid r \<and> n' = n)"
  then have bad: "\<not> vr_is_valid (validate_message (ne_crypto env) (cx_validator (nd_consensus n)) (ne_now env) m)"
    using node_validate_result [OF assms(2)] by auto
  have "\<exists>e. fst (deposit_slash (ee_blake3 (ne_engine env)) (ne_hex env) (ne_econ env) (ne_now env) (am_id m) (cx_deposits (nd_consensus n))) = Inl e"
    using assms(1) by (auto simp: deposit_slash_def deposit_get_state_def split: option.split)
  then show False
    using assms(2) bad by (auto simp: node_validate_def on_consensus_def lift_op_def validate_and_slash_def Let_def tryR_def split: prod.splits sum.splits)
qed

lemma stored_message_stops:
  assumes memory: "ne_backend env = memory_backend ord" and pipeline: "nd_pipeline n = Some p"
    and pending: "get_pending_messages p = (m # ms, p')" and stored: "am_id m \<in> dom (st_messages (nd_storage n))"
    and deposit: "deposit_get_state (cx_deposits (nd_consensus n)) (am_id m) \<noteq> Some Escrowed"
  shows "\<exists>e n'. node_round env n = Some (Inl e, n')"
proof -
  let ?n = "n\<lparr>nd_pipeline := Some p'\<rparr>"
  obtain r n1 where val: "node_validate env m ?n = (r, n1)" by force
  have "\<exists>e n'. incoming_loop env (m # ms) ?n = (Inl e, n')"
  proof (cases r)
    case (Inl e)
    then show ?thesis using val by simp
  next
    case (Inr result)
    have ok: "vr_is_valid result" "n1 = ?n"
      using invalid_without_deposit [of ?n m env result n1] deposit val Inr by auto
    obtain s where "on_store (store_message (ne_backend env) m) ?n = (Inl (NodeStorage AlreadyExists), ?n\<lparr>nd_storage := s\<rparr>)"
      using stored by (rule_tac store_known_fails [OF memory, of m ?n]) simp_all
    then have "accept_incoming env m ?n = (Inl (NodeStorage AlreadyExists), ?n\<lparr>nd_storage := s\<rparr>)" by (simp add: accept_incoming_def)
    then show ?thesis using val Inr ok by (simp add: tryR_def)
  qed
  then show ?thesis using pipeline pending by (auto simp: node_round_def process_incoming_messages_def)
qed

section \<open>Artifacts of peers\<close>

lemma finalized_kept: "same_tracking e e' \<Longrightarrow> engine_is_finalized e' i = engine_is_finalized e i"
  by (simp add: same_tracking_def engine_is_finalized_def)

lemma f1_loop_skips:
  assumes "f1_loop env is newly e = Some (Inr ids, e')" and "engine_is_finalized e i" and "i \<notin> set newly"
  shows "i \<notin> set ids"
  using assms
proof (induction "is" arbitrary: newly e)
  case (Cons j "is")
  show ?case
  proof (cases "engine_is_finalized e j")
    case True
    then show ?thesis using Cons by simp
  next
    case False
    then have ne: "j \<noteq> i" using Cons.prems(2) by auto
    obtain result e1 where an: "analyze_pending env j e = Some (result, e1)"
      using Cons.prems(1) False by (auto split: option.splits)
    have fin1: "engine_is_finalized e1 i" using finalized_kept [OF analyze_pending_tracking [OF an]] Cons.prems(2) by simp
    show ?thesis
    proof (cases "kr_is_final result")
      case True
      then have "tryD (finalize_f1 env j result) (\<lambda>_. f1_loop env is (newly @ [j])) e1 = Some (Inr ids, e')"
        using Cons.prems(1) False an by simp
      then show ?thesis
      proof (cases rule: tryD_SomeE)
        case (ok x e2)
        from finalize_f1_cases [OF ok(1)] fin1 have "engine_is_finalized e2 i" by (auto simp: engine_is_finalized_def)
        then show ?thesis using Cons.IH [OF ok(2)] Cons.prems(3) ne by simp
      qed simp
    next
      case False
      then show ?thesis using Cons.prems \<open>\<not> engine_is_finalized e j\<close> an Cons.IH [of newly e1] fin1 by simp
    qed
  qed
qed simp

lemma check_finality_skips:
  assumes "check_finality env e = Some (Inr ids, e')" and "\<not> fg_f2_enabled (fe_config e)" and "engine_is_finalized e i"
  shows "i \<notin> set ids"
proof -
  have "tryD (if fg_f1_enabled (fe_config e) then f1_loop env (fe_pending e) [] else okD [])
      (\<lambda>newly. tryD (modD (clean_pending newly)) (\<lambda>_. okD newly)) e = Some (Inr ids, e')"
    using assms(1,2) by (simp add: check_finality_def check_f1_def)
  then show ?thesis
  proof (cases rule: tryD_SomeE)
    case (ok newly e1)
    then have "ids = newly" by simp
    then show ?thesis using ok(1) f1_loop_skips [of env "fe_pending e" "[]" e newly e1 i] assms(3) by (auto split: if_splits)
  qed simp
qed

section \<open>A message in an empty pipeline\<close>

lemma submitted_pending:
  assumes "pipeline_submit now m peer (message_pipeline_new c) = (Inr (), p)"
  shows "\<exists>p'. get_pending_messages p = ([m], p')"
proof -
  let ?pri = "determine_priority m"
  obtain ok limiter where rl: "check_rate_limit now peer (pp_limiter (message_pipeline_new c)) = (ok, limiter)" by force
  let ?P = "(message_pipeline_new c)\<lparr>pp_limiter := limiter\<rparr>"
  let ?q = "\<lparr>qx_message = m, qx_priority = ?pri, qx_source = peer, qx_received_at = now, qx_attempts = 0\<rparr>"
  obtain stats where p: "p = send_event (MessageQueued (am_id m) ?pri) ((set_queue ?pri (queue_of ?pri ?P @ [?q]) ?P)\<lparr>pp_stats := stats\<rparr>)"
    using assms rl by (auto simp: pipeline_submit_def Let_def split: if_splits)
  show ?thesis
    by (cases ?pri) (simp_all add: p send_event_def get_pending_messages_def drain_to_def Let_def message_pipeline_new_def)
qed

section \<open>A sample node\<close>

definition node_crypto :: crypto_env where
  "node_crypto = \<lparr>cr_compute_id = (\<lambda>_. replicate 32 9), cr_to_bytes = (\<lambda>_. []), cr_valid_key = (\<lambda>_. True), cr_verify = (\<lambda>_ _ _. True)\<rparr>"

definition node_sample_env :: "(message_store, memory_storage, string) node_env" where
  "node_sample_env =
     \<lparr>ne_engine = sample_env\<lparr>ee_backend := memory_backend (\<lambda>_. []), ee_artifact_json := (\<lambda>_. Some [])\<rparr>, ne_crypto = node_crypto,
      ne_params = params_default, ne_encoders = [], ne_key = [1], ne_wallet_key = [1], ne_sign = (\<lambda>_. replicate 64 7), ne_hex = (\<lambda>_. ''''),
      ne_dec = (\<lambda>_. ''''), ne_axes = (\<lambda>_. []), ne_rnd = (\<lambda>_ _ _. 0), ne_instant = 0, ne_peer = ''self'', ne_serializes = (\<lambda>_. True),
      ne_commit_json = (\<lambda>_. None), ne_open_json = (\<lambda>_. None)\<rparr>"

definition sample_node :: "string message_pipeline option \<Rightarrow> (message_store, memory_storage, string) adic_node" where
  "sample_node pipeline =
     \<lparr>nd_consensus = consensus_engine_new params_default, nd_mrw = mrw_engine_new params_default, nd_storage = message_store_new,
      nd_finality = finality_engine_new (finality_config_of params_default) params_default message_store_new
        (deposit_manager_new (1 / 10)) (reputation_tracker_new (9 / 10)),
      nd_balances = balance_manager_new memory_storage_new, nd_pipeline = pipeline, nd_index = message_index_new, nd_tips = tip_manager_new,
      nd_vrf = vrf_service_new vrf_config_default (reputation_tracker_new (9 / 10)), nd_epoch = 0, nd_throttle = (\<lambda>_. 0), nd_events = []\<rparr>"

definition sample_signed :: adic_message where
  "sample_signed = node_message node_sample_env [] \<lparr>af_phi = [axis_phi_new 0 \<lparr>qd_digits = [1, 0], qd_p = 3\<rparr>]\<rparr> None [5]"

lemma node_sample_simps:
  "ne_backend node_sample_env = memory_backend (\<lambda>_. [])" "ne_econ node_sample_env = memory_ops (\<lambda>_. [])" "ne_now node_sample_env = 0"
  "nd_pipeline (sample_node pl) = pl" "nd_storage (sample_node pl) = message_store_new" "nd_balances (sample_node pl) = balance_manager_new memory_storage_new"
  "dm_balances (cx_deposits (nd_consensus (sample_node pl))) = None" "cx_validator (nd_consensus (sample_node pl)) = message_validator_new"
  "dm_deposits (cx_deposits (nd_consensus (sample_node pl))) = Map.empty" "\<not> fg_f2_enabled (fe_config (nd_finality (sample_node pl)))"
  by (simp_all add: node_sample_env_def sample_env_def sample_node_def consensus_engine_new_def deposit_manager_new_def
      finality_engine_new_def finality_config_of_def)

lemma sample_signed_simps: "am_id sample_signed = replicate 32 9" "am_parents sample_signed = []" "am_signature sample_signed = replicate 64 7"
  "am_data sample_signed = [5]" "am_transfer sample_signed = None" "am_proposer sample_signed = [1]" "mt_timestamp (am_meta sample_signed) = 0"
  "af_phi (am_features sample_signed) = [axis_phi_new 0 \<lparr>qd_digits = [1, 0], qd_p = 3\<rparr>]"
  by (simp_all add: sample_signed_def node_message_def adic_message_new_def Let_def node_sample_env_def node_crypto_def meta_new_def sample_env_def)

lemma sample_acceptable: "acceptable (ne_crypto node_sample_env) message_validator_new 0 sample_signed"
proof -
  have "ne_crypto node_sample_env = node_crypto" by (simp add: node_sample_env_def)
  then show ?thesis
    unfolding acceptable_def sample_signed_simps
    by (simp only: node_crypto_def crypto_env.simps, intro conjI) (simp_all add: message_validator_new_def axis_phi_new_def)
qed

section \<open>Properties\<close>

text \<open>C8: Publishing a signed message succeeds exactly when the message is valid, admissible with respect to its parents unless it has
  none, and not stored yet, provided the node is not networked, stores in memory and its deposits lock no balance,
  as in the node that \<open>new\<close> makes without networking.\<close>

theorem submission_succeeds_iff:
  assumes "ne_backend env = memory_backend ord" and "nd_pipeline n = None" and "dm_balances (cx_deposits (nd_consensus n)) = None"
  shows "is_ok (fst (submit_signed env announce m n)) \<longleftrightarrow>
    acceptable (ne_crypto env) (cx_validator (nd_consensus n)) (ne_now env) m \<and> admitted env n m \<and> am_id m \<notin> dom (st_messages (nd_storage n))"
    (is "_ \<longleftrightarrow> ?ok")
proof
  assume ok: "is_ok (fst (submit_signed env announce m n))"
  show ?ok
  proof (rule submit_signed_cases [OF assms(1), of announce m n])
    fix e n' assume "submit_signed env announce m n = (Inl e, n')"
    with ok show ?ok by simp
  next
    fix n' assume "published env n m n'"
    then show ?ok by (simp add: published_def)
  qed
next
  assume ?ok
  then have acc: "acceptable (ne_crypto env) (cx_validator (nd_consensus n)) (ne_now env) m" "admitted env n m"
    "am_id m \<notin> dom (st_messages (nd_storage n))" by blast+
  show "is_ok (fst (submit_signed env announce m n))"
    by (rule submit_signed_accepts [OF assms(1,3) acc, of announce]) (simp add: assms(2))
qed

lemma submission_succeeds_iff_witness: "is_ok (fst (submit_signed node_sample_env True sample_signed (sample_node None)))"
  using submission_succeeds_iff [OF node_sample_simps(1) node_sample_simps(4) node_sample_simps(7)] sample_acceptable
  by (simp add: node_sample_simps admitted_def sample_signed_simps message_store_new_def)

text \<open>C1: Every submission ends in one of two ways: either it fails and the graph, the index, the tips and what awaits finality are
  as before, or a message with the given content and transfer, signed by the node, is published: it is stored, a tip in the
  place of its parents, awaits finality and has its deposit in escrow. In a networked node with the in-memory
  backend a published message is reported as an error of the storage all the same, since the network stores it again: there no
  submission succeeds.\<close>

theorem submission_outcome:
  assumes "ne_backend env = memory_backend ord" and "submits env content tx f"
  shows "(\<exists>e n'. f n = (Inl e, n') \<and> graph_of n' = graph_of n) \<or>
    (\<exists>m n'. published env n m n' \<and> am_data m = content \<and> am_transfer m = tx \<and> am_proposer m = ne_key env \<and>
      f n = ((if nd_pipeline n = None then Inr (am_id m) else Inl (NodeAdic StorageError)), n'))"
  using assms(1,2)
proof (cases rule: submit_cases [of env ord content tx f n])
  case (refused e n')
  then show ?thesis by blast
next
  case (published m n')
  then show ?thesis by blast
qed

lemma submission_outcome_witness:
  "\<exists>e. fst (submit_message_with_transfer node_sample_env [5] None (sample_node (Some (message_pipeline_new pipeline_config_default)))) = Inl e"
proof -
  have "submits node_sample_env [5] None (submit_message_with_transfer node_sample_env [5] None)" by (simp add: submits_def)
  from submission_outcome [OF node_sample_simps(1) this, of "sample_node (Some (message_pipeline_new pipeline_config_default))"]
  show ?thesis by (auto simp: node_sample_simps)
qed


lemma sample_accepted:
  "is_ok (fst (handle_incoming_message node_sample_env sample_signed ''p'' (sample_node (Some (message_pipeline_new pipeline_config_default)))))"
proof -
  let ?n = "sample_node (Some (message_pipeline_new pipeline_config_default))"
  have new: "am_id sample_signed \<notin> dom (dg_messages (memory_dag (nd_storage ?n)))"
    by (simp add: memory_dag_messages node_sample_simps message_store_new_def)
  have fresh: "sb_get_message (ne_backend node_sample_env) (am_id sample_signed) (nd_storage ?n) = Inr None"
    by (simp add: node_sample_simps memory_backend_def mb_get_message_def message_store_new_def)
  obtain s where store: "network_store node_sample_env sample_signed ?n = (Inr (), ?n\<lparr>nd_storage := s\<rparr>)"
    using memdag.store_new [OF new, of "\<lambda>_. []"]
    by (cases "store_message (memory_backend (\<lambda>_. [])) sample_signed (nd_storage ?n)") (simp add: network_store_def on_store_def lift_op_def node_sample_simps(1))
  have sig: "crypto_verify_signature (ne_crypto node_sample_env) sample_signed (am_proposer sample_signed) (am_signature sample_signed) = Inr True"
    by (simp add: crypto_verify_signature_def node_sample_env_def node_crypto_def sample_signed_simps del: replicate_numeral)
  have signed: "am_signature sample_signed \<noteq> []" by (simp add: sample_signed_simps del: replicate_numeral)
  obtain p where "pipeline_submit 0 sample_signed ''p'' (message_pipeline_new pipeline_config_default) = (Inr (), p)"
  proof -
    have "determine_priority sample_signed = PriorityNormal"
      by (simp add: determine_priority_def has_value_transfer_def sample_signed_simps conflict_is_none_def conflict_none_def
          sample_signed_def node_message_def adic_message_new_def Let_def meta_new_def)
    then show thesis using that
      by (simp add: pipeline_submit_def Let_def message_pipeline_new_def pipeline_config_default_def check_rate_limit_def rate_limiter_new_def
          recent_def list_at_def send_event_def)
  qed
  then have "to_pipeline node_sample_env sample_signed ''p'' (await_finality sample_signed (?n\<lparr>nd_storage := s\<rparr>)) =
      (Inr (), (await_finality sample_signed (?n\<lparr>nd_storage := s\<rparr>))\<lparr>nd_pipeline := Some p\<rparr>)"
    by (simp add: to_pipeline_def lift_op_def node_sample_simps) (simp add: node_sample_env_def)
  moreover have "ne_serializes node_sample_env sample_signed" by (simp add: node_sample_env_def)
  ultimately show ?thesis
    unfolding handle_incoming_message_def fresh sum.case option.case
    using store sig signed by (simp add: incoming_admissible_def sample_signed_simps(2) network_relay_def)
qed




text \<open>C3: Nothing that clients, peers and the main loop make a node do creates or destroys money: after any sequence of submissions,
  messages, artifacts and reputations from peers, and rounds of the loop, the cache of the balances still agrees with the
  storage, and the balances of every finite set of accounts that holds a certain finite set, the parties of the
  transfers, sum up as before.\<close>

theorem node_conserves_money:
  assumes "(node_step keys)\<^sup>*\<^sup>* n n'" and "coherent mem_view (nd_balances n)"
  shows "coherent mem_view (nd_balances n') \<and>
    conserved (ledger_of mem_view (nd_balances n)) (ledger_of mem_view (nd_balances n'))"
proof -
  from assms(1) have "money n n'"
  proof (induction rule: rtranclp_induct)
    case (step n1 n2)
    then show ?case using money_trans money_step by blast
  qed simp
  then show ?thesis using assms(2) by (simp add: money_def)
qed

lemma node_conserves_money_witness:
  "conserved empty_ledger (ledger_of mem_view (nd_balances (snd (submit_message_with_transfer node_sample_env [5] None (sample_node None)))))"
proof -
  have "submits node_sample_env [5] None (submit_message_with_transfer node_sample_env [5] None)" by (simp add: submits_def)
  then have "(node_step (\<lambda>_. []))\<^sup>*\<^sup>* (sample_node None) (snd (submit_message_with_transfer node_sample_env [5] None (sample_node None)))"
    using step_submit [OF node_sample_simps(2)] by blast
  moreover have view: "mem_view memory_storage_new = empty_ledger"
    by (simp add: mem_view_def memory_storage_new_def empty_ledger_def get_or_def fun_eq_iff)
  then have "coherent mem_view (nd_balances (sample_node None))" "ledger_of mem_view (nd_balances (sample_node None)) = empty_ledger"
    unfolding node_sample_simps by (rule coherent_new) (simp add: ledger_of_def balance_manager_new_def view)
  ultimately show ?thesis using node_conserves_money by metis
qed

text \<open>The features of a message that follows a tip lie in the tip's ball on every axis, and differ from those of the tip: as many
  axes, numbered in their order, with the digits of the tip up to the radius of the axis and one other digit changed, when
  the tip has more digits than that.\<close>

theorem new_features_near_tip:
  assumes "i < length (af_phi (am_features tip))"
    and "tip_radius prm i < length (qd_digits (ap_digits (af_phi (am_features tip) ! i)))"
  shows "length (af_phi (tip_features prm tip)) = length (af_phi (am_features tip)) \<and>
    ap_axis (af_phi (tip_features prm tip) ! i) = AxisId (of_nat i) \<and>
    qp_ball_id (ap_digits (af_phi (tip_features prm tip) ! i)) (tip_radius prm i) =
      qp_ball_id (ap_digits (af_phi (am_features tip) ! i)) (tip_radius prm i) \<and>
    qd_digits (ap_digits (af_phi (tip_features prm tip) ! i)) \<noteq> qd_digits (ap_digits (af_phi (am_features tip) ! i))"
proof -
  have "qd_digits (ap_digits (af_phi (am_features tip) ! i)) \<noteq> []" using assms(2) by auto
  from perturb_ne [OF this, of "tip_radius prm i"] show ?thesis
    using assms by (simp add: tip_features_def nth_enumerate_eq axis_phi_new_def qp_ball_id_def perturb_ball)
qed

lemma new_features_near_tip_witness:
  "qp_ball_id (ap_digits (af_phi (tip_features (params_default\<lparr>prm_rho := [1]\<rparr>) sample_signed) ! 0)) 1 = [1]"
  using new_features_near_tip [of 0 sample_signed "params_default\<lparr>prm_rho := [1]\<rparr>"]
  by (simp add: sample_signed_simps tip_radius_def axis_phi_new_def qp_ball_id_def vget_def)

end
