(* ===== verification/Spec2Isabelle.thy ===== *)
theory Spec2Isabelle
  imports Padic_Math Balance Supply Treasury Emission Admissibility Deposit_Escrow Challenges Finality_Engine Proposals Worker_Selection
    Pouw_Receipts Market_Deals Market_Proofs Parent_Selection Storage_Index Message_Pipeline Node_Safety
begin

text \<open>
  A verification development for the node software of \<open>adic-core\<close>: a ledger over a directed acyclic graph of
  messages whose parents are chosen by p-adic diversity, made final by k-cores (F1) and by persistent
  homology (F2), with an economy, governance, proof of useful work and a storage market on top of it. The sources
  are the Rust crates under \<open>src/crates\<close>; every definition that models code is a translation of the function or
  type it is named after.

  \<^bold>\<open>The parts and how they interact.\<close> A message carries features, which are vectors of p-adic digits. The
  encoders make the digits, \<open>adic-math\<close> and the ultrametric validator compute valuations and distances of
  them, the admissibility check decides about the parents of a message with the reputations of their
  authors, and the message store keeps the graph. The finality engine analyses the graph: the k-core
  analyzer looks at the descendants of a message, the F2 checker at the homology of windows of messages; a
  final message has its deposit refunded and enters a checkpoint. Everything that is paid passes
  through \<open>BalanceManager\<close>, on top of the storage interface of the economics crate: the treasury, the emission,
  deposits and escrows, rewards, grants and the storage market are its clients. Randomness comes from
  the commit-reveal protocol of \<open>adic-vrf\<close>, committees from \<open>adic-quorum\<close>, windows and arbitration from
  \<open>adic-challenges\<close>, threshold signatures from \<open>adic-crypto\<close> and the coordinator of \<open>adic-pouw\<close>; governance, the work
  tasks and the storage market are the applications that use them.

  \<^bold>\<open>Conventions.\<close> (Theory \<open>Prelude\<close>.)
    \<^item> The release profile is modelled: sums, differences and products of \<open>u64\<close> and the other machine types
      wrap, as operations on words do; \<open>checked_\<close> and \<open>saturating_\<close> operations are defined as such. Where wrap-around
      can not happen under a bound, the bound is a hypothesis or is proved.
    \<^item> \<open>f64\<close> is the real numbers: sums and products are exact, conversions to integers truncate and saturate
      as in Rust, and the values that are not numbers are written out where a branch depends on them.
    \<^item> An \<open>async fn\<close> of a manager is a function from its state to a result and the state it leaves: type
      \<open>rop\<close>, with \<open>Inl\<close> for the error and the state as the early return left it. \<open>tryR\<close> is the question mark.
      The steps of one call are atomic; a call that blocks on a lock it holds itself returns \<open>None\<close>. Panics are
      errors of their own.
    \<^item> The clock is the argument \<open>now\<close>, in milliseconds. The order in which a hash map or a set is read is an
      argument, and the theorems hold for every order.
    \<^item> Code that is not in the repository is a parameter: the hash functions, the hexadecimal and decimal
      writers, the pairing-based signatures and the polynomial arithmetic of their library. What a theorem
      needs of them (an injective hash on the inputs that occur, say) is a hypothesis with a witness.
    \<^item> Loops over data are structural recursion; the reduction of matrices, whose end is proved, is a
      \<open>partial_function\<close> in the option type, and so are the walks over the message graph. No result is cut short by
      fuel.

  \<^bold>\<open>Interfaces.\<close> \<open>economics_storage\<close> states what the balance manager needs of a storage, and is interpreted by the
  model of \<open>MemoryStorage\<close>; the ledger refinement and all the results about payments are proved inside
  it. \<open>message_backend\<close> and \<open>metadata_backend\<close> are the contracts of the message store and of the stores of tasks and
  inputs, interpreted by \<open>MemoryBackend\<close>; \<open>score_service\<close> is what the quorum selection needs of the randomness,
  interpreted by \<open>VRFService\<close>; \<open>quorum_vote\<close> is the contract of a vote, interpreted by plain votes and by the votes of
  arbitrators.

  \<^bold>\<open>The theories.\<close>
    \<^item> \<open>Padic_Types\<close>, \<open>Core_Types\<close>, \<open>Economics_Types\<close>: the data of \<open>adic-types\<close> and \<open>adic-economics\<close> (features, messages,
      transfers, parameters, amounts, addresses). \<open>Encoders\<close>: \<open>encoders.rs\<close>; what is encoded can be read back.
    \<^item> \<open>Padic_Math\<close>: \<open>adic-math\<close>; the valuations, distances and balls of the code are those of the p-adic
      numbers. \<open>Admissibility\<close>: \<open>ultrametric_security.rs\<close> and \<open>admissibility.rs\<close>; what an accepted verdict means.
    \<^item> \<open>Economics_Storage\<close>, \<open>Balance\<close>: \<open>storage.rs\<close> and \<open>balance.rs\<close>; the manager with its caches implements an abstract
      ledger, transfers conserve the total and are not replayed. \<open>Supply\<close>, \<open>Treasury\<close>, \<open>Emission\<close>: \<open>supply.rs\<close>,
      \<open>treasury.rs\<close>, \<open>emission.rs\<close>; the supply is accounted for, the treasury pays approved proposals only.
    \<^item> \<open>Deposit_Escrow\<close>: \<open>deposit.rs\<close> of the consensus crate and \<open>escrow.rs\<close>; a deposit is settled once.
    \<^item> \<open>Reputation\<close>, \<open>Vrf\<close>, \<open>Quorum\<close>, \<open>Challenges\<close>: \<open>reputation.rs\<close> and the crates \<open>adic-vrf\<close>, \<open>adic-quorum\<close> and
      \<open>adic-challenges\<close>; bounds of reputations, final randomness, sound committees, windows that a challenge
      holds open.
    \<^item> \<open>Threshold_Keys\<close>, \<open>Bls_Coordinator\<close>: \<open>bls.rs\<close>, \<open>dkg.rs\<close>, \<open>dkg_manager.rs\<close>, \<open>bls_coordinator.rs\<close>; a signature needs a
      threshold of members.
    \<^item> \<open>Json\<close>, \<open>Param_Store\<close>: canonical JSON, the live parameters and their registry; stored parameters are
      valid. \<open>Voting\<close>, \<open>Grants\<close>, \<open>Proposals\<close>: the types, the overlap penalties, the votes, the grants and the life cycle
      of \<open>adic-governance\<close>.
    \<^item> \<open>Message_Storage\<close>: \<open>adic-storage\<close>; the links of the graph are consistent and acyclic. \<open>Kcore\<close>: \<open>kcore.rs\<close>; the
      analysis finds the largest k-core. \<open>Simplicial\<close>, \<open>Reduction\<close>, \<open>Persistence\<close>, \<open>F2_Finality\<close>: the modules of
      \<open>ph\<close>; the boundary of a boundary vanishes, the reduction ends with a matching of the simplices,
      a final window is stable. \<open>Checkpoints\<close>, \<open>Finality_Engine\<close>: \<open>checkpoint.rs\<close>, \<open>artifact.rs\<close>, \<open>engine.rs\<close>; checkpoints
      form a chain and artifacts certify what they name.
    \<^item> \<open>Pouw_Tasks\<close>, \<open>Pouw_Incentives\<close>, \<open>Worker_Selection\<close>, \<open>Pouw_Validation\<close>, \<open>Pouw_Receipts\<close>: \<open>adic-pouw\<close>; the life cycle
      of tasks, rewards within the reward, diverse workers, what receipts bind.
    \<^item> \<open>Market_Types\<close>, \<open>Market_Intents\<close>, \<open>Market_Deals\<close>, \<open>Market_Proofs\<close>: \<open>adic-storage-market\<close>; deposits, deals that are
      backed by escrow and collateral, releases that match balances.
    \<^item> \<open>Conflict_Energy\<close>, \<open>Message_Validation\<close>: \<open>energy_descent.rs\<close>, \<open>validation.rs\<close> and the consensus engine of \<open>adic-consensus\<close>;
      the support and the energy of a conflict, what a valid message is, and what the cache of verdicts
      answers. \<open>Parent_Selection\<close>: \<open>adic-mrw\<close>, with its random draws as an argument; when a selection can pass at all.
    \<^item> \<open>Storage_Index\<close>: \<open>index.rs\<close>, the indexes and the scored tips; removing undoes adding. \<open>Message_Pipeline\<close>: \<open>pipeline.rs\<close>, the
      queue of messages from peers; no peer passes its limit in any window of time.
    \<^item> \<open>Node_Messages\<close>, \<open>Node_Safety\<close>: \<open>node.rs\<close> and the operations of the network engine (\<open>lib.rs\<close> of \<open>adic-network\<close>) that it
      calls. The first composes the components to the node: submission, transfers, messages and artifacts
      of peers, the round of the main loop. The node holds the store, the deposits and the reputations once;
      \<open>finality_of\<close> and \<open>put_finality\<close> hand them to the finality engine, which shares them in the code. The second proves what
      becomes of every submission, when one succeeds, what an accepted message of a peer and an artifact
      of a peer do to the node, and that no sequence of the node's steps creates or loses money.

  \<^bold>\<open>What the lemmas show.\<close> Each component has its invariant and the lemma that every operation keeps
  it, the effect of its operations on every branch, and a run theorem over arbitrary sequences of
  commands (\<open>_exec\<close> and \<open>_reach\<close>), from which the properties are read off. Some theorems state behaviour that
  the code has and that its comments exclude; they are listed as findings of the manifest.

  \<^bold>\<open>Not modelled.\<close> The command line, the HTTP and WebSocket interfaces, configuration files,
  logging, metrics and self-update of \<open>adic-node\<close>, and the transport, discovery and synchronisation of
  \<open>adic-network\<close>, which move data between the modelled components and the outside; the RocksDB backend and the
  snapshots, which write the contents of the modelled store to disk; the wrappers around ciphers and
  signatures, whose substance is in libraries.
  Of \<open>node.rs\<close>, the construction of the node, its calls of governance and the messages of key generation; of the
  network engine, connections, discovery, synchronisation, updates and transport.
\<close>

section \<open>A deal from its compilation to its payments\<close>

text \<open>What is recorded as released for the deals of a provider is what is recorded for the one deal that has an
  escrow.\<close>

lemma paid_to_single:
  assumes "finite (dom released)" and "\<And>i. (case released i of None \<Rightarrow> 0 | Some r \<Rightarrow> units r) \<le> units (if i = j then x else ADIC_ZERO)"
  shows "paid_to provider released a \<le> (if provider j = a then units x else 0)"
proof -
  let ?w = "\<lambda>i. case the (keyed released i) of (i, r) \<Rightarrow> if provider i = a then units r else 0"
  have dom: "dom (keyed released) = dom released" by (auto simp: keyed_def dom_def)
  have w: "?w i \<le> (if i = j \<and> provider j = a then units x else 0)" if "i \<in> dom released" for i
    using that assms(2) [of i] by (auto simp: keyed_def ADIC_ZERO_def split: if_splits)
  have "paid_to provider released a \<le> (\<Sum>i\<in>dom released. if i = j \<and> provider j = a then units x else 0)"
    unfolding paid_to_def weight_def dom by (rule sum_mono) (rule w)
  also have "\<dots> \<le> (if provider j = a then units x else 0)"
    using assms(1) by (cases "provider j = a") simp_all
  finally show ?thesis .
qed



end
